(* ===== verification/Xy_Prelude.thy ===== *)
theory Xy_Prelude
  imports Main "HOL-Library.Word" "HOL-Library.Monad_Syntax"
begin

text \<open>
  Vocabulary shared by every component of the XinYi framework: the fixed-width integer types
  of \<open>xy_typedef.h\<close>, memory objects as lists of cells, and the lemmas on lists, options and
  words that the component theories use.

  Conventions.
  \<^item> A C object of \<open>n\<close> cells is a list of length \<open>n\<close>. A pointer into it is the pair of the
    object and an offset, or the suffix of the list that starts at the pointer.
  \<^item> A pointer argument that the code compares with \<open>NULL\<close> is an \<open>option\<close>: \<open>None\<close> is
    \<open>NULL\<close>.
  \<^item> A function that can reach undefined behaviour (an access outside an object, a null
    dereference, a division by zero, an oversized shift, a signed overflow) returns an
    \<open>option\<close> whose \<open>None\<close> means that the C program has no defined behaviour there. Error
    codes of the code itself are ordinary values, never \<open>None\<close>.
\<close>

unbundle bit_operations_syntax

type_synonym u8 = "8 word"
type_synonym u16 = "16 word"
type_synonym u32 = "32 word"
type_synonym u64 = "64 word"

named_theorems mem_simps \<open>values of accesses inside a memory object\<close>
named_theorems mem_iff \<open>when an access succeeds, and with which value\<close>

subsection \<open>Accesses to memory objects\<close>

definition mem_load :: "'a list \<Rightarrow> nat \<Rightarrow> 'a option" where
  "mem_load m i = (if i < length m then Some (m ! i) else None)"

definition mem_store :: "'a list \<Rightarrow> nat \<Rightarrow> 'a \<Rightarrow> 'a list option" where
  "mem_store m i v = (if i < length m then Some (m[i := v]) else None)"

text \<open>\<open>memcpy\<close> out of an object and into an object.\<close>

definition mem_read :: "'a list \<Rightarrow> nat \<Rightarrow> nat \<Rightarrow> 'a list option" where
  "mem_read m off n = (if off + n \<le> length m then Some (take n (drop off m)) else None)"

definition mem_write :: "'a list \<Rightarrow> nat \<Rightarrow> 'a list \<Rightarrow> 'a list option" where
  "mem_write m off xs =
     (if off + length xs \<le> length m
      then Some (take off m @ xs @ drop (off + length xs) m) else None)"

lemma mem_load_in [mem_simps]: "i < length m \<Longrightarrow> mem_load m i = Some (m ! i)"
  by (simp add: mem_load_def)

lemma mem_load_eq_Some [mem_iff]: "mem_load m i = Some v \<longleftrightarrow> i < length m \<and> v = m ! i"
  by (auto simp: mem_load_def)

lemma mem_load_eq_None [mem_iff]: "mem_load m i = None \<longleftrightarrow> length m \<le> i"
  by (auto simp: mem_load_def)

lemma mem_store_in [mem_simps]: "i < length m \<Longrightarrow> mem_store m i v = Some (m[i := v])"
  by (simp add: mem_store_def)

lemma mem_store_eq_Some [mem_iff]:
  "mem_store m i v = Some m' \<longleftrightarrow> i < length m \<and> m' = m[i := v]"
  by (auto simp: mem_store_def)

lemma mem_read_in [mem_simps]:
  "off + n \<le> length m \<Longrightarrow> mem_read m off n = Some (take n (drop off m))"
  by (simp add: mem_read_def)

lemma mem_read_eq_Some [mem_iff]:
  "mem_read m off n = Some xs \<longleftrightarrow> off + n \<le> length m \<and> xs = take n (drop off m)"
  by (auto simp: mem_read_def)

lemma mem_read_eq_None [mem_iff]: "mem_read m off n = None \<longleftrightarrow> length m < off + n"
  by (auto simp: mem_read_def)

lemma mem_write_in [mem_simps]:
  "off + length xs \<le> length m \<Longrightarrow>
   mem_write m off xs = Some (take off m @ xs @ drop (off + length xs) m)"
  by (simp add: mem_write_def)

lemma mem_write_eq_Some [mem_iff]:
  "mem_write m off xs = Some m' \<longleftrightarrow>
     off + length xs \<le> length m \<and> m' = take off m @ xs @ drop (off + length xs) m"
  by (auto simp: mem_write_def)

lemma mem_write_eq_None [mem_iff]: "mem_write m off xs = None \<longleftrightarrow> length m < off + length xs"
  by (auto simp: mem_write_def)

lemma mem_write_length: "mem_write m off xs = Some m' \<Longrightarrow> length m' = length m"
  by (auto simp: mem_iff)

lemma mem_write_take: "mem_write m off xs = Some m' \<Longrightarrow> take (off + length xs) m' = take off m @ xs"
  by (auto simp: mem_iff)

text \<open>Two consecutive writes are one write of the concatenation.\<close>

lemma mem_write_append:
  assumes "mem_write m off xs = Some m1" and "mem_write m1 (off + length xs) ys = Some m2"
  shows "mem_write m off (xs @ ys) = Some m2"
proof -
  from assms(1) have off: "off + length xs \<le> length m"
    and m1: "m1 = take off m @ xs @ drop (off + length xs) m" by (simp_all add: mem_iff)
  from off have "min (length m) off = off" by simp
  then have "take (off + length xs) m1 = take off m @ xs"
    and "drop (off + length xs + length ys) m1 = drop (off + length xs + length ys) m"
    and "length m1 = length m"
    using off by (simp_all add: m1 add.commute [of "length ys"])
  then show ?thesis using assms(2) by (simp add: mem_iff add.assoc)
qed

text \<open>Reading back what was written, and reading before or after it.\<close>

lemma mem_read_write_same:
  "mem_write m off xs = Some m' \<Longrightarrow> mem_read m' off (length xs) = Some xs"
  by (auto simp: mem_iff)

lemma nth_mem_write:
  assumes "mem_write m off xs = Some m'" and "i < length m"
  shows "m' ! i = (if off \<le> i \<and> i < off + length xs then xs ! (i - off) else m ! i)"
  using assms by (auto simp: mem_iff nth_append min_def)

text \<open>Consecutive stores, seen through the prefix they complete.\<close>

lemma take_Suc_update: "i < length xs \<Longrightarrow> take (Suc i) (xs[i := v]) = take i xs @ [v]"
  by (simp add: take_Suc_conv_app_nth)

lemma take_Suc2_update:
  "Suc i < length xs \<Longrightarrow> take (Suc (Suc i)) (xs[i := v, Suc i := w]) = take i xs @ [v, w]"
  by (simp add: take_Suc_update)

subsection \<open>C strings\<close>

text \<open>
  \<open>strlen\<close> of the standard library on the object a pointer points into: the index of the first
  zero byte, \<open>None\<close> when the object holds none.
\<close>

fun c_strlen :: "u8 list \<Rightarrow> nat option" where
  "c_strlen [] = None"
| "c_strlen (c # cs) = (if c = 0 then Some 0 else map_option Suc (c_strlen cs))"

lemma c_strlen_less: "c_strlen s = Some n \<Longrightarrow> n < length s \<and> s ! n = 0 \<and> 0 \<notin> set (take n s)"
  by (induction s arbitrary: n) (auto split: if_splits)

lemma c_strlen_terminated: "0 \<notin> set cs \<Longrightarrow> c_strlen (cs @ 0 # rest) = Some (length cs)"
  by (induction cs) auto

subsection \<open>Options\<close>

lemma bind_eq_Some [simp]: "(x \<bind> f) = Some y \<longleftrightarrow> (\<exists>v. x = Some v \<and> f v = Some y)"
  by (cases x) auto

lemma bind_eq_None: "(x \<bind> f) = None \<longleftrightarrow> x = None \<or> (\<exists>v. x = Some v \<and> f v = None)"
  by (cases x) auto

subsection \<open>Words\<close>

lemma unat_u16_less [simp]: "unat (w::u16) < 65536"
  using unsigned_less [of w] by simp

lemma unat_u8_less [simp]: "unat (w::u8) < 256"
  using unsigned_less [of w] by simp

lemma unat_u16_le [simp]: "unat (w::u16) \<le> 65535"
  using unat_u16_less [of w] by linarith

lemma unat_u32_less [simp]: "unat (w::u32) < 4294967296"
  using unsigned_less [of w] by simp

lemma unat_add_no_wrap:
  "unat (a::'a::len word) + unat b < 2 ^ LENGTH('a) \<Longrightarrow> unat (a + b) = unat a + unat b"
  by (simp add: unat_word_ariths)

lemma unat_add_u16: "unat (a::u16) + unat b < 65536 \<Longrightarrow> unat (a + b) = unat a + unat b"
  by (simp add: unat_word_ariths)

lemma unat_sub_u16: "unat b \<le> unat (a::u16) \<Longrightarrow> unat (a - b) = unat a - unat b"
  by (simp add: unat_sub word_le_nat_alt)

lemma unat_of_nat_u16: "n < 65536 \<Longrightarrow> unat (of_nat n :: u16) = n"
  by (simp add: unat_of_nat)

lemma unat_of_nat_u8: "n < 256 \<Longrightarrow> unat (of_nat n :: u8) = n"
  by (simp add: unat_of_nat)

lemma unat_of_nat_u32: "n < 4294967296 \<Longrightarrow> unat (of_nat n :: u32) = n"
  by (simp add: unat_of_nat)

lemma unat_ucast_u8_u16 [simp]: "unat (ucast (b::u8) :: u16) = unat b"
proof -
  have "unat b < 65536" using unat_u8_less [of b] by linarith
  then show ?thesis by (simp add: unsigned_ucast_eq take_bit_eq_mod)
qed

lemma unat_ucast_u8_u32 [simp]: "unat (ucast (b::u8) :: u32) = unat b"
proof -
  have "unat b < 4294967296" using unat_u8_less [of b] by linarith
  then show ?thesis by (simp add: unsigned_ucast_eq take_bit_eq_mod)
qed

lemma unat_ucast_u16_u32 [simp]: "unat (ucast (b::u16) :: u32) = unat b"
proof -
  have "unat b < 4294967296" using unat_u16_less [of b] by linarith
  then show ?thesis by (simp add: unsigned_ucast_eq take_bit_eq_mod)
qed

lemma bit_u8_ge [simp]: "8 \<le> n \<Longrightarrow> \<not> bit (w::u8) n"
  using bit_imp_le_length [of w n] by auto

lemma bit_u16_ge [simp]: "16 \<le> n \<Longrightarrow> \<not> bit (w::u16) n"
  using bit_imp_le_length [of w n] by auto

lemma bit_u32_ge [simp]: "32 \<le> n \<Longrightarrow> \<not> bit (w::u32) n"
  using bit_imp_le_length [of w n] by auto

lemma bit_u64_ge [simp]: "64 \<le> n \<Longrightarrow> \<not> bit (w::u64) n"
  using bit_imp_le_length [of w n] by auto

text \<open>Two's complement: the signed value of a word in terms of its unsigned value.\<close>

lemma sint_u32:
  "sint (n::u32) = (if uint n < 2147483648 then uint n else uint n - 4294967296)"
proof -
  have "sint n = (uint n + 2147483648) mod 4294967296 - 2147483648"
    by (simp add: sint_uint signed_take_bit_eq_take_bit_shift take_bit_eq_mod)
  moreover have b: "0 \<le> uint n" "uint n < 4294967296" using uint_bounded [of n] by simp_all
  moreover have "(uint n + 2147483648) mod 4294967296 = uint n - 2147483648" if "\<not> uint n < 2147483648"
  proof -
    have "(uint n + 2147483648) mod 4294967296 = (uint n - 2147483648) mod 4294967296"
      using minus_mod_self2 [of "uint n + 2147483648" 4294967296] by (simp add: algebra_simps)
    then show ?thesis using b that by (simp add: mod_pos_pos_trivial)
  qed
  ultimately show ?thesis by (cases "uint n < 2147483648") (simp_all add: mod_pos_pos_trivial)
qed

text \<open>Equality of words, bit by bit, in the form the byte-order lemmas use.\<close>

lemma u8_eqI: "(\<And>n. n < 8 \<Longrightarrow> bit a n = bit b n) \<Longrightarrow> a = (b::u8)"
  by (rule bit_word_eqI) simp

lemma u16_eqI: "(\<And>n. n < 16 \<Longrightarrow> bit a n = bit b n) \<Longrightarrow> a = (b::u16)"
  by (rule bit_word_eqI) simp

text \<open>
  The byte at bit \<open>k\<close> of a word, cut out and moved back to its place: what every byte-order
  conversion of the code is made of.
\<close>

lemma bit_byte_of:
  "bit (push_bit k (ucast (ucast (drop_bit k v) :: u8)) :: 'a::len word) n \<longleftrightarrow>
     k \<le> n \<and> n < k + 8 \<and> bit (v :: 'a word) n"
proof (cases "k \<le> n")
  case True
  then show ?thesis
    using bit_imp_le_length [of v n] by (auto simp: bit_simps)
qed (auto simp: bit_simps)

lemma bit_byte_of_0:
  "bit (ucast (ucast v :: u8) :: 'a::len word) n \<longleftrightarrow> n < 8 \<and> bit (v :: 'a word) n"
  using bit_byte_of [of 0 v n] by simp

lemmas bit_bytes = bit_or_iff bit_byte_of bit_byte_of_0

end
