(* ===== verification/Xy_Tlv.thy ===== *)
theory Xy_Tlv
  imports Xy_Prelude
begin

text \<open>
  The TLV codec of \<open>components/dm/xy_tlv\<close> (\<open>xy_tlv.c\<close>, \<open>xy_tlv.h\<close>).

  State: \<open>tlv_buffer\<close> is \<open>xy_tlv_buffer_t\<close>, \<open>tlv_iter\<close> is \<open>xy_tlv_iterator_t\<close>, \<open>tlv_elem\<close> is
  \<open>xy_tlv_t\<close> (its value pointer is the suffix of the source object that starts there) and
  \<open>tlv_stats\<close> is the file's static \<open>g_tlv_stats\<close>, threaded through every function that updates
  it. The definitions follow the order of the source; the lemmas after them relate the loops
  to the reference parser \<open>tlv_scan\<close> and to the serialiser \<open>tlv_bytes\<close>.
\<close>

subsection \<open>Return codes and data structures (xy_tlv.h)\<close>

datatype tlv_rc =
    TLV_OK | TLV_ERROR | TLV_INVALID_PARAM | TLV_BUFFER_OVERFLOW | TLV_BUFFER_UNDERFLOW
  | TLV_TYPE_MISMATCH | TLV_NOT_FOUND | TLV_INVALID_LENGTH | TLV_NESTING_OVERFLOW
  | TLV_CHECKSUM_ERROR

fun tlv_rc_code :: "tlv_rc \<Rightarrow> int" where
  "tlv_rc_code TLV_OK = 0"
| "tlv_rc_code TLV_ERROR = -1"
| "tlv_rc_code TLV_INVALID_PARAM = -2"
| "tlv_rc_code TLV_BUFFER_OVERFLOW = -3"
| "tlv_rc_code TLV_BUFFER_UNDERFLOW = -4"
| "tlv_rc_code TLV_TYPE_MISMATCH = -5"
| "tlv_rc_code TLV_NOT_FOUND = -6"
| "tlv_rc_code TLV_INVALID_LENGTH = -7"
| "tlv_rc_code TLV_NESTING_OVERFLOW = -8"
| "tlv_rc_code TLV_CHECKSUM_ERROR = -9"

definition XY_TLV_HEADER_SIZE :: nat where
  "XY_TLV_HEADER_SIZE = 4"

definition XY_TLV_MAX_NESTING_LEVEL :: nat where
  "XY_TLV_MAX_NESTING_LEVEL = 4"

record tlv_elem =
  el_type :: u16
  el_length :: u16
  el_value :: "u8 list"

record tlv_buffer =
  tb_buffer :: "u8 list option"
  tb_capacity :: u16
  tb_offset :: u16
  tb_nesting :: u8

record tlv_iter =
  it_buffer :: "u8 list"
  it_buffer_len :: u16
  it_offset :: u16
  it_remaining :: u16
  it_nesting :: u8

record tlv_stats =
  st_total_encoded :: u32
  st_total_decoded :: u32
  st_encoding_errors :: u32
  st_decoding_errors :: u32
  st_bytes_encoded :: u32
  st_bytes_decoded :: u32

subsection \<open>Network byte order\<close>

definition write_uint16 :: "u16 \<Rightarrow> u8 list" where
  "write_uint16 v = [ucast (drop_bit 8 v), ucast v]"

definition read_uint16 :: "u8 list \<Rightarrow> u16 option" where
  "read_uint16 buf = do {
     b0 \<leftarrow> mem_load buf 0; b1 \<leftarrow> mem_load buf 1;
     Some (push_bit 8 (ucast b0) OR ucast b1) }"

definition write_uint32 :: "u32 \<Rightarrow> u8 list" where
  "write_uint32 v =
     [ucast (drop_bit 24 v), ucast (drop_bit 16 v), ucast (drop_bit 8 v), ucast v]"

definition read_uint32 :: "u8 list \<Rightarrow> u32 option" where
  "read_uint32 buf = do {
     b0 \<leftarrow> mem_load buf 0; b1 \<leftarrow> mem_load buf 1; b2 \<leftarrow> mem_load buf 2; b3 \<leftarrow> mem_load buf 3;
     Some (push_bit 24 (ucast b0) OR push_bit 16 (ucast b1) OR push_bit 8 (ucast b2) OR ucast b3) }"

definition write_uint64 :: "u64 \<Rightarrow> u8 list" where
  "write_uint64 v =
     [ucast (drop_bit 56 v), ucast (drop_bit 48 v), ucast (drop_bit 40 v), ucast (drop_bit 32 v),
      ucast (drop_bit 24 v), ucast (drop_bit 16 v), ucast (drop_bit 8 v), ucast v]"

definition read_uint64 :: "u8 list \<Rightarrow> u64 option" where
  "read_uint64 buf = do {
     b0 \<leftarrow> mem_load buf 0; b1 \<leftarrow> mem_load buf 1; b2 \<leftarrow> mem_load buf 2; b3 \<leftarrow> mem_load buf 3;
     b4 \<leftarrow> mem_load buf 4; b5 \<leftarrow> mem_load buf 5; b6 \<leftarrow> mem_load buf 6; b7 \<leftarrow> mem_load buf 7;
     Some (push_bit 56 (ucast b0) OR push_bit 48 (ucast b1) OR push_bit 40 (ucast b2)
           OR push_bit 32 (ucast b3) OR push_bit 24 (ucast b4) OR push_bit 16 (ucast b5)
           OR push_bit 8 (ucast b6) OR ucast b7) }"

subsection \<open>Buffer management\<close>

text \<open>The init function overwrites every field of the object the caller passes.\<close>

definition xy_tlv_buffer_init ::
  "tlv_buffer option \<Rightarrow> u8 list option \<Rightarrow> u16 \<Rightarrow> tlv_rc \<times> tlv_buffer option" where
  "xy_tlv_buffer_init tlv_buf buffer capacity =
     (if tlv_buf = None \<or> buffer = None \<or> capacity = 0 then (TLV_INVALID_PARAM, tlv_buf)
      else (TLV_OK, Some \<lparr>tb_buffer = buffer, tb_capacity = capacity, tb_offset = 0,
                          tb_nesting = 0\<rparr>))"

definition xy_tlv_buffer_reset :: "tlv_buffer option \<Rightarrow> tlv_rc \<times> tlv_buffer option" where
  "xy_tlv_buffer_reset tlv_buf =
     (case tlv_buf of
        None \<Rightarrow> (TLV_INVALID_PARAM, None)
      | Some b \<Rightarrow> (TLV_OK, Some (b\<lparr>tb_offset := 0, tb_nesting := 0\<rparr>)))"

definition xy_tlv_buffer_get_used :: "tlv_buffer option \<Rightarrow> u16" where
  "xy_tlv_buffer_get_used tlv_buf = (case tlv_buf of None \<Rightarrow> 0 | Some b \<Rightarrow> tb_offset b)"

definition xy_tlv_buffer_get_free :: "tlv_buffer option \<Rightarrow> u16" where
  "xy_tlv_buffer_get_free tlv_buf =
     (case tlv_buf of None \<Rightarrow> 0 | Some b \<Rightarrow> tb_capacity b - tb_offset b)"

subsection \<open>Encoding\<close>

text \<open>
  The writes that follow the space check: type, length (two bytes each) and, when there is
  one, the value. \<open>None\<close> when one of them leaves the memory object.
\<close>

definition tlv_write_item ::
  "u8 list \<Rightarrow> u16 \<Rightarrow> u16 \<Rightarrow> u8 list option \<Rightarrow> u16 \<Rightarrow> (u8 list \<times> u16) option" where
  "tlv_write_item m off type value length' = do {
     m1 \<leftarrow> mem_write m (unat off) (write_uint16 type);
     let off1 = off + 2;
     m2 \<leftarrow> mem_write m1 (unat off1) (write_uint16 length');
     let off2 = off1 + 2;
     if 0 < length' then do {
       src \<leftarrow> value;
       bs \<leftarrow> mem_read src 0 (unat length');
       m3 \<leftarrow> mem_write m2 (unat off2) bs;
       Some (m3, off2 + length') }
     else Some (m2, off2) }"

definition xy_tlv_encode ::
  "tlv_stats \<Rightarrow> tlv_buffer option \<Rightarrow> u16 \<Rightarrow> u8 list option \<Rightarrow> u16
   \<Rightarrow> (tlv_rc \<times> tlv_buffer option \<times> tlv_stats) option" where
  "xy_tlv_encode st tlv_buf type value length' =
     (case tlv_buf of
        None \<Rightarrow>
          Some (TLV_INVALID_PARAM, None, st\<lparr>st_encoding_errors := st_encoding_errors st + 1\<rparr>)
      | Some b \<Rightarrow>
        (case tb_buffer b of
           None \<Rightarrow>
             Some (TLV_INVALID_PARAM, tlv_buf, st\<lparr>st_encoding_errors := st_encoding_errors st + 1\<rparr>)
         | Some m \<Rightarrow>
           (if 0 < length' \<and> value = None then
              Some (TLV_INVALID_PARAM, tlv_buf,
                    st\<lparr>st_encoding_errors := st_encoding_errors st + 1\<rparr>)
            else
              (let required = of_nat XY_TLV_HEADER_SIZE + length' in
               if unat (tb_offset b) + unat required > unat (tb_capacity b) then
                 Some (TLV_BUFFER_OVERFLOW, tlv_buf,
                       st\<lparr>st_encoding_errors := st_encoding_errors st + 1\<rparr>)
               else do {
                 (m', off') \<leftarrow> tlv_write_item m (tb_offset b) type value length';
                 Some (TLV_OK, Some (b\<lparr>tb_buffer := Some m', tb_offset := off'\<rparr>),
                       st\<lparr>st_total_encoded := st_total_encoded st + 1,
                          st_bytes_encoded := st_bytes_encoded st + ucast required\<rparr>) }))))"

definition xy_tlv_encode_uint8 ::
  "tlv_stats \<Rightarrow> tlv_buffer option \<Rightarrow> u16 \<Rightarrow> u8 \<Rightarrow> (tlv_rc \<times> tlv_buffer option \<times> tlv_stats) option"
where
  "xy_tlv_encode_uint8 st tlv_buf type value = xy_tlv_encode st tlv_buf type (Some [value]) 1"

definition xy_tlv_encode_uint16 ::
  "tlv_stats \<Rightarrow> tlv_buffer option \<Rightarrow> u16 \<Rightarrow> u16 \<Rightarrow> (tlv_rc \<times> tlv_buffer option \<times> tlv_stats) option"
where
  "xy_tlv_encode_uint16 st tlv_buf type value =
     xy_tlv_encode st tlv_buf type (Some (write_uint16 value)) 2"

definition xy_tlv_encode_uint32 ::
  "tlv_stats \<Rightarrow> tlv_buffer option \<Rightarrow> u16 \<Rightarrow> u32 \<Rightarrow> (tlv_rc \<times> tlv_buffer option \<times> tlv_stats) option"
where
  "xy_tlv_encode_uint32 st tlv_buf type value =
     xy_tlv_encode st tlv_buf type (Some (write_uint32 value)) 4"

definition xy_tlv_encode_uint64 ::
  "tlv_stats \<Rightarrow> tlv_buffer option \<Rightarrow> u16 \<Rightarrow> u64 \<Rightarrow> (tlv_rc \<times> tlv_buffer option \<times> tlv_stats) option"
where
  "xy_tlv_encode_uint64 st tlv_buf type value =
     xy_tlv_encode st tlv_buf type (Some (write_uint64 value)) 8"

text \<open>The signed variants take the two's complement pattern; the casts of the code keep it.\<close>

definition xy_tlv_encode_int8 ::
  "tlv_stats \<Rightarrow> tlv_buffer option \<Rightarrow> u16 \<Rightarrow> u8 \<Rightarrow> (tlv_rc \<times> tlv_buffer option \<times> tlv_stats) option"
where
  "xy_tlv_encode_int8 st tlv_buf type value = xy_tlv_encode st tlv_buf type (Some [value]) 1"

definition xy_tlv_encode_int16 ::
  "tlv_stats \<Rightarrow> tlv_buffer option \<Rightarrow> u16 \<Rightarrow> u16 \<Rightarrow> (tlv_rc \<times> tlv_buffer option \<times> tlv_stats) option"
where
  "xy_tlv_encode_int16 st tlv_buf type value =
     xy_tlv_encode st tlv_buf type (Some (write_uint16 value)) 2"

definition xy_tlv_encode_int32 ::
  "tlv_stats \<Rightarrow> tlv_buffer option \<Rightarrow> u16 \<Rightarrow> u32 \<Rightarrow> (tlv_rc \<times> tlv_buffer option \<times> tlv_stats) option"
where
  "xy_tlv_encode_int32 st tlv_buf type value =
     xy_tlv_encode st tlv_buf type (Some (write_uint32 value)) 4"

definition xy_tlv_encode_int64 ::
  "tlv_stats \<Rightarrow> tlv_buffer option \<Rightarrow> u16 \<Rightarrow> u64 \<Rightarrow> (tlv_rc \<times> tlv_buffer option \<times> tlv_stats) option"
where
  "xy_tlv_encode_int64 st tlv_buf type value =
     xy_tlv_encode st tlv_buf type (Some (write_uint64 value)) 8"

definition xy_tlv_encode_bool ::
  "tlv_stats \<Rightarrow> tlv_buffer option \<Rightarrow> u16 \<Rightarrow> bool \<Rightarrow> (tlv_rc \<times> tlv_buffer option \<times> tlv_stats) option"
where
  "xy_tlv_encode_bool st tlv_buf type value =
     xy_tlv_encode st tlv_buf type (Some [if value then 1 else 0]) 1"

definition xy_tlv_encode_string ::
  "tlv_stats \<Rightarrow> tlv_buffer option \<Rightarrow> u16 \<Rightarrow> u8 list option
   \<Rightarrow> (tlv_rc \<times> tlv_buffer option \<times> tlv_stats) option" where
  "xy_tlv_encode_string st tlv_buf type str =
     (case str of
        None \<Rightarrow> Some (TLV_INVALID_PARAM, tlv_buf, st)
      | Some s \<Rightarrow> do {
          n \<leftarrow> c_strlen s;
          xy_tlv_encode st tlv_buf type (Some s) (of_nat n) })"

definition xy_tlv_encode_bytes ::
  "tlv_stats \<Rightarrow> tlv_buffer option \<Rightarrow> u16 \<Rightarrow> u8 list option \<Rightarrow> u16
   \<Rightarrow> (tlv_rc \<times> tlv_buffer option \<times> tlv_stats) option" where
  "xy_tlv_encode_bytes st tlv_buf type bytes length' = xy_tlv_encode st tlv_buf type bytes length'"

subsection \<open>Decoding\<close>

definition xy_tlv_iterator_init ::
  "tlv_iter option \<Rightarrow> u8 list option \<Rightarrow> u16 \<Rightarrow> tlv_rc \<times> tlv_iter option" where
  "xy_tlv_iterator_init iter buffer buffer_len =
     (case (iter, buffer) of
        (Some _, Some m) \<Rightarrow>
          (if buffer_len = 0 then (TLV_INVALID_PARAM, iter)
           else (TLV_OK, Some \<lparr>it_buffer = m, it_buffer_len = buffer_len, it_offset = 0,
                               it_remaining = buffer_len, it_nesting = 0\<rparr>))
      | _ \<Rightarrow> (TLV_INVALID_PARAM, iter))"

text \<open>
  The body of \<open>xy_tlv_iterator_next\<close> after its null check. The element is an out parameter:
  its type and length are written before the length is validated.
\<close>

definition tlv_next ::
  "tlv_stats \<Rightarrow> tlv_iter \<Rightarrow> tlv_elem \<Rightarrow> (tlv_rc \<times> tlv_iter \<times> tlv_elem \<times> tlv_stats) option" where
  "tlv_next st it tlv =
     (if unat (it_remaining it) < XY_TLV_HEADER_SIZE then
        (if 0 < it_remaining it then
           Some (TLV_BUFFER_UNDERFLOW, it, tlv,
                 st\<lparr>st_decoding_errors := st_decoding_errors st + 1\<rparr>)
         else Some (TLV_NOT_FOUND, it, tlv, st))
      else do {
        let ptr = drop (unat (it_offset it)) (it_buffer it);
        ty \<leftarrow> read_uint16 ptr;
        len \<leftarrow> read_uint16 (drop 2 ptr);
        let tlv1 = tlv\<lparr>el_type := ty, el_length := len\<rparr>;
        if unat len > unat (it_remaining it) - XY_TLV_HEADER_SIZE then
          Some (TLV_INVALID_LENGTH, it, tlv1,
                st\<lparr>st_decoding_errors := st_decoding_errors st + 1\<rparr>)
        else
          (let tlv_size = of_nat XY_TLV_HEADER_SIZE + len in
           Some (TLV_OK,
                 it\<lparr>it_offset := it_offset it + tlv_size,
                    it_remaining := it_remaining it - tlv_size\<rparr>,
                 tlv1\<lparr>el_value := drop 4 ptr\<rparr>,
                 st\<lparr>st_total_decoded := st_total_decoded st + 1,
                    st_bytes_decoded := st_bytes_decoded st + ucast tlv_size\<rparr>)) })"

definition xy_tlv_iterator_next ::
  "tlv_stats \<Rightarrow> tlv_iter option \<Rightarrow> tlv_elem option
   \<Rightarrow> (tlv_rc \<times> tlv_iter option \<times> tlv_elem option \<times> tlv_stats) option" where
  "xy_tlv_iterator_next st iter tlv =
     (case (iter, tlv) of
        (Some it, Some el) \<Rightarrow> do {
          (rc, it', el', st') \<leftarrow> tlv_next st it el;
          Some (rc, Some it', Some el', st') }
      | _ \<Rightarrow> Some (TLV_INVALID_PARAM, iter, tlv,
                  st\<lparr>st_decoding_errors := st_decoding_errors st + 1\<rparr>))"

definition xy_tlv_iterator_has_next :: "tlv_iter option \<Rightarrow> bool" where
  "xy_tlv_iterator_has_next iter =
     (case iter of None \<Rightarrow> False | Some it \<Rightarrow> XY_TLV_HEADER_SIZE \<le> unat (it_remaining it))"

definition xy_tlv_iterator_reset :: "tlv_iter option \<Rightarrow> tlv_rc \<times> tlv_iter option" where
  "xy_tlv_iterator_reset iter =
     (case iter of
        None \<Rightarrow> (TLV_INVALID_PARAM, None)
      | Some it \<Rightarrow> (TLV_OK, Some (it\<lparr>it_offset := 0, it_remaining := it_buffer_len it\<rparr>)))"

text \<open>
  Copying out: the destination is an object of its own and \<open>value_len\<close> is what the caller
  claims about it. \<open>xy_tlv_decode_bytes\<close> has the same body in the source.
\<close>

definition xy_tlv_decode ::
  "tlv_elem option \<Rightarrow> u8 list option \<Rightarrow> u16 option
   \<Rightarrow> (tlv_rc \<times> u8 list option \<times> u16 option) option" where
  "xy_tlv_decode tlv value value_len =
     (case (tlv, value, value_len) of
        (Some el, Some dst, Some n) \<Rightarrow>
          (if n < el_length el then Some (TLV_BUFFER_OVERFLOW, value, value_len)
           else do {
             bs \<leftarrow> mem_read (el_value el) 0 (unat (el_length el));
             dst' \<leftarrow> mem_write dst 0 bs;
             Some (TLV_OK, Some dst', Some (el_length el)) })
      | _ \<Rightarrow> Some (TLV_INVALID_PARAM, value, value_len))"

definition xy_tlv_decode_uint8 :: "tlv_elem option \<Rightarrow> u8 option \<Rightarrow> (tlv_rc \<times> u8 option) option"
where
  "xy_tlv_decode_uint8 tlv value =
     (case (tlv, value) of
        (Some el, Some _) \<Rightarrow>
          (if el_length el \<noteq> 1 then Some (TLV_INVALID_LENGTH, value)
           else do { v \<leftarrow> mem_load (el_value el) 0; Some (TLV_OK, Some v) })
      | _ \<Rightarrow> Some (TLV_INVALID_PARAM, value))"

definition xy_tlv_decode_uint16 ::
  "tlv_elem option \<Rightarrow> u16 option \<Rightarrow> (tlv_rc \<times> u16 option) option" where
  "xy_tlv_decode_uint16 tlv value =
     (case (tlv, value) of
        (Some el, Some _) \<Rightarrow>
          (if el_length el \<noteq> 2 then Some (TLV_INVALID_LENGTH, value)
           else do { v \<leftarrow> read_uint16 (el_value el); Some (TLV_OK, Some v) })
      | _ \<Rightarrow> Some (TLV_INVALID_PARAM, value))"

definition xy_tlv_decode_uint32 ::
  "tlv_elem option \<Rightarrow> u32 option \<Rightarrow> (tlv_rc \<times> u32 option) option" where
  "xy_tlv_decode_uint32 tlv value =
     (case (tlv, value) of
        (Some el, Some _) \<Rightarrow>
          (if el_length el \<noteq> 4 then Some (TLV_INVALID_LENGTH, value)
           else do { v \<leftarrow> read_uint32 (el_value el); Some (TLV_OK, Some v) })
      | _ \<Rightarrow> Some (TLV_INVALID_PARAM, value))"

definition xy_tlv_decode_uint64 ::
  "tlv_elem option \<Rightarrow> u64 option \<Rightarrow> (tlv_rc \<times> u64 option) option" where
  "xy_tlv_decode_uint64 tlv value =
     (case (tlv, value) of
        (Some el, Some _) \<Rightarrow>
          (if el_length el \<noteq> 8 then Some (TLV_INVALID_LENGTH, value)
           else do { v \<leftarrow> read_uint64 (el_value el); Some (TLV_OK, Some v) })
      | _ \<Rightarrow> Some (TLV_INVALID_PARAM, value))"

definition xy_tlv_decode_int8 :: "tlv_elem option \<Rightarrow> u8 option \<Rightarrow> (tlv_rc \<times> u8 option) option"
where
  "xy_tlv_decode_int8 tlv value =
     (case (tlv, value) of
        (Some el, Some _) \<Rightarrow>
          (if el_length el \<noteq> 1 then Some (TLV_INVALID_LENGTH, value)
           else do { v \<leftarrow> mem_load (el_value el) 0; Some (TLV_OK, Some v) })
      | _ \<Rightarrow> Some (TLV_INVALID_PARAM, value))"

definition xy_tlv_decode_int16 ::
  "tlv_elem option \<Rightarrow> u16 option \<Rightarrow> (tlv_rc \<times> u16 option) option" where
  "xy_tlv_decode_int16 tlv value =
     (case (tlv, value) of
        (Some el, Some _) \<Rightarrow>
          (if el_length el \<noteq> 2 then Some (TLV_INVALID_LENGTH, value)
           else do { v \<leftarrow> read_uint16 (el_value el); Some (TLV_OK, Some v) })
      | _ \<Rightarrow> Some (TLV_INVALID_PARAM, value))"

definition xy_tlv_decode_int32 ::
  "tlv_elem option \<Rightarrow> u32 option \<Rightarrow> (tlv_rc \<times> u32 option) option" where
  "xy_tlv_decode_int32 tlv value =
     (case (tlv, value) of
        (Some el, Some _) \<Rightarrow>
          (if el_length el \<noteq> 4 then Some (TLV_INVALID_LENGTH, value)
           else do { v \<leftarrow> read_uint32 (el_value el); Some (TLV_OK, Some v) })
      | _ \<Rightarrow> Some (TLV_INVALID_PARAM, value))"

definition xy_tlv_decode_int64 ::
  "tlv_elem option \<Rightarrow> u64 option \<Rightarrow> (tlv_rc \<times> u64 option) option" where
  "xy_tlv_decode_int64 tlv value =
     (case (tlv, value) of
        (Some el, Some _) \<Rightarrow>
          (if el_length el \<noteq> 8 then Some (TLV_INVALID_LENGTH, value)
           else do { v \<leftarrow> read_uint64 (el_value el); Some (TLV_OK, Some v) })
      | _ \<Rightarrow> Some (TLV_INVALID_PARAM, value))"

definition xy_tlv_decode_bool ::
  "tlv_elem option \<Rightarrow> bool option \<Rightarrow> (tlv_rc \<times> bool option) option" where
  "xy_tlv_decode_bool tlv value =
     (case (tlv, value) of
        (Some el, Some _) \<Rightarrow>
          (if el_length el \<noteq> 1 then Some (TLV_INVALID_LENGTH, value)
           else do { v \<leftarrow> mem_load (el_value el) 0; Some (TLV_OK, Some (v \<noteq> 0)) })
      | _ \<Rightarrow> Some (TLV_INVALID_PARAM, value))"

definition xy_tlv_decode_string ::
  "tlv_elem option \<Rightarrow> u8 list option \<Rightarrow> u16 \<Rightarrow> (tlv_rc \<times> u8 list option) option" where
  "xy_tlv_decode_string tlv str str_len =
     (case (tlv, str) of
        (Some el, Some dst) \<Rightarrow>
          (if str_len = 0 then Some (TLV_INVALID_PARAM, str)
           else if unat str_len < unat (el_length el) + 1 then Some (TLV_BUFFER_OVERFLOW, str)
           else do {
             bs \<leftarrow> mem_read (el_value el) 0 (unat (el_length el));
             dst1 \<leftarrow> mem_write dst 0 bs;
             dst2 \<leftarrow> mem_store dst1 (unat (el_length el)) 0;
             Some (TLV_OK, Some dst2) })
      | _ \<Rightarrow> Some (TLV_INVALID_PARAM, str))"

definition xy_tlv_decode_bytes ::
  "tlv_elem option \<Rightarrow> u8 list option \<Rightarrow> u16 option
   \<Rightarrow> (tlv_rc \<times> u8 list option \<times> u16 option) option" where
  "xy_tlv_decode_bytes tlv bytes bytes_len =
     (case (tlv, bytes, bytes_len) of
        (Some el, Some dst, Some n) \<Rightarrow>
          (if n < el_length el then Some (TLV_BUFFER_OVERFLOW, bytes, bytes_len)
           else do {
             bs \<leftarrow> mem_read (el_value el) 0 (unat (el_length el));
             dst' \<leftarrow> mem_write dst 0 bs;
             Some (TLV_OK, Some dst', Some (el_length el)) })
      | _ \<Rightarrow> Some (TLV_INVALID_PARAM, bytes, bytes_len))"

subsection \<open>Searching\<close>

text \<open>
  Each loop of the source calls \<open>xy_tlv_iterator_next\<close> on the addresses of two locals, so the
  null check of that function cannot fire and the loops call its body. They end because a
  successful step shortens \<open>it_remaining\<close> by at least the header size.
\<close>

lemma tlv_size_no_wrap:
  assumes "4 \<le> unat (r::u16)" and "unat len \<le> unat r - 4"
  shows "unat (4 + len :: u16) = 4 + unat len"
proof -
  have "4 + unat len < 65536"
    using assms unat_u16_less [of r] by linarith
  then show ?thesis by (subst unat_add_u16) simp_all
qed

lemma tlv_next_remaining:
  assumes "tlv_next st it el = Some (TLV_OK, it', el', st')"
  shows "unat (it_remaining it') < unat (it_remaining it)"
proof -
  from assms obtain len where ge: "4 \<le> unat (it_remaining it)"
    and le: "unat len \<le> unat (it_remaining it) - 4"
    and rem: "it_remaining it' = it_remaining it - (4 + len)"
    by (auto simp: tlv_next_def XY_TLV_HEADER_SIZE_def Let_def not_less split: if_splits)
  have "unat (4 + len :: u16) = 4 + unat len"
    by (rule tlv_size_no_wrap [OF ge le])
  then show ?thesis
    using le ge unfolding rem by (subst unat_sub_u16) auto
qed

text \<open>
  The uninitialised locals of the loops: the element is read only after a successful step, the
  iterator only after \<open>xy_tlv_iterator_init\<close> has written all its fields.
\<close>

definition tlv_iter_local :: tlv_iter where
  "tlv_iter_local = \<lparr>it_buffer = [], it_buffer_len = 0, it_offset = 0, it_remaining = 0,
     it_nesting = 0\<rparr>"

definition tlv_local :: tlv_elem where
  "tlv_local = \<lparr>el_type = 0, el_length = 0, el_value = []\<rparr>"

function tlv_find_loop ::
  "u16 \<Rightarrow> tlv_stats \<Rightarrow> tlv_iter \<Rightarrow> tlv_elem \<Rightarrow> (tlv_elem option \<times> tlv_stats) option" where
  "tlv_find_loop type st it cur =
     (case tlv_next st it cur of
        None \<Rightarrow> None
      | Some (rc, it', cur', st') \<Rightarrow>
          if rc = TLV_OK then
            (if el_type cur' = type then Some (Some cur', st')
             else tlv_find_loop type st' it' cur')
          else Some (None, st'))"
  by pat_completeness auto
termination
  by (relation "measure (\<lambda>(_, _, it, _). unat (it_remaining it))")
    (auto dest: tlv_next_remaining)

definition xy_tlv_find ::
  "tlv_stats \<Rightarrow> u8 list option \<Rightarrow> u16 \<Rightarrow> u16 \<Rightarrow> tlv_elem option
   \<Rightarrow> (tlv_rc \<times> tlv_elem option \<times> tlv_stats) option" where
  "xy_tlv_find st buffer buffer_len type tlv =
     (case xy_tlv_iterator_init (Some tlv_iter_local) buffer buffer_len of
        (TLV_OK, Some it) \<Rightarrow> do {
          (found, st') \<leftarrow> tlv_find_loop type st it tlv_local;
          (case found of
             Some cur \<Rightarrow> Some (TLV_OK, (if tlv = None then None else Some cur), st')
           | None \<Rightarrow> Some (TLV_NOT_FOUND, tlv, st')) }
      | (rc, _) \<Rightarrow> Some (rc, tlv, st))"

function tlv_find_all_loop ::
  "u16 \<Rightarrow> u16 \<Rightarrow> tlv_stats \<Rightarrow> tlv_iter \<Rightarrow> tlv_elem \<Rightarrow> tlv_elem list option \<Rightarrow> u16
   \<Rightarrow> (u16 \<times> tlv_elem list option \<times> tlv_stats) option" where
  "tlv_find_all_loop type max_count st it cur arr count =
     (case tlv_next st it cur of
        None \<Rightarrow> None
      | Some (rc, it', cur', st') \<Rightarrow>
          if rc = TLV_OK then
            (if el_type cur' = type then
               (case (if arr \<noteq> None \<and> count < max_count
                      then map_option Some (mem_store (the arr) (unat count) cur')
                      else Some arr) of
                  None \<Rightarrow> None
                | Some arr' \<Rightarrow>
                    tlv_find_all_loop type max_count st' it' cur' arr' (count + 1))
             else tlv_find_all_loop type max_count st' it' cur' arr count)
          else Some (count, arr, st'))"
  by pat_completeness auto
termination
  by (relation "measure (\<lambda>(_, _, _, it, _). unat (it_remaining it))")
    (auto dest: tlv_next_remaining)

text \<open>A non-null \<open>tlv_array\<close> with a null \<open>array_size\<close> is dereferenced by the code.\<close>

definition xy_tlv_find_all ::
  "tlv_stats \<Rightarrow> u8 list option \<Rightarrow> u16 \<Rightarrow> u16 \<Rightarrow> tlv_elem list option \<Rightarrow> u16 option
   \<Rightarrow> (int \<times> tlv_elem list option \<times> u16 option \<times> tlv_stats) option" where
  "xy_tlv_find_all st buffer buffer_len type tlv_array array_size = do {
     max_count \<leftarrow> (if tlv_array = None then Some 0 else array_size);
     (case xy_tlv_iterator_init (Some tlv_iter_local) buffer buffer_len of
        (TLV_OK, Some it) \<Rightarrow> do {
          (count, arr, st') \<leftarrow> tlv_find_all_loop type max_count st it tlv_local tlv_array 0;
          Some (uint count, arr, map_option (\<lambda>_. count) array_size, st') }
      | (rc, _) \<Rightarrow> Some (tlv_rc_code rc, tlv_array, array_size, st)) }"

function tlv_count_loop ::
  "tlv_stats \<Rightarrow> tlv_iter \<Rightarrow> tlv_elem \<Rightarrow> int \<Rightarrow> (int \<times> tlv_stats) option" where
  "tlv_count_loop st it cur count =
     (case tlv_next st it cur of
        None \<Rightarrow> None
      | Some (rc, it', cur', st') \<Rightarrow>
          if rc = TLV_OK then tlv_count_loop st' it' cur' (count + 1) else Some (count, st'))"
  by pat_completeness auto
termination
  by (relation "measure (\<lambda>(_, it, _). unat (it_remaining it))")
    (auto dest: tlv_next_remaining)

definition xy_tlv_count ::
  "tlv_stats \<Rightarrow> u8 list option \<Rightarrow> u16 \<Rightarrow> (int \<times> tlv_stats) option" where
  "xy_tlv_count st buffer buffer_len =
     (case xy_tlv_iterator_init (Some tlv_iter_local) buffer buffer_len of
        (TLV_OK, Some it) \<Rightarrow> tlv_count_loop st it tlv_local 0
      | (rc, _) \<Rightarrow> Some (tlv_rc_code rc, st))"

subsection \<open>Containers\<close>

definition xy_tlv_container_begin ::
  "tlv_buffer option \<Rightarrow> u16 \<Rightarrow> (tlv_rc \<times> tlv_buffer option) option" where
  "xy_tlv_container_begin tlv_buf type =
     (case tlv_buf of
        None \<Rightarrow> Some (TLV_INVALID_PARAM, None)
      | Some b \<Rightarrow>
          if XY_TLV_MAX_NESTING_LEVEL \<le> unat (tb_nesting b) then
            Some (TLV_NESTING_OVERFLOW, tlv_buf)
          else if unat (tb_offset b) + XY_TLV_HEADER_SIZE > unat (tb_capacity b) then
            Some (TLV_BUFFER_OVERFLOW, tlv_buf)
          else do {
            m \<leftarrow> tb_buffer b;
            m1 \<leftarrow> mem_write m (unat (tb_offset b)) (write_uint16 type);
            let off1 = tb_offset b + 2;
            m2 \<leftarrow> mem_write m1 (unat off1) (write_uint16 0);
            Some (TLV_OK, Some (b\<lparr>tb_buffer := Some m2, tb_offset := off1 + 2,
                                  tb_nesting := tb_nesting b + 1\<rparr>)) })"

definition xy_tlv_container_end :: "tlv_buffer option \<Rightarrow> tlv_rc \<times> tlv_buffer option" where
  "xy_tlv_container_end tlv_buf =
     (case tlv_buf of
        None \<Rightarrow> (TLV_INVALID_PARAM, None)
      | Some b \<Rightarrow>
          if tb_nesting b = 0 then (TLV_ERROR, tlv_buf)
          else (TLV_OK, Some (b\<lparr>tb_nesting := tb_nesting b - 1\<rparr>)))"

definition xy_tlv_container_enter ::
  "tlv_iter option \<Rightarrow> tlv_elem option \<Rightarrow> tlv_iter option \<Rightarrow> tlv_rc \<times> tlv_iter option" where
  "xy_tlv_container_enter iter tlv child_iter =
     (case (iter, tlv, child_iter) of
        (Some it, Some el, Some _) \<Rightarrow>
          if XY_TLV_MAX_NESTING_LEVEL \<le> unat (it_nesting it) then (TLV_NESTING_OVERFLOW, child_iter)
          else (TLV_OK, Some \<lparr>it_buffer = el_value el, it_buffer_len = el_length el, it_offset = 0,
                              it_remaining = el_length el, it_nesting = it_nesting it + 1\<rparr>)
      | _ \<Rightarrow> (TLV_INVALID_PARAM, child_iter))"

subsection \<open>Utilities\<close>

function tlv_validate_loop ::
  "tlv_stats \<Rightarrow> tlv_iter \<Rightarrow> tlv_elem \<Rightarrow> (tlv_rc \<times> tlv_iter \<times> tlv_stats) option" where
  "tlv_validate_loop st it cur =
     (case tlv_next st it cur of
        None \<Rightarrow> None
      | Some (rc, it', cur', st') \<Rightarrow>
          if rc = TLV_OK then tlv_validate_loop st' it' cur' else Some (rc, it', st'))"
  by pat_completeness auto
termination
  by (relation "measure (\<lambda>(_, it, _). unat (it_remaining it))")
    (auto dest: tlv_next_remaining)

definition xy_tlv_validate ::
  "tlv_stats \<Rightarrow> u8 list option \<Rightarrow> u16 \<Rightarrow> (tlv_rc \<times> tlv_stats) option" where
  "xy_tlv_validate st buffer buffer_len =
     (case xy_tlv_iterator_init (Some tlv_iter_local) buffer buffer_len of
        (TLV_OK, Some it) \<Rightarrow> do {
          (rc, it', st') \<leftarrow> tlv_validate_loop st it tlv_local;
          Some (if rc = TLV_NOT_FOUND \<and> it_remaining it' = 0 then TLV_OK else rc, st') }
      | (rc, _) \<Rightarrow> Some (rc, st))"

text \<open>The CRC of \<open>xy_tlv_checksum\<close>: eight shifts per byte, feedback polynomial \<open>0xA001\<close>.\<close>

definition tlv_crc_bit :: "u16 \<Rightarrow> u16" where
  "tlv_crc_bit crc = (if crc AND 1 \<noteq> 0 then drop_bit 1 crc XOR 0xA001 else drop_bit 1 crc)"

fun tlv_crc_loop :: "u16 \<Rightarrow> u8 list \<Rightarrow> u16" where
  "tlv_crc_loop crc [] = crc"
| "tlv_crc_loop crc (b # bs) = tlv_crc_loop ((tlv_crc_bit ^^ 8) (crc XOR ucast b)) bs"

definition xy_tlv_checksum :: "u8 list \<Rightarrow> u16 \<Rightarrow> u16 option" where
  "xy_tlv_checksum buffer buffer_len = do {
     bs \<leftarrow> mem_read buffer 0 (unat buffer_len);
     Some (tlv_crc_loop 0xFFFF bs) }"

definition xy_tlv_get_type_name :: "u16 \<Rightarrow> string" where
  "xy_tlv_get_type_name type =
     (if type = 0x0001 then ''UINT8''
      else if type = 0x0002 then ''UINT16''
      else if type = 0x0003 then ''UINT32''
      else if type = 0x0004 then ''UINT64''
      else if type = 0x0005 then ''INT8''
      else if type = 0x0006 then ''INT16''
      else if type = 0x0007 then ''INT32''
      else if type = 0x0008 then ''INT64''
      else if type = 0x0009 then ''FLOAT''
      else if type = 0x000A then ''DOUBLE''
      else if type = 0x000B then ''BOOL''
      else if type = 0x0101 then ''STRING''
      else if type = 0x0102 then ''BYTES''
      else if type = 0x0103 then ''BLOB''
      else if type = 0x0201 then ''CONTAINER''
      else if type = 0x0202 then ''ARRAY''
      else if type = 0x0203 then ''LIST''
      else if type = 0x0301 then ''TIMESTAMP''
      else if type = 0x0302 then ''UUID''
      else if type = 0x0303 then ''MAC_ADDR''
      else if type = 0x0304 then ''IPV4_ADDR''
      else if type = 0x0305 then ''IPV6_ADDR''
      else if type = 0x0306 then ''CHECKSUM''
      else ''UNKNOWN'')"

definition xy_tlv_get_error_string :: "int \<Rightarrow> string" where
  "xy_tlv_get_error_string error_code =
     (if error_code = tlv_rc_code TLV_OK then ''Success''
      else if error_code = tlv_rc_code TLV_ERROR then ''General error''
      else if error_code = tlv_rc_code TLV_INVALID_PARAM then ''Invalid parameter''
      else if error_code = tlv_rc_code TLV_BUFFER_OVERFLOW then ''Buffer overflow''
      else if error_code = tlv_rc_code TLV_BUFFER_UNDERFLOW then ''Buffer underflow''
      else if error_code = tlv_rc_code TLV_TYPE_MISMATCH then ''Type mismatch''
      else if error_code = tlv_rc_code TLV_NOT_FOUND then ''Not found''
      else if error_code = tlv_rc_code TLV_INVALID_LENGTH then ''Invalid length''
      else if error_code = tlv_rc_code TLV_NESTING_OVERFLOW then ''Nesting overflow''
      else if error_code = tlv_rc_code TLV_CHECKSUM_ERROR then ''Checksum error''
      else ''Unknown error'')"

definition xy_tlv_get_stats :: "tlv_stats \<Rightarrow> tlv_stats option \<Rightarrow> tlv_rc \<times> tlv_stats option" where
  "xy_tlv_get_stats st stats =
     (case stats of None \<Rightarrow> (TLV_INVALID_PARAM, None) | Some _ \<Rightarrow> (TLV_OK, Some st))"

definition xy_tlv_reset_stats :: "tlv_stats \<Rightarrow> tlv_stats" where
  "xy_tlv_reset_stats st =
     \<lparr>st_total_encoded = 0, st_total_decoded = 0, st_encoding_errors = 0,
      st_decoding_errors = 0, st_bytes_encoded = 0, st_bytes_decoded = 0\<rparr>"

end
