(* ===== verification/Xy_Tlv_Correct.thy ===== *)
theory Xy_Tlv_Correct
  imports Xy_Tlv
begin

text \<open>
  Correctness of the TLV codec: the serial form of a list of elements, a reference parser, the
  refinement of the iterator and of every loop over it to that parser, the encoder's effect on
  its buffer, and the properties built from them.
\<close>

subsection \<open>Byte order round trips\<close>

lemma length_write_uints [simp]:
  "length (write_uint16 a) = 2" "length (write_uint32 b) = 4" "length (write_uint64 c) = 8"
  by (simp_all add: write_uint16_def write_uint32_def write_uint64_def)

lemma read_write_uint16 [simp]: "read_uint16 (write_uint16 v @ rest) = Some v"
proof -
  have "push_bit 8 (ucast (ucast (drop_bit 8 v) :: u8)) OR ucast (ucast v :: u8) = v"
    by (rule bit_word_eqI, simp only: bit_bytes) auto
  then show ?thesis by (simp add: read_uint16_def write_uint16_def mem_load_def)
qed

lemma read_write_uint32 [simp]: "read_uint32 (write_uint32 v @ rest) = Some v"
proof -
  have "push_bit 24 (ucast (ucast (drop_bit 24 v) :: u8))
      OR push_bit 16 (ucast (ucast (drop_bit 16 v) :: u8))
      OR push_bit 8 (ucast (ucast (drop_bit 8 v) :: u8)) OR ucast (ucast v :: u8) = v"
    by (rule bit_word_eqI, simp only: bit_bytes) auto
  then show ?thesis
    by (simp add: read_uint32_def write_uint32_def mem_load_def numeral_3_eq_3 numeral_2_eq_2)
qed

lemma read_write_uint64 [simp]: "read_uint64 (write_uint64 v @ rest) = Some v"
proof -
  have "push_bit 56 (ucast (ucast (drop_bit 56 v) :: u8))
      OR push_bit 48 (ucast (ucast (drop_bit 48 v) :: u8))
      OR push_bit 40 (ucast (ucast (drop_bit 40 v) :: u8))
      OR push_bit 32 (ucast (ucast (drop_bit 32 v) :: u8))
      OR push_bit 24 (ucast (ucast (drop_bit 24 v) :: u8))
      OR push_bit 16 (ucast (ucast (drop_bit 16 v) :: u8))
      OR push_bit 8 (ucast (ucast (drop_bit 8 v) :: u8)) OR ucast (ucast v :: u8) = v"
    by (rule bit_word_eqI, simp only: bit_bytes) auto
  then show ?thesis by (simp add: read_uint64_def write_uint64_def mem_load_def)
qed

text \<open>Reading two bytes in range always succeeds, and writing back gives the same bytes.\<close>

lemma read_uint16_Some:
  assumes "2 \<le> length xs"
  shows "\<exists>v. read_uint16 xs = Some v \<and> take 2 xs = write_uint16 v"
proof -
  obtain a b ys where xs: "xs = a # b # ys"
    using assms by (cases xs; cases "tl xs") auto
  let ?v = "push_bit 8 (ucast a) OR ucast b :: u16"
  have "ucast (drop_bit 8 ?v) = a"
    by (rule u8_eqI) (simp add: bit_simps)
  moreover have "ucast ?v = b"
    by (rule u8_eqI) (simp add: bit_simps)
  ultimately have "read_uint16 xs = Some ?v \<and> take 2 xs = write_uint16 ?v"
    by (simp add: xs read_uint16_def write_uint16_def mem_load_def)
  then show ?thesis ..
qed

lemma read_uint16_take: "2 \<le> n \<Longrightarrow> read_uint16 (take n xs) = read_uint16 xs"
  by (simp add: read_uint16_def mem_load_def)

subsection \<open>The serial form and the reference parser\<close>

type_synonym tlv_item = "u16 \<times> u8 list"

definition item_bytes :: "tlv_item \<Rightarrow> u8 list" where
  "item_bytes it = write_uint16 (fst it) @ write_uint16 (of_nat (length (snd it))) @ snd it"

definition tlv_bytes :: "tlv_item list \<Rightarrow> u8 list" where
  "tlv_bytes its = concat (map item_bytes its)"

definition item_ok :: "tlv_item \<Rightarrow> bool" where
  "item_ok it \<longleftrightarrow> length (snd it) < 65536"

lemma tlv_bytes_simps [simp]:
  "tlv_bytes [] = []" "tlv_bytes (it # its) = item_bytes it @ tlv_bytes its"
  by (simp_all add: tlv_bytes_def)

lemma tlv_bytes_append [simp]: "tlv_bytes (its @ its') = tlv_bytes its @ tlv_bytes its'"
  by (simp add: tlv_bytes_def)

lemma length_item_bytes [simp]: "length (item_bytes it) = 4 + length (snd it)"
  by (simp add: item_bytes_def)

text \<open>
  The reference parser works on exactly the bytes that remain: the elements it reads, and the
  code that stops it.
\<close>

function tlv_scan :: "u8 list \<Rightarrow> tlv_item list \<times> tlv_rc" where
  "tlv_scan bs =
     (if length bs < 4 then ([], if bs = [] then TLV_NOT_FOUND else TLV_BUFFER_UNDERFLOW)
      else
        (let ty = the (read_uint16 bs); n = unat (the (read_uint16 (drop 2 bs))) in
         if n > length bs - 4 then ([], TLV_INVALID_LENGTH)
         else (let (its, rc) = tlv_scan (drop (4 + n) bs)
               in ((ty, take n (drop 4 bs)) # its, rc))))"
  by pat_completeness auto
termination
  by (relation "measure length") auto

declare tlv_scan.simps [simp del]

lemma tlv_scan_Nil [simp]: "tlv_scan [] = ([], TLV_NOT_FOUND)"
  by (subst tlv_scan.simps) simp

lemma tlv_scan_item:
  assumes "item_ok it"
  shows "tlv_scan (item_bytes it @ rest) =
    (it # fst (tlv_scan rest), snd (tlv_scan rest))"
proof -
  have n: "unat (of_nat (length (snd it)) :: u16) = length (snd it)"
    using assms by (simp add: item_ok_def unat_of_nat_u16)
  have "read_uint16 (drop 2 (item_bytes it @ rest)) = Some (of_nat (length (snd it)))"
    and "read_uint16 (item_bytes it @ rest) = Some (fst it)"
    and "drop 4 (item_bytes it @ rest) = snd it @ rest"
    by (simp_all add: item_bytes_def)
  moreover have "drop (4 + length (snd it)) (item_bytes it @ rest) = rest"
    by simp
  ultimately show ?thesis
    by (subst tlv_scan.simps) (simp add: n split_def Let_def)
qed

lemma tlv_scan_bytes:
  "list_all item_ok its \<Longrightarrow>
   tlv_scan (tlv_bytes its @ rest) = (its @ fst (tlv_scan rest), snd (tlv_scan rest))"
  by (induction its) (simp_all add: tlv_scan_item)

text \<open>The converse: what the parser reads is a prefix of its input, in serial form.\<close>

lemma tlv_scan_sound:
  "tlv_scan bs = (its, rc) \<Longrightarrow>
   \<exists>rest. bs = tlv_bytes its @ rest \<and> list_all item_ok its \<and> rc \<noteq> TLV_OK
     \<and> (rc = TLV_NOT_FOUND \<longleftrightarrow> rest = [])"
proof (induction bs arbitrary: its rc rule: tlv_scan.induct)
  case (1 bs)
  show ?case
  proof (cases "length bs < 4")
    case True
    with "1.prems" show ?thesis by (subst (asm) tlv_scan.simps) (auto split: if_splits)
  next
    case False
    obtain ty where ty: "read_uint16 bs = Some ty" "take 2 bs = write_uint16 ty"
      using False read_uint16_Some [of bs] by fastforce
    obtain len where len: "read_uint16 (drop 2 bs) = Some len"
        "take 2 (drop 2 bs) = write_uint16 len"
      using False read_uint16_Some [of "drop 2 bs"] by fastforce
    have hdr: "bs = write_uint16 ty @ write_uint16 len @ drop 4 bs"
      by (metis ty(2) len(2) append_take_drop_id drop_drop numeral_Bit0 add.commute)
    show ?thesis
    proof (cases "unat len > length bs - 4")
      case True
      with "1.prems" False show ?thesis
        by (subst (asm) tlv_scan.simps) (auto simp: ty len)
    next
      case fits: False
      obtain its' where rec: "tlv_scan (drop (4 + unat len) bs) = (its', rc)"
        and its: "its = (ty, take (unat len) (drop 4 bs)) # its'"
        using "1.prems" False fits
        by (subst (asm) tlv_scan.simps) (auto simp: ty len Let_def split: prod.splits)
      from "1.IH" [OF False refl refl, of its' rc] fits rec
      obtain rest where rest: "drop (4 + unat len) bs = tlv_bytes its' @ rest"
        and ok: "list_all item_ok its'" "rc \<noteq> TLV_OK" "rc = TLV_NOT_FOUND \<longleftrightarrow> rest = []"
        by (auto simp: len)
      have l: "length (take (unat len) (drop 4 bs)) = unat len"
        using fits False by simp
      have "item_bytes (ty, take (unat len) (drop 4 bs)) @ drop (4 + unat len) bs = bs"
        unfolding item_bytes_def fst_conv snd_conv l
        using hdr append_take_drop_id [of "unat len" "drop 4 bs"]
        by (simp add: add.commute [of 4])
      moreover have "item_ok (ty, take (unat len) (drop 4 bs))"
        unfolding item_ok_def snd_conv l by simp
      ultimately show ?thesis
        using rest ok its by (intro exI [of _ rest]) simp
    qed
  qed
qed

subsection \<open>The iterator refines the reference parser\<close>

definition it_window :: "tlv_iter \<Rightarrow> u8 list" where
  "it_window it = take (unat (it_remaining it)) (drop (unat (it_offset it)) (it_buffer it))"

definition it_wf :: "tlv_iter \<Rightarrow> bool" where
  "it_wf it \<longleftrightarrow> unat (it_offset it) + unat (it_remaining it) \<le> length (it_buffer it)
     \<and> unat (it_offset it) + unat (it_remaining it) < 65536"

definition elem_item :: "tlv_elem \<Rightarrow> tlv_item" where
  "elem_item el = (el_type el, take (unat (el_length el)) (el_value el))"

definition elem_ok :: "tlv_elem \<Rightarrow> bool" where
  "elem_ok el \<longleftrightarrow> unat (el_length el) \<le> length (el_value el)"

lemma length_it_window: "it_wf it \<Longrightarrow> length (it_window it) = unat (it_remaining it)"
  by (auto simp: it_wf_def it_window_def min_def)

lemma it_window_eq_Nil: "it_wf it \<Longrightarrow> it_window it = [] \<longleftrightarrow> it_remaining it = 0"
  using length_it_window [of it] by (auto simp: unat_eq_0)

lemma read_uint16_window:
  assumes "it_wf it" and "4 \<le> unat (it_remaining it)" and "k \<le> 2"
  shows "read_uint16 (drop k (drop (unat (it_offset it)) (it_buffer it)))
    = read_uint16 (drop k (it_window it))"
proof -
  have "drop k (it_window it) = take (unat (it_remaining it) - k)
      (drop k (drop (unat (it_offset it)) (it_buffer it)))"
    by (simp add: it_window_def drop_take)
  moreover have "2 \<le> unat (it_remaining it) - k" using assms by linarith
  ultimately show ?thesis by (simp add: read_uint16_take)
qed

text \<open>The iterator's window after a step over an element with \<open>len\<close> bytes of value.\<close>

lemma it_wf_step:
  assumes "it_wf it" and "4 \<le> unat (it_remaining it)"
    and "unat len \<le> unat (it_remaining it) - 4"
  defines "it' \<equiv> it\<lparr>it_offset := it_offset it + (4 + len),
                   it_remaining := it_remaining it - (4 + len)\<rparr>"
  shows "it_wf it' \<and> it_window it' = drop (4 + unat len) (it_window it)"
proof -
  have sz: "unat (4 + len :: u16) = 4 + unat len"
    using assms by (intro tlv_size_no_wrap)
  have off: "unat (it_offset it + (4 + len)) = unat (it_offset it) + (4 + unat len)"
    using assms(1-3) sz by (subst unat_add_u16) (auto simp: it_wf_def)
  have rem: "unat (it_remaining it - (4 + len)) = unat (it_remaining it) - (4 + unat len)"
    using assms(2,3) sz by (subst unat_sub_u16) auto
  have "it_wf it'"
    using assms(1-3) by (auto simp: it_wf_def it'_def off rem)
  moreover have "it_window it' = drop (4 + unat len) (it_window it)"
    by (simp add: it_window_def it'_def off rem drop_take)
      (simp add: add.commute add.left_commute)
  ultimately show ?thesis ..
qed

lemma tlv_next_refines:
  assumes wf: "it_wf it"
  shows "\<exists>rc it' el' st'. tlv_next st it el = Some (rc, it', el', st') \<and> it_wf it' \<and>
    (case tlv_scan (it_window it) of
       ([], r) \<Rightarrow> rc = r \<and> rc \<noteq> TLV_OK \<and> it' = it
     | (x # xs, r) \<Rightarrow> rc = TLV_OK \<and> tlv_scan (it_window it') = (xs, r)
         \<and> elem_item el' = x \<and> elem_ok el')"
proof (cases "unat (it_remaining it) < 4")
  case True
  then have "tlv_scan (it_window it) =
      ([], if it_remaining it = 0 then TLV_NOT_FOUND else TLV_BUFFER_UNDERFLOW)"
    using wf by (subst tlv_scan.simps) (simp add: length_it_window it_window_eq_Nil)
  then show ?thesis
    using True wf by (auto simp: tlv_next_def XY_TLV_HEADER_SIZE_def word_neq_0_conv)
next
  case False
  let ?w = "it_window it"
  let ?p = "drop (unat (it_offset it)) (it_buffer it)"
  have l4: "4 \<le> unat (it_remaining it)" "4 \<le> length ?w"
    using False wf by (simp_all add: length_it_window)
  obtain ty where ty: "read_uint16 ?w = Some ty"
    using l4 read_uint16_Some [of ?w] by fastforce
  obtain len where len: "read_uint16 (drop 2 ?w) = Some len"
    using l4 read_uint16_Some [of "drop 2 ?w"] by fastforce
  have p: "read_uint16 ?p = Some ty" "read_uint16 (drop 2 ?p) = Some len"
    using read_uint16_window [OF wf l4(1), of 0] read_uint16_window [OF wf l4(1), of 2] ty len
    by simp_all
  show ?thesis
  proof (cases "unat len > unat (it_remaining it) - 4")
    case True
    then have "tlv_scan ?w = ([], TLV_INVALID_LENGTH)"
      using False wf by (subst tlv_scan.simps) (simp add: length_it_window ty len)
    then show ?thesis
      using True False wf p by (auto simp: tlv_next_def XY_TLV_HEADER_SIZE_def)
  next
    case fits: False
    let ?it' = "it\<lparr>it_offset := it_offset it + (4 + len),
                   it_remaining := it_remaining it - (4 + len)\<rparr>"
    let ?el' = "el\<lparr>el_type := ty, el_length := len, el_value := drop 4 ?p\<rparr>"
    have step: "it_wf ?it'" "it_window ?it' = drop (4 + unat len) ?w"
      using it_wf_step [OF wf l4(1), of len] fits by auto
    have "take (unat len) (drop 4 ?w) = take (unat len) (drop 4 ?p)"
      using fits by (simp add: it_window_def drop_take min_absorb1)
    then have el: "elem_item ?el' = (ty, take (unat len) (drop 4 ?w))"
      by (simp add: elem_item_def)
    have "unat len \<le> length (drop 4 ?p)"
      using wf fits l4 by (auto simp: it_wf_def)
    then have ok: "elem_ok ?el'" by (simp add: elem_ok_def)
    have scan: "tlv_scan ?w = ((ty, take (unat len) (drop 4 ?w)) # fst (tlv_scan (it_window ?it')),
        snd (tlv_scan (it_window ?it')))"
      using False fits wf
      by (subst tlv_scan.simps)
        (simp add: length_it_window ty len step(2) Let_def split_def)
    have "\<exists>st'. tlv_next st it el = Some (TLV_OK, ?it', ?el', st')"
      using False fits p by (auto simp: tlv_next_def XY_TLV_HEADER_SIZE_def Let_def)
    then show ?thesis
      using step(1) el ok unfolding scan by auto
  qed
qed

text \<open>The same fact, split by what the parser sees.\<close>

lemma tlv_next_stop:
  assumes "it_wf it" and "tlv_scan (it_window it) = ([], r)"
  shows "r \<noteq> TLV_OK \<and> (\<exists>el' st'. tlv_next st it el = Some (r, it, el', st'))"
  using tlv_next_refines [OF assms(1), of st el] assms(2) by auto

lemma tlv_next_item:
  assumes "it_wf it" and "tlv_scan (it_window it) = (x # xs, r)"
  shows "\<exists>it' el' st'. tlv_next st it el = Some (TLV_OK, it', el', st') \<and> it_wf it'
    \<and> tlv_scan (it_window it') = (xs, r) \<and> elem_item el' = x \<and> elem_ok el'"
  using tlv_next_refines [OF assms(1), of st el] assms(2) by auto

subsection \<open>The loops\<close>

declare tlv_find_loop.simps [simp del] tlv_find_all_loop.simps [simp del]
  tlv_count_loop.simps [simp del] tlv_validate_loop.simps [simp del]

lemma tlv_count_loop_scan:
  assumes "it_wf it" and "tlv_scan (it_window it) = (its, r)"
  shows "\<exists>st'. tlv_count_loop st it cur c = Some (c + int (length its), st')"
  using assms
proof (induction its arbitrary: st it cur c)
  case Nil
  from tlv_next_stop [OF Nil, of st cur] show ?case
    by (subst tlv_count_loop.simps) auto
next
  case (Cons x xs)
  from tlv_next_item [OF Cons.prems, of st cur] obtain it' el' st' where
    step: "tlv_next st it cur = Some (TLV_OK, it', el', st')" "it_wf it'"
      "tlv_scan (it_window it') = (xs, r)" by blast
  from Cons.IH [OF step(2,3), of st' el' "c + 1"] show ?case
    by (subst tlv_count_loop.simps) (auto simp: step(1))
qed

lemma tlv_validate_loop_scan:
  assumes "it_wf it" and "tlv_scan (it_window it) = (its, r)"
  shows "\<exists>it' st'. tlv_validate_loop st it cur = Some (r, it', st') \<and> r \<noteq> TLV_OK
    \<and> (r = TLV_NOT_FOUND \<longleftrightarrow> it_remaining it' = 0)"
  using assms
proof (induction its arbitrary: st it cur)
  case Nil
  then have "r = TLV_NOT_FOUND \<longleftrightarrow> it_remaining it = 0"
    using it_window_eq_Nil [OF Nil(1)] tlv_scan_sound [OF Nil(2)] by auto
  with tlv_next_stop [OF Nil, of st cur] show ?case
    by (subst tlv_validate_loop.simps) auto
next
  case (Cons x xs)
  from tlv_next_item [OF Cons.prems, of st cur] obtain it' el' st' where
    step: "tlv_next st it cur = Some (TLV_OK, it', el', st')" "it_wf it'"
      "tlv_scan (it_window it') = (xs, r)" by blast
  from Cons.IH [OF step(2,3), of st' el'] show ?case
    by (subst tlv_validate_loop.simps) (auto simp: step(1))
qed

lemma tlv_find_loop_scan:
  assumes "it_wf it" and "tlv_scan (it_window it) = (its, r)"
  shows "\<exists>res st'. tlv_find_loop ty st it cur = Some (res, st') \<and>
    map_option elem_item res = find (\<lambda>x. fst x = ty) its \<and> pred_option elem_ok res"
  using assms
proof (induction its arbitrary: st it cur)
  case Nil
  from tlv_next_stop [OF Nil, of st cur] show ?case
    by (subst tlv_find_loop.simps) auto
next
  case (Cons x xs)
  from tlv_next_item [OF Cons.prems, of st cur] obtain it' el' st' where
    step: "tlv_next st it cur = Some (TLV_OK, it', el', st')" "it_wf it'"
      "tlv_scan (it_window it') = (xs, r)" "elem_item el' = x" "elem_ok el'" by blast
  have "el_type el' = fst x" using step(4) by (auto simp: elem_item_def)
  with Cons.IH [OF step(2,3), of st' el'] step(4,5) show ?case
    by (subst tlv_find_loop.simps) (auto simp: step(1))
qed

text \<open>
  \<open>xy_tlv_find_all\<close>: the array receives the first matches, as many as it holds, and the count
  is the number of all matches.
\<close>

lemma tlv_find_all_loop_scan:
  assumes "it_wf it" and "tlv_scan (it_window it) = (its, r)"
    and "unat count + length its < 65536" and "unat max_count \<le> length arr"
  shows "\<exists>arr' st'. tlv_find_all_loop ty max_count st it cur (Some arr) count
      = Some (count + of_nat (length (filter (\<lambda>x. fst x = ty) its)), Some arr', st')
    \<and> length arr' = length arr
    \<and> (\<forall>j < unat count. arr' ! j = arr ! j)
    \<and> (\<forall>i < length (filter (\<lambda>x. fst x = ty) its). unat count + i < unat max_count \<longrightarrow>
          elem_item (arr' ! (unat count + i)) = filter (\<lambda>x. fst x = ty) its ! i \<and> elem_ok (arr' ! (unat count + i)))"
  using assms
proof (induction its arbitrary: st it cur count arr)
  case Nil
  from tlv_next_stop [OF Nil(1,2), of st cur] show ?case
    by (subst tlv_find_all_loop.simps) auto
next
  case (Cons x xs)
  from tlv_next_item [OF Cons.prems(1,2), of st cur] obtain it' el' st' where
    step: "tlv_next st it cur = Some (TLV_OK, it', el', st')" "it_wf it'"
      "tlv_scan (it_window it') = (xs, r)" "elem_item el' = x" "elem_ok el'" by blast
  have ty: "el_type el' = fst x" using step(4) by (auto simp: elem_item_def)
  show ?case
  proof (cases "fst x = ty")
    case False
    with Cons.IH [OF step(2,3), of count arr st' el'] Cons.prems(3,4) show ?thesis
      by (subst tlv_find_all_loop.simps) (auto simp: step(1) ty)
  next
    case True
    have c1: "unat (count + 1) = Suc (unat count)"
      using Cons.prems(3) by (subst unat_add_u16) auto
    define arr1 where "arr1 = (if count < max_count then arr[unat count := el'] else arr)"
    have l1: "length arr1 = length arr" by (simp add: arr1_def)
    have inside: "unat count < length arr" if "count < max_count"
      using that Cons.prems(4) by (simp add: word_less_nat_alt)
    obtain arr' st'' where
      rec: "tlv_find_all_loop ty max_count st' it' el' (Some arr1) (count + 1)
          = Some (count + 1 + of_nat (length (filter (\<lambda>x. fst x = ty) xs)), Some arr', st'')"
      and len: "length arr' = length arr"
      and old: "\<forall>j < Suc (unat count). arr' ! j = arr1 ! j"
      and new: "\<forall>i < length (filter (\<lambda>x. fst x = ty) xs). Suc (unat count) + i < unat max_count \<longrightarrow>
          elem_item (arr' ! (Suc (unat count) + i)) = filter (\<lambda>x. fst x = ty) xs ! i
          \<and> elem_ok (arr' ! (Suc (unat count) + i))"
      using Cons.IH [OF step(2,3), of "count + 1" arr1 st' el'] Cons.prems(3,4)
      by (auto simp: c1 l1)
    have "arr' ! unat count = el'" if "unat count < unat max_count"
      using old that Cons.prems(4) by (simp add: arr1_def word_less_nat_alt)
    moreover have "arr' ! j = arr ! j" if "j < unat count" for j
      using old that by (simp add: arr1_def)
    moreover have "tlv_find_all_loop ty max_count st it cur (Some arr) count
        = tlv_find_all_loop ty max_count st' it' el' (Some arr1) (count + 1)"
      by (subst tlv_find_all_loop.simps)
        (simp add: step(1) ty True arr1_def mem_store_in [OF inside])
    ultimately show ?thesis
      using rec len new True step(4,5)
      by (intro exI [of _ arr'] exI [of _ st''])
        (auto simp: nth_Cons algebra_simps split: nat.split)
  qed
qed

subsection \<open>The API functions over a whole buffer\<close>

lemma init_window:
  assumes "unat n \<le> length m" and "n \<noteq> 0"
  shows "\<exists>it. xy_tlv_iterator_init (Some it0) (Some m) n = (TLV_OK, Some it) \<and> it_wf it
    \<and> it_window it = take (unat n) m"
  using assms by (simp add: xy_tlv_iterator_init_def it_wf_def it_window_def)

lemma xy_tlv_count_scan:
  assumes "unat n \<le> length m" and "n \<noteq> 0"
  shows "\<exists>st'. xy_tlv_count st (Some m) n
    = Some (int (length (fst (tlv_scan (take (unat n) m)))), st')"
proof -
  obtain it where it: "xy_tlv_iterator_init (Some tlv_iter_local) (Some m) n = (TLV_OK, Some it)"
    "it_wf it" "it_window it = take (unat n) m"
    using init_window [OF assms] by blast
  show ?thesis
    using tlv_count_loop_scan [OF it(2) surjective_pairing, of st tlv_local 0]
    by (auto simp: xy_tlv_count_def it)
qed

lemma xy_tlv_validate_scan:
  assumes "unat n \<le> length m" and "n \<noteq> 0"
  defines "r \<equiv> snd (tlv_scan (take (unat n) m))"
  shows "\<exists>st'. xy_tlv_validate st (Some m) n
    = Some (if r = TLV_NOT_FOUND then TLV_OK else r, st')"
proof -
  obtain it where it: "xy_tlv_iterator_init (Some tlv_iter_local) (Some m) n = (TLV_OK, Some it)"
    "it_wf it" "it_window it = take (unat n) m"
    using init_window [OF assms(1,2)] by blast
  obtain it' st' where "tlv_validate_loop st it tlv_local = Some (r, it', st')"
    and "r = TLV_NOT_FOUND \<longleftrightarrow> it_remaining it' = 0"
    using tlv_validate_loop_scan [OF it(2) surjective_pairing, of st tlv_local] it(3)
    by (auto simp: r_def)
  then show ?thesis
    by (auto simp: xy_tlv_validate_def it)
qed

lemma xy_tlv_find_scan:
  assumes "unat n \<le> length m" and "n \<noteq> 0"
  shows "\<exists>res st'. map_option elem_item res = find (\<lambda>x. fst x = ty) (fst (tlv_scan (take (unat n) m)))
    \<and> pred_option elem_ok res
    \<and> xy_tlv_find st (Some m) n ty (Some el0) =
        Some (case res of None \<Rightarrow> (TLV_NOT_FOUND, Some el0, st') | Some el \<Rightarrow> (TLV_OK, Some el, st'))"
proof -
  obtain it where it: "xy_tlv_iterator_init (Some tlv_iter_local) (Some m) n = (TLV_OK, Some it)"
    "it_wf it" "it_window it = take (unat n) m"
    using init_window [OF assms] by blast
  obtain res st' where "tlv_find_loop ty st it tlv_local = Some (res, st')"
    and "map_option elem_item res = find (\<lambda>x. fst x = ty) (fst (tlv_scan (take (unat n) m)))"
    and "pred_option elem_ok res"
    using tlv_find_loop_scan [OF it(2) surjective_pairing, of ty st tlv_local] it(3) by metis
  then show ?thesis
    by (intro exI [of _ res] exI [of _ st']) (auto simp: xy_tlv_find_def it split: option.splits)
qed

subsection \<open>The encoder\<close>

definition tb_wf :: "tlv_buffer \<Rightarrow> bool" where
  "tb_wf b \<longleftrightarrow> (case tb_buffer b of None \<Rightarrow> False | Some m \<Rightarrow> unat (tb_capacity b) \<le> length m)
     \<and> unat (tb_offset b) \<le> unat (tb_capacity b)"

definition tb_contents :: "tlv_buffer \<Rightarrow> u8 list" where
  "tb_contents b = take (unat (tb_offset b)) (the (tb_buffer b))"

definition payload :: "u8 list option \<Rightarrow> u16 \<Rightarrow> u8 list" where
  "payload value len = (case value of None \<Rightarrow> [] | Some s \<Rightarrow> take (unat len) s)"

definition payload_ok :: "u8 list option \<Rightarrow> u16 \<Rightarrow> bool" where
  "payload_ok value len \<longleftrightarrow> len = 0 \<or> (case value of None \<Rightarrow> False | Some s \<Rightarrow> unat len \<le> length s)"

lemma length_payload: "payload_ok value len \<Longrightarrow> length (payload value len) = unat len"
  by (auto simp: payload_ok_def payload_def split: option.splits)

lemma tlv_write_item_ok:
  assumes room: "unat off + 4 + unat len \<le> length m" and small: "unat off + 4 + unat len < 65536"
    and val: "payload_ok value len"
  shows "tlv_write_item m off ty value len =
    Some (take (unat off) m @ item_bytes (ty, payload value len)
          @ drop (unat off + 4 + unat len) m, off + (4 + len))"
proof -
  let ?bs = "item_bytes (ty, payload value len)"
  let ?o = "unat off"
  have o1: "unat (off + 2) = ?o + 2" using small by (subst unat_add_u16) auto
  have o2: "unat (off + 4) = ?o + 4" using small by (subst unat_add_u16) auto
  have off4: "off + 2 + 2 = off + 4" by simp
  obtain m1 where m1: "mem_write m ?o (write_uint16 ty) = Some m1"
    using room by (simp add: mem_write_def)
  have l1: "length m1 = length m" using m1 by (rule mem_write_length)
  obtain m2 where m2: "mem_write m1 (?o + 2) (write_uint16 len) = Some m2"
    using room l1 by (simp add: mem_write_def)
  have l2: "length m2 = length m" using m2 l1 by (simp add: mem_write_length)
  have hdr: "mem_write m ?o (write_uint16 ty @ write_uint16 len) = Some m2"
    using mem_write_append [OF m1] m2 by simp
  show ?thesis
  proof (cases "len = 0")
    case True
    then have "payload value len = []" using val length_payload [OF val] by simp
    moreover have "m2 = take ?o m @ write_uint16 ty @ write_uint16 len @ drop (?o + 4) m"
      using hdr by (simp add: mem_iff)
    ultimately show ?thesis
      using True m1 m2 o1 o2 by (simp add: tlv_write_item_def Let_def item_bytes_def off4)
  next
    case False
    then obtain s where s: "value = Some s" "unat len \<le> length s"
      using val by (auto simp: payload_ok_def split: option.splits)
    have pl: "payload value len = take (unat len) s" by (simp add: payload_def s)
    obtain m3 where m3: "mem_write m2 (?o + 4) (take (unat len) s) = Some m3"
      using room l2 s by (simp add: mem_write_def)
    have "mem_write m ?o ((write_uint16 ty @ write_uint16 len) @ take (unat len) s) = Some m3"
      using mem_write_append [OF hdr] m3 by simp
    then have "m3 = take ?o m @ ?bs @ drop (?o + 4 + unat len) m"
      using s by (simp add: payload_def item_bytes_def mem_iff add.assoc min_absorb1 numeral_eq_Suc)
    then show ?thesis
      using False m1 m2 m3 o1 o2 s
      by (simp add: tlv_write_item_def Let_def off4 word_neq_0_conv [symmetric]
          mem_read_def add.assoc)
  qed
qed

text \<open>The encoder appends the serial form of the element and touches nothing else.\<close>

lemma xy_tlv_encode_ok:
  assumes wf: "tb_wf b" and val: "payload_ok value len"
    and room: "unat (tb_offset b) + 4 + unat len \<le> unat (tb_capacity b)"
  shows "\<exists>b' st'. xy_tlv_encode st (Some b) ty value len = Some (TLV_OK, Some b', st')
    \<and> tb_wf b' \<and> tb_contents b' = tb_contents b @ item_bytes (ty, payload value len)
    \<and> unat (tb_offset b') = unat (tb_offset b) + 4 + unat len
    \<and> tb_capacity b' = tb_capacity b \<and> tb_nesting b' = tb_nesting b
    \<and> drop (unat (tb_offset b')) (the (tb_buffer b'))
        = drop (unat (tb_offset b')) (the (tb_buffer b))
    \<and> length (the (tb_buffer b')) = length (the (tb_buffer b))"
proof -
  let ?o = "unat (tb_offset b)"
  obtain m where m: "tb_buffer b = Some m" "unat (tb_capacity b) \<le> length m"
    using wf by (auto simp: tb_wf_def split: option.splits)
  have sum: "?o + 4 + unat len < 65536"
    using room unat_u16_less [of "tb_capacity b"] by linarith
  have req: "unat (4 + len) = 4 + unat len" using sum by (subst unat_add_u16) auto
  have off: "unat (tb_offset b + (4 + len)) = ?o + 4 + unat len"
    using sum req by (subst unat_add_u16) auto
  let ?m' = "take ?o m @ item_bytes (ty, payload value len) @ drop (?o + 4 + unat len) m"
  let ?b' = "b\<lparr>tb_buffer := Some ?m', tb_offset := tb_offset b + (4 + len)\<rparr>"
  let ?st' = "st\<lparr>st_total_encoded := st_total_encoded st + 1,
      st_bytes_encoded := st_bytes_encoded st + ucast (4 + len)\<rparr>"
  have "tlv_write_item m (tb_offset b) ty value len = Some (?m', tb_offset b + (4 + len))"
    using room m(2) sum val by (intro tlv_write_item_ok) auto
  moreover have "\<not> (0 < len \<and> value = None)"
    using val by (auto simp: payload_ok_def split: option.splits)
  ultimately have "xy_tlv_encode st (Some b) ty value len = Some (TLV_OK, Some ?b', ?st')"
    using room req by (simp add: xy_tlv_encode_def m XY_TLV_HEADER_SIZE_def Let_def)
  moreover have "length ?m' = length m" "take (?o + 4 + unat len) ?m' = take ?o m @ item_bytes (ty, payload value len)"
    "drop (?o + 4 + unat len) ?m' = drop (?o + 4 + unat len) m"
    using room m(2) length_payload [OF val] by (simp_all add: min_absorb2)
  ultimately show ?thesis
    using m(2) room
    by (intro exI [of _ ?b'] exI [of _ ?st']) (simp add: tb_wf_def tb_contents_def off m(1))
qed

text \<open>Refusals of the encoder: the error is counted and the buffer is untouched.\<close>

lemma xy_tlv_encode_full:
  assumes "tb_buffer b = Some m" and "payload_ok value len"
    and "unat len \<le> 65531" and "unat (tb_offset b) + 4 + unat len > unat (tb_capacity b)"
  shows "xy_tlv_encode st (Some b) ty value len =
    Some (TLV_BUFFER_OVERFLOW, Some b, st\<lparr>st_encoding_errors := st_encoding_errors st + 1\<rparr>)"
proof -
  have "unat (4 + len) = 4 + unat len" using assms(3) by (subst unat_add_u16) auto
  moreover have "\<not> (0 < len \<and> value = None)"
    using assms(2) by (auto simp: payload_ok_def split: option.splits)
  ultimately show ?thesis
    using assms(4) by (simp add: xy_tlv_encode_def assms(1) XY_TLV_HEADER_SIZE_def Let_def)
qed

text \<open>A client that encodes a list of elements one after the other, stopping at the first error.\<close>

fun encode_items ::
  "tlv_stats \<Rightarrow> tlv_buffer \<Rightarrow> tlv_item list \<Rightarrow> (tlv_buffer \<times> tlv_stats) option" where
  "encode_items st b [] = Some (b, st)"
| "encode_items st b (it # its) =
     (case xy_tlv_encode st (Some b) (fst it) (Some (snd it)) (of_nat (length (snd it))) of
        Some (TLV_OK, Some b', st') \<Rightarrow> encode_items st' b' its
      | _ \<Rightarrow> None)"

lemma encode_items_ok:
  assumes "tb_wf b" and "list_all item_ok its"
    and "unat (tb_offset b) + length (tlv_bytes its) \<le> unat (tb_capacity b)"
  shows "\<exists>b' st'. encode_items st b its = Some (b', st') \<and> tb_wf b'
    \<and> tb_contents b' = tb_contents b @ tlv_bytes its
    \<and> unat (tb_offset b') = unat (tb_offset b) + length (tlv_bytes its)"
  using assms
proof (induction its arbitrary: st b)
  case (Cons it its)
  have n: "unat (of_nat (length (snd it)) :: u16) = length (snd it)"
    using Cons.prems(2) by (simp add: item_ok_def unat_of_nat_u16)
  have ok: "payload_ok (Some (snd it)) (of_nat (length (snd it)))"
    by (simp add: payload_ok_def n)
  obtain b1 st1 where b1:
    "xy_tlv_encode st (Some b) (fst it) (Some (snd it)) (of_nat (length (snd it)))
       = Some (TLV_OK, Some b1, st1)"
    "tb_wf b1" "tb_contents b1 = tb_contents b @ item_bytes it"
    "unat (tb_offset b1) = unat (tb_offset b) + 4 + length (snd it)"
    "tb_capacity b1 = tb_capacity b"
    using xy_tlv_encode_ok [OF Cons.prems(1) ok, of st "fst it"] Cons.prems(3)
    by (auto simp: n payload_def)
  obtain b' st' where "encode_items st1 b1 its = Some (b', st')" "tb_wf b'"
    "tb_contents b' = tb_contents b1 @ tlv_bytes its"
    "unat (tb_offset b') = unat (tb_offset b1) + length (tlv_bytes its)"
    using Cons.IH [OF b1(2), of st1] Cons.prems(2,3) b1(4,5) by auto
  then show ?case
    by (intro exI [of _ b'] exI [of _ st']) (simp add: b1)
qed simp

lemma tlv_scan_tlv_bytes [simp]: "list_all item_ok its \<Longrightarrow> tlv_scan (tlv_bytes its) = (its, TLV_NOT_FOUND)"
  using tlv_scan_bytes [of its "[]"] by simp

text \<open>What a used buffer of the encoder looks like to the decoder.\<close>

lemma tb_contents_window:
  assumes "tb_wf b" and "tb_offset b \<noteq> 0"
  shows "\<exists>m. tb_buffer b = Some m \<and> unat (tb_offset b) \<le> length m
    \<and> take (unat (tb_offset b)) m = tb_contents b"
  using assms by (auto simp: tb_wf_def tb_contents_def split: option.splits)

subsection \<open>Values of a fixed width\<close>

text \<open>
  The interface between a typed encoder and its typed decoder: the value's bytes have a fixed
  length and reading them back, whatever follows them, gives the value.
\<close>

locale byte_codec =
  fixes enc :: "'v \<Rightarrow> u8 list" and dec :: "u8 list \<Rightarrow> 'v option" and width :: nat
  assumes enc_length: "length (enc v) = width"
    and dec_enc: "dec (enc v @ rest) = Some v"
    and width_bound: "0 < width" "width < 65532"
begin

lemma enc_inject: "enc v = enc w \<Longrightarrow> v = w"
  using dec_enc [of v "[]"] dec_enc [of w "[]"] by simp

lemma width_word: "unat (of_nat width :: u16) = width"
  using width_bound by (simp add: unat_of_nat_u16)

lemma enc_payload: "payload (Some (enc v)) (of_nat width) = enc v"
  by (simp add: payload_def width_word enc_length)

lemma enc_payload_ok: "payload_ok (Some (enc v)) (of_nat width)"
  by (simp add: payload_ok_def width_word enc_length)

lemma enc_item_ok: "item_ok (ty, enc v)"
  using width_bound by (simp add: item_ok_def enc_length)

text \<open>An element whose bytes are those of \<open>v\<close> has the width as its length and decodes to \<open>v\<close>.\<close>

lemma elem_decodes:
  assumes "elem_item el = (ty, enc v)" and "elem_ok el"
  shows "el_length el = of_nat width \<and> dec (el_value el) = Some v"
proof -
  have tk: "take (unat (el_length el)) (el_value el) = enc v"
    using assms(1) by (simp add: elem_item_def)
  then have "unat (el_length el) = width"
    using enc_length [of v] assms(2) by (metis elem_ok_def length_take min_absorb2)
  then have "el_length el = of_nat width"
    by (metis unsigned_word_eqI width_word)
  moreover have "el_value el = enc v @ drop (unat (el_length el)) (el_value el)"
    using tk append_take_drop_id by metis
  ultimately show ?thesis using dec_enc by metis
qed

text \<open>
  Encoding a value under a type the buffer does not hold yet, then searching for the type: the
  element found decodes to the value.
\<close>

lemma encode_find_decode:
  assumes "tb_wf b" and "tb_contents b = tlv_bytes its" and "list_all item_ok its"
    and "ty \<notin> fst ` set its"
    and "unat (tb_offset b) + 4 + width \<le> unat (tb_capacity b)"
  shows "\<exists>b' st1 el st2.
      xy_tlv_encode st (Some b) ty (Some (enc v)) (of_nat width) = Some (TLV_OK, Some b', st1)
    \<and> xy_tlv_find st1 (tb_buffer b') (tb_offset b') ty (Some el0) = Some (TLV_OK, Some el, st2)
    \<and> el_length el = of_nat width \<and> dec (el_value el) = Some v"
proof -
  obtain b' st1 where b': "xy_tlv_encode st (Some b) ty (Some (enc v)) (of_nat width)
      = Some (TLV_OK, Some b', st1)" "tb_wf b'"
    "tb_contents b' = tlv_bytes (its @ [(ty, enc v)])"
    "unat (tb_offset b') = unat (tb_offset b) + 4 + width"
    using xy_tlv_encode_ok [OF assms(1) enc_payload_ok, of st ty v] assms(2,5)
    by (auto simp: width_word enc_payload)
  have "tb_offset b' \<noteq> 0" using b'(4) by auto
  then obtain m where m: "tb_buffer b' = Some m" "unat (tb_offset b') \<le> length m"
    "take (unat (tb_offset b')) m = tb_contents b'"
    using tb_contents_window [OF b'(2)] by blast
  have scan: "fst (tlv_scan (take (unat (tb_offset b')) m)) = its @ [(ty, enc v)]"
    using assms(3) enc_item_ok [of ty v] tlv_scan_tlv_bytes [of "its @ [(ty, enc v)]"]
    by (simp only: m(3) b'(3)) simp
  have "find (\<lambda>x. fst x = ty) (its @ [(ty, enc v)]) = Some (ty, enc v)"
    using assms(4) by (induction its) auto
  then obtain el st2 where "elem_item el = (ty, enc v)" "elem_ok el"
    "xy_tlv_find st1 (Some m) (tb_offset b') ty (Some el0) = Some (TLV_OK, Some el, st2)"
    using xy_tlv_find_scan [OF m(2) \<open>tb_offset b' \<noteq> 0\<close>, of ty st1 el0] scan
    by (auto split: option.splits)
  with elem_decodes b'(1) m(1) show ?thesis by metis
qed

end

interpretation u8_codec: byte_codec "\<lambda>v. [v]" "\<lambda>bs. mem_load bs 0" 1
  by unfold_locales (simp_all add: mem_load_def)

interpretation u16_codec: byte_codec write_uint16 read_uint16 2
  by unfold_locales simp_all

interpretation u32_codec: byte_codec write_uint32 read_uint32 4
  by unfold_locales simp_all

interpretation u64_codec: byte_codec write_uint64 read_uint64 8
  by unfold_locales simp_all

subsection \<open>Properties\<close>

definition tlv_stats_zero :: tlv_stats where
  "tlv_stats_zero = \<lparr>st_total_encoded = 0, st_total_decoded = 0, st_encoding_errors = 0,
     st_decoding_errors = 0, st_bytes_encoded = 0, st_bytes_decoded = 0\<rparr>"

definition tlv_buffer_zero :: tlv_buffer where
  "tlv_buffer_zero = \<lparr>tb_buffer = None, tb_capacity = 0, tb_offset = 0, tb_nesting = 0\<rparr>"

text \<open>
  C1. Encoding any non-empty list of elements that fits into a fresh buffer succeeds, the buffer
  then holds exactly their serial form, and the decoder accepts it and counts as many elements.
\<close>

theorem tlv_encode_parse_roundtrip:
  assumes "list_all item_ok its" and "its \<noteq> []"
    and "length (tlv_bytes its) \<le> unat cap" and "unat cap \<le> length m"
  shows "\<exists>b0 b st1 st2 st3. xy_tlv_buffer_init (Some tlv_buffer_zero) (Some m) cap = (TLV_OK, Some b0)
    \<and> encode_items st b0 its = Some (b, st1)
    \<and> take (unat (tb_offset b)) (the (tb_buffer b)) = tlv_bytes its
    \<and> xy_tlv_validate st1 (tb_buffer b) (tb_offset b) = Some (TLV_OK, st2)
    \<and> xy_tlv_count st2 (tb_buffer b) (tb_offset b) = Some (int (length its), st3)"
proof -
  let ?b0 = "\<lparr>tb_buffer = Some m, tb_capacity = cap, tb_offset = 0, tb_nesting = 0\<rparr>"
  obtain it its' where "its = it # its'" using assms(2) by (cases its) auto
  then have pos: "0 < length (tlv_bytes its)" by simp
  have wf: "tb_wf ?b0" and c: "tb_contents ?b0 = []" and o: "tb_offset ?b0 = 0"
    using assms(4) by (simp_all add: tb_wf_def tb_contents_def)
  obtain b st1 where b: "encode_items st ?b0 its = Some (b, st1)" "tb_wf b"
    "tb_contents b = tlv_bytes its" "unat (tb_offset b) = length (tlv_bytes its)"
    using encode_items_ok [OF wf assms(1), of st] assms(3) by (auto simp: c)
  have nz: "tb_offset b \<noteq> 0" using b(4) pos by auto
  obtain mb where mb: "tb_buffer b = Some mb" "unat (tb_offset b) \<le> length mb"
    "take (unat (tb_offset b)) mb = tlv_bytes its"
    using tb_contents_window [OF b(2) nz] b(3) by auto
  obtain st2 where "xy_tlv_validate st1 (Some mb) (tb_offset b) = Some (TLV_OK, st2)"
    using xy_tlv_validate_scan [OF mb(2) nz, of st1] assms(1) by (auto simp: mb(3))
  moreover obtain st3 where
    "xy_tlv_count st2 (Some mb) (tb_offset b) = Some (int (length its), st3)"
    using xy_tlv_count_scan [OF mb(2) nz, of st2] assms(1) by (auto simp: mb(3))
  moreover have "cap \<noteq> 0" using assms(3) pos by auto
  ultimately show ?thesis
    using b(1) mb by (intro exI [of _ ?b0] exI [of _ b] exI [of _ st1] exI [of _ st2] exI [of _ st3])
      (simp add: xy_tlv_buffer_init_def tlv_buffer_zero_def)
qed

theorem tlv_encode_parse_roundtrip_witness:
  "\<exists>b0 b st1 st2 st3. xy_tlv_buffer_init (Some tlv_buffer_zero) (Some (replicate 16 0)) 16 = (TLV_OK, Some b0)
    \<and> encode_items tlv_stats_zero b0 [(1, [7]), (0x101, [72, 105])] = Some (b, st1)
    \<and> take (unat (tb_offset b)) (the (tb_buffer b)) = tlv_bytes [(1, [7]), (0x101, [72, 105])]
    \<and> xy_tlv_validate st1 (tb_buffer b) (tb_offset b) = Some (TLV_OK, st2)
    \<and> xy_tlv_count st2 (tb_buffer b) (tb_offset b) = Some (2, st3)"
  using tlv_encode_parse_roundtrip [of "[(1, [7]), (0x101, [72, 105])]" 16 "replicate 16 0" tlv_stats_zero]
  by (simp add: item_ok_def)

text \<open>
  \<open>xy_tlv_validate\<close> accepts a region of memory exactly when its bytes are the serial form
  of some list of elements: the decoder's grammar is sound and complete.
\<close>

theorem tlv_validate_iff:
  assumes "unat n \<le> length m" and "n \<noteq> 0"
  shows "(\<exists>st'. xy_tlv_validate st (Some m) n = Some (TLV_OK, st'))
    \<longleftrightarrow> (\<exists>its. list_all item_ok its \<and> take (unat n) m = tlv_bytes its)"
proof -
  obtain its r where scan: "tlv_scan (take (unat n) m) = (its, r)" by fastforce
  from tlv_scan_sound [OF scan] have r: "r \<noteq> TLV_OK"
    and sound: "r = TLV_NOT_FOUND \<Longrightarrow> list_all item_ok its \<and> take (unat n) m = tlv_bytes its"
    by auto
  have "r = TLV_NOT_FOUND" if "list_all item_ok its'" "take (unat n) m = tlv_bytes its'" for its'
    using tlv_scan_tlv_bytes [OF that(1)] scan that(2) by simp
  then show ?thesis
    using xy_tlv_validate_scan [OF assms, of st] scan r sound by (auto split: if_splits)
qed

theorem tlv_validate_iff_witness:
  "(\<exists>st'. xy_tlv_validate tlv_stats_zero (Some [0, 1, 0, 1, 7]) 5 = Some (TLV_OK, st'))
    \<longleftrightarrow> (\<exists>its. list_all item_ok its \<and> take (unat (5::u16)) [0, 1, 0, 1, 7] = tlv_bytes its)"
  by (rule tlv_validate_iff) simp_all

text \<open>
  \<open>xy_tlv_find\<close> returns the first element of the requested type with its exact value, also
  when undecodable bytes follow it.
\<close>

theorem tlv_find_first:
  assumes "unat n \<le> length m" and "list_all item_ok (pre @ [(ty, v)])"
    and "take (unat n) m = tlv_bytes (pre @ [(ty, v)]) @ rest" and "ty \<notin> fst ` set pre"
  shows "\<exists>el st'. xy_tlv_find st (Some m) n ty (Some el0) = Some (TLV_OK, Some el, st')
    \<and> el_type el = ty \<and> unat (el_length el) = length v \<and> take (length v) (el_value el) = v"
proof -
  have "n \<noteq> 0" using arg_cong [OF assms(3), of length] by auto
  have scan: "fst (tlv_scan (take (unat n) m)) = (pre @ [(ty, v)]) @ fst (tlv_scan rest)"
    using tlv_scan_bytes [OF assms(2), of rest] assms(3) by simp
  have "find (\<lambda>x. fst x = ty) ((pre @ [(ty, v)]) @ fst (tlv_scan rest)) = Some (ty, v)"
    using assms(4) by (induction pre) auto
  then obtain el st' where "elem_item el = (ty, v)" "elem_ok el"
    "xy_tlv_find st (Some m) n ty (Some el0) = Some (TLV_OK, Some el, st')"
    using xy_tlv_find_scan [OF assms(1) \<open>n \<noteq> 0\<close>, of ty st el0]
    by (simp only: scan) (auto split: option.splits)
  then show ?thesis
    by (intro exI [of _ el] exI [of _ st'])
      (auto simp: elem_item_def elem_ok_def min_absorb2)
qed

theorem tlv_find_first_witness:
  "\<exists>el st'. xy_tlv_find tlv_stats_zero (Some [0, 1, 0, 1, 7, 0, 2, 0, 1, 9, 255]) 11 2 (Some tlv_local)
      = Some (TLV_OK, Some el, st')
    \<and> el_type el = 2 \<and> unat (el_length el) = length [9::u8] \<and> take (length [9::u8]) (el_value el) = [9]"
  by (rule tlv_find_first [where pre = "[(1, [7])]" and rest = "[255]"])
    (simp_all add: item_ok_def item_bytes_def write_uint16_def)

lemma tlv_scan_length: "4 * length (fst (tlv_scan bs)) \<le> length bs"
proof -
  obtain its r where scan: "tlv_scan bs = (its, r)" by fastforce
  have "4 * length its \<le> length (tlv_bytes its)" by (induction its) auto
  with tlv_scan_sound [OF scan] scan show ?thesis by auto
qed

lemma xy_tlv_find_all_scan:
  assumes "unat n \<le> length m" and "n \<noteq> 0" and "unat mx \<le> length arr"
  defines "its \<equiv> fst (tlv_scan (take (unat n) m))"
  shows "\<exists>arr' st'. xy_tlv_find_all st (Some m) n ty (Some arr) (Some mx)
      = Some (int (length (filter (\<lambda>x. fst x = ty) its)), Some arr',
              Some (of_nat (length (filter (\<lambda>x. fst x = ty) its))), st')
    \<and> length arr' = length arr
    \<and> (\<forall>i < length (filter (\<lambda>x. fst x = ty) its). i < unat mx \<longrightarrow>
          elem_item (arr' ! i) = filter (\<lambda>x. fst x = ty) its ! i \<and> elem_ok (arr' ! i))"
proof -
  obtain it where it: "xy_tlv_iterator_init (Some tlv_iter_local) (Some m) n = (TLV_OK, Some it)"
    "it_wf it" "it_window it = take (unat n) m"
    using init_window [OF assms(1,2)] by blast
  have scan: "tlv_scan (it_window it) = (its, snd (tlv_scan (take (unat n) m)))"
    by (simp add: it(3) its_def)
  have len: "length its < 65536"
  proof -
    have "4 * length its \<le> unat n"
      using tlv_scan_length [of "take (unat n) m"] assms(1) by (simp add: its_def)
    then show ?thesis using unat_u16_less [of n] by linarith
  qed
  have "length (filter (\<lambda>x. fst x = ty) its) < 65536"
    using len le_less_trans length_filter_le by blast
  then have cnt: "uint (of_nat (length (filter (\<lambda>x. fst x = ty) its)) :: u16)
      = int (length (filter (\<lambda>x. fst x = ty) its))"
    by (simp add: uint_nat unat_of_nat_u16)
  have c0: "unat (0::u16) + length its < 65536" using len by simp
  from tlv_find_all_loop_scan [OF it(2) scan c0 assms(3), of ty st tlv_local]
  obtain arr' st' where "tlv_find_all_loop ty mx st it tlv_local (Some arr) 0
      = Some (of_nat (length (filter (\<lambda>x. fst x = ty) its)), Some arr', st')"
    "length arr' = length arr"
    "\<forall>i < length (filter (\<lambda>x. fst x = ty) its). i < unat mx \<longrightarrow>
          elem_item (arr' ! i) = filter (\<lambda>x. fst x = ty) its ! i \<and> elem_ok (arr' ! i)"
    by auto
  then show ?thesis
    by (intro exI [of _ arr'] exI [of _ st']) (simp add: xy_tlv_find_all_def it cnt)
qed

text \<open>
  \<open>xy_tlv_find_all\<close> on a serial form: the result is the number of elements of the type,
  and the array holds the first of them in order, as many as the caller has room for.
\<close>

theorem tlv_find_all_matches:
  assumes "unat n \<le> length m" and "n \<noteq> 0" and "take (unat n) m = tlv_bytes its"
    and "list_all item_ok its" and "unat mx \<le> length arr"
  shows "\<exists>arr' st'. xy_tlv_find_all st (Some m) n ty (Some arr) (Some mx)
      = Some (int (length [x \<leftarrow> its. fst x = ty]), Some arr',
              Some (of_nat (length [x \<leftarrow> its. fst x = ty])), st')
    \<and> map elem_item (take (min (unat mx) (length [x \<leftarrow> its. fst x = ty])) arr')
        = take (unat mx) [x \<leftarrow> its. fst x = ty]"
proof -
  let ?h = "[x \<leftarrow> its. fst x = ty]"
  obtain arr' st' where res: "xy_tlv_find_all st (Some m) n ty (Some arr) (Some mx)
      = Some (int (length ?h), Some arr', Some (of_nat (length ?h)), st')"
    "length arr' = length arr" "\<forall>i < length ?h. i < unat mx \<longrightarrow> elem_item (arr' ! i) = ?h ! i"
    using xy_tlv_find_all_scan [OF assms(1,2,5), of st ty] assms(3,4) by auto
  have "map elem_item (take (min (unat mx) (length ?h)) arr') = take (unat mx) ?h"
    using res(2,3) assms(5) by (intro nth_equalityI) auto
  with res(1) show ?thesis by blast
qed

theorem tlv_find_all_matches_witness:
  "\<exists>arr' st'. xy_tlv_find_all tlv_stats_zero (Some [0, 2, 0, 1, 7, 0, 2, 0, 1, 9]) 10 2
        (Some [tlv_local]) (Some 1)
      = Some (int (length [x \<leftarrow> [(2::u16, [7::u8]), (2, [9])]. fst x = 2]), Some arr',
              Some (of_nat (length [x \<leftarrow> [(2::u16, [7::u8]), (2, [9])]. fst x = 2])), st')
    \<and> map elem_item (take (min (unat (1::u16)) (length [x \<leftarrow> [(2::u16, [7::u8]), (2, [9])]. fst x = 2])) arr')
        = take (unat (1::u16)) [x \<leftarrow> [(2::u16, [7::u8]), (2, [9])]. fst x = 2]"
  by (rule tlv_find_all_matches) (simp_all add: item_ok_def item_bytes_def write_uint16_def)

text \<open>
  A value of each fixed width, encoded under a type that the buffer does not hold yet, is
  found again and decodes to itself.
\<close>

theorem tlv_typed_roundtrip:
  assumes "tb_wf b" and "tb_contents b = tlv_bytes its" and "list_all item_ok its"
    and "ty \<notin> fst ` set its" and "unat (tb_offset b) + 12 \<le> unat (tb_capacity b)"
  shows "(\<exists>b' st1 el st2. xy_tlv_encode_uint8 st (Some b) ty v8 = Some (TLV_OK, Some b', st1)
        \<and> xy_tlv_find st1 (tb_buffer b') (tb_offset b') ty (Some el0) = Some (TLV_OK, Some el, st2)
        \<and> xy_tlv_decode_uint8 (Some el) (Some x8) = Some (TLV_OK, Some v8))
    \<and> (\<exists>b' st1 el st2. xy_tlv_encode_uint16 st (Some b) ty v16 = Some (TLV_OK, Some b', st1)
        \<and> xy_tlv_find st1 (tb_buffer b') (tb_offset b') ty (Some el0) = Some (TLV_OK, Some el, st2)
        \<and> xy_tlv_decode_uint16 (Some el) (Some x16) = Some (TLV_OK, Some v16))
    \<and> (\<exists>b' st1 el st2. xy_tlv_encode_uint32 st (Some b) ty v32 = Some (TLV_OK, Some b', st1)
        \<and> xy_tlv_find st1 (tb_buffer b') (tb_offset b') ty (Some el0) = Some (TLV_OK, Some el, st2)
        \<and> xy_tlv_decode_uint32 (Some el) (Some x32) = Some (TLV_OK, Some v32))
    \<and> (\<exists>b' st1 el st2. xy_tlv_encode_uint64 st (Some b) ty v64 = Some (TLV_OK, Some b', st1)
        \<and> xy_tlv_find st1 (tb_buffer b') (tb_offset b') ty (Some el0) = Some (TLV_OK, Some el, st2)
        \<and> xy_tlv_decode_uint64 (Some el) (Some x64) = Some (TLV_OK, Some v64))"
proof (intro conjI)
  note args = assms(1-4)
  have "unat (tb_offset b) + 4 + 1 \<le> unat (tb_capacity b)" using assms(5) by simp
  from u8_codec.encode_find_decode [OF args this, of st v8 el0]
  show "\<exists>b' st1 el st2. xy_tlv_encode_uint8 st (Some b) ty v8 = Some (TLV_OK, Some b', st1)
        \<and> xy_tlv_find st1 (tb_buffer b') (tb_offset b') ty (Some el0) = Some (TLV_OK, Some el, st2)
        \<and> xy_tlv_decode_uint8 (Some el) (Some x8) = Some (TLV_OK, Some v8)"
    by (elim exE conjE, intro exI conjI)
      (simp_all only: xy_tlv_encode_uint8_def xy_tlv_decode_uint8_def, auto)
  have "unat (tb_offset b) + 4 + 2 \<le> unat (tb_capacity b)" using assms(5) by simp
  from u16_codec.encode_find_decode [OF args this, of st v16 el0]
  show "\<exists>b' st1 el st2. xy_tlv_encode_uint16 st (Some b) ty v16 = Some (TLV_OK, Some b', st1)
        \<and> xy_tlv_find st1 (tb_buffer b') (tb_offset b') ty (Some el0) = Some (TLV_OK, Some el, st2)
        \<and> xy_tlv_decode_uint16 (Some el) (Some x16) = Some (TLV_OK, Some v16)"
    by (elim exE conjE, intro exI conjI)
      (simp_all only: xy_tlv_encode_uint16_def xy_tlv_decode_uint16_def, auto)
  have "unat (tb_offset b) + 4 + 4 \<le> unat (tb_capacity b)" using assms(5) by simp
  from u32_codec.encode_find_decode [OF args this, of st v32 el0]
  show "\<exists>b' st1 el st2. xy_tlv_encode_uint32 st (Some b) ty v32 = Some (TLV_OK, Some b', st1)
        \<and> xy_tlv_find st1 (tb_buffer b') (tb_offset b') ty (Some el0) = Some (TLV_OK, Some el, st2)
        \<and> xy_tlv_decode_uint32 (Some el) (Some x32) = Some (TLV_OK, Some v32)"
    by (elim exE conjE, intro exI conjI)
      (simp_all only: xy_tlv_encode_uint32_def xy_tlv_decode_uint32_def, auto)
  have "unat (tb_offset b) + 4 + 8 \<le> unat (tb_capacity b)" using assms(5) by simp
  from u64_codec.encode_find_decode [OF args this, of st v64 el0]
  show "\<exists>b' st1 el st2. xy_tlv_encode_uint64 st (Some b) ty v64 = Some (TLV_OK, Some b', st1)
        \<and> xy_tlv_find st1 (tb_buffer b') (tb_offset b') ty (Some el0) = Some (TLV_OK, Some el, st2)
        \<and> xy_tlv_decode_uint64 (Some el) (Some x64) = Some (TLV_OK, Some v64)"
    by (elim exE conjE, intro exI conjI)
      (simp_all only: xy_tlv_encode_uint64_def xy_tlv_decode_uint64_def, auto)
qed

theorem tlv_typed_roundtrip_witness:
  "(\<exists>b' st1 el st2. xy_tlv_encode_uint8 tlv_stats_zero (Some (tlv_buffer_zero\<lparr>tb_buffer := Some (replicate 16 0), tb_capacity := 16\<rparr>)) 1 7 = Some (TLV_OK, Some b', st1)
        \<and> xy_tlv_find st1 (tb_buffer b') (tb_offset b') 1 (Some tlv_local) = Some (TLV_OK, Some el, st2)
        \<and> xy_tlv_decode_uint8 (Some el) (Some 0) = Some (TLV_OK, Some 7))"
  using tlv_typed_roundtrip [of "tlv_buffer_zero\<lparr>tb_buffer := Some (replicate 16 0), tb_capacity := 16\<rparr>" "[]" 1
      tlv_stats_zero 7 tlv_local 0 0 0 0 0 0 0]
  by (simp add: tb_wf_def tb_contents_def tlv_buffer_zero_def)

text \<open>
  C2. Memory safety of the decoder: on arbitrary bytes, as long as the claimed length is within
  the object (and the claimed array size within the array), no search, count or validation
  accesses memory outside them.
\<close>

theorem tlv_decoder_memory_safe:
  assumes "unat n \<le> length m" and "unat mx \<le> length arr"
  shows "xy_tlv_validate st (Some m) n \<noteq> None \<and> xy_tlv_count st (Some m) n \<noteq> None
    \<and> xy_tlv_find st (Some m) n ty (Some el0) \<noteq> None
    \<and> xy_tlv_find_all st (Some m) n ty (Some arr) (Some mx) \<noteq> None"
proof (cases "n = 0")
  case True
  then show ?thesis
    by (simp add: xy_tlv_validate_def xy_tlv_count_def xy_tlv_find_def xy_tlv_find_all_def
        xy_tlv_iterator_init_def)
next
  case False
  show ?thesis
    using xy_tlv_validate_scan [OF assms(1) False, of st] xy_tlv_count_scan [OF assms(1) False, of st]
      xy_tlv_find_scan [OF assms(1) False, of ty st el0]
      xy_tlv_find_all_scan [OF assms(1) False assms(2), of st ty]
    by (auto split: option.splits)
qed

theorem tlv_decoder_memory_safe_witness:
  "xy_tlv_validate tlv_stats_zero (Some [0, 1, 255, 255, 3]) 5 \<noteq> None
    \<and> xy_tlv_count tlv_stats_zero (Some [0, 1, 255, 255, 3]) 5 \<noteq> None
    \<and> xy_tlv_find tlv_stats_zero (Some [0, 1, 255, 255, 3]) 5 1 (Some tlv_local) \<noteq> None
    \<and> xy_tlv_find_all tlv_stats_zero (Some [0, 1, 255, 255, 3]) 5 1 (Some [tlv_local]) (Some 1) \<noteq> None"
  by (rule tlv_decoder_memory_safe) simp_all

text \<open>
  The 16-bit space check of \<open>xy_tlv_encode\<close> wraps: for a value of 65532 to 65535 bytes the
  required size is computed as 0 to 3, the check passes as soon as that many bytes are free, and
  the following writes leave the buffer. Shown for a buffer object of exactly its capacity.
\<close>

theorem tlv_encode_length_wrap:
  assumes "tb_buffer b = Some m" and "length m = unat (tb_capacity b)"
    and "unat (tb_offset b) + 3 \<le> unat (tb_capacity b)"
    and "65532 \<le> unat len" and "length s = unat len"
  shows "xy_tlv_encode st (Some b) ty (Some s) len = None"
proof -
  have req: "unat (4 + len) = unat len - 65532"
  proof -
    have "unat (4 + len) = (4 + unat len) mod 65536" by (simp add: unat_word_ariths)
    also have "\<dots> = (4 + unat len - 65536) mod 65536"
      using assms(4) by (intro le_mod_geq) simp
    also have "\<dots> = 4 + unat len - 65536"
      using unat_u16_less [of len] by (intro mod_less) linarith
    finally show ?thesis by simp
  qed
  have "unat len - 65532 \<le> 3" using unat_u16_le [of len] by linarith
  then have fits: "\<not> unat (tb_offset b) + unat (4 + len) > unat (tb_capacity b)"
    using assms(3) req by linarith
  have cap: "unat (tb_capacity b) \<le> 65535" and two: "unat (2::u16) = 2" by simp_all
  have off: "unat (tb_offset b + 2) = unat (tb_offset b) + 2"
  proof -
    have "unat (tb_offset b) + unat (2::u16) < 65536" 
      using assms(3) cap two by linarith
    then show ?thesis by (subst unat_add_u16) simp_all
  qed
  have "tlv_write_item m (tb_offset b) ty (Some s) len = None"
  proof (cases "unat (tb_offset b) + 4 \<le> unat (tb_capacity b)")
    case True
    have off4: "unat (tb_offset b + 2 + 2) = unat (tb_offset b) + 4"
    proof -
      have "unat (tb_offset b + 2) + unat (2::u16) < 65536" 
        using True cap off two by linarith
      then show ?thesis using off by (subst unat_add_u16) simp_all
    qed
    have "\<not> unat (tb_offset b) + 4 + unat len \<le> unat (tb_capacity b)"
      using assms(4) cap by linarith
    moreover have "0 < len" using assms(4) by (auto simp: word_less_nat_alt)
    ultimately show ?thesis
      using True off off4 assms(2,5)
      by (simp add: tlv_write_item_def Let_def mem_read_def mem_write_def)
  next
    case False
    have "mem_write m1 (unat (tb_offset b + 2)) (write_uint16 len) = None"
      if "mem_write m (unat (tb_offset b)) (write_uint16 ty) = Some m1" for m1
      using False off assms(2) mem_write_length [OF that] by (simp add: mem_write_eq_None)
    then show ?thesis
      by (cases "mem_write m (unat (tb_offset b)) (write_uint16 ty)")
        (simp_all add: tlv_write_item_def Let_def)
  qed
  then show ?thesis
    using assms(4) fits by (simp add: xy_tlv_encode_def assms(1) XY_TLV_HEADER_SIZE_def Let_def)
qed

theorem tlv_encode_length_wrap_witness:
  "xy_tlv_encode tlv_stats_zero (Some (tlv_buffer_zero\<lparr>tb_buffer := Some [0, 0, 0, 0], tb_capacity := 4\<rparr>)) 1
     (Some (replicate 65532 0)) 65532 = None"
  using tlv_encode_length_wrap [of "tlv_buffer_zero\<lparr>tb_buffer := Some [0, 0, 0, 0], tb_capacity := 4\<rparr>" "[0, 0, 0, 0]"
      65532 "replicate 65532 0" tlv_stats_zero 1]
  by (simp add: tlv_buffer_zero_def)

end
