(* ===== verification/Xy_Fifo.thy ===== *)
theory Xy_Fifo
  imports Xy_Prelude
begin

text \<open>
  The interface of a bounded first-in first-out store: what a client of the byte ring buffer
  (\<open>xy_rb.c\<close>) and of the broker's message queue (\<open>xy_broker.c\<close>) relies on. The components
  interpret the locale on their own operations; the lemmas here are the clients' view.
\<close>

datatype 'a fifo_op = Put 'a | Get

text \<open>The specification: a list of at most \<open>n\<close> items. A put on a full store is refused.\<close>

fun queue_run :: "nat \<Rightarrow> 'a list \<Rightarrow> 'a fifo_op list \<Rightarrow> bool list \<times> 'a list \<times> 'a list" where
  "queue_run n q [] = ([], [], q)"
| "queue_run n q (Put x # ops) =
     (if length q < n
      then (let (acc, out, q') = queue_run n (q @ [x]) ops in (True # acc, out, q'))
      else (let (acc, out, q') = queue_run n q ops in (False # acc, out, q')))"
| "queue_run n q (Get # ops) =
     (case q of
        [] \<Rightarrow> (let (acc, out, q') = queue_run n q ops in (False # acc, out, q'))
      | x # xs \<Rightarrow> (let (acc, out, q') = queue_run n xs ops in (True # acc, x # out, q')))"

text \<open>The items a run offers that the flags say were accepted.\<close>

fun accepted :: "'a fifo_op list \<Rightarrow> bool list \<Rightarrow> 'a list" where
  "accepted (Put x # ops) (True # bs) = x # accepted ops bs"
| "accepted (_ # ops) (_ # bs) = accepted ops bs"
| "accepted _ _ = []"

lemma queue_run_bounded:
  "queue_run n q ops = (acc, out, q') \<Longrightarrow> length q \<le> n \<Longrightarrow> length q' \<le> n"
  by (induction n q ops arbitrary: acc out q' rule: queue_run.induct)
    (auto split: if_splits prod.splits list.splits)

text \<open>First in, first out: what left the store and what it holds is what it accepted, in order.\<close>

lemma queue_run_fifo:
  "queue_run n q ops = (acc, out, q') \<Longrightarrow> q @ accepted ops acc = out @ q'"
  by (induction n q ops arbitrary: acc out q' rule: queue_run.induct)
    (auto split: if_splits prod.splits list.splits)

text \<open>
  The operations return \<open>None\<close> where the code's call is undefined. A refused call returns a state
  too, and a client goes on with it: the laws say that it holds the same items.
\<close>

locale bounded_fifo =
  fixes put :: "'s \<Rightarrow> 'a \<Rightarrow> (bool \<times> 's) option"
    and get :: "'s \<Rightarrow> ('a option \<times> 's) option"
    and items :: "'s \<Rightarrow> 'a list"
    and capacity :: "'s \<Rightarrow> nat"
    and invar :: "'s \<Rightarrow> bool"
  assumes items_bounded: "invar s \<Longrightarrow> length (items s) \<le> capacity s"
    and put_room: "invar s \<Longrightarrow> length (items s) < capacity s \<Longrightarrow>
      \<exists>s'. put s x = Some (True, s') \<and> invar s' \<and> items s' = items s @ [x] \<and> capacity s' = capacity s"
    and put_full: "invar s \<Longrightarrow> length (items s) = capacity s \<Longrightarrow>
      \<exists>s'. put s x = Some (False, s') \<and> invar s' \<and> items s' = items s \<and> capacity s' = capacity s"
    and get_empty: "invar s \<Longrightarrow> items s = [] \<Longrightarrow>
      \<exists>s'. get s = Some (None, s') \<and> invar s' \<and> items s' = [] \<and> capacity s' = capacity s"
    and get_item: "invar s \<Longrightarrow> items s = x # xs \<Longrightarrow>
      \<exists>s'. get s = Some (Some x, s') \<and> invar s' \<and> items s' = xs \<and> capacity s' = capacity s"
begin

fun run :: "'s \<Rightarrow> 'a fifo_op list \<Rightarrow> (bool list \<times> 'a list \<times> 's) option" where
  "run s [] = Some ([], [], s)"
| "run s (Put x # ops) = do {
     (b, s') \<leftarrow> put s x;
     (acc, out, t) \<leftarrow> run s' ops;
     Some (b # acc, out, t) }"
| "run s (Get # ops) = do {
     (x, s') \<leftarrow> get s;
     (acc, out, t) \<leftarrow> run s' ops;
     Some ((x \<noteq> None) # acc, (case x of Some y \<Rightarrow> y # out | None \<Rightarrow> out), t) }"

text \<open>Every interleaving of puts and gets is defined and a run of the list specification.\<close>

lemma run_refines:
  "invar s \<Longrightarrow> \<exists>acc out t. run s ops = Some (acc, out, t)
     \<and> queue_run (capacity s) (items s) ops = (acc, out, items t) \<and> invar t
     \<and> capacity t = capacity s"
proof (induction ops arbitrary: s)
  case (Cons op ops)
  note IH = Cons.IH and inv = Cons.prems
  show ?case
  proof (cases op)
    case (Put x)
    show ?thesis
    proof (cases "length (items s) < capacity s")
      case True
      then obtain s' where s': "put s x = Some (True, s')" "invar s'" "items s' = items s @ [x]"
        "capacity s' = capacity s" using put_room inv by blast
      then show ?thesis using IH [OF s'(2)] True Put by (auto split: prod.splits)
    next
      case False
      then have full: "length (items s) = capacity s" using items_bounded inv by force
      then obtain s' where s': "put s x = Some (False, s')" "invar s'" "items s' = items s"
        "capacity s' = capacity s" using put_full inv by blast
      then show ?thesis using IH [OF s'(2)] full Put by (auto split: prod.splits)
    qed
  next
    case Get
    show ?thesis
    proof (cases "items s")
      case Nil
      then obtain s' where s': "get s = Some (None, s')" "invar s'" "items s' = []"
        "capacity s' = capacity s" using get_empty inv by blast
      then show ?thesis using IH [OF s'(2)] Nil Get by (auto split: prod.splits)
    next
      case (Cons x xs)
      then obtain s' where s': "get s = Some (Some x, s')" "invar s'" "items s' = xs"
        "capacity s' = capacity s" using get_item inv by blast
      then show ?thesis using IH [OF s'(2)] Cons Get by (auto split: prod.splits)
    qed
  qed
qed simp

text \<open>A client that fills a store and then empties it gets its items back in order.\<close>

fun put_all :: "'s \<Rightarrow> 'a list \<Rightarrow> 's option" where
  "put_all s [] = Some s"
| "put_all s (x # xs) = (case put s x of Some (True, s') \<Rightarrow> put_all s' xs | _ \<Rightarrow> None)"

fun get_all :: "nat \<Rightarrow> 's \<Rightarrow> 'a list \<times> 's" where
  "get_all 0 s = ([], s)"
| "get_all (Suc n) s =
     (case get s of
        Some (Some x, s') \<Rightarrow> (let (xs, t) = get_all n s' in (x # xs, t))
      | _ \<Rightarrow> ([], s))"

lemma put_all_room:
  "invar s \<Longrightarrow> length (items s) + length xs \<le> capacity s \<Longrightarrow>
   \<exists>t. put_all s xs = Some t \<and> invar t \<and> items t = items s @ xs \<and> capacity t = capacity s"
proof (induction xs arbitrary: s)
  case (Cons x xs)
  then obtain s' where s': "put s x = Some (True, s')" "invar s'" "items s' = items s @ [x]"
    "capacity s' = capacity s" using put_room [of s x] by auto
  then show ?case using Cons.IH [of s'] Cons.prems by auto
qed simp

lemma get_all_items:
  "invar s \<Longrightarrow> length (items s) = n \<Longrightarrow>
   \<exists>t. get_all n s = (items s, t) \<and> invar t \<and> items t = [] \<and> capacity t = capacity s"
proof (induction n arbitrary: s)
  case (Suc n)
  then obtain x xs where items: "items s = x # xs" by (cases "items s") auto
  then obtain s' where s': "get s = Some (Some x, s')" "invar s'" "items s' = xs"
    "capacity s' = capacity s" using get_item Suc.prems(1) by blast
  then show ?case using Suc.IH [of s'] Suc.prems(2) items by auto
qed simp

lemma fill_drain:
  assumes "invar s" and "items s = []" and "length xs \<le> capacity s"
  shows "\<exists>t u. put_all s xs = Some t \<and> get_all (length xs) t = (xs, u) \<and> invar u \<and> items u = []"
proof -
  obtain t where "put_all s xs = Some t" "invar t" "items t = xs"
    using put_all_room [OF assms(1), of xs] assms by auto
  then show ?thesis using get_all_items [of t "length xs"] by auto
qed

end

end
