(* ===== verification/Xy_Ring_Buffer.thy ===== *)
theory Xy_Ring_Buffer
  imports Xy_Fifo
begin

text \<open>
  The byte ring buffer of \<open>components/clib/xy_clib/xy_rb.c\<close>: the mirrored-index variant, in
  which one extra bit per index tells a full buffer from an empty one.

  \<open>xy_rb\<close> is \<open>xy_rb_t\<close> with its bit-field widths; the pool is the object \<open>buffer_ptr\<close> points
  to (at its start). \<open>size_t\<close> is 32 bits wide, as on the targets of the framework. The
  functions return \<open>None\<close> when they access memory outside the pool or the caller's object.
\<close>

subsection \<open>The operations\<close>

type_synonym rb_index = "31 word"

record xy_rb =
  rb_buffer_ptr :: "u8 list option"
  rb_read_mirror :: "1 word"
  rb_read_index :: rb_index
  rb_write_mirror :: "1 word"
  rb_write_index :: rb_index
  rb_buffer_size :: u32

definition xy_rb_init :: "xy_rb option \<Rightarrow> u8 list option \<Rightarrow> u32 \<Rightarrow> xy_rb option" where
  "xy_rb_init rb pool size' =
     (case rb of
        None \<Rightarrow> None
      | Some r \<Rightarrow>
          if pool = None \<or> sint size' \<le> 0 then rb
          else Some \<lparr>rb_buffer_ptr = pool, rb_read_mirror = 0, rb_read_index = 0,
                     rb_write_mirror = 0, rb_write_index = 0, rb_buffer_size = size'\<rparr>)"

definition xy_rb_reset :: "xy_rb option \<Rightarrow> xy_rb option" where
  "xy_rb_reset rb =
     map_option (\<lambda>r. r\<lparr>rb_read_mirror := 0, rb_read_index := 0,
                        rb_write_mirror := 0, rb_write_index := 0\<rparr>) rb"

definition xy_rb_data_len :: "xy_rb option \<Rightarrow> u32" where
  "xy_rb_data_len rb =
     (case rb of
        None \<Rightarrow> 0
      | Some r \<Rightarrow>
          (let read_index = ucast (rb_read_index r); write_index = ucast (rb_write_index r) in
           if rb_read_mirror r = rb_write_mirror r then
             (if read_index > write_index then rb_buffer_size r - read_index + write_index
              else write_index - read_index)
           else rb_buffer_size r - read_index + write_index))"

definition xy_rb_space_len :: "xy_rb option \<Rightarrow> u32" where
  "xy_rb_space_len rb =
     (case rb of None \<Rightarrow> 0 | Some r \<Rightarrow> rb_buffer_size r - xy_rb_data_len rb)"

definition xy_rb_put ::
  "xy_rb option \<Rightarrow> u8 list option \<Rightarrow> u32 \<Rightarrow> (u32 \<times> xy_rb option) option" where
  "xy_rb_put rb ptr length' =
     (case (rb, ptr) of
        (Some r, Some src) \<Rightarrow>
          if length' = 0 then Some (0, rb)
          else
            (let size' = xy_rb_space_len rb in
             if size' = 0 then Some (0, rb)
             else
               (let len = (if size' < length' then size' else length');
                    tail = rb_buffer_size r - ucast (rb_write_index r) in
                if tail > len then do {
                  pool \<leftarrow> rb_buffer_ptr r;
                  bs \<leftarrow> mem_read src 0 (unat len);
                  pool' \<leftarrow> mem_write pool (unat (rb_write_index r)) bs;
                  Some (len, Some (r\<lparr>rb_buffer_ptr := Some pool',
                                     rb_write_index := rb_write_index r + ucast len\<rparr>)) }
                else do {
                  pool \<leftarrow> rb_buffer_ptr r;
                  bs1 \<leftarrow> mem_read src 0 (unat tail);
                  pool1 \<leftarrow> mem_write pool (unat (rb_write_index r)) bs1;
                  bs2 \<leftarrow> mem_read src (unat tail) (unat (len - tail));
                  pool2 \<leftarrow> mem_write pool1 0 bs2;
                  Some (len, Some (r\<lparr>rb_buffer_ptr := Some pool2,
                                     rb_write_mirror := NOT (rb_write_mirror r),
                                     rb_write_index := ucast (len - tail)\<rparr>)) }))
      | _ \<Rightarrow> Some (0, rb))"

text \<open>The index update at the end of the character operations: flip the mirror at the end.\<close>

definition rb_next :: "u32 \<Rightarrow> 1 word \<Rightarrow> rb_index \<Rightarrow> 1 word \<times> rb_index" where
  "rb_next size' mirror index =
     (if ucast index = size' - 1 then (NOT mirror, 0) else (mirror, index + 1))"

definition rb_store_char :: "xy_rb \<Rightarrow> u8 \<Rightarrow> xy_rb option" where
  "rb_store_char r ch = do {
     pool \<leftarrow> rb_buffer_ptr r;
     pool' \<leftarrow> mem_store pool (unat (rb_write_index r)) ch;
     let (m, i) = rb_next (rb_buffer_size r) (rb_write_mirror r) (rb_write_index r);
     Some (r\<lparr>rb_buffer_ptr := Some pool', rb_write_mirror := m, rb_write_index := i\<rparr>) }"

definition xy_rb_putchar :: "xy_rb option \<Rightarrow> u8 \<Rightarrow> (u32 \<times> xy_rb option) option" where
  "xy_rb_putchar rb ch =
     (case rb of
        None \<Rightarrow> Some (0, None)
      | Some r \<Rightarrow>
          if xy_rb_space_len rb = 0 then Some (0, rb)
          else do { r' \<leftarrow> rb_store_char r ch; Some (1, Some r') })"

definition xy_rb_putchar_force :: "xy_rb option \<Rightarrow> u8 \<Rightarrow> (u32 \<times> xy_rb option) option" where
  "xy_rb_putchar_force rb ch =
     (case rb of
        None \<Rightarrow> Some (0, None)
      | Some r \<Rightarrow> do {
          let r1 = (if xy_rb_space_len rb = 0 then
                      (let (m, i) = rb_next (rb_buffer_size r) (rb_read_mirror r) (rb_read_index r)
                       in r\<lparr>rb_read_mirror := m, rb_read_index := i\<rparr>)
                    else r);
          r' \<leftarrow> rb_store_char r1 ch;
          Some (1, Some r') })"

definition xy_rb_put_force ::
  "xy_rb option \<Rightarrow> u8 list option \<Rightarrow> u32 \<Rightarrow> (u32 \<times> xy_rb option) option" where
  "xy_rb_put_force rb ptr length' =
     (case (rb, ptr) of
        (Some r, Some src) \<Rightarrow>
          if length' = 0 then Some (0, rb)
          else
            (let space_length = xy_rb_space_len rb in
             if length' > space_length then
               (let data_length = length' - space_length in
                if data_length < rb_buffer_size r then
                  (if ucast (rb_read_index r) + data_length < rb_buffer_size r then
                     xy_rb_put (Some (r\<lparr>rb_read_index := rb_read_index r + ucast data_length\<rparr>))
                       ptr length'
                   else
                     xy_rb_put (Some (r\<lparr>rb_read_mirror := NOT (rb_read_mirror r),
                         rb_read_index :=
                           ucast (data_length - (rb_buffer_size r - ucast (rb_read_index r)))\<rparr>))
                       ptr length')
                else
                  xy_rb_put (Some (r\<lparr>rb_read_mirror := NOT (rb_read_mirror r),
                                     rb_read_index := rb_write_index r\<rparr>))
                    (Some (drop (unat (length' - rb_buffer_size r)) src)) (rb_buffer_size r))
             else xy_rb_put rb ptr length')
      | _ \<Rightarrow> Some (0, rb))"

text \<open>The third component is the caller's destination object after the call.\<close>

definition xy_rb_get ::
  "xy_rb option \<Rightarrow> u8 list option \<Rightarrow> u32 \<Rightarrow> (u32 \<times> xy_rb option \<times> u8 list option) option" where
  "xy_rb_get rb ptr length' =
     (case (rb, ptr) of
        (Some r, Some dst) \<Rightarrow>
          if length' = 0 then Some (0, rb, ptr)
          else
            (let size' = xy_rb_data_len rb in
             if size' = 0 then Some (0, rb, ptr)
             else
               (let len = (if size' < length' then size' else length');
                    tail = rb_buffer_size r - ucast (rb_read_index r) in
                if tail > len then do {
                  pool \<leftarrow> rb_buffer_ptr r;
                  bs \<leftarrow> mem_read pool (unat (rb_read_index r)) (unat len);
                  dst' \<leftarrow> mem_write dst 0 bs;
                  Some (len, Some (r\<lparr>rb_read_index := rb_read_index r + ucast len\<rparr>), Some dst') }
                else do {
                  pool \<leftarrow> rb_buffer_ptr r;
                  bs1 \<leftarrow> mem_read pool (unat (rb_read_index r)) (unat tail);
                  dst1 \<leftarrow> mem_write dst 0 bs1;
                  bs2 \<leftarrow> mem_read pool 0 (unat (len - tail));
                  dst2 \<leftarrow> mem_write dst1 (unat tail) bs2;
                  Some (len, Some (r\<lparr>rb_read_mirror := NOT (rb_read_mirror r),
                                     rb_read_index := ucast (len - tail)\<rparr>), Some dst2) }))
      | _ \<Rightarrow> Some (0, rb, ptr))"

text \<open>The pointer stored through \<open>ptr\<close> is the suffix of the pool from the read index.\<close>

definition xy_rb_peek ::
  "xy_rb option \<Rightarrow> u8 list option \<Rightarrow> (u32 \<times> u8 list option) option" where
  "xy_rb_peek rb ptr =
     (case (rb, ptr) of
        (Some r, Some _) \<Rightarrow> do {
          pool \<leftarrow> rb_buffer_ptr r;
          let p = drop (unat (rb_read_index r)) pool;
          let len = (if rb_read_index r > rb_write_index r then
                       (if rb_read_mirror r = rb_write_mirror r
                        then rb_buffer_size r - ucast (rb_read_index r)
                        else rb_buffer_size r - ucast (rb_read_index r))
                     else if rb_read_mirror r = rb_write_mirror r
                       then ucast (rb_write_index r) - ucast (rb_read_index r)
                       else rb_buffer_size r - ucast (rb_read_index r));
          Some (len, Some p) }
      | _ \<Rightarrow> Some (0, ptr))"

definition xy_rb_getchar ::
  "xy_rb option \<Rightarrow> u8 option \<Rightarrow> (u32 \<times> xy_rb option \<times> u8 option) option" where
  "xy_rb_getchar rb ch =
     (case (rb, ch) of
        (Some r, Some _) \<Rightarrow>
          if xy_rb_data_len rb = 0 then Some (0, rb, ch)
          else do {
            pool \<leftarrow> rb_buffer_ptr r;
            c \<leftarrow> mem_load pool (unat (rb_read_index r));
            let (m, i) = rb_next (rb_buffer_size r) (rb_read_mirror r) (rb_read_index r);
            Some (1, Some (r\<lparr>rb_read_mirror := m, rb_read_index := i\<rparr>), Some c) }
      | _ \<Rightarrow> Some (0, rb, ch))"

text \<open>
  Creation and destruction. The two \<open>malloc\<close> results are arguments (\<open>None\<close> when the allocator
  fails), and the blocks handed to \<open>free\<close> are part of the result.
\<close>

datatype rb_block = RbStruct | RbPool "u8 list"

definition xy_rb_create ::
  "u32 \<Rightarrow> xy_rb option \<Rightarrow> u8 list option \<Rightarrow> xy_rb option \<times> rb_block list" where
  "xy_rb_create length' malloc_rb malloc_pool =
     (if length' = 0 then (None, [])
      else (case malloc_rb of
              None \<Rightarrow> (None, [])
            | Some r \<Rightarrow>
                (case malloc_pool of
                   None \<Rightarrow> (None, [RbStruct])
                 | Some pool \<Rightarrow> (xy_rb_init (Some r) (Some pool) length', []))))"

definition xy_rb_destroy :: "xy_rb option \<Rightarrow> rb_block list" where
  "xy_rb_destroy rb =
     (case rb of
        None \<Rightarrow> []
      | Some r \<Rightarrow>
          (case rb_buffer_ptr r of Some pool \<Rightarrow> [RbPool pool] | None \<Rightarrow> []) @ [RbStruct])"

end
