(* ===== verification/Xy_Ring_Buffer_Correct.thy ===== *)
theory Xy_Ring_Buffer_Correct
  imports Xy_Ring_Buffer
begin

text \<open>
  The ring buffer implements a bounded queue of bytes: the invariant of the mirrored indices,
  the queue it represents, and the effect of every operation on that queue.
\<close>

subsection \<open>Index arithmetic\<close>

lemma unat_sub_u32: "unat b \<le> unat (a::u32) \<Longrightarrow> unat (a - b) = unat a - unat b"
  by (simp add: unat_sub word_le_nat_alt)

lemma unat_add_u32: "unat (a::u32) + unat b < 4294967296 \<Longrightarrow> unat (a + b) = unat a + unat b"
  by (simp add: unat_word_ariths)

lemma unat_index_u32 [simp]: "unat (ucast (i::rb_index) :: u32) = unat i"
proof -
  have "unat i < 2147483648" using unsigned_less [of i] by simp
  then show ?thesis by (simp add: unsigned_ucast_eq take_bit_eq_mod)
qed

lemma unat_u32_index: "unat (k::u32) < 2147483648 \<Longrightarrow> unat (ucast k :: rb_index) = unat k"
  by (simp add: unsigned_ucast_eq take_bit_eq_mod)

lemma unat_add_index:
  "unat (i::rb_index) + unat (k::u32) < 2147483648 \<Longrightarrow> unat (i + ucast k) = unat i + unat k"
  using unat_u32_index [of k] by (simp add: unat_word_ariths)

lemma mirror_flip [simp]: "NOT (m::1 word) \<noteq> m" "m \<noteq> NOT (m::1 word)"
proof -
  have "bit (NOT m) 0 \<noteq> bit m 0" by (simp add: bit_simps)
  then show "NOT m \<noteq> m" "m \<noteq> NOT m" by auto
qed

lemma mirror_cases: "(a::1 word) \<noteq> b \<longleftrightarrow> a = NOT b"
proof
  assume "a \<noteq> b"
  then obtain n where n: "bit a n \<noteq> bit b n" by (meson bit_word_eqI)
  then have "n = 0" using bit_imp_le_length [of a n] bit_imp_le_length [of b n] by fastforce
  with n have "bit a 0 = (\<not> bit b 0)" by simp
  then show "a = NOT b"
    by (intro bit_word_eqI) (simp add: bit_simps)
qed auto

lemma mirror_sym: "(m = NOT (m'::1 word)) = (m' \<noteq> m)"
  using mirror_cases [of m m'] by auto

subsection \<open>The queue in the pool\<close>

definition ring_items :: "'a list \<Rightarrow> nat \<Rightarrow> bool \<Rightarrow> nat \<Rightarrow> nat \<Rightarrow> 'a list" where
  "ring_items pool n same ri wi =
     (if same then take (wi - ri) (drop ri pool) else drop ri (take n pool) @ take wi pool)"

definition ring_ok :: "nat \<Rightarrow> bool \<Rightarrow> nat \<Rightarrow> nat \<Rightarrow> bool" where
  "ring_ok n same ri wi \<longleftrightarrow> ri < n \<and> wi < n \<and> (if same then ri \<le> wi else wi \<le> ri)"

definition ring_count :: "nat \<Rightarrow> bool \<Rightarrow> nat \<Rightarrow> nat \<Rightarrow> nat" where
  "ring_count n same ri wi = (if same then wi - ri else n - ri + wi)"

lemma length_ring_items:
  "ring_ok n same ri wi \<Longrightarrow> n \<le> length pool \<Longrightarrow>
   length (ring_items pool n same ri wi) = ring_count n same ri wi"
  by (auto simp: ring_items_def ring_ok_def ring_count_def min_def)

lemma ring_count_le: "ring_ok n same ri wi \<Longrightarrow> ring_count n same ri wi \<le> n"
  by (auto simp: ring_ok_def ring_count_def)

text \<open>Writing at the write index, without and with a wrap.\<close>

lemma ring_write_tail:
  assumes "ring_ok n same ri wi" and "n \<le> length pool"
    and "length bs \<le> n - ring_count n same ri wi" and "wi + length bs < n"
  shows "ring_ok n same ri (wi + length bs)
    \<and> ring_items (take wi pool @ bs @ drop (wi + length bs) pool) n same ri (wi + length bs)
        = ring_items pool n same ri wi @ bs"
proof (cases same)
  case True
  with assms show ?thesis
    by (auto simp: ring_ok_def ring_items_def ring_count_def take_Cons' drop_take)
next
  case False
  with assms have le: "wi + length bs \<le> ri" "ri < n" by (auto simp: ring_ok_def ring_count_def)
  have "take (wi + length bs) (take wi pool @ bs @ drop (wi + length bs) pool) = take wi pool @ bs"
    using assms by simp
  moreover have "drop ri (take wi pool @ bs @ drop (wi + length bs) pool) = drop ri pool"
    using le assms(2) by (simp add: min_def)
  ultimately show ?thesis
    using False le assms by (auto simp: ring_ok_def ring_items_def drop_take)
qed

lemma ring_write_wrap:
  assumes "ring_ok n same ri wi" and "n \<le> length pool"
    and "length bs \<le> n - ring_count n same ri wi" and "n - wi \<le> length bs"
  defines "pool1 \<equiv> take wi pool @ take (n - wi) bs @ drop n pool"
  shows "same \<and> ring_ok n False ri (length bs - (n - wi))
    \<and> ring_items (drop (n - wi) bs @ drop (length bs - (n - wi)) pool1) n False ri
          (length bs - (n - wi))
        = ring_items pool n same ri wi @ bs"
proof -
  have same: same using assms(1,3,4) by (cases same) (auto simp: ring_ok_def ring_count_def)
  let ?k = "length bs - (n - wi)"
  have k: "?k \<le> ri" "ri \<le> wi" "wi < n"
    using assms(1,3,4) same by (auto simp: ring_ok_def ring_count_def)
  have "take n (drop (n - wi) bs @ drop ?k pool1)
      = drop (n - wi) bs @ drop ?k (take wi pool @ take (n - wi) bs)"
    using k assms(2,4) by (simp add: pool1_def)
  then have "drop ri (take n (drop (n - wi) bs @ drop ?k pool1))
      = drop ri (take wi pool) @ take (n - wi) bs"
    using k assms(2) by (simp)
  moreover have "take ?k (drop (n - wi) bs @ drop ?k pool1) = drop (n - wi) bs" by simp
  ultimately show ?thesis
    using same k by (auto simp: ring_ok_def ring_items_def drop_take)
qed

text \<open>Reading at the read index, without and with a wrap.\<close>

lemma ring_read_tail:
  assumes "ring_ok n same ri wi" and "n \<le> length pool"
    and "k \<le> ring_count n same ri wi" and "ri + k < n"
  shows "ring_ok n same (ri + k) wi
    \<and> take k (drop ri pool) = take k (ring_items pool n same ri wi)
    \<and> ring_items pool n same (ri + k) wi = drop k (ring_items pool n same ri wi)"
  using assms
  by (cases same)
    (auto simp: ring_ok_def ring_items_def ring_count_def drop_take min_def add.commute)

lemma ring_read_wrap:
  assumes "ring_ok n same ri wi" and "n \<le> length pool"
    and "k \<le> ring_count n same ri wi" and "n - ri \<le> k"
  shows "\<not> same \<and> ring_ok n True (k - (n - ri)) wi
    \<and> take (n - ri) (drop ri pool) @ take (k - (n - ri)) pool
        = take k (ring_items pool n same ri wi)
    \<and> ring_items pool n True (k - (n - ri)) wi = drop k (ring_items pool n same ri wi)"
proof -
  have same: "\<not> same" using assms by (auto simp: ring_ok_def ring_count_def)
  define A where "A = drop ri (take n pool)"
  have A: "length A = n - ri" "take (n - ri) (drop ri pool) = A"
    using assms(2) by (simp_all add: A_def drop_take)
  have k: "k - (n - ri) \<le> wi" "wi \<le> ri" "ri < n"
    using assms(1,3,4) same by (auto simp: ring_ok_def ring_count_def)
  have items: "ring_items pool n same ri wi = A @ take wi pool"
    using same by (simp add: ring_items_def A_def)
  have "take (n - ri) (drop ri pool) @ take (k - (n - ri)) pool = take k (A @ take wi pool)"
    using A assms(4) k(1) by (simp add: min_absorb1)
  moreover have "ring_items pool n True (k - (n - ri)) wi = drop k (A @ take wi pool)"
    using A assms(4) by (simp add: ring_items_def drop_take)
  ultimately show ?thesis
    using same k items by (auto simp: ring_ok_def)
qed

subsection \<open>The invariant and the represented queue\<close>

definition rb_same :: "xy_rb \<Rightarrow> bool" where
  "rb_same r \<longleftrightarrow> rb_read_mirror r = rb_write_mirror r"

definition rb_cap :: "xy_rb \<Rightarrow> nat" where
  "rb_cap r = unat (rb_buffer_size r)"

definition rb_pool :: "xy_rb \<Rightarrow> u8 list" where
  "rb_pool r = (case rb_buffer_ptr r of None \<Rightarrow> [] | Some pool \<Rightarrow> pool)"

definition rb_wf :: "xy_rb \<Rightarrow> bool" where
  "rb_wf r \<longleftrightarrow> rb_buffer_ptr r \<noteq> None \<and> rb_cap r \<le> length (rb_pool r) \<and> rb_cap r < 2147483648
     \<and> ring_ok (rb_cap r) (rb_same r) (unat (rb_read_index r)) (unat (rb_write_index r))"

definition rb_items :: "xy_rb \<Rightarrow> u8 list" where
  "rb_items r = ring_items (rb_pool r) (rb_cap r) (rb_same r)
     (unat (rb_read_index r)) (unat (rb_write_index r))"

lemmas rb_defs = rb_wf_def rb_items_def rb_same_def rb_cap_def rb_pool_def

lemma rb_wf_pool: "rb_wf r \<Longrightarrow> rb_buffer_ptr r = Some (rb_pool r)"
  by (auto simp: rb_wf_def rb_pool_def)

lemma length_rb_items:
  "rb_wf r \<Longrightarrow> length (rb_items r) =
     ring_count (rb_cap r) (rb_same r) (unat (rb_read_index r)) (unat (rb_write_index r))"
  by (simp add: rb_wf_def rb_items_def length_ring_items)

lemma rb_items_le_cap: "rb_wf r \<Longrightarrow> length (rb_items r) \<le> rb_cap r"
  by (simp add: length_rb_items ring_count_le rb_wf_def)

lemma unat_data_len: "rb_wf r \<Longrightarrow> unat (xy_rb_data_len (Some r)) = length (rb_items r)"
proof -
  assume wf: "rb_wf r"
  let ?n = "rb_buffer_size r" and ?r = "ucast (rb_read_index r) :: u32"
    and ?w = "ucast (rb_write_index r) :: u32"
  have ok: "ring_ok (unat ?n) (rb_same r) (unat ?r) (unat ?w)" "unat ?n < 2147483648"
    using wf by (simp_all add: rb_wf_def rb_cap_def)
  have sub: "unat (?n - ?r) = unat ?n - unat ?r"
    using ok by (intro unat_sub_u32) (auto simp: ring_ok_def)
  show ?thesis
  proof (cases "rb_same r")
    case True
    then have le: "unat ?r \<le> unat ?w" using ok by (simp add: ring_ok_def)
    then have "\<not> ?r > ?w" by (simp add: word_less_nat_alt del: unat_index_u32)
    then show ?thesis
      using True le unat_sub_u32 [OF le] wf
      by (simp add: xy_rb_data_len_def length_rb_items ring_count_def rb_same_def)
  next
    case False
    have "unat (?n - ?r + ?w) = unat ?n - unat ?r + unat ?w"
      using ok sub by (subst unat_add_u32) (auto simp: ring_ok_def)
    then show ?thesis
      using False wf
      by (simp add: xy_rb_data_len_def length_rb_items ring_count_def rb_same_def rb_cap_def)
  qed
qed

lemma unat_space_len:
  "rb_wf r \<Longrightarrow> unat (xy_rb_space_len (Some r)) = rb_cap r - length (rb_items r)"
  using unat_data_len [of r] rb_items_le_cap [of r]
  by (simp add: xy_rb_space_len_def rb_cap_def unat_sub_u32)

text \<open>The distance from an index of the buffer to the end of the pool.\<close>

lemma unat_tail:
  "unat i < rb_cap r \<Longrightarrow> unat (rb_buffer_size r - ucast (i::rb_index)) = rb_cap r - unat i"
  by (simp add: rb_cap_def unat_sub_u32)

lemma rb_wf_index:
  assumes "rb_wf r"
  shows "unat (rb_read_index r) < rb_cap r" and "unat (rb_write_index r) < rb_cap r"
    and "rb_cap r < 2147483648" and "0 < rb_cap r"
  using assms by (auto simp: rb_wf_def ring_ok_def)

subsection \<open>Writing\<close>

text \<open>The number of bytes a transfer moves: the smaller of the request and the limit.\<close>

lemma unat_transfer:
  "unat (if s < l then s else (l::u32)) = min (unat l) (unat s)"
  by (simp add: word_less_nat_alt min_def)

lemma xy_rb_put_unfold:
  assumes "length' \<noteq> 0" and "xy_rb_space_len (Some r) \<noteq> 0" and "rb_buffer_ptr r = Some pool"
    and "len = (if xy_rb_space_len (Some r) < length' then xy_rb_space_len (Some r) else length')"
    and "tail = rb_buffer_size r - ucast (rb_write_index r)"
  shows "xy_rb_put (Some r) (Some src) length' =
    (if tail > len then do {
       bs \<leftarrow> mem_read src 0 (unat len);
       pool' \<leftarrow> mem_write pool (unat (rb_write_index r)) bs;
       Some (len, Some (r\<lparr>rb_buffer_ptr := Some pool',
                          rb_write_index := rb_write_index r + ucast len\<rparr>)) }
     else do {
       bs1 \<leftarrow> mem_read src 0 (unat tail);
       pool1 \<leftarrow> mem_write pool (unat (rb_write_index r)) bs1;
       bs2 \<leftarrow> mem_read src (unat tail) (unat (len - tail));
       pool2 \<leftarrow> mem_write pool1 0 bs2;
       Some (len, Some (r\<lparr>rb_buffer_ptr := Some pool2,
                          rb_write_mirror := NOT (rb_write_mirror r),
                          rb_write_index := ucast (len - tail)\<rparr>)) })"
  unfolding assms(4,5) using assms(1-3) by (simp add: xy_rb_put_def Let_def)

lemma xy_rb_put_spec:
  assumes wf: "rb_wf r"
    and k: "k = min (unat length') (rb_cap r - length (rb_items r))" and src: "k \<le> length src"
  shows "\<exists>r'. xy_rb_put (Some r) (Some src) length' = Some (of_nat k, Some r') \<and> rb_wf r'
    \<and> rb_items r' = rb_items r @ take k src \<and> rb_cap r' = rb_cap r
    \<and> length (rb_pool r') = length (rb_pool r)"
proof (cases "length' = 0 \<or> xy_rb_space_len (Some r) = 0")
  case True
  then have "k = 0" using k unat_space_len [OF wf] by (auto simp: unat_eq_0)
  then show ?thesis using wf True by (intro exI [of _ r]) (auto simp: xy_rb_put_def Let_def)
next
  case False
  obtain len where len_def: "len = (if xy_rb_space_len (Some r) < length'
      then xy_rb_space_len (Some r) else length')" by blast
  obtain tail where tail_def: "tail = rb_buffer_size r - ucast (rb_write_index r)" by blast
  let ?w = "unat (rb_write_index r)" and ?bs = "take k src" and ?p = "rb_pool r"
  have len: "unat len = k"
    using unat_space_len [OF wf] by (simp add: k len_def unat_transfer del: if_split)
  then have len_k: "len = of_nat k" by auto
  have tail: "unat tail = rb_cap r - ?w"
    using rb_wf_index [OF wf] by (simp add: unat_tail tail_def)
  have ok: "ring_ok (rb_cap r) (rb_same r) (unat (rb_read_index r)) ?w" "rb_cap r \<le> length ?p"
    using wf by (auto simp: rb_wf_def)
  have lbs: "length ?bs = k" using src by simp
  then have room: "length ?bs \<le> rb_cap r - ring_count (rb_cap r) (rb_same r) (unat (rb_read_index r)) ?w"
    using k length_rb_items [OF wf] by simp
  have put: "xy_rb_put (Some r) (Some src) length' = (if tail > len then do {
       bs \<leftarrow> mem_read src 0 k;
       pool' \<leftarrow> mem_write ?p ?w bs;
       Some (len, Some (r\<lparr>rb_buffer_ptr := Some pool',
                          rb_write_index := rb_write_index r + ucast len\<rparr>)) }
     else do {
       bs1 \<leftarrow> mem_read src 0 (rb_cap r - ?w);
       pool1 \<leftarrow> mem_write ?p ?w bs1;
       bs2 \<leftarrow> mem_read src (rb_cap r - ?w) (unat (len - tail));
       pool2 \<leftarrow> mem_write pool1 0 bs2;
       Some (len, Some (r\<lparr>rb_buffer_ptr := Some pool2,
                          rb_write_mirror := NOT (rb_write_mirror r),
                          rb_write_index := ucast (len - tail)\<rparr>)) })"
    using xy_rb_put_unfold [OF _ _ rb_wf_pool [OF wf] len_def tail_def, of src] False
    by (simp only: len tail) simp
  show ?thesis
  proof (cases "tail > len")
    case tl: True
    then have fits: "?w + length ?bs < rb_cap r"
      using len tail lbs by (simp add: word_less_nat_alt)
    let ?p' = "take ?w ?p @ ?bs @ drop (?w + length ?bs) ?p"
    let ?r' = "r\<lparr>rb_buffer_ptr := Some ?p', rb_write_index := rb_write_index r + ucast len\<rparr>"
    have wi: "unat (rb_write_index r + ucast len) = ?w + length ?bs"
      using fits lbs len rb_wf_index(3) [OF wf] by (subst unat_add_index) auto
    have "mem_write ?p ?w ?bs = Some ?p'" "mem_read src 0 k = Some ?bs"
      using fits ok(2) src by (simp_all add: mem_iff)
    then have res: "xy_rb_put (Some r) (Some src) length' = Some (len, Some ?r')"
      unfolding put using tl by simp
    have lp: "length ?p' = length ?p" using fits ok(2) by simp
    have "rb_wf ?r'" "rb_items ?r' = rb_items r @ ?bs"
      using ring_write_tail [OF ok room fits] wi ok(2) rb_wf_index(3) [OF wf] lp
      by (simp_all add: rb_wf_def rb_items_def rb_same_def rb_cap_def rb_pool_def)
    then show ?thesis
      using res len_k lp by (intro exI [of _ ?r']) (simp add: rb_cap_def rb_pool_def)
  next
    case tl: False
    then have wraps: "rb_cap r - ?w \<le> length ?bs"
      using len tail lbs by (simp add: word_less_nat_alt not_less)
    let ?t = "rb_cap r - ?w"
    let ?p1 = "take ?w ?p @ take ?t ?bs @ drop (rb_cap r) ?p"
    let ?p2 = "drop ?t ?bs @ drop (length ?bs - ?t) ?p1"
    let ?r' = "r\<lparr>rb_buffer_ptr := Some ?p2, rb_write_mirror := NOT (rb_write_mirror r),
                  rb_write_index := ucast (len - tail)\<rparr>"
    have sub: "unat (len - tail) = k - ?t"
      using wraps lbs len tail by (subst unat_sub_u32) auto
    have rw: "rb_same r" "ring_ok (rb_cap r) False (unat (rb_read_index r)) (length ?bs - ?t)"
      "ring_items ?p2 (rb_cap r) False (unat (rb_read_index r)) (length ?bs - ?t) = rb_items r @ ?bs"
      using ring_write_wrap [OF ok room wraps] by (simp_all add: rb_items_def)
    have kle: "k - ?t < rb_cap r" using rw(2) lbs by (simp add: ring_ok_def)
    have wi: "unat (ucast (len - tail) :: rb_index) = length ?bs - ?t"
      using sub lbs kle rb_wf_index(3) [OF wf] by (subst unat_u32_index) auto
    have w: "?w < rb_cap r" "length (take ?w ?p) = ?w" "length (take ?t ?bs) = ?t"
      "?w + ?t = rb_cap r" "length (drop ?t ?bs) = k - ?t"
      using rb_wf_index(2) [OF wf] ok(2) wraps lbs by simp_all
    have lp1: "length ?p1 = length ?p"
      using w ok(2) by (simp only: length_append length_drop)
    have rd: "mem_read src 0 ?t = Some (take ?t ?bs)" "mem_read src ?t (k - ?t) = Some (drop ?t ?bs)"
      using wraps lbs src by (auto simp: mem_iff min_def drop_take)
    have wr: "mem_write ?p ?w (take ?t ?bs) = Some ?p1"
      using w ok(2) by (simp only: mem_write_eq_Some)
    have wr2: "mem_write ?p1 0 (drop ?t ?bs) = Some ?p2"
      using kle w(5) ok(2) lbs by (simp only: mem_write_eq_Some lp1) simp
    have res: "xy_rb_put (Some r) (Some src) length' = Some (len, Some ?r')"
      unfolding put sub using tl by (simp only: rd wr wr2 if_False bind.simps)
    have lp: "length ?p2 = length ?p"
      using kle w(5) ok(2) lbs lp1 by (simp only: length_append length_drop) simp
    have r': "rb_pool ?r' = ?p2" "rb_cap ?r' = rb_cap r" "\<not> rb_same ?r'"
      "rb_read_index ?r' = rb_read_index r" "unat (rb_write_index ?r') = length ?bs - ?t"
      "rb_buffer_ptr ?r' \<noteq> None"
      using rw(1) wi
      by (simp_all add: rb_pool_def rb_cap_def rb_same_def)
    have "rb_wf ?r'"
      using rw(2) ok(2) lp rb_wf_index(3) [OF wf] by (simp only: rb_wf_def r' simp_thms)
    moreover have "rb_items ?r' = rb_items r @ ?bs"
      using rw(3) r'(3) by (simp only: rb_items_def r' simp_thms)
    ultimately show ?thesis
      using res len_k lp r'(1,2) by (intro exI [of _ ?r']) (simp only: simp_thms)
  qed
qed

subsection \<open>Moving the read index\<close>

lemma rb_skip_tail:
  assumes "rb_wf r" and "k \<le> length (rb_items r)" and "unat i = unat (rb_read_index r) + k"
    and "unat (rb_read_index r) + k < rb_cap r"
  shows "rb_wf (r\<lparr>rb_read_index := i\<rparr>) \<and> rb_items (r\<lparr>rb_read_index := i\<rparr>) = drop k (rb_items r)
    \<and> take k (drop (unat (rb_read_index r)) (rb_pool r)) = take k (rb_items r)"
proof -
  let ?r' = "r\<lparr>rb_read_index := i\<rparr>"
  have r': "rb_pool ?r' = rb_pool r" "rb_cap ?r' = rb_cap r" "rb_same ?r' = rb_same r"
    "rb_buffer_ptr ?r' = rb_buffer_ptr r" "unat (rb_read_index ?r') = unat (rb_read_index r) + k"
    "rb_write_index ?r' = rb_write_index r"
    using assms(3) by (simp_all add: rb_pool_def rb_cap_def rb_same_def)
  have ok: "ring_ok (rb_cap r) (rb_same r) (unat (rb_read_index r)) (unat (rb_write_index r))"
    "rb_cap r \<le> length (rb_pool r)" "rb_buffer_ptr r \<noteq> None" "rb_cap r < 2147483648"
    using assms(1) by (simp_all add: rb_wf_def)
  have "k \<le> ring_count (rb_cap r) (rb_same r) (unat (rb_read_index r)) (unat (rb_write_index r))"
    using assms(2) length_rb_items [OF assms(1)] by simp
  from ring_read_tail [OF ok(1,2) this assms(4)] ok(2-4)
  show ?thesis by (simp only: rb_wf_def rb_items_def r' simp_thms)
qed

lemma rb_skip_wrap:
  assumes "rb_wf r" and "k \<le> length (rb_items r)" and "rb_cap r - unat (rb_read_index r) \<le> k"
    and "unat i = k - (rb_cap r - unat (rb_read_index r))"
  defines "r' \<equiv> r\<lparr>rb_read_mirror := NOT (rb_read_mirror r), rb_read_index := i\<rparr>"
  shows "rb_wf r' \<and> rb_items r' = drop k (rb_items r)
    \<and> take (rb_cap r - unat (rb_read_index r)) (drop (unat (rb_read_index r)) (rb_pool r))
        @ take (unat i) (rb_pool r) = take k (rb_items r)"
proof -
  have ok: "ring_ok (rb_cap r) (rb_same r) (unat (rb_read_index r)) (unat (rb_write_index r))"
    "rb_cap r \<le> length (rb_pool r)" "rb_buffer_ptr r \<noteq> None" "rb_cap r < 2147483648"
    using assms(1) by (simp_all add: rb_wf_def)
  have "k \<le> ring_count (rb_cap r) (rb_same r) (unat (rb_read_index r)) (unat (rb_write_index r))"
    using assms(2) length_rb_items [OF assms(1)] by simp
  note rd = ring_read_wrap [OF ok(1,2) this assms(3)]
  have s': "rb_same r' = True"
    using rd mirror_cases [of "rb_write_mirror r" "rb_read_mirror r"]
    by (auto simp: rb_same_def r'_def)
  have r': "rb_pool r' = rb_pool r" "rb_cap r' = rb_cap r"
    "rb_buffer_ptr r' = rb_buffer_ptr r"
    "unat (rb_read_index r') = k - (rb_cap r - unat (rb_read_index r))"
    "rb_write_index r' = rb_write_index r"
    using assms(4) by (simp_all add: rb_pool_def rb_cap_def r'_def)
  from rd ok(2-4) show ?thesis
    by (simp only: rb_wf_def rb_items_def r' s' assms(4) simp_thms)
qed

subsection \<open>Reading\<close>

lemma xy_rb_get_unfold:
  assumes "length' \<noteq> 0" and "xy_rb_data_len (Some r) \<noteq> 0" and "rb_buffer_ptr r = Some pool"
    and "len = (if xy_rb_data_len (Some r) < length' then xy_rb_data_len (Some r) else length')"
    and "tail = rb_buffer_size r - ucast (rb_read_index r)"
  shows "xy_rb_get (Some r) (Some dst) length' =
    (if tail > len then do {
       bs \<leftarrow> mem_read pool (unat (rb_read_index r)) (unat len);
       dst' \<leftarrow> mem_write dst 0 bs;
       Some (len, Some (r\<lparr>rb_read_index := rb_read_index r + ucast len\<rparr>), Some dst') }
     else do {
       bs1 \<leftarrow> mem_read pool (unat (rb_read_index r)) (unat tail);
       dst1 \<leftarrow> mem_write dst 0 bs1;
       bs2 \<leftarrow> mem_read pool 0 (unat (len - tail));
       dst2 \<leftarrow> mem_write dst1 (unat tail) bs2;
       Some (len, Some (r\<lparr>rb_read_mirror := NOT (rb_read_mirror r),
                          rb_read_index := ucast (len - tail)\<rparr>), Some dst2) })"
  unfolding assms(4,5) using assms(1-3) by (simp add: xy_rb_get_def Let_def)

lemma xy_rb_get_spec:
  assumes wf: "rb_wf r"
    and k: "k = min (unat length') (length (rb_items r))" and dst: "k \<le> length dst"
  shows "\<exists>r'. xy_rb_get (Some r) (Some dst) length'
      = Some (of_nat k, Some r', Some (take k (rb_items r) @ drop k dst)) \<and> rb_wf r'
    \<and> rb_items r' = drop k (rb_items r) \<and> rb_cap r' = rb_cap r"
proof (cases "length' = 0 \<or> xy_rb_data_len (Some r) = 0")
  case True
  then have "k = 0" using k unat_data_len [OF wf] by (auto simp: unat_eq_0)
  then show ?thesis using wf True by (intro exI [of _ r]) (auto simp: xy_rb_get_def Let_def)
next
  case False
  obtain len where len_def: "len = (if xy_rb_data_len (Some r) < length'
      then xy_rb_data_len (Some r) else length')" by blast
  obtain tail where tail_def: "tail = rb_buffer_size r - ucast (rb_read_index r)" by blast
  let ?ri = "unat (rb_read_index r)" and ?p = "rb_pool r"
  have len: "unat len = k"
    using unat_data_len [OF wf] by (simp add: k len_def unat_transfer del: if_split)
  then have len_k: "len = of_nat k" by auto
  have tail: "unat tail = rb_cap r - ?ri"
    using rb_wf_index [OF wf] by (simp add: unat_tail tail_def)
  have lp: "rb_cap r \<le> length ?p" using wf by (simp add: rb_wf_def)
  have kle: "k \<le> length (rb_items r)" using k by simp
  note get = xy_rb_get_unfold [OF _ _ rb_wf_pool [OF wf] len_def tail_def, of dst]
  show ?thesis
  proof (cases "tail > len")
    case tl: True
    then have fits: "?ri + k < rb_cap r" using len tail by (simp add: word_less_nat_alt)
    let ?r' = "r\<lparr>rb_read_index := rb_read_index r + ucast len\<rparr>"
    have "unat (rb_read_index r + ucast len) = ?ri + k"
      using fits len rb_wf_index(3) [OF wf] by (subst unat_add_index) auto
    note sk = rb_skip_tail [OF wf kle this fits]
    have "mem_read ?p ?ri (unat len) = Some (take k (rb_items r))"
      using fits lp sk len by (simp add: mem_iff)
    moreover have "mem_write dst 0 (take k (rb_items r)) = Some (take k (rb_items r) @ drop k dst)"
      using dst kle by (simp add: mem_iff min_absorb2)
    ultimately have "xy_rb_get (Some r) (Some dst) length'
        = Some (len, Some ?r', Some (take k (rb_items r) @ drop k dst))"
      using get False tl by simp
    then show ?thesis using sk len_k by (intro exI [of _ ?r']) (simp add: rb_cap_def)
  next
    case tl: False
    then have wraps: "rb_cap r - ?ri \<le> k"
      using len tail by (simp add: word_less_nat_alt not_less)
    let ?t = "rb_cap r - ?ri"
    let ?r' = "r\<lparr>rb_read_mirror := NOT (rb_read_mirror r), rb_read_index := ucast (len - tail)\<rparr>"
    have sub: "unat (len - tail) = k - ?t"
      using wraps len tail by (subst unat_sub_u32) auto
    have "k - ?t < 2147483648"
      using kle rb_items_le_cap [OF wf] rb_wf_index(3) [OF wf] by linarith
    then have ix: "unat (ucast (len - tail) :: rb_index) = k - ?t"
      using sub by (subst unat_u32_index) auto
    note sk = rb_skip_wrap [OF wf kle wraps ix]
    let ?a = "take ?t (drop ?ri ?p)" and ?b = "take (k - ?t) ?p"
    have ab: "?a @ ?b = take k (rb_items r)" using sk ix by simp
    have la: "length ?a = ?t" "length ?b = k - ?t"
      using lp kle rb_items_le_cap [OF wf] by simp_all
    have rd: "mem_read ?p ?ri (unat tail) = Some ?a" "mem_read ?p 0 (unat (len - tail)) = Some ?b"
      using lp tail sub kle rb_items_le_cap [OF wf] rb_wf_index(1) [OF wf]
      by (simp_all add: mem_iff)
    have wr: "mem_write dst 0 ?a = Some (?a @ drop ?t dst)"
      using la wraps dst by (simp only: mem_write_eq_Some) simp
    have wr2: "mem_write (?a @ drop ?t dst) (unat tail) ?b = Some ((?a @ ?b) @ drop k dst)"
      using la wraps dst tail by (simp only: mem_write_eq_Some) simp
    have "xy_rb_get (Some r) (Some dst) length'
        = Some (len, Some ?r', Some (take k (rb_items r) @ drop k dst))"
      using get False tl by (simp add: rd wr wr2 del: append_assoc) (simp add: ab)
    then show ?thesis using sk len_k by (intro exI [of _ ?r']) (simp add: rb_cap_def)
  qed
qed

subsection \<open>Single characters\<close>

lemma at_end_iff:
  "unat (i::rb_index) < rb_cap r \<Longrightarrow>
   ucast i = rb_buffer_size r - 1 \<longleftrightarrow> Suc (unat i) = rb_cap r"
proof -
  assume i: "unat i < rb_cap r"
  then have "unat (rb_buffer_size r - 1) = rb_cap r - 1"
    by (subst unat_sub_u32) (auto simp: rb_cap_def)
  moreover have "ucast i = rb_buffer_size r - 1 \<longleftrightarrow> unat i = unat (rb_buffer_size r - 1)"
    by (metis unat_index_u32 unsigned_word_eqI)
  ultimately show ?thesis using i by auto
qed

lemma unat_index_Suc: "Suc (unat (i::rb_index)) < 2147483648 \<Longrightarrow> unat (i + 1) = Suc (unat i)"
  by (simp add: unat_word_ariths)

lemma rb_next_read:
  assumes wf: "rb_wf r" and items: "rb_items r = x # xs"
    and nxt: "rb_next (rb_buffer_size r) (rb_read_mirror r) (rb_read_index r) = (m, i)"
  shows "rb_wf (r\<lparr>rb_read_mirror := m, rb_read_index := i\<rparr>)
    \<and> rb_items (r\<lparr>rb_read_mirror := m, rb_read_index := i\<rparr>) = xs
    \<and> rb_pool r ! unat (rb_read_index r) = x"
proof -
  let ?ri = "unat (rb_read_index r)"
  have b: "?ri < rb_cap r" "rb_cap r < 2147483648" "rb_cap r \<le> length (rb_pool r)"
    using rb_wf_index [OF wf] wf by (simp_all add: rb_wf_def)
  have hd: "take 1 (drop ?ri (rb_pool r)) = [rb_pool r ! ?ri]"
    using b by (simp add: take_Suc_conv_app_nth)
  show ?thesis
  proof (cases "Suc ?ri = rb_cap r")
    case True
    then have "m = NOT (rb_read_mirror r)" "i = 0"
      using nxt at_end_iff [OF b(1)] by (auto simp: rb_next_def)
    moreover have "rb_cap r - ?ri = 1" using True by simp
    ultimately show ?thesis
      using rb_skip_wrap [OF wf, of 1 i] items hd by simp
  next
    case False
    then have "m = rb_read_mirror r" "i = rb_read_index r + 1"
      using nxt at_end_iff [OF b(1)] by (auto simp: rb_next_def)
    moreover from this False b have "unat i = ?ri + 1" by (simp add: unat_index_Suc)
    ultimately show ?thesis
      using rb_skip_tail [OF wf, of 1 i] items hd False b by simp
  qed
qed

lemma xy_rb_getchar_spec:
  assumes wf: "rb_wf r"
  shows "case rb_items r of
      [] \<Rightarrow> xy_rb_getchar (Some r) (Some c0) = Some (0, Some r, Some c0)
    | x # xs \<Rightarrow> (\<exists>r'. xy_rb_getchar (Some r) (Some c0) = Some (1, Some r', Some x)
        \<and> rb_wf r' \<and> rb_items r' = xs \<and> rb_cap r' = rb_cap r)"
proof (cases "rb_items r")
  case Nil
  then have "xy_rb_data_len (Some r) = 0" using unat_data_len [OF wf] by (simp add: unat_eq_0)
  then show ?thesis using Nil by (simp add: xy_rb_getchar_def)
next
  case (Cons x xs)
  then have ne: "xy_rb_data_len (Some r) \<noteq> 0" using unat_data_len [OF wf] by auto
  obtain m i where nxt: "rb_next (rb_buffer_size r) (rb_read_mirror r) (rb_read_index r) = (m, i)"
    by fastforce
  have "mem_load (rb_pool r) (unat (rb_read_index r)) = Some x"
    using rb_next_read [OF wf Cons nxt] rb_wf_index [OF wf] wf by (simp add: mem_iff rb_wf_def)
  then show ?thesis
    using rb_next_read [OF wf Cons nxt] ne Cons rb_wf_pool [OF wf]
    by (simp add: xy_rb_getchar_def nxt rb_cap_def)
qed

lemma rb_store_char_spec:
  assumes wf: "rb_wf r" and room: "length (rb_items r) < rb_cap r"
  shows "\<exists>r'. rb_store_char r ch = Some r' \<and> rb_wf r' \<and> rb_items r' = rb_items r @ [ch]
    \<and> rb_cap r' = rb_cap r"
proof -
  let ?w = "unat (rb_write_index r)" and ?p = "rb_pool r"
  have b: "?w < rb_cap r" "rb_cap r < 2147483648" "rb_cap r \<le> length ?p"
    using rb_wf_index [OF wf] wf by (simp_all add: rb_wf_def)
  have space: "xy_rb_space_len (Some r) \<noteq> 0" using unat_space_len [OF wf] room by auto
  then have one: "(1::u32) = (if xy_rb_space_len (Some r) < 1 then xy_rb_space_len (Some r) else 1)"
    by (auto simp: word_less_nat_alt unat_eq_0)
  have st: "mem_store ?p ?w ch = Some (take ?w ?p @ [ch] @ drop (Suc ?w) ?p)"
    using b by (simp add: mem_iff upd_conv_take_nth_drop)
  have wr: "mem_write ?p ?w [ch] = Some (take ?w ?p @ [ch] @ drop (Suc ?w) ?p)"
    using b by (simp add: mem_iff)
  have t: "unat (rb_buffer_size r - ucast (rb_write_index r)) = rb_cap r - ?w"
    using b(1) by (rule unat_tail)
  note put = xy_rb_put_unfold [OF _ space rb_wf_pool [OF wf] one refl, of "[ch]"]
  have same: "map_option (\<lambda>r'. (1, Some r')) (rb_store_char r ch) = xy_rb_put (Some r) (Some [ch]) 1"
  proof (cases "Suc ?w = rb_cap r")
    case True
    then have "unat (rb_buffer_size r - ucast (rb_write_index r)) = unat (1::u32)"
      unfolding t by simp
    then have t1: "rb_buffer_size r - ucast (rb_write_index r) = 1" by (rule unsigned_word_eqI)
    have nxt: "rb_next (rb_buffer_size r) (rb_write_mirror r) (rb_write_index r)
        = (NOT (rb_write_mirror r), 0)"
      using True at_end_iff [OF b(1)] by (simp add: rb_next_def)
    have rd: "mem_read [ch] 0 (Suc 0) = Some [ch]" "mem_read [ch] (Suc 0) 0 = Some []"
      "mem_write q 0 [] = Some q" for q :: "u8 list"
      by (simp_all add: mem_iff)
    show ?thesis
      using put rb_wf_pool [OF wf] by (simp add: t1 rb_store_char_def st nxt rd wr)
  next
    case False
    then have t1: "rb_buffer_size r - ucast (rb_write_index r) > 1"
      using t b(1) by (simp add: word_less_nat_alt)
    have nxt: "rb_next (rb_buffer_size r) (rb_write_mirror r) (rb_write_index r)
        = (rb_write_mirror r, rb_write_index r + 1)"
      using False at_end_iff [OF b(1)] by (simp add: rb_next_def)
    have rd: "mem_read [ch] 0 (Suc 0) = Some [ch]" by (simp add: mem_iff)
    show ?thesis
      using put rb_wf_pool [OF wf] t1 by (simp add: rb_store_char_def st nxt rd wr)
  qed
  from xy_rb_put_spec [OF wf refl, of 1 "[ch]"] room
  obtain r' where r': "xy_rb_put (Some r) (Some [ch]) 1 = Some (1, Some r')" "rb_wf r'"
    "rb_items r' = rb_items r @ [ch]" "rb_cap r' = rb_cap r"
    by auto
  then show ?thesis using same by (cases "rb_store_char r ch") auto
qed

lemma xy_rb_putchar_spec:
  assumes wf: "rb_wf r"
  shows "if length (rb_items r) < rb_cap r
    then \<exists>r'. xy_rb_putchar (Some r) ch = Some (1, Some r') \<and> rb_wf r'
      \<and> rb_items r' = rb_items r @ [ch] \<and> rb_cap r' = rb_cap r
    else xy_rb_putchar (Some r) ch = Some (0, Some r)"
proof (cases "length (rb_items r) < rb_cap r")
  case True
  then have "xy_rb_space_len (Some r) \<noteq> 0" using unat_space_len [OF wf] by auto
  then show ?thesis
    using True rb_store_char_spec [OF wf True, of ch] by (auto simp: xy_rb_putchar_def)
next
  case False
  then have "xy_rb_space_len (Some r) = 0"
    using unat_space_len [OF wf] by (simp add: unat_eq_0)
  then show ?thesis using False by (simp add: xy_rb_putchar_def)
qed

subsection \<open>Overwriting writes\<close>

lemma xy_rb_put_force_spec:
  assumes wf: "rb_wf r" and src: "unat l \<le> length src" and l: "unat l \<le> rb_cap r"
  shows "\<exists>r'. xy_rb_put_force (Some r) (Some src) l = Some (l, Some r') \<and> rb_wf r'
    \<and> rb_items r' = drop (length (rb_items r) + unat l - rb_cap r) (rb_items r @ take (unat l) src)
    \<and> rb_cap r' = rb_cap r"
proof (cases "l = 0")
  case True
  then show ?thesis
    using wf rb_items_le_cap [OF wf] by (intro exI [of _ r]) (simp add: xy_rb_put_force_def)
next
  case nz: False
  let ?sp = "xy_rb_space_len (Some r)" and ?ri = "unat (rb_read_index r)"
  have sp: "unat ?sp = rb_cap r - length (rb_items r)" using unat_space_len [OF wf] .
  have le: "length (rb_items r) \<le> rb_cap r" "rb_cap r < 2147483648" "?ri < rb_cap r"
    using rb_items_le_cap [OF wf] rb_wf_index [OF wf] by auto
  have finish: ?thesis
    if r1: "rb_wf r1" "rb_items r1 = drop d (rb_items r)" "rb_cap r1 = rb_cap r"
      and d: "d = length (rb_items r) + unat l - rb_cap r"
      and res: "xy_rb_put_force (Some r) (Some src) l = xy_rb_put (Some r1) (Some src) l"
    for r1 d
  proof -
    have "d \<le> length (rb_items r)" using d l by linarith
    moreover from this have "unat l = min (unat l) (rb_cap r1 - length (rb_items r1))"
      using r1(2,3) d le(1) by auto
    ultimately show ?thesis
      using xy_rb_put_spec [OF r1(1), of "unat l" l src] src res r1(2,3) d by auto
  qed
  show ?thesis
  proof (cases "l > ?sp")
    case False
    then have "length (rb_items r) + unat l - rb_cap r = 0"
      using sp le(1) by (simp add: word_less_nat_alt)
    then show ?thesis
      using nz False by (intro finish [OF wf, of 0]) (simp_all add: xy_rb_put_force_def Let_def)
  next
    case True
    let ?dl = "l - ?sp"
    define d where "d = length (rb_items r) + unat l - rb_cap r"
    have dl: "unat ?dl = d"
      using True sp le(1) by (subst unat_sub_u32) (auto simp: word_less_nat_alt d_def)
    have d: "d \<le> length (rb_items r)" using l by (simp add: d_def)
    have "0 < unat l" using nz by (simp add: unat_gt_0)
    have pf: "xy_rb_put_force (Some r) (Some src) l =
        (if ?dl < rb_buffer_size r then
           (if ucast (rb_read_index r) + ?dl < rb_buffer_size r then
              xy_rb_put (Some (r\<lparr>rb_read_index := rb_read_index r + ucast ?dl\<rparr>)) (Some src) l
            else
              xy_rb_put (Some (r\<lparr>rb_read_mirror := NOT (rb_read_mirror r),
                  rb_read_index := ucast (?dl - (rb_buffer_size r - ucast (rb_read_index r)))\<rparr>))
                (Some src) l)
         else
           xy_rb_put (Some (r\<lparr>rb_read_mirror := NOT (rb_read_mirror r),
                              rb_read_index := rb_write_index r\<rparr>))
             (Some (drop (unat (l - rb_buffer_size r)) src)) (rb_buffer_size r))"
      using nz True by (simp add: xy_rb_put_force_def Let_def)
    have sum: "unat (ucast (rb_read_index r) + ?dl) = ?ri + d"
      using le d dl by (subst unat_add_u32) auto
    show ?thesis
    proof (cases "d < rb_cap r")
      case small: True
      then have sm: "?dl < rb_buffer_size r" by (simp add: word_less_nat_alt dl rb_cap_def)
      show ?thesis
      proof (cases "?ri + d < rb_cap r")
        case nw: True
        then have c: "ucast (rb_read_index r) + ?dl < rb_buffer_size r"
          by (simp add: word_less_nat_alt sum rb_cap_def)
        have "unat (rb_read_index r + ucast ?dl) = ?ri + d"
          using nw le dl by (subst unat_add_index) auto
        note sk = rb_skip_tail [OF wf d this nw]
        show ?thesis
          by (rule finish [OF _ _ _ d_def]) (use sk pf sm c in \<open>simp_all add: rb_cap_def\<close>)
      next
        case wr: False
        then have c: "\<not> ucast (rb_read_index r) + ?dl < rb_buffer_size r"
          by (simp add: word_less_nat_alt sum rb_cap_def)
        have t: "unat (rb_buffer_size r - ucast (rb_read_index r)) = rb_cap r - ?ri"
          using le(3) by (rule unat_tail)
        have w: "rb_cap r - ?ri \<le> d" using wr by simp
        have "unat (?dl - (rb_buffer_size r - ucast (rb_read_index r))) = d - (rb_cap r - ?ri)"
          using w dl t by (subst unat_sub_u32) auto
        then have ix: "unat (ucast (?dl - (rb_buffer_size r - ucast (rb_read_index r))) :: rb_index)
            = d - (rb_cap r - ?ri)"
          using d le by (subst unat_u32_index) auto
        note sk = rb_skip_wrap [OF wf d w ix]
        show ?thesis
          by (rule finish [OF _ _ _ d_def]) (use sk pf sm c in \<open>simp_all add: rb_cap_def\<close>)
      qed
    next
      case False
      then have full: "length (rb_items r) = rb_cap r" "unat l = rb_cap r" "d = rb_cap r"
        using d le(1) l by (auto simp: d_def)
      have sm: "\<not> ?dl < rb_buffer_size r" using False by (simp add: word_less_nat_alt dl rb_cap_def)
      have ln: "l = rb_buffer_size r"
        using full(2) unfolding rb_cap_def by (rule unsigned_word_eqI)
      let ?r1 = "r\<lparr>rb_read_mirror := NOT (rb_read_mirror r), rb_read_index := rb_write_index r\<rparr>"
      have ns: "\<not> rb_same r" "unat (rb_write_index r) = ?ri"
        using full(1) length_rb_items [OF wf] wf le(3)
        by (auto simp: ring_count_def rb_wf_def ring_ok_def split: if_splits)
      have wf1: "rb_wf ?r1"
        using wf ns mirror_cases [of "rb_write_mirror r" "rb_read_mirror r"]
        by (auto simp: rb_wf_def rb_same_def rb_cap_def rb_pool_def ring_ok_def)
      have it1: "rb_items ?r1 = []"
        using ns mirror_cases [of "rb_write_mirror r" "rb_read_mirror r"]
        by (auto simp: rb_items_def rb_same_def ring_items_def)
      show ?thesis
        by (rule finish [OF wf1 _ _ d_def]) (use it1 full pf sm ln in \<open>simp_all add: rb_cap_def\<close>)
    qed
  qed
qed

lemma xy_rb_putchar_force_spec:
  assumes wf: "rb_wf r"
  shows "\<exists>r'. xy_rb_putchar_force (Some r) ch = Some (1, Some r') \<and> rb_wf r'
    \<and> rb_items r' = drop (length (rb_items r) + 1 - rb_cap r) (rb_items r @ [ch])
    \<and> rb_cap r' = rb_cap r"
proof (cases "length (rb_items r) < rb_cap r")
  case True
  then have "xy_rb_space_len (Some r) \<noteq> 0" using unat_space_len [OF wf] by auto
  then show ?thesis
    using True rb_store_char_spec [OF wf True, of ch] by (auto simp: xy_rb_putchar_force_def Let_def)
next
  case False
  then have full: "length (rb_items r) = rb_cap r" using rb_items_le_cap [OF wf] by simp
  then have sp: "xy_rb_space_len (Some r) = 0"
    using unat_space_len [OF wf] by (simp add: unat_eq_0)
  obtain x xs where it: "rb_items r = x # xs"
    using full rb_wf_index(4) [OF wf] by (cases "rb_items r") auto
  obtain m i where nxt: "rb_next (rb_buffer_size r) (rb_read_mirror r) (rb_read_index r) = (m, i)"
    by fastforce
  let ?r1 = "r\<lparr>rb_read_mirror := m, rb_read_index := i\<rparr>"
  have r1: "rb_wf ?r1" "rb_items ?r1 = xs" "rb_cap ?r1 = rb_cap r"
    using rb_next_read [OF wf it nxt] by (simp_all add: rb_cap_def)
  have "length xs < rb_cap r" using full it by simp
  then obtain r' where "rb_store_char ?r1 ch = Some r'" "rb_wf r'" "rb_items r' = xs @ [ch]"
    "rb_cap r' = rb_cap r"
    using rb_store_char_spec [OF r1(1), of ch] r1 by auto
  then show ?thesis
    using sp it full by (auto simp: xy_rb_putchar_force_def Let_def nxt)
qed

subsection \<open>Initialisation and peeking\<close>

lemma sint_pos_unat:
  assumes "0 < sint (n::u32)"
  shows "0 < unat n" and "unat n < 2147483648"
proof -
  have "0 < uint n \<and> uint n < 2147483648"
    using assms uint_bounded [of n] sint_u32 [of n]
    by (cases "uint n < 2147483648") simp_all
  then show "0 < unat n" "unat n < 2147483648" by (simp_all only: unat_eq_nat_uint) linarith+
qed

lemma xy_rb_init_spec:
  assumes "0 < sint n" and "unat n \<le> length pool"
  shows "\<exists>r'. xy_rb_init (Some r) (Some pool) n = Some r' \<and> rb_wf r' \<and> rb_items r' = []
    \<and> rb_cap r' = unat n"
  using sint_pos_unat [OF assms(1)] assms
  by (simp add: xy_rb_init_def rb_defs ring_ok_def ring_items_def)

lemma xy_rb_reset_spec:
  assumes "rb_wf r"
  shows "\<exists>r'. xy_rb_reset (Some r) = Some r' \<and> rb_wf r' \<and> rb_items r' = [] \<and> rb_cap r' = rb_cap r"
  using assms rb_wf_index(4) [OF assms]
  by (simp add: xy_rb_reset_def rb_defs ring_ok_def ring_items_def)

text \<open>Peeking gives the longest run of queued bytes that is contiguous in the pool.\<close>

lemma xy_rb_peek_spec:
  assumes wf: "rb_wf r"
  shows "\<exists>n p. xy_rb_peek (Some r) (Some q) = Some (n, Some p)
    \<and> take (unat n) p = take (unat n) (rb_items r) \<and> unat n \<le> length (rb_items r)
    \<and> (n = 0 \<longleftrightarrow> rb_items r = [])"
proof -
  let ?ri = "unat (rb_read_index r)" and ?wi = "unat (rb_write_index r)"
  let ?n = "if rb_same r then ucast (rb_write_index r) - ucast (rb_read_index r)
            else rb_buffer_size r - ucast (rb_read_index r) :: u32"
  have b: "?ri < rb_cap r" "?wi < rb_cap r" "rb_cap r \<le> length (rb_pool r)"
    "rb_same r \<Longrightarrow> ?ri \<le> ?wi"
    using rb_wf_index [OF wf] wf by (auto simp: rb_wf_def ring_ok_def)
  have n: "unat ?n = (if rb_same r then ?wi - ?ri else rb_cap r - ?ri)"
    using b unat_tail [OF b(1)] by (simp add: unat_sub_u32)
  have peek: "xy_rb_peek (Some r) (Some q) = Some (?n, Some (drop ?ri (rb_pool r)))"
    using b(4) rb_wf_pool [OF wf]
    by (auto simp: xy_rb_peek_def Let_def rb_same_def word_less_nat_alt)
  have "take (unat ?n) (drop ?ri (rb_pool r)) = take (unat ?n) (rb_items r)"
    using b by (simp add: n rb_items_def ring_items_def drop_take)
  moreover have "unat ?n \<le> length (rb_items r)" "unat ?n = 0 \<longleftrightarrow> length (rb_items r) = 0"
    using b(1,4) length_rb_items [OF wf] by (simp_all only: n ring_count_def split: if_splits) auto
  ultimately show ?thesis
    using peek by (intro exI [of _ ?n] exI [of _ "drop ?ri (rb_pool r)"]) (simp only: unat_eq_0 length_0_conv simp_thms)
qed

subsection \<open>The ring buffer is a bounded queue\<close>

definition rb_put1 :: "xy_rb \<Rightarrow> u8 \<Rightarrow> (bool \<times> xy_rb) option" where
  "rb_put1 r ch = do { (n, r') \<leftarrow> xy_rb_putchar (Some r) ch; t \<leftarrow> r'; Some (n = 1, t) }"

definition rb_get1 :: "xy_rb \<Rightarrow> (u8 option \<times> xy_rb) option" where
  "rb_get1 r = do {
     (n, r', c) \<leftarrow> xy_rb_getchar (Some r) (Some 0);
     t \<leftarrow> r'; Some (if n = 1 then c else None, t) }"

interpretation rb_fifo: bounded_fifo rb_put1 rb_get1 rb_items rb_cap rb_wf
proof unfold_locales
  fix s :: xy_rb and x :: u8 and xs
  assume wf: "rb_wf s"
  then show "length (rb_items s) \<le> rb_cap s" by (rule rb_items_le_cap)
  show "\<exists>s'. rb_put1 s x = Some (True, s') \<and> rb_wf s' \<and> rb_items s' = rb_items s @ [x]
      \<and> rb_cap s' = rb_cap s" if "length (rb_items s) < rb_cap s"
    using xy_rb_putchar_spec [OF wf, of x] that by (auto simp: rb_put1_def)
  show "\<exists>s'. rb_put1 s x = Some (False, s') \<and> rb_wf s' \<and> rb_items s' = rb_items s
      \<and> rb_cap s' = rb_cap s" if "length (rb_items s) = rb_cap s"
    using xy_rb_putchar_spec [OF wf, of x] that wf by (auto simp: rb_put1_def)
  show "\<exists>s'. rb_get1 s = Some (None, s') \<and> rb_wf s' \<and> rb_items s' = [] \<and> rb_cap s' = rb_cap s"
    if "rb_items s = []"
    using xy_rb_getchar_spec [OF wf, of 0] that wf by (simp add: rb_get1_def)
  show "\<exists>s'. rb_get1 s = Some (Some x, s') \<and> rb_wf s' \<and> rb_items s' = xs \<and> rb_cap s' = rb_cap s"
    if "rb_items s = x # xs"
    using xy_rb_getchar_spec [OF wf, of 0] that by (auto simp: rb_get1_def)
qed

text \<open>
  A sequence of \<open>xy_rb_putchar\<close> and \<open>xy_rb_getchar\<close> calls on one buffer, each made on the buffer
  the call before it left, refused or not: what the calls returned, the bytes read and the last
  buffer. An undefined call makes the run \<open>None\<close>.
\<close>

fun rb_run :: "xy_rb \<Rightarrow> u8 fifo_op list \<Rightarrow> (u32 list \<times> u8 list \<times> xy_rb) option" where
  "rb_run r [] = Some ([], [], r)"
| "rb_run r (Put ch # ops) = do {
     (n, rb) \<leftarrow> xy_rb_putchar (Some r) ch;
     r' \<leftarrow> rb;
     (ns, out, t) \<leftarrow> rb_run r' ops;
     Some (n # ns, out, t) }"
| "rb_run r (Get # ops) = do {
     (n, rb, c) \<leftarrow> xy_rb_getchar (Some r) (Some 0);
     r' \<leftarrow> rb;
     (ns, out, t) \<leftarrow> rb_run r' ops;
     Some (n # ns, (case c of Some x \<Rightarrow> if n = 1 then x # out else out | None \<Rightarrow> out), t) }"

lemma rb_run_fifo:
  "rb_wf r \<Longrightarrow> rb_run r ops = map_option (\<lambda>(acc, out, t). (map of_bool acc, out, t)) (rb_fifo.run r ops)"
proof (induction ops arbitrary: r)
  case (Cons op ops)
  show ?case
  proof (cases op)
    case (Put ch)
    obtain b r' where r': "xy_rb_putchar (Some r) ch = Some (of_bool b, Some r')" "rb_wf r'"
      using xy_rb_putchar_spec [OF Cons.prems, of ch] Cons.prems
      by (cases "length (rb_items r) < rb_cap r") (auto simp: of_bool_def)
    moreover from r'(1) have "rb_put1 r ch = Some (b, r')" by (simp add: rb_put1_def)
    ultimately show ?thesis
      using Cons.IH [OF r'(2)] Put by (cases "rb_fifo.run r' ops") auto
  next
    case Get
    obtain b r' c where r': "xy_rb_getchar (Some r) (Some 0) = Some (of_bool b, Some r', Some c)" "rb_wf r'"
      using xy_rb_getchar_spec [OF Cons.prems, of 0] Cons.prems
      by (cases "rb_items r") (simp_all, metis of_bool_eq(1), metis of_bool_eq(2))
    moreover from r'(1) have "rb_get1 r = Some (if b then Some c else None, r')"
      by (simp add: rb_get1_def)
    ultimately show ?thesis
      using Cons.IH [OF r'(2)] Get by (cases "rb_fifo.run r' ops"; cases b) auto
  qed
qed simp

lemma rb_run_queue:
  assumes "rb_wf r"
  shows "\<exists>acc out t. rb_run r ops = Some (map of_bool acc, out, t)
    \<and> queue_run (rb_cap r) (rb_items r) ops = (acc, out, rb_items t) \<and> rb_wf t
    \<and> rb_cap t = rb_cap r"
  using rb_fifo.run_refines [OF assms, of ops] by (auto simp: rb_run_fifo [OF assms])

subsection \<open>Properties\<close>

definition xy_rb_zero :: xy_rb where
  "xy_rb_zero = \<lparr>rb_buffer_ptr = None, rb_read_mirror = 0, rb_read_index = 0,
     rb_write_mirror = 0, rb_write_index = 0, rb_buffer_size = 0\<rparr>"

text \<open>
  C3. From initialisation on, every interleaving of \<open>xy_rb_putchar\<close> and \<open>xy_rb_getchar\<close>, refused
  calls included, is defined and behaves as a bounded queue: the calls return 1 and 0 where the
  queue accepts and refuses, the same bytes are read, the bytes read followed by the bytes held
  are the bytes accepted, and no more than the size of the buffer is ever held. Each call works
  on the buffer that the previous one left, so a refused call leaves the queue as it was.
\<close>

theorem rb_refines_bounded_queue:
  assumes "0 < sint n" and "unat n \<le> length pool"
  shows "\<exists>r0 acc out t. xy_rb_init (Some r) (Some pool) n = Some r0
    \<and> rb_run r0 ops = Some (map of_bool acc, out, t)
    \<and> queue_run (unat n) [] ops = (acc, out, rb_items t)
    \<and> accepted ops acc = out @ rb_items t \<and> length (rb_items t) \<le> unat n"
proof -
  obtain r0 where r0: "xy_rb_init (Some r) (Some pool) n = Some r0" "rb_wf r0" "rb_items r0 = []"
    "rb_cap r0 = unat n" using xy_rb_init_spec [OF assms] by blast
  obtain acc out t where run: "rb_run r0 ops = Some (map of_bool acc, out, t)"
    and q: "queue_run (unat n) [] ops = (acc, out, rb_items t)"
    using rb_run_queue [OF r0(2), of ops] r0(3,4) by auto
  then show ?thesis
    using r0(1) queue_run_fifo [OF q] queue_run_bounded [OF q] by auto
qed

theorem rb_refines_bounded_queue_witness:
  "\<exists>r0 acc out t. xy_rb_init (Some xy_rb_zero) (Some [0, 0]) 2 = Some r0
    \<and> rb_run r0 [Put 7, Put 8, Put 9, Get, Put 10, Get, Get] = Some (map of_bool acc, out, t)
    \<and> queue_run (unat (2::u32)) [] [Put 7, Put 8, Put 9, Get, Put 10, Get, Get] = (acc, out, rb_items t)
    \<and> accepted [Put 7, Put 8, Put 9, Get, Put 10, Get, Get] acc = out @ rb_items t
    \<and> length (rb_items t) \<le> unat (2::u32)"
  by (rule rb_refines_bounded_queue) (simp_all add: sint_u32)

text \<open>
  Block transfers: \<open>xy_rb_put\<close> appends as much of the source as there is room for and says
  how much, and a following \<open>xy_rb_get\<close> copies the oldest bytes out, in order, across the end
  of the pool; nothing else in the destination changes.
\<close>

theorem rb_block_transfer:
  assumes "rb_wf r" and "unat l \<le> length src" and "unat g \<le> length dst"
  shows "\<exists>r1 r2 n k. xy_rb_put (Some r) (Some src) l = Some (n, Some r1)
    \<and> unat n = min (unat l) (rb_cap r - length (rb_items r))
    \<and> rb_items r1 = rb_items r @ take (unat n) src
    \<and> xy_rb_get (Some r1) (Some dst) g
        = Some (k, Some r2, Some (take (unat k) (rb_items r1) @ drop (unat k) dst))
    \<and> unat k = min (unat g) (length (rb_items r1)) \<and> rb_items r2 = drop (unat k) (rb_items r1)
    \<and> rb_wf r2"
proof -
  let ?n = "min (unat l) (rb_cap r - length (rb_items r))"
  have n: "unat (of_nat ?n :: u32) = ?n" "?n \<le> length src"
  proof -
    show "unat (of_nat ?n :: u32) = ?n"
      using unat_u32_less [of l] by (intro unat_of_nat_u32) linarith
  qed (use assms(2) in simp)
  obtain r1 where r1: "xy_rb_put (Some r) (Some src) l = Some (of_nat ?n, Some r1)" "rb_wf r1"
    "rb_items r1 = rb_items r @ take ?n src"
    using xy_rb_put_spec [OF assms(1) refl n(2)] by blast
  let ?k = "min (unat g) (length (rb_items r1))"
  have k: "unat (of_nat ?k :: u32) = ?k" "?k \<le> length dst"
  proof -
    show "unat (of_nat ?k :: u32) = ?k"
      using unat_u32_less [of g] by (intro unat_of_nat_u32) linarith
  qed (use assms(3) in simp)
  obtain r2 where r2: "xy_rb_get (Some r1) (Some dst) g
      = Some (of_nat ?k, Some r2, Some (take ?k (rb_items r1) @ drop ?k dst))" "rb_wf r2"
    "rb_items r2 = drop ?k (rb_items r1)"
    using xy_rb_get_spec [OF r1(2) refl k(2)] by blast
  show ?thesis
    by (rule exI [of _ r1], rule exI [of _ r2], rule exI [of _ "of_nat ?n"],
        rule exI [of _ "of_nat ?k"]) (use r1 r2 n(1) k(1) in \<open>simp only: simp_thms\<close>)
qed

theorem rb_block_transfer_witness:
  "\<exists>r1 r2 n k. xy_rb_put (Some (xy_rb_zero\<lparr>rb_buffer_ptr := Some [1, 2, 3], rb_buffer_size := 3,
        rb_read_index := 2, rb_write_index := 2\<rparr>)) (Some [5, 6]) 2 = Some (n, Some r1)
    \<and> unat n = 2 \<and> rb_items r1 = take (unat n) [5, 6]
    \<and> xy_rb_get (Some r1) (Some [0, 0]) 2
        = Some (k, Some r2, Some (take (unat k) (rb_items r1) @ drop (unat k) [0, 0]))
    \<and> unat k = min 2 (length (rb_items r1)) \<and> rb_items r2 = drop (unat k) (rb_items r1)
    \<and> rb_wf r2"
  using rb_block_transfer [of "xy_rb_zero\<lparr>rb_buffer_ptr := Some [1, 2, 3], rb_buffer_size := 3,
        rb_read_index := 2, rb_write_index := 2\<rparr>" 2 "[5, 6]" 2 "[0, 0]"]
  by (simp add: xy_rb_zero_def rb_defs ring_ok_def ring_items_def)

text \<open>
  Overwriting writes of at most the buffer's size keep exactly the newest bytes: the last
  \<open>rb_cap\<close> bytes of what was queued followed by what is written.
\<close>

theorem rb_force_keeps_newest:
  assumes "rb_wf r" and "unat l \<le> length src" and "unat l \<le> rb_cap r"
  shows "(\<exists>r'. xy_rb_put_force (Some r) (Some src) l = Some (l, Some r') \<and> rb_wf r'
      \<and> rb_items r' = drop (length (rb_items r) + unat l - rb_cap r)
                           (rb_items r @ take (unat l) src))
    \<and> (\<exists>r'. xy_rb_putchar_force (Some r) ch = Some (1, Some r') \<and> rb_wf r'
      \<and> rb_items r' = drop (length (rb_items r) + 1 - rb_cap r) (rb_items r @ [ch]))"
  using xy_rb_put_force_spec [OF assms] xy_rb_putchar_force_spec [OF assms(1), of ch] by blast

theorem rb_force_keeps_newest_witness:
  "\<exists>r'. xy_rb_put_force (Some (xy_rb_zero\<lparr>rb_buffer_ptr := Some [1, 2, 3], rb_buffer_size := 3,
        rb_read_index := 1, rb_write_index := 1, rb_write_mirror := 1\<rparr>)) (Some [5, 6]) 2
      = Some (2, Some r') \<and> rb_wf r' \<and> rb_items r' = [1, 5, 6]"
proof -
  let ?r = "xy_rb_zero\<lparr>rb_buffer_ptr := Some [1, 2, 3], rb_buffer_size := 3,
        rb_read_index := 1, rb_write_index := 1, rb_write_mirror := 1\<rparr>"
  have r: "rb_wf ?r" "rb_items ?r = [2, 3, 1]" "rb_cap ?r = 3"
    by (simp_all add: xy_rb_zero_def rb_defs ring_ok_def ring_items_def)
  show ?thesis
    using conjunct1 [OF rb_force_keeps_newest [OF r(1), of 2 "[5, 6]"]]
    by (simp only: r) simp
qed

text \<open>
  \<open>xy_rb_put_force\<close> with more data than the buffer holds does not keep the newest bytes, as its
  comment says: on a buffer that has not wrapped it stores nothing, returns 0, and leaves the
  buffer looking full of stale pool contents.
\<close>

theorem rb_put_force_oversized_loses:
  assumes "rb_wf r" and "rb_same r" and "unat l \<le> length src"
    and "rb_cap r + (rb_cap r - length (rb_items r)) \<le> unat l"
  shows "\<exists>r'. xy_rb_put_force (Some r) (Some src) l = Some (0, Some r')
    \<and> rb_pool r' = rb_pool r \<and> length (rb_items r') = rb_cap r"
proof -
  let ?sp = "xy_rb_space_len (Some r)"
  let ?r1 = "r\<lparr>rb_read_mirror := NOT (rb_read_mirror r), rb_read_index := rb_write_index r\<rparr>"
  have sp: "unat ?sp = rb_cap r - length (rb_items r)" using unat_space_len [OF assms(1)] .
  have b: "0 < rb_cap r" "unat (rb_write_index r) < rb_cap r"
    using rb_wf_index [OF assms(1)] by simp_all
  have big: "l > ?sp" "\<not> l - ?sp < rb_buffer_size r"
    using assms(4) sp b(1) by (auto simp: word_less_nat_alt unat_sub_u32 rb_cap_def)
  have wf1: "rb_wf ?r1" "\<not> rb_same ?r1" "rb_cap ?r1 = rb_cap r" "rb_pool ?r1 = rb_pool r"
    using assms(1,2) b(2) by (simp_all add: rb_wf_def rb_same_def rb_cap_def rb_pool_def ring_ok_def)
  have full: "length (rb_items ?r1) = rb_cap r"
    using length_rb_items [OF wf1(1)] wf1(2) b(2) by (simp add: ring_count_def rb_cap_def)
  then have sp1: "xy_rb_space_len (Some ?r1) = 0"
    using unat_space_len [OF wf1(1)] wf1(3) by (simp add: unat_eq_0)
  have "l \<noteq> 0" using big(1) by auto
  then have "xy_rb_put_force (Some r) (Some src) l = xy_rb_put (Some ?r1)
      (Some (drop (unat (l - rb_buffer_size r)) src)) (rb_buffer_size r)"
    using big by (simp add: xy_rb_put_force_def Let_def)
  also have "\<dots> = Some (0, Some ?r1)"
    using sp1 by (simp add: xy_rb_put_def Let_def)
  finally show ?thesis using full wf1(4) by blast
qed

theorem rb_put_force_oversized_loses_witness:
  "\<exists>r'. xy_rb_put_force (Some (xy_rb_zero\<lparr>rb_buffer_ptr := Some [1, 2], rb_buffer_size := 2\<rparr>))
        (Some [5, 6, 7, 8]) 4 = Some (0, Some r')
    \<and> rb_pool r' = [1, 2] \<and> length (rb_items r') = 2"
  using rb_put_force_oversized_loses [of "xy_rb_zero\<lparr>rb_buffer_ptr := Some [1, 2], rb_buffer_size := 2\<rparr>"
      4 "[5, 6, 7, 8]"]
  by (simp add: xy_rb_zero_def rb_defs ring_ok_def ring_items_def)

end
