(* ===== verification/Mb_Slave.thy ===== *)
theory Mb_Slave
  imports Xy_Prelude
begin

text \<open>
  The Modbus RTU slave of \<open>components/net/modbus\<close> (\<open>mb_slave.c\<close>, \<open>mb_slave.h\<close>), in its default
  configuration (64 coils, 64 discrete inputs, 32 registers of each kind, 256-byte buffers).

  \<open>mb_slave\<close> is \<open>mb_slave_t\<close>. A callback is represented by a number that identifies the client's
  function. The field \<open>ms_trace\<close> is not in the struct: it records, oldest first, what the slave
  hands to its environment, the buffers given to \<open>mb_uart_send_buffer\<close> and the callback
  invocations. The environment does not change the struct, and \<open>mb_get_time_ms\<close> is an argument.
\<close>

subsection \<open>Configuration and data structures\<close>

definition MB_COIL_COUNT :: nat where "MB_COIL_COUNT = 64"
definition MB_DISCRETE_COUNT :: nat where "MB_DISCRETE_COUNT = 64"
definition MB_INPUT_REG_COUNT :: nat where "MB_INPUT_REG_COUNT = 32"
definition MB_HOLDING_REG_COUNT :: nat where "MB_HOLDING_REG_COUNT = 32"
definition MB_RX_BUFFER_SIZE :: nat where "MB_RX_BUFFER_SIZE = 256"
definition MB_TX_BUFFER_SIZE :: nat where "MB_TX_BUFFER_SIZE = 256"

datatype mb_exception =
    MB_EX_NONE | MB_EX_ILLEGAL_FUNCTION | MB_EX_ILLEGAL_DATA_ADDRESS | MB_EX_ILLEGAL_DATA_VALUE
  | MB_EX_SLAVE_DEVICE_FAILURE | MB_EX_ACKNOWLEDGE | MB_EX_SLAVE_BUSY | MB_EX_MEMORY_PARITY_ERROR
  | MB_EX_GATEWAY_PATH_FAILED | MB_EX_GATEWAY_TGT_FAILED

fun mb_exception_code :: "mb_exception \<Rightarrow> u8" where
  "mb_exception_code MB_EX_NONE = 0x00"
| "mb_exception_code MB_EX_ILLEGAL_FUNCTION = 0x01"
| "mb_exception_code MB_EX_ILLEGAL_DATA_ADDRESS = 0x02"
| "mb_exception_code MB_EX_ILLEGAL_DATA_VALUE = 0x03"
| "mb_exception_code MB_EX_SLAVE_DEVICE_FAILURE = 0x04"
| "mb_exception_code MB_EX_ACKNOWLEDGE = 0x05"
| "mb_exception_code MB_EX_SLAVE_BUSY = 0x06"
| "mb_exception_code MB_EX_MEMORY_PARITY_ERROR = 0x08"
| "mb_exception_code MB_EX_GATEWAY_PATH_FAILED = 0x0A"
| "mb_exception_code MB_EX_GATEWAY_TGT_FAILED = 0x0B"

datatype mb_event =
    UartSend "u8 list"
  | CoilWritten nat u16 bool
  | RegisterWritten nat u16 u16

record mb_slave =
  ms_address :: u8
  ms_baudrate :: u32
  ms_coils :: "u8 list"
  ms_discrete :: "u8 list"
  ms_input_regs :: "u16 list"
  ms_holding_regs :: "u16 list"
  ms_rx_buffer :: "u8 list"
  ms_rx_count :: u16
  ms_tx_buffer :: "u8 list"
  ms_tx_count :: u16
  ms_last_rx_time :: u32
  ms_frame_timeout :: u32
  ms_request_count :: u32
  ms_exception_count :: u32
  ms_crc_error_count :: u32
  ms_on_coil_write :: "nat option"
  ms_on_register_write :: "nat option"
  ms_trace :: "mb_event list"

subsection \<open>CRC16\<close>

definition mb_crc_bit :: "u16 \<Rightarrow> u16" where
  "mb_crc_bit crc = (if crc AND 0x0001 \<noteq> 0 then drop_bit 1 crc XOR 0xA001 else drop_bit 1 crc)"

definition mb_crc_byte :: "u8 \<Rightarrow> u16 \<Rightarrow> u16" where
  "mb_crc_byte b crc = (mb_crc_bit ^^ 8) (crc XOR ucast b)"

definition mb_crc16 :: "u8 list \<Rightarrow> u16 \<Rightarrow> u16 option" where
  "mb_crc16 buffer length' = do {
     bs \<leftarrow> mem_read buffer 0 (unat length');
     Some (fold mb_crc_byte bs 0xFFFF) }"

subsection \<open>Initialisation\<close>

text \<open>A baud rate of 0 is a division by zero.\<close>

definition mb_slave_init ::
  "mb_slave option \<Rightarrow> u8 \<Rightarrow> u32 \<Rightarrow> (int \<times> mb_slave option) option" where
  "mb_slave_init slave address baudrate =
     (case slave of
        None \<Rightarrow> Some (-1, None)
      | Some s \<Rightarrow>
          if address > 247 then Some (-1, slave)
          else if baudrate = 0 then None
          else
            (let t = 38500 div baudrate + 1 in
             Some (0, Some
               \<lparr>ms_address = address, ms_baudrate = baudrate,
                ms_coils = replicate (MB_COIL_COUNT div 8 + 1) 0,
                ms_discrete = replicate (MB_DISCRETE_COUNT div 8 + 1) 0,
                ms_input_regs = replicate MB_INPUT_REG_COUNT 0,
                ms_holding_regs = replicate MB_HOLDING_REG_COUNT 0,
                ms_rx_buffer = replicate MB_RX_BUFFER_SIZE 0, ms_rx_count = 0,
                ms_tx_buffer = replicate MB_TX_BUFFER_SIZE 0, ms_tx_count = 0,
                ms_last_rx_time = 0, ms_frame_timeout = (if t < 2 then 2 else t),
                ms_request_count = 0, ms_exception_count = 0, ms_crc_error_count = 0,
                ms_on_coil_write = None, ms_on_register_write = None,
                ms_trace = ms_trace s\<rparr>)))"

subsection \<open>Data access\<close>

definition mb_slave_set_coil :: "mb_slave \<Rightarrow> u16 \<Rightarrow> bool \<Rightarrow> (int \<times> mb_slave) option" where
  "mb_slave_set_coil s address value =
     (if MB_COIL_COUNT \<le> unat address then Some (-1, s)
      else do {
        let byte_idx = unat address div 8;
        let bit_idx = unat address mod 8;
        b \<leftarrow> mem_load (ms_coils s) byte_idx;
        coils \<leftarrow> mem_store (ms_coils s) byte_idx
                  (if value then b OR push_bit bit_idx 1 else b AND NOT (push_bit bit_idx 1));
        let s1 = s\<lparr>ms_coils := coils\<rparr>;
        Some (0, (case ms_on_coil_write s of
                    Some cb \<Rightarrow> s1\<lparr>ms_trace := ms_trace s1 @ [CoilWritten cb address value]\<rparr>
                  | None \<Rightarrow> s1)) })"

definition mb_slave_get_coil :: "mb_slave \<Rightarrow> u16 \<Rightarrow> bool option" where
  "mb_slave_get_coil s address =
     (if MB_COIL_COUNT \<le> unat address then Some False
      else do {
        b \<leftarrow> mem_load (ms_coils s) (unat address div 8);
        Some (b AND push_bit (unat address mod 8) 1 \<noteq> 0) })"

definition mb_slave_set_discrete :: "mb_slave \<Rightarrow> u16 \<Rightarrow> bool \<Rightarrow> (int \<times> mb_slave) option" where
  "mb_slave_set_discrete s address value =
     (if MB_DISCRETE_COUNT \<le> unat address then Some (-1, s)
      else do {
        let byte_idx = unat address div 8;
        let bit_idx = unat address mod 8;
        b \<leftarrow> mem_load (ms_discrete s) byte_idx;
        d \<leftarrow> mem_store (ms_discrete s) byte_idx
              (if value then b OR push_bit bit_idx 1 else b AND NOT (push_bit bit_idx 1));
        Some (0, s\<lparr>ms_discrete := d\<rparr>) })"

definition mb_slave_get_discrete :: "mb_slave \<Rightarrow> u16 \<Rightarrow> bool option" where
  "mb_slave_get_discrete s address =
     (if MB_DISCRETE_COUNT \<le> unat address then Some False
      else do {
        b \<leftarrow> mem_load (ms_discrete s) (unat address div 8);
        Some (b AND push_bit (unat address mod 8) 1 \<noteq> 0) })"

definition mb_slave_set_input_register :: "mb_slave \<Rightarrow> u16 \<Rightarrow> u16 \<Rightarrow> (int \<times> mb_slave) option" where
  "mb_slave_set_input_register s address value =
     (if MB_INPUT_REG_COUNT \<le> unat address then Some (-1, s)
      else do {
        regs \<leftarrow> mem_store (ms_input_regs s) (unat address) value;
        Some (0, s\<lparr>ms_input_regs := regs\<rparr>) })"

definition mb_slave_get_input_register :: "mb_slave \<Rightarrow> u16 \<Rightarrow> u16 option" where
  "mb_slave_get_input_register s address =
     (if MB_INPUT_REG_COUNT \<le> unat address then Some 0
      else mem_load (ms_input_regs s) (unat address))"

definition mb_slave_set_holding_register :: "mb_slave \<Rightarrow> u16 \<Rightarrow> u16 \<Rightarrow> (int \<times> mb_slave) option" where
  "mb_slave_set_holding_register s address value =
     (if MB_HOLDING_REG_COUNT \<le> unat address then Some (-1, s)
      else do {
        regs \<leftarrow> mem_store (ms_holding_regs s) (unat address) value;
        let s1 = s\<lparr>ms_holding_regs := regs\<rparr>;
        Some (0, (case ms_on_register_write s of
                    Some cb \<Rightarrow> s1\<lparr>ms_trace := ms_trace s1 @ [RegisterWritten cb address value]\<rparr>
                  | None \<Rightarrow> s1)) })"

definition mb_slave_get_holding_register :: "mb_slave \<Rightarrow> u16 \<Rightarrow> u16 option" where
  "mb_slave_get_holding_register s address =
     (if MB_HOLDING_REG_COUNT \<le> unat address then Some 0
      else mem_load (ms_holding_regs s) (unat address))"

definition mb_slave_set_coil_callback :: "mb_slave \<Rightarrow> nat option \<Rightarrow> mb_slave" where
  "mb_slave_set_coil_callback s callback = s\<lparr>ms_on_coil_write := callback\<rparr>"

definition mb_slave_set_register_callback :: "mb_slave \<Rightarrow> nat option \<Rightarrow> mb_slave" where
  "mb_slave_set_register_callback s callback = s\<lparr>ms_on_register_write := callback\<rparr>"

definition mb_slave_get_stats ::
  "mb_slave \<Rightarrow> u32 option \<Rightarrow> u32 option \<Rightarrow> u32 option
   \<Rightarrow> u32 option \<times> u32 option \<times> u32 option" where
  "mb_slave_get_stats s requests exceptions crc_errors =
     (map_option (\<lambda>_. ms_request_count s) requests,
      map_option (\<lambda>_. ms_exception_count s) exceptions,
      map_option (\<lambda>_. ms_crc_error_count s) crc_errors)"

definition mb_slave_reset_stats :: "mb_slave \<Rightarrow> mb_slave" where
  "mb_slave_reset_stats s =
     s\<lparr>ms_request_count := 0, ms_exception_count := 0, ms_crc_error_count := 0\<rparr>"

subsection \<open>Responses\<close>

definition mb_send_response :: "mb_slave \<Rightarrow> u16 \<Rightarrow> mb_slave option" where
  "mb_send_response s length' = do {
     crc \<leftarrow> mb_crc16 (ms_tx_buffer s) length';
     tx1 \<leftarrow> mem_store (ms_tx_buffer s) (unat length') (ucast crc);
     tx2 \<leftarrow> mem_store tx1 (unat length' + 1) (ucast (drop_bit 8 crc));
     let count = length' + 2;
     frame \<leftarrow> mem_read tx2 0 (unat count);
     Some (s\<lparr>ms_tx_buffer := tx2, ms_tx_count := count,
             ms_trace := ms_trace s @ [UartSend frame]\<rparr>) }"

definition mb_send_exception :: "mb_slave \<Rightarrow> u8 \<Rightarrow> mb_exception \<Rightarrow> mb_slave option" where
  "mb_send_exception s function' exception = do {
     tx \<leftarrow> mem_write (ms_tx_buffer s) 0
            [ms_address s, function' OR 0x80, mb_exception_code exception];
     mb_send_response (s\<lparr>ms_tx_buffer := tx\<rparr>) 3 }"

subsection \<open>Function codes\<close>

text \<open>Two bytes of the received frame, high byte first.\<close>

definition mb_rx16 :: "mb_slave \<Rightarrow> nat \<Rightarrow> u16 option" where
  "mb_rx16 s i = do {
     hi \<leftarrow> mem_load (ms_rx_buffer s) i;
     lo \<leftarrow> mem_load (ms_rx_buffer s) (i + 1);
     Some (push_bit 8 (ucast hi) OR ucast lo) }"

text \<open>One byte of packed bits: the inner loop of the two bit-reading functions.\<close>

fun mb_pack_byte ::
  "(u16 \<Rightarrow> bool option) \<Rightarrow> u16 \<Rightarrow> u16 \<Rightarrow> nat \<Rightarrow> nat list \<Rightarrow> u8 \<Rightarrow> u8 option" where
  "mb_pack_byte get start quantity i [] byte = Some byte"
| "mb_pack_byte get start quantity i (k # ks) byte =
     (if i * 8 + k < unat quantity then do {
        v \<leftarrow> get (of_nat (unat start + i * 8 + k));
        mb_pack_byte get start quantity i ks (if v then byte OR push_bit k 1 else byte) }
      else Some byte)"

fun mb_pack_bytes ::
  "(u16 \<Rightarrow> bool option) \<Rightarrow> u16 \<Rightarrow> u16 \<Rightarrow> nat list \<Rightarrow> u8 list \<Rightarrow> u8 list option" where
  "mb_pack_bytes get start quantity [] tx = Some tx"
| "mb_pack_bytes get start quantity (i # is) tx = do {
     byte \<leftarrow> mb_pack_byte get start quantity i [0..<8] 0;
     tx' \<leftarrow> mem_store tx (3 + i) byte;
     mb_pack_bytes get start quantity is tx' }"

definition mb_process_read_coils :: "mb_slave \<Rightarrow> (mb_exception \<times> mb_slave) option" where
  "mb_process_read_coils s =
     (if unat (ms_rx_count s) < 6 then Some (MB_EX_ILLEGAL_DATA_VALUE, s)
      else do {
        start_addr \<leftarrow> mb_rx16 s 2;
        quantity \<leftarrow> mb_rx16 s 4;
        if quantity < 1 \<or> quantity > 2000 then Some (MB_EX_ILLEGAL_DATA_VALUE, s)
        else if unat start_addr + unat quantity > MB_COIL_COUNT
        then Some (MB_EX_ILLEGAL_DATA_ADDRESS, s)
        else do {
          let byte_count = (of_nat ((unat quantity + 7) div 8) :: u8);
          tx1 \<leftarrow> mem_write (ms_tx_buffer s) 0 [ms_address s, 0x01, byte_count];
          tx2 \<leftarrow> mb_pack_bytes (mb_slave_get_coil s) start_addr quantity
                  [0..<unat byte_count] tx1;
          s' \<leftarrow> mb_send_response (s\<lparr>ms_tx_buffer := tx2\<rparr>) (3 + ucast byte_count);
          Some (MB_EX_NONE, s') } })"

definition mb_process_read_discrete :: "mb_slave \<Rightarrow> (mb_exception \<times> mb_slave) option" where
  "mb_process_read_discrete s =
     (if unat (ms_rx_count s) < 6 then Some (MB_EX_ILLEGAL_DATA_VALUE, s)
      else do {
        start_addr \<leftarrow> mb_rx16 s 2;
        quantity \<leftarrow> mb_rx16 s 4;
        if quantity < 1 \<or> quantity > 2000 then Some (MB_EX_ILLEGAL_DATA_VALUE, s)
        else if unat start_addr + unat quantity > MB_DISCRETE_COUNT
        then Some (MB_EX_ILLEGAL_DATA_ADDRESS, s)
        else do {
          let byte_count = (of_nat ((unat quantity + 7) div 8) :: u8);
          tx1 \<leftarrow> mem_write (ms_tx_buffer s) 0 [ms_address s, 0x02, byte_count];
          tx2 \<leftarrow> mb_pack_bytes (mb_slave_get_discrete s) start_addr quantity
                  [0..<unat byte_count] tx1;
          s' \<leftarrow> mb_send_response (s\<lparr>ms_tx_buffer := tx2\<rparr>) (3 + ucast byte_count);
          Some (MB_EX_NONE, s') } })"

text \<open>The register loops of the two register-reading functions.\<close>

fun mb_put_registers ::
  "(u16 \<Rightarrow> u16 option) \<Rightarrow> u16 \<Rightarrow> nat list \<Rightarrow> u8 list \<Rightarrow> u8 list option" where
  "mb_put_registers get start [] tx = Some tx"
| "mb_put_registers get start (i # is) tx = do {
     value \<leftarrow> get (of_nat (unat start + i));
     tx1 \<leftarrow> mem_store tx (3 + i * 2) (ucast (drop_bit 8 value));
     tx2 \<leftarrow> mem_store tx1 (4 + i * 2) (ucast value);
     mb_put_registers get start is tx2 }"

definition mb_process_read_holding_registers ::
  "mb_slave \<Rightarrow> (mb_exception \<times> mb_slave) option" where
  "mb_process_read_holding_registers s =
     (if unat (ms_rx_count s) < 6 then Some (MB_EX_ILLEGAL_DATA_VALUE, s)
      else do {
        start_addr \<leftarrow> mb_rx16 s 2;
        quantity \<leftarrow> mb_rx16 s 4;
        if quantity < 1 \<or> quantity > 125 then Some (MB_EX_ILLEGAL_DATA_VALUE, s)
        else if unat start_addr + unat quantity > MB_HOLDING_REG_COUNT
        then Some (MB_EX_ILLEGAL_DATA_ADDRESS, s)
        else do {
          tx1 \<leftarrow> mem_write (ms_tx_buffer s) 0
                  [ms_address s, 0x03, of_nat (unat quantity * 2)];
          tx2 \<leftarrow> mb_put_registers (mb_slave_get_holding_register s) start_addr
                  [0..<unat quantity] tx1;
          s' \<leftarrow> mb_send_response (s\<lparr>ms_tx_buffer := tx2\<rparr>) (3 + quantity * 2);
          Some (MB_EX_NONE, s') } })"

definition mb_process_read_input_registers ::
  "mb_slave \<Rightarrow> (mb_exception \<times> mb_slave) option" where
  "mb_process_read_input_registers s =
     (if unat (ms_rx_count s) < 6 then Some (MB_EX_ILLEGAL_DATA_VALUE, s)
      else do {
        start_addr \<leftarrow> mb_rx16 s 2;
        quantity \<leftarrow> mb_rx16 s 4;
        if quantity < 1 \<or> quantity > 125 then Some (MB_EX_ILLEGAL_DATA_VALUE, s)
        else if unat start_addr + unat quantity > MB_INPUT_REG_COUNT
        then Some (MB_EX_ILLEGAL_DATA_ADDRESS, s)
        else do {
          tx1 \<leftarrow> mem_write (ms_tx_buffer s) 0
                  [ms_address s, 0x04, of_nat (unat quantity * 2)];
          tx2 \<leftarrow> mb_put_registers (mb_slave_get_input_register s) start_addr
                  [0..<unat quantity] tx1;
          s' \<leftarrow> mb_send_response (s\<lparr>ms_tx_buffer := tx2\<rparr>) (3 + quantity * 2);
          Some (MB_EX_NONE, s') } })"

text \<open>The echo of the first six received bytes.\<close>

definition mb_send_echo :: "mb_slave \<Rightarrow> mb_slave option" where
  "mb_send_echo s = do {
     req \<leftarrow> mem_read (ms_rx_buffer s) 0 6;
     tx \<leftarrow> mem_write (ms_tx_buffer s) 0 req;
     mb_send_response (s\<lparr>ms_tx_buffer := tx\<rparr>) 6 }"

definition mb_process_write_single_coil :: "mb_slave \<Rightarrow> (mb_exception \<times> mb_slave) option" where
  "mb_process_write_single_coil s =
     (if unat (ms_rx_count s) < 6 then Some (MB_EX_ILLEGAL_DATA_VALUE, s)
      else do {
        address \<leftarrow> mb_rx16 s 2;
        value \<leftarrow> mb_rx16 s 4;
        if value \<noteq> 0x0000 \<and> value \<noteq> 0xFF00 then Some (MB_EX_ILLEGAL_DATA_VALUE, s)
        else if MB_COIL_COUNT \<le> unat address then Some (MB_EX_ILLEGAL_DATA_ADDRESS, s)
        else do {
          (_, s1) \<leftarrow> mb_slave_set_coil s address (value = 0xFF00);
          s' \<leftarrow> mb_send_echo s1;
          Some (MB_EX_NONE, s') } })"

definition mb_process_write_single_register :: "mb_slave \<Rightarrow> (mb_exception \<times> mb_slave) option" where
  "mb_process_write_single_register s =
     (if unat (ms_rx_count s) < 6 then Some (MB_EX_ILLEGAL_DATA_VALUE, s)
      else do {
        address \<leftarrow> mb_rx16 s 2;
        value \<leftarrow> mb_rx16 s 4;
        if MB_HOLDING_REG_COUNT \<le> unat address then Some (MB_EX_ILLEGAL_DATA_ADDRESS, s)
        else do {
          (_, s1) \<leftarrow> mb_slave_set_holding_register s address value;
          s' \<leftarrow> mb_send_echo s1;
          Some (MB_EX_NONE, s') } })"

fun mb_write_coils :: "u16 \<Rightarrow> nat list \<Rightarrow> mb_slave \<Rightarrow> mb_slave option" where
  "mb_write_coils start [] s = Some s"
| "mb_write_coils start (i # is) s = do {
     b \<leftarrow> mem_load (ms_rx_buffer s) (7 + unat (of_nat (i div 8) :: u8));
     (_, s') \<leftarrow> mb_slave_set_coil s (of_nat (unat start + i)) (b AND push_bit (i mod 8) 1 \<noteq> 0);
     mb_write_coils start is s' }"

text \<open>The response to the two multiple-write functions.\<close>

definition mb_send_range :: "mb_slave \<Rightarrow> u8 \<Rightarrow> u16 \<Rightarrow> u16 \<Rightarrow> mb_slave option" where
  "mb_send_range s fc start_addr quantity = do {
     tx \<leftarrow> mem_write (ms_tx_buffer s) 0
            [ms_address s, fc, ucast (drop_bit 8 start_addr), ucast start_addr,
             ucast (drop_bit 8 quantity), ucast quantity];
     mb_send_response (s\<lparr>ms_tx_buffer := tx\<rparr>) 6 }"

definition mb_process_write_multiple_coils :: "mb_slave \<Rightarrow> (mb_exception \<times> mb_slave) option" where
  "mb_process_write_multiple_coils s =
     (if unat (ms_rx_count s) < 7 then Some (MB_EX_ILLEGAL_DATA_VALUE, s)
      else do {
        start_addr \<leftarrow> mb_rx16 s 2;
        quantity \<leftarrow> mb_rx16 s 4;
        byte_count \<leftarrow> mem_load (ms_rx_buffer s) 6;
        if quantity < 1 \<or> quantity > 1968 then Some (MB_EX_ILLEGAL_DATA_VALUE, s)
        else if unat byte_count \<noteq> (unat quantity + 7) div 8
        then Some (MB_EX_ILLEGAL_DATA_VALUE, s)
        else if unat start_addr + unat quantity > MB_COIL_COUNT
        then Some (MB_EX_ILLEGAL_DATA_ADDRESS, s)
        else if unat (ms_rx_count s) < 7 + unat byte_count
        then Some (MB_EX_ILLEGAL_DATA_VALUE, s)
        else do {
          s1 \<leftarrow> mb_write_coils start_addr [0..<unat quantity] s;
          s' \<leftarrow> mb_send_range s1 0x0F start_addr quantity;
          Some (MB_EX_NONE, s') } })"

fun mb_write_registers :: "u16 \<Rightarrow> nat list \<Rightarrow> mb_slave \<Rightarrow> mb_slave option" where
  "mb_write_registers start [] s = Some s"
| "mb_write_registers start (i # is) s = do {
     value \<leftarrow> mb_rx16 s (7 + i * 2);
     (_, s') \<leftarrow> mb_slave_set_holding_register s (of_nat (unat start + i)) value;
     mb_write_registers start is s' }"

definition mb_process_write_multiple_registers ::
  "mb_slave \<Rightarrow> (mb_exception \<times> mb_slave) option" where
  "mb_process_write_multiple_registers s =
     (if unat (ms_rx_count s) < 7 then Some (MB_EX_ILLEGAL_DATA_VALUE, s)
      else do {
        start_addr \<leftarrow> mb_rx16 s 2;
        quantity \<leftarrow> mb_rx16 s 4;
        byte_count \<leftarrow> mem_load (ms_rx_buffer s) 6;
        if quantity < 1 \<or> quantity > 123 then Some (MB_EX_ILLEGAL_DATA_VALUE, s)
        else if unat byte_count \<noteq> unat quantity * 2 then Some (MB_EX_ILLEGAL_DATA_VALUE, s)
        else if unat start_addr + unat quantity > MB_HOLDING_REG_COUNT
        then Some (MB_EX_ILLEGAL_DATA_ADDRESS, s)
        else if unat (ms_rx_count s) < 7 + unat byte_count
        then Some (MB_EX_ILLEGAL_DATA_VALUE, s)
        else do {
          s1 \<leftarrow> mb_write_registers start_addr [0..<unat quantity] s;
          s' \<leftarrow> mb_send_range s1 0x10 start_addr quantity;
          Some (MB_EX_NONE, s') } })"

subsection \<open>Frames\<close>

definition mb_dispatch :: "u8 \<Rightarrow> mb_slave \<Rightarrow> (mb_exception \<times> mb_slave) option" where
  "mb_dispatch function' s =
     (if function' = 0x01 then mb_process_read_coils s
      else if function' = 0x02 then mb_process_read_discrete s
      else if function' = 0x03 then mb_process_read_holding_registers s
      else if function' = 0x04 then mb_process_read_input_registers s
      else if function' = 0x05 then mb_process_write_single_coil s
      else if function' = 0x06 then mb_process_write_single_register s
      else if function' = 0x0F then mb_process_write_multiple_coils s
      else if function' = 0x10 then mb_process_write_multiple_registers s
      else Some (MB_EX_ILLEGAL_FUNCTION, s))"

definition mb_slave_process_frame :: "mb_slave \<Rightarrow> mb_slave option" where
  "mb_slave_process_frame s =
     (if unat (ms_rx_count s) < 4 then Some s
      else do {
        address \<leftarrow> mem_load (ms_rx_buffer s) 0;
        if address \<noteq> ms_address s \<and> address \<noteq> 0 then Some s
        else do {
          hi \<leftarrow> mem_load (ms_rx_buffer s) (unat (ms_rx_count s) - 1);
          lo \<leftarrow> mem_load (ms_rx_buffer s) (unat (ms_rx_count s) - 2);
          calculated_crc \<leftarrow> mb_crc16 (ms_rx_buffer s) (ms_rx_count s - 2);
          if push_bit 8 (ucast hi) OR ucast lo \<noteq> calculated_crc
          then Some (s\<lparr>ms_crc_error_count := ms_crc_error_count s + 1\<rparr>)
          else do {
            let s1 = s\<lparr>ms_request_count := ms_request_count s + 1\<rparr>;
            if address = 0 then Some s1
            else do {
              function' \<leftarrow> mem_load (ms_rx_buffer s1) 1;
              (exception, s2) \<leftarrow> mb_dispatch function' s1;
              if exception \<noteq> MB_EX_NONE then do {
                s3 \<leftarrow> mb_send_exception s2 function' exception;
                Some (s3\<lparr>ms_exception_count := ms_exception_count s3 + 1\<rparr>) }
              else Some s2 } } } })"

subsection \<open>Reception\<close>

definition mb_slave_receive_byte :: "u32 \<Rightarrow> mb_slave \<Rightarrow> u8 \<Rightarrow> mb_slave option" where
  "mb_slave_receive_byte current_time s data = do {
     let s1 = (if ms_rx_count s > 0 \<and> current_time - ms_last_rx_time s > ms_frame_timeout s
               then s\<lparr>ms_rx_count := 0\<rparr> else s);
     let s2 = s1\<lparr>ms_last_rx_time := current_time\<rparr>;
     if unat (ms_rx_count s2) < MB_RX_BUFFER_SIZE then do {
       rx \<leftarrow> mem_store (ms_rx_buffer s2) (unat (ms_rx_count s2)) data;
       Some (s2\<lparr>ms_rx_buffer := rx, ms_rx_count := ms_rx_count s2 + 1\<rparr>) }
     else Some (s2\<lparr>ms_rx_count := 0\<rparr>) }"

definition mb_slave_poll :: "mb_slave \<Rightarrow> u32 \<Rightarrow> mb_slave option" where
  "mb_slave_poll s current_time =
     (if ms_rx_count s > 0 \<and> current_time - ms_last_rx_time s \<ge> ms_frame_timeout s then do {
        s' \<leftarrow> mb_slave_process_frame s;
        Some (s'\<lparr>ms_rx_count := 0\<rparr>) }
      else Some s)"

end
