(* ===== verification/Mb_Crc.thy ===== *)
theory Mb_Crc
  imports Mb_Slave Xy_Tlv
begin

text \<open>
  The CRC of the Modbus slave: the shift register step is a permutation of the 16-bit states,
  so two messages that differ in one byte have different CRCs; a message followed by its CRC,
  low byte first, leaves the register at zero; and \<open>xy_tlv_checksum\<close> is the same function.
\<close>

abbreviation mb_crc :: "u8 list \<Rightarrow> u16" where
  "mb_crc bs \<equiv> fold mb_crc_byte bs 0xFFFF"

definition mb_crc_tail :: "u16 \<Rightarrow> u8 list" where
  "mb_crc_tail crc = [ucast crc, ucast (drop_bit 8 crc)]"

subsection \<open>The step is injective\<close>

lemma odd_u16: "(x::u16) AND 1 \<noteq> 0 \<longleftrightarrow> bit x 0"
  by (simp add: and_one_eq odd_iff_mod_2_eq_one bit_0)

lemma bit_poly_15: "bit (0xA001 :: u16) 15"
  by simp

lemma mb_crc_bit_top: "bit (mb_crc_bit x) 15 \<longleftrightarrow> bit x 0"
  using bit_poly_15 by (simp add: mb_crc_bit_def odd_u16 bit_xor_iff bit_drop_bit_eq)

lemma xor_right_cancel: "(x::'a::len word) XOR z = y XOR z \<longleftrightarrow> x = y"
  by (metis xor.assoc xor.right_neutral xor_self_eq)

lemma xor_left_cancel: "z XOR (x::'a::len word) = z XOR y \<longleftrightarrow> x = y"
  by (metis xor.assoc xor.left_neutral xor_self_eq)

lemma mb_crc_bit_inj: "mb_crc_bit x = mb_crc_bit y \<Longrightarrow> x = y"
proof -
  assume eq: "mb_crc_bit x = mb_crc_bit y"
  then have low: "bit x 0 = bit y 0" using mb_crc_bit_top by metis
  then have "drop_bit 1 x = drop_bit 1 y"
    using eq by (auto simp: mb_crc_bit_def odd_u16 xor_right_cancel split: if_splits)
  then have "bit x (Suc n) = bit y (Suc n)" for n
    by (metis bit_drop_bit_eq plus_1_eq_Suc comp_apply)
  then show "x = y"
    using low by (intro bit_word_eqI) (metis not0_implies_Suc)
qed

lemma mb_crc_shift_inj: "(mb_crc_bit ^^ n) x = (mb_crc_bit ^^ n) y \<Longrightarrow> x = y"
  by (induction n arbitrary: x y) (auto dest: mb_crc_bit_inj)

lemma mb_crc_byte_inj: "mb_crc_byte b x = mb_crc_byte b y \<Longrightarrow> x = y"
  unfolding mb_crc_byte_def by (drule mb_crc_shift_inj) (simp add: xor_right_cancel)

lemma ucast_u8_u16_inj: "(ucast (a::u8) :: u16) = ucast b \<Longrightarrow> a = b"
proof (rule u8_eqI)
  fix n :: nat
  assume eq: "(ucast a :: u16) = ucast b" and "n < 8"
  have "bit (ucast a :: u16) n = bit (ucast b :: u16) n" by (simp only: eq)
  then show "bit a n = bit b n" using \<open>n < 8\<close> by (simp add: bit_ucast_iff)
qed

lemma mb_crc_byte_inj_data: "mb_crc_byte a x = mb_crc_byte b x \<Longrightarrow> a = b"
  unfolding mb_crc_byte_def
  by (drule mb_crc_shift_inj) (auto simp: xor_left_cancel dest: ucast_u8_u16_inj)

lemma mb_crc_fold_inj: "fold mb_crc_byte bs x = fold mb_crc_byte bs y \<Longrightarrow> x = y"
  by (induction bs arbitrary: x y) (auto dest: mb_crc_byte_inj)

lemma mb_crc_one_byte:
  "a \<noteq> b \<Longrightarrow> fold mb_crc_byte (xs @ a # ys) c \<noteq> fold mb_crc_byte (xs @ b # ys) c"
  by (auto dest!: mb_crc_fold_inj mb_crc_byte_inj_data)

subsection \<open>The residue\<close>

lemma mb_crc_shift_zeros:
  "(\<forall>i < n. \<not> bit x i) \<Longrightarrow> (mb_crc_bit ^^ n) x = drop_bit n x"
proof (induction n arbitrary: x)
  case (Suc n)
  have "mb_crc_bit x = drop_bit 1 x"
    using Suc.prems by (simp add: mb_crc_bit_def odd_u16)
  moreover have "\<forall>i < n. \<not> bit (drop_bit 1 x) i"
    using Suc.prems by (simp add: bit_drop_bit_eq)
  ultimately show ?case
    using Suc.IH by (simp add: funpow_Suc_right del: funpow.simps)
qed simp

lemma mb_crc_low_byte: "mb_crc_byte (ucast crc) crc = drop_bit 8 crc"
proof -
  have "\<forall>i < 8. \<not> bit (crc XOR ucast (ucast crc :: u8)) i"
    by (auto simp: bit_simps)
  then have "mb_crc_byte (ucast crc) crc = drop_bit 8 (crc XOR ucast (ucast crc :: u8))"
    unfolding mb_crc_byte_def by (rule mb_crc_shift_zeros)
  also have "\<dots> = drop_bit 8 crc"
    by (rule u16_eqI) (auto simp: bit_simps)
  finally show ?thesis .
qed

lemma mb_crc_high_byte: "mb_crc_byte (ucast (drop_bit 8 crc)) (drop_bit 8 crc) = 0"
proof -
  have "drop_bit 8 crc XOR ucast (ucast (drop_bit 8 crc) :: u8) = 0"
    by (rule u16_eqI) (auto simp: bit_simps dest: bit_imp_le_length)
  moreover have "(mb_crc_bit ^^ 8) 0 = 0" by (subst mb_crc_shift_zeros) simp_all
  ultimately show ?thesis by (simp add: mb_crc_byte_def)
qed

lemma mb_crc_residue: "mb_crc (bs @ mb_crc_tail (mb_crc bs)) = 0"
  by (simp add: mb_crc_tail_def mb_crc_low_byte mb_crc_high_byte)

lemma mb_crc_word_tail: "push_bit 8 (ucast (ucast (drop_bit 8 c) :: u8)) OR ucast (ucast c :: u8) = (c::u16)"
  by (rule bit_word_eqI, simp only: bit_bytes) auto

lemma mb_crc_tail_word:
  "push_bit 8 (ucast hi) OR ucast lo = c \<longleftrightarrow> [lo, hi] = mb_crc_tail c"
proof
  assume c: "push_bit 8 (ucast hi) OR ucast lo = c"
  have "ucast c = lo" "ucast (drop_bit 8 c) = hi"
    unfolding c [symmetric] by (rule u8_eqI, simp add: bit_simps)+
  then show "[lo, hi] = mb_crc_tail c" by (simp add: mb_crc_tail_def)
next
  assume "[lo, hi] = mb_crc_tail c"
  then show "push_bit 8 (ucast hi) OR ucast lo = c"
    by (simp add: mb_crc_tail_def mb_crc_word_tail)
qed

subsection \<open>The TLV checksum is the same function\<close>

lemma tlv_crc_loop_eq: "tlv_crc_loop c bs = fold mb_crc_byte bs c"
  by (induction bs arbitrary: c)
    (simp_all add: mb_crc_byte_def tlv_crc_bit_def [abs_def] mb_crc_bit_def [abs_def])

lemma mb_crc16_eq: "mb_crc16 buf n = map_option mb_crc (mem_read buf 0 (unat n))"
  by (simp add: mb_crc16_def map_option_case bind_def split: option.splits)

end
