(* ===== verification/Mb_Banks.thy ===== *)
theory Mb_Banks
  imports Mb_Slave
begin

text \<open>
  The four data banks of the slave behind one interface: an indexed store with read-after-write
  laws and a bound check. The handlers of \<open>mb_slave.c\<close> touch the banks only through it.
\<close>

subsection \<open>The interface\<close>

locale register_bank =
  fixes set_at :: "'s \<Rightarrow> u16 \<Rightarrow> 'v \<Rightarrow> (int \<times> 's) option"
    and get_at :: "'s \<Rightarrow> u16 \<Rightarrow> 'v option"
    and count :: nat
    and invar :: "'s \<Rightarrow> bool"
  assumes count_u16: "count \<le> 65535"
    and get_defined: "invar s \<Longrightarrow> \<exists>v. get_at s a = Some v"
    and set_in: "invar s \<Longrightarrow> unat a < count \<Longrightarrow>
      \<exists>s'. set_at s a v = Some (0, s') \<and> invar s' \<and> get_at s' a = Some v
        \<and> (\<forall>b. b \<noteq> a \<longrightarrow> get_at s' b = get_at s b)"
    and set_out: "invar s \<Longrightarrow> count \<le> unat a \<Longrightarrow> set_at s a v = Some (-1, s)"
begin

text \<open>A loop that writes values to consecutive addresses, and one that reads them.\<close>

fun write_range :: "u16 \<Rightarrow> nat \<Rightarrow> 'v list \<Rightarrow> 's \<Rightarrow> 's option" where
  "write_range start i [] s = Some s"
| "write_range start i (v # vs) s = do {
     (_, s') \<leftarrow> set_at s (of_nat (unat start + i)) v;
     write_range start (Suc i) vs s' }"

fun read_range :: "u16 \<Rightarrow> nat list \<Rightarrow> 's \<Rightarrow> 'v list option" where
  "read_range start [] s = Some []"
| "read_range start (i # is) s = do {
     v \<leftarrow> get_at s (of_nat (unat start + i)); vs \<leftarrow> read_range start is s; Some (v # vs) }"

lemma write_range_in:
  assumes "invar s" and "unat start + i + length vs \<le> count"
  shows "\<exists>s'. write_range start i vs s = Some s' \<and> invar s'
    \<and> (\<forall>k < length vs. get_at s' (of_nat (unat start + i + k)) = Some (vs ! k))
    \<and> (\<forall>b. unat b < unat start + i \<or> unat start + i + length vs \<le> unat b \<longrightarrow>
          get_at s' b = get_at s b)"
  using assms
proof (induction vs arbitrary: s i)
  case (Cons v vs)
  let ?a = "of_nat (unat start + i) :: u16"
  have a: "unat ?a = unat start + i"
    using Cons.prems(2) count_u16 by (intro unat_of_nat_u16) simp
  obtain s1 where s1: "set_at s ?a v = Some (0, s1)" "invar s1" "get_at s1 ?a = Some v"
    "\<forall>b. b \<noteq> ?a \<longrightarrow> get_at s1 b = get_at s b"
    using set_in [OF Cons.prems(1), of ?a v] Cons.prems(2) a by auto
  obtain s' where s': "write_range start (Suc i) vs s1 = Some s'" "invar s'"
    "\<forall>k < length vs. get_at s' (of_nat (unat start + Suc i + k)) = Some (vs ! k)"
    "\<forall>b. unat b < unat start + Suc i \<or> unat start + Suc i + length vs \<le> unat b \<longrightarrow>
       get_at s' b = get_at s1 b"
    using Cons.IH [OF s1(2), of "Suc i"] Cons.prems(2) by auto
  have "get_at s' (of_nat (unat start + i + k)) = Some ((v # vs) ! k)" if "k < length (v # vs)" for k
  proof (cases k)
    case 0
    then show ?thesis using s'(4) s1(3) a by simp
  next
    case (Suc m)
    then have "get_at s' (of_nat (unat start + Suc i + m)) = Some (vs ! m)"
      using s'(3) that by simp
    moreover have "unat start + Suc i + m = unat start + i + k" using Suc by simp
    ultimately show ?thesis using Suc by simp
  qed
  moreover have "get_at s' b = get_at s b"
    if "unat b < unat start + i \<or> unat start + i + length (v # vs) \<le> unat b" for b
  proof -
    have "b \<noteq> ?a" using that a by auto
    then show ?thesis using s'(4) s1(4) that by auto
  qed
  moreover have "write_range start i (v # vs) s = Some s'" using s1(1) s'(1) by simp
  ultimately show ?case using s'(2) by blast
qed simp

lemma read_range_defined: "invar s \<Longrightarrow> \<exists>vs. read_range start is s = Some vs \<and> length vs = length is"
  by (induction "is") (use get_defined in \<open>force simp: bind_eq_Some\<close>)+

lemma read_range_nth:
  "read_range start is s = Some vs \<longleftrightarrow> length vs = length is
     \<and> (\<forall>k < length is. get_at s (of_nat (unat start + is ! k)) = Some (vs ! k))"
proof (induction "is" arbitrary: vs)
  case (Cons i "is")
  show ?case
    by (cases vs) (auto simp: Cons.IH less_Suc_eq_0_disj)
qed auto

text \<open>Reading back a range that was written.\<close>

lemma write_read_range:
  assumes "invar s" and "unat start + length vs \<le> count"
  shows "\<exists>s'. write_range start 0 vs s = Some s' \<and> invar s'
    \<and> read_range start [0..<length vs] s' = Some vs"
  using write_range_in [OF assms(1), of start 0 vs] assms(2)
  by (auto simp: read_range_nth)

end

subsection \<open>Bits in bytes\<close>

lemma u8_single_bit [simp]: "(b::u8) AND 2 ^ k = 0 \<longleftrightarrow> \<not> bit b k"
proof
  assume "b AND 2 ^ k = 0"
  then have "\<not> bit (b AND 2 ^ k) k" by simp
  then show "\<not> bit b k"
    using bit_imp_le_length [of b k] by (auto simp: bit_simps)
next
  assume "\<not> bit b k"
  then show "b AND 2 ^ k = 0"
    by (intro bit_word_eqI) (auto simp: bit_simps)
qed

lemma u8_set_bit:
  "k < 8 \<Longrightarrow> bit (if v then (b::u8) OR push_bit k 1 else b AND NOT (push_bit k 1)) j
     \<longleftrightarrow> (if j = k then v else bit b j)"
  by (cases "j < 8")
    (auto simp: bit_simps)

definition bits_at :: "u8 list \<Rightarrow> nat \<Rightarrow> bool" where
  "bits_at bs a \<longleftrightarrow> bit (bs ! (a div 8)) (a mod 8)"

lemma bits_at_update:
  assumes "a div 8 < length bs"
  shows "bits_at (bs[a div 8 := (if v then bs ! (a div 8) OR push_bit (a mod 8) 1
                             else bs ! (a div 8) AND NOT (push_bit (a mod 8) 1))]) b
    \<longleftrightarrow> (if b = a then v else bits_at bs b)"
proof (cases "b div 8 = a div 8")
  case True
  then have "b mod 8 = a mod 8 \<longleftrightarrow> b = a" by (metis div_mult_mod_eq)
  then show ?thesis
    using assms True by (simp only: bits_at_def nth_list_update_eq u8_set_bit [of "a mod 8"] mod_less_divisor)
next
  case False
  then show ?thesis using assms by (auto simp: bits_at_def)
qed

subsection \<open>The invariant of the slave\<close>

definition mb_wf :: "mb_slave \<Rightarrow> bool" where
  "mb_wf s \<longleftrightarrow> length (ms_coils s) = 9 \<and> length (ms_discrete s) = 9
     \<and> length (ms_input_regs s) = 32 \<and> length (ms_holding_regs s) = 32
     \<and> length (ms_rx_buffer s) = 256 \<and> length (ms_tx_buffer s) = 256
     \<and> unat (ms_rx_count s) \<le> 256"

lemmas mb_sizes = MB_COIL_COUNT_def MB_DISCRETE_COUNT_def MB_INPUT_REG_COUNT_def
  MB_HOLDING_REG_COUNT_def MB_RX_BUFFER_SIZE_def MB_TX_BUFFER_SIZE_def

subsection \<open>Values of the access functions\<close>

lemma get_coil_eq:
  "mb_wf s \<Longrightarrow> mb_slave_get_coil s a = Some (unat a < 64 \<and> bits_at (ms_coils s) (unat a))"
  by (auto simp: mb_slave_get_coil_def mb_wf_def mem_iff mb_sizes bits_at_def mem_load_def)

lemma get_discrete_eq:
  "mb_wf s \<Longrightarrow> mb_slave_get_discrete s a = Some (unat a < 64 \<and> bits_at (ms_discrete s) (unat a))"
  by (auto simp: mb_slave_get_discrete_def mb_wf_def mem_iff mb_sizes bits_at_def mem_load_def)

lemma get_input_register_eq:
  "mb_wf s \<Longrightarrow> mb_slave_get_input_register s a
     = Some (if unat a < 32 then ms_input_regs s ! unat a else 0)"
  by (auto simp: mb_slave_get_input_register_def mb_wf_def mb_sizes mem_load_def)

lemma get_holding_register_eq:
  "mb_wf s \<Longrightarrow> mb_slave_get_holding_register s a
     = Some (if unat a < 32 then ms_holding_regs s ! unat a else 0)"
  by (auto simp: mb_slave_get_holding_register_def mb_wf_def mb_sizes mem_load_def)

text \<open>
  What the write operations leave alone: everything but their bank and the trace.
\<close>

definition same_but_coils :: "mb_slave \<Rightarrow> mb_slave \<Rightarrow> bool" where
  "same_but_coils s s' \<longleftrightarrow> s' = s\<lparr>ms_coils := ms_coils s', ms_trace := ms_trace s'\<rparr>"

definition same_but_holding :: "mb_slave \<Rightarrow> mb_slave \<Rightarrow> bool" where
  "same_but_holding s s' \<longleftrightarrow> s' = s\<lparr>ms_holding_regs := ms_holding_regs s', ms_trace := ms_trace s'\<rparr>"

lemma set_coil_eq:
  assumes "mb_wf s" and "unat a < 64"
  shows "\<exists>s'. mb_slave_set_coil s a v = Some (0, s') \<and> mb_wf s' \<and> same_but_coils s s'
    \<and> (\<forall>b. bits_at (ms_coils s') b = (if b = unat a then v else bits_at (ms_coils s) b))
    \<and> ms_trace s' = ms_trace s @ (case ms_on_coil_write s of
          Some cb \<Rightarrow> [CoilWritten cb a v] | None \<Rightarrow> [])"
  using assms bits_at_update [of "unat a" "ms_coils s" v]
  by (cases "ms_on_coil_write s")
    (auto simp: mb_slave_set_coil_def mb_wf_def mb_sizes mem_load_def mem_store_def Let_def
      same_but_coils_def)

lemma set_discrete_eq:
  assumes "mb_wf s" and "unat a < 64"
  shows "\<exists>s'. mb_slave_set_discrete s a v = Some (0, s') \<and> mb_wf s'
    \<and> s' = s\<lparr>ms_discrete := ms_discrete s'\<rparr>
    \<and> (\<forall>b. bits_at (ms_discrete s') b = (if b = unat a then v else bits_at (ms_discrete s) b))"
  using assms bits_at_update [of "unat a" "ms_discrete s" v]
  by (auto simp: mb_slave_set_discrete_def mb_wf_def mb_sizes mem_load_def mem_store_def Let_def)

lemma set_holding_register_eq:
  assumes "mb_wf s" and "unat a < 32"
  shows "\<exists>s'. mb_slave_set_holding_register s a v = Some (0, s') \<and> mb_wf s'
    \<and> same_but_holding s s' \<and> ms_holding_regs s' = (ms_holding_regs s)[unat a := v]
    \<and> ms_trace s' = ms_trace s @ (case ms_on_register_write s of
          Some cb \<Rightarrow> [RegisterWritten cb a v] | None \<Rightarrow> [])"
  using assms
  by (cases "ms_on_register_write s")
    (auto simp: mb_slave_set_holding_register_def mb_wf_def mb_sizes mem_store_def Let_def
      same_but_holding_def)

lemma unat_eq_iff: "unat (a::u16) = unat b \<longleftrightarrow> a = b"
  by (auto dest: unsigned_word_eqI)

subsection \<open>The four banks\<close>

interpretation coil_bank: register_bank mb_slave_set_coil mb_slave_get_coil 64 mb_wf
proof unfold_locales
  fix s :: mb_slave and a :: u16 and v :: bool
  assume wf: "mb_wf s"
  then show "\<exists>v. mb_slave_get_coil s a = Some v" by (simp add: get_coil_eq)
  show "\<exists>s'. mb_slave_set_coil s a v = Some (0, s') \<and> mb_wf s' \<and> mb_slave_get_coil s' a = Some v
      \<and> (\<forall>b. b \<noteq> a \<longrightarrow> mb_slave_get_coil s' b = mb_slave_get_coil s b)" if "unat a < 64"
    using set_coil_eq [OF wf that, of v] wf that by (auto simp: get_coil_eq unat_eq_iff)
  show "mb_slave_set_coil s a v = Some (-1, s)" if "64 \<le> unat a"
    using that by (simp add: mb_slave_set_coil_def mb_sizes)
qed simp

interpretation discrete_bank: register_bank mb_slave_set_discrete mb_slave_get_discrete 64 mb_wf
proof unfold_locales
  fix s :: mb_slave and a :: u16 and v :: bool
  assume wf: "mb_wf s"
  then show "\<exists>v. mb_slave_get_discrete s a = Some v" by (simp add: get_discrete_eq)
  show "\<exists>s'. mb_slave_set_discrete s a v = Some (0, s') \<and> mb_wf s'
      \<and> mb_slave_get_discrete s' a = Some v
      \<and> (\<forall>b. b \<noteq> a \<longrightarrow> mb_slave_get_discrete s' b = mb_slave_get_discrete s b)" if "unat a < 64"
    using set_discrete_eq [OF wf that, of v] wf that by (auto simp: get_discrete_eq unat_eq_iff)
  show "mb_slave_set_discrete s a v = Some (-1, s)" if "64 \<le> unat a"
    using that by (simp add: mb_slave_set_discrete_def mb_sizes)
qed simp

interpretation holding_bank:
  register_bank mb_slave_set_holding_register mb_slave_get_holding_register 32 mb_wf
proof unfold_locales
  fix s :: mb_slave and a v :: u16
  assume wf: "mb_wf s"
  then show "\<exists>v. mb_slave_get_holding_register s a = Some v" by (simp add: get_holding_register_eq)
  show "\<exists>s'. mb_slave_set_holding_register s a v = Some (0, s') \<and> mb_wf s'
      \<and> mb_slave_get_holding_register s' a = Some v
      \<and> (\<forall>b. b \<noteq> a \<longrightarrow> mb_slave_get_holding_register s' b = mb_slave_get_holding_register s b)"
    if "unat a < 32"
    using set_holding_register_eq [OF wf that, of v] wf that
    by (auto simp: get_holding_register_eq unat_eq_iff mb_wf_def)
  show "mb_slave_set_holding_register s a v = Some (-1, s)" if "32 \<le> unat a"
    using that by (simp add: mb_slave_set_holding_register_def mb_sizes)
qed simp

interpretation input_bank:
  register_bank mb_slave_set_input_register mb_slave_get_input_register 32 mb_wf
proof unfold_locales
  fix s :: mb_slave and a v :: u16
  assume wf: "mb_wf s"
  then show "\<exists>v. mb_slave_get_input_register s a = Some v" by (simp add: get_input_register_eq)
  show "\<exists>s'. mb_slave_set_input_register s a v = Some (0, s') \<and> mb_wf s'
      \<and> mb_slave_get_input_register s' a = Some v
      \<and> (\<forall>b. b \<noteq> a \<longrightarrow> mb_slave_get_input_register s' b = mb_slave_get_input_register s b)"
    if "unat a < 32"
    using wf that
    by (auto simp: mb_slave_set_input_register_def mb_slave_get_input_register_def mb_sizes
        mem_store_def mem_load_def mb_wf_def unat_eq_iff)
  show "mb_slave_set_input_register s a v = Some (-1, s)" if "32 \<le> unat a"
    using that by (simp add: mb_slave_set_input_register_def mb_sizes)
qed simp

end
