(* ===== verification/Mb_Slave_Correct.thy ===== *)
theory Mb_Slave_Correct
  imports Mb_Banks Mb_Crc
begin

text \<open>
  Correctness of the Modbus slave: what each function handler answers and how it changes the
  data banks, that no frame makes the slave access memory outside its buffers, and that frames
  damaged in one byte are ignored.
\<close>

subsection \<open>Answers\<close>

definition mb_frame :: "u8 list \<Rightarrow> u8 list" where
  "mb_frame body = body @ mb_crc_tail (mb_crc body)"

lemma length_mb_frame [simp]: "length (mb_frame body) = length body + 2"
  by (simp add: mb_frame_def mb_crc_tail_def)

text \<open>The state after a response with the given body: only the transmit side changes.\<close>

definition mb_answer :: "mb_slave \<Rightarrow> u8 list \<Rightarrow> mb_slave \<Rightarrow> bool" where
  "mb_answer s body s' \<longleftrightarrow> (\<exists>t c. length t = 256 \<and> s' = s\<lparr>ms_tx_buffer := t, ms_tx_count := c,
     ms_trace := ms_trace s @ [UartSend (mb_frame body)]\<rparr>)"

lemma mb_answer_tx [simp]: "mb_answer (s\<lparr>ms_tx_buffer := x\<rparr>) body s' = mb_answer s body s'"
  by (auto simp: mb_answer_def)

lemma mb_answer_frame:
  "mb_answer s body s' \<Longrightarrow> ms_trace s' = ms_trace s @ [UartSend (mb_frame body)]
    \<and> ms_coils s' = ms_coils s \<and> ms_discrete s' = ms_discrete s
    \<and> ms_input_regs s' = ms_input_regs s \<and> ms_holding_regs s' = ms_holding_regs s
    \<and> ms_address s' = ms_address s \<and> ms_rx_buffer s' = ms_rx_buffer s
    \<and> ms_rx_count s' = ms_rx_count s \<and> ms_exception_count s' = ms_exception_count s
    \<and> ms_request_count s' = ms_request_count s \<and> ms_crc_error_count s' = ms_crc_error_count s"
  by (auto simp: mb_answer_def)

lemma mb_answer_wf: "mb_answer s body s' \<Longrightarrow> mb_wf s \<Longrightarrow> mb_wf s'"
  by (auto simp: mb_answer_def mb_wf_def)

lemma mb_send_response_answer:
  assumes "length (ms_tx_buffer s) = 256" and "unat n \<le> 254"
  shows "\<exists>s'. mb_send_response s n = Some s' \<and> mb_answer s (take (unat n) (ms_tx_buffer s)) s'"
proof -
  let ?tx = "ms_tx_buffer s" and ?body = "take (unat n) (ms_tx_buffer s)"
  let ?c = "mb_crc ?body"
  let ?tx2 = "?tx[unat n := ucast ?c, unat n + 1 := ucast (drop_bit 8 ?c)]"
  have n2: "unat (n + 2) = unat n + 2"
    using assms(2) by (subst unat_add_u16) auto
  have crc: "mb_crc16 ?tx n = Some ?c"
    using assms by (simp add: mb_crc16_eq mem_read_def)
  have "take (unat n + 2) ?tx2 = ?body @ [ucast ?c, ucast (drop_bit 8 ?c)]"
    using assms by (simp add: take_Suc_conv_app_nth take_update_cancel)
  then have fr: "take (unat n + 2) ?tx2 = mb_frame ?body"
    by (simp add: mb_frame_def mb_crc_tail_def)
  have "mb_send_response s n = Some (s\<lparr>ms_tx_buffer := ?tx2, ms_tx_count := n + 2,
      ms_trace := ms_trace s @ [UartSend (mb_frame ?body)]\<rparr>)"
    using assms fr by (simp add: mb_send_response_def crc mem_store_def mem_read_def n2)
  moreover have "mb_answer s ?body (s\<lparr>ms_tx_buffer := ?tx2, ms_tx_count := n + 2,
      ms_trace := ms_trace s @ [UartSend (mb_frame ?body)]\<rparr>)"
    unfolding mb_answer_def using assms(1) by (intro exI [of _ ?tx2] exI [of _ "n + 2"]) simp
  ultimately show ?thesis by blast
qed

text \<open>The same, for a transmit buffer whose beginning is known.\<close>

lemma mb_send_body:
  assumes "length t = 256" and "take (unat n) t = body" and "unat n \<le> 254"
  shows "\<exists>s'. mb_send_response (s\<lparr>ms_tx_buffer := t\<rparr>) n = Some s' \<and> mb_answer s body s'"
  using mb_send_response_answer [of "s\<lparr>ms_tx_buffer := t\<rparr>" n] assms by simp

lemma mb_send_exception_answer:
  assumes "length (ms_tx_buffer s) = 256"
  shows "\<exists>s'. mb_send_exception s f e = Some s'
    \<and> mb_answer s [ms_address s, f OR 0x80, mb_exception_code e] s'"
proof -
  let ?b = "[ms_address s, f OR 0x80, mb_exception_code e]"
  have "mem_write (ms_tx_buffer s) 0 ?b = Some (?b @ drop 3 (ms_tx_buffer s))"
    using assms by (simp add: mem_iff numeral_3_eq_3)
  then show ?thesis
    using mb_send_body [of "?b @ drop 3 (ms_tx_buffer s)" 3 ?b s] assms
    by (simp add: mb_send_exception_def)
qed

subsection \<open>Packed bits\<close>

lemma mb_pack_byte_bits:
  "j \<le> 8 \<Longrightarrow> \<exists>b'. mb_pack_byte (\<lambda>a. Some (g a)) start q i [j..<8] b = Some b'
    \<and> (\<forall>k < 8. bit b' k \<longleftrightarrow> bit b k
         \<or> j \<le> k \<and> i * 8 + k < unat q \<and> g (of_nat (unat start + i * 8 + k)))"
proof (induction "8 - j" arbitrary: j b)
  case 0
  then show ?case by simp
next
  case (Suc n)
  then have up: "[j..<8] = j # [Suc j..<8]" by (simp add: upt_rec)
  show ?case
  proof (cases "i * 8 + j < unat q")
    case True
    let ?v = "g (of_nat (unat start + i * 8 + j))"
    let ?b1 = "if ?v then b OR push_bit j 1 else b"
    have b1: "bit ?b1 k \<longleftrightarrow> bit b k \<or> (k = j \<and> ?v)" if "k < 8" for k
      using that Suc.hyps(2) by (auto simp: bit_simps)
    have "n = 8 - Suc j" "Suc j \<le> 8" using Suc.hyps(2) by simp_all
    then obtain b' where b': "mb_pack_byte (\<lambda>a. Some (g a)) start q i [Suc j..<8] ?b1 = Some b'"
      "\<forall>k < 8. bit b' k \<longleftrightarrow> bit ?b1 k
         \<or> Suc j \<le> k \<and> i * 8 + k < unat q \<and> g (of_nat (unat start + i * 8 + k))"
      using Suc.hyps(1) [of "Suc j" ?b1] by blast
    have split: "j \<le> k \<longleftrightarrow> k = j \<or> Suc j \<le> k" for k by auto
    have "bit b' k \<longleftrightarrow> bit b k
         \<or> j \<le> k \<and> i * 8 + k < unat q \<and> g (of_nat (unat start + i * 8 + k))" if "k < 8" for k
      unfolding split using b'(2) [rule_format, OF that] b1 [OF that] True by blast
    then show ?thesis using b'(1) True by (simp only: up mb_pack_byte.simps if_True bind.simps) blast
  next
    case False
    then have "\<not> (j \<le> k \<and> i * 8 + k < unat q)" for k by linarith
    then show ?thesis using False by (simp only: up mb_pack_byte.simps if_False) blast
  qed
qed

definition mb_packed :: "(u16 \<Rightarrow> bool) \<Rightarrow> u16 \<Rightarrow> u16 \<Rightarrow> nat \<Rightarrow> u8" where
  "mb_packed g start q i = the (mb_pack_byte (\<lambda>a. Some (g a)) start q i [0..<8] 0)"

lemma mb_pack_byte_packed:
  "mb_pack_byte (\<lambda>a. Some (g a)) start q i [0..<8] 0 = Some (mb_packed g start q i)"
  using mb_pack_byte_bits [of 0 g start q i 0] by (auto simp: mb_packed_def)

lemma bit_mb_packed:
  "k < 8 \<Longrightarrow> bit (mb_packed g start q i) k
     \<longleftrightarrow> i * 8 + k < unat q \<and> g (of_nat (unat start + i * 8 + k))"
  using mb_pack_byte_bits [of 0 g start q i 0] by (auto simp: mb_packed_def)

lemma bits_at_packed:
  assumes "k < 8 * n"
  shows "bits_at (map (mb_packed g start q) [0..<n]) k
    \<longleftrightarrow> k < unat q \<and> g (of_nat (unat start + k))"
proof -
  have "k div 8 < n" using assms by (simp add: less_mult_imp_div_less)
  moreover have "k div 8 * 8 + k mod 8 = k" by (rule div_mult_mod_eq)
  ultimately show ?thesis
    by (simp add: bits_at_def bit_mb_packed add.assoc)
qed

lemma mb_pack_bytes_eq:
  assumes "i \<le> n" and "3 + n \<le> length tx"
  shows "\<exists>tx'. mb_pack_bytes (\<lambda>a. Some (g a)) start q [i..<n] tx = Some tx'
    \<and> length tx' = length tx
    \<and> take (3 + n) tx' = take (3 + i) tx @ map (mb_packed g start q) [i..<n]"
  using assms
proof (induction "n - i" arbitrary: i tx)
  case (Suc m)
  then have up: "[i..<n] = i # [Suc i..<n]" by (simp add: upt_rec)
  let ?tx1 = "tx[3 + i := mb_packed g start q i]"
  obtain tx' where "mb_pack_bytes (\<lambda>a. Some (g a)) start q [Suc i..<n] ?tx1 = Some tx'"
    "length tx' = length tx"
    "take (3 + n) tx' = take (3 + Suc i) ?tx1 @ map (mb_packed g start q) [Suc i..<n]"
  proof -
    have "m = n - Suc i" "Suc i \<le> n" "3 + n \<le> length ?tx1" using Suc.hyps(2) Suc.prems by simp_all
    from Suc.hyps(1) [OF this] show ?thesis using that by auto
  qed
  moreover have "take (3 + Suc i) ?tx1 = take (3 + i) tx @ [mb_packed g start q i]"
    using Suc.hyps(2) Suc.prems take_Suc_update [of "3 + i" tx] by simp
  ultimately show ?case
    using Suc.hyps(2) Suc.prems by (simp add: up mb_pack_byte_packed mem_store_def)
qed simp

subsection \<open>Register values\<close>

definition mb_reg_bytes :: "u16 list \<Rightarrow> u8 list" where
  "mb_reg_bytes vs = concat (map (\<lambda>v. [ucast (drop_bit 8 v), ucast v]) vs)"

lemma length_mb_reg_bytes [simp]: "length (mb_reg_bytes vs) = 2 * length vs"
  by (induction vs) (simp_all add: mb_reg_bytes_def)

lemma mb_put_registers_eq:
  assumes "i \<le> n" and "3 + 2 * n \<le> length tx"
  shows "\<exists>tx'. mb_put_registers (\<lambda>a. Some (g a)) start [i..<n] tx = Some tx'
    \<and> length tx' = length tx
    \<and> take (3 + 2 * n) tx'
        = take (3 + 2 * i) tx @ mb_reg_bytes (map (\<lambda>j. g (of_nat (unat start + j))) [i..<n])"
  using assms
proof (induction "n - i" arbitrary: i tx)
  case (Suc m)
  then have up: "[i..<n] = i # [Suc i..<n]" by (simp add: upt_rec)
  let ?v = "g (of_nat (unat start + i))"
  let ?tx2 = "tx[3 + i * 2 := ucast (drop_bit 8 ?v), 4 + i * 2 := ucast ?v]"
  obtain tx' where "mb_put_registers (\<lambda>a. Some (g a)) start [Suc i..<n] ?tx2 = Some tx'"
    "length tx' = length tx"
    "take (3 + 2 * n) tx' = take (3 + 2 * Suc i) ?tx2
       @ mb_reg_bytes (map (\<lambda>j. g (of_nat (unat start + j))) [Suc i..<n])"
  proof -
    have "m = n - Suc i" "Suc i \<le> n" "3 + 2 * n \<le> length ?tx2"
      using Suc.hyps(2) Suc.prems by simp_all
    from Suc.hyps(1) [OF this] show ?thesis using that by auto
  qed
  moreover have "take (3 + 2 * Suc i) ?tx2
      = take (3 + 2 * i) tx @ [ucast (drop_bit 8 ?v), ucast ?v]"
  proof -
    have eqs: "3 + 2 * Suc i = Suc (Suc (3 + i * 2))" "4 + i * 2 = Suc (3 + i * 2)"
      "3 + 2 * i = 3 + i * 2" by simp_all
    show ?thesis
      unfolding eqs using Suc.hyps(2) Suc.prems by (intro take_Suc2_update) simp
  qed
  moreover have "mem_store tx (3 + i * 2) (ucast (drop_bit 8 ?v))
      = Some (tx[3 + i * 2 := ucast (drop_bit 8 ?v)])"
    "mem_store (tx[3 + i * 2 := ucast (drop_bit 8 ?v)]) (4 + i * 2) (ucast ?v) = Some ?tx2"
    using Suc.hyps(2) Suc.prems by (simp_all add: mem_store_def)
  ultimately show ?case
    by (simp only: up mb_put_registers.simps bind.simps) (simp add: mb_reg_bytes_def)
qed (simp add: mb_reg_bytes_def)

subsection \<open>Requests\<close>

text \<open>The two-byte field of the received frame at a position.\<close>

definition mb_arg :: "mb_slave \<Rightarrow> nat \<Rightarrow> u16" where
  "mb_arg s i = push_bit 8 (ucast (ms_rx_buffer s ! i)) OR ucast (ms_rx_buffer s ! (i + 1))"

lemma mb_rx16_eq: "mb_wf s \<Longrightarrow> i < 255 \<Longrightarrow> mb_rx16 s i = Some (mb_arg s i)"
  by (simp add: mb_rx16_def mb_wf_def mem_load_def mb_arg_def)

lemma mb_load_rx: "mb_wf s \<Longrightarrow> i < 256 \<Longrightarrow> mem_load (ms_rx_buffer s) i = Some (ms_rx_buffer s ! i)"
  by (simp add: mb_wf_def mem_load_def)

lemma mb_wf_tx: "mb_wf s \<Longrightarrow> length (ms_tx_buffer s) = 256"
  by (simp add: mb_wf_def)

lemma u16_bounds [simp]: "(q::u16) < 1 \<longleftrightarrow> q = 0"
  by (simp add: word_less_nat_alt unat_eq_0)

lemma u16_gt_numeral: "(q::u16) > numeral n \<longleftrightarrow> unat q > unat (numeral n :: u16)"
  by (simp add: word_less_nat_alt)

text \<open>The bit-reading handlers. The answer carries the bits of the bank, zero-padded.\<close>

definition mb_bits_data :: "u8 list \<Rightarrow> u16 \<Rightarrow> u16 \<Rightarrow> u8 list \<Rightarrow> bool" where
  "mb_bits_data bank start q data \<longleftrightarrow> length data = (unat q + 7) div 8
     \<and> (\<forall>k < 8 * length data. bits_at data k \<longleftrightarrow> k < unat q \<and> bits_at bank (unat start + k))"

lemma mb_read_bits_answer:
  assumes wf: "mb_wf s" and q: "unat start + unat q \<le> 64"
    and get: "get = (\<lambda>a. Some (unat a < 64 \<and> bits_at bank (unat a)))"
  defines "bc \<equiv> of_nat ((unat q + 7) div 8) :: u8"
  shows "\<exists>data s'. (do {
        tx1 \<leftarrow> mem_write (ms_tx_buffer s) 0 [ms_address s, fc, bc];
        tx2 \<leftarrow> mb_pack_bytes get start q [0..<unat bc] tx1;
        s' \<leftarrow> mb_send_response (s\<lparr>ms_tx_buffer := tx2\<rparr>) (3 + ucast bc);
        Some (MB_EX_NONE, s') }) = Some (MB_EX_NONE, s')
    \<and> mb_bits_data bank start q data \<and> mb_answer s (ms_address s # fc # bc # data) s'"
proof -
  have bc: "unat bc = (unat q + 7) div 8" "unat bc \<le> 8"
    using q by (simp_all add: bc_def unat_of_nat_u8)
  have len: "unat (3 + ucast bc :: u16) = 3 + unat bc"
    using bc(2) by (subst unat_add_u16) simp_all
  let ?g = "\<lambda>a::u16. unat a < 64 \<and> bits_at bank (unat a)"
  let ?tx1 = "[ms_address s, fc, bc] @ drop 3 (ms_tx_buffer s)"
  have w: "mem_write (ms_tx_buffer s) 0 [ms_address s, fc, bc] = Some ?tx1"
    using mb_wf_tx [OF wf] by (simp add: mem_iff numeral_3_eq_3)
  obtain tx2 where tx2: "mb_pack_bytes get start q [0..<unat bc] ?tx1 = Some tx2"
    "length tx2 = 256"
    "take (3 + unat bc) tx2 = take 3 ?tx1 @ map (mb_packed ?g start q) [0..<unat bc]"
    using mb_pack_bytes_eq [of 0 "unat bc" ?tx1 ?g start q] mb_wf_tx [OF wf] bc(2)
    by (auto simp: get)
  let ?data = "map (mb_packed ?g start q) [0..<unat bc]"
  have "take (unat (3 + ucast bc :: u16)) tx2 = ms_address s # fc # bc # ?data"
    unfolding len tx2(3) by (simp add: numeral_3_eq_3)
  then obtain s' where "mb_send_response (s\<lparr>ms_tx_buffer := tx2\<rparr>) (3 + ucast bc) = Some s'"
    "mb_answer s (ms_address s # fc # bc # ?data) s'"
    using mb_send_body [OF tx2(2), of "3 + ucast bc" _ s] len bc(2) by auto
  moreover have "mb_bits_data bank start q ?data"
  proof -
    have "unat (of_nat (unat start + k) :: u16) = unat start + k" if "k < unat q" for k
      using that q by (intro unat_of_nat_u16) linarith
    then show ?thesis
      using q bc(1) unfolding mb_bits_data_def
      by (auto simp: bits_at_packed simp del: of_nat_add)
  qed
  ultimately show ?thesis using w tx2(1) by auto
qed

lemma mb_read_coils_answer:
  assumes "mb_wf s" and "6 \<le> unat (ms_rx_count s)" and "mb_arg s 4 \<noteq> 0"
    and "unat (mb_arg s 2) + unat (mb_arg s 4) \<le> 64"
  shows "\<exists>data s'. mb_process_read_coils s = Some (MB_EX_NONE, s')
    \<and> mb_bits_data (ms_coils s) (mb_arg s 2) (mb_arg s 4) data
    \<and> mb_answer s (ms_address s # 1 # of_nat ((unat (mb_arg s 4) + 7) div 8) # data) s'"
proof -
  have get: "mb_slave_get_coil s = (\<lambda>a. Some (unat a < 64 \<and> bits_at (ms_coils s) (unat a)))"
    using get_coil_eq [OF assms(1)] by auto
  have "\<not> mb_arg s 4 > 2000" using assms(4) by (simp add: word_less_nat_alt)
  with mb_read_bits_answer [OF assms(1,4) get, of 1] assms show ?thesis
    by (simp add: mb_process_read_coils_def mb_rx16_eq mb_sizes Let_def)
qed

lemma mb_read_discrete_answer:
  assumes "mb_wf s" and "6 \<le> unat (ms_rx_count s)" and "mb_arg s 4 \<noteq> 0"
    and "unat (mb_arg s 2) + unat (mb_arg s 4) \<le> 64"
  shows "\<exists>data s'. mb_process_read_discrete s = Some (MB_EX_NONE, s')
    \<and> mb_bits_data (ms_discrete s) (mb_arg s 2) (mb_arg s 4) data
    \<and> mb_answer s (ms_address s # 2 # of_nat ((unat (mb_arg s 4) + 7) div 8) # data) s'"
proof -
  have get: "mb_slave_get_discrete s = (\<lambda>a. Some (unat a < 64 \<and> bits_at (ms_discrete s) (unat a)))"
    using get_discrete_eq [OF assms(1)] by auto
  have "\<not> mb_arg s 4 > 2000" using assms(4) by (simp add: word_less_nat_alt)
  with mb_read_bits_answer [OF assms(1,4) get, of 2] assms show ?thesis
    by (simp add: mb_process_read_discrete_def mb_rx16_eq mb_sizes Let_def)
qed

text \<open>The register-reading handlers.\<close>

lemma mb_read_registers_answer:
  assumes wf: "mb_wf s" and q: "unat start + unat q \<le> 32" and regs: "length regs = 32"
    and get: "get = (\<lambda>a. Some (if unat a < 32 then regs ! unat a else 0))"
  shows "\<exists>s'. (do {
        tx1 \<leftarrow> mem_write (ms_tx_buffer s) 0 [ms_address s, fc, of_nat (unat q * 2)];
        tx2 \<leftarrow> mb_put_registers get start [0..<unat q] tx1;
        s' \<leftarrow> mb_send_response (s\<lparr>ms_tx_buffer := tx2\<rparr>) (3 + q * 2);
        Some (MB_EX_NONE, s') }) = Some (MB_EX_NONE, s')
    \<and> mb_answer s (ms_address s # fc # of_nat (unat q * 2)
          # mb_reg_bytes (take (unat q) (drop (unat start) regs))) s'"
proof -
  let ?g = "\<lambda>a::u16. if unat a < 32 then regs ! unat a else 0"
  let ?h = "[ms_address s, fc, of_nat (unat q * 2)]"
  let ?tx1 = "?h @ drop 3 (ms_tx_buffer s)"
  have len: "unat (3 + q * 2) = 3 + 2 * unat q"
    using q by (simp add: unat_word_ariths)
  have w: "mem_write (ms_tx_buffer s) 0 ?h = Some ?tx1"
    using mb_wf_tx [OF wf] by (simp add: mem_iff numeral_3_eq_3)
  have "map (\<lambda>j. ?g (of_nat (unat start + j))) [0..<unat q] = take (unat q) (drop (unat start) regs)"
    (is "?l = ?r")
  proof (rule nth_equalityI)
    show "length ?l = length ?r" using q regs by simp
    fix k assume "k < length ?l"
    then have k: "k < unat q" by simp
    then have "unat (of_nat (unat start + k) :: u16) = unat start + k"
      using q by (intro unat_of_nat_u16) linarith
    then show "?l ! k = ?r ! k" using k q regs by (simp del: of_nat_add)
  qed
  moreover obtain tx2 where tx2: "mb_put_registers get start [0..<unat q] ?tx1 = Some tx2"
    "length tx2 = 256"
    "take (3 + 2 * unat q) tx2 = take 3 ?tx1 @ mb_reg_bytes ?l"
    using mb_put_registers_eq [of 0 "unat q" ?tx1 ?g start] mb_wf_tx [OF wf] q
    by (auto simp: get)
  ultimately have "take (unat (3 + q * 2)) tx2 = ms_address s # fc # of_nat (unat q * 2)
      # mb_reg_bytes (take (unat q) (drop (unat start) regs))"
    unfolding len by (simp add: numeral_3_eq_3)
  then obtain s' where "mb_send_response (s\<lparr>ms_tx_buffer := tx2\<rparr>) (3 + q * 2) = Some s'"
    "mb_answer s (ms_address s # fc # of_nat (unat q * 2)
      # mb_reg_bytes (take (unat q) (drop (unat start) regs))) s'"
    using mb_send_body [OF tx2(2), of "3 + q * 2" _ s] len q by auto
  then show ?thesis using w tx2(1) by auto
qed

lemma mb_read_holding_answer:
  assumes "mb_wf s" and "6 \<le> unat (ms_rx_count s)" and "mb_arg s 4 \<noteq> 0"
    and "unat (mb_arg s 2) + unat (mb_arg s 4) \<le> 32"
  shows "\<exists>s'. mb_process_read_holding_registers s = Some (MB_EX_NONE, s')
    \<and> mb_answer s (ms_address s # 3 # of_nat (unat (mb_arg s 4) * 2)
        # mb_reg_bytes (take (unat (mb_arg s 4)) (drop (unat (mb_arg s 2)) (ms_holding_regs s)))) s'"
proof -
  have get: "mb_slave_get_holding_register s
      = (\<lambda>a. Some (if unat a < 32 then ms_holding_regs s ! unat a else 0))"
    using get_holding_register_eq [OF assms(1)] by auto
  have "\<not> mb_arg s 4 > 125" using assms(4) by (simp add: word_less_nat_alt)
  moreover have "length (ms_holding_regs s) = 32" using assms(1) by (simp add: mb_wf_def)
  ultimately show ?thesis
    using mb_read_registers_answer [OF assms(1,4) _ get, of 3] assms
    by (simp add: mb_process_read_holding_registers_def mb_rx16_eq mb_sizes)
qed

lemma mb_read_input_answer:
  assumes "mb_wf s" and "6 \<le> unat (ms_rx_count s)" and "mb_arg s 4 \<noteq> 0"
    and "unat (mb_arg s 2) + unat (mb_arg s 4) \<le> 32"
  shows "\<exists>s'. mb_process_read_input_registers s = Some (MB_EX_NONE, s')
    \<and> mb_answer s (ms_address s # 4 # of_nat (unat (mb_arg s 4) * 2)
        # mb_reg_bytes (take (unat (mb_arg s 4)) (drop (unat (mb_arg s 2)) (ms_input_regs s)))) s'"
proof -
  have get: "mb_slave_get_input_register s
      = (\<lambda>a. Some (if unat a < 32 then ms_input_regs s ! unat a else 0))"
    using get_input_register_eq [OF assms(1)] by auto
  have "\<not> mb_arg s 4 > 125" using assms(4) by (simp add: word_less_nat_alt)
  moreover have "length (ms_input_regs s) = 32" using assms(1) by (simp add: mb_wf_def)
  ultimately show ?thesis
    using mb_read_registers_answer [OF assms(1,4) _ get, of 4] assms
    by (simp add: mb_process_read_input_registers_def mb_rx16_eq mb_sizes)
qed

subsection \<open>Writes\<close>

lemma mb_wf_frame:
  "same_but_coils s s' \<Longrightarrow> ms_rx_buffer s' = ms_rx_buffer s \<and> ms_address s' = ms_address s
     \<and> ms_on_coil_write s' = ms_on_coil_write s \<and> ms_holding_regs s' = ms_holding_regs s"
  "same_but_holding s s' \<Longrightarrow> ms_rx_buffer s' = ms_rx_buffer s \<and> ms_address s' = ms_address s
     \<and> ms_on_register_write s' = ms_on_register_write s \<and> ms_coils s' = ms_coils s"
  unfolding same_but_coils_def same_but_holding_def by (cases s; cases s'; simp)+

lemma same_but_coils_trans:
  "same_but_coils s t \<Longrightarrow> same_but_coils t u \<Longrightarrow> same_but_coils s u"
  unfolding same_but_coils_def by (cases s; cases t; cases u) simp

lemma same_but_holding_trans:
  "same_but_holding s t \<Longrightarrow> same_but_holding t u \<Longrightarrow> same_but_holding s u"
  unfolding same_but_holding_def by (cases s; cases t; cases u) simp

lemma same_but_refl [simp]: "same_but_coils s s" "same_but_holding s s"
  by (simp_all add: same_but_coils_def same_but_holding_def)

text \<open>The events of a write loop: one per element when a callback is registered.\<close>

definition coil_events :: "mb_slave \<Rightarrow> u16 \<Rightarrow> (nat \<Rightarrow> bool) \<Rightarrow> nat list \<Rightarrow> mb_event list" where
  "coil_events s start v is = (case ms_on_coil_write s of
     Some cb \<Rightarrow> map (\<lambda>j. CoilWritten cb (of_nat (unat start + j)) (v j)) is | None \<Rightarrow> [])"

definition register_events :: "mb_slave \<Rightarrow> u16 \<Rightarrow> (nat \<Rightarrow> u16) \<Rightarrow> nat list \<Rightarrow> mb_event list" where
  "register_events s start v is = (case ms_on_register_write s of
     Some cb \<Rightarrow> map (\<lambda>j. RegisterWritten cb (of_nat (unat start + j)) (v j)) is | None \<Rightarrow> [])"

lemma mb_write_coils_range:
  assumes "mb_wf s" and "i \<le> n" and "unat start + n \<le> 64"
  shows "mb_write_coils start [i..<n] s
      = coil_bank.write_range start i (map (bits_at (drop 7 (ms_rx_buffer s))) [i..<n]) s
    \<and> (\<forall>s'. mb_write_coils start [i..<n] s = Some s' \<longrightarrow> same_but_coils s s'
        \<and> ms_trace s' = ms_trace s
            @ coil_events s start (bits_at (drop 7 (ms_rx_buffer s))) [i..<n])"
  using assms
proof (induction "n - i" arbitrary: i s)
  case 0
  then show ?case by (simp add: coil_events_def split: option.splits)
next
  case (Suc m)
  then have up: "[i..<n] = i # [Suc i..<n]" by (simp add: upt_rec)
  let ?a = "of_nat (unat start + i) :: u16" and ?v = "bits_at (drop 7 (ms_rx_buffer s)) i"
  have a: "unat ?a < 64" using Suc.hyps(2) Suc.prems(3) by (subst unat_of_nat_u16) auto
  obtain s1 where s1: "mb_slave_set_coil s ?a ?v = Some (0, s1)" "mb_wf s1" "same_but_coils s s1"
    "ms_trace s1 = ms_trace s @ (case ms_on_coil_write s of
        Some cb \<Rightarrow> [CoilWritten cb ?a ?v] | None \<Rightarrow> [])"
    using set_coil_eq [OF Suc.prems(1) a] by blast
  note fr = mb_wf_frame(1) [OF s1(3)]
  have idx: "unat (of_nat (i div 8) :: u8) = i div 8"
    using Suc.hyps(2) Suc.prems(3) by (intro unat_of_nat_u8) simp
  have ld: "mem_load (ms_rx_buffer s) (7 + unat (of_nat (i div 8) :: u8))
      = Some (drop 7 (ms_rx_buffer s) ! (i div 8))"
    using Suc.hyps(2) Suc.prems by (simp only: idx) (simp add: mem_load_def mb_wf_def)
  have v: "(drop 7 (ms_rx_buffer s) ! (i div 8) AND push_bit (i mod 8) 1 \<noteq> 0) = ?v"
    by (simp add: bits_at_def)
  have step: "mb_write_coils start [i..<n] s = mb_write_coils start [Suc i..<n] s1"
    using s1(1) by (simp only: up mb_write_coils.simps ld bind.simps v) simp
  have "m = n - Suc i" "Suc i \<le> n" using Suc.hyps(2) by simp_all
  note IH = Suc.hyps(1) [OF this(1) s1(2) this(2) Suc.prems(3)]
  have "coil_bank.write_range start i (map (bits_at (drop 7 (ms_rx_buffer s))) [i..<n]) s
      = coil_bank.write_range start (Suc i) (map (bits_at (drop 7 (ms_rx_buffer s1))) [Suc i..<n]) s1"
    using s1(1) fr by (simp add: up)
  moreover have "ms_trace s' = ms_trace s
      @ coil_events s start (bits_at (drop 7 (ms_rx_buffer s))) [i..<n]"
    if "ms_trace s' = ms_trace s1
      @ coil_events s1 start (bits_at (drop 7 (ms_rx_buffer s1))) [Suc i..<n]" for s'
    using that s1(4) fr by (simp add: coil_events_def up split: option.splits)
  ultimately show ?case
    using IH step same_but_coils_trans [OF s1(3)] by metis
qed

lemma mb_write_registers_range:
  assumes "mb_wf s" and "i \<le> n" and "unat start + n \<le> 32"
  shows "mb_write_registers start [i..<n] s
      = holding_bank.write_range start i (map (\<lambda>j. mb_arg s (7 + j * 2)) [i..<n]) s
    \<and> (\<forall>s'. mb_write_registers start [i..<n] s = Some s' \<longrightarrow> same_but_holding s s'
        \<and> ms_trace s' = ms_trace s
            @ register_events s start (\<lambda>j. mb_arg s (7 + j * 2)) [i..<n])"
  using assms
proof (induction "n - i" arbitrary: i s)
  case 0
  then show ?case by (simp add: register_events_def split: option.splits)
next
  case (Suc m)
  then have up: "[i..<n] = i # [Suc i..<n]" by (simp add: upt_rec)
  let ?a = "of_nat (unat start + i) :: u16" and ?v = "mb_arg s (7 + i * 2)"
  have a: "unat ?a < 32" using Suc.hyps(2) Suc.prems(3) by (subst unat_of_nat_u16) auto
  obtain s1 where s1: "mb_slave_set_holding_register s ?a ?v = Some (0, s1)" "mb_wf s1"
    "same_but_holding s s1"
    "ms_trace s1 = ms_trace s @ (case ms_on_register_write s of
        Some cb \<Rightarrow> [RegisterWritten cb ?a ?v] | None \<Rightarrow> [])"
    using set_holding_register_eq [OF Suc.prems(1) a] by blast
  note fr = mb_wf_frame(2) [OF s1(3)]
  have arg: "mb_arg s1 k = mb_arg s k" for k using fr by (simp add: mb_arg_def)
  have rx: "mb_rx16 s (7 + i * 2) = Some ?v"
    using Suc.hyps(2) Suc.prems(3) by (intro mb_rx16_eq [OF Suc.prems(1)]) simp
  have step: "mb_write_registers start [i..<n] s = mb_write_registers start [Suc i..<n] s1"
    using s1(1) by (simp only: up mb_write_registers.simps rx bind.simps) simp
  have "m = n - Suc i" "Suc i \<le> n" using Suc.hyps(2) by simp_all
  note IH = Suc.hyps(1) [OF this(1) s1(2) this(2) Suc.prems(3)]
  have "holding_bank.write_range start i (map (\<lambda>j. mb_arg s (7 + j * 2)) [i..<n]) s
      = holding_bank.write_range start (Suc i) (map (\<lambda>j. mb_arg s1 (7 + j * 2)) [Suc i..<n]) s1"
    using s1(1) by (simp add: up arg)
  moreover have "ms_trace s' = ms_trace s
      @ register_events s start (\<lambda>j. mb_arg s (7 + j * 2)) [i..<n]"
    if "ms_trace s' = ms_trace s1
      @ register_events s1 start (\<lambda>j. mb_arg s1 (7 + j * 2)) [Suc i..<n]" for s'
    using that s1(4) fr by (simp add: register_events_def up arg split: option.splits)
  ultimately show ?case
    using IH step same_but_holding_trans [OF s1(3)] by metis
qed

lemma mb_send_echo_answer:
  assumes "mb_wf s"
  shows "\<exists>s'. mb_send_echo s = Some s' \<and> mb_answer s (take 6 (ms_rx_buffer s)) s'"
proof -
  let ?b = "take 6 (ms_rx_buffer s)"
  have l: "length (ms_rx_buffer s) = 256" "length (ms_tx_buffer s) = 256" "length ?b = 6"
    using assms by (simp_all add: mb_wf_def)
  have "mem_read (ms_rx_buffer s) 0 6 = Some ?b"
    and "mem_write (ms_tx_buffer s) 0 ?b = Some (?b @ drop 6 (ms_tx_buffer s))"
    using l by (simp_all add: mem_iff)
  then show ?thesis
    using mb_send_body [of "?b @ drop 6 (ms_tx_buffer s)" 6 ?b s] l
    by (simp add: mb_send_echo_def)
qed

lemma mb_write_single_coil_answer:
  assumes "mb_wf s" and "6 \<le> unat (ms_rx_count s)" and "mb_arg s 4 = 0 \<or> mb_arg s 4 = 0xFF00"
    and "unat (mb_arg s 2) < 64"
  shows "\<exists>s1 s'. mb_slave_set_coil s (mb_arg s 2) (mb_arg s 4 = 0xFF00) = Some (0, s1)
    \<and> mb_process_write_single_coil s = Some (MB_EX_NONE, s')
    \<and> mb_wf s1 \<and> same_but_coils s s1 \<and> mb_answer s1 (take 6 (ms_rx_buffer s)) s'"
proof -
  obtain s1 where s1: "mb_slave_set_coil s (mb_arg s 2) (mb_arg s 4 = 0xFF00) = Some (0, s1)"
    "mb_wf s1" "same_but_coils s s1"
    using set_coil_eq [OF assms(1,4)] by blast
  obtain s' where "mb_send_echo s1 = Some s'" "mb_answer s1 (take 6 (ms_rx_buffer s)) s'"
    using mb_send_echo_answer [OF s1(2)] mb_wf_frame(1) [OF s1(3)] by auto
  then show ?thesis
    using assms s1 by (auto simp: mb_process_write_single_coil_def mb_rx16_eq mb_sizes)
qed

lemma mb_write_single_register_answer:
  assumes "mb_wf s" and "6 \<le> unat (ms_rx_count s)" and "unat (mb_arg s 2) < 32"
  shows "\<exists>s1 s'. mb_slave_set_holding_register s (mb_arg s 2) (mb_arg s 4) = Some (0, s1)
    \<and> mb_process_write_single_register s = Some (MB_EX_NONE, s')
    \<and> mb_wf s1 \<and> same_but_holding s s1 \<and> mb_answer s1 (take 6 (ms_rx_buffer s)) s'"
proof -
  obtain s1 where s1: "mb_slave_set_holding_register s (mb_arg s 2) (mb_arg s 4) = Some (0, s1)"
    "mb_wf s1" "same_but_holding s s1"
    using set_holding_register_eq [OF assms(1,3)] by blast
  obtain s' where "mb_send_echo s1 = Some s'" "mb_answer s1 (take 6 (ms_rx_buffer s)) s'"
    using mb_send_echo_answer [OF s1(2)] mb_wf_frame(2) [OF s1(3)] by auto
  then show ?thesis
    using assms s1 by (auto simp: mb_process_write_single_register_def mb_rx16_eq mb_sizes)
qed

definition mb_range_body :: "u8 \<Rightarrow> u8 \<Rightarrow> u16 \<Rightarrow> u16 \<Rightarrow> u8 list" where
  "mb_range_body addr fc start q = addr # fc # mb_reg_bytes [start, q]"

lemma mb_send_range_answer:
  assumes "mb_wf s"
  shows "\<exists>s'. mb_send_range s fc start q = Some s'
    \<and> mb_answer s (mb_range_body (ms_address s) fc start q) s'"
proof -
  let ?b = "mb_range_body (ms_address s) fc start q"
  have b: "?b = [ms_address s, fc, ucast (drop_bit 8 start), ucast start,
      ucast (drop_bit 8 q), ucast q]" "length ?b = 6"
    by (simp_all add: mb_range_body_def mb_reg_bytes_def)
  have l: "length (ms_tx_buffer s) = 256" using assms by (rule mb_wf_tx)
  have "mem_write (ms_tx_buffer s) 0 ?b = Some (?b @ drop 6 (ms_tx_buffer s))"
    using l b(2) by (simp add: mem_iff)
  then show ?thesis
    using mb_send_body [of "?b @ drop 6 (ms_tx_buffer s)" 6 ?b s] l b
    by (simp add: mb_send_range_def)
qed

text \<open>The values a multiple-write request carries, and the bank after the request.\<close>

definition mb_request_values :: "mb_slave \<Rightarrow> u16 list" where
  "mb_request_values s = map (\<lambda>j. mb_arg s (7 + j * 2)) [0..<unat (mb_arg s 4)]"

lemma mb_write_multiple_registers_answer:
  assumes wf: "mb_wf s" and rx: "7 + 2 * unat (mb_arg s 4) \<le> unat (ms_rx_count s)"
    and q: "mb_arg s 4 \<noteq> 0" and bc: "unat (ms_rx_buffer s ! 6) = 2 * unat (mb_arg s 4)"
    and rng: "unat (mb_arg s 2) + unat (mb_arg s 4) \<le> 32"
  shows "\<exists>s1 s'. mb_process_write_multiple_registers s = Some (MB_EX_NONE, s')
    \<and> mb_wf s1 \<and> same_but_holding s s1
    \<and> mb_answer s1 (mb_range_body (ms_address s) 0x10 (mb_arg s 2) (mb_arg s 4)) s'
    \<and> ms_holding_regs s1 = take (unat (mb_arg s 2)) (ms_holding_regs s) @ mb_request_values s
        @ drop (unat (mb_arg s 2) + unat (mb_arg s 4)) (ms_holding_regs s)
    \<and> ms_trace s1 = ms_trace s @ register_events s (mb_arg s 2) (\<lambda>j. mb_arg s (7 + j * 2))
        [0..<unat (mb_arg s 4)]"
proof -
  let ?st = "mb_arg s 2" and ?q = "unat (mb_arg s 4)" and ?vs = "mb_request_values s"
  have lv: "length ?vs = ?q" by (simp add: mb_request_values_def)
  note rg = mb_write_registers_range [OF wf _ rng, of 0]
  have eq: "mb_write_registers ?st [0..<?q] s = holding_bank.write_range ?st 0 ?vs s"
    using rg by (simp add: mb_request_values_def)
  obtain s1 where s1: "holding_bank.write_range ?st 0 ?vs s = Some s1" "mb_wf s1"
    "\<forall>k < ?q. mb_slave_get_holding_register s1 (of_nat (unat ?st + k)) = Some (?vs ! k)"
    "\<forall>b. unat b < unat ?st \<or> unat ?st + ?q \<le> unat b \<longrightarrow>
       mb_slave_get_holding_register s1 b = mb_slave_get_holding_register s b"
    using holding_bank.write_range_in [OF wf, of ?st 0 ?vs] rng lv by auto
  have loop: "mb_write_registers ?st [0..<?q] s = Some s1" using eq s1(1) by simp
  have fr: "same_but_holding s s1" "ms_trace s1 = ms_trace s
      @ register_events s ?st (\<lambda>j. mb_arg s (7 + j * 2)) [0..<?q]"
    using rg loop by auto
  have l: "length (ms_holding_regs s) = 32" "length (ms_holding_regs s1) = 32"
    using wf s1(2) by (simp_all add: mb_wf_def)
  have regs: "ms_holding_regs s1 = take (unat ?st) (ms_holding_regs s) @ ?vs
      @ drop (unat ?st + ?q) (ms_holding_regs s)"
  proof (rule nth_equalityI)
    show "length (ms_holding_regs s1) = length (take (unat ?st) (ms_holding_regs s) @ ?vs
      @ drop (unat ?st + ?q) (ms_holding_regs s))" using l lv rng by simp
    fix a assume a: "a < length (ms_holding_regs s1)"
    have ua: "unat (of_nat a :: u16) = a" using a l by (intro unat_of_nat_u16) simp
    show "ms_holding_regs s1 ! a = (take (unat ?st) (ms_holding_regs s) @ ?vs
      @ drop (unat ?st + ?q) (ms_holding_regs s)) ! a"
    proof (cases "unat ?st \<le> a \<and> a < unat ?st + ?q")
      case True
      then have "mb_slave_get_holding_register s1 (of_nat a) = Some (?vs ! (a - unat ?st))"
        using s1(3) by (auto dest!: spec [of _ "a - unat ?st"])
      moreover have "a - unat ?st < ?q" using True by linarith
      ultimately show ?thesis
        using True a l lv rng get_holding_register_eq [OF s1(2), of "of_nat a"] ua
        by (simp add: nth_append)
    next
      case False
      then have "mb_slave_get_holding_register s1 (of_nat a)
          = mb_slave_get_holding_register s (of_nat a)"
        using s1(4) ua by auto
      then have "ms_holding_regs s1 ! a = ms_holding_regs s ! a"
        using get_holding_register_eq [OF s1(2), of "of_nat a"]
          get_holding_register_eq [OF wf, of "of_nat a"] ua a l by simp
      then show ?thesis using False a l lv rng by (auto simp: nth_append min_def)
    qed
  qed
  obtain s' where s': "mb_send_range s1 0x10 ?st (mb_arg s 4) = Some s'"
    "mb_answer s1 (mb_range_body (ms_address s) 0x10 ?st (mb_arg s 4)) s'"
    using mb_send_range_answer [OF s1(2)] mb_wf_frame(2) [OF fr(1)] by metis
  have "\<not> mb_arg s 4 > 123" using rng by (simp add: word_less_nat_alt)
  then have "mb_process_write_multiple_registers s = Some (MB_EX_NONE, s')"
    using rx q bc rng loop s'(1) wf
    by (simp add: mb_process_write_multiple_registers_def mb_rx16_eq mb_load_rx mb_sizes)
  then show ?thesis using s1(2) fr regs s'(2) by blast
qed

lemma mb_write_multiple_coils_answer:
  assumes wf: "mb_wf s" and rx: "7 + (unat (mb_arg s 4) + 7) div 8 \<le> unat (ms_rx_count s)"
    and q: "mb_arg s 4 \<noteq> 0" and bc: "unat (ms_rx_buffer s ! 6) = (unat (mb_arg s 4) + 7) div 8"
    and rng: "unat (mb_arg s 2) + unat (mb_arg s 4) \<le> 64"
  shows "\<exists>s1 s'. mb_process_write_multiple_coils s = Some (MB_EX_NONE, s')
    \<and> mb_wf s1 \<and> same_but_coils s s1
    \<and> mb_answer s1 (mb_range_body (ms_address s) 0x0F (mb_arg s 2) (mb_arg s 4)) s'
    \<and> (\<forall>a < 64. bits_at (ms_coils s1) a =
          (if unat (mb_arg s 2) \<le> a \<and> a < unat (mb_arg s 2) + unat (mb_arg s 4)
           then bits_at (drop 7 (ms_rx_buffer s)) (a - unat (mb_arg s 2))
           else bits_at (ms_coils s) a))
    \<and> ms_trace s1 = ms_trace s @ coil_events s (mb_arg s 2) (bits_at (drop 7 (ms_rx_buffer s)))
        [0..<unat (mb_arg s 4)]"
proof -
  let ?st = "mb_arg s 2" and ?q = "unat (mb_arg s 4)"
  let ?vs = "map (bits_at (drop 7 (ms_rx_buffer s))) [0..<?q]"
  note rg = mb_write_coils_range [OF wf _ rng, of 0]
  have eq: "mb_write_coils ?st [0..<?q] s = coil_bank.write_range ?st 0 ?vs s"
    using rg by simp
  obtain s1 where s1: "coil_bank.write_range ?st 0 ?vs s = Some s1" "mb_wf s1"
    "\<forall>k < ?q. mb_slave_get_coil s1 (of_nat (unat ?st + k)) = Some (?vs ! k)"
    "\<forall>b. unat b < unat ?st \<or> unat ?st + ?q \<le> unat b \<longrightarrow>
       mb_slave_get_coil s1 b = mb_slave_get_coil s b"
    using coil_bank.write_range_in [OF wf, of ?st 0 ?vs] rng by auto
  have loop: "mb_write_coils ?st [0..<?q] s = Some s1" using eq s1(1) by simp
  have fr: "same_but_coils s s1" "ms_trace s1 = ms_trace s
      @ coil_events s ?st (bits_at (drop 7 (ms_rx_buffer s))) [0..<?q]"
    using rg loop by auto
  have bits: "bits_at (ms_coils s1) a = (if unat ?st \<le> a \<and> a < unat ?st + ?q
      then bits_at (drop 7 (ms_rx_buffer s)) (a - unat ?st) else bits_at (ms_coils s) a)"
    if a: "a < 64" for a
  proof -
    have ua: "unat (of_nat a :: u16) = a" using a by (intro unat_of_nat_u16) simp
    show ?thesis
    proof (cases "unat ?st \<le> a \<and> a < unat ?st + ?q")
      case True
      then have "mb_slave_get_coil s1 (of_nat a) = Some (?vs ! (a - unat ?st))"
        using s1(3) by (auto dest!: spec [of _ "a - unat ?st"])
      moreover have "a - unat ?st < ?q" using True by linarith
      ultimately show ?thesis
        using True a get_coil_eq [OF s1(2), of "of_nat a"] ua by simp
    next
      case False
      then have "mb_slave_get_coil s1 (of_nat a) = mb_slave_get_coil s (of_nat a)"
        using s1(4) ua by auto
      then show ?thesis
        using False a get_coil_eq [OF s1(2), of "of_nat a"] get_coil_eq [OF wf, of "of_nat a"] ua
        by auto
    qed
  qed
  obtain s' where s': "mb_send_range s1 0x0F ?st (mb_arg s 4) = Some s'"
    "mb_answer s1 (mb_range_body (ms_address s) 0x0F ?st (mb_arg s 4)) s'"
    using mb_send_range_answer [OF s1(2)] mb_wf_frame(1) [OF fr(1)] by metis
  have "\<not> mb_arg s 4 > 1968" using rng by (simp add: word_less_nat_alt)
  then have "mb_process_write_multiple_coils s = Some (MB_EX_NONE, s')"
    using rx q bc rng loop s'(1) wf
    by (simp add: mb_process_write_multiple_coils_def mb_rx16_eq mb_load_rx mb_sizes)
  then show ?thesis using s1(2) fr bits s'(2) by blast
qed

subsection \<open>Every request is handled\<close>

text \<open>
  What may change before the answer of a successful request is sent: the two writable banks and
  the trace, which gains callback invocations only.
\<close>

definition mb_side :: "mb_slave \<Rightarrow> mb_slave \<Rightarrow> bool" where
  "mb_side s s1 \<longleftrightarrow> (\<exists>c h evs. s1 = s\<lparr>ms_coils := c, ms_holding_regs := h,
     ms_trace := ms_trace s @ evs\<rparr> \<and> (\<forall>f. UartSend f \<notin> set evs))"

definition mb_handled :: "mb_slave \<Rightarrow> (mb_exception \<times> mb_slave) option \<Rightarrow> bool" where
  "mb_handled s r \<longleftrightarrow>
     (\<exists>s1 s' body. r = Some (MB_EX_NONE, s') \<and> mb_side s s1 \<and> mb_wf s1
        \<and> mb_answer s1 (ms_address s # body) s' \<and> body \<noteq> [])
   \<or> (\<exists>e. r = Some (e, s) \<and> e \<in> {MB_EX_ILLEGAL_FUNCTION, MB_EX_ILLEGAL_DATA_ADDRESS,
        MB_EX_ILLEGAL_DATA_VALUE})"

lemma mb_handled_refused [intro]:
  "r = Some (MB_EX_ILLEGAL_FUNCTION, s) \<Longrightarrow> mb_handled s r"
  "r = Some (MB_EX_ILLEGAL_DATA_ADDRESS, s) \<Longrightarrow> mb_handled s r"
  "r = Some (MB_EX_ILLEGAL_DATA_VALUE, s) \<Longrightarrow> mb_handled s r"
  by (auto simp: mb_handled_def)

lemma mb_side_refl [simp]: "mb_side s s"
  unfolding mb_side_def by (intro exI [of _ "ms_coils s"] exI [of _ "ms_holding_regs s"] exI [of _ "[]"]) simp

lemma mb_side_coils:
  "same_but_coils s s1 \<Longrightarrow> ms_trace s1 = ms_trace s @ evs \<Longrightarrow> (\<forall>f. UartSend f \<notin> set evs) \<Longrightarrow>
   mb_side s s1"
  unfolding mb_side_def same_but_coils_def
  by (intro exI [of _ "ms_coils s1"] exI [of _ "ms_holding_regs s"] exI [of _ evs]) (cases s, simp)

lemma mb_side_holding:
  "same_but_holding s s1 \<Longrightarrow> ms_trace s1 = ms_trace s @ evs \<Longrightarrow> (\<forall>f. UartSend f \<notin> set evs) \<Longrightarrow>
   mb_side s s1"
  unfolding mb_side_def same_but_holding_def
  by (intro exI [of _ "ms_coils s"] exI [of _ "ms_holding_regs s1"] exI [of _ evs]) (cases s, simp)

lemma mb_handled_read:
  "r = Some (MB_EX_NONE, s') \<Longrightarrow> mb_wf s \<Longrightarrow> mb_answer s (ms_address s # b # bs) s' \<Longrightarrow>
   mb_handled s r"
  unfolding mb_handled_def by (rule disjI1) (intro exI [of _ s] exI [of _ s'] exI [of _ "b # bs"], simp)

lemma mb_handled_write:
  "r = Some (MB_EX_NONE, s') \<Longrightarrow> mb_wf s1 \<Longrightarrow> mb_side s s1 \<Longrightarrow>
   mb_answer s1 (ms_address s # b # bs) s' \<Longrightarrow> mb_handled s r"
  unfolding mb_handled_def by (rule disjI1) (intro exI [of _ s1] exI [of _ s'] exI [of _ "b # bs"], simp)

lemma coil_events_no_send [simp]: "UartSend f \<notin> set (coil_events s start v is)"
  by (auto simp: coil_events_def split: option.splits)

lemma register_events_no_send [simp]: "UartSend f \<notin> set (register_events s start v is)"
  by (auto simp: register_events_def split: option.splits)

lemmas mb_process_defs = mb_process_read_coils_def mb_process_read_discrete_def
  mb_process_read_holding_registers_def mb_process_read_input_registers_def
  mb_process_write_single_coil_def mb_process_write_single_register_def
  mb_process_write_multiple_coils_def mb_process_write_multiple_registers_def

lemma mb_read_coils_handled:
  assumes wf: "mb_wf s"
  shows "mb_handled s (mb_process_read_coils s)"
proof (cases "unat (ms_rx_count s) < 6 \<or> mb_arg s 4 = 0 \<or> mb_arg s 4 > 2000
    \<or> unat (mb_arg s 2) + unat (mb_arg s 4) > 64")
  case True
  then show ?thesis using wf
    by (cases "unat (ms_rx_count s) < 6"; cases "mb_arg s 4 = 0 \<or> mb_arg s 4 > 2000")
      (auto simp: mb_process_defs mb_rx16_eq mb_sizes)
next
  case False
  then show ?thesis using mb_read_coils_answer [OF wf] mb_handled_read [OF _ wf] by force
qed

lemma mb_read_discrete_handled:
  assumes wf: "mb_wf s"
  shows "mb_handled s (mb_process_read_discrete s)"
proof (cases "unat (ms_rx_count s) < 6 \<or> mb_arg s 4 = 0 \<or> mb_arg s 4 > 2000
    \<or> unat (mb_arg s 2) + unat (mb_arg s 4) > 64")
  case True
  then show ?thesis using wf
    by (cases "unat (ms_rx_count s) < 6"; cases "mb_arg s 4 = 0 \<or> mb_arg s 4 > 2000")
      (auto simp: mb_process_defs mb_rx16_eq mb_sizes)
next
  case False
  then show ?thesis using mb_read_discrete_answer [OF wf] mb_handled_read [OF _ wf] by force
qed

lemma mb_read_holding_handled:
  assumes wf: "mb_wf s"
  shows "mb_handled s (mb_process_read_holding_registers s)"
proof (cases "unat (ms_rx_count s) < 6 \<or> mb_arg s 4 = 0 \<or> mb_arg s 4 > 125
    \<or> unat (mb_arg s 2) + unat (mb_arg s 4) > 32")
  case True
  then show ?thesis using wf
    by (cases "unat (ms_rx_count s) < 6"; cases "mb_arg s 4 = 0 \<or> mb_arg s 4 > 125")
      (auto simp: mb_process_defs mb_rx16_eq mb_sizes)
next
  case False
  then show ?thesis using mb_read_holding_answer [OF wf] mb_handled_read [OF _ wf] by force
qed

lemma mb_read_input_handled:
  assumes wf: "mb_wf s"
  shows "mb_handled s (mb_process_read_input_registers s)"
proof (cases "unat (ms_rx_count s) < 6 \<or> mb_arg s 4 = 0 \<or> mb_arg s 4 > 125
    \<or> unat (mb_arg s 2) + unat (mb_arg s 4) > 32")
  case True
  then show ?thesis using wf
    by (cases "unat (ms_rx_count s) < 6"; cases "mb_arg s 4 = 0 \<or> mb_arg s 4 > 125")
      (auto simp: mb_process_defs mb_rx16_eq mb_sizes)
next
  case False
  then show ?thesis using mb_read_input_answer [OF wf] mb_handled_read [OF _ wf] by force
qed

lemma mb_echo_shape:
  assumes "mb_wf s" and "ms_rx_buffer s ! 0 = ms_address s"
  shows "\<exists>b bs. take 6 (ms_rx_buffer s) = ms_address s # b # bs"
proof -
  obtain x y zs where "ms_rx_buffer s = x # y # zs"
    using assms(1) by (cases "ms_rx_buffer s"; cases "tl (ms_rx_buffer s)") (auto simp: mb_wf_def)
  then show ?thesis using assms(2) by (simp add: numeral_eq_Suc)
qed

lemma mb_write_single_coil_handled:
  assumes wf: "mb_wf s" and ad: "ms_rx_buffer s ! 0 = ms_address s"
  shows "mb_handled s (mb_process_write_single_coil s)"
proof (cases "unat (ms_rx_count s) < 6 \<or> mb_arg s 4 \<noteq> 0 \<and> mb_arg s 4 \<noteq> 0xFF00
    \<or> 64 \<le> unat (mb_arg s 2)")
  case True
  then show ?thesis using wf
    by (cases "unat (ms_rx_count s) < 6"; cases "mb_arg s 4 \<noteq> 0 \<and> mb_arg s 4 \<noteq> 0xFF00")
      (auto simp: mb_process_defs mb_rx16_eq mb_sizes)
next
  case False
  then have a: "unat (mb_arg s 2) < 64" by simp
  obtain s1 s' where r: "mb_slave_set_coil s (mb_arg s 2) (mb_arg s 4 = 0xFF00) = Some (0, s1)"
    "mb_process_write_single_coil s = Some (MB_EX_NONE, s')" "mb_wf s1" "same_but_coils s s1"
    "mb_answer s1 (take 6 (ms_rx_buffer s)) s'"
    using mb_write_single_coil_answer [OF wf] False by auto
  have "mb_side s s1"
    using set_coil_eq [OF wf a, of "mb_arg s 4 = 0xFF00"] r(1)
    by (intro mb_side_coils [OF r(4)]) (auto split: option.splits)
  then show ?thesis
    using mb_echo_shape [OF assms] r(3,5) mb_handled_write [OF r(2)] by force
qed

lemma mb_write_single_register_handled:
  assumes wf: "mb_wf s" and ad: "ms_rx_buffer s ! 0 = ms_address s"
  shows "mb_handled s (mb_process_write_single_register s)"
proof (cases "unat (ms_rx_count s) < 6 \<or> 32 \<le> unat (mb_arg s 2)")
  case True
  then show ?thesis using wf
    by (cases "unat (ms_rx_count s) < 6") (auto simp: mb_process_defs mb_rx16_eq mb_sizes)
next
  case False
  then have a: "unat (mb_arg s 2) < 32" by simp
  obtain s1 s' where r: "mb_slave_set_holding_register s (mb_arg s 2) (mb_arg s 4) = Some (0, s1)"
    "mb_process_write_single_register s = Some (MB_EX_NONE, s')" "mb_wf s1" "same_but_holding s s1"
    "mb_answer s1 (take 6 (ms_rx_buffer s)) s'"
    using mb_write_single_register_answer [OF wf] False by auto
  have "mb_side s s1"
    using set_holding_register_eq [OF wf a, of "mb_arg s 4"] r(1)
    by (intro mb_side_holding [OF r(4)]) (auto split: option.splits)
  then show ?thesis
    using mb_echo_shape [OF assms] r(3,5) mb_handled_write [OF r(2)] by force
qed

lemma mb_write_multiple_registers_handled:
  assumes wf: "mb_wf s"
  shows "mb_handled s (mb_process_write_multiple_registers s)"
proof (cases "7 + 2 * unat (mb_arg s 4) \<le> unat (ms_rx_count s) \<and> mb_arg s 4 \<noteq> 0
    \<and> unat (ms_rx_buffer s ! 6) = 2 * unat (mb_arg s 4)
    \<and> unat (mb_arg s 2) + unat (mb_arg s 4) \<le> 32")
  case True
  then obtain s1 s' where r: "mb_process_write_multiple_registers s = Some (MB_EX_NONE, s')"
    "mb_wf s1" "same_but_holding s s1"
    "mb_answer s1 (mb_range_body (ms_address s) 0x10 (mb_arg s 2) (mb_arg s 4)) s'"
    "ms_trace s1 = ms_trace s @ register_events s (mb_arg s 2) (\<lambda>j. mb_arg s (7 + j * 2))
        [0..<unat (mb_arg s 4)]"
    using mb_write_multiple_registers_answer [OF wf] by blast
  show ?thesis
    using mb_handled_write [OF r(1,2) mb_side_holding [OF r(3,5)]] r(4)
    by (simp add: mb_range_body_def)
next
  case False
  then show ?thesis using wf
    by (cases "unat (ms_rx_count s) < 7"; cases "mb_arg s 4 = 0 \<or> mb_arg s 4 > 123";
        cases "unat (ms_rx_buffer s ! 6) = unat (mb_arg s 4) * 2";
        cases "unat (mb_arg s 2) + unat (mb_arg s 4) \<le> 32")
      (auto simp: mb_process_write_multiple_registers_def mb_rx16_eq mb_load_rx mb_sizes)
qed

lemma mb_write_multiple_coils_handled:
  assumes wf: "mb_wf s"
  shows "mb_handled s (mb_process_write_multiple_coils s)"
proof (cases "7 + (unat (mb_arg s 4) + 7) div 8 \<le> unat (ms_rx_count s) \<and> mb_arg s 4 \<noteq> 0
    \<and> unat (ms_rx_buffer s ! 6) = (unat (mb_arg s 4) + 7) div 8
    \<and> unat (mb_arg s 2) + unat (mb_arg s 4) \<le> 64")
  case True
  then obtain s1 s' where r: "mb_process_write_multiple_coils s = Some (MB_EX_NONE, s')"
    "mb_wf s1" "same_but_coils s s1"
    "mb_answer s1 (mb_range_body (ms_address s) 0x0F (mb_arg s 2) (mb_arg s 4)) s'"
    "ms_trace s1 = ms_trace s @ coil_events s (mb_arg s 2) (bits_at (drop 7 (ms_rx_buffer s)))
        [0..<unat (mb_arg s 4)]"
    using mb_write_multiple_coils_answer [OF wf] by blast
  show ?thesis
    using mb_handled_write [OF r(1,2) mb_side_coils [OF r(3,5)]] r(4)
    by (simp add: mb_range_body_def)
next
  case False
  then show ?thesis using wf
    by (cases "unat (ms_rx_count s) < 7"; cases "mb_arg s 4 = 0 \<or> mb_arg s 4 > 1968";
        cases "unat (ms_rx_buffer s ! 6) = (unat (mb_arg s 4) + 7) div 8";
        cases "unat (mb_arg s 2) + unat (mb_arg s 4) \<le> 64")
      (auto simp: mb_process_write_multiple_coils_def mb_rx16_eq mb_load_rx mb_sizes)
qed

lemma mb_dispatch_handled:
  assumes "mb_wf s" and "ms_rx_buffer s ! 0 = ms_address s"
  shows "mb_handled s (mb_dispatch f s)"
  using mb_read_coils_handled mb_read_discrete_handled mb_read_holding_handled
    mb_read_input_handled mb_write_single_coil_handled mb_write_single_register_handled
    mb_write_multiple_coils_handled mb_write_multiple_registers_handled assms
  by (auto simp: mb_dispatch_def)

subsection \<open>Frames\<close>

definition mb_rx :: "mb_slave \<Rightarrow> u8 list" where
  "mb_rx s = take (unat (ms_rx_count s)) (ms_rx_buffer s)"

lemma length_mb_rx: "mb_wf s \<Longrightarrow> length (mb_rx s) = unat (ms_rx_count s)"
  by (simp add: mb_rx_def mb_wf_def)

text \<open>The CRC check accepts exactly the frames that end in the CRC of what precedes it.\<close>

lemma mb_frame_iff:
  assumes "2 \<le> length f"
  shows "push_bit 8 (ucast (f ! (length f - 1))) OR ucast (f ! (length f - 2))
      = mb_crc (take (length f - 2) f)
    \<longleftrightarrow> f = mb_frame (take (length f - 2) f)"
proof -
  obtain g hi where g: "f = g @ [hi]" using assms by (cases f rule: rev_cases) auto
  obtain h lo where h: "g = h @ [lo]" using assms g by (cases g rule: rev_cases) auto
  show ?thesis
    using mb_crc_tail_word [of hi lo "mb_crc h"]
    by (auto simp: g h nth_append mb_frame_def)
qed

lemma mb_frame_split: "mb_frame body = f \<Longrightarrow> f = mb_frame (take (length f - 2) f)"
  by (auto simp: mb_frame_def mb_crc_tail_def)

definition mb_crc_ok :: "mb_slave \<Rightarrow> bool" where
  "mb_crc_ok s \<longleftrightarrow> (\<exists>body. mb_rx s = mb_frame body)"

lemma mb_process_frame_eq:
  assumes wf: "mb_wf s"
  shows "mb_slave_process_frame s =
    (if unat (ms_rx_count s) < 4
        \<or> ms_rx_buffer s ! 0 \<noteq> ms_address s \<and> ms_rx_buffer s ! 0 \<noteq> 0 then Some s
     else if \<not> mb_crc_ok s then Some (s\<lparr>ms_crc_error_count := ms_crc_error_count s + 1\<rparr>)
     else (let s1 = s\<lparr>ms_request_count := ms_request_count s + 1\<rparr> in
       if ms_rx_buffer s ! 0 = 0 then Some s1
       else do {
         (e, s2) \<leftarrow> mb_dispatch (ms_rx_buffer s ! Suc 0) s1;
         if e \<noteq> MB_EX_NONE then do {
           s3 \<leftarrow> mb_send_exception s2 (ms_rx_buffer s ! Suc 0) e;
           Some (s3\<lparr>ms_exception_count := ms_exception_count s3 + 1\<rparr>) }
         else Some s2 }))"
proof (cases "unat (ms_rx_count s) < 4")
  case True
  then show ?thesis by (simp add: mb_slave_process_frame_def)
next
  case False
  let ?n = "unat (ms_rx_count s)"
  have n: "?n \<le> 256" "length (ms_rx_buffer s) = 256" "4 \<le> ?n"
    using wf False by (auto simp: mb_wf_def)
  have l: "length (mb_rx s) = ?n" using length_mb_rx [OF wf] .
  have ld: "mem_load (ms_rx_buffer s) (?n - 1) = Some (mb_rx s ! (?n - 1))"
    "mem_load (ms_rx_buffer s) (?n - 2) = Some (mb_rx s ! (?n - 2))"
    "mem_load (ms_rx_buffer s) 0 = Some (ms_rx_buffer s ! 0)"
    "mem_load (ms_rx_buffer s) 1 = Some (ms_rx_buffer s ! 1)"
    using n by (simp_all add: mem_load_def mb_rx_def)
  have "unat (ms_rx_count s - 2) = ?n - 2" using n by (subst unat_sub_u16) auto
  then have crc: "mb_crc16 (ms_rx_buffer s) (ms_rx_count s - 2) = Some (mb_crc (take (?n - 2) (mb_rx s)))"
    using n by (simp add: mb_crc16_eq mem_read_def mb_rx_def min_def)
  have ok: "mb_crc_ok s \<longleftrightarrow> push_bit 8 (ucast (mb_rx s ! (?n - 1))) OR ucast (mb_rx s ! (?n - 2))
      = mb_crc (take (?n - 2) (mb_rx s))"
    using mb_frame_iff [of "mb_rx s"] n(3) mb_frame_split [of _ "mb_rx s"]
    by (auto simp: mb_crc_ok_def l)
  show ?thesis
    using False
    by (simp add: mb_slave_process_frame_def ld ld [unfolded One_nat_def] crc Let_def ok)
qed

text \<open>A slave that has just received a frame.\<close>

definition mb_load_frame :: "mb_slave \<Rightarrow> u8 list \<Rightarrow> mb_slave" where
  "mb_load_frame s f = s\<lparr>ms_rx_buffer := f @ drop (length f) (ms_rx_buffer s),
     ms_rx_count := of_nat (length f)\<rparr>"

lemma mb_load_frame_wf: "mb_wf s \<Longrightarrow> length f \<le> 256 \<Longrightarrow> mb_wf (mb_load_frame s f)"
  by (simp add: mb_wf_def mb_load_frame_def unat_of_nat_u16)

lemma mb_rx_load: "length f \<le> 256 \<Longrightarrow> mb_rx (mb_load_frame s f) = f"
  by (simp add: mb_rx_def mb_load_frame_def unat_of_nat_u16)

text \<open>A well-formed request to this slave: the request is counted and dispatched.\<close>

lemma mb_process_request:
  assumes wf: "mb_wf s" and ad: "ms_address s \<noteq> 0"
    and len: "length args \<le> 252"
    and s0: "s0 = mb_load_frame s (mb_frame (ms_address s # f # args))"
  shows "mb_slave_process_frame s0 = do {
      (e, s2) \<leftarrow> mb_dispatch f (s0\<lparr>ms_request_count := ms_request_count s0 + 1\<rparr>);
      if e \<noteq> MB_EX_NONE then do {
        s3 \<leftarrow> mb_send_exception s2 f e;
        Some (s3\<lparr>ms_exception_count := ms_exception_count s3 + 1\<rparr>) }
      else Some s2 }"
proof -
  let ?fr = "mb_frame (ms_address s # f # args)"
  have l: "length ?fr = length args + 4" "length ?fr \<le> 256" using len by simp_all
  have "mb_crc_ok s0" using l unfolding mb_crc_ok_def s0 by (subst mb_rx_load) auto
  moreover have "unat (ms_rx_count s0) = length args + 4"
    using l len unfolding s0 by (simp add: mb_load_frame_def unat_of_nat_u16 del: of_nat_add of_nat_Suc)
  moreover have "ms_rx_buffer s0 ! 0 = ms_address s" "ms_rx_buffer s0 ! Suc 0 = f"
    "ms_address s0 = ms_address s"
    unfolding s0 by (simp_all add: mb_load_frame_def mb_frame_def)
  moreover have "mb_wf s0" unfolding s0 by (rule mb_load_frame_wf [OF wf l(2)])
  ultimately show ?thesis
    using mb_process_frame_eq [of s0] ad by (simp cong del: if_weak_cong)
qed

lemma mb_arg_load:
  assumes "body ! i = ucast (drop_bit 8 v)" and "body ! Suc i = ucast v" and "Suc i < length body"
  shows "mb_arg (mb_load_frame s (mb_frame body)) i = v"
  using assms mb_crc_word_tail [of v]
  by (simp add: mb_arg_def mb_load_frame_def mb_frame_def nth_append)

lemma mb_reg_bytes_nth:
  "k < length vs \<Longrightarrow> mb_reg_bytes vs ! (2 * k) = ucast (drop_bit 8 (vs ! k))
    \<and> mb_reg_bytes vs ! Suc (2 * k) = ucast (vs ! k)"
proof (induction vs arbitrary: k)
  case (Cons v vs)
  then show ?case by (cases k) (simp_all add: mb_reg_bytes_def)
qed simp

end
