(* ===== verification/Mb_Properties.thy ===== *)
theory Mb_Properties
  imports Mb_Slave_Correct
begin

text \<open>
  Properties of the Modbus slave as its master sees them: safety on every frame, integrity of
  the answers, rejection of damaged frames, the write/read round trip over the wire, the
  exception codes, reception timing, and the short-frame flaw.
\<close>

subsection \<open>Reception\<close>

text \<open>Bytes that arrive with their times, each received by \<open>mb_slave_receive_byte\<close>.\<close>

fun mb_receive_all :: "(u32 \<times> u8) list \<Rightarrow> mb_slave \<Rightarrow> mb_slave option" where
  "mb_receive_all [] s = Some s"
| "mb_receive_all ((t, b) # xs) s = do { s' \<leftarrow> mb_slave_receive_byte t s b; mb_receive_all xs s' }"

text \<open>No gap between consecutive bytes exceeds the frame timeout.\<close>

fun mb_no_gap :: "u32 \<Rightarrow> u32 \<Rightarrow> u32 list \<Rightarrow> bool" where
  "mb_no_gap timeout t [] = True"
| "mb_no_gap timeout t (u # us) \<longleftrightarrow> u - t \<le> timeout \<and> mb_no_gap timeout u us"

lemma mb_receive_byte_append:
  assumes "mb_wf s" and "unat (ms_rx_count s) < 256"
    and "ms_rx_count s = 0 \<or> t - ms_last_rx_time s \<le> ms_frame_timeout s"
  shows "\<exists>s'. mb_slave_receive_byte t s b = Some s' \<and> mb_wf s'
    \<and> mb_rx s' = mb_rx s @ [b] \<and> unat (ms_rx_count s') = Suc (unat (ms_rx_count s))
    \<and> s' = s\<lparr>ms_rx_buffer := ms_rx_buffer s', ms_rx_count := ms_rx_count s', ms_last_rx_time := t\<rparr>"
proof -
  have c: "unat (ms_rx_count s + 1) = Suc (unat (ms_rx_count s))"
    using assms(2) by (subst unat_add_u16) auto
  have ng: "\<not> (ms_rx_count s > 0 \<and> t - ms_last_rx_time s > ms_frame_timeout s)"
    using assms(3) by (auto simp: word_gt_0 not_less)
  have l: "unat (ms_rx_count s) < length (ms_rx_buffer s)"
    using assms(1,2) by (simp add: mb_wf_def)
  have "mb_slave_receive_byte t s b = Some (s\<lparr>ms_last_rx_time := t,
      ms_rx_buffer := (ms_rx_buffer s)[unat (ms_rx_count s) := b],
      ms_rx_count := ms_rx_count s + 1\<rparr>)"
    using assms(2) l by (simp only: mb_slave_receive_byte_def Let_def if_not_P [OF ng])
      (simp add: mb_sizes mem_store_def)
  then show ?thesis
    using assms(1,2) c l take_Suc_update [OF l, of b]
    by (simp add: mb_rx_def mb_wf_def)
qed

lemma mb_receive_all_append:
  assumes "mb_wf s" and "unat (ms_rx_count s) + length xs \<le> 256" and "0 < unat (ms_rx_count s)"
    and "mb_no_gap (ms_frame_timeout s) (ms_last_rx_time s) (map fst xs)"
  shows "\<exists>s'. mb_receive_all xs s = Some s' \<and> mb_wf s' \<and> mb_rx s' = mb_rx s @ map snd xs
    \<and> unat (ms_rx_count s') = unat (ms_rx_count s) + length xs
    \<and> ms_last_rx_time s' = last (ms_last_rx_time s # map fst xs)
    \<and> s' = s\<lparr>ms_rx_buffer := ms_rx_buffer s', ms_rx_count := ms_rx_count s',
             ms_last_rx_time := ms_last_rx_time s'\<rparr>"
  using assms
proof (induction xs arbitrary: s)
  case (Cons x xs)
  obtain t b where x: "x = (t, b)" by fastforce
  obtain s1 where s1: "mb_slave_receive_byte t s b = Some s1" "mb_wf s1" "mb_rx s1 = mb_rx s @ [b]"
    "unat (ms_rx_count s1) = Suc (unat (ms_rx_count s))"
    "s1 = s\<lparr>ms_rx_buffer := ms_rx_buffer s1, ms_rx_count := ms_rx_count s1, ms_last_rx_time := t\<rparr>"
    using mb_receive_byte_append [OF Cons.prems(1), of t b] Cons.prems x by auto
  have fr: "ms_last_rx_time s1 = t" "ms_frame_timeout s1 = ms_frame_timeout s"
    by (subst s1(5), simp)+
  obtain s' where s': "mb_receive_all xs s1 = Some s'" "mb_wf s'"
    "mb_rx s' = mb_rx s1 @ map snd xs" "unat (ms_rx_count s') = unat (ms_rx_count s1) + length xs"
    "ms_last_rx_time s' = last (t # map fst xs)"
    "s' = s1\<lparr>ms_rx_buffer := ms_rx_buffer s', ms_rx_count := ms_rx_count s',
             ms_last_rx_time := ms_last_rx_time s'\<rparr>"
    using Cons.IH [OF s1(2)] Cons.prems s1(4) fr x by auto
  have "s' = s\<lparr>ms_rx_buffer := ms_rx_buffer s', ms_rx_count := ms_rx_count s',
             ms_last_rx_time := ms_last_rx_time s'\<rparr>"
    using s'(6) s1(5) by (cases s; cases s1; cases s') simp
  then show ?case
    using s1(1,3,4) s'(1-5) x by (intro exI [of _ s']) simp
qed (cases "s", simp)

subsection \<open>Properties\<close>

definition mb_zero :: mb_slave where
  "mb_zero = \<lparr>ms_address = 17, ms_baudrate = 9600, ms_coils = replicate 9 0,
     ms_discrete = replicate 9 0, ms_input_regs = replicate 32 0,
     ms_holding_regs = replicate 32 0, ms_rx_buffer = replicate 256 0, ms_rx_count = 0,
     ms_tx_buffer = replicate 256 0, ms_tx_count = 0, ms_last_rx_time = 0,
     ms_frame_timeout = 5, ms_request_count = 0, ms_exception_count = 0,
     ms_crc_error_count = 0, ms_on_coil_write = None, ms_on_register_write = None,
     ms_trace = []\<rparr>"

lemma mb_zero_wf: "mb_wf mb_zero"
  by (simp add: mb_wf_def mb_zero_def)

definition is_send :: "mb_event \<Rightarrow> bool" where
  "is_send e = (case e of UartSend _ \<Rightarrow> True | _ \<Rightarrow> False)"

lemma mb_dispatch_effect:
  assumes "mb_wf s" and "ms_rx_buffer s ! 0 = ms_address s"
    and "s' = (do {
      (e, s2) \<leftarrow> mb_dispatch f s;
      if e \<noteq> MB_EX_NONE then do {
        s3 \<leftarrow> mb_send_exception s2 f e;
        Some (s3\<lparr>ms_exception_count := ms_exception_count s3 + 1\<rparr>) }
      else Some s2 })"
  shows "\<exists>t evs body. s' = Some t \<and> mb_wf t \<and> ms_address t = ms_address s
    \<and> ms_trace t = ms_trace s @ evs @ [UartSend (mb_frame (ms_address s # body))]
    \<and> (\<forall>f. UartSend f \<notin> set evs)"
  using mb_dispatch_handled [OF assms(1,2), of f] unfolding mb_handled_def
proof (elim disjE exE conjE)
  fix s1 t body
  assume d: "mb_dispatch f s = Some (MB_EX_NONE, t)" and side: "mb_side s s1" and wf: "mb_wf s1"
    and ans: "mb_answer s1 (ms_address s # body) t"
  obtain evs where "ms_trace s1 = ms_trace s @ evs" "\<forall>f. UartSend f \<notin> set evs"
    "ms_address s1 = ms_address s"
    using side by (auto simp: mb_side_def)
  then show ?thesis
    using assms(3) d mb_answer_frame [OF ans] mb_answer_wf [OF ans wf]
    by (intro exI [of _ t] exI [of _ evs] exI [of _ body]) simp
next
  fix e
  assume d: "mb_dispatch f s = Some (e, s)" and e: "e \<in> {MB_EX_ILLEGAL_FUNCTION,
      MB_EX_ILLEGAL_DATA_ADDRESS, MB_EX_ILLEGAL_DATA_VALUE}"
  obtain s3 where s3: "mb_send_exception s f e = Some s3"
    "mb_answer s (ms_address s # [f OR 0x80, mb_exception_code e]) s3"
    using mb_send_exception_answer [OF mb_wf_tx [OF assms(1)], of f e] by auto
  then show ?thesis
    using assms(3) d e mb_answer_frame [OF s3(2)] mb_answer_wf [OF s3(2) assms(1)]
    by (intro exI [of _ "s3\<lparr>ms_exception_count := ms_exception_count s3 + 1\<rparr>"] exI [of _ "[]"]
        exI [of _ "[f OR 0x80, mb_exception_code e]"]) (auto simp: mb_wf_def)
qed

text \<open>
  C4. Whatever bytes were received, processing them never leaves a buffer or a bank, keeps the
  invariant, and sends at most one frame, which carries the slave's address and a CRC under
  which the whole frame has residue zero, so that the slave's own check accepts it.
\<close>

theorem mb_process_frame_safe:
  assumes "mb_wf s"
  shows "\<exists>t evs. mb_slave_process_frame s = Some t \<and> mb_wf t \<and> ms_address t = ms_address s
    \<and> ms_trace t = ms_trace s @ evs \<and> length (filter is_send evs) \<le> 1
    \<and> (\<forall>f. UartSend f \<in> set evs \<longrightarrow> f ! 0 = ms_address s \<and> fold mb_crc_byte f 0xFFFF = 0)"
proof -
  have quiet: ?thesis if "mb_slave_process_frame s = Some t" "mb_wf t" "ms_address t = ms_address s"
    "ms_trace t = ms_trace s" for t
    using that by (intro exI [of _ t] exI [of _ "[]"]) simp
  note pf = mb_process_frame_eq [OF assms]
  let ?s1 = "s\<lparr>ms_request_count := ms_request_count s + 1\<rparr>"
  show ?thesis
  proof (cases "unat (ms_rx_count s) < 4
      \<or> ms_rx_buffer s ! 0 \<noteq> ms_address s \<and> ms_rx_buffer s ! 0 \<noteq> 0")
    case True
    show ?thesis by (rule quiet [of s]) (use pf True assms in simp_all)
  next
    case mine: False
    show ?thesis
    proof (cases "mb_crc_ok s \<and> ms_rx_buffer s ! 0 \<noteq> 0")
      case False
      show ?thesis
      proof (cases "mb_crc_ok s")
        case True
        show ?thesis by (rule quiet [of ?s1]) (use pf True False mine assms in \<open>simp_all add: mb_wf_def\<close>)
      next
        case nok: False
        show ?thesis by (rule quiet [of "s\<lparr>ms_crc_error_count := ms_crc_error_count s + 1\<rparr>"])
            (use pf nok mine assms in \<open>simp_all add: mb_wf_def\<close>)
      qed
    next
      case True
      then have ad: "ms_rx_buffer ?s1 ! 0 = ms_address ?s1" using mine by simp
      have wf1: "mb_wf ?s1" using assms by (simp add: mb_wf_def)
      from mb_dispatch_effect [OF wf1 ad refl, of "ms_rx_buffer s ! Suc 0"]
      obtain t evs body where t: "mb_slave_process_frame s = Some t" "mb_wf t"
        "ms_address t = ms_address s"
        "ms_trace t = ms_trace s @ evs @ [UartSend (mb_frame (ms_address s # body))]"
        "\<forall>f. UartSend f \<notin> set evs"
        using pf mine True by (auto simp: Let_def)
      have "filter is_send evs = []"
        using t(5) by (auto simp: filter_empty_conv is_send_def split: mb_event.splits)
      then show ?thesis
        using t mb_crc_residue [of "ms_address s # body"]
        by (intro exI [of _ t] exI [of _ "evs @ [UartSend (mb_frame (ms_address s # body))]"])
          (auto simp: is_send_def mb_frame_def)
    qed
  qed
qed

theorem mb_process_frame_safe_witness:
  "\<exists>t evs. mb_slave_process_frame (mb_zero\<lparr>ms_rx_count := 200\<rparr>) = Some t \<and> mb_wf t
    \<and> ms_address t = ms_address (mb_zero\<lparr>ms_rx_count := 200\<rparr>)
    \<and> ms_trace t = ms_trace (mb_zero\<lparr>ms_rx_count := 200\<rparr>) @ evs \<and> length (filter is_send evs) \<le> 1
    \<and> (\<forall>f. UartSend f \<in> set evs \<longrightarrow>
        f ! 0 = ms_address (mb_zero\<lparr>ms_rx_count := 200\<rparr>) \<and> fold mb_crc_byte f 0xFFFF = 0)"
  by (rule mb_process_frame_safe) (simp add: mb_wf_def mb_zero_def)

text \<open>
  C5. A frame that was valid when sent and was damaged in one byte, wherever the byte is and
  whatever it became, is never obeyed: no bank changes and nothing is sent, and the slave at most
  counts a CRC error.
\<close>

theorem mb_damaged_byte_ignored:
  assumes "mb_wf s" and "mb_rx s = xs @ b # ys" and "xs @ a # ys = mb_frame body" and "a \<noteq> b"
  shows "mb_slave_process_frame s = Some s
    \<or> mb_slave_process_frame s = Some (s\<lparr>ms_crc_error_count := ms_crc_error_count s + 1\<rparr>)"
proof -
  have "\<not> mb_crc_ok s"
  proof
    assume "mb_crc_ok s"
    then obtain body' where "xs @ b # ys = mb_frame body'" using assms(2) by (auto simp: mb_crc_ok_def)
    then have "mb_crc (xs @ b # ys) = 0" by (simp only: mb_frame_def mb_crc_residue)
    moreover have "mb_crc (xs @ a # ys) = 0" by (simp only: assms(3) mb_frame_def mb_crc_residue)
    ultimately show False using mb_crc_one_byte [OF assms(4)] by metis
  qed
  then show ?thesis using mb_process_frame_eq [OF assms(1)] by simp
qed

theorem mb_damaged_byte_ignored_witness:
  "mb_slave_process_frame (mb_load_frame mb_zero ([17, 3, 0] @ 9 # mb_crc_tail (mb_crc [17, 3, 0, 1])))
      = Some (mb_load_frame mb_zero ([17, 3, 0] @ 9 # mb_crc_tail (mb_crc [17, 3, 0, 1])))
    \<or> mb_slave_process_frame (mb_load_frame mb_zero ([17, 3, 0] @ 9 # mb_crc_tail (mb_crc [17, 3, 0, 1])))
      = Some ((mb_load_frame mb_zero ([17, 3, 0] @ 9 # mb_crc_tail (mb_crc [17, 3, 0, 1])))
          \<lparr>ms_crc_error_count := ms_crc_error_count
             (mb_load_frame mb_zero ([17, 3, 0] @ 9 # mb_crc_tail (mb_crc [17, 3, 0, 1]))) + 1\<rparr>)"
proof (rule mb_damaged_byte_ignored [where a = 1 and body = "[17, 3, 0, 1]"])
  have l: "length ([17, 3, 0] @ 9 # mb_crc_tail (mb_crc [17, 3, 0, 1])) \<le> 256"
    by (simp add: mb_crc_tail_def)
  show "mb_wf (mb_load_frame mb_zero ([17, 3, 0] @ 9 # mb_crc_tail (mb_crc [17, 3, 0, 1])))"
    by (rule mb_load_frame_wf [OF mb_zero_wf l])
  show "mb_rx (mb_load_frame mb_zero ([17, 3, 0] @ 9 # mb_crc_tail (mb_crc [17, 3, 0, 1])))
      = [17, 3, 0] @ 9 # mb_crc_tail (mb_crc [17, 3, 0, 1])"
    by (rule mb_rx_load [OF l])
  show "[17, 3, 0] @ 1 # mb_crc_tail (mb_crc [17, 3, 0, 1]) = mb_frame [17, 3, 0, 1]"
    by (simp only: mb_frame_def append.simps)
qed simp

subsection \<open>Requests over the wire\<close>

definition mb_write_request :: "u8 \<Rightarrow> u16 \<Rightarrow> u16 list \<Rightarrow> u8 list" where
  "mb_write_request addr start vs = mb_frame (addr # 0x10 #
     (mb_reg_bytes [start, of_nat (length vs)] @ [of_nat (2 * length vs)] @ mb_reg_bytes vs))"

definition mb_read_request :: "u8 \<Rightarrow> u16 \<Rightarrow> nat \<Rightarrow> u8 list" where
  "mb_read_request addr start q = mb_frame (addr # 0x03 # mb_reg_bytes [start, of_nat q])"

lemma mb_arg_request_count [simp]: "mb_arg (s\<lparr>ms_request_count := n\<rparr>) i = mb_arg s i"
  by (simp add: mb_arg_def)

lemma mb_wf_request_count [simp]: "mb_wf (s\<lparr>ms_request_count := n\<rparr>) = mb_wf s"
  by (simp add: mb_wf_def)

lemma mb_load_fields [simp]:
  "ms_address (mb_load_frame s f) = ms_address s"
  "ms_holding_regs (mb_load_frame s f) = ms_holding_regs s"
  "ms_coils (mb_load_frame s f) = ms_coils s" "ms_trace (mb_load_frame s f) = ms_trace s"
  "ms_exception_count (mb_load_frame s f) = ms_exception_count s"
  by (simp_all add: mb_load_frame_def)

lemma mb_load_count: "length f < 65536 \<Longrightarrow> unat (ms_rx_count (mb_load_frame s f)) = length f"
  by (simp add: mb_load_frame_def unat_of_nat_u16)

text \<open>The two fields every read and multiple-write request starts with.\<close>

lemma mb_request_fields:
  assumes "f = mb_frame (addr # fc # (mb_reg_bytes [start, q] @ rest))"
  shows "mb_arg (mb_load_frame s f) 2 = start" and "mb_arg (mb_load_frame s f) 4 = q"
  unfolding assms by (rule mb_arg_load, simp_all add: mb_reg_bytes_def numeral_eq_Suc)+


lemma mb_write_request_step:
  assumes wf: "mb_wf s" and ad: "ms_address s \<noteq> 0" and ne: "vs \<noteq> []"
    and rng: "unat start + length vs \<le> 32"
  shows "\<exists>t. mb_slave_process_frame (mb_load_frame s (mb_write_request (ms_address s) start vs)) = Some t
    \<and> mb_wf t \<and> ms_address t = ms_address s
    \<and> ms_holding_regs t = take (unat start) (ms_holding_regs s) @ vs
        @ drop (unat start + length vs) (ms_holding_regs s)"
proof -
  let ?q = "of_nat (length vs) :: u16"
  let ?args = "mb_reg_bytes [start, ?q] @ [of_nat (2 * length vs)] @ mb_reg_bytes vs"
  let ?s0 = "mb_load_frame s (mb_frame (ms_address s # 0x10 # ?args))"
  let ?s1 = "?s0\<lparr>ms_request_count := ms_request_count ?s0 + 1\<rparr>"
  have q: "unat ?q = length vs" "?q \<noteq> 0"
  proof -
    show u: "unat ?q = length vs" using rng by (intro unat_of_nat_u16) simp
    then show "?q \<noteq> 0" using ne by auto
  qed
  have la: "length ?args = 5 + 2 * length vs" by simp
  have wf1: "mb_wf ?s1" using la rng by (simp add: mb_load_frame_wf [OF wf])
  have a: "mb_arg ?s1 2 = start" "mb_arg ?s1 4 = ?q" using mb_request_fields [OF refl] by simp_all
  have "ms_rx_buffer ?s1 ! 6 = of_nat (2 * length vs)"
    by (simp add: mb_load_frame_def mb_frame_def nth_append mb_reg_bytes_def numeral_eq_Suc)
  then have bc: "unat (ms_rx_buffer ?s1 ! 6) = 2 * unat (mb_arg ?s1 4)"
    using rng q(1) by (simp only: a) (subst unat_of_nat_u8, simp_all)
  have cnt: "7 + 2 * unat (mb_arg ?s1 4) \<le> unat (ms_rx_count ?s1)"
    using la rng q(1) by (simp only: a) (simp add: mb_load_count)
  have val: "mb_arg ?s1 (7 + k * 2) = vs ! k" if k: "k < length vs" for k
  proof -
    have "(ms_address s # 0x10 # ?args) ! (7 + k * 2) = mb_reg_bytes vs ! (2 * k)"
      "(ms_address s # 0x10 # ?args) ! Suc (7 + k * 2) = mb_reg_bytes vs ! Suc (2 * k)"
      by (simp_all add: nth_append mult.commute)
    then show ?thesis
      using mb_reg_bytes_nth [OF k] k la
      by (simp only: mb_arg_request_count) (rule mb_arg_load, simp_all)
  qed
  have "map (\<lambda>j. mb_arg ?s1 (7 + j * 2)) [0..<length vs] = map ((!) vs) [0..<length vs]"
    by (rule map_cong [OF refl], rule val) simp
  then have vals: "mb_request_values ?s1 = vs"
    by (simp only: mb_request_values_def a q(1) map_nth)
  obtain s2 t where t: "mb_process_write_multiple_registers ?s1 = Some (MB_EX_NONE, t)" "mb_wf s2"
    "same_but_holding ?s1 s2"
    "mb_answer s2 (mb_range_body (ms_address ?s1) 0x10 (mb_arg ?s1 2) (mb_arg ?s1 4)) t"
    "ms_holding_regs s2 = take (unat start) (ms_holding_regs s) @ vs
        @ drop (unat start + length vs) (ms_holding_regs s)"
    using mb_write_multiple_registers_answer [OF wf1 cnt _ bc] q rng
    unfolding vals a by auto
  have "length ?args \<le> 252" using la rng by simp
  then have "mb_slave_process_frame ?s0 = Some t"
    using mb_process_request [OF wf ad _ refl, of ?args "0x10"] t(1) by (simp add: mb_dispatch_def)
  then show ?thesis
    using t mb_answer_frame [OF t(4)] mb_answer_wf [OF t(4,2)] mb_wf_frame(2) [OF t(3)]
    by (simp add: mb_write_request_def)
qed

lemma mb_read_request_step:
  assumes wf: "mb_wf s" and ad: "ms_address s \<noteq> 0" and q0: "0 < q"
    and rng: "unat start + q \<le> 32"
  shows "\<exists>t. mb_slave_process_frame (mb_load_frame s (mb_read_request (ms_address s) start q)) = Some t
    \<and> ms_trace t = ms_trace s @ [UartSend (mb_frame (ms_address s # 3 # of_nat (2 * q)
        # mb_reg_bytes (take q (drop (unat start) (ms_holding_regs s)))))]
    \<and> ms_holding_regs t = ms_holding_regs s"
proof -
  let ?args = "mb_reg_bytes [start, of_nat q] @ []"
  let ?s0 = "mb_load_frame s (mb_frame (ms_address s # 0x03 # ?args))"
  let ?s1 = "?s0\<lparr>ms_request_count := ms_request_count ?s0 + 1\<rparr>"
  have q: "unat (of_nat q :: u16) = q" "of_nat q \<noteq> (0::u16)"
  proof -
    show u: "unat (of_nat q :: u16) = q" using rng by (intro unat_of_nat_u16) simp
    then show "of_nat q \<noteq> (0::u16)" using q0 by auto
  qed
  have wf1: "mb_wf ?s1" by (simp add: mb_load_frame_wf [OF wf])
  have a: "mb_arg ?s1 2 = start" "mb_arg ?s1 4 = of_nat q"
    using mb_request_fields [OF refl] by (simp_all only: mb_arg_request_count)
  have cnt: "6 \<le> unat (ms_rx_count ?s1)" by (simp add: mb_load_count)
  obtain t where t: "mb_process_read_holding_registers ?s1 = Some (MB_EX_NONE, t)"
    "mb_answer ?s1 (ms_address ?s1 # 3 # of_nat (q * 2)
        # mb_reg_bytes (take q (drop (unat start) (ms_holding_regs ?s1)))) t"
    using mb_read_holding_answer [OF wf1 cnt] unfolding a q(1) using q(2) rng by blast
  have "length ?args \<le> 252" by simp
  then have "mb_slave_process_frame ?s0 = Some t"
    using mb_process_request [OF wf ad _ refl, of ?args "0x03"] t(1) by (simp add: mb_dispatch_def)
  then show ?thesis
    using mb_answer_frame [OF t(2)]
    by (intro exI [of _ t]) (simp add: mb_read_request_def mult.commute)
qed

text \<open>
  C6. Registers written over the wire are read back over the wire: after a write-multiple-registers
  request, a read-holding-registers request for the same range is answered with exactly the
  values written, in a correctly framed response.
\<close>

theorem mb_write_read_roundtrip:
  assumes "mb_wf s" and "ms_address s \<noteq> 0" and "vs \<noteq> []" and "unat start + length vs \<le> 32"
  shows "\<exists>t u. mb_slave_process_frame (mb_load_frame s (mb_write_request (ms_address s) start vs)) = Some t
    \<and> mb_slave_process_frame (mb_load_frame t (mb_read_request (ms_address s) start (length vs))) = Some u
    \<and> ms_trace u = ms_trace t @
        [UartSend (mb_frame (ms_address s # 3 # of_nat (2 * length vs) # mb_reg_bytes vs))]"
proof -
  obtain t where t: "mb_slave_process_frame (mb_load_frame s (mb_write_request (ms_address s) start vs)) = Some t"
    "mb_wf t" "ms_address t = ms_address s"
    "ms_holding_regs t = take (unat start) (ms_holding_regs s) @ vs
        @ drop (unat start + length vs) (ms_holding_regs s)"
    using mb_write_request_step [OF assms] by blast
  have "length (ms_holding_regs s) = 32" using assms(1) by (simp add: mb_wf_def)
  then have "take (length vs) (drop (unat start) (ms_holding_regs t)) = vs"
    using assms(4) t(4) by simp
  then show ?thesis
    using mb_read_request_step [OF t(2), of "length vs" start] t(1,3) assms by auto
qed

theorem mb_write_read_roundtrip_witness:
  "\<exists>t u. mb_slave_process_frame (mb_load_frame mb_zero (mb_write_request (ms_address mb_zero) 30 [7, 0xABCD])) = Some t
    \<and> mb_slave_process_frame (mb_load_frame t (mb_read_request (ms_address mb_zero) 30 (length [7, 0xABCD :: u16]))) = Some u
    \<and> ms_trace u = ms_trace t @
        [UartSend (mb_frame (ms_address mb_zero # 3 # of_nat (2 * length [7, 0xABCD :: u16])
           # mb_reg_bytes [7, 0xABCD]))]"
  by (rule mb_write_read_roundtrip [OF mb_zero_wf]) (simp_all add: mb_zero_def)

subsection \<open>Refusals, timing and short frames\<close>


lemma mb_load_banks [simp]:
  "ms_discrete (mb_load_frame s f) = ms_discrete s"
  "ms_input_regs (mb_load_frame s f) = ms_input_regs s"
  by (simp_all add: mb_load_frame_def)











text \<open>
  Frame reception: bytes that arrive without a gap above the frame timeout are assembled in
  order; a poll before the timeout changes nothing, and a poll after it processes exactly the
  frame that was sent and empties the receiver.
\<close>

theorem mb_frame_assembly:
  assumes "mb_wf s" and "ms_rx_count s = 0" and "length xs < 256"
    and "mb_no_gap (ms_frame_timeout s) t (map fst xs)"
  shows "\<exists>r. mb_receive_all ((t, b) # xs) s = Some r \<and> mb_rx r = b # map snd xs
    \<and> ms_trace r = ms_trace s \<and> ms_holding_regs r = ms_holding_regs s
    \<and> (\<forall>now. mb_slave_poll r now =
        (if now - last (t # map fst xs) < ms_frame_timeout s then Some r
         else map_option (\<lambda>u. u\<lparr>ms_rx_count := 0\<rparr>) (mb_slave_process_frame r)))"
proof -
  obtain s1 where s1: "mb_slave_receive_byte t s b = Some s1" "mb_wf s1" "mb_rx s1 = mb_rx s @ [b]"
    "unat (ms_rx_count s1) = 1"
    "s1 = s\<lparr>ms_rx_buffer := ms_rx_buffer s1, ms_rx_count := ms_rx_count s1, ms_last_rx_time := t\<rparr>"
    using mb_receive_byte_append [OF assms(1), of t b] assms(2) by auto
  have fr: "ms_last_rx_time s1 = t" "ms_frame_timeout s1 = ms_frame_timeout s"
    by (subst s1(5), simp)+
  obtain r where r: "mb_receive_all xs s1 = Some r" "mb_rx r = mb_rx s1 @ map snd xs"
    "unat (ms_rx_count r) = 1 + length xs" "ms_last_rx_time r = last (t # map fst xs)"
    "r = s1\<lparr>ms_rx_buffer := ms_rx_buffer r, ms_rx_count := ms_rx_count r,
             ms_last_rx_time := ms_last_rx_time r\<rparr>"
    using mb_receive_all_append [OF s1(2), of xs] s1(4) assms(3,4) fr by auto
  have r': "ms_trace r = ms_trace s" "ms_holding_regs r = ms_holding_regs s"
    "ms_frame_timeout r = ms_frame_timeout s"
    by (subst r(5), subst s1(5), simp)+
  have "mb_rx s = []" using assms(2) by (simp add: mb_rx_def)
  moreover have "ms_rx_count r > 0" using r(3) by (simp add: word_less_nat_alt)
  ultimately show ?thesis
    using s1(1,3) r(1-4) r'
    by (intro exI [of _ r]) (auto simp: mb_slave_poll_def map_option_case not_less bind_def
        split: option.splits)
qed

theorem mb_frame_assembly_witness:
  "\<exists>r. mb_receive_all [(100, 17), (103, 3), (108, 0)] mb_zero = Some r \<and> mb_rx r = [17, 3, 0]
    \<and> ms_trace r = ms_trace mb_zero \<and> ms_holding_regs r = ms_holding_regs mb_zero
    \<and> (\<forall>now. mb_slave_poll r now =
        (if now - last (100 # map fst [(103, 3), (108, 0 :: u8)]) < ms_frame_timeout mb_zero then Some r
         else map_option (\<lambda>u. u\<lparr>ms_rx_count := 0\<rparr>) (mb_slave_process_frame r)))"
  using mb_frame_assembly [OF mb_zero_wf, of "[(103, 3), (108, 0)]" 100 17]
  by (simp add: mb_zero_def)

text \<open>
  The length checks of the handlers count the two CRC bytes as data: a write-single-register
  frame that ends after the address is not refused as too short, and the register receives the
  frame's own CRC, high and low byte swapped.
\<close>

theorem mb_short_write_stores_crc:
  assumes "mb_wf s" and "ms_address s \<noteq> 0" and "unat a < 32"
  shows "\<exists>t crc. mb_slave_process_frame
        (mb_load_frame s (mb_frame (ms_address s # 6 # mb_reg_bytes [a]))) = Some t
    \<and> crc = fold mb_crc_byte (ms_address s # 6 # mb_reg_bytes [a]) 0xFFFF
    \<and> ms_holding_regs t = (ms_holding_regs s)
        [unat a := push_bit 8 (ucast (ucast crc :: u8)) OR ucast (ucast (drop_bit 8 crc) :: u8)]"
proof -
  let ?s0 = "mb_load_frame s (mb_frame (ms_address s # 6 # mb_reg_bytes [a]))"
  let ?s1 = "?s0\<lparr>ms_request_count := ms_request_count ?s0 + 1\<rparr>"
  let ?crc = "mb_crc (ms_address s # 6 # mb_reg_bytes [a])"
  have wf1: "mb_wf ?s1" by (simp add: mb_load_frame_wf [OF assms(1)])
  have a2: "mb_arg ?s1 2 = a"
    unfolding mb_arg_request_count
    by (rule mb_arg_load) (simp_all add: mb_reg_bytes_def numeral_eq_Suc)
  have a4: "mb_arg ?s1 4 = push_bit 8 (ucast (ucast ?crc :: u8)) OR ucast (ucast (drop_bit 8 ?crc) :: u8)"
    by (simp add: mb_arg_def mb_load_frame_def mb_frame_def mb_crc_tail_def mb_reg_bytes_def
        nth_append numeral_eq_Suc del: fold_simps)
  have cnt: "6 \<le> unat (ms_rx_count ?s1)" by (simp add: mb_load_count)
  obtain s2 t where t: "mb_slave_set_holding_register ?s1 a (mb_arg ?s1 4) = Some (0, s2)"
    "mb_process_write_single_register ?s1 = Some (MB_EX_NONE, t)"
    "mb_answer s2 (take 6 (ms_rx_buffer ?s1)) t"
    using mb_write_single_register_answer [OF wf1 cnt] assms(3) unfolding a2 by blast
  have "ms_holding_regs t = (ms_holding_regs s)[unat a := mb_arg ?s1 4]"
    using set_holding_register_eq [OF wf1 assms(3), of "mb_arg ?s1 4"] t(1) mb_answer_frame [OF t(3)]
    by auto
  moreover have "mb_slave_process_frame ?s0 = Some t"
    using mb_process_request [OF assms(1,2) _ refl, of "mb_reg_bytes [a]" 6] t(2)
    by (simp add: mb_dispatch_def)
  ultimately show ?thesis unfolding a4 by blast
qed

theorem mb_short_write_stores_crc_witness:
  "\<exists>t crc. mb_slave_process_frame
        (mb_load_frame mb_zero (mb_frame (ms_address mb_zero # 6 # mb_reg_bytes [5]))) = Some t
    \<and> crc = fold mb_crc_byte (ms_address mb_zero # 6 # mb_reg_bytes [5]) 0xFFFF
    \<and> ms_holding_regs t = (ms_holding_regs mb_zero)
        [unat (5::u16) := push_bit 8 (ucast (ucast crc :: u8)) OR ucast (ucast (drop_bit 8 crc) :: u8)]"
  by (rule mb_short_write_stores_crc [OF mb_zero_wf]) (simp_all add: mb_zero_def)

text \<open>
  A read-coils request for any range of the bank is answered with one bit per coil, coil
  \<open>start + k\<close> in bit \<open>k mod 8\<close> of data byte \<open>k div 8\<close>, the last byte padded with zeros.
\<close>

theorem mb_read_coils_over_wire:
  assumes "mb_wf s" and "ms_address s \<noteq> 0" and "q \<noteq> 0" and "unat start + unat q \<le> 64"
  shows "\<exists>t data. mb_slave_process_frame
        (mb_load_frame s (mb_frame (ms_address s # 1 # mb_reg_bytes [start, q]))) = Some t
    \<and> ms_trace t = ms_trace s @
        [UartSend (mb_frame (ms_address s # 1 # of_nat ((unat q + 7) div 8) # data))]
    \<and> length data = (unat q + 7) div 8
    \<and> (\<forall>k < 8 * length data. bit (data ! (k div 8)) (k mod 8) \<longleftrightarrow>
        k < unat q \<and> bit (ms_coils s ! ((unat start + k) div 8)) ((unat start + k) mod 8))"
proof -
  let ?s0 = "mb_load_frame s (mb_frame (ms_address s # 1 # mb_reg_bytes [start, q]))"
  let ?s1 = "?s0\<lparr>ms_request_count := ms_request_count ?s0 + 1\<rparr>"
  have wf1: "mb_wf ?s1" by (simp add: mb_load_frame_wf [OF assms(1)])
  have a: "mb_arg ?s1 2 = start" "mb_arg ?s1 4 = q"
    using mb_request_fields [OF refl, of s "ms_address s" 1 start q "[]"] by simp_all
  have cnt: "6 \<le> unat (ms_rx_count ?s1)" by (simp add: mb_load_count)
  obtain data t where t: "mb_process_read_coils ?s1 = Some (MB_EX_NONE, t)"
    "mb_bits_data (ms_coils ?s1) start q data"
    "mb_answer ?s1 (ms_address ?s1 # 1 # of_nat ((unat q + 7) div 8) # data) t"
    using mb_read_coils_answer [OF wf1 cnt] assms(3,4) unfolding a by blast
  have "mb_slave_process_frame ?s0 = Some t"
    using mb_process_request [OF assms(1,2) _ refl, of "mb_reg_bytes [start, q]" 1] t(1)
    by (simp add: mb_dispatch_def)
  then show ?thesis
    using t(2) mb_answer_frame [OF t(3)]
    by (intro exI [of _ t] exI [of _ data]) (simp add: mb_bits_data_def bits_at_def)
qed

theorem mb_read_coils_over_wire_witness:
  "\<exists>t data. mb_slave_process_frame
        (mb_load_frame mb_zero (mb_frame (ms_address mb_zero # 1 # mb_reg_bytes [60, 4]))) = Some t
    \<and> ms_trace t = ms_trace mb_zero @
        [UartSend (mb_frame (ms_address mb_zero # 1 # of_nat ((unat (4::u16) + 7) div 8) # data))]
    \<and> length data = (unat (4::u16) + 7) div 8
    \<and> (\<forall>k < 8 * length data. bit (data ! (k div 8)) (k mod 8) \<longleftrightarrow>
        k < unat (4::u16) \<and> bit (ms_coils mb_zero ! ((unat (60::u16) + k) div 8)) ((unat (60::u16) + k) mod 8))"
  by (rule mb_read_coils_over_wire [OF mb_zero_wf]) (simp_all add: mb_zero_def)

end
