(* ===== verification/Xy_Broker.thy ===== *)
theory Xy_Broker
  imports Xy_Fifo
begin

text \<open>
  The message broker of \<open>components/ipc/xy_broker\<close> (\<open>xy_broker.c\<close>, \<open>xy_broker.h\<close>).

  \<open>broker\<close> is the file's static \<open>g_broker\<close> together with the static \<open>tick_count\<close> of
  \<open>broker_get_timestamp\<close>. A pointer to a server or topic is the index of its slot. A handler is
  a number that identifies the client's function, the user data a number as well; what a handler
  does is the argument \<open>call\<close> of the functions that invoke handlers, a change of the broker's
  state, since handlers may call the broker again. The field \<open>br_log\<close> is not in the struct: it
  records, oldest first, the handler invocations.
\<close>

subsection \<open>Configuration and data structures (xy_broker.h)\<close>

definition XY_BROKER_MAX_SERVERS :: nat where "XY_BROKER_MAX_SERVERS = 16"
definition XY_BROKER_MAX_SUBSCRIBERS :: nat where "XY_BROKER_MAX_SUBSCRIBERS = 32"
definition XY_BROKER_MAX_TOPICS :: nat where "XY_BROKER_MAX_TOPICS = 64"
definition XY_BROKER_MSG_QUEUE_SIZE :: nat where "XY_BROKER_MSG_QUEUE_SIZE = 32"
definition XY_BROKER_MAX_MSG_SIZE :: nat where "XY_BROKER_MAX_MSG_SIZE = 256"

datatype broker_rc =
    BROKER_OK | BROKER_ERROR | BROKER_INVALID_PARAM | BROKER_NO_MEMORY | BROKER_QUEUE_FULL
  | BROKER_NOT_FOUND | BROKER_TIMEOUT | BROKER_ALREADY_EXISTS

fun broker_rc_code :: "broker_rc \<Rightarrow> int" where
  "broker_rc_code BROKER_OK = 0"
| "broker_rc_code BROKER_ERROR = -1"
| "broker_rc_code BROKER_INVALID_PARAM = -2"
| "broker_rc_code BROKER_NO_MEMORY = -3"
| "broker_rc_code BROKER_QUEUE_FULL = -4"
| "broker_rc_code BROKER_NOT_FOUND = -5"
| "broker_rc_code BROKER_TIMEOUT = -6"
| "broker_rc_code BROKER_ALREADY_EXISTS = -7"

record broker_msg =
  bm_msg_id :: u16
  bm_src_server :: u16
  bm_dst_server :: u16
  bm_topic_id :: u16
  bm_priority :: u8
  bm_flags :: u8
  bm_seq_num :: u16
  bm_timestamp :: u32
  bm_payload_len :: u16
  bm_payload :: "u8 list"

record broker_subscriber =
  sub_server_id :: u16
  sub_handler :: "nat option"
  sub_user_data :: nat
  sub_active :: u8

record broker_topic =
  tp_topic_id :: u16
  tp_subscribers :: "broker_subscriber list"
  tp_subscriber_count :: u8
  tp_msg_count :: u32

record broker_server =
  sv_server_id :: u16
  sv_handler :: "nat option"
  sv_user_data :: nat
  sv_msg_queue :: "broker_msg list"
  sv_queue_head :: u16
  sv_queue_tail :: u16
  sv_queue_count :: u16
  sv_active :: u8
  sv_msg_received :: u32
  sv_msg_sent :: u32

record broker_stats =
  bs_total_msg_sent :: u32
  bs_total_msg_delivered :: u32
  bs_total_msg_dropped :: u32
  bs_queue_overflow_count :: u32
  bs_active_servers :: u32
  bs_active_topics :: u32

record broker =
  br_servers :: "broker_server list"
  br_topics :: "broker_topic list"
  br_stats :: broker_stats
  br_seq_counter :: u16
  br_initialized :: u8
  br_tick_count :: u32
  br_log :: "(nat \<times> broker_msg \<times> nat) list"

type_synonym broker_call = "nat \<Rightarrow> broker_msg \<Rightarrow> nat \<Rightarrow> broker \<Rightarrow> broker"

text \<open>Objects all of whose bytes are zero.\<close>

definition broker_msg_zero :: broker_msg where
  "broker_msg_zero = \<lparr>bm_msg_id = 0, bm_src_server = 0, bm_dst_server = 0, bm_topic_id = 0,
     bm_priority = 0, bm_flags = 0, bm_seq_num = 0, bm_timestamp = 0, bm_payload_len = 0,
     bm_payload = replicate XY_BROKER_MAX_MSG_SIZE 0\<rparr>"

definition broker_subscriber_zero :: broker_subscriber where
  "broker_subscriber_zero = \<lparr>sub_server_id = 0, sub_handler = None, sub_user_data = 0,
     sub_active = 0\<rparr>"

definition broker_topic_zero :: broker_topic where
  "broker_topic_zero = \<lparr>tp_topic_id = 0,
     tp_subscribers = replicate XY_BROKER_MAX_SUBSCRIBERS broker_subscriber_zero,
     tp_subscriber_count = 0, tp_msg_count = 0\<rparr>"

definition broker_server_zero :: broker_server where
  "broker_server_zero = \<lparr>sv_server_id = 0, sv_handler = None, sv_user_data = 0,
     sv_msg_queue = replicate XY_BROKER_MSG_QUEUE_SIZE broker_msg_zero, sv_queue_head = 0,
     sv_queue_tail = 0, sv_queue_count = 0, sv_active = 0, sv_msg_received = 0, sv_msg_sent = 0\<rparr>"

definition broker_stats_zero :: broker_stats where
  "broker_stats_zero = \<lparr>bs_total_msg_sent = 0, bs_total_msg_delivered = 0,
     bs_total_msg_dropped = 0, bs_queue_overflow_count = 0, bs_active_servers = 0,
     bs_active_topics = 0\<rparr>"

text \<open>\<open>memset(&g_broker, 0, sizeof(g_broker))\<close>; the tick counter is not part of the struct.\<close>

definition broker_clear :: "broker \<Rightarrow> broker" where
  "broker_clear g = g\<lparr>br_servers := replicate XY_BROKER_MAX_SERVERS broker_server_zero,
     br_topics := replicate XY_BROKER_MAX_TOPICS broker_topic_zero,
     br_stats := broker_stats_zero, br_seq_counter := 0, br_initialized := 0\<rparr>"

subsection \<open>Internal functions\<close>

definition broker_get_timestamp :: "broker \<Rightarrow> u32 \<times> broker" where
  "broker_get_timestamp g = (br_tick_count g, g\<lparr>br_tick_count := br_tick_count g + 1\<rparr>)"

text \<open>The \<open>for\<close> loops over an array that stop at the first element with a property.\<close>

fun first_index :: "('a \<Rightarrow> bool) \<Rightarrow> 'a list \<Rightarrow> nat option" where
  "first_index P [] = None"
| "first_index P (x # xs) = (if P x then Some 0 else map_option Suc (first_index P xs))"

definition broker_find_server :: "broker \<Rightarrow> u16 \<Rightarrow> nat option" where
  "broker_find_server g server_id =
     first_index (\<lambda>s. sv_active s \<noteq> 0 \<and> sv_server_id s = server_id) (br_servers g)"

definition broker_alloc_server :: "broker \<Rightarrow> nat option" where
  "broker_alloc_server g = first_index (\<lambda>s. sv_active s = 0) (br_servers g)"

definition broker_find_topic :: "broker \<Rightarrow> u16 \<Rightarrow> nat option" where
  "broker_find_topic g topic_id =
     first_index (\<lambda>t. tp_topic_id t = topic_id \<and> tp_subscriber_count t > 0) (br_topics g)"

definition broker_alloc_topic :: "broker \<Rightarrow> nat option" where
  "broker_alloc_topic g = first_index (\<lambda>t. tp_subscriber_count t = 0) (br_topics g)"

definition broker_enqueue_msg ::
  "broker_stats \<Rightarrow> broker_server option \<Rightarrow> broker_msg option
   \<Rightarrow> (broker_rc \<times> broker_stats \<times> broker_server option) option" where
  "broker_enqueue_msg st server msg =
     (case (server, msg) of
        (Some s, Some m) \<Rightarrow>
          if unat (sv_queue_count s) \<ge> XY_BROKER_MSG_QUEUE_SIZE then
            Some (BROKER_QUEUE_FULL,
                  st\<lparr>bs_queue_overflow_count := bs_queue_overflow_count st + 1,
                     bs_total_msg_dropped := bs_total_msg_dropped st + 1\<rparr>, server)
          else do {
            q \<leftarrow> mem_store (sv_msg_queue s) (unat (sv_queue_tail s)) m;
            Some (BROKER_OK, st, Some (s\<lparr>sv_msg_queue := q,
              sv_queue_tail := of_nat ((unat (sv_queue_tail s) + 1) mod XY_BROKER_MSG_QUEUE_SIZE),
              sv_queue_count := sv_queue_count s + 1,
              sv_msg_received := sv_msg_received s + 1\<rparr>)) }
      | _ \<Rightarrow> Some (BROKER_INVALID_PARAM, st, server))"

definition broker_dequeue_msg ::
  "broker_server option \<Rightarrow> broker_msg option
   \<Rightarrow> (broker_rc \<times> broker_server option \<times> broker_msg option) option" where
  "broker_dequeue_msg server msg =
     (case (server, msg) of
        (Some s, Some _) \<Rightarrow>
          if sv_queue_count s = 0 then Some (BROKER_NOT_FOUND, server, msg)
          else do {
            m \<leftarrow> mem_load (sv_msg_queue s) (unat (sv_queue_head s));
            Some (BROKER_OK, Some (s\<lparr>
              sv_queue_head := of_nat ((unat (sv_queue_head s) + 1) mod XY_BROKER_MSG_QUEUE_SIZE),
              sv_queue_count := sv_queue_count s - 1\<rparr>), Some m) }
      | _ \<Rightarrow> Some (BROKER_INVALID_PARAM, server, msg))"

text \<open>The assignments through a slot pointer.\<close>

definition broker_set_server :: "broker \<Rightarrow> nat \<Rightarrow> broker_server \<Rightarrow> broker" where
  "broker_set_server g i s = g\<lparr>br_servers := (br_servers g)[i := s]\<rparr>"

definition broker_set_topic :: "broker \<Rightarrow> nat \<Rightarrow> broker_topic \<Rightarrow> broker" where
  "broker_set_topic g i t = g\<lparr>br_topics := (br_topics g)[i := t]\<rparr>"

subsection \<open>Core API\<close>

definition xy_broker_init :: "broker \<Rightarrow> broker_rc \<times> broker" where
  "xy_broker_init g =
     (if br_initialized g \<noteq> 0 then (BROKER_OK, g)
      else (BROKER_OK, (broker_clear g)\<lparr>br_initialized := 1\<rparr>))"

definition xy_broker_deinit :: "broker \<Rightarrow> broker_rc \<times> broker" where
  "xy_broker_deinit g =
     (if br_initialized g = 0 then (BROKER_ERROR, g) else (BROKER_OK, broker_clear g))"

definition xy_broker_register_server ::
  "broker \<Rightarrow> u16 \<Rightarrow> nat option \<Rightarrow> nat \<Rightarrow> broker_rc \<times> broker" where
  "xy_broker_register_server g server_id handler user_data =
     (if br_initialized g = 0 then (BROKER_ERROR, g)
      else if server_id = 0 then (BROKER_INVALID_PARAM, g)
      else if broker_find_server g server_id \<noteq> None then (BROKER_ALREADY_EXISTS, g)
      else (case broker_alloc_server g of
              None \<Rightarrow> (BROKER_NO_MEMORY, g)
            | Some i \<Rightarrow>
                (BROKER_OK,
                 (broker_set_server g i (broker_server_zero
                    \<lparr>sv_server_id := server_id, sv_handler := handler,
                     sv_user_data := user_data, sv_active := 1\<rparr>))
                   \<lparr>br_stats := (br_stats g)
                      \<lparr>bs_active_servers := bs_active_servers (br_stats g) + 1\<rparr>\<rparr>)))"

definition xy_broker_unregister_server :: "broker \<Rightarrow> u16 \<Rightarrow> broker_rc \<times> broker" where
  "xy_broker_unregister_server g server_id =
     (if br_initialized g = 0 then (BROKER_ERROR, g)
      else (case broker_find_server g server_id of
              None \<Rightarrow> (BROKER_NOT_FOUND, g)
            | Some i \<Rightarrow>
                (BROKER_OK,
                 (broker_set_server g i ((br_servers g ! i)\<lparr>sv_active := 0\<rparr>))
                   \<lparr>br_stats := (br_stats g)
                      \<lparr>bs_active_servers := bs_active_servers (br_stats g) - 1\<rparr>\<rparr>)))"

definition xy_broker_send_msg ::
  "broker \<Rightarrow> u16 \<Rightarrow> u16 \<Rightarrow> u16 \<Rightarrow> u8 list option \<Rightarrow> u16 \<Rightarrow> u8
   \<Rightarrow> (broker_rc \<times> broker) option" where
  "xy_broker_send_msg g src_server dst_server msg_id payload payload_len priority =
     (if br_initialized g = 0 then Some (BROKER_ERROR, g)
      else if unat payload_len > XY_BROKER_MAX_MSG_SIZE then Some (BROKER_INVALID_PARAM, g)
      else (case broker_find_server g dst_server of
              None \<Rightarrow> Some (BROKER_NOT_FOUND, g)
            | Some i \<Rightarrow> do {
                let seq = br_seq_counter g;
                let (now, g1) = broker_get_timestamp (g\<lparr>br_seq_counter := seq + 1\<rparr>);
                pl \<leftarrow> (case payload of
                         Some p \<Rightarrow>
                           if payload_len > 0 then do {
                             bs \<leftarrow> mem_read p 0 (unat payload_len);
                             mem_write (bm_payload broker_msg_zero) 0 bs }
                           else Some (bm_payload broker_msg_zero)
                       | None \<Rightarrow> Some (bm_payload broker_msg_zero));
                let msg = broker_msg_zero\<lparr>bm_msg_id := msg_id, bm_src_server := src_server,
                   bm_dst_server := dst_server, bm_priority := priority, bm_seq_num := seq,
                   bm_timestamp := now, bm_payload_len := payload_len, bm_payload := pl\<rparr>;
                (ret, st, s) \<leftarrow> broker_enqueue_msg (br_stats g1) (Some (br_servers g1 ! i)) (Some msg);
                s' \<leftarrow> s;
                let g2 = (broker_set_server g1 i s')\<lparr>br_stats := st\<rparr>;
                if ret = BROKER_OK then
                  (let g3 = g2\<lparr>br_stats := (br_stats g2)
                              \<lparr>bs_total_msg_sent := bs_total_msg_sent (br_stats g2) + 1\<rparr>\<rparr>
                   in Some (ret, (case broker_find_server g3 src_server of
                        None \<Rightarrow> g3
                      | Some j \<Rightarrow> broker_set_server g3 j ((br_servers g3 ! j)
                          \<lparr>sv_msg_sent := sv_msg_sent (br_servers g3 ! j) + 1\<rparr>))))
                else Some (ret, g2) }))"

text \<open>Calling a handler: the invocation is recorded and the handler's effect applied.\<close>

definition broker_invoke :: "broker_call \<Rightarrow> nat \<Rightarrow> broker_msg \<Rightarrow> nat \<Rightarrow> broker \<Rightarrow> broker" where
  "broker_invoke call h m u g = call h m u (g\<lparr>br_log := br_log g @ [(h, m, u)]\<rparr>)"

text \<open>
  One round of the loop of \<open>xy_broker_process_msgs\<close> for the server in slot \<open>i\<close>: take a message
  from the queue and hand it to the handler. The flag says whether one was processed.
\<close>

definition broker_process_one :: "broker_call \<Rightarrow> nat \<Rightarrow> broker \<Rightarrow> (bool \<times> broker) option" where
  "broker_process_one call i g = do {
     (rc, s, m) \<leftarrow> broker_dequeue_msg (Some (br_servers g ! i)) (Some broker_msg_zero);
     s' \<leftarrow> s;
     msg \<leftarrow> m;
     let g1 = broker_set_server g i s';
     if rc = BROKER_OK then do {
       h \<leftarrow> sv_handler s';
       let g2 = broker_invoke call h msg (sv_user_data s') g1;
       Some (True, g2\<lparr>br_stats := (br_stats g2)
         \<lparr>bs_total_msg_delivered := bs_total_msg_delivered (br_stats g2) + 1\<rparr>\<rparr>) }
     else Some (False, g1) }"

text \<open>
  The loop need not end when handlers keep sending to the server they serve, so it is a partial
  function: \<open>None\<close> is undefined behaviour or no return.
\<close>

partial_function (option) broker_process_loop ::
  "broker_call \<Rightarrow> nat \<Rightarrow> u16 \<Rightarrow> nat \<Rightarrow> broker \<Rightarrow> (nat \<times> broker) option" where
  "broker_process_loop call i max_msgs processed g =
     (if sv_queue_count (br_servers g ! i) = 0 then Some (processed, g)
      else if max_msgs > 0 \<and> processed \<ge> unat max_msgs then Some (processed, g)
      else do {
        (done, g') \<leftarrow> broker_process_one call i g;
        broker_process_loop call i max_msgs (if done then processed + 1 else processed) g' })"

definition xy_broker_process_msgs ::
  "broker_call \<Rightarrow> broker \<Rightarrow> u16 \<Rightarrow> u16 \<Rightarrow> (int \<times> broker) option" where
  "xy_broker_process_msgs call g server_id max_msgs =
     (if br_initialized g = 0 then Some (broker_rc_code BROKER_ERROR, g)
      else (case broker_find_server g server_id of
              None \<Rightarrow> Some (broker_rc_code BROKER_NOT_FOUND, g)
            | Some i \<Rightarrow>
                if sv_handler (br_servers g ! i) = None
                then Some (broker_rc_code BROKER_ERROR, g)
                else map_option (\<lambda>(n, g'). (int n, g')) (broker_process_loop call i max_msgs 0 g)))"

subsection \<open>Publish and subscribe\<close>

definition xy_broker_create_topic :: "broker \<Rightarrow> u16 \<Rightarrow> broker_rc \<times> broker" where
  "xy_broker_create_topic g topic_id =
     (if br_initialized g = 0 then (BROKER_ERROR, g)
      else if broker_find_topic g topic_id \<noteq> None then (BROKER_ALREADY_EXISTS, g)
      else (case broker_alloc_topic g of
              None \<Rightarrow> (BROKER_NO_MEMORY, g)
            | Some i \<Rightarrow>
                (BROKER_OK,
                 broker_set_topic g i (broker_topic_zero\<lparr>tp_topic_id := topic_id\<rparr>))))"

text \<open>The second half of \<open>xy_broker_subscribe\<close>, once the topic pointer is known.\<close>

definition broker_subscribe_slot ::
  "broker \<Rightarrow> nat \<Rightarrow> u16 \<Rightarrow> nat option \<Rightarrow> nat \<Rightarrow> broker_rc \<times> broker" where
  "broker_subscribe_slot g i server_id handler user_data =
     (let t = br_topics g ! i in
      if first_index (\<lambda>s. sub_active s \<noteq> 0 \<and> sub_server_id s = server_id) (tp_subscribers t) \<noteq> None
      then (BROKER_ALREADY_EXISTS, g)
      else (case first_index (\<lambda>s. sub_active s = 0) (tp_subscribers t) of
              None \<Rightarrow> (BROKER_NO_MEMORY, g)
            | Some k \<Rightarrow>
                (let t' = t\<lparr>tp_subscribers := (tp_subscribers t)[k :=
                              \<lparr>sub_server_id = server_id, sub_handler = handler,
                               sub_user_data = user_data, sub_active = 1\<rparr>],
                            tp_subscriber_count := tp_subscriber_count t + 1\<rparr>;
                     g1 = broker_set_topic g i t'
                 in (BROKER_OK,
                     (if tp_subscriber_count t' = 1
                      then g1\<lparr>br_stats := (br_stats g1)
                             \<lparr>bs_active_topics := bs_active_topics (br_stats g1) + 1\<rparr>\<rparr>
                      else g1)))))"

text \<open>
  When the topic is still not found after it has been created, the null pointer is dereferenced.
\<close>

definition xy_broker_subscribe ::
  "broker \<Rightarrow> u16 \<Rightarrow> u16 \<Rightarrow> nat option \<Rightarrow> nat \<Rightarrow> (broker_rc \<times> broker) option" where
  "xy_broker_subscribe g topic_id server_id handler user_data =
     (if br_initialized g = 0 then Some (BROKER_ERROR, g)
      else if handler = None then Some (BROKER_INVALID_PARAM, g)
      else (case broker_find_topic g topic_id of
              Some i \<Rightarrow> Some (broker_subscribe_slot g i server_id handler user_data)
            | None \<Rightarrow>
                (case xy_broker_create_topic g topic_id of
                   (BROKER_OK, g1) \<Rightarrow>
                     (case broker_find_topic g1 topic_id of
                        None \<Rightarrow> None
                      | Some i \<Rightarrow> Some (broker_subscribe_slot g1 i server_id handler user_data))
                 | (_, g1) \<Rightarrow> Some (BROKER_NO_MEMORY, g1))))"

definition xy_broker_unsubscribe :: "broker \<Rightarrow> u16 \<Rightarrow> u16 \<Rightarrow> broker_rc \<times> broker" where
  "xy_broker_unsubscribe g topic_id server_id =
     (if br_initialized g = 0 then (BROKER_ERROR, g)
      else (case broker_find_topic g topic_id of
              None \<Rightarrow> (BROKER_NOT_FOUND, g)
            | Some i \<Rightarrow>
                (let t = br_topics g ! i in
                 (case first_index (\<lambda>s. sub_active s \<noteq> 0 \<and> sub_server_id s = server_id)
                         (tp_subscribers t) of
                    None \<Rightarrow> (BROKER_NOT_FOUND, g)
                  | Some k \<Rightarrow>
                      (let t' = t\<lparr>tp_subscribers := (tp_subscribers t)[k :=
                                    (tp_subscribers t ! k)\<lparr>sub_active := 0\<rparr>],
                                  tp_subscriber_count := tp_subscriber_count t - 1\<rparr>;
                           g1 = broker_set_topic g i t'
                       in (BROKER_OK,
                           (if tp_subscriber_count t' = 0
                            then g1\<lparr>br_stats := (br_stats g1)
                                   \<lparr>bs_active_topics := bs_active_topics (br_stats g1) - 1\<rparr>\<rparr>
                            else g1)))))))"

text \<open>The delivery loop over the subscriber slots of topic \<open>i\<close>; each slot is read when reached.\<close>

fun broker_deliver ::
  "broker_call \<Rightarrow> nat \<Rightarrow> broker_msg \<Rightarrow> nat list \<Rightarrow> nat \<Rightarrow> broker \<Rightarrow> nat \<times> broker" where
  "broker_deliver call i msg [] delivered g = (delivered, g)"
| "broker_deliver call i msg (k # ks) delivered g =
     (let s = tp_subscribers (br_topics g ! i) ! k in
      if sub_active s \<noteq> 0 then
        (case sub_handler s of
           Some h \<Rightarrow> broker_deliver call i msg ks (delivered + 1)
                       (broker_invoke call h msg (sub_user_data s) g)
         | None \<Rightarrow> broker_deliver call i msg ks delivered g)
      else broker_deliver call i msg ks delivered g)"

definition xy_broker_publish ::
  "broker_call \<Rightarrow> broker \<Rightarrow> u16 \<Rightarrow> u16 \<Rightarrow> u16 \<Rightarrow> u8 list option \<Rightarrow> u16 \<Rightarrow> u8
   \<Rightarrow> (broker_rc \<times> broker) option" where
  "xy_broker_publish call g src_server topic_id msg_id payload payload_len priority =
     (if br_initialized g = 0 then Some (BROKER_ERROR, g)
      else if unat payload_len > XY_BROKER_MAX_MSG_SIZE then Some (BROKER_INVALID_PARAM, g)
      else (case broker_find_topic g topic_id of
              None \<Rightarrow> Some (BROKER_NOT_FOUND, g)
            | Some i \<Rightarrow>
                if tp_subscriber_count (br_topics g ! i) = 0 then Some (BROKER_NOT_FOUND, g)
                else do {
                  let seq = br_seq_counter g;
                  let (now, g1) = broker_get_timestamp (g\<lparr>br_seq_counter := seq + 1\<rparr>);
                  pl \<leftarrow> (case payload of
                           Some p \<Rightarrow>
                             if payload_len > 0 then do {
                               bs \<leftarrow> mem_read p 0 (unat payload_len);
                               mem_write (bm_payload broker_msg_zero) 0 bs }
                             else Some (bm_payload broker_msg_zero)
                         | None \<Rightarrow> Some (bm_payload broker_msg_zero));
                  let msg = broker_msg_zero\<lparr>bm_msg_id := msg_id, bm_src_server := src_server,
                     bm_topic_id := topic_id, bm_priority := priority, bm_seq_num := seq,
                     bm_timestamp := now, bm_payload_len := payload_len, bm_flags := 0x02,
                     bm_payload := pl\<rparr>;
                  let (delivered, g2) = broker_deliver call i msg
                     [0..<XY_BROKER_MAX_SUBSCRIBERS] 0 g1;
                  Some (BROKER_OK,
                    (if delivered > 0 then
                       (let t = br_topics g2 ! i in
                        (broker_set_topic g2 i (t\<lparr>tp_msg_count := tp_msg_count t + 1\<rparr>))
                          \<lparr>br_stats := (br_stats g2)
                             \<lparr>bs_total_msg_sent := bs_total_msg_sent (br_stats g2) + 1,
                              bs_total_msg_delivered :=
                                bs_total_msg_delivered (br_stats g2) + of_nat delivered\<rparr>\<rparr>)
                     else g2)) }))"

subsection \<open>Request and response\<close>

text \<open>
  The waiting loop of \<open>xy_broker_request\<close>. Nothing else runs while it polls, and every poll of
  the clock advances it by one, so the loop ends when the difference reaches the timeout.
\<close>

function broker_wait ::
  "nat option \<Rightarrow> u32 \<Rightarrow> u32 \<Rightarrow> broker \<Rightarrow> broker_msg
   \<Rightarrow> (broker_rc \<times> broker \<times> broker_msg) option" where
  "broker_wait src start_time timeout_ms g response_msg =
     (let (now, g1) = broker_get_timestamp g in
      if now - start_time < timeout_ms then
        (case src of
           Some j \<Rightarrow>
             (if sv_queue_count (br_servers g1 ! j) > 0 then
                (case broker_dequeue_msg (Some (br_servers g1 ! j)) (Some response_msg) of
                   Some (BROKER_OK, Some s', Some m) \<Rightarrow>
                     Some (BROKER_OK, broker_set_server g1 j s', m)
                 | Some (_, Some s', _) \<Rightarrow>
                     broker_wait src start_time timeout_ms (broker_set_server g1 j s') response_msg
                 | _ \<Rightarrow> None)
              else broker_wait src start_time timeout_ms g1 response_msg)
         | None \<Rightarrow> broker_wait src start_time timeout_ms g1 response_msg)
      else Some (BROKER_TIMEOUT, g1, response_msg))"
  by pat_completeness auto

lemma u32_distance_step:
  assumes "(now::u32) - start < timeout"
  shows "unat timeout - unat (now + 1 - start) < unat timeout - unat (now - start)"
proof -
  have lt: "unat (now - start) < unat timeout" using assms by (simp add: word_less_nat_alt)
  have "now + 1 - start = (now - start) + 1" by simp
  moreover have "unat (now - start) + unat (1::u32) < 2 ^ LENGTH(32)"
  proof -
    have "unat (1::u32) = 1" "(2::nat) ^ LENGTH(32) = 4294967296" by simp_all
    then show ?thesis using lt unat_u32_less [of timeout] by linarith
  qed
  ultimately have "unat (now + 1 - start) = unat (now - start) + 1"
    by (metis unat_add_no_wrap unsigned_1)
  then show ?thesis using lt by linarith
qed

termination broker_wait
  by (relation "measure (\<lambda>(src, start, timeout, g, _). unat timeout - unat (br_tick_count g - start))")
    (auto simp: broker_get_timestamp_def broker_set_server_def dest: u32_distance_step)

definition xy_broker_request ::
  "broker \<Rightarrow> u16 \<Rightarrow> u16 \<Rightarrow> u16 \<Rightarrow> u8 list option \<Rightarrow> u16 \<Rightarrow> broker_msg option \<Rightarrow> u32
   \<Rightarrow> (broker_rc \<times> broker \<times> broker_msg option) option" where
  "xy_broker_request g src_server dst_server msg_id request_payload request_len response_msg
      timeout_ms =
     (case response_msg of
        None \<Rightarrow> Some (BROKER_ERROR, g, None)
      | Some r \<Rightarrow>
          if br_initialized g = 0 then Some (BROKER_ERROR, g, response_msg)
          else do {
            (ret, g1) \<leftarrow> xy_broker_send_msg g src_server dst_server msg_id request_payload
                          request_len 1;
            if ret \<noteq> BROKER_OK then Some (ret, g1, response_msg)
            else do {
              let (start_time, g2) = broker_get_timestamp g1;
              (rc, g3, r') \<leftarrow> broker_wait (broker_find_server g2 src_server) start_time
                               timeout_ms g2 r;
              Some (rc, g3, Some r') } })"

definition xy_broker_respond ::
  "broker \<Rightarrow> broker_msg option \<Rightarrow> u8 list option \<Rightarrow> u16 \<Rightarrow> (broker_rc \<times> broker) option" where
  "xy_broker_respond g request_msg response_payload response_len =
     (case request_msg of
        None \<Rightarrow> Some (BROKER_ERROR, g)
      | Some m \<Rightarrow>
          if br_initialized g = 0 then Some (BROKER_ERROR, g)
          else xy_broker_send_msg g (bm_dst_server m) (bm_src_server m) (bm_msg_id m)
                 response_payload response_len (bm_priority m))"

subsection \<open>Utilities\<close>

definition xy_broker_get_stats ::
  "broker \<Rightarrow> broker_stats option \<Rightarrow> broker_rc \<times> broker_stats option" where
  "xy_broker_get_stats g stats =
     (if br_initialized g = 0 \<or> stats = None then (BROKER_ERROR, stats)
      else (BROKER_OK, Some (br_stats g)))"

definition xy_broker_is_server_registered :: "broker \<Rightarrow> u16 \<Rightarrow> int" where
  "xy_broker_is_server_registered g server_id =
     (if broker_find_server g server_id \<noteq> None then 1 else 0)"

definition xy_broker_get_pending_count :: "broker \<Rightarrow> u16 \<Rightarrow> int" where
  "xy_broker_get_pending_count g server_id =
     (case broker_find_server g server_id of
        None \<Rightarrow> broker_rc_code BROKER_NOT_FOUND
      | Some i \<Rightarrow> uint (sv_queue_count (br_servers g ! i)))"

definition xy_broker_clear_queue :: "broker \<Rightarrow> u16 \<Rightarrow> broker_rc \<times> broker" where
  "xy_broker_clear_queue g server_id =
     (case broker_find_server g server_id of
        None \<Rightarrow> (BROKER_NOT_FOUND, g)
      | Some i \<Rightarrow> (BROKER_OK, broker_set_server g i ((br_servers g ! i)
          \<lparr>sv_queue_head := 0, sv_queue_tail := 0, sv_queue_count := 0\<rparr>)))"

definition xy_broker_get_server_name :: "u16 \<Rightarrow> string" where
  "xy_broker_get_server_name server_id =
     (if server_id = 0x0001 then ''SYSTEM''
      else if server_id = 0x0002 then ''POWER''
      else if server_id = 0x0003 then ''COMM''
      else if server_id = 0x0004 then ''SENSOR''
      else if server_id = 0x0005 then ''STORAGE''
      else if server_id = 0x0006 then ''DISPLAY''
      else if server_id = 0x0007 then ''NETWORK''
      else if server_id = 0x0008 then ''SECURITY''
      else if server_id = 0x0009 then ''TIMER''
      else if server_id = 0x000A then ''LOG''
      else if server_id = 0x000B then ''DEBUG''
      else ''UNKNOWN'')"

definition xy_broker_get_msg_name :: "u16 \<Rightarrow> string" where
  "xy_broker_get_msg_name msg_id =
     (if msg_id = 0x0001 then ''SYSTEM_INIT''
      else if msg_id = 0x0002 then ''SYSTEM_SHUTDOWN''
      else if msg_id = 0x0101 then ''POWER_ON''
      else if msg_id = 0x0102 then ''POWER_OFF''
      else if msg_id = 0x0301 then ''SENSOR_DATA''
      else if msg_id = 0x0201 then ''COMM_SEND''
      else if msg_id = 0x0202 then ''COMM_RECEIVE''
      else ''UNKNOWN'')"

definition xy_broker_get_topic_name :: "u16 \<Rightarrow> string" where
  "xy_broker_get_topic_name topic_id =
     (if topic_id = 0x0001 then ''SYSTEM_EVENT''
      else if topic_id = 0x0002 then ''POWER_EVENT''
      else if topic_id = 0x0003 then ''SENSOR_DATA''
      else if topic_id = 0x0004 then ''NETWORK_EVENT''
      else if topic_id = 0x0005 then ''ALARM_EVENT''
      else if topic_id = 0x0006 then ''LOG_EVENT''
      else ''UNKNOWN'')"

end
