(* ===== verification/Xy_Broker_Correct.thy ===== *)
theory Xy_Broker_Correct
  imports Xy_Broker
begin

text \<open>
  Correctness of the broker: the server queues are bounded queues, every operation keeps the
  broker's invariant, processing delivers in order, and the flaws of publish/subscribe and of
  the request function.
\<close>

subsection \<open>Searching\<close>

lemma first_index_Some:
  "first_index P xs = Some i \<longleftrightarrow> i < length xs \<and> P (xs ! i) \<and> (\<forall>j < i. \<not> P (xs ! j))"
proof (induction xs arbitrary: i)
  case (Cons x xs)
  show ?case
    by (cases i) (auto simp: Cons.IH less_Suc_eq_0_disj)
qed simp

lemma first_index_None: "first_index P xs = None \<longleftrightarrow> (\<forall>x \<in> set xs. \<not> P x)"
  by (induction xs) auto

lemma first_index_cong:
  "map P xs = map Q ys \<Longrightarrow> first_index P xs = first_index Q ys"
proof (induction xs arbitrary: ys)
  case (Cons x xs)
  then show ?case by (cases ys) auto
qed simp

subsection \<open>The message queues\<close>

definition sv_wf :: "broker_server \<Rightarrow> bool" where
  "sv_wf s \<longleftrightarrow> length (sv_msg_queue s) = 32 \<and> unat (sv_queue_head s) < 32
     \<and> unat (sv_queue_count s) \<le> 32
     \<and> unat (sv_queue_tail s) = (unat (sv_queue_head s) + unat (sv_queue_count s)) mod 32"

definition sv_items :: "broker_server \<Rightarrow> broker_msg list" where
  "sv_items s = map (\<lambda>k. sv_msg_queue s ! ((unat (sv_queue_head s) + k) mod 32))
     [0..<unat (sv_queue_count s)]"

lemma length_sv_items [simp]: "length (sv_items s) = unat (sv_queue_count s)"
  by (simp add: sv_items_def)

lemma sv_items_empty: "sv_items s = [] \<longleftrightarrow> sv_queue_count s = 0"
  by (simp add: sv_items_def unat_eq_0)

lemma mod32_u16: "unat (of_nat (n mod 32) :: u16) = n mod 32"
  by (rule unat_of_nat_u16) (simp add: less_le_trans [of _ 32])

lemma enqueue_room:
  assumes wf: "sv_wf s" and room: "unat (sv_queue_count s) < 32"
  shows "\<exists>s'. broker_enqueue_msg st (Some s) (Some m) = Some (BROKER_OK, st, Some s')
    \<and> sv_wf s' \<and> sv_items s' = sv_items s @ [m]
    \<and> s' = s\<lparr>sv_msg_queue := sv_msg_queue s', sv_queue_tail := sv_queue_tail s',
             sv_queue_count := sv_queue_count s', sv_msg_received := sv_msg_received s'\<rparr>"
proof -
  let ?h = "unat (sv_queue_head s)" and ?c = "unat (sv_queue_count s)"
    and ?t = "unat (sv_queue_tail s)"
  let ?s' = "s\<lparr>sv_msg_queue := (sv_msg_queue s)[?t := m],
      sv_queue_tail := of_nat ((?t + 1) mod 32), sv_queue_count := sv_queue_count s + 1,
      sv_msg_received := sv_msg_received s + 1\<rparr>"
  have t: "?t = (?h + ?c) mod 32" "?t < 32" "?h < 32" "length (sv_msg_queue s) = 32"
    using wf by (auto simp: sv_wf_def)
  have c: "unat (sv_queue_count s + 1) = ?c + 1" using room by (subst unat_add_u16) auto
  have en: "broker_enqueue_msg st (Some s) (Some m) = Some (BROKER_OK, st, Some ?s')"
    using room t by (simp add: broker_enqueue_msg_def XY_BROKER_MSG_QUEUE_SIZE_def mem_store_def)
  have "sv_wf ?s'"
    using t room c by (simp add: sv_wf_def mod32_u16 mod_simps)
  moreover have "sv_items ?s' = sv_items s @ [m]"
  proof -
    have ne: "(?h + k) mod 32 \<noteq> ?t" if "k < ?c" for k
      using that t(1,3) room by (simp add: mod_if split: if_splits) arith
    have "map (\<lambda>k. (sv_msg_queue s)[?t := m] ! ((?h + k) mod 32)) [0..<?c] = sv_items s"
      unfolding sv_items_def 
    proof (rule map_cong [OF refl])
      fix k assume "k \<in> set [0..<?c]"
      then have "(?h + k) mod 32 \<noteq> ?t" using ne by simp
      then show "(sv_msg_queue s)[?t := m] ! ((?h + k) mod 32) = sv_msg_queue s ! ((?h + k) mod 32)"
        by (simp add: nth_list_update)
    qed
    then show ?thesis
      using t by (simp add: sv_items_def c)
  qed
  ultimately show ?thesis using en by (intro exI [of _ ?s']) simp
qed

lemma enqueue_full:
  assumes "32 \<le> unat (sv_queue_count s)"
  shows "broker_enqueue_msg st (Some s) (Some m) = Some (BROKER_QUEUE_FULL,
    st\<lparr>bs_queue_overflow_count := bs_queue_overflow_count st + 1,
       bs_total_msg_dropped := bs_total_msg_dropped st + 1\<rparr>, Some s)"
  using assms by (simp add: broker_enqueue_msg_def XY_BROKER_MSG_QUEUE_SIZE_def)

lemma dequeue_item:
  assumes wf: "sv_wf s" and items: "sv_items s = m # ms"
  shows "\<exists>s'. broker_dequeue_msg (Some s) (Some r) = Some (BROKER_OK, Some s', Some m)
    \<and> sv_wf s' \<and> sv_items s' = ms
    \<and> s' = s\<lparr>sv_queue_head := sv_queue_head s', sv_queue_count := sv_queue_count s'\<rparr>"
proof -
  let ?h = "unat (sv_queue_head s)" and ?c = "unat (sv_queue_count s)"
  let ?s' = "s\<lparr>sv_queue_head := of_nat ((?h + 1) mod 32), sv_queue_count := sv_queue_count s - 1\<rparr>"
  have c0: "?c = Suc (length ms)" using arg_cong [OF items, of length] by simp
  have c: "unat (sv_queue_count s - 1) = ?c - 1" using c0 by (subst unat_sub_u16) auto
  have h: "?h < 32" "length (sv_msg_queue s) = 32" "?c \<le> 32" using wf by (auto simp: sv_wf_def)
  have up: "[0..<?c] = 0 # map Suc [0..<length ms]"
    unfolding c0 by (simp add: upt_conv_Cons map_Suc_upt del: upt_Suc)
  have its: "m = sv_msg_queue s ! ?h"
    "ms = map (\<lambda>k. sv_msg_queue s ! ((?h + Suc k) mod 32)) [0..<length ms]"
    using items h(1) unfolding sv_items_def up by (simp_all add: comp_def)
  have "sv_queue_count s \<noteq> 0" using c0 by auto
  then have "broker_dequeue_msg (Some s) (Some r) = Some (BROKER_OK, Some ?s', Some m)"
    using h its(1) by (simp add: broker_dequeue_msg_def XY_BROKER_MSG_QUEUE_SIZE_def mem_load_def)
  moreover have "sv_wf ?s'"
    using wf c c0 h by (simp add: sv_wf_def mod32_u16 mod_simps)
  moreover have "sv_items ?s' = ms"
    by (subst its(2)) (simp add: sv_items_def c c0 mod32_u16 mod_simps)
  ultimately show ?thesis by (intro exI [of _ ?s']) simp
qed

lemma dequeue_empty:
  "sv_queue_count s = 0 \<Longrightarrow> broker_dequeue_msg (Some s) (Some r) = Some (BROKER_NOT_FOUND, Some s, Some r)"
  by (simp add: broker_dequeue_msg_def)

text \<open>The queue of a server is a bounded queue of messages.\<close>

definition sv_put :: "broker_stats \<times> broker_server \<Rightarrow> broker_msg \<Rightarrow>
    (bool \<times> broker_stats \<times> broker_server) option" where
  "sv_put x m = do {
     (rc, st, s) \<leftarrow> broker_enqueue_msg (fst x) (Some (snd x)) (Some m);
     s' \<leftarrow> s;
     Some (rc = BROKER_OK, st, s') }"

definition sv_get :: "broker_stats \<times> broker_server \<Rightarrow>
    (broker_msg option \<times> broker_stats \<times> broker_server) option" where
  "sv_get x = do {
     (rc, s, m) \<leftarrow> broker_dequeue_msg (Some (snd x)) (Some broker_msg_zero);
     s' \<leftarrow> s;
     Some (if rc = BROKER_OK then m else None, fst x, s') }"

interpretation sv_fifo: bounded_fifo sv_put sv_get "\<lambda>x. sv_items (snd x)" "\<lambda>_. 32" "\<lambda>x. sv_wf (snd x)"
proof unfold_locales
  fix x :: "broker_stats \<times> broker_server" and m :: broker_msg and ms
  assume wf: "sv_wf (snd x)"
  then show "length (sv_items (snd x)) \<le> 32" by (simp add: sv_wf_def)
  show "\<exists>x'. sv_put x m = Some (True, x') \<and> sv_wf (snd x') \<and> sv_items (snd x') = sv_items (snd x) @ [m]
      \<and> (32::nat) = 32" if "length (sv_items (snd x)) < 32"
    using enqueue_room [OF wf, of "fst x" m] that by (auto simp: sv_put_def)
  show "\<exists>x'. sv_put x m = Some (False, x') \<and> sv_wf (snd x') \<and> sv_items (snd x') = sv_items (snd x)
      \<and> (32::nat) = 32" if "length (sv_items (snd x)) = 32"
    using that wf by (simp add: sv_put_def enqueue_full)
  show "\<exists>x'. sv_get x = Some (None, x') \<and> sv_wf (snd x') \<and> sv_items (snd x') = [] \<and> (32::nat) = 32"
    if "sv_items (snd x) = []"
    using that wf by (simp add: sv_get_def dequeue_empty sv_items_empty)
  show "\<exists>x'. sv_get x = Some (Some m, x') \<and> sv_wf (snd x') \<and> sv_items (snd x') = ms \<and> (32::nat) = 32"
    if "sv_items (snd x) = m # ms"
    using dequeue_item [OF wf that, of broker_msg_zero] by (auto simp: sv_get_def)
qed

subsection \<open>The broker's invariant\<close>

text \<open>The part of a server slot that identifies it.\<close>

definition sv_shell :: "broker_server \<Rightarrow> u16 \<times> bool \<times> nat option \<times> nat" where
  "sv_shell s = (sv_server_id s, sv_active s \<noteq> 0, sv_handler s, sv_user_data s)"

definition active_ids :: "broker_server list \<Rightarrow> u16 list" where
  "active_ids ss = map sv_server_id (filter (\<lambda>s. sv_active s \<noteq> 0) ss)"

definition broker_wf :: "broker \<Rightarrow> bool" where
  "broker_wf g \<longleftrightarrow> length (br_servers g) = 16 \<and> length (br_topics g) = 64
     \<and> (\<forall>s \<in> set (br_servers g). sv_wf s)
     \<and> distinct (active_ids (br_servers g))
     \<and> bs_active_servers (br_stats g) = of_nat (length (active_ids (br_servers g)))"

text \<open>No topic has a subscriber.\<close>

definition broker_no_subs :: "broker \<Rightarrow> bool" where
  "broker_no_subs g \<longleftrightarrow> (\<forall>t \<in> set (br_topics g). tp_subscriber_count t = 0)"

definition broker_inv :: "broker \<Rightarrow> bool" where
  "broker_inv g \<longleftrightarrow> broker_wf g \<and> broker_no_subs g"

lemma active_ids_shell: "map sv_shell ss = map sv_shell ts \<Longrightarrow> active_ids ss = active_ids ts"
proof (induction ss arbitrary: ts)
  case (Cons s ss)
  then show ?case by (cases ts) (auto simp: active_ids_def sv_shell_def)
qed (simp add: active_ids_def)

lemma find_server_shell:
  "map sv_shell (br_servers g) = map sv_shell (br_servers g') \<Longrightarrow>
   broker_find_server g sid = broker_find_server g' sid"
  unfolding broker_find_server_def
proof (rule first_index_cong)
  let ?f = "\<lambda>(i, a, _). a \<and> i = sid"
  assume eq: "map sv_shell (br_servers g) = map sv_shell (br_servers g')"
  have "(\<lambda>s. sv_active s \<noteq> 0 \<and> sv_server_id s = sid) = ?f \<circ> sv_shell"
    by (auto simp: sv_shell_def)
  then show "map (\<lambda>s. sv_active s \<noteq> 0 \<and> sv_server_id s = sid) (br_servers g)
      = map (\<lambda>s. sv_active s \<noteq> 0 \<and> sv_server_id s = sid) (br_servers g')"
    using arg_cong [OF eq, of "map ?f"] by simp
qed

lemma find_server_bound: "broker_find_server g sid = Some i \<Longrightarrow> i < length (br_servers g)"
  by (auto simp: broker_find_server_def first_index_Some)

text \<open>Changes that keep the shells, the queues well formed and the topics keep the invariant.\<close>

definition broker_quiet :: "broker \<Rightarrow> broker \<Rightarrow> bool" where
  "broker_quiet g g' \<longleftrightarrow> map sv_shell (br_servers g') = map sv_shell (br_servers g)
     \<and> br_topics g' = br_topics g \<and> br_initialized g' = br_initialized g
     \<and> bs_active_servers (br_stats g') = bs_active_servers (br_stats g)"

lemma broker_quiet_refl [simp]: "broker_quiet g g"
  by (simp add: broker_quiet_def)

lemma broker_quiet_trans: "broker_quiet g g' \<Longrightarrow> broker_quiet g' g'' \<Longrightarrow> broker_quiet g g''"
  by (simp add: broker_quiet_def)

lemma broker_quiet_wf:
  "broker_wf g \<Longrightarrow> broker_quiet g g' \<Longrightarrow> (\<forall>s \<in> set (br_servers g'). sv_wf s) \<Longrightarrow> broker_wf g'"
  unfolding broker_wf_def broker_quiet_def
  by (metis active_ids_shell length_map)

lemma broker_quiet_inv:
  "broker_inv g \<Longrightarrow> broker_quiet g g' \<Longrightarrow> (\<forall>s \<in> set (br_servers g'). sv_wf s) \<Longrightarrow> broker_inv g'"
  using broker_quiet_wf by (auto simp: broker_inv_def broker_no_subs_def broker_quiet_def)

lemma broker_wf_server: "broker_wf g \<Longrightarrow> i < 16 \<Longrightarrow> sv_wf (br_servers g ! i)"
  by (simp add: broker_wf_def)

lemma set_server_quiet:
  "sv_shell s = sv_shell (br_servers g ! i) \<Longrightarrow> broker_quiet g (broker_set_server g i s)"
  unfolding broker_quiet_def broker_set_server_def
  by (simp add: map_update) (metis list_update_id map_update)

lemma set_server_wf:
  "\<forall>s \<in> set (br_servers g). sv_wf s \<Longrightarrow> sv_wf s' \<Longrightarrow>
   \<forall>s \<in> set (br_servers (broker_set_server g i s')). sv_wf s"
  by (auto simp: broker_set_server_def dest!: set_update_subset_insert [THEN subsetD])

lemma sv_items_sent [simp]: "sv_items (s\<lparr>sv_msg_sent := n\<rparr>) = sv_items s"
  by (simp add: sv_items_def)

lemma set_server_items:
  "sv_items s' = sv_items (br_servers g ! i) \<Longrightarrow>
   sv_items (br_servers (broker_set_server g i s') ! j) = sv_items (br_servers g ! j)"
  by (cases "i < length (br_servers g)"; cases "i = j")
    (simp_all add: broker_set_server_def list_update_beyond)

subsection \<open>Sending\<close>

text \<open>The message that \<open>xy_broker_send_msg\<close> builds.\<close>

definition broker_payload :: "u8 list option \<Rightarrow> u16 \<Rightarrow> u8 list" where
  "broker_payload payload len =
     (case payload of Some p \<Rightarrow> take (unat len) p @ replicate (256 - unat len) 0
      | None \<Rightarrow> replicate 256 0)"

definition broker_sent_msg ::
  "broker \<Rightarrow> u16 \<Rightarrow> u16 \<Rightarrow> u16 \<Rightarrow> u8 list option \<Rightarrow> u16 \<Rightarrow> u8 \<Rightarrow> broker_msg" where
  "broker_sent_msg g src dst mid payload len prio = broker_msg_zero\<lparr>bm_msg_id := mid,
     bm_src_server := src, bm_dst_server := dst, bm_priority := prio,
     bm_seq_num := br_seq_counter g, bm_timestamp := br_tick_count g, bm_payload_len := len,
     bm_payload := broker_payload payload len\<rparr>"

definition payload_readable :: "u8 list option \<Rightarrow> u16 \<Rightarrow> bool" where
  "payload_readable payload len \<longleftrightarrow> (case payload of Some p \<Rightarrow> unat len \<le> length p | None \<Rightarrow> True)"

lemma send_payload:
  assumes "payload_readable payload len" and "unat len \<le> 256"
  shows "(case payload of
      Some p \<Rightarrow> if len > 0 then do {
          bs \<leftarrow> mem_read p 0 (unat len); mem_write (bm_payload broker_msg_zero) 0 bs }
        else Some (bm_payload broker_msg_zero)
    | None \<Rightarrow> Some (bm_payload broker_msg_zero)) = Some (broker_payload payload len)"
  using assms
  by (auto simp: payload_readable_def broker_payload_def broker_msg_zero_def mem_read_def
      mem_write_def XY_BROKER_MAX_MSG_SIZE_def word_greater_zero_iff split: option.splits)

lemma send_msg_room:
  assumes wf: "broker_wf g" and ini: "br_initialized g \<noteq> 0" and len: "unat len \<le> 256"
    and dst: "broker_find_server g dst = Some i" and pl: "payload_readable payload len"
    and room: "unat (sv_queue_count (br_servers g ! i)) < 32"
  shows "\<exists>g'. xy_broker_send_msg g src dst mid payload len prio = Some (BROKER_OK, g')
    \<and> broker_quiet g g' \<and> (\<forall>s \<in> set (br_servers g'). sv_wf s)
    \<and> sv_items (br_servers g' ! i)
        = sv_items (br_servers g ! i) @ [broker_sent_msg g src dst mid payload len prio]
    \<and> (\<forall>j < 16. j \<noteq> i \<longrightarrow> sv_items (br_servers g' ! j) = sv_items (br_servers g ! j))
    \<and> br_seq_counter g' = br_seq_counter g + 1 \<and> br_tick_count g' = br_tick_count g + 1
    \<and> br_log g' = br_log g"
proof -
  let ?m = "broker_sent_msg g src dst mid payload len prio"
  let ?g1 = "g\<lparr>br_seq_counter := br_seq_counter g + 1, br_tick_count := br_tick_count g + 1\<rparr>"
  have i: "i < 16" using find_server_bound [OF dst] wf by (simp add: broker_wf_def)
  have l: "length (br_servers g) = 16" using wf by (simp add: broker_wf_def)
  obtain s' where s': "broker_enqueue_msg (br_stats g) (Some (br_servers g ! i)) (Some ?m)
      = Some (BROKER_OK, br_stats g, Some s')" "sv_wf s'"
    "sv_items s' = sv_items (br_servers g ! i) @ [?m]"
    "s' = (br_servers g ! i)\<lparr>sv_msg_queue := sv_msg_queue s', sv_queue_tail := sv_queue_tail s',
       sv_queue_count := sv_queue_count s', sv_msg_received := sv_msg_received s'\<rparr>"
    using enqueue_room [OF broker_wf_server [OF wf i] room] by blast
  have sh: "sv_shell s' = sv_shell (br_servers g ! i)" by (subst s'(4)) (simp add: sv_shell_def)
  define g3 where "g3 = (broker_set_server ?g1 i s')\<lparr>br_stats := (br_stats g)
      \<lparr>bs_total_msg_sent := bs_total_msg_sent (br_stats g) + 1\<rparr>\<rparr>"
  have q3: "broker_quiet g g3"
    using set_server_quiet [of s' g i, OF sh]
    by (simp add: g3_def broker_quiet_def broker_set_server_def)
  have wf3: "\<forall>s \<in> set (br_servers g3). sv_wf s"
    using set_server_wf [of g s' i] wf s'(2)
    by (simp add: g3_def broker_set_server_def broker_wf_def)
  have it3: "sv_items (br_servers g3 ! j) = (if j = i then sv_items s' else sv_items (br_servers g ! j))"
    if "j < 16" for j
    using that i l by (simp add: g3_def broker_set_server_def)
  have l3: "length (br_servers g3) = 16" using l by (simp add: g3_def broker_set_server_def)
  define g4 where "g4 = (case broker_find_server g3 src of None \<Rightarrow> g3
    | Some j \<Rightarrow> broker_set_server g3 j ((br_servers g3 ! j)
        \<lparr>sv_msg_sent := sv_msg_sent (br_servers g3 ! j) + 1\<rparr>))"
  have "xy_broker_send_msg g src dst mid payload len prio = Some (BROKER_OK, g4)"
    unfolding g4_def g3_def using ini len dst s'(1) send_payload [OF pl len]
    by (simp add: xy_broker_send_msg_def broker_get_timestamp_def Let_def
        XY_BROKER_MAX_MSG_SIZE_def broker_sent_msg_def broker_set_server_def
        cong del: option.case_cong_weak)
  moreover have "broker_quiet g3 g4"
    unfolding g4_def by (auto split: option.splits intro!: set_server_quiet simp: sv_shell_def)
  moreover have "\<forall>s \<in> set (br_servers g4). sv_wf s"
  proof (cases "broker_find_server g3 src")
    case None
    then show ?thesis using wf3 by (simp add: g4_def)
  next
    case (Some j)
    have "j < 16" using find_server_bound [OF Some] l3 by simp
    then have "sv_wf (br_servers g3 ! j)" using wf3 l3 by simp
    then have "sv_wf ((br_servers g3 ! j)\<lparr>sv_msg_sent := sv_msg_sent (br_servers g3 ! j) + 1\<rparr>)"
      by (simp add: sv_wf_def)
    then show ?thesis using set_server_wf [OF wf3] Some by (simp add: g4_def)
  qed
  moreover have "sv_items (br_servers g4 ! j) = sv_items (br_servers g3 ! j)" for j
    by (cases "broker_find_server g3 src") (simp_all add: g4_def set_server_items)
  moreover have "br_seq_counter g4 = br_seq_counter g + 1" "br_tick_count g4 = br_tick_count g + 1"
    "br_log g4 = br_log g"
    by (auto simp: g4_def g3_def broker_set_server_def split: option.splits)
  ultimately show ?thesis
    using it3 i s'(3) broker_quiet_trans [OF q3]
    by (intro exI [of _ g4]) auto
qed

lemma send_msg_full:
  assumes ini: "br_initialized g \<noteq> 0" and len: "unat len \<le> 256"
    and dst: "broker_find_server g dst = Some i" and pl: "payload_readable payload len"
    and full: "32 \<le> unat (sv_queue_count (br_servers g ! i))"
  shows "\<exists>g'. xy_broker_send_msg g src dst mid payload len prio = Some (BROKER_QUEUE_FULL, g')
    \<and> broker_quiet g g' \<and> br_servers g' = br_servers g"
  using ini len dst send_payload [OF pl len] full
  by (simp add: xy_broker_send_msg_def broker_get_timestamp_def Let_def enqueue_full
      XY_BROKER_MAX_MSG_SIZE_def broker_set_server_def broker_quiet_def)

lemma send_msg_refused:
  "br_initialized g = 0 \<Longrightarrow> xy_broker_send_msg g src dst mid payload len prio = Some (BROKER_ERROR, g)"
  "br_initialized g \<noteq> 0 \<Longrightarrow> 256 < unat len \<Longrightarrow>
   xy_broker_send_msg g src dst mid payload len prio = Some (BROKER_INVALID_PARAM, g)"
  "br_initialized g \<noteq> 0 \<Longrightarrow> unat len \<le> 256 \<Longrightarrow> broker_find_server g dst = None \<Longrightarrow>
   xy_broker_send_msg g src dst mid payload len prio = Some (BROKER_NOT_FOUND, g)"
  by (simp_all add: xy_broker_send_msg_def XY_BROKER_MAX_MSG_SIZE_def)

lemma send_msg_unreadable:
  assumes "\<not> payload_readable payload len" and "br_initialized g \<noteq> 0" and "unat len \<le> 256"
    and "broker_find_server g dst = Some i"
  shows "xy_broker_send_msg g src dst mid payload len prio = None"
proof -
  obtain p where p: "payload = Some p" "length p < unat len"
    using assms(1) by (auto simp: payload_readable_def not_le split: option.splits)
  then have "len > 0" by (simp add: word_less_nat_alt)
  moreover have "mem_read p 0 (unat len) = None" using p(2) by (simp add: mem_read_def)
  ultimately show ?thesis
    using assms(2-4) p(1)
    by (simp add: xy_broker_send_msg_def broker_get_timestamp_def Let_def XY_BROKER_MAX_MSG_SIZE_def)
qed

lemma send_msg_quiet:
  assumes "broker_inv g" and "xy_broker_send_msg g src dst mid payload len prio = Some (rc, g')"
  shows "broker_inv g' \<and> broker_quiet g g'"
proof -
  have wf: "broker_wf g" using assms(1) by (simp add: broker_inv_def)
  consider "br_initialized g = 0" | "br_initialized g \<noteq> 0" "256 < unat len"
    | "br_initialized g \<noteq> 0" "unat len \<le> 256" "broker_find_server g dst = None"
    | i where "br_initialized g \<noteq> 0" "unat len \<le> 256" "broker_find_server g dst = Some i"
    using not_le by blast
  then show ?thesis
  proof cases
    case (4 i)
    show ?thesis
    proof (cases "payload_readable payload len")
      case True
      show ?thesis
      proof (cases "unat (sv_queue_count (br_servers g ! i)) < 32")
        case room: True
        show ?thesis
          using send_msg_room [OF wf 4 True room, of src mid prio] assms broker_quiet_inv by auto
      next
        case False
        then show ?thesis
          using send_msg_full [OF 4 True, of src mid prio] assms wf broker_quiet_inv [OF assms(1)]
          by (auto simp: broker_wf_def)
      qed
    qed (use send_msg_unreadable [OF _ 4] assms(2) in simp)
  qed (use assms send_msg_refused in auto)
qed

subsection \<open>Processing\<close>

lemma set_server_inv:
  assumes "broker_inv g" and "sv_shell s = sv_shell (br_servers g ! i)" and "sv_wf s"
  shows "broker_inv (broker_set_server g i s)"
  using broker_quiet_inv [OF assms(1) set_server_quiet [OF assms(2)]]
    set_server_wf [of g s i] assms(1,3) by (auto simp: broker_inv_def broker_wf_def)

lemma broker_inv_log [simp]: "broker_inv (g\<lparr>br_log := l\<rparr>) = broker_inv g"
  by (simp add: broker_inv_def broker_wf_def broker_no_subs_def)

lemma broker_inv_delivered [simp]:
  "broker_inv (g\<lparr>br_stats := (br_stats g)\<lparr>bs_total_msg_delivered := n\<rparr>\<rparr>) = broker_inv g"
  by (simp add: broker_inv_def broker_wf_def broker_no_subs_def)

text \<open>One round, when there is a message and a handler.\<close>

lemma process_one_eq:
  assumes wf: "sv_wf (br_servers g ! i)" and items: "sv_items (br_servers g ! i) = m # ms"
    and h: "sv_handler (br_servers g ! i) = Some h"
  shows "\<exists>s'. sv_wf s' \<and> sv_items s' = ms \<and> sv_shell s' = sv_shell (br_servers g ! i)
    \<and> broker_process_one call i g = (let g2 = broker_invoke call h m
          (sv_user_data (br_servers g ! i)) (broker_set_server g i s') in
        Some (True, g2\<lparr>br_stats := (br_stats g2)
          \<lparr>bs_total_msg_delivered := bs_total_msg_delivered (br_stats g2) + 1\<rparr>\<rparr>))"
proof -
  let ?s = "br_servers g ! i"
  obtain s' where s': "broker_dequeue_msg (Some ?s) (Some broker_msg_zero) = Some (BROKER_OK, Some s', Some m)"
    "sv_wf s'" "sv_items s' = ms"
    "s' = ?s\<lparr>sv_queue_head := sv_queue_head s', sv_queue_count := sv_queue_count s'\<rparr>"
    using dequeue_item [OF wf items, of broker_msg_zero] by blast
  have "sv_handler s' = Some h" "sv_user_data s' = sv_user_data ?s" "sv_shell s' = sv_shell ?s"
    by (subst s'(4), simp add: h sv_shell_def)+
  then show ?thesis
    using s' by (intro exI [of _ s']) (simp add: broker_process_one_def Let_def)
qed

text \<open>A handler that keeps the invariant and leaves the served slot with a handler.\<close>

definition broker_call_ok :: "broker_call \<Rightarrow> nat \<Rightarrow> bool" where
  "broker_call_ok call i \<longleftrightarrow> (\<forall>h m u g. broker_inv g \<and> sv_handler (br_servers g ! i) \<noteq> None \<longrightarrow>
     broker_inv (call h m u g) \<and> sv_handler (br_servers (call h m u g) ! i) \<noteq> None)"

lemma process_one_inv:
  assumes inv: "broker_inv g" and i: "i < 16" and h: "sv_handler (br_servers g ! i) \<noteq> None"
    and ne: "sv_queue_count (br_servers g ! i) \<noteq> 0" and call: "broker_call_ok call i"
  shows "\<exists>g'. broker_process_one call i g = Some (True, g') \<and> broker_inv g'
    \<and> sv_handler (br_servers g' ! i) \<noteq> None"
proof -
  obtain hd where hd: "sv_handler (br_servers g ! i) = Some hd" using h by auto
  obtain m ms where it: "sv_items (br_servers g ! i) = m # ms"
    using ne sv_items_empty by (cases "sv_items (br_servers g ! i)") auto
  have wf: "sv_wf (br_servers g ! i)"
    using inv i by (simp add: broker_inv_def broker_wf_def)
  obtain s' where s': "sv_wf s'" "sv_shell s' = sv_shell (br_servers g ! i)"
    "broker_process_one call i g = (let g2 = broker_invoke call hd m
          (sv_user_data (br_servers g ! i)) (broker_set_server g i s') in
        Some (True, g2\<lparr>br_stats := (br_stats g2)
          \<lparr>bs_total_msg_delivered := bs_total_msg_delivered (br_stats g2) + 1\<rparr>\<rparr>))"
    using process_one_eq [OF wf it hd, of call] by blast
  let ?g1 = "broker_set_server g i s'"
  have inv1: "broker_inv (?g1\<lparr>br_log := l\<rparr>)" for l
    using set_server_inv [OF inv s'(2,1)] by simp
  have "sv_handler (br_servers (?g1\<lparr>br_log := l\<rparr>) ! i) \<noteq> None" for l
    using s'(2) hd inv i by (auto simp: broker_set_server_def sv_shell_def broker_inv_def broker_wf_def)
  then show ?thesis
    using s'(3) call inv1 by (simp add: broker_invoke_def Let_def broker_call_ok_def)
qed

text \<open>With a limit on the number of messages the loop ends, whatever the handlers send.\<close>

lemma process_loop_bounded:
  assumes "broker_inv g" and "i < 16" and "sv_handler (br_servers g ! i) \<noteq> None"
    and "broker_call_ok call i" and "max_msgs \<noteq> 0" and "p \<le> unat max_msgs"
  shows "\<exists>n g'. broker_process_loop call i max_msgs p g = Some (n, g') \<and> p \<le> n
    \<and> n \<le> unat max_msgs \<and> broker_inv g'
    \<and> (n < unat max_msgs \<longrightarrow> sv_queue_count (br_servers g' ! i) = 0)"
  using assms
proof (induction "unat max_msgs - p" arbitrary: p g)
  case 0
  then have p: "p = unat max_msgs" by simp
  have "broker_process_loop call i max_msgs p g = Some (p, g)"
    using "0.prems"(5) p by (subst broker_process_loop.simps) (simp add: word_greater_zero_iff)
  then show ?case using "0.prems" p by auto
next
  case (Suc k)
  then have p: "p < unat max_msgs" by simp
  show ?case
  proof (cases "sv_queue_count (br_servers g ! i) = 0")
    case True
    then have "broker_process_loop call i max_msgs p g = Some (p, g)"
      by (subst broker_process_loop.simps) simp
    then show ?thesis using Suc.prems True by auto
  next
    case False
    obtain g1 where g1: "broker_process_one call i g = Some (True, g1)" "broker_inv g1"
      "sv_handler (br_servers g1 ! i) \<noteq> None"
      using process_one_inv [OF Suc.prems(1-3) False Suc.prems(4)] by blast
    have step: "broker_process_loop call i max_msgs p g = broker_process_loop call i max_msgs (Suc p) g1"
      using False p by (subst broker_process_loop.simps) (simp add: g1(1))
    have "k = unat max_msgs - Suc p" "Suc p \<le> unat max_msgs" using Suc.hyps(2) p by simp_all
    from Suc.hyps(1) [OF this(1) g1(2) Suc.prems(2) g1(3) Suc.prems(4,5) this(2)]
    show ?thesis unfolding step by auto
  qed
qed

text \<open>A handler that leaves the slot it serves and the log alone.\<close>

definition broker_call_apart :: "broker_call \<Rightarrow> nat \<Rightarrow> bool" where
  "broker_call_apart call i \<longleftrightarrow> (\<forall>h m u g. br_servers (call h m u g) ! i = br_servers g ! i
     \<and> length (br_servers (call h m u g)) = length (br_servers g)
     \<and> br_log (call h m u g) = br_log g)"

lemma process_loop_delivers:
  assumes "i < length (br_servers g)" and "sv_wf (br_servers g ! i)"
    and "sv_handler (br_servers g ! i) = Some h" and "sv_user_data (br_servers g ! i) = u"
    and "broker_call_apart call i" and "sv_items (br_servers g ! i) = ms"
    and "max_msgs = 0 \<or> p \<le> unat max_msgs"
  shows "\<exists>g'. broker_process_loop call i max_msgs p g = Some (p + (if max_msgs = 0 then length ms
        else min (length ms) (unat max_msgs - p)), g')
    \<and> br_log g' = br_log g @ map (\<lambda>m. (h, m, u))
        (if max_msgs = 0 then ms else take (unat max_msgs - p) ms)
    \<and> sv_items (br_servers g' ! i) = (if max_msgs = 0 then [] else drop (unat max_msgs - p) ms)"
  using assms
proof (induction ms arbitrary: p g)
  case Nil
  then have "sv_queue_count (br_servers g ! i) = 0" using sv_items_empty by metis
  then show ?case using Nil.prems(6) by (subst broker_process_loop.simps) simp
next
  case (Cons m ms)
  have ne: "sv_queue_count (br_servers g ! i) \<noteq> 0"
    using Cons.prems(6) sv_items_empty by (metis list.distinct(1))
  show ?case
  proof (cases "max_msgs \<noteq> 0 \<and> unat max_msgs \<le> p")
    case True
    then have "unat max_msgs - p = 0" by simp
    moreover have "broker_process_loop call i max_msgs p g = Some (p, g)"
      using True by (subst broker_process_loop.simps) (simp add: word_greater_zero_iff)
    ultimately show ?thesis using True Cons.prems(6) by simp
  next
    case False
    obtain s' where s': "sv_wf s'" "sv_items s' = ms" "sv_shell s' = sv_shell (br_servers g ! i)"
      "broker_process_one call i g = (let g2 = broker_invoke call h m u (broker_set_server g i s') in
          Some (True, g2\<lparr>br_stats := (br_stats g2)
            \<lparr>bs_total_msg_delivered := bs_total_msg_delivered (br_stats g2) + 1\<rparr>\<rparr>))"
      using process_one_eq [OF Cons.prems(2,6,3), of call] Cons.prems(4) by blast
    let ?g2 = "broker_invoke call h m u (broker_set_server g i s')"
    let ?g3 = "?g2\<lparr>br_stats := (br_stats ?g2)
            \<lparr>bs_total_msg_delivered := bs_total_msg_delivered (br_stats ?g2) + 1\<rparr>\<rparr>"
    have g3: "br_servers ?g3 ! i = s'" "length (br_servers ?g3) = length (br_servers g)"
      "br_log ?g3 = br_log g @ [(h, m, u)]"
      using Cons.prems(1,5) by (simp_all add: broker_invoke_def broker_call_apart_def broker_set_server_def)
    have step: "broker_process_loop call i max_msgs p g = broker_process_loop call i max_msgs (Suc p) ?g3"
      using False ne s'(4) by (subst broker_process_loop.simps) (auto simp: Let_def)
    have hu: "sv_handler s' = Some h" "sv_user_data s' = u"
      using s'(3) Cons.prems(3,4) by (simp_all add: sv_shell_def)
    have lim: "max_msgs = 0 \<or> Suc p \<le> unat max_msgs" using False by auto
    obtain g' where g': "broker_process_loop call i max_msgs (Suc p) ?g3
        = Some (Suc p + (if max_msgs = 0 then length ms else min (length ms) (unat max_msgs - Suc p)), g')"
      "br_log g' = br_log ?g3 @ map (\<lambda>m. (h, m, u))
        (if max_msgs = 0 then ms else take (unat max_msgs - Suc p) ms)"
      "sv_items (br_servers g' ! i) = (if max_msgs = 0 then [] else drop (unat max_msgs - Suc p) ms)"
      using Cons.IH [of ?g3 "Suc p"] g3(1,2) Cons.prems(1,5) s'(1,2) hu lim by auto
    have "unat max_msgs - p = Suc (unat max_msgs - Suc p)" if "max_msgs \<noteq> 0" using lim that by auto
    then show ?thesis
      using g' g3(3) step by (intro exI [of _ g']) auto
  qed
qed

end
