(* ===== verification/Xy_Broker_Properties.thy ===== *)
theory Xy_Broker_Properties
  imports Xy_Broker_Correct
begin

text \<open>
  The broker as its clients see it: the calls as a step relation with its reachable states, the
  invariant of every reachable state, in-order delivery, the bound of the processing loop, and
  what publish/subscribe and requests really do.
\<close>

subsection \<open>The calls as steps\<close>

text \<open>The calls that invoke no handler, then all calls.\<close>

inductive broker_op :: "broker \<Rightarrow> broker \<Rightarrow> bool" where
  op_init: "xy_broker_init g = (rc, g') \<Longrightarrow> broker_op g g'"
| op_deinit: "xy_broker_deinit g = (rc, g') \<Longrightarrow> broker_op g g'"
| op_register: "xy_broker_register_server g sid h u = (rc, g') \<Longrightarrow> broker_op g g'"
| op_unregister: "xy_broker_unregister_server g sid = (rc, g') \<Longrightarrow> broker_op g g'"
| op_send: "xy_broker_send_msg g src dst mid payload len prio = Some (rc, g') \<Longrightarrow> broker_op g g'"
| op_create: "xy_broker_create_topic g tid = (rc, g') \<Longrightarrow> broker_op g g'"
| op_subscribe: "xy_broker_subscribe g tid sid h u = Some (rc, g') \<Longrightarrow> broker_op g g'"
| op_unsubscribe: "xy_broker_unsubscribe g tid sid = (rc, g') \<Longrightarrow> broker_op g g'"
| op_request: "xy_broker_request g src dst mid payload len r t = Some (rc, g', r') \<Longrightarrow> broker_op g g'"
| op_respond: "xy_broker_respond g req payload len = Some (rc, g') \<Longrightarrow> broker_op g g'"
| op_clear: "xy_broker_clear_queue g sid = (rc, g') \<Longrightarrow> broker_op g g'"

inductive broker_step :: "broker_call \<Rightarrow> broker \<Rightarrow> broker \<Rightarrow> bool" for call where
  step_op: "broker_op g g' \<Longrightarrow> broker_step call g g'"
| step_process: "xy_broker_process_msgs call g sid n = Some (k, g') \<Longrightarrow> broker_step call g g'"
| step_publish: "xy_broker_publish call g src tid mid payload len prio = Some (rc, g') \<Longrightarrow> broker_step call g g'"

text \<open>The handlers considered: they act on the broker through any number of the calls above.\<close>

definition broker_handlers :: "broker_call \<Rightarrow> bool" where
  "broker_handlers call \<longleftrightarrow> (\<forall>h m u g. broker_op\<^sup>*\<^sup>* g (call h m u g))"

text \<open>The state of the statics before \<open>main\<close>.\<close>

definition broker_boot :: broker where
  "broker_boot = \<lparr>br_servers = replicate XY_BROKER_MAX_SERVERS broker_server_zero,
     br_topics = replicate XY_BROKER_MAX_TOPICS broker_topic_zero, br_stats = broker_stats_zero,
     br_seq_counter = 0, br_initialized = 0, br_tick_count = 0, br_log = []\<rparr>"

inductive broker_reachable :: "broker_call \<Rightarrow> broker \<Rightarrow> bool" for call where
  boot: "broker_reachable call broker_boot"
| call: "broker_reachable call g \<Longrightarrow> broker_step call g g' \<Longrightarrow> broker_reachable call g'"

subsection \<open>The invariant is kept\<close>

lemma sv_wf_zero: "sv_wf broker_server_zero"
  by (simp add: sv_wf_def broker_server_zero_def XY_BROKER_MSG_QUEUE_SIZE_def)

lemma broker_inv_clear: "broker_inv (broker_clear g)"
  by (simp add: broker_inv_def broker_wf_def broker_no_subs_def broker_clear_def sv_wf_zero
      active_ids_def broker_server_zero_def broker_topic_zero_def broker_stats_zero_def
      XY_BROKER_MAX_SERVERS_def XY_BROKER_MAX_TOPICS_def
      sv_wf_zero [unfolded broker_server_zero_def])

lemma broker_inv_boot: "broker_inv broker_boot"
  by (simp add: broker_inv_def broker_wf_def broker_no_subs_def broker_boot_def sv_wf_zero
      active_ids_def broker_server_zero_def broker_topic_zero_def broker_stats_zero_def
      XY_BROKER_MAX_SERVERS_def XY_BROKER_MAX_TOPICS_def
      sv_wf_zero [unfolded broker_server_zero_def])

lemma broker_inv_fields [simp]:
  "broker_inv (g\<lparr>br_initialized := b\<rparr>) = broker_inv g"
  "broker_inv (g\<lparr>br_seq_counter := c\<rparr>) = broker_inv g"
  "broker_inv (g\<lparr>br_tick_count := t\<rparr>) = broker_inv g"
  by (simp_all add: broker_inv_def broker_wf_def broker_no_subs_def)

lemma init_inv: "broker_inv g \<Longrightarrow> xy_broker_init g = (rc, g') \<Longrightarrow> broker_inv g'"
  by (auto simp: xy_broker_init_def broker_inv_clear split: if_splits)

lemma deinit_inv: "broker_inv g \<Longrightarrow> xy_broker_deinit g = (rc, g') \<Longrightarrow> broker_inv g'"
  by (auto simp: xy_broker_deinit_def broker_inv_clear split: if_splits)

text \<open>Activating and deactivating a slot.\<close>

lemma active_ids_append: "active_ids (xs @ ys) = active_ids xs @ active_ids ys"
  by (simp add: active_ids_def)

lemma active_ids_slot:
  assumes "i < length ss"
  shows "active_ids ss = active_ids (take i ss) @ active_ids [ss ! i] @ active_ids (drop (Suc i) ss)"
    and "active_ids (ss[i := s]) = active_ids (take i ss) @ active_ids [s] @ active_ids (drop (Suc i) ss)"
proof -
  have "ss = take i ss @ [ss ! i] @ drop (Suc i) ss"
    using id_take_nth_drop [OF assms] by simp
  from arg_cong [OF this, of active_ids]
  show "active_ids ss = active_ids (take i ss) @ active_ids [ss ! i] @ active_ids (drop (Suc i) ss)"
    by (simp only: active_ids_append)
  have "ss[i := s] = take i ss @ [s] @ drop (Suc i) ss"
    using assms by (simp add: upd_conv_take_nth_drop)
  then show "active_ids (ss[i := s]) = active_ids (take i ss) @ active_ids [s] @ active_ids (drop (Suc i) ss)"
    by (simp only: active_ids_append)
qed

lemma active_ids_find:
  "sid \<in> set (active_ids (br_servers g)) \<longleftrightarrow> broker_find_server g sid \<noteq> None"
  by (auto simp: broker_find_server_def first_index_None active_ids_def)

lemma register_inv:
  assumes inv: "broker_inv g" and r: "xy_broker_register_server g sid h u = (rc, g')"
  shows "broker_inv g'"
proof (cases "br_initialized g = 0 \<or> sid = 0 \<or> broker_find_server g sid \<noteq> None
    \<or> broker_alloc_server g = None")
  case True
  then show ?thesis
    using r inv by (auto simp: xy_broker_register_server_def split: if_splits option.splits)
next
  case False
  then obtain i where i: "broker_alloc_server g = Some i" by auto
  have bi: "i < length (br_servers g)" "sv_active (br_servers g ! i) = 0"
    using i by (auto simp: broker_alloc_server_def first_index_Some)
  let ?s = "broker_server_zero\<lparr>sv_server_id := sid, sv_handler := h, sv_user_data := u, sv_active := 1\<rparr>"
  have g': "g' = (broker_set_server g i ?s)\<lparr>br_stats := (br_stats g)
      \<lparr>bs_active_servers := bs_active_servers (br_stats g) + 1\<rparr>\<rparr>"
    using r i False by (simp add: xy_broker_register_server_def)
  have "sv_wf ?s" using sv_wf_zero by (simp add: sv_wf_def)
  then have wf: "\<forall>s \<in> set (br_servers g'). sv_wf s"
    using set_server_wf [of g ?s i] inv
    by (simp add: g' broker_inv_def broker_wf_def broker_set_server_def)
  have a0: "active_ids [br_servers g ! i] = []" "active_ids [?s] = [sid]"
    using bi by (simp_all add: active_ids_def)
  have fresh: "sid \<notin> set (active_ids (br_servers g))" using active_ids_find False by blast
  show ?thesis
    using inv wf fresh active_ids_slot [OF bi(1)] a0
    by (simp add: g' broker_inv_def broker_wf_def broker_no_subs_def broker_set_server_def)
qed

lemma unregister_inv:
  assumes inv: "broker_inv g" and r: "xy_broker_unregister_server g sid = (rc, g')"
  shows "broker_inv g'"
proof (cases "br_initialized g = 0 \<or> broker_find_server g sid = None")
  case True
  then show ?thesis
    using r inv by (auto simp: xy_broker_unregister_server_def split: if_splits option.splits)
next
  case False
  then obtain i where i: "broker_find_server g sid = Some i" by auto
  have bi: "i < length (br_servers g)" "sv_active (br_servers g ! i) \<noteq> 0"
    using i by (auto simp: broker_find_server_def first_index_Some)
  let ?s = "(br_servers g ! i)\<lparr>sv_active := 0\<rparr>"
  have g': "g' = (broker_set_server g i ?s)\<lparr>br_stats := (br_stats g)
      \<lparr>bs_active_servers := bs_active_servers (br_stats g) - 1\<rparr>\<rparr>"
    using r i False by (simp add: xy_broker_unregister_server_def)
  have "sv_wf (br_servers g ! i)" using inv bi by (simp add: broker_inv_def broker_wf_def)
  then have "sv_wf ?s" by (simp add: sv_wf_def)
  then have wf: "\<forall>s \<in> set (br_servers g'). sv_wf s"
    using set_server_wf [of g ?s i] inv
    by (simp add: g' broker_inv_def broker_wf_def broker_set_server_def)
  have a0: "active_ids [br_servers g ! i] = [sv_server_id (br_servers g ! i)]" "active_ids [?s] = []"
    using bi by (simp_all add: active_ids_def)
  show ?thesis
    using inv wf active_ids_slot [OF bi(1)] a0
    by (simp add: g' broker_inv_def broker_wf_def broker_no_subs_def broker_set_server_def)
qed

lemma clear_queue_inv:
  assumes inv: "broker_inv g" and r: "xy_broker_clear_queue g sid = (rc, g')"
  shows "broker_inv g'"
proof (cases "broker_find_server g sid")
  case None
  then show ?thesis using r inv by (simp add: xy_broker_clear_queue_def)
next
  case (Some i)
  let ?s = "(br_servers g ! i)\<lparr>sv_queue_head := 0, sv_queue_tail := 0, sv_queue_count := 0\<rparr>"
  have "sv_wf (br_servers g ! i)"
    using inv find_server_bound [OF Some] by (simp add: broker_inv_def broker_wf_def)
  then have "sv_wf ?s" "sv_shell ?s = sv_shell (br_servers g ! i)"
    by (simp_all add: sv_wf_def sv_shell_def)
  then show ?thesis using r Some set_server_inv [OF inv] by (auto simp: xy_broker_clear_queue_def)
qed

lemma no_subs_find: "broker_no_subs g \<Longrightarrow> broker_find_topic g tid = None"
  by (auto simp: broker_no_subs_def broker_find_topic_def first_index_None)

lemma create_topic_inv:
  assumes inv: "broker_inv g" and r: "xy_broker_create_topic g tid = (rc, g')"
  shows "broker_inv g'"
  using assms
  by (auto simp: xy_broker_create_topic_def broker_set_topic_def broker_inv_def broker_wf_def
      broker_no_subs_def broker_topic_zero_def split: if_splits option.splits
      dest!: set_update_subset_insert [THEN subsetD])

lemma subscribe_undefined:
  assumes inv: "broker_inv g" and ini: "br_initialized g \<noteq> 0" and h: "h \<noteq> None"
  shows "xy_broker_subscribe g tid sid h u = None"
proof -
  have ns: "broker_no_subs g" and l: "length (br_topics g) = 64"
    using inv by (simp_all add: broker_inv_def broker_wf_def)
  have "broker_alloc_topic g \<noteq> None"
    using ns l by (cases "br_topics g") (auto simp: broker_alloc_topic_def broker_no_subs_def)
  then obtain i where c: "xy_broker_create_topic g tid
      = (BROKER_OK, broker_set_topic g i (broker_topic_zero\<lparr>tp_topic_id := tid\<rparr>))"
    using ini no_subs_find [OF ns] by (auto simp: xy_broker_create_topic_def)
  have "broker_no_subs (broker_set_topic g i (broker_topic_zero\<lparr>tp_topic_id := tid\<rparr>))"
    using create_topic_inv [OF inv c] by (simp add: broker_inv_def)
  then show ?thesis
    using ini h c no_subs_find [OF ns] no_subs_find by (simp add: xy_broker_subscribe_def)
qed

lemma subscribe_inv:
  "broker_inv g \<Longrightarrow> xy_broker_subscribe g tid sid h u = Some (rc, g') \<Longrightarrow> broker_inv g'"
  using subscribe_undefined [of g h tid sid u]
  by (cases "br_initialized g = 0 \<or> h = None") (auto simp: xy_broker_subscribe_def split: if_splits)

lemma unsubscribe_inv:
  "broker_inv g \<Longrightarrow> xy_broker_unsubscribe g tid sid = (rc, g') \<Longrightarrow> broker_inv g'"
  using no_subs_find [of g tid]
  by (auto simp: xy_broker_unsubscribe_def broker_inv_def split: if_splits)

lemma publish_inv:
  "broker_inv g \<Longrightarrow> xy_broker_publish call g src tid mid payload len prio = Some (rc, g') \<Longrightarrow> broker_inv g'"
  using no_subs_find [of g tid]
  by (auto simp: xy_broker_publish_def broker_inv_def split: if_splits)

lemma process_loop_inv:
  assumes call: "\<And>h m u g. broker_inv g \<Longrightarrow> broker_inv (call h m u g)" and i: "i < 16"
    and "broker_process_loop call i max_msgs p g = Some r" and "broker_inv g"
  shows "broker_inv (snd r)"
proof -
  have one: "broker_inv g1" if inv: "broker_inv g" and o: "broker_process_one call i g = Some (d, g1)"
    and ne: "sv_queue_count (br_servers g ! i) \<noteq> 0" for g d g1
  proof -
    obtain m ms where it: "sv_items (br_servers g ! i) = m # ms"
      using ne sv_items_empty by (cases "sv_items (br_servers g ! i)") auto
    have wf: "sv_wf (br_servers g ! i)" using inv i by (simp add: broker_inv_def broker_wf_def)
    obtain h where h: "sv_handler (br_servers g ! i) = Some h"
    proof (cases "sv_handler (br_servers g ! i)")
      case None
      obtain s' where s': "broker_dequeue_msg (Some (br_servers g ! i)) (Some broker_msg_zero)
          = Some (BROKER_OK, Some s', Some m)"
        "s' = (br_servers g ! i)\<lparr>sv_queue_head := sv_queue_head s', sv_queue_count := sv_queue_count s'\<rparr>"
        using dequeue_item [OF wf it, of broker_msg_zero] by blast
      have "sv_handler s' = None" by (subst s'(2)) (simp add: None)
      then show ?thesis using o s'(1) by (simp add: broker_process_one_def Let_def)
    qed blast
    obtain s' where "sv_wf s'" "sv_shell s' = sv_shell (br_servers g ! i)"
      "broker_process_one call i g = (let g2 = broker_invoke call h m
            (sv_user_data (br_servers g ! i)) (broker_set_server g i s') in
          Some (True, g2\<lparr>br_stats := (br_stats g2)
            \<lparr>bs_total_msg_delivered := bs_total_msg_delivered (br_stats g2) + 1\<rparr>\<rparr>))"
      using process_one_eq [OF wf it h, of call] by blast
    then show ?thesis
      using o call set_server_inv [OF inv] by (auto simp: Let_def broker_invoke_def)
  qed
  have "call = call \<longrightarrow> i = i \<longrightarrow> broker_inv g \<longrightarrow> broker_inv (snd r)"
  proof (rule broker_process_loop.raw_induct
      [where P = "\<lambda>c j mx p g r. c = call \<longrightarrow> j = i \<longrightarrow> broker_inv g \<longrightarrow> broker_inv (snd r)",
       OF _ assms(3)], intro impI)
    fix loop c j mx p g r
    assume IH: "\<And>c j mx p g r. loop c j mx p g = Some r \<Longrightarrow>
        c = call \<longrightarrow> j = i \<longrightarrow> broker_inv g \<longrightarrow> broker_inv (snd r)"
      and body: "(if sv_queue_count (br_servers g ! j) = 0 then Some (p, g)
        else if mx > 0 \<and> p \<ge> unat mx then Some (p, g)
        else do {
          (done, g') \<leftarrow> broker_process_one c j g;
          loop c j mx (if done then p + 1 else p) g' }) = Some r"
      and *: "c = call" "j = i" "broker_inv g"
    show "broker_inv (snd r)"
    proof (cases "sv_queue_count (br_servers g ! i) = 0 \<or> mx > 0 \<and> p \<ge> unat mx")
      case True
      then show ?thesis using body * by (auto split: if_splits)
    next
      case False
      then obtain d g1 where g1: "broker_process_one call i g = Some (d, g1)"
        "loop call i mx (if d then p + 1 else p) g1 = Some r"
        using body * by (auto split: if_splits)
      then show ?thesis using IH [OF g1(2)] one [OF *(3) g1(1)] False by simp
    qed
  qed
  then show ?thesis using assms(4) by simp
qed

lemma process_inv:
  assumes "\<And>h m u g. broker_inv g \<Longrightarrow> broker_inv (call h m u g)" and "broker_inv g"
    and "xy_broker_process_msgs call g sid n = Some (k, g')"
  shows "broker_inv g'"
proof (cases "broker_find_server g sid")
  case None
  then show ?thesis
    using assms(2,3) by (auto simp: xy_broker_process_msgs_def split: if_splits)
next
  case (Some i)
  have i: "i < 16" using find_server_bound [OF Some] assms(2) by (simp add: broker_inv_def broker_wf_def)
  show ?thesis
    using process_loop_inv [of call i n 0 g, OF assms(1) i _ assms(2)] assms(2,3) Some
    by (auto simp: xy_broker_process_msgs_def split: if_splits)
qed

subsection \<open>Waiting for a response\<close>

declare broker_wait.simps [simp del]

lemma broker_inv_tick [simp]:
  "br_servers (snd (broker_get_timestamp g)) = br_servers g"
  "broker_inv (snd (broker_get_timestamp g)) = broker_inv g"
  by (simp_all add: broker_get_timestamp_def)

text \<open>With nothing queued the wait runs into the timeout and changes only the clock.\<close>

lemma broker_wait_timeout:
  assumes "\<And>j. src = Some j \<Longrightarrow> sv_queue_count (br_servers g ! j) = 0"
  shows "\<exists>t. broker_wait src start timeout g r = Some (BROKER_TIMEOUT, g\<lparr>br_tick_count := t\<rparr>, r)"
  using assms
proof (induction "unat timeout - unat (br_tick_count g - start)" arbitrary: g rule: less_induct)
  case less
  let ?g1 = "g\<lparr>br_tick_count := br_tick_count g + 1\<rparr>"
  show ?case
  proof (cases "br_tick_count g - start < timeout")
    case False
    then show ?thesis
      by (subst broker_wait.simps) (simp add: broker_get_timestamp_def, blast)
  next
    case True
    have "broker_wait src start timeout g r = broker_wait src start timeout ?g1 r"
      using True less.prems
      by (subst broker_wait.simps) (auto simp: broker_get_timestamp_def split: option.splits)
    moreover have "unat timeout - unat (br_tick_count ?g1 - start)
        < unat timeout - unat (br_tick_count g - start)"
      using u32_distance_step [OF True] by simp
    ultimately show ?thesis using less.hyps [of ?g1] less.prems by auto
  qed
qed

text \<open>With something queued the oldest message is taken, whatever it is.\<close>

lemma broker_wait_head:
  assumes wf: "sv_wf (br_servers g ! j)" and it: "sv_items (br_servers g ! j) = m # ms"
    and t: "br_tick_count g - start < timeout"
  shows "\<exists>s'. broker_wait (Some j) start timeout g r
      = Some (BROKER_OK, broker_set_server (g\<lparr>br_tick_count := br_tick_count g + 1\<rparr>) j s', m)
    \<and> sv_wf s' \<and> sv_shell s' = sv_shell (br_servers g ! j) \<and> sv_items s' = ms"
proof -
  have ne: "sv_queue_count (br_servers g ! j) \<noteq> 0"
    using it sv_items_empty by (metis list.distinct(1))
  obtain s' where s': "broker_dequeue_msg (Some (br_servers g ! j)) (Some r) = Some (BROKER_OK, Some s', Some m)"
    "sv_wf s'" "sv_items s' = ms"
    "s' = (br_servers g ! j)\<lparr>sv_queue_head := sv_queue_head s', sv_queue_count := sv_queue_count s'\<rparr>"
    using dequeue_item [OF wf it, of r] by blast
  have "sv_shell s' = sv_shell (br_servers g ! j)" by (subst s'(4)) (simp add: sv_shell_def)
  with s' t ne show ?thesis
    by (intro exI [of _ s'] conjI)
      (subst broker_wait.simps, simp_all add: broker_get_timestamp_def word_greater_zero_iff)
qed

text \<open>Once the time is over nothing is looked at.\<close>

lemma broker_wait_late:
  assumes "\<not> br_tick_count g - start < t"
  shows "broker_wait src start t g r
    = Some (BROKER_TIMEOUT, g\<lparr>br_tick_count := br_tick_count g + 1\<rparr>, r)"
  using assms by (subst broker_wait.simps) (simp add: broker_get_timestamp_def)

lemma broker_wait_inv:
  assumes inv: "broker_inv g" and src: "\<And>j. src = Some j \<Longrightarrow> j < 16"
    and w: "broker_wait src start t g r = Some (rc, g', r')"
  shows "broker_inv g'"
proof (cases "br_tick_count g - start < t")
  case late: False
  have "g' = g\<lparr>br_tick_count := br_tick_count g + 1\<rparr>"
    using w broker_wait_late [OF late, of src r] by simp
  then show ?thesis using inv by simp
next
  case early: True
  show ?thesis
  proof (cases "\<exists>j. src = Some j \<and> sv_queue_count (br_servers g ! j) \<noteq> 0")
    case False
    then have "\<And>j. src = Some j \<Longrightarrow> sv_queue_count (br_servers g ! j) = 0" by blast
    then obtain t' where "g' = g\<lparr>br_tick_count := t'\<rparr>"
      using broker_wait_timeout [of src g start t r] w by auto
    then show ?thesis using inv by simp
  next
    case True
    then obtain j where j: "src = Some j" "sv_queue_count (br_servers g ! j) \<noteq> 0" by blast
    obtain m0 ms where it: "sv_items (br_servers g ! j) = m0 # ms"
      using j(2) sv_items_empty by (cases "sv_items (br_servers g ! j)") auto
    have wf: "sv_wf (br_servers g ! j)"
      using inv src [OF j(1)] by (simp add: broker_inv_def broker_wf_def)
    obtain s' where s': "g' = broker_set_server (g\<lparr>br_tick_count := br_tick_count g + 1\<rparr>) j s'"
        "sv_wf s'" "sv_shell s' = sv_shell (br_servers g ! j)"
      using broker_wait_head [OF wf it early, of r] w j(1) by auto
    have "broker_inv (g\<lparr>br_tick_count := br_tick_count g + 1\<rparr>)" using inv by simp
    from set_server_inv [OF this, of s' j] s' show ?thesis by simp
  qed
qed

lemma find_server_inv_bound: "broker_inv g \<Longrightarrow> broker_find_server g sid = Some j \<Longrightarrow> j < 16"
  using find_server_bound by (fastforce simp: broker_inv_def broker_wf_def)

lemma request_inv:
  assumes inv: "broker_inv g" and r: "xy_broker_request g src dst mid payload len r t = Some (rc, g', r')"
  shows "broker_inv g'"
proof (cases "br_initialized g = 0 \<or> r = None")
  case True
  then show ?thesis using r inv by (auto simp: xy_broker_request_def split: option.splits)
next
  case False
  then obtain m where m: "r = Some m" by auto
  obtain ret g1 where s: "xy_broker_send_msg g src dst mid payload len 1 = Some (ret, g1)"
    using r False m by (auto simp: xy_broker_request_def)
  have inv1: "broker_inv g1" using send_msg_quiet [OF inv s] by simp
  show ?thesis
  proof (cases "ret = BROKER_OK")
    case True
    let ?g2 = "g1\<lparr>br_tick_count := br_tick_count g1 + 1\<rparr>"
    have inv2: "broker_inv ?g2" using inv1 by simp
    obtain r2 where w: "broker_wait (broker_find_server ?g2 src) (br_tick_count g1) t ?g2 m
        = Some (rc, g', r2)"
      using r s True False m
      by (auto simp: xy_broker_request_def broker_get_timestamp_def split: Option.bind_splits)
    show ?thesis by (rule broker_wait_inv [OF inv2 find_server_inv_bound [OF inv2] w])
  next
    case ret: False
    then show ?thesis using r s False m inv1 by (auto simp: xy_broker_request_def)
  qed
qed

lemma respond_inv:
  "broker_inv g \<Longrightarrow> xy_broker_respond g req payload len = Some (rc, g') \<Longrightarrow> broker_inv g'"
  using send_msg_quiet by (auto simp: xy_broker_respond_def split: option.splits if_splits)

text \<open>Every step keeps the invariant.\<close>

lemma broker_op_inv:
  assumes "broker_op g g'" and inv: "broker_inv g"
  shows "broker_inv g'"
  using assms(1)
  by (cases rule: broker_op.cases)
    (erule init_inv [OF inv] deinit_inv [OF inv] register_inv [OF inv] unregister_inv [OF inv]
      send_msg_quiet [OF inv, THEN conjunct1] create_topic_inv [OF inv] subscribe_inv [OF inv]
      unsubscribe_inv [OF inv] request_inv [OF inv] respond_inv [OF inv] clear_queue_inv [OF inv])+

lemma broker_ops_inv: "broker_op\<^sup>*\<^sup>* g g' \<Longrightarrow> broker_inv g \<Longrightarrow> broker_inv g'"
  by (induction rule: rtranclp_induct) (auto intro: broker_op_inv)

lemma broker_handlers_inv: "broker_handlers call \<Longrightarrow> broker_inv g \<Longrightarrow> broker_inv (call h m u g)"
  unfolding broker_handlers_def by (blast intro: broker_ops_inv)

lemma broker_step_inv:
  assumes "broker_step call g g'" and "broker_handlers call" and inv: "broker_inv g"
  shows "broker_inv g'"
  using assms(1)
proof cases
  case step_op
  then show ?thesis using broker_op_inv inv by blast
next
  case step_process
  then show ?thesis using process_inv broker_handlers_inv [OF assms(2)] inv by blast
next
  case step_publish
  then show ?thesis by (rule publish_inv [OF inv])
qed

lemma broker_reachable_inv:
  assumes "broker_reachable call g" and "broker_handlers call"
  shows "broker_inv g"
  using assms(1)
proof induction
  case boot
  show ?case by (rule broker_inv_boot)
next
  case (call g g')
  then show ?case using broker_step_inv assms(2) by blast
qed

subsection \<open>Sending a list of messages\<close>

text \<open>A request to send: source, message id, payload, its length and priority.\<close>

type_synonym send_req = "u16 \<times> u16 \<times> u8 list option \<times> u16 \<times> u8"

definition send_req_ok :: "send_req \<Rightarrow> bool" where
  "send_req_ok r = (case r of (src, mid, payload, len, prio) \<Rightarrow>
     unat len \<le> 256 \<and> payload_readable payload len)"

fun broker_send_all :: "broker \<Rightarrow> u16 \<Rightarrow> send_req list \<Rightarrow> (broker_rc list \<times> broker) option" where
  "broker_send_all g dst [] = Some ([], g)"
| "broker_send_all g dst ((src, mid, payload, len, prio) # rs) = do {
     (rc, g1) \<leftarrow> xy_broker_send_msg g src dst mid payload len prio;
     (rcs, g2) \<leftarrow> broker_send_all g1 dst rs;
     Some (rc # rcs, g2) }"

text \<open>The messages as the broker stamps them.\<close>

fun broker_stamped :: "broker \<Rightarrow> u16 \<Rightarrow> send_req list \<Rightarrow> broker_msg list" where
  "broker_stamped g dst [] = []"
| "broker_stamped g dst ((src, mid, payload, len, prio) # rs) =
     broker_sent_msg g src dst mid payload len prio
     # broker_stamped (g\<lparr>br_seq_counter := br_seq_counter g + 1, br_tick_count := br_tick_count g + 1\<rparr>) dst rs"

lemma broker_stamped_cong:
  "br_seq_counter g = br_seq_counter g' \<Longrightarrow> br_tick_count g = br_tick_count g' \<Longrightarrow>
   broker_stamped g dst rs = broker_stamped g' dst rs"
  by (induction rs arbitrary: g g') (auto simp: broker_sent_msg_def)

lemma length_broker_stamped [simp]: "length (broker_stamped g dst rs) = length rs"
  by (induction rs arbitrary: g) auto

lemma send_all_room:
  assumes "broker_inv g" and "br_initialized g \<noteq> 0" and "broker_find_server g dst = Some i"
    and "\<forall>r \<in> set rs. send_req_ok r" and "length (sv_items (br_servers g ! i)) + length rs \<le> 32"
  shows "\<exists>g'. broker_send_all g dst rs = Some (replicate (length rs) BROKER_OK, g')
    \<and> broker_inv g' \<and> broker_quiet g g' \<and> br_log g' = br_log g
    \<and> sv_items (br_servers g' ! i) = sv_items (br_servers g ! i) @ broker_stamped g dst rs"
  using assms
proof (induction rs arbitrary: g)
  case Nil
  then show ?case by simp
next
  case (Cons r rs)
  obtain src mid payload len prio where r: "r = (src, mid, payload, len, prio)" by (cases r)
  have ok: "unat len \<le> 256" "payload_readable payload len"
    using Cons.prems(4) by (simp_all add: r send_req_ok_def)
  have wf: "broker_wf g" using Cons.prems(1) by (simp add: broker_inv_def)
  have "unat (sv_queue_count (br_servers g ! i)) < 32" using Cons.prems(5) by simp
  from send_msg_room [OF wf Cons.prems(2) ok(1) Cons.prems(3) ok(2) this, of src mid prio]
  obtain g1 where g1: "xy_broker_send_msg g src dst mid payload len prio = Some (BROKER_OK, g1)"
    "broker_quiet g g1"
    "sv_items (br_servers g1 ! i) = sv_items (br_servers g ! i) @ [broker_sent_msg g src dst mid payload len prio]"
    "br_seq_counter g1 = br_seq_counter g + 1" "br_tick_count g1 = br_tick_count g + 1"
    "br_log g1 = br_log g"
    by blast
  have inv1: "broker_inv g1" using send_msg_quiet [OF Cons.prems(1) g1(1)] by simp
  have find1: "broker_find_server g1 dst = Some i"
    using find_server_shell [of g g1 dst] g1(2) Cons.prems(3) by (simp add: broker_quiet_def)
  have "br_initialized g1 \<noteq> 0" using g1(2) Cons.prems(2) by (simp add: broker_quiet_def)
  moreover have "length (sv_items (br_servers g1 ! i)) + length rs \<le> 32"
    using Cons.prems(5) by (simp only: g1(3)) simp
  ultimately obtain g2 where g2: "broker_send_all g1 dst rs = Some (replicate (length rs) BROKER_OK, g2)"
    "broker_inv g2" "broker_quiet g1 g2" "br_log g2 = br_log g1"
    "sv_items (br_servers g2 ! i) = sv_items (br_servers g1 ! i) @ broker_stamped g1 dst rs"
    using Cons.IH [OF inv1 _ find1] Cons.prems(4) by auto
  have "broker_stamped g1 dst rs = broker_stamped
      (g\<lparr>br_seq_counter := br_seq_counter g + 1, br_tick_count := br_tick_count g + 1\<rparr>) dst rs"
    by (rule broker_stamped_cong) (simp_all add: g1)
  then show ?case
    using g1 g2 broker_quiet_trans [OF g1(2) g2(3)] by (intro exI [of _ g2]) (simp add: r)
qed

subsection \<open>A small system\<close>

text \<open>After start-up one server, number 5, is registered with handler 7 and user data 9.\<close>

definition broker_demo :: broker where
  "broker_demo = snd (xy_broker_register_server (snd (xy_broker_init broker_boot)) 5 (Some 7) 9)"

lemma sv_active_zero [simp]: "sv_active broker_server_zero = 0"
  by (simp add: broker_server_zero_def)

lemma sv_items_zero: "sv_items (broker_server_zero\<lparr>sv_server_id := a, sv_handler := b, sv_user_data := c, sv_active := d\<rparr>) = []"
  by (simp add: sv_items_def broker_server_zero_def)

lemma broker_demo_eq:
  "broker_demo = (broker_clear broker_boot)\<lparr>br_initialized := 1,
     br_servers := (broker_server_zero\<lparr>sv_server_id := 5, sv_handler := Some 7, sv_user_data := 9,
       sv_active := 1\<rparr>) # replicate 15 broker_server_zero,
     br_stats := broker_stats_zero\<lparr>bs_active_servers := 1\<rparr>\<rparr>"
proof -
  have r: "replicate XY_BROKER_MAX_SERVERS broker_server_zero
      = broker_server_zero # replicate 15 broker_server_zero"
    by (simp add: XY_BROKER_MAX_SERVERS_def numeral_eq_Suc)
  have n: "first_index (\<lambda>s. sv_active s \<noteq> 0 \<and> sv_server_id s = 5) (replicate 15 broker_server_zero) = None"
    by (auto simp: first_index_None)
  show ?thesis
    unfolding broker_demo_def xy_broker_init_def xy_broker_register_server_def broker_clear_def
      broker_find_server_def broker_alloc_server_def broker_set_server_def
    by (simp add: broker_boot_def r n broker_stats_zero_def del: replicate.simps)
qed

lemma broker_demo_facts:
  "broker_reachable call broker_demo" "br_initialized broker_demo = 1"
  "broker_find_server broker_demo 5 = Some 0" "sv_handler (br_servers broker_demo ! 0) = Some 7"
  "sv_user_data (br_servers broker_demo ! 0) = 9" "sv_items (br_servers broker_demo ! 0) = []"
  "br_log broker_demo = []" "br_seq_counter broker_demo = 0" "br_tick_count broker_demo = 0"
proof -
  have "broker_op broker_boot (snd (xy_broker_init broker_boot))"
    by (rule op_init [where rc = "fst (xy_broker_init broker_boot)"]) simp
  moreover have "broker_op (snd (xy_broker_init broker_boot)) broker_demo"
    unfolding broker_demo_def by (rule op_register [OF prod.collapse [symmetric]])
  ultimately show "broker_reachable call broker_demo"
    by (blast intro: broker_reachable.intros step_op)
qed (simp_all add: broker_demo_eq broker_find_server_def sv_items_zero broker_clear_def broker_boot_def)

text \<open>Handlers that do nothing, and handlers that send a message to server 5.\<close>

definition broker_idle :: broker_call where "broker_idle h m u g = g"

definition broker_echo :: broker_call where
  "broker_echo h m u g = (case xy_broker_send_msg g 5 5 (bm_msg_id m) None 0 1 of
     Some (_, g') \<Rightarrow> g' | None \<Rightarrow> g)"

lemma broker_idle_handlers: "broker_handlers broker_idle" "broker_call_apart broker_idle i"
  by (simp_all add: broker_handlers_def broker_idle_def broker_call_apart_def)

lemma broker_echo_handlers: "broker_handlers broker_echo"
  unfolding broker_handlers_def broker_echo_def
  by (auto split: option.splits prod.splits intro: op_send)

subsection \<open>Properties\<close>

text \<open>
  C8. In every state the broker can reach, through any sequence of its calls and with any handlers
  that act through the broker's own calls, every message queue is a consistent ring of at most 32
  messages, no two active servers share a number, and the statistics count exactly the active
  servers.
\<close>

theorem broker_reachable_wf:
  assumes "broker_reachable call g" and "broker_handlers call"
  shows "broker_wf g"
  using broker_reachable_inv [OF assms] by (simp add: broker_inv_def)

theorem broker_reachable_wf_witness:
  "broker_wf broker_demo \<and> active_ids (br_servers broker_demo) = [5]"
  using broker_reachable_wf [OF broker_demo_facts(1) broker_echo_handlers]
  by (simp add: broker_demo_eq active_ids_def)

text \<open>
  C9. Delivery. Take a reachable state in which the server \<open>dst\<close> is registered with a handler and
  send it messages that fit its queue. All sends succeed, and one call of
  \<open>xy_broker_process_msgs\<close> then hands the handler what was pending and after it the new messages,
  as they were stamped, in the order of sending whatever their priorities: all of them, or the
  first \<open>max_msgs\<close> when a limit is given; the rest stays queued.
\<close>

theorem broker_delivers_in_order:
  assumes "broker_reachable call g" and "broker_handlers call" and "br_initialized g \<noteq> 0"
    and "broker_find_server g dst = Some i" and "sv_handler (br_servers g ! i) = Some h"
    and "broker_call_apart call i" and "\<forall>r \<in> set rs. send_req_ok r"
    and "length (sv_items (br_servers g ! i)) + length rs \<le> 32"
  shows "\<exists>g1 g2. let ms = sv_items (br_servers g ! i) @ broker_stamped g dst rs;
      n = (if max_msgs = 0 then length ms else min (length ms) (unat max_msgs))
    in broker_send_all g dst rs = Some (replicate (length rs) BROKER_OK, g1)
      \<and> xy_broker_process_msgs call g1 dst max_msgs = Some (int n, g2)
      \<and> br_log g2 = br_log g @ map (\<lambda>m. (h, m, sv_user_data (br_servers g ! i))) (take n ms)
      \<and> sv_items (br_servers g2 ! i) = drop n ms"
proof -
  have inv: "broker_inv g" by (rule broker_reachable_inv [OF assms(1,2)])
  obtain g1 where g1: "broker_send_all g dst rs = Some (replicate (length rs) BROKER_OK, g1)"
    "broker_inv g1" "broker_quiet g g1" "br_log g1 = br_log g"
    "sv_items (br_servers g1 ! i) = sv_items (br_servers g ! i) @ broker_stamped g dst rs"
    using send_all_room [OF inv assms(3,4,7,8)] by blast
  let ?ms = "sv_items (br_servers g ! i) @ broker_stamped g dst rs"
  let ?n = "if max_msgs = 0 then length ?ms else min (length ?ms) (unat max_msgs)"
  have i: "i < 16" by (rule find_server_inv_bound [OF inv assms(4)])
  have find1: "broker_find_server g1 dst = Some i" and ini1: "br_initialized g1 \<noteq> 0"
    using find_server_shell [of g g1 dst] g1(3) assms(3,4) by (simp_all add: broker_quiet_def)
  have l: "length (br_servers g) = 16" "length (br_servers g1) = 16"
    using inv g1(2) by (simp_all add: broker_inv_def broker_wf_def)
  have "map sv_shell (br_servers g1) ! i = map sv_shell (br_servers g) ! i"
    using g1(3) by (simp add: broker_quiet_def)
  then have "sv_shell (br_servers g1 ! i) = sv_shell (br_servers g ! i)" using i l by simp
  then have hu: "sv_handler (br_servers g1 ! i) = Some h"
    "sv_user_data (br_servers g1 ! i) = sv_user_data (br_servers g ! i)"
    using assms(5) by (simp_all add: sv_shell_def)
  have wf1: "sv_wf (br_servers g1 ! i)" using g1(2) i by (simp add: broker_inv_def broker_wf_def)
  obtain g2 where g2: "broker_process_loop call i max_msgs 0 g1 = Some (?n, g2)"
    "br_log g2 = br_log g1 @ map (\<lambda>m. (h, m, sv_user_data (br_servers g ! i))) (take ?n ?ms)"
    "sv_items (br_servers g2 ! i) = drop ?n ?ms"
    using process_loop_delivers [of i g1 h "sv_user_data (br_servers g ! i)" call ?ms max_msgs 0]
      i l wf1 hu assms(6) g1(5)
    by (cases "max_msgs = 0") (auto simp: min_def split: if_splits)
  have "xy_broker_process_msgs call g1 dst max_msgs = Some (int ?n, g2)"
    using ini1 find1 hu(1) g2(1) by (simp add: xy_broker_process_msgs_def)
  then show ?thesis using g1(1,4) g2(2,3) by (auto simp: Let_def)
qed

text \<open>Two messages of priorities 0 and 3 (highest) are delivered in the order they were sent.\<close>

theorem broker_delivers_in_order_witness:
  "\<exists>g1 g2 m1 m2. broker_send_all broker_demo 5 [(1, 10, Some [1, 2], 2, 0), (1, 20, None, 0, 3)]
       = Some ([BROKER_OK, BROKER_OK], g1)
    \<and> xy_broker_process_msgs broker_idle g1 5 0 = Some (2, g2)
    \<and> br_log g2 = [(7, m1, 9), (7, m2, 9)]
    \<and> bm_msg_id m1 = 10 \<and> bm_priority m1 = 0 \<and> bm_msg_id m2 = 20 \<and> bm_priority m2 = 3"
proof -
  let ?rs = "[(1, 10, Some [1, 2], 2, 0), (1, 20, None, 0, 3)] :: send_req list"
  have ok: "\<forall>r \<in> set ?rs. send_req_ok r" by (simp add: send_req_ok_def payload_readable_def)
  show ?thesis
    using broker_delivers_in_order [OF broker_demo_facts(1) broker_idle_handlers(1) _
        broker_demo_facts(3,4) broker_idle_handlers(2) ok, of 0]
    by (simp add: broker_demo_facts Let_def broker_sent_msg_def) force
qed

text \<open>
  C10. The processing loop ends. With a limit \<open>max_msgs > 0\<close> a call of \<open>xy_broker_process_msgs\<close>
  returns in every reachable state, also when the handlers keep sending to the server being
  served, provided they leave a handler installed; it processes at most \<open>max_msgs\<close> messages, and
  fewer only if the queue has become empty.
\<close>

theorem broker_process_returns:
  assumes "broker_reachable call g" and "broker_handlers call" and "br_initialized g \<noteq> 0"
    and "broker_find_server g sid = Some i" and "sv_handler (br_servers g ! i) \<noteq> None"
    and "\<And>h m u g. sv_handler (br_servers g ! i) \<noteq> None \<Longrightarrow>
          broker_inv g \<Longrightarrow> sv_handler (br_servers (call h m u g) ! i) \<noteq> None"
    and "max_msgs \<noteq> 0"
  shows "\<exists>n g'. xy_broker_process_msgs call g sid max_msgs = Some (int n, g')
    \<and> n \<le> unat max_msgs \<and> (n < unat max_msgs \<longrightarrow> sv_items (br_servers g' ! i) = [])
    \<and> broker_wf g'"
proof -
  have inv: "broker_inv g" by (rule broker_reachable_inv [OF assms(1,2)])
  have ok: "broker_call_ok call i"
    using broker_handlers_inv [OF assms(2)] assms(6) by (simp add: broker_call_ok_def)
  obtain n g' where "broker_process_loop call i max_msgs 0 g = Some (n, g')" "n \<le> unat max_msgs"
    "broker_inv g'" "n < unat max_msgs \<longrightarrow> sv_queue_count (br_servers g' ! i) = 0"
    using process_loop_bounded [OF inv find_server_inv_bound [OF inv assms(4)] assms(5) ok assms(7), of 0]
    by auto
  then show ?thesis
    using assms(3,4,5) sv_items_empty
    by (intro exI [of _ n] exI [of _ g']) (auto simp: xy_broker_process_msgs_def broker_inv_def)
qed

lemma broker_echo_handler_kept:
  assumes "sv_handler (br_servers g ! 0) \<noteq> None" and inv: "broker_inv g"
  shows "sv_handler (br_servers (broker_echo h m u g) ! 0) \<noteq> None"
proof (cases "xy_broker_send_msg g 5 5 (bm_msg_id m) None 0 1")
  case None
  then show ?thesis using assms(1) by (simp add: broker_echo_def)
next
  case (Some r)
  then obtain rc g' where s: "xy_broker_send_msg g 5 5 (bm_msg_id m) None 0 1 = Some (rc, g')"
    by (cases r) simp
  have q: "broker_inv g'" "broker_quiet g g'" using send_msg_quiet [OF inv s] by simp_all
  have "map sv_shell (br_servers g') ! 0 = map sv_shell (br_servers g) ! 0"
    using q(2) by (simp add: broker_quiet_def)
  moreover have "length (br_servers g') = 16" "length (br_servers g) = 16"
    using q(1) inv by (simp_all add: broker_inv_def broker_wf_def)
  ultimately have "sv_handler (br_servers g' ! 0) = sv_handler (br_servers g ! 0)"
    by (simp add: sv_shell_def)
  then show ?thesis using assms(1) s by (simp add: broker_echo_def)
qed

theorem broker_process_returns_witness:
  "\<exists>n g'. xy_broker_process_msgs broker_echo broker_demo 5 3 = Some (int n, g') \<and> n \<le> 3 \<and> broker_wf g'"
proof -
  have "br_initialized broker_demo \<noteq> 0" "sv_handler (br_servers broker_demo ! 0) \<noteq> None"
    by (simp_all add: broker_demo_facts)
  moreover have "(3 :: u16) \<noteq> 0" by simp
  ultimately show ?thesis
    using broker_process_returns [OF broker_demo_facts(1) broker_echo_handlers _ broker_demo_facts(3) _
        broker_echo_handler_kept, of "3 :: u16"] by auto
qed

text \<open>
  C11. Publish and subscribe cannot be used. In every reachable initialised state subscribing with
  a handler dereferences a null pointer, because the topic it creates has no subscriber and is
  therefore not found; publishing to any topic and unsubscribing from it report NOT_FOUND and
  change nothing.
\<close>

theorem broker_pubsub_unusable:
  assumes "broker_reachable call g" and "broker_handlers call" and "br_initialized g \<noteq> 0"
  shows "xy_broker_subscribe g tid sid (Some h) u = None
    \<and> xy_broker_unsubscribe g tid sid = (BROKER_NOT_FOUND, g)
    \<and> xy_broker_publish call g src tid mid payload len prio =
        Some (if unat len > 256 then BROKER_INVALID_PARAM else BROKER_NOT_FOUND, g)"
proof -
  have inv: "broker_inv g" by (rule broker_reachable_inv [OF assms(1,2)])
  then have "broker_find_topic g tid = None" by (simp add: broker_inv_def no_subs_find)
  then show ?thesis
    using subscribe_undefined [OF inv assms(3)] assms(3)
    by (simp add: xy_broker_unsubscribe_def xy_broker_publish_def XY_BROKER_MAX_MSG_SIZE_def)
qed

theorem broker_pubsub_unusable_witness:
  "xy_broker_subscribe broker_demo 1 5 (Some 7) 0 = None
   \<and> xy_broker_publish broker_idle broker_demo 5 1 2 None 0 1 = Some (BROKER_NOT_FOUND, broker_demo)"
  using broker_pubsub_unusable [OF broker_demo_facts(1) broker_idle_handlers(1), of 1 5 7 0 5 2 None 0 1]
  by (simp add: broker_demo_facts)

text \<open>
  What a request returns. The request is queued for its destination, and while the requester
  waits no handler runs. If nothing was pending for the requester the call therefore ends with
  TIMEOUT, whatever the timeout; otherwise it returns at once the oldest message pending for the
  requester, which was there before the request was sent, as the response.
\<close>

theorem broker_request_no_response:
  assumes "broker_reachable call g" and "broker_handlers call" and "br_initialized g \<noteq> 0"
    and "broker_find_server g src = Some j" and "broker_find_server g dst = Some i" and "src \<noteq> dst"
    and "unat len \<le> 256" and "payload_readable payload len"
    and "length (sv_items (br_servers g ! i)) < 32" and "timeout > 1"
  shows "\<exists>g' rc r'. xy_broker_request g src dst mid payload len (Some r) timeout = Some (rc, g', Some r')
    \<and> br_log g' = br_log g
    \<and> sv_items (br_servers g' ! i) = sv_items (br_servers g ! i)
        @ [broker_sent_msg g src dst mid payload len 1]
    \<and> (case sv_items (br_servers g ! j) of
         [] \<Rightarrow> rc = BROKER_TIMEOUT \<and> r' = r
       | m # ms \<Rightarrow> rc = BROKER_OK \<and> r' = m \<and> sv_items (br_servers g' ! j) = ms)"
proof -
  have inv: "broker_inv g" by (rule broker_reachable_inv [OF assms(1,2)])
  then have wf: "broker_wf g" by (simp add: broker_inv_def)
  have "unat (sv_queue_count (br_servers g ! i)) < 32" using assms(9) by simp
  from send_msg_room [OF wf assms(3,7,5,8) this, of src mid 1]
  obtain g1 where g1: "xy_broker_send_msg g src dst mid payload len 1 = Some (BROKER_OK, g1)"
    "broker_quiet g g1"
    "sv_items (br_servers g1 ! i) = sv_items (br_servers g ! i) @ [broker_sent_msg g src dst mid payload len 1]"
    "\<forall>k < 16. k \<noteq> i \<longrightarrow> sv_items (br_servers g1 ! k) = sv_items (br_servers g ! k)"
    "br_tick_count g1 = br_tick_count g + 1" "br_log g1 = br_log g"
    by blast
  have inv1: "broker_inv g1" using send_msg_quiet [OF inv g1(1)] by simp
  have ij: "i < 16" "j < 16" using find_server_inv_bound [OF inv] assms(4,5) by blast+
  have "sv_server_id (br_servers g ! j) = src" "sv_server_id (br_servers g ! i) = dst"
    using assms(4,5) by (simp_all add: broker_find_server_def first_index_Some)
  then have ne: "j \<noteq> i" using assms(6) by blast
  let ?g2 = "g1\<lparr>br_tick_count := br_tick_count g1 + 1\<rparr>"
  have find2: "broker_find_server ?g2 src = Some j"
    using find_server_shell [of g g1 src] g1(2) assms(4)
    by (simp add: broker_quiet_def broker_find_server_def)
  have req: "xy_broker_request g src dst mid payload len (Some r) timeout
      = map_option (\<lambda>(rc, g3, r'). (rc, g3, Some r')) (broker_wait (Some j) (br_tick_count g1) timeout ?g2 r)"
    using g1(1) assms(3) find2
    by (cases "broker_wait (Some j) (br_tick_count g1) timeout ?g2 r")
      (auto simp: xy_broker_request_def broker_get_timestamp_def)
  have items_j: "sv_items (br_servers ?g2 ! j) = sv_items (br_servers g ! j)" using g1(4) ij ne by simp
  show ?thesis
  proof (cases "sv_items (br_servers g ! j)")
    case Nil
    then have "\<And>k. Some j = Some k \<Longrightarrow> sv_queue_count (br_servers ?g2 ! k) = 0"
      using items_j sv_items_empty by (metis option.inject)
    from broker_wait_timeout [where start = "br_tick_count g1" and timeout = timeout and r = r, OF this]
    obtain t where "broker_wait (Some j) (br_tick_count g1) timeout ?g2 r
        = Some (BROKER_TIMEOUT, ?g2\<lparr>br_tick_count := t\<rparr>, r)" by blast
    then show ?thesis using req g1 Nil by simp
  next
    case (Cons m ms)
    have wfj: "sv_wf (br_servers ?g2 ! j)" using inv1 ij by (simp add: broker_inv_def broker_wf_def)
    have early: "br_tick_count ?g2 - br_tick_count g1 < timeout" using assms(10) by simp
    have itj: "sv_items (br_servers ?g2 ! j) = m # ms" using items_j Cons by simp
    obtain s' where s': "broker_wait (Some j) (br_tick_count g1) timeout ?g2 r
        = Some (BROKER_OK, broker_set_server (?g2\<lparr>br_tick_count := br_tick_count ?g2 + 1\<rparr>) j s', m)"
      "sv_items s' = ms"
      using broker_wait_head [OF wfj itj early, of r] by blast
    have "length (br_servers g1) = 16" using inv1 by (simp add: broker_inv_def broker_wf_def)
    then show ?thesis
      using req g1 Cons s' ij ne by (simp add: broker_set_server_def)
  qed
qed

text \<open>A second server, number 6.\<close>

definition broker_demo2 :: broker where
  "broker_demo2 = snd (xy_broker_register_server broker_demo 6 (Some 8) 0)"

lemma broker_demo2_facts:
  "broker_reachable call broker_demo2" "br_initialized broker_demo2 = 1"
  "broker_find_server broker_demo2 5 = Some 0" "broker_find_server broker_demo2 6 = Some 1"
  "sv_items (br_servers broker_demo2 ! 0) = []" "sv_items (br_servers broker_demo2 ! 1) = []"
proof -
  have "broker_op broker_demo broker_demo2"
    unfolding broker_demo2_def by (rule op_register [OF prod.collapse [symmetric]])
  then show "broker_reachable call broker_demo2"
    by (blast intro: broker_reachable.intros step_op broker_demo_facts(1))
  have n: "first_index (\<lambda>s. sv_active s \<noteq> 0 \<and> sv_server_id s = 6) (replicate 14 broker_server_zero) = None"
    by (auto simp: first_index_None)
  have r: "replicate 15 broker_server_zero = broker_server_zero # replicate 14 broker_server_zero"
    by (simp add: numeral_eq_Suc)
  have eq: "broker_demo2 = broker_demo\<lparr>br_servers := (br_servers broker_demo)[1 := broker_server_zero
      \<lparr>sv_server_id := 6, sv_handler := Some 8, sv_user_data := 0, sv_active := 1\<rparr>],
      br_stats := broker_stats_zero\<lparr>bs_active_servers := 2\<rparr>\<rparr>"
    unfolding broker_demo2_def xy_broker_register_server_def broker_find_server_def
      broker_alloc_server_def broker_set_server_def
    by (simp add: broker_demo_eq n r del: replicate.simps)
  show "br_initialized broker_demo2 = 1" "broker_find_server broker_demo2 5 = Some 0"
    "broker_find_server broker_demo2 6 = Some 1" "sv_items (br_servers broker_demo2 ! 0) = []"
    "sv_items (br_servers broker_demo2 ! 1) = []"
    by (simp_all add: eq broker_demo_eq broker_find_server_def sv_items_zero r del: replicate.simps)
qed

theorem broker_request_no_response_witness:
  "\<exists>g' r'. xy_broker_request broker_demo2 5 6 1 None 0 (Some broker_msg_zero) 1000
      = Some (BROKER_TIMEOUT, g', Some r') \<and> length (sv_items (br_servers g' ! 1)) = 1"
proof -
  have "br_initialized broker_demo2 \<noteq> 0" "(5 :: u16) \<noteq> 6" "unat (0 :: u16) \<le> 256"
    "payload_readable None 0" "length (sv_items (br_servers broker_demo2 ! 1)) < 32" "(1000 :: u32) > 1"
    using broker_demo2_facts(6) by (simp_all add: broker_demo2_facts payload_readable_def sv_items_empty)
  from broker_request_no_response [OF broker_demo2_facts(1) broker_idle_handlers(1) this(1)
      broker_demo2_facts(3,4) this(2-6), of 1 broker_msg_zero]
  moreover have "sv_items (br_servers broker_demo2 ! Suc 0) = []" using broker_demo2_facts(6) by simp
  ultimately show ?thesis by (auto simp: broker_demo2_facts simp del: length_sv_items)
qed

end
