(* ===== verification/Xy_Iso7816.thy ===== *)
theory Xy_Iso7816
  imports Xy_Prelude
begin

text \<open>
  The smart-card protocol driver \<open>components/net/xy_iso7816\<close> (\<open>xy_iso7816.c\<close>,
  \<open>xy_iso7816.h\<close>).

  The UART driver below it (\<open>xy_hal_uart_send\<close>, \<open>xy_hal_uart_recv\<close>,
  \<open>xy_hal_uart_flush\<close>) is board code: it is the argument \<open>hal\<close>, acting on a state of any type,
  which stands for the line and the card. \<open>hal_recv\<close> yields the return value and the bytes it
  has put at the start of the buffer. Arrays on the stack that the code does not initialise are
  arguments (\<open>stack\<close>). \<open>None\<close> is undefined behaviour or, for the recursive exchange, no return.
\<close>

subsection \<open>Constants and data structures (xy_iso7816.h)\<close>

datatype iso_rc =
    XY_ISO7816_OK | XY_ISO7816_ERROR | XY_ISO7816_ERROR_INVALID_PARAM | XY_ISO7816_ERROR_TIMEOUT
  | XY_ISO7816_ERROR_IO | XY_ISO7816_ERROR_PROTOCOL | XY_ISO7816_ERROR_ATR
  | XY_ISO7816_ERROR_NOT_INIT | XY_ISO7816_ERROR_CARD

fun iso_rc_code :: "iso_rc \<Rightarrow> int" where
  "iso_rc_code XY_ISO7816_OK = 0"
| "iso_rc_code XY_ISO7816_ERROR = -1"
| "iso_rc_code XY_ISO7816_ERROR_INVALID_PARAM = -2"
| "iso_rc_code XY_ISO7816_ERROR_TIMEOUT = -3"
| "iso_rc_code XY_ISO7816_ERROR_IO = -4"
| "iso_rc_code XY_ISO7816_ERROR_PROTOCOL = -5"
| "iso_rc_code XY_ISO7816_ERROR_ATR = -6"
| "iso_rc_code XY_ISO7816_ERROR_NOT_INIT = -7"
| "iso_rc_code XY_ISO7816_ERROR_CARD = -8"

datatype iso_card_type =
    XY_ISO7816_CARD_UNKNOWN | XY_ISO7816_CARD_SIM | XY_ISO7816_CARD_USIM | XY_ISO7816_CARD_ISIM
  | XY_ISO7816_CARD_GENERIC

definition XY_ISO7816_ATR_MAX_LEN :: nat where "XY_ISO7816_ATR_MAX_LEN = 33"
definition XY_ISO7816_DEFAULT_TIMEOUT :: u32 where "XY_ISO7816_DEFAULT_TIMEOUT = 1000"
definition XY_ISO7816_BYTE_TIMEOUT :: u32 where "XY_ISO7816_BYTE_TIMEOUT = 100"

record iso_atr =
  at_data :: "u8 list"
  at_length :: u8
  at_protocol :: u8
  at_valid :: bool

record iso_cmd =
  cm_cla :: u8
  cm_ins :: u8
  cm_p1 :: u8
  cm_p2 :: u8
  cm_lc :: u8
  cm_data :: "u8 list"
  cm_le :: u8

record iso_resp =
  rs_data :: "u8 list"
  rs_length :: u16
  rs_sw1 :: u8
  rs_sw2 :: u8

record iso_handle =
  ih_uart :: nat
  ih_atr :: iso_atr
  ih_initialized :: bool
  ih_timeout :: u32

record iso_sim_info =
  si_card_type :: iso_card_type
  si_iccid :: "u8 list"
  si_iccid_len :: u8
  si_imsi :: "u8 list"
  si_imsi_len :: u8

text \<open>Objects after \<open>memset(.., 0, ..)\<close>.\<close>

definition iso_atr_zero :: iso_atr where
  "iso_atr_zero = \<lparr>at_data = replicate XY_ISO7816_ATR_MAX_LEN 0, at_length = 0, at_protocol = 0,
     at_valid = False\<rparr>"

definition iso_cmd_zero :: iso_cmd where
  "iso_cmd_zero = \<lparr>cm_cla = 0, cm_ins = 0, cm_p1 = 0, cm_p2 = 0, cm_lc = 0,
     cm_data = replicate 256 0, cm_le = 0\<rparr>"

definition iso_resp_zero :: iso_resp where
  "iso_resp_zero = \<lparr>rs_data = replicate 256 0, rs_length = 0, rs_sw1 = 0, rs_sw2 = 0\<rparr>"

definition iso_sim_info_zero :: iso_sim_info where
  "iso_sim_info_zero = \<lparr>si_card_type = XY_ISO7816_CARD_UNKNOWN, si_iccid = replicate 10 0,
     si_iccid_len = 0, si_imsi = replicate 9 0, si_imsi_len = 0\<rparr>"

subsection \<open>The UART driver\<close>

record 'u uart_hal =
  hal_send :: "nat \<Rightarrow> u8 list \<Rightarrow> u32 \<Rightarrow> 'u \<Rightarrow> int \<times> 'u"
  hal_recv :: "nat \<Rightarrow> nat \<Rightarrow> u32 \<Rightarrow> 'u \<Rightarrow> int \<times> u8 list \<times> 'u"
  hal_flush :: "nat \<Rightarrow> 'u \<Rightarrow> 'u"

subsection \<open>Private helper functions\<close>

text \<open>The \<open>for\<close> loop over a \<open>xy_u16\<close> index that is below \<open>len\<close>.\<close>

definition xy_iso7816_calc_checksum :: "u8 list \<Rightarrow> u16 \<Rightarrow> u8 option" where
  "xy_iso7816_calc_checksum data len =
     map_option (\<lambda>bs. fold (\<lambda>b c. c XOR b) bs 0) (mem_read data 0 (unat len))"

definition xy_iso7816_send_byte ::
  "'u uart_hal \<Rightarrow> iso_handle \<Rightarrow> u8 \<Rightarrow> 'u \<Rightarrow> iso_rc \<times> 'u" where
  "xy_iso7816_send_byte hal handle byte u =
     (let (ret, u') = hal_send hal (ih_uart handle) [byte] (ih_timeout handle) u in
      if ret \<noteq> 1 then (XY_ISO7816_ERROR_IO, u') else (XY_ISO7816_OK, u'))"

text \<open>\<open>byte\<close> is the old contents of the receiving object.\<close>

definition xy_iso7816_recv_byte ::
  "'u uart_hal \<Rightarrow> iso_handle \<Rightarrow> u8 \<Rightarrow> 'u \<Rightarrow> iso_rc \<times> u8 \<times> 'u" where
  "xy_iso7816_recv_byte hal handle byte u =
     (let (ret, bs, u') = hal_recv hal (ih_uart handle) 1 XY_ISO7816_BYTE_TIMEOUT u;
          byte' = (case bs of [] \<Rightarrow> byte | b # _ \<Rightarrow> b) in
      if ret \<noteq> 1 then (XY_ISO7816_ERROR_TIMEOUT, byte', u') else (XY_ISO7816_OK, byte', u'))"

definition xy_iso7816_send_buffer ::
  "'u uart_hal \<Rightarrow> iso_handle \<Rightarrow> u8 list \<Rightarrow> u16 \<Rightarrow> 'u \<Rightarrow> (iso_rc \<times> 'u) option" where
  "xy_iso7816_send_buffer hal handle data len u = do {
     bs \<leftarrow> mem_read data 0 (unat len);
     let (ret, u') = hal_send hal (ih_uart handle) bs (ih_timeout handle) u;
     if ret \<noteq> uint len then Some (XY_ISO7816_ERROR_IO, u') else Some (XY_ISO7816_OK, u') }"

definition xy_iso7816_recv_buffer ::
  "'u uart_hal \<Rightarrow> iso_handle \<Rightarrow> u8 list \<Rightarrow> u16 \<Rightarrow> 'u \<Rightarrow> (iso_rc \<times> u8 list \<times> 'u) option" where
  "xy_iso7816_recv_buffer hal handle data len u = do {
     let (ret, bs, u') = hal_recv hal (ih_uart handle) (unat len) (ih_timeout handle) u;
     data' \<leftarrow> mem_write data 0 bs;
     if ret \<noteq> uint len then Some (XY_ISO7816_ERROR_TIMEOUT, data', u')
     else Some (XY_ISO7816_OK, data', u') }"

text \<open>Receiving one byte into an array at an index, which must lie in the array.\<close>

definition iso_recv_at ::
  "'u uart_hal \<Rightarrow> iso_handle \<Rightarrow> u8 list \<Rightarrow> nat \<Rightarrow> 'u \<Rightarrow> (iso_rc \<times> u8 list \<times> 'u) option" where
  "iso_recv_at hal handle data i u = do {
     b \<leftarrow> mem_load data i;
     let (ret, b', u') = xy_iso7816_recv_byte hal handle b u;
     data' \<leftarrow> mem_store data i b';
     Some (ret, data', u') }"

subsection \<open>Core protocol functions\<close>

definition xy_iso7816_init ::
  "iso_handle option \<Rightarrow> nat option \<Rightarrow> iso_rc \<times> iso_handle option" where
  "xy_iso7816_init handle uart =
     (case (handle, uart) of
        (Some h, Some p) \<Rightarrow>
          (XY_ISO7816_OK, Some \<lparr>ih_uart = p, ih_atr = iso_atr_zero, ih_initialized = True,
             ih_timeout = XY_ISO7816_DEFAULT_TIMEOUT\<rparr>)
      | _ \<Rightarrow> (XY_ISO7816_ERROR_INVALID_PARAM, handle))"

definition xy_iso7816_deinit :: "iso_handle option \<Rightarrow> iso_rc \<times> iso_handle option" where
  "xy_iso7816_deinit handle =
     (case handle of
        None \<Rightarrow> (XY_ISO7816_ERROR_INVALID_PARAM, handle)
      | Some h \<Rightarrow> (XY_ISO7816_OK, Some (h\<lparr>ih_initialized := False\<rparr>)))"

text \<open>An interface byte of the answer to reset, received into \<open>atr->data[atr->length++]\<close> if present.\<close>

definition iso_atr_recv ::
  "'u uart_hal \<Rightarrow> iso_handle \<Rightarrow> bool \<Rightarrow> iso_atr \<Rightarrow> 'u \<Rightarrow> (iso_rc \<times> iso_atr \<times> 'u) option" where
  "iso_atr_recv hal handle present atr u =
     (if present then do {
        (ret, data, u') \<leftarrow> iso_recv_at hal handle (at_data atr) (unat (at_length atr)) u;
        Some (ret, atr\<lparr>at_data := data, at_length := at_length atr + 1\<rparr>, u') }
      else Some (XY_ISO7816_OK, atr, u))"

lemma iso_atr_recv_length:
  "iso_atr_recv hal h present atr u = Some (ret, atr', u') \<Longrightarrow>
   at_length atr' = at_length atr + (if present then 1 else 0)"
  by (auto simp: iso_atr_recv_def split: if_splits)

text \<open>The loop over the groups of interface bytes; \<open>td\<close> announces the bytes of the next group.\<close>

function iso_atr_loop ::
  "'u uart_hal \<Rightarrow> iso_handle \<Rightarrow> iso_atr \<Rightarrow> u8 \<Rightarrow> 'u \<Rightarrow> (iso_rc \<times> iso_atr \<times> u8 \<times> 'u) option" where
  "iso_atr_loop hal handle atr td u =
     (if unat (at_length atr) < XY_ISO7816_ATR_MAX_LEN then do {
        (r1, a1, u1) \<leftarrow> iso_atr_recv hal handle (td AND 0x10 \<noteq> 0) atr u;
        if r1 \<noteq> XY_ISO7816_OK then Some (XY_ISO7816_ERROR_ATR, a1, td, u1)
        else do {
          (r2, a2, u2) \<leftarrow> iso_atr_recv hal handle (td AND 0x20 \<noteq> 0) a1 u1;
          if r2 \<noteq> XY_ISO7816_OK then Some (XY_ISO7816_ERROR_ATR, a2, td, u2)
          else do {
            (r3, a3, u3) \<leftarrow> iso_atr_recv hal handle (td AND 0x40 \<noteq> 0) a2 u2;
            if r3 \<noteq> XY_ISO7816_OK then Some (XY_ISO7816_ERROR_ATR, a3, td, u3)
            else if td AND 0x80 \<noteq> 0 then
              (case xy_iso7816_recv_byte hal handle td u3 of (r4, td', u4) \<Rightarrow>
                 if r4 \<noteq> XY_ISO7816_OK then Some (XY_ISO7816_ERROR_ATR, a3, td', u4)
                 else do {
                   data \<leftarrow> mem_store (at_data a3) (unat (at_length a3)) td';
                   iso_atr_loop hal handle
                     (a3\<lparr>at_data := data, at_length := at_length a3 + 1\<rparr>) td' u4 })
            else Some (XY_ISO7816_OK, a3, td, u3) } } }
      else Some (XY_ISO7816_OK, atr, td, u))"
  by pat_completeness auto

lemma iso_atr_step_less:
  assumes "unat (l :: u8) < 33" and "(a :: u8) = 0 \<or> a = 1" and "(b :: u8) = 0 \<or> b = 1"
    and "(c :: u8) = 0 \<or> c = 1"
  shows "33 - unat (l + a + b + c + 1) < 33 - unat l"
proof -
  have "l < 33" using assms(1) by (simp add: word_less_nat_alt)
  then have sum: "unat (l + x) = unat l + unat x" if "unat x \<le> 4" for x
    using that assms(1) by (subst unat_add_lem [THEN iffD1]) simp_all
  have x: "1 \<le> unat (a + b + c + 1)" "unat (a + b + c + 1) \<le> 4" using assms(2-4) by auto
  have "l + a + b + c + 1 = l + (a + b + c + 1)" by (simp only: add.assoc)
  then show ?thesis using sum [OF x(2)] x assms(1) by (simp only:)
qed

termination iso_atr_loop
proof (relation "measure (\<lambda>(hal, h, atr, td, u). 33 - unat (at_length atr))", goal_cases)
  case 1
  show ?case by simp
next
  case (2 hal handle atr td u r1 x1 a1 u1 r2 x2 a2 u2 r3 x3 a3 u3 r4 x4 td' u4 data)
  then show ?case
    using iso_atr_step_less [of "at_length atr" "if td AND 0x10 \<noteq> 0 then 1 else 0"
        "if td AND 0x20 \<noteq> 0 then 1 else 0" "if td AND 0x40 \<noteq> 0 then 1 else 0"]
    by (auto simp: XY_ISO7816_ATR_MAX_LEN_def dest!: iso_atr_recv_length)
qed

text \<open>The historical bytes.\<close>

fun iso_atr_hist ::
  "'u uart_hal \<Rightarrow> iso_handle \<Rightarrow> nat \<Rightarrow> iso_atr \<Rightarrow> 'u \<Rightarrow> (iso_rc \<times> iso_atr \<times> 'u) option" where
  "iso_atr_hist hal handle 0 atr u = Some (XY_ISO7816_OK, atr, u)"
| "iso_atr_hist hal handle (Suc n) atr u =
     (if unat (at_length atr) < XY_ISO7816_ATR_MAX_LEN then do {
        (ret, a, u') \<leftarrow> iso_atr_recv hal handle True atr u;
        if ret \<noteq> XY_ISO7816_OK then Some (XY_ISO7816_ERROR_ATR, a, u')
        else iso_atr_hist hal handle n a u' }
      else Some (XY_ISO7816_OK, atr, u))"

text \<open>\<open>ts\<close>, \<open>t0\<close> and \<open>tck\<close> are receive buffers of one byte; their old contents are irrelevant.\<close>

definition xy_iso7816_reset ::
  "'u uart_hal \<Rightarrow> iso_handle option \<Rightarrow> iso_atr option \<Rightarrow> 'u
   \<Rightarrow> (iso_rc \<times> iso_handle option \<times> iso_atr option \<times> 'u) option" where
  "xy_iso7816_reset hal handle atr u =
     (case (handle, atr) of
        (Some h, Some _) \<Rightarrow>
          if \<not> ih_initialized h then Some (XY_ISO7816_ERROR_INVALID_PARAM, handle, atr, u)
          else
            (let a0 = iso_atr_zero;
                 u0 = hal_flush hal (ih_uart h) u;
                 (r1, ts, u1) = xy_iso7816_recv_byte hal h 0 u0 in
             if r1 \<noteq> XY_ISO7816_OK then Some (XY_ISO7816_ERROR_ATR, handle, Some a0, u1)
             else if ts \<noteq> 0x3B \<and> ts \<noteq> 0x3F then Some (XY_ISO7816_ERROR_ATR, handle, Some a0, u1)
             else
               (let a1 = a0\<lparr>at_data := (at_data a0)[0 := ts], at_length := 1\<rparr>;
                    (r2, t0, u2) = xy_iso7816_recv_byte hal h 0 u1 in
                if r2 \<noteq> XY_ISO7816_OK then Some (XY_ISO7816_ERROR_ATR, handle, Some a1, u2)
                else do {
                  let a2 = a1\<lparr>at_data := (at_data a1)[1 := t0], at_length := 2\<rparr>;
                  (r3, a3, td, u3) \<leftarrow> iso_atr_loop hal h a2 t0 u2;
                  if r3 \<noteq> XY_ISO7816_OK then Some (r3, handle, Some a3, u3)
                  else do {
                    (r4, a4, u4) \<leftarrow> iso_atr_hist hal h (unat (t0 AND 0x0F)) a3 u3;
                    if r4 \<noteq> XY_ISO7816_OK then Some (r4, handle, Some a4, u4)
                    else do {
                      (r5, a5, u5) \<leftarrow>
                        (if t0 AND 0x80 \<noteq> 0 \<and> td AND 0x0F \<noteq> 0 then
                           (case xy_iso7816_recv_byte hal h 0 u4 of (r, tck, u') \<Rightarrow>
                              if r \<noteq> XY_ISO7816_OK then Some (XY_ISO7816_ERROR_ATR, a4, u')
                              else do {
                                data \<leftarrow> mem_store (at_data a4) (unat (at_length a4)) tck;
                                Some (XY_ISO7816_OK,
                                  a4\<lparr>at_data := data, at_length := at_length a4 + 1\<rparr>, u') })
                         else Some (XY_ISO7816_OK, a4, u4));
                      if r5 \<noteq> XY_ISO7816_OK then Some (r5, handle, Some a5, u5)
                      else do {
                        let a6 = a5\<lparr>at_valid := True, at_protocol := td AND 0x0F\<rparr>;
                        Some (XY_ISO7816_OK, Some (h\<lparr>ih_atr := a6\<rparr>), Some a6, u5) } } } }))
      | _ \<Rightarrow> Some (XY_ISO7816_ERROR_INVALID_PARAM, handle, atr, u))"

subsection \<open>Exchanging a command\<close>

text \<open>Sending the data one byte at a time, each answered by a procedure byte.\<close>

fun iso_send_each ::
  "'u uart_hal \<Rightarrow> iso_handle \<Rightarrow> u8 list \<Rightarrow> nat list \<Rightarrow> 'u \<Rightarrow> (iso_rc \<times> 'u) option" where
  "iso_send_each hal handle data [] u = Some (XY_ISO7816_OK, u)"
| "iso_send_each hal handle data (i # is) u = do {
     b \<leftarrow> mem_load data i;
     let (r1, u1) = xy_iso7816_send_byte hal handle b u;
     if r1 \<noteq> XY_ISO7816_OK then Some (r1, u1)
     else do {
       let (r2, proc_byte, u2) = xy_iso7816_recv_byte hal handle 0 u1;
       if r2 \<noteq> XY_ISO7816_OK then Some (r2, u2)
       else iso_send_each hal handle data is u2 } }"

text \<open>Receiving response data until enough has come or the card falls silent.\<close>

function iso_recv_data ::
  "'u uart_hal \<Rightarrow> iso_handle \<Rightarrow> u8 \<Rightarrow> iso_resp \<Rightarrow> 'u \<Rightarrow> (iso_resp \<times> 'u) option" where
  "iso_recv_data hal handle to_receive resp u =
     (if unat (rs_length resp) < unat to_receive \<and> unat (rs_length resp) < 256 then do {
        (ret, data, u') \<leftarrow> iso_recv_at hal handle (rs_data resp) (unat (rs_length resp)) u;
        if ret \<noteq> XY_ISO7816_OK then Some (resp\<lparr>rs_data := data\<rparr>, u')
        else iso_recv_data hal handle to_receive
               (resp\<lparr>rs_data := data, rs_length := rs_length resp + 1\<rparr>) u' }
      else Some (resp, u))"
  by pat_completeness auto

lemma unat_Suc_u16: "unat (x :: u16) < 256 \<Longrightarrow> unat (x + 1) = Suc (unat x)"
  by (subst unat_add_lem [THEN iffD1]) simp_all

termination iso_recv_data
  by (relation "measure (\<lambda>(hal, h, n, resp, u). unat n - unat (rs_length resp))")
    (auto simp: unat_Suc_u16)

text \<open>One command and its response, up to and including the status words.\<close>

definition iso_exchange ::
  "'u uart_hal \<Rightarrow> iso_handle \<Rightarrow> iso_cmd \<Rightarrow> 'u \<Rightarrow> (iso_rc \<times> iso_resp \<times> 'u) option" where
  "iso_exchange hal handle cmd u = do {
     let resp = iso_resp_zero;
     let header = [cm_cla cmd, cm_ins cmd, cm_p1 cmd, cm_p2 cmd, cm_lc cmd];
     (r1, u1) \<leftarrow> xy_iso7816_send_buffer hal handle header 5 u;
     if r1 \<noteq> XY_ISO7816_OK then Some (r1, resp, u1)
     else do {
       let (r2, proc_byte, u2) = xy_iso7816_recv_byte hal handle 0 u1;
       if r2 \<noteq> XY_ISO7816_OK then Some (r2, resp, u2)
       else do {
         (r3, u3) \<leftarrow>
           (if proc_byte = cm_ins cmd then
              (if cm_lc cmd > 0
               then xy_iso7816_send_buffer hal handle (cm_data cmd) (ucast (cm_lc cmd)) u2
               else Some (XY_ISO7816_OK, u2))
            else if proc_byte = NOT (cm_ins cmd) then
              iso_send_each hal handle (cm_data cmd) [0..<unat (cm_lc cmd)] u2
            else if proc_byte = 0x60 \<or> proc_byte = 0x61 then Some (XY_ISO7816_OK, u2)
            else Some (XY_ISO7816_ERROR_PROTOCOL, u2));
         if r3 \<noteq> XY_ISO7816_OK then Some (r3, resp, u3)
         else do {
           (resp1, u4) \<leftarrow>
             (if cm_le cmd > 0 then iso_recv_data hal handle (cm_le cmd) resp u3
              else Some (resp, u3));
           let (r5, sw1, u5) = xy_iso7816_recv_byte hal handle (rs_sw1 resp1) u4;
           let resp2 = resp1\<lparr>rs_sw1 := sw1\<rparr>;
           if r5 \<noteq> XY_ISO7816_OK then Some (r5, resp2, u5)
           else do {
             let (r6, sw2, u6) = xy_iso7816_recv_byte hal handle (rs_sw2 resp2) u5;
             Some (r6, resp2\<lparr>rs_sw2 := sw2\<rparr>, u6) } } } } }"

text \<open>
  The exchange with the GET RESPONSE commands that status 61xx asks for. A card that keeps
  answering 61xx keeps the recursion going: the function is partial.
\<close>

partial_function (option) iso_transceive ::
  "'u uart_hal \<Rightarrow> iso_handle \<Rightarrow> iso_cmd \<Rightarrow> 'u \<Rightarrow> (iso_rc \<times> iso_resp \<times> 'u) option" where
  "iso_transceive hal handle cmd u = do {
     (ret, resp, u1) \<leftarrow> iso_exchange hal handle cmd u;
     if ret \<noteq> XY_ISO7816_OK then Some (ret, resp, u1)
     else if rs_sw1 resp = 0x61 then do {
       (ret2, more, u2) \<leftarrow> iso_transceive hal handle
          (iso_cmd_zero\<lparr>cm_cla := cm_cla cmd, cm_ins := 0xC0, cm_le := rs_sw2 resp\<rparr>) u1;
       if ret2 = XY_ISO7816_OK then do {
         let copy_len = (if unat (rs_length resp) + unat (rs_length more) > 256
                         then 256 - rs_length resp else rs_length more);
         bs \<leftarrow> mem_read (rs_data more) 0 (unat copy_len);
         data \<leftarrow> mem_write (rs_data resp) (unat (rs_length resp)) bs;
         Some (XY_ISO7816_OK, resp\<lparr>rs_data := data, rs_length := rs_length resp + copy_len,
           rs_sw1 := rs_sw1 more, rs_sw2 := rs_sw2 more\<rparr>, u2) }
       else Some (XY_ISO7816_OK, resp, u2) }
     else Some (XY_ISO7816_OK, resp, u1) }"

definition xy_iso7816_transceive ::
  "'u uart_hal \<Rightarrow> iso_handle option \<Rightarrow> iso_cmd option \<Rightarrow> iso_resp option \<Rightarrow> 'u
   \<Rightarrow> (iso_rc \<times> iso_resp option \<times> 'u) option" where
  "xy_iso7816_transceive hal handle cmd resp u =
     (case (handle, cmd, resp) of
        (Some h, Some c, Some _) \<Rightarrow>
          if \<not> ih_initialized h then Some (XY_ISO7816_ERROR_INVALID_PARAM, resp, u)
          else map_option (\<lambda>(r, x, u'). (r, Some x, u')) (iso_transceive hal h c u)
      | _ \<Rightarrow> Some (XY_ISO7816_ERROR_INVALID_PARAM, resp, u))"

definition xy_iso7816_is_success :: "iso_resp option \<Rightarrow> bool" where
  "xy_iso7816_is_success resp =
     (case resp of None \<Rightarrow> False | Some r \<Rightarrow> rs_sw1 r = 0x90 \<and> rs_sw2 r = 0)"

definition xy_iso7816_get_sw :: "iso_resp option \<Rightarrow> u16" where
  "xy_iso7816_get_sw resp =
     (case resp of None \<Rightarrow> 0
      | Some r \<Rightarrow> push_bit 8 (ucast (rs_sw1 r)) OR ucast (rs_sw2 r))"

subsection \<open>SIM card operations\<close>

text \<open>The commands of the operations below, before the call of \<open>xy_iso7816_transceive\<close>.\<close>

definition iso_select_cmd :: "u16 \<Rightarrow> iso_cmd" where
  "iso_select_cmd file_id = iso_cmd_zero\<lparr>cm_cla := 0xA0, cm_ins := 0xA4, cm_p1 := 0x00, cm_p2 := 0x04,
     cm_lc := 2, cm_data := (replicate 256 0)[0 := ucast (drop_bit 8 file_id),
                                              1 := ucast (file_id AND 0xFF)], cm_le := 0\<rparr>"

definition xy_iso7816_select_file ::
  "'u uart_hal \<Rightarrow> iso_handle option \<Rightarrow> u16 \<Rightarrow> 'u \<Rightarrow> (iso_rc \<times> 'u) option" where
  "xy_iso7816_select_file hal handle file_id u =
     (case handle of
        None \<Rightarrow> Some (XY_ISO7816_ERROR_INVALID_PARAM, u)
      | Some h \<Rightarrow>
          if \<not> ih_initialized h then Some (XY_ISO7816_ERROR_INVALID_PARAM, u)
          else do {
            (ret, resp, u') \<leftarrow> iso_transceive hal h (iso_select_cmd file_id) u;
            Some (if ret \<noteq> XY_ISO7816_OK then ret
                  else if \<not> xy_iso7816_is_success (Some resp) then XY_ISO7816_ERROR_CARD
                  else XY_ISO7816_OK, u') })"

definition iso_read_cmd :: "u16 \<Rightarrow> u8 \<Rightarrow> iso_cmd" where
  "iso_read_cmd offset len = iso_cmd_zero\<lparr>cm_cla := 0xA0, cm_ins := 0xB0,
     cm_p1 := ucast (drop_bit 8 offset), cm_p2 := ucast (offset AND 0xFF), cm_lc := 0, cm_le := len\<rparr>"

definition xy_iso7816_read_binary ::
  "'u uart_hal \<Rightarrow> iso_handle option \<Rightarrow> u16 \<Rightarrow> u8 list option \<Rightarrow> u8 \<Rightarrow> 'u
   \<Rightarrow> (iso_rc \<times> u8 list option \<times> 'u) option" where
  "xy_iso7816_read_binary hal handle offset data len u =
     (case (handle, data) of
        (Some h, Some d) \<Rightarrow>
          if \<not> ih_initialized h \<or> len = 0 then Some (XY_ISO7816_ERROR_INVALID_PARAM, data, u)
          else do {
            (ret, resp, u') \<leftarrow> iso_transceive hal h (iso_read_cmd offset len) u;
            if ret \<noteq> XY_ISO7816_OK then Some (ret, data, u')
            else if \<not> xy_iso7816_is_success (Some resp) then Some (XY_ISO7816_ERROR_CARD, data, u')
            else do {
              bs \<leftarrow> mem_read (rs_data resp) 0
                (if unat (rs_length resp) < unat len then unat (rs_length resp) else unat len);
              d' \<leftarrow> mem_write d 0 bs;
              Some (XY_ISO7816_OK, Some d', u') } }
      | _ \<Rightarrow> Some (XY_ISO7816_ERROR_INVALID_PARAM, data, u))"

definition iso_usim_aid :: "u8 list" where
  "iso_usim_aid = [0xA0, 0x00, 0x00, 0x00, 0x87, 0x10, 0x02]"

definition xy_iso7816_detect_card_type ::
  "'u uart_hal \<Rightarrow> iso_handle option \<Rightarrow> iso_card_type option \<Rightarrow> 'u
   \<Rightarrow> (iso_rc \<times> iso_card_type option \<times> 'u) option" where
  "xy_iso7816_detect_card_type hal handle card_type u =
     (case (handle, card_type) of
        (Some h, Some _) \<Rightarrow>
          if \<not> ih_initialized h then Some (XY_ISO7816_ERROR_INVALID_PARAM, card_type, u)
          else do {
            data \<leftarrow> mem_write (cm_data iso_cmd_zero) 0 iso_usim_aid;
            (r1, resp, u1) \<leftarrow> iso_transceive hal h (iso_cmd_zero\<lparr>cm_cla := 0x00, cm_ins := 0xA4,
               cm_p1 := 0x04, cm_p2 := 0x00, cm_lc := 7, cm_data := data, cm_le := 0\<rparr>) u;
            if r1 = XY_ISO7816_OK \<and> xy_iso7816_is_success (Some resp)
            then Some (XY_ISO7816_OK, Some XY_ISO7816_CARD_USIM, u1)
            else do {
              (r2, u2) \<leftarrow> xy_iso7816_select_file hal handle 0x3F00 u1;
              Some (XY_ISO7816_OK,
                Some (if r2 = XY_ISO7816_OK then XY_ISO7816_CARD_SIM
                      else XY_ISO7816_CARD_GENERIC), u2) } }
      | _ \<Rightarrow> Some (XY_ISO7816_ERROR_INVALID_PARAM, card_type, u))"

text \<open>\<open>stack\<close> is the uninitialised \<open>buffer[10]\<close>; the card may fill less of it.\<close>

definition xy_iso7816_read_iccid ::
  "'u uart_hal \<Rightarrow> u8 list \<Rightarrow> iso_handle option \<Rightarrow> u8 list option \<Rightarrow> u8 option \<Rightarrow> 'u
   \<Rightarrow> (iso_rc \<times> u8 list option \<times> u8 option \<times> 'u) option" where
  "xy_iso7816_read_iccid hal stack handle iccid len u =
     (case (handle, iccid, len) of
        (Some h, Some d, Some _) \<Rightarrow>
          if \<not> ih_initialized h then Some (XY_ISO7816_ERROR_INVALID_PARAM, iccid, len, u)
          else do {
            (r1, u1) \<leftarrow> xy_iso7816_select_file hal handle 0x3F00 u;
            if r1 \<noteq> XY_ISO7816_OK then Some (r1, iccid, len, u1)
            else do {
              (r2, u2) \<leftarrow> xy_iso7816_select_file hal handle 0x2FE2 u1;
              if r2 \<noteq> XY_ISO7816_OK then Some (r2, iccid, len, u2)
              else do {
                (r3, buffer, u3) \<leftarrow> xy_iso7816_read_binary hal handle 0 (Some stack) 10 u2;
                if r3 \<noteq> XY_ISO7816_OK then Some (r3, iccid, len, u3)
                else do {
                  bs \<leftarrow> mem_read (the buffer) 0 10;
                  d' \<leftarrow> mem_write d 0 bs;
                  Some (XY_ISO7816_OK, Some d', Some 10, u3) } } } }
      | _ \<Rightarrow> Some (XY_ISO7816_ERROR_INVALID_PARAM, iccid, len, u))"

definition xy_iso7816_read_imsi ::
  "'u uart_hal \<Rightarrow> u8 list \<Rightarrow> iso_handle option \<Rightarrow> u8 list option \<Rightarrow> u8 option \<Rightarrow> 'u
   \<Rightarrow> (iso_rc \<times> u8 list option \<times> u8 option \<times> 'u) option" where
  "xy_iso7816_read_imsi hal stack handle imsi len u =
     (case (handle, imsi, len) of
        (Some h, Some d, Some _) \<Rightarrow>
          if \<not> ih_initialized h then Some (XY_ISO7816_ERROR_INVALID_PARAM, imsi, len, u)
          else do {
            (r1, u1) \<leftarrow> xy_iso7816_select_file hal handle 0x3F00 u;
            if r1 \<noteq> XY_ISO7816_OK then Some (r1, imsi, len, u1)
            else do {
              (r2, u2) \<leftarrow> xy_iso7816_select_file hal handle 0x7F20 u1;
              if r2 \<noteq> XY_ISO7816_OK then Some (r2, imsi, len, u2)
              else do {
                (r3, u3) \<leftarrow> xy_iso7816_select_file hal handle 0x6F07 u2;
                if r3 \<noteq> XY_ISO7816_OK then Some (r3, imsi, len, u3)
                else do {
                  (r4, buffer, u4) \<leftarrow> xy_iso7816_read_binary hal handle 0 (Some stack) 9 u3;
                  if r4 \<noteq> XY_ISO7816_OK then Some (r4, imsi, len, u4)
                  else do {
                    bs \<leftarrow> mem_read (the buffer) 0 9;
                    d' \<leftarrow> mem_write d 0 bs;
                    Some (XY_ISO7816_OK, Some d', Some (bs ! 0), u4) } } } } }
      | _ \<Rightarrow> Some (XY_ISO7816_ERROR_INVALID_PARAM, imsi, len, u))"

definition xy_iso7816_get_sim_info ::
  "'u uart_hal \<Rightarrow> u8 list \<Rightarrow> u8 list \<Rightarrow> iso_handle option \<Rightarrow> iso_sim_info option \<Rightarrow> 'u
   \<Rightarrow> (iso_rc \<times> iso_sim_info option \<times> 'u) option" where
  "xy_iso7816_get_sim_info hal stack1 stack2 handle info u =
     (case (handle, info) of
        (Some h, Some _) \<Rightarrow>
          if \<not> ih_initialized h then Some (XY_ISO7816_ERROR_INVALID_PARAM, info, u)
          else do {
            let i0 = iso_sim_info_zero;
            (r1, ty, u1) \<leftarrow> xy_iso7816_detect_card_type hal handle (Some (si_card_type i0)) u;
            let i1 = i0\<lparr>si_card_type := the ty\<rparr>;
            if r1 \<noteq> XY_ISO7816_OK then Some (r1, Some i1, u1)
            else do {
              (r2, ic, icl, u2) \<leftarrow> xy_iso7816_read_iccid hal stack1 handle (Some (si_iccid i1))
                                 (Some (si_iccid_len i1)) u1;
              let i2 = i1\<lparr>si_iccid := the ic, si_iccid_len := the icl\<rparr>;
              (r3, im, iml, u3) \<leftarrow> xy_iso7816_read_imsi hal stack2 handle (Some (si_imsi i2))
                                 (Some (si_imsi_len i2)) u2;
              Some (XY_ISO7816_OK,
                Some (i2\<lparr>si_imsi := the im, si_imsi_len := the iml\<rparr>), u3) } }
      | _ \<Rightarrow> Some (XY_ISO7816_ERROR_INVALID_PARAM, info, u))"

text \<open>The length of a PIN, read up to the first zero byte or the ninth one.\<close>

function iso_pin_len :: "u8 list \<Rightarrow> nat \<Rightarrow> nat option" where
  "iso_pin_len pin n = do {
     c \<leftarrow> mem_load pin n;
     if c \<noteq> 0 \<and> n < 8 then iso_pin_len pin (n + 1) else Some n }"
  by pat_completeness auto

termination iso_pin_len
  by (relation "measure (\<lambda>(pin, n). 8 - n)") auto

definition iso_pin_cmd :: "u8 list \<Rightarrow> nat \<Rightarrow> iso_cmd" where
  "iso_pin_cmd pin pin_len = iso_cmd_zero\<lparr>cm_cla := 0xA0, cm_ins := 0x20, cm_p1 := 0x00,
     cm_p2 := 0x01, cm_lc := 8,
     cm_data := map (\<lambda>i. if i < pin_len then pin ! i else 0xFF) [0..<8] @ replicate 248 0,
     cm_le := 0\<rparr>"

definition xy_iso7816_verify_pin ::
  "'u uart_hal \<Rightarrow> iso_handle option \<Rightarrow> u8 list option \<Rightarrow> u8 option \<Rightarrow> 'u
   \<Rightarrow> (iso_rc \<times> u8 option \<times> 'u) option" where
  "xy_iso7816_verify_pin hal handle pin remaining_tries u =
     (case (handle, pin) of
        (Some h, Some p) \<Rightarrow>
          if \<not> ih_initialized h then Some (XY_ISO7816_ERROR_INVALID_PARAM, remaining_tries, u)
          else do {
            pin_len \<leftarrow> iso_pin_len p 0;
            if pin_len < 4 \<or> pin_len > 8
            then Some (XY_ISO7816_ERROR_INVALID_PARAM, remaining_tries, u)
            else do {
              (ret, resp, u') \<leftarrow> iso_transceive hal h (iso_pin_cmd p pin_len) u;
              if ret \<noteq> XY_ISO7816_OK then Some (ret, remaining_tries, u')
              else if xy_iso7816_is_success (Some resp)
              then Some (XY_ISO7816_OK, map_option (\<lambda>_. 0) remaining_tries, u')
              else Some (XY_ISO7816_ERROR_CARD,
                (if rs_sw1 resp = 0x63 \<and> rs_sw2 resp AND 0xF0 = 0xC0
                 then map_option (\<lambda>_. rs_sw2 resp AND 0x0F) remaining_tries
                 else remaining_tries), u') } }
      | _ \<Rightarrow> Some (XY_ISO7816_ERROR_INVALID_PARAM, remaining_tries, u))"

definition xy_iso7816_get_challenge ::
  "'u uart_hal \<Rightarrow> iso_handle option \<Rightarrow> u8 list option \<Rightarrow> 'u
   \<Rightarrow> (iso_rc \<times> u8 list option \<times> 'u) option" where
  "xy_iso7816_get_challenge hal handle rand u =
     (case (handle, rand) of
        (Some h, Some d) \<Rightarrow>
          if \<not> ih_initialized h then Some (XY_ISO7816_ERROR_INVALID_PARAM, rand, u)
          else do {
            (ret, resp, u') \<leftarrow> iso_transceive hal h (iso_cmd_zero\<lparr>cm_cla := 0xA0, cm_ins := 0x84,
               cm_p1 := 0x00, cm_p2 := 0x00, cm_lc := 0, cm_le := 16\<rparr>) u;
            if ret \<noteq> XY_ISO7816_OK then Some (ret, rand, u')
            else if \<not> xy_iso7816_is_success (Some resp) \<or> unat (rs_length resp) < 16
            then Some (XY_ISO7816_ERROR_CARD, rand, u')
            else do {
              bs \<leftarrow> mem_read (rs_data resp) 0 16;
              d' \<leftarrow> mem_write d 0 bs;
              Some (XY_ISO7816_OK, Some d', u') } }
      | _ \<Rightarrow> Some (XY_ISO7816_ERROR_INVALID_PARAM, rand, u))"

text \<open>
  One field of the authentication response: a tag, a length and the value, copied to \<open>dst\<close> when
  the length is acceptable. The index \<open>idx\<close> (a \<open>xy_u16\<close>) stays far below its range.
\<close>

definition iso_auth_field ::
  "u8 list \<Rightarrow> u16 \<Rightarrow> u8 \<Rightarrow> (nat \<Rightarrow> bool) \<Rightarrow> nat \<Rightarrow> u8 list \<Rightarrow> (nat \<times> u8 list) option" where
  "iso_auth_field data n tag ok idx dst =
     (if idx < unat n then do {
        t \<leftarrow> mem_load data idx;
        if t = tag then do {
          l \<leftarrow> mem_load data (idx + 1);
          if ok (unat l) then do {
            bs \<leftarrow> mem_read data (idx + 2) (unat l);
            dst' \<leftarrow> mem_write dst 0 bs;
            Some (idx + 2 + unat l, dst') }
          else Some (idx + 2, dst) }
        else Some (idx, dst) }
      else Some (idx, dst))"

definition iso_auth_cmd :: "u8 list \<Rightarrow> u8 list \<Rightarrow> iso_cmd" where
  "iso_auth_cmd rand autn = iso_cmd_zero\<lparr>cm_cla := 0x00, cm_ins := 0x88, cm_p1 := 0x00,
     cm_p2 := 0x80, cm_lc := 33, cm_data := [0x10] @ rand @ [0x11] @ autn @ replicate 222 0,
     cm_le := 0\<rparr>"

definition xy_iso7816_authenticate ::
  "'u uart_hal \<Rightarrow> iso_handle option \<Rightarrow> u8 list option \<Rightarrow> u8 list option \<Rightarrow> u8 list option
   \<Rightarrow> u8 list option \<Rightarrow> u8 list option \<Rightarrow> 'u
   \<Rightarrow> (iso_rc \<times> u8 list option \<times> u8 list option \<times> u8 list option \<times> 'u) option" where
  "xy_iso7816_authenticate hal handle rand autn res ck ik u =
     (case (handle, rand, autn, res, ck, ik) of
        (Some h, Some ra, Some au, Some rs, Some c, Some k) \<Rightarrow>
          if \<not> ih_initialized h then Some (XY_ISO7816_ERROR_INVALID_PARAM, res, ck, ik, u)
          else do {
            ra16 \<leftarrow> mem_read ra 0 16;
            au16 \<leftarrow> mem_read au 0 16;
            (ret, resp, u') \<leftarrow> iso_transceive hal h (iso_auth_cmd ra16 au16) u;
            if ret \<noteq> XY_ISO7816_OK then Some (ret, res, ck, ik, u')
            else if \<not> xy_iso7816_is_success (Some resp)
            then Some (XY_ISO7816_ERROR_CARD, res, ck, ik, u')
            else do {
              t \<leftarrow> mem_load (rs_data resp) 0;
              if t \<noteq> 0xDB then Some (XY_ISO7816_ERROR_PROTOCOL, res, ck, ik, u')
              else do {
                (i1, rs') \<leftarrow> iso_auth_field (rs_data resp) (rs_length resp) 0x80 (\<lambda>l. l \<le> 8) 2 rs;
                (i2, c') \<leftarrow> iso_auth_field (rs_data resp) (rs_length resp) 0x81 (\<lambda>l. l = 16) i1 c;
                (i3, k') \<leftarrow> iso_auth_field (rs_data resp) (rs_length resp) 0x82 (\<lambda>l. l = 16) i2 k;
                Some (XY_ISO7816_OK, Some rs', Some c', Some k', u') } } }
      | _ \<Rightarrow> Some (XY_ISO7816_ERROR_INVALID_PARAM, res, ck, ik, u))"

subsection \<open>Utility functions\<close>

text \<open>Appending a digit to the text, unless the nibble is not a decimal digit.\<close>

definition iso_put_digit :: "u8 \<Rightarrow> nat \<Rightarrow> u8 list \<Rightarrow> (nat \<times> u8 list) option" where
  "iso_put_digit d idx ascii =
     (if d \<le> 9 then map_option (\<lambda>a. (idx + 1, a)) (mem_store ascii idx (48 + d))
      else Some (idx, ascii))"

text \<open>The loop over the BCD bytes; \<open>lim\<close> is \<open>ascii_len - 1\<close>.\<close>

fun iso_bcd_loop ::
  "u8 list \<Rightarrow> nat \<Rightarrow> nat list \<Rightarrow> nat \<Rightarrow> u8 list \<Rightarrow> (nat \<times> u8 list) option" where
  "iso_bcd_loop bcd lim [] idx ascii = Some (idx, ascii)"
| "iso_bcd_loop bcd lim (i # is) idx ascii =
     (if idx < lim then do {
        b \<leftarrow> mem_load bcd i;
        (idx1, ascii1) \<leftarrow> iso_put_digit (b AND 0x0F) idx ascii;
        if idx1 \<ge> lim then Some (idx1, ascii1)
        else do {
          (idx2, ascii2) \<leftarrow> iso_put_digit (drop_bit 4 b AND 0x0F) idx1 ascii1;
          iso_bcd_loop bcd lim is idx2 ascii2 } }
      else Some (idx, ascii))"

definition xy_iso7816_bcd_to_ascii ::
  "u8 list option \<Rightarrow> u8 \<Rightarrow> u8 list option \<Rightarrow> u8 \<Rightarrow> (u8 \<times> u8 list option) option" where
  "xy_iso7816_bcd_to_ascii bcd bcd_len ascii ascii_len =
     (case (bcd, ascii) of
        (Some b, Some a) \<Rightarrow>
          if ascii_len = 0 then Some (0, ascii)
          else do {
            (idx, a1) \<leftarrow> iso_bcd_loop b (unat ascii_len - 1) [0..<unat bcd_len] 0 a;
            a2 \<leftarrow> mem_store a1 idx 0;
            Some (of_nat idx, Some a2) }
      | _ \<Rightarrow> Some (0, ascii))"

definition xy_iso7816_parse_atr :: "iso_atr option \<Rightarrow> iso_rc" where
  "xy_iso7816_parse_atr atr =
     (case atr of
        None \<Rightarrow> XY_ISO7816_ERROR_INVALID_PARAM
      | Some a \<Rightarrow> if \<not> at_valid a then XY_ISO7816_ERROR_INVALID_PARAM else XY_ISO7816_OK)"

end
