(* ===== verification/Xy_Iso7816_Correct.thy ===== *)
theory Xy_Iso7816_Correct
  imports Xy_Iso7816
begin

text \<open>
  The smart-card driver over a line that delivers a given sequence of bytes: reception of the
  answer to reset, command exchanges with their GET RESPONSE chains, PIN verification, and the
  BCD conversion.
\<close>

subsection \<open>The line\<close>

text \<open>
  What \<open>xy_hal_uart.h\<close> documents of a working UART \<open>p\<close>: receiving one byte takes the next
  byte of \<open>rx\<close>, the bytes the card is going to send, or times out when there is none; sending
  appends all bytes to \<open>tx\<close>.
\<close>

definition uart_line ::
  "'u uart_hal \<Rightarrow> nat \<Rightarrow> ('u \<Rightarrow> u8 list) \<Rightarrow> ('u \<Rightarrow> u8 list) \<Rightarrow> bool" where
  "uart_line hal p rx tx \<longleftrightarrow>
     (\<forall>t u b bs. rx u = b # bs \<longrightarrow>
        (\<exists>u'. hal_recv hal p 1 t u = (1, [b], u') \<and> rx u' = bs \<and> tx u' = tx u))
   \<and> (\<forall>t u. rx u = [] \<longrightarrow>
        (\<exists>e u'. hal_recv hal p 1 t u = (e, [], u') \<and> e \<noteq> 1 \<and> rx u' = [] \<and> tx u' = tx u))
   \<and> (\<forall>t u bs. \<exists>u'. hal_send hal p bs t u = (int (length bs), u') \<and> rx u' = rx u \<and> tx u' = tx u @ bs)"

lemma line_recv:
  assumes "uart_line hal (ih_uart h) rx tx" and "rx u = b # bs"
  shows "\<exists>u'. xy_iso7816_recv_byte hal h x u = (XY_ISO7816_OK, b, u') \<and> rx u' = bs \<and> tx u' = tx u"
proof -
  obtain u' where "hal_recv hal (ih_uart h) 1 XY_ISO7816_BYTE_TIMEOUT u = (1, [b], u')" "rx u' = bs" "tx u' = tx u"
    using assms unfolding uart_line_def by blast
  then show ?thesis by (simp add: xy_iso7816_recv_byte_def)
qed

lemma line_send:
  assumes "uart_line hal (ih_uart h) rx tx" and "unat len \<le> length data"
  shows "\<exists>u'. xy_iso7816_send_buffer hal h data len u = Some (XY_ISO7816_OK, u')
    \<and> rx u' = rx u \<and> tx u' = tx u @ take (unat len) data"
proof -
  obtain u' where "hal_send hal (ih_uart h) (take (unat len) data) (ih_timeout h) u
      = (int (length (take (unat len) data)), u')" "rx u' = rx u" "tx u' = tx u @ take (unat len) data"
    using assms unfolding uart_line_def by blast
  then show ?thesis using assms(2) by (simp add: xy_iso7816_send_buffer_def mem_simps min_def)
qed

text \<open>A line driven by a script: the pending input and the output so far.\<close>

definition script_hal :: "(u8 list \<times> u8 list) uart_hal" where
  "script_hal = \<lparr>hal_send = (\<lambda>p bs t (r, s). (int (length bs), (r, s @ bs))),
     hal_recv = (\<lambda>p n t (r, s). (int (length (take n r)), take n r, (drop n r, s))),
     hal_flush = (\<lambda>p u. u)\<rparr>"

lemma script_line: "uart_line script_hal p fst snd"
  by (auto simp: uart_line_def script_hal_def)

subsection \<open>The answer to reset\<close>

text \<open>
  The structure of an answer to reset (ISO/IEC 7816-3): after the initial character a format byte
  whose low nibble is the number of historical bytes and whose high nibble announces the interface
  bytes TA, TB, TC and TD; every TD carries a protocol in its low nibble and announces the next
  group; then the historical bytes and the check byte.
\<close>

type_synonym atr_group = "u8 option \<times> u8 option \<times> u8 option"

fun atr_opt :: "u8 option \<Rightarrow> u8 list" where
  "atr_opt None = []"
| "atr_opt (Some b) = [b]"

fun atr_group_bytes :: "atr_group \<Rightarrow> u8 list" where
  "atr_group_bytes (a, b, c) = atr_opt a @ atr_opt b @ atr_opt c"

fun atr_lead :: "atr_group \<Rightarrow> bool \<Rightarrow> u8 \<Rightarrow> u8" where
  "atr_lead (a, b, c) nxt lo = (if a \<noteq> None then 0x10 else 0) OR (if b \<noteq> None then 0x20 else 0)
     OR (if c \<noteq> None then 0x40 else 0) OR (if nxt then 0x80 else 0) OR lo"

fun atr_iface :: "u8 \<Rightarrow> atr_group \<Rightarrow> (u8 \<times> atr_group) list \<Rightarrow> u8 list" where
  "atr_iface lo g [] = atr_lead g False lo # atr_group_bytes g"
| "atr_iface lo g ((t, g') # rest) = atr_lead g True lo # atr_group_bytes g @ atr_iface t g' rest"

fun atr_last :: "u8 \<Rightarrow> atr_group \<Rightarrow> (u8 \<times> atr_group) list \<Rightarrow> u8" where
  "atr_last lo g [] = atr_lead g False lo"
| "atr_last lo g ((t, g') # rest) = atr_last t g' rest"

lemma atr_iface_Cons: "atr_iface lo g rest = atr_lead g (rest \<noteq> []) lo # tl (atr_iface lo g rest)"
  by (cases "(lo, g, rest)" rule: atr_iface.cases) simp_all

lemma atr_lead_bits:
  assumes lo: "lo AND 0x0F = lo"
  shows "atr_lead (a, b, c) nxt lo AND 0x10 \<noteq> 0 \<longleftrightarrow> a \<noteq> None"
    and "atr_lead (a, b, c) nxt lo AND 0x20 \<noteq> 0 \<longleftrightarrow> b \<noteq> None"
    and "atr_lead (a, b, c) nxt lo AND 0x40 \<noteq> 0 \<longleftrightarrow> c \<noteq> None"
    and "atr_lead (a, b, c) nxt lo AND 0x80 \<noteq> 0 \<longleftrightarrow> nxt"
    and "atr_lead (a, b, c) nxt lo AND 0x0F = lo"
proof -
  have z: "lo AND m = lo AND (0x0F AND m)" for m by (metis lo and.assoc)
  have "lo AND 0x10 = 0" "lo AND 0x20 = 0" "lo AND 0x40 = 0" "lo AND 0x80 = 0"
    using z [of "0x10"] z [of "0x20"] z [of "0x40"] z [of "0x80"] by simp_all
  then show "atr_lead (a, b, c) nxt lo AND 0x10 \<noteq> 0 \<longleftrightarrow> a \<noteq> None"
    "atr_lead (a, b, c) nxt lo AND 0x20 \<noteq> 0 \<longleftrightarrow> b \<noteq> None"
    "atr_lead (a, b, c) nxt lo AND 0x40 \<noteq> 0 \<longleftrightarrow> c \<noteq> None"
    "atr_lead (a, b, c) nxt lo AND 0x80 \<noteq> 0 \<longleftrightarrow> nxt"
    "atr_lead (a, b, c) nxt lo AND 0x0F = lo"
    using lo by (simp_all add: bit.conj_disj_distrib2)
qed

text \<open>The object after the bytes \<open>bs\<close> have been received.\<close>

definition atr_with :: "u8 list \<Rightarrow> iso_atr" where
  "atr_with bs = \<lparr>at_data = bs @ replicate (33 - length bs) 0, at_length = of_nat (length bs),
     at_protocol = 0, at_valid = False\<rparr>"

lemma atr_with_length: "length bs \<le> 33 \<Longrightarrow> unat (at_length (atr_with bs)) = length bs"
  by (simp add: atr_with_def unat_of_nat_u8)

lemma replicate_diff_Suc: "n < m \<Longrightarrow> replicate (m - n) x = x # replicate (m - Suc n) x"
  by (metis Suc_diff_Suc replicate_Suc)

lemma atr_with_store:
  assumes "length bs < 33"
  shows "mem_store (at_data (atr_with bs)) (length bs) b = Some (at_data (atr_with (bs @ [b])))"
  using assms by (simp add: mem_store_def atr_with_def replicate_diff_Suc)

lemma atr_with_append:
  "(atr_with bs)\<lparr>at_data := at_data (atr_with (bs @ [b])), at_length := at_length (atr_with bs) + 1\<rparr>
   = atr_with (bs @ [b])"
  by (simp add: atr_with_def)

lemma atr_recv_line:
  assumes line: "uart_line hal (ih_uart h) rx tx" and r: "rx u = atr_opt x @ r"
    and l: "length bs + length (atr_opt x) \<le> 33"
  shows "\<exists>u'. iso_atr_recv hal h (x \<noteq> None) (atr_with bs) u = Some (XY_ISO7816_OK, atr_with (bs @ atr_opt x), u')
    \<and> rx u' = r \<and> tx u' = tx u"
proof (cases x)
  case None
  then show ?thesis using r by (simp add: iso_atr_recv_def)
next
  case (Some b)
  have lb: "length bs < 33" using l Some by simp
  then have "mem_load (at_data (atr_with bs)) (length bs) \<noteq> None" by (simp add: mem_iff atr_with_def)
  then obtain c where c: "mem_load (at_data (atr_with bs)) (length bs) = Some c" by blast
  have "rx u = b # r" using r Some by simp
  from line_recv [OF line this] obtain u' where
    u': "xy_iso7816_recv_byte hal h c u = (XY_ISO7816_OK, b, u')" "rx u' = r" "tx u' = tx u" by blast
  have "unat (at_length (atr_with bs)) = length bs" using lb by (simp add: atr_with_length)
  then show ?thesis
    using Some u' c atr_with_store [OF lb, of b] atr_with_append [of bs b]
    by (simp add: iso_atr_recv_def iso_recv_at_def)
qed

declare iso_atr_loop.simps [simp del]

lemma atr_store_td:
  assumes "length bs < 33"
  shows "mem_store (at_data (atr_with bs)) (unat (at_length (atr_with bs))) b
    = Some (at_data (atr_with (bs @ [b])))"
  using assms by (simp add: atr_with_length atr_with_store)

text \<open>One group: up to three interface bytes and, if announced, the next TD.\<close>

lemma atr_loop_group:
  assumes line: "uart_line hal (ih_uart h) rx tx" and lo: "lo AND 0x0F = lo"
    and r: "rx u = atr_group_bytes g @ r" and l: "length bs + length (atr_group_bytes g) \<le> 33"
    and lt: "length bs < 33" and nx: "nxt \<Longrightarrow> length bs + length (atr_group_bytes g) < 33 \<and> r \<noteq> []"
  shows "\<exists>u'. rx u' = (if nxt then tl r else r) \<and> tx u' = tx u
    \<and> iso_atr_loop hal h (atr_with bs) (atr_lead g nxt lo) u
      = (if nxt then iso_atr_loop hal h (atr_with (bs @ atr_group_bytes g @ [hd r])) (hd r) u'
         else Some (XY_ISO7816_OK, atr_with (bs @ atr_group_bytes g), atr_lead g nxt lo, u'))"
proof -
  obtain a b c where g: "g = (a, b, c)" by (cases g)
  have "rx u = atr_opt a @ (atr_opt b @ atr_opt c @ r)" using r g by simp
  moreover have "length bs + length (atr_opt a) \<le> 33" using l g by simp
  ultimately obtain u1 where u1: "iso_atr_recv hal h (a \<noteq> None) (atr_with bs) u
      = Some (XY_ISO7816_OK, atr_with (bs @ atr_opt a), u1)" "rx u1 = atr_opt b @ (atr_opt c @ r)" "tx u1 = tx u"
    using atr_recv_line [OF line] by blast
  have "length (bs @ atr_opt a) + length (atr_opt b) \<le> 33" using l g by simp
  then obtain u2 where u2: "iso_atr_recv hal h (b \<noteq> None) (atr_with (bs @ atr_opt a)) u1
      = Some (XY_ISO7816_OK, atr_with ((bs @ atr_opt a) @ atr_opt b), u2)" "rx u2 = atr_opt c @ r" "tx u2 = tx u1"
    using atr_recv_line [OF line u1(2)] by blast
  have "length ((bs @ atr_opt a) @ atr_opt b) + length (atr_opt c) \<le> 33" using l g by simp
  then obtain u3 where u3: "iso_atr_recv hal h (c \<noteq> None) (atr_with ((bs @ atr_opt a) @ atr_opt b)) u2
      = Some (XY_ISO7816_OK, atr_with (((bs @ atr_opt a) @ atr_opt b) @ atr_opt c), u3)"
    "rx u3 = r" "tx u3 = tx u2"
    using atr_recv_line [OF line u2(2)] by blast
  have len: "unat (at_length (atr_with bs)) < XY_ISO7816_ATR_MAX_LEN"
    using lt by (simp add: atr_with_length XY_ISO7816_ATR_MAX_LEN_def)
  have gb: "((bs @ atr_opt a) @ atr_opt b) @ atr_opt c = bs @ atr_group_bytes g" by (simp add: g)
  note bits = atr_lead_bits [OF lo, of a b c nxt]
  show ?thesis
  proof (cases nxt)
    case False
    have "iso_atr_loop hal h (atr_with bs) (atr_lead g nxt lo) u
        = Some (XY_ISO7816_OK, atr_with (bs @ atr_group_bytes g), atr_lead g nxt lo, u3)"
      using False bits u1(1) u2(1) u3(1) len by (subst iso_atr_loop.simps) (simp add: g del: atr_lead.simps)
    then show ?thesis using False u1(3) u2(3) u3(2,3) by auto
  next
    case True
    then obtain td r' where td: "r = td # r'" using nx by (cases r) auto
    obtain u4 where u4: "\<And>x. xy_iso7816_recv_byte hal h x u3 = (XY_ISO7816_OK, td, u4)" "rx u4 = r'" "tx u4 = tx u3"
    proof -
      have "rx u3 = td # r'" using u3(2) td by simp
      then obtain u' where "hal_recv hal (ih_uart h) 1 XY_ISO7816_BYTE_TIMEOUT u3 = (1, [td], u')"
          "rx u' = r'" "tx u' = tx u3"
        using line unfolding uart_line_def by blast
      then show ?thesis by (intro that [of u']) (simp_all add: xy_iso7816_recv_byte_def)
    qed
    have "length (bs @ atr_group_bytes g) < 33" using nx True by simp
    note st = atr_store_td [OF this, of td]
    have "iso_atr_loop hal h (atr_with bs) (atr_lead g nxt lo) u
        = iso_atr_loop hal h (atr_with (bs @ atr_group_bytes g @ [td])) td u4"
      using True bits u1(1) u2(1) u3(1) [unfolded gb] len u4(1) st atr_with_append [of "bs @ atr_group_bytes g" td]
      by (subst iso_atr_loop.simps) (simp add: g del: atr_lead.simps)
    then show ?thesis using True u1(3) u2(3) u3(3) u4(2,3) td by auto
  qed
qed

definition atr_low_nibbles :: "(u8 \<times> atr_group) list \<Rightarrow> bool" where
  "atr_low_nibbles rest \<longleftrightarrow> (\<forall>(t, g) \<in> set rest. t AND 0x0F = t)"

lemma atr_loop_line:
  assumes line: "uart_line hal (ih_uart h) rx tx" and "lo AND 0x0F = lo" and "atr_low_nibbles rest"
    and "rx u = tl (atr_iface lo g rest) @ r" and "length bs + length (tl (atr_iface lo g rest)) \<le> 33"
    and "bs \<noteq> []"
  shows "\<exists>u'. iso_atr_loop hal h (atr_with bs) (hd (atr_iface lo g rest)) u
      = Some (XY_ISO7816_OK, atr_with (bs @ tl (atr_iface lo g rest)), atr_last lo g rest, u')
    \<and> rx u' = r \<and> tx u' = tx u"
  using assms(2-)
proof (induction lo g rest arbitrary: bs u rule: atr_iface.induct)
  case (1 lo g)
  show ?case
  proof (cases "length bs < 33")
    case True
    have rx: "rx u = atr_group_bytes g @ r" and l: "length bs + length (atr_group_bytes g) \<le> 33"
      using 1(3,4) by simp_all
    obtain u' where "rx u' = r" "tx u' = tx u" "iso_atr_loop hal h (atr_with bs) (atr_lead g False lo) u
        = Some (XY_ISO7816_OK, atr_with (bs @ atr_group_bytes g), atr_lead g False lo, u')"
      using atr_loop_group [OF line 1(1) rx l True, of False] unfolding if_False by blast
    then show ?thesis by (intro exI [of _ u']) (simp only: atr_iface.simps list.sel atr_last.simps simp_thms)
  next
    case False
    moreover have "length bs + length (atr_group_bytes g) \<le> 33" using 1(4) by simp
    ultimately have "length (atr_group_bytes g) = 0" "length bs = 33" by linarith+
    then have "atr_group_bytes g = []" "length bs = 33" by simp_all
    have "\<not> unat (at_length (atr_with bs)) < XY_ISO7816_ATR_MAX_LEN"
      using \<open>length bs = 33\<close> by (simp add: atr_with_length XY_ISO7816_ATR_MAX_LEN_def)
    then have "iso_atr_loop hal h (atr_with bs) (atr_lead g False lo) u
        = Some (XY_ISO7816_OK, atr_with bs, atr_lead g False lo, u)"
      by (subst iso_atr_loop.simps) (simp only: if_False)
    moreover have "rx u = r" using 1(3) \<open>atr_group_bytes g = []\<close> by simp
    ultimately show ?thesis using \<open>atr_group_bytes g = []\<close>
      by (intro exI [of _ u]) (simp only: atr_iface.simps list.sel atr_last.simps append_Nil2 simp_thms)
  qed
next
  case (2 lo g t g' rest)
  have it: "atr_iface t g' rest = atr_lead g' (rest \<noteq> []) t # tl (atr_iface t g' rest)" by (rule atr_iface_Cons)
  then have hd: "hd (atr_iface t g' rest) = atr_lead g' (rest \<noteq> []) t" by (metis list.sel(1))
  have ne: "atr_iface t g' rest \<noteq> []" using it by (metis list.distinct(1))
  obtain n where lt: "length (atr_iface t g' rest) = Suc n" using ne by (cases "atr_iface t g' rest") simp_all
  have t: "t AND 0x0F = t" "atr_low_nibbles rest" using 2(3) by (simp_all add: atr_low_nibbles_def)
  have b33: "length bs + length (atr_group_bytes g) + length (atr_iface t g' rest) \<le> 33" using 2(5) by simp
  have rx: "rx u = atr_group_bytes g @ (atr_iface t g' rest @ r)" using 2(4) by simp
  have c1: "length bs + length (atr_group_bytes g) \<le> 33" and c2: "length bs < 33"
    and c3: "length bs + length (atr_group_bytes g) < 33 \<and> atr_iface t g' rest @ r \<noteq> []"
    using b33 lt ne by simp_all
  let ?g1 = "bs @ atr_group_bytes g @ [hd (atr_iface t g' rest)]"
  have hdtl: "hd (atr_iface t g' rest @ r) = hd (atr_iface t g' rest)"
    "tl (atr_iface t g' rest @ r) = tl (atr_iface t g' rest) @ r" using ne by simp_all
  obtain u1 where u1: "rx u1 = tl (atr_iface t g' rest) @ r" "tx u1 = tx u"
    "iso_atr_loop hal h (atr_with bs) (atr_lead g True lo) u
      = iso_atr_loop hal h (atr_with ?g1) (hd (atr_iface t g' rest)) u1"
    using atr_loop_group [where nxt = True, OF line 2(2) rx c1 c2 c3] unfolding hdtl if_True by blast
  have l1: "length ?g1 + length (tl (atr_iface t g' rest)) \<le> 33" and ne1: "?g1 \<noteq> []" using b33 lt by simp_all
  obtain u2 where u2: "iso_atr_loop hal h (atr_with ?g1) (hd (atr_iface t g' rest)) u1
      = Some (XY_ISO7816_OK, atr_with (?g1 @ tl (atr_iface t g' rest)), atr_last t g' rest, u2)"
    "rx u2 = r" "tx u2 = tx u1"
    using 2(1) [OF t u1(1) l1 ne1] by blast
  have "?g1 @ tl (atr_iface t g' rest) = bs @ tl (atr_iface lo g ((t, g') # rest))" using ne by simp
  then show ?case
    by (intro exI [of _ u2])
      (simp only: atr_iface.simps list.sel atr_last.simps u1(2,3) u2 simp_thms)
qed

lemma atr_hist_line:
  assumes line: "uart_line hal (ih_uart h) rx tx" and "rx u = hs @ r" and "length bs + length hs \<le> 33"
  shows "\<exists>u'. iso_atr_hist hal h (length hs) (atr_with bs) u
      = Some (XY_ISO7816_OK, atr_with (bs @ hs), u') \<and> rx u' = r \<and> tx u' = tx u"
  using assms(2,3)
proof (induction hs arbitrary: bs u)
  case Nil
  then show ?case by simp
next
  case (Cons b hs)
  have "rx u = atr_opt (Some b) @ (hs @ r)" "length bs + length (atr_opt (Some b)) \<le> 33"
    using Cons.prems by simp_all
  from atr_recv_line [OF line this] obtain u1 where u1:
    "iso_atr_recv hal h True (atr_with bs) u = Some (XY_ISO7816_OK, atr_with (bs @ [b]), u1)"
    "rx u1 = hs @ r" "tx u1 = tx u" by auto
  obtain u2 where "iso_atr_hist hal h (length hs) (atr_with (bs @ [b])) u1
      = Some (XY_ISO7816_OK, atr_with ((bs @ [b]) @ hs), u2)" "rx u2 = r" "tx u2 = tx u1"
    using Cons.IH [OF u1(2), of "bs @ [b]"] Cons.prems(2) by auto
  moreover have "unat (at_length (atr_with bs)) < XY_ISO7816_ATR_MAX_LEN"
    using Cons.prems(2) by (simp add: atr_with_length XY_ISO7816_ATR_MAX_LEN_def)
  ultimately show ?case using u1 by auto
qed

text \<open>A complete answer to reset.\<close>

definition atr_bytes ::
  "u8 \<Rightarrow> atr_group \<Rightarrow> (u8 \<times> atr_group) list \<Rightarrow> u8 list \<Rightarrow> u8 \<Rightarrow> u8 list" where
  "atr_bytes ts g rest hist tck = ts # atr_iface (of_nat (length hist)) g rest @ hist
     @ (if rest \<noteq> [] \<and> fst (last rest) \<noteq> 0 then [tck] else [])"

lemma atr_last_nibble:
  "lo AND 0x0F = lo \<Longrightarrow> atr_low_nibbles rest \<Longrightarrow>
   atr_last lo g rest AND 0x0F = (if rest = [] then lo else fst (last rest))"
proof (induction lo g rest rule: atr_last.induct)
  case (1 lo g)
  then show ?case by (cases g) (simp only: atr_last.simps atr_lead_bits(5), simp)
next
  case (2 lo g t g' rest)
  then show ?case by (auto simp: atr_low_nibbles_def)
qed

lemma low_nibble_of_nat: "n < 16 \<Longrightarrow> (of_nat n :: u8) AND 0x0F = of_nat n"
proof -
  assume n: "n < 16"
  have "(of_nat n :: u8) AND mask 4 = of_nat (take_bit 4 n)"
    by (simp only: take_bit_eq_mask [symmetric] take_bit_of_nat)
  moreover have "take_bit 4 n = n" using n by (simp add: take_bit_nat_eq_self)
  moreover have "mask 4 = (0x0F :: u8)" by (simp add: mask_numeral)
  ultimately show ?thesis by simp
qed

lemma atr_reset_line:
  assumes line: "uart_line hal (ih_uart h) rx tx" and ini: "ih_initialized h"
    and ts: "ts = 0x3B \<or> ts = 0x3F" and n: "length hist < 16" and nib: "atr_low_nibbles rest"
    and l: "length (atr_bytes ts g rest hist tck) \<le> 33"
    and rx: "rx (hal_flush hal (ih_uart h) u) = atr_bytes ts g rest hist tck @ r"
  shows "\<exists>u'. xy_iso7816_reset hal (Some h) (Some a0) u
      = (let a = \<lparr>at_data = atr_bytes ts g rest hist tck
              @ replicate (33 - length (atr_bytes ts g rest hist tck)) 0,
            at_length = of_nat (length (atr_bytes ts g rest hist tck)),
            at_protocol = (if rest = [] then of_nat (length hist) else fst (last rest)),
            at_valid = True\<rparr>
         in Some (XY_ISO7816_OK, Some (h\<lparr>ih_atr := a\<rparr>), Some a, u'))
    \<and> rx u' = r \<and> tx u' = tx (hal_flush hal (ih_uart h) u)"
proof -
  let ?lo = "of_nat (length hist) :: u8"
  let ?if = "atr_iface ?lo g rest"
  let ?ck = "if rest \<noteq> [] \<and> fst (last rest) \<noteq> 0 then [tck] else []"
  have lo: "?lo AND 0x0F = ?lo" by (rule low_nibble_of_nat [OF n])
  have split: "?if = atr_lead g (rest \<noteq> []) ?lo # tl ?if" by (rule atr_iface_Cons)
  then have ne: "?if \<noteq> []" by (metis list.distinct(1))
  define t0 where "t0 = hd ?if"
  have t0: "t0 = atr_lead g (rest \<noteq> []) ?lo" using split by (metis t0_def list.sel(1))
  have if_t0: "?if = t0 # tl ?if" using ne by (simp add: t0_def)
  have rx0: "rx (hal_flush hal (ih_uart h) u) = ts # t0 # (tl ?if @ (hist @ (?ck @ r)))"
    using rx if_t0 by (simp add: atr_bytes_def)
  obtain u1 where u1: "xy_iso7816_recv_byte hal h 0 (hal_flush hal (ih_uart h) u) = (XY_ISO7816_OK, ts, u1)"
    "rx u1 = t0 # (tl ?if @ (hist @ (?ck @ r)))" "tx u1 = tx (hal_flush hal (ih_uart h) u)"
    using line_recv [OF line rx0] by blast
  obtain u2 where u2: "xy_iso7816_recv_byte hal h 0 u1 = (XY_ISO7816_OK, t0, u2)"
    "rx u2 = tl ?if @ (hist @ (?ck @ r))" "tx u2 = tx u1"
    using line_recv [OF line u1(2)] by blast
  have len: "2 + length (tl ?if) + length hist + length ?ck \<le> 33"
  proof -
    have "length ?if = length (tl ?if) + 1" using ne by (cases ?if) simp_all
    moreover have "1 + length ?if + length hist + length ?ck \<le> 33"
      using l by (simp only: atr_bytes_def length_append list.size)
    ultimately show ?thesis by linarith
  qed
  have "length [ts, t0] + length (tl ?if) \<le> 33" using len by simp
  then obtain u3 where u3: "iso_atr_loop hal h (atr_with [ts, t0]) t0 u2
      = Some (XY_ISO7816_OK, atr_with ([ts, t0] @ tl ?if), atr_last ?lo g rest, u3)"
    "rx u3 = hist @ (?ck @ r)" "tx u3 = tx u2"
    using atr_loop_line [OF line lo nib u2(2), of "[ts, t0]"] t0_def by auto
  have "length ([ts, t0] @ tl ?if) + length hist \<le> 33" using len by simp
  then obtain u4 where u4: "iso_atr_hist hal h (length hist) (atr_with ([ts, t0] @ tl ?if)) u3
      = Some (XY_ISO7816_OK, atr_with (([ts, t0] @ tl ?if) @ hist), u4)" "rx u4 = ?ck @ r" "tx u4 = tx u3"
    using atr_hist_line [OF line u3(2)] by blast
  let ?b4 = "([ts, t0] @ tl ?if) @ hist"
  obtain a b c where g: "g = (a, b, c)" by (cases g)
  have t0_more: "t0 AND 0x80 \<noteq> 0 \<longleftrightarrow> rest \<noteq> []" and t0_hist: "unat (t0 AND 0x0F) = length hist"
    using atr_lead_bits(4,5) [OF lo, of a b c "rest \<noteq> []"] n by (simp_all add: t0 g unat_of_nat_u8)
  have proto: "atr_last ?lo g rest AND 0x0F = (if rest = [] then ?lo else fst (last rest))"
    by (rule atr_last_nibble [OF lo nib])
  have a2: "iso_atr_zero\<lparr>at_data := ((at_data iso_atr_zero)[0 := ts])[1 := t0], at_length := 2\<rparr>
      = atr_with [ts, t0]"
    by (simp add: iso_atr_zero_def atr_with_def XY_ISO7816_ATR_MAX_LEN_def numeral_eq_Suc)
  obtain u5 where u5: "(if t0 AND 0x80 \<noteq> 0 \<and> atr_last ?lo g rest AND 0x0F \<noteq> 0 then
         (case xy_iso7816_recv_byte hal h 0 u4 of (r, tck, u') \<Rightarrow>
            if r \<noteq> XY_ISO7816_OK then Some (XY_ISO7816_ERROR_ATR, atr_with ?b4, u')
            else do {
              data \<leftarrow> mem_store (at_data (atr_with ?b4)) (unat (at_length (atr_with ?b4))) tck;
              Some (XY_ISO7816_OK,
                (atr_with ?b4)\<lparr>at_data := data, at_length := at_length (atr_with ?b4) + 1\<rparr>, u') })
       else Some (XY_ISO7816_OK, atr_with ?b4, u4))
      = Some (XY_ISO7816_OK, atr_with (?b4 @ ?ck), u5)" "rx u5 = r" "tx u5 = tx u4"
  proof (cases "rest \<noteq> [] \<and> fst (last rest) \<noteq> 0")
    case False
    then show ?thesis using that [of u4] t0_more proto u4(2) by auto
  next
    case True
    then have "rx u4 = tck # r" using u4(2) by simp
    from line_recv [OF line this] obtain u' where u':
      "xy_iso7816_recv_byte hal h 0 u4 = (XY_ISO7816_OK, tck, u')" "rx u' = r" "tx u' = tx u4" by blast
    have "length ?b4 < 33" using len True by simp
    from atr_store_td [OF this, of tck] show ?thesis
      using that [of u'] True t0_more proto u' atr_with_append [of ?b4 tck]
      by simp
  qed
  have bytes: "?b4 @ ?ck = atr_bytes ts g rest hist tck" using if_t0 by (simp add: atr_bytes_def)
  have fin: "(atr_with bs)\<lparr>at_valid := True, at_protocol := p\<rparr>
      = \<lparr>at_data = bs @ replicate (33 - length bs) 0, at_length = of_nat (length bs), at_protocol = p,
         at_valid = True\<rparr>" for bs p
    by (simp add: atr_with_def)
  have a1: "(iso_atr_zero\<lparr>at_data := (at_data iso_atr_zero)[0 := ts], at_length := 1\<rparr>)
      \<lparr>at_data := (at_data (iso_atr_zero\<lparr>at_data := (at_data iso_atr_zero)[0 := ts], at_length := 1\<rparr>))
        [1 := t0], at_length := 2\<rparr> = atr_with [ts, t0]"
    using a2 by simp
  have "xy_iso7816_reset hal (Some h) (Some a0) u
      = (let a = (atr_with (?b4 @ ?ck))\<lparr>at_valid := True, at_protocol := atr_last ?lo g rest AND 0x0F\<rparr>
         in Some (XY_ISO7816_OK, Some (h\<lparr>ih_atr := a\<rparr>), Some a, u5))"
    unfolding xy_iso7816_reset_def
    using ini ts u1(1) u2(1) u3(1) u4(1) u5(1) t0_hist
    by (simp only: option.case prod.case Let_def a1 refl simp_thms if_False if_True Option.bind.bind_lunit) simp
  then show ?thesis
    using u5(2,3) u1(3) u2(3) u3(3) u4(3)
    by (intro exI [of _ u5]) (simp only: bytes fin proto Let_def simp_thms)
qed

text \<open>
  An answer whose TD bytes never end the list is followed beyond the 33 bytes of the array.
\<close>

lemma atr_endless_group:
  assumes line: "uart_line hal (ih_uart h) rx tx" and r: "rx u = [0xFF, 0xFF, 0xFF, 0xFF] @ r"
    and l: "length bs + 4 \<le> 33"
  shows "\<exists>u'. rx u' = r \<and> iso_atr_loop hal h (atr_with bs) 0xFF u
    = iso_atr_loop hal h (atr_with (bs @ [0xFF, 0xFF, 0xFF, 0xFF])) 0xFF u'"
proof -
  have "rx u = atr_group_bytes (Some 0xFF, Some 0xFF, Some 0xFF) @ (0xFF # r)" using r by simp
  moreover have "length bs + length (atr_group_bytes (Some 0xFF, Some 0xFF, Some 0xFF)) \<le> 33"
    "length bs < 33" using l by simp_all
  moreover have "length bs + length (atr_group_bytes (Some 0xFF, Some 0xFF, Some 0xFF)) < 33
      \<and> (0xFF :: u8) # r \<noteq> []" using l by simp
  moreover have "(0x0F :: u8) AND 0x0F = 0x0F" by simp
  ultimately show ?thesis
    using atr_loop_group [where nxt = True and lo = "0x0F" and g = "(Some 0xFF, Some 0xFF, Some 0xFF)",
        OF line] by force
qed

lemma atr_overrun:
  assumes line: "uart_line hal (ih_uart h) rx tx" and r: "rx u = [0xFF, 0xFF, 0xFF, 0xFF] @ r"
    and l: "length bs = 30"
  shows "iso_atr_loop hal h (atr_with bs) 0xFF u = None"
proof -
  have "rx u = atr_opt (Some 0xFF) @ ([0xFF, 0xFF, 0xFF] @ r)" "length bs + length (atr_opt (Some 0xFF)) \<le> 33"
    using r l by simp_all
  from atr_recv_line [OF line this] obtain u1 where u1: "iso_atr_recv hal h True (atr_with bs) u
      = Some (XY_ISO7816_OK, atr_with (bs @ [0xFF]), u1)" "rx u1 = [0xFF, 0xFF, 0xFF] @ r" by auto
  have "rx u1 = atr_opt (Some 0xFF) @ ([0xFF, 0xFF] @ r)"
    "length (bs @ [0xFF]) + length (atr_opt (Some 0xFF)) \<le> 33" using u1(2) l by simp_all
  from atr_recv_line [OF line this] obtain u2 where u2: "iso_atr_recv hal h True (atr_with (bs @ [0xFF])) u1
      = Some (XY_ISO7816_OK, atr_with (bs @ [0xFF, 0xFF]), u2)" "rx u2 = [0xFF, 0xFF] @ r" by auto
  have "rx u2 = atr_opt (Some 0xFF) @ ([0xFF] @ r)"
    "length (bs @ [0xFF, 0xFF]) + length (atr_opt (Some 0xFF)) \<le> 33" using u2(2) l by simp_all
  from atr_recv_line [OF line this] obtain u3 where u3: "iso_atr_recv hal h True (atr_with (bs @ [0xFF, 0xFF])) u2
      = Some (XY_ISO7816_OK, atr_with (bs @ [0xFF, 0xFF, 0xFF]), u3)" "rx u3 = [0xFF] @ r" by auto
  obtain u4 where u4: "xy_iso7816_recv_byte hal h 0xFF u3 = (XY_ISO7816_OK, 0xFF, u4)"
    using line_recv [OF line, of u3 "0xFF" r "0xFF"] u3(2) by auto
  have "unat (at_length (atr_with bs)) < XY_ISO7816_ATR_MAX_LEN"
    using l by (simp add: atr_with_length XY_ISO7816_ATR_MAX_LEN_def)
  moreover have "mem_store (at_data (atr_with (bs @ [0xFF, 0xFF, 0xFF])))
      (unat (at_length (atr_with (bs @ [0xFF, 0xFF, 0xFF])))) 0xFF = None"
    using l by (simp add: atr_with_length mem_store_def) (simp add: atr_with_def)
  ultimately show ?thesis using u1(1) u2(1) u3(1) u4 by (subst iso_atr_loop.simps) simp
qed

subsection \<open>Exchanges\<close>

definition resp_with :: "u8 list \<Rightarrow> iso_resp" where
  "resp_with d = \<lparr>rs_data = d @ replicate (256 - length d) 0, rs_length = of_nat (length d),
     rs_sw1 = 0, rs_sw2 = 0\<rparr>"

lemma resp_with_length: "length d \<le> 256 \<Longrightarrow> unat (rs_length (resp_with d)) = length d"
  by (simp add: resp_with_def unat_of_nat_u16)

lemma resp_with_Nil: "iso_resp_zero = resp_with []"
  by (simp add: iso_resp_zero_def resp_with_def)

declare iso_recv_data.simps [simp del]

lemma recv_data_line:
  assumes line: "uart_line hal (ih_uart h) rx tx" and "rx u = bs @ r" and "length d + length bs = unat n"
  shows "\<exists>u'. iso_recv_data hal h n (resp_with d) u = Some (resp_with (d @ bs), u')
    \<and> rx u' = r \<and> tx u' = tx u"
  using assms(2,3)
proof (induction bs arbitrary: d u)
  case Nil
  have "length d = unat n" using Nil(2) by simp
  then have "length d \<le> 256" using unat_u8_less [of n] by linarith
  then have "unat (rs_length (resp_with d)) = length d" by (rule resp_with_length)
  then show ?case using Nil by (subst iso_recv_data.simps) simp
next
  case (Cons b bs)
  have "length d < unat n" using Cons(3) by simp
  then have ld: "length d < 256" "length d < unat n" using unat_u8_less [of n] by linarith+
  then have ln: "unat (rs_length (resp_with d)) = length d" by (simp add: resp_with_length)
  obtain c where c: "mem_load (rs_data (resp_with d)) (length d) = Some c"
    using ld by (simp add: mem_load_def resp_with_def)
  have st: "mem_store (rs_data (resp_with d)) (length d) b = Some (rs_data (resp_with (d @ [b])))"
    using ld by (simp add: mem_store_def resp_with_def replicate_diff_Suc)
  have up: "(resp_with d)\<lparr>rs_data := rs_data (resp_with (d @ [b])), rs_length := rs_length (resp_with d) + 1\<rparr>
      = resp_with (d @ [b])" by (simp add: resp_with_def)
  have "rx u = b # (bs @ r)" using Cons(2) by simp
  from line_recv [OF line this] obtain u1 where u1:
    "xy_iso7816_recv_byte hal h c u = (XY_ISO7816_OK, b, u1)" "rx u1 = bs @ r" "tx u1 = tx u" by blast
  have "iso_recv_data hal h n (resp_with d) u = iso_recv_data hal h n (resp_with (d @ [b])) u1"
    using ld ln c st u1(1) up by (subst iso_recv_data.simps) (simp add: iso_recv_at_def)
  then show ?case using Cons(1) [OF u1(2), of "d @ [b]"] Cons(3) u1(3) by auto
qed

text \<open>The card acknowledges with the instruction byte and answers \<open>le\<close> bytes and a status.\<close>

lemma exchange_line:
  assumes line: "uart_line hal (ih_uart h) rx tx" and d: "length (cm_data cmd) = 256"
    and rx: "rx u = cm_ins cmd # bs @ [s1, s2] @ r" and l: "length bs = unat (cm_le cmd)"
  shows "\<exists>u'. iso_exchange hal h cmd u
      = Some (XY_ISO7816_OK, (resp_with bs)\<lparr>rs_sw1 := s1, rs_sw2 := s2\<rparr>, u')
    \<and> rx u' = r
    \<and> tx u' = tx u @ [cm_cla cmd, cm_ins cmd, cm_p1 cmd, cm_p2 cmd, cm_lc cmd]
        @ take (unat (cm_lc cmd)) (cm_data cmd)"
proof -
  let ?hd = "[cm_cla cmd, cm_ins cmd, cm_p1 cmd, cm_p2 cmd, cm_lc cmd]"
  obtain u1 where u1: "xy_iso7816_send_buffer hal h ?hd 5 u = Some (XY_ISO7816_OK, u1)"
    "rx u1 = rx u" "tx u1 = tx u @ ?hd"
    using line_send [OF line, of 5 ?hd u] by auto
  obtain u2 where u2: "xy_iso7816_recv_byte hal h 0 u1 = (XY_ISO7816_OK, cm_ins cmd, u2)"
    "rx u2 = bs @ [s1, s2] @ r" "tx u2 = tx u1"
    using line_recv [OF line, of u1 "cm_ins cmd" "bs @ [s1, s2] @ r" 0] u1(2) rx by auto
  obtain u3 where u3: "(if cm_lc cmd > 0
      then xy_iso7816_send_buffer hal h (cm_data cmd) (ucast (cm_lc cmd)) u2
      else Some (XY_ISO7816_OK, u2)) = Some (XY_ISO7816_OK, u3)"
    "rx u3 = bs @ [s1, s2] @ r" "tx u3 = tx u2 @ take (unat (cm_lc cmd)) (cm_data cmd)"
  proof (cases "cm_lc cmd = 0")
    case True
    then show ?thesis using that [of u2] u2(2) by simp
  next
    case False
    have n: "unat (ucast (cm_lc cmd) :: u16) = unat (cm_lc cmd)" by (rule unat_ucast_u8_u16)
    have "unat (cm_lc cmd) < 256" by simp
    then have "unat (ucast (cm_lc cmd) :: u16) \<le> length (cm_data cmd)" unfolding n d by linarith
    from line_send [OF line this, of u2] obtain u' where
      "xy_iso7816_send_buffer hal h (cm_data cmd) (ucast (cm_lc cmd)) u2 = Some (XY_ISO7816_OK, u')"
      "rx u' = rx u2" "tx u' = tx u2 @ take (unat (cm_lc cmd)) (cm_data cmd)"
      unfolding n by blast
    then show ?thesis using that [of u'] False u2(2) by (simp add: word_greater_zero_iff)
  qed
  obtain u4 where u4: "(if cm_le cmd > 0 then iso_recv_data hal h (cm_le cmd) iso_resp_zero u3
      else Some (iso_resp_zero, u3)) = Some (resp_with bs, u4)" "rx u4 = [s1, s2] @ r" "tx u4 = tx u3"
  proof (cases "cm_le cmd = 0")
    case True
    then show ?thesis using that [of u3] u3(2) l by (simp add: resp_with_Nil)
  next
    case False
    then show ?thesis
      using recv_data_line [OF line u3(2), of "[]" "cm_le cmd"] l that
      by (auto simp: word_greater_zero_iff resp_with_Nil)
  qed
  obtain u5 where u5: "xy_iso7816_recv_byte hal h 0 u4 = (XY_ISO7816_OK, s1, u5)" "rx u5 = s2 # r" "tx u5 = tx u4"
    using line_recv [OF line, of u4 s1 "s2 # r" 0] u4(2) by auto
  obtain u6 where u6: "xy_iso7816_recv_byte hal h 0 u5 = (XY_ISO7816_OK, s2, u6)" "rx u6 = r" "tx u6 = tx u5"
    using line_recv [OF line u5(2), of 0] by auto
  have sw: "rs_sw1 (resp_with bs) = 0" "rs_sw2 ((resp_with bs)\<lparr>rs_sw1 := s1\<rparr>) = 0" by (simp_all add: resp_with_def)
  have "iso_exchange hal h cmd u = Some (XY_ISO7816_OK, (resp_with bs)\<lparr>rs_sw1 := s1, rs_sw2 := s2\<rparr>, u6)"
    unfolding iso_exchange_def
    by (simp only: Let_def u1(1) u2(1) u3(1) u4(1) u5(1) u6(1) sw Option.bind.bind_lunit prod.case
        refl simp_thms if_True if_False)
  then show ?thesis using u1(3) u2(3) u3(3) u4(3) u5(3) u6(2,3) by auto
qed

text \<open>
  A response in pieces: every piece but the last is followed by status 61xx with the length of
  the next, which the card sends after a GET RESPONSE command.
\<close>

fun card_script :: "u8 \<Rightarrow> u8 list list \<Rightarrow> u8 \<Rightarrow> u8 \<Rightarrow> u8 list" where
  "card_script ins [] s1 s2 = []"
| "card_script ins [d] s1 s2 = ins # d @ [s1, s2]"
| "card_script ins (d # d' # ds) s1 s2
     = ins # d @ [0x61, of_nat (length d')] @ card_script 0xC0 (d' # ds) s1 s2"

fun reader_script :: "iso_cmd \<Rightarrow> u8 list list \<Rightarrow> u8 list" where
  "reader_script cmd [] = []"
| "reader_script cmd (d # ds) = [cm_cla cmd, cm_ins cmd, cm_p1 cmd, cm_p2 cmd, cm_lc cmd]
     @ take (unat (cm_lc cmd)) (cm_data cmd)
     @ concat (map (\<lambda>_. [cm_cla cmd, 0xC0, 0, 0, 0]) ds)"

lemma resp_read:
  assumes "k \<le> length xs" and "k \<le> 256"
  shows "mem_read (rs_data (resp_with (take 256 xs))) 0 k = Some (take k xs)"
proof -
  have "k - length (take 256 xs) = 0" "min k 256 = k" using assms by simp_all
  then have "take k (take 256 xs @ replicate (256 - length (take 256 xs)) 0) = take k xs"
    by (simp only: take_append take_take take_0 append_Nil2)
  moreover have "length (take 256 xs @ replicate (256 - length (take 256 xs)) 0) = 256" by simp
  ultimately show ?thesis using assms(2) by (simp only: mem_read_def resp_with_def iso_resp.simps add_0 drop_0 if_True)
qed

lemma take_min_length: "take (min n (length xs)) xs = take n xs"
  by (simp add: min_def)

lemma transceive_chain:
  assumes line: "uart_line hal (ih_uart h) rx tx" and "length (cm_data cmd) = 256"
    and "rx u = card_script (cm_ins cmd) (d # ds) s1 s2 @ r" and "length d = unat (cm_le cmd)"
    and "\<forall>x \<in> set ds. length x < 256" and "s1 \<noteq> 0x61"
  shows "\<exists>u'. iso_transceive hal h cmd u
      = Some (XY_ISO7816_OK, (resp_with (take 256 (concat (d # ds))))\<lparr>rs_sw1 := s1, rs_sw2 := s2\<rparr>, u')
    \<and> rx u' = r \<and> tx u' = tx u @ reader_script cmd (d # ds)"
  using assms(2-5)
proof (induction ds arbitrary: d cmd u)
  case Nil
  then have "rx u = cm_ins cmd # d @ [s1, s2] @ r" by simp
  from exchange_line [OF line Nil(1) this Nil(3)] obtain u' where u':
    "iso_exchange hal h cmd u = Some (XY_ISO7816_OK, (resp_with d)\<lparr>rs_sw1 := s1, rs_sw2 := s2\<rparr>, u')"
    "rx u' = r" "tx u' = tx u @ [cm_cla cmd, cm_ins cmd, cm_p1 cmd, cm_p2 cmd, cm_lc cmd]
        @ take (unat (cm_lc cmd)) (cm_data cmd)" by blast
  have "length d < 256" using Nil(3) by simp
  then show ?case using u' assms(6) by (subst iso_transceive.simps) simp
next
  case (Cons d' ds)
  let ?n = "of_nat (length d') :: u8"
  let ?c = "iso_cmd_zero\<lparr>cm_cla := cm_cla cmd, cm_ins := 0xC0, cm_le := ?n\<rparr>"
  let ?all = "concat (d' # ds)"
  have n: "unat ?n = length d'" using Cons(5) by (simp add: unat_of_nat_u8)
  have "rx u = cm_ins cmd # d @ [0x61, ?n] @ (card_script 0xC0 (d' # ds) s1 s2 @ r)" using Cons(3) by simp
  from exchange_line [OF line Cons(2) this Cons(4)] obtain u1 where u1:
    "iso_exchange hal h cmd u = Some (XY_ISO7816_OK, (resp_with d)\<lparr>rs_sw1 := 0x61, rs_sw2 := ?n\<rparr>, u1)"
    "rx u1 = card_script 0xC0 (d' # ds) s1 s2 @ r"
    "tx u1 = tx u @ [cm_cla cmd, cm_ins cmd, cm_p1 cmd, cm_p2 cmd, cm_lc cmd]
        @ take (unat (cm_lc cmd)) (cm_data cmd)" by blast
  obtain u2 where u2: "iso_transceive hal h ?c u1
      = Some (XY_ISO7816_OK, (resp_with (take 256 ?all))\<lparr>rs_sw1 := s1, rs_sw2 := s2\<rparr>, u2)"
    "rx u2 = r" "tx u2 = tx u1 @ reader_script ?c (d' # ds)"
    using Cons(1) [of ?c u1 d'] u1(2) n Cons(5) by (auto simp: iso_cmd_zero_def)
  let ?m = "(resp_with (take 256 ?all))\<lparr>rs_sw1 := s1, rs_sw2 := s2\<rparr>"
  let ?k = "min (256 - length d) (length ?all)"
  have ld: "length d < 256" using Cons(4) by simp
  have l256: "unat (rs_length (resp_with (take 256 x))) = min 256 (length x)" for x
    by (subst resp_with_length) simp_all
  have m_len: "rs_length ?m = rs_length (resp_with (take 256 ?all))" by simp
  have lens: "unat (rs_length (resp_with d)) = length d" "unat (rs_length ?m) = min 256 (length ?all)"
    using ld l256 unfolding m_len by (simp_all only: resp_with_length less_imp_le)
  define cl where "cl = (if unat (rs_length (resp_with d)) + unat (rs_length ?m) > 256
                         then 256 - rs_length (resp_with d) else rs_length ?m)"
  have cl: "unat cl = ?k"
  proof -
    have "rs_length (resp_with d) \<le> 256" using ld lens(1) by (simp add: word_le_nat_alt)
    then have "unat (256 - rs_length (resp_with d)) = 256 - length d" using lens(1) by (simp add: unat_sub)
    then show ?thesis using lens ld unfolding cl_def by (auto simp: min_def)
  qed
  have rd: "mem_read (rs_data ?m) 0 ?k = Some (take ?k ?all)"
  proof -
    have "rs_data ?m = rs_data (resp_with (take 256 ?all))" by simp
    moreover have "?k \<le> length ?all" "?k \<le> 256" by linarith+
    ultimately show ?thesis using resp_read by (simp only:)
  qed
  have dd: "take 256 (concat (d # d' # ds)) = d @ take ?k ?all"
    using ld unfolding take_min_length by simp
  have lk: "length (take ?k ?all) = ?k" by simp
  have wr: "mem_write (rs_data (resp_with d)) (length d) xs = Some (rs_data (resp_with (d @ xs)))"
    if "length xs \<le> 256 - length d" for xs
    using ld that by (simp add: mem_write_def resp_with_def)
  have wr: "mem_write (rs_data (resp_with d)) (length d) (take ?k ?all)
      = Some (rs_data (resp_with (d @ take ?k ?all)))"
    by (rule wr) (subst lk, rule min.cobounded1)
  have ul: "rs_length (resp_with d) + cl = rs_length (resp_with (d @ take ?k ?all))"
  proof -
    have "cl = of_nat ?k" unfolding cl [symmetric] by simp
    then show ?thesis by (simp only: resp_with_def iso_resp.simps length_append lk of_nat_add)
  qed
  have cle: "(if length d + unat (rs_length ?m) > 256 then 256 - rs_length (resp_with d)
      else rs_length ?m) = cl" by (simp only: cl_def lens(1))
  let ?r1 = "(resp_with d)\<lparr>rs_sw1 := 0x61, rs_sw2 := ?n\<rparr>"
  have r1: "rs_sw1 ?r1 = 0x61" "rs_sw2 ?r1 = ?n" "rs_data ?r1 = rs_data (resp_with d)"
    "rs_length ?r1 = rs_length (resp_with d)" by simp_all
  have m1: "rs_sw1 ?m = s1" "rs_sw2 ?m = s2" by simp_all
  have up: "?r1\<lparr>rs_data := rs_data (resp_with x), rs_length := rs_length (resp_with x), rs_sw1 := a, rs_sw2 := b\<rparr>
      = (resp_with x)\<lparr>rs_sw1 := a, rs_sw2 := b\<rparr>" for x a b by (simp add: resp_with_def)
  have "iso_transceive hal h cmd u
      = Some (XY_ISO7816_OK, (resp_with (d @ take ?k ?all))\<lparr>rs_sw1 := s1, rs_sw2 := s2\<rparr>, u2)"
    by (subst iso_transceive.simps)
      (simp only: u1(1) Option.bind.bind_lunit prod.case r1 u2(1) Let_def lens(1) cle cl rd wr
        ul m1 up refl simp_thms if_True if_False)
  then show ?case using u1(3) u2(2,3) dd by (intro exI [of _ u2]) (simp add: iso_cmd_zero_def)
qed

end
