(* ===== verification/Xy_Iso7816_Properties.thy ===== *)
theory Xy_Iso7816_Properties
  imports Xy_Iso7816_Correct
begin

text \<open>
  Properties of the smart-card driver: what a reset stores, where it leaves the array, chained
  responses, the PIN command, and the conversion of packed digits to text.
\<close>

subsection \<open>Endless answers\<close>

lemma atr_endless:
  assumes line: "uart_line hal (ih_uart h) rx tx"
    and "rx u = replicate k 0xFF @ r" and "length bs + 4 * n = 30" and "k = 4 * n + 4"
  shows "iso_atr_loop hal h (atr_with bs) 0xFF u = None"
  using assms(2-4)
proof (induction n arbitrary: bs u k)
  case 0
  then have "rx u = [0xFF, 0xFF, 0xFF, 0xFF] @ r" by (simp add: numeral_eq_Suc)
  then show ?case using atr_overrun [OF line] 0 by simp
next
  case (Suc n)
  have "k = 4 + (4 * n + 4)" using Suc.prems(3) by simp
  then have "rx u = replicate 4 0xFF @ (replicate (4 * n + 4) 0xFF @ r)"
    using Suc.prems(1) by (simp only: replicate_add append_assoc)
  then have rx: "rx u = [0xFF, 0xFF, 0xFF, 0xFF] @ (replicate (4 * n + 4) 0xFF @ r)"
    by (simp add: numeral_eq_Suc)
  have "length bs + 4 \<le> 33" using Suc.prems(2) by simp
  from atr_endless_group [OF line rx this] obtain u' where u': "rx u' = replicate (4 * n + 4) 0xFF @ r"
    "iso_atr_loop hal h (atr_with bs) 0xFF u
      = iso_atr_loop hal h (atr_with (bs @ [0xFF, 0xFF, 0xFF, 0xFF])) 0xFF u'" by blast
  have "length (bs @ [0xFF, 0xFF, 0xFF, 0xFF]) + 4 * n = 30" using Suc.prems(2) by simp
  from Suc.IH [OF u'(1) this refl] show ?case using u'(2) by simp
qed

subsection \<open>PINs\<close>

declare iso_pin_len.simps [simp del]

lemma pin_len_string:
  assumes "0 \<notin> set cs" and "n \<le> min 8 (length cs)"
  shows "iso_pin_len (cs @ 0 # rest) n = Some (min 8 (length cs))"
  using assms(2)
proof (induction "8 - n" arbitrary: n rule: less_induct)
  case less
  have ld: "mem_load (cs @ 0 # rest) n = Some ((cs @ 0 # rest) ! n)" using less.prems by (simp add: mem_load_def)
  show ?case
  proof (cases "n < 8 \<and> n < length cs")
    case True
    then have "cs ! n \<noteq> 0" using assms(1) by (metis nth_mem)
    then have "iso_pin_len (cs @ 0 # rest) n = iso_pin_len (cs @ 0 # rest) (n + 1)"
      using True by (subst iso_pin_len.simps) (simp add: ld nth_append)
    also have "\<dots> = Some (min 8 (length cs))" using True by (intro less.hyps) linarith+
    finally show ?thesis .
  next
    case False
    then have n: "n = min 8 (length cs)" using less.prems by linarith
    then have "\<not> ((cs @ 0 # rest) ! n \<noteq> 0 \<and> n < 8)" using False less.prems by (auto simp: nth_append)
    then have "iso_pin_len (cs @ 0 # rest) n = Some n" by (subst iso_pin_len.simps) (auto simp: ld)
    then show ?thesis using n by simp
  qed
qed

lemma pin_field:
  "map (\<lambda>i. if i < min 8 (length cs) then (cs @ 0 # rest) ! i else 0xFF) [0..<8]
   = take 8 (cs @ replicate 8 (0xFF :: u8))"
  by (rule nth_equalityI) (auto simp: nth_append)

subsection \<open>Packed digits\<close>

text \<open>The decimal digits of packed bytes: low nibble first, other nibbles skipped.\<close>

definition bcd_digits :: "u8 list \<Rightarrow> u8 list" where
  "bcd_digits bs = concat (map (\<lambda>b. filter (\<lambda>d. d \<le> 9) [b AND 0x0F, drop_bit 4 b AND 0x0F]) bs)"

definition ascii_put :: "nat \<Rightarrow> u8 list \<Rightarrow> u8 list \<Rightarrow> u8 list" where
  "ascii_put idx a ds = take idx a @ map (\<lambda>d. 48 + d) ds @ drop (idx + length ds) a"

lemma length_ascii_put [simp]: "idx + length ds \<le> length a \<Longrightarrow> length (ascii_put idx a ds) = length a"
  by (simp add: ascii_put_def)

lemma ascii_put_Nil [simp]: "ascii_put idx a [] = a"
  by (simp add: ascii_put_def)

lemma ascii_put_put:
  "idx + length xs \<le> length a \<Longrightarrow>
   ascii_put (idx + length xs) (ascii_put idx a xs) ys = ascii_put idx a (xs @ ys)"
  by (cases xs) (auto simp: ascii_put_def min_def ac_simps)

lemma put_digit:
  "idx < length a \<Longrightarrow> iso_put_digit d idx a
   = Some (idx + length (filter (\<lambda>d. d \<le> 9) [d]), ascii_put idx a (filter (\<lambda>d. d \<le> 9) [d]))"
  by (simp add: iso_put_digit_def mem_store_def ascii_put_def upd_conv_take_nth_drop)

lemma bcd_loop_digits:
  assumes "\<forall>i \<in> set is. i < length b" and "lim \<le> length a" and "idx \<le> lim"
  shows "iso_bcd_loop b lim is idx a
    = (let ds = take (lim - idx) (bcd_digits (map ((!) b) is)) in Some (idx + length ds, ascii_put idx a ds))"
  using assms
proof (induction "is" arbitrary: idx a)
  case Nil
  then show ?case by (simp add: bcd_digits_def)
next
  case (Cons i "is")
  show ?case
  proof (cases "idx < lim")
    case False
    then show ?thesis using Cons.prems by simp
  next
    case True
    define d1 where "d1 = filter (\<lambda>d. d \<le> 9) [b ! i AND 0x0F]"
    define d2 where "d2 = filter (\<lambda>d. d \<le> 9) [drop_bit 4 (b ! i) AND 0x0F]"
    let ?a1 = "ascii_put idx a d1" and ?i1 = "idx + length d1"
    let ?rest = "bcd_digits (map ((!) b) is)"
    have all: "bcd_digits (map ((!) b) (i # is)) = d1 @ d2 @ ?rest"
      by (simp add: bcd_digits_def d1_def d2_def)
    have ld: "mem_load b i = Some (b ! i)" using Cons.prems(1) by (simp add: mem_load_def)
    have p1: "iso_put_digit (b ! i AND 0x0F) idx a = Some (?i1, ?a1)"
      using put_digit [of idx a "b ! i AND 0x0F"] True Cons.prems(2) unfolding d1_def by linarith
    have l1: "length d1 \<le> 1" "length d2 \<le> 1" by (simp_all add: d1_def d2_def)
    have i1: "?i1 \<le> lim" using True l1(1) by linarith
    show ?thesis
    proof (cases "?i1 < lim")
      case False
      then have "lim - idx = length d1" using i1 by linarith
      then have "take (lim - idx) (d1 @ d2 @ ?rest) = d1" by (simp only: take_append take_all diff_self_eq_0 take_0 order_refl) simp
      then show ?thesis using True False ld p1 unfolding all by (simp only: iso_bcd_loop.simps if_True Option.bind.bind_lunit prod.case not_less Let_def)
    next
      case lt: True
      let ?a2 = "ascii_put ?i1 ?a1 d2" and ?i2 = "?i1 + length d2"
      have la: "length ?a1 = length a" using i1 Cons.prems(2) by (intro length_ascii_put) linarith
      have p2: "iso_put_digit (drop_bit 4 (b ! i) AND 0x0F) ?i1 ?a1 = Some (?i2, ?a2)"
        using put_digit [of ?i1 ?a1 "drop_bit 4 (b ! i) AND 0x0F"] lt la Cons.prems(2)
        unfolding d2_def by linarith
      have i2: "?i2 \<le> lim" using lt l1(2) by linarith
      have la2: "length ?a2 = length a" using i2 la Cons.prems(2) by (subst length_ascii_put) linarith+
      have a2: "?a2 = ascii_put idx a (d1 @ d2)"
        using i1 Cons.prems(2) by (intro ascii_put_put) linarith
      let ?ds = "take (lim - ?i2) ?rest"
      have ih: "iso_bcd_loop b lim is ?i2 ?a2 = Some (?i2 + length ?ds, ascii_put ?i2 ?a2 ?ds)"
        using Cons.IH [of ?a2 ?i2] Cons.prems(1,2) la2 i2 by (simp only: Let_def) simp
      have step: "iso_bcd_loop b lim (i # is) idx a = iso_bcd_loop b lim is ?i2 ?a2"
      proof -
        have "\<not> lim \<le> ?i1" using lt by linarith
        then show ?thesis using True ld p1 p2
          by (simp only: iso_bcd_loop.simps if_True if_False Option.bind.bind_lunit prod.case)
      qed
      have tk: "take (lim - idx) (d1 @ d2 @ ?rest) = (d1 @ d2) @ ?ds"
      proof -
        have "length (d1 @ d2) \<le> lim - idx" "lim - idx - length (d1 @ d2) = lim - ?i2" using i2 by simp_all
        moreover have "take (lim - idx) ((d1 @ d2) @ ?rest)
            = take (lim - idx) (d1 @ d2) @ take (lim - idx - length (d1 @ d2)) ?rest" by (rule take_append)
        ultimately show ?thesis by (simp only: append_assoc take_all)
      qed
      have put: "ascii_put ?i2 ?a2 ?ds = ascii_put idx a ((d1 @ d2) @ ?ds)"
      proof -
        have "idx + length (d1 @ d2) \<le> length a" using i2 Cons.prems(2) by simp
        from ascii_put_put [OF this, of ?ds] show ?thesis by (simp only: a2 length_append add.assoc)
      qed
      show ?thesis unfolding step ih all Let_def tk put by simp
    qed
  qed
qed

text \<open>Digits as the card stores them: two per byte, low nibble first, filled up with F.\<close>

fun bcd_pack :: "u8 list \<Rightarrow> u8 list" where
  "bcd_pack [] = []"
| "bcd_pack [d] = [d OR 0xF0]"
| "bcd_pack (d # e # ds) = (d OR push_bit 4 e) # bcd_pack ds"

lemma digit_nibbles:
  assumes "(d :: u8) \<le> 9" and "(e :: u8) \<le> 15"
  shows "(d OR push_bit 4 e) AND 0x0F = d" and "drop_bit 4 (d OR push_bit 4 e) AND 0x0F = e"
proof -
  have "unat d < 10" "unat e < 16" using assms by (simp_all add: word_le_nat_alt)
  then have "d \<in> of_nat ` set [0..<10]" "e \<in> of_nat ` set [0..<16]"
    by (intro image_eqI [of d _ "unat d"] image_eqI [of e _ "unat e"]; simp)+
  then show "(d OR push_bit 4 e) AND 0x0F = d" and "drop_bit 4 (d OR push_bit 4 e) AND 0x0F = e"
    by (auto simp: upt_rec)
qed

lemma bcd_digits_pack:
  "\<forall>d \<in> set ds. d \<le> 9 \<Longrightarrow> bcd_digits (bcd_pack ds) = ds"
proof (induction ds rule: bcd_pack.induct)
  case 1
  then show ?case by (simp add: bcd_digits_def)
next
  case (2 d)
  have "push_bit 4 (0x0F :: u8) = 0xF0" by simp
  then have "(d OR 0xF0) AND 0x0F = d" "drop_bit 4 (d OR 0xF0) AND 0x0F = 0x0F"
    using digit_nibbles [of d "0x0F"] 2 by simp_all
  then show ?case using 2 by (simp add: bcd_digits_def)
next
  case (3 d e ds)
  have "e \<le> 15" using 3(2) by (auto intro: order_trans [of e 9])
  then show ?case
    using 3 digit_nibbles [of d e] by (simp add: bcd_digits_def)
qed

subsection \<open>Properties\<close>

text \<open>
  C12. Reset. Over a line that delivers a well-formed answer of at most 33 bytes,
  \<open>xy_iso7816_reset\<close> reads exactly that answer, stores it byte for byte, zero padded and with its
  length, marks it valid and copies it into the handle. The protocol it reports is the low nibble
  of the last TD; when the answer has no TD, however, it is the number of historical bytes.
\<close>

theorem iso_reset_stores_atr:
  assumes "uart_line hal (ih_uart h) rx tx" and "ih_initialized h" and "ts = 0x3B \<or> ts = 0x3F"
    and "length hist < 16" and "atr_low_nibbles rest"
    and "length (atr_bytes ts g rest hist tck) \<le> 33"
    and "rx (hal_flush hal (ih_uart h) u) = atr_bytes ts g rest hist tck @ r"
  shows "\<exists>u' a. xy_iso7816_reset hal (Some h) (Some a0) u
        = Some (XY_ISO7816_OK, Some (h\<lparr>ih_atr := a\<rparr>), Some a, u')
    \<and> rx u' = r \<and> at_valid a
    \<and> at_data a = atr_bytes ts g rest hist tck @ replicate (33 - length (atr_bytes ts g rest hist tck)) 0
    \<and> unat (at_length a) = length (atr_bytes ts g rest hist tck)
    \<and> at_protocol a = (if rest = [] then of_nat (length hist) else fst (last rest))"
proof -
  have "unat (of_nat (length (atr_bytes ts g rest hist tck)) :: u8) = length (atr_bytes ts g rest hist tck)"
    using assms(6) by (intro unat_of_nat_u8) linarith
  then show ?thesis
    using atr_reset_line [OF assms, of a0] unfolding Let_def
    by (elim exE conjE, intro exI conjI) (assumption | simp)+
qed

text \<open>
  A card without TD bytes, hence protocol T=0, and with two historical bytes: protocol 2 is reported.
\<close>

definition demo_handle :: iso_handle where
  "demo_handle = \<lparr>ih_uart = 1, ih_atr = iso_atr_zero, ih_initialized = True, ih_timeout = 1000\<rparr>"

theorem iso_reset_stores_atr_witness:
  "\<exists>h a u'. xy_iso7816_reset script_hal (Some demo_handle) (Some iso_atr_zero)
       ([0x3B, 0x12, 0x11, 0x4B, 0x4C], []) = Some (XY_ISO7816_OK, h, Some a, u')
     \<and> at_length a = 5 \<and> at_protocol a = 2"
proof -
  let ?b = "atr_bytes 0x3B (Some 0x11, None, None) [] [0x4B, 0x4C] 0"
  have b: "?b = [0x3B, 0x12, 0x11, 0x4B, 0x4C]" by (simp add: atr_bytes_def)
  have "length ?b \<le> 33" "fst (hal_flush script_hal (ih_uart demo_handle) ([0x3B, 0x12, 0x11, 0x4B, 0x4C], [])) = ?b @ []"
    by (simp_all add: b script_hal_def)
  moreover have "ih_initialized demo_handle" "atr_low_nibbles []" "length [0x4B, 0x4C :: u8] < 16"
    "(0x3B :: u8) = 0x3B \<or> (0x3B :: u8) = 0x3F" by (simp_all add: demo_handle_def atr_low_nibbles_def)
  ultimately obtain u' a where "xy_iso7816_reset script_hal (Some demo_handle) (Some iso_atr_zero)
       ([0x3B, 0x12, 0x11, 0x4B, 0x4C], []) = Some (XY_ISO7816_OK, Some (demo_handle\<lparr>ih_atr := a\<rparr>), Some a, u')"
    "unat (at_length a) = length ?b" "at_protocol a = of_nat (length [0x4B, 0x4C :: u8])"
    using iso_reset_stores_atr [OF script_line, of demo_handle "0x3B" "[0x4B, 0x4C]" "[]"
        "(Some 0x11, None, None)" 0 "([0x3B, 0x12, 0x11, 0x4B, 0x4C], [])" "[]" iso_atr_zero] by auto
  moreover have "at_length a = of_nat (unat (at_length a))" by simp
  ultimately show ?thesis by (simp only: b) auto
qed

text \<open>
  Overflow. A card whose answer to reset announces four more bytes in every group drives
  \<open>xy_iso7816_reset\<close> past the end of the 33-byte array: the length is checked only before a group,
  so the fourth byte of the group at 30 is written to index 33, a write outside the object.
\<close>

theorem iso_reset_overruns:
  assumes "uart_line hal (ih_uart h) rx tx" and "ih_initialized h" and "ts = 0x3B \<or> ts = 0x3F"
    and "rx (hal_flush hal (ih_uart h) u) = ts # replicate 33 0xFF @ r"
  shows "xy_iso7816_reset hal (Some h) (Some a0) u = None"
proof -
  note line = assms(1)
  have rx0: "rx (hal_flush hal (ih_uart h) u) = ts # (0xFF # (replicate 32 0xFF @ r))"
    using assms(4) replicate_Suc [of 32 "0xFF :: u8"] by simp
  obtain u1 where u1: "xy_iso7816_recv_byte hal h 0 (hal_flush hal (ih_uart h) u) = (XY_ISO7816_OK, ts, u1)"
    "rx u1 = 0xFF # (replicate 32 0xFF @ r)"
    using line_recv [OF line rx0] by blast
  obtain u2 where u2: "xy_iso7816_recv_byte hal h 0 u1 = (XY_ISO7816_OK, 0xFF, u2)"
    "rx u2 = replicate 32 0xFF @ r"
    using line_recv [OF line u1(2)] by blast
  have "iso_atr_loop hal h (atr_with [ts, 0xFF]) 0xFF u2 = None"
    by (rule atr_endless [OF line u2(2), of _ 7]) simp_all
  moreover have "(iso_atr_zero\<lparr>at_data := (at_data iso_atr_zero)[0 := ts], at_length := 1\<rparr>)
      \<lparr>at_data := (at_data (iso_atr_zero\<lparr>at_data := (at_data iso_atr_zero)[0 := ts], at_length := 1\<rparr>))
        [1 := 0xFF], at_length := 2\<rparr> = atr_with [ts, 0xFF]"
    by (simp add: iso_atr_zero_def atr_with_def XY_ISO7816_ATR_MAX_LEN_def numeral_eq_Suc)
  ultimately show ?thesis
    unfolding xy_iso7816_reset_def using assms(2,3) u1(1) u2(1)
    by (simp only: option.case prod.case Let_def refl simp_thms if_False if_True) simp
qed

theorem iso_reset_overruns_witness:
  "xy_iso7816_reset script_hal (Some demo_handle) (Some iso_atr_zero) (0x3B # replicate 33 0xFF, []) = None"
proof -
  have "fst (hal_flush script_hal (ih_uart demo_handle) (0x3B # replicate 33 0xFF, []))
      = 0x3B # replicate 33 0xFF @ []"
    unfolding script_hal_def by (simp del: replicate.simps)
  moreover have "ih_initialized demo_handle" by (simp add: demo_handle_def)
  ultimately show ?thesis using iso_reset_overruns [OF script_line] by blast
qed

text \<open>
  Chained responses. Over a line on which the card acknowledges the command and answers in
  pieces, each but the last announced by status 61xx, \<open>xy_iso7816_transceive\<close> fetches every piece
  with one GET RESPONSE and returns their concatenation, cut at 256 bytes, with the status of the
  last. What it sends is exactly the header with \<open>lc\<close> as fifth byte, the \<open>lc\<close> data bytes, and the
  GET RESPONSE headers, whose fifth byte is 0: the expected length \<open>le\<close> is never sent.
\<close>

theorem iso_transceive_chain:
  assumes "uart_line hal (ih_uart h) rx tx" and "ih_initialized h" and "length (cm_data cmd) = 256"
    and "rx u = card_script (cm_ins cmd) (d # ds) s1 s2 @ r" and "length d = unat (cm_le cmd)"
    and "\<forall>x \<in> set ds. length x < 256" and "s1 \<noteq> 0x61"
  shows "\<exists>resp u'. xy_iso7816_transceive hal (Some h) (Some cmd) (Some resp0) u
        = Some (XY_ISO7816_OK, Some resp, u')
    \<and> take (unat (rs_length resp)) (rs_data resp) = take 256 (concat (d # ds))
    \<and> unat (rs_length resp) = min 256 (length (concat (d # ds)))
    \<and> rs_sw1 resp = s1 \<and> rs_sw2 resp = s2
    \<and> rx u' = r \<and> tx u' = tx u @ reader_script cmd (d # ds)"
proof -
  let ?all = "take 256 (concat (d # ds))"
  obtain u' where u': "iso_transceive hal h cmd u
      = Some (XY_ISO7816_OK, (resp_with ?all)\<lparr>rs_sw1 := s1, rs_sw2 := s2\<rparr>, u')"
    "rx u' = r" "tx u' = tx u @ reader_script cmd (d # ds)"
    using transceive_chain [OF assms(1,3-7)] by blast
  have len: "unat (rs_length (resp_with ?all)) = length ?all" by (rule resp_with_length) simp
  have dat: "take (length ?all) (rs_data (resp_with ?all)) = ?all"
    by (simp only: resp_with_def iso_resp.simps take_append take_all diff_self_eq_0 take_0 append_Nil2 order_refl)
  have min: "length ?all = min 256 (length (concat (d # ds)))" by (simp only: length_take min.commute)
  have "xy_iso7816_transceive hal (Some h) (Some cmd) (Some resp0) u
      = Some (XY_ISO7816_OK, Some ((resp_with ?all)\<lparr>rs_sw1 := s1, rs_sw2 := s2\<rparr>), u')"
    using assms(2) u'(1) by (simp only: xy_iso7816_transceive_def option.case prod.case option.map if_False simp_thms)
  moreover have "rs_length ((resp_with ?all)\<lparr>rs_sw1 := s1, rs_sw2 := s2\<rparr>) = rs_length (resp_with ?all)"
    "rs_data ((resp_with ?all)\<lparr>rs_sw1 := s1, rs_sw2 := s2\<rparr>) = rs_data (resp_with ?all)"
    "rs_sw1 ((resp_with ?all)\<lparr>rs_sw1 := s1, rs_sw2 := s2\<rparr>) = s1"
    "rs_sw2 ((resp_with ?all)\<lparr>rs_sw1 := s1, rs_sw2 := s2\<rparr>) = s2" by simp_all
  ultimately show ?thesis using u'(2,3) len dat min
    by (intro exI [of _ "(resp_with ?all)\<lparr>rs_sw1 := s1, rs_sw2 := s2\<rparr>"] exI [of _ u']) (simp only: simp_thms)
qed

text \<open>READ BINARY of two bytes, of which the card returns a third after 6101.\<close>

theorem iso_transceive_chain_witness:
  "\<exists>resp u'. xy_iso7816_transceive script_hal (Some demo_handle) (Some (iso_read_cmd 0 2)) (Some iso_resp_zero)
        ([0xB0, 7, 8, 0x61, 1, 0xC0, 9, 0x90, 0], []) = Some (XY_ISO7816_OK, Some resp, u')
    \<and> take (unat (rs_length resp)) (rs_data resp) = [7, 8, 9]
    \<and> snd u' = [0xA0, 0xB0, 0, 0, 0, 0xA0, 0xC0, 0, 0, 0]"
proof -
  have "length (cm_data (iso_read_cmd 0 2)) = 256" by (simp add: iso_read_cmd_def iso_cmd_zero_def)
  moreover have "fst ([0xB0, 7, 8, 0x61, 1, 0xC0, 9, 0x90, 0], [])
      = card_script (cm_ins (iso_read_cmd 0 2)) [[7, 8], [9]] 0x90 0 @ []"
    by (simp add: iso_read_cmd_def)
  moreover have "length [7, 8 :: u8] = unat (cm_le (iso_read_cmd 0 2))" by (simp add: iso_read_cmd_def)
  moreover have "ih_initialized demo_handle" "\<forall>x \<in> set [[9 :: u8]]. length x < 256" "(0x90 :: u8) \<noteq> 0x61"
    by (simp_all add: demo_handle_def)
  ultimately obtain resp u' where "xy_iso7816_transceive script_hal (Some demo_handle) (Some (iso_read_cmd 0 2))
        (Some iso_resp_zero) ([0xB0, 7, 8, 0x61, 1, 0xC0, 9, 0x90, 0], []) = Some (XY_ISO7816_OK, Some resp, u')"
    "take (unat (rs_length resp)) (rs_data resp) = take 256 (concat [[7, 8], [9]])"
    "snd u' = snd ([0xB0, 7, 8, 0x61, 1, 0xC0, 9, 0x90, 0] :: u8 list, []) @ reader_script (iso_read_cmd 0 2) [[7, 8], [9]]"
    using iso_transceive_chain [OF script_line, of demo_handle "iso_read_cmd 0 2"
        "([0xB0, 7, 8, 0x61, 1, 0xC0, 9, 0x90, 0], [])" "[7, 8]" "[[9]]" "0x90" 0 "[]" iso_resp_zero] by blast
  moreover have "reader_script (iso_read_cmd 0 2) [[7, 8], [9]] = [0xA0, 0xB0, 0, 0, 0, 0xA0, 0xC0, 0, 0, 0]"
    by (simp add: iso_read_cmd_def iso_cmd_zero_def)
  ultimately show ?thesis by auto
qed

text \<open>
  PIN verification. A PIN of at least four characters is sent as VERIFY CHV1 with exactly its
  first eight characters, filled up with FF (so a longer PIN is cut, not refused); the result is OK
  exactly for status 9000, and the number of remaining tries is stored from status 63Cx. A
  shorter PIN is refused and nothing is sent.
\<close>

theorem iso_verify_pin_frame:
  assumes "uart_line hal (ih_uart h) rx tx" and "ih_initialized h" and "0 \<notin> set cs"
    and "4 \<le> length cs \<Longrightarrow> rx u = [0x20, s1, s2] @ r" and "s1 \<noteq> 0x61"
  shows "if length cs < 4
    then xy_iso7816_verify_pin hal (Some h) (Some (cs @ 0 # rest)) tries u
         = Some (XY_ISO7816_ERROR_INVALID_PARAM, tries, u)
    else (\<exists>u'. xy_iso7816_verify_pin hal (Some h) (Some (cs @ 0 # rest)) tries u
         = Some (if s1 = 0x90 \<and> s2 = 0 then (XY_ISO7816_OK, map_option (\<lambda>_. 0) tries, u')
                 else (XY_ISO7816_ERROR_CARD,
                   (if s1 = 0x63 \<and> s2 AND 0xF0 = 0xC0 then map_option (\<lambda>_. s2 AND 0x0F) tries else tries), u'))
       \<and> rx u' = r
       \<and> tx u' = tx u @ [0xA0, 0x20, 0, 1, 8] @ take 8 (cs @ replicate 8 0xFF))"
proof (cases "length cs < 4")
  case True
  have "iso_pin_len (cs @ 0 # rest) 0 = Some (length cs)"
    using pin_len_string [OF assms(3), of 0 rest] True by (simp add: min_def)
  then show ?thesis using True assms(2) by (simp add: xy_iso7816_verify_pin_def)
next
  case False
  define n where "n = min 8 (length cs)"
  let ?c = "iso_pin_cmd (cs @ 0 # rest) n"
  have pl: "iso_pin_len (cs @ 0 # rest) 0 = Some n" using pin_len_string [OF assms(3), of 0 rest] by (simp add: n_def)
  have n: "\<not> (n < 4 \<or> n > 8)" using False by (simp add: n_def)
  have c: "cm_cla ?c = 0xA0" "cm_ins ?c = 0x20" "cm_p1 ?c = 0" "cm_p2 ?c = 1" "cm_lc ?c = 8" "cm_le ?c = 0"
    "cm_data ?c = take 8 (cs @ replicate 8 0xFF) @ replicate 248 0"
    by (simp_all only: iso_pin_cmd_def iso_cmd.simps n_def pin_field) simp_all
  have d: "length (cm_data ?c) = 256" unfolding c by simp
  have "rx u = card_script (cm_ins ?c) [[]] s1 s2 @ r" using assms(4) False by (simp add: c)
  moreover have "length [] = unat (cm_le ?c)" by (simp add: c)
  ultimately obtain u' where u': "iso_transceive hal h ?c u
      = Some (XY_ISO7816_OK, (resp_with [])\<lparr>rs_sw1 := s1, rs_sw2 := s2\<rparr>, u')"
    "rx u' = r" "tx u' = tx u @ reader_script ?c [[]]"
    using transceive_chain [OF assms(1) d, of u "[]" "[]" s1 s2 r] assms(5) by auto
  have "reader_script ?c [[]] = [0xA0, 0x20, 0, 1, 8] @ take 8 (cs @ replicate 8 0xFF)"
    by (simp add: c)
  with u'(3) have tx: "tx u' = tx u @ [0xA0, 0x20, 0, 1, 8] @ take 8 (cs @ replicate 8 0xFF)" by (simp only:)
  show ?thesis using False assms(2) pl n u'(1,2) tx
    by (simp add: xy_iso7816_verify_pin_def xy_iso7816_is_success_def)
qed

text \<open>PIN 1234, refused by the card with two tries left.\<close>

theorem iso_verify_pin_frame_witness:
  "\<exists>u'. xy_iso7816_verify_pin script_hal (Some demo_handle) (Some [0x31, 0x32, 0x33, 0x34, 0]) (Some 9)
       ([0x20, 0x63, 0xC2], []) = Some (XY_ISO7816_ERROR_CARD, Some 2, u')
     \<and> snd u' = [0xA0, 0x20, 0, 1, 8, 0x31, 0x32, 0x33, 0x34, 0xFF, 0xFF, 0xFF, 0xFF]"
proof -
  have "ih_initialized demo_handle" "0 \<notin> set [0x31, 0x32, 0x33, 0x34 :: u8]" "(0x63 :: u8) \<noteq> 0x61"
    "fst ([0x20, 0x63, 0xC2], [] :: u8 list) = [0x20, 0x63, 0xC2] @ ([] :: u8 list)" by (simp_all add: demo_handle_def)
  moreover have rep: "replicate 4 (0xFF :: u8) = [0xFF, 0xFF, 0xFF, 0xFF]" by (simp add: numeral_eq_Suc)
  ultimately show ?thesis
    using iso_verify_pin_frame [OF script_line, of demo_handle "[0x31, 0x32, 0x33, 0x34]"
        "([0x20, 0x63, 0xC2], [])" "0x63" "0xC2" "[]" "[]" "Some 9"] rep
    by simp
qed

text \<open>
  Packed digits to text. Whatever the bytes, \<open>xy_iso7816_bcd_to_ascii\<close> writes the decimal digits
  in them, low nibble first, to the buffer as characters, at most \<open>ascii_len - 1\<close> of them, ends the
  text with a zero byte, leaves the rest of the buffer alone and returns the number of digits
  written; it never writes outside a buffer of \<open>ascii_len\<close> bytes.
\<close>

theorem iso_bcd_to_ascii_digits:
  assumes "unat bcd_len \<le> length bcd" and "unat ascii_len \<le> length ascii" and "ascii_len \<noteq> 0"
  shows "xy_iso7816_bcd_to_ascii (Some bcd) bcd_len (Some ascii) ascii_len
    = (let ds = take (unat ascii_len - 1) (bcd_digits (take (unat bcd_len) bcd))
       in Some (of_nat (length ds),
            Some (map (\<lambda>d. 48 + d) ds @ [0] @ drop (length ds + 1) ascii)))"
proof -
  let ?lim = "unat ascii_len - 1"
  define ds where "ds = take ?lim (bcd_digits (take (unat bcd_len) bcd))"
  have pos: "0 < unat ascii_len" using assms(3) by (simp add: unat_gt_0)
  have m: "map ((!) bcd) [0..<unat bcd_len] = take (unat bcd_len) bcd"
    using assms(1) by (intro nth_equalityI) simp_all
  have loop: "iso_bcd_loop bcd ?lim [0..<unat bcd_len] 0 ascii = Some (length ds, ascii_put 0 ascii ds)"
    using bcd_loop_digits [of "[0..<unat bcd_len]" bcd ?lim ascii 0] assms(1,2) pos
    by (simp add: ds_def m Let_def)
  have ld: "length ds < length ascii" using assms(2) pos by (simp add: ds_def)
  have "mem_store (ascii_put 0 ascii ds) (length ds) 0
      = Some (map (\<lambda>d. 48 + d) ds @ [0] @ drop (length ds + 1) ascii)"
    using ld by (simp add: mem_store_def ascii_put_def list_update_append Cons_nth_drop_Suc [symmetric])
  then show ?thesis
    unfolding Let_def ds_def [symmetric] using loop assms(3) by (simp add: xy_iso7816_bcd_to_ascii_def)
qed

text \<open>The digits of a number stored by \<open>bcd_pack\<close>, here 89860, come back as its text.\<close>

theorem iso_bcd_to_ascii_digits_witness:
  "xy_iso7816_bcd_to_ascii (Some (bcd_pack [8, 9, 8, 6, 0])) 3 (Some (replicate 8 1)) 8
   = Some (5, Some [0x38, 0x39, 0x38, 0x36, 0x30, 0, 1, 1])"
proof -
  have p: "bcd_digits (bcd_pack [8, 9, 8, 6, 0]) = [8, 9, 8, 6, 0]" by (rule bcd_digits_pack) simp
  have r: "replicate 2 (1 :: u8) = [1, 1]" by (simp add: numeral_eq_Suc)
  have "unat (3 :: u8) \<le> length (bcd_pack [8, 9, 8, 6, 0])" "unat (8 :: u8) \<le> length (replicate 8 (1 :: u8))"
    "(8 :: u8) \<noteq> 0" by simp_all
  from iso_bcd_to_ascii_digits [OF this] show ?thesis
    using p r by simp
qed

end
