(* ===== verification/Xy_Common.thy ===== *)
theory Xy_Common
  imports Xy_Prelude
begin

text \<open>
  The arithmetic helpers of \<open>components/clib/xy_clib/xy_common.c\<close>. \<open>xy_config.h\<close> always defines
  \<open>XY_USE_SOFT_DIV\<close> (to 0 or 1) and the code tests it with \<open>#ifdef\<close>, so the branches
  without division are the ones that are compiled; they are the ones modelled.

  A left shift of the promoted \<open>int\<close> is taken bit by bit, as the supported compilers define it;
  a shift by 32 or more is undefined.
\<close>

subsection \<open>Division and remainder by ten\<close>

definition xy_u64_div10 :: "u64 \<Rightarrow> u64" where
  "xy_u64_div10 u64val =
     (if drop_bit 32 u64val \<noteq> 0 then
        (let q0 = drop_bit 1 u64val + drop_bit 2 u64val;
             q1 = q0 + drop_bit 4 q0;
             q2 = q1 + drop_bit 8 q1;
             q3 = q2 + drop_bit 16 q2;
             q4 = q3 + drop_bit 32 q3;
             q64 = drop_bit 3 q4;
             r64 = u64val - q64 * 10
         in q64 + drop_bit 4 (r64 + 6))
      else
        (let u32val = (ucast (u64val AND 0xffffffff) :: u32);
             q0 = drop_bit 1 u32val + drop_bit 2 u32val;
             q1 = q0 + drop_bit 4 q0;
             q2 = q1 + drop_bit 8 q1;
             q3 = q2 + drop_bit 16 q2;
             q32 = drop_bit 3 q3;
             r32 = u32val - q32 * 10
         in ucast (q32 + drop_bit 4 (r32 + 6))))"

definition xy_u32_div10 :: "u32 \<Rightarrow> u32" where
  "xy_u32_div10 u32val =
     (let q0 = drop_bit 1 u32val + drop_bit 2 u32val;
          q1 = q0 + drop_bit 4 q0;
          q2 = q1 + drop_bit 8 q1;
          q3 = q2 + drop_bit 16 q2;
          q32 = drop_bit 3 q3;
          r32 = u32val - q32 * 10
      in q32 + drop_bit 4 (r32 + 6))"

text \<open>The differences are computed in \<open>int\<close> and converted to the return type.\<close>

definition xy_u8_mod10 :: "u8 \<Rightarrow> u8" where
  "xy_u8_mod10 val =
     (let quotient = (of_int (drop_bit 11 (uint val * 205)) :: u8) in
      of_int (uint val - 10 * uint quotient))"

definition xy_u16_mod10 :: "u16 \<Rightarrow> u16" where
  "xy_u16_mod10 val =
     (let product = (ucast val :: u32) * 0xCCCD;
          quotient = (ucast (drop_bit 19 product) :: u16)
      in of_int (uint val - 10 * uint quotient))"

definition xy_u32_mod10 :: "u32 \<Rightarrow> u32" where
  "xy_u32_mod10 val =
     (let quotient = (ucast (drop_bit 35 ((ucast val :: u64) * 0xCCCCCCCD)) :: u32) in
      val - 10 * quotient)"

subsection \<open>Packed decimal\<close>

definition shift_digit :: "u8 \<Rightarrow> nat \<Rightarrow> u32 option" where
  "shift_digit digit shift = (if shift < 32 then Some (push_bit shift (ucast digit)) else None)"

function hex2bcd_loop :: "u32 \<Rightarrow> u32 \<Rightarrow> nat \<Rightarrow> u32 option" where
  "hex2bcd_loop hex bcd shift =
     (if hex > 0 then
        (let digit = (ucast (hex AND 0xF) :: u8) in
         if digit > 9 then Some 0
         else do {
           d \<leftarrow> shift_digit digit shift;
           hex2bcd_loop (drop_bit 4 hex) (bcd OR d) (shift + 4) })
      else Some bcd)"
  by pat_completeness auto

definition xy_hex2bcd :: "u32 \<Rightarrow> u32 option" where
  "xy_hex2bcd hex = hex2bcd_loop hex 0 0"

function bcd2hex_loop :: "u32 \<Rightarrow> u32 \<Rightarrow> u32 \<Rightarrow> u32" where
  "bcd2hex_loop bcd result multiplier =
     (if bcd > 0 then
        (let digit = (ucast (bcd AND 0x0F) :: u8) in
         if digit > 9 then 0
         else bcd2hex_loop (drop_bit 4 bcd) (result + ucast digit * multiplier) (multiplier * 10))
      else result)"
  by pat_completeness auto

definition xy_bcd2hex :: "u32 \<Rightarrow> u32" where
  "xy_bcd2hex bcd = bcd2hex_loop bcd 0 1"

lemma drop_bit_4_less: "(w :: u32) > 0 \<Longrightarrow> unat (drop_bit 4 w) < unat w"
proof -
  assume "w > 0"
  then have "0 < unat w" by (simp add: word_greater_zero_iff unat_gt_0)
  then have "unat w div 16 < unat w" by simp
  moreover have "unat (drop_bit 4 w) = unat w div 16" by (subst unat_drop_bit_eq) (simp add: drop_bit_eq_div)
  ultimately show ?thesis by simp
qed

termination hex2bcd_loop
  by (relation "measure (\<lambda>(h, b, s). unat h)") (simp_all add: drop_bit_4_less)

termination bcd2hex_loop
  by (relation "measure (\<lambda>(b, r, m). unat b)") (simp_all add: drop_bit_4_less)

text \<open>The text of \<open>xy_bcd2dec\<close> is that of \<open>xy_bcd2hex\<close> with other names.\<close>

definition xy_bcd2dec :: "u32 \<Rightarrow> u32" where
  "xy_bcd2dec bcd = bcd2hex_loop bcd 0 1"

subsection \<open>The division is exact\<close>

lemma div_bounds:
  fixes x :: nat
  shows "numeral k * (x div numeral k) \<le> x" and "x + 1 \<le> numeral k * (x div numeral k) + numeral k"
proof -
  have "x mod numeral k < numeral k" by simp
  moreover have "x = numeral k * (x div numeral k) + x mod numeral k" by simp
  ultimately show "numeral k * (x div numeral k) \<le> x" "x + 1 \<le> numeral k * (x div numeral k) + numeral k"
    by linarith+
qed

lemmas div_by2 = div_bounds [where k = "Num.Bit0 (Num.One)"]
lemmas div_by4 = div_bounds [where k = "Num.Bit0 (Num.Bit0 (Num.One))"]
lemmas div_by8 = div_bounds [where k = "Num.Bit0 (Num.Bit0 (Num.Bit0 (Num.One)))"]
lemmas div_by16 = div_bounds [where k = "Num.Bit0 (Num.Bit0 (Num.Bit0 (Num.Bit0 (Num.One))))"]
lemmas div_by256 = div_bounds [where k = "Num.Bit0 (Num.Bit0 (Num.Bit0 (Num.Bit0 (Num.Bit0 (Num.Bit0 (Num.Bit0 (Num.Bit0 (Num.One))))))))"]
lemmas div_by65536 = div_bounds [where k = "Num.Bit0 (Num.Bit0 (Num.Bit0 (Num.Bit0 (Num.Bit0 (Num.Bit0 (Num.Bit0 (Num.Bit0 (Num.Bit0 (Num.Bit0 (Num.Bit0 (Num.Bit0 (Num.Bit0 (Num.Bit0 (Num.Bit0 (Num.Bit0 (Num.One))))))))))))))))"]
lemmas div_by4294967296 = div_bounds [where k = "Num.Bit0 (Num.Bit0 (Num.Bit0 (Num.Bit0 (Num.Bit0 (Num.Bit0 (Num.Bit0 (Num.Bit0 (Num.Bit0 (Num.Bit0 (Num.Bit0 (Num.Bit0 (Num.Bit0 (Num.Bit0 (Num.Bit0 (Num.Bit0 (Num.Bit0 (Num.Bit0 (Num.Bit0 (Num.Bit0 (Num.Bit0 (Num.Bit0 (Num.Bit0 (Num.Bit0 (Num.Bit0 (Num.Bit0 (Num.Bit0 (Num.Bit0 (Num.Bit0 (Num.Bit0 (Num.Bit0 (Num.Bit0 (Num.One))))))))))))))))))))))))))))))))"]

lemma div2_div4_bounds:
  fixes n :: nat
  shows "4 * (n div 2 + n div 4) \<le> 3 * n" and "3 * n \<le> 4 * (n div 2 + n div 4) + 5"
proof -
  obtain p s where ps: "n div 2 = p" "n div 4 = s" by blast
  have "2 * p \<le> n" "n + 1 \<le> 2 * p + 2" "4 * s \<le> n" "n + 1 \<le> 4 * s + 4"
    using div_by2 [of n] div_by4 [of n] unfolding ps .
  then show "4 * (n div 2 + n div 4) \<le> 3 * n" "3 * n \<le> 4 * (n div 2 + n div 4) + 5"
    unfolding ps distrib_left by linarith+
qed

text \<open>The quotient estimate \<open>q\<close> of the shift-and-add scheme is at most two below the quotient.\<close>

lemma soft_div10_32:
  fixes n :: nat
  assumes n: "n < 4294967296" and a: "a = n div 2 + n div 4" and b: "b = a + a div 16"
    and c: "c = b + b div 256" and d: "d = c + c div 65536" and q: "q = d div 8"
  shows "10 * q \<le> n" "n < 10 * q + 20" "d \<le> n"
proof -
  have A: "4 * a \<le> 3 * n" "3 * n \<le> 4 * a + 5"
    unfolding a by (rule div2_div4_bounds)+
  have B: "16 * b \<le> 17 * a" "17 * a \<le> 16 * b + 15"
    using div_by16 [of a] unfolding b distrib_left by linarith+
  have C: "256 * c \<le> 257 * b" "257 * b \<le> 256 * c + 255"
    using div_by256 [of b] unfolding c distrib_left by linarith+
  have D: "65536 * d \<le> 65537 * c" "65537 * c \<le> 65536 * d + 65535"
    using div_by65536 [of c] unfolding d distrib_left by linarith+
  have Q: "8 * q \<le> d" "d \<le> 8 * q + 7" using div_by8 [of d] unfolding q by linarith+
  show "10 * q \<le> n" "n < 10 * q + 20" "d \<le> n" using A B C D Q n by linarith+
qed

lemma soft_div10_64:
  fixes n :: nat
  assumes n: "n < 18446744073709551616" and a: "a = n div 2 + n div 4" and b: "b = a + a div 16"
    and c: "c = b + b div 256" and d: "d = c + c div 65536" and e: "e = d + d div 4294967296"
    and q: "q = e div 8"
  shows "10 * q \<le> n" "n < 10 * q + 20" "e \<le> n"
proof -
  have A: "4 * a \<le> 3 * n" "3 * n \<le> 4 * a + 5"
    unfolding a by (rule div2_div4_bounds)+
  have B: "16 * b \<le> 17 * a" "17 * a \<le> 16 * b + 15"
    using div_by16 [of a] unfolding b distrib_left by linarith+
  have C: "256 * c \<le> 257 * b" "257 * b \<le> 256 * c + 255"
    using div_by256 [of b] unfolding c distrib_left by linarith+
  have D: "65536 * d \<le> 65537 * c" "65537 * c \<le> 65536 * d + 65535"
    using div_by65536 [of c] unfolding d distrib_left by linarith+
  have E: "4294967296 * e \<le> 4294967297 * d" "4294967297 * d \<le> 4294967296 * e + 4294967295"
    using div_by4294967296 [of d] unfolding e distrib_left by linarith+
  have Q: "8 * q \<le> e" "e \<le> 8 * q + 7" using div_by8 [of e] unfolding q by linarith+
  show "10 * q \<le> n" "n < 10 * q + 20" "e \<le> n" using A B C D E Q n by linarith+
qed

text \<open>The correction by the remainder makes it exact.\<close>

lemma soft_div10_fix:
  "10 * q \<le> n \<Longrightarrow> n < 10 * q + 20 \<Longrightarrow> n div 10 = q + (n - q * 10 + 6) div 16" for n q :: nat
proof -
  assume "10 * q \<le> n" "n < 10 * q + 20"
  then obtain r where r: "n = 10 * q + r" "r < 20" by (metis le_iff_add nat_add_left_cancel_less)
  have "(r + 6) div 16 = r div 10"
  proof (cases "r < 10")
    case True
    then show ?thesis by simp
  next
    case False
    then have "r div 10 = 1" "(r + 6) div 16 = 1" using r(2) by (simp_all add: div_nat_eqI)
    then show ?thesis by simp
  qed
  then show ?thesis by (simp add: r(1))
qed

lemma unat_drop_div: "unat (drop_bit k (w :: 'a::len word)) = unat w div 2 ^ k"
  by (subst unat_drop_bit_eq) (simp only: drop_bit_eq_div)

lemma unat_add_drop:
  "unat x + unat y div 2 ^ k < 2 ^ LENGTH('a) \<Longrightarrow>
   unat (x + drop_bit k (y :: 'a::len word)) = unat x + unat y div 2 ^ k"
  by (subst unat_add_lem [THEN iffD1]) (simp_all only: unat_drop_div)

lemma unat_mult_small:
  "unat x * unat y < 2 ^ LENGTH('a) \<Longrightarrow> unat (x * y :: 'a::len word) = unat x * unat y"
  by (subst unat_mult_lem [THEN iffD1]) simp_all

text \<open>The last step, on words: a quotient estimate close enough gives the quotient.\<close>

lemma soft_div10_word:
  fixes n q :: "'a::len word"
  assumes lo: "10 * unat q \<le> unat n" and hi: "unat n < 10 * unat q + 20" and len: "5 \<le> LENGTH('a)"
  shows "unat (q + drop_bit 4 (n - q * 10 + 6)) = unat n div 10"
proof -
  have p: "(2 :: nat) ^ 5 \<le> 2 ^ LENGTH('a)" using len by (intro power_increasing) simp_all
  have small: "unat (of_nat k :: 'a word) = k" if "k < 32" for k
  proof -
    have "k < 2 ^ LENGTH('a)" using that p by simp
    then show ?thesis by (simp only: unat_of_nat mod_less)
  qed
  have ten: "unat (10 :: 'a word) = 10" "unat (6 :: 'a word) = 6"
    using small [of 10] small [of 6] by simp_all
  have nlt: "unat n < 2 ^ LENGTH('a)" by (rule unsigned_less)
  have "unat q * unat (10 :: 'a word) < 2 ^ LENGTH('a)" unfolding ten using lo nlt by linarith
  from unat_mult_small [OF this] have q10: "unat (q * 10) = unat q * 10" by (simp only: ten)
  have le: "q * 10 \<le> n" using lo q10 by (simp add: word_le_nat_alt)
  have sub: "unat (n - q * 10) = unat n - unat q * 10" using unat_sub [OF le] q10 by simp
  have "unat (n - q * 10) + unat (6 :: 'a word) < 2 ^ LENGTH('a)" unfolding sub ten
  proof -
    have "(32 :: nat) \<le> 2 ^ LENGTH('a)" using p by simp
    then show "unat n - unat q * 10 + 6 < 2 ^ LENGTH('a)" using hi by linarith
  qed
  from unat_add_no_wrap [OF this] have add: "unat (n - q * 10 + 6) = unat n - unat q * 10 + 6"
    by (simp only: sub ten)
  have eq: "unat n div 10 = unat q + (unat n - unat q * 10 + 6) div 16" by (rule soft_div10_fix [OF lo hi])
  have "unat q + unat (n - q * 10 + 6) div 2 ^ 4 < 2 ^ LENGTH('a)"
  proof -
    have "unat n div 10 \<le> unat n" by (rule div_le_dividend)
    moreover have "unat q + (unat n - unat q * 10 + 6) div 2 ^ 4 = unat n div 10" using eq by simp
    ultimately show ?thesis unfolding add using nlt by linarith
  qed
  from unat_add_drop [OF this] show ?thesis unfolding add eq by simp
qed

text \<open>The estimates of the two routines.\<close>

lemma soft_div10_u32:
  fixes n q0 q1 q2 q3 :: u32
  assumes q: "q0 = drop_bit 1 n + drop_bit 2 n" "q1 = q0 + drop_bit 4 q0" "q2 = q1 + drop_bit 8 q1"
    "q3 = q2 + drop_bit 16 q2"
  shows "10 * unat (drop_bit 3 q3) \<le> unat n" and "unat n < 10 * unat (drop_bit 3 q3) + 20"
proof -
  define N a b c d where "N = unat n" and "a = N div 2 + N div 4" and "b = a + a div 16"
    and "c = b + b div 256" and "d = c + c div 65536"
  have n: "N < 4294967296" by (simp add: N_def)
  note est = soft_div10_32 [OF n a_def b_def c_def d_def refl]
  have le: "a \<le> b" "b \<le> c" "c \<le> d" by (simp_all add: b_def c_def d_def)
  have "unat (drop_bit 1 n) + unat n div 2 ^ 2 < 2 ^ LENGTH(32)"
    using est(3) le n by (simp add: unat_drop_div N_def [symmetric] a_def [symmetric])
  from unat_add_drop [OF this] have q0: "unat q0 = a" by (simp add: q unat_drop_div N_def a_def)
  have "unat q0 + unat q0 div 2 ^ 4 < 2 ^ LENGTH(32)"
    using est(3) le n by (simp add: q0 b_def [symmetric])
  from unat_add_drop [OF this] have q1: "unat q1 = b" by (simp add: q(2) q0 b_def)
  have "unat q1 + unat q1 div 2 ^ 8 < 2 ^ LENGTH(32)"
    using est(3) le n by (simp add: q1 c_def [symmetric])
  from unat_add_drop [OF this] have q2: "unat q2 = c" by (simp add: q(3) q1 c_def)
  have "unat q2 + unat q2 div 2 ^ 16 < 2 ^ LENGTH(32)"
    using est(3) le n by (simp add: q2 d_def [symmetric])
  from unat_add_drop [OF this] have q3: "unat q3 = d" by (simp add: q(4) q2 d_def)
  show "10 * unat (drop_bit 3 q3) \<le> unat n" "unat n < 10 * unat (drop_bit 3 q3) + 20"
    using est(1,2) by (simp_all add: unat_drop_div q3 N_def)
qed

lemma soft_div10_u64:
  fixes n q0 q1 q2 q3 q4 :: u64
  assumes q: "q0 = drop_bit 1 n + drop_bit 2 n" "q1 = q0 + drop_bit 4 q0" "q2 = q1 + drop_bit 8 q1"
    "q3 = q2 + drop_bit 16 q2" "q4 = q3 + drop_bit 32 q3"
  shows "10 * unat (drop_bit 3 q4) \<le> unat n" and "unat n < 10 * unat (drop_bit 3 q4) + 20"
proof -
  define N a b c d e where "N = unat n" and "a = N div 2 + N div 4" and "b = a + a div 16"
    and "c = b + b div 256" and "d = c + c div 65536" and "e = d + d div 4294967296"
  have n: "N < 18446744073709551616" using unsigned_less [of n] by (simp add: N_def)
  note est = soft_div10_64 [OF n a_def b_def c_def d_def e_def refl]
  have le: "a \<le> b" "b \<le> c" "c \<le> d" "d \<le> e" by (simp_all add: b_def c_def d_def e_def)
  have "unat (drop_bit 1 n) + unat n div 2 ^ 2 < 2 ^ LENGTH(64)"
    using est(3) le n by (simp add: unat_drop_div N_def [symmetric] a_def [symmetric])
  from unat_add_drop [OF this] have q0: "unat q0 = a" by (simp add: q unat_drop_div N_def a_def)
  have "unat q0 + unat q0 div 2 ^ 4 < 2 ^ LENGTH(64)"
    using est(3) le n by (simp add: q0 b_def [symmetric])
  from unat_add_drop [OF this] have q1: "unat q1 = b" by (simp add: q(2) q0 b_def)
  have "unat q1 + unat q1 div 2 ^ 8 < 2 ^ LENGTH(64)"
    using est(3) le n by (simp add: q1 c_def [symmetric])
  from unat_add_drop [OF this] have q2: "unat q2 = c" by (simp add: q(3) q1 c_def)
  have "unat q2 + unat q2 div 2 ^ 16 < 2 ^ LENGTH(64)"
    using est(3) le n by (simp add: q2 d_def [symmetric])
  from unat_add_drop [OF this] have q3: "unat q3 = d" by (simp add: q(4) q2 d_def)
  have "unat q3 + unat q3 div 2 ^ 32 < 2 ^ LENGTH(64)"
    using est(3) le n by (simp add: q3 e_def [symmetric])
  from unat_add_drop [OF this] have q4: "unat q4 = e" by (simp add: q(5) q3 e_def)
  show "10 * unat (drop_bit 3 q4) \<le> unat n" "unat n < 10 * unat (drop_bit 3 q4) + 20"
    using est(1,2) by (simp_all add: unat_drop_div q4 N_def)
qed

lemma xy_u32_div10_exact: "unat (xy_u32_div10 n) = unat n div 10"
  unfolding xy_u32_div10_def Let_def by (rule soft_div10_word [OF soft_div10_u32 [OF refl refl refl refl]]) simp

lemma unat_ucast_u32_u64: "unat (ucast (w :: u32) :: u64) = unat w"
proof -
  have "unat w < 2 ^ 64" by (rule less_trans [OF unat_u32_less]) simp
  then show ?thesis by (simp add: unsigned_ucast_eq take_bit_eq_mod)
qed

lemma xy_u64_div10_exact: "unat (xy_u64_div10 n) = unat n div 10"
proof (cases "drop_bit 32 n = 0")
  case False
  then show ?thesis unfolding xy_u64_div10_def Let_def
    using soft_div10_word [OF soft_div10_u64 [OF refl refl refl refl refl], of n] by simp
next
  case True
  have "unat n div 4294967296 = 0" using arg_cong [OF True, of unat] unat_drop_div [of 32 n] by simp
  then have lt: "unat n < 4294967296" by simp
  let ?m = "ucast (n AND 0xffffffff) :: u32"
  have "n AND mask 32 = take_bit 32 n" by (simp add: take_bit_eq_mask)
  moreover have "mask 32 = (0xffffffff :: u64)" by (simp add: mask_numeral)
  ultimately have "unat (n AND 0xffffffff) = unat n"
    using lt by (simp add: unsigned_take_bit_eq take_bit_nat_eq_self)
  then have m: "unat ?m = unat n" using lt by (simp add: unsigned_ucast_eq take_bit_nat_eq_self)
  have "xy_u64_div10 n = ucast (xy_u32_div10 ?m)"
    using True by (simp add: xy_u64_div10_def xy_u32_div10_def Let_def)
  moreover have "unat (ucast (xy_u32_div10 ?m) :: u64) = unat (xy_u32_div10 ?m)"
    by (rule unat_ucast_u32_u64)
  ultimately show ?thesis by (simp add: xy_u32_div10_exact m)
qed

text \<open>The remainders: a multiplication by a rounded tenth and a shift divide exactly.\<close>

lemma magic_div10:
  fixes n m s e :: nat
  assumes m: "10 * m = s + e" and small: "(n div 10 + 1) * e < m"
  shows "n * m div s = n div 10"
proof -
  define k r where "k = n div 10" and "r = n mod 10"
  have n: "n = 10 * k + r" "r \<le> 9" by (simp_all add: k_def r_def)
  have "n * m = k * (10 * m) + r * m" by (simp add: n(1) algebra_simps)
  then have nm: "n * m = k * s + (k * e + r * m)" unfolding m by (simp add: algebra_simps)
  have "r * m \<le> 9 * m" using n(2) by (rule mult_right_mono) simp
  moreover have "k * e + e < m" using small by (simp add: k_def algebra_simps)
  ultimately have "k * e + r * m < s" using m by linarith
  then have "n * m div s = k" unfolding nm by simp
  then show ?thesis by (simp add: k_def)
qed

lemma xy_u8_mod10_exact: "unat (xy_u8_mod10 v) = unat v mod 10"
proof -
  have "unat v div 10 \<le> 25" using unat_u8_less [of v] by linarith
  then have "unat v * 205 div 2048 = unat v div 10" by (intro magic_div10 [where e = 2]) simp_all
  moreover have "drop_bit 11 (uint v * 205) = int (unat v * 205 div 2048)"
    by (simp add: drop_bit_eq_div zdiv_int)
  ultimately have q: "drop_bit 11 (uint v * 205) = int (unat v div 10)" by simp
  have "unat v div 10 < 256" using unat_u8_less [of v] by linarith
  then have "uint (of_int (int (unat v div 10)) :: u8) = int (unat v div 10)"
    by (metis of_int_of_nat_eq uint_nat unat_of_nat_u8)
  then have "xy_u8_mod10 v = of_int (int (unat v) - 10 * int (unat v div 10))"
    by (simp add: xy_u8_mod10_def q)
  also have "int (unat v) - 10 * int (unat v div 10) = int (unat v mod 10)"
    by (simp add: minus_mult_div_eq_mod zmod_int zdiv_int)
  finally show ?thesis by (simp add: unat_of_nat_u8 less_trans [OF mod_less_divisor])
qed

lemma xy_u16_mod10_exact: "unat (xy_u16_mod10 v) = unat v mod 10"
proof -
  have le: "unat v div 10 \<le> 6553" using unat_u16_le [of v] by linarith
  then have d: "unat v * 52429 div 524288 = unat v div 10" by (intro magic_div10 [where e = 2]) simp_all
  let ?p = "(ucast v :: u32) * 0xCCCD"
  have "unat v * 52429 < 4294967296" using unat_u16_le [of v] by linarith
  then have "unat (ucast v :: u32) * unat (0xCCCD :: u32) < 2 ^ LENGTH(32)" by simp
  from unat_mult_small [OF this] have "unat ?p = unat v * 52429" by simp
  then have pd: "unat (drop_bit 19 ?p) = unat v div 10" using d by (simp only: unat_drop_div) simp
  have "unat (ucast (drop_bit 19 ?p) :: u16) = unat v div 10"
    using le by (subst unsigned_ucast_eq) (simp only: pd, simp add: take_bit_eq_mod)
  then have q: "uint (ucast (drop_bit 19 ?p) :: u16) = int (unat v div 10)" by (metis uint_nat)
  then have "xy_u16_mod10 v = of_int (int (unat v) - 10 * int (unat v div 10))"
    unfolding xy_u16_mod10_def Let_def q by (simp only: uint_nat)
  also have "int (unat v) - 10 * int (unat v div 10) = int (unat v mod 10)"
    by (simp add: minus_mult_div_eq_mod zmod_int zdiv_int)
  finally show ?thesis by (simp add: unat_of_nat_u16 less_trans [OF mod_less_divisor])
qed

lemma xy_u32_mod10_exact: "unat (xy_u32_mod10 v) = unat v mod 10"
proof -
  have le: "unat v div 10 \<le> 429496729" using unat_u32_less [of v] by linarith
  then have d: "unat v * 3435973837 div 34359738368 = unat v div 10"
    by (intro magic_div10 [where e = 2]) simp_all
  let ?p = "(ucast v :: u64) * 0xCCCCCCCD"
  have "unat v * 3435973837 < 18446744073709551616" using unat_u32_less [of v] by linarith
  then have "unat (ucast v :: u64) * unat (0xCCCCCCCD :: u64) < 2 ^ LENGTH(64)"
    by (simp add: unat_ucast_u32_u64)
  from unat_mult_small [OF this] have "unat ?p = unat v * 3435973837" by (simp add: unat_ucast_u32_u64)
  then have pd: "unat (drop_bit 35 ?p) = unat v div 10" using d by (simp only: unat_drop_div) simp
  let ?q = "ucast (drop_bit 35 ?p) :: u32"
  have q: "unat ?q = unat v div 10"
    using le by (subst unsigned_ucast_eq) (simp only: pd, (simp add: take_bit_eq_mod)?)
  have "unat (10 :: u32) * unat ?q < 2 ^ LENGTH(32)" unfolding q using le by simp
  from unat_mult_small [OF this] have q10: "unat (10 * ?q) = 10 * (unat v div 10)" unfolding q by simp
  have "10 * ?q \<le> v" by (simp add: word_le_nat_alt q10)
  from unat_sub [OF this] show ?thesis
    unfolding xy_u32_mod10_def Let_def q10 by (simp add: minus_mult_div_eq_mod)
qed

subsection \<open>Packed decimal, continued\<close>

function dec2bcd_loop :: "u32 \<Rightarrow> u32 \<Rightarrow> nat \<Rightarrow> u32 option" where
  "dec2bcd_loop dec bcd shift =
     (if dec > 0 then do {
        let digit = (ucast (xy_u32_mod10 dec) :: u8);
        d \<leftarrow> shift_digit digit shift;
        dec2bcd_loop (xy_u32_div10 dec) (bcd OR d) (shift + 4) }
      else Some bcd)"
  by pat_completeness auto

termination dec2bcd_loop
proof (relation "measure (\<lambda>(d, b, s). unat d)", goal_cases)
  case 1
  show ?case by simp
next
  case (2 dec bcd shift digit d)
  then have "0 < unat dec" by (simp add: word_greater_zero_iff unat_gt_0)
  then show ?case by (simp add: xy_u32_div10_exact)
qed

definition xy_dec2bcd :: "u32 \<Rightarrow> u32 option" where
  "xy_dec2bcd dec = dec2bcd_loop dec 0 0"

declare hex2bcd_loop.simps [simp del] bcd2hex_loop.simps [simp del] dec2bcd_loop.simps [simp del]

text \<open>The packed form of a number: its decimal digits as hexadecimal digits.\<close>

fun packed :: "nat \<Rightarrow> nat" where
  "packed n = (if n = 0 then 0 else n mod 10 + 16 * packed (n div 10))"

declare packed.simps [simp del]

lemma packed_0 [simp]: "packed 0 = 0"
  by (simp add: packed.simps)

lemma packed_step: "packed n = n mod 10 + 16 * packed (n div 10)"
  by (cases "n = 0") (simp_all add: packed.simps [of n])

lemma packed_less: "n < 10 ^ k \<Longrightarrow> packed n < 16 ^ k"
proof (induction k arbitrary: n)
  case (Suc k)
  have "n div 10 < 10 ^ k" using Suc.prems by (simp add: less_mult_imp_div_less mult.commute)
  from Suc.IH [OF this] show ?case by (subst packed_step) (simp, linarith?)
qed simp

lemma packed_parts: "packed n mod 16 = n mod 10" "packed n div 16 = packed (n div 10)"
proof -
  have "n mod 10 < 16" by (rule less_trans [of _ 10]) simp_all
  then show "packed n mod 16 = n mod 10" "packed n div 16 = packed (n div 10)"
    by (subst packed_step, simp)+
qed

text \<open>Adding a digit above the digits collected so far.\<close>

lemma or_digit:
  assumes b: "unat (bcd :: u32) < 16 ^ k" and d: "unat (digit :: u8) < 16" and k: "k < 8"
  shows "unat (bcd OR push_bit (4 * k) (ucast digit)) = unat bcd + 16 ^ k * unat digit"
proof -
  have p: "(16 :: nat) ^ k = 2 ^ (4 * k)" by (simp add: power_mult)
  have k8: "(16 :: nat) ^ Suc k \<le> 16 ^ 8" using k by (intro power_increasing) simp_all
  have "16 ^ k * unat digit \<le> 16 ^ k * 15" using d by (intro mult_left_mono) simp_all
  moreover have "(16 :: nat) ^ k \<le> 268435456" using k8 by simp
  ultimately have tot: "unat bcd + 16 ^ k * unat digit < 4294967296" using b by linarith
  have bits: "\<not> bit bcd n \<or> \<not> bit (push_bit (4 * k) (ucast digit) :: u32) n" for n
  proof (cases "n < 4 * k")
    case True
    then show ?thesis by (simp add: bit_push_bit_iff)
  next
    case False
    then have "(2 :: nat) ^ (4 * k) \<le> 2 ^ n" by (intro power_increasing) simp_all
    then have "unat bcd < 2 ^ n" using b unfolding p by linarith
    then have "unat bcd div 2 ^ n = 0" by (rule div_less)
    then have "\<not> bit (unat bcd) n" by (simp add: bit_iff_odd)
    then show ?thesis by (simp add: bit_unsigned_iff)
  qed
  have "bcd OR push_bit (4 * k) (ucast digit) = bcd + push_bit (4 * k) (ucast digit)"
    using bits by (simp add: disjunctive_add)
  moreover have "unat (push_bit (4 * k) (ucast digit) :: u32) = 16 ^ k * unat digit"
  proof -
    have "unat (push_bit (4 * k) (ucast digit :: u32)) = unat (of_nat (16 ^ k * unat digit) :: u32)"
      by (simp add: push_bit_eq_mult p mult.commute)
    then show ?thesis using tot by (simp only: unat_of_nat_u32)
  qed
  ultimately show ?thesis using tot by (subst unat_add_no_wrap [of bcd] | simp)+
qed

lemma dec2bcd_loop_packed:
  assumes "k \<le> 8" and "unat bcd < 16 ^ k"
  shows "dec2bcd_loop dec bcd (4 * k) = (if unat dec < 10 ^ (8 - k)
    then Some (of_nat (unat bcd + 16 ^ k * packed (unat dec))) else None)"
  using assms
proof (induction "8 - k" arbitrary: k dec bcd)
  case 0
  then have "k = 8" by simp
  then show ?case
    by (subst dec2bcd_loop.simps) (auto simp: shift_digit_def word_greater_zero_iff unat_eq_0)
next
  case (Suc m)
  then have k: "k < 8" and m: "8 - k = Suc m" "8 - Suc k = m" by linarith+
  show ?case
  proof (cases "dec = 0")
    case True
    then show ?thesis by (subst dec2bcd_loop.simps) simp
  next
    case False
    let ?d = "ucast (xy_u32_mod10 dec) :: u8"
    have "unat dec mod 10 < 10" by simp
    then have d: "unat ?d = unat dec mod 10"
      by (subst unsigned_ucast_eq) (simp add: xy_u32_mod10_exact take_bit_eq_mod)
    have d16: "unat ?d < 16" unfolding d by (rule less_trans [of _ 10]) simp_all
    let ?b = "bcd OR push_bit (4 * k) (ucast ?d)"
    have b: "unat ?b = unat bcd + 16 ^ k * (unat dec mod 10)" using or_digit [OF Suc.prems(2) d16 k] d by simp
    have "16 ^ k * (unat dec mod 10) \<le> 16 ^ k * 9" by (intro mult_left_mono) (simp_all add: less_Suc_eq_le [symmetric])
    then have b16: "unat ?b < 16 ^ Suc k" using b Suc.prems(2) unfolding power_Suc by linarith
    have step: "dec2bcd_loop dec bcd (4 * k) = dec2bcd_loop (xy_u32_div10 dec) ?b (4 * Suc k)"
      using False k by (subst dec2bcd_loop.simps) (simp add: shift_digit_def word_greater_zero_iff add.commute)
    have lt: "unat dec div 10 < 10 ^ m \<longleftrightarrow> unat dec < 10 ^ (8 - k)"
      unfolding m(1) by (simp add: div_less_iff_less_mult mult.commute)
    have pk: "unat ?b + 16 ^ Suc k * packed (unat dec div 10) = unat bcd + 16 ^ k * packed (unat dec)"
      unfolding b by (subst (2) packed_step) (simp add: algebra_simps)
    show ?thesis unfolding step
      using Suc.hyps(1) [OF m(2) [symmetric] _ b16, of "xy_u32_div10 dec"] k lt pk m(2)
      by (simp add: xy_u32_div10_exact)
  qed
qed

text \<open>Reading a packed number back.\<close>

lemma low_nibble: "unat (ucast ((w :: u32) AND 0xF) :: u8) = unat w mod 16"
proof -
  have "w AND mask 4 = take_bit 4 w" by (simp add: take_bit_eq_mask)
  moreover have "mask 4 = (0xF :: u32)" by (simp add: mask_numeral)
  ultimately have "w AND 0xF = take_bit 4 w" by (simp only:)
  moreover have "unat (take_bit 4 w) = take_bit 4 (unat w)" by (rule unsigned_take_bit_eq)
  moreover have "take_bit 4 (unat w) = unat w mod 16" by (simp add: take_bit_eq_mod)
  ultimately have "unat (w AND 0xF) = unat w mod 16" by (simp only:)
  moreover have "unat w mod 16 < 256" by (rule less_trans [of _ 16]) simp_all
  ultimately show ?thesis by (simp add: unsigned_ucast_eq take_bit_eq_mod)
qed

lemma drop_nibble: "unat (drop_bit 4 (w :: u32)) = unat w div 16"
  by (simp only: unat_drop_div) simp

lemma digit_ok: "(9 :: u8) < ucast ((w :: u32) AND 0xF) \<longleftrightarrow> 9 < unat w mod 16"
  by (simp add: word_less_nat_alt low_nibble)

lemma packed_pos: "n \<noteq> 0 \<Longrightarrow> 0 < packed n"
proof (induction n rule: less_induct)
  case (less n)
  show ?case
  proof (cases "n mod 10 = 0")
    case True
    then have "n div 10 \<noteq> 0" "n div 10 < n" using less.prems by auto
    then show ?thesis using less.IH by (subst packed_step) simp
  next
    case False
    then show ?thesis by (subst packed_step) simp
  qed
qed

lemma bcd2hex_loop_packed:
  "unat bcd = packed n \<Longrightarrow> bcd2hex_loop bcd r m = r + of_nat n * m"
proof (induction n arbitrary: bcd r m rule: less_induct)
  case (less n)
  show ?case
  proof (cases "n = 0")
    case True
    then have "bcd = 0" using less.prems by (simp add: unat_eq_0)
    then show ?thesis using True by (subst bcd2hex_loop.simps) simp
  next
    case False
    have "bcd \<noteq> 0" using packed_pos [OF False] less.prems by auto
    then have ne: "bcd > 0" by (simp add: word_greater_zero_iff)
    have dig: "unat (ucast (bcd AND 0xF) :: u8) = n mod 10" by (simp add: low_nibble less.prems packed_parts)
    have "\<not> 9 < unat bcd mod 16" by (simp add: less.prems packed_parts not_less less_Suc_eq_le [symmetric])
    then have step: "bcd2hex_loop bcd r m
        = bcd2hex_loop (drop_bit 4 bcd) (r + ucast (ucast (bcd AND 0xF) :: u8) * m) (m * 10)"
      using ne by (subst bcd2hex_loop.simps) (simp add: digit_ok)
    have "(ucast (ucast (bcd AND 0xF) :: u8) :: u32) = of_nat (n mod 10)"
    proof (rule unsigned_word_eqI)
      have "n mod 10 < 10" by simp
      then have "n mod 10 < 4294967296" by linarith
      then show "unat (ucast (ucast (bcd AND 0xF) :: u8) :: u32) = unat (of_nat (n mod 10) :: u32)"
        by (simp only: unat_ucast_u8_u32 dig unat_of_nat_u32)
    qed
    moreover have "unat (drop_bit 4 bcd) = packed (n div 10)" by (simp add: drop_nibble less.prems packed_parts)
    moreover have "of_nat n = (of_nat (n mod 10) + of_nat (n div 10) * 10 :: u32)"
      by (metis mod_div_mult_eq of_nat_add of_nat_mult of_nat_numeral)
    ultimately show ?thesis unfolding step
      using less.IH [of "n div 10"] False by (simp add: algebra_simps)
  qed
qed

lemma bcd2hex_loop_bad:
  "9 < unat bcd div 16 ^ i mod 16 \<Longrightarrow> bcd2hex_loop bcd r m = 0"
proof (induction i arbitrary: bcd r m)
  case 0
  then have "bcd \<noteq> 0" by auto
  then show ?case using 0 by (subst bcd2hex_loop.simps) (simp add: digit_ok word_greater_zero_iff)
next
  case (Suc i)
  then have "bcd \<noteq> 0" by auto
  moreover have "9 < unat (drop_bit 4 bcd) div 16 ^ i mod 16"
    using Suc.prems by (simp add: drop_nibble div_mult2_eq)
  ultimately show ?case
    using Suc.IH by (subst bcd2hex_loop.simps) (simp add: word_greater_zero_iff Let_def)
qed

lemma ex_Suc_shift: "\<not> P 0 \<Longrightarrow> (\<exists>i. P i) = (\<exists>i. P (Suc i))"
  by (metis not0_implies_Suc)

lemma hex2bcd_loop_digits:
  assumes "k \<le> 8" and "unat bcd < 16 ^ k" and "unat hex < 16 ^ (8 - k)"
  shows "hex2bcd_loop hex bcd (4 * k) = Some (if \<exists>i. 9 < unat hex div 16 ^ i mod 16 then 0
    else of_nat (unat bcd + 16 ^ k * unat hex))"
  using assms
proof (induction "8 - k" arbitrary: k hex bcd)
  case 0
  then have "hex = 0" by (simp add: unat_eq_0)
  then show ?case by (subst hex2bcd_loop.simps) simp
next
  case (Suc m)
  then have k: "k < 8" and m: "8 - k = Suc m" "8 - Suc k = m" by linarith+
  show ?case
  proof (cases "hex = 0 \<or> 9 < unat hex mod 16")
    case True
    then show ?thesis
    proof
      assume "hex = 0"
      then show ?thesis by (subst hex2bcd_loop.simps) simp
    next
      assume bad: "9 < unat hex mod 16"
      have "hex \<noteq> 0" using bad by auto
      then have "hex2bcd_loop hex bcd (4 * k) = Some 0" using bad
        by (subst hex2bcd_loop.simps) (simp add: digit_ok word_greater_zero_iff)
      moreover have "\<exists>i. 9 < unat hex div 16 ^ i mod 16" using bad by (intro exI [of _ 0]) simp
      ultimately show ?thesis by (simp only: if_True)
    qed
  next
    case False
    let ?d = "ucast (hex AND 0xF) :: u8"
    let ?b = "bcd OR push_bit (4 * k) (ucast ?d)"
    have d: "unat ?d = unat hex mod 16" by (rule low_nibble)
    then have d16: "unat ?d < 16" by simp
    have b: "unat ?b = unat bcd + 16 ^ k * (unat hex mod 16)" using or_digit [OF Suc.prems(2) d16 k] d by simp
    have "16 ^ k * (unat hex mod 16) \<le> 16 ^ k * 15" by (intro mult_left_mono) (simp_all add: less_Suc_eq_le [symmetric])
    then have b16: "unat ?b < 16 ^ Suc k" using b Suc.prems(2) unfolding power_Suc by linarith
    have step: "hex2bcd_loop hex bcd (4 * k) = hex2bcd_loop (drop_bit 4 hex) ?b (4 * Suc k)"
      using False k by (subst hex2bcd_loop.simps)
        (simp add: digit_ok shift_digit_def word_greater_zero_iff add.commute)
    have lt: "unat (drop_bit 4 hex) < 16 ^ m"
      using Suc.prems(3) unfolding m(1) by (simp add: drop_nibble less_mult_imp_div_less mult.commute)
    have bad: "(\<exists>i. 9 < unat (drop_bit 4 hex) div 16 ^ i mod 16) = (\<exists>i. 9 < unat hex div 16 ^ i mod 16)"
    proof -
      have "unat (drop_bit 4 hex) div 16 ^ i = unat hex div 16 ^ Suc i" for i by (simp add: drop_nibble div_mult2_eq)
      then have "(\<exists>i. 9 < unat (drop_bit 4 hex) div 16 ^ i mod 16) = (\<exists>i. 9 < unat hex div 16 ^ Suc i mod 16)"
        by (simp only:)
      moreover have "\<not> 9 < unat hex div 16 ^ 0 mod 16" using False by simp
      ultimately show ?thesis using ex_Suc_shift [of "\<lambda>i. 9 < unat hex div 16 ^ i mod 16"] by blast
    qed
    have split: "unat hex = unat hex mod 16 + 16 * (unat hex div 16)" by simp
    have val: "unat ?b + 16 ^ Suc k * unat (drop_bit 4 hex) = unat bcd + 16 ^ k * unat hex"
      unfolding b drop_nibble using arg_cong [OF split, of "(*) (16 ^ k)"]
      by (simp only: distrib_left power_Suc ac_simps)
    show ?thesis unfolding step
      using Suc.hyps(1) [OF m(2) [symmetric] _ b16, of "drop_bit 4 hex"] k lt bad val m(2) by simp
  qed
qed

subsection \<open>Properties\<close>

text \<open>
  C13. The routines that avoid division compute it exactly: for every 64-bit, 32-bit, 16-bit and
  8-bit argument the quotients and remainders by ten are those of the division they replace.
\<close>

theorem soft_division_exact:
  "unat (xy_u64_div10 a) = unat a div 10 \<and> unat (xy_u32_div10 b) = unat b div 10
   \<and> unat (xy_u32_mod10 c) = unat c mod 10 \<and> unat (xy_u16_mod10 d) = unat d mod 10
   \<and> unat (xy_u8_mod10 e) = unat e mod 10"
  by (simp only: xy_u64_div10_exact xy_u32_div10_exact xy_u32_mod10_exact xy_u16_mod10_exact
      xy_u8_mod10_exact simp_thms)

text \<open>
  Packed decimal. A number below 10^8 is packed into the word whose hexadecimal digits are its
  decimal digits, and both unpacking functions, which compute the same function, return it; for a
  larger number the ninth digit is shifted by 32, which is undefined. Words with a digit
  above 9 are unpacked to 0, and \<open>xy_hex2bcd\<close> is the identity on packed words and 0 elsewhere.
\<close>

theorem packed_decimal:
  "(if unat n < 10 ^ 8
    then \<exists>b. xy_dec2bcd n = Some b \<and> unat b = packed (unat n) \<and> xy_bcd2dec b = n
    else xy_dec2bcd n = None)
   \<and> xy_bcd2hex w = xy_bcd2dec w
   \<and> ((\<exists>i. 9 < unat w div 16 ^ i mod 16) \<longrightarrow> xy_bcd2dec w = 0)
   \<and> xy_hex2bcd w = Some (if \<exists>i. 9 < unat w div 16 ^ i mod 16 then 0 else w)"
proof (intro conjI)
  have pack: "xy_dec2bcd n = (if unat n < 10 ^ 8 then Some (of_nat (packed (unat n))) else None)"
    using dec2bcd_loop_packed [of 0 0 n] by (simp add: xy_dec2bcd_def)
  show "if unat n < 10 ^ 8 then \<exists>b. xy_dec2bcd n = Some b \<and> unat b = packed (unat n) \<and> xy_bcd2dec b = n
    else xy_dec2bcd n = None"
  proof (cases "unat n < 10 ^ 8")
    case True
    have "packed (unat n) < 4294967296" using packed_less [OF True] by simp
    then have u: "unat (of_nat (packed (unat n)) :: u32) = packed (unat n)" by (rule unat_of_nat_u32)
    have "xy_bcd2dec (of_nat (packed (unat n))) = n"
      using bcd2hex_loop_packed [OF u, of 0 1] by (simp add: xy_bcd2dec_def)
    then show ?thesis using True pack u by simp
  next
    case False
    then show ?thesis using pack by simp
  qed
  show "xy_bcd2hex w = xy_bcd2dec w" by (simp only: xy_bcd2hex_def xy_bcd2dec_def)
  show "(\<exists>i. 9 < unat w div 16 ^ i mod 16) \<longrightarrow> xy_bcd2dec w = 0"
    using bcd2hex_loop_bad by (auto simp: xy_bcd2dec_def)
  have "unat w < 16 ^ 8" using unsigned_less [of w] by simp
  then show "xy_hex2bcd w = Some (if \<exists>i. 9 < unat w div 16 ^ i mod 16 then 0 else w)"
    using hex2bcd_loop_digits [of 0 0 w] by (simp add: xy_hex2bcd_def)
qed

text \<open>The year 2024 is packed as 0x2024; the word 0x1A is refused.\<close>

theorem packed_decimal_witness:
  "xy_dec2bcd 2024 = Some 0x2024 \<and> xy_bcd2dec 0x2024 = 2024 \<and> xy_bcd2dec 0x1A = 0"
proof -
  have p: "packed 2024 = 8228" by (simp add: packed.simps)
  obtain b where "xy_dec2bcd 2024 = Some b" "unat b = 8228" "xy_bcd2dec b = 2024"
    using packed_decimal [of 2024 0] p by auto
  moreover from this(2) have "b = 0x2024" by (intro unsigned_word_eqI) simp
  moreover have "\<exists>i. 9 < unat (0x1A :: u32) div 16 ^ i mod 16" by (rule exI [of _ 0]) simp
  ultimately show ?thesis using packed_decimal [of 0 "0x1A"] by simp
qed

end
