(* ===== verification/Xy_Ctype.thy ===== *)
theory Xy_Ctype
  imports Xy_Prelude
begin

text \<open>
  The character macros of \<open>components/clib/xy_clib/xy_ctype.h\<close>, on the integer their argument is
  promoted to. (\<open>xy_ctype.c\<close> defines functions of the same names, but includes the header, whose
  function-like macros turn those definitions into syntax errors; the macros are what every
  caller uses.)
\<close>

definition xy_islower :: "int \<Rightarrow> bool" where "xy_islower c \<longleftrightarrow> c \<ge> 97 \<and> c \<le> 122"
definition xy_isupper :: "int \<Rightarrow> bool" where "xy_isupper c \<longleftrightarrow> c \<ge> 65 \<and> c \<le> 90"
definition xy_isdigit :: "int \<Rightarrow> bool" where "xy_isdigit c \<longleftrightarrow> c \<ge> 48 \<and> c \<le> 57"
definition xy_isalnum :: "int \<Rightarrow> bool" where "xy_isalnum c \<longleftrightarrow> xy_islower c \<or> xy_isupper c"
definition xy_isalpha :: "int \<Rightarrow> bool" where "xy_isalpha c \<longleftrightarrow> xy_islower c \<or> xy_isupper c"
definition xy_isblank :: "int \<Rightarrow> bool" where "xy_isblank c \<longleftrightarrow> c = 32 \<or> c = 9"
definition xy_iscntrl :: "int \<Rightarrow> bool" where "xy_iscntrl c \<longleftrightarrow> c \<ge> 0 \<and> c < 32"
definition xy_isgraph :: "int \<Rightarrow> bool" where "xy_isgraph c \<longleftrightarrow> c \<ge> 33 \<and> c \<le> 126"
definition xy_isprint :: "int \<Rightarrow> bool" where "xy_isprint c \<longleftrightarrow> c \<ge> 32 \<and> c \<le> 126"
definition xy_ispunct :: "int \<Rightarrow> bool" where "xy_ispunct c \<longleftrightarrow> c \<ge> 33 \<and> c \<le> 47"
definition xy_isspace :: "int \<Rightarrow> bool" where "xy_isspace c \<longleftrightarrow> c = 32 \<or> c = 9 \<or> c = 10"
definition xy_isxdigit :: "int \<Rightarrow> bool" where
  "xy_isxdigit c \<longleftrightarrow> xy_isdigit c \<or> (c \<ge> 97 \<and> c \<le> 102) \<or> (c \<ge> 65 \<and> c \<le> 70)"
definition xy_tolower :: "int \<Rightarrow> int" where
  "xy_tolower c = (if c \<ge> 65 \<and> c \<le> 90 then c + 32 else c)"
definition xy_toupper :: "int \<Rightarrow> int" where
  "xy_toupper c = (if c \<ge> 97 \<and> c \<le> 122 then c - 32 else c)"
definition xy_isascii :: "int \<Rightarrow> bool" where "xy_isascii c \<longleftrightarrow> c \<ge> 0 \<and> c \<le> 127"

lemmas ctype_defs = xy_islower_def xy_isupper_def xy_isdigit_def xy_isalnum_def xy_isalpha_def
  xy_isblank_def xy_isgraph_def xy_isprint_def xy_ispunct_def xy_isspace_def xy_isxdigit_def

text \<open>
  A plain \<open>char\<close> may be signed or not. Whether it is makes no difference to the classes that lie
  within 0 to 127, so the other theories use the unsigned value.
\<close>

lemma sint_u8: "sint (c :: u8) = (if uint c < 128 then uint c else uint c - 256)"
proof -
  have "sint c = (uint c + 128) mod 256 - 128"
    by (simp add: sint_uint signed_take_bit_eq_take_bit_shift take_bit_eq_mod)
  moreover have b: "0 \<le> uint c" "uint c < 256" using uint_bounded [of c] by simp_all
  moreover have "(uint c + 128) mod 256 = uint c - 128" if "\<not> uint c < 128"
  proof -
    have "(uint c + 128) mod 256 = (uint c - 128) mod 256"
      using minus_mod_self2 [of "uint c + 128" 256] by (simp add: algebra_simps)
    then show ?thesis using b that by (simp add: mod_pos_pos_trivial)
  qed
  ultimately show ?thesis by (cases "uint c < 128") (simp_all add: mod_pos_pos_trivial)
qed

lemma ctype_signedness:
  "xy_isdigit (sint (c :: u8)) = xy_isdigit (uint c)" "xy_isspace (sint c) = xy_isspace (uint c)"
  "xy_isxdigit (sint c) = xy_isxdigit (uint c)" "xy_isdigit (sint c) \<Longrightarrow> sint c = uint c"
  using uint_bounded [of c] by (auto simp: ctype_defs sint_u8 split: if_splits)

end
