(* ===== verification/Xy_Stdlib.thy ===== *)
theory Xy_Stdlib
  imports Xy_Ctype "HOL-Library.Signed_Division"
begin

text \<open>
  The conversions, sorting, searching, integer arithmetic and random numbers of
  \<open>components/clib/xy_clib/xy_stdlib.c\<close>, for the 32-bit targets of the project: \<open>int\<close> and
  \<open>long\<close> have 32 bits, \<open>long long\<close> has 64.

  A string is the list of bytes from the pointer to the end of the object; running off its end is
  \<open>None\<close>. Values of \<open>int\<close>, \<open>long\<close> and \<open>long long\<close> are integers; a result outside the type
  (signed overflow) is \<open>None\<close>. The floating-point conversions and the forwarding of memory
  management to the platform are not modelled.
\<close>

subsection \<open>Integers of a width\<close>

definition INT_MAX :: int where "INT_MAX = 2147483647"
definition INT_MIN :: int where "INT_MIN = -2147483648"
definition LLONG_MAX :: int where "LLONG_MAX = 9223372036854775807"
definition LLONG_MIN :: int where "LLONG_MIN = -9223372036854775808"

definition c_int :: "int \<Rightarrow> int option" where
  "c_int x = (if INT_MIN \<le> x \<and> x \<le> INT_MAX then Some x else None)"

definition c_llong :: "int \<Rightarrow> int option" where
  "c_llong x = (if LLONG_MIN \<le> x \<and> x \<le> LLONG_MAX then Some x else None)"

definition xy_abs :: "int \<Rightarrow> int option" where
  "xy_abs x = (if x < 0 then c_int (- x) else Some x)"

definition xy_labs :: "int \<Rightarrow> int option" where
  "xy_labs x = (if x < 0 then c_int (- x) else Some x)"

definition xy_llabs :: "int \<Rightarrow> int option" where
  "xy_llabs x = (if x < 0 then c_llong (- x) else Some x)"

record xy_div_t =
  quot :: int
  rem :: int

text \<open>Division truncates towards zero; by zero, or with a quotient out of range, it is undefined.\<close>

definition xy_div :: "int \<Rightarrow> int \<Rightarrow> xy_div_t option" where
  "xy_div numer denom = (if denom = 0 then None else do {
     q \<leftarrow> c_int (numer sdiv denom);
     Some \<lparr>quot = q, rem = numer smod denom\<rparr> })"

definition xy_ldiv :: "int \<Rightarrow> int \<Rightarrow> xy_div_t option" where
  "xy_ldiv numer denom = (if denom = 0 then None else do {
     q \<leftarrow> c_int (numer sdiv denom);
     Some \<lparr>quot = q, rem = numer smod denom\<rparr> })"

definition xy_lldiv :: "int \<Rightarrow> int \<Rightarrow> xy_div_t option" where
  "xy_lldiv numer denom = (if denom = 0 then None else do {
     q \<leftarrow> c_llong (numer sdiv denom);
     Some \<lparr>quot = q, rem = numer smod denom\<rparr> })"

subsection \<open>Reading numbers\<close>

text \<open>\<open>while (xy_isspace(*str)) str++;\<close> and the optional sign.\<close>

fun skip_spaces :: "u8 list \<Rightarrow> u8 list option" where
  "skip_spaces [] = None"
| "skip_spaces (c # cs) = (if xy_isspace (uint c) then skip_spaces cs else Some (c # cs))"

fun read_sign :: "u8 list \<Rightarrow> (int \<times> u8 list) option" where
  "read_sign [] = None"
| "read_sign (c # cs) = Some (if c = 43 then (1, cs) else if c = 45 then (-1, cs) else (1, c # cs))"

fun atoi_digits :: "int \<Rightarrow> int \<Rightarrow> u8 list \<Rightarrow> int option" where
  "atoi_digits sign result [] = None"
| "atoi_digits sign result (c # cs) =
     (if xy_isdigit (uint c) then
        if result > INT_MAX div 10 \<or> (result = INT_MAX div 10 \<and> uint c - 48 > INT_MAX mod 10)
        then Some (if sign = 1 then INT_MAX else INT_MIN)
        else do {
          r \<leftarrow> c_int (result * 10 + (uint c - 48));
          atoi_digits sign r cs }
      else c_int (sign * result))"

definition xy_atoi :: "u8 list \<Rightarrow> int option" where
  "xy_atoi str = do {
     s \<leftarrow> skip_spaces str;
     (sign, s') \<leftarrow> read_sign s;
     atoi_digits sign 0 s' }"

text \<open>
  \<open>long\<close> has 32 bits and the accumulator 64. The flag of the result says whether \<open>errno\<close> has been
  set to \<open>ERANGE\<close>. \<open>atol_max\<close> is \<open>-(int64_t)LONG_MIN\<close>.
\<close>

definition atol_max :: int where "atol_max = - INT_MIN"

fun atol_digits :: "int \<Rightarrow> int \<Rightarrow> u8 list \<Rightarrow> (int \<times> bool) option" where
  "atol_digits sign result [] = None"
| "atol_digits sign result (c # cs) =
     (if xy_isdigit (uint c) then
        (let digit = uint c - 48 in
         if result > atol_max div 10 then Some (if sign = 1 then INT_MAX else INT_MIN, True)
         else do {
           r \<leftarrow> c_llong (result * 10);
           if r > atol_max - digit then Some (if sign = 1 then INT_MAX else INT_MIN, True)
           else do {
             r' \<leftarrow> c_llong (r + digit);
             atol_digits sign r' cs } })
      else if sign > 0 \<and> result > INT_MAX then Some (INT_MAX, True)
      else if \<not> sign > 0 \<and> result > atol_max then Some (INT_MIN, True)
      else map_option (\<lambda>v. (v, False)) (c_int (sign * result)))"

definition xy_atol :: "u8 list \<Rightarrow> (int \<times> bool) option" where
  "xy_atol str = do {
     s \<leftarrow> skip_spaces str;
     (sign, s') \<leftarrow> read_sign s;
     atol_digits sign 0 s' }"

fun atoll_digits :: "int \<Rightarrow> int \<Rightarrow> u8 list \<Rightarrow> int option" where
  "atoll_digits sign result [] = None"
| "atoll_digits sign result (c # cs) =
     (if xy_isdigit (uint c) then do {
        r \<leftarrow> c_llong (result * 10 + (uint c - 48));
        atoll_digits sign r cs }
      else c_llong (sign * result))"

definition xy_atoll :: "u8 list \<Rightarrow> int option" where
  "xy_atoll str = do {
     s \<leftarrow> skip_spaces str;
     (sign, s') \<leftarrow> read_sign s;
     atoll_digits sign 0 s' }"

text \<open>
  The older \<open>strtol\<close>: base 0 is replaced by 10 at once, so its prefix detection is never reached.
  It uses \<open>isxdigit\<close> and \<open>tolower\<close> of the standard library, which agree with the macros on
  ASCII. The result is the value and the string that \<open>*endptr\<close> is set to if \<open>endptr\<close> is given.
\<close>

definition strtol_old_digit :: "int \<Rightarrow> u8 \<Rightarrow> int option" where
  "strtol_old_digit base c =
     (if xy_isdigit (uint c) then Some (uint c - 48)
      else if base = 16 \<and> xy_isxdigit (uint c) then Some (xy_tolower (uint c) - 97 + 10)
      else None)"

fun strtol_old_digits ::
  "int \<Rightarrow> int \<Rightarrow> bool \<Rightarrow> int \<Rightarrow> u8 list \<Rightarrow> u8 list \<Rightarrow> (int \<times> u8 list) option" where
  "strtol_old_digits base sign has_digits result start [] = None"
| "strtol_old_digits base sign has_digits result start (c # cs) =
     (let stop = map_option (\<lambda>v. (v, if has_digits then c # cs else start)) (c_int (sign * result)) in
      case strtol_old_digit base c of
        None \<Rightarrow> stop
      | Some digit \<Rightarrow>
          if digit \<ge> base then stop
          else if result > INT_MAX sdiv base \<or> (result = INT_MAX sdiv base \<and> digit > INT_MAX smod base)
          then Some (if sign = 1 then INT_MAX else INT_MIN, c # cs)
          else do {
            r \<leftarrow> c_int (result * base + digit);
            strtol_old_digits base sign True r start cs })"

definition xy_strtol_old :: "u8 list \<Rightarrow> int \<Rightarrow> (int \<times> u8 list) option" where
  "xy_strtol_old str base_param = do {
     let base = (if base_param \<noteq> 0 then base_param else 10);
     s \<leftarrow> skip_spaces str;
     (sign, s') \<leftarrow> read_sign s;
     strtol_old_digits base sign False 0 str s' }"

text \<open>The base prefix as the three newer functions handle it.\<close>

definition strto_prefix :: "int \<Rightarrow> u8 list \<Rightarrow> (int \<times> u8 list) option" where
  "strto_prefix base str =
     (if base = 0 then do {
        c0 \<leftarrow> mem_load str 0;
        if c0 = 48 then do {
          c1 \<leftarrow> mem_load str 1;
          Some (if c1 = 120 \<or> c1 = 88 then (16, drop 2 str) else (8, drop 1 str)) }
        else Some (10, str) }
      else if base = 16 then do {
        c0 \<leftarrow> mem_load str 0;
        if c0 = 48 then do {
          c1 \<leftarrow> mem_load str 1;
          Some (16, if c1 = 120 \<or> c1 = 88 then drop 2 str else str) }
        else Some (16, str) }
      else Some (base, str))"

definition strto_digit :: "u8 \<Rightarrow> int option" where
  "strto_digit c =
     (if xy_isdigit (uint c) then Some (uint c - 48)
      else if xy_isxdigit (uint c) then Some (xy_toupper (uint c) - 65 + 10)
      else None)"

text \<open>
  The digit loop; \<open>acc\<close> converts \<open>result * base + digit\<close> to the type of the result. The value and
  the string at which the loop stops.
\<close>

fun strto_digits :: "(int \<Rightarrow> int option) \<Rightarrow> int \<Rightarrow> int \<Rightarrow> u8 list \<Rightarrow> (int \<times> u8 list) option" where
  "strto_digits acc base result [] = None"
| "strto_digits acc base result (c # cs) =
     (if c = 0 then Some (result, c # cs)
      else case strto_digit c of
        None \<Rightarrow> Some (result, c # cs)
      | Some digit \<Rightarrow>
          if digit \<ge> base then Some (result, c # cs)
          else do {
            r \<leftarrow> acc (result * base + digit);
            strto_digits acc base r cs })"

definition xy_strtoul :: "u8 list \<Rightarrow> int \<Rightarrow> (int \<times> u8 list) option" where
  "xy_strtoul str base = do {
     s \<leftarrow> skip_spaces str;
     (b, s') \<leftarrow> strto_prefix base s;
     strto_digits (\<lambda>x. Some (x mod 2 ^ 32)) b 0 s' }"

definition xy_strtoull :: "u8 list \<Rightarrow> int \<Rightarrow> (int \<times> u8 list) option" where
  "xy_strtoull str base = do {
     s \<leftarrow> skip_spaces str;
     (b, s') \<leftarrow> strto_prefix base s;
     strto_digits (\<lambda>x. Some (x mod 2 ^ 64)) b 0 s' }"

definition xy_strtoll :: "u8 list \<Rightarrow> int \<Rightarrow> (int \<times> u8 list) option" where
  "xy_strtoll str base = do {
     s \<leftarrow> skip_spaces str;
     (sign, s') \<leftarrow> read_sign s;
     (b, s'') \<leftarrow> strto_prefix base s';
     (v, e) \<leftarrow> strto_digits c_llong b 0 s'';
     r \<leftarrow> c_llong (sign * v);
     Some (r, e) }"

subsection \<open>Writing numbers\<close>

text \<open>The literal of digits the conversions index; an index outside it is undefined.\<close>

definition xtoa_alphabet :: "u8 list" where
  "xtoa_alphabet = map of_nat ([48..<58] @ [97..<123] @ [0])"

definition xtoa_char :: "int \<Rightarrow> u8 option" where
  "xtoa_char i = (if i < 0 then None else mem_load xtoa_alphabet (nat i))"

text \<open>
  The \<open>do ... while\<close> loop that writes the digits of \<open>value\<close>, the last first, from index \<open>pos\<close> of the
  buffer on. For a base of 0 or 1 it would not end, so it is a partial function.
\<close>

partial_function (option) xtoa_loop ::
  "int \<Rightarrow> int \<Rightarrow> u8 list \<Rightarrow> nat \<Rightarrow> (u8 list \<times> nat) option" where
  "xtoa_loop value base str pos = do {
     c \<leftarrow> xtoa_char (value - (value sdiv base) * base);
     str' \<leftarrow> mem_store str pos c;
     if value sdiv base \<noteq> 0 then xtoa_loop (value sdiv base) base str' (pos + 1)
     else Some (str', pos + 1) }"

fun xtoa_reverse :: "u8 list \<Rightarrow> nat \<Rightarrow> nat \<Rightarrow> u8 list option" where
  "xtoa_reverse str i j =
     (if i < j then do {
        tmp_char \<leftarrow> mem_load str j;
        c \<leftarrow> mem_load str i;
        s1 \<leftarrow> mem_store str j c;
        s2 \<leftarrow> mem_store s1 i tmp_char;
        xtoa_reverse s2 (i + 1) (j - 1) }
      else Some str)"

text \<open>The text the four functions share once the sign is dealt with.\<close>

definition xtoa_body :: "int \<Rightarrow> u8 list \<Rightarrow> int \<Rightarrow> nat \<Rightarrow> u8 list option" where
  "xtoa_body value str base start = do {
     (s1, p) \<leftarrow> xtoa_loop value base str start;
     s2 \<leftarrow> mem_store s1 p 0;
     xtoa_reverse s2 start (p - 1) }"

definition xy_itoa :: "int \<Rightarrow> u8 list \<Rightarrow> int \<Rightarrow> u8 list option" where
  "xy_itoa value str base =
     (if base < 2 \<or> base > 36 then mem_store str 0 0
      else if value < 0 \<and> base = 10 then do {
        s \<leftarrow> mem_store str 0 45;
        v \<leftarrow> c_int (- value);
        xtoa_body v s base 1 }
      else xtoa_body value str base 0)"

definition xy_ltoa :: "int \<Rightarrow> u8 list \<Rightarrow> int \<Rightarrow> u8 list option" where
  "xy_ltoa value str base =
     (if base < 2 \<or> base > 36 then mem_store str 0 0
      else if value < 0 \<and> base = 10 then do {
        s \<leftarrow> mem_store str 0 45;
        v \<leftarrow> c_int (- value);
        xtoa_body v s base 1 }
      else xtoa_body value str base 0)"

definition xy_utoa :: "u32 \<Rightarrow> u8 list \<Rightarrow> int \<Rightarrow> u8 list option" where
  "xy_utoa value str base =
     (if base < 2 \<or> base > 36 then mem_store str 0 0 else xtoa_body (uint value) str base 0)"

definition xy_ultoa :: "u32 \<Rightarrow> u8 list \<Rightarrow> int \<Rightarrow> u8 list option" where
  "xy_ultoa value str base =
     (if base < 2 \<or> base > 36 then mem_store str 0 0 else xtoa_body (uint value) str base 0)"

subsection \<open>Sorting and searching\<close>

text \<open>
  An array of \<open>num\<close> elements of \<open>sz\<close> bytes each at offset \<open>base\<close> of an object. The comparison
  function gets the bytes of the two elements.
\<close>

type_synonym compar = "u8 list \<Rightarrow> u8 list \<Rightarrow> int"

text \<open>Swapping the \<open>sz\<close> bytes at two offsets, one by one.\<close>

fun swap_bytes :: "u8 list \<Rightarrow> nat \<Rightarrow> nat \<Rightarrow> nat \<Rightarrow> u8 list option" where
  "swap_bytes mem a b 0 = Some mem"
| "swap_bytes mem a b (Suc n) = do {
     temp \<leftarrow> mem_load mem a;
     x \<leftarrow> mem_load mem b;
     m1 \<leftarrow> mem_store mem a x;
     m2 \<leftarrow> mem_store m1 b temp;
     swap_bytes m2 (a + 1) (b + 1) n }"

text \<open>The partition loop over the indices \<open>is\<close>; \<open>right\<close> holds the pivot.\<close>

fun qsort_partition ::
  "compar \<Rightarrow> nat \<Rightarrow> nat \<Rightarrow> nat \<Rightarrow> nat list \<Rightarrow> u8 list \<Rightarrow> nat \<Rightarrow> (u8 list \<times> nat) option" where
  "qsort_partition compar base sz right [] mem left = Some (mem, left)"
| "qsort_partition compar base sz right (i # is) mem left = do {
     x \<leftarrow> mem_read mem (base + i * sz) sz;
     p \<leftarrow> mem_read mem (base + right * sz) sz;
     if compar x p < 0 then do {
       mem' \<leftarrow> swap_bytes mem (base + i * sz) (base + left * sz) sz;
       qsort_partition compar base sz right is mem' (left + 1) }
     else qsort_partition compar base sz right is mem left }"

partial_function (option) xy_qsort :: "compar \<Rightarrow> nat \<Rightarrow> u8 list \<Rightarrow> nat \<Rightarrow> nat \<Rightarrow> u8 list option" where
  "xy_qsort compar sz mem base num =
     (if num \<le> 1 then Some mem
      else do {
        m1 \<leftarrow> swap_bytes mem (base + num div 2 * sz) (base + (num - 1) * sz) sz;
        (m2, left) \<leftarrow> qsort_partition compar base sz (num - 1) [0..<num - 1] m1 0;
        m3 \<leftarrow> swap_bytes m2 (base + left * sz) (base + (num - 1) * sz) sz;
        m4 \<leftarrow> (if left > 0 then xy_qsort compar sz m3 base left else Some m3);
        if left + 1 < num
        then xy_qsort compar sz m4 (base + (left + 1) * sz) (num - left - 1)
        else Some m4 })"

text \<open>The result is the offset of the element found. The key is whatever the caller compares.\<close>

function bsearch_loop ::
  "('k \<Rightarrow> u8 list \<Rightarrow> int) \<Rightarrow> 'k \<Rightarrow> u8 list \<Rightarrow> nat \<Rightarrow> nat \<Rightarrow> nat \<Rightarrow> nat option option" where
  "bsearch_loop compar key mem sz low high =
     (if low < high then
        (let mid = low + (high - low) div 2 in
         do {
           x \<leftarrow> mem_read mem (mid * sz) sz;
           (let cmp = compar key x in
            if cmp = 0 then Some (Some (mid * sz))
            else if cmp < 0 then bsearch_loop compar key mem sz low mid
            else bsearch_loop compar key mem sz (mid + 1) high) })
      else Some None)"
  by pat_completeness auto

termination bsearch_loop
  by (relation "measure (\<lambda>(c, k, m, s, low, high). high - low)") auto

definition xy_bsearch ::
  "'k \<Rightarrow> u8 list \<Rightarrow> nat \<Rightarrow> nat \<Rightarrow> ('k \<Rightarrow> u8 list \<Rightarrow> int) \<Rightarrow> nat option option" where
  "xy_bsearch key mem num sz compar = bsearch_loop compar key mem sz 0 num"

subsection \<open>Random numbers\<close>

definition XY_RAND_MAX :: nat where "XY_RAND_MAX = 32767"

text \<open>The state is the static \<open>xy_rand_seed\<close>, an \<open>unsigned long\<close>.\<close>

definition xy_rand :: "u32 \<Rightarrow> int \<times> u32" where
  "xy_rand seed =
     (let seed' = seed * 1103515245 + 12345
      in (int ((unat seed' div 65536) mod (XY_RAND_MAX + 1)), seed'))"

definition xy_srand :: "u32 \<Rightarrow> u32 \<Rightarrow> u32" where
  "xy_srand seed old = seed"

end
