(* ===== verification/Xy_Stdlib_Numbers.thy ===== *)
theory Xy_Stdlib_Numbers
  imports Xy_Stdlib
begin

text \<open>
  The conversions between numbers and text: the signed readers saturate at the value the text
  denotes, the writers produce the digits of the number, and reading what was written gives it
  back.
\<close>

subsection \<open>The value of a text\<close>

definition dec_value :: "int \<Rightarrow> u8 list \<Rightarrow> int" where
  "dec_value r ds = foldl (\<lambda>v c. v * 10 + (uint c - 48)) r ds"

definition is_digit :: "u8 \<Rightarrow> bool" where "is_digit c = xy_isdigit (uint c)"

lemma dec_value_Nil [simp]: "dec_value r [] = r"
  by (simp add: dec_value_def)

lemma dec_value_Cons [simp]: "dec_value r (c # cs) = dec_value (r * 10 + (uint c - 48)) cs"
  by (simp add: dec_value_def)

lemma dec_value_mono:
  "\<forall>c \<in> set ds. is_digit c \<Longrightarrow> 0 \<le> r \<Longrightarrow> r \<le> dec_value r ds"
proof (induction ds arbitrary: r)
  case (Cons c ds)
  then have "0 \<le> uint c - 48" by (simp add: is_digit_def xy_isdigit_def)
  then have "r \<le> r * 10 + (uint c - 48)" "0 \<le> r * 10 + (uint c - 48)" using Cons.prems(2) by simp_all
  moreover have "r * 10 + (uint c - 48) \<le> dec_value (r * 10 + (uint c - 48)) ds"
    using Cons.IH [of "r * 10 + (uint c - 48)"] Cons.prems(1) calculation(2) by simp
  ultimately show ?case by simp
qed simp

definition clamp_int :: "int \<Rightarrow> int" where
  "clamp_int x = (if x < INT_MIN then INT_MIN else if x > INT_MAX then INT_MAX else x)"

text \<open>Space, an optional sign and digits.\<close>

definition text_value :: "u8 list \<Rightarrow> int" where
  "text_value s = (let s1 = dropWhile (\<lambda>c. xy_isspace (uint c)) s in
     (if hd s1 = 43 then dec_value 0 (takeWhile is_digit (tl s1))
      else if hd s1 = 45 then - dec_value 0 (takeWhile is_digit (tl s1))
      else dec_value 0 (takeWhile is_digit s1)))"

lemma skip_spaces_eq:
  "0 \<in> set s \<Longrightarrow> skip_spaces s = Some (dropWhile (\<lambda>c. xy_isspace (uint c)) s)
   \<and> 0 \<in> set (dropWhile (\<lambda>c. xy_isspace (uint c)) s)"
  by (induction s) (auto simp: xy_isspace_def)

lemmas int_bounds = INT_MAX_def INT_MIN_def atol_max_def clamp_int_def c_int_def c_llong_def
  LLONG_MAX_def LLONG_MIN_def

lemma atoi_digits_clamp:
  assumes "sg = 1 \<or> sg = -1"
  shows "0 \<in> set s \<Longrightarrow> 0 \<le> r \<Longrightarrow> r \<le> INT_MAX \<Longrightarrow>
    atoi_digits sg r s = Some (clamp_int (sg * dec_value r (takeWhile is_digit s)))"
proof (induction s arbitrary: r)
  case (Cons c cs)
  show ?case
  proof (cases "is_digit c")
    case False
    then have "atoi_digits sg r (c # cs) = c_int (sg * r)" by (simp add: is_digit_def)
    moreover have "INT_MIN \<le> sg * r" "sg * r \<le> INT_MAX" using assms Cons.prems by (auto simp: int_bounds)
    ultimately show ?thesis using False by (simp add: c_int_def clamp_int_def)
  next
    case True
    let ?d = "uint c - 48"
    have d: "0 \<le> ?d" "?d \<le> 9" using True by (simp_all add: is_digit_def xy_isdigit_def)
    have c0: "c \<noteq> 0" using True by (auto simp: is_digit_def xy_isdigit_def)
    have ge: "r * 10 + ?d \<le> dec_value (r * 10 + ?d) (takeWhile is_digit cs)"
      using dec_value_mono [of "takeWhile is_digit cs" "r * 10 + ?d"] d Cons.prems(2)
      by (auto dest: set_takeWhileD)
    show ?thesis
    proof (cases "r > INT_MAX div 10 \<or> (r = INT_MAX div 10 \<and> ?d > INT_MAX mod 10)")
      case over: True
      define V where "V = dec_value (r * 10 + ?d) (takeWhile is_digit cs)"
      have "INT_MAX < V" using over ge d by (auto simp: INT_MAX_def V_def)
      then have "clamp_int (sg * V) = (if sg = 1 then INT_MAX else INT_MIN)"
        using assms by (auto simp: clamp_int_def INT_MIN_def INT_MAX_def)
      moreover have "dec_value r (takeWhile is_digit (c # cs)) = V" using True by (simp add: V_def)
      moreover have "atoi_digits sg r (c # cs) = Some (if sg = 1 then INT_MAX else INT_MIN)"
        using True over by (simp add: is_digit_def)
      ultimately show ?thesis by simp
    next
      case False
      then have le: "r * 10 + ?d \<le> INT_MAX" using d by (auto simp: INT_MAX_def)
      moreover have "0 \<le> r * 10 + ?d" using d Cons.prems(2) by simp
      ultimately have ci: "c_int (r * 10 + ?d) = Some (r * 10 + ?d)" by (simp add: c_int_def INT_MIN_def)
      have "atoi_digits sg r (c # cs) = atoi_digits sg (r * 10 + ?d) cs"
        unfolding atoi_digits.simps if_not_P [OF False] using True ci by (simp add: is_digit_def)
      then show ?thesis
        using True Cons.IH [of "r * 10 + ?d"] Cons.prems(1,2) c0 d le by simp
    qed
  qed
qed simp

lemma atol_digits_clamp:
  assumes "sg = 1 \<or> sg = -1"
  shows "0 \<in> set s \<Longrightarrow> 0 \<le> r \<Longrightarrow> r \<le> atol_max \<Longrightarrow>
    atol_digits sg r s = (let v = sg * dec_value r (takeWhile is_digit s)
      in Some (clamp_int v, v < INT_MIN \<or> v > INT_MAX))"
proof (induction s arbitrary: r)
  case (Cons c cs)
  show ?case
  proof (cases "is_digit c")
    case False
    then show ?thesis using assms Cons.prems by (auto simp: is_digit_def int_bounds)
  next
    case True
    let ?d = "uint c - 48"
    have d: "0 \<le> ?d" "?d \<le> 9" using True by (simp_all add: is_digit_def xy_isdigit_def)
    have c0: "c \<noteq> 0" using True by (auto simp: is_digit_def xy_isdigit_def)
    have ge: "r * 10 + ?d \<le> dec_value (r * 10 + ?d) (takeWhile is_digit cs)"
      using dec_value_mono [of "takeWhile is_digit cs" "r * 10 + ?d"] d Cons.prems(2)
      by (auto dest: set_takeWhileD)
    show ?thesis
    proof (cases "r * 10 + ?d > atol_max")
      case over: True
      define V where "V = dec_value (r * 10 + ?d) (takeWhile is_digit cs)"
      have "atol_max < V" using over ge by (simp add: V_def)
      then have v: "sg * V < INT_MIN \<or> sg * V > INT_MAX"
        and cl: "clamp_int (sg * V) = (if sg = 1 then INT_MAX else INT_MIN)"
        using assms by (auto simp: int_bounds)
      have V: "dec_value r (takeWhile is_digit (c # cs)) = V" using True by (simp add: V_def)
      have "atol_digits sg r (c # cs) = Some (if sg = 1 then INT_MAX else INT_MIN, True)"
      proof (cases "r > atol_max div 10")
        case True
        then show ?thesis using \<open>is_digit c\<close> by (simp add: is_digit_def Let_def)
      next
        case False
        then have "c_llong (r * 10) = Some (r * 10)" "r * 10 > atol_max - ?d"
          using over Cons.prems(2,3) by (auto simp: int_bounds)
        then show ?thesis using False \<open>is_digit c\<close> by (simp add: is_digit_def Let_def)
      qed
      then show ?thesis using v cl unfolding Let_def V by (simp only: simp_thms)
    next
      case False
      then have "\<not> r > atol_max div 10" "c_llong (r * 10) = Some (r * 10)" "\<not> r * 10 > atol_max - ?d"
        "c_llong (r * 10 + ?d) = Some (r * 10 + ?d)"
        using d Cons.prems(2,3) by (auto simp: int_bounds)
      then have "atol_digits sg r (c # cs) = atol_digits sg (r * 10 + ?d) cs"
        using True by (simp add: is_digit_def)
      then show ?thesis
        using True False Cons.IH [of "r * 10 + ?d"] Cons.prems(1,2) c0 d by simp
    qed
  qed
qed simp

text \<open>The sign read in front of the digits.\<close>

lemma text_value_read_sign:
  assumes "0 \<in> set s"
  obtains sg r where "(skip_spaces s \<bind> read_sign) = Some (sg, r)" and "sg = 1 \<or> sg = -1"
    and "0 \<in> set r" and "text_value s = sg * dec_value 0 (takeWhile is_digit r)"
proof -
  define s1 where "s1 = dropWhile (\<lambda>c. xy_isspace (uint c)) s"
  have s1: "skip_spaces s = Some s1" "0 \<in> set s1" using skip_spaces_eq [OF assms] by (simp_all add: s1_def)
  then obtain c cs where cs: "s1 = c # cs" by (cases s1) auto
  have tv: "text_value s = (if c = 43 then dec_value 0 (takeWhile is_digit cs)
      else if c = 45 then - dec_value 0 (takeWhile is_digit cs) else dec_value 0 (takeWhile is_digit s1))"
    by (simp add: text_value_def Let_def s1_def [symmetric] cs del: takeWhile.simps)
  consider "c = 43" | "c = 45" | "c \<noteq> 43" "c \<noteq> 45" by blast
  then show thesis
  proof cases
    case 1
    then show ?thesis using that [of 1 cs] s1 tv by (simp add: cs)
  next
    case 2
    then show ?thesis using that [of "-1" cs] s1 tv by (simp add: cs)
  next
    case 3
    then show ?thesis using that [of 1 s1] s1 tv by (simp add: cs)
  qed
qed

lemma xy_atoi_sign: "xy_atoi s = do { (sg, r) \<leftarrow> (skip_spaces s \<bind> read_sign); atoi_digits sg 0 r }"
  by (simp add: xy_atoi_def)

lemma xy_atol_sign: "xy_atol s = do { (sg, r) \<leftarrow> (skip_spaces s \<bind> read_sign); atol_digits sg 0 r }"
  by (simp add: xy_atol_def)

lemma atoi_atol_value:
  assumes "0 \<in> set s"
  shows "xy_atoi s = Some (clamp_int (text_value s))
    \<and> xy_atol s = Some (clamp_int (text_value s), text_value s < INT_MIN \<or> text_value s > INT_MAX)"
proof -
  obtain sg r where r: "(skip_spaces s \<bind> read_sign) = Some (sg, r)" "sg = 1 \<or> sg = -1" "0 \<in> set r"
    "text_value s = sg * dec_value 0 (takeWhile is_digit r)"
    using text_value_read_sign [OF assms] by blast
  show ?thesis
    using atoi_digits_clamp [OF r(2) r(3), of 0] atol_digits_clamp [OF r(2) r(3), of 0]
    by (simp add: xy_atoi_sign xy_atol_sign r(1) r(4) [symmetric] Let_def INT_MAX_def atol_max_def INT_MIN_def)
qed

text \<open>
  C14. On every terminated string, whatever it holds, \<open>xy_atoi\<close> and \<open>xy_atol\<close> return without
  undefined behaviour the value of its leading number - spaces, a sign, decimal digits of any
  length - saturated at the ends of the type, and \<open>xy_atol\<close> sets \<open>errno\<close> exactly when it
  saturates.
\<close>
theorem atoi_atol_saturate:
  assumes "0 \<in> set s"
  shows "xy_atoi s = Some (clamp_int (text_value s))
    \<and> xy_atol s = Some (clamp_int (text_value s), text_value s < INT_MIN \<or> text_value s > INT_MAX)"
  using assms by (rule atoi_atol_value)

text \<open>The string \<open> -99999999999x\<close>: the value is below the range.\<close>

lemma atoi_atol_saturate_witness:
  "xy_atol [32, 45, 57, 57, 57, 57, 57, 57, 57, 57, 57, 57, 57, 120, 0] = Some (INT_MIN, True)
   \<and> xy_atoi [32, 45, 57, 57, 57, 57, 57, 57, 57, 57, 57, 57, 57, 120, 0] = Some INT_MIN"
proof -
  define s :: "u8 list" where "s = [32, 45, 57, 57, 57, 57, 57, 57, 57, 57, 57, 57, 57, 120, 0]"
  have "text_value s = -99999999999"
    by (simp add: s_def text_value_def is_digit_def xy_isspace_def xy_isdigit_def)
  then show ?thesis
    using atoi_atol_saturate [of s] unfolding s_def [symmetric] by (simp add: clamp_int_def INT_MIN_def s_def)
qed

subsection \<open>The text of a number\<close>

function digits_lsb :: "int \<Rightarrow> int \<Rightarrow> int list" where
  "digits_lsb b v = (v mod b) # (if 2 \<le> b \<and> 0 < v div b then digits_lsb b (v div b) else [])"
  by pat_completeness auto
termination
proof (relation "measure (\<lambda>(b, v). nat v)", goal_cases)
  case (2 b v)
  then have "b \<le> v" using pos_imp_zdiv_pos_iff [of b v] by simp
  with 2 have "v div b < v" by (intro int_div_less_self) simp_all
  with 2 show ?case by simp
qed simp

declare digits_lsb.simps [simp del]

definition digit_char :: "int \<Rightarrow> u8" where
  "digit_char d = word_of_int (if d < 10 then 48 + d else 87 + d)"

lemma xtoa_char_digit:
  assumes "0 \<le> i" "i < 36"
  shows "xtoa_char i = Some (digit_char i)"
proof -
  obtain k where k: "i = int k" "k < 36" using assms by (metis nat_0_le nat_less_numeral_power_cancel_iff zless_nat_eq_int_zless of_nat_less_numeral_iff)
  have "xtoa_alphabet ! k = digit_char (int k)"
    using k(2) by (simp add: xtoa_alphabet_def nth_append digit_char_def less_diff_conv2 del: upt_rec_numeral)
  then show ?thesis using k by (simp add: xtoa_char_def mem_load_def xtoa_alphabet_def)
qed

lemma sdiv_nonneg: "0 \<le> v \<Longrightarrow> 0 < b \<Longrightarrow> v sdiv b = v div (b :: int)"
  by (cases "v = 0") (simp_all add: signed_divide_int_def)

lemma digits_lsb_bounds: "0 \<le> v \<Longrightarrow> 2 \<le> b \<Longrightarrow> d \<in> set (digits_lsb b v) \<Longrightarrow> 0 \<le> d \<and> d < b"
proof (induction b v rule: digits_lsb.induct)
  case (1 b v)
  then show ?case by (subst (asm) (2) digits_lsb.simps) (auto split: if_splits)
qed

lemma digits_lsb_value:
  "0 \<le> v \<Longrightarrow> 2 \<le> b \<Longrightarrow> foldr (\<lambda>d v. v * b + d) (digits_lsb b v) 0 = v"
proof (induction b v rule: digits_lsb.induct)
  case (1 b v)
  show ?case
  proof (cases "0 < v div b")
    case True
    then show ?thesis using 1 by (subst digits_lsb.simps) simp
  next
    case False
    then have "v div b = 0" using 1 by (meson antisym_conv3 div_int_pos_iff less_le_not_le order_trans zero_le_numeral)
    then show ?thesis using 1 False div_mult_mod_eq [of v b] by (subst digits_lsb.simps) simp
  qed
qed

lemma xtoa_loop_digits:
  assumes "2 \<le> b" "b \<le> 36"
  shows "0 \<le> v \<Longrightarrow> p + length (digits_lsb b v) \<le> length str \<Longrightarrow>
    xtoa_loop v b str p = Some (take p str @ map digit_char (digits_lsb b v)
      @ drop (p + length (digits_lsb b v)) str, p + length (digits_lsb b v))"
  using assms
proof (induction b v arbitrary: str p rule: digits_lsb.induct)
  case (1 b v)
  have d: "digits_lsb b v = (v mod b) # (if 0 < v div b then digits_lsb b (v div b) else [])"
    using 1(4) by (subst digits_lsb.simps) simp
  have p: "p < length str" using 1(3) by (simp add: d)
  have q: "v sdiv b = v div b" using 1 by (intro sdiv_nonneg) simp_all
  have m: "v - v div b * b = v mod b" by (simp add: minus_div_mult_eq_mod)
  have "0 \<le> v mod b" "v mod b < b" using 1(4) by simp_all
  then have c: "xtoa_char (v mod b) = Some (digit_char (v mod b))" using 1(5) by (intro xtoa_char_digit) linarith+
  have step: "xtoa_loop v b str p = (if v div b \<noteq> 0
      then xtoa_loop (v div b) b (str[p := digit_char (v mod b)]) (p + 1)
      else Some (str[p := digit_char (v mod b)], p + 1))"
    using p by (subst xtoa_loop.simps) (simp add: q m c mem_simps)
  have tk: "take (Suc p) (str[p := x]) = take p str @ [x]" for x
    using p by (simp add: take_Suc_conv_app_nth)
  show ?case
  proof (cases "v div b = 0")
    case True
    then show ?thesis using p by (simp add: step d upd_conv_take_nth_drop)
  next
    case False
    then have pos: "0 < v div b" "0 \<le> v div b" using 1(2,4) by (simp_all add: pos_imp_zdiv_nonneg_iff order_less_le)
    have "xtoa_loop (v div b) b (str[p := digit_char (v mod b)]) (Suc p) = Some (take (Suc p) (str[p := digit_char (v mod b)])
        @ map digit_char (digits_lsb b (v div b))
        @ drop (Suc p + length (digits_lsb b (v div b))) (str[p := digit_char (v mod b)]),
      Suc p + length (digits_lsb b (v div b)))"
      using 1(3,4,5) pos by (intro 1(1)) (simp_all add: d)
    then show ?thesis using False pos by (simp add: step d tk)
  qed
qed

declare xtoa_reverse.simps [simp del]

lemma xtoa_reverse_rev:
  "xtoa_reverse (pre @ xs @ post) (length pre) (length pre + length xs - 1) = Some (pre @ rev xs @ post)"
proof (induction "length xs" arbitrary: pre xs post rule: less_induct)
  case less
  show ?case
  proof (cases "length xs < 2")
    case True
    then have "xs = [] \<or> (\<exists>x. xs = [x])" by (cases xs; cases "tl xs") auto
    then show ?thesis by (subst xtoa_reverse.simps) auto
  next
    case False
    then obtain a ys b where xs: "xs = a # ys @ [b]"
      by (metis One_nat_def Suc_1 append_butlast_last_id last_tl length_Cons length_tl lessI list.exhaust_sel
          list.size(3) not_less_eq zero_less_Suc diff_Suc_1 list.collapse)
    have s: "(pre @ a # ys @ b # post)[length pre := x] = pre @ x # ys @ b # post"
      "(pre @ x # ys @ b # post)[Suc (length pre + length ys) := y] = pre @ x # ys @ y # post"
      "(pre @ a # ys @ b # post) ! Suc (length pre + length ys) = b"
      "(pre @ a # ys @ b # post)[Suc (length pre + length ys) := y] = pre @ a # ys @ y # post"
      "(pre @ a # ys @ y # post)[length pre := x] = pre @ x # ys @ y # post" for x y
      by (simp_all add: list_update_append nth_append)
    have "xtoa_reverse ((pre @ [b]) @ ys @ a # post) (length (pre @ [b])) (length (pre @ [b]) + length ys - 1)
        = Some ((pre @ [b]) @ rev ys @ a # post)"
      by (rule less) (simp add: xs)
    then show ?thesis
      by (subst xtoa_reverse.simps) (simp add: xs mem_simps s)
  qed
qed

lemma digits_lsb_nonempty [simp]: "digits_lsb b v \<noteq> []" "0 < length (digits_lsb b v)"
  by (subst digits_lsb.simps, simp)+

lemma xtoa_body_text:
  assumes "2 \<le> b" "b \<le> 36" "0 \<le> v" "p + length (digits_lsb b v) < length str"
  shows "xtoa_body v str b p = Some (take p str @ map digit_char (rev (digits_lsb b v))
    @ 0 # drop (p + length (digits_lsb b v) + 1) str)"
proof -
  let ?n = "length (digits_lsb b v)" and ?ds = "map digit_char (digits_lsb b v)"
  have "xtoa_loop v b str p = Some (take p str @ ?ds @ drop (p + ?n) str, p + ?n)"
    using assms by (intro xtoa_loop_digits) simp_all
  moreover have "(take p str @ ?ds @ drop (p + ?n) str)[p + ?n := 0]
      = take p str @ ?ds @ 0 # drop (p + ?n + 1) str"
    using assms(4) by (simp add: list_update_append Cons_nth_drop_Suc [symmetric])
  moreover have "xtoa_reverse (take p str @ ?ds @ 0 # drop (p + ?n + 1) str) p (p + ?n - 1)
      = Some (take p str @ rev ?ds @ 0 # drop (p + ?n + 1) str)"
    using xtoa_reverse_rev [of "take p str" ?ds "0 # drop (p + ?n + 1) str"] assms(4) by simp
  ultimately show ?thesis using assms(4) by (simp add: xtoa_body_def mem_simps rev_map)
qed

lemma digits_lsb_length:
  "0 \<le> v \<Longrightarrow> 2 \<le> b \<Longrightarrow> v < b ^ Suc n \<Longrightarrow> length (digits_lsb b v) \<le> Suc n"
proof (induction n arbitrary: v)
  case 0
  then show ?case by (subst digits_lsb.simps) simp
next
  case (Suc n)
  have "v div b * b + v mod b < b ^ Suc n * b" using Suc.prems(3) by (simp add: mult.commute)
  then have "v div b * b < b ^ Suc n * b" using pos_mod_sign [of b v] Suc.prems(2) by linarith
  then have "v div b < b ^ Suc n" using Suc.prems(2) by (simp add: mult.commute)
  moreover have "0 \<le> v div b" using Suc.prems by (simp add: pos_imp_zdiv_nonneg_iff)
  ultimately have "length (digits_lsb b (v div b)) \<le> Suc n" using Suc by blast
  then show ?case by (subst digits_lsb.simps) simp
qed

lemma digits_value: "0 \<le> v \<Longrightarrow> 2 \<le> b \<Longrightarrow> foldl (\<lambda>v d. v * b + d) 0 (rev (digits_lsb b v)) = v"
  by (simp add: foldl_conv_foldr digits_lsb_value)

lemma uint_digit_char:
  assumes "0 \<le> d" "d < 36" shows "uint (digit_char d) = (if d < 10 then 48 + d else 87 + d)"
  using assms by (simp add: digit_char_def uint_word_of_int)

lemma digit_char_simps:
  assumes "0 \<le> d" "d < 16"
  shows "digit_char d \<noteq> 0" "strto_digit (digit_char d) = Some d" "xy_isspace (uint (digit_char d)) = False"
    "digit_char d \<noteq> 43" "digit_char d \<noteq> 45" "digit_char d \<noteq> 120" "digit_char d \<noteq> 88"
proof -
  have u: "uint (digit_char d) = (if d < 10 then 48 + d else 87 + d)" using assms by (simp add: uint_digit_char)
  show "xy_isspace (uint (digit_char d)) = False" using assms by (simp add: u xy_isspace_def)
  show "strto_digit (digit_char d) = Some d"
    using assms by (auto simp: strto_digit_def u xy_isdigit_def xy_isxdigit_def xy_toupper_def xy_islower_def)
  show "digit_char d \<noteq> 0" "digit_char d \<noteq> 43" "digit_char d \<noteq> 45" "digit_char d \<noteq> 120" "digit_char d \<noteq> 88"
    using u assms by (auto split: if_splits)
qed

lemma foldl_digits_ge:
  "\<forall>d \<in> set ds. 0 \<le> d \<Longrightarrow> 1 \<le> b \<Longrightarrow> 0 \<le> r \<Longrightarrow> r \<le> foldl (\<lambda>v d. v * b + d) r (ds :: int list)"
proof (induction ds arbitrary: r)
  case (Cons d ds)
  have "r * 1 \<le> r * b" using Cons.prems by (intro mult_left_mono) simp_all
  then have "r \<le> r * b + d" using Cons.prems by simp
  moreover have "r * b + d \<le> foldl (\<lambda>v d. v * b + d) (r * b + d) ds"
    using Cons calculation by simp
  ultimately show ?case by simp
qed simp

lemma strto_digits_text:
  assumes "1 \<le> b" "b \<le> 16"
  shows "\<forall>d \<in> set ds. 0 \<le> d \<and> d < b \<Longrightarrow> 0 \<le> r \<Longrightarrow> foldl (\<lambda>v d. v * b + d) r ds < m \<Longrightarrow>
    strto_digits (\<lambda>x. Some (x mod m)) b r (map digit_char ds @ 0 # post)
      = Some (foldl (\<lambda>v d. v * b + d) r ds, 0 # post)"
proof (induction ds arbitrary: r)
  case (Cons d ds)
  have d: "0 \<le> d" "d < 16" "d < b" using Cons.prems(1) assms by auto
  have nn: "0 \<le> r * b + d" using d assms Cons.prems(2) by simp
  have "r * b + d \<le> foldl (\<lambda>v d. v * b + d) (r * b + d) ds"
    using Cons.prems(1) assms nn by (intro foldl_digits_ge) auto
  then have "r * b + d < m" using Cons.prems(3) by simp
  then show ?case using Cons nn d(3) by (simp add: digit_char_simps [OF d(1,2)])
qed simp

lemma dec_value_text:
  "\<forall>d \<in> set ds. 0 \<le> d \<and> d < 10 \<Longrightarrow> dec_value r (map digit_char ds) = foldl (\<lambda>v d. v * 10 + d) r ds"
  by (induction ds arbitrary: r) (simp_all add: uint_digit_char)

lemma takeWhile_text:
  "\<forall>d \<in> set ds. 0 \<le> d \<and> d < 10 \<Longrightarrow> takeWhile is_digit (map digit_char ds @ 0 # post) = map digit_char ds"
  by (induction ds) (simp_all add: is_digit_def xy_isdigit_def uint_digit_char)

text \<open>What \<open>xy_itoa\<close> writes, in both signs, is the text of the number.\<close>

lemma itoa_text:
  assumes "INT_MIN < v" "v \<le> INT_MAX" "12 \<le> length str"
  shows "\<exists>post. xy_itoa v str 10 = Some ((if v < 0 then [45] else [])
      @ map digit_char (rev (digits_lsb 10 \<bar>v\<bar>)) @ 0 # post)
    \<and> length str = (if v < 0 then 1 else 0) + length (digits_lsb 10 \<bar>v\<bar>) + 1 + length post"
proof -
  have len: "length (digits_lsb 10 \<bar>v\<bar>) \<le> Suc 9"
    using assms by (intro digits_lsb_length) (simp_all add: INT_MIN_def INT_MAX_def)
  show ?thesis
  proof (cases "v < 0")
    case True
    have "c_int (- v) = Some \<bar>v\<bar>" using True assms by (simp add: c_int_def INT_MIN_def INT_MAX_def)
    moreover have "take 1 (str[0 := 45]) = [45]" using assms(3) by (cases str) simp_all
    ultimately show ?thesis
      using xtoa_body_text [of 10 "\<bar>v\<bar>" 1 "str[0 := 45]"] True len assms(3)
      by (auto simp: xy_itoa_def mem_store_def)
  next
    case False
    then show ?thesis
      using xtoa_body_text [of 10 "\<bar>v\<bar>" 0 str] len assms(3) by (auto simp: xy_itoa_def)
  qed
qed

lemma atoi_atol_text:
  assumes "INT_MIN < v" "v \<le> INT_MAX"
    and "s = (if v < 0 then [45] else []) @ map digit_char (rev (digits_lsb 10 \<bar>v\<bar>)) @ 0 # post"
  shows "xy_atoi s = Some v \<and> xy_atol s = Some (v, False)"
proof -
  define ds where "ds = rev (digits_lsb 10 \<bar>v\<bar>)"
  have ds: "\<forall>d \<in> set ds. 0 \<le> d \<and> d < 10" using digits_lsb_bounds [of "\<bar>v\<bar>" 10] by (simp add: ds_def)
  have val: "dec_value 0 (takeWhile is_digit (map digit_char ds @ 0 # post)) = \<bar>v\<bar>"
    unfolding takeWhile_text [OF ds] dec_value_text [OF ds] unfolding ds_def by (rule digits_value) simp_all
  have s: "s = (if v < 0 then [45] else []) @ map digit_char ds @ 0 # post" using assms(3) by (simp add: ds_def)
  obtain d t where dt: "ds = d # t" by (cases ds) (simp_all add: ds_def)
  have d: "xy_isspace (uint (digit_char d)) = False" "digit_char d \<noteq> 43" "digit_char d \<noteq> 45"
    using digit_char_simps [of d] ds by (simp_all add: dt)
  have "text_value s = v"
  proof (cases "v < 0")
    case True
    then have "dropWhile (\<lambda>c. xy_isspace (uint c)) s = 45 # map digit_char ds @ 0 # post"
      by (simp add: s xy_isspace_def)
    then show ?thesis using val True by (simp add: text_value_def)
  next
    case False
    then have "dropWhile (\<lambda>c. xy_isspace (uint c)) s = map digit_char ds @ 0 # post" "hd (map digit_char ds @ 0 # post) = digit_char d"
      by (simp_all add: s dt d)
    then show ?thesis using val False d by (simp only: text_value_def Let_def if_False)
  qed
  moreover have "0 \<in> set s" by (simp add: s)
  ultimately show ?thesis using atoi_atol_value [of s] assms(1,2) by (simp add: clamp_int_def)
qed

lemma utoa_text:
  assumes "2 \<le> b" "b \<le> 36" "33 \<le> length str"
  shows "\<exists>post. xy_utoa u str b = Some (map digit_char (rev (digits_lsb b (uint u))) @ 0 # post)
    \<and> length str = length (digits_lsb b (uint u)) + 1 + length post"
proof -
  have "uint u < 2 ^ Suc 31" using uint_lt2p [of u] by simp
  also have "2 ^ Suc 31 \<le> b ^ Suc 31" using assms(1) by (intro power_mono) simp_all
  finally have "length (digits_lsb b (uint u)) \<le> Suc 31" using assms(1) by (intro digits_lsb_length) simp_all
  then show ?thesis using xtoa_body_text [of b "uint u" 0 str] assms by (auto simp: xy_utoa_def)
qed

lemma strtoul_text:
  assumes "2 \<le> b" "b \<le> 16"
  shows "xy_strtoul (map digit_char (rev (digits_lsb b (uint (u :: u32)))) @ 0 # post) b
    = Some (uint u, 0 # post)"
proof -
  define ds where "ds = rev (digits_lsb b (uint u))"
  have ds: "\<forall>d \<in> set ds. 0 \<le> d \<and> d < b" using digits_lsb_bounds [of "uint u" b] assms by (simp add: ds_def)
  have val: "foldl (\<lambda>v d. v * b + d) 0 ds = uint u" using assms by (simp add: ds_def digits_value)
  have read: "strto_digits (\<lambda>x. Some (x mod 2 ^ 32)) b 0 (map digit_char ds @ 0 # post) = Some (uint u, 0 # post)"
    using strto_digits_text [of b ds 0 "2 ^ 32" post] assms ds uint_lt2p [of u] by (simp add: val)
  obtain d t where dt: "ds = d # t" by (cases ds) (simp_all add: ds_def)
  have d: "skip_spaces (map digit_char ds @ 0 # post) = Some (map digit_char ds @ 0 # post)"
    using digit_char_simps [of d] ds assms by (simp add: dt)
  have "strto_prefix b (map digit_char ds @ 0 # post) = Some (b, map digit_char ds @ 0 # post)"
  proof (cases t)
    case Nil
    then show ?thesis using assms by (auto simp: strto_prefix_def dt mem_load_def)
  next
    case (Cons d' t')
    then show ?thesis using assms digit_char_simps [of d'] ds by (auto simp: strto_prefix_def dt mem_load_def)
  qed
  then show ?thesis using d read by (simp add: xy_strtoul_def ds_def [symmetric])
qed

text \<open>
  Numbers survive being written and read: \<open>xy_itoa\<close> in base 10 writes a text from which
  \<open>xy_atoi\<close> and \<open>xy_atol\<close> read the number back, for every \<open>int\<close> but the smallest, and \<open>xy_utoa\<close>
  in a base up to 16 a text that \<open>xy_strtoul\<close> reads back, up to the terminating zero. The
  smallest \<open>int\<close>, and a negative number in another base, are undefined behaviour of \<open>xy_itoa\<close>.
\<close>
theorem number_text_roundtrip:
  assumes "INT_MIN < v" "v \<le> INT_MAX" "2 \<le> b" "b \<le> 16" "33 \<le> length str"
  shows "(\<exists>s'. xy_itoa v str 10 = Some s' \<and> length s' = length str
      \<and> xy_atoi s' = Some v \<and> xy_atol s' = Some (v, False))
    \<and> (\<exists>s' rest. xy_utoa u str b = Some s' \<and> length s' = length str
      \<and> xy_strtoul s' b = Some (uint u, 0 # rest))
    \<and> xy_itoa INT_MIN str 10 = None
    \<and> (b \<noteq> 10 \<longrightarrow> \<not> b dvd v \<longrightarrow> v < 0 \<longrightarrow> xy_itoa v str b = None)"
proof (intro conjI impI)
  show "\<exists>s'. xy_itoa v str 10 = Some s' \<and> length s' = length str
      \<and> xy_atoi s' = Some v \<and> xy_atol s' = Some (v, False)"
    using itoa_text [of v str] assms by (auto simp: atoi_atol_text)
  show "\<exists>s' rest. xy_utoa u str b = Some s' \<and> length s' = length str
      \<and> xy_strtoul s' b = Some (uint u, 0 # rest)"
  proof -
    obtain post where "xy_utoa u str b = Some (map digit_char (rev (digits_lsb b (uint u))) @ 0 # post)"
      "length str = length (digits_lsb b (uint u)) + 1 + length post"
      using utoa_text [of b str u] assms by auto
    then show ?thesis using strtoul_text [of b u post] assms by simp
  qed
  show "xy_itoa INT_MIN str 10 = None"
    using assms(5) by (auto simp: xy_itoa_def INT_MIN_def INT_MAX_def c_int_def mem_simps)
  show "xy_itoa v str b = None" if "b \<noteq> 10" "\<not> b dvd v" "v < 0"
  proof -
    have "v - v sdiv b * b = - ((- v) mod b)"
      using that assms(3) by (simp add: signed_divide_int_def minus_div_mult_eq_mod [symmetric])
    moreover have "0 < (- v) mod b" using that assms(3) by (simp add: order_less_le dvd_eq_mod_eq_0 [symmetric] eq_commute [of 0])
    ultimately have "xtoa_char (v - v sdiv b * b) = None" by (simp add: xtoa_char_def)
    then show ?thesis using that assms(3,4) by (simp add: xy_itoa_def xtoa_body_def xtoa_loop.simps [of v b])
  qed
qed

lemma number_text_roundtrip_witness:
  "\<exists>s'. xy_itoa (-1234567) (replicate 33 0) 10 = Some s' \<and> length s' = 33
      \<and> xy_atoi s' = Some (-1234567) \<and> xy_atol s' = Some (-1234567, False)"
  using number_text_roundtrip [of "-1234567" 16 "replicate 33 0" 0] by (simp add: INT_MIN_def INT_MAX_def)

end
