(* ===== verification/Xy_Stdlib_Sorting.thy ===== *)
theory Xy_Stdlib_Sorting
  imports Xy_Stdlib "HOL-Library.Multiset"
begin

text \<open>
  Sorting and searching of arrays of byte blocks: \<open>xy_qsort\<close> always returns and permutes the
  array, sorts it when the comparison is a total preorder, and \<open>xy_bsearch\<close> finds an element
  exactly when there is one. An array is the concatenation of its elements between the bytes in
  front of it and behind it, so that the recursive calls work on parts of it.
\<close>

subsection \<open>Elements of an array in memory\<close>

abbreviation blocks :: "nat \<Rightarrow> u8 list list \<Rightarrow> bool" where
  "blocks sz xs \<equiv> (\<forall>x \<in> set xs. length x = sz)"

lemma length_concat_blocks: "blocks sz xs \<Longrightarrow> length (concat xs) = length xs * sz"
  by (induction xs) simp_all

lemma concat_split:
  "i < length xs \<Longrightarrow> concat xs = concat (take i xs) @ xs ! i @ concat (drop (Suc i) xs)"
  by (metis concat.simps(2) concat_append id_take_nth_drop)

lemma length_concat_take: "blocks sz xs \<Longrightarrow> i \<le> length xs \<Longrightarrow> length (concat (take i xs)) = i * sz"
  using length_concat_blocks [of "take i xs" sz] by (auto dest: in_set_takeD)

lemma read_block:
  assumes "blocks sz xs" "i < length xs" "length pre = base"
  shows "mem_read (pre @ concat xs @ post) (base + i * sz) sz = Some (xs ! i)"
proof -
  have "length (xs ! i) = sz" "length (concat (take i xs)) = i * sz"
    using assms length_concat_take [of xs sz i] by simp_all
  then show ?thesis using assms(3) by (simp add: concat_split [OF assms(2)] mem_read_def)
qed

lemma swap_bytes_sym: "swap_bytes mem a b n = swap_bytes mem b a n"
proof (induction n arbitrary: mem a b)
  case (Suc n)
  show ?case
    by (cases "a = b") (auto simp: mem_load_def mem_store_def Suc [of _ "Suc a"] list_update_swap)
qed simp

lemma swap_bytes_same: "a + n \<le> length mem \<Longrightarrow> swap_bytes mem a a n = Some mem"
  by (induction n arbitrary: a) (simp_all add: mem_simps)

lemma swap_bytes_apart:
  "length x = n \<Longrightarrow> length y = n \<Longrightarrow>
   swap_bytes (A @ x @ B @ y @ C) (length A) (length A + n + length B) n = Some (A @ y @ B @ x @ C)"
proof (induction n arbitrary: x y A B)
  case (Suc n)
  obtain x1 x' y1 y' where xy: "x = x1 # x'" "y = y1 # y'" "length x' = n" "length y' = n"
    using Suc.prems by (metis Suc_length_conv)
  have s: "(A @ x1 # x' @ B @ y1 # y' @ C) ! (length A + Suc n + length B) = y1"
    "(A @ x1 # x' @ B @ y1 # y' @ C)[length A := y1] = A @ y1 # x' @ B @ y1 # y' @ C"
    "(A @ y1 # x' @ B @ y1 # y' @ C)[length A + Suc n + length B := x1] = A @ y1 # x' @ B @ x1 # y' @ C"
    using xy(3) by (simp_all add: nth_append list_update_append)
  have "swap_bytes ((A @ [y1]) @ x' @ (B @ [x1]) @ y' @ C) (length (A @ [y1]))
      (length (A @ [y1]) + n + length (B @ [x1])) n = Some ((A @ [y1]) @ y' @ (B @ [x1]) @ x' @ C)"
    using xy by (intro Suc.IH) simp_all
  then show ?case using xy s by (simp add: mem_simps)
qed simp

definition swap_at :: "'a list \<Rightarrow> nat \<Rightarrow> nat \<Rightarrow> 'a list" where
  "swap_at xs i j = xs[i := xs ! j, j := xs ! i]"

lemma swap_at_simps [simp]:
  "length (swap_at xs i j) = length xs"
  "i < length xs \<Longrightarrow> j < length xs \<Longrightarrow> mset (swap_at xs i j) = mset xs"
  "i < length xs \<Longrightarrow> j < length xs \<Longrightarrow> set (swap_at xs i j) = set xs"
  by (simp_all add: swap_at_def mset_swap [of j xs i] set_swap)

lemma swap_at_nth:
  "i < length xs \<Longrightarrow> j < length xs \<Longrightarrow>
   swap_at xs i j ! k = (if k = j then xs ! i else if k = i then xs ! j else xs ! k)"
  by (auto simp: swap_at_def nth_list_update)

lemma swap_blocks_less:
  assumes "blocks sz xs" "i < j" "j < length xs" "length pre = base"
  shows "swap_bytes (pre @ concat xs @ post) (base + i * sz) (base + j * sz) sz
    = Some (pre @ concat (swap_at xs i j) @ post)"
proof -
  obtain us x vs where 1: "xs = us @ x # vs" "length us = i"
    using id_take_nth_drop [of i xs] assms(2,3) by force
  obtain ws y zs where 2: "vs = ws @ y # zs" "length ws = j - Suc i"
    using id_take_nth_drop [of "j - Suc i" vs] assms(2,3) 1 by force
  have xs: "xs = us @ x # ws @ y # zs" using 1 2 by simp
  have sw: "swap_at xs i j = us @ y # ws @ x # zs"
  proof -
    have "j = i + Suc (length ws)" using 2(2) assms(2) by simp
    then show ?thesis using 1(2) by (simp add: swap_at_def xs nth_append list_update_append)
  qed
  have ln: "length (concat us) = i * sz" "length (concat ws) = (j - Suc i) * sz"
    using length_concat_blocks [of us sz] length_concat_blocks [of ws sz] assms(1) 1(2) 2(2) by (simp_all add: xs)
  have "base + j * sz = base + i * sz + sz + (j - Suc i) * sz"
  proof -
    have "j = i + 1 + (j - Suc i)" using assms(2) by simp
    then show ?thesis by (metis add.assoc distrib_right mult_1)
  qed
  then show ?thesis
    using swap_bytes_apart [of x sz y "pre @ concat us" "concat ws" "concat zs @ post"] assms(1,4) ln
    by (simp add: sw add.assoc) (simp add: xs)
qed

lemma swap_blocks:
  assumes "blocks sz xs" "i < length xs" "j < length xs" "length pre = base"
  shows "swap_bytes (pre @ concat xs @ post) (base + i * sz) (base + j * sz) sz
    = Some (pre @ concat (swap_at xs i j) @ post)"
proof -
  consider "i < j" | "i = j" | "j < i" by linarith
  then show ?thesis
  proof cases
    case 2
    have "i * sz + sz \<le> length xs * sz"
      using assms(2) by (metis Suc_leI add.commute mult_Suc mult_le_mono1)
    then show ?thesis
      using assms 2 length_concat_blocks [OF assms(1)] by (simp add: swap_bytes_same swap_at_def)
  next
    case 3
    have "swap_at xs i j = swap_at xs j i" using 3 by (simp add: swap_at_def list_update_swap)
    then show ?thesis using swap_blocks_less [OF assms(1) 3 assms(2,4)] by (simp add: swap_bytes_sym)
  qed (simp add: swap_blocks_less assms)
qed

subsection \<open>Partition\<close>

text \<open>
  The invariant of the partition loop on the elements: those before \<open>left\<close> are below the pivot at
  \<open>right\<close>, those from \<open>left\<close> to the loop index are not.
\<close>

definition parted :: "compar \<Rightarrow> nat \<Rightarrow> nat \<Rightarrow> nat \<Rightarrow> u8 list list \<Rightarrow> bool" where
  "parted cmp left k right xs \<longleftrightarrow> left \<le> k \<and> k \<le> right \<and> right < length xs
     \<and> (\<forall>j < left. cmp (xs ! j) (xs ! right) < 0)
     \<and> (\<forall>j. left \<le> j \<and> j < k \<longrightarrow> \<not> cmp (xs ! j) (xs ! right) < 0)"

lemma parted_step:
  assumes "parted cmp left k right xs" "k < right"
  shows "cmp (xs ! k) (xs ! right) < 0 \<Longrightarrow> parted cmp (Suc left) (Suc k) right (swap_at xs k left)"
    and "\<not> cmp (xs ! k) (xs ! right) < 0 \<Longrightarrow> parted cmp left (Suc k) right xs"
  using assms by (auto simp: parted_def swap_at_nth less_Suc_eq)

lemma qsort_partition_blocks:
  assumes "length pre = base"
  shows "parted cmp left k right xs \<Longrightarrow> blocks sz xs \<Longrightarrow>
    \<exists>ys left'. qsort_partition cmp base sz right [k..<right] (pre @ concat xs @ post) left
        = Some (pre @ concat ys @ post, left')
      \<and> parted cmp left' right right ys \<and> mset ys = mset xs \<and> length ys = length xs"
proof (induction "right - k" arbitrary: k left xs)
  case 0
  then have "k = right" by (simp add: parted_def)
  with 0 show ?case by auto
next
  case (Suc n)
  then have k: "k < right" "k < length xs" "right < length xs" "left < length xs" by (auto simp: parted_def)
  have up: "[k..<right] = k # [Suc k..<right]" using k by (simp add: upt_conv_Cons)
  have rd: "mem_read (pre @ concat xs @ post) (base + k * sz) sz = Some (xs ! k)"
    "mem_read (pre @ concat xs @ post) (base + right * sz) sz = Some (xs ! right)"
    using read_block [OF Suc.prems(2) _ assms] k by auto
  show ?case
  proof (cases "cmp (xs ! k) (xs ! right) < 0")
    case True
    have "blocks sz (swap_at xs k left)" using Suc.prems(2) k by simp
    then have "\<exists>ys left'. qsort_partition cmp base sz right [Suc k..<right]
          (pre @ concat (swap_at xs k left) @ post) (Suc left) = Some (pre @ concat ys @ post, left')
        \<and> parted cmp left' right right ys \<and> mset ys = mset (swap_at xs k left)
        \<and> length ys = length (swap_at xs k left)"
      using Suc.hyps(2) k by (intro Suc.hyps(1) parted_step(1) Suc.prems(1) True) simp_all
    then show ?thesis
      using True k swap_blocks [OF Suc.prems(2) _ _ assms, of k left post] by (simp add: up rd)
  next
    case False
    have "\<exists>ys left'. qsort_partition cmp base sz right [Suc k..<right]
          (pre @ concat xs @ post) left = Some (pre @ concat ys @ post, left')
        \<and> parted cmp left' right right ys \<and> mset ys = mset xs \<and> length ys = length xs"
      using Suc.hyps(2) k by (intro Suc.hyps(1) parted_step(2) Suc.prems False) simp_all
    then show ?thesis using False by (simp add: up rd)
  qed
qed

text \<open>One level of the sort: the array becomes smaller elements, the pivot, the others.\<close>

lemma qsort_split:
  assumes "blocks sz xs" "2 \<le> length xs" "length pre = base"
  shows "\<exists>us p vs m1 m2 left.
      swap_bytes (pre @ concat xs @ post) (base + length xs div 2 * sz) (base + (length xs - 1) * sz) sz = Some m1
    \<and> qsort_partition cmp base sz (length xs - 1) [0..<length xs - 1] m1 0 = Some (m2, left)
    \<and> swap_bytes m2 (base + left * sz) (base + (length xs - 1) * sz) sz
        = Some (pre @ concat (us @ p # vs) @ post)
    \<and> length us = left \<and> length vs = length xs - left - 1 \<and> left < length xs
    \<and> mset (us @ p # vs) = mset xs
    \<and> (\<forall>x \<in> set us. cmp x p < 0) \<and> (\<forall>x \<in> set vs. \<not> cmp x p < 0)"
proof -
  let ?r = "length xs - 1"
  define xs1 where "xs1 = swap_at xs (length xs div 2) ?r"
  have s1: "swap_bytes (pre @ concat xs @ post) (base + length xs div 2 * sz) (base + ?r * sz) sz
      = Some (pre @ concat xs1 @ post)"
    unfolding xs1_def using assms(2) by (intro swap_blocks assms(1,3)) simp_all
  have xs1: "blocks sz xs1" "mset xs1 = mset xs" "length xs1 = length xs"
    using assms(1,2) by (simp_all add: xs1_def)
  have "parted cmp 0 0 ?r xs1" using assms(2) xs1 by (simp add: parted_def)
  from qsort_partition_blocks [OF assms(3) this xs1(1), of post] obtain ys left where
    ys: "qsort_partition cmp base sz ?r [0..<?r] (pre @ concat xs1 @ post) 0 = Some (pre @ concat ys @ post, left)"
      "parted cmp left ?r ?r ys" "mset ys = mset xs1" "length ys = length xs1" by blast
  have bl: "blocks sz ys" using xs1(1) ys(3) by (metis set_mset_mset)
  have lt: "left \<le> ?r" "?r < length ys" "left < length ys" using ys(2) by (auto simp: parted_def)
  define zs where "zs = swap_at ys left ?r"
  have s2: "swap_bytes (pre @ concat ys @ post) (base + left * sz) (base + ?r * sz) sz = Some (pre @ concat zs @ post)"
    unfolding zs_def using lt by (intro swap_blocks bl assms(3)) simp_all
  have z: "length zs = length ys" "mset zs = mset ys" "zs ! left = ys ! ?r" using lt by (simp_all add: zs_def swap_at_nth)
  have zs: "zs = take left zs @ zs ! left # drop (Suc left) zs" by (rule id_take_nth_drop) (use lt z in simp)
  have low: "\<forall>x \<in> set (take left zs). cmp x (zs ! left) < 0"
    using ys(2) lt z by (auto simp: in_set_conv_nth parted_def zs_def swap_at_nth)
  have high: "\<not> cmp x (zs ! left) < 0" if "x \<in> set (drop (Suc left) zs)" for x
  proof -
    from that obtain j where j: "x = zs ! (Suc left + j)" "Suc left + j < length zs"
      by (auto simp: in_set_conv_nth)
    then have "x = ys ! (if Suc left + j = ?r then left else Suc left + j)" "Suc left + j \<le> ?r"
      using lt z(1) xs1(3) ys(4) by (auto simp: zs_def swap_at_nth)
    then show ?thesis using ys(2) lt z(3) j(2) by (auto simp: parted_def split: if_splits)
  qed
  show ?thesis
    by (rule exI [of _ "take left zs"], rule exI [of _ "zs ! left"], rule exI [of _ "drop (Suc left) zs"])
      (use s1 s2 ys z zs low high lt xs1 in simp)
qed

subsection \<open>The sort\<close>

text \<open>The result of the comparison orders the elements as a total preorder.\<close>

definition preorder_compar :: "compar \<Rightarrow> u8 list set \<Rightarrow> bool" where
  "preorder_compar cmp S \<longleftrightarrow>
     (\<forall>x \<in> S. \<forall>y \<in> S. \<not> cmp x y < 0 \<longrightarrow> cmp y x \<le> 0)
     \<and> (\<forall>x \<in> S. \<forall>y \<in> S. \<forall>z \<in> S. cmp x y \<le> 0 \<longrightarrow> cmp y z \<le> 0 \<longrightarrow> cmp x z \<le> 0)"

lemma preorder_compar_mono: "preorder_compar cmp S \<Longrightarrow> T \<subseteq> S \<Longrightarrow> preorder_compar cmp T"
  unfolding preorder_compar_def by blast

abbreviation sorted_by :: "compar \<Rightarrow> u8 list list \<Rightarrow> bool" where
  "sorted_by cmp \<equiv> sorted_wrt (\<lambda>x y. cmp x y \<le> 0)"

lemma sorted_by_join:
  assumes "preorder_compar cmp (set (us @ p # vs))" "sorted_by cmp us" "sorted_by cmp vs"
    and "\<forall>x \<in> set us. cmp x p < 0" "\<forall>x \<in> set vs. \<not> cmp x p < 0"
  shows "sorted_by cmp (us @ p # vs)"
proof -
  have lo: "cmp x p \<le> 0" if "x \<in> set us" for x using that assms(4) by force
  have hi: "cmp p y \<le> 0" if "y \<in> set vs" for y using that assms(1,5) by (auto simp: preorder_compar_def)
  have "cmp x y \<le> 0" if "x \<in> set us" "y \<in> set vs" for x y
    using assms(1) lo [OF that(1)] hi [OF that(2)] that unfolding preorder_compar_def by auto
  then show ?thesis using assms(2,3) lo hi by (simp add: sorted_wrt_append)
qed

lemma qsort_blocks:
  "blocks sz xs \<Longrightarrow> \<exists>ys. xy_qsort cmp sz (pre @ concat xs @ post) (length pre) (length xs)
      = Some (pre @ concat ys @ post) \<and> mset ys = mset xs
    \<and> (preorder_compar cmp (set xs) \<longrightarrow> sorted_by cmp ys)"
proof (induction "length xs" arbitrary: xs pre post rule: less_induct)
  case less
  show ?case
  proof (cases "length xs \<le> 1")
    case True
    then have "sorted_by cmp xs" by (cases xs; cases "tl xs") auto
    then show ?thesis using True by (subst xy_qsort.simps) auto
  next
    case False
    then have "2 \<le> length xs" by simp
    from qsort_split [OF less.prems this refl, where cmp = cmp and post = post] obtain us p vs m1 m2 left where
      m: "swap_bytes (pre @ concat xs @ post) (length pre + length xs div 2 * sz) (length pre + (length xs - 1) * sz) sz = Some m1"
        "qsort_partition cmp (length pre) sz (length xs - 1) [0..<length xs - 1] m1 0 = Some (m2, left)"
        "swap_bytes m2 (length pre + left * sz) (length pre + (length xs - 1) * sz) sz = Some (pre @ concat (us @ p # vs) @ post)"
      and l: "length us = left" "length vs = length xs - left - 1" "left < length xs"
      and ms: "mset (us @ p # vs) = mset xs"
      and ord: "\<forall>x \<in> set us. cmp x p < 0" "\<forall>x \<in> set vs. \<not> cmp x p < 0"
      by blast
    have st: "set (us @ p # vs) = set xs" using ms by (metis set_mset_mset)
    then have bl: "blocks sz us" "blocks sz vs" "length p = sz" using less.prems by auto
    obtain us' where us': "xy_qsort cmp sz (pre @ concat us @ p @ concat vs @ post) (length pre) left
          = Some (pre @ concat us' @ p @ concat vs @ post)" "mset us' = mset us"
        "preorder_compar cmp (set us) \<longrightarrow> sorted_by cmp us'"
      using less.hyps [of us pre "p @ concat vs @ post"] l bl by auto
    have lu: "length us' = left" using us'(2) l(1) by (metis size_mset)
    then have cu: "length (concat us') = left * sz"
      using length_concat_blocks [of us' sz] bl(1) us'(2) by (metis set_mset_mset)
    obtain vs' where vs': "xy_qsort cmp sz ((pre @ concat us' @ p) @ concat vs @ post)
          (length (pre @ concat us' @ p)) (length vs) = Some ((pre @ concat us' @ p) @ concat vs' @ post)"
        "mset vs' = mset vs" "preorder_compar cmp (set vs) \<longrightarrow> sorted_by cmp vs'"
    proof -
      have "length vs < length xs" using l by linarith
      from less.hyps [OF this bl(2), of "pre @ concat us' @ p" post] show ?thesis using that by blast
    qed
    have first: "(if left > 0 then xy_qsort cmp sz (pre @ concat (us @ p # vs) @ post) (length pre) left
        else Some (pre @ concat (us @ p # vs) @ post)) = Some (pre @ concat us' @ p @ concat vs @ post)"
      using us'(1,2) l(1) by auto
    have second: "(if left + 1 < length xs then xy_qsort cmp sz (pre @ concat us' @ p @ concat vs @ post)
          (length pre + (left + 1) * sz) (length xs - left - 1)
        else Some (pre @ concat us' @ p @ concat vs @ post)) = Some (pre @ concat (us' @ p # vs') @ post)"
    proof (cases "left + 1 < length xs")
      case True
      then show ?thesis using vs'(1) cu bl(3) l(2) by (simp add: add.assoc add.commute [of sz])
    next
      case False
      then have "vs = []" "vs' = []" using l vs'(2) by auto
      then show ?thesis using False by simp
    qed
    have "xy_qsort cmp sz (pre @ concat xs @ post) (length pre) (length xs) = Some (pre @ concat (us' @ p # vs') @ post)"
      using False by (subst xy_qsort.simps) (simp only: m first second if_False Option.bind.bind_lunit prod.case)
    moreover have "mset (us' @ p # vs') = mset xs" using ms us'(2) vs'(2) by simp
    moreover have "sorted_by cmp (us' @ p # vs')" if "preorder_compar cmp (set xs)"
    proof (rule sorted_by_join)
      have sets: "set us' = set us" "set vs' = set vs" using us'(2) vs'(2) by (metis set_mset_mset)+
      show "preorder_compar cmp (set (us' @ p # vs'))" using that st sets by simp
      show "sorted_by cmp us'" "sorted_by cmp vs'"
        using us'(3) vs'(3) preorder_compar_mono [OF that] st by auto
      show "\<forall>x \<in> set us'. cmp x p < 0" "\<forall>x \<in> set vs'. \<not> cmp x p < 0" using ord sets by simp_all
    qed
    ultimately show ?thesis by blast
  qed
qed

text \<open>
  C15. On every array of equal blocks in memory, and whatever the comparison answers, \<open>xy_qsort\<close>
  returns, leaves the bytes around the array alone and permutes its elements. If the comparison is
  a total preorder on them the result is in ascending order.
\<close>
theorem qsort_sorts:
  assumes "\<forall>x \<in> set xs. length x = sz"
  shows "\<exists>ys. xy_qsort cmp sz (pre @ concat xs @ post) (length pre) (length xs) = Some (pre @ concat ys @ post)
    \<and> mset ys = mset xs
    \<and> (preorder_compar cmp (set xs) \<longrightarrow> sorted_by cmp ys)"
  using assms by (rule qsort_blocks)

text \<open>Three two-byte elements compared by their first byte, between two bytes.\<close>

lemma qsort_sorts_witness:
  "\<exists>ys. xy_qsort (\<lambda>x y. uint (hd x) - uint (hd y)) 2 ([9] @ concat [[3, 0], [1, 7], [2, 5]] @ [8]) 1 3
      = Some ([9] @ concat ys @ [8]) \<and> mset ys = mset [[3, 0], [1, 7], [2, 5]]
    \<and> sorted_by (\<lambda>x y. uint (hd x) - uint (hd y)) ys"
proof -
  have "preorder_compar (\<lambda>x y. uint (hd x) - uint (hd y)) (set [[3, 0], [1, 7], [2, 5 :: u8]])"
    by (simp add: preorder_compar_def)
  then show ?thesis
    using qsort_sorts [of "[[3, 0], [1, 7], [2, 5 :: u8]]" 2 "\<lambda>x y. uint (hd x) - uint (hd y)" "[9]" "[8]"]
    by (simp add: eval_nat_numeral)
qed

subsection \<open>Binary search\<close>

text \<open>The key splits the elements: those it is above, those it equals, those it is below.\<close>

definition key_splits :: "('k \<Rightarrow> u8 list \<Rightarrow> int) \<Rightarrow> 'k \<Rightarrow> u8 list list \<Rightarrow> bool" where
  "key_splits cmp key xs \<longleftrightarrow> (\<forall>i j. i < j \<longrightarrow> j < length xs \<longrightarrow>
     (cmp key (xs ! i) < 0 \<longrightarrow> cmp key (xs ! j) < 0) \<and> (cmp key (xs ! j) > 0 \<longrightarrow> cmp key (xs ! i) > 0))"

lemma read_block0: "blocks sz xs \<Longrightarrow> i < length xs \<Longrightarrow> mem_read (concat xs @ post) (i * sz) sz = Some (xs ! i)"
  using read_block [where pre = "[]" and base = 0 and post = post] by simp

declare bsearch_loop.simps [simp del]

lemma bsearch_loop_blocks:
  assumes "blocks sz xs" "key_splits cmp key xs"
  shows "high \<le> length xs \<Longrightarrow>
    (\<forall>i < low. cmp key (xs ! i) > 0) \<Longrightarrow> (\<forall>i. high \<le> i \<and> i < length xs \<longrightarrow> cmp key (xs ! i) < 0) \<Longrightarrow>
    (\<exists>m < length xs. cmp key (xs ! m) = 0 \<and> bsearch_loop cmp key (concat xs @ post) sz low high = Some (Some (m * sz)))
    \<or> (\<forall>x \<in> set xs. cmp key x \<noteq> 0) \<and> bsearch_loop cmp key (concat xs @ post) sz low high = Some None"
proof (induction "high - low" arbitrary: low high rule: less_induct)
  case less
  show ?case
  proof (cases "low < high")
    case False
    then have "cmp key (xs ! i) \<noteq> 0" if "i < length xs" for i
      using less.prems(2,3) that by (metis less_irrefl not_less order_less_le_trans)
    then show ?thesis
      using False by (auto simp: in_set_conv_nth bsearch_loop.simps [where low = low and high = high])
  next
    case True
    define mid where "mid = low + (high - low) div 2"
    have mid: "low \<le> mid" "mid < high" "mid < length xs" using True less.prems(1) by (auto simp: mid_def)
    have step: "bsearch_loop cmp key (concat xs @ post) sz low high =
        (if cmp key (xs ! mid) = 0 then Some (Some (mid * sz))
         else if cmp key (xs ! mid) < 0 then bsearch_loop cmp key (concat xs @ post) sz low mid
         else bsearch_loop cmp key (concat xs @ post) sz (mid + 1) high)"
      using True read_block0 [OF assms(1) mid(3), of post]
      by (subst bsearch_loop.simps) (simp add: mid_def [symmetric] Let_def)
    consider "cmp key (xs ! mid) = 0" | "cmp key (xs ! mid) < 0" | "cmp key (xs ! mid) > 0" by linarith
    then show ?thesis
    proof cases
      case 1
      then show ?thesis using step mid by auto
    next
      case 2
      have "\<forall>i. mid \<le> i \<and> i < length xs \<longrightarrow> cmp key (xs ! i) < 0"
        using 2 assms(2) unfolding key_splits_def by (metis le_neq_implies_less)
      moreover have "mid - low < high - low" "mid \<le> length xs" using mid by simp_all
      ultimately show ?thesis using less.hyps [of mid low] less.prems(2) 2 by (simp add: step)
    next
      case 3
      then have stp: "bsearch_loop cmp key (concat xs @ post) sz low high
          = bsearch_loop cmp key (concat xs @ post) sz (mid + 1) high" by (simp add: step)
      have "\<forall>i < mid + 1. cmp key (xs ! i) > 0"
        using 3 assms(2) mid unfolding key_splits_def by (metis less_Suc_eq add.commute plus_1_eq_Suc)
      moreover have "high - (mid + 1) < high - low" using mid by simp
      ultimately show ?thesis using less.hyps [of high "mid + 1"] less.prems(1,3) by (simp add: stp)
    qed
  qed
qed

text \<open>
  On an array in the order of the key, \<open>xy_bsearch\<close> returns the address of an element that
  compares equal to the key if there is one, and \<open>NULL\<close> otherwise; it never reads outside the
  array.
\<close>
theorem bsearch_finds:
  assumes "\<forall>x \<in> set xs. length x = sz" "key_splits cmp key xs"
  shows "if \<exists>x \<in> set xs. cmp key x = 0
    then \<exists>m < length xs. cmp key (xs ! m) = 0 \<and> xy_bsearch key (concat xs @ post) (length xs) sz cmp = Some (Some (m * sz))
    else xy_bsearch key (concat xs @ post) (length xs) sz cmp = Some None"
proof -
  have "(\<exists>m < length xs. cmp key (xs ! m) = 0 \<and> bsearch_loop cmp key (concat xs @ post) sz 0 (length xs) = Some (Some (m * sz)))
    \<or> (\<forall>x \<in> set xs. cmp key x \<noteq> 0) \<and> bsearch_loop cmp key (concat xs @ post) sz 0 (length xs) = Some None"
    using assms by (intro bsearch_loop_blocks) simp_all
  then show ?thesis by (auto simp: xy_bsearch_def)
qed

lemma bsearch_finds_witness:
  "\<exists>m < 3. uint (hd ([[1, 7], [2, 5], [3, 0 :: u8]] ! m)) = 2
    \<and> xy_bsearch (2 :: int) (concat [[1, 7], [2, 5], [3, 0]] @ []) 3 2 (\<lambda>k x. k - uint (hd x)) = Some (Some (m * 2))"
proof -
  have "key_splits (\<lambda>k x. k - uint (hd x)) 2 [[1, 7], [2, 5], [3, 0 :: u8]]"
    by (auto simp: key_splits_def nth_Cons')
  moreover have "\<exists>x \<in> set [[1, 7], [2, 5], [3, 0 :: u8]]. 2 - uint (hd x) = 0" by simp
  moreover have "length [[1, 7], [2, 5], [3, 0 :: u8]] = 3" by simp
  moreover have "(2 - z = 0) = (z = 2)" for z :: int by linarith
  ultimately show ?thesis
    using bsearch_finds [of "[[1, 7], [2, 5], [3, 0 :: u8]]" 2 "\<lambda>k x. k - uint (hd x)" 2 "[]"] by (simp add: numeral_3_eq_3)
qed

end
