(* ===== verification/Xy_String.thy ===== *)
theory Xy_String
  imports Xy_Prelude
begin

text \<open>
  The memory and string functions of \<open>components/clib/xy_clib/xy_string.c\<close>.

  A string is the list of bytes from the pointer to the end of the object it points into; a pointer
  into it that is returned is an offset. Reading past the end of the object is \<open>None\<close>. A plain
  \<open>char\<close> is unsigned, as on the ARM targets of the project. Pointers that the code compares with
  \<open>NULL\<close> are options.
\<close>

subsection \<open>Character attributes\<close>

definition XY_CATTR_NONE :: u8 where "XY_CATTR_NONE = 0x00"
definition XY_CATTR_ALPHA :: u8 where "XY_CATTR_ALPHA = 0x01"
definition XY_CATTR_LOWER :: u8 where "XY_CATTR_LOWER = 0x02"
definition XY_CATTR_UPPER :: u8 where "XY_CATTR_UPPER = 0x04"
definition XY_CATTR_DIGIT :: u8 where "XY_CATTR_DIGIT = 0x08"
definition XY_CATTR_XDIGIT :: u8 where "XY_CATTR_XDIGIT = 0x10"
definition XY_CATTR_WHSPACE :: u8 where "XY_CATTR_WHSPACE = 0x20"
definition XY_CATTR_FILENM83 :: u8 where "XY_CATTR_FILENM83 = 0x80"

lemmas cattr_defs = XY_CATTR_NONE_def XY_CATTR_ALPHA_def XY_CATTR_LOWER_def XY_CATTR_UPPER_def
  XY_CATTR_DIGIT_def XY_CATTR_XDIGIT_def XY_CATTR_WHSPACE_def XY_CATTR_FILENM83_def

text \<open>The table has 256 entries; the initialiser gives the first 128, the others are zero.\<close>

definition am_cattr :: "u8 list" where
  "am_cattr = [
    XY_CATTR_NONE, XY_CATTR_NONE, XY_CATTR_NONE, XY_CATTR_NONE, XY_CATTR_NONE, XY_CATTR_NONE,
    XY_CATTR_NONE, XY_CATTR_NONE, XY_CATTR_NONE, XY_CATTR_WHSPACE, XY_CATTR_WHSPACE,
    XY_CATTR_WHSPACE, XY_CATTR_WHSPACE, XY_CATTR_WHSPACE, XY_CATTR_NONE, XY_CATTR_NONE,
    XY_CATTR_NONE, XY_CATTR_NONE, XY_CATTR_NONE, XY_CATTR_NONE, XY_CATTR_NONE, XY_CATTR_NONE,
    XY_CATTR_NONE, XY_CATTR_NONE, XY_CATTR_NONE, XY_CATTR_NONE, XY_CATTR_NONE, XY_CATTR_NONE,
    XY_CATTR_NONE, XY_CATTR_NONE, XY_CATTR_NONE, XY_CATTR_NONE, XY_CATTR_WHSPACE,
    XY_CATTR_FILENM83, XY_CATTR_NONE, XY_CATTR_FILENM83, XY_CATTR_FILENM83, XY_CATTR_FILENM83,
    XY_CATTR_FILENM83, XY_CATTR_FILENM83, XY_CATTR_FILENM83, XY_CATTR_FILENM83, XY_CATTR_NONE,
    XY_CATTR_NONE, XY_CATTR_NONE, XY_CATTR_FILENM83, XY_CATTR_FILENM83, XY_CATTR_NONE,
    XY_CATTR_DIGIT OR XY_CATTR_XDIGIT OR XY_CATTR_FILENM83,
    XY_CATTR_DIGIT OR XY_CATTR_XDIGIT OR XY_CATTR_FILENM83,
    XY_CATTR_DIGIT OR XY_CATTR_XDIGIT OR XY_CATTR_FILENM83,
    XY_CATTR_DIGIT OR XY_CATTR_XDIGIT OR XY_CATTR_FILENM83,
    XY_CATTR_DIGIT OR XY_CATTR_XDIGIT OR XY_CATTR_FILENM83,
    XY_CATTR_DIGIT OR XY_CATTR_XDIGIT OR XY_CATTR_FILENM83,
    XY_CATTR_DIGIT OR XY_CATTR_XDIGIT OR XY_CATTR_FILENM83,
    XY_CATTR_DIGIT OR XY_CATTR_XDIGIT OR XY_CATTR_FILENM83,
    XY_CATTR_DIGIT OR XY_CATTR_XDIGIT OR XY_CATTR_FILENM83,
    XY_CATTR_DIGIT OR XY_CATTR_XDIGIT OR XY_CATTR_FILENM83, XY_CATTR_NONE, XY_CATTR_NONE,
    XY_CATTR_NONE, XY_CATTR_NONE, XY_CATTR_NONE, XY_CATTR_NONE, XY_CATTR_FILENM83,
    XY_CATTR_ALPHA OR XY_CATTR_UPPER OR XY_CATTR_XDIGIT OR XY_CATTR_FILENM83,
    XY_CATTR_ALPHA OR XY_CATTR_UPPER OR XY_CATTR_XDIGIT OR XY_CATTR_FILENM83,
    XY_CATTR_ALPHA OR XY_CATTR_UPPER OR XY_CATTR_XDIGIT OR XY_CATTR_FILENM83,
    XY_CATTR_ALPHA OR XY_CATTR_UPPER OR XY_CATTR_XDIGIT OR XY_CATTR_FILENM83,
    XY_CATTR_ALPHA OR XY_CATTR_UPPER OR XY_CATTR_XDIGIT OR XY_CATTR_FILENM83,
    XY_CATTR_ALPHA OR XY_CATTR_UPPER OR XY_CATTR_XDIGIT OR XY_CATTR_FILENM83,
    XY_CATTR_ALPHA OR XY_CATTR_UPPER OR XY_CATTR_FILENM83,
    XY_CATTR_ALPHA OR XY_CATTR_UPPER OR XY_CATTR_FILENM83,
    XY_CATTR_ALPHA OR XY_CATTR_UPPER OR XY_CATTR_FILENM83,
    XY_CATTR_ALPHA OR XY_CATTR_UPPER OR XY_CATTR_FILENM83,
    XY_CATTR_ALPHA OR XY_CATTR_UPPER OR XY_CATTR_FILENM83,
    XY_CATTR_ALPHA OR XY_CATTR_UPPER OR XY_CATTR_FILENM83,
    XY_CATTR_ALPHA OR XY_CATTR_UPPER OR XY_CATTR_FILENM83,
    XY_CATTR_ALPHA OR XY_CATTR_UPPER OR XY_CATTR_FILENM83,
    XY_CATTR_ALPHA OR XY_CATTR_UPPER OR XY_CATTR_FILENM83,
    XY_CATTR_ALPHA OR XY_CATTR_UPPER OR XY_CATTR_FILENM83,
    XY_CATTR_ALPHA OR XY_CATTR_UPPER OR XY_CATTR_FILENM83,
    XY_CATTR_ALPHA OR XY_CATTR_UPPER OR XY_CATTR_FILENM83,
    XY_CATTR_ALPHA OR XY_CATTR_UPPER OR XY_CATTR_FILENM83,
    XY_CATTR_ALPHA OR XY_CATTR_UPPER OR XY_CATTR_FILENM83,
    XY_CATTR_ALPHA OR XY_CATTR_UPPER OR XY_CATTR_FILENM83,
    XY_CATTR_ALPHA OR XY_CATTR_UPPER OR XY_CATTR_FILENM83,
    XY_CATTR_ALPHA OR XY_CATTR_UPPER OR XY_CATTR_FILENM83,
    XY_CATTR_ALPHA OR XY_CATTR_UPPER OR XY_CATTR_FILENM83,
    XY_CATTR_ALPHA OR XY_CATTR_UPPER OR XY_CATTR_FILENM83,
    XY_CATTR_ALPHA OR XY_CATTR_UPPER OR XY_CATTR_FILENM83, XY_CATTR_NONE, XY_CATTR_NONE,
    XY_CATTR_NONE, XY_CATTR_FILENM83, XY_CATTR_FILENM83, XY_CATTR_FILENM83,
    XY_CATTR_ALPHA OR XY_CATTR_LOWER OR XY_CATTR_XDIGIT OR XY_CATTR_FILENM83,
    XY_CATTR_ALPHA OR XY_CATTR_LOWER OR XY_CATTR_XDIGIT OR XY_CATTR_FILENM83,
    XY_CATTR_ALPHA OR XY_CATTR_LOWER OR XY_CATTR_XDIGIT OR XY_CATTR_FILENM83,
    XY_CATTR_ALPHA OR XY_CATTR_LOWER OR XY_CATTR_XDIGIT OR XY_CATTR_FILENM83,
    XY_CATTR_ALPHA OR XY_CATTR_LOWER OR XY_CATTR_XDIGIT OR XY_CATTR_FILENM83,
    XY_CATTR_ALPHA OR XY_CATTR_LOWER OR XY_CATTR_XDIGIT OR XY_CATTR_FILENM83,
    XY_CATTR_ALPHA OR XY_CATTR_LOWER OR XY_CATTR_FILENM83,
    XY_CATTR_ALPHA OR XY_CATTR_LOWER OR XY_CATTR_FILENM83,
    XY_CATTR_ALPHA OR XY_CATTR_LOWER OR XY_CATTR_FILENM83,
    XY_CATTR_ALPHA OR XY_CATTR_LOWER OR XY_CATTR_FILENM83,
    XY_CATTR_ALPHA OR XY_CATTR_LOWER OR XY_CATTR_FILENM83,
    XY_CATTR_ALPHA OR XY_CATTR_LOWER OR XY_CATTR_FILENM83,
    XY_CATTR_ALPHA OR XY_CATTR_LOWER OR XY_CATTR_FILENM83,
    XY_CATTR_ALPHA OR XY_CATTR_LOWER OR XY_CATTR_FILENM83,
    XY_CATTR_ALPHA OR XY_CATTR_LOWER OR XY_CATTR_FILENM83,
    XY_CATTR_ALPHA OR XY_CATTR_LOWER OR XY_CATTR_FILENM83,
    XY_CATTR_ALPHA OR XY_CATTR_LOWER OR XY_CATTR_FILENM83,
    XY_CATTR_ALPHA OR XY_CATTR_LOWER OR XY_CATTR_FILENM83,
    XY_CATTR_ALPHA OR XY_CATTR_LOWER OR XY_CATTR_FILENM83,
    XY_CATTR_ALPHA OR XY_CATTR_LOWER OR XY_CATTR_FILENM83,
    XY_CATTR_ALPHA OR XY_CATTR_LOWER OR XY_CATTR_FILENM83,
    XY_CATTR_ALPHA OR XY_CATTR_LOWER OR XY_CATTR_FILENM83,
    XY_CATTR_ALPHA OR XY_CATTR_LOWER OR XY_CATTR_FILENM83,
    XY_CATTR_ALPHA OR XY_CATTR_LOWER OR XY_CATTR_FILENM83,
    XY_CATTR_ALPHA OR XY_CATTR_LOWER OR XY_CATTR_FILENM83,
    XY_CATTR_ALPHA OR XY_CATTR_LOWER OR XY_CATTR_FILENM83, XY_CATTR_FILENM83, XY_CATTR_NONE,
    XY_CATTR_FILENM83, XY_CATTR_FILENM83, XY_CATTR_NONE] @ replicate 128 0"

subsection \<open>Memory\<close>

text \<open>The destination is an object and an offset, the source the bytes from its pointer on.\<close>

fun memset_loop :: "u8 list \<Rightarrow> nat \<Rightarrow> u8 \<Rightarrow> nat \<Rightarrow> u8 list option" where
  "memset_loop mem p val 0 = Some mem"
| "memset_loop mem p val (Suc len) = do {
     mem' \<leftarrow> mem_store mem p val;
     memset_loop mem' (p + 1) val len }"

definition xy_memset :: "u8 list \<Rightarrow> nat \<Rightarrow> u8 \<Rightarrow> u32 \<Rightarrow> u8 list option" where
  "xy_memset mem dst val len = memset_loop mem dst val (unat len)"

fun memcmp_loop :: "u8 list \<Rightarrow> u8 list \<Rightarrow> nat \<Rightarrow> nat \<Rightarrow> int option" where
  "memcmp_loop s1 s2 i 0 = Some 0"
| "memcmp_loop s1 s2 i (Suc n) = do {
     a \<leftarrow> mem_load s1 i;
     b \<leftarrow> mem_load s2 i;
     if a \<noteq> b then Some (uint a - uint b) else memcmp_loop s1 s2 (i + 1) n }"

definition xy_memcmp :: "u8 list \<Rightarrow> u8 list \<Rightarrow> u32 \<Rightarrow> int option" where
  "xy_memcmp s1 s2 n = memcmp_loop s1 s2 0 (unat n)"

fun memcpy_loop :: "u8 list \<Rightarrow> nat \<Rightarrow> u8 list \<Rightarrow> nat \<Rightarrow> nat \<Rightarrow> u8 list option" where
  "memcpy_loop mem dst src i 0 = Some mem"
| "memcpy_loop mem dst src i (Suc n) = do {
     c \<leftarrow> mem_load src i;
     mem' \<leftarrow> mem_store mem (dst + i) c;
     memcpy_loop mem' dst src (i + 1) n }"

definition xy_memcpy :: "u8 list \<Rightarrow> nat \<Rightarrow> u8 list \<Rightarrow> u32 \<Rightarrow> u8 list option" where
  "xy_memcpy mem dst src n = memcpy_loop mem dst src 0 (unat n)"

text \<open>Both pointers of \<open>xy_memmove\<close> are offsets into the same object.\<close>

fun move_forward :: "u8 list \<Rightarrow> nat \<Rightarrow> nat \<Rightarrow> nat \<Rightarrow> u8 list option" where
  "move_forward mem d s 0 = Some mem"
| "move_forward mem d s (Suc n) = do {
     c \<leftarrow> mem_load mem s;
     mem' \<leftarrow> mem_store mem d c;
     move_forward mem' (d + 1) (s + 1) n }"

fun move_backward :: "u8 list \<Rightarrow> nat \<Rightarrow> nat \<Rightarrow> nat \<Rightarrow> u8 list option" where
  "move_backward mem d s 0 = Some mem"
| "move_backward mem d s (Suc n) = do {
     c \<leftarrow> mem_load mem (s - 1);
     mem' \<leftarrow> mem_store mem (d - 1) c;
     move_backward mem' (d - 1) (s - 1) n }"

definition xy_memmove :: "u8 list \<Rightarrow> nat \<Rightarrow> nat \<Rightarrow> nat \<Rightarrow> u8 list option" where
  "xy_memmove mem dest src n =
     (if dest = src \<or> n = 0 then Some mem
      else if dest < src then move_forward mem dest src n
      else move_backward mem (dest + n) (src + n) n)"

fun memchr_loop :: "u8 list \<Rightarrow> nat \<Rightarrow> u8 \<Rightarrow> nat \<Rightarrow> nat option option" where
  "memchr_loop s p ch 0 = Some None"
| "memchr_loop s p ch (Suc n) = do {
     c \<leftarrow> mem_load s p;
     if c = ch then Some (Some p) else memchr_loop s (p + 1) ch n }"

definition xy_memchr :: "u8 list \<Rightarrow> int \<Rightarrow> nat \<Rightarrow> nat option option" where
  "xy_memchr s c n = memchr_loop s 0 (word_of_int c) n"

fun memrchr_loop :: "u8 list \<Rightarrow> u8 \<Rightarrow> nat \<Rightarrow> nat option option" where
  "memrchr_loop s ch 0 = Some None"
| "memrchr_loop s ch (Suc n) = do {
     c \<leftarrow> mem_load s n;
     if c = ch then Some (Some n) else memrchr_loop s ch n }"

definition xy_memrchr :: "u8 list \<Rightarrow> int \<Rightarrow> nat \<Rightarrow> nat option option" where
  "xy_memrchr s c n = memrchr_loop s (word_of_int c) n"

subsection \<open>Lengths and comparisons\<close>

fun xy_strlen :: "u8 list \<Rightarrow> nat option" where
  "xy_strlen [] = None"
| "xy_strlen (c # cs) = (if c = 0 then Some 0 else map_option Suc (xy_strlen cs))"

fun xy_strnlen :: "u8 list \<Rightarrow> nat \<Rightarrow> nat option" where
  "xy_strnlen s 0 = Some 0"
| "xy_strnlen [] (Suc maxlen) = None"
| "xy_strnlen (c # cs) (Suc maxlen) = (if c = 0 then Some 0 else map_option Suc (xy_strnlen cs maxlen))"

fun xy_strncmp :: "u8 list \<Rightarrow> u8 list \<Rightarrow> u32 \<Rightarrow> int option" where
  "xy_strncmp (a # as) (b # bs) num =
     (if num = 0 then Some 0
      else if a \<noteq> b \<or> a = 0 then Some (uint a - uint b)
      else xy_strncmp as bs (num - 1))"
| "xy_strncmp _ _ num = (if num = 0 then Some 0 else None)"

definition xy_strcmp :: "u8 list \<Rightarrow> u8 list \<Rightarrow> int option" where
  "xy_strcmp str1 str2 = xy_strncmp str1 str2 0xffffffff"

text \<open>The case conversions of the two families: by the table, and by the range of letters.\<close>

definition stricmp_lower :: "u8 \<Rightarrow> u8 option" where
  "stricmp_lower c = do {
     a \<leftarrow> mem_load am_cattr (unat c);
     Some (c OR (if a AND XY_CATTR_UPPER \<noteq> 0 then 0x20 else 0x00)) }"

fun xy_stricmp :: "u8 list \<Rightarrow> u8 list \<Rightarrow> int option" where
  "xy_stricmp (a # as) (b # bs) =
     (if a \<noteq> 0 \<and> b \<noteq> 0 then do {
        c1 \<leftarrow> stricmp_lower a;
        c2 \<leftarrow> stricmp_lower b;
        if c1 \<noteq> c2 then Some (uint c1 - uint c2) else xy_stricmp as bs }
      else Some (uint a - uint b))"
| "xy_stricmp _ _ = None"

definition case_lower :: "u8 \<Rightarrow> u8" where
  "case_lower c = (if c \<ge> 65 \<and> c \<le> 90 then c + 32 else c)"

fun xy_strcasecmp :: "u8 list \<Rightarrow> u8 list \<Rightarrow> int option" where
  "xy_strcasecmp (a # as) (b # bs) =
     (if a \<noteq> 0 \<and> b \<noteq> 0 then
        if case_lower a \<noteq> case_lower b then Some (uint (case_lower a) - uint (case_lower b))
        else xy_strcasecmp as bs
      else Some (uint (case_lower a) - uint (case_lower b)))"
| "xy_strcasecmp _ _ = None"

text \<open>
  The counter of the loop is decremented when it is tested, also when the loop ends: it wraps to
  \<open>0xffffffff\<close> when it was 0. The first argument is its value after the test.
\<close>

definition strncasecmp_end :: "u32 \<Rightarrow> u8 list \<Rightarrow> u8 list \<Rightarrow> int option" where
  "strncasecmp_end n s1 s2 =
     (if n = 0 then Some 0
      else do {
        a \<leftarrow> mem_load s1 0;
        b \<leftarrow> mem_load s2 0;
        Some (uint (case_lower a) - uint (case_lower b)) })"

fun strncasecmp_loop :: "u8 list \<Rightarrow> u8 list \<Rightarrow> u32 \<Rightarrow> int option" where
  "strncasecmp_loop (a # as) (b # bs) n =
     (if n \<noteq> 0 \<and> a \<noteq> 0 \<and> b \<noteq> 0 then
        if case_lower a \<noteq> case_lower b then Some (uint (case_lower a) - uint (case_lower b))
        else strncasecmp_loop as bs (n - 1)
      else strncasecmp_end (n - 1) (a # as) (b # bs))"
| "strncasecmp_loop (a # as) [] n =
     (if n \<noteq> 0 \<and> a = 0 then strncasecmp_end (n - 1) (a # as) [] else None)"
| "strncasecmp_loop [] s2 n = None"

definition xy_strncasecmp :: "u8 list \<Rightarrow> u8 list \<Rightarrow> u32 \<Rightarrow> int option" where
  "xy_strncasecmp s1 s2 n = (if n = 0 then Some 0 else strncasecmp_loop s1 s2 n)"

subsection \<open>Copies\<close>

text \<open>
  The destination starts at the beginning of its object; the loop ends after the terminator or
  after \<open>n\<close> bytes. The result says whether the pointer returned is not \<open>NULL\<close>.
\<close>

fun strncpy_loop :: "u8 list \<Rightarrow> nat \<Rightarrow> u8 list \<Rightarrow> u32 \<Rightarrow> u8 list option" where
  "strncpy_loop dest p [] n = (if n = 0 then Some dest else None)"
| "strncpy_loop dest p (c # cs) n =
     (if n = 0 then Some dest
      else do {
        dest' \<leftarrow> mem_store dest p c;
        if c = 0 then Some dest' else strncpy_loop dest' (p + 1) cs (n - 1) })"

definition xy_strncpy :: "u8 list option \<Rightarrow> u8 list option \<Rightarrow> u32 \<Rightarrow> (bool \<times> u8 list option) option" where
  "xy_strncpy dest src n =
     (case (dest, src) of
        (Some d, Some s) \<Rightarrow> do { d' \<leftarrow> strncpy_loop d 0 s n; Some (True, Some d') }
      | _ \<Rightarrow> Some (False, dest))"

definition xy_strcpy :: "u8 list option \<Rightarrow> u8 list option \<Rightarrow> (bool \<times> u8 list option) option" where
  "xy_strcpy dest src = xy_strncpy dest src 0xffffffff"

text \<open>Both duplications read the length and then return \<open>NULL\<close>.\<close>

definition xy_strdup :: "u8 list option \<Rightarrow> u8 list option option" where
  "xy_strdup s = (case s of None \<Rightarrow> Some None | Some str \<Rightarrow> do { len \<leftarrow> xy_strlen str; Some None })"

definition xy_strndup :: "u8 list option \<Rightarrow> nat \<Rightarrow> u8 list option option" where
  "xy_strndup s n = (case s of None \<Rightarrow> Some None | Some str \<Rightarrow> do { len \<leftarrow> xy_strnlen str n; Some None })"

subsection \<open>Searching\<close>

fun strchr_loop :: "u8 list \<Rightarrow> u8 \<Rightarrow> nat \<Rightarrow> nat option option" where
  "strchr_loop [] c i = None"
| "strchr_loop (x # xs) c i =
     (if x = 0 then Some None else if x = c then Some (Some i) else strchr_loop xs c (i + 1))"

definition xy_strchr :: "u8 list option \<Rightarrow> u8 \<Rightarrow> nat option option" where
  "xy_strchr str c = (case str of None \<Rightarrow> Some None | Some s \<Rightarrow> strchr_loop s c 0)"

fun strrchr_loop :: "u8 list \<Rightarrow> u8 \<Rightarrow> nat \<Rightarrow> nat option \<Rightarrow> nat option option" where
  "strrchr_loop [] c i last' = None"
| "strrchr_loop (x # xs) c i last' =
     (if x = 0 then Some last' else strrchr_loop xs c (i + 1) (if x = c then Some i else last'))"

definition xy_strrchr :: "u8 list \<Rightarrow> u8 \<Rightarrow> nat option option" where
  "xy_strrchr str c = strrchr_loop str c 0 None"

text \<open>Whether a character is in a set, which is a string: the inner loop of the three span functions.\<close>

fun set_has :: "u8 \<Rightarrow> u8 list \<Rightarrow> bool option" where
  "set_has c [] = None"
| "set_has c (a # as) = (if a = 0 then Some False else if c = a then Some True else set_has c as)"

fun strcspn_loop :: "u8 list \<Rightarrow> u8 list \<Rightarrow> nat \<Rightarrow> nat option" where
  "strcspn_loop [] str2 i = None"
| "strcspn_loop (c # cs) str2 i =
     (if c = 0 then Some i
      else do {
        found \<leftarrow> set_has c str2;
        if found then Some i else strcspn_loop cs str2 (i + 1) })"

definition xy_strcspn :: "u8 list option \<Rightarrow> u8 list option \<Rightarrow> nat option" where
  "xy_strcspn str1 str2 =
     (case (str1, str2) of (Some s1, Some s2) \<Rightarrow> strcspn_loop s1 s2 0 | _ \<Rightarrow> Some 0)"

fun strpbrk_loop :: "u8 list \<Rightarrow> u8 list \<Rightarrow> int \<Rightarrow> int option" where
  "strpbrk_loop [] str2 i = None"
| "strpbrk_loop (c # cs) str2 i =
     (if c = 0 then Some (-1)
      else do {
        found \<leftarrow> set_has c str2;
        if found then Some i else strpbrk_loop cs str2 (i + 1) })"

definition xy_strpbrk :: "u8 list option \<Rightarrow> u8 list option \<Rightarrow> int option" where
  "xy_strpbrk str1 str2 =
     (case (str1, str2) of (Some s1, Some s2) \<Rightarrow> strpbrk_loop s1 s2 0 | _ \<Rightarrow> Some (-1))"

fun strspn_loop :: "u8 list \<Rightarrow> u8 list \<Rightarrow> nat \<Rightarrow> nat option" where
  "strspn_loop [] accept count = None"
| "strspn_loop (c # cs) accept count =
     (if c = 0 then Some count
      else do {
        found \<leftarrow> set_has c accept;
        if \<not> found then Some count else strspn_loop cs accept (count + 1) })"

definition xy_strspn :: "u8 list \<Rightarrow> u8 list \<Rightarrow> nat option" where
  "xy_strspn s accept = strspn_loop s accept 0"

text \<open>The inner loop of \<open>strstr\<close>: whether the needle ended.\<close>

fun strstr_match :: "u8 list \<Rightarrow> u8 list \<Rightarrow> bool option" where
  "strstr_match [] n = None"
| "strstr_match (h # hs) [] = None"
| "strstr_match (h # hs) (n # ns) =
     (if h \<noteq> 0 \<and> n \<noteq> 0 \<and> h = n then strstr_match hs ns else Some (n = 0))"

fun strstr_loop :: "u8 list \<Rightarrow> u8 list \<Rightarrow> nat \<Rightarrow> nat option option" where
  "strstr_loop [] needle i = None"
| "strstr_loop (h # hs) needle i =
     (if h = 0 then Some None
      else do {
        n0 \<leftarrow> mem_load needle 0;
        if h = n0 then do {
          found \<leftarrow> strstr_match (h # hs) needle;
          if found then Some (Some i) else strstr_loop hs needle (i + 1) }
        else strstr_loop hs needle (i + 1) })"

definition xy_strstr :: "u8 list option \<Rightarrow> u8 list option \<Rightarrow> nat option option" where
  "xy_strstr haystack needle =
     (case (haystack, needle) of
        (Some h, Some n) \<Rightarrow> do {
          n0 \<leftarrow> mem_load n 0;
          if n0 = 0 then Some (Some 0) else strstr_loop h n 0 }
      | _ \<Rightarrow> Some None)"

subsection \<open>Tokens\<close>

text \<open>
  \<open>xy_strtok\<close> on an object \<open>mem\<close>: \<open>str\<close> and the static \<open>save_ptr\<close> are offsets into it. There are
  two loops that skip delimiters, one after the other.
\<close>

abbreviation strpbrk_at :: "u8 list \<Rightarrow> nat \<Rightarrow> u8 list \<Rightarrow> int option" where
  "strpbrk_at mem p delim \<equiv> xy_strpbrk (Some (drop p mem)) (Some delim)"

function strtok_skip1 :: "u8 list \<Rightarrow> u8 list \<Rightarrow> nat \<Rightarrow> nat option" where
  "strtok_skip1 mem delim start = (if length mem \<le> start then None
     else if mem ! start = 0 then Some start
     else do {
       idx \<leftarrow> strpbrk_at mem start delim;
       if idx = 0 then do {
         idx' \<leftarrow> strpbrk_at mem start delim;
         if idx' = 0 then strtok_skip1 mem delim (start + 1) else Some start }
       else Some start })"
  by pat_completeness auto
termination by (relation "measure (\<lambda>(m, d, s). length m - s)") auto

function strtok_skip2 :: "u8 list \<Rightarrow> u8 list \<Rightarrow> nat \<Rightarrow> nat option" where
  "strtok_skip2 mem delim start = (if length mem \<le> start then None
     else if mem ! start = 0 then Some start
     else do {
       idx \<leftarrow> strpbrk_at mem start delim;
       if idx = 0 then strtok_skip2 mem delim (start + 1) else Some start })"
  by pat_completeness auto
termination by (relation "measure (\<lambda>(m, d, s). length m - s)") auto

text \<open>The scan for the end of the token: the object and the new \<open>save_ptr\<close>.\<close>

function strtok_scan :: "u8 list \<Rightarrow> u8 list \<Rightarrow> nat \<Rightarrow> (u8 list \<times> nat option) option" where
  "strtok_scan mem delim scan = (if length mem \<le> scan then None
     else if mem ! scan = 0 then Some (mem, None)
     else do {
       off \<leftarrow> strpbrk_at mem scan delim;
       if off = 0 then Some (mem[scan := 0], Some (scan + 1))
       else strtok_scan mem delim (scan + 1) })"
  by pat_completeness auto
termination by (relation "measure (\<lambda>(m, d, s). length m - s)") auto

declare strtok_skip1.simps [simp del] strtok_skip2.simps [simp del] strtok_scan.simps [simp del]

text \<open>The results: the token, the object, and \<open>save_ptr\<close>.\<close>

definition xy_strtok ::
  "u8 list \<Rightarrow> nat option \<Rightarrow> nat option \<Rightarrow> u8 list option \<Rightarrow> (nat option \<times> u8 list \<times> nat option) option" where
  "xy_strtok mem save_ptr str delim =
     (case delim of
        None \<Rightarrow> Some (None, mem, save_ptr)
      | Some dl \<Rightarrow>
          (case (if str \<noteq> None then str else save_ptr) of
             None \<Rightarrow> Some (None, mem, save_ptr)
           | Some start0 \<Rightarrow> do {
               start1 \<leftarrow> strtok_skip1 mem dl start0;
               start \<leftarrow> strtok_skip2 mem dl start1;
               c \<leftarrow> mem_load mem start;
               if c = 0 then Some (None, mem, None)
               else do {
                 (mem', save) \<leftarrow> strtok_scan mem dl start;
                 Some (Some start, mem', save) } }))"

subsection \<open>Hexadecimal strings\<close>

definition hexstr_nibble :: "u8 \<Rightarrow> u8 option" where
  "hexstr_nibble c =
     (if c \<ge> 48 \<and> c \<le> 57 then Some (c - 48)
      else if c \<ge> 97 \<and> c \<le> 102 then Some (c - 97 + 10)
      else if c \<ge> 65 \<and> c \<le> 70 then Some (c - 65 + 10)
      else None)"

text \<open>The loop: \<open>None\<close> in the result is the return of \<open>NULL\<close> at a character that is no digit.\<close>

fun hexstr_loop :: "u8 list \<Rightarrow> nat list \<Rightarrow> u8 list \<Rightarrow> u8 list option option" where
  "hexstr_loop hexstr [] bytes = Some (Some bytes)"
| "hexstr_loop hexstr (i # is) bytes = do {
     high \<leftarrow> mem_load hexstr (i * 2);
     low \<leftarrow> mem_load hexstr (i * 2 + 1);
     (case (hexstr_nibble high, hexstr_nibble low) of
        (Some h, Some l) \<Rightarrow> do {
          bytes' \<leftarrow> mem_store bytes i (push_bit 4 h OR l);
          hexstr_loop hexstr is bytes' }
      | _ \<Rightarrow> Some None) }"

text \<open>\<open>malloc\<close> answers a request for a number of bytes with a block or \<open>NULL\<close>.\<close>

definition hexstr2bytes :: "(nat \<Rightarrow> u8 list option) \<Rightarrow> u8 list option \<Rightarrow> u8 list option option" where
  "hexstr2bytes malloc hexstr =
     (case hexstr of
        None \<Rightarrow> Some None
      | Some s \<Rightarrow> do {
          len \<leftarrow> xy_strlen s;
          if len = 0 \<or> len mod 2 \<noteq> 0 then Some None
          else (case malloc (len div 2) of
                  None \<Rightarrow> Some None
                | Some bytes \<Rightarrow> hexstr_loop s [0..<len div 2] bytes) })"

end
