(* ===== verification/Xy_String_Correct.thy ===== *)
theory Xy_String_Correct
  imports Xy_String "HOL-Library.Sublist"
begin

text \<open>
  Moves of overlapping ranges, the first occurrence of a string, the tokens of a string and
  comparisons without case.
\<close>

subsection \<open>Moves\<close>

lemma move_forward_nth:
  "d < s \<Longrightarrow> s + n \<le> length mem \<Longrightarrow> \<exists>r. move_forward mem d s n = Some r \<and> length r = length mem
    \<and> (\<forall>k < length mem. r ! k = (if d \<le> k \<and> k < d + n then mem ! (s + (k - d)) else mem ! k))"
proof (induction n arbitrary: mem d s)
  case (Suc n)
  let ?m = "mem[d := mem ! s]"
  obtain r where r: "move_forward ?m (d + 1) (s + 1) n = Some r" "length r = length mem"
    "\<forall>k < length mem. r ! k = (if d + 1 \<le> k \<and> k < d + 1 + n then ?m ! (s + 1 + (k - (d + 1))) else ?m ! k)"
    using Suc.IH [of "d + 1" "s + 1" ?m] Suc.prems by auto
  have "r ! k = (if d \<le> k \<and> k < d + Suc n then mem ! (s + (k - d)) else mem ! k)" if "k < length mem" for k
    using r(3) that Suc.prems by (cases "k = d") (auto simp: nth_list_update Suc_diff_Suc)
  then show ?case using r(1,2) Suc.prems by (simp add: mem_simps)
qed auto

lemma move_backward_nth:
  "s < d \<Longrightarrow> d + n \<le> length mem \<Longrightarrow> \<exists>r. move_backward mem (d + n) (s + n) n = Some r \<and> length r = length mem
    \<and> (\<forall>k < length mem. r ! k = (if d \<le> k \<and> k < d + n then mem ! (s + (k - d)) else mem ! k))"
proof (induction n arbitrary: mem)
  case (Suc n)
  let ?m = "mem[d + n := mem ! (s + n)]"
  obtain r where r: "move_backward ?m (d + n) (s + n) n = Some r" "length r = length mem"
    "\<forall>k < length mem. r ! k = (if d \<le> k \<and> k < d + n then ?m ! (s + (k - d)) else ?m ! k)"
    using Suc.IH [of ?m] Suc.prems by auto
  have "r ! k = (if d \<le> k \<and> k < d + Suc n then mem ! (s + (k - d)) else mem ! k)" if "k < length mem" for k
    using r(3) that Suc.prems by (cases "k = d + n") (auto simp: nth_list_update)
  then show ?case using r(1,2) Suc.prems by (simp add: mem_simps)
qed auto

text \<open>
  \<open>xy_memmove\<close> puts the bytes the source range held before the call into the destination range
  and changes no other byte, however the two ranges overlap; it stays inside the object.
\<close>
theorem memmove_overlapping:
  assumes "dest + n \<le> length mem" "src + n \<le> length mem"
  shows "xy_memmove mem dest src n
    = Some (take dest mem @ take n (drop src mem) @ drop (dest + n) mem)"
proof -
  have eq: "r = take dest mem @ take n (drop src mem) @ drop (dest + n) mem"
    if "length r = length mem"
      "\<forall>k < length mem. r ! k = (if dest \<le> k \<and> k < dest + n then mem ! (src + (k - dest)) else mem ! k)" for r
    using that assms by (intro nth_equalityI) (auto simp: nth_append)
  consider "dest = src \<or> n = 0" | "dest < src" "n \<noteq> 0" | "src < dest" "n \<noteq> 0" by linarith
  then show ?thesis
  proof cases
    case 1
    then show ?thesis
      using eq [of mem] by (auto simp: xy_memmove_def)
  next
    case 2
    then show ?thesis using move_forward_nth [OF 2(1) assms(2)] eq by (auto simp: xy_memmove_def)
  next
    case 3
    then show ?thesis using move_backward_nth [OF 3(1) assms(1)] eq by (auto simp: xy_memmove_def)
  qed
qed

lemma memmove_overlapping_witness: "xy_memmove [1, 2, 3, 4, 5] 1 0 4 = Some [1, 1, 2, 3, 4]"
  using memmove_overlapping [of 1 4 "[1, 2, 3, 4, 5]" 0] by simp

subsection \<open>The first occurrence\<close>

lemma strstr_match_prefix:
  "0 \<notin> set hs \<Longrightarrow> 0 \<notin> set ns \<Longrightarrow> strstr_match (hs @ 0 # r1) (ns @ 0 # r2) = Some (prefix ns hs)"
proof (induction hs arbitrary: ns)
  case Nil
  then show ?case by (cases ns) auto
next
  case (Cons h hs)
  then show ?case by (cases ns) auto
qed

lemma strstr_loop_first:
  assumes "0 \<notin> set ns" "ns \<noteq> []"
  shows "0 \<notin> set hs \<Longrightarrow> \<exists>r. strstr_loop (hs @ 0 # r1) (ns @ 0 # r2) i = Some (map_option ((+) i) r)
    \<and> (case r of Some k \<Rightarrow> prefix ns (drop k hs) \<and> (\<forall>j < k. \<not> prefix ns (drop j hs))
       | None \<Rightarrow> \<forall>j. \<not> prefix ns (drop j hs))"
proof (induction hs arbitrary: i)
  case Nil
  then show ?case using assms by (intro exI [of _ None]) simp
next
  case (Cons h hs)
  obtain n0 ns' where ns: "ns = n0 # ns'" using assms(2) by (cases ns) auto
  show ?case
  proof (cases "prefix ns (h # hs)")
    case True
    then have "strstr_loop ((h # hs) @ 0 # r1) (ns @ 0 # r2) i = Some (Some i)"
      using Cons.prems strstr_match_prefix [of "h # hs" ns r1 r2] assms(1) by (simp add: ns mem_load_def)
    then show ?thesis using True by (intro exI [of _ "Some 0"]) simp
  next
    case False
    then have step: "strstr_loop ((h # hs) @ 0 # r1) (ns @ 0 # r2) i = strstr_loop (hs @ 0 # r1) (ns @ 0 # r2) (i + 1)"
      using Cons.prems strstr_match_prefix [of "h # hs" ns r1 r2] assms(1)
      by (cases "h = n0") (simp_all add: ns mem_load_def)
    obtain r where r: "strstr_loop (hs @ 0 # r1) (ns @ 0 # r2) (i + 1) = Some (map_option ((+) (i + 1)) r)"
      "case r of Some k \<Rightarrow> prefix ns (drop k hs) \<and> (\<forall>j < k. \<not> prefix ns (drop j hs))
       | None \<Rightarrow> \<forall>j. \<not> prefix ns (drop j hs)"
      using Cons.IH [of "i + 1"] Cons.prems by (meson list.set_intros(2))
    have "map_option ((+) (i + 1)) r = map_option ((+) i) (map_option Suc r)" by (cases r) simp_all
    moreover have "case map_option Suc r of Some k \<Rightarrow> prefix ns (drop k (h # hs)) \<and> (\<forall>j < k. \<not> prefix ns (drop j (h # hs)))
       | None \<Rightarrow> \<forall>j. \<not> prefix ns (drop j (h # hs))"
      using r(2) False by (cases r) (auto simp: drop_Cons' less_Suc_eq_0_disj split: nat.splits)
    ultimately show ?thesis using step r(1) by (intro exI [of _ "map_option Suc r"]) simp
  qed
qed

text \<open>
  On terminated strings \<open>xy_strstr\<close> returns the first position at which the second string
  occurs in the first, position 0 for an empty one, and \<open>NULL\<close> exactly when there is none; it
  reads neither string past its terminator.
\<close>
theorem strstr_first_occurrence:
  assumes "0 \<notin> set hs" "0 \<notin> set ns"
  shows "\<exists>r. xy_strstr (Some (hs @ 0 # r1)) (Some (ns @ 0 # r2)) = Some r
    \<and> (case r of Some k \<Rightarrow> k \<le> length hs \<and> prefix ns (drop k hs) \<and> (\<forall>j < k. \<not> prefix ns (drop j hs))
       | None \<Rightarrow> \<forall>j. \<not> prefix ns (drop j hs))"
proof (cases ns)
  case Nil
  then show ?thesis by (intro exI [of _ "Some 0"]) (simp add: xy_strstr_def mem_load_def)
next
  case (Cons n0 ns')
  then have ne: "ns \<noteq> []" "n0 \<noteq> 0" using assms(2) by auto
  obtain r where r: "strstr_loop (hs @ 0 # r1) (ns @ 0 # r2) 0 = Some (map_option ((+) 0) r)"
    "case r of Some k \<Rightarrow> prefix ns (drop k hs) \<and> (\<forall>j < k. \<not> prefix ns (drop j hs))
       | None \<Rightarrow> \<forall>j. \<not> prefix ns (drop j hs)"
    using strstr_loop_first [OF assms(2) ne(1) assms(1)] by blast
  have "k \<le> length hs" if "prefix ns (drop k hs)" for k
    using that ne(1) by (cases "k \<le> length hs") auto
  moreover have "map_option ((+) 0) r = r" by (cases r) simp_all
  ultimately show ?thesis
    using r ne(2) by (intro exI [of _ r]) (auto simp: xy_strstr_def Cons mem_load_def split: option.splits)
qed

lemma strstr_first_occurrence_witness:
  "\<exists>r. xy_strstr (Some ([97, 97, 98] @ 0 # [])) (Some ([97, 98] @ 0 # [])) = Some r
    \<and> (case r of Some k \<Rightarrow> k \<le> length [97, 97, 98 :: u8] \<and> prefix [97, 98 :: u8] (drop k [97, 97, 98])
         \<and> (\<forall>j < k. \<not> prefix [97, 98 :: u8] (drop j [97, 97, 98]))
       | None \<Rightarrow> \<forall>j. \<not> prefix [97, 98 :: u8] (drop j [97, 97, 98]))"
  by (rule strstr_first_occurrence) simp_all

subsection \<open>Tokens\<close>

text \<open>The tokens of a string: its maximal runs of characters that are no delimiters.\<close>

function tokens :: "u8 set \<Rightarrow> u8 list \<Rightarrow> u8 list list" where
  "tokens D s = (let s1 = dropWhile (\<lambda>c. c \<in> D) s in
     if s1 = [] then [] else takeWhile (\<lambda>c. c \<notin> D) s1 # tokens D (dropWhile (\<lambda>c. c \<notin> D) s1))"
  by pat_completeness auto
termination
proof (relation "measure (\<lambda>(D, s). length s)", goal_cases)
  case (2 D s s1)
  obtain c cs where s1: "s1 = c # cs" using 2(2) by (cases s1) auto
  then have "c \<notin> D" using hd_dropWhile [of "\<lambda>c. c \<in> D" s] 2 by auto
  then have "length (dropWhile (\<lambda>c. c \<notin> D) s1) \<le> length cs" using s1 by (simp add: length_dropWhile_le)
  also have "Suc (length cs) \<le> length s"
    using length_dropWhile_le [of "\<lambda>c. c \<in> D" s] 2(1) s1 by (metis length_Cons)
  then have "length cs < length s" by simp
  finally show ?case by simp
qed simp

declare tokens.simps [simp del]

lemma set_has_iff: "0 \<notin> set dl \<Longrightarrow> c \<noteq> 0 \<Longrightarrow> set_has c (dl @ 0 # z) = Some (c \<in> set dl)"
  by (induction dl) auto

lemma strpbrk_loop_returns:
  "0 \<notin> set s \<Longrightarrow> 0 \<notin> set dl \<Longrightarrow> 0 < i \<Longrightarrow> \<exists>r. strpbrk_loop (s @ 0 # post) (dl @ 0 # z) i = Some r \<and> r \<noteq> 0"
  by (induction s arbitrary: i) (auto simp: set_has_iff)

lemma strpbrk_head:
  assumes "0 \<notin> set (c # s)" "0 \<notin> set dl" "length pre = p"
  shows "\<exists>r. strpbrk_at (pre @ (c # s) @ 0 # post) p (dl @ 0 # z) = Some r \<and> (r = 0) = (c \<in> set dl)"
  using assms strpbrk_loop_returns [of s dl 1 post z] by (auto simp: xy_strpbrk_def set_has_iff)

lemma strtok_skip1_drop:
  assumes "0 \<notin> set dl"
  shows "0 \<notin> set s \<Longrightarrow> length pre = p \<Longrightarrow> strtok_skip1 (pre @ s @ 0 # post) (dl @ 0 # z) p
    = Some (p + length (takeWhile (\<lambda>c. c \<in> set dl) s))"
proof (induction s arbitrary: pre p)
  case Nil
  then show ?case by (subst strtok_skip1.simps) (simp add: nth_append)
next
  case (Cons c s)
  then obtain r where r: "strpbrk_at (pre @ (c # s) @ 0 # post) p (dl @ 0 # z) = Some r" "(r = 0) = (c \<in> set dl)"
    using strpbrk_head [of c s dl pre p post z] assms by auto
  show ?case
  proof (cases "c \<in> set dl")
    case True
    then have "strtok_skip1 (pre @ (c # s) @ 0 # post) (dl @ 0 # z) p
        = strtok_skip1 ((pre @ [c]) @ s @ 0 # post) (dl @ 0 # z) (p + 1)"
      using r Cons.prems by (subst strtok_skip1.simps) (simp add: nth_append)
    also have "\<dots> = Some (p + 1 + length (takeWhile (\<lambda>c. c \<in> set dl) s))"
      using Cons.prems by (intro Cons.IH) simp_all
    finally show ?thesis using True by simp
  next
    case False
    then show ?thesis using r Cons.prems by (subst strtok_skip1.simps) (simp add: nth_append)
  qed
qed

lemma strtok_skip2_stay:
  assumes "0 \<notin> set dl" "0 \<notin> set s" "length pre = p" "s \<noteq> [] \<longrightarrow> hd s \<notin> set dl"
  shows "strtok_skip2 (pre @ s @ 0 # post) (dl @ 0 # z) p = Some p"
proof (cases s)
  case Nil
  then show ?thesis using assms by (subst strtok_skip2.simps) (simp add: nth_append)
next
  case (Cons c cs)
  then obtain r where "strpbrk_at (pre @ (c # cs) @ 0 # post) p (dl @ 0 # z) = Some r" "(r = 0) = (c \<in> set dl)"
    using strpbrk_head [of c cs dl pre p post z] assms by auto
  then show ?thesis using assms Cons by (subst strtok_skip2.simps) (simp add: nth_append)
qed

lemma strtok_scan_token:
  assumes "0 \<notin> set dl"
  shows "0 \<notin> set (tok @ rest) \<Longrightarrow> \<forall>c \<in> set tok. c \<notin> set dl \<Longrightarrow> rest \<noteq> [] \<longrightarrow> hd rest \<in> set dl \<Longrightarrow> length pre = p \<Longrightarrow>
    strtok_scan (pre @ tok @ rest @ 0 # post) (dl @ 0 # z) p
      = Some (if rest = [] then (pre @ tok @ 0 # post, None)
          else (pre @ tok @ 0 # tl rest @ 0 # post, Some (p + length tok + 1)))"
proof (induction tok arbitrary: pre p)
  case Nil
  show ?case
  proof (cases rest)
    case Nil
    then show ?thesis using \<open>length pre = p\<close> by (subst strtok_scan.simps) (simp add: nth_append)
  next
    case (Cons d ds)
    then obtain r where "strpbrk_at (pre @ (d # ds) @ 0 # post) p (dl @ 0 # z) = Some r" "(r = 0) = (d \<in> set dl)"
      using strpbrk_head [of d ds dl pre p post z] assms Nil by auto
    then show ?thesis
      using Nil Cons by (subst strtok_scan.simps) (simp add: nth_append list_update_append)
  qed
next
  case (Cons c tok)
  obtain r where "strpbrk_at (pre @ (c # tok @ rest) @ 0 # post) p (dl @ 0 # z) = Some r" "(r = 0) = (c \<in> set dl)"
    using strpbrk_head [of c "tok @ rest" dl pre p post z] assms Cons.prems by auto
  then have "strtok_scan (pre @ (c # tok) @ rest @ 0 # post) (dl @ 0 # z) p
      = strtok_scan ((pre @ [c]) @ tok @ rest @ 0 # post) (dl @ 0 # z) (p + 1)"
    using Cons.prems by (subst strtok_scan.simps) (simp add: nth_append)
  then show ?case using Cons.IH [of "pre @ [c]" "p + 1"] Cons.prems by simp
qed

text \<open>One call, from the position where it starts.\<close>

lemma strtok_call:
  assumes "0 \<notin> set dl" "0 \<notin> set s" "length pre = p" "str = Some p \<or> str = None \<and> save = Some p"
  defines "ds \<equiv> takeWhile (\<lambda>c. c \<in> set dl) s" and "s1 \<equiv> dropWhile (\<lambda>c. c \<in> set dl) s"
  defines "tok \<equiv> takeWhile (\<lambda>c. c \<notin> set dl) s1" and "rest \<equiv> dropWhile (\<lambda>c. c \<notin> set dl) s1"
  shows "xy_strtok (pre @ s @ 0 # post) save str (Some (dl @ 0 # z)) = Some (
    if s1 = [] then (None, pre @ s @ 0 # post, None)
    else if rest = [] then (Some (p + length ds), (pre @ ds) @ tok @ 0 # post, None)
    else (Some (p + length ds), (pre @ ds) @ tok @ 0 # tl rest @ 0 # post, Some (p + length ds + length tok + 1)))"
proof -
  have s: "s = ds @ s1" "s1 = tok @ rest" by (simp_all add: ds_def s1_def tok_def rest_def)
  have z: "0 \<notin> set s1" using assms(2) s(1) by (metis UnCI set_append)
  have hd1: "hd s1 \<notin> set dl" if "s1 \<noteq> []" using hd_dropWhile [of "\<lambda>c. c \<in> set dl" s] that by (simp add: s1_def)
  have skip1: "strtok_skip1 (pre @ s @ 0 # post) (dl @ 0 # z) p = Some (p + length ds)"
    unfolding ds_def by (rule strtok_skip1_drop [OF assms(1-3)])
  have mem: "pre @ s @ 0 # post = (pre @ ds) @ s1 @ 0 # post" using s by simp
  have skip2: "strtok_skip2 (pre @ s @ 0 # post) (dl @ 0 # z) (p + length ds) = Some (p + length ds)"
    unfolding mem using z hd1 assms(1,3) by (intro strtok_skip2_stay) simp_all
  have start: "(case (if str \<noteq> None then str else save) of None \<Rightarrow> x | Some q \<Rightarrow> f q) = f p" for x f
    using assms(4) by auto
  have tok: "\<forall>c \<in> set tok. c \<notin> set dl" "rest \<noteq> [] \<longrightarrow> hd rest \<in> set dl"
    using hd_dropWhile [of "\<lambda>c. c \<notin> set dl" s1] by (auto simp: tok_def rest_def dest: set_takeWhileD)
  have scan: "strtok_scan ((pre @ ds) @ tok @ rest @ 0 # post) (dl @ 0 # z) (p + length ds)
      = Some (if rest = [] then ((pre @ ds) @ tok @ 0 # post, None)
          else ((pre @ ds) @ tok @ 0 # tl rest @ 0 # post, Some (p + length ds + length tok + 1)))"
    using z tok s(2) assms(1,3) by (intro strtok_scan_token) simp_all
  have ld: "mem_load (pre @ s @ 0 # post) (p + length ds) = Some (if s1 = [] then 0 else hd s1)"
    unfolding mem using assms(3) by (cases s1) (simp_all add: mem_load_def nth_append)
  have nz: "hd s1 \<noteq> 0" if "s1 \<noteq> []" using that z by (cases s1) auto
  define M where "M = pre @ s @ 0 # post"
  have M: "M = (pre @ ds) @ tok @ rest @ 0 # post" using s by (simp add: M_def)
  have "xy_strtok M save str (Some (dl @ 0 # z)) = (if s1 = [] then Some (None, M, None)
      else do { (mem', save) \<leftarrow> strtok_scan M (dl @ 0 # z) (p + length ds); Some (Some (p + length ds), mem', save) })"
    unfolding xy_strtok_def option.case start using nz
    by (simp add: skip1 [folded M_def] skip2 [folded M_def] ld [folded M_def])
  then show ?thesis unfolding M_def [symmetric] using scan [folded M] by auto
qed

text \<open>
  A first call with the string and further calls with \<open>NULL\<close>; each result is read as a string at
  the time of the call.
\<close>

fun strtok_calls ::
  "nat \<Rightarrow> u8 list \<Rightarrow> u8 list \<Rightarrow> nat option \<Rightarrow> nat option \<Rightarrow> u8 list option list option" where
  "strtok_calls 0 delim mem save str = Some []"
| "strtok_calls (Suc n) delim mem save str = do {
     (tok, mem', save') \<leftarrow> xy_strtok mem save str (Some delim);
     rest \<leftarrow> strtok_calls n delim mem' save' None;
     Some (map_option (\<lambda>p. takeWhile (\<lambda>c. c \<noteq> 0) (drop p mem')) tok # rest) }"

lemma strtok_calls_exhausted: "strtok_calls n delim mem None None = Some (replicate n None)"
  by (induction n) (simp_all add: xy_strtok_def)

lemma take_Cons_replicate: "m \<le> n \<Longrightarrow> take m (x # replicate n x) = replicate m x"
  using take_replicate [of m "Suc n" x] by (simp add: min_def)

lemma tokens_delim: "d \<in> D \<Longrightarrow> tokens D (d # s) = tokens D s"
  by (subst (1 2) tokens.simps) simp

lemma takeWhile_zero: "0 \<notin> set tok \<Longrightarrow> takeWhile (\<lambda>c. c \<noteq> 0) (tok @ 0 # post) = (tok :: u8 list)"
  by (induction tok) auto

lemma strtok_calls_tokens:
  assumes "0 \<notin> set dl"
  shows "0 \<notin> set s \<Longrightarrow> length pre = p \<Longrightarrow> str = Some p \<or> str = None \<and> save = Some p \<Longrightarrow>
    strtok_calls n (dl @ 0 # z) (pre @ s @ 0 # post) save str
      = Some (take n (map Some (tokens (set dl) s) @ replicate n None))"
proof (induction n arbitrary: s pre p str save)
  case (Suc n)
  define ds where "ds = takeWhile (\<lambda>c. c \<in> set dl) s"
  define s1 where "s1 = dropWhile (\<lambda>c. c \<in> set dl) s"
  define tok where "tok = takeWhile (\<lambda>c. c \<notin> set dl) s1"
  define rest where "rest = dropWhile (\<lambda>c. c \<notin> set dl) s1"
  have call: "xy_strtok (pre @ s @ 0 # post) save str (Some (dl @ 0 # z)) = Some (
    if s1 = [] then (None, pre @ s @ 0 # post, None)
    else if rest = [] then (Some (p + length ds), (pre @ ds) @ tok @ 0 # post, None)
    else (Some (p + length ds), (pre @ ds) @ tok @ 0 # tl rest @ 0 # post, Some (p + length ds + length tok + 1)))"
    unfolding ds_def s1_def tok_def rest_def by (rule strtok_call [OF assms Suc.prems])
  have toks: "tokens (set dl) s = (if s1 = [] then [] else tok # tokens (set dl) rest)"
    by (subst tokens.simps) (simp add: s1_def tok_def rest_def Let_def)
  have nz: "0 \<notin> set tok" "0 \<notin> set rest"
    using Suc.prems(1) unfolding tok_def rest_def s1_def by (auto dest!: set_takeWhileD set_dropWhileD)
  have rd: "takeWhile (\<lambda>c. c \<noteq> 0) (drop (p + length ds) ((pre @ ds) @ tok @ 0 # q)) = tok" for q
    using takeWhile_zero [OF nz(1)] Suc.prems(2) by simp
  consider "s1 = []" | "s1 \<noteq> []" "rest = []" | "s1 \<noteq> []" "rest \<noteq> []" by blast
  then show ?case
  proof cases
    case 1
    then show ?thesis using call by (simp add: toks strtok_calls_exhausted)
  next
    case 2
    have "tokens (set dl) [] = []" by (subst tokens.simps) simp
    then show ?thesis
      using 2 call rd by (simp add: toks strtok_calls_exhausted take_Cons_replicate del: append_assoc)
  next
    case 3
    then obtain d r where dr: "rest = d # r" by (cases rest) auto
    have d: "d \<in> set dl" using hd_dropWhile [of "\<lambda>c. c \<notin> set dl" s1] 3 dr by (simp add: rest_def)
    have "strtok_calls n (dl @ 0 # z) ((pre @ ds @ tok @ [0]) @ r @ 0 # post) (Some (p + length ds + length tok + 1)) None
        = Some (take n (map Some (tokens (set dl) r) @ replicate n None))"
      using nz(2) dr Suc.prems(2) by (intro Suc.IH) simp_all
    then show ?thesis
      using 3 call rd [of "r @ 0 # post"] dr tokens_delim [OF d, of r] by (simp add: toks take_Cons_replicate)
  qed
qed simp

text \<open>
  C16. A first call of \<open>xy_strtok\<close> with a string and further calls with \<open>NULL\<close> return one after the
  other exactly the maximal runs of characters that are not in the delimiter string, each
  terminated, and then \<open>NULL\<close> however often it is called.
\<close>
theorem strtok_yields_tokens:
  assumes "0 \<notin> set s" "0 \<notin> set dl"
  shows "strtok_calls n (dl @ 0 # z) (pre @ s @ 0 # post) save (Some (length pre))
    = Some (take n (map Some (tokens (set dl) s) @ replicate n None))"
  using assms by (intro strtok_calls_tokens) simp_all

text \<open>The string \<open>,a,,bc\<close> with the delimiter comma, called four times.\<close>

lemma strtok_yields_tokens_witness:
  "strtok_calls 4 [44, 0] [44, 97, 44, 44, 98, 99, 0] None (Some 0) = Some [Some [97], Some [98, 99], None, None]"
proof -
  have e: "tokens {44} [] = []" by (subst tokens.simps) simp
  have "tokens {44} [44, 97, 44, 44, 98, 99] = [[97], [98, 99 :: u8]]"
    by (simp add: tokens.simps [of _ "_ # _"] e)
  moreover have "take 4 (map Some [[97], [98, 99 :: u8]] @ replicate 4 None) = [Some [97], Some [98, 99], None, None]"
    by (simp add: numeral_eq_Suc)
  ultimately show ?thesis
    using strtok_yields_tokens [of "[44, 97, 44, 44, 98, 99]" "[44]" 4 "[]" "[]" "[]" None] by simp
qed

subsection \<open>Comparison without case\<close>

text \<open>The table marks exactly the upper-case letters as such.\<close>

lemma list_all_replicate: "P x \<Longrightarrow> list_all P (replicate n x)"
  by (induction n) simp_all

lemma am_cattr_parts:
  "length am_cattr = 256"
  "list_all (\<lambda>a. a AND XY_CATTR_UPPER = 0) (take 65 am_cattr)"
  "list_all (\<lambda>a. a AND XY_CATTR_UPPER \<noteq> 0) (take 26 (drop 65 am_cattr))"
  "list_all (\<lambda>a. a AND XY_CATTR_UPPER = 0) (drop 91 am_cattr)"
  by (simp_all add: am_cattr_def cattr_defs list_all_replicate)

lemma am_cattr_upper:
  assumes "n < 256"
  shows "(am_cattr ! n AND XY_CATTR_UPPER \<noteq> 0) = (65 \<le> n \<and> n \<le> 90)"
proof -
  consider "n < 65" | "65 \<le> n" "n \<le> 90" | "91 \<le> n" by linarith
  then show ?thesis
  proof cases
    case 1
    then show ?thesis using am_cattr_parts(1,2) by (auto simp: list_all_length)
  next
    case 2
    then show ?thesis using am_cattr_parts(1,3) by (auto simp: list_all_length dest!: spec [of _ "n - 65"])
  next
    case 3
    then show ?thesis using am_cattr_parts(1,4) assms by (auto simp: list_all_length dest!: spec [of _ "n - 91"])
  qed
qed

lemma upper_or: "65 \<le> c \<Longrightarrow> c \<le> 90 \<Longrightarrow> c OR 0x20 = c + 32" for c :: u8
proof -
  assume "65 \<le> c" "c \<le> 90"
  then have "unat c \<in> set [65..<91]" by (simp add: word_le_nat_alt del: upt_rec_numeral)
  then have "c \<in> of_nat ` set [65..<91]" by (intro image_eqI [of c of_nat "unat c"]) simp_all
  then show ?thesis by auto
qed

lemma stricmp_lower_eq: "stricmp_lower c = Some (case_lower c)"
proof -
  have n: "unat c < 256" by simp
  have "(am_cattr ! unat c AND XY_CATTR_UPPER \<noteq> 0) = (65 \<le> c \<and> c \<le> 90)"
    using am_cattr_upper [OF n] by (simp add: word_le_nat_alt)
  then show ?thesis using n am_cattr_parts(1) upper_or [of c]
    by (simp add: stricmp_lower_def mem_load_def case_lower_def)
qed

lemma case_lower_zero: "case_lower c = 0 \<longleftrightarrow> c = 0" "case_lower 0 = 0"
proof -
  have "c + 32 \<noteq> 0" if "65 \<le> c" "c \<le> 90"
  proof
    assume "c + 32 = 0"
    then have "c = - 32" by (simp add: add_eq_0_iff2)
    then show False using that by simp
  qed
  then show "case_lower c = 0 \<longleftrightarrow> c = 0" by (auto simp: case_lower_def)
qed (simp add: case_lower_def)

lemma uint_pos: "c \<noteq> 0 \<Longrightarrow> 0 < uint (c :: u8)"
  using uint_ge_0 [of c] by (simp add: order_less_le eq_commute [of 0] uint_0_iff)

lemma stricmp_strcasecmp:
  "0 \<notin> set ss \<Longrightarrow> 0 \<notin> set ts \<Longrightarrow>
   \<exists>x y. xy_stricmp (ss @ 0 # r1) (ts @ 0 # r2) = Some x \<and> xy_strcasecmp (ss @ 0 # r1) (ts @ 0 # r2) = Some y
     \<and> sgn x = sgn y \<and> (y = 0 \<longleftrightarrow> map case_lower ss = map case_lower ts)"
proof (induction ss arbitrary: ts)
  case Nil
  then show ?case by (cases ts) (auto simp: case_lower_zero uint_pos uint_0_iff)
next
  case (Cons a ss)
  then show ?case by (cases ts) (auto simp: stricmp_lower_eq case_lower_zero uint_pos uint_0_iff dest: unsigned_word_eqI)
qed

lemma strncasecmp_loop_equal:
  "0 \<notin> set ss \<Longrightarrow> 0 \<notin> set ts \<Longrightarrow> m \<le> length ss \<Longrightarrow> m \<le> length ts \<Longrightarrow>
   map case_lower (take m ss) = map case_lower (take m ts) \<Longrightarrow> m \<le> unat n \<Longrightarrow>
   strncasecmp_loop (ss @ 0 # r1) (ts @ 0 # r2) n
     = strncasecmp_loop (drop m ss @ 0 # r1) (drop m ts @ 0 # r2) (n - of_nat m)"
proof (induction m arbitrary: ss ts n)
  case (Suc m)
  obtain a ss' b ts' where s: "ss = a # ss'" "ts = b # ts'" using Suc.prems by (cases ss; cases ts) auto
  have n: "n \<noteq> 0" using Suc.prems(6) by auto
  have "unat (n - 1) = unat n - 1" using unat_minus_one [OF n] by simp
  note n = n this
  then show ?case using Suc.prems Suc.IH [of ss' ts' "n - 1"] s by (simp add: diff_diff_eq)
qed simp

text \<open>
  On terminated strings the comparison by the attribute table (\<open>xy_stricmp\<close>) and the one by
  letter ranges (\<open>xy_strcasecmp\<close>) agree in sign, and they are 0 exactly when the strings are equal
  up to case. \<open>xy_strncasecmp\<close> is not their bounded form: when the first \<open>n\<close> characters agree, it
  returns the difference of the characters behind them instead of 0, and when the shorter string
  ends as the count runs out, it returns 0 although the strings differ.
\<close>
theorem comparison_without_case:
  assumes "0 \<notin> set ss" "0 \<notin> set ts"
  shows "(\<exists>x y. xy_stricmp (ss @ 0 # r1) (ts @ 0 # r2) = Some x \<and> xy_strcasecmp (ss @ 0 # r1) (ts @ 0 # r2) = Some y
      \<and> sgn x = sgn y \<and> (y = 0 \<longleftrightarrow> map case_lower ss = map case_lower ts))
    \<and> (0 < n \<and> n < 2 ^ 32 \<and> n \<le> length ss \<and> n \<le> length ts \<and> map case_lower (take n ss) = map case_lower (take n ts)
      \<longrightarrow> xy_strncasecmp (ss @ 0 # r1) (ts @ 0 # r2) (of_nat n)
        = Some (uint (case_lower ((ss @ [0]) ! n)) - uint (case_lower ((ts @ [0]) ! n))))
    \<and> (length ss < length ts \<and> length ss + 1 < 2 ^ 32 \<and> map case_lower ss = map case_lower (take (length ss) ts)
      \<longrightarrow> xy_strncasecmp (ss @ 0 # r1) (ts @ 0 # r2) (of_nat (length ss + 1)) = Some 0)"
proof (intro conjI impI)
  show "\<exists>x y. xy_stricmp (ss @ 0 # r1) (ts @ 0 # r2) = Some x \<and> xy_strcasecmp (ss @ 0 # r1) (ts @ 0 # r2) = Some y
      \<and> sgn x = sgn y \<and> (y = 0 \<longleftrightarrow> map case_lower ss = map case_lower ts)"
    using assms by (rule stricmp_strcasecmp)
next
  assume n: "0 < n \<and> n < 2 ^ 32 \<and> n \<le> length ss \<and> n \<le> length ts \<and> map case_lower (take n ss) = map case_lower (take n ts)"
  have u: "unat (of_nat n :: u32) = n" "(of_nat n :: u32) \<noteq> 0"
    using n by (simp_all add: unat_of_nat word_neq_0_conv word_less_nat_alt)
  have hd: "drop n xs @ 0 # r = (xs @ [0]) ! n # (if n < length xs then drop (Suc n) xs @ 0 # r else r)"
    if "n \<le> length xs" for xs :: "u8 list" and r
    using that by (cases "n = length xs") (simp_all add: nth_append Cons_nth_drop_Suc [symmetric])
  have "xy_strncasecmp (ss @ 0 # r1) (ts @ 0 # r2) (of_nat n)
      = strncasecmp_loop (drop n ss @ 0 # r1) (drop n ts @ 0 # r2) 0"
    using strncasecmp_loop_equal [OF assms, of n "of_nat n" r1 r2] n u by (simp add: xy_strncasecmp_def)
  then show "xy_strncasecmp (ss @ 0 # r1) (ts @ 0 # r2) (of_nat n)
      = Some (uint (case_lower ((ss @ [0]) ! n)) - uint (case_lower ((ts @ [0]) ! n)))"
    using hd [of ss r1] hd [of ts r2] n by (simp add: strncasecmp_end_def mem_load_def)
next
  assume l: "length ss < length ts \<and> length ss + 1 < 2 ^ 32 \<and> map case_lower ss = map case_lower (take (length ss) ts)"
  let ?m = "length ss"
  have u: "unat (of_nat (?m + 1) :: u32) = ?m + 1"
    using l by (simp only: unat_of_nat) simp
  then have nz: "(of_nat (?m + 1) :: u32) \<noteq> 0" by (metis add_is_0 one_neq_zero unat_0)
  obtain b ts' where ts': "drop ?m ts = b # ts'" using l by (cases "drop ?m ts") auto
  have "xy_strncasecmp (ss @ 0 # r1) (ts @ 0 # r2) (of_nat (?m + 1))
      = strncasecmp_loop (0 # r1) (drop ?m ts @ 0 # r2) (of_nat (?m + 1) - of_nat ?m)"
    using strncasecmp_loop_equal [OF assms, of ?m "of_nat (?m + 1)" r1 r2] l u nz by (simp add: xy_strncasecmp_def del: of_nat_add)
  then show "xy_strncasecmp (ss @ 0 # r1) (ts @ 0 # r2) (of_nat (?m + 1)) = Some 0"
    by (simp add: ts' strncasecmp_end_def)
qed

text \<open>\<open>Ab\<close> and \<open>aBC\<close>.\<close>

lemma comparison_without_case_witness:
  "xy_strncasecmp [65, 98, 0] [97, 66, 67, 0] 2 = Some (- 99) \<and> xy_strncasecmp [65, 98, 0] [97, 66, 67, 0] 3 = Some 0"
  using comparison_without_case [of "[65, 98]" "[97, 66, 67]" "[]" "[]" 2]
  by (simp add: case_lower_def)

end
