(* ===== verification/Xy_Stdio.thy ===== *)
theory Xy_Stdio
  imports Xy_Prelude
begin

unbundle bit_operations_syntax

text \<open>
  Formatted output and input of \<open>components/clib/xy_clib/xy_stdio.c\<close>. A format or a string is the list of bytes from
  the pointer on; reading behind its end is \<open>None\<close>. Output goes to a memory at an offset, \<open>None\<close> for the
  \<open>NULL\<close> pointer with which only the length is computed. The variable arguments are a list of values
  with their types; taking an argument of another type is \<open>None\<close>. A \<open>double\<close> argument is given by the bits of
  the single-precision number the code converts it to, and the comparisons of such numbers are made on their
  bits. A left shift of a signed number that is masked afterwards is the shift of its bits. The text translation flag is a constant of the file that nothing
  sets, and the flags for a plus sign, a space and the alternative form are read but never used.
\<close>

datatype va_arg = VInt u32 | VLong u64 | VStr "u8 list" | VDouble u32

record print_out =
  po_mem :: "u8 list"
  po_buf :: "nat option"
  po_cnt :: u32

definition XY_PRINTF_BUFSIZE :: nat where "XY_PRINTF_BUFSIZE = 1024"

definition g_txt_xlate :: bool where "g_txt_xlate = False"

text \<open>A character stored through the pointer, which is advanced, unless it is \<open>NULL\<close>.\<close>

definition put_char :: "u8 \<Rightarrow> print_out \<Rightarrow> print_out option" where
  "put_char c p =
     (case po_buf p of
        None \<Rightarrow> Some p
      | Some b \<Rightarrow> do { m \<leftarrow> mem_store (po_mem p) b c; Some (p\<lparr>po_mem := m, po_buf := Some (b + 1)\<rparr>) })"

definition count_char :: "print_out \<Rightarrow> print_out" where
  "count_char p = p\<lparr>po_cnt := po_cnt p + 1\<rparr>"

subsection \<open>Numbers\<close>

lemma u64_div_10_less: "v \<noteq> 0 \<Longrightarrow> unat (v div 10) < unat (v :: u64)"
proof -
  assume "v \<noteq> 0"
  then have "0 < unat v" by (simp add: unat_gt_0)
  then show ?thesis unfolding unat_div_distrib by (intro div_less_dividend) simp_all
qed

lemma u64_drop_4_less: "v \<noteq> 0 \<Longrightarrow> unat (drop_bit 4 v) < unat (v :: u64)"
proof -
  assume "v \<noteq> 0"
  then have "0 < unat v" by (simp add: unat_gt_0)
  then show ?thesis unfolding unat_drop_bit_eq drop_bit_eq_div [where 'a = nat] by (intro div_less_dividend) simp_all
qed

text \<open>The digits of a number, the last one first.\<close>

function u64_digits :: "u64 \<Rightarrow> u8 list" where
  "u64_digits v =
     (let temp = v div 10; c = ucast (v - temp * 10) + 0x30
      in if temp = 0 then [c] else c # u64_digits temp)"
  by pat_completeness auto
termination
proof (relation "measure unat")
  fix v temp :: u64
  assume "temp = v div 10" "temp \<noteq> 0"
  then have "v \<noteq> 0" by auto
  then show "(temp, v) \<in> measure unat" using u64_div_10_less \<open>temp = v div 10\<close> by simp
qed simp

function hex_digits :: "u64 \<Rightarrow> bool \<Rightarrow> u8 list" where
  "hex_digits v lower =
     (if v = 0 then []
      else
        let c = (ucast (v AND 0xf) :: u8);
            c = (if c > 9 then c + (if lower then 0x27 else 0x7) else c)
        in (c + 0x30) # hex_digits (drop_bit 4 v) lower)"
  by pat_completeness auto
termination by (relation "measure (\<lambda>(v, lower). unat v)") (simp_all add: u64_drop_4_less)

declare u64_digits.simps [simp del] hex_digits.simps [simp del]

text \<open>The digits in their order, terminated, at the pointer if there is one; and their number.\<close>

definition store_digits :: "u8 list \<Rightarrow> print_out \<Rightarrow> print_out option" where
  "store_digits ds p =
     (case po_buf p of
        None \<Rightarrow> Some p
      | Some b \<Rightarrow> do { m \<leftarrow> mem_write (po_mem p) b (rev ds @ [0]); Some (p\<lparr>po_mem := m\<rparr>) })"

definition uint64_to_str :: "u64 \<Rightarrow> print_out \<Rightarrow> (int \<times> print_out) option" where
  "uint64_to_str v p =
     (if v = 0 then do { p' \<leftarrow> store_digits [0x30] p; Some (1, p') }
      else do { p' \<leftarrow> store_digits (u64_digits v) p; Some (int (length (u64_digits v)), p') })"

definition uint64_to_hexstr :: "u64 \<Rightarrow> bool \<Rightarrow> print_out \<Rightarrow> (int \<times> print_out) option" where
  "uint64_to_hexstr v lower p = do {
     let ds = (if v = 0 then [0x30] else hex_digits v lower);
     p' \<leftarrow> store_digits ds p;
     Some (int (length ds), p') }"

function ndigits_loop :: "u64 \<Rightarrow> int \<Rightarrow> int" where
  "ndigits_loop v n = (if v = 0 then n else ndigits_loop (v div 10) (n + 1))"
  by pat_completeness auto
termination by (relation "measure (\<lambda>(v, n). unat v)") (simp_all add: u64_div_10_less)

function hex_ndigits_loop :: "u64 \<Rightarrow> int \<Rightarrow> int" where
  "hex_ndigits_loop v n = (if v = 0 then n else hex_ndigits_loop (drop_bit 4 v) (n + 1))"
  by pat_completeness auto
termination by (relation "measure (\<lambda>(v, n). unat v)") (simp_all add: u64_drop_4_less)

declare ndigits_loop.simps [simp del] hex_ndigits_loop.simps [simp del]

definition ndigits_in_u64 :: "u64 \<Rightarrow> int" where
  "ndigits_in_u64 v = ndigits_loop v (if v \<noteq> 0 then 0 else 1)"

definition ndigits_in_hex :: "u64 \<Rightarrow> int" where
  "ndigits_in_hex v = hex_ndigits_loop v (if v \<noteq> 0 then 0 else 1)"

text \<open>The negation of the least number is undefined.\<close>

definition ndigits_in_i64 :: "int \<Rightarrow> int option" where
  "ndigits_in_i64 v =
     (if v < 0 then (if v = - (2 ^ 63) then None else Some (ndigits_in_u64 (of_int (- v))))
      else Some (ndigits_in_u64 (of_int v)))"

text \<open>The value of the digits and the number of characters read.\<close>

fun decstr_loop :: "u8 list \<Rightarrow> u32 \<Rightarrow> nat \<Rightarrow> (u32 \<times> nat) option" where
  "decstr_loop [] v cnt = None"
| "decstr_loop (c # s) v cnt =
     (if 0x30 \<le> c \<and> c \<le> 0x39 then decstr_loop s (v * 10 + ucast (c - 0x30)) (cnt + 1) else Some (v, cnt))"

definition decstr_to_int :: "u8 list \<Rightarrow> (u32 \<times> nat) option" where
  "decstr_to_int s = do {
     c \<leftarrow> mem_load s 0;
     if c = 0x2D then do { (v, cnt) \<leftarrow> decstr_loop (drop 1 s) 0 1; Some (- v, cnt) }
     else decstr_loop s 0 0 }"

subsection \<open>The directives\<close>

fun pad_loop :: "u8 list \<Rightarrow> nat \<Rightarrow> u8 \<Rightarrow> nat \<Rightarrow> u8 list option" where
  "pad_loop mem b pad 0 = Some mem"
| "pad_loop mem b pad (Suc n) = do { m \<leftarrow> mem_store mem b pad; pad_loop m (b + 1) pad n }"

definition xy_pad_buffer :: "u8 list \<Rightarrow> nat option \<Rightarrow> u8 \<Rightarrow> int \<Rightarrow> (u8 list \<times> int) option" where
  "xy_pad_buffer mem buf pad num =
     (if num \<le> 0 then Some (mem, 0)
      else
        (case buf of
           None \<Rightarrow> Some (mem, num)
         | Some b \<Rightarrow> do { m \<leftarrow> pad_loop mem b pad (nat num); Some (m, num) }))"

text \<open>Padding, with the pointer and the count moved on by its result.\<close>

definition put_pad :: "u8 \<Rightarrow> int \<Rightarrow> print_out \<Rightarrow> print_out option" where
  "put_pad pad num p = do {
     (m, n) \<leftarrow> xy_pad_buffer (po_mem p) (po_buf p) pad num;
     Some (p\<lparr>po_mem := m, po_buf := map_option (\<lambda>b. b + nat n) (po_buf p), po_cnt := po_cnt p + of_int n\<rparr>) }"

text \<open>The pointer and the count moved on behind digits that were stored.\<close>

definition skip_digits :: "int \<Rightarrow> print_out \<Rightarrow> print_out" where
  "skip_digits n p = p\<lparr>po_buf := map_option (\<lambda>b. b + nat n) (po_buf p), po_cnt := po_cnt p + of_int n\<rparr>"

record print_spec =
  ps_pad :: u8
  ps_left :: bool
  ps_width :: int
  ps_precision :: int
  ps_longlong :: bool
  ps_rest :: "u8 list"

fun parse_flags :: "u8 list \<Rightarrow> bool \<Rightarrow> u8 \<Rightarrow> (bool \<times> u8 \<times> u8 list) option" where
  "parse_flags [] left pad = None"
| "parse_flags (c # s) left pad =
     (if c = 0x2D then parse_flags s True 0x20
      else if c = 0x2B \<or> c = 0x20 \<or> c = 0x23 then parse_flags s left pad
      else Some (left, pad, c # s))"

text \<open>The number of the width and of the precision, and the length modifier.\<close>

definition fmt_width :: "u8 list \<Rightarrow> (int \<times> u8 list) option" where
  "fmt_width s = do {
     (w, n) \<leftarrow> decstr_to_int s;
     c \<leftarrow> mem_load s n;
     width \<leftarrow> (if c \<noteq> 0x73 \<and> sint w < 0 then (if sint w = - (2 ^ 31) then None else Some (- sint w)) else Some (sint w));
     Some (width, drop n s) }"

definition fmt_precision :: "u8 list \<Rightarrow> (int \<times> u8 list) option" where
  "fmt_precision s = do {
     c \<leftarrow> mem_load s 0;
     if c = 0x2E then do { (q, n) \<leftarrow> decstr_to_int (drop 1 s); Some (sint q, drop n (drop 1 s)) }
     else Some (6, s) }"

definition fmt_longlong :: "u8 list \<Rightarrow> (bool \<times> u8 list) option" where
  "fmt_longlong s = do {
     c \<leftarrow> mem_load s 0;
     if c = 0x6C then do { e \<leftarrow> mem_load s 1; Some (if e = 0x6C then (True, drop 2 s) else (False, drop 1 s)) }
     else Some (False, s) }"

text \<open>What stands between the percent sign and the character of the conversion, with which \<open>ps_rest\<close> begins.\<close>

definition fmt_spec :: "u8 list \<Rightarrow> print_spec option" where
  "fmt_spec s = do {
     c \<leftarrow> mem_load s 0;
     (left, pad, s) \<leftarrow> (if c = 0x30 then parse_flags (drop 1 s) False 0x30 else parse_flags s False 0x20);
     (width, s) \<leftarrow> fmt_width s;
     (prec, s) \<leftarrow> fmt_precision s;
     (ll, s) \<leftarrow> fmt_longlong s;
     Some \<lparr>ps_pad = pad, ps_left = left, ps_width = width, ps_precision = prec, ps_longlong = ll, ps_rest = s\<rparr> }"

fun put_string :: "u8 list \<Rightarrow> print_out \<Rightarrow> print_out option" where
  "put_string [] p = None"
| "put_string (c # s) p = (if c = 0 then Some p else do { p' \<leftarrow> put_char c p; put_string s (count_char p') })"

text \<open>\<open>%s\<close>: the length is compared with the width as an unsigned number.\<close>

definition print_str :: "print_spec \<Rightarrow> u8 list \<Rightarrow> print_out \<Rightarrow> print_out option" where
  "print_str sp s p = do {
     n \<leftarrow> c_strlen s;
     let len = (of_nat n :: u32);
     let width = ps_width sp;
     (width, p) \<leftarrow>
       (if width > 0 \<and> len < of_int width
        then do { p \<leftarrow> put_pad (ps_pad sp) (sint (of_int width - len)) p; Some (0, p) }
        else Some (width, p));
     p \<leftarrow> put_string s p;
     if width \<noteq> 0 then
       if width = - (2 ^ 31) then None
       else if len < of_int (- width) then put_pad (ps_pad sp) (sint (of_int (- width) - len)) p
       else Some p
     else Some p }"

definition print_hex :: "bool \<Rightarrow> print_spec \<Rightarrow> u64 \<Rightarrow> print_out \<Rightarrow> print_out option" where
  "print_hex lower sp v p = do {
     p \<leftarrow> (if ps_width sp \<noteq> 0 then put_pad (ps_pad sp) (ps_width sp - ndigits_in_hex v) p else Some p);
     (n, p) \<leftarrow> uint64_to_hexstr v lower p;
     Some (skip_digits n p) }"

definition print_uns :: "print_spec \<Rightarrow> u64 \<Rightarrow> print_out \<Rightarrow> print_out option" where
  "print_uns sp v p = do {
     p \<leftarrow> (if ps_width sp \<noteq> 0 then put_pad (ps_pad sp) (ps_width sp - ndigits_in_u64 v) p else Some p);
     (n, p) \<leftarrow> uint64_to_str v p;
     Some (skip_digits n p) }"

text \<open>The minus sign, which is stored and counted only with a buffer.\<close>

definition put_sign :: "print_out \<Rightarrow> print_out option" where
  "put_sign p = (if po_buf p = None then Some p else do { p' \<leftarrow> put_char 0x2D p; Some (count_char p') })"

definition print_dec :: "print_spec \<Rightarrow> int \<Rightarrow> print_out \<Rightarrow> print_out option" where
  "print_dec sp v p =
     (if v = - (2 ^ 63) then None
      else do {
        let negative = (v < 0);
        let u = (of_int \<bar>v\<bar> :: u64);
        let width = (if negative \<and> ps_width sp > 0 then ps_width sp - 1 else ps_width sp);
        p \<leftarrow> (if negative \<and> ps_pad sp = 0x30 then put_sign p else Some p);
        (n, q) \<leftarrow> uint64_to_str u (p\<lparr>po_buf := None\<rparr>);
        (width, p) \<leftarrow>
          (if width > n \<and> \<not> ps_left sp
           then do { p' \<leftarrow> put_pad (ps_pad sp) (width - n) p; Some (width - n, p') }
           else Some (width, p));
        p \<leftarrow> (if negative \<and> ps_pad sp \<noteq> 0x30 then put_sign p else Some p);
        (k, p) \<leftarrow> uint64_to_str u p;
        let p = skip_digits n p;
        if width > n \<and> ps_left sp then put_pad 0x20 (width - n) p else Some p })"

subsection \<open>Floating-point numbers\<close>

definition float_size :: "u32 \<Rightarrow> u32" where "float_size val = val AND 0x7FFFFFFF"

definition xy_isnan :: "u32 \<Rightarrow> bool" where
  "xy_isnan val = (drop_bit 23 val AND 0xFF = 0xFF \<and> val AND 0x7FFFFF \<noteq> 0)"

definition xy_isinf :: "u32 \<Rightarrow> bool" where
  "xy_isinf val = (drop_bit 23 val AND 0xFF = 0xFF \<and> val AND 0x7FFFFF = 0)"

text \<open>\<open>val > 1e9 || val < -1e9\<close>, \<open>val < 0\<close> and \<open>val == 0.0f\<close>.\<close>

definition float_too_large :: "u32 \<Rightarrow> bool" where
  "float_too_large val = (\<not> xy_isnan val \<and> float_size val > 0x4E6E6B28)"

definition float_negative :: "u32 \<Rightarrow> bool" where
  "float_negative val = (\<not> xy_isnan val \<and> float_size val \<noteq> 0 \<and> sint val < 0)"

definition float_zero :: "u32 \<Rightarrow> bool" where "float_zero val = (float_size val = 0)"

definition FTOA_ERR_VAL_TOO_SMALL :: int where "FTOA_ERR_VAL_TOO_SMALL = -1"
definition FTOA_ERR_VAL_TOO_LARGE :: int where "FTOA_ERR_VAL_TOO_LARGE = -2"
definition FTOA_ERR_BUFSIZE :: int where "FTOA_ERR_BUFSIZE = -3"

text \<open>The integral part, and the fraction in units of \<open>2\<^sup>-\<^sup>2\<^sup>4\<close>.\<close>

definition ftoa_parts :: "int \<Rightarrow> u32 \<Rightarrow> u32 \<times> u32" where
  "ftoa_parts e sig =
     (if e \<ge> 23 then (push_bit (nat (e - 23)) sig, 0)
      else if e \<ge> 0 then (drop_bit (nat (23 - e)) sig, push_bit (nat (e + 1)) sig AND 0x00FFFFFF)
      else (0, drop_bit (nat (- (e + 1))) (sig AND 0x00FFFFFF)))"

definition str_at :: "u64 \<Rightarrow> u8 list \<Rightarrow> nat \<Rightarrow> u8 list option" where
  "str_at v mem b = do { (n, p) \<leftarrow> uint64_to_str v \<lparr>po_mem = mem, po_buf = Some b, po_cnt = 0\<rparr>; Some (po_mem p) }"

definition ftoa_int :: "u32 \<Rightarrow> u8 list \<Rightarrow> nat \<Rightarrow> (u8 list \<times> nat) option" where
  "ftoa_int ip mem b =
     (if ip = 0 then do { m \<leftarrow> mem_store mem b 0x30; Some (m, b + 1) }
      else do {
        (m, b) \<leftarrow>
          (if sint ip > 0 then do { m \<leftarrow> str_at (scast ip) mem b; Some (m, b) }
           else do { m \<leftarrow> mem_store mem b 0x2D; m \<leftarrow> str_at (scast (- ip)) m (b + 1); Some (m, b + 1) });
        n \<leftarrow> c_strlen (drop b m);
        Some (m, b + n) })"

fun frac_loop :: "nat \<Rightarrow> u32 \<Rightarrow> u8 list \<Rightarrow> nat \<Rightarrow> (u32 \<times> u8 list \<times> nat) option" where
  "frac_loop 0 fp mem b = Some (fp, mem, b)"
| "frac_loop (Suc n) fp mem b = do {
     m \<leftarrow> mem_store mem b (ucast (drop_bit 24 (fp * 10)) + 0x30);
     frac_loop n (fp * 10 AND 0x00FFFFFF) m (b + 1) }"

text \<open>One more in the last place, for the bytes from \<open>lo\<close> on, of which there are as many as the last argument says.\<close>

fun round_up :: "u8 list \<Rightarrow> nat \<Rightarrow> nat \<Rightarrow> u8 list option" where
  "round_up mem lo 0 = Some mem"
| "round_up mem lo (Suc n) = do {
     c \<leftarrow> mem_load mem (lo + n);
     if c = 0x2E then round_up mem lo n
     else if c = 0x39 then do { m \<leftarrow> mem_store mem (lo + n) 0x30; round_up m lo n }
     else mem_store mem (lo + n) (c + 1) }"

definition ftoa_frac :: "u32 \<Rightarrow> int \<Rightarrow> int \<Rightarrow> u8 list \<Rightarrow> nat \<Rightarrow> nat \<Rightarrow> (u8 list \<times> nat) option" where
  "ftoa_frac fp bufsize precision mem buf b =
     (if fp = 0 then do { m \<leftarrow> mem_store mem b 0x30; Some (m, b + 1) }
      else do {
        let imax = bufsize - (int b - int buf) - 1;
        let imax = (if imax > precision then precision else imax);
        (fp, m, b) \<leftarrow> frac_loop (nat imax) fp mem b;
        m \<leftarrow> (if drop_bit 24 (fp * 10) \<ge> 5 then round_up m buf (b - buf) else Some m);
        Some (m, b) })"

definition load_u32 :: "u8 list \<Rightarrow> nat \<Rightarrow> u32 option" where
  "load_u32 mem b = do { bs \<leftarrow> mem_read mem b 4; Some (word_rcat (rev bs)) }"

definition xy_ftoa :: "u32 \<Rightarrow> u8 list \<Rightarrow> nat \<Rightarrow> int \<Rightarrow> (int \<times> u8 list) option" where
  "xy_ftoa val mem buf precision =
     (let precision = (if precision < 0 then 6 else precision);
          precision = (if precision > 9 then 9 else precision)
      in if float_too_large val then Some (FTOA_ERR_VAL_TOO_LARGE, mem)
      else if xy_isnan val then do { m \<leftarrow> mem_write mem buf [0x6E, 0x61, 0x6E, 0]; Some (3, m) }
      else if xy_isinf val then
        (if float_negative val then do { m \<leftarrow> mem_write mem buf [0x2D, 0x69, 0x6E, 0x66, 0]; Some (4, m) }
         else do { m \<leftarrow> mem_write mem buf [0x69, 0x6E, 0x66, 0]; Some (3, m) })
      else do {
        w \<leftarrow> load_u32 mem buf;
        let bufsize = sint w;
        if bufsize < 4 then Some (FTOA_ERR_BUFSIZE, mem)
        else if float_zero val then do { m \<leftarrow> mem_write mem buf [0x30, 0x2E, 0x30, 0]; Some (3, m) }
        else do {
          let e = uint (drop_bit 23 val AND 0xFF) - 127;
          let sig = (val AND 0x00FFFFFF) OR 0x00800000;
          let (ip, fp) = ftoa_parts e sig;
          if e \<ge> 31 then Some (FTOA_ERR_VAL_TOO_LARGE, mem)
          else if e < -23 then Some (FTOA_ERR_VAL_TOO_SMALL, mem)
          else do {
            (m, b) \<leftarrow> (if sint val < 0 then do { m \<leftarrow> mem_store mem buf 0x2D; Some (m, buf + 1) } else Some (mem, buf));
            (m, b) \<leftarrow> ftoa_int ip m b;
            m \<leftarrow> mem_store m b 0x2E;
            (m, b) \<leftarrow> ftoa_frac fp bufsize precision m buf (b + 1);
            m \<leftarrow> mem_store m b 0;
            Some (int b - int buf, m) } } })"

text \<open>The bytes that replace a number that could not be converted.\<close>

definition ftoa_error :: "int \<Rightarrow> u8 list" where
  "ftoa_error e =
     (if e = FTOA_ERR_VAL_TOO_SMALL then [0x30, 0x2E, 0x30, 0]
      else if e = FTOA_ERR_VAL_TOO_LARGE then [0x23, 0x2E, 0x23, 0] else [0x3F, 0x2E, 0x3F, 0])"

definition print_float :: "print_spec \<Rightarrow> va_arg list \<Rightarrow> print_out \<Rightarrow> (va_arg list \<times> print_out) option" where
  "print_float sp args p =
     (case po_buf p of
        None \<Rightarrow> Some (args, p)
      | Some b \<Rightarrow>
          (case args of
             VDouble x # args' \<Rightarrow> do {
               m \<leftarrow> mem_write (po_mem p) b [20, 0, 0, 0];
               (n, m) \<leftarrow> xy_ftoa x m b (ps_precision sp);
               (n, m) \<leftarrow> (if n < 0 then do { m' \<leftarrow> mem_write m b (ftoa_error n); Some (3, m') } else Some (n, m));
               Some (args', skip_digits n (p\<lparr>po_mem := m\<rparr>)) }
           | _ \<Rightarrow> None))"

text \<open>The arguments that the conversions take.\<close>

definition va_unsigned :: "bool \<Rightarrow> va_arg list \<Rightarrow> (u64 \<times> va_arg list) option" where
  "va_unsigned ll args =
     (case args of
        VInt v # r \<Rightarrow> if ll then None else Some (ucast v, r)
      | VLong v # r \<Rightarrow> if ll then Some (v, r) else None
      | _ \<Rightarrow> None)"

definition va_signed :: "bool \<Rightarrow> va_arg list \<Rightarrow> (int \<times> va_arg list) option" where
  "va_signed ll args =
     (case args of
        VInt v # r \<Rightarrow> if ll then None else Some (sint v, r)
      | VLong v # r \<Rightarrow> if ll then Some (sint v, r) else None
      | _ \<Rightarrow> None)"

definition print_conv ::
  "u8 \<Rightarrow> print_spec \<Rightarrow> va_arg list \<Rightarrow> print_out
   \<Rightarrow> (va_arg list \<times> print_out) option" where
  "print_conv c sp args p =
     (if c = 0x63 then
        (case args of VInt v # r \<Rightarrow> do { p' \<leftarrow> put_char (ucast v) p; Some (r, count_char p') } | _ \<Rightarrow> None)
      else if c = 0x73 then
        (case args of VStr s # r \<Rightarrow> do { p' \<leftarrow> print_str sp s p; Some (r, p') } | _ \<Rightarrow> None)
      else if c = 0x78 \<or> c = 0x58 then do {
        (v, r) \<leftarrow> va_unsigned (ps_longlong sp) args;
        p' \<leftarrow> print_hex (c = 0x78) sp v p;
        Some (r, p') }
      else if c = 0x75 then do {
        (v, r) \<leftarrow> va_unsigned (ps_longlong sp) args;
        p' \<leftarrow> print_uns sp v p;
        Some (r, p') }
      else if c = 0x64 \<or> c = 0x69 then do {
        (v, r) \<leftarrow> va_signed (ps_longlong sp) args;
        p' \<leftarrow> print_dec sp v p;
        Some (r, p') }
      else if c = 0x66 \<or> c = 0x46 then print_float sp args p
      else do { p' \<leftarrow> put_char c p; Some (args, count_char p') })"

text \<open>A character of the format outside of the directives.\<close>

definition put_text :: "u8 \<Rightarrow> print_out \<Rightarrow> print_out option" where
  "put_text c p = do {
     p \<leftarrow> (if po_buf p \<noteq> None \<and> c = 0x0A \<and> g_txt_xlate
          then do { q \<leftarrow> put_char 0x0D p; Some (count_char q) } else Some p);
     q \<leftarrow> put_char c p;
     Some (count_char q) }"

lemma parse_flags_length: "parse_flags s left pad = Some (l, q, r) \<Longrightarrow> length r \<le> length s"
  by (induction s left pad rule: parse_flags.induct) (auto split: if_splits)

lemma fmt_width_length: "fmt_width s = Some (w, r) \<Longrightarrow> length r \<le> length s"
  by (auto simp: fmt_width_def)

lemma fmt_precision_length: "fmt_precision s = Some (w, r) \<Longrightarrow> length r \<le> length s"
  by (auto simp: fmt_precision_def split: if_splits)

lemma fmt_longlong_length: "fmt_longlong s = Some (w, r) \<Longrightarrow> length r \<le> length s"
  by (auto simp: fmt_longlong_def split: if_splits)

lemma fmt_spec_length: "fmt_spec s = Some sp \<Longrightarrow> length (ps_rest sp) \<le> length s"
  by (fastforce simp: fmt_spec_def split: if_splits
      dest!: parse_flags_length fmt_width_length fmt_precision_length fmt_longlong_length)

function vsprintf_loop :: "u8 list \<Rightarrow> va_arg list \<Rightarrow> print_out \<Rightarrow> print_out option" where
  "vsprintf_loop fmt args p =
     (case fmt of
        [] \<Rightarrow> None
      | c # s \<Rightarrow>
          if c = 0 then Some p
          else if c \<noteq> 0x25 then do { p' \<leftarrow> put_text c p; vsprintf_loop s args p' }
          else
            (case fmt_spec s of
               None \<Rightarrow> None
             | Some sp \<Rightarrow>
                 (case ps_rest sp of
                    [] \<Rightarrow> None
                  | d # rest \<Rightarrow> do {
                      (args', p') \<leftarrow> print_conv d sp args p;
                      vsprintf_loop rest args' p' })))"
  by pat_completeness auto
termination by (relation "measure (\<lambda>(fmt, args, p). length fmt)") (auto dest!: fmt_spec_length)

declare vsprintf_loop.simps [simp del]

subsection \<open>The printing functions\<close>

text \<open>The number of characters and the memory; the pointer may be \<open>NULL\<close>.\<close>

definition xy_stdio_vsprintf :: "u8 list \<Rightarrow> nat option \<Rightarrow> u8 list \<Rightarrow> va_arg list \<Rightarrow> (int \<times> u8 list) option" where
  "xy_stdio_vsprintf mem buf fmt args = do {
     p \<leftarrow> vsprintf_loop fmt args \<lparr>po_mem = mem, po_buf = buf, po_cnt = 0\<rparr>;
     m \<leftarrow> (case po_buf p of None \<Rightarrow> Some (po_mem p) | Some b \<Rightarrow> mem_store (po_mem p) b 0);
     Some (sint (po_cnt p), m) }"

definition xy_stdio_sprintf :: "u8 list \<Rightarrow> nat option \<Rightarrow> u8 list \<Rightarrow> va_arg list \<Rightarrow> (int \<times> u8 list) option" where
  "xy_stdio_sprintf mem buf fmt args = do {
     (num_char, m) \<leftarrow> xy_stdio_vsprintf mem buf fmt args;
     Some (num_char, m) }"

text \<open>
  The static buffer of the file, whether an output and an input handler are installed, and the strings that were
  handed to the former; nothing uses the latter.
\<close>

record stdio_state =
  sd_buf :: "u8 list"
  sd_print :: bool
  sd_input :: bool
  sd_out :: "u8 list list"

definition xy_stdio_printf_init :: "bool \<Rightarrow> stdio_state \<Rightarrow> stdio_state" where
  "xy_stdio_printf_init handler st = st\<lparr>sd_print := handler\<rparr>"

definition xy_stdio_scanf_init :: "bool \<Rightarrow> stdio_state \<Rightarrow> stdio_state" where
  "xy_stdio_scanf_init handler st = st\<lparr>sd_input := handler\<rparr>"

definition xy_stdio_vprintf :: "u8 list \<Rightarrow> va_arg list \<Rightarrow> stdio_state \<Rightarrow> (int \<times> stdio_state) option" where
  "xy_stdio_vprintf fmt args st =
     (if \<not> sd_print st then Some (0, st)
      else do {
        (num_char, m) \<leftarrow> xy_stdio_vsprintf (sd_buf st) (Some 0) fmt args;
        Some (num_char, st\<lparr>sd_buf := m, sd_out := sd_out st @ [takeWhile (\<lambda>c. c \<noteq> 0) m]\<rparr>) })"

definition xy_stdio_printf :: "u8 list \<Rightarrow> va_arg list \<Rightarrow> stdio_state \<Rightarrow> (int \<times> stdio_state) option" where
  "xy_stdio_printf fmt args st =
     (if \<not> sd_print st then Some (0, st)
      else do {
        (num_char, m) \<leftarrow> xy_stdio_vsprintf (sd_buf st) (Some 0) fmt args;
        Some (num_char, st\<lparr>sd_buf := m, sd_out := sd_out st @ [takeWhile (\<lambda>c. c \<noteq> 0) m]\<rparr>) })"

text \<open>
  The destination is a memory, apart from the static buffer, and an offset. The text is put together in the
  static buffer first.
\<close>

definition xy_stdio_vsnprintf ::
  "u8 list \<Rightarrow> nat option \<Rightarrow> u32 \<Rightarrow> u8 list \<Rightarrow> va_arg list \<Rightarrow> stdio_state \<Rightarrow> (int \<times> u8 list \<times> stdio_state) option" where
  "xy_stdio_vsnprintf mem buf n fmt args st =
     (case buf of
        None \<Rightarrow> Some (-1, mem, st)
      | Some b \<Rightarrow>
          if n = 0 then Some (-1, mem, st)
          else do {
            (num_char, g) \<leftarrow> xy_stdio_vsprintf (sd_buf st) (Some 0) fmt args;
            let num = (of_int num_char :: u32);
            let to_copy = unat (if num < n - 1 then num else n - 1);
            xs \<leftarrow> mem_read g 0 to_copy;
            m \<leftarrow> mem_write mem b xs;
            m \<leftarrow> mem_store m (b + to_copy) 0;
            Some (num_char, m, st\<lparr>sd_buf := g\<rparr>) })"

definition xy_stdio_snprintf ::
  "u8 list \<Rightarrow> nat option \<Rightarrow> u32 \<Rightarrow> u8 list option \<Rightarrow> va_arg list \<Rightarrow> stdio_state \<Rightarrow> (int \<times> u8 list \<times> stdio_state) option"
where
  "xy_stdio_snprintf mem buf n fmt args st =
     (case buf of
        None \<Rightarrow> Some (-1, mem, st)
      | Some b \<Rightarrow>
          (case fmt of
             None \<Rightarrow> Some (-1, mem, st)
           | Some f \<Rightarrow>
               if n = 0 then Some (-1, mem, st)
               else do {
                 (ret, m, st) \<leftarrow> xy_stdio_vsnprintf mem (Some b) n f args st;
                 if ret \<ge> 0 \<and> (of_int ret :: u32) < n then do { m \<leftarrow> mem_store m (b + nat ret) 0; Some (ret, m, st) }
                 else if (of_int ret :: u32) \<ge> n
                 then do { m \<leftarrow> mem_store m (b + unat (n - 1)) 0; Some (sint (n - 1), m, st) }
                 else Some (ret, m, st) }))"

subsection \<open>Reading\<close>

definition is_blank :: "u8 \<Rightarrow> bool" where "is_blank c = (c = 0x20 \<or> c = 0x09)"

fun skip_blanks :: "u8 list \<Rightarrow> u8 list option" where
  "skip_blanks [] = None"
| "skip_blanks (c # s) = (if is_blank c then skip_blanks s else Some (c # s))"

definition stroul_digit :: "u8 \<Rightarrow> u32 option" where
  "stroul_digit c =
     (if 0x30 \<le> c \<and> c \<le> 0x39 then Some (ucast c - 0x30)
      else if 0x61 \<le> c \<and> c \<le> 0x7A then Some (ucast c - 0x61 + 10)
      else if 0x41 \<le> c \<and> c \<le> 0x5A then Some (ucast c - 0x41 + 10)
      else None)"

text \<open>The value and what follows the digits.\<close>

fun stroul_loop :: "u32 \<Rightarrow> u32 \<Rightarrow> u8 list \<Rightarrow> (u32 \<times> u8 list) option" where
  "stroul_loop base ret [] = None"
| "stroul_loop base ret (c # s) =
     (case stroul_digit c of
        None \<Rightarrow> Some (ret, c # s)
      | Some digit \<Rightarrow>
          if digit \<ge> base then Some (ret, c # s)
          else if ret > (0xFFFFFFFF - digit) div base then Some (0xFFFFFFFF, c # s)
          else stroul_loop base (ret * base + digit) s)"

definition stroul_prefix :: "u8 list \<Rightarrow> (u32 \<times> u8 list) option" where
  "stroul_prefix s = do {
     c \<leftarrow> mem_load s 0;
     if c = 0x30 then do {
       x \<leftarrow> mem_load s 1;
       if x = 0x78 \<or> x = 0x58 then Some (16, drop 2 s) else Some (8, drop 1 s) }
     else Some (10, s) }"

definition xy_stdio_stroul :: "u8 list option \<Rightarrow> int \<Rightarrow> (u32 \<times> u8 list option) option" where
  "xy_stdio_stroul str base =
     (case str of
        None \<Rightarrow> Some (0, None)
      | Some s \<Rightarrow> do {
          s1 \<leftarrow> skip_blanks s;
          (base_val, s2) \<leftarrow> stroul_prefix s1;
          let base_val = (if base \<noteq> 0 then of_int base else base_val);
          if base_val < 2 \<or> base_val > 36 then Some (0, Some s)
          else do { (v, r) \<leftarrow> stroul_loop base_val 0 s2; Some (v, Some r) } })"

text \<open>
  The arguments of a scan are pointers, given by what they point to, for an array of characters its
  length; the results are the values stored through them, in their order.
\<close>

datatype scan_dest = DInt | DChar | DStr nat

datatype scan_val = SInt int | SChar u8 | SStr "u8 list"

fun scan_width :: "u8 list \<Rightarrow> int \<Rightarrow> u8 list option" where
  "scan_width [] w = None"
| "scan_width (c # s) w =
     (if 0x30 \<le> c \<and> c \<le> 0x39
      then (if w * 10 + (uint c - 48) > 2 ^ 31 - 1 then None else scan_width s (w * 10 + (uint c - 48)))
      else Some (c # s))"

text \<open>Whether the assignment is suppressed, and what follows the width.\<close>

definition scan_spec :: "u8 list \<Rightarrow> (bool \<times> u8 list) option" where
  "scan_spec s = do {
     c \<leftarrow> mem_load s 0;
     let suppress = (c = 0x2A);
     r \<leftarrow> scan_width (if suppress then drop 1 s else s) 0;
     Some (suppress, r) }"

fun scan_word :: "u8 list \<Rightarrow> (u8 list \<times> u8 list) option" where
  "scan_word [] = None"
| "scan_word (c # s) =
     (if c \<noteq> 0 \<and> \<not> is_blank c then map_option (\<lambda>(w, r). (c # w, r)) (scan_word s) else Some ([], c # s))"

record scan_state =
  sc_ptr :: "u8 list"
  sc_dests :: "scan_dest list"
  sc_vals :: "scan_val list"
  sc_conv :: int

definition scan_store :: "scan_val \<Rightarrow> scan_dest list \<Rightarrow> u8 list \<Rightarrow> scan_state \<Rightarrow> scan_state" where
  "scan_store v ds r st = st\<lparr>sc_ptr := r, sc_dests := ds, sc_vals := sc_vals st @ [v], sc_conv := sc_conv st + 1\<rparr>"

definition scan_number :: "bool \<Rightarrow> scan_state \<Rightarrow> (bool \<times> scan_state) option" where
  "scan_number suppress st = do {
     r \<leftarrow> skip_blanks (sc_ptr st);
     c \<leftarrow> mem_load r 0;
     let st = st\<lparr>sc_ptr := r\<rparr>;
     if \<not> (c = 0x2D \<or> 0x30 \<le> c \<and> c \<le> 0x39) then Some (False, st)
     else if suppress then Some (True, st)
     else
       (case sc_dests st of
          DInt # ds \<Rightarrow> do {
            (v, q) \<leftarrow> xy_stdio_stroul (Some r) 10;
            q \<leftarrow> q;
            Some (True, scan_store (SInt (sint v)) ds q st) }
        | _ \<Rightarrow> None) }"

definition scan_char :: "bool \<Rightarrow> scan_state \<Rightarrow> (bool \<times> scan_state) option" where
  "scan_char suppress st = do {
     c \<leftarrow> mem_load (sc_ptr st) 0;
     if c = 0 then Some (False, st)
     else if suppress then Some (True, st)
     else
       (case sc_dests st of
          DChar # ds \<Rightarrow> Some (True, scan_store (SChar c) ds (drop 1 (sc_ptr st)) st)
        | _ \<Rightarrow> None) }"

definition scan_string :: "bool \<Rightarrow> scan_state \<Rightarrow> (bool \<times> scan_state) option" where
  "scan_string suppress st = do {
     r \<leftarrow> skip_blanks (sc_ptr st);
     c \<leftarrow> mem_load r 0;
     let st = st\<lparr>sc_ptr := r\<rparr>;
     if c = 0 then Some (False, st)
     else if suppress then Some (True, st)
     else
       (case sc_dests st of
          DStr room # ds \<Rightarrow> do {
            (w, q) \<leftarrow> scan_word r;
            if length w < room then Some (True, scan_store (SStr w) ds q st) else None }
        | _ \<Rightarrow> None) }"

text \<open>A conversion: whether the scan goes on.\<close>

definition scan_conv :: "u8 \<Rightarrow> bool \<Rightarrow> scan_state \<Rightarrow> (bool \<times> scan_state) option" where
  "scan_conv c suppress st =
     (if c = 0x64 \<or> c = 0x75 \<or> c = 0x78 \<or> c = 0x58 then scan_number suppress st
      else if c = 0x63 then scan_char suppress st
      else if c = 0x73 then scan_string suppress st
      else Some (False, st))"

lemma scan_width_length: "scan_width s w = Some r \<Longrightarrow> length r \<le> length s"
  by (induction s w rule: scan_width.induct) (auto split: if_splits)

lemma scan_spec_length: "scan_spec s = Some (b, r) \<Longrightarrow> length r \<le> length s"
  by (auto simp: scan_spec_def Let_def dest!: scan_width_length split: if_splits)

function vsscanf_loop :: "u8 list \<Rightarrow> scan_state \<Rightarrow> scan_state option" where
  "vsscanf_loop fmt st =
     (case fmt of
        [] \<Rightarrow> None
      | c # s \<Rightarrow>
          if c = 0 then Some st
          else if c = 0x25 then
            (case scan_spec s of
               None \<Rightarrow> None
             | Some (suppress, r) \<Rightarrow>
                 (case r of
                    [] \<Rightarrow> None
                  | d # rest \<Rightarrow> do {
                      (go, st) \<leftarrow> scan_conv d suppress st;
                      if go then vsscanf_loop rest st else Some st }))
          else if is_blank c then do { r \<leftarrow> skip_blanks (sc_ptr st); vsscanf_loop s (st\<lparr>sc_ptr := r\<rparr>) }
          else do {
            x \<leftarrow> mem_load (sc_ptr st) 0;
            if x = c then vsscanf_loop s (st\<lparr>sc_ptr := drop 1 (sc_ptr st)\<rparr>) else Some st })"
  by pat_completeness auto
termination by (relation "measure (\<lambda>(fmt, st). length fmt)") (auto dest!: scan_spec_length)

declare vsscanf_loop.simps [simp del]

text \<open>The number of conversions and the values stored.\<close>

definition xy_stdio_vsscanf ::
  "u8 list option \<Rightarrow> u8 list option \<Rightarrow> scan_dest list \<Rightarrow> (int \<times> scan_val list) option" where
  "xy_stdio_vsscanf str fmt dests =
     (case (str, fmt) of
        (Some s, Some f) \<Rightarrow> do {
          st \<leftarrow> vsscanf_loop f \<lparr>sc_ptr = s, sc_dests = dests, sc_vals = [], sc_conv = 0\<rparr>;
          Some (sc_conv st, sc_vals st) }
      | _ \<Rightarrow> Some (-1, []))"

definition xy_stdio_sscanf ::
  "u8 list option \<Rightarrow> u8 list option \<Rightarrow> scan_dest list \<Rightarrow> (int \<times> scan_val list) option" where
  "xy_stdio_sscanf str fmt dests = do { (n, vals) \<leftarrow> xy_stdio_vsscanf str fmt dests; Some (n, vals) }"

definition xy_stdio_scanf :: "u8 list option \<Rightarrow> scan_dest list \<Rightarrow> stdio_state \<Rightarrow> (int \<times> scan_val list) option" where
  "xy_stdio_scanf fmt dests st = do { (n, vals) \<leftarrow> xy_stdio_vsscanf (Some (sd_buf st)) fmt dests; Some (n, vals) }"

end
