(* ===== verification/Xy_Stdio_Correct.thy ===== *)
theory Xy_Stdio_Correct
  imports Xy_Stdio
begin

text \<open>
  What the formatted output writes and what the formatted input reads: the digits of a number, the text of each
  directive as the standard defines it, whole formats, and reading back what was printed.
\<close>

subsection \<open>The digits of a number\<close>

text \<open>The digits of a number in a base, the first one first, and their text.\<close>

function digits_of :: "nat \<Rightarrow> nat \<Rightarrow> nat list" where
  "digits_of b n = (if n < b \<or> b < 2 then [n] else digits_of b (n div b) @ [n mod b])"
  by pat_completeness auto
termination by (relation "measure snd") (auto intro!: div_less_dividend)

declare digits_of.simps [simp del]

definition digit_byte :: "bool \<Rightarrow> nat \<Rightarrow> u8" where
  "digit_byte lower d = (if d < 10 then of_nat (48 + d) else if lower then of_nat (87 + d) else of_nat (55 + d))"

definition num_text :: "nat \<Rightarrow> bool \<Rightarrow> nat \<Rightarrow> u8 list" where
  "num_text b lower n = map (digit_byte lower) (digits_of b n)"

lemma digits_of_small: "n < b \<Longrightarrow> digits_of b n = [n]"
  by (subst digits_of.simps) simp

lemma digits_of_step: "2 \<le> b \<Longrightarrow> b \<le> n \<Longrightarrow> digits_of b n = digits_of b (n div b) @ [n mod b]"
  by (subst digits_of.simps) auto

lemma digits_of_value: "2 \<le> b \<Longrightarrow> foldl (\<lambda>v d. v * b + d) 0 (digits_of b n) = n"
proof (induction b n rule: digits_of.induct)
  case (1 b n)
  then show ?case
    by (cases "n < b") (simp_all add: digits_of_small digits_of_step)
qed

lemma digits_of_bound: "2 \<le> b \<Longrightarrow> d \<in> set (digits_of b n) \<Longrightarrow> d < b"
proof (induction b n rule: digits_of.induct)
  case (1 b n)
  then show ?case
    by (cases "n < b") (auto simp: digits_of_small digits_of_step)
qed

lemma digits_of_hd: "2 \<le> b \<Longrightarrow> 0 < n \<Longrightarrow> \<exists>d ds. digits_of b n = d # ds \<and> 0 < d"
proof (induction b n rule: digits_of.induct)
  case (1 b n)
  then show ?case
    by (cases "n < b") (auto simp: digits_of_small digits_of_step div_greater_zero_iff)
qed

lemma num_text_small: "n < b \<Longrightarrow> num_text b lower n = [digit_byte lower n]"
  by (simp add: num_text_def digits_of_small)

lemma num_text_step: "2 \<le> b \<Longrightarrow> b \<le> n \<Longrightarrow> num_text b lower n = num_text b lower (n div b) @ [digit_byte lower (n mod b)]"
  by (simp add: num_text_def digits_of_step)

lemma num_text_pos: "0 < length (num_text b lower n)"
proof -
  have "digits_of b n \<noteq> []" by (subst digits_of.simps) simp
  then show ?thesis by (simp add: num_text_def)
qed

lemma u64_digits_step:
  "u64_digits v = (if v div 10 = 0 then [ucast (v mod 10) + 0x30] else (ucast (v mod 10) + 0x30) # u64_digits (v div 10))"
proof -
  have "v - v div 10 * 10 = v mod 10" by (simp add: minus_div_mult_eq_mod)
  then show ?thesis by (subst u64_digits.simps) (simp only: Let_def)
qed

lemma dec_digit_byte: "ucast (v mod (10 :: u64)) + (0x30 :: u8) = digit_byte lower (unat v mod 10)"
proof -
  define d where "d = unat v mod 10"
  have d: "d < 10" by (simp add: d_def)
  have "(ucast (v mod 10) :: u8) = of_nat (unat (v mod 10))" by (rule of_nat_unat [symmetric])
  also have "unat (v mod 10) = d" by (simp add: d_def unat_mod_distrib)
  finally show ?thesis unfolding d_def [symmetric] using d by (simp add: digit_byte_def)
qed

lemma hex_digit_byte:
  assumes "c = (ucast (v AND (0xf :: u64)) :: u8)"
  shows "(if c > 9 then c + (if lower then 0x27 else 0x7) else c) + 0x30 = digit_byte lower (unat v mod 16)"
proof -
  define d where "d = unat v mod 16"
  have d: "d < 16" by (simp add: d_def)
  have "c = of_nat (unat (v AND 0xf))" unfolding assms by (rule of_nat_unat [symmetric])
  also have "v AND 0xf = take_bit 4 v" by (simp add: take_bit_eq_mask mask_numeral)
  also have "unat (take_bit 4 v) = d" by (simp add: d_def unat_mod_distrib take_bit_eq_mod)
  finally have c: "c = of_nat d" .
  consider "d < 10" | "d = 10" | "d = 11" | "d = 12" | "d = 13" | "d = 14" | "d = 15" using d by linarith
  then show ?thesis unfolding d_def [symmetric] c
  proof cases
    case 1
    then have "\<not> (of_nat d :: u8) > 9" by (simp add: word_less_nat_alt unat_of_nat)
    then show "(if (of_nat d :: u8) > 9 then of_nat d + (if lower then 0x27 else 0x7) else of_nat d) + 0x30 = digit_byte lower d"
      using 1 by (simp add: digit_byte_def)
  qed (simp_all add: digit_byte_def)
qed

lemma u64_digits_text: "u64_digits v = rev (num_text 10 lower (unat v))"
proof (induction v rule: u64_digits.induct)
  case (1 v)
  have div: "unat (v div 10) = unat v div 10" by (simp add: unat_div_distrib)
  show ?case
  proof (cases "v div 10 = 0")
    case True
    then have "unat v < 10" using div by (metis div_eq_0_iff unat_0 zero_neq_numeral)
    then show ?thesis using True dec_digit_byte [of v lower]
      by (subst u64_digits_step) (simp add: num_text_small)
  next
    case False
    then have "10 \<le> unat v" using div by (metis div_less leI unat_eq_0)
    then show ?thesis using False 1 div dec_digit_byte [of v lower]
      by (subst u64_digits_step) (simp add: num_text_step)
  qed
qed

lemma hex_digits_text: "hex_digits v lower = (if v = 0 then [] else rev (num_text 16 lower (unat v)))"
proof (induction v lower rule: hex_digits.induct)
  case (1 v lower)
  have div: "unat (drop_bit 4 v) = unat v div 16" unfolding unat_drop_bit_eq by (simp add: drop_bit_eq_div)
  show ?case
  proof (cases "v = 0")
    case False
    then have e: "hex_digits v lower = digit_byte lower (unat v mod 16) # hex_digits (drop_bit 4 v) lower"
      by (subst hex_digits.simps) (simp only: if_False Let_def hex_digit_byte [OF refl])
    show ?thesis
    proof (cases "drop_bit 4 v = 0")
      case True
      then have "unat v < 16" using div by (metis div_eq_0_iff unat_0 zero_neq_numeral)
      moreover have "hex_digits (drop_bit 4 v) lower = []" unfolding True by (simp add: hex_digits.simps)
      ultimately show ?thesis using False by (simp add: e num_text_small)
    next
      case nz: False
      then have "16 \<le> unat v" using div by (metis div_less leI unat_eq_0)
      then show ?thesis using False nz 1 [OF False refl refl] div by (simp add: e num_text_step)
    qed
  qed (simp add: hex_digits.simps)
qed

lemma ndigits_loop_text: "ndigits_loop v n = n + (if v = 0 then 0 else int (length (num_text 10 lower (unat v))))"
proof (induction v n rule: ndigits_loop.induct)
  case (1 v n)
  have div: "unat (v div 10) = unat v div 10" by (simp add: unat_div_distrib)
  show ?case
  proof (cases "v = 0")
    case False
    then have e: "ndigits_loop v n = ndigits_loop (v div 10) (n + 1)" by (subst ndigits_loop.simps) simp
    show ?thesis
    proof (cases "v div 10 = 0")
      case True
      then have "unat v < 10" using div by (metis div_eq_0_iff unat_0 zero_neq_numeral)
      then show ?thesis using False True 1 by (simp add: e num_text_small)
    next
      case nz: False
      then have "10 \<le> unat v" using div by (metis div_less leI unat_eq_0)
      then show ?thesis using False nz 1 div by (simp add: e num_text_step)
    qed
  qed (simp add: ndigits_loop.simps)
qed

lemma hex_ndigits_loop_text: "hex_ndigits_loop v n = n + (if v = 0 then 0 else int (length (num_text 16 lower (unat v))))"
proof (induction v n rule: hex_ndigits_loop.induct)
  case (1 v n)
  have div: "unat (drop_bit 4 v) = unat v div 16" unfolding unat_drop_bit_eq by (simp add: drop_bit_eq_div)
  show ?case
  proof (cases "v = 0")
    case False
    then have e: "hex_ndigits_loop v n = hex_ndigits_loop (drop_bit 4 v) (n + 1)" by (subst hex_ndigits_loop.simps) simp
    show ?thesis
    proof (cases "drop_bit 4 v = 0")
      case True
      then have "unat v < 16" using div by (metis div_eq_0_iff unat_0 zero_neq_numeral)
      then show ?thesis using False True 1 by (simp add: e num_text_small)
    next
      case nz: False
      then have "16 \<le> unat v" using div by (metis div_less leI unat_eq_0)
      then show ?thesis using False nz 1 div by (simp add: e num_text_step)
    qed
  qed (simp add: hex_ndigits_loop.simps)
qed

lemma ndigits_text:
  "ndigits_in_u64 v = int (length (num_text 10 lower (unat v)))"
  "ndigits_in_hex v = int (length (num_text 16 lower (unat v)))"
  by (simp_all add: ndigits_in_u64_def ndigits_in_hex_def ndigits_loop_text [where lower = lower]
      hex_ndigits_loop_text [where lower = lower] num_text_small)

lemma num_text_0: "2 \<le> b \<Longrightarrow> num_text b lower 0 = [0x30]"
  by (simp add: num_text_small digit_byte_def)

text \<open>What the two writers of numbers store.\<close>

definition str_digits :: "u8 list \<Rightarrow> print_out \<Rightarrow> (int \<times> print_out) option" where
  "str_digits ds p = do { p' \<leftarrow> store_digits (rev ds) p; Some (int (length ds), p') }"

lemma uint64_to_str_text: "uint64_to_str v p = str_digits (num_text 10 True (unat v)) p"
  by (simp add: uint64_to_str_def str_digits_def u64_digits_text [where lower = True] num_text_0)

lemma uint64_to_hexstr_text: "uint64_to_hexstr v lower p = str_digits (num_text 16 lower (unat v)) p"
  by (simp add: uint64_to_hexstr_def str_digits_def hex_digits_text num_text_0)

lemma sint_of_int_u32: "- (2 ^ 31) \<le> i \<Longrightarrow> i < 2 ^ 31 \<Longrightarrow> sint (of_int i :: u32) = i"
  by (simp add: signed_of_int signed_take_bit_int_eq_self)

lemma sint_of_nat_u32: "n < 2 ^ 31 \<Longrightarrow> sint (of_nat n :: u32) = int n"
  using sint_of_int_u32 [of "int n"] by simp

subsection \<open>Writing into a memory\<close>

text \<open>
  The text \<open>t\<close> has been written from offset \<open>b\<close> on into a memory that was \<open>M\<close>: the byte behind it may have
  changed, the others have not.
\<close>

definition out_at :: "u8 list \<Rightarrow> nat \<Rightarrow> u8 list \<Rightarrow> print_out \<Rightarrow> bool" where
  "out_at M b t p \<longleftrightarrow> po_buf p = Some (b + length t) \<and> po_cnt p = of_nat (length t) \<and> length (po_mem p) = length M
     \<and> take (b + length t) (po_mem p) = take b M @ t
     \<and> drop (Suc (b + length t)) (po_mem p) = drop (Suc (b + length t)) M"

text \<open>A step of the printing that writes the text \<open>s\<close> wherever there is room for it and one more byte.\<close>

definition emits :: "(print_out \<Rightarrow> print_out option) \<Rightarrow> u8 list \<Rightarrow> bool" where
  "emits f s \<longleftrightarrow> (\<forall>M b t p. out_at M b t p \<longrightarrow> b + length t + length s < length M
     \<longrightarrow> (\<exists>p'. f p = Some p' \<and> out_at M b (t @ s) p'))"

lemma emitsI:
  assumes "\<And>M b t p. out_at M b t p \<Longrightarrow> b + length t + length s < length M \<Longrightarrow> \<exists>p'. f p = Some p' \<and> out_at M b (t @ s) p'"
  shows "emits f s"
  using assms by (auto simp: emits_def)

lemma emitsE:
  assumes "emits f s" and "out_at M b t p" and "b + length t + length s < length M"
  obtains p' where "f p = Some p'" and "out_at M b (t @ s) p'"
  using assms unfolding emits_def by blast

lemma emits_cong: "emits g s \<Longrightarrow> (\<And>M b t p. out_at M b t p \<Longrightarrow> f p = g p) \<Longrightarrow> emits f s"
  unfolding emits_def by metis

lemma emits_skip: "emits Some []"
  by (rule emitsI) simp

lemma emits_seq:
  assumes "emits f s" and "emits g t"
  shows "emits (\<lambda>p. f p \<bind> g) (s @ t)"
proof (rule emitsI)
  fix M b u p
  assume o: "out_at M b u p" and room: "b + length u + length (s @ t) < length M"
  from room have "b + length u + length s < length M" by simp
  then obtain p' where p': "f p = Some p'" "out_at M b (u @ s) p'" using emitsE [OF assms(1) o] by blast
  from room have "b + length (u @ s) + length t < length M" by simp
  then obtain q where "g p' = Some q" "out_at M b ((u @ s) @ t) q" using emitsE [OF assms(2) p'(2)] by blast
  then show "\<exists>q. (f p \<bind> g) = Some q \<and> out_at M b (u @ s @ t) q" using p' by simp
qed

lemma out_at_write:
  assumes "out_at M b t p" and "b + length t + length s < length M" and "length e \<le> 1"
  obtains m where "mem_write (po_mem p) (b + length t) (s @ e) = Some m"
    and "\<And>n. n = (of_nat (length (t @ s)) :: u32) \<Longrightarrow>
      out_at M b (t @ s) (p\<lparr>po_mem := m, po_buf := Some (b + length t + length s), po_cnt := n\<rparr>)"
proof
  let ?m = "take (b + length t) (po_mem p) @ (s @ e) @ drop (b + length t + length (s @ e)) (po_mem p)"
  have len: "length (po_mem p) = length M" and tk: "take (b + length t) (po_mem p) = take b M @ t"
    and dr: "drop (Suc (b + length t)) (po_mem p) = drop (Suc (b + length t)) M" using assms(1) by (simp_all add: out_at_def)
  show "mem_write (po_mem p) (b + length t) (s @ e) = Some ?m" using assms(2,3) len by (simp add: mem_write_def)
  fix n
  assume n: "n = (of_nat (length (t @ s)) :: u32)"
  have b: "min (length M) b = b" using assms(2) by simp
  have d: "drop k (po_mem p) = drop k M" if "Suc (b + length t) \<le> k" for k
  proof -
    have "drop k (po_mem p) = drop (k - Suc (b + length t)) (drop (Suc (b + length t)) (po_mem p))" using that by simp
    also have "\<dots> = drop k M" unfolding dr using that by simp
    finally show ?thesis .
  qed
  have "drop (Suc (b + length t + length s)) ?m = drop (Suc (b + length t + length s)) (po_mem p)"
    using assms(2,3) len by (cases e) (auto simp: tk b)
  then show "out_at M b (t @ s) (p\<lparr>po_mem := ?m, po_buf := Some (b + length t + length s), po_cnt := n\<rparr>)"
    using assms(2,3) len d [of "Suc (b + length t + length s)"] n
    by (cases e) (auto simp: out_at_def tk b add.assoc)
qed

text \<open>The terminator behind the text.\<close>

lemma out_at_store:
  assumes "out_at M b t p" and room: "b + length t < length M"
  shows "mem_store (po_mem p) (b + length t) c = Some (take b M @ t @ c # drop (b + length t + 1) M)"
proof -
  have "po_mem p = (take b M @ t) @ drop (b + length t) (po_mem p)"
    using assms(1) append_take_drop_id [of "b + length t" "po_mem p"] by (simp add: out_at_def)
  moreover have "drop (b + length t) (po_mem p) = po_mem p ! (b + length t) # drop (Suc (b + length t)) M"
    using assms by (simp add: out_at_def Cons_nth_drop_Suc [symmetric])
  ultimately have e: "po_mem p = (take b M @ t) @ po_mem p ! (b + length t) # drop (Suc (b + length t)) M" by simp
  have l: "length (take b M @ t) = b + length t" using room by simp
  have "(po_mem p)[b + length t := c] = take b M @ t @ c # drop (b + length t + 1) M"
    by (subst e, subst l [symmetric], subst list_update_length) simp
  then show ?thesis using assms by (simp add: mem_store_def out_at_def)
qed

lemma store_as_write: "mem_store m i c = mem_write m i [c]"
  by (simp add: mem_store_def mem_write_def upd_conv_take_nth_drop)

lemma emits_char: "emits (\<lambda>p. do { p' \<leftarrow> put_char c p; Some (count_char p') }) [c]"
proof (rule emitsI)
  fix M b t p
  assume o: "out_at M b t p" and room: "b + length t + length [c] < length M"
  from out_at_write [OF o room, of "[]"] obtain m where
    m: "mem_write (po_mem p) (b + length t) ([c] @ []) = Some m"
    and q: "\<And>n. n = (of_nat (length (t @ [c])) :: u32) \<Longrightarrow>
      out_at M b (t @ [c]) (p\<lparr>po_mem := m, po_buf := Some (b + length t + length [c]), po_cnt := n\<rparr>)"
    by (metis list.size(3) zero_le_one)
  have buf: "po_buf p = Some (b + length t)" "po_cnt p = of_nat (length t)" using o by (simp_all add: out_at_def)
  show "\<exists>p'. do { p' \<leftarrow> put_char c p; Some (count_char p') } = Some p' \<and> out_at M b (t @ [c]) p'"
    using m q [of "po_cnt p + 1"] buf by (simp add: put_char_def count_char_def store_as_write)
qed

lemma pad_loop_write: "b + n \<le> length mem \<Longrightarrow> pad_loop mem b c n = mem_write mem b (replicate n c)"
proof (induction n arbitrary: mem b)
  case (Suc n)
  have "mem_store mem b c = Some (mem[b := c])" using Suc.prems by (simp add: mem_store_def)
  moreover have "mem_write (mem[b := c]) (b + 1) (replicate n c) = mem_write mem b (replicate (Suc n) c)"
    using Suc.prems by (simp add: mem_write_def take_Suc_update)
  ultimately show ?case using Suc.prems Suc.IH [of "b + 1" "mem[b := c]"] by simp
qed (simp add: mem_write_def)

lemma emits_pad: "emits (put_pad c n) (replicate (nat n) c)"
proof (rule emitsI)
  fix M b t p
  assume o: "out_at M b t p" and room: "b + length t + length (replicate (nat n) c) < length M"
  from out_at_write [OF o room, of "[]"] obtain m where
    m: "mem_write (po_mem p) (b + length t) (replicate (nat n) c @ []) = Some m"
    and q: "\<And>k. k = (of_nat (length (t @ replicate (nat n) c)) :: u32) \<Longrightarrow>
      out_at M b (t @ replicate (nat n) c)
        (p\<lparr>po_mem := m, po_buf := Some (b + length t + length (replicate (nat n) c)), po_cnt := k\<rparr>)"
    by (metis list.size(3) zero_le_one)
  have buf: "po_buf p = Some (b + length t)" "po_cnt p = of_nat (length t)" and len: "length (po_mem p) = length M"
    using o by (simp_all add: out_at_def)
  show "\<exists>p'. put_pad c n p = Some p' \<and> out_at M b (t @ replicate (nat n) c) p'"
  proof (cases "n \<le> 0")
    case True
    then show ?thesis using o by (simp add: put_pad_def xy_pad_buffer_def buf) (simp add: buf [symmetric])
  next
    case False
    then have n: "n = int (nat n)" by simp
    have k: "po_cnt p + of_int n = (of_nat (length (t @ replicate (nat n) c)) :: u32)"
      using False by (simp add: buf)
    have "pad_loop (po_mem p) (b + length t) c (nat n) = Some m"
      using m room len by (subst pad_loop_write) simp_all
    then show ?thesis using False q [OF k] by (simp add: put_pad_def xy_pad_buffer_def buf)
  qed
qed

text \<open>The digits that are stored and those that are only counted.\<close>

lemma str_digits_null: "po_buf p = None \<Longrightarrow> str_digits ds p = Some (int (length ds), p)"
  by (simp add: str_digits_def store_digits_def)

lemma emits_digits: "emits (\<lambda>p. do { (n, p') \<leftarrow> str_digits ds p; Some (skip_digits n p') }) ds"
proof (rule emitsI)
  fix M b t p
  assume o: "out_at M b t p" and room: "b + length t + length ds < length M"
  from out_at_write [OF o room, of "[0]"] obtain m where
    m: "mem_write (po_mem p) (b + length t) (ds @ [0]) = Some m"
    and q: "\<And>k. k = (of_nat (length (t @ ds)) :: u32) \<Longrightarrow>
      out_at M b (t @ ds) (p\<lparr>po_mem := m, po_buf := Some (b + length t + length ds), po_cnt := k\<rparr>)"
    by (metis One_nat_def le_refl length_Cons list.size(3))
  have buf: "po_buf p = Some (b + length t)" "po_cnt p = of_nat (length t)" using o by (simp_all add: out_at_def)
  show "\<exists>p'. do { (n, p') \<leftarrow> str_digits ds p; Some (skip_digits n p') } = Some p' \<and> out_at M b (t @ ds) p'"
    using m q [of "po_cnt p + of_nat (length ds)"] buf
    by (simp add: str_digits_def store_digits_def skip_digits_def)
qed

lemma emits_sign: "emits put_sign [0x2D]"
  by (rule emits_cong [OF emits_char]) (simp add: put_sign_def out_at_def)

lemma emits_string: "0 \<notin> set s \<Longrightarrow> emits (put_string (s @ 0 # r)) s"
proof (induction s)
  case Nil
  then show ?case using emits_skip by (simp add: emits_def)
next
  case (Cons c s)
  have "emits (\<lambda>p. do { p' \<leftarrow> put_char c p; Some (count_char p') } \<bind> put_string (s @ 0 # r)) ([c] @ s)"
    using Cons by (intro emits_seq emits_char) simp_all
  then show ?case using Cons.prems by (simp add: emits_def)
qed

subsection \<open>The text of a directive\<close>

definition pad_left :: "u8 \<Rightarrow> nat \<Rightarrow> u8 list \<Rightarrow> u8 list" where
  "pad_left c w s = replicate (w - length s) c @ s"

text \<open>A signed number, with zeros between the sign and the digits, or blanks before or behind.\<close>

definition dec_text :: "bool \<Rightarrow> bool \<Rightarrow> nat \<Rightarrow> int \<Rightarrow> u8 list" where
  "dec_text zero left w v =
     (let sg = (if v < 0 then [0x2D] else []);
          ds = num_text 10 True (nat \<bar>v\<bar>);
          k = w - length sg - length ds
      in if left then sg @ ds @ replicate k 0x20
         else if zero then sg @ replicate k 0x30 @ ds
         else replicate k 0x20 @ sg @ ds)"

lemma emits_when: "(P \<Longrightarrow> emits f s) \<Longrightarrow> emits (if P then f else Some) (if P then s else [])"
  using emits_skip by auto

lemma emits_print_hex:
  assumes "ps_width sp = int w"
  shows "emits (print_hex lower sp v) (pad_left (ps_pad sp) w (num_text 16 lower (unat v)))"
proof -
  let ?ds = "num_text 16 lower (unat v)"
  have "emits (\<lambda>p. (if w \<noteq> 0 then put_pad (ps_pad sp) (int w - int (length ?ds)) else Some) p
      \<bind> (\<lambda>p. do { (n, p') \<leftarrow> str_digits ?ds p; Some (skip_digits n p') }))
    ((if w \<noteq> 0 then replicate (nat (int w - int (length ?ds))) (ps_pad sp) else []) @ ?ds)"
    by (intro emits_seq emits_when emits_pad emits_digits)
  moreover have "(if w \<noteq> 0 then replicate (nat (int w - int (length ?ds))) (ps_pad sp) else []) @ ?ds
      = pad_left (ps_pad sp) w ?ds" by (simp add: pad_left_def nat_minus_as_int)
  moreover have "print_hex lower sp v = (\<lambda>p. (if w \<noteq> 0 then put_pad (ps_pad sp) (int w - int (length ?ds)) else Some) p
      \<bind> (\<lambda>p. do { (n, p') \<leftarrow> str_digits ?ds p; Some (skip_digits n p') }))"
    by (rule ext) (simp add: print_hex_def assms uint64_to_hexstr_text ndigits_text [where lower = lower])
  ultimately show ?thesis by simp
qed

lemma emits_print_uns:
  assumes "ps_width sp = int w"
  shows "emits (print_uns sp v) (pad_left (ps_pad sp) w (num_text 10 True (unat v)))"
proof -
  let ?ds = "num_text 10 True (unat v)"
  have "emits (\<lambda>p. (if w \<noteq> 0 then put_pad (ps_pad sp) (int w - int (length ?ds)) else Some) p
      \<bind> (\<lambda>p. do { (n, p') \<leftarrow> str_digits ?ds p; Some (skip_digits n p') }))
    ((if w \<noteq> 0 then replicate (nat (int w - int (length ?ds))) (ps_pad sp) else []) @ ?ds)"
    by (intro emits_seq emits_when emits_pad emits_digits)
  moreover have "(if w \<noteq> 0 then replicate (nat (int w - int (length ?ds))) (ps_pad sp) else []) @ ?ds
      = pad_left (ps_pad sp) w ?ds" by (simp add: pad_left_def nat_minus_as_int)
  moreover have "print_uns sp v = (\<lambda>p. (if w \<noteq> 0 then put_pad (ps_pad sp) (int w - int (length ?ds)) else Some) p
      \<bind> (\<lambda>p. do { (n, p') \<leftarrow> str_digits ?ds p; Some (skip_digits n p') }))"
    by (rule ext) (simp add: print_uns_def assms uint64_to_str_text ndigits_text [where lower = True])
  ultimately show ?thesis by simp
qed

lemma emits_print_dec:
  assumes w: "ps_width sp = int w" and left: "ps_left sp = left"
    and pad: "ps_pad sp = (if zero \<and> \<not> left then 0x30 else 0x20)" and v: "\<bar>v\<bar> < 2 ^ 63"
  shows "emits (print_dec sp v) (dec_text zero left w v)"
proof -
  define ds where "ds = num_text 10 True (nat \<bar>v\<bar>)"
  define W where "W = (if v < 0 \<and> w > 0 then int w - 1 else int w)"
  define c where "c = ps_pad sp"
  let ?A = "if v < 0 \<and> c = 0x30 then put_sign else Some"
  let ?B = "if \<not> left then put_pad c (W - int (length ds)) else Some"
  let ?C = "if v < 0 \<and> c \<noteq> 0x30 then put_sign else Some"
  let ?D = "\<lambda>p. do { (n, p') \<leftarrow> str_digits ds p; Some (skip_digits n p') }"
  let ?E = "if left then put_pad 0x20 (W - int (length ds)) else Some"
  let ?text = "(((if v < 0 \<and> c = 0x30 then [0x2D] else []) @ (if \<not> left then replicate (nat (W - int (length ds))) c else []))
      @ (if v < 0 \<and> c \<noteq> 0x30 then [0x2D] else [])) @ ds @ (if left then replicate (nat (W - int (length ds))) 0x20 else [])"
  have e: "emits (\<lambda>p. ((?A p \<bind> ?B) \<bind> ?C) \<bind> (\<lambda>p. ?D p \<bind> ?E)) ?text"
    by (intro emits_seq emits_when emits_pad emits_digits emits_sign)
  have u: "unat (of_int \<bar>v\<bar> :: u64) = nat \<bar>v\<bar>"
    using v by (simp add: unat_eq_nat_uint word_of_int_inverse del: of_int_abs)
  have nopad: "put_pad x k p = Some p" if "k \<le> 0" for x k p
    using that by (simp add: put_pad_def xy_pad_buffer_def) (cases "po_buf p"; simp)
  have "print_dec sp v = (\<lambda>p. ((?A p \<bind> ?B) \<bind> ?C) \<bind> (\<lambda>p. ?D p \<bind> ?E))"
  proof (rule ext)
    fix p
    have nm: "v \<noteq> - (2 ^ 63)" using v by auto
    have dig: "uint64_to_str (of_int \<bar>v\<bar>) q = str_digits ds q" for q
      by (simp only: uint64_to_str_text u ds_def)
    have cnt: "str_digits ds (q\<lparr>po_buf := None\<rparr>) = Some (int (length ds), q\<lparr>po_buf := None\<rparr>)" for q
      by (simp add: str_digits_null)
    have W: "W = (if v < 0 \<and> int w > 0 then int w - 1 else int w)" by (simp add: W_def)
    have eq: "print_dec sp v p = (if v < 0 \<and> c = 0x30 then put_sign p else Some p) \<bind> (\<lambda>p.
        (if W > int (length ds) \<and> \<not> left then do { p' \<leftarrow> put_pad c (W - int (length ds)) p; Some (W - int (length ds), p') }
         else Some (W, p)) \<bind> (\<lambda>(width, p).
        (if v < 0 \<and> c \<noteq> 0x30 then put_sign p else Some p) \<bind> (\<lambda>p.
        ?D p \<bind> (\<lambda>p. if width > int (length ds) \<and> left then put_pad 0x20 (width - int (length ds)) p else Some p))))"
      unfolding print_dec_def Let_def if_not_P [OF nm] dig cnt left w c_def [symmetric]
      unfolding W [symmetric] by (simp add: str_digits_def)
    show "print_dec sp v p = ((?A p \<bind> ?B) \<bind> ?C) \<bind> (\<lambda>p. ?D p \<bind> ?E)"
    proof (cases "W > int (length ds)")
      case True
      then show ?thesis unfolding eq by (cases left) (auto split: bind_splits)
    next
      case False
      then show ?thesis unfolding eq by (cases left) (auto simp: nopad split: bind_splits)
    qed
  qed
  moreover have "?text = dec_text zero left w v"
    by (auto simp: dec_text_def Let_def ds_def [symmetric] W_def c_def pad nat_minus_as_int)
  ultimately show ?thesis using e by simp
qed

lemma emits_print_str:
  assumes w: "ps_width sp = int w" "w < 2 ^ 30" and n: "0 \<notin> set s" "length s < 2 ^ 30"
  shows "emits (print_str sp (s @ 0 # r)) (pad_left (ps_pad sp) w s)"
proof -
  define k where "k = length s"
  have k: "k < 2 ^ 30" using n(2) by (simp add: k_def)
  have nopad: "put_pad x m p = Some p" if "m \<le> 0" for x m p
    using that by (simp add: put_pad_def xy_pad_buffer_def) (cases "po_buf p"; simp)
  have len: "c_strlen (s @ 0 # r) = Some k" using c_strlen_terminated [OF n(1)] by (simp add: k_def)
  have w': "unat (of_nat w :: u32) = w" "unat (of_nat k :: u32) = k" using w(2) k by (simp_all add: unat_of_nat)
  have less: "(of_nat k :: u32) < of_nat w \<longleftrightarrow> k < w" unfolding word_less_nat_alt w' ..
  have before: "sint (of_nat w - of_nat k :: u32) = int w - int k" if "k < w"
    using sint_of_int_u32 [of "int w - int k"] w(2) that by simp
  have behind: "sint (- of_nat w - of_nat k :: u32) \<le> 0"
  proof -
    have "(- of_nat w - of_nat k :: u32) = of_int (- int (w + k))" by simp
    moreover have "sint (of_int (- int (w + k)) :: u32) = - int (w + k)"
      using w(2) k by (intro sint_of_int_u32) simp_all
    ultimately show ?thesis by simp
  qed
  have e: "emits (\<lambda>p. (if k < w then put_pad (ps_pad sp) (int w - int k) else Some) p \<bind> put_string (s @ 0 # r))
    ((if k < w then replicate (nat (int w - int k)) (ps_pad sp) else []) @ s)"
    by (intro emits_seq emits_when emits_pad emits_string n)
  have "(if k < w then replicate (nat (int w - int k)) (ps_pad sp) else []) @ s = pad_left (ps_pad sp) w s"
    by (simp add: pad_left_def k_def nat_minus_as_int)
  moreover have "print_str sp (s @ 0 # r) = (\<lambda>p. (if k < w then put_pad (ps_pad sp) (int w - int k) else Some) p \<bind> put_string (s @ 0 # r))"
  proof (rule ext)
    fix p
    show "print_str sp (s @ 0 # r) p = (if k < w then put_pad (ps_pad sp) (int w - int k) else Some) p \<bind> put_string (s @ 0 # r)"
      using w(2) by (cases "k < w") (auto simp: print_str_def Let_def len w less before nopad [OF behind] split: bind_splits)
  qed
  ultimately show ?thesis using e by simp
qed

subsection \<open>Reading a directive\<close>

lemma unat_digit_byte: "d < 10 \<Longrightarrow> unat (digit_byte lower d) = 48 + d"
  by (simp add: digit_byte_def unat_of_nat del: of_nat_add)

lemma digit_byte_dec: "d < 10 \<Longrightarrow> 0x30 \<le> digit_byte lower d \<and> digit_byte lower d \<le> 0x39 \<and> digit_byte lower d - 0x30 = of_nat d"
proof -
  assume d: "d < 10"
  then have "unat (digit_byte lower d) = 48 + d" by (rule unat_digit_byte)
  then show ?thesis using d by (simp add: word_le_nat_alt) (simp add: digit_byte_def)
qed

lemma decstr_loop_digits:
  assumes "\<not> (0x30 \<le> c \<and> c \<le> 0x39)"
  shows "\<forall>d \<in> set ds. d < 10 \<Longrightarrow>
    decstr_loop (map (digit_byte lower) ds @ c # r) (of_nat v) n = Some (of_nat (foldl (\<lambda>v d. v * 10 + d) v ds), n + length ds)"
proof (induction ds arbitrary: v n)
  case Nil
  then show ?case using assms by auto
next
  case (Cons d ds)
  have "ucast (of_nat d :: u8) = (of_nat d :: u32)" using Cons.prems by (simp add: unsigned_of_nat take_bit_nat_eq_self)
  then show ?case using Cons.prems Cons.IH [of "v * 10 + d" "Suc n"] digit_byte_dec [of d lower] by simp
qed

lemma decstr_number:
  assumes "\<not> (0x30 \<le> c \<and> c \<le> 0x39)"
  shows "decstr_to_int (num_text 10 lower n @ c # r) = Some (of_nat n, length (num_text 10 lower n))"
proof -
  have ds: "\<forall>d \<in> set (digits_of 10 n). d < 10" using digits_of_bound [of 10 _ n] by simp
  obtain d es where e: "digits_of 10 n = d # es" using num_text_pos [of 10 lower n] by (cases "digits_of 10 n") (auto simp: num_text_def)
  then have "digit_byte lower d \<noteq> 0x2D" using ds digit_byte_dec [of d lower] by (auto simp: word_le_nat_alt)
  then show ?thesis
    using decstr_loop_digits [OF assms ds, of lower r 0 0] digits_of_value [of 10 n]
    by (simp add: decstr_to_int_def num_text_def e mem_load_def)
qed

definition width_text :: "nat \<Rightarrow> u8 list" where
  "width_text w = (if w = 0 then [] else num_text 10 True w)"

lemma width_text_hd:
  assumes "w \<noteq> 0"
  obtains x xs where "width_text w = x # xs" and "0x31 \<le> x" and "x \<le> 0x39"
proof -
  obtain d ds where d: "digits_of 10 w = d # ds" "0 < d" using digits_of_hd [of 10 w] assms by auto
  moreover have "d < 10" using digits_of_bound [of 10 d w] d by simp
  then have "unat (digit_byte True d) = 48 + d" by (rule unat_digit_byte)
  then have "0x31 \<le> digit_byte True d" "digit_byte True d \<le> 0x39" using d \<open>d < 10\<close> by (simp_all add: word_le_nat_alt)
  ultimately show ?thesis using that assms by (simp add: width_text_def num_text_def)
qed

text \<open>Characters that end the number of the width.\<close>

definition plain_char :: "u8 \<Rightarrow> bool" where
  "plain_char c = (c \<notin> {0x2D, 0x2B, 0x20, 0x23, 0x2E} \<and> \<not> (0x30 \<le> c \<and> c \<le> 0x39))"

lemma fmt_width_text:
  assumes "plain_char c" and "w < 2 ^ 31"
  shows "fmt_width (width_text w @ c # r) = Some (int w, c # r)"
proof -
  have "sint (of_nat w :: u32) = int w" using assms(2) by (rule sint_of_nat_u32)
  moreover have "decstr_to_int (width_text w @ c # r) = Some (of_nat w, length (width_text w))"
    using assms(1) decstr_number [of c True w r]
    by (auto simp: width_text_def plain_char_def decstr_to_int_def mem_load_def)
  ultimately show ?thesis by (auto simp: fmt_width_def mem_load_def)
qed

text \<open>A directive, and what is read of it.\<close>

definition directive :: "bool \<Rightarrow> bool \<Rightarrow> nat \<Rightarrow> bool \<Rightarrow> u8 \<Rightarrow> u8 list" where
  "directive zero left w ll c = (if zero then [0x30] else []) @ (if left then [0x2D] else []) @ width_text w
     @ (if ll then [0x6C, 0x6C] else []) @ [c]"

definition spec_of :: "bool \<Rightarrow> bool \<Rightarrow> nat \<Rightarrow> bool \<Rightarrow> u8 list \<Rightarrow> print_spec" where
  "spec_of zero left w ll r =
     \<lparr>ps_pad = (if zero \<and> \<not> left then 0x30 else 0x20), ps_left = left, ps_width = int w, ps_precision = 6,
      ps_longlong = ll, ps_rest = r\<rparr>"

lemma fmt_spec_directive:
  assumes c: "plain_char c" "c \<noteq> 0x6C" and w: "w < 2 ^ 31"
  shows "fmt_spec (directive zero left w ll c @ r) = Some (spec_of zero left w ll (c # r))"
proof -
  define B where "B = width_text w @ (if ll then [0x6C, 0x6C] else []) @ c # r"
  define x where "x = hd B"
  obtain B' where B: "B = x # B'" by (cases B) (simp_all add: B_def x_def)
  have x: "x \<notin> {0x2D, 0x2B, 0x20, 0x23, 0x30}"
  proof (cases "w = 0")
    case True
    then show ?thesis using c by (auto simp: B_def x_def width_text_def plain_char_def)
  next
    case False
    obtain y ys where "width_text w = y # ys" "0x31 \<le> y" "y \<le> 0x39" using width_text_hd [OF False] .
    then show ?thesis by (auto simp: B_def x_def word_le_nat_alt)
  qed
  have flags: "parse_flags B l q = Some (l, q, B)" for l q using x by (simp add: B)
  have "fmt_width B = Some (int w, (if ll then [0x6C, 0x6C] else []) @ c # r)"
    using fmt_width_text [where c = c and w = w and r = r] fmt_width_text [where c = "0x6C" and w = w and r = "0x6C # c # r"] c w
    by (cases ll) (simp_all add: B_def plain_char_def)
  then have rest: "do { (width, s) \<leftarrow> fmt_width B; (prec, s) \<leftarrow> fmt_precision s; (ll, s) \<leftarrow> fmt_longlong s;
      Some \<lparr>ps_pad = q, ps_left = l, ps_width = width, ps_precision = prec, ps_longlong = ll, ps_rest = s\<rparr> }
    = Some \<lparr>ps_pad = q, ps_left = l, ps_width = int w, ps_precision = 6, ps_longlong = ll, ps_rest = c # r\<rparr>" for q l
    using c by (cases ll) (simp_all add: fmt_precision_def fmt_longlong_def mem_load_def plain_char_def)
  have d: "directive zero left w ll c @ r = (if zero then [0x30] else []) @ (if left then [0x2D] else []) @ B"
    by (simp add: directive_def B_def)
  show ?thesis
  proof (cases zero; cases left)
    assume "\<not> zero" "\<not> left"
    then show ?thesis unfolding d using x flags [of False "0x20"] rest [of "0x20" False]
      by (simp add: fmt_spec_def spec_of_def mem_load_def) (auto simp: B)
  next
    assume "zero" "left"
    then show ?thesis unfolding d using rest [of "0x20" True] flags by (auto simp: fmt_spec_def spec_of_def mem_load_def)
  next
    assume "zero" "\<not> left"
    then show ?thesis unfolding d using rest [of "0x30" False] flags by (auto simp: fmt_spec_def spec_of_def mem_load_def)
  next
    assume "\<not> zero" "left"
    then show ?thesis unfolding d using rest [of "0x20" True] flags by (auto simp: fmt_spec_def spec_of_def mem_load_def)
  qed
qed

subsection \<open>Formats\<close>

text \<open>
  What a format may hold, with the argument of each directive; the second number of a directive is its width,
  and the flags are the leading zero, the minus sign and the length modifier \<open>ll\<close>.
\<close>

datatype print_item =
    Text u8
  | Percent
  | Char u8
  | Str nat "u8 list"
  | Hex bool bool nat bool nat
  | Uns bool nat bool nat
  | Dec bool bool nat bool int

fun item_fmt :: "print_item \<Rightarrow> u8 list" where
  "item_fmt (Text c) = [c]"
| "item_fmt Percent = [0x25, 0x25]"
| "item_fmt (Char c) = [0x25, 0x63]"
| "item_fmt (Str w s) = 0x25 # directive False False w False 0x73"
| "item_fmt (Hex lower zero w ll v) = 0x25 # directive zero False w ll (if lower then 0x78 else 0x58)"
| "item_fmt (Uns zero w ll v) = 0x25 # directive zero False w ll 0x75"
| "item_fmt (Dec zero left w ll v) = 0x25 # directive zero left w ll 0x64"

fun item_args :: "print_item \<Rightarrow> va_arg list" where
  "item_args (Text c) = []"
| "item_args Percent = []"
| "item_args (Char c) = [VInt (ucast c)]"
| "item_args (Str w s) = [VStr (s @ [0])]"
| "item_args (Hex lower zero w ll v) = [if ll then VLong (of_nat v) else VInt (of_nat v)]"
| "item_args (Uns zero w ll v) = [if ll then VLong (of_nat v) else VInt (of_nat v)]"
| "item_args (Dec zero left w ll v) = [if ll then VLong (of_int v) else VInt (of_int v)]"

fun item_ok :: "print_item \<Rightarrow> bool" where
  "item_ok (Text c) = (c \<noteq> 0 \<and> c \<noteq> 0x25)"
| "item_ok Percent = True"
| "item_ok (Char c) = True"
| "item_ok (Str w s) = (w < 2 ^ 30 \<and> length s < 2 ^ 30 \<and> 0 \<notin> set s)"
| "item_ok (Hex lower zero w ll v) = (w < 2 ^ 31 \<and> v < 2 ^ (if ll then 64 else 32))"
| "item_ok (Uns zero w ll v) = (w < 2 ^ 31 \<and> v < 2 ^ (if ll then 64 else 32))"
| "item_ok (Dec zero left w ll v) = (w < 2 ^ 31 \<and>
     (if ll then - (2 ^ 63) < v \<and> v < 2 ^ 63 else - (2 ^ 31) \<le> v \<and> v < 2 ^ 31))"

text \<open>What the standard prints for it.\<close>

fun item_text :: "print_item \<Rightarrow> u8 list" where
  "item_text (Text c) = [c]"
| "item_text Percent = [0x25]"
| "item_text (Char c) = [c]"
| "item_text (Str w s) = pad_left 0x20 w s"
| "item_text (Hex lower zero w ll v) = pad_left (if zero then 0x30 else 0x20) w (num_text 16 lower v)"
| "item_text (Uns zero w ll v) = pad_left (if zero then 0x30 else 0x20) w (num_text 10 True v)"
| "item_text (Dec zero left w ll v) = dec_text zero left w v"

lemma loop_directive:
  assumes "plain_char c" and "c \<noteq> 0x6C" and "w < 2 ^ 31"
  shows "vsprintf_loop (0x25 # directive zero left w ll c @ r) args p
    = print_conv c (spec_of zero left w ll (c # r)) args p \<bind> (\<lambda>(args', p'). vsprintf_loop r args' p')"
  using fmt_spec_directive [OF assms, of zero left ll r]
  by (subst vsprintf_loop.simps) (simp add: spec_of_def)

lemma loop_plain:
  assumes "plain_char c" and "c \<noteq> 0x6C"
  shows "vsprintf_loop (0x25 # c # r) args p
    = print_conv c (spec_of False False 0 False (c # r)) args p \<bind> (\<lambda>(args', p'). vsprintf_loop r args' p')"
  using loop_directive [OF assms, of 0 False False False r args p] by (simp add: directive_def width_text_def)

lemma print_out_step:
  assumes "emits f (item_text it)"
    and "\<And>p. vsprintf_loop (item_fmt it @ rest) (item_args it @ args) p = f p \<bind> (\<lambda>p'. vsprintf_loop rest args p')"
    and "out_at M b t p" and "b + length t + length (item_text it) < length M"
  shows "\<exists>p'. vsprintf_loop (item_fmt it @ rest) (item_args it @ args) p = vsprintf_loop rest args p'
    \<and> out_at M b (t @ item_text it) p'"
  using assms(2) [of p] emitsE [OF assms(1,3,4)] by fastforce

lemma spec_of_fields: "ps_width (spec_of zero left w ll r) = int w" "ps_left (spec_of zero left w ll r) = left"
  "ps_pad (spec_of zero left w ll r) = (if zero \<and> \<not> left then 0x30 else 0x20)" "ps_longlong (spec_of zero left w ll r) = ll"
  by (simp_all add: spec_of_def)

lemma char_as_int: "ucast (ucast c :: u32) = (c :: u8)"
  by (rule bit_word_eqI) (auto simp: bit_simps)

lemma loop_item:
  assumes ok: "item_ok it" and o: "out_at M b t p" and room: "b + length t + length (item_text it) < length M"
  shows "\<exists>p'. vsprintf_loop (item_fmt it @ rest) (item_args it @ args) p = vsprintf_loop rest args p'
    \<and> out_at M b (t @ item_text it) p'"
proof (cases it)
  case (Text c)
  show ?thesis
  proof (rule print_out_step [OF _ _ o room])
    show "emits (\<lambda>p. do { p' \<leftarrow> put_char c p; Some (count_char p') }) (item_text it)" using emits_char by (simp add: Text)
    show "vsprintf_loop (item_fmt it @ rest) (item_args it @ args) p
      = do { p' \<leftarrow> put_char c p; Some (count_char p') } \<bind> (\<lambda>p'. vsprintf_loop rest args p')" for p
      using ok by (simp add: Text) (subst vsprintf_loop.simps, simp add: put_text_def g_txt_xlate_def)
  qed
next
  case Percent
  show ?thesis
  proof (rule print_out_step [OF _ _ o room])
    show "emits (\<lambda>p. do { p' \<leftarrow> put_char 0x25 p; Some (count_char p') }) (item_text it)" using emits_char by (simp add: Percent)
    show "vsprintf_loop (item_fmt it @ rest) (item_args it @ args) p
      = do { p' \<leftarrow> put_char 0x25 p; Some (count_char p') } \<bind> (\<lambda>p'. vsprintf_loop rest args p')" for p
      by (simp add: Percent loop_plain plain_char_def print_conv_def)
  qed
next
  case (Char c)
  show ?thesis
  proof (rule print_out_step [OF _ _ o room])
    show "emits (\<lambda>p. do { p' \<leftarrow> put_char c p; Some (count_char p') }) (item_text it)" using emits_char by (simp add: Char)
    show "vsprintf_loop (item_fmt it @ rest) (item_args it @ args) p
      = do { p' \<leftarrow> put_char c p; Some (count_char p') } \<bind> (\<lambda>p'. vsprintf_loop rest args p')" for p
      by (simp add: Char loop_plain plain_char_def print_conv_def char_as_int)
  qed
next
  case (Str w s)
  let ?sp = "spec_of False False w False (0x73 # rest)"
  show ?thesis
  proof (rule print_out_step [OF _ _ o room])
    show "emits (print_str ?sp (s @ [0])) (item_text it)"
      using ok emits_print_str [of ?sp w s "[]"] by (simp add: Str spec_of_fields)
    show "vsprintf_loop (item_fmt it @ rest) (item_args it @ args) p
      = print_str ?sp (s @ [0]) p \<bind> (\<lambda>p'. vsprintf_loop rest args p')" for p
      using ok by (simp add: Str loop_directive plain_char_def print_conv_def)
  qed
next
  case (Hex lower zero w ll v)
  let ?c = "if lower then 0x78 else 0x58 :: u8" and ?v = "of_nat v :: u64"
  let ?sp = "spec_of zero False w ll (?c # rest)"
  have v: "unat ?v = v" using ok by (cases ll) (simp_all add: Hex unat_of_nat)
  have ll: "va_unsigned (ps_longlong ?sp) (item_args it @ args) = Some (?v, args)"
    using ok by (cases ll) (simp_all add: Hex va_unsigned_def spec_of_fields unsigned_of_nat take_bit_nat_eq_self)
  show ?thesis
  proof (rule print_out_step [OF _ _ o room])
    show "emits (print_hex lower ?sp ?v) (item_text it)"
      using emits_print_hex [of ?sp w lower ?v] by (simp add: Hex spec_of_fields v)
    show "vsprintf_loop (item_fmt it @ rest) (item_args it @ args) p
      = print_hex lower ?sp ?v p \<bind> (\<lambda>p'. vsprintf_loop rest args p')" for p
      using ok ll by (cases lower) (simp_all add: Hex loop_directive plain_char_def print_conv_def del: item_args.simps)
  qed
next
  case (Uns zero w ll v)
  let ?v = "of_nat v :: u64"
  let ?sp = "spec_of zero False w ll (0x75 # rest)"
  have v: "unat ?v = v" using ok by (cases ll) (simp_all add: Uns unat_of_nat)
  have ll: "va_unsigned (ps_longlong ?sp) (item_args it @ args) = Some (?v, args)"
    using ok by (cases ll) (simp_all add: Uns va_unsigned_def spec_of_fields unsigned_of_nat take_bit_nat_eq_self)
  show ?thesis
  proof (rule print_out_step [OF _ _ o room])
    show "emits (print_uns ?sp ?v) (item_text it)"
      using emits_print_uns [of ?sp w ?v] by (simp add: Uns spec_of_fields v)
    show "vsprintf_loop (item_fmt it @ rest) (item_args it @ args) p
      = print_uns ?sp ?v p \<bind> (\<lambda>p'. vsprintf_loop rest args p')" for p
      using ok ll by (simp add: Uns loop_directive plain_char_def print_conv_def del: item_args.simps)
  qed
next
  case (Dec zero left w ll v)
  let ?sp = "spec_of zero left w ll (0x64 # rest)"
  have ll: "va_signed (ps_longlong ?sp) (item_args it @ args) = Some (v, args)"
    using ok by (cases ll) (simp_all add: Dec va_signed_def spec_of_fields signed_of_int signed_take_bit_int_eq_self)
  have v: "\<bar>v\<bar> < 2 ^ 63" using ok by (cases ll) (auto simp: Dec abs_if)
  show ?thesis
  proof (rule print_out_step [OF _ _ o room])
    show "emits (print_dec ?sp v) (item_text it)"
      using emits_print_dec [of ?sp w left zero v] v by (simp add: Dec spec_of_fields)
    show "vsprintf_loop (item_fmt it @ rest) (item_args it @ args) p
      = print_dec ?sp v p \<bind> (\<lambda>p'. vsprintf_loop rest args p')" for p
      using ok ll by (simp add: Dec loop_directive plain_char_def print_conv_def del: item_args.simps)
  qed
qed

end
