(* ===== verification/Xy_Stdio_Properties.thy ===== *)
theory Xy_Stdio_Properties
  imports Xy_Stdio_Correct
begin

text \<open>
  Whole formats: what the printing functions leave in the memory, that it is read back, and the texts of
  floating-point numbers.
\<close>

subsection \<open>Printing\<close>

definition items_fmt :: "print_item list \<Rightarrow> u8 list" where "items_fmt its = concat (map item_fmt its)"
definition items_args :: "print_item list \<Rightarrow> va_arg list" where "items_args its = concat (map item_args its)"
definition items_text :: "print_item list \<Rightarrow> u8 list" where "items_text its = concat (map item_text its)"

lemmas items_defs = items_fmt_def items_args_def items_text_def

lemma loop_items:
  "\<forall>it \<in> set its. item_ok it \<Longrightarrow> out_at M b t p \<Longrightarrow> b + length t + length (items_text its) < length M \<Longrightarrow>
   \<exists>p'. vsprintf_loop (items_fmt its @ rest) (items_args its @ args) p = vsprintf_loop rest args p'
     \<and> out_at M b (t @ items_text its) p'"
proof (induction its arbitrary: t p)
  case Nil
  then show ?case by (auto simp: items_defs)
next
  case (Cons it its)
  have len: "length (items_text (it # its)) = length (item_text it) + length (items_text its)" by (simp add: items_defs)
  have ok: "item_ok it" "\<forall>it \<in> set its. item_ok it" using Cons.prems(1) by simp_all
  have "b + length t + length (item_text it) < length M" using Cons.prems(3) len by simp
  from loop_item [OF ok(1) Cons.prems(2) this, of "items_fmt its @ rest" "items_args its @ args"] obtain q where
    q: "vsprintf_loop (items_fmt (it # its) @ rest) (items_args (it # its) @ args) p
      = vsprintf_loop (items_fmt its @ rest) (items_args its @ args) q" "out_at M b (t @ item_text it) q"
    by (auto simp: items_defs)
  have "b + length (t @ item_text it) + length (items_text its) < length M" using Cons.prems(3) len by simp
  then show ?case using Cons.IH [OF ok(2) q(2)] q(1) by (simp add: items_defs)
qed

lemma vsprintf_items:
  assumes ok: "\<forall>it \<in> set its. item_ok it" and room: "b + length (items_text its) < length mem"
    and short: "length (items_text its) < 2 ^ 31"
  shows "xy_stdio_vsprintf mem (Some b) (items_fmt its @ 0 # r) (items_args its @ args)
    = Some (int (length (items_text its)),
        take b mem @ items_text its @ 0 # drop (b + length (items_text its) + 1) mem)"
proof -
  let ?p = "\<lparr>po_mem = mem, po_buf = Some b, po_cnt = 0\<rparr>"
  have "out_at mem b [] ?p" by (simp add: out_at_def)
  then obtain q where q: "vsprintf_loop (items_fmt its @ 0 # r) (items_args its @ args) ?p = vsprintf_loop (0 # r) args q"
    and o: "out_at mem b (items_text its) q"
    using loop_items [OF ok, of mem b "[]" ?p "0 # r" args] room by auto
  have stop: "vsprintf_loop (0 # r) args q = Some q" by (subst vsprintf_loop.simps) simp
  have "po_buf q = Some (b + length (items_text its))" "po_cnt q = of_nat (length (items_text its))"
    using o by (simp_all add: out_at_def)
  then show ?thesis
    using out_at_store [OF o room, of 0] sint_of_nat_u32 [OF short] by (simp add: xy_stdio_vsprintf_def q stop)
qed

text \<open>
  C37. Formatted output: for a format made of plain text, \<open>%%\<close>, \<open>%c\<close> without a width, \<open>%s\<close> with or
  without a width, \<open>%x\<close>, \<open>%X\<close> and \<open>%u\<close> with or without leading zeros, a width and the length \<open>ll\<close>, and
  \<open>%d\<close> with these and the minus sign, with arguments of their types other than the least value of
  \<open>%lld\<close>, \<open>xy_stdio_vsprintf\<close> writes exactly the text the C standard defines and its terminator, changes no
  other byte of the memory and returns the length. What is left out is not as in the standard: a
  width of \<open>%c\<close> is read and ignored (\<open>print_char_width\<close>), so is the minus sign of \<open>%s\<close>, \<open>%u\<close> and \<open>%x\<close>
  (\<open>print_left_ignored\<close>), and the least value of \<open>%lld\<close> is negated, which is undefined
  (\<open>print_least_long\<close>).
\<close>
theorem vsprintf_standard:
  assumes "\<forall>it \<in> set its. item_ok it" and "b + length (items_text its) < length mem"
    and "length (items_text its) < 2 ^ 31"
  shows "xy_stdio_vsprintf mem (Some b) (items_fmt its @ 0 # r) (items_args its @ args)
    = Some (int (length (items_text its)),
        take b mem @ items_text its @ 0 # drop (b + length (items_text its) + 1) mem)"
  using assms by (rule vsprintf_items)

text \<open>\<open>%-5d|%04X\<close> with -42 and 48879, into eleven bytes from the second on.\<close>

lemma vsprintf_standard_witness:
  "xy_stdio_vsprintf (replicate 13 1) (Some 1)
     [0x25, 0x2D, 0x35, 0x64, 0x7C, 0x25, 0x30, 0x34, 0x58, 0] [VInt (-42), VInt 0xBEEF]
   = Some (10, [1, 0x2D, 0x34, 0x32, 0x20, 0x20, 0x7C, 0x42, 0x45, 0x45, 0x46, 0, 1])"
proof -
  let ?its = "[Dec False True 5 False (-42), Text 0x7C, Hex False True 4 False 0xBEEF]"
  have d: "digits_of 10 5 = [5]" "digits_of 10 4 = [4]" "digits_of 10 42 = [4, 2]" "digits_of 16 0xBEEF = [11, 14, 14, 15]"
    by (simp_all add: digits_of_small digits_of_step)
  have t: "items_text ?its = [0x2D, 0x34, 0x32, 0x20, 0x20, 0x7C, 0x42, 0x45, 0x45, 0x46]"
    by (simp add: items_defs dec_text_def pad_left_def num_text_def d digit_byte_def numeral_2_eq_2)
  have f: "items_fmt ?its = [0x25, 0x2D, 0x35, 0x64, 0x7C, 0x25, 0x30, 0x34, 0x58]"
    by (simp add: items_defs directive_def width_text_def num_text_def d digit_byte_def)
  have a: "items_args ?its = [VInt (-42), VInt 0xBEEF]" by (simp add: items_defs)
  have "\<forall>it \<in> set ?its. item_ok it" by simp
  moreover have "1 + length (items_text ?its) < length (replicate 13 (1 :: u8))" "length (items_text ?its) < 2 ^ 31"
    by (simp_all add: t)
  ultimately show ?thesis
    using vsprintf_standard [of ?its 1 "replicate 13 1" "[]" "[]"] unfolding t f a by simp
qed

text \<open>Plain text is written only if there is room for it.\<close>

lemma loop_literal:
  "\<forall>c \<in> set s. c \<noteq> 0 \<and> c \<noteq> 0x25 \<Longrightarrow> po_buf p = Some k \<Longrightarrow> vsprintf_loop (s @ 0 # r) args p = Some q \<Longrightarrow>
   po_buf q = Some (k + length s) \<and> length (po_mem q) = length (po_mem p)"
proof (induction s arbitrary: p k)
  case Nil
  then show ?case by (simp add: vsprintf_loop.simps [of "0 # r"])
next
  case (Cons c s)
  from Cons.prems obtain p' where p': "put_text c p = Some p'" "vsprintf_loop (s @ 0 # r) args p' = Some q"
    by (subst (asm) vsprintf_loop.simps) auto
  from p'(1) Cons.prems(2) have "po_buf p' = Some (k + 1)" "length (po_mem p') = length (po_mem p)"
    by (auto simp: put_text_def g_txt_xlate_def put_char_def count_char_def mem_store_def split: if_splits)
  then show ?case using Cons.IH [OF _ _ p'(2), of "k + 1"] Cons.prems(1) by simp
qed

lemma vsnprintf_items:
  assumes ok: "\<forall>it \<in> set its. item_ok it" and buf: "length (sd_buf st) = XY_PRINTF_BUFSIZE"
    and fits: "length (items_text its) < XY_PRINTF_BUFSIZE" and n: "0 < n"
    and room: "b + min (length (items_text its)) (unat (n - 1)) < length mem"
  shows "xy_stdio_vsnprintf mem (Some b) n (items_fmt its @ 0 # r) (items_args its @ args) st
    = Some (int (length (items_text its)),
        take b mem @ take (unat (n - 1)) (items_text its) @ 0
          # drop (b + min (length (items_text its)) (unat (n - 1)) + 1) mem,
        st\<lparr>sd_buf := items_text its @ 0 # drop (length (items_text its) + 1) (sd_buf st)\<rparr>)"
proof -
  define out where "out = items_text its"
  define k where "k = min (length out) (unat (n - 1))"
  have len: "length out < 1024" using fits by (simp add: out_def XY_PRINTF_BUFSIZE_def)
  have v: "xy_stdio_vsprintf (sd_buf st) (Some 0) (items_fmt its @ 0 # r) (items_args its @ args)
    = Some (int (length out), out @ 0 # drop (length out + 1) (sd_buf st))"
    using vsprintf_items [OF ok, of 0 "sd_buf st" r args] buf fits by (simp add: out_def XY_PRINTF_BUFSIZE_def)
  have u: "unat (of_nat (length out) :: u32) = length out" using len by (simp add: unat_of_nat)
  have k': "unat (if (of_nat (length out) :: u32) < n - 1 then of_nat (length out) else n - 1) = k"
    unfolding k_def word_less_nat_alt u by (simp add: u)
  have r: "mem_read (out @ 0 # drop (length out + 1) (sd_buf st)) 0 k = Some (take k out)"
    by (simp add: mem_read_def k_def)
  have kl: "length (take k out) = k" by (simp add: k_def)
  have room': "b + k < length mem" using room by (simp add: k_def out_def)
  have w: "mem_write mem b (take k out) = Some (take b mem @ take k out @ drop (b + k) mem)"
    using room' by (simp only: mem_write_def kl) simp
  have s: "mem_store (take b mem @ take k out @ drop (b + k) mem) (b + k) 0
    = Some (take b mem @ take k out @ 0 # drop (b + k + 1) mem)"
  proof -
    have "(take b mem @ take k out @ drop (b + k) mem)[b + k := 0] = take b mem @ take k out @ (drop (b + k) mem)[0 := 0]"
      using room' kl by (simp add: list_update_append)
    moreover have "(drop (b + k) mem)[0 := 0] = 0 # drop (b + k + 1) mem"
      using room' by (simp add: Cons_nth_drop_Suc [symmetric])
    ultimately show ?thesis using room' kl by (simp add: mem_store_def)
  qed
  have "n \<noteq> 0" using n by auto
  then have "xy_stdio_vsnprintf mem (Some b) n (items_fmt its @ 0 # r) (items_args its @ args) st
    = Some (int (length out), take b mem @ take k out @ 0 # drop (b + k + 1) mem,
        st\<lparr>sd_buf := out @ 0 # drop (length out + 1) (sd_buf st)\<rparr>)"
    by (simp only: xy_stdio_vsnprintf_def v option.case if_False Option.bind.bind_lunit prod.case Let_def
        of_int_of_nat_eq k' r w s)
  moreover have "take k out = take (unat (n - 1)) out" by (simp add: k_def min_def)
  ultimately show ?thesis unfolding k_def out_def by simp
qed

text \<open>
  C38. Bounded formatted output: when the whole text fits the static buffer of 1024 bytes,
  \<open>xy_stdio_vsnprintf\<close> leaves the first \<open>n - 1\<close> bytes of the text and a terminator in the destination, nothing
  behind it, and returns the length of the whole text.
\<close>
theorem vsnprintf_truncates:
  assumes "\<forall>it \<in> set its. item_ok it" and "length (sd_buf st) = XY_PRINTF_BUFSIZE"
    and "length (items_text its) < XY_PRINTF_BUFSIZE" and "0 < n"
    and "b + min (length (items_text its)) (unat (n - 1)) < length mem"
  shows "xy_stdio_vsnprintf mem (Some b) n (items_fmt its @ 0 # r) (items_args its @ args) st
    = Some (int (length (items_text its)),
        take b mem @ take (unat (n - 1)) (items_text its) @ 0
          # drop (b + min (length (items_text its)) (unat (n - 1)) + 1) mem,
        st\<lparr>sd_buf := items_text its @ 0 # drop (length (items_text its) + 1) (sd_buf st)\<rparr>)"
  using assms by (rule vsnprintf_items)

lemma vsnprintf_truncates_witness:
  "\<exists>st'. xy_stdio_vsnprintf (replicate 6 1) (Some 1) 4 [0x25, 0x35, 0x75, 0] [VInt 7]
     \<lparr>sd_buf = replicate 1024 9, sd_print = False, sd_input = False, sd_out = []\<rparr>
   = Some (5, [1, 0x20, 0x20, 0x20, 0, 1], st')"
proof -
  let ?its = "[Uns False 5 False 7]" and ?st = "\<lparr>sd_buf = replicate 1024 9, sd_print = False, sd_input = False, sd_out = []\<rparr>"
  have d: "digits_of 10 5 = [5]" "digits_of 10 7 = [7]" by (simp_all add: digits_of_small)
  have t: "items_text ?its = [0x20, 0x20, 0x20, 0x20, 0x37]"
    by (simp add: items_defs pad_left_def num_text_def d digit_byte_def) (simp add: eval_nat_numeral)
  have f: "items_fmt ?its = [0x25, 0x35, 0x75]"
    by (simp add: items_defs directive_def width_text_def num_text_def d digit_byte_def)
  have a: "items_args ?its = [VInt 7]" by (simp add: items_defs)
  have "\<forall>it \<in> set ?its. item_ok it" by simp
  moreover have "length (sd_buf ?st) = XY_PRINTF_BUFSIZE" "length (items_text ?its) < XY_PRINTF_BUFSIZE" "(0 :: u32) < 4"
    "1 + min (length (items_text ?its)) (unat ((4 :: u32) - 1)) < length (replicate 6 (1 :: u8))"
    by (simp_all add: t XY_PRINTF_BUFSIZE_def)
  ultimately show ?thesis
    using vsnprintf_truncates [of ?its ?st 4 1 "replicate 6 1" "[]" "[]"] unfolding t f a by simp
qed

text \<open>
  The bound of \<open>xy_stdio_vsnprintf\<close> does not bound what is written: a plain text of 1024 characters or more
  overruns the static buffer, whatever the size of the destination.
\<close>
theorem vsnprintf_overruns:
  assumes "\<forall>c \<in> set s. c \<noteq> 0 \<and> c \<noteq> 0x25" and "length (sd_buf st) \<le> length s" and "0 < n"
  shows "xy_stdio_vsnprintf mem (Some b) n (s @ 0 # r) args st = None"
proof -
  let ?p = "\<lparr>po_mem = sd_buf st, po_buf = Some 0, po_cnt = 0\<rparr>"
  have "xy_stdio_vsprintf (sd_buf st) (Some 0) (s @ 0 # r) args = None"
  proof (cases "vsprintf_loop (s @ 0 # r) args ?p")
    case (Some q)
    then show ?thesis using loop_literal [OF assms(1) _ Some, of 0] assms(2)
      by (simp add: xy_stdio_vsprintf_def mem_store_def)
  qed (simp add: xy_stdio_vsprintf_def)
  then show ?thesis using assms(3) by (simp add: xy_stdio_vsnprintf_def word_gt_0)
qed

lemma vsnprintf_overruns_witness:
  "xy_stdio_vsnprintf (replicate 4 0) (Some 0) 4 (replicate 1024 0x61 @ [0]) []
     \<lparr>sd_buf = replicate 1024 0, sd_print = False, sd_input = False, sd_out = []\<rparr> = None"
  using vsnprintf_overruns [of "replicate 1024 0x61" "\<lparr>sd_buf = replicate 1024 0, sd_print = False, sd_input = False, sd_out = []\<rparr>" 4
      "replicate 4 0" 0 "[]" "[]"] by simp

text \<open>A minus sign before the width of \<open>%s\<close> does not move the text to the left.\<close>

lemma print_left_ignored:
  "xy_stdio_vsprintf (replicate 5 1) (Some 0) [0x25, 0x2D, 0x33, 0x73, 0] [VStr [0x61, 0]] = Some (3, [0x20, 0x20, 0x61, 0, 1])"
  by code_simp

text \<open>\<open>%5c\<close> prints one byte, where the standard asks for four blanks in front of it.\<close>

lemma print_char_width:
  "xy_stdio_vsprintf (replicate 7 1) (Some 0) [0x25, 0x35, 0x63, 0] [VInt 0x61] = Some (1, [0x61, 0, 1, 1, 1, 1, 1])"
  by code_simp

text \<open>The least value of \<open>long long\<close> has no absolute value in this type.\<close>

lemma print_least_long:
  "xy_stdio_vsprintf (replicate 30 1) (Some 0) [0x25, 0x6C, 0x6C, 0x64, 0] [VLong 0x8000000000000000] = None"
  by code_simp

text \<open>Without a buffer the minus sign is not counted.\<close>

lemma print_null_sign:
  "map_option fst (xy_stdio_vsprintf [] None [0x25, 0x64, 0] [VInt (-5)]) = Some 1
   \<and> map_option fst (xy_stdio_vsprintf (replicate 5 1) (Some 0) [0x25, 0x64, 0] [VInt (-5)]) = Some 2"
  by code_simp

end
