(* ===== verification/Xy_Stdio_Float.thy ===== *)
theory Xy_Stdio_Float
  imports Xy_Stdio_Properties
begin

text \<open>
  The text of a floating-point number: the nearest decimal number with the places asked for, unless rounding
  needs one more digit in front.
\<close>

subsection \<open>Numbers of a fixed length\<close>

fun fixed_digits :: "nat \<Rightarrow> nat \<Rightarrow> nat list" where
  "fixed_digits 0 k = []"
| "fixed_digits (Suc n) k = fixed_digits n (k div 10) @ [k mod 10]"

definition fixed_text :: "nat \<Rightarrow> nat \<Rightarrow> u8 list" where
  "fixed_text n k = map (digit_byte True) (fixed_digits n k)"

lemma length_fixed [simp]: "length (fixed_digits n k) = n" "length (fixed_text n k) = n"
proof -
  show "length (fixed_digits n k) = n" by (induction n arbitrary: k) simp_all
  then show "length (fixed_text n k) = n" by (simp add: fixed_text_def)
qed

lemma fixed_text_snoc: "fixed_text (Suc n) k = fixed_text n (k div 10) @ [digit_byte True (k mod 10)]"
  by (simp add: fixed_text_def)

lemma fixed_digits_append: "fixed_digits (a + b) k = fixed_digits a (k div 10 ^ b) @ fixed_digits b (k mod 10 ^ b)"
proof (induction b arbitrary: k)
  case (Suc b)
  have "k div 10 div 10 ^ b = k div 10 ^ Suc b" by (simp add: div_mult2_eq)
  moreover have "k mod 10 ^ Suc b div 10 = k div 10 mod 10 ^ b" by (simp add: mod_mult2_eq)
  moreover have "k mod 10 ^ Suc b mod 10 = k mod 10" by (simp add: mod_mod_cancel)
  ultimately show ?case using Suc [of "k div 10"] by simp
qed simp

lemma fixed_text_Cons: "k < 10 ^ Suc n \<Longrightarrow> fixed_text (Suc n) k = digit_byte True (k div 10 ^ n) # fixed_text n (k mod 10 ^ n)"
proof -
  assume "k < 10 ^ Suc n"
  then have "k div 10 ^ n < 10" by (simp add: less_mult_imp_div_less)
  then show ?thesis using fixed_digits_append [of 1 n k] by (simp add: fixed_text_def)
qed

lemma digits_of_fixed: "digits_of 10 m = fixed_digits (length (digits_of 10 m)) m \<and> m < 10 ^ length (digits_of 10 m)"
proof (induction "10 :: nat" m rule: digits_of.induct)
  case (1 m)
  show ?case
  proof (cases "m < 10")
    case False
    define n where "n = length (digits_of 10 (m div 10))"
    have "digits_of 10 (m div 10) = fixed_digits n (m div 10)" "m div 10 < 10 ^ n" using 1 False by (simp_all add: n_def)
    moreover have d: "digits_of 10 m = digits_of 10 (m div 10) @ [m mod 10]" using False by (intro digits_of_step) simp_all
    ultimately show ?thesis by (simp add: n_def [symmetric] div_less_iff_less_mult mult.commute)
  qed (simp add: digits_of_small)
qed

lemma num_text_fixed: "length (num_text 10 True m) = n \<Longrightarrow> num_text 10 True m = fixed_text n m \<and> m < 10 ^ n"
  using digits_of_fixed [of m] by (auto simp: num_text_def fixed_text_def)

subsection \<open>The digits behind the point\<close>

lemma frac_step:
  assumes "0 < M"
  shows "f * 10 ^ Suc n div M div 10 ^ n = f * 10 div (M :: nat)"
    and "f * 10 ^ Suc n div M mod 10 ^ n = (f * 10 mod M) * 10 ^ n div M"
    and "f * 10 ^ Suc n mod M = (f * 10 mod M) * 10 ^ n mod M"
proof -
  define q r where "q = f * 10 div M" and "r = f * 10 mod M"
  have "f * 10 = q * M + r" by (simp add: q_def r_def)
  then have e: "f * 10 ^ Suc n = q * 10 ^ n * M + r * 10 ^ n" by (metis add_mult_distrib mult.assoc mult.commute power_Suc)
  have r: "r < M" using assms by (simp add: r_def)
  have d: "f * 10 ^ Suc n div M = q * 10 ^ n + r * 10 ^ n div M" unfolding e using assms by simp
  have small: "r * 10 ^ n div M < 10 ^ n" using r by (intro less_mult_imp_div_less) simp
  show "f * 10 ^ Suc n div M div 10 ^ n = f * 10 div M" unfolding d q_def [symmetric] using small by simp
  show "f * 10 ^ Suc n div M mod 10 ^ n = (f * 10 mod M) * 10 ^ n div M"
    unfolding d r_def [symmetric] using small by simp
  show "f * 10 ^ Suc n mod M = (f * 10 mod M) * 10 ^ n mod M" unfolding e r_def [symmetric] by simp
qed

lemma frac_loop_digits:
  "unat fp < 2 ^ 24 \<Longrightarrow> b + n \<le> length mem \<Longrightarrow>
   \<exists>fp'. frac_loop n fp mem b = Some (fp', take b mem @ fixed_text n (unat fp * 10 ^ n div 2 ^ 24) @ drop (b + n) mem, b + n)
     \<and> unat fp' = unat fp * 10 ^ n mod 2 ^ 24"
proof (induction n arbitrary: fp mem b)
  case 0
  then show ?case by (simp add: fixed_text_def)
next
  case (Suc n)
  define f where "f = unat fp"
  define M :: nat where "M = 2 ^ 24"
  have M: "0 < M" by (simp add: M_def)
  have f: "f < M" using Suc.prems by (simp add: f_def M_def)
  have t: "unat (fp * 10) = f * 10" using f by (simp add: f_def M_def unat_mult_lem [THEN iffD1])
  have q: "f * 10 div M < 10" using f by (intro less_mult_imp_div_less) simp
  have d: "unat (drop_bit 24 (fp * 10)) = f * 10 div M" unfolding unat_drop_bit_eq t by (simp add: drop_bit_eq_div M_def)
  have "drop_bit 24 (fp * 10) = of_nat (unat (drop_bit 24 (fp * 10)))" by simp
  then have "drop_bit 24 (fp * 10) = of_nat (f * 10 div M)" unfolding d .
  then have c: "ucast (drop_bit 24 (fp * 10)) + 0x30 = digit_byte True (f * 10 div M)"
    using q by (simp add: digit_byte_def unsigned_of_nat take_bit_nat_eq_self)
  have r: "unat (fp * 10 AND 0x00FFFFFF) = f * 10 mod M"
  proof -
    have "fp * 10 AND 0x00FFFFFF = take_bit 24 (fp * 10)" by (simp add: take_bit_eq_mask mask_numeral)
    then show ?thesis by (simp only: unsigned_take_bit_eq t) (simp add: take_bit_eq_mod M_def)
  qed
  have room: "b < length mem" "Suc b + n \<le> length (mem[b := x])" for x using Suc.prems by simp_all
  have "unat (fp * 10 AND 0x00FFFFFF) < 2 ^ 24" unfolding r by (simp add: M_def)
  from Suc.IH [OF this room(2)] obtain fp' where
    loop: "frac_loop n (fp * 10 AND 0x00FFFFFF) (mem[b := digit_byte True (f * 10 div M)]) (Suc b)
      = Some (fp', take (Suc b) (mem[b := digit_byte True (f * 10 div M)])
          @ fixed_text n ((f * 10 mod M) * 10 ^ n div M) @ drop (Suc b + n) mem, Suc b + n)"
    and fp': "unat fp' = (f * 10 mod M) * 10 ^ n mod M"
    unfolding r M_def [symmetric] using room(1) by auto
  have k: "f * 10 ^ Suc n div M < 10 ^ Suc n" using f by (intro less_mult_imp_div_less) simp
  have txt_eq: "fixed_text (Suc n) (f * 10 ^ Suc n div M) = digit_byte True (f * 10 div M) # fixed_text n ((f * 10 mod M) * 10 ^ n div M)"
    unfolding fixed_text_Cons [OF k] frac_step [OF M] ..
  have "frac_loop (Suc n) fp mem b = Some (fp', take b mem @ fixed_text (Suc n) (f * 10 ^ Suc n div M) @ drop (b + Suc n) mem, b + Suc n)"
    unfolding txt_eq using room(1) loop by (simp add: mem_store_def c take_Suc_update)
  moreover have "unat fp' = f * 10 ^ Suc n mod M" unfolding fp' frac_step(3) [OF M] ..
  ultimately show ?case unfolding f_def [symmetric] M_def [symmetric] by blast
qed

subsection \<open>Rounding up\<close>

lemma div_mod_small: "m < M \<Longrightarrow> (i * M + m) div M = (i :: nat) \<and> (i * M + m) mod M = m"
  by simp

lemma round_up_digits:
  "k < 10 ^ n \<Longrightarrow> lo \<le> length pre \<Longrightarrow>
   round_up (pre @ fixed_text n k @ post) lo (length pre - lo + n)
   = (if k + 1 < 10 ^ n then Some (pre @ fixed_text n (k + 1) @ post)
      else round_up (pre @ fixed_text n 0 @ post) lo (length pre - lo))"
proof (induction n arbitrary: k post)
  case 0
  then show ?case by (simp add: fixed_text_def)
next
  case (Suc n)
  define q d where "q = k div 10" and "d = k mod 10"
  have d: "d < 10" and k: "k = q * 10 + d" by (simp_all add: q_def d_def)
  have q: "q < 10 ^ n" using Suc.prems(1) k by simp
  have at: "lo + (length pre - lo + n) = length pre + n" using Suc.prems(2) by simp
  let ?m = "pre @ fixed_text n q @ digit_byte True d # post"
  have txt_eq: "fixed_text (Suc n) k = fixed_text n q @ [digit_byte True d]" by (simp add: fixed_text_snoc q_def d_def)
  have load: "mem_load ?m (length pre + n) = Some (digit_byte True d)" by (simp add: mem_load_def nth_append)
  have store: "mem_store ?m (length pre + n) c = Some (pre @ fixed_text n q @ c # post)" for c
    by (simp add: mem_store_def list_update_append)
  have u: "unat (digit_byte True d) = 48 + d" using d by (rule unat_digit_byte)
  have zero: "digit_byte True 0 = 0x30" by (simp add: digit_byte_def)
  have point: "digit_byte True d \<noteq> 0x2E" using u by auto
  show ?case
  proof (cases "d = 9")
    case True
    then have nine: "digit_byte True d = 0x39" by (simp add: digit_byte_def)
    have "round_up ?m lo (Suc (length pre - lo + n))
      = round_up (pre @ fixed_text n q @ digit_byte True 0 # post) lo (length pre - lo + n)"
      using load point store [of "0x30"] by (simp add: at nine zero)
    also have "\<dots> = (if q + 1 < 10 ^ n then Some (pre @ fixed_text n (q + 1) @ digit_byte True 0 # post)
      else round_up (pre @ fixed_text n 0 @ digit_byte True 0 # post) lo (length pre - lo))"
      using Suc.IH [OF q Suc.prems(2), of "digit_byte True 0 # post"] .
    finally show ?thesis using True k unfolding txt_eq by (simp add: fixed_text_snoc)
  next
    case False
    then have nine: "digit_byte True d \<noteq> 0x39" using u by auto
    have "digit_byte True d + 1 = digit_byte True (d + 1)" using d False by (simp add: digit_byte_def)
    then have "round_up ?m lo (Suc (length pre - lo + n)) = Some (pre @ fixed_text n q @ digit_byte True (d + 1) # post)"
      using load point nine store [of "digit_byte True (d + 1)"] by (simp add: at)
    moreover have "k + 1 < 10 ^ Suc n" "(k + 1) div 10 = q" "(k + 1) mod 10 = d + 1" using k q d False by simp_all
    ultimately show ?thesis unfolding txt_eq by (simp add: fixed_text_snoc)
  qed
qed

text \<open>Over the point: a number of \<open>a\<close> digits before it and \<open>p\<close> behind it, when the sum needs no more.\<close>

lemma round_up_fixed:
  assumes "k < 10 ^ p" and "i < 10 ^ a" and "i * 10 ^ p + k + 1 < 10 ^ (a + p)" and "lo \<le> length pre"
  shows "round_up (pre @ fixed_text a i @ 0x2E # fixed_text p k @ post) lo (length pre - lo + a + 1 + p)
    = Some (pre @ fixed_text a ((i * 10 ^ p + k + 1) div 10 ^ p) @ 0x2E # fixed_text p ((i * 10 ^ p + k + 1) mod 10 ^ p) @ post)"
proof -
  let ?pre = "pre @ fixed_text a i @ [0x2E]"
  have n: "length pre - lo + a + 1 + p = length ?pre - lo + p" using assms(4) by simp
  have lo: "lo \<le> length ?pre" using assms(4) by simp
  have r: "round_up (pre @ fixed_text a i @ 0x2E # fixed_text p k @ post) lo (length pre - lo + a + 1 + p)
    = (if k + 1 < 10 ^ p then Some (?pre @ fixed_text p (k + 1) @ post)
       else round_up (?pre @ fixed_text p 0 @ post) lo (length ?pre - lo))"
    using round_up_digits [OF assms(1) lo, of post] unfolding n by simp
  show ?thesis
  proof (cases "k + 1 < 10 ^ p")
    case True
    then have "(i * 10 ^ p + k + 1) div 10 ^ p = i" "(i * 10 ^ p + k + 1) mod 10 ^ p = k + 1"
      using div_mod_small [of "k + 1" "10 ^ p" i] by (simp_all only: add.assoc)
    then show ?thesis unfolding r using True by simp
  next
    case False
    then have k: "k + 1 = 10 ^ p" using assms(1) by simp
    then have e: "i * 10 ^ p + k + 1 = (i + 1) * 10 ^ p" by simp
    then have "(i + 1) * 10 ^ p < 10 ^ a * 10 ^ p" using assms(3) unfolding power_add by simp
    then have i: "i + 1 < 10 ^ a" by (simp only: mult_less_cancel2)
    have "lo + (length pre - lo + a) = length pre + a" using assms(4) by simp
    then have "mem_load (pre @ fixed_text a i @ 0x2E # fixed_text p 0 @ post) (lo + (length pre - lo + a)) = Some 0x2E"
      by (simp add: mem_load_def nth_append)
    moreover have "length ?pre - lo = Suc (length pre - lo + a)" using assms(4) by simp
    ultimately have "round_up (?pre @ fixed_text p 0 @ post) lo (length ?pre - lo)
      = round_up (pre @ fixed_text a i @ 0x2E # fixed_text p 0 @ post) lo (length pre - lo + a)" by simp
    then show ?thesis
      unfolding r e using False i round_up_digits [OF assms(2,4), of "0x2E # fixed_text p 0 @ post"] by simp
  qed
qed

subsection \<open>The text of a number\<close>

definition float_exp :: "u32 \<Rightarrow> int" where "float_exp val = uint (drop_bit 23 val AND 0xFF) - 127"

definition float_sig :: "u32 \<Rightarrow> u32" where "float_sig val = (val AND 0x00FFFFFF) OR 0x00800000"

text \<open>The size of a number in units of \<open>2\<^sup>-\<^sup>2\<^sup>4\<close>, exact unless it is below a half.\<close>

definition float_units :: "u32 \<Rightarrow> nat" where
  "float_units val = (if float_exp val \<ge> -1 then unat (float_sig val) * 2 ^ nat (float_exp val + 1)
     else unat (float_sig val) div 2 ^ nat (- (float_exp val + 1)))"

text \<open>The number rounded to \<open>p\<close> places, half a unit upwards.\<close>

definition float_rounded :: "u32 \<Rightarrow> nat \<Rightarrow> nat" where
  "float_rounded val p = (2 * (float_units val * 10 ^ p) + 2 ^ 24) div (2 * 2 ^ 24)"

definition float_text :: "u32 \<Rightarrow> nat \<Rightarrow> u8 list" where
  "float_text val p = (if sint val < 0 then [0x2D] else [])
     @ num_text 10 True (float_rounded val p div 10 ^ p) @ 0x2E # fixed_text p (float_rounded val p mod 10 ^ p)"

lemma unat_float_sig: "unat (float_sig val) < 2 ^ 24"
proof -
  have "float_sig val = take_bit 24 (val OR 0x00800000)"
    by (simp add: float_sig_def take_bit_or) (simp add: take_bit_eq_mask mask_numeral)
  then have "unat (float_sig val) = take_bit 24 (unat (val OR 0x00800000))" by (simp only: unsigned_take_bit_eq)
  then show ?thesis by (simp only: take_bit_nat_less_exp)
qed

lemma ftoa_parts_units:
  assumes "float_exp val \<le> 22"
  shows "unat (fst (ftoa_parts (float_exp val) (float_sig val))) = float_units val div 2 ^ 24"
    and "unat (snd (ftoa_parts (float_exp val) (float_sig val))) = float_units val mod 2 ^ 24"
proof -
  define S e where "S = unat (float_sig val)" and "e = float_exp val"
  have S: "S < 2 ^ 24" using unat_float_sig by (simp add: S_def)
  have "unat (fst (ftoa_parts e (float_sig val))) = float_units val div 2 ^ 24
    \<and> unat (snd (ftoa_parts e (float_sig val))) = float_units val mod 2 ^ 24"
  proof (cases "e \<ge> 0")
    case True
    define k where "k = nat (e + 1)"
    have k: "k \<le> 23" "nat (23 - e) = 24 - k" using True assms by (simp_all add: k_def e_def)
    have p: "(2 :: nat) ^ 24 = 2 ^ (24 - k) * 2 ^ k" using k(1) by (simp flip: power_add)
    have "unat (drop_bit (nat (23 - e)) (float_sig val)) = S div 2 ^ (24 - k)"
      unfolding unat_drop_bit_eq k(2) S_def [symmetric] by (simp add: drop_bit_eq_div)
    moreover have "S div 2 ^ (24 - k) = S * 2 ^ k div 2 ^ 24" unfolding p by simp
    moreover have "unat (push_bit k (float_sig val) AND 0x00FFFFFF) = S * 2 ^ k mod 2 ^ 24"
    proof -
      have "push_bit k (float_sig val) AND 0x00FFFFFF = take_bit 24 (push_bit k (float_sig val))"
        by (simp add: take_bit_eq_mask mask_numeral)
      moreover have "unat (take_bit 24 (push_bit k (float_sig val))) = take_bit 24 (push_bit k S)"
        by (simp add: unsigned_take_bit_eq unsigned_push_bit_eq S_def)
      ultimately show ?thesis by (simp add: take_bit_eq_mod push_bit_eq_mult)
    qed
    ultimately show ?thesis using True assms
      by (simp add: ftoa_parts_def float_units_def e_def [symmetric] S_def [symmetric] k_def [symmetric])
  next
    case False
    define k where "k = nat (- (e + 1))"
    have "float_sig val AND 0x00FFFFFF = take_bit 24 (float_sig val)" by (simp add: take_bit_eq_mask mask_numeral)
    then have sig: "unat (float_sig val AND 0x00FFFFFF) = S"
      using S by (simp add: unsigned_take_bit_eq S_def take_bit_nat_eq_self)
    have d: "unat (drop_bit k (float_sig val AND 0x00FFFFFF)) = S div 2 ^ k"
      unfolding unat_drop_bit_eq sig by (simp add: drop_bit_eq_div)
    have u: "float_units val = S div 2 ^ k"
      using False by (cases "e = -1") (auto simp: float_units_def e_def [symmetric] S_def [symmetric] k_def)
    have "S div 2 ^ k < 2 ^ 24" using S by (meson div_le_dividend le_less_trans)
    then show ?thesis unfolding u using False d by (simp add: ftoa_parts_def k_def)
  qed
  then show "unat (fst (ftoa_parts (float_exp val) (float_sig val))) = float_units val div 2 ^ 24"
    "unat (snd (ftoa_parts (float_exp val) (float_sig val))) = float_units val mod 2 ^ 24"
    unfolding e_def by simp_all
qed

lemma digits_of_length: "m < 10 ^ n \<Longrightarrow> 0 < n \<Longrightarrow> length (digits_of 10 m) \<le> n"
proof (induction n arbitrary: m)
  case (Suc n)
  show ?case
  proof (cases "m < 10")
    case False
    then have "m div 10 < 10 ^ n" using Suc.prems(1) by (simp add: less_mult_imp_div_less mult.commute)
    moreover have "0 < n" using calculation False by (cases n) auto
    ultimately show ?thesis using Suc.IH [of "m div 10"] False by (simp add: digits_of_step)
  qed (simp add: digits_of_small)
qed simp

text \<open>The memory with a text written from \<open>b\<close> on.\<close>

definition text_at :: "u8 list \<Rightarrow> nat \<Rightarrow> u8 list \<Rightarrow> u8 list \<Rightarrow> bool" where
  "text_at M b t m \<longleftrightarrow> out_at M b t \<lparr>po_mem = m, po_buf = Some (b + length t), po_cnt = of_nat (length t)\<rparr>"

lemma text_at_write:
  assumes "text_at M b t m" and "b + length t + length s < length M" and "length e \<le> 1"
  obtains m' where "mem_write m (b + length t) (s @ e) = Some m'" and "text_at M b (t @ s) m'"
proof -
  obtain m' where "mem_write m (b + length t) (s @ e) = Some m'"
    "\<And>n. n = (of_nat (length (t @ s)) :: u32) \<Longrightarrow>
      out_at M b (t @ s) \<lparr>po_mem = m', po_buf = Some (b + length t + length s), po_cnt = n\<rparr>"
    using out_at_write [OF assms(1) [unfolded text_at_def] assms(2,3)] by auto
  then show ?thesis using that by (simp add: text_at_def add.assoc)
qed

lemma text_at_char:
  assumes "text_at M b t m" and "b + length t + 1 < length M"
  obtains m' where "mem_store m (b + length t) c = Some m'" and "text_at M b (t @ [c]) m'"
  using text_at_write [OF assms(1), of "[c]" "[]"] assms(2) by (auto simp: store_as_write)

lemma text_at_memory: "text_at M b t m \<Longrightarrow> length m = length M \<and> m = take b M @ t @ drop (b + length t) m"
  using append_take_drop_id [of "b + length t" m] by (simp add: text_at_def out_at_def)

lemma text_at_same_length:
  assumes "text_at M b t m" and "length t' = length t" and "b + length t \<le> length M"
  shows "text_at M b t' (take b M @ t' @ drop (b + length t) m)"
  using assms by (auto simp: text_at_def out_at_def)

lemma str_at_write: "str_at v m b = mem_write m b (num_text 10 True (unat v) @ [0])"
  by (simp add: str_at_def uint64_to_str_text str_digits_def store_digits_def)

lemma ftoa_int_text:
  assumes t: "text_at M b t m" and room: "b + length t + length (num_text 10 True (unat ip)) < length M" and ip: "unat ip < 2 ^ 31"
  obtains m' where "ftoa_int ip m (b + length t) = Some (m', b + length t + length (num_text 10 True (unat ip)))"
    and "text_at M b (t @ num_text 10 True (unat ip)) m'"
proof (cases "ip = 0")
  case True
  have z: "num_text 10 True (unat ip) = [0x30]" by (simp add: True num_text_0)
  obtain m' where "mem_store m (b + length t) 0x30 = Some m'" "text_at M b (t @ [0x30]) m'"
    using text_at_char [OF t] room z by auto
  then show ?thesis using that unfolding z by (simp add: ftoa_int_def True)
next
  case False
  let ?ds = "num_text 10 True (unat ip)"
  obtain m' where m': "mem_write m (b + length t) (?ds @ [0]) = Some m'" "text_at M b (t @ ?ds) m'"
    using text_at_write [OF t room, of "[0]"] by auto
  have "ip = of_nat (unat ip)" by simp
  then have s: "sint ip = int (unat ip)" using sint_of_nat_u32 [OF ip] by metis
  have "0 < unat ip" using False by (simp add: unat_gt_0)
  then have "sint ip > 0" unfolding s by (simp only: of_nat_0_less_iff)
  moreover have "unat (scast ip :: u64) = unat ip"
  proof -
    have "(scast ip :: u64) = of_int (sint ip)" by simp
    then have "(scast ip :: u64) = of_nat (unat ip)" unfolding s by (simp only: of_int_of_nat_eq)
    then show ?thesis using ip by (simp only: unat_of_nat) simp
  qed
  moreover have "drop (b + length t) m' = ?ds @ 0 # drop (b + length t + length ?ds + 1) m"
    using m'(1) by (auto simp: mem_write_def split: if_splits)
  moreover have "0 \<notin> set ?ds"
  proof
    assume "0 \<in> set ?ds"
    then obtain d where "d \<in> set (digits_of 10 (unat ip))" "digit_byte True d = 0" by (auto simp: num_text_def)
    then show False using digits_of_bound [of 10 d] unat_digit_byte [of d True] by auto
  qed
  ultimately have "ftoa_int ip m (b + length t) = Some (m', b + length t + length ?ds)"
    using False m'(1) by (simp add: ftoa_int_def str_at_write c_strlen_terminated)
  then show ?thesis using that m'(2) by blast
qed

lemma ftoa_frac_text:
  assumes t: "text_at M b (sg @ num_text 10 True i @ [0x2E]) m" and f: "unat fp < 2 ^ 24" "fp \<noteq> 0"
    and p: "p \<le> 9" "length (num_text 10 True i) \<le> 7" "length sg \<le> 1"
    and carry: "length (num_text 10 True (N div 10 ^ p)) = length (num_text 10 True i)"
    and N: "N = (2 * ((i * 2 ^ 24 + unat fp) * 10 ^ p) + 2 ^ 24) div (2 * 2 ^ 24)"
    and room: "b + length (sg @ num_text 10 True i @ [0x2E]) + p < length M"
  obtains m' where "ftoa_frac fp 20 (int p) m b (b + length (sg @ num_text 10 True i @ [0x2E]))
      = Some (m', b + length (sg @ num_text 10 True i @ [0x2E]) + p)"
    and "text_at M b (sg @ num_text 10 True (N div 10 ^ p) @ 0x2E # fixed_text p (N mod 10 ^ p)) m'"
proof -
  define K :: nat where "K = 2 ^ 24"
  define a where "a = length (num_text 10 True i)"
  define u where "u = unat fp"
  define k where "k = u * 10 ^ p div K"
  define t0 where "t0 = sg @ num_text 10 True i @ [0x2E]"
  have K: "0 < K" and uK: "u < K" using f by (simp_all add: K_def u_def)
  have k: "k < 10 ^ p" unfolding k_def using uK by (intro less_mult_imp_div_less) simp
  have len: "length t0 = length sg + a + 1" by (simp add: t0_def a_def)
  have imax: "(if 20 - (int (b + length t0) - int b) - 1 > int p then int p
      else 20 - (int (b + length t0) - int b) - 1) = int p"
    using p by (simp add: len a_def)
  have lm: "length m = length M" using text_at_memory [OF t] by simp
  have "unat fp < 2 ^ 24" "b + length t0 + p \<le> length m" using f room lm by (simp_all add: t0_def)
  from frac_loop_digits [OF this] obtain fp' where
    loop: "frac_loop p fp m (b + length t0)
      = Some (fp', take (b + length t0) m @ fixed_text p k @ drop (b + length t0 + p) m, b + length t0 + p)"
    and fp': "unat fp' = u * 10 ^ p mod K" unfolding k_def u_def K_def by blast
  have "mem_write m (b + length t0) (fixed_text p k @ []) = Some (take (b + length t0) m @ fixed_text p k @ drop (b + length t0 + p) m)"
    using room lm by (simp add: mem_write_def t0_def)
  moreover have "b + length t0 + length (fixed_text p k) < length M" using room by (simp add: t0_def)
  ultimately obtain m1 where m1: "m1 = take (b + length t0) m @ fixed_text p k @ drop (b + length t0 + p) m"
    and t1: "text_at M b (t0 @ fixed_text p k) m1"
    using text_at_write [OF t [folded t0_def], of "fixed_text p k" "[]"] by auto
  have i: "num_text 10 True i = fixed_text a i" "i < 10 ^ a" using num_text_fixed [of i a] by (simp_all add: a_def)
  have up: "drop_bit 24 (fp' * 10) \<ge> 5 \<longleftrightarrow> K \<le> 2 * unat fp'"
  proof -
    have l: "unat fp' < K" using K by (simp add: fp')
    then have "unat (fp' * 10) = unat fp' * 10" by (simp add: K_def unat_mult_lem [THEN iffD1])
    then have "unat (drop_bit 24 (fp' * 10)) = unat fp' * 10 div K" unfolding unat_drop_bit_eq by (simp add: drop_bit_eq_div K_def)
    moreover have "5 \<le> unat fp' * 10 div K \<longleftrightarrow> 5 * K \<le> unat fp' * 10" using K by (simp add: less_eq_div_iff_mult_less_eq)
    ultimately show ?thesis by (simp add: word_le_nat_alt)
  qed
  have "(i * K + u) * 10 ^ p = (i * 10 ^ p + k) * K + unat fp'"
    unfolding fp' k_def by (simp add: algebra_simps)
  then have N': "N = i * 10 ^ p + k + (if K \<le> 2 * unat fp' then 1 else 0)"
  proof -
    assume e: "(i * K + u) * 10 ^ p = (i * 10 ^ p + k) * K + unat fp'"
    have l: "unat fp' < K" using K by (simp add: fp')
    have "N = (2 * ((i * K + u) * 10 ^ p) + K) div (2 * K)" unfolding N K_def u_def ..
    then have n: "N = (2 * ((i * 10 ^ p + k) * K + unat fp') + K) div (2 * K)" unfolding e .
    have m: "2 * ((i * 10 ^ p + k) * K + unat fp') + K = (i * 10 ^ p + k) * (2 * K) + (2 * unat fp' + K)" by simp
    have "N = ((i * 10 ^ p + k) * (2 * K) + (2 * unat fp' + K)) div (2 * K)" unfolding n m ..
    also have "\<dots> = i * 10 ^ p + k + (2 * unat fp' + K) div (2 * K)" using K by (intro div_mult_self3) simp
    finally have "N = i * 10 ^ p + k + (2 * unat fp' + K) div (2 * K)" .
    moreover have "(2 * unat fp' + K) div (2 * K) = (if K \<le> 2 * unat fp' then 1 else 0)"
      using l by (auto simp: div_if)
    ultimately show ?thesis by simp
  qed
  define T where "T = sg @ num_text 10 True (N div 10 ^ p) @ 0x2E # fixed_text p (N mod 10 ^ p)"
  have Nd: "num_text 10 True (N div 10 ^ p) = fixed_text a (N div 10 ^ p)" "N div 10 ^ p < 10 ^ a"
    using num_text_fixed [OF carry] by (simp_all add: a_def)
  have lenT: "length T = length (t0 @ fixed_text p k)" by (simp add: T_def len Nd(1))
  have "\<exists>m'. (if drop_bit 24 (fp' * 10) \<ge> 5 then round_up m1 b (b + length t0 + p - b) else Some m1) = Some m' \<and> text_at M b T m'"
  proof (cases "K \<le> 2 * unat fp'")
    case False
    then have "T = t0 @ fixed_text p k" using N' div_mod_small [OF k, of i] by (simp add: T_def t0_def)
    then show ?thesis using False up t1 by auto
  next
    case True
    then have N1: "N = i * 10 ^ p + k + 1" using N' by simp
    have "N < 10 ^ (a + p)" using Nd(2) by (simp add: power_add div_less_iff_less_mult)
    then have bound: "i * 10 ^ p + k + 1 < 10 ^ (a + p)" by (simp add: N1)
    define post where "post = drop (b + length (t0 @ fixed_text p k)) m1"
    have b: "length (take b M) = b" using room by simp
    have mem: "m1 = (take b M @ sg) @ fixed_text a i @ 0x2E # fixed_text p k @ post"
      using text_at_memory [OF t1] by (simp add: post_def t0_def i(1))
    have "b \<le> length (take b M @ sg)" using b by simp
    note up_fixed = round_up_fixed [OF k i(2) bound this, of post]
    have T: "take b M @ T @ post = (take b M @ sg) @ fixed_text a ((i * 10 ^ p + k + 1) div 10 ^ p)
        @ 0x2E # fixed_text p ((i * 10 ^ p + k + 1) mod 10 ^ p) @ post"
      by (simp only: T_def N1 [symmetric] Nd(1) append.assoc append_Cons)
    have pos: "b + length t0 + p - b = length (take b M @ sg) - b + a + 1 + p" using b by (simp add: len)
    have r: "round_up m1 b (b + length t0 + p - b) = Some (take b M @ T @ post)"
      unfolding mem T pos by (rule up_fixed)
    have "text_at M b T (take b M @ T @ post)"
      unfolding post_def using text_at_same_length [OF t1 lenT] room by (simp add: t0_def)
    then show ?thesis unfolding r using True up by simp
  qed
  then obtain m' where m': "(if drop_bit 24 (fp' * 10) \<ge> 5 then round_up m1 b (b + length t0 + p - b) else Some m1) = Some m'"
    "text_at M b T m'" by blast
  have "ftoa_frac fp 20 (int p) m b (b + length t0) = Some (m', b + length t0 + p)"
    unfolding ftoa_frac_def Let_def imax using f(2) loop [folded m1] m'(1) by simp
  then show ?thesis using that m'(2) unfolding t0_def T_def by blast
qed

lemma ftoa_text_spec:
  assumes large: "\<not> float_too_large val" and e: "float_exp val \<ge> -23" and frac: "float_units val mod 2 ^ 24 \<noteq> 0"
    and p: "p \<le> 9"
    and carry: "length (num_text 10 True (float_rounded val p div 10 ^ p)) = length (num_text 10 True (float_units val div 2 ^ 24))"
    and w: "load_u32 mem b = Some 20" and room: "b + length (float_text val p) < length mem"
  shows "xy_ftoa val mem b (int p) = Some (int (length (float_text val p)),
    take b mem @ float_text val p @ 0 # drop (b + length (float_text val p) + 1) mem)"
proof -
  define sg where "sg = (if sint val < 0 then [0x2D] else [] :: u8 list)"
  define i where "i = float_units val div 2 ^ 24"
  obtain ip fp where parts: "ftoa_parts (float_exp val) (float_sig val) = (ip, fp)" by (cases "ftoa_parts (float_exp val) (float_sig val)")
  have e22: "float_exp val \<le> 22"
  proof (rule ccontr)
    assume "\<not> float_exp val \<le> 22"
    then have k: "24 \<le> nat (float_exp val + 1)" by simp
    then have "float_units val = unat (float_sig val) * 2 ^ nat (float_exp val + 1)" by (simp add: float_units_def)
    moreover have "(2 :: nat) ^ 24 dvd 2 ^ nat (float_exp val + 1)" using k by (rule le_imp_power_dvd)
    ultimately have "2 ^ 24 dvd float_units val" by simp
    then show False using frac by simp
  qed
  have ip: "unat ip = i" and fp: "unat fp = float_units val mod 2 ^ 24"
    using ftoa_parts_units [OF e22] by (simp_all add: parts i_def)
  have units: "float_units val = i * 2 ^ 24 + unat fp" unfolding fp i_def by (rule div_mult_mod_eq [symmetric])
  have i7: "i < 2 ^ 23"
  proof -
    have S: "unat (float_sig val) < 2 ^ 24" by (rule unat_float_sig)
    have "float_units val < 2 ^ 24 * 2 ^ 23"
    proof (cases "float_exp val \<ge> -1")
      case True
      have "(2 :: nat) ^ nat (float_exp val + 1) \<le> 2 ^ 23" using e22 by (intro power_increasing) simp_all
      then have "unat (float_sig val) * 2 ^ nat (float_exp val + 1) \<le> unat (float_sig val) * 2 ^ 23" by (rule mult_le_mono2)
      also have "\<dots> < 2 ^ 24 * 2 ^ 23" using S by (intro mult_strict_right_mono) simp_all
      finally show ?thesis using True by (simp add: float_units_def)
    next
      case False
      have "unat (float_sig val) div 2 ^ nat (- (float_exp val + 1)) \<le> unat (float_sig val)" by (rule div_le_dividend)
      also have "\<dots> < 2 ^ 24 * 2 ^ 23" using S by simp
      finally show ?thesis unfolding float_units_def if_not_P [OF False] .
    qed
    then show ?thesis unfolding i_def by (intro less_mult_imp_div_less) (simp add: mult.commute)
  qed
  have a: "length (num_text 10 True i) \<le> 7" using i7 digits_of_length [of i 7] by (simp add: num_text_def)
  have normal: "\<not> xy_isnan val" "\<not> xy_isinf val" "\<not> float_zero val"
  proof -
    have "drop_bit 23 val AND 0xFF \<noteq> 0xFF" using e22 by (auto simp: float_exp_def)
    then show "\<not> xy_isnan val" "\<not> xy_isinf val" by (simp_all add: xy_isnan_def xy_isinf_def)
    have d: "drop_bit 23 (float_size val) = drop_bit 23 val AND 0xFF" by (simp add: float_size_def drop_bit_and)
    show "\<not> float_zero val"
    proof
      assume "float_zero val"
      then have "drop_bit 23 val AND 0xFF = 0" unfolding d [symmetric] by (simp add: float_zero_def)
      then show False using e by (simp add: float_exp_def)
    qed
  qed
  have len: "length (float_text val p) = length sg + length (num_text 10 True i) + 1 + p"
    using carry by (simp add: float_text_def sg_def i_def)
  have sg: "length sg \<le> 1" by (simp add: sg_def)
  obtain m1 where m1: "(if sint val < 0 then do { m \<leftarrow> mem_store mem b 0x2D; Some (m, b + 1) } else Some (mem, b))
      = Some (m1, b + length sg)" "text_at mem b sg m1"
  proof -
    have t: "text_at mem b [] mem" by (simp add: text_at_def out_at_def)
    show thesis
    proof (cases "sint val < 0")
      case True
      obtain m where "mem_store mem b 0x2D = Some m" "text_at mem b [0x2D] m"
        using text_at_char [OF t, of "0x2D"] room len by auto
      then show thesis using that True by (simp add: sg_def)
    next
      case False
      then show thesis using that [of mem] t by (simp add: sg_def)
    qed
  qed
  have r1: "b + length sg + length (num_text 10 True (unat ip)) < length mem" "unat ip < 2 ^ 31"
    using room len ip i7 by simp_all
  obtain m2 where m2: "ftoa_int ip m1 (b + length sg) = Some (m2, b + length sg + length (num_text 10 True i))"
    "text_at mem b (sg @ num_text 10 True i) m2"
    by (rule ftoa_int_text [OF m1(2) r1, unfolded ip])
  have r2: "b + length (sg @ num_text 10 True i) + 1 < length mem" using room len by simp
  obtain m3 where m3: "mem_store m2 (b + length (sg @ num_text 10 True i)) 0x2E = Some m3"
    "text_at mem b ((sg @ num_text 10 True i) @ [0x2E]) m3" by (rule text_at_char [OF m2(2) r2])
  have t3: "text_at mem b (sg @ num_text 10 True i @ [0x2E]) m3" using m3(2) by simp
  have f: "unat fp < 2 ^ 24" "fp \<noteq> 0" using fp frac by (auto simp: unat_eq_0)
  have N: "float_rounded val p = (2 * ((i * 2 ^ 24 + unat fp) * 10 ^ p) + 2 ^ 24) div (2 * 2 ^ 24)"
    unfolding float_rounded_def units ..
  have r3: "b + length (sg @ num_text 10 True i @ [0x2E]) + p < length mem" using room len by simp
  obtain m4 where m4: "ftoa_frac fp 20 (int p) m3 b (b + length (sg @ num_text 10 True i @ [0x2E]))
      = Some (m4, b + length (sg @ num_text 10 True i @ [0x2E]) + p)" "text_at mem b (float_text val p) m4"
    unfolding float_text_def sg_def [symmetric] by (rule ftoa_frac_text [OF t3 f p a sg carry [folded i_def] N r3])
  have m5: "mem_store m4 (b + length (float_text val p)) 0
    = Some (take b mem @ float_text val p @ 0 # drop (b + length (float_text val p) + 1) mem)"
    using out_at_store [OF m4(2) [unfolded text_at_def] room, of 0] by simp
  have prec: "(if (if int p < 0 then 6 else int p) > 9 then 9 else (if int p < 0 then 6 else int p)) = int p" using p by simp
  have n20: "sint (20 :: u32) = 20" by simp
  show ?thesis
    unfolding xy_ftoa_def Let_def prec if_not_P [OF large] if_not_P [OF normal(1)] if_not_P [OF normal(2)] if_not_P [OF normal(3)]
      float_exp_def [symmetric] float_sig_def [symmetric]
    using w e e22 m1(1) m2(1) m3(1) m4(1) m5 by (simp add: parts n20 len add.assoc)
qed

text \<open>
  C39. Printing of floating-point numbers. Take a number that is at least \<open>2\<^sup>-\<^sup>2\<^sup>3\<close> and at most 1e9, the
  limit of the code, in size, has a fraction in units of \<open>2\<^sup>-\<^sup>2\<^sup>4\<close>, to which it is cut off first, and keeps the
  length of its integral part when it is rounded; the buffer holds its size 20 and has room. Then
  \<open>xy_ftoa\<close> writes the sign, the integral part, the point and exactly the places asked for, at most
  nine, of the number that was cut off, rounded to that many places, a half upwards, and the
  terminator, changes no other byte and returns the length. The conditions are those of the code: a
  number without a fraction gets one place whatever is asked for (\<open>ftoa_whole_short\<close>) and a carry out
  of the first digit is lost (\<open>ftoa_carry_lost\<close>). The number is the float, not the decimal it was written as:
  the row 1.363995 with five places of the table in the source does not come out as stated there
  (\<open>ftoa_comment_row\<close>).
\<close>
theorem ftoa_rounds:
  assumes "\<not> float_too_large val" and "float_exp val \<ge> -23" and "float_units val mod 2 ^ 24 \<noteq> 0" and "p \<le> 9"
    and "length (num_text 10 True (float_rounded val p div 10 ^ p)) = length (num_text 10 True (float_units val div 2 ^ 24))"
    and "load_u32 mem b = Some 20" and "b + length (float_text val p) < length mem"
  shows "xy_ftoa val mem b (int p) = Some (int (length (float_text val p)),
    take b mem @ float_text val p @ 0 # drop (b + length (float_text val p) + 1) mem)"
  using assms by (rule ftoa_text_spec)

text \<open>The float -1.75 with one place, which is rounded over the point's neighbour to -1.8.\<close>

lemma ftoa_rounds_witness:
  "xy_ftoa 0xBFE00000 [20, 0, 0, 0, 9, 9, 9] 0 1 = Some (4, [0x2D, 0x31, 0x2E, 0x38, 0, 9, 9])"
proof -
  let ?v = "0xBFE00000 :: u32"
  have v: "float_exp ?v = 0" "float_sig ?v = 0xE00000" by (simp_all add: float_exp_def float_sig_def)
  have u: "float_units ?v = 0x1C00000" by (simp add: float_units_def v)
  have r: "float_rounded ?v 1 = 18" by (simp add: float_rounded_def u)
  have d: "num_text 10 True (Suc 0) = [0x31]" by (simp add: num_text_small digit_byte_def)
  have t: "float_text ?v 1 = [0x2D, 0x31, 0x2E, 0x38]"
    unfolding float_text_def r by (simp add: d fixed_text_def digit_byte_def)
  have "\<not> float_too_large ?v" by (simp add: float_too_large_def float_size_def)
  moreover have "float_exp ?v \<ge> -23" "float_units ?v mod 2 ^ 24 \<noteq> 0" "(1 :: nat) \<le> 9" by (simp_all add: v u)
  moreover have "length (num_text 10 True (float_rounded ?v 1 div 10 ^ 1)) = length (num_text 10 True (float_units ?v div 2 ^ 24))"
    unfolding r u by simp
  moreover have "load_u32 [20, 0, 0, 0, 9, 9, 9] 0 = Some 20" by (simp add: load_u32_def mem_read_def word_rcat_def)
  moreover have "0 + length (float_text ?v 1) < length [20, 0, 0, 0, 9, 9, 9 :: u8]" unfolding t by simp
  ultimately show ?thesis using ftoa_rounds [of ?v 1 "[20, 0, 0, 0, 9, 9, 9]" 0] unfolding t by simp
qed

text \<open>The numbers 9.996 and -9.996 with two places: the carry is lost, and with a sign it runs into the sign.\<close>

lemma ftoa_carry_lost:
  "xy_ftoa 0x411FEF9E [20, 0, 0, 0, 9, 9, 9] 0 2 = Some (4, [0x30, 0x2E, 0x30, 0x30, 0, 9, 9])
   \<and> xy_ftoa 0xC11FEF9E [20, 0, 0, 0, 9, 9, 9] 0 2 = Some (5, [0x2E, 0x30, 0x2E, 0x30, 0x30, 0, 9])"
  by code_simp

text \<open>The float 3.0 with two places is printed with one.\<close>

lemma ftoa_whole_short:
  "xy_ftoa 0x40400000 [20, 0, 0, 0, 9, 9, 9] 0 2 = Some (3, [0x33, 0x2E, 0x30, 0, 9, 9, 9])"
  by code_simp

text \<open>
  The float nearest to 1.363995 is 1.36399495..., so five places give \<open>1.36399\<close>; the table in the comment
  of \<open>xy_ftoa\<close> has \<open>1.36400\<close>.
\<close>

lemma ftoa_comment_row:
  "xy_ftoa 0x3FAE9763 [20, 0, 0, 0, 9, 9, 9, 9, 9] 0 5
    = Some (7, [0x31, 0x2E, 0x33, 0x36, 0x33, 0x39, 0x39, 0, 9])"
  by code_simp

end
