(* ===== verification/Xy_Stdio_Scan.thy ===== *)
theory Xy_Stdio_Scan
  imports Xy_Stdio_Properties
begin

text \<open>
  Formatted input: what the conversions read, and that a table printed line by line is read back by the same format.
\<close>

subsection \<open>Numbers\<close>

lemma digit_value_le: "r \<le> foldl (\<lambda>v d. v * 10 + d) (r :: nat) ds"
proof (induction ds arbitrary: r)
  case (Cons d ds)
  show ?case using Cons.IH [of "r * 10 + d"] by simp
qed simp

lemma stroul_digit_byte: "d < 10 \<Longrightarrow> stroul_digit (digit_byte lower d) = Some (of_nat d)"
proof -
  assume d: "d < 10"
  then have u: "digit_byte lower d = of_nat (48 + d)" by (simp add: digit_byte_def)
  have "unat (of_nat (48 + d) :: u8) = 48 + d" using d by (simp add: unat_of_nat del: of_nat_add)
  moreover have "ucast (of_nat (48 + d) :: u8) = (of_nat (48 + d) :: u32)"
    using d by (simp add: unsigned_of_nat take_bit_nat_eq_self del: of_nat_add)
  ultimately show ?thesis using d unfolding stroul_digit_def u word_le_nat_alt by (simp del: of_nat_add) simp
qed

lemma stroul_loop_digits:
  assumes "stroul_digit c = None"
  shows "\<forall>d \<in> set ds. d < 10 \<Longrightarrow> foldl (\<lambda>v d. v * 10 + d) v ds < 2 ^ 32 \<Longrightarrow>
    stroul_loop 10 (of_nat v) (map (digit_byte lower) ds @ c # q) = Some (of_nat (foldl (\<lambda>v d. v * 10 + d) v ds), c # q)"
proof (induction ds arbitrary: v)
  case Nil
  then show ?case using assms by simp
next
  case (Cons d ds)
  have d: "d < 10" using Cons.prems(1) by simp
  have small: "v * 10 + d < 2 ^ 32" using Cons.prems(2) digit_value_le [of "v * 10 + d" ds] by simp
  have u: "unat (of_nat v :: u32) = v" "unat (of_nat d :: u32) = d" using small d by (simp_all add: unat_of_nat)
  have "\<not> (10 :: u32) \<le> of_nat d" using d u by (simp add: word_le_nat_alt)
  moreover have "\<not> (of_nat v :: u32) > (0xFFFFFFFF - of_nat d) div 10"
  proof -
    have "unat (0xFFFFFFFF - of_nat d :: u32) = 4294967295 - d"
      using d u by (subst unat_sub) (simp_all add: word_le_nat_alt)
    then have "unat ((0xFFFFFFFF - of_nat d :: u32) div 10) = (4294967295 - d) div 10" by (simp add: unat_div_distrib)
    moreover have "v \<le> (4294967295 - d) div 10" using small by (simp add: less_eq_div_iff_mult_less_eq)
    ultimately show ?thesis using u by (simp add: word_less_nat_alt)
  qed
  ultimately show ?case
    using Cons.IH [of "v * 10 + d"] Cons.prems stroul_digit_byte [OF d, of lower] by simp
qed

lemma is_blank_digit: "d < 10 \<Longrightarrow> \<not> is_blank (digit_byte lower d)"
  using digit_byte_dec [of d lower] by (auto simp: is_blank_def word_le_nat_alt)

lemma num_text_digits: "\<exists>d ds. digits_of 10 v = d # ds \<and> d < 10 \<and> (\<forall>d \<in> set ds. d < 10) \<and> (0 < v \<longrightarrow> 0 < d)"
proof (cases "v = 0")
  case True
  then show ?thesis by (simp add: digits_of_small)
next
  case False
  then obtain d ds where "digits_of 10 v = d # ds" "0 < d" using digits_of_hd [of 10 v] by auto
  then show ?thesis using digits_of_bound [of 10 _ v] by auto
qed

lemma stroul_number:
  assumes v: "v < 2 ^ 32" and c: "stroul_digit c = None" "c \<noteq> 0x78" "c \<noteq> 0x58"
  shows "xy_stdio_stroul (Some (num_text 10 lower v @ c # q)) 10 = Some (of_nat v, Some (c # q))"
proof -
  obtain d ds where d: "digits_of 10 v = d # ds" "d < 10" "\<forall>d \<in> set ds. d < 10" "0 < v \<longrightarrow> 0 < d"
    using num_text_digits [of v] by auto
  have blank: "skip_blanks (num_text 10 lower v @ c # q) = Some (num_text 10 lower v @ c # q)"
    using is_blank_digit [OF d(2)] by (simp add: num_text_def d(1))
  show ?thesis
  proof (cases "v = 0")
    case True
    then have z: "num_text 10 lower v = [0x30]" by (simp add: num_text_0)
    show ?thesis using blank c unfolding z
      by (simp add: xy_stdio_stroul_def stroul_prefix_def mem_load_def True)
  next
    case False
    have "digit_byte lower d \<noteq> 0x30"
      using d(2,4) False unat_digit_byte [OF d(2), of lower] by auto
    then have "stroul_prefix (num_text 10 lower v @ c # q) = Some (10, num_text 10 lower v @ c # q)"
      by (simp add: stroul_prefix_def mem_load_def num_text_def d(1))
    moreover have "stroul_loop 10 0 (num_text 10 lower v @ c # q) = Some (of_nat v, c # q)"
      using stroul_loop_digits [OF c(1), of "digits_of 10 v" 0 lower q] digits_of_value [of 10 v] digits_of_bound [of 10 _ v] v
      by (simp add: num_text_def)
    ultimately show ?thesis using blank by (simp add: xy_stdio_stroul_def)
  qed
qed

subsection \<open>Lines of a table\<close>

text \<open>A line \<open>%s %u\<close> with a line feed.\<close>

definition line_items :: "u8 list \<times> nat \<Rightarrow> print_item list" where
  "line_items = (\<lambda>(name, v). [Str 0 name, Text 0x20, Uns False 0 False v, Text 0x0A])"

definition table_items :: "(u8 list \<times> nat) list \<Rightarrow> print_item list" where
  "table_items rows = concat (map line_items rows)"

definition table_fmt :: "nat \<Rightarrow> u8 list" where
  "table_fmt n = concat (replicate n [0x25, 0x73, 0x20, 0x25, 0x75, 0x0A])"

definition row_ok :: "u8 list \<times> nat \<Rightarrow> bool" where
  "row_ok = (\<lambda>(name, v). name \<noteq> [] \<and> length name < 2 ^ 30 \<and> (\<forall>c \<in> set name. c \<noteq> 0 \<and> \<not> is_blank c) \<and> v < 2 ^ 32)"

text \<open>Where a line is read to, with the given room for its name, and the values stored.\<close>

definition row_dests :: "nat \<Rightarrow> scan_dest list" where "row_dests room = [DStr room, DInt]"

definition row_vals :: "u8 list \<times> nat \<Rightarrow> scan_val list" where
  "row_vals = (\<lambda>(name, v). [SStr name, SInt (sint (of_nat v :: u32))])"

lemma table_items_fmt: "items_fmt (table_items rows) = table_fmt (length rows)"
  by (induction rows)
    (auto simp: table_items_def table_fmt_def line_items_def items_fmt_def directive_def width_text_def)

lemma table_items_ok: "\<forall>row \<in> set rows. row_ok row \<Longrightarrow> \<forall>it \<in> set (table_items rows). item_ok it"
  by (fastforce simp: table_items_def line_items_def row_ok_def)

lemma table_text_Cons:
  "items_text (table_items ((name, v) # rows)) = name @ 0x20 # num_text 10 True v @ 0x0A # items_text (table_items rows)"
  by (simp add: table_items_def line_items_def items_text_def pad_left_def)

lemma scan_word_name:
  "\<forall>c \<in> set name. c \<noteq> 0 \<and> \<not> is_blank c \<Longrightarrow> scan_word (name @ 0x20 # q) = Some (name, 0x20 # q)"
  by (induction name) (simp_all add: is_blank_def)

lemma scan_row:
  assumes row: "row_ok (name, v)" and room: "length name < room"
    and st: "sc_ptr st = name @ 0x20 # num_text 10 True v @ 0x0A # q" "sc_dests st = row_dests room @ ds"
  shows "vsscanf_loop (0x25 # 0x73 # 0x20 # 0x25 # 0x75 # 0x0A # fmt) st
    = vsscanf_loop fmt (st\<lparr>sc_ptr := q, sc_dests := ds, sc_vals := sc_vals st @ row_vals (name, v), sc_conv := sc_conv st + 2\<rparr>)"
proof -
  obtain n ns where n: "name = n # ns" "n \<noteq> 0" "\<not> is_blank n" using row by (cases name) (auto simp: row_ok_def)
  have word: "scan_word (name @ 0x20 # r) = Some (name, 0x20 # r)" for r
    using row by (intro scan_word_name) (simp add: row_ok_def)
  obtain d es where d: "digits_of 10 v = d # es" "d < 10" using num_text_digits [of v] by auto
  let ?t = "num_text 10 True v @ 0x0A # q"
  have t: "skip_blanks ?t = Some ?t" "mem_load ?t 0 = Some (digit_byte True d)"
    using is_blank_digit [OF d(2)] by (simp_all add: num_text_def d(1) mem_load_def)
  have num: "xy_stdio_stroul (Some ?t) 10 = Some (of_nat v, Some (0x0A # q))"
    using row by (intro stroul_number) (simp_all add: row_ok_def stroul_digit_def)
  define s1 where "s1 = scan_store (SStr name) (DInt # ds) (0x20 # ?t) st"
  define s2 where "s2 = scan_store (SInt (sint (of_nat v :: u32))) ds (0x0A # q) (s1\<lparr>sc_ptr := ?t\<rparr>)"
  have 1: "vsscanf_loop (0x25 # 0x73 # f) st = vsscanf_loop f s1" for f
    using n room st word [of ?t] by (subst vsscanf_loop.simps)
      (simp add: scan_spec_def mem_load_def scan_conv_def scan_string_def row_dests_def s1_def scan_store_def)
  have 2: "vsscanf_loop (0x20 # f) s1 = vsscanf_loop f (s1\<lparr>sc_ptr := ?t\<rparr>)" for f
    using t(1) by (subst vsscanf_loop.simps) (simp add: is_blank_def s1_def scan_store_def)
  have 3: "vsscanf_loop (0x25 # 0x75 # f) (s1\<lparr>sc_ptr := ?t\<rparr>) = vsscanf_loop f s2" for f
    using t num digit_byte_dec [OF d(2), of True] by (subst vsscanf_loop.simps)
      (simp add: scan_spec_def mem_load_def scan_conv_def scan_number_def s1_def s2_def scan_store_def)
  have 4: "vsscanf_loop (0x0A # f) s2 = vsscanf_loop f (s2\<lparr>sc_ptr := q\<rparr>)" for f
    by (subst vsscanf_loop.simps) (simp add: is_blank_def s2_def scan_store_def mem_load_def)
  have "s2\<lparr>sc_ptr := q\<rparr> = st\<lparr>sc_ptr := q, sc_dests := ds, sc_vals := sc_vals st @ row_vals (name, v), sc_conv := sc_conv st + 2\<rparr>"
    by (simp add: s2_def s1_def scan_store_def row_vals_def)
  then show ?thesis by (simp only: 1 2 3 4)
qed

lemma scan_rows:
  "\<forall>row \<in> set rows. row_ok row \<and> length (fst row) < room \<Longrightarrow>
   sc_ptr st = items_text (table_items rows) @ q \<Longrightarrow> sc_dests st = concat (map (\<lambda>_. row_dests room) rows) \<Longrightarrow>
   \<exists>st'. vsscanf_loop (table_fmt (length rows) @ 0 # r) st = Some st' \<and> sc_vals st' = sc_vals st @ concat (map row_vals rows)
     \<and> sc_conv st' = sc_conv st + 2 * int (length rows)"
proof (induction rows arbitrary: st)
  case Nil
  then show ?case by (subst vsscanf_loop.simps) (simp add: table_fmt_def)
next
  case (Cons row rows)
  obtain name v where row: "row = (name, v)" by (cases row)
  let ?st = "st\<lparr>sc_ptr := items_text (table_items rows) @ q, sc_dests := concat (map (\<lambda>_. row_dests room) rows),
    sc_vals := sc_vals st @ row_vals row, sc_conv := sc_conv st + 2\<rparr>"
  have "vsscanf_loop (table_fmt (length (row # rows)) @ 0 # r) st = vsscanf_loop (table_fmt (length rows) @ 0 # r) ?st"
    using scan_row [of name v room st "items_text (table_items rows) @ q" "concat (map (\<lambda>_. row_dests room) rows)"
        "table_fmt (length rows) @ 0 # r"] Cons.prems
    by (simp add: row table_text_Cons table_fmt_def)
  then show ?case using Cons.IH [of ?st] Cons.prems(1) by auto
qed

text \<open>
  C40. Printing and scanning: a table of names and numbers printed line by line with \<open>%s %u\<close> by
  \<open>xy_stdio_sprintf\<close> is read back by \<open>xy_stdio_sscanf\<close> with the same format: two conversions for each line, the
  names in arrays with room for them, and the numbers as the integers of their bits.
\<close>
theorem printf_scanf_roundtrip:
  assumes "\<forall>row \<in> set rows. row_ok row \<and> length (fst row) < room"
    and "b + length (items_text (table_items rows)) < length mem" and "length (items_text (table_items rows)) < 2 ^ 31"
  shows "do {
      (n, m) \<leftarrow> xy_stdio_sprintf mem (Some b) (table_fmt (length rows) @ [0]) (items_args (table_items rows));
      xy_stdio_sscanf (Some (drop b m)) (Some (table_fmt (length rows) @ [0])) (concat (map (\<lambda>_. row_dests room) rows)) }
    = Some (2 * int (length rows), concat (map row_vals rows))"
proof -
  have ok: "\<forall>it \<in> set (table_items rows). item_ok it" using assms(1) by (intro table_items_ok) simp
  let ?m = "take b mem @ items_text (table_items rows) @ 0 # drop (b + length (items_text (table_items rows)) + 1) mem"
  have p: "xy_stdio_sprintf mem (Some b) (table_fmt (length rows) @ [0]) (items_args (table_items rows))
    = Some (int (length (items_text (table_items rows))), ?m)"
    using vsprintf_items [OF ok assms(2,3), of "[]" "[]"] by (simp add: table_items_fmt xy_stdio_sprintf_def)
  have b: "length (take b mem) = b" using assms(2) by simp
  have d: "drop b ?m = items_text (table_items rows) @ 0 # drop (b + length (items_text (table_items rows)) + 1) mem"
    using b by simp
  let ?st = "\<lparr>sc_ptr = drop b ?m, sc_dests = concat (map (\<lambda>_. row_dests room) rows), sc_vals = [], sc_conv = 0\<rparr>"
  obtain st' where "vsscanf_loop (table_fmt (length rows) @ [0]) ?st = Some st'"
    "sc_vals st' = concat (map row_vals rows)" "sc_conv st' = 2 * int (length rows)"
    using scan_rows [OF assms(1), of ?st _ "[]"] d by auto
  then have "xy_stdio_sscanf (Some (drop b ?m)) (Some (table_fmt (length rows) @ [0])) (concat (map (\<lambda>_. row_dests room) rows))
    = Some (2 * int (length rows), concat (map row_vals rows))"
    by (simp add: xy_stdio_sscanf_def xy_stdio_vsscanf_def)
  then show ?thesis by (simp add: p del: drop_append)
qed

text \<open>The lines \<open>a 7\<close> and \<open>bc 0\<close>.\<close>

lemma printf_scanf_roundtrip_witness:
  "do {
      (n, m) \<leftarrow> xy_stdio_sprintf (replicate 10 1) (Some 0) (table_fmt 2 @ [0])
         [VStr [0x61, 0], VInt 7, VStr [0x62, 0x63, 0], VInt 0];
      xy_stdio_sscanf (Some m) (Some (table_fmt 2 @ [0])) [DStr 3, DInt, DStr 3, DInt] }
    = Some (4, [SStr [0x61], SInt 7, SStr [0x62, 0x63], SInt 0])"
proof -
  let ?rows = "[([0x61], 7), ([0x62, 0x63], 0)] :: (u8 list \<times> nat) list"
  have d: "digits_of 10 7 = [7]" "digits_of 10 0 = [0]" by (simp_all add: digits_of_small)
  have t: "items_text (table_items ?rows) = [0x61, 0x20, 0x37, 0x0A, 0x62, 0x63, 0x20, 0x30, 0x0A]"
    by (simp add: table_text_Cons num_text_def d digit_byte_def) (simp add: table_items_def items_text_def)
  have a: "items_args (table_items ?rows) = [VStr [0x61, 0], VInt 7, VStr [0x62, 0x63, 0], VInt 0]"
    by (simp add: table_items_def line_items_def items_args_def)
  have "\<forall>row \<in> set ?rows. row_ok row \<and> length (fst row) < 3" by (simp add: row_ok_def is_blank_def)
  moreover have two: "length ?rows = 2" by simp
  ultimately show ?thesis
    using printf_scanf_roundtrip [of ?rows 3 0 "replicate 10 1"] unfolding t a two
    by (simp add: row_dests_def row_vals_def)
qed

text \<open>A negative number is read as zero and counted as a conversion.\<close>

lemma scan_negative_zero:
  "xy_stdio_sscanf (Some [0x2D, 0x35, 0]) (Some [0x25, 0x64, 0]) [DInt] = Some (1, [SInt 0])"
  by code_simp

text \<open>A suppressed conversion does not move on in the text.\<close>

lemma scan_suppress_stays:
  "xy_stdio_sscanf (Some [0x35, 0x20, 0x36, 0]) (Some [0x25, 0x2A, 0x64, 0x20, 0x25, 0x64, 0]) [DInt] = Some (1, [SInt 5])"
  by code_simp

end
