(* ===== verification/Xy_Encodings.thy ===== *)
theory Xy_Encodings
  imports Xy_Prelude
begin

text \<open>
  The text encodings of \<open>components/crypto/xy_hex/xy_hex.c\<close> and
  \<open>components/crypto/xy_base/xy_base64.c\<close>. Inputs and outputs are objects that start at the
  pointer; the lengths are the arguments of the functions, of the 32-bit type \<open>size_t\<close>. The result
  is the error code and the output object.
\<close>

datatype crypto_rc = CRYPTO_SUCCESS | CRYPTO_ERROR | CRYPTO_INVALID_PARAM | CRYPTO_BUFFER_TOO_SMALL

fun crypto_rc_code :: "crypto_rc \<Rightarrow> int" where
  "crypto_rc_code CRYPTO_SUCCESS = 0"
| "crypto_rc_code CRYPTO_ERROR = -1"
| "crypto_rc_code CRYPTO_INVALID_PARAM = -2"
| "crypto_rc_code CRYPTO_BUFFER_TOO_SMALL = -3"

subsection \<open>Hexadecimal\<close>

definition hex_chars :: "u8 list" where
  "hex_chars = map of_nat ([48..<58] @ [97..<103] @ [0])"

definition hex_char_to_value :: "u8 \<Rightarrow> int" where
  "hex_char_to_value c =
     (if c \<ge> 48 \<and> c \<le> 57 then uint c - 48
      else if c \<ge> 97 \<and> c \<le> 102 then uint c - 97 + 10
      else if c \<ge> 65 \<and> c \<le> 70 then uint c - 65 + 10
      else -1)"

definition xy_hex_encode_len :: "u32 \<Rightarrow> u32" where
  "xy_hex_encode_len input_len = input_len * 2 + 1"

definition xy_hex_decode_len :: "u32 \<Rightarrow> u32" where
  "xy_hex_decode_len input_len = input_len div 2"

fun hex_encode_loop :: "u8 list \<Rightarrow> nat list \<Rightarrow> u8 list \<Rightarrow> u8 list option" where
  "hex_encode_loop input [] output = Some output"
| "hex_encode_loop input (i # is) output = do {
     b \<leftarrow> mem_load input i;
     hi \<leftarrow> mem_load hex_chars (unat (drop_bit 4 b AND 0x0F));
     o1 \<leftarrow> mem_store output (i * 2) hi;
     lo \<leftarrow> mem_load hex_chars (unat (b AND 0x0F));
     o2 \<leftarrow> mem_store o1 (i * 2 + 1) lo;
     hex_encode_loop input is o2 }"

definition xy_hex_encode ::
  "u8 list option \<Rightarrow> u32 \<Rightarrow> u8 list option \<Rightarrow> u32 \<Rightarrow> (crypto_rc \<times> u8 list option) option" where
  "xy_hex_encode input input_len output output_len =
     (case (input, output) of
        (Some inp, Some out) \<Rightarrow>
          if output_len < xy_hex_encode_len input_len then Some (CRYPTO_BUFFER_TOO_SMALL, output)
          else do {
            o1 \<leftarrow> hex_encode_loop inp [0..<unat input_len] out;
            o2 \<leftarrow> mem_store o1 (unat (input_len * 2)) 0;
            Some (CRYPTO_SUCCESS, Some o2) }
      | _ \<Rightarrow> Some (CRYPTO_INVALID_PARAM, output))"

text \<open>The loop over \<open>i = 0, 2, ...\<close>, given as the list of the indices of the output.\<close>

fun hex_decode_loop :: "u8 list \<Rightarrow> nat list \<Rightarrow> u8 list \<Rightarrow> (crypto_rc \<times> u8 list) option" where
  "hex_decode_loop input [] output = Some (CRYPTO_SUCCESS, output)"
| "hex_decode_loop input (k # ks) output = do {
     c0 \<leftarrow> mem_load input (2 * k);
     c1 \<leftarrow> mem_load input (2 * k + 1);
     let high = hex_char_to_value c0;
     let low = hex_char_to_value c1;
     if high < 0 \<or> low < 0 then Some (CRYPTO_INVALID_PARAM, output)
     else do {
       o1 \<leftarrow> mem_store output k (push_bit 4 (word_of_int high) OR word_of_int low);
       hex_decode_loop input ks o1 } }"

definition xy_hex_decode ::
  "u8 list option \<Rightarrow> u32 \<Rightarrow> u8 list option \<Rightarrow> u32 \<Rightarrow> (crypto_rc \<times> u8 list option) option" where
  "xy_hex_decode input input_len output output_len =
     (case (input, output) of
        (Some inp, Some out) \<Rightarrow>
          if input_len mod 2 \<noteq> 0 then Some (CRYPTO_INVALID_PARAM, output)
          else if output_len < xy_hex_decode_len input_len then Some (CRYPTO_BUFFER_TOO_SMALL, output)
          else do {
            (rc, o1) \<leftarrow> hex_decode_loop inp [0..<unat input_len div 2] out;
            Some (rc, Some o1) }
      | _ \<Rightarrow> Some (CRYPTO_INVALID_PARAM, output))"

subsection \<open>Base 64\<close>

definition base64_chars :: "u8 list" where
  "base64_chars = map of_nat ([65..<91] @ [97..<123] @ [48..<58] @ [43, 47, 0])"

definition base64_char_to_index :: "u8 \<Rightarrow> int" where
  "base64_char_to_index c =
     (if c \<ge> 65 \<and> c \<le> 90 then uint c - 65
      else if c \<ge> 97 \<and> c \<le> 122 then uint c - 97 + 26
      else if c \<ge> 48 \<and> c \<le> 57 then uint c - 48 + 52
      else if c = 43 then 62
      else if c = 47 then 63
      else if c = 61 then -1
      else -2)"

definition xy_base64_encode_len :: "u32 \<Rightarrow> u32" where
  "xy_base64_encode_len input_len = ((input_len + 2) div 3) * 4 + 1"

definition xy_base64_decode_len :: "u32 \<Rightarrow> u32" where
  "xy_base64_decode_len input_len = (input_len div 4) * 3"

definition base64_char :: "u32 \<Rightarrow> u8 option" where
  "base64_char v = mem_load base64_chars (unat (v AND 0x3F))"

text \<open>The loop over \<open>i = 0, 3, ...\<close>, given as the list of the numbers of the groups.\<close>

fun base64_encode_loop ::
  "u8 list \<Rightarrow> nat \<Rightarrow> nat list \<Rightarrow> u8 list \<Rightarrow> nat \<Rightarrow> (u8 list \<times> nat) option" where
  "base64_encode_loop input input_len [] output output_pos = Some (output, output_pos)"
| "base64_encode_loop input input_len (g # gs) output output_pos = do {
     let i = 3 * g;
     b0 \<leftarrow> mem_load input i;
     b1 \<leftarrow> (if i + 1 < input_len then mem_load input (i + 1) else Some 0);
     b2 \<leftarrow> (if i + 2 < input_len then mem_load input (i + 2) else Some 0);
     let padding = (if i + 1 < input_len then 0 else 1 :: nat) + (if i + 2 < input_len then 0 else 1);
     let triple = push_bit 16 (ucast b0) OR push_bit 8 (ucast b1) OR ucast b2;
     c0 \<leftarrow> base64_char (drop_bit 18 triple);
     o1 \<leftarrow> mem_store output output_pos c0;
     c1 \<leftarrow> base64_char (drop_bit 12 triple);
     o2 \<leftarrow> mem_store o1 (output_pos + 1) c1;
     c2 \<leftarrow> (if padding \<ge> 2 then Some 61 else base64_char (drop_bit 6 triple));
     o3 \<leftarrow> mem_store o2 (output_pos + 2) c2;
     c3 \<leftarrow> (if padding \<ge> 1 then Some 61 else base64_char triple);
     o4 \<leftarrow> mem_store o3 (output_pos + 3) c3;
     base64_encode_loop input input_len gs o4 (output_pos + 4) }"

definition xy_base64_encode ::
  "u8 list option \<Rightarrow> u32 \<Rightarrow> u8 list option \<Rightarrow> u32 \<Rightarrow> (crypto_rc \<times> u8 list option) option" where
  "xy_base64_encode input input_len output output_len =
     (case (input, output) of
        (Some inp, Some out) \<Rightarrow>
          if output_len < xy_base64_encode_len input_len then Some (CRYPTO_BUFFER_TOO_SMALL, output)
          else do {
            (o1, pos) \<leftarrow> base64_encode_loop inp (unat input_len) [0..<(unat input_len + 2) div 3] out 0;
            o2 \<leftarrow> mem_store o1 pos 0;
            Some (CRYPTO_SUCCESS, Some o2) }
      | _ \<Rightarrow> Some (CRYPTO_INVALID_PARAM, output))"

text \<open>
  The four indices of a group and the number of padding characters; \<open>None\<close> inside is an invalid
  character.
\<close>

fun base64_indices :: "u8 list \<Rightarrow> nat \<Rightarrow> nat list \<Rightarrow> int list \<Rightarrow> nat \<Rightarrow> (int list \<times> nat) option option" where
  "base64_indices input i [] indices padding = Some (Some (indices, padding))"
| "base64_indices input i (j # js) indices padding = do {
     c \<leftarrow> mem_load input (i + j);
     let index = base64_char_to_index c;
     if index = -1 then base64_indices input i js (indices @ [0]) (padding + 1)
     else if index = -2 then Some None
     else base64_indices input i js (indices @ [index]) padding }"

text \<open>The indices are 0 to 63, so the shifts stay within \<open>int\<close> and the word operations agree.\<close>

definition base64_triple :: "int list \<Rightarrow> u32" where
  "base64_triple ix = push_bit 18 (word_of_int (ix ! 0)) OR push_bit 12 (word_of_int (ix ! 1))
     OR push_bit 6 (word_of_int (ix ! 2)) OR word_of_int (ix ! 3)"

fun base64_decode_loop ::
  "u8 list \<Rightarrow> nat list \<Rightarrow> u8 list \<Rightarrow> nat \<Rightarrow> (crypto_rc \<times> u8 list) option" where
  "base64_decode_loop input [] output output_pos = Some (CRYPTO_SUCCESS, output)"
| "base64_decode_loop input (g # gs) output output_pos = do {
     r \<leftarrow> base64_indices input (4 * g) [0, 1, 2, 3] [] 0;
     (case r of
        None \<Rightarrow> Some (CRYPTO_INVALID_PARAM, output)
      | Some (indices, padding) \<Rightarrow> do {
          let triple = base64_triple indices;
          o1 \<leftarrow> mem_store output output_pos (ucast (drop_bit 16 triple AND 0xFF));
          o2 \<leftarrow> (if padding < 2 then mem_store o1 (output_pos + 1) (ucast (drop_bit 8 triple AND 0xFF)) else Some o1);
          o3 \<leftarrow> (if padding < 1 then mem_store o2 (output_pos + 2) (ucast (triple AND 0xFF)) else Some o2);
          base64_decode_loop input gs o3
            (output_pos + 1 + (if padding < 2 then 1 else 0) + (if padding < 1 then 1 else 0)) }) }"

definition xy_base64_decode ::
  "u8 list option \<Rightarrow> u32 \<Rightarrow> u8 list option \<Rightarrow> u32 \<Rightarrow> (crypto_rc \<times> u8 list option) option" where
  "xy_base64_decode input input_len output output_len =
     (case (input, output) of
        (Some inp, Some out) \<Rightarrow>
          if input_len mod 4 \<noteq> 0 then Some (CRYPTO_INVALID_PARAM, output)
          else if output_len < xy_base64_decode_len input_len then Some (CRYPTO_BUFFER_TOO_SMALL, output)
          else do {
            (rc, o1) \<leftarrow> base64_decode_loop inp [0..<unat input_len div 4] out 0;
            Some (rc, Some o1) }
      | _ \<Rightarrow> Some (CRYPTO_INVALID_PARAM, output))"

end
