(* ===== verification/Xy_Encodings_Correct.thy ===== *)
theory Xy_Encodings_Correct
  imports Xy_Encodings Xy_String
begin

text \<open>
  The encodings write the text of the bytes, and decoding gives the bytes back: hexadecimal, also
  with the decoder of the string library, and base 64 with its padding.
\<close>

subsection \<open>Hexadecimal\<close>

definition hex_text :: "u8 list \<Rightarrow> u8 list" where
  "hex_text data = concat (map (\<lambda>b. [hex_chars ! unat (drop_bit 4 b), hex_chars ! unat (b AND 0x0F)]) data)"

lemma hex_text_simps [simp]:
  "hex_text [] = []"
  "hex_text (b # bs) = hex_chars ! unat (drop_bit 4 b) # hex_chars ! unat (b AND 0x0F) # hex_text bs"
  by (simp_all add: hex_text_def)

lemma length_hex_text [simp]: "length (hex_text data) = 2 * length data"
  by (induction data) simp_all

lemma hex_digit_table:
  "list_all (\<lambda>k. hex_char_to_value (hex_chars ! k) = int k \<and> hexstr_nibble (hex_chars ! k) = Some (of_nat k)
     \<and> hex_chars ! k \<noteq> 0) [0..<16]"
  by code_simp

lemma hex_digit:
  assumes "k < 16"
  shows "hex_char_to_value (hex_chars ! k) = int k" "hexstr_nibble (hex_chars ! k) = Some (of_nat k)"
    "hex_chars ! k \<noteq> 0"
  using hex_digit_table assms by (auto simp: list_all_iff)

lemma nibble_bounds: "unat (drop_bit 4 (b :: u8)) < 16" "unat (b AND 0x0F) < 16"
proof -
  have "unat b div 16 < 16" by (rule less_mult_imp_div_less) simp
  then show "unat (drop_bit 4 b) < 16" by (simp add: drop_bit_eq_div unat_div)
  have "b AND 0x0F = take_bit 4 b" by (simp add: take_bit_eq_mask mask_eq_exp_minus_1)
  then show "unat (b AND 0x0F) < 16" by (simp add: take_bit_eq_mod unat_mod_distrib)
qed

lemma drop_bit_nibble: "drop_bit 4 b AND 0x0F = drop_bit 4 (b :: u8)"
proof -
  have "drop_bit 4 b AND 0x0F = take_bit 4 (drop_bit 4 b)" by (simp add: take_bit_eq_mask mask_eq_exp_minus_1)
  also have "\<dots> = drop_bit 4 b"
    by (rule bit_word_eqI) (auto simp: bit_simps dest: bit_imp_le_length)
  finally show ?thesis .
qed

lemma upt_step: "[n..<n + length (b # bs)] = n # [Suc n..<Suc n + length bs]"
  by (simp del: upt_Suc add: upt_conv_Cons)

lemma nibbles_join: "push_bit 4 (drop_bit 4 b) OR (b AND 0x0F) = (b :: u8)"
proof -
  have "b AND 0x0F = take_bit 4 b" by (simp add: take_bit_eq_mask mask_eq_exp_minus_1)
  then show ?thesis using bits_ident [of 4 b] 
    by (simp add: disjunctive_add bit_simps)
qed

lemma hex_encode_loop_text:
  "length o1 = 2 * length pre \<Longrightarrow> 2 * length xs \<le> length o2 \<Longrightarrow>
   hex_encode_loop (pre @ xs @ post) [length pre..<length pre + length xs] (o1 @ o2)
     = Some (o1 @ hex_text xs @ drop (2 * length xs) o2)"
proof (induction xs arbitrary: pre o1 o2)
  case (Cons b bs)
  obtain x y o3 where o2: "o2 = x # y # o3" using Cons.prems(2) by (cases o2; cases "tl o2") auto
  let ?h = "hex_chars ! unat (drop_bit 4 b)" and ?l = "hex_chars ! unat (b AND 0x0F)"
  have ld: "mem_load hex_chars k = Some (hex_chars ! k)" if "k < 16" for k
    using that by (simp add: mem_load_def hex_chars_def)
  have hi: "drop_bit 4 b AND 0x0F = drop_bit 4 b"
    by (rule drop_bit_nibble)
  have "hex_encode_loop ((pre @ [b]) @ bs @ post) [length (pre @ [b])..<length (pre @ [b]) + length bs] ((o1 @ [?h, ?l]) @ o3)
      = Some ((o1 @ [?h, ?l]) @ hex_text bs @ drop (2 * length bs) o3)"
    using Cons.prems by (intro Cons.IH) (simp_all add: o2)
  moreover have "[length pre..<length pre + length (b # bs)] = length pre # [length (pre @ [b])..<length (pre @ [b]) + length bs]"
    using upt_step [of "length pre" b bs] by simp
  ultimately show ?case
    using Cons.prems(1) by (simp add: o2 mem_simps ld nibble_bounds hi list_update_append)
qed simp

lemma hex_text_load:
  "mem_load (hex_text pre @ hex_text (b # bs) @ post) (2 * length pre) = Some (hex_chars ! unat (drop_bit 4 b))"
  "mem_load (hex_text pre @ hex_text (b # bs) @ post) (2 * length pre + 1) = Some (hex_chars ! unat (b AND 0x0F))"
  by (simp_all add: mem_load_def nth_append)

lemma hex_text_snoc: "hex_text pre @ hex_text (b # bs) @ post = hex_text (pre @ [b]) @ hex_text bs @ post"
  by (simp add: hex_text_def)

lemma store_next: "length o1 = n \<Longrightarrow> mem_store (o1 @ x # o2) n v = Some ((o1 @ [v]) @ o2)"
  by (auto simp: mem_store_def list_update_append)

lemma hex_decode_loop_text:
  "length o1 = length pre \<Longrightarrow> length xs \<le> length o2 \<Longrightarrow>
   hex_decode_loop (hex_text pre @ hex_text xs @ post) [length pre..<length pre + length xs] (o1 @ o2)
     = Some (CRYPTO_SUCCESS, o1 @ xs @ drop (length xs) o2)"
proof (induction xs arbitrary: pre o1 o2)
  case (Cons b bs)
  obtain x o3 where o2: "o2 = x # o3" using Cons.prems(2) by (cases o2) auto
  let ?M = "hex_text pre @ hex_text (b # bs) @ post"
  have "hex_decode_loop ?M [Suc (length pre)..<Suc (length pre) + length bs] ((o1 @ [b]) @ o3)
      = Some (CRYPTO_SUCCESS, (o1 @ [b]) @ bs @ drop (length bs) o3)"
    using Cons.IH [of "o1 @ [b]" "pre @ [b]" o3] Cons.prems unfolding hex_text_snoc by (simp add: o2)
  then show ?case
    unfolding upt_step hex_decode_loop.simps hex_text_load o2
    by (simp add: hex_digit nibble_bounds nibbles_join store_next Cons.prems(1) del: hex_text_simps append_assoc)
qed simp

lemma hexstr_loop_text:
  "length o1 = length pre \<Longrightarrow> length xs = length o2 \<Longrightarrow>
   hexstr_loop (hex_text pre @ hex_text xs @ post) [length pre..<length pre + length xs] (o1 @ o2)
     = Some (Some (o1 @ xs))"
proof (induction xs arbitrary: pre o1 o2)
  case (Cons b bs)
  obtain x o3 where o2: "o2 = x # o3" using Cons.prems(2) by (cases o2) auto
  let ?M = "hex_text pre @ hex_text (b # bs) @ post"
  have "hexstr_loop ?M [Suc (length pre)..<Suc (length pre) + length bs] ((o1 @ [b]) @ o3)
      = Some (Some ((o1 @ [b]) @ bs))"
    using Cons.IH [of "o1 @ [b]" "pre @ [b]" o3] Cons.prems unfolding hex_text_snoc by (simp add: o2)
  then show ?case
    unfolding upt_step hexstr_loop.simps mult.commute [of _ 2] hex_text_load o2
    by (simp add: hex_digit nibble_bounds nibbles_join store_next Cons.prems(1) del: hex_text_simps append_assoc)
qed simp

lemma hex_text_nonzero: "0 \<notin> set (hex_text data)"
  by (induction data) (auto simp: hex_digit nibble_bounds dest: sym)

lemma xy_strlen_text: "0 \<notin> set s \<Longrightarrow> xy_strlen (s @ 0 # post) = Some (length s)"
  by (induction s) auto

text \<open>
  Into a buffer that is large enough \<open>xy_hex_encode\<close> writes two digits per byte and a zero, and
  leaves the rest of the buffer alone. Both decoders of the repository, \<open>xy_hex_decode\<close> and
  \<open>hexstr2bytes\<close> of the string library, turn this text back into exactly the bytes.
\<close>
theorem hex_roundtrip:
  assumes "2 * length data + 1 \<le> unat output_len" "unat output_len \<le> length out"
    and "length data \<le> length out2" "length out2 < 2 ^ 32"
    and "\<And>n. length (block n) = n"
  shows "xy_hex_encode (Some data) (of_nat (length data)) (Some out) output_len
      = Some (CRYPTO_SUCCESS, Some (hex_text data @ 0 # drop (2 * length data + 1) out))
    \<and> xy_hex_decode (Some (hex_text data)) (of_nat (2 * length data)) (Some out2) (of_nat (length out2))
      = Some (CRYPTO_SUCCESS, Some (data @ drop (length data) out2))
    \<and> (data \<noteq> [] \<longrightarrow> hexstr2bytes (\<lambda>n. Some (block n)) (Some (hex_text data @ 0 # drop (2 * length data + 1) out))
      = Some (Some data))"
proof (intro conjI impI)
  have u: "unat output_len < 2 ^ 32" using unsigned_less [of output_len] by simp
  then have len: "2 * length data + 1 < 2 ^ 32" using assms(1) by linarith
  have n: "unat (of_nat (length data) :: u32) = length data"
    "unat (of_nat (2 * length data) :: u32) = 2 * length data"
    "unat (of_nat (length data) * 2 :: u32) = 2 * length data"
    "unat (xy_hex_encode_len (of_nat (length data))) = 2 * length data + 1"
    using len by (simp_all add: unat_of_nat unat_word_ariths xy_hex_encode_len_def)
  have enc: "hex_encode_loop data [0..<length data] out = Some (hex_text data @ drop (2 * length data) out)"
    using hex_encode_loop_text [of "[]" "[]" data out "[]"] assms(1,2) by simp
  have "drop (2 * length data) out = out ! (2 * length data) # drop (2 * length data + 1) out"
    using assms(1,2) by (simp add: Cons_nth_drop_Suc)
  then have st: "mem_store (hex_text data @ drop (2 * length data) out) (2 * length data) 0
      = Some (hex_text data @ 0 # drop (2 * length data + 1) out)"
    using store_next [of "hex_text data" "2 * length data"] by simp
  have "\<not> output_len < xy_hex_encode_len (of_nat (length data))"
    using assms(1) n(4) by (simp add: word_less_nat_alt)
  then show "xy_hex_encode (Some data) (of_nat (length data)) (Some out) output_len
      = Some (CRYPTO_SUCCESS, Some (hex_text data @ 0 # drop (2 * length data + 1) out))"
    by (simp add: xy_hex_encode_def n enc st)
  have "hex_decode_loop (hex_text data) [0..<length data] out2 = Some (CRYPTO_SUCCESS, data @ drop (length data) out2)"
    using hex_decode_loop_text [of "[]" "[]" data out2 "[]"] assms(3) by simp
  moreover have "(of_nat (2 * length data) :: u32) mod 2 = 0"
  proof -
    have "unat ((of_nat (2 * length data) :: u32) mod 2) = 0" unfolding unat_mod_distrib n(2) by simp
    then show ?thesis by (simp only: unat_eq_zero)
  qed
  moreover have "\<not> (of_nat (length out2) :: u32) < xy_hex_decode_len (of_nat (2 * length data))"
  proof -
    have "unat (xy_hex_decode_len (of_nat (2 * length data))) = length data"
      unfolding xy_hex_decode_len_def unat_div_distrib n(2) by simp
    then show ?thesis using assms(3,4) by (simp add: word_less_nat_alt unat_of_nat)
  qed
  ultimately show "xy_hex_decode (Some (hex_text data)) (of_nat (2 * length data)) (Some out2) (of_nat (length out2))
      = Some (CRYPTO_SUCCESS, Some (data @ drop (length data) out2))"
    using n(2) by (simp add: xy_hex_decode_def del: of_nat_mult)
  assume "data \<noteq> []"
  moreover have "hexstr_loop (hex_text data @ 0 # drop (2 * length data + 1) out) [0..<length data] (block (length data))
      = Some (Some data)"
    using hexstr_loop_text [of "[]" "[]" data "block (length data)" "0 # drop (2 * length data + 1) out"] assms(5) by simp
  ultimately show "hexstr2bytes (\<lambda>n. Some (block n)) (Some (hex_text data @ 0 # drop (2 * length data + 1) out)) = Some (Some data)"
    using xy_strlen_text [OF hex_text_nonzero, of data "drop (2 * length data + 1) out"] by (simp add: hexstr2bytes_def)
qed

lemma hex_roundtrip_witness:
  "xy_hex_encode (Some [0xA5, 0x0F]) 2 (Some (replicate 6 7)) 6
    = Some (CRYPTO_SUCCESS, Some [97, 53, 48, 102, 0, 7])
   \<and> hexstr2bytes (\<lambda>n. Some (replicate n 0)) (Some [97, 53, 48, 102, 0, 7]) = Some (Some [0xA5, 0x0F])"
proof -
  have "hex_text [0xA5, 0x0F] = [97, 53, 48, 102]" by code_simp
  moreover have "drop 5 (replicate 6 7) = [7 :: u8]" by (simp add: numeral_eq_Suc)
  ultimately show ?thesis
    using hex_roundtrip [of "[0xA5, 0x0F]" 6 "replicate 6 7" "[0, 0]" "\<lambda>n. replicate n 0"] by simp
qed

subsection \<open>Base 64\<close>

text \<open>The text of RFC 4648, by the values of the six-bit groups.\<close>

definition rfc4648_alphabet :: string where
  "rfc4648_alphabet = ''ABCDEFGHIJKLMNOPQRSTUVWXYZabcdefghijklmnopqrstuvwxyz0123456789+/''"

definition b64_char :: "nat \<Rightarrow> u8" where "b64_char n = of_char (rfc4648_alphabet ! n)"

fun b64_text :: "u8 list \<Rightarrow> u8 list" where
  "b64_text [] = []"
| "b64_text [a] = [b64_char (unat a div 4), b64_char (unat a mod 4 * 16), 61, 61]"
| "b64_text [a, b] = [b64_char (unat a div 4), b64_char (unat a mod 4 * 16 + unat b div 16),
     b64_char (unat b mod 16 * 4), 61]"
| "b64_text (a # b # c # r) = [b64_char (unat a div 4), b64_char (unat a mod 4 * 16 + unat b div 16),
     b64_char (unat b mod 16 * 4 + unat c div 64), b64_char (unat c mod 64)] @ b64_text r"

lemma length_b64_text: "length (b64_text xs) = 4 * ((length xs + 2) div 3)"
proof (induction xs rule: b64_text.induct)
  case (4 a b c r)
  have "(5 + length r) div 3 = Suc ((length r + 2) div 3)" by presburger
  with 4 show ?case by simp
qed simp_all

lemma or_shift_add:
  fixes x y :: u32
  assumes "unat x < 2 ^ n" "unat y * 2 ^ n + unat x < 2 ^ 32"
  shows "unat (push_bit n y OR x) = unat y * 2 ^ n + unat x"
proof -
  have "unat (take_bit n x) = unat x" unfolding unsigned_take_bit_eq using assms(1) by (simp add: take_bit_nat_eq_self)
  then have "x = take_bit n x" by (metis unsigned_word_eqI)
  then have "push_bit n y + x = push_bit n y OR x"
    by (intro disjunctive_add) (metis bit_push_bit_iff bit_take_bit_iff not_less)
  moreover have "unat (push_bit n y) = unat y * 2 ^ n"
    unfolding unsigned_push_bit_eq using assms(2) by (simp add: push_bit_nat_def take_bit_nat_def)
  ultimately show ?thesis using assms(2) unat_add_no_wrap [of "push_bit n y" x] by simp
qed

text \<open>The code's table is the alphabet of the RFC.\<close>

lemma base64_chars_alphabet: "k < 64 \<Longrightarrow> base64_chars ! k = b64_char k"
proof -
  have "list_all (\<lambda>k. base64_chars ! k = b64_char k) [0..<64]" by code_simp
  then show "k < 64 \<Longrightarrow> base64_chars ! k = b64_char k" by (simp add: list_all_iff)
qed

lemma base64_char_eq: "base64_char v = Some (b64_char (unat v mod 64))"
proof -
  have "v AND 0x3F = take_bit 6 v" by (simp add: take_bit_eq_mask mask_eq_exp_minus_1)
  then have "unat (v AND 0x3F) = unat v mod 64" by (simp add: take_bit_eq_mod unat_mod_distrib)
  then show ?thesis
    using base64_chars_alphabet [of "unat v mod 64"]
    by (simp add: base64_char_def mem_load_def base64_chars_def)
qed

lemma base64_table:
  "list_all (\<lambda>k. base64_char_to_index (b64_char k) = int k) [0..<64]"
  by code_simp

lemma base64_index: "k < 64 \<Longrightarrow> base64_char_to_index (b64_char k) = int k"
  using base64_table by (auto simp: list_all_iff)

lemma triple_value:
  "unat (push_bit 16 (ucast a) OR push_bit 8 (ucast b) OR ucast c :: u32) = unat (a :: u8) * 65536 + unat (b :: u8) * 256 + unat (c :: u8)"
proof -
  have l: "unat a < 256" "unat b < 256" "unat c < 256" by simp_all
  have "unat (push_bit 8 (ucast b) OR ucast c :: u32) = unat b * 256 + unat c"
    using or_shift_add [of "ucast c" 8 "ucast b"] l by simp
  then show ?thesis using or_shift_add [of "push_bit 8 (ucast b) OR ucast c" 16 "ucast a"] l by simp
qed

lemma digit_of: "n = (h * 64 + s) * m + r \<Longrightarrow> r < m \<Longrightarrow> s < 64 \<Longrightarrow> n div m mod 64 = (s :: nat)"
  by simp

text \<open>A byte split at each of the three places where the groups cut it.\<close>

lemma splits:
  fixes a b c :: nat
  assumes "a < 256" "b < 256" "c < 256"
  obtains x y u v w z where "a = 4 * x + y" "a div 4 = x" "a mod 4 = y" "y < 4" "x < 64"
    "b = 16 * u + v" "b div 16 = u" "b mod 16 = v" "v < 16" "u < 16"
    "c = 64 * w + z" "c div 64 = w" "c mod 64 = z" "z < 64" "w < 4"
  using that [of "a div 4" "a mod 4" "b div 16" "b mod 16" "c div 64" "c mod 64"] assms
  by (simp add: less_mult_imp_div_less)

lemma sextets:
  assumes "a < 256" "b < 256" "c < (256 :: nat)"
  shows "(a * 65536 + b * 256 + c) div 262144 mod 64 = a div 4"
    "(a * 65536 + b * 256 + c) div 4096 mod 64 = a mod 4 * 16 + b div 16"
    "(a * 65536 + b * 256 + c) div 64 mod 64 = b mod 16 * 4 + c div 64"
    "(a * 65536 + b * 256 + c) mod 64 = c mod 64"
proof -
  obtain x y u v w z where s: "a = 4 * x + y" "a div 4 = x" "a mod 4 = y" "y < 4" "x < 64"
    "b = 16 * u + v" "b div 16 = u" "b mod 16 = v" "v < 16" "u < 16"
    "c = 64 * w + z" "c div 64 = w" "c mod 64 = z" "z < 64" "w < 4"
    using splits [OF assms] by metis
  show "(a * 65536 + b * 256 + c) div 262144 mod 64 = a div 4"
    unfolding s(2) by (rule digit_of [where h = 0 and r = "y * 65536 + b * 256 + c"]) ((use s in linarith) | (use s in \<open>simp add: algebra_simps\<close>))+
  show "(a * 65536 + b * 256 + c) div 4096 mod 64 = a mod 4 * 16 + b div 16"
    unfolding s(3,7) by (rule digit_of [where h = x and r = "v * 256 + c"]) ((use s in linarith) | (use s in \<open>simp add: algebra_simps\<close>))+
  show "(a * 65536 + b * 256 + c) div 64 mod 64 = b mod 16 * 4 + c div 64"
    unfolding s(8,12) by (rule digit_of [where h = "a * 16 + u" and r = z]) ((use s in linarith) | (use s in \<open>simp add: algebra_simps\<close>))+
  have "(a * 65536 + b * 256 + c) div 1 mod 64 = z"
    by (rule digit_of [where h = "a * 1024 + b * 4 + w" and r = 0]) (use s in \<open>simp_all add: algebra_simps\<close>)
  then show "(a * 65536 + b * 256 + c) mod 64 = c mod 64" by (simp add: s(13))
qed

lemma bytes_of:
  assumes "a < 256" "b < 256" "c < (256 :: nat)"
  shows "(a * 65536 + b * 256 + c) div 65536 mod 256 = a"
    "(a * 65536 + b * 256 + c) div 256 mod 256 = b"
    "(a * 65536 + b * 256 + c) mod 256 = c"
proof -
  have "(a * 65536 + b * 256 + c) div 65536 = a" using assms by (intro div_nat_eqI) simp_all
  then show "(a * 65536 + b * 256 + c) div 65536 mod 256 = a" using assms by simp
  have "(a * 65536 + b * 256 + c) div 256 = a * 256 + b" using assms by (intro div_nat_eqI) simp_all
  then show "(a * 65536 + b * 256 + c) div 256 mod 256 = b" using assms by simp
  have "a * 65536 + b * 256 + c = (a * 256 + b) * 256 + c" by simp
  then show "(a * 65536 + b * 256 + c) mod 256 = c" using assms(3) by (metis mod_less mod_mult_self3)
qed

lemma unsextets:
  assumes "a < 256" "b < 256" "c < (256 :: nat)"
  shows "a div 4 * 262144 + (a mod 4 * 16 + b div 16) * 4096 + (b mod 16 * 4 + c div 64) * 64 + c mod 64
    = a * 65536 + b * 256 + c"
proof -
  obtain x y u v w z where s: "a = 4 * x + y" "a div 4 = x" "a mod 4 = y" "b = 16 * u + v" "b div 16 = u" "b mod 16 = v"
    "c = 64 * w + z" "c div 64 = w" "c mod 64 = z"
    using splits [OF assms] by metis
  show ?thesis unfolding s(2,3,5,6,8,9) using s(1,4,7) by (simp add: algebra_simps)
qed

text \<open>One group of the encoder: what it stores, by the padding.\<close>

lemma store_four:
  assumes "length o1 = n"
  shows "mem_store (o1 @ x0 # x1 # x2 # x3 # o2) n c0 = Some (o1 @ c0 # x1 # x2 # x3 # o2)"
    "mem_store (o1 @ c0 # x1 # x2 # x3 # o2) (Suc n) c1 = Some (o1 @ c0 # c1 # x2 # x3 # o2)"
    "mem_store (o1 @ c0 # c1 # x2 # x3 # o2) (n + 2) c2 = Some (o1 @ c0 # c1 # c2 # x3 # o2)"
    "mem_store (o1 @ c0 # c1 # c2 # x3 # o2) (n + 3) c3 = Some (o1 @ c0 # c1 # c2 # c3 # o2)"
  using assms by (auto simp: mem_store_def list_update_append numeral_eq_Suc)

lemma split_four: "4 \<le> length o2 \<Longrightarrow> \<exists>x0 x1 x2 x3 o3. o2 = x0 # x1 # x2 # x3 # o3"
  by (metis (no_types) Suc_le_length_iff numeral_eq_Suc pred_numeral_simps(2) pred_numeral_simps(3) semiring_norm(26,27,28) pred_numeral_simps(1) numeral_One One_nat_def)

lemma base64_chars_of:
  "base64_char (drop_bit 18 v) = Some (b64_char (unat v div 262144 mod 64))"
  "base64_char (drop_bit 12 v) = Some (b64_char (unat v div 4096 mod 64))"
  "base64_char (drop_bit 6 v) = Some (b64_char (unat v div 64 mod 64))"
  "base64_char v = Some (b64_char (unat v mod 64))"
  by (simp_all add: base64_char_eq drop_bit_eq_div unat_div)

lemma base64_encode_group:
  fixes a b c :: u8
  defines "v \<equiv> push_bit 16 (ucast a) OR push_bit 8 (ucast b) OR ucast c :: u32"
  shows "base64_char (drop_bit 18 v) = Some (b64_char (unat a div 4))"
    "base64_char (drop_bit 12 v) = Some (b64_char (unat a mod 4 * 16 + unat b div 16))"
    "base64_char (drop_bit 6 v) = Some (b64_char (unat b mod 16 * 4 + unat c div 64))"
    "base64_char v = Some (b64_char (unat c mod 64))"
  unfolding base64_chars_of [of v] unfolding v_def triple_value using sextets [of "unat a" "unat b" "unat c"] by simp_all

lemma groups_step: "[k..<k + (n + 5) div 3] = k # [Suc k..<Suc k + (n + 2) div 3]"
proof -
  have "(n + 5) div 3 = Suc ((n + 2) div 3)" by presburger
  then show ?thesis by (simp del: upt_Suc add: upt_conv_Cons)
qed

lemma base64_encode_loop_text:
  "length pre = 3 * k \<Longrightarrow> length o1 = p \<Longrightarrow> length (b64_text xs) \<le> length o2 \<Longrightarrow>
   base64_encode_loop (pre @ xs) (length pre + length xs) [k..<k + (length xs + 2) div 3] (o1 @ o2) p
     = Some (o1 @ b64_text xs @ drop (length (b64_text xs)) o2, p + length (b64_text xs))"
proof (induction xs arbitrary: pre k o1 o2 p rule: b64_text.induct)
  case (2 a)
  then obtain x0 x1 x2 x3 o3 where o2: "o2 = x0 # x1 # x2 # x3 # o3" using split_four [of o2] by auto
  have "[k..<k + (length [a] + 2) div 3] = [k]" by simp
  then show ?case
    using 2 base64_encode_group [of a 0 0] by (simp add: o2 mem_load_def nth_append Let_def store_four del: add_2_eq_Suc' add_2_eq_Suc)
next
  case (3 a b)
  then obtain x0 x1 x2 x3 o3 where o2: "o2 = x0 # x1 # x2 # x3 # o3" using split_four [of o2] by auto
  have "[k..<k + (length [a, b] + 2) div 3] = [k]" by simp
  then show ?case
    using 3 base64_encode_group [of a b 0] by (simp add: o2 mem_load_def nth_append Let_def store_four del: add_2_eq_Suc' add_2_eq_Suc)
next
  case (4 a b c r)
  obtain x0 x1 x2 x3 o3 where o2: "o2 = x0 # x1 # x2 # x3 # o3" using 4(4) split_four [of o2] by auto
  let ?cs = "[b64_char (unat a div 4), b64_char (unat a mod 4 * 16 + unat b div 16),
     b64_char (unat b mod 16 * 4 + unat c div 64), b64_char (unat c mod 64)]"
  have "base64_encode_loop ((pre @ [a, b, c]) @ r) (length (pre @ [a, b, c]) + length r) [Suc k..<Suc k + (length r + 2) div 3]
      ((o1 @ ?cs) @ o3) (p + 4)
    = Some ((o1 @ ?cs) @ b64_text r @ drop (length (b64_text r)) o3, p + 4 + length (b64_text r))"
    using 4(2-4) by (intro 4(1)) (simp_all add: o2)
  moreover have up: "[k..<k + (length (a # b # c # r) + 2) div 3] = k # [Suc k..<Suc k + (length r + 2) div 3]"
    using groups_step [of k "length r"] by (simp del: upt_Suc add: add.commute)
  ultimately show ?case
    unfolding up using 4(2-4) base64_encode_group [of a b c]
    by (simp del: upt_Suc add: o2 mem_load_def nth_append Let_def store_four del: add_2_eq_Suc' add_2_eq_Suc)
qed simp

lemma base64_triple_value:
  assumes "p < 64" "q < 64" "r < 64" "s < 64"
  shows "unat (base64_triple [int p, int q, int r, int s]) = p * 262144 + q * 4096 + r * 64 + s"
proof -
  have u: "unat (of_nat n :: u32) = n" if "n < 64" for n using that by (intro unat_of_nat_u32) simp
  have "unat (push_bit 6 (of_nat r) OR of_nat s :: u32) = r * 64 + s"
    using or_shift_add [of "of_nat s" 6 "of_nat r"] assms u by simp
  then have "unat (push_bit 12 (of_nat q) OR push_bit 6 (of_nat r) OR of_nat s :: u32) = q * 4096 + (r * 64 + s)"
    using or_shift_add [of "push_bit 6 (of_nat r) OR of_nat s" 12 "of_nat q"] assms u by simp
  then have "unat (push_bit 18 (of_nat p) OR push_bit 12 (of_nat q) OR push_bit 6 (of_nat r) OR of_nat s :: u32)
      = p * 262144 + (q * 4096 + (r * 64 + s))"
    using or_shift_add [of "push_bit 12 (of_nat q) OR push_bit 6 (of_nat r) OR of_nat s" 18 "of_nat p"] assms u by simp
  then show ?thesis by (simp add: base64_triple_def)
qed

lemma ucast_byte: "unat (ucast (w AND 0xFF :: u32) :: u8) = unat w mod 256"
proof -
  have "w AND 0xFF = take_bit 8 w" by (simp add: take_bit_eq_mask mask_eq_exp_minus_1)
  then show ?thesis by (simp add: unsigned_ucast_eq take_bit_eq_mod unat_mod_distrib)
qed

lemma base64_bytes:
  fixes t :: u32 and a b c :: u8
  assumes "unat t = unat a * 65536 + unat b * 256 + unat c"
  shows "ucast (drop_bit 16 t AND 0xFF) = (a :: u8)" "ucast (drop_bit 8 t AND 0xFF) = (b :: u8)"
    "ucast (t AND 0xFF) = (c :: u8)"
proof -
  note b = bytes_of [OF unat_u8_less [of a] unat_u8_less [of b] unat_u8_less [of c]]
  have "unat (ucast (drop_bit 16 t AND 0xFF) :: u8) = unat a"
    unfolding ucast_byte drop_bit_eq_div unat_div by (simp add: assms b(1))
  then show "ucast (drop_bit 16 t AND 0xFF) = a" by (rule unsigned_word_eqI)
  have "unat (ucast (drop_bit 8 t AND 0xFF) :: u8) = unat b"
    unfolding ucast_byte drop_bit_eq_div unat_div by (simp add: assms b(2))
  then show "ucast (drop_bit 8 t AND 0xFF) = b" by (rule unsigned_word_eqI)
  have "unat (ucast (t AND 0xFF) :: u8) = unat c"
    unfolding ucast_byte by (simp add: assms b(3))
  then show "ucast (t AND 0xFF) = c" by (rule unsigned_word_eqI)
qed

text \<open>The indices of a group, by its padding.\<close>

lemma base64_indices_group:
  assumes "mem_load M (4 * g) = Some (b64_char p)" "mem_load M (4 * g + 1) = Some (b64_char q)"
    and "mem_load M (4 * g + 2) = Some c2" "mem_load M (4 * g + 3) = Some c3" "p < 64" "q < 64"
  shows "c2 = b64_char r \<Longrightarrow> c3 = b64_char s \<Longrightarrow> r < 64 \<Longrightarrow> s < 64 \<Longrightarrow>
      base64_indices M (4 * g) [0, 1, 2, 3] [] 0 = Some (Some ([int p, int q, int r, int s], 0))"
    "c2 = b64_char r \<Longrightarrow> c3 = 61 \<Longrightarrow> r < 64 \<Longrightarrow>
      base64_indices M (4 * g) [0, 1, 2, 3] [] 0 = Some (Some ([int p, int q, int r, int 0], 1))"
    "c2 = 61 \<Longrightarrow> c3 = 61 \<Longrightarrow>
      base64_indices M (4 * g) [0, 1, 2, 3] [] 0 = Some (Some ([int p, int q, int 0, int 0], 2))"
proof -
  have pad: "base64_char_to_index 61 = -1" by (simp add: base64_char_to_index_def)
  have ne: "int k \<noteq> -1" "int k \<noteq> -2" for k by simp_all
  show "c2 = b64_char r \<Longrightarrow> c3 = b64_char s \<Longrightarrow> r < 64 \<Longrightarrow> s < 64 \<Longrightarrow>
      base64_indices M (4 * g) [0, 1, 2, 3] [] 0 = Some (Some ([int p, int q, int r, int s], 0))"
    using assms by (simp add: base64_index ne Let_def)
  show "c2 = b64_char r \<Longrightarrow> c3 = 61 \<Longrightarrow> r < 64 \<Longrightarrow>
      base64_indices M (4 * g) [0, 1, 2, 3] [] 0 = Some (Some ([int p, int q, int r, int 0], 1))"
    using assms by (simp add: base64_index ne pad Let_def)
  show "c2 = 61 \<Longrightarrow> c3 = 61 \<Longrightarrow>
      base64_indices M (4 * g) [0, 1, 2, 3] [] 0 = Some (Some ([int p, int q, int 0, int 0], 2))"
    using assms by (simp add: base64_index ne pad Let_def)
qed

lemma load_four:
  assumes "length pre = 4 * g"
  shows "mem_load (pre @ c0 # c1 # c2 # c3 # post) (4 * g) = Some c0"
    "mem_load (pre @ c0 # c1 # c2 # c3 # post) (4 * g + 1) = Some c1"
    "mem_load (pre @ c0 # c1 # c2 # c3 # post) (4 * g + 2) = Some c2"
    "mem_load (pre @ c0 # c1 # c2 # c3 # post) (4 * g + 3) = Some c3"
  using assms by (auto simp: mem_load_def nth_append numeral_eq_Suc)

lemma sextet_bounds:
  fixes a b c :: u8
  shows "unat a div 4 < 64" "unat a mod 4 * 16 + unat b div 16 < 64" "unat a mod 4 * 16 < 64"
    "unat b mod 16 * 4 + unat c div 64 < 64" "unat b mod 16 * 4 < 64" "unat c mod 64 < 64"
proof -
  obtain x y u v w z where s: "unat a div 4 = x" "unat a mod 4 = y" "y < 4" "x < 64"
    "unat b div 16 = u" "unat b mod 16 = v" "v < 16" "u < 16"
    "unat c div 64 = w" "unat c mod 64 = z" "z < 64" "w < 4"
    using splits [OF unat_u8_less [of a] unat_u8_less [of b] unat_u8_less [of c]] by metis
  show "unat a div 4 < 64" "unat a mod 4 * 16 + unat b div 16 < 64" "unat a mod 4 * 16 < 64"
    "unat b mod 16 * 4 + unat c div 64 < 64" "unat b mod 16 * 4 < 64" "unat c mod 64 < 64"
    using s by simp_all
qed

lemma base64_decode_loop_text:
  "length pre = 4 * g \<Longrightarrow> length o1 = p \<Longrightarrow> length xs \<le> length o2 \<Longrightarrow>
   base64_decode_loop (pre @ b64_text xs) [g..<g + (length xs + 2) div 3] (o1 @ o2) p
     = Some (CRYPTO_SUCCESS, o1 @ xs @ drop (length xs) o2)"
proof (induction xs arbitrary: pre g o1 o2 p rule: b64_text.induct)
  case (2 a)
  obtain x o3 where o2: "o2 = x # o3" using 2(3) by (cases o2) auto
  have ix: "base64_indices (pre @ b64_text [a]) (4 * g) [0, 1, 2, 3] [] 0
      = Some (Some ([int (unat a div 4), int (unat a mod 4 * 16), int 0, int 0], 2))"
    unfolding b64_text.simps
    by (rule base64_indices_group(3) [OF load_four [OF 2(1)] sextet_bounds(1) sextet_bounds(3)]) simp_all
  have "unat (base64_triple [int (unat a div 4), int (unat a mod 4 * 16), int 0, int 0])
      = unat a * 65536 + unat (0 :: u8) * 256 + unat (0 :: u8)"
    using base64_triple_value [OF sextet_bounds(1) sextet_bounds(3), of 0 0 a a] unsextets [of "unat a" 0 0] by simp
  note bts = base64_bytes [OF this]
  have up: "[g..<g + (length [a] + 2) div 3] = [g]" by simp
  show ?case
    unfolding up base64_decode_loop.simps ix Option.bind.bind_lunit option.case prod.case Let_def bts
    using 2(2) by (simp add: o2 store_next)
next
  case (3 a b)
  obtain x y o3 where o2: "o2 = x # y # o3" using 3(3) by (cases o2; cases "tl o2") auto
  have ix: "base64_indices (pre @ b64_text [a, b]) (4 * g) [0, 1, 2, 3] [] 0
      = Some (Some ([int (unat a div 4), int (unat a mod 4 * 16 + unat b div 16), int (unat b mod 16 * 4), int 0], 1))"
    unfolding b64_text.simps
    by (rule base64_indices_group(2) [OF load_four [OF 3(1)] sextet_bounds(1) sextet_bounds(2)]) (simp_all add: sextet_bounds)
  have "unat (base64_triple [int (unat a div 4), int (unat a mod 4 * 16 + unat b div 16), int (unat b mod 16 * 4), int 0])
      = unat a * 65536 + unat b * 256 + unat (0 :: u8)"
    using base64_triple_value [OF sextet_bounds(1) sextet_bounds(2) sextet_bounds(5), of 0 a a b b]
      unsextets [of "unat a" "unat b" 0] by simp
  note bts = base64_bytes [OF this]
  have up: "[g..<g + (length [a, b] + 2) div 3] = [g]" by simp
  show ?case
    unfolding up base64_decode_loop.simps ix Option.bind.bind_lunit option.case prod.case Let_def bts
    using 3(2) store_next [of "o1 @ [a]" "p + 1" y o3 b] by (simp add: o2 store_next)
next
  case (4 a b c r)
  obtain x y z o3 where o2: "o2 = x # y # z # o3" using 4(4) by (cases o2; cases "tl o2"; cases "tl (tl o2)") auto
  have ix: "base64_indices (pre @ b64_text (a # b # c # r)) (4 * g) [0, 1, 2, 3] [] 0
      = Some (Some ([int (unat a div 4), int (unat a mod 4 * 16 + unat b div 16),
          int (unat b mod 16 * 4 + unat c div 64), int (unat c mod 64)], 0))"
    unfolding b64_text.simps append_Cons append_Nil
    by (rule base64_indices_group(1) [OF load_four [OF 4(2)] sextet_bounds(1) sextet_bounds(2)]) (simp_all add: sextet_bounds)
  have "unat (base64_triple [int (unat a div 4), int (unat a mod 4 * 16 + unat b div 16),
          int (unat b mod 16 * 4 + unat c div 64), int (unat c mod 64)])
      = unat a * 65536 + unat b * 256 + unat c"
    using base64_triple_value [OF sextet_bounds(1) sextet_bounds(2) sextet_bounds(4) sextet_bounds(6), of a a b b c c]
      unsextets [of "unat a" "unat b" "unat c"] by simp
  note bts = base64_bytes [OF this]
  have "base64_decode_loop ((pre @ take 4 (b64_text (a # b # c # r))) @ b64_text r) [Suc g..<Suc g + (length r + 2) div 3]
      ((o1 @ [a, b, c]) @ o3) (p + 3) = Some (CRYPTO_SUCCESS, (o1 @ [a, b, c]) @ r @ drop (length r) o3)"
    using 4(2-4) by (intro 4(1)) (simp_all add: o2)
  then have rest: "base64_decode_loop (pre @ b64_text (a # b # c # r)) [Suc g..<Suc g + (length r + 2) div 3]
      (o1 @ [a, b, c] @ o3) (p + 3) = Some (CRYPTO_SUCCESS, o1 @ (a # b # c # r) @ drop (length (a # b # c # r)) o2)"
    by (simp add: o2 del: upt_Suc)
  have up: "[g..<g + (length (a # b # c # r) + 2) div 3] = g # [Suc g..<Suc g + (length r + 2) div 3]"
    using groups_step [of g "length r"] by (simp del: upt_Suc add: add.commute)
  have st: "mem_store (o1 @ x # y # z # o3) p a = Some (o1 @ a # y # z # o3)"
    "mem_store (o1 @ a # y # z # o3) (p + 1) b = Some (o1 @ a # b # z # o3)"
    "mem_store (o1 @ a # b # z # o3) (p + 2) c = Some (o1 @ a # b # c # o3)"
    using 4(3) by (auto simp: mem_store_def list_update_append numeral_eq_Suc)
  have p3: "p + 3 = Suc (Suc (Suc p))" by simp
  show ?case
    unfolding up base64_decode_loop.simps ix Option.bind.bind_lunit option.case prod.case Let_def bts
    using rest [unfolded p3] st by (simp add: o2 del: upt_Suc b64_text.simps)
qed simp

text \<open>
  C17. For fewer than \<open>2 ^ 31\<close> bytes: into a buffer of at least \<open>xy_base64_encode_len\<close> bytes \<open>xy_base64_encode\<close> writes exactly the
  text of RFC 4648 with its padding and a zero, and \<open>xy_base64_decode\<close> turns this text back into
  exactly the bytes, into any buffer of at least \<open>xy_base64_decode_len\<close> bytes; both refuse a
  smaller buffer and leave it untouched.
\<close>
theorem base64_roundtrip:
  assumes "length data < 2 ^ 31" "unat output_len \<le> length out"
    and "unat output_len2 \<le> length out2"
  shows "xy_base64_encode (Some data) (of_nat (length data)) (Some out) output_len
      = Some (if unat output_len < length (b64_text data) + 1 then (CRYPTO_BUFFER_TOO_SMALL, Some out)
        else (CRYPTO_SUCCESS, Some (b64_text data @ 0 # drop (length (b64_text data) + 1) out)))
    \<and> xy_base64_decode (Some (b64_text data)) (of_nat (length (b64_text data))) (Some out2) output_len2
      = Some (if unat output_len2 < length (b64_text data) div 4 * 3
        then (CRYPTO_BUFFER_TOO_SMALL, Some out2)
        else (CRYPTO_SUCCESS, Some (data @ drop (length data) out2)))"
proof
  let ?l = "length (b64_text data)"
  have l4: "?l = 4 * ((length data + 2) div 3)" by (rule length_b64_text)
  have d3: "(length data + 2) div 3 * 3 \<le> length data + 2" by (rule div_times_less_eq_dividend)
  have big: "?l + 1 < 2 ^ 32" "length data \<le> (length data + 2) div 3 * 3"
    using assms(1) l4 d3 by simp presburger+
  have n: "unat (of_nat (length data) :: u32) = length data" "unat (of_nat ?l :: u32) = ?l"
    using assms(1) big(1) by (simp_all add: unat_of_nat)
  have el: "unat (xy_base64_encode_len (of_nat (length data))) = ?l + 1"
  proof -
    have "unat (of_nat (length data) + 2 :: u32) = length data + 2"
      using n(1) assms(1) by (simp add: unat_word_ariths)
    then have "unat ((of_nat (length data) + 2 :: u32) div 3) = (length data + 2) div 3"
      by (simp add: unat_div_distrib)
    then show ?thesis using big(1) unfolding xy_base64_encode_len_def l4
      by (simp add: unat_word_ariths mult.commute)
  qed
  have enc: "base64_encode_loop data (length data) [0..<(length data + 2) div 3] out 0
      = Some (b64_text data @ drop ?l out, ?l)" if "?l \<le> length out"
    using base64_encode_loop_text [of "[]" 0 "[]" 0 data out] that by simp
  show "xy_base64_encode (Some data) (of_nat (length data)) (Some out) output_len
      = Some (if unat output_len < ?l + 1 then (CRYPTO_BUFFER_TOO_SMALL, Some out)
        else (CRYPTO_SUCCESS, Some (b64_text data @ 0 # drop (?l + 1) out)))"
  proof (cases "unat output_len < ?l + 1")
    case False
    then have lt: "?l < length out" using assms(2) by linarith
    then have "drop ?l out = out ! ?l # drop (?l + 1) out" by (simp add: Cons_nth_drop_Suc)
    then have "mem_store (b64_text data @ drop ?l out) ?l 0 = Some (b64_text data @ 0 # drop (?l + 1) out)"
      using store_next [of "b64_text data" ?l] by simp
    then show ?thesis using False enc lt el n(1) by (simp add: xy_base64_encode_def word_less_nat_alt)
  qed (simp add: xy_base64_encode_def word_less_nat_alt el)
  have dec: "base64_decode_loop (b64_text data) [0..<(length data + 2) div 3] out2 0
      = Some (CRYPTO_SUCCESS, data @ drop (length data) out2)" if "?l div 4 * 3 \<le> length out2"
    using base64_decode_loop_text [of "[]" 0 "[]" 0 data out2] that big(2) l4 by simp
  have m4: "(of_nat ?l :: u32) mod 4 = 0"
  proof -
    have "unat ((of_nat ?l :: u32) mod 4) = 0" unfolding unat_mod_distrib n(2) by (simp add: l4)
    then show ?thesis by (simp only: unat_eq_zero)
  qed
  have dl: "unat (xy_base64_decode_len (of_nat ?l)) = ?l div 4 * 3"
  proof -
    have "unat ((of_nat ?l :: u32) div 4) = ?l div 4" unfolding unat_div_distrib n(2) by simp
    then show ?thesis
      using big(1) unfolding xy_base64_decode_len_def by (simp add: unat_word_ariths l4)
  qed
  show "xy_base64_decode (Some (b64_text data)) (of_nat ?l) (Some out2) output_len2
      = Some (if unat output_len2 < ?l div 4 * 3 then (CRYPTO_BUFFER_TOO_SMALL, Some out2)
        else (CRYPTO_SUCCESS, Some (data @ drop (length data) out2)))"
  proof (cases "unat output_len2 < ?l div 4 * 3")
    case True
    then show ?thesis using m4 dl by (simp add: xy_base64_decode_def word_less_nat_alt)
  next
    case False
    then have "?l div 4 * 3 \<le> length out2" using assms(3) by linarith
    then show ?thesis
      using False dec m4 dl n(2) l4 by (simp add: xy_base64_decode_def word_less_nat_alt)
  qed
qed

text \<open>The string \<open>fooba\<close>, from the test vectors of RFC 4648.\<close>

lemma base64_roundtrip_witness:
  "xy_base64_encode (Some [102, 111, 111, 98, 97]) 5 (Some (replicate 9 0)) 9
    = Some (CRYPTO_SUCCESS, Some [90, 109, 57, 118, 89, 109, 69, 61, 0])
   \<and> xy_base64_decode (Some [90, 109, 57, 118, 89, 109, 69, 61]) 8 (Some (replicate 6 0)) 6
    = Some (CRYPTO_SUCCESS, Some [102, 111, 111, 98, 97, 0])"
proof -
  have "b64_text [102, 111, 111, 98, 97] = [90, 109, 57, 118, 89, 109, 69, 61]" by code_simp
  moreover have "drop 9 (replicate 9 0) = ([] :: u8 list)" "drop 5 (replicate 6 0) = [0 :: u8]" by (simp_all add: numeral_eq_Suc)
  ultimately show ?thesis
    using base64_roundtrip [of "[102, 111, 111, 98, 97]" 9 "replicate 9 0" 6 "replicate 6 0"] by simp
qed

end
