(* ===== verification/Xy_Hash.thy ===== *)
theory Xy_Hash
  imports Xy_Encodings
begin

text \<open>
  The hash functions of \<open>components/crypto/xy_hmac/xy_sha256.c\<close> and
  \<open>components/crypto/xy_md/xy_md5.c\<close> and the keyed hash of \<open>components/crypto/xy_hmac/xy_hmac.c\<close>.

  \<open>xy_sha256_ctx_t\<close> and \<open>xy_md5_ctx_t\<close> have the same fields, with 8 and 4 words of state, and one
  record models both; its arrays have the lengths of the C type. The loop of the two update
  functions and the padding of the two final functions are the same text up to the transformation
  and the order of the length bytes, which are parameters.
\<close>

record hash_ctx =
  hc_state :: "u32 list"
  hc_count :: u64
  hc_buffer :: "u8 list"

definition HASH_BLOCK_SIZE :: nat where "HASH_BLOCK_SIZE = 64"

subsection \<open>SHA-256\<close>

definition sha256_k :: "u32 list" where
  "sha256_k = [
    0x428a2f98, 0x71374491, 0xb5c0fbcf, 0xe9b5dba5, 0x3956c25b, 0x59f111f1, 0x923f82a4,
    0xab1c5ed5, 0xd807aa98, 0x12835b01, 0x243185be, 0x550c7dc3, 0x72be5d74, 0x80deb1fe,
    0x9bdc06a7, 0xc19bf174, 0xe49b69c1, 0xefbe4786, 0x0fc19dc6, 0x240ca1cc, 0x2de92c6f,
    0x4a7484aa, 0x5cb0a9dc, 0x76f988da, 0x983e5152, 0xa831c66d, 0xb00327c8, 0xbf597fc7,
    0xc6e00bf3, 0xd5a79147, 0x06ca6351, 0x14292967, 0x27b70a85, 0x2e1b2138, 0x4d2c6dfc,
    0x53380d13, 0x650a7354, 0x766a0abb, 0x81c2c92e, 0x92722c85, 0xa2bfe8a1, 0xa81a664b,
    0xc24b8b70, 0xc76c51a3, 0xd192e819, 0xd6990624, 0xf40e3585, 0x106aa070, 0x19a4c116,
    0x1e376c08, 0x2748774c, 0x34b0bcb5, 0x391c0cb3, 0x4ed8aa4a, 0x5b9cca4f, 0x682e6ff3,
    0x748f82ee, 0x78a5636f, 0x84c87814, 0x8cc70208, 0x90befffa, 0xa4506ceb, 0xbef9a3f7,
    0xc67178f2]"

definition SHA256_ROTR :: "u32 \<Rightarrow> nat \<Rightarrow> u32" where
  "SHA256_ROTR x n = drop_bit n x OR push_bit (32 - n) x"
definition SHA256_CH :: "u32 \<Rightarrow> u32 \<Rightarrow> u32 \<Rightarrow> u32" where
  "SHA256_CH x y z = (x AND y) XOR (NOT x AND z)"
definition SHA256_MAJ :: "u32 \<Rightarrow> u32 \<Rightarrow> u32 \<Rightarrow> u32" where
  "SHA256_MAJ x y z = (x AND y) XOR (x AND z) XOR (y AND z)"
definition SHA256_EP0 :: "u32 \<Rightarrow> u32" where
  "SHA256_EP0 x = SHA256_ROTR x 2 XOR SHA256_ROTR x 13 XOR SHA256_ROTR x 22"
definition SHA256_EP1 :: "u32 \<Rightarrow> u32" where
  "SHA256_EP1 x = SHA256_ROTR x 6 XOR SHA256_ROTR x 11 XOR SHA256_ROTR x 25"
definition SHA256_SIG0 :: "u32 \<Rightarrow> u32" where
  "SHA256_SIG0 x = SHA256_ROTR x 7 XOR SHA256_ROTR x 18 XOR drop_bit 3 x"
definition SHA256_SIG1 :: "u32 \<Rightarrow> u32" where
  "SHA256_SIG1 x = SHA256_ROTR x 17 XOR SHA256_ROTR x 19 XOR drop_bit 10 x"

definition sha256_load :: "u8 list \<Rightarrow> nat \<Rightarrow> u32" where
  "sha256_load block i = push_bit 24 (ucast (block ! (i * 4))) OR push_bit 16 (ucast (block ! (i * 4 + 1)))
     OR push_bit 8 (ucast (block ! (i * 4 + 2))) OR ucast (block ! (i * 4 + 3))"

text \<open>The loop that fills the schedule; \<open>w\<close> holds the words computed so far.\<close>

primrec sha256_extend :: "nat \<Rightarrow> u32 list \<Rightarrow> u32 list" where
  "sha256_extend 0 w = w"
| "sha256_extend (Suc n) w =
     (let i = length w in
      sha256_extend n (w @ [SHA256_SIG1 (w ! (i - 2)) + w ! (i - 7) + SHA256_SIG0 (w ! (i - 15)) + w ! (i - 16)]))"

text \<open>The working variables \<open>a\<close> to \<open>h\<close>.\<close>

type_synonym sha256_vars = "u32 \<times> u32 \<times> u32 \<times> u32 \<times> u32 \<times> u32 \<times> u32 \<times> u32"

definition sha256_round :: "u32 list \<Rightarrow> nat \<Rightarrow> sha256_vars \<Rightarrow> sha256_vars" where
  "sha256_round w i v = (case v of (a, b, c, d, e, f, g, h) \<Rightarrow>
     let t1 = h + SHA256_EP1 e + SHA256_CH e f g + sha256_k ! i + w ! i;
         t2 = SHA256_EP0 a + SHA256_MAJ a b c
     in (t1 + t2, a, b, c, d + t1, e, f, g))"

definition sha256_transform :: "hash_ctx \<Rightarrow> u8 list \<Rightarrow> hash_ctx" where
  "sha256_transform ctx block =
     (let w = sha256_extend 48 (map (sha256_load block) [0..<16]);
          s = hc_state ctx
      in case fold (sha256_round w) [0..<64] (s ! 0, s ! 1, s ! 2, s ! 3, s ! 4, s ! 5, s ! 6, s ! 7) of
        (a, b, c, d, e, f, g, h) \<Rightarrow>
          ctx\<lparr>hc_state := [s ! 0 + a, s ! 1 + b, s ! 2 + c, s ! 3 + d, s ! 4 + e, s ! 5 + f, s ! 6 + g, s ! 7 + h]\<rparr>)"

definition sha256_init_state :: "u32 list" where
  "sha256_init_state = [0x6a09e667, 0xbb67ae85, 0x3c6ef372, 0xa54ff53a, 0x510e527f, 0x9b05688c, 0x1f83d9ab, 0x5be0cd19]"

definition xy_sha256_init :: "hash_ctx option \<Rightarrow> crypto_rc \<times> hash_ctx option" where
  "xy_sha256_init ctx =
     (case ctx of
        None \<Rightarrow> (CRYPTO_INVALID_PARAM, None)
      | Some c \<Rightarrow> (CRYPTO_SUCCESS, Some (c\<lparr>hc_state := sha256_init_state, hc_count := 0,
          hc_buffer := replicate HASH_BLOCK_SIZE 0\<rparr>)))"

text \<open>
  The loop of the update functions: \<open>data\<close> is what is left of the input, \<open>len\<close> its length. At a
  position of 64 or more, which the callers do not pass, the loop would not end or write outside
  the buffer.
\<close>

function hash_absorb ::
  "(hash_ctx \<Rightarrow> u8 list \<Rightarrow> hash_ctx) \<Rightarrow> hash_ctx \<Rightarrow> nat \<Rightarrow> u8 list \<Rightarrow> nat \<Rightarrow> hash_ctx option" where
  "hash_absorb transform ctx buffer_pos data len =
     (if len = 0 then Some ctx
      else if HASH_BLOCK_SIZE \<le> buffer_pos then None
      else do {
        let copy_len = (if HASH_BLOCK_SIZE - buffer_pos > len then len else HASH_BLOCK_SIZE - buffer_pos);
        bs \<leftarrow> mem_read data 0 copy_len;
        buf \<leftarrow> mem_write (hc_buffer ctx) buffer_pos bs;
        let ctx1 = ctx\<lparr>hc_buffer := buf\<rparr>;
        if buffer_pos + copy_len = HASH_BLOCK_SIZE
        then hash_absorb transform (transform ctx1 (hc_buffer ctx1)) 0 (drop copy_len data) (len - copy_len)
        else hash_absorb transform ctx1 (buffer_pos + copy_len) (drop copy_len data) (len - copy_len) })"
  by pat_completeness auto
termination
  by (relation "measure (\<lambda>(t, c, p, d, n). n)") (auto simp: HASH_BLOCK_SIZE_def split: if_splits)

declare hash_absorb.simps [simp del]

definition xy_sha256_update ::
  "hash_ctx option \<Rightarrow> u8 list option \<Rightarrow> u32 \<Rightarrow> (crypto_rc \<times> hash_ctx option) option" where
  "xy_sha256_update ctx data len =
     (case (ctx, data) of
        (Some c, Some d) \<Rightarrow> do {
          c' \<leftarrow> hash_absorb sha256_transform (c\<lparr>hc_count := hc_count c + ucast len\<rparr>)
                  (unat (hc_count c mod 64)) d (unat len);
          Some (CRYPTO_SUCCESS, Some c') }
      | _ \<Rightarrow> Some (CRYPTO_INVALID_PARAM, ctx))"

text \<open>
  The padding and the last transformation of the final functions; \<open>len_bytes\<close> gives the eight bytes
  of the bit count.
\<close>

definition hash_finish ::
  "(hash_ctx \<Rightarrow> u8 list \<Rightarrow> hash_ctx) \<Rightarrow> (u64 \<Rightarrow> u8 list) \<Rightarrow> hash_ctx \<Rightarrow> hash_ctx option" where
  "hash_finish transform len_bytes ctx = do {
     let pos0 = unat (hc_count ctx mod 64);
     let bit_count = hc_count ctx * 8;
     b1 \<leftarrow> mem_store (hc_buffer ctx) pos0 0x80;
     let pos1 = pos0 + 1;
     let ctx1 = ctx\<lparr>hc_buffer := b1\<rparr>;
     (ctx2, pos2) \<leftarrow> (if pos1 > 56 then do {
         b2 \<leftarrow> mem_write (hc_buffer ctx1) pos1 (replicate (HASH_BLOCK_SIZE - pos1) 0);
         let c2 = ctx1\<lparr>hc_buffer := b2\<rparr>;
         Some (transform c2 (hc_buffer c2), 0) }
       else Some (ctx1, pos1));
     b3 \<leftarrow> mem_write (hc_buffer ctx2) pos2 (replicate (56 - pos2) 0);
     b4 \<leftarrow> mem_write b3 56 (len_bytes bit_count);
     let ctx3 = ctx2\<lparr>hc_buffer := b4\<rparr>;
     Some (transform ctx3 (hc_buffer ctx3)) }"

definition sha256_len_bytes :: "u64 \<Rightarrow> u8 list" where
  "sha256_len_bytes bit_count = map (\<lambda>i. ucast (drop_bit ((7 - i) * 8) bit_count)) [0..<8]"

definition sha256_word_bytes :: "u32 \<Rightarrow> u8 list" where
  "sha256_word_bytes x = [ucast (drop_bit 24 x), ucast (drop_bit 16 x), ucast (drop_bit 8 x), ucast x]"

text \<open>The loop that writes the state to the digest, four bytes per word.\<close>

fun hash_output :: "(u32 \<Rightarrow> u8 list) \<Rightarrow> u32 list \<Rightarrow> nat list \<Rightarrow> u8 list \<Rightarrow> u8 list option" where
  "hash_output word_bytes state [] digest = Some digest"
| "hash_output word_bytes state (i # is) digest = do {
     d \<leftarrow> mem_write digest (i * 4) (word_bytes (state ! i));
     hash_output word_bytes state is d }"

definition xy_sha256_final ::
  "hash_ctx option \<Rightarrow> u8 list option \<Rightarrow> (crypto_rc \<times> hash_ctx option \<times> u8 list option) option" where
  "xy_sha256_final ctx digest =
     (case (ctx, digest) of
        (Some c, Some d) \<Rightarrow> do {
          c' \<leftarrow> hash_finish sha256_transform sha256_len_bytes c;
          d' \<leftarrow> hash_output sha256_word_bytes (hc_state c') [0..<8] d;
          Some (CRYPTO_SUCCESS, Some c', Some d') }
      | _ \<Rightarrow> Some (CRYPTO_INVALID_PARAM, ctx, digest))"

text \<open>The context is a local variable; \<open>local_ctx\<close> is what it holds before it is initialised.\<close>

definition xy_sha256_hash ::
  "hash_ctx \<Rightarrow> u8 list option \<Rightarrow> u32 \<Rightarrow> u8 list option \<Rightarrow> (crypto_rc \<times> u8 list option) option" where
  "xy_sha256_hash local_ctx data len digest =
     (case xy_sha256_init (Some local_ctx) of (r1, c1) \<Rightarrow>
        if r1 \<noteq> CRYPTO_SUCCESS then Some (r1, digest)
        else do {
          (r2, c2) \<leftarrow> xy_sha256_update c1 data len;
          if r2 \<noteq> CRYPTO_SUCCESS then Some (r2, digest)
          else do {
            (r3, c3, d) \<leftarrow> xy_sha256_final c2 digest;
            Some (r3, d) } })"

subsection \<open>MD5\<close>

definition md5_k :: "u32 list" where
  "md5_k = [
    0xd76aa478, 0xe8c7b756, 0x242070db, 0xc1bdceee, 0xf57c0faf, 0x4787c62a, 0xa8304613,
    0xfd469501, 0x698098d8, 0x8b44f7af, 0xffff5bb1, 0x895cd7be, 0x6b901122, 0xfd987193,
    0xa679438e, 0x49b40821, 0xf61e2562, 0xc040b340, 0x265e5a51, 0xe9b6c7aa, 0xd62f105d,
    0x02441453, 0xd8a1e681, 0xe7d3fbc8, 0x21e1cde6, 0xc33707d6, 0xf4d50d87, 0x455a14ed,
    0xa9e3e905, 0xfcefa3f8, 0x676f02d9, 0x8d2a4c8a, 0xfffa3942, 0x8771f681, 0x6d9d6122,
    0xfde5380c, 0xa4beea44, 0x4bdecfa9, 0xf6bb4b60, 0xbebfbc70, 0x289b7ec6, 0xeaa127fa,
    0xd4ef3085, 0x04881d05, 0xd9d4d039, 0xe6db99e5, 0x1fa27cf8, 0xc4ac5665, 0xf4292244,
    0x432aff97, 0xab9423a7, 0xfc93a039, 0x655b59c3, 0x8f0ccc92, 0xffeff47d, 0x85845dd1,
    0x6fa87e4f, 0xfe2ce6e0, 0xa3014314, 0x4e0811a1, 0xf7537e82, 0xbd3af235, 0x2ad7d2bb,
    0xeb86d391]"

definition md5_s :: "nat list" where
  "md5_s = [
    7, 12, 17, 22, 7, 12, 17, 22, 7, 12, 17, 22, 7, 12, 17, 22, 5, 9, 14, 20, 5, 9, 14, 20, 5,
    9, 14, 20, 5, 9, 14, 20, 4, 11, 16, 23, 4, 11, 16, 23, 4, 11, 16, 23, 4, 11, 16, 23, 6, 10,
    15, 21, 6, 10, 15, 21, 6, 10, 15, 21, 6, 10, 15, 21]"

definition MD5_F :: "u32 \<Rightarrow> u32 \<Rightarrow> u32 \<Rightarrow> u32" where "MD5_F x y z = (x AND y) OR (NOT x AND z)"
definition MD5_G :: "u32 \<Rightarrow> u32 \<Rightarrow> u32 \<Rightarrow> u32" where "MD5_G x y z = (x AND z) OR (y AND NOT z)"
definition MD5_H :: "u32 \<Rightarrow> u32 \<Rightarrow> u32 \<Rightarrow> u32" where "MD5_H x y z = x XOR y XOR z"
definition MD5_I :: "u32 \<Rightarrow> u32 \<Rightarrow> u32 \<Rightarrow> u32" where "MD5_I x y z = y XOR (x OR NOT z)"
definition MD5_ROTLEFT :: "u32 \<Rightarrow> nat \<Rightarrow> u32" where "MD5_ROTLEFT a b = push_bit b a OR drop_bit (32 - b) a"

definition md5_load :: "u8 list \<Rightarrow> nat \<Rightarrow> u32" where
  "md5_load block i = ucast (block ! (i * 4)) OR push_bit 8 (ucast (block ! (i * 4 + 1)))
     OR push_bit 16 (ucast (block ! (i * 4 + 2))) OR push_bit 24 (ucast (block ! (i * 4 + 3)))"

definition md5_round :: "u32 list \<Rightarrow> nat \<Rightarrow> u32 \<times> u32 \<times> u32 \<times> u32 \<Rightarrow> u32 \<times> u32 \<times> u32 \<times> u32" where
  "md5_round m i v = (case v of (a, b, c, d) \<Rightarrow>
     let (f, g) = (if i < 16 then (MD5_F b c d, i)
                   else if i < 32 then (MD5_G b c d, (5 * i + 1) mod 16)
                   else if i < 48 then (MD5_H b c d, (3 * i + 5) mod 16)
                   else (MD5_I b c d, (7 * i) mod 16));
         f' = f + a + md5_k ! i + m ! g
     in (d, b + MD5_ROTLEFT f' (md5_s ! i), b, c))"

definition md5_transform :: "hash_ctx \<Rightarrow> u8 list \<Rightarrow> hash_ctx" where
  "md5_transform ctx block =
     (let m = map (md5_load block) [0..<16];
          s = hc_state ctx
      in case fold (md5_round m) [0..<64] (s ! 0, s ! 1, s ! 2, s ! 3) of
        (a, b, c, d) \<Rightarrow> ctx\<lparr>hc_state := [s ! 0 + a, s ! 1 + b, s ! 2 + c, s ! 3 + d]\<rparr>)"

definition md5_init_state :: "u32 list" where
  "md5_init_state = [0x67452301, 0xefcdab89, 0x98badcfe, 0x10325476]"

definition xy_md5_init :: "hash_ctx option \<Rightarrow> crypto_rc \<times> hash_ctx option" where
  "xy_md5_init ctx =
     (case ctx of
        None \<Rightarrow> (CRYPTO_INVALID_PARAM, None)
      | Some c \<Rightarrow> (CRYPTO_SUCCESS, Some (c\<lparr>hc_state := md5_init_state, hc_count := 0,
          hc_buffer := replicate HASH_BLOCK_SIZE 0\<rparr>)))"

definition xy_md5_update ::
  "hash_ctx option \<Rightarrow> u8 list option \<Rightarrow> u32 \<Rightarrow> (crypto_rc \<times> hash_ctx option) option" where
  "xy_md5_update ctx data len =
     (case (ctx, data) of
        (Some c, Some d) \<Rightarrow> do {
          c' \<leftarrow> hash_absorb md5_transform (c\<lparr>hc_count := hc_count c + ucast len\<rparr>)
                  (unat (hc_count c mod 64)) d (unat len);
          Some (CRYPTO_SUCCESS, Some c') }
      | _ \<Rightarrow> Some (CRYPTO_INVALID_PARAM, ctx))"

definition md5_len_bytes :: "u64 \<Rightarrow> u8 list" where
  "md5_len_bytes bit_count = map (\<lambda>i. ucast (drop_bit (i * 8) bit_count)) [0..<8]"

definition md5_word_bytes :: "u32 \<Rightarrow> u8 list" where
  "md5_word_bytes x = [ucast x, ucast (drop_bit 8 x), ucast (drop_bit 16 x), ucast (drop_bit 24 x)]"

definition xy_md5_final ::
  "hash_ctx option \<Rightarrow> u8 list option \<Rightarrow> (crypto_rc \<times> hash_ctx option \<times> u8 list option) option" where
  "xy_md5_final ctx digest =
     (case (ctx, digest) of
        (Some c, Some d) \<Rightarrow> do {
          c' \<leftarrow> hash_finish md5_transform md5_len_bytes c;
          d' \<leftarrow> hash_output md5_word_bytes (hc_state c') [0..<4] d;
          Some (CRYPTO_SUCCESS, Some c', Some d') }
      | _ \<Rightarrow> Some (CRYPTO_INVALID_PARAM, ctx, digest))"

definition xy_md5_hash ::
  "hash_ctx \<Rightarrow> u8 list option \<Rightarrow> u32 \<Rightarrow> u8 list option \<Rightarrow> (crypto_rc \<times> u8 list option) option" where
  "xy_md5_hash local_ctx data len digest =
     (case xy_md5_init (Some local_ctx) of (r1, c1) \<Rightarrow>
        if r1 \<noteq> CRYPTO_SUCCESS then Some (r1, digest)
        else do {
          (r2, c2) \<leftarrow> xy_md5_update c1 data len;
          if r2 \<noteq> CRYPTO_SUCCESS then Some (r2, digest)
          else do {
            (r3, c3, d) \<leftarrow> xy_md5_final c2 digest;
            Some (r3, d) } })"

subsection \<open>The keyed hash\<close>

definition HMAC_IPAD :: u8 where "HMAC_IPAD = 0x36"
definition HMAC_OPAD :: u8 where "HMAC_OPAD = 0x5C"
definition MD5_DIGEST_SIZE :: nat where "MD5_DIGEST_SIZE = 16"
definition SHA256_DIGEST_SIZE :: nat where "SHA256_DIGEST_SIZE = 32"

text \<open>
  \<open>ctx\<close> and \<open>temp_key\<close> are what the local variables hold at the start. The return values of the
  inner calls are ignored, as in the code.
\<close>

definition xy_hmac_md5 ::
  "hash_ctx \<Rightarrow> u8 list \<Rightarrow> u8 list option \<Rightarrow> u32 \<Rightarrow> u8 list option \<Rightarrow> u32 \<Rightarrow> u8 list option
   \<Rightarrow> (crypto_rc \<times> u8 list option) option" where
  "xy_hmac_md5 ctx temp_key key key_len data data_len digest =
     (case (key, data, digest) of
        (Some k, Some d, Some dg) \<Rightarrow> do {
          (actual_key, actual_key_len) \<leftarrow>
            (if unat key_len > HASH_BLOCK_SIZE then do {
               (rc, t) \<leftarrow> xy_md5_hash ctx (Some k) key_len (Some temp_key);
               t' \<leftarrow> t;
               Some (t', MD5_DIGEST_SIZE) }
             else Some (k, unat key_len));
          kb \<leftarrow> mem_read actual_key 0 actual_key_len;
          k_ipad \<leftarrow> mem_write (replicate HASH_BLOCK_SIZE 0) 0 kb;
          k_opad \<leftarrow> mem_write (replicate HASH_BLOCK_SIZE 0) 0 kb;
          let k_ipad = map (\<lambda>b. b XOR HMAC_IPAD) k_ipad;
          let k_opad = map (\<lambda>b. b XOR HMAC_OPAD) k_opad;
          let c1 = snd (xy_md5_init (Some ctx));
          (r2, c2) \<leftarrow> xy_md5_update c1 (Some k_ipad) 64;
          (r3, c3) \<leftarrow> xy_md5_update c2 (Some d) data_len;
          (r4, c4, d4) \<leftarrow> xy_md5_final c3 (Some dg);
          let c5 = snd (xy_md5_init c4);
          (r6, c6) \<leftarrow> xy_md5_update c5 (Some k_opad) 64;
          (r7, c7) \<leftarrow> xy_md5_update c6 d4 16;
          (r8, c8, d8) \<leftarrow> xy_md5_final c7 d4;
          Some (CRYPTO_SUCCESS, d8) }
      | _ \<Rightarrow> Some (CRYPTO_INVALID_PARAM, digest))"

definition xy_hmac_sha256 ::
  "hash_ctx \<Rightarrow> u8 list \<Rightarrow> u8 list option \<Rightarrow> u32 \<Rightarrow> u8 list option \<Rightarrow> u32 \<Rightarrow> u8 list option
   \<Rightarrow> (crypto_rc \<times> u8 list option) option" where
  "xy_hmac_sha256 ctx temp_key key key_len data data_len digest =
     (case (key, data, digest) of
        (Some k, Some d, Some dg) \<Rightarrow> do {
          (actual_key, actual_key_len) \<leftarrow>
            (if unat key_len > HASH_BLOCK_SIZE then do {
               (rc, t) \<leftarrow> xy_sha256_hash ctx (Some k) key_len (Some temp_key);
               t' \<leftarrow> t;
               Some (t', SHA256_DIGEST_SIZE) }
             else Some (k, unat key_len));
          kb \<leftarrow> mem_read actual_key 0 actual_key_len;
          k_ipad \<leftarrow> mem_write (replicate HASH_BLOCK_SIZE 0) 0 kb;
          k_opad \<leftarrow> mem_write (replicate HASH_BLOCK_SIZE 0) 0 kb;
          let k_ipad = map (\<lambda>b. b XOR HMAC_IPAD) k_ipad;
          let k_opad = map (\<lambda>b. b XOR HMAC_OPAD) k_opad;
          let c1 = snd (xy_sha256_init (Some ctx));
          (r2, c2) \<leftarrow> xy_sha256_update c1 (Some k_ipad) 64;
          (r3, c3) \<leftarrow> xy_sha256_update c2 (Some d) data_len;
          (r4, c4, d4) \<leftarrow> xy_sha256_final c3 (Some dg);
          let c5 = snd (xy_sha256_init c4);
          (r6, c6) \<leftarrow> xy_sha256_update c5 (Some k_opad) 64;
          (r7, c7) \<leftarrow> xy_sha256_update c6 d4 32;
          (r8, c8, d8) \<leftarrow> xy_sha256_final c7 d4;
          Some (CRYPTO_SUCCESS, d8) }
      | _ \<Rightarrow> Some (CRYPTO_INVALID_PARAM, digest))"

end
