(* ===== verification/Xy_Hash_Correct.thy ===== *)
theory Xy_Hash_Correct
  imports Xy_Hash
begin

text \<open>
  The hash functions compute the iterated compression of the padded message, however the message
  is cut into pieces, and the keyed hash is the nesting of RFC 2104. The buffering and the padding
  are the same for both functions and are proved once, for any transformation, in a locale.
\<close>

subsection \<open>The iterated compression\<close>

function full_blocks :: "u8 list \<Rightarrow> u8 list list" where
  "full_blocks m = (if length m < 64 then [] else take 64 m # full_blocks (drop 64 m))"
  by pat_completeness auto
termination by (relation "measure length") auto

declare full_blocks.simps [simp del]

definition tail64 :: "u8 list \<Rightarrow> u8 list" where
  "tail64 m = drop (64 * (length m div 64)) m"

text \<open>The message, the bit 1, zeros, and the length in bits, up to a multiple of 64 bytes.\<close>

definition md_pad :: "(u64 \<Rightarrow> u8 list) \<Rightarrow> u8 list \<Rightarrow> u8 list" where
  "md_pad len_bytes m = m @ 0x80 # replicate ((119 - length m mod 64) mod 64) 0 @ len_bytes (of_nat (length m) * 8)"

definition md_hash ::
  "(u32 list \<Rightarrow> u8 list \<Rightarrow> u32 list) \<Rightarrow> u32 list \<Rightarrow> (u64 \<Rightarrow> u8 list) \<Rightarrow> u8 list \<Rightarrow> u32 list" where
  "md_hash compress iv len_bytes m = foldl compress iv (full_blocks (md_pad len_bytes m))"

lemma full_blocks_short: "length m < 64 \<Longrightarrow> full_blocks m = []"
  by (simp add: full_blocks.simps)

lemma full_blocks_one: "length b = 64 \<Longrightarrow> full_blocks (b @ m) = b # full_blocks m"
  by (subst full_blocks.simps) simp

lemma full_blocks_append: "length a mod 64 = 0 \<Longrightarrow> full_blocks (a @ x) = full_blocks a @ full_blocks x"
proof (induction a rule: full_blocks.induct)
  case (1 a)
  show ?case
  proof (cases "length a < 64")
    case True
    then have "a = []" using 1(2) by simp
    then show ?thesis by (simp add: full_blocks_short)
  next
    case False
    then have "(length a - 64) mod 64 = 0" using 1(2) by (simp add: le_mod_geq)
    then have "full_blocks (drop 64 a @ x) = full_blocks (drop 64 a) @ full_blocks x"
      using 1(1) False by simp
    then show ?thesis using False by (subst (1 2) full_blocks.simps) simp
  qed
qed

lemma length_tail64: "length (tail64 m) = length m mod 64"
  by (simp add: tail64_def minus_mult_div_eq_mod)

lemma tail64_short: "length m < 64 \<Longrightarrow> tail64 m = m"
  by (simp add: tail64_def)

lemma tail64_full: "length m = 64 \<Longrightarrow> tail64 m = []"
  by (simp add: tail64_def)

lemma head_tail64:
  obtains h where "m = h @ tail64 m" "length h mod 64 = 0"
proof
  show "m = take (64 * (length m div 64)) m @ tail64 m" by (simp add: tail64_def)
  have "length (take (64 * (length m div 64)) m) = 64 * (length m div 64)"
    using times_div_less_eq_dividend [of 64 "length m"] by simp
  then show "length (take (64 * (length m div 64)) m) mod 64 = 0" by simp
qed

lemma full_blocks_tail: "full_blocks (m @ x) = full_blocks m @ full_blocks (tail64 m @ x)"
proof -
  obtain h where h: "m = h @ tail64 m" "length h mod 64 = 0" by (rule head_tail64)
  have "length (tail64 m) < 64" by (simp add: length_tail64)
  then have "full_blocks m = full_blocks h"
    using full_blocks_append [OF h(2), of "tail64 m"] h(1) full_blocks_short [of "tail64 m"] by simp
  moreover have "full_blocks (m @ x) = full_blocks h @ full_blocks (tail64 m @ x)"
    using full_blocks_append [OF h(2), of "tail64 m @ x"] h(1) by (metis append_assoc)
  ultimately show ?thesis by simp
qed

lemma tail64_append: "tail64 (m @ x) = tail64 (tail64 m @ x)"
proof -
  obtain h where h: "m = h @ tail64 m" "length h mod 64 = 0" by (rule head_tail64)
  define y where "y = tail64 m @ x"
  have "m @ x = h @ y" using h(1) by (simp add: y_def)
  moreover have "tail64 (h @ y) = tail64 y"
  proof -
    have "64 * ((length h + length y) div 64) = length h + 64 * (length y div 64)"
      using h(2) by (metis div_add distrib_left mod_0_imp_dvd dvd_mult_div_cancel div_plus_div_distrib_dvd_left)
    then show ?thesis by (simp add: tail64_def)
  qed
  ultimately show ?thesis by (simp only: y_def)
qed

lemma absorb_step:
  assumes "0 < n" "p < 64" "k = (if 64 - p > n then n else 64 - p)"
    and "mem_read data 0 k = Some bs" "mem_write (hc_buffer ctx) p bs = Some buf"
  shows "hash_absorb transform ctx p data n
    = hash_absorb transform (if p + k = 64 then transform (ctx\<lparr>hc_buffer := buf\<rparr>) buf else ctx\<lparr>hc_buffer := buf\<rparr>)
        (if p + k = 64 then 0 else p + k) (drop k data) (n - k)"
  unfolding hash_absorb.simps [of _ _ _ _ n] HASH_BLOCK_SIZE_def assms(3) [symmetric]
  using assms(1,2) by (simp add: assms(4,5))

subsection \<open>Buffering and padding\<close>

lemma store_at: "length o1 = n \<Longrightarrow> mem_store (o1 @ x # o2) n v = Some (o1 @ v # o2)"
  by (auto simp: mem_store_def list_update_append)

locale block_hash =
  fixes transform :: "hash_ctx \<Rightarrow> u8 list \<Rightarrow> hash_ctx"
    and compress :: "u32 list \<Rightarrow> u8 list \<Rightarrow> u32 list"
    and iv :: "u32 list"
    and len_bytes :: "u64 \<Rightarrow> u8 list"
    and word_bytes :: "u32 \<Rightarrow> u8 list"
    and words :: nat
  assumes transform_eq: "transform ctx b = ctx\<lparr>hc_state := compress (hc_state ctx) b\<rparr>"
    and length_len_bytes: "length (len_bytes n) = 8"
    and length_word_bytes: "length (word_bytes x) = 4"
    and length_iv: "length iv = words"
    and length_compress: "length (compress s b) = words"
begin

text \<open>A context whose state and buffer stand for a message absorbed so far.\<close>

definition holds :: "hash_ctx \<Rightarrow> u8 list \<Rightarrow> bool" where
  "holds ctx m \<longleftrightarrow> hc_state ctx = foldl compress iv (full_blocks m)
     \<and> (\<exists>r. hc_buffer ctx = tail64 m @ r \<and> length (hc_buffer ctx) = 64)"

lemma absorb_holds:
  "holds ctx m \<Longrightarrow> n \<le> length data \<Longrightarrow>
   \<exists>ctx'. hash_absorb transform ctx (length m mod 64) data n = Some ctx'
     \<and> holds ctx' (m @ take n data) \<and> hc_count ctx' = hc_count ctx"
proof (induction n arbitrary: ctx m data rule: less_induct)
  case (less n)
  show ?case
  proof (cases "n = 0")
    case True
    then show ?thesis using less.prems by (auto simp: hash_absorb.simps)
  next
    case False
    let ?p = "length m mod 64"
    define k where "k = (if 64 - ?p > n then n else 64 - ?p)"
    have k: "0 < k" "k \<le> n" "?p + k \<le> 64" "k \<le> length data" using False less.prems(2) by (auto simp: k_def)
    obtain r where r: "hc_buffer ctx = tail64 m @ r" "length (hc_buffer ctx) = 64" "hc_state ctx = foldl compress iv (full_blocks m)"
      using less.prems(1) by (auto simp: holds_def)
    have lr: "length r = 64 - ?p" using r(1,2) length_tail64 [of m] by simp
    define buf where "buf = tail64 m @ take k data @ drop k r"
    have rd: "mem_read data 0 k = Some (take k data)" using k by (simp add: mem_read_def)
    have wr: "mem_write (hc_buffer ctx) ?p (take k data) = Some buf"
      using r(1) k lr length_tail64 [of m] by (simp add: mem_write_def buf_def)
    define c1 where "c1 = ctx\<lparr>hc_buffer := buf\<rparr>"
    define c2 where "c2 = (if ?p + k = 64 then transform c1 (hc_buffer c1) else c1)"
    have step: "hash_absorb transform ctx ?p data n = hash_absorb transform c2 (if ?p + k = 64 then 0 else ?p + k) (drop k data) (n - k)"
      using absorb_step [OF _ _ k_def rd wr] False by (simp add: c1_def c2_def)
    have m': "full_blocks (m @ take k data) = full_blocks m @ full_blocks (tail64 m @ take k data)"
      "tail64 (m @ take k data) = tail64 (tail64 m @ take k data)"
      by (rule full_blocks_tail, rule tail64_append)
    have lt: "length (tail64 m @ take k data) = ?p + k" using k by (simp add: length_tail64)
    have hold: "holds c2 (m @ take k data)"
    proof (cases "?p + k = 64")
      case True
      then have "drop k r = []" using lr by simp
      then have "buf = tail64 m @ take k data" by (simp add: buf_def)
      moreover have "full_blocks (tail64 m @ take k data) = [tail64 m @ take k data]"
        using full_blocks_one [of "tail64 m @ take k data" "[]"] lt True by (simp add: full_blocks_short)
      ultimately show ?thesis
        using True lt r(3) m' tail64_full [of "tail64 m @ take k data"]
        by (simp add: holds_def c2_def c1_def transform_eq)
    next
      case False
      then have "?p + k < 64" using k by simp
      then show ?thesis
        using False lt r m' tail64_short [of "tail64 m @ take k data"] full_blocks_short [of "tail64 m @ take k data"] lr k
        by (simp add: holds_def c2_def c1_def buf_def)
    qed
    have pos: "(if ?p + k = 64 then 0 else ?p + k) = length (m @ take k data) mod 64"
    proof -
      have "length (m @ take k data) mod 64 = (?p + k) mod 64" using k by (simp add: mod_simps)
      then show ?thesis using k by auto
    qed
    have "\<exists>ctx'. hash_absorb transform c2 (length (m @ take k data) mod 64) (drop k data) (n - k) = Some ctx'
        \<and> holds ctx' ((m @ take k data) @ take (n - k) (drop k data)) \<and> hc_count ctx' = hc_count c2"
      using k less.prems(2) by (intro less.IH hold) simp_all
    moreover have "take k data @ take (n - k) (drop k data) = take n data"
      using k by (metis le_add_diff_inverse take_add)
    moreover have "hc_count c2 = hc_count ctx" by (simp add: c2_def c1_def transform_eq)
    ultimately show ?thesis unfolding step pos by simp
  qed
qed

lemma unat_count: "unat (of_nat n mod 64 :: u64) = n mod 64"
  by (simp add: unat_mod_distrib unat_of_nat mod_mod_cancel)

lemma finish_holds:
  assumes "holds ctx m" "hc_count ctx = of_nat (length m)"
  shows "\<exists>ctx'. hash_finish transform len_bytes ctx = Some ctx' \<and> hc_state ctx' = md_hash compress iv len_bytes m"
proof -
  let ?t = "length m mod 64" and ?L = "len_bytes (of_nat (length m) * 8)"
  obtain r where r: "hc_buffer ctx = tail64 m @ r" "length (hc_buffer ctx) = 64" "hc_state ctx = foldl compress iv (full_blocks m)"
    using assms(1) by (auto simp: holds_def)
  have lt: "length (tail64 m) = ?t" "?t < 64" by (simp_all add: length_tail64)
  then obtain x r' where r': "r = x # r'" "length r' = 63 - ?t" using r(1,2) by (cases r) auto
  have b1: "mem_store (hc_buffer ctx) ?t 0x80 = Some (tail64 m @ 0x80 # r')"
    using store_at [of "tail64 m" ?t x r' "0x80"] lt r(1) r'(1) by simp
  have blocks: "full_blocks (md_pad len_bytes m)
      = full_blocks m @ full_blocks (tail64 m @ 0x80 # replicate ((119 - ?t) mod 64) 0 @ ?L)"
    unfolding md_pad_def by (rule full_blocks_tail)
  show ?thesis
  proof (cases "56 < ?t + 1")
    case False
    have z: "(119 - ?t) mod 64 = 55 - ?t"
    proof -
      have "119 - ?t = 64 + (55 - ?t)" using False by simp
      then show ?thesis by (simp only: mod_add_self1) simp
    qed
    define b where "b = tail64 m @ 0x80 # replicate (55 - ?t) 0 @ ?L"
    have "length b = 64" using lt False by (simp add: b_def length_len_bytes)
    then have fb: "full_blocks (md_pad len_bytes m) = full_blocks m @ [b]"
      using full_blocks_one [of b "[]"] blocks z by (simp add: b_def full_blocks_short)
    have b3: "mem_write (tail64 m @ 0x80 # r') (?t + 1) (replicate (56 - (?t + 1)) 0)
        = Some (tail64 m @ 0x80 # replicate (55 - ?t) 0 @ drop (55 - ?t) r')"
    proof -
      have "56 - ?t = Suc (55 - ?t)" using False by simp
      then show ?thesis using lt r'(2) False by (simp add: mem_write_def)
    qed
    have b4: "mem_write (tail64 m @ 0x80 # replicate (55 - ?t) 0 @ drop (55 - ?t) r') 56 ?L = Some b"
    proof -
      have "56 - ?t = Suc (55 - ?t)" "64 - ?t = Suc (63 - ?t)" using False lt(2) by simp_all
      then show ?thesis using lt r'(2) False by (simp add: mem_write_def length_len_bytes b_def)
    qed
    show ?thesis
      unfolding hash_finish_def assms(2) unat_count
      using False by (simp add: b1 b3 [simplified] b4 transform_eq md_hash_def fb r(3))
  next
    case True
    have z: "(119 - ?t) mod 64 = 119 - ?t" using True lt(2) by (intro mod_less) linarith
    define p1 where "p1 = tail64 m @ 0x80 # replicate (63 - ?t) 0"
    define p2 where "p2 = replicate 56 0 @ ?L"
    have len: "length p1 = 64" "length p2 = 64" using lt by (simp_all add: p1_def p2_def length_len_bytes)
    have "replicate (119 - ?t) 0 = replicate (63 - ?t) 0 @ replicate 56 (0 :: u8)"
      using lt(2) by (simp add: replicate_add [symmetric])
    then have "tail64 m @ 0x80 # replicate ((119 - ?t) mod 64) 0 @ ?L = p1 @ p2"
      using z by (simp add: p1_def p2_def)
    then have fb: "full_blocks (md_pad len_bytes m) = full_blocks m @ [p1, p2]"
      using blocks full_blocks_one [OF len(1), of p2] full_blocks_one [OF len(2), of "[]"] by (simp add: full_blocks_short)
    have b2: "mem_write (tail64 m @ 0x80 # r') (?t + 1) (replicate (64 - (?t + 1)) 0) = Some p1"
      using lt r'(2) by (simp add: mem_write_def p1_def)
    have b3: "mem_write p1 0 (replicate 56 0) = Some (replicate 56 0 @ drop 56 p1)"
      using len(1) by (simp add: mem_write_def)
    have b4: "mem_write (replicate 56 0 @ drop 56 p1) 56 ?L = Some p2"
      using len(1) by (simp add: mem_write_def length_len_bytes p2_def)
    show ?thesis
      unfolding hash_finish_def assms(2) unat_count HASH_BLOCK_SIZE_def
      using True by (simp add: b1 b2 [simplified] b3 b4 transform_eq md_hash_def fb r(3))
  qed
qed

text \<open>With the count the context stands for a message.\<close>

definition stands :: "hash_ctx \<Rightarrow> u8 list \<Rightarrow> bool" where
  "stands ctx m \<longleftrightarrow> holds ctx m \<and> hc_count ctx = of_nat (length m)"

lemma stands_start:
  "hc_state ctx = iv \<Longrightarrow> hc_count ctx = 0 \<Longrightarrow> length (hc_buffer ctx) = 64 \<Longrightarrow> stands ctx []"
  by (simp add: stands_def holds_def full_blocks_short tail64_short)

lemma stands_absorb:
  assumes "stands ctx m" "unat len \<le> length data"
  shows "\<exists>ctx'. hash_absorb transform (ctx\<lparr>hc_count := hc_count ctx + ucast (len :: u32)\<rparr>)
      (unat (hc_count ctx mod 64)) data (unat len) = Some ctx' \<and> stands ctx' (m @ take (unat len) data)"
proof -
  let ?c = "ctx\<lparr>hc_count := hc_count ctx + ucast len\<rparr>"
  have "holds ?c m" using assms(1) by (simp add: stands_def holds_def)
  from absorb_holds [OF this assms(2)] obtain c' where
    c': "hash_absorb transform ?c (length m mod 64) data (unat len) = Some c'"
      "holds c' (m @ take (unat len) data)" "hc_count c' = hc_count ?c" by blast
  have "(ucast len :: u64) = of_nat (unat len)" by simp
  then have "stands c' (m @ take (unat len) data)"
    using c'(2,3) assms by (simp add: stands_def)
  moreover have "unat (hc_count ctx mod 64) = length m mod 64"
    using assms(1) by (simp add: stands_def unat_count)
  ultimately show ?thesis using c'(1) by simp
qed

definition digest_of :: "u8 list \<Rightarrow> u8 list" where
  "digest_of m = concat (map word_bytes (md_hash compress iv len_bytes m))"

lemma length_md_hash: "length (md_hash compress iv len_bytes m) = words"
proof -
  have "length (foldl compress s bs) = words" if "length s = words" for s bs
    using that by (induction bs arbitrary: s) (simp_all add: length_compress)
  then show ?thesis by (simp add: md_hash_def length_iv)
qed

lemma length_concat_words: "length (concat (map word_bytes xs)) = 4 * length xs"
  by (induction xs) (simp_all add: length_word_bytes)

lemma length_digest_of: "length (digest_of m) = 4 * words"
  by (simp add: digest_of_def length_concat_words length_md_hash)

lemma hash_output_words:
  "length d1 = 4 * length pre \<Longrightarrow> 4 * length xs \<le> length d2 \<Longrightarrow>
   hash_output word_bytes (pre @ xs) [length pre..<length pre + length xs] (d1 @ d2)
     = Some (d1 @ concat (map word_bytes xs) @ drop (4 * length xs) d2)"
proof (induction xs arbitrary: pre d1 d2)
  case (Cons x xs)
  have "hash_output word_bytes ((pre @ [x]) @ xs) [length (pre @ [x])..<length (pre @ [x]) + length xs]
      ((d1 @ word_bytes x) @ drop 4 d2)
    = Some ((d1 @ word_bytes x) @ concat (map word_bytes xs) @ drop (4 * length xs) (drop 4 d2))"
    using Cons.prems by (intro Cons.IH) (simp_all add: length_word_bytes)
  moreover have "mem_write (d1 @ d2) (length pre * 4) (word_bytes x) = Some (d1 @ word_bytes x @ drop 4 d2)"
    using Cons.prems by (simp add: mem_write_def length_word_bytes)
  moreover have "[length pre..<length pre + length (x # xs)] = length pre # [Suc (length pre)..<Suc (length pre) + length xs]"
    by (simp del: upt_Suc add: upt_conv_Cons)
  ultimately show ?case by (simp add: nth_append add.commute [of 4] del: upt_Suc)
qed simp

lemma stands_final:
  assumes "stands ctx m" "4 * words \<le> length digest"
  shows "\<exists>c'. hash_finish transform len_bytes ctx = Some c'
    \<and> hash_output word_bytes (hc_state c') [0..<words] digest = Some (digest_of m @ drop (4 * words) digest)"
proof -
  obtain c' where "hash_finish transform len_bytes ctx = Some c'" "hc_state c' = md_hash compress iv len_bytes m"
    using finish_holds assms(1) by (auto simp: stands_def)
  then show ?thesis
    using hash_output_words [of "[]" "[]" "md_hash compress iv len_bytes m" digest] assms(2)
    by (simp add: length_md_hash digest_of_def)
qed

end

subsection \<open>The two functions\<close>

definition sha256_compress :: "u32 list \<Rightarrow> u8 list \<Rightarrow> u32 list" where
  "sha256_compress s b = hc_state (sha256_transform \<lparr>hc_state = s, hc_count = 0, hc_buffer = []\<rparr> b)"

definition md5_compress :: "u32 list \<Rightarrow> u8 list \<Rightarrow> u32 list" where
  "md5_compress s b = hc_state (md5_transform \<lparr>hc_state = s, hc_count = 0, hc_buffer = []\<rparr> b)"

interpretation sha: block_hash sha256_transform sha256_compress sha256_init_state sha256_len_bytes sha256_word_bytes 8
  by unfold_locales (simp_all add: sha256_compress_def sha256_transform_def sha256_len_bytes_def
      sha256_word_bytes_def sha256_init_state_def Let_def split_def)

interpretation md5: block_hash md5_transform md5_compress md5_init_state md5_len_bytes md5_word_bytes 4
  by unfold_locales (simp_all add: md5_compress_def md5_transform_def md5_len_bytes_def
      md5_word_bytes_def md5_init_state_def Let_def split_def)

text \<open>The digests as functions of the message.\<close>

definition sha256_digest :: "u8 list \<Rightarrow> u8 list" where
  "sha256_digest m = concat (map sha256_word_bytes (md_hash sha256_compress sha256_init_state sha256_len_bytes m))"

definition md5_digest :: "u8 list \<Rightarrow> u8 list" where
  "md5_digest m = concat (map md5_word_bytes (md_hash md5_compress md5_init_state md5_len_bytes m))"

lemma digest_of_eq: "sha.digest_of m = sha256_digest m" "md5.digest_of m = md5_digest m"
  by (simp_all add: sha.digest_of_def md5.digest_of_def sha256_digest_def md5_digest_def)

lemma length_digests [simp]: "length (sha256_digest m) = 32" "length (md5_digest m) = 16"
  using sha.length_digest_of [of m] md5.length_digest_of [of m] by (simp_all add: digest_of_eq)

lemma sha256_init_stands: "\<exists>c. xy_sha256_init (Some ctx) = (CRYPTO_SUCCESS, Some c) \<and> sha.stands c []"
  by (auto simp: xy_sha256_init_def HASH_BLOCK_SIZE_def intro: sha.stands_start)

lemma md5_init_stands: "\<exists>c. xy_md5_init (Some ctx) = (CRYPTO_SUCCESS, Some c) \<and> md5.stands c []"
  by (auto simp: xy_md5_init_def HASH_BLOCK_SIZE_def intro: md5.stands_start)

lemma sha256_update_stands:
  "sha.stands c m \<Longrightarrow> unat len \<le> length data \<Longrightarrow>
   \<exists>c'. xy_sha256_update (Some c) (Some data) len = Some (CRYPTO_SUCCESS, Some c') \<and> sha.stands c' (m @ take (unat len) data)"
  using sha.stands_absorb [of c m len data] by (auto simp: xy_sha256_update_def)

lemma md5_update_stands:
  "md5.stands c m \<Longrightarrow> unat len \<le> length data \<Longrightarrow>
   \<exists>c'. xy_md5_update (Some c) (Some data) len = Some (CRYPTO_SUCCESS, Some c') \<and> md5.stands c' (m @ take (unat len) data)"
  using md5.stands_absorb [of c m len data] by (auto simp: xy_md5_update_def)

lemma sha256_final_stands:
  "sha.stands c m \<Longrightarrow> 32 \<le> length d \<Longrightarrow>
   \<exists>c'. xy_sha256_final (Some c) (Some d) = Some (CRYPTO_SUCCESS, Some c', Some (sha256_digest m @ drop 32 d))"
  using sha.stands_final [of c m d] by (auto simp: xy_sha256_final_def digest_of_eq)

lemma md5_final_stands:
  "md5.stands c m \<Longrightarrow> 16 \<le> length d \<Longrightarrow>
   \<exists>c'. xy_md5_final (Some c) (Some d) = Some (CRYPTO_SUCCESS, Some c', Some (md5_digest m @ drop 16 d))"
  using md5.stands_final [of c m d] by (auto simp: xy_md5_final_def digest_of_eq)

subsection \<open>Messages in pieces\<close>

text \<open>Successive updates; each is given its piece and its length.\<close>

fun hash_pieces ::
  "(hash_ctx option \<Rightarrow> u8 list option \<Rightarrow> u32 \<Rightarrow> (crypto_rc \<times> hash_ctx option) option)
   \<Rightarrow> hash_ctx option \<Rightarrow> u8 list list \<Rightarrow> hash_ctx option option" where
  "hash_pieces update ctx [] = Some ctx"
| "hash_pieces update ctx (p # ps) = do {
     (rc, ctx') \<leftarrow> update ctx (Some p) (of_nat (length p));
     hash_pieces update ctx' ps }"

lemma unat_length_u32: "length p < 2 ^ 32 \<Longrightarrow> unat (of_nat (length p) :: u32) = length p"
  by (simp add: unat_of_nat)

lemma sha256_pieces_stands:
  "sha.stands c m \<Longrightarrow> \<forall>p \<in> set ps. length p < 2 ^ 32 \<Longrightarrow>
   \<exists>c'. hash_pieces xy_sha256_update (Some c) ps = Some (Some c') \<and> sha.stands c' (m @ concat ps)"
proof (induction ps arbitrary: c m)
  case (Cons p ps)
  have l: "unat (of_nat (length p) :: u32) = length p" using Cons.prems(2) by (simp add: unat_length_u32)
  obtain c1 where "xy_sha256_update (Some c) (Some p) (of_nat (length p)) = Some (CRYPTO_SUCCESS, Some c1)" "sha.stands c1 (m @ p)"
    using sha256_update_stands [OF Cons.prems(1), of "of_nat (length p)" p] l by auto
  then show ?case using Cons.IH [of c1 "m @ p"] Cons.prems(2) by simp
qed simp

lemma md5_pieces_stands:
  "md5.stands c m \<Longrightarrow> \<forall>p \<in> set ps. length p < 2 ^ 32 \<Longrightarrow>
   \<exists>c'. hash_pieces xy_md5_update (Some c) ps = Some (Some c') \<and> md5.stands c' (m @ concat ps)"
proof (induction ps arbitrary: c m)
  case (Cons p ps)
  have l: "unat (of_nat (length p) :: u32) = length p" using Cons.prems(2) by (simp add: unat_length_u32)
  obtain c1 where "xy_md5_update (Some c) (Some p) (of_nat (length p)) = Some (CRYPTO_SUCCESS, Some c1)" "md5.stands c1 (m @ p)"
    using md5_update_stands [OF Cons.prems(1), of "of_nat (length p)" p] l by auto
  then show ?case using Cons.IH [of c1 "m @ p"] Cons.prems(2) by simp
qed simp

lemma hash_functions:
  assumes "unat len \<le> length data"
  shows "32 \<le> length d \<Longrightarrow> xy_sha256_hash ctx (Some data) len (Some d)
      = Some (CRYPTO_SUCCESS, Some (sha256_digest (take (unat len) data) @ drop 32 d))"
    and "16 \<le> length d \<Longrightarrow> xy_md5_hash ctx (Some data) len (Some d)
      = Some (CRYPTO_SUCCESS, Some (md5_digest (take (unat len) data) @ drop 16 d))"
proof -
  obtain c c' where s: "xy_sha256_init (Some ctx) = (CRYPTO_SUCCESS, Some c)"
    "xy_sha256_update (Some c) (Some data) len = Some (CRYPTO_SUCCESS, Some c')" "sha.stands c' (take (unat len) data)"
    using sha256_init_stands [of ctx] sha256_update_stands [OF _ assms, of _ "[]"] by (metis append_Nil)
  show "32 \<le> length d \<Longrightarrow> xy_sha256_hash ctx (Some data) len (Some d)
      = Some (CRYPTO_SUCCESS, Some (sha256_digest (take (unat len) data) @ drop 32 d))"
    using sha256_final_stands [OF s(3)] s(1,2) by (fastforce simp: xy_sha256_hash_def)
  obtain c c' where m: "xy_md5_init (Some ctx) = (CRYPTO_SUCCESS, Some c)"
    "xy_md5_update (Some c) (Some data) len = Some (CRYPTO_SUCCESS, Some c')" "md5.stands c' (take (unat len) data)"
    using md5_init_stands [of ctx] md5_update_stands [OF _ assms, of _ "[]"] by (metis append_Nil)
  show "16 \<le> length d \<Longrightarrow> xy_md5_hash ctx (Some data) len (Some d)
      = Some (CRYPTO_SUCCESS, Some (md5_digest (take (unat len) data) @ drop 16 d))"
    using md5_final_stands [OF m(3)] m(1,2) by (fastforce simp: xy_md5_hash_def)
qed

text \<open>
  C18. However a message is cut into pieces of less than 4 GiB, updating with the pieces one after
  the other and finishing gives the digest of the whole message: the compression function of the
  algorithm iterated over the message padded with a one bit, zeros and its length. No length of
  the message or of a piece makes the functions leave their buffers, and the one-call functions
  give the same digest.
\<close>
theorem hash_any_pieces:
  assumes "\<forall>p \<in> set pieces. length p < 2 ^ 32" "32 \<le> length d"
  shows "(\<exists>c c'. hash_pieces xy_sha256_update (snd (xy_sha256_init (Some ctx))) pieces = Some (Some c)
      \<and> xy_sha256_final (Some c) (Some d) = Some (CRYPTO_SUCCESS, Some c', Some (sha256_digest (concat pieces) @ drop 32 d)))
    \<and> (\<exists>c c'. hash_pieces xy_md5_update (snd (xy_md5_init (Some ctx))) pieces = Some (Some c)
      \<and> xy_md5_final (Some c) (Some d) = Some (CRYPTO_SUCCESS, Some c', Some (md5_digest (concat pieces) @ drop 16 d)))
    \<and> (\<forall>data \<in> set pieces. xy_sha256_hash ctx (Some data) (of_nat (length data)) (Some d)
        = Some (CRYPTO_SUCCESS, Some (sha256_digest data @ drop 32 d))
      \<and> xy_md5_hash ctx (Some data) (of_nat (length data)) (Some d)
        = Some (CRYPTO_SUCCESS, Some (md5_digest data @ drop 16 d)))"
proof (intro conjI ballI)
  obtain c where c: "xy_sha256_init (Some ctx) = (CRYPTO_SUCCESS, Some c)" "sha.stands c []"
    using sha256_init_stands by blast
  then obtain c1 where "hash_pieces xy_sha256_update (Some c) pieces = Some (Some c1)" "sha.stands c1 (concat pieces)"
    using sha256_pieces_stands [OF c(2) assms(1)] by auto
  then show "\<exists>c c'. hash_pieces xy_sha256_update (snd (xy_sha256_init (Some ctx))) pieces = Some (Some c)
      \<and> xy_sha256_final (Some c) (Some d) = Some (CRYPTO_SUCCESS, Some c', Some (sha256_digest (concat pieces) @ drop 32 d))"
    using sha256_final_stands assms(2) c(1) by fastforce
  obtain c where c: "xy_md5_init (Some ctx) = (CRYPTO_SUCCESS, Some c)" "md5.stands c []"
    using md5_init_stands by blast
  then obtain c1 where "hash_pieces xy_md5_update (Some c) pieces = Some (Some c1)" "md5.stands c1 (concat pieces)"
    using md5_pieces_stands [OF c(2) assms(1)] by auto
  then show "\<exists>c c'. hash_pieces xy_md5_update (snd (xy_md5_init (Some ctx))) pieces = Some (Some c)
      \<and> xy_md5_final (Some c) (Some d) = Some (CRYPTO_SUCCESS, Some c', Some (md5_digest (concat pieces) @ drop 16 d))"
    using md5_final_stands [of c1 "concat pieces" d] assms(2) c(1) by auto
  fix data assume "data \<in> set pieces"
  then have l: "unat (of_nat (length data) :: u32) = length data" using assms(1) by (simp add: unat_length_u32)
  show "xy_sha256_hash ctx (Some data) (of_nat (length data)) (Some d)
      = Some (CRYPTO_SUCCESS, Some (sha256_digest data @ drop 32 d))"
    "xy_md5_hash ctx (Some data) (of_nat (length data)) (Some d)
      = Some (CRYPTO_SUCCESS, Some (md5_digest data @ drop 16 d))"
    using hash_functions [of "of_nat (length data)" data d ctx] assms(2) l by simp_all
qed

lemma hash_any_pieces_witness:
  "\<exists>c c'. hash_pieces xy_sha256_update (snd (xy_sha256_init (Some (\<lparr>hc_state = [], hc_count = 0, hc_buffer = []\<rparr>)))) [[97], [], [98, 99]] = Some (Some c)
    \<and> xy_sha256_final (Some c) (Some (replicate 32 0)) = Some (CRYPTO_SUCCESS, Some c', Some (sha256_digest [97, 98, 99]))"
  using hash_any_pieces [of "[[97], [], [98, 99]]" "replicate 32 0" "\<lparr>hc_state = [], hc_count = 0, hc_buffer = []\<rparr>"] by simp

subsection \<open>The keyed hash\<close>

text \<open>The key as RFC 2104 prepares it: hashed if it is longer than a block, filled up with zeros.\<close>

definition hmac_key :: "(u8 list \<Rightarrow> u8 list) \<Rightarrow> u8 list \<Rightarrow> u8 list" where
  "hmac_key H key = (let k = (if length key > 64 then H key else key) in k @ replicate (64 - length k) 0)"

definition hmac_spec :: "(u8 list \<Rightarrow> u8 list) \<Rightarrow> u8 list \<Rightarrow> u8 list \<Rightarrow> u8 list" where
  "hmac_spec H key msg = H (map (\<lambda>b. b XOR 0x5C) (hmac_key H key) @ H (map (\<lambda>b. b XOR 0x36) (hmac_key H key) @ msg))"

lemma pad_write: "length k \<le> 64 \<Longrightarrow>
  mem_write (replicate HASH_BLOCK_SIZE 0) 0 k = Some (k @ replicate (64 - length k) 0)"
  by (simp add: mem_write_def HASH_BLOCK_SIZE_def)

lemma hmac_sha256_nested:
  assumes "unat key_len = length key" "unat data_len = length data" "32 \<le> length d" "32 \<le> length tk"
  shows "xy_hmac_sha256 ctx tk (Some key) key_len (Some data) data_len (Some d)
    = Some (CRYPTO_SUCCESS, Some (hmac_spec sha256_digest key data @ drop 32 d))"
proof -
  define kb where "kb = (if length key > 64 then sha256_digest key else key)"
  have kb: "length kb \<le> 64" by (simp add: kb_def)
  define K where "K = hmac_key sha256_digest key"
  have K: "K = kb @ replicate (64 - length kb) 0" "length K = 64"
    using kb by (simp_all add: K_def hmac_key_def Let_def kb_def)
  define ip where "ip = map (\<lambda>b. b XOR 0x36) K"
  define op where "op = map (\<lambda>b. b XOR 0x5C) K"
  have lp: "length ip = 64" "length op = 64" by (simp_all add: ip_def op_def K(2))
  have keyhash: "xy_sha256_hash ctx (Some key) key_len (Some tk) = Some (CRYPTO_SUCCESS, Some (sha256_digest key @ drop 32 tk))"
    using hash_functions(1) [of key_len key tk ctx] assms by simp
  have key_read: "(if unat key_len > HASH_BLOCK_SIZE then do {
               (rc, t) \<leftarrow> xy_sha256_hash ctx (Some key) key_len (Some tk);
               t' \<leftarrow> t;
               Some (t', SHA256_DIGEST_SIZE) }
             else Some (key, unat key_len)) \<bind> (\<lambda>(k, l). mem_read k 0 l) = Some kb"
    using assms(1) by (simp add: keyhash HASH_BLOCK_SIZE_def kb_def SHA256_DIGEST_SIZE_def mem_read_def)
  have bind: "(a \<bind> (\<lambda>(k, l). mem_read k 0 l \<bind> f)) = ((a \<bind> (\<lambda>(k, l). mem_read k 0 l)) \<bind> f)"
    for a :: "(u8 list \<times> nat) option" and f :: "u8 list \<Rightarrow> (crypto_rc \<times> u8 list option) option"
    by (cases a) auto
  obtain c1 where c1: "snd (xy_sha256_init (Some ctx)) = Some c1" "sha.stands c1 []"
    using sha256_init_stands [of ctx] by auto
  obtain c2 where c2: "xy_sha256_update (Some c1) (Some ip) 64 = Some (CRYPTO_SUCCESS, Some c2)" "sha.stands c2 ip"
    using sha256_update_stands [OF c1(2), of 64 ip] lp by auto
  obtain c3 where c3: "xy_sha256_update (Some c2) (Some data) data_len = Some (CRYPTO_SUCCESS, Some c3)" "sha.stands c3 (ip @ data)"
    using sha256_update_stands [OF c2(2), of data_len data] assms(2) by auto
  define inner where "inner = sha256_digest (ip @ data)"
  have li: "length inner = 32" by (simp add: inner_def)
  obtain c4 where c4: "xy_sha256_final (Some c3) (Some d) = Some (CRYPTO_SUCCESS, Some c4, Some (inner @ drop 32 d))"
    using sha256_final_stands [OF c3(2) assms(3)] by (auto simp: inner_def)
  obtain c5 where c5: "snd (xy_sha256_init (Some c4)) = Some c5" "sha.stands c5 []"
    using sha256_init_stands [of c4] by auto
  obtain c6 where c6: "xy_sha256_update (Some c5) (Some op) 64 = Some (CRYPTO_SUCCESS, Some c6)" "sha.stands c6 op"
    using sha256_update_stands [OF c5(2), of 64 op] lp by auto
  obtain c7 where c7: "xy_sha256_update (Some c6) (Some (inner @ drop 32 d)) 32 = Some (CRYPTO_SUCCESS, Some c7)" "sha.stands c7 (op @ inner)"
    using sha256_update_stands [OF c6(2), of 32 "inner @ drop 32 d"] li by auto
  obtain c8 where c8: "xy_sha256_final (Some c7) (Some (inner @ drop 32 d))
      = Some (CRYPTO_SUCCESS, Some c8, Some (sha256_digest (op @ inner) @ drop 32 d))"
    using sha256_final_stands [OF c7(2), of "inner @ drop 32 d"] li by auto
  have spec: "hmac_spec sha256_digest key data = sha256_digest (op @ inner)"
    by (simp add: hmac_spec_def K_def [symmetric] ip_def op_def inner_def)
  show ?thesis
    unfolding xy_hmac_sha256_def option.case prod.case bind key_read Option.bind.bind_lunit pad_write [OF kb] K(1) [symmetric] Let_def
      HMAC_IPAD_def HMAC_OPAD_def ip_def [symmetric] op_def [symmetric] c1(1) c2(1) c3(1) c4 c5(1) c6(1) c7(1) c8 snd_conv spec
    by simp
qed

lemma hmac_md5_nested:
  assumes "unat key_len = length key" "unat data_len = length data" "16 \<le> length d" "16 \<le> length tk"
  shows "xy_hmac_md5 ctx tk (Some key) key_len (Some data) data_len (Some d)
    = Some (CRYPTO_SUCCESS, Some (hmac_spec md5_digest key data @ drop 16 d))"
proof -
  define kb where "kb = (if length key > 64 then md5_digest key else key)"
  have kb: "length kb \<le> 64" by (simp add: kb_def)
  define K where "K = hmac_key md5_digest key"
  have K: "K = kb @ replicate (64 - length kb) 0" "length K = 64"
    using kb by (simp_all add: K_def hmac_key_def Let_def kb_def)
  define ip where "ip = map (\<lambda>b. b XOR 0x36) K"
  define op where "op = map (\<lambda>b. b XOR 0x5C) K"
  have lp: "length ip = 64" "length op = 64" by (simp_all add: ip_def op_def K(2))
  have keyhash: "xy_md5_hash ctx (Some key) key_len (Some tk) = Some (CRYPTO_SUCCESS, Some (md5_digest key @ drop 16 tk))"
    using hash_functions(2) [of key_len key tk ctx] assms by simp
  have key_read: "(if unat key_len > HASH_BLOCK_SIZE then do {
               (rc, t) \<leftarrow> xy_md5_hash ctx (Some key) key_len (Some tk);
               t' \<leftarrow> t;
               Some (t', MD5_DIGEST_SIZE) }
             else Some (key, unat key_len)) \<bind> (\<lambda>(k, l). mem_read k 0 l) = Some kb"
    using assms(1) by (simp add: keyhash HASH_BLOCK_SIZE_def kb_def MD5_DIGEST_SIZE_def mem_read_def)
  have bind: "(a \<bind> (\<lambda>(k, l). mem_read k 0 l \<bind> f)) = ((a \<bind> (\<lambda>(k, l). mem_read k 0 l)) \<bind> f)"
    for a :: "(u8 list \<times> nat) option" and f :: "u8 list \<Rightarrow> (crypto_rc \<times> u8 list option) option"
    by (cases a) auto
  obtain c1 where c1: "snd (xy_md5_init (Some ctx)) = Some c1" "md5.stands c1 []"
    using md5_init_stands [of ctx] by auto
  obtain c2 where c2: "xy_md5_update (Some c1) (Some ip) 64 = Some (CRYPTO_SUCCESS, Some c2)" "md5.stands c2 ip"
    using md5_update_stands [OF c1(2), of 64 ip] lp by auto
  obtain c3 where c3: "xy_md5_update (Some c2) (Some data) data_len = Some (CRYPTO_SUCCESS, Some c3)" "md5.stands c3 (ip @ data)"
    using md5_update_stands [OF c2(2), of data_len data] assms(2) by auto
  define inner where "inner = md5_digest (ip @ data)"
  have li: "length inner = 16" by (simp add: inner_def)
  obtain c4 where c4: "xy_md5_final (Some c3) (Some d) = Some (CRYPTO_SUCCESS, Some c4, Some (inner @ drop 16 d))"
    using md5_final_stands [OF c3(2) assms(3)] by (auto simp: inner_def)
  obtain c5 where c5: "snd (xy_md5_init (Some c4)) = Some c5" "md5.stands c5 []"
    using md5_init_stands [of c4] by auto
  obtain c6 where c6: "xy_md5_update (Some c5) (Some op) 64 = Some (CRYPTO_SUCCESS, Some c6)" "md5.stands c6 op"
    using md5_update_stands [OF c5(2), of 64 op] lp by auto
  obtain c7 where c7: "xy_md5_update (Some c6) (Some (inner @ drop 16 d)) 16 = Some (CRYPTO_SUCCESS, Some c7)" "md5.stands c7 (op @ inner)"
    using md5_update_stands [OF c6(2), of 16 "inner @ drop 16 d"] li by auto
  obtain c8 where c8: "xy_md5_final (Some c7) (Some (inner @ drop 16 d))
      = Some (CRYPTO_SUCCESS, Some c8, Some (md5_digest (op @ inner) @ drop 16 d))"
    using md5_final_stands [OF c7(2), of "inner @ drop 16 d"] li by auto
  have spec: "hmac_spec md5_digest key data = md5_digest (op @ inner)"
    by (simp add: hmac_spec_def K_def [symmetric] ip_def op_def inner_def)
  show ?thesis
    unfolding xy_hmac_md5_def option.case prod.case bind key_read Option.bind.bind_lunit pad_write [OF kb] K(1) [symmetric] Let_def
      HMAC_IPAD_def HMAC_OPAD_def ip_def [symmetric] op_def [symmetric] c1(1) c2(1) c3(1) c4 c5(1) c6(1) c7(1) c8 snd_conv spec
    by simp
qed

text \<open>
  C19. \<open>xy_hmac_sha256\<close> and \<open>xy_hmac_md5\<close> compute the keyed hash of RFC 2104 for keys and messages of
  every length: the hash of the key with one pad followed by the hash of the key with the other
  pad and the message, a key longer than a block being replaced by its hash.
\<close>
theorem hmac_is_rfc2104:
  assumes "unat key_len = length key" "unat data_len = length data" "32 \<le> length d" "32 \<le> length tk"
  shows "xy_hmac_sha256 ctx tk (Some key) key_len (Some data) data_len (Some d)
      = Some (CRYPTO_SUCCESS, Some (hmac_spec sha256_digest key data @ drop 32 d))
    \<and> xy_hmac_md5 ctx tk (Some key) key_len (Some data) data_len (Some d)
      = Some (CRYPTO_SUCCESS, Some (hmac_spec md5_digest key data @ drop 16 d))"
  using hmac_sha256_nested [OF assms] hmac_md5_nested [OF assms(1,2), of d tk ctx] assms(3,4) by simp

lemma hmac_is_rfc2104_witness:
  "xy_hmac_sha256 (\<lparr>hc_state = [], hc_count = 0, hc_buffer = []\<rparr>) (replicate 32 0) (Some (replicate 70 0xAA)) 70 (Some [1, 2]) 2 (Some (replicate 32 0))
    = Some (CRYPTO_SUCCESS, Some (hmac_spec sha256_digest (replicate 70 0xAA) [1, 2]))
   \<and> xy_hmac_md5 (\<lparr>hc_state = [], hc_count = 0, hc_buffer = []\<rparr>) (replicate 32 0) (Some (replicate 70 0xAA)) 70 (Some [1, 2]) 2 (Some (replicate 32 0))
    = Some (CRYPTO_SUCCESS, Some (hmac_spec md5_digest (replicate 70 0xAA) [1, 2] @ replicate 16 0))"
  using hmac_is_rfc2104 [of 70 "replicate 70 0xAA" 2 "[1, 2]" "replicate 32 0" "replicate 32 0" "\<lparr>hc_state = [], hc_count = 0, hc_buffer = []\<rparr>"] by simp

end
