(* ===== verification/Xy_Crc.thy ===== *)
theory Xy_Crc
  imports Xy_Prelude
begin

text \<open>
  The checksums of \<open>components/crypto/xy_crc/xy_crc.c\<close>: the generic calculation, the table-driven
  one, the choice between them, and the named variants, each a configuration. The result \<open>None\<close>
  is undefined behaviour: an access outside the data, or a shift by a negative number, which
  \<open>width - 8\<close> is for a width below 8.
\<close>

record crc_cfg =
  cc_width :: u8
  cc_polynomial :: u64
  cc_init_value :: u64
  cc_xor_out :: u64
  cc_ref_in :: u8
  cc_ref_out :: u8

definition reflect8 :: "u8 \<Rightarrow> u8" where
  "reflect8 value = fold (\<lambda>i reflected. if value AND push_bit i 1 \<noteq> 0 then reflected OR push_bit (7 - i) 1 else reflected)
     [0..<8] 0"

definition reflect :: "u64 \<Rightarrow> u8 \<Rightarrow> u64" where
  "reflect value width =
     fold (\<lambda>i reflected. if value AND push_bit i 1 \<noteq> 0 then reflected OR push_bit (unat width - 1 - i) 1 else reflected)
       [0..<unat width] 0"

definition crc_mask :: "u8 \<Rightarrow> u64" where
  "crc_mask width = (if width < 64 then push_bit (unat width) 1 - 1 else 0xFFFFFFFFFFFFFFFF)"

text \<open>One step of the inner loop, and the loop over the eight bits.\<close>

definition crc_shift :: "crc_cfg \<Rightarrow> u64 \<Rightarrow> u64" where
  "crc_shift cfg crc =
     ((if crc AND push_bit (unat (cc_width cfg) - 1) 1 \<noteq> 0 then push_bit 1 crc XOR cc_polynomial cfg
       else push_bit 1 crc) AND crc_mask (cc_width cfg))"

definition crc_place :: "crc_cfg \<Rightarrow> u8 \<Rightarrow> u64 option" where
  "crc_place cfg b = (if unat (cc_width cfg) < 8 then None else Some (push_bit (unat (cc_width cfg) - 8) (ucast b)))"

definition crc_byte :: "crc_cfg \<Rightarrow> u64 \<Rightarrow> u8 \<Rightarrow> u64 option" where
  "crc_byte cfg crc b = do {
     x \<leftarrow> crc_place cfg (if cc_ref_in cfg \<noteq> 0 then reflect8 b else b);
     Some ((crc_shift cfg ^^ 8) (crc XOR x)) }"

fun crc_loop :: "crc_cfg \<Rightarrow> u8 list \<Rightarrow> nat \<Rightarrow> u64 \<Rightarrow> u64 option" where
  "crc_loop cfg data 0 crc = Some crc"
| "crc_loop cfg [] (Suc n) crc = None"
| "crc_loop cfg (b # bs) (Suc n) crc = do { crc' \<leftarrow> crc_byte cfg crc b; crc_loop cfg bs n crc' }"

definition crc_finish :: "crc_cfg \<Rightarrow> u64 \<Rightarrow> u64" where
  "crc_finish cfg crc =
     (((if cc_ref_out cfg \<noteq> 0 then reflect crc (cc_width cfg) else crc) XOR cc_xor_out cfg) AND crc_mask (cc_width cfg))"

definition crc_refused :: "crc_cfg \<Rightarrow> bool" where
  "crc_refused cfg \<longleftrightarrow> cc_width cfg > 64 \<or> cc_width cfg < 2"

definition xy_crc_calc :: "crc_cfg option \<Rightarrow> u8 list option \<Rightarrow> u16 \<Rightarrow> u64 option" where
  "xy_crc_calc cfg data length' =
     (case (cfg, data) of
        (Some c, Some d) \<Rightarrow>
          if crc_refused c then Some 0
          else map_option (crc_finish c) (crc_loop c d (unat length') (cc_init_value c))
      | _ \<Rightarrow> Some 0)"

subsection \<open>Table-driven calculation\<close>

fun crc_table_loop :: "crc_cfg \<Rightarrow> u64 list \<Rightarrow> u8 list \<Rightarrow> nat \<Rightarrow> u64 \<Rightarrow> u64 option" where
  "crc_table_loop cfg table data 0 crc = Some crc"
| "crc_table_loop cfg table [] (Suc n) crc = None"
| "crc_table_loop cfg table (b # bs) (Suc n) crc = do {
     let b' = (if cc_ref_in cfg \<noteq> 0 then reflect8 b else b);
     t \<leftarrow> mem_load table (unat (ucast (crc XOR ucast b') :: u8));
     crc_table_loop cfg table bs n (t AND crc_mask (cc_width cfg)) }"

definition xy_crc_calc_table :: "crc_cfg option \<Rightarrow> u64 list option \<Rightarrow> u8 list option \<Rightarrow> u16 \<Rightarrow> u64 option" where
  "xy_crc_calc_table cfg table data length' =
     (case (cfg, table, data) of
        (Some c, Some t, Some d) \<Rightarrow>
          if crc_refused c then Some 0
          else map_option (crc_finish c) (crc_table_loop c t d (unat length') (cc_init_value c))
      | _ \<Rightarrow> Some 0)"

fun crc_make_loop :: "crc_cfg \<Rightarrow> nat list \<Rightarrow> u64 list \<Rightarrow> u64 list option" where
  "crc_make_loop cfg [] table = Some table"
| "crc_make_loop cfg (i # is) table = do {
     x \<leftarrow> crc_place cfg (of_nat i);
     table' \<leftarrow> mem_store table i ((crc_shift cfg ^^ 8) x);
     crc_make_loop cfg is table' }"

text \<open>The return value and the table.\<close>

definition xy_crc_make_table :: "crc_cfg option \<Rightarrow> u64 list option \<Rightarrow> (int \<times> u64 list option) option" where
  "xy_crc_make_table cfg table =
     (case (cfg, table) of
        (Some c, Some t) \<Rightarrow>
          if crc_refused c then Some (-1, table)
          else do { t' \<leftarrow> crc_make_loop c [0..<256] t; Some (0, Some t') }
      | _ \<Rightarrow> Some (-1, table))"

subsection \<open>Choice of the method\<close>

datatype crc_method = CRC_METHOD_SW | CRC_METHOD_TABLE | CRC_METHOD_HW

record crc_opt =
  co_method :: crc_method
  co_use_dma :: u8

text \<open>
  \<open>XY_CRC_HW_SUPPORT\<close> is defined (as 0), so the test \<open>#if defined(XY_CRC_HW_SUPPORT)\<close> compiles the
  hardware branch in; it returns 0.
\<close>

definition xy_crc_calc_hw :: "crc_cfg \<Rightarrow> u8 list \<Rightarrow> u16 \<Rightarrow> u8 \<Rightarrow> u64" where
  "xy_crc_calc_hw cfg data length' use_dma = 0"

text \<open>The static table of \<open>xy_crc_calc_ex\<close> and its flag.\<close>

record crc_static =
  cs_table :: "u64 list"
  cs_initialized :: u8

definition xy_crc_calc_ex ::
  "crc_static \<Rightarrow> crc_cfg option \<Rightarrow> u8 list option \<Rightarrow> u16 \<Rightarrow> crc_opt option \<Rightarrow> (u64 \<times> crc_static) option" where
  "xy_crc_calc_ex st cfg data length' opt =
     (case (cfg, data, opt) of
        (Some c, Some d, Some o') \<Rightarrow>
          if crc_refused c then Some (0, st)
          else (case co_method o' of
            CRC_METHOD_SW \<Rightarrow> do { r \<leftarrow> xy_crc_calc cfg data length'; Some (r, st) }
          | CRC_METHOD_TABLE \<Rightarrow> do {
              st' \<leftarrow> (if cs_initialized st = 0 then do {
                  (rc, t) \<leftarrow> xy_crc_make_table cfg (Some (cs_table st));
                  t' \<leftarrow> t;
                  Some (st\<lparr>cs_table := t', cs_initialized := 1\<rparr>) }
                else Some st);
              r \<leftarrow> xy_crc_calc_table cfg (Some (cs_table st')) data length';
              Some (r, st') }
          | CRC_METHOD_HW \<Rightarrow> Some (xy_crc_calc_hw c d length' (co_use_dma o'), st))
      | _ \<Rightarrow> Some (0, st))"

subsection \<open>The variants\<close>

text \<open>
  Every variant passes a constant configuration and converts the result to its type.
  \<open>xy_crc64_redis_cached\<close> is not compiled: \<open>XY_CRC64_REDIS_CACHED_ENABLE\<close> is nowhere defined.
\<close>

definition crc_config :: "u8 \<Rightarrow> u64 \<Rightarrow> u64 \<Rightarrow> u64 \<Rightarrow> u8 \<Rightarrow> u8 \<Rightarrow> crc_cfg" where
  "crc_config width polynomial init_value xor_out ref_in ref_out =
     \<lparr>cc_width = width, cc_polynomial = polynomial, cc_init_value = init_value, cc_xor_out = xor_out,
      cc_ref_in = ref_in, cc_ref_out = ref_out\<rparr>"

definition xy_crc2_g704 :: "u8 list option \<Rightarrow> u16 \<Rightarrow> u8 option" where
  "xy_crc2_g704 data length' =
     map_option ucast (xy_crc_calc (Some (crc_config 2 0x3 0x0 0x0 1 1)) data length')"

definition xy_crc2_gsm :: "u8 list option \<Rightarrow> u16 \<Rightarrow> u8 option" where
  "xy_crc2_gsm data length' =
     map_option ucast (xy_crc_calc (Some (crc_config 2 0x3 0x0 0x0 0 0)) data length')"

definition xy_crc3_rohc :: "u8 list option \<Rightarrow> u16 \<Rightarrow> u8 option" where
  "xy_crc3_rohc data length' =
     map_option ucast (xy_crc_calc (Some (crc_config 3 0x3 0x7 0x0 1 1)) data length')"

definition xy_crc3_gsm :: "u8 list option \<Rightarrow> u16 \<Rightarrow> u8 option" where
  "xy_crc3_gsm data length' =
     map_option ucast (xy_crc_calc (Some (crc_config 3 0x3 0x0 0x7 0 0)) data length')"

definition xy_crc8_dvb_s2 :: "u8 list option \<Rightarrow> u16 \<Rightarrow> u8 option" where
  "xy_crc8_dvb_s2 data length' =
     map_option ucast (xy_crc_calc (Some (crc_config 8 0xd5 0x0 0x0 0 0)) data length')"

definition xy_crc8_ebu :: "u8 list option \<Rightarrow> u16 \<Rightarrow> u8 option" where
  "xy_crc8_ebu data length' =
     map_option ucast (xy_crc_calc (Some (crc_config 8 0x1d 0xff 0x0 1 1)) data length')"

definition xy_crc8_bluetooth_hid :: "u8 list option \<Rightarrow> u16 \<Rightarrow> u8 option" where
  "xy_crc8_bluetooth_hid data length' =
     map_option ucast (xy_crc_calc (Some (crc_config 8 0xa7 0x0 0x0 1 1)) data length')"

definition xy_crc8_mifare_mad :: "u8 list option \<Rightarrow> u16 \<Rightarrow> u8 option" where
  "xy_crc8_mifare_mad data length' =
     map_option ucast (xy_crc_calc (Some (crc_config 8 0x1d 0xc7 0x0 0 0)) data length')"

definition xy_crc4_itu :: "u8 list option \<Rightarrow> u16 \<Rightarrow> u8 option" where
  "xy_crc4_itu data length' =
     map_option ucast (xy_crc_calc (Some (crc_config 4 0x3 0x0 0x0 1 1)) data length')"

definition xy_crc4_interlaken :: "u8 list option \<Rightarrow> u16 \<Rightarrow> u8 option" where
  "xy_crc4_interlaken data length' =
     map_option ucast (xy_crc_calc (Some (crc_config 4 0x3 0xf 0xf 0 0)) data length')"

definition xy_crc5_epc :: "u8 list option \<Rightarrow> u16 \<Rightarrow> u8 option" where
  "xy_crc5_epc data length' =
     map_option ucast (xy_crc_calc (Some (crc_config 5 0x9 0x9 0x0 0 0)) data length')"

definition xy_crc5_itu :: "u8 list option \<Rightarrow> u16 \<Rightarrow> u8 option" where
  "xy_crc5_itu data length' =
     map_option ucast (xy_crc_calc (Some (crc_config 5 0x15 0x0 0x0 1 1)) data length')"

definition xy_crc5_usb :: "u8 list option \<Rightarrow> u16 \<Rightarrow> u8 option" where
  "xy_crc5_usb data length' =
     map_option ucast (xy_crc_calc (Some (crc_config 5 0x5 0x1f 0x1f 1 1)) data length')"

definition xy_crc6_gsm :: "u8 list option \<Rightarrow> u16 \<Rightarrow> u8 option" where
  "xy_crc6_gsm data length' =
     map_option ucast (xy_crc_calc (Some (crc_config 6 0x2f 0x0 0x3f 0 0)) data length')"

definition xy_crc6_cdma2000a :: "u8 list option \<Rightarrow> u16 \<Rightarrow> u8 option" where
  "xy_crc6_cdma2000a data length' =
     map_option ucast (xy_crc_calc (Some (crc_config 6 0x27 0x3f 0x0 0 0)) data length')"

definition xy_crc6_g704 :: "u8 list option \<Rightarrow> u16 \<Rightarrow> u8 option" where
  "xy_crc6_g704 data length' =
     map_option ucast (xy_crc_calc (Some (crc_config 6 0x3 0x0 0x0 0 0)) data length')"

definition xy_crc6_darc :: "u8 list option \<Rightarrow> u16 \<Rightarrow> u8 option" where
  "xy_crc6_darc data length' =
     map_option ucast (xy_crc_calc (Some (crc_config 6 0x19 0x0 0x0 0 0)) data length')"

definition xy_crc7_mmc :: "u8 list option \<Rightarrow> u16 \<Rightarrow> u8 option" where
  "xy_crc7_mmc data length' =
     map_option ucast (xy_crc_calc (Some (crc_config 7 0x9 0x0 0x0 0 0)) data length')"

definition xy_crc7_umts :: "u8 list option \<Rightarrow> u16 \<Rightarrow> u8 option" where
  "xy_crc7_umts data length' =
     map_option ucast (xy_crc_calc (Some (crc_config 7 0x45 0x0 0x0 0 0)) data length')"

definition xy_crc7_darc :: "u8 list option \<Rightarrow> u16 \<Rightarrow> u8 option" where
  "xy_crc7_darc data length' =
     map_option ucast (xy_crc_calc (Some (crc_config 7 0x9 0x0 0x0 0 0)) data length')"

definition xy_crc8_1wire :: "u8 list option \<Rightarrow> u16 \<Rightarrow> u8 option" where
  "xy_crc8_1wire data length' =
     map_option ucast (xy_crc_calc (Some (crc_config 8 0x31 0x0 0x0 1 1)) data length')"

definition xy_crc8_gsm_a :: "u8 list option \<Rightarrow> u16 \<Rightarrow> u8 option" where
  "xy_crc8_gsm_a data length' =
     map_option ucast (xy_crc_calc (Some (crc_config 8 0x1d 0x0 0x0 0 0)) data length')"

definition xy_crc8_i_code :: "u8 list option \<Rightarrow> u16 \<Rightarrow> u8 option" where
  "xy_crc8_i_code data length' =
     map_option ucast (xy_crc_calc (Some (crc_config 8 0x1d 0xfd 0x0 0 0)) data length')"

definition xy_crc8_opensafety :: "u8 list option \<Rightarrow> u16 \<Rightarrow> u8 option" where
  "xy_crc8_opensafety data length' =
     map_option ucast (xy_crc_calc (Some (crc_config 8 0x2f 0x0 0x0 0 0)) data length')"

definition xy_crc8_wcdma :: "u8 list option \<Rightarrow> u16 \<Rightarrow> u8 option" where
  "xy_crc8_wcdma data length' =
     map_option ucast (xy_crc_calc (Some (crc_config 8 0x9b 0x0 0x0 1 1)) data length')"

definition xy_crc8_cdma2000 :: "u8 list option \<Rightarrow> u16 \<Rightarrow> u8 option" where
  "xy_crc8_cdma2000 data length' =
     map_option ucast (xy_crc_calc (Some (crc_config 8 0x9b 0xff 0x0 0 0)) data length')"

definition xy_crc8_normal :: "u8 list option \<Rightarrow> u16 \<Rightarrow> u8 option" where
  "xy_crc8_normal data length' =
     map_option ucast (xy_crc_calc (Some (crc_config 8 0x7 0x0 0x0 0 0)) data length')"

definition xy_crc8_itu :: "u8 list option \<Rightarrow> u16 \<Rightarrow> u8 option" where
  "xy_crc8_itu data length' =
     map_option ucast (xy_crc_calc (Some (crc_config 8 0x7 0x0 0x55 0 0)) data length')"

definition xy_crc8_rohc :: "u8 list option \<Rightarrow> u16 \<Rightarrow> u8 option" where
  "xy_crc8_rohc data length' =
     map_option ucast (xy_crc_calc (Some (crc_config 8 0x7 0xff 0x0 1 1)) data length')"

definition xy_crc8_maxim :: "u8 list option \<Rightarrow> u16 \<Rightarrow> u8 option" where
  "xy_crc8_maxim data length' =
     map_option ucast (xy_crc_calc (Some (crc_config 8 0x31 0x0 0x0 1 1)) data length')"

definition xy_crc8_sae_j1850 :: "u8 list option \<Rightarrow> u16 \<Rightarrow> u8 option" where
  "xy_crc8_sae_j1850 data length' =
     map_option ucast (xy_crc_calc (Some (crc_config 8 0x1d 0xff 0xff 0 0)) data length')"

definition xy_crc8_autosar :: "u8 list option \<Rightarrow> u16 \<Rightarrow> u8 option" where
  "xy_crc8_autosar data length' =
     map_option ucast (xy_crc_calc (Some (crc_config 8 0x2f 0xff 0xff 0 0)) data length')"

definition xy_crc16_ccitt_false :: "u8 list option \<Rightarrow> u16 \<Rightarrow> u16 option" where
  "xy_crc16_ccitt_false data length' =
     map_option ucast (xy_crc_calc (Some (crc_config 16 0x1021 0xffff 0x0 0 0)) data length')"

definition xy_crc16_x25 :: "u8 list option \<Rightarrow> u16 \<Rightarrow> u16 option" where
  "xy_crc16_x25 data length' =
     map_option ucast (xy_crc_calc (Some (crc_config 16 0x1021 0xffff 0xffff 1 1)) data length')"

definition xy_crc16_opensafety_b :: "u8 list option \<Rightarrow> u16 \<Rightarrow> u16 option" where
  "xy_crc16_opensafety_b data length' =
     map_option ucast (xy_crc_calc (Some (crc_config 16 0x755b 0x0 0x0 0 0)) data length')"

definition xy_crc16_profibus_arc :: "u8 list option \<Rightarrow> u16 \<Rightarrow> u16 option" where
  "xy_crc16_profibus_arc data length' =
     map_option ucast (xy_crc_calc (Some (crc_config 16 0x1dcf 0xffff 0xffff 1 1)) data length')"

definition xy_crc16_ibm :: "u8 list option \<Rightarrow> u16 \<Rightarrow> u16 option" where
  "xy_crc16_ibm data length' =
     map_option ucast (xy_crc_calc (Some (crc_config 16 0x8005 0x0 0x0 1 1)) data length')"

definition xy_crc16_maxim :: "u8 list option \<Rightarrow> u16 \<Rightarrow> u16 option" where
  "xy_crc16_maxim data length' =
     map_option ucast (xy_crc_calc (Some (crc_config 16 0x8005 0x0 0xffff 1 1)) data length')"

definition xy_crc16_modbus :: "u8 list option \<Rightarrow> u16 \<Rightarrow> u16 option" where
  "xy_crc16_modbus data length' =
     map_option ucast (xy_crc_calc (Some (crc_config 16 0x8005 0xffff 0x0 1 1)) data length')"

definition xy_crc16_ccitt :: "u8 list option \<Rightarrow> u16 \<Rightarrow> u16 option" where
  "xy_crc16_ccitt data length' =
     map_option ucast (xy_crc_calc (Some (crc_config 16 0x1021 0x0 0x0 1 1)) data length')"

definition xy_crc16_xmodem :: "u8 list option \<Rightarrow> u16 \<Rightarrow> u16 option" where
  "xy_crc16_xmodem data length' =
     map_option ucast (xy_crc_calc (Some (crc_config 16 0x1021 0x0 0x0 0 0)) data length')"

definition xy_crc16_dnp :: "u8 list option \<Rightarrow> u16 \<Rightarrow> u16 option" where
  "xy_crc16_dnp data length' =
     map_option ucast (xy_crc_calc (Some (crc_config 16 0x3d65 0x0 0xffff 1 1)) data length')"

definition xy_crc16_usb :: "u8 list option \<Rightarrow> u16 \<Rightarrow> u16 option" where
  "xy_crc16_usb data length' =
     map_option ucast (xy_crc_calc (Some (crc_config 16 0x8005 0xffff 0xffff 1 1)) data length')"

definition xy_crc16_arc :: "u8 list option \<Rightarrow> u16 \<Rightarrow> u16 option" where
  "xy_crc16_arc data length' =
     map_option ucast (xy_crc_calc (Some (crc_config 16 0x8005 0x0 0x0 1 1)) data length')"

definition xy_crc16_teledisk :: "u8 list option \<Rightarrow> u16 \<Rightarrow> u16 option" where
  "xy_crc16_teledisk data length' =
     map_option ucast (xy_crc_calc (Some (crc_config 16 0xa097 0x0 0x0 0 0)) data length')"

definition xy_crc32_normal :: "u8 list option \<Rightarrow> u16 \<Rightarrow> u32 option" where
  "xy_crc32_normal data length' =
     map_option ucast (xy_crc_calc (Some (crc_config 32 0x4c11db7 0xffffffff 0xffffffff 1 1)) data length')"

definition xy_crc32_jamcrc :: "u8 list option \<Rightarrow> u16 \<Rightarrow> u32 option" where
  "xy_crc32_jamcrc data length' =
     map_option ucast (xy_crc_calc (Some (crc_config 32 0x4c11db7 0xffffffff 0x0 1 1)) data length')"

definition xy_crc32_c :: "u8 list option \<Rightarrow> u16 \<Rightarrow> u32 option" where
  "xy_crc32_c data length' =
     map_option ucast (xy_crc_calc (Some (crc_config 32 0x1edc6f41 0xffffffff 0xffffffff 1 1)) data length')"

definition xy_crc32_cksum :: "u8 list option \<Rightarrow> u16 \<Rightarrow> u32 option" where
  "xy_crc32_cksum data length' =
     map_option ucast (xy_crc_calc (Some (crc_config 32 0x4c11db7 0x0 0xffffffff 0 0)) data length')"

definition xy_crc32_iso_hdlc :: "u8 list option \<Rightarrow> u16 \<Rightarrow> u32 option" where
  "xy_crc32_iso_hdlc data length' =
     map_option ucast (xy_crc_calc (Some (crc_config 32 0x4c11db7 0xffffffff 0xffffffff 1 1)) data length')"

definition xy_crc32_d :: "u8 list option \<Rightarrow> u16 \<Rightarrow> u32 option" where
  "xy_crc32_d data length' =
     map_option ucast (xy_crc_calc (Some (crc_config 32 0xa833982b 0xffffffff 0xffffffff 1 1)) data length')"

definition xy_crc32_posix :: "u8 list option \<Rightarrow> u16 \<Rightarrow> u32 option" where
  "xy_crc32_posix data length' =
     map_option ucast (xy_crc_calc (Some (crc_config 32 0x4c11db7 0x0 0xffffffff 0 0)) data length')"

definition xy_crc32_mpeg2 :: "u8 list option \<Rightarrow> u16 \<Rightarrow> u32 option" where
  "xy_crc32_mpeg2 data length' =
     map_option ucast (xy_crc_calc (Some (crc_config 32 0x4c11db7 0xffffffff 0x0 0 0)) data length')"

definition xy_crc32_aixm :: "u8 list option \<Rightarrow> u16 \<Rightarrow> u32 option" where
  "xy_crc32_aixm data length' =
     map_option ucast (xy_crc_calc (Some (crc_config 32 0x814141ab 0x0 0x0 0 0)) data length')"

definition xy_crc32_autosar :: "u8 list option \<Rightarrow> u16 \<Rightarrow> u32 option" where
  "xy_crc32_autosar data length' =
     map_option ucast (xy_crc_calc (Some (crc_config 32 0xf4acfb13 0xffffffff 0xffffffff 1 1)) data length')"

definition xy_crc32_base91d :: "u8 list option \<Rightarrow> u16 \<Rightarrow> u32 option" where
  "xy_crc32_base91d data length' =
     map_option ucast (xy_crc_calc (Some (crc_config 32 0xa833982b 0xffffffff 0xffffffff 1 1)) data length')"

definition xy_crc32_bzip2 :: "u8 list option \<Rightarrow> u16 \<Rightarrow> u32 option" where
  "xy_crc32_bzip2 data length' =
     map_option ucast (xy_crc_calc (Some (crc_config 32 0x4c11db7 0xffffffff 0xffffffff 0 0)) data length')"

definition xy_crc32_cd_rom_edc :: "u8 list option \<Rightarrow> u16 \<Rightarrow> u32 option" where
  "xy_crc32_cd_rom_edc data length' =
     map_option ucast (xy_crc_calc (Some (crc_config 32 0x8001801b 0x0 0x0 1 1)) data length')"

definition xy_crc64_ecma :: "u8 list option \<Rightarrow> u16 \<Rightarrow> u64 option" where
  "xy_crc64_ecma data length' =
     map_option ucast (xy_crc_calc (Some (crc_config 64 0x42f0e1eba9ea3693 0x0 0x0 0 0)) data length')"

definition xy_crc64_jones :: "u8 list option \<Rightarrow> u16 \<Rightarrow> u64 option" where
  "xy_crc64_jones data length' =
     map_option ucast (xy_crc_calc (Some (crc_config 64 0xad93d23594c935a9 0xffffffffffffffff 0x0 1 1)) data length')"

definition xy_crc64_go_ecma :: "u8 list option \<Rightarrow> u16 \<Rightarrow> u64 option" where
  "xy_crc64_go_ecma data length' =
     map_option ucast (xy_crc_calc (Some (crc_config 64 0x42f0e1eba9ea3693 0xffffffffffffffff 0xffffffffffffffff 0 0)) data length')"

definition xy_crc64_xz :: "u8 list option \<Rightarrow> u16 \<Rightarrow> u64 option" where
  "xy_crc64_xz data length' =
     map_option ucast (xy_crc_calc (Some (crc_config 64 0x42f0e1eba9ea3693 0xffffffffffffffff 0xffffffffffffffff 1 1)) data length')"

definition xy_crc64_iso :: "u8 list option \<Rightarrow> u16 \<Rightarrow> u64 option" where
  "xy_crc64_iso data length' =
     map_option ucast (xy_crc_calc (Some (crc_config 64 0x1b 0xffffffffffffffff 0xffffffffffffffff 1 1)) data length')"

definition xy_crc64_ms :: "u8 list option \<Rightarrow> u16 \<Rightarrow> u64 option" where
  "xy_crc64_ms data length' =
     map_option ucast (xy_crc_calc (Some (crc_config 64 0x259c84cba6426349 0xffffffffffffffff 0x0 1 1)) data length')"

definition xy_crc64_go_iso :: "u8 list option \<Rightarrow> u16 \<Rightarrow> u64 option" where
  "xy_crc64_go_iso data length' =
     map_option ucast (xy_crc_calc (Some (crc_config 64 0x1b 0xffffffffffffffff 0xffffffffffffffff 1 1)) data length')"

definition xy_crc64_we :: "u8 list option \<Rightarrow> u16 \<Rightarrow> u64 option" where
  "xy_crc64_we data length' =
     map_option ucast (xy_crc_calc (Some (crc_config 64 0x42f0e1eba9ea3693 0xffffffffffffffff 0xffffffffffffffff 0 0)) data length')"

definition xy_crc64_redis :: "u8 list option \<Rightarrow> u16 \<Rightarrow> u64 option" where
  "xy_crc64_redis data length' =
     map_option ucast (xy_crc_calc (Some (crc_config 64 0xad93d23594c935a9 0x0 0x0 1 1)) data length')"

end
