(* ===== verification/Xy_Crc_Correct.thy ===== *)
theory Xy_Crc_Correct
  imports Xy_Crc Mb_Crc
begin

text \<open>
  The generic calculation is the shift register of the polynomial fed bit by bit, for every width
  from 8 on; the table-driven one agrees with it for width 8 only; the Modbus variant is the
  checksum of the Modbus slave and of the TLV codec.
\<close>

subsection \<open>Bits\<close>

text \<open>The lowest \<open>w\<close> bits, the highest first.\<close>

definition to_bits :: "nat \<Rightarrow> 'a::len word \<Rightarrow> bool list" where
  "to_bits w v = map (bit v) (rev [0..<w])"

lemma length_to_bits [simp]: "length (to_bits w v) = w"
  by (simp add: to_bits_def)

lemma nth_to_bits [simp]: "i < w \<Longrightarrow> to_bits w v ! i = bit v (w - 1 - i)"
  by (simp add: to_bits_def rev_nth)

lemma to_bits_eqI: "(\<And>k. k < w \<Longrightarrow> bit v k = bs ! (w - 1 - k)) \<Longrightarrow> length bs = w \<Longrightarrow> to_bits w v = bs"
  by (intro nth_equalityI) simp_all

text \<open>The register of a checksum: shifted by one, with the polynomial added when a one comes out.\<close>

definition lfsr_step :: "bool list \<Rightarrow> bool list \<Rightarrow> bool \<Rightarrow> bool list" where
  "lfsr_step poly reg b =
     (if hd reg \<noteq> b then map2 (\<noteq>) (tl reg @ [False]) poly else tl reg @ [False])"

definition crc_input :: "bool \<Rightarrow> u8 list \<Rightarrow> bool list" where
  "crc_input ref_in data = concat (map (\<lambda>b. if ref_in then rev (to_bits 8 b) else to_bits 8 b) data)"

text \<open>The checksum of a configuration: register, reflection, final addition.\<close>

definition crc_reference :: "crc_cfg \<Rightarrow> u8 list \<Rightarrow> bool list" where
  "crc_reference cfg data =
     (let w = unat (cc_width cfg);
          reg = foldl (lfsr_step (to_bits w (cc_polynomial cfg))) (to_bits w (cc_init_value cfg))
            (crc_input (cc_ref_in cfg \<noteq> 0) data)
      in map2 (\<noteq>) (if cc_ref_out cfg \<noteq> 0 then rev reg else reg) (to_bits w (cc_xor_out cfg)))"

subsection \<open>The operations of the code on bits\<close>

lemma bit_set_iff: "(v AND push_bit i 1 \<noteq> 0) = bit (v :: 'a::len word) i"
  by (simp add: bit_iff_and_push_bit_not_eq_0)

lemma bit_one_at: "bit (push_bit m 1 :: 'a::len word) n \<longleftrightarrow> n = m \<and> n < LENGTH('a)"
  by (auto simp only: bit_push_bit_iff bit_1_iff) (auto simp: le_antisym)

lemma bit_crc_mask:
  assumes "unat w \<le> 64"
  shows "bit (crc_mask w) n \<longleftrightarrow> n < unat w"
proof (cases "w < 64")
  case True
  have "(push_bit (unat w) 1 :: u64) - 1 = mask (unat w)" by (simp add: mask_eq_exp_minus_1)
  then have "crc_mask w = mask (unat w)" using True unfolding crc_mask_def by (simp only: if_True)
  then show ?thesis using assms by (auto simp: bit_mask_iff)
next
  case False
  then have "unat w = 64" using assms by (simp add: word_less_nat_alt)
  moreover have "(0xFFFFFFFFFFFFFFFF :: u64) = - 1" by simp
  then have "crc_mask w = - 1" using False unfolding crc_mask_def by (simp only: if_False)
  ultimately show ?thesis by (simp only: bit_minus_1_iff) simp
qed

lemma bit_shifted: "bit (push_bit 1 (c :: u64)) n \<longleftrightarrow> 0 < n \<and> n < 64 \<and> bit c (n - 1)"
  by (auto simp only: bit_push_bit_iff) auto

lemma bit_crc_shift:
  assumes "1 \<le> unat (cc_width cfg)" "unat (cc_width cfg) \<le> 64"
  shows "bit (crc_shift cfg c) n \<longleftrightarrow> n < unat (cc_width cfg) \<and>
    ((0 < n \<and> bit c (n - 1)) \<noteq> (bit c (unat (cc_width cfg) - 1) \<and> bit (cc_polynomial cfg) n))"
proof -
  have "bit (crc_shift cfg c) n \<longleftrightarrow> n < unat (cc_width cfg) \<and>
    (if bit c (unat (cc_width cfg) - 1) then bit (push_bit 1 c) n \<noteq> bit (cc_polynomial cfg) n else bit (push_bit 1 c) n)"
    unfolding crc_shift_def bit_set_iff bit_and_iff bit_crc_mask [OF assms(2)] by (auto simp only: bit_xor_iff split: if_splits)
  then show ?thesis unfolding bit_shifted using assms by auto
qed

lemma bit_reflect_fold:
  "k \<le> m \<Longrightarrow> m \<le> LENGTH('a) \<Longrightarrow>
   bit (fold (\<lambda>i r. if (v :: 'a::len word) AND push_bit i 1 \<noteq> 0 then r OR push_bit (m - 1 - i) 1 else r) [0..<k] (0 :: 'a word)) n
     \<longleftrightarrow> n < m \<and> m - 1 - n < k \<and> bit v (m - 1 - n)"
proof (induction k)
  case (Suc k)
  define F where "F = (\<lambda>i r. if v AND push_bit i 1 \<noteq> 0 then r OR push_bit (m - 1 - i) 1 else (r :: 'a word))"
  define r where "r = fold F [0..<k] 0"
  have "fold F [0..<Suc k] 0 = F k r" by (simp add: r_def)
  moreover have "bit (F k r) n \<longleftrightarrow> bit r n \<or> (bit v k \<and> n = m - 1 - k \<and> n < LENGTH('a))"
  proof (cases "bit v k")
    case True
    then have "F k r = r OR push_bit (m - 1 - k) 1" unfolding F_def bit_set_iff by (rule if_P)
    then show ?thesis using True by (simp only: bit_or_iff bit_one_at) simp
  next
    case False
    then have "F k r = r" unfolding F_def bit_set_iff by (rule if_not_P)
    then show ?thesis using False by simp
  qed
  moreover have "bit r n \<longleftrightarrow> n < m \<and> m - 1 - n < k \<and> bit v (m - 1 - n)"
    unfolding r_def F_def using Suc by simp
  moreover have "(n < m \<and> m - 1 - n < k \<and> bit v (m - 1 - n)) \<or> (bit v k \<and> n = m - 1 - k \<and> n < LENGTH('a))
      \<longleftrightarrow> n < m \<and> m - 1 - n < Suc k \<and> bit v (m - 1 - n)"
  proof (cases "n = m - 1 - k")
    case True
    then have "m - 1 - n = k" "n < m" "n < LENGTH('a)" using Suc.prems by linarith+
    then show ?thesis using True by simp
  next
    case False
    then have "m - 1 - n < Suc k \<longleftrightarrow> m - 1 - n < k" if "n < m" using that Suc.prems by linarith
    then show ?thesis using False by blast
  qed
  ultimately have "bit (fold F [0..<Suc k] 0) n \<longleftrightarrow> n < m \<and> m - 1 - n < Suc k \<and> bit v (m - 1 - n)"
    by (simp only:)
  then show ?case unfolding F_def .
qed simp

lemma bit_reflect8: "bit (reflect8 b) n \<longleftrightarrow> n < 8 \<and> bit b (7 - n)"
proof -
  have seven: "(8 :: nat) - 1 = 7" by simp
  have "bit (reflect8 b) n \<longleftrightarrow> n < 8 \<and> 7 - n < 8 \<and> bit b (7 - n)"
    unfolding reflect8_def using bit_reflect_fold [of 8 8 b n, unfolded seven] by (simp only: order_refl) simp
  then show ?thesis by auto
qed

lemma bit_reflect: "unat w \<le> 64 \<Longrightarrow> bit (reflect v w) n \<longleftrightarrow> n < unat w \<and> bit v (unat w - 1 - n)"
  using bit_reflect_fold [of "unat w" "unat w" v n] unfolding reflect_def by auto

lemma to_bits_reflect8: "to_bits 8 (reflect8 b) = rev (to_bits 8 b)"
  by (intro nth_equalityI) (auto simp: bit_reflect8 rev_nth)

lemma to_bits_reflect: "unat w \<le> 64 \<Longrightarrow> to_bits (unat w) (reflect v w) = rev (to_bits (unat w) v)"
  by (intro nth_equalityI) (auto simp: bit_reflect rev_nth)

lemma to_bits_xor: "to_bits w (a XOR b) = map2 (\<noteq>) (to_bits w a) (to_bits w b)"
  by (intro nth_equalityI) (auto simp: bit_xor_iff)

subsection \<open>The register\<close>

lemma length_lfsr_step: "length poly = length reg \<Longrightarrow> reg \<noteq> [] \<Longrightarrow> length (lfsr_step poly reg b) = length reg"
  by (simp add: lfsr_step_def)

lemma to_bits_crc_shift:
  assumes "1 \<le> unat (cc_width cfg)" "unat (cc_width cfg) \<le> 64"
  shows "to_bits (unat (cc_width cfg)) (crc_shift cfg c) =
    lfsr_step (to_bits (unat (cc_width cfg)) (cc_polynomial cfg)) (to_bits (unat (cc_width cfg)) c) False"
proof -
  let ?w = "unat (cc_width cfg)"
  have ne: "to_bits ?w c \<noteq> []" using assms by (simp flip: length_0_conv)
  have hd: "hd (to_bits ?w c) = bit c (?w - 1)" using assms ne by (simp add: hd_conv_nth)
  show ?thesis
  proof (intro nth_equalityI)
    show "length (to_bits ?w (crc_shift cfg c)) = length (lfsr_step (to_bits ?w (cc_polynomial cfg)) (to_bits ?w c) False)"
      using ne by (simp add: length_lfsr_step)
    fix i assume "i < length (to_bits ?w (crc_shift cfg c))"
    then have i: "i < ?w" by simp
    then have "(tl (to_bits ?w c) @ [False]) ! i = (0 < ?w - 1 - i \<and> bit c (?w - 1 - i - 1))"
      by (auto simp: nth_append nth_tl)
    then show "to_bits ?w (crc_shift cfg c) ! i = lfsr_step (to_bits ?w (cc_polynomial cfg)) (to_bits ?w c) False ! i"
      using i assms by (simp add: bit_crc_shift lfsr_step_def hd)
  qed
qed

lemma lfsr_step_input:
  assumes "length poly = length reg" "length (b # bs) = length reg"
  shows "lfsr_step poly (map2 (\<noteq>) reg (b # bs)) False = map2 (\<noteq>) (lfsr_step poly reg b) (bs @ [False])"
proof -
  obtain h t where reg: "reg = h # t" using assms by (cases reg) auto
  show ?thesis unfolding reg
    by (intro nth_equalityI) (use assms reg in \<open>auto simp: lfsr_step_def nth_append\<close>)
qed

lemma foldl_lfsr_step:
  "length poly = length reg \<Longrightarrow> length bs \<le> length reg \<Longrightarrow>
   ((\<lambda>r. lfsr_step poly r False) ^^ length bs) (map2 (\<noteq>) reg (bs @ replicate (length reg - length bs) False)) =
   foldl (lfsr_step poly) reg bs"
proof (induction bs arbitrary: reg)
  case Nil
  then show ?case by (intro nth_equalityI) auto
next
  case (Cons b bs)
  let ?rest = "bs @ replicate (length reg - length (b # bs)) False"
  have "lfsr_step poly (map2 (\<noteq>) reg (b # ?rest)) False = map2 (\<noteq>) (lfsr_step poly reg b) (?rest @ [False])"
    using Cons.prems by (intro lfsr_step_input) auto
  moreover have "?rest @ [False] = bs @ replicate (length (lfsr_step poly reg b) - length bs) False"
  proof -
    have "reg \<noteq> []" using Cons.prems by auto
    then have "length (lfsr_step poly reg b) - length bs = Suc (length reg - length (b # bs))"
      using Cons.prems by (simp add: length_lfsr_step)
    then show ?thesis by (simp add: replicate_append_same)
  qed
  moreover have "length poly = length (lfsr_step poly reg b)" "length bs \<le> length (lfsr_step poly reg b)"
    using Cons.prems length_lfsr_step [of poly reg b] by (cases "reg = []"; simp)+
  ultimately show ?case using Cons.IH [of "lfsr_step poly reg b"]
    by (simp only: list.size add_Suc_right add_0_right funpow_Suc_right o_apply foldl_Cons append_Cons)
qed

lemma to_bits_crc_shifts:
  assumes "1 \<le> unat (cc_width cfg)" "unat (cc_width cfg) \<le> 64"
  shows "to_bits (unat (cc_width cfg)) ((crc_shift cfg ^^ n) c) =
    ((\<lambda>r. lfsr_step (to_bits (unat (cc_width cfg)) (cc_polynomial cfg)) r False) ^^ n) (to_bits (unat (cc_width cfg)) c)"
  by (induction n) (simp_all add: to_bits_crc_shift [OF assms])

lemma to_bits_placed:
  assumes "8 \<le> w" "w \<le> 64"
  shows "to_bits w (push_bit (w - 8) (ucast (b :: u8)) :: u64) = to_bits 8 b @ replicate (w - 8) False"
proof (intro nth_equalityI)
  fix i assume "i < length (to_bits w (push_bit (w - 8) (ucast b) :: u64))"
  then have i: "i < w" by simp
  have "bit (push_bit (w - 8) (ucast b) :: u64) (w - 1 - i) \<longleftrightarrow> i < 8 \<and> bit b (7 - i)"
  proof (cases "i < 8")
    case True
    then have "w - 8 \<le> w - 1 - i" "w - 1 - i - (w - 8) = 7 - i" "w - 1 - i < 64" using i assms by linarith+
    moreover have "7 - i < 64" by simp
    ultimately show ?thesis using True by (simp only: bit_push_bit_iff bit_ucast_iff) simp
  next
    case False
    then have "\<not> w - 8 \<le> w - 1 - i" using i assms by linarith
    then show ?thesis using False by (simp add: bit_push_bit_iff)
  qed
  then show "to_bits w (push_bit (w - 8) (ucast b) :: u64) ! i = (to_bits 8 b @ replicate (w - 8) False) ! i"
    using i by (simp add: nth_append)
qed (use assms in simp)

lemma crc_byte_bits:
  assumes "8 \<le> unat (cc_width cfg)" "unat (cc_width cfg) \<le> 64"
  shows "\<exists>c'. crc_byte cfg c b = Some c' \<and>
    to_bits (unat (cc_width cfg)) c' = foldl (lfsr_step (to_bits (unat (cc_width cfg)) (cc_polynomial cfg)))
      (to_bits (unat (cc_width cfg)) c) (if cc_ref_in cfg \<noteq> 0 then rev (to_bits 8 b) else to_bits 8 b)"
proof -
  let ?w = "unat (cc_width cfg)"
  define b' where "b' = (if cc_ref_in cfg \<noteq> 0 then reflect8 b else b)"
  define x :: u64 where "x = push_bit (?w - 8) (ucast b')"
  have "crc_byte cfg c b = Some ((crc_shift cfg ^^ 8) (c XOR x))"
    using assms by (simp add: crc_byte_def crc_place_def b'_def x_def)
  moreover have "to_bits ?w (c XOR x) = map2 (\<noteq>) (to_bits ?w c) (to_bits 8 b' @ replicate (?w - 8) False)"
    using assms unfolding x_def to_bits_xor by (simp add: to_bits_placed)
  moreover have "to_bits 8 b' = (if cc_ref_in cfg \<noteq> 0 then rev (to_bits 8 b) else to_bits 8 b)"
    by (simp add: b'_def to_bits_reflect8)
  moreover have "((\<lambda>r. lfsr_step (to_bits ?w (cc_polynomial cfg)) r False) ^^ 8)
      (map2 (\<noteq>) (to_bits ?w c) (to_bits 8 b' @ replicate (?w - 8) False)) =
    foldl (lfsr_step (to_bits ?w (cc_polynomial cfg))) (to_bits ?w c) (to_bits 8 b')"
    using foldl_lfsr_step [of "to_bits ?w (cc_polynomial cfg)" "to_bits ?w c" "to_bits 8 b'"] assms by simp
  ultimately show ?thesis using to_bits_crc_shifts [of cfg 8 "c XOR x"] assms by simp
qed

lemma crc_loop_bits:
  assumes "8 \<le> unat (cc_width cfg)" "unat (cc_width cfg) \<le> 64" "n \<le> length data"
  shows "\<exists>c'. crc_loop cfg data n c = Some c' \<and>
    to_bits (unat (cc_width cfg)) c' = foldl (lfsr_step (to_bits (unat (cc_width cfg)) (cc_polynomial cfg)))
      (to_bits (unat (cc_width cfg)) c) (crc_input (cc_ref_in cfg \<noteq> 0) (take n data))"
  using assms
proof (induction cfg data n c rule: crc_loop.induct)
  case (3 cfg b bs n c)
  obtain c1 where c1: "crc_byte cfg c b = Some c1"
    "to_bits (unat (cc_width cfg)) c1 = foldl (lfsr_step (to_bits (unat (cc_width cfg)) (cc_polynomial cfg)))
      (to_bits (unat (cc_width cfg)) c) (if cc_ref_in cfg \<noteq> 0 then rev (to_bits 8 b) else to_bits 8 b)"
    using crc_byte_bits [OF 3(2,3)] by blast
  show ?case using 3(1) [OF c1(1)] 3(2-) by (simp add: c1 crc_input_def)
qed (simp_all add: crc_input_def)

lemma crc_finish_bits:
  assumes "1 \<le> unat (cc_width cfg)" "unat (cc_width cfg) \<le> 64"
  shows "to_bits (unat (cc_width cfg)) (crc_finish cfg c) =
      map2 (\<noteq>) (if cc_ref_out cfg \<noteq> 0 then rev (to_bits (unat (cc_width cfg)) c) else to_bits (unat (cc_width cfg)) c)
        (to_bits (unat (cc_width cfg)) (cc_xor_out cfg))"
    and "bit (crc_finish cfg c) k \<Longrightarrow> k < unat (cc_width cfg)"
proof -
  let ?w = "unat (cc_width cfg)"
  let ?c = "if cc_ref_out cfg \<noteq> 0 then reflect c (cc_width cfg) else c"
  have "to_bits ?w (x AND crc_mask (cc_width cfg)) = to_bits ?w x" for x
    by (intro nth_equalityI) (use assms in \<open>auto simp: bit_and_iff bit_crc_mask\<close>)
  then show "to_bits ?w (crc_finish cfg c) =
      map2 (\<noteq>) (if cc_ref_out cfg \<noteq> 0 then rev (to_bits ?w c) else to_bits ?w c) (to_bits ?w (cc_xor_out cfg))"
    using to_bits_reflect [of "cc_width cfg" c] assms by (simp add: crc_finish_def to_bits_xor)
  show "bit (crc_finish cfg c) k \<Longrightarrow> k < ?w"
    using assms by (simp add: crc_finish_def bit_and_iff bit_crc_mask)
qed

lemma crc_refused_iff: "crc_refused cfg \<longleftrightarrow> 64 < unat (cc_width cfg) \<or> unat (cc_width cfg) < 2"
  by (simp add: crc_refused_def word_less_nat_alt)

text \<open>
  C20. \<open>xy_crc_calc\<close> computes the checksum of its configuration, for every width it accepts: with at
  least one byte and a width below 8 the shift count is negative and nothing is defined; otherwise
  the bits of the result, the highest first, are those of the polynomial's shift register fed with
  the bits of the data one at a time, bytes reflected and result reflected as configured, and no bit
  above the width is set.
\<close>

theorem crc_is_shift_register:
  assumes "2 \<le> unat (cc_width cfg)" "unat (cc_width cfg) \<le> 64" "unat n \<le> length data"
  shows "if unat (cc_width cfg) < 8 \<and> 0 < n then xy_crc_calc (Some cfg) (Some data) n = None
    else (\<exists>r. xy_crc_calc (Some cfg) (Some data) n = Some r \<and>
      to_bits (unat (cc_width cfg)) r = crc_reference cfg (take (unat n) data) \<and>
      (\<forall>k. bit r k \<longrightarrow> k < unat (cc_width cfg)))"
proof (cases "0 < n \<and> unat (cc_width cfg) < 8")
  case True
  then obtain m where m: "unat n = Suc m" by (cases "unat n") (auto simp: word_less_nat_alt)
  then obtain b bs where "data = b # bs" using assms(3) by (cases data) auto
  then have "crc_loop cfg data (unat n) (cc_init_value cfg) = None"
    using True m by (simp add: crc_byte_def crc_place_def)
  then show ?thesis using True assms by (simp add: xy_crc_calc_def crc_refused_iff)
next
  case False
  have "\<exists>c. crc_loop cfg data (unat n) (cc_init_value cfg) = Some c \<and>
      to_bits (unat (cc_width cfg)) c = foldl (lfsr_step (to_bits (unat (cc_width cfg)) (cc_polynomial cfg)))
        (to_bits (unat (cc_width cfg)) (cc_init_value cfg)) (crc_input (cc_ref_in cfg \<noteq> 0) (take (unat n) data))"
  proof (cases "n = 0")
    case True
    then show ?thesis by (simp add: crc_input_def)
  next
    case n: False
    then have "8 \<le> unat (cc_width cfg)" using False by (simp add: word_neq_0_conv)
    then show ?thesis using crc_loop_bits assms by blast
  qed
  then obtain c where c: "crc_loop cfg data (unat n) (cc_init_value cfg) = Some c"
      "to_bits (unat (cc_width cfg)) c = foldl (lfsr_step (to_bits (unat (cc_width cfg)) (cc_polynomial cfg)))
        (to_bits (unat (cc_width cfg)) (cc_init_value cfg)) (crc_input (cc_ref_in cfg \<noteq> 0) (take (unat n) data))"
    by blast
  have "xy_crc_calc (Some cfg) (Some data) n = Some (crc_finish cfg c)"
    using c(1) assms by (simp add: xy_crc_calc_def crc_refused_iff)
  moreover have "to_bits (unat (cc_width cfg)) (crc_finish cfg c) = crc_reference cfg (take (unat n) data)"
    using assms by (simp add: crc_finish_bits crc_reference_def Let_def c(2))
  moreover have "\<forall>k. bit (crc_finish cfg c) k \<longrightarrow> k < unat (cc_width cfg)"
    using crc_finish_bits(2) [of cfg c] assms by auto
  ultimately show ?thesis using False by auto
qed

theorem crc_is_shift_register_witness:
  "\<exists>r. xy_crc_calc (Some (crc_config 16 0x1021 0 0 0 0)) (Some [49, 50, 51]) 3 = Some r \<and>
     to_bits 16 r = crc_reference (crc_config 16 0x1021 0 0 0 0) [49, 50, 51] \<and> (\<forall>k. bit r k \<longrightarrow> k < 16)"
  using crc_is_shift_register [of "crc_config 16 0x1021 0 0 0 0" 3 "[49, 50, 51]"]
  by (simp add: crc_config_def)

subsection \<open>The table\<close>

lemma crc_make_loop_table:
  assumes "8 \<le> unat (cc_width cfg)"
  shows "j \<le> length t \<Longrightarrow> crc_make_loop cfg [i..<j] t = Some (take i t @
    map (\<lambda>k. (crc_shift cfg ^^ 8) (push_bit (unat (cc_width cfg) - 8) (ucast (of_nat k :: u8)))) [i..<j] @ drop (max i j) t)"
proof (induction "j - i" arbitrary: i t)
  case 0
  then show ?case by (simp add: max_def)
next
  case (Suc d)
  let ?v = "(crc_shift cfg ^^ 8) (push_bit (unat (cc_width cfg) - 8) (ucast (of_nat i :: u8)))"
  have i: "i < j" "[i..<j] = i # [Suc i..<j]" using Suc by (auto simp: upt_conv_Cons)
  have "crc_make_loop cfg [Suc i..<j] (t[i := ?v]) = Some (take (Suc i) (t[i := ?v]) @
      map (\<lambda>k. (crc_shift cfg ^^ 8) (push_bit (unat (cc_width cfg) - 8) (ucast (of_nat k :: u8)))) [Suc i..<j] @
      drop (max (Suc i) j) (t[i := ?v]))"
    using Suc by (intro Suc.hyps(1)) auto
  moreover have "mem_store t i ?v = Some (t[i := ?v])" using i Suc.prems by (simp add: mem_store_def)
  moreover have "take (Suc i) (t[i := ?v]) = take i t @ [?v]" using i Suc.prems by (simp add: take_Suc_conv_app_nth)
  moreover have "drop (max (Suc i) j) (t[i := ?v]) = drop (max i j) t" using i by (simp add: max_def)
  ultimately show ?case using assms by (simp only: i crc_make_loop.simps) (simp add: crc_place_def)
qed

lemma xy_crc_make_table_entries:
  assumes "8 \<le> unat (cc_width cfg)" "unat (cc_width cfg) \<le> 64" "length t = 256"
  shows "xy_crc_make_table (Some cfg) (Some t) =
    Some (0, Some (map (\<lambda>k. (crc_shift cfg ^^ 8) (push_bit (unat (cc_width cfg) - 8) (ucast (of_nat k :: u8)))) [0..<256]))"
  using assms crc_make_loop_table [OF assms(1), of 256 t 0]
  by (simp add: xy_crc_make_table_def crc_refused_iff)

text \<open>The static table is unset, or is the one the configuration would make.\<close>

definition crc_static_for :: "crc_cfg \<Rightarrow> crc_static \<Rightarrow> bool" where
  "crc_static_for cfg st \<longleftrightarrow> length (cs_table st) = 256 \<and>
     (cs_initialized st = 0 \<or> xy_crc_make_table (Some cfg) (Some (cs_table st)) = Some (0, Some (cs_table st)))"

lemma crc_byte_width_8:
  assumes "unat (cc_width cfg) = 8"
  shows "(crc_shift cfg ^^ 8) (ucast (ucast (c XOR ucast b) :: u8)) AND crc_mask (cc_width cfg) = (crc_shift cfg ^^ 8) (c XOR ucast b)"
proof (rule bit_word_eqI)
  fix k assume "k < LENGTH(64)"
  have masked: "bit ((crc_shift cfg ^^ 8) x) k \<Longrightarrow> k < 8" for x
  proof -
    have "(crc_shift cfg ^^ 8) x = crc_shift cfg ((crc_shift cfg ^^ 7) x)"
      using funpow.simps(2) [of 7 "crc_shift cfg"] by (simp only: numeral_eq_Suc pred_numeral_simps BitM.simps o_apply)
    then show "bit ((crc_shift cfg ^^ 8) x) k \<Longrightarrow> k < 8" using assms by (simp add: bit_crc_shift)
  qed
  have "to_bits 8 (ucast (ucast (c XOR ucast b) :: u8) :: u64) = to_bits 8 (c XOR ucast b)"
    by (intro nth_equalityI) (auto simp: bit_ucast_iff)
  then have same: "to_bits 8 ((crc_shift cfg ^^ 8) (ucast (ucast (c XOR ucast b) :: u8))) = to_bits 8 ((crc_shift cfg ^^ 8) (c XOR ucast b))"
    using to_bits_crc_shifts [of cfg 8] assms by simp
  have "bit ((crc_shift cfg ^^ 8) (ucast (ucast (c XOR ucast b) :: u8))) k = bit ((crc_shift cfg ^^ 8) (c XOR ucast b)) k" if "k < 8"
    using arg_cong [OF same, of "\<lambda>bs. bs ! (7 - k)"] that by simp
  then show "bit ((crc_shift cfg ^^ 8) (ucast (ucast (c XOR ucast b) :: u8)) AND crc_mask (cc_width cfg)) k =
      bit ((crc_shift cfg ^^ 8) (c XOR ucast b)) k"
    using masked assms by (auto simp only: bit_and_iff bit_crc_mask)
qed

abbreviation crc_table_of :: "crc_cfg \<Rightarrow> u64 list" where
  "crc_table_of cfg \<equiv>
     map (\<lambda>k. (crc_shift cfg ^^ 8) (push_bit (unat (cc_width cfg) - 8) (ucast (of_nat k :: u8)))) [0..<256]"

lemma crc_table_load:
  "mem_load (crc_table_of cfg) (unat (b :: u8)) = Some ((crc_shift cfg ^^ 8) (push_bit (unat (cc_width cfg) - 8) (ucast b)))"
proof -
  have "unat b < 256" using unsigned_less [of b] by simp
  then show ?thesis by (simp add: mem_load_def)
qed

lemma crc_table_loop_width_8:
  assumes "unat (cc_width cfg) = 8"
  shows "crc_table_loop cfg (crc_table_of cfg) data n c = crc_loop cfg data n c"
proof (induction data arbitrary: n c)
  case Nil
  then show ?case by (cases n) simp_all
next
  case (Cons b bs)
  show ?case
  proof (cases n)
    case (Suc m)
    let ?b = "if cc_ref_in cfg \<noteq> 0 then reflect8 b else b"
    have place: "push_bit (unat (cc_width cfg) - 8) x = x" for x :: u64 using assms by simp
    have "crc_table_loop cfg (crc_table_of cfg) (b # bs) (Suc m) c =
        crc_table_loop cfg (crc_table_of cfg) bs m
          ((crc_shift cfg ^^ 8) (push_bit (unat (cc_width cfg) - 8) (ucast (ucast (c XOR ucast ?b) :: u8))) AND
            crc_mask (cc_width cfg))"
      by (simp only: crc_table_loop.simps Let_def crc_table_load Option.bind.bind_lunit)
    also have "\<dots> = crc_table_loop cfg (crc_table_of cfg) bs m ((crc_shift cfg ^^ 8) (c XOR ucast ?b))"
      by (simp only: place crc_byte_width_8 [OF assms])
    also have "\<dots> = crc_loop cfg bs m ((crc_shift cfg ^^ 8) (c XOR ucast ?b))" by (rule Cons.IH)
    also have "\<dots> = crc_loop cfg (b # bs) (Suc m) c"
      using assms by (simp only: crc_loop.simps crc_byte_def crc_place_def Option.bind.bind_lunit place) simp
    finally show ?thesis by (simp only: Suc)
  qed simp
qed

lemma crc_static_table:
  assumes "crc_static_for cfg st" "8 \<le> unat (cc_width cfg)" "unat (cc_width cfg) \<le> 64"
    and "co_method opt = CRC_METHOD_TABLE"
  shows "xy_crc_calc_ex st (Some cfg) (Some data) n (Some opt) =
    map_option (\<lambda>r. (r, st\<lparr>cs_table := crc_table_of cfg, cs_initialized := (if cs_initialized st = 0 then 1 else cs_initialized st)\<rparr>))
      (xy_crc_calc_table (Some cfg) (Some (crc_table_of cfg)) (Some data) n)"
proof -
  have make: "xy_crc_make_table (Some cfg) (Some (cs_table st)) = Some (0, Some (crc_table_of cfg))"
    using assms by (intro xy_crc_make_table_entries) (auto simp: crc_static_for_def)
  have "cs_table st = crc_table_of cfg" if "cs_initialized st \<noteq> 0"
    using that assms(1) make by (simp add: crc_static_for_def)
  then have st: "cs_initialized st \<noteq> 0 \<Longrightarrow> st\<lparr>cs_table := crc_table_of cfg, cs_initialized := cs_initialized st\<rparr> = st"
    by (cases st) simp
  show ?thesis
  proof (cases "cs_initialized st = 0")
    case True
    then show ?thesis using assms
      by (simp add: xy_crc_calc_ex_def crc_refused_iff make map_option_case del: of_nat_numeral split: option.splits)
  next
    case False
    then show ?thesis using assms st \<open>cs_initialized st \<noteq> 0 \<Longrightarrow> cs_table st = crc_table_of cfg\<close>
      by (simp add: xy_crc_calc_ex_def crc_refused_iff map_option_case split: option.splits)
  qed
qed

lemma crc_static_for_after:
  assumes "8 \<le> unat (cc_width cfg)" "unat (cc_width cfg) \<le> 64"
  shows "crc_static_for cfg (st\<lparr>cs_table := crc_table_of cfg, cs_initialized := k\<rparr>)"
  using xy_crc_make_table_entries [OF assms, of "crc_table_of cfg"] by (simp add: crc_static_for_def)

text \<open>
  For a width of 8 the table method of \<open>xy_crc_calc_ex\<close> is \<open>xy_crc_calc\<close>: when the static table is
  not built yet or was built for the same configuration, it returns the software result, and leaves
  the table built for this configuration, so that the same holds of every later call with it.
\<close>

theorem crc_table_method_width_8:
  assumes "unat (cc_width cfg) = 8" "crc_static_for cfg st" "co_method opt = CRC_METHOD_TABLE"
  shows "case xy_crc_calc (Some cfg) (Some data) n of
      None \<Rightarrow> xy_crc_calc_ex st (Some cfg) (Some data) n (Some opt) = None
    | Some r \<Rightarrow> (\<exists>st'. xy_crc_calc_ex st (Some cfg) (Some data) n (Some opt) = Some (r, st') \<and> crc_static_for cfg st')"
proof -
  have w: "8 \<le> unat (cc_width cfg)" "unat (cc_width cfg) \<le> 64" using assms(1) by simp_all
  have "xy_crc_calc_table (Some cfg) (Some (crc_table_of cfg)) (Some data) n = xy_crc_calc (Some cfg) (Some data) n"
    using crc_table_loop_width_8 [OF assms(1)] by (simp only: xy_crc_calc_table_def xy_crc_calc_def prod.case option.case)
  then have "xy_crc_calc_ex st (Some cfg) (Some data) n (Some opt) =
      map_option (\<lambda>r. (r, st\<lparr>cs_table := crc_table_of cfg, cs_initialized := (if cs_initialized st = 0 then 1 else cs_initialized st)\<rparr>))
        (xy_crc_calc (Some cfg) (Some data) n)"
    using crc_static_table [OF assms(2) w assms(3)] by simp
  then show ?thesis using crc_static_for_after [OF w, where st = st]
    by (simp del: upt_Suc split: option.splits)
qed

theorem crc_table_method_width_8_witness:
  "\<exists>st'. xy_crc_calc_ex \<lparr>cs_table = replicate 256 0, cs_initialized = 0\<rparr> (Some (crc_config 8 0x7 0 0 0 0)) (Some [1]) 1
      (Some \<lparr>co_method = CRC_METHOD_TABLE, co_use_dma = 0\<rparr>) = Some (7, st') \<and> crc_static_for (crc_config 8 0x7 0 0 0 0) st'"
proof -
  have "xy_crc_calc (Some (crc_config 8 0x7 0 0 0 0)) (Some [1]) 1 = Some 7" by code_simp
  then show ?thesis
    using crc_table_method_width_8 [of "crc_config 8 0x7 0 0 0 0" "\<lparr>cs_table = replicate 256 0, cs_initialized = 0\<rparr>"
      "\<lparr>co_method = CRC_METHOD_TABLE, co_use_dma = 0\<rparr>" "[1]" 1]
    by (simp add: crc_static_for_def) (simp add: crc_config_def)
qed

lemma crc_xmodem_table:
  "crc_table_loop (crc_config 16 0x1021 0 0 0 0) (crc_table_of (crc_config 16 0x1021 0 0 0 0)) [1, 0] 2 0 = Some 0x3443"
proof -
  let ?cfg = "crc_config 16 0x1021 0 0 0 0"
  define T where "T = crc_table_of ?cfg"
  have w: "cc_width ?cfg = 16" "cc_ref_in ?cfg = 0" by (simp_all add: crc_config_def)
  have w8: "unat (cc_width ?cfg) - 8 = 8" by (simp add: w)
  have load: "mem_load T (unat b) = Some ((crc_shift ?cfg ^^ 8) (push_bit 8 (ucast b)))" for b :: u8
    using crc_table_load [of ?cfg b] unfolding T_def w8 .
  have step: "crc_table_loop ?cfg T (b # bs) (Suc n) c =
      crc_table_loop ?cfg T bs n ((crc_shift ?cfg ^^ 8) (push_bit 8 (ucast (ucast (c XOR ucast b) :: u8))) AND crc_mask 16)"
    for b bs n c by (simp only: crc_table_loop.simps w Let_def load Option.bind.bind_lunit if_False simp_thms)
  have e1: "(crc_shift ?cfg ^^ 8) (push_bit 8 1) AND crc_mask 16 = 0x1021" by code_simp
  have e2: "(crc_shift ?cfg ^^ 8) (push_bit 8 0x21) AND crc_mask 16 = 0x3443" by code_simp
  have i1: "(ucast (ucast ((0 :: u64) XOR ucast (1 :: u8)) :: u8) :: u64) = 1" by simp
  have i2: "(ucast (ucast ((0x1021 :: u64) XOR ucast (0 :: u8)) :: u8) :: u64) = 0x21" by simp
  have "crc_table_loop ?cfg T [1, 0] 2 0 = Some 0x3443"
    by (simp only: numeral_2_eq_2 step i1 e1 i2 e2 crc_table_loop.simps(1))
  then show ?thesis unfolding T_def .
qed

text \<open>
  Beyond width 8 the methods of \<open>xy_crc_calc_ex\<close> disagree: for the XMODEM configuration the software
  method and the table method on the fresh static table return different checksums of the bytes 1 0,
  and the hardware method returns 0 instead of falling back to the software one.
\<close>

theorem crc_methods_disagree:
  "xy_crc_calc_ex st (Some (crc_config 16 0x1021 0 0 0 0)) (Some [1, 0]) 2
        (Some \<lparr>co_method = CRC_METHOD_SW, co_use_dma = 0\<rparr>) = Some (0x3331, st)
    \<and> (\<exists>st'. xy_crc_calc_ex \<lparr>cs_table = replicate 256 0, cs_initialized = 0\<rparr> (Some (crc_config 16 0x1021 0 0 0 0)) (Some [1, 0]) 2
        (Some \<lparr>co_method = CRC_METHOD_TABLE, co_use_dma = 0\<rparr>) = Some (0x3443, st'))
    \<and> xy_crc_calc_ex st (Some (crc_config 16 0x1021 0 0 0 0)) (Some [1, 0]) 2
        (Some \<lparr>co_method = CRC_METHOD_HW, co_use_dma = 0\<rparr>) = Some (0, st)"
proof -
  let ?cfg = "crc_config 16 0x1021 0 0 0 0"
  let ?st = "\<lparr>cs_table = replicate 256 0, cs_initialized = 0\<rparr> :: crc_static"
  have soft: "xy_crc_calc (Some ?cfg) (Some [1, 0]) 2 = Some 0x3331" by code_simp
  have refused: "\<not> crc_refused ?cfg" by (simp add: crc_refused_def crc_config_def)
  have "xy_crc_calc_table (Some ?cfg) (Some (crc_table_of ?cfg)) (Some [1, 0]) 2 = Some 0x3443"
  proof -
    have "crc_finish ?cfg 0x3443 = 0x3443" by code_simp
    moreover have "\<not> crc_refused ?cfg" "cc_init_value ?cfg = 0" "unat (2 :: u16) = 2" by (simp_all add: crc_refused_def crc_config_def)
    ultimately show ?thesis
      by (simp only: xy_crc_calc_table_def prod.case option.case if_False crc_xmodem_table option.map)
  qed
  moreover have "crc_static_for ?cfg ?st" by (simp add: crc_static_for_def)
  moreover have "8 \<le> unat (cc_width ?cfg)" "unat (cc_width ?cfg) \<le> 64" "co_method \<lparr>co_method = CRC_METHOD_TABLE, co_use_dma = 0\<rparr> = CRC_METHOD_TABLE"
    by (simp_all add: crc_config_def)
  ultimately have table: "\<exists>st'. xy_crc_calc_ex ?st (Some ?cfg) (Some [1, 0]) 2 (Some \<lparr>co_method = CRC_METHOD_TABLE, co_use_dma = 0\<rparr>)
      = Some (0x3443, st')"
    using crc_static_table [of ?cfg ?st "\<lparr>co_method = CRC_METHOD_TABLE, co_use_dma = 0\<rparr>" "[1, 0]" 2]
    by (simp only: option.map crc_opt.simps) blast
  show ?thesis
    using soft refused by (intro conjI table) (simp_all add: xy_crc_calc_ex_def xy_crc_calc_hw_def)
qed

subsection \<open>The Modbus variant\<close>

text \<open>The reflected register of \<open>mb_crc16\<close> holds the bits of the code's register in the opposite order.\<close>

definition crc_mirrors :: "u64 \<Rightarrow> u16 \<Rightarrow> bool" where
  "crc_mirrors c m \<longleftrightarrow> (\<forall>k<16. bit c k = bit m (15 - k))"

lemma crc_mirrors_shift:
  assumes "crc_mirrors c m"
  shows "crc_mirrors (crc_shift (crc_config 16 0x8005 0xffff 0 1 1) c) (mb_crc_bit m)"
proof -
  let ?cfg = "crc_config 16 0x8005 0xffff 0 1 1"
  have w: "unat (cc_width ?cfg) = 16" "cc_polynomial ?cfg = 0x8005" by (simp_all add: crc_config_def)
  have poly: "bit (0x8005 :: u64) k = bit (0xA001 :: u16) (15 - k)" if "k < 16" for k
  proof -
    have "list_all (\<lambda>k. bit (0x8005 :: u64) k = bit (0xA001 :: u16) (15 - k)) [0..<16]" by code_simp
    then show ?thesis using that unfolding list_all_iff by auto
  qed
  have "bit (crc_shift ?cfg c) k = bit (mb_crc_bit m) (15 - k)" if k: "k < 16" for k
  proof -
    have k16: "Suc (15 - k) = 16 - k" using k by linarith
    have "bit (mb_crc_bit m) (15 - k) = (bit m (16 - k) \<noteq> (bit m 0 \<and> bit (0xA001 :: u16) (15 - k)))"
      by (auto simp: mb_crc_bit_def odd_u16 bit_xor_iff bit_drop_bit_eq k16 simp del: bit_numeral_simps)
    moreover have "(0 < k \<and> bit c (k - 1)) = bit m (16 - k)"
    proof (cases "k = 0")
      case True
      have "\<not> bit m 16" using bit_imp_le_length [of m 16] by auto
      then show ?thesis using True by simp
    next
      case False
      then have "15 - (k - 1) = 16 - k" "k - 1 < 16" using k by linarith+
      then show ?thesis using False assms by (simp add: crc_mirrors_def)
    qed
    moreover have "bit c 15 = bit m 0" using assms by (simp add: crc_mirrors_def)
    ultimately show ?thesis using bit_crc_shift [of ?cfg c k] k poly [OF k] w by simp blast
  qed
  then show ?thesis by (simp add: crc_mirrors_def)
qed

lemma crc_mirrors_shifts:
  "crc_mirrors c m \<Longrightarrow> crc_mirrors ((crc_shift (crc_config 16 0x8005 0xffff 0 1 1) ^^ n) c) ((mb_crc_bit ^^ n) m)"
  by (induction n) (simp_all add: crc_mirrors_shift)

lemma crc_mirrors_byte:
  assumes "crc_mirrors c m"
  shows "\<exists>c'. crc_byte (crc_config 16 0x8005 0xffff 0 1 1) c b = Some c' \<and> crc_mirrors c' (mb_crc_byte b m)"
proof -
  let ?cfg = "crc_config 16 0x8005 0xffff 0 1 1"
  have "crc_mirrors (c XOR push_bit 8 (ucast (reflect8 b))) (m XOR ucast b)"
    using assms by (auto simp: crc_mirrors_def bit_xor_iff bit_push_bit_iff bit_ucast_iff bit_reflect8)
  moreover have "crc_byte ?cfg c b = Some ((crc_shift ?cfg ^^ 8) (c XOR push_bit 8 (ucast (reflect8 b))))"
  proof -
    have "cc_ref_in ?cfg = 1" "unat (cc_width ?cfg) = 16" by (simp_all add: crc_config_def)
    then show ?thesis by (simp add: crc_byte_def crc_place_def)
  qed
  ultimately show ?thesis using crc_mirrors_shifts by (auto simp: mb_crc_byte_def)
qed

lemma crc_mirrors_loop:
  "n \<le> length data \<Longrightarrow> crc_mirrors c m \<Longrightarrow>
   \<exists>c'. crc_loop (crc_config 16 0x8005 0xffff 0 1 1) data n c = Some c' \<and> crc_mirrors c' (fold mb_crc_byte (take n data) m)"
proof (induction data arbitrary: n c m)
  case (Cons b bs)
  show ?case
  proof (cases n)
    case (Suc k)
    obtain c' where "crc_byte (crc_config 16 0x8005 0xffff 0 1 1) c b = Some c'" "crc_mirrors c' (mb_crc_byte b m)"
      using crc_mirrors_byte [OF Cons.prems(2)] by blast
    then show ?thesis using Cons.IH [of k c' "mb_crc_byte b m"] Cons.prems Suc by auto
  qed (use Cons.prems in simp)
qed simp

lemma crc_loop_short: "length data < n \<Longrightarrow> crc_loop cfg data n c = None"
proof (induction data arbitrary: n c)
  case (Cons b bs)
  then show ?case by (cases n; cases "crc_byte cfg c b") auto
qed (auto simp: gr0_conv_Suc)

lemma crc_modbus_finish:
  assumes "crc_mirrors c m"
  shows "(ucast (crc_finish (crc_config 16 0x8005 0xffff 0 1 1) c) :: u16) = m"
proof (rule bit_word_eqI)
  fix k assume "k < LENGTH(16)"
  then have k: "k < 16" by simp
  have fin: "crc_finish (crc_config 16 0x8005 0xffff 0 1 1) c = reflect c 16 AND crc_mask 16"
    by (simp add: crc_finish_def crc_config_def)
  have "bit (reflect c 16) k = bit c (15 - k)" "bit (crc_mask 16) k"
    using bit_reflect [of 16 c k] bit_crc_mask [of 16 k] k by simp_all
  then have "bit (ucast (crc_finish (crc_config 16 0x8005 0xffff 0 1 1) c) :: u16) k = bit c (15 - k)"
    using \<open>k < LENGTH(16)\<close> k unfolding fin by (simp only: bit_ucast_iff bit_and_iff) simp
  also have "\<dots> = bit m k" using assms k by (simp add: crc_mirrors_def)
  finally show "bit (ucast (crc_finish (crc_config 16 0x8005 0xffff 0 1 1) c) :: u16) k = bit m k" .
qed

lemma crc_mirrors_init: "crc_mirrors 0xffff 0xFFFF"
proof -
  have m: "(0xffff :: u64) = mask 16" "(0xFFFF :: u16) = mask 16" by (simp_all add: mask_eq_exp_minus_1)
  show ?thesis unfolding crc_mirrors_def m by (simp only: bit_mask_iff) auto
qed

text \<open>
  Three parts of the repository carry the same checksum: \<open>xy_crc16_modbus\<close> of the library, \<open>mb_crc16\<close>
  of the Modbus slave and \<open>xy_tlv_checksum\<close> of the TLV codec return the same value for every buffer and
  length, and read outside the buffer in the same cases.
\<close>

theorem modbus_checksums_agree:
  "xy_crc16_modbus (Some data) n = mb_crc16 data n \<and> mb_crc16 data n = xy_tlv_checksum data n"
proof
  show "mb_crc16 data n = xy_tlv_checksum data n"
    by (simp add: mb_crc16_eq xy_tlv_checksum_def tlv_crc_loop_eq map_option_case split: option.splits)
  let ?cfg = "crc_config 16 0x8005 0xffff 0 1 1"
  have "\<not> crc_refused ?cfg" "cc_init_value ?cfg = 0xffff" by (simp_all add: crc_refused_def crc_config_def)
  then have calc: "xy_crc16_modbus (Some data) n = map_option ucast (map_option (crc_finish ?cfg) (crc_loop ?cfg data (unat n) 0xffff))"
    by (simp only: xy_crc16_modbus_def xy_crc_calc_def prod.case option.case if_False)
  show "xy_crc16_modbus (Some data) n = mb_crc16 data n"
  proof (cases "unat n \<le> length data")
    case True
    obtain c where "crc_loop ?cfg data (unat n) 0xffff = Some c" "crc_mirrors c (mb_crc (take (unat n) data))"
      using crc_mirrors_loop [OF True crc_mirrors_init] by blast
    moreover have "mem_read data 0 (unat n) = Some (take (unat n) data)" using True by (simp add: mem_read_in)
    ultimately show ?thesis by (simp only: calc mb_crc16_eq option.map crc_modbus_finish)
  next
    case False
    then have "mem_read data 0 (unat n) = None" by (simp add: mem_read_def)
    then show ?thesis using crc_loop_short [of data "unat n" ?cfg] False
      by (simp only: calc mb_crc16_eq option.map not_le)
  qed
qed

end
