(* ===== verification/Xy_Aes.thy ===== *)
theory Xy_Aes
  imports Xy_Encodings
begin

text \<open>
  The block cipher of \<open>components/crypto/xy_aes/xy_aes.c\<close> and its chained mode. A state is a list of 16
  bytes; the steps of a round are total functions on it. The context has the array of round keys, which
  is read and written by index. The chained mode works on one memory in which the texts are ranges, so
  that they may overlap; an offset is \<open>None\<close> for \<open>NULL\<close>.

  The source shifts a \<open>uint8_t\<close>, promoted to \<open>int\<close>, left by 24 in \<open>aes_sub_word\<close> and in
  \<open>aes_key_expansion\<close>; for bytes from \<open>0x80\<close> on the result does not fit \<open>int\<close>, which is undefined in
  ISO C. The model takes the shift of an unsigned word, as the compilers for the supported targets do.
\<close>

definition aes_sbox :: "u8 list" where
  "aes_sbox = [
    0x63, 0x7c, 0x77, 0x7b, 0xf2, 0x6b, 0x6f, 0xc5, 0x30, 0x01, 0x67, 0x2b, 0xfe, 0xd7, 0xab, 0x76,
    0xca, 0x82, 0xc9, 0x7d, 0xfa, 0x59, 0x47, 0xf0, 0xad, 0xd4, 0xa2, 0xaf, 0x9c, 0xa4, 0x72, 0xc0,
    0xb7, 0xfd, 0x93, 0x26, 0x36, 0x3f, 0xf7, 0xcc, 0x34, 0xa5, 0xe5, 0xf1, 0x71, 0xd8, 0x31, 0x15,
    0x04, 0xc7, 0x23, 0xc3, 0x18, 0x96, 0x05, 0x9a, 0x07, 0x12, 0x80, 0xe2, 0xeb, 0x27, 0xb2, 0x75,
    0x09, 0x83, 0x2c, 0x1a, 0x1b, 0x6e, 0x5a, 0xa0, 0x52, 0x3b, 0xd6, 0xb3, 0x29, 0xe3, 0x2f, 0x84,
    0x53, 0xd1, 0x00, 0xed, 0x20, 0xfc, 0xb1, 0x5b, 0x6a, 0xcb, 0xbe, 0x39, 0x4a, 0x4c, 0x58, 0xcf,
    0xd0, 0xef, 0xaa, 0xfb, 0x43, 0x4d, 0x33, 0x85, 0x45, 0xf9, 0x02, 0x7f, 0x50, 0x3c, 0x9f, 0xa8,
    0x51, 0xa3, 0x40, 0x8f, 0x92, 0x9d, 0x38, 0xf5, 0xbc, 0xb6, 0xda, 0x21, 0x10, 0xff, 0xf3, 0xd2,
    0xcd, 0x0c, 0x13, 0xec, 0x5f, 0x97, 0x44, 0x17, 0xc4, 0xa7, 0x7e, 0x3d, 0x64, 0x5d, 0x19, 0x73,
    0x60, 0x81, 0x4f, 0xdc, 0x22, 0x2a, 0x90, 0x88, 0x46, 0xee, 0xb8, 0x14, 0xde, 0x5e, 0x0b, 0xdb,
    0xe0, 0x32, 0x3a, 0x0a, 0x49, 0x06, 0x24, 0x5c, 0xc2, 0xd3, 0xac, 0x62, 0x91, 0x95, 0xe4, 0x79,
    0xe7, 0xc8, 0x37, 0x6d, 0x8d, 0xd5, 0x4e, 0xa9, 0x6c, 0x56, 0xf4, 0xea, 0x65, 0x7a, 0xae, 0x08,
    0xba, 0x78, 0x25, 0x2e, 0x1c, 0xa6, 0xb4, 0xc6, 0xe8, 0xdd, 0x74, 0x1f, 0x4b, 0xbd, 0x8b, 0x8a,
    0x70, 0x3e, 0xb5, 0x66, 0x48, 0x03, 0xf6, 0x0e, 0x61, 0x35, 0x57, 0xb9, 0x86, 0xc1, 0x1d, 0x9e,
    0xe1, 0xf8, 0x98, 0x11, 0x69, 0xd9, 0x8e, 0x94, 0x9b, 0x1e, 0x87, 0xe9, 0xce, 0x55, 0x28, 0xdf,
    0x8c, 0xa1, 0x89, 0x0d, 0xbf, 0xe6, 0x42, 0x68, 0x41, 0x99, 0x2d, 0x0f, 0xb0, 0x54, 0xbb, 0x16]"

definition aes_inv_sbox :: "u8 list" where
  "aes_inv_sbox = [
    0x52, 0x09, 0x6a, 0xd5, 0x30, 0x36, 0xa5, 0x38, 0xbf, 0x40, 0xa3, 0x9e, 0x81, 0xf3, 0xd7, 0xfb,
    0x7c, 0xe3, 0x39, 0x82, 0x9b, 0x2f, 0xff, 0x87, 0x34, 0x8e, 0x43, 0x44, 0xc4, 0xde, 0xe9, 0xcb,
    0x54, 0x7b, 0x94, 0x32, 0xa6, 0xc2, 0x23, 0x3d, 0xee, 0x4c, 0x95, 0x0b, 0x42, 0xfa, 0xc3, 0x4e,
    0x08, 0x2e, 0xa1, 0x66, 0x28, 0xd9, 0x24, 0xb2, 0x76, 0x5b, 0xa2, 0x49, 0x6d, 0x8b, 0xd1, 0x25,
    0x72, 0xf8, 0xf6, 0x64, 0x86, 0x68, 0x98, 0x16, 0xd4, 0xa4, 0x5c, 0xcc, 0x5d, 0x65, 0xb6, 0x92,
    0x6c, 0x70, 0x48, 0x50, 0xfd, 0xed, 0xb9, 0xda, 0x5e, 0x15, 0x46, 0x57, 0xa7, 0x8d, 0x9d, 0x84,
    0x90, 0xd8, 0xab, 0x00, 0x8c, 0xbc, 0xd3, 0x0a, 0xf7, 0xe4, 0x58, 0x05, 0xb8, 0xb3, 0x45, 0x06,
    0xd0, 0x2c, 0x1e, 0x8f, 0xca, 0x3f, 0x0f, 0x02, 0xc1, 0xaf, 0xbd, 0x03, 0x01, 0x13, 0x8a, 0x6b,
    0x3a, 0x91, 0x11, 0x41, 0x4f, 0x67, 0xdc, 0xea, 0x97, 0xf2, 0xcf, 0xce, 0xf0, 0xb4, 0xe6, 0x73,
    0x96, 0xac, 0x74, 0x22, 0xe7, 0xad, 0x35, 0x85, 0xe2, 0xf9, 0x37, 0xe8, 0x1c, 0x75, 0xdf, 0x6e,
    0x47, 0xf1, 0x1a, 0x71, 0x1d, 0x29, 0xc5, 0x89, 0x6f, 0xb7, 0x62, 0x0e, 0xaa, 0x18, 0xbe, 0x1b,
    0xfc, 0x56, 0x3e, 0x4b, 0xc6, 0xd2, 0x79, 0x20, 0x9a, 0xdb, 0xc0, 0xfe, 0x78, 0xcd, 0x5a, 0xf4,
    0x1f, 0xdd, 0xa8, 0x33, 0x88, 0x07, 0xc7, 0x31, 0xb1, 0x12, 0x10, 0x59, 0x27, 0x80, 0xec, 0x5f,
    0x60, 0x51, 0x7f, 0xa9, 0x19, 0xb5, 0x4a, 0x0d, 0x2d, 0xe5, 0x7a, 0x9f, 0x93, 0xc9, 0x9c, 0xef,
    0xa0, 0xe0, 0x3b, 0x4d, 0xae, 0x2a, 0xf5, 0xb0, 0xc8, 0xeb, 0xbb, 0x3c, 0x83, 0x53, 0x99, 0x61,
    0x17, 0x2b, 0x04, 0x7e, 0xba, 0x77, 0xd6, 0x26, 0xe1, 0x69, 0x14, 0x63, 0x55, 0x21, 0x0c, 0x7d]"

definition aes_rcon :: "u8 list" where
  "aes_rcon = [0x01, 0x02, 0x04, 0x08, 0x10, 0x20, 0x40, 0x80, 0x1b, 0x36]"

definition XY_AES_BLOCK_SIZE :: nat where "XY_AES_BLOCK_SIZE = 16"
definition XY_AES_KEY_SIZE_128 :: int where "XY_AES_KEY_SIZE_128 = 16"
definition XY_AES_KEY_SIZE_192 :: int where "XY_AES_KEY_SIZE_192 = 24"
definition XY_AES_KEY_SIZE_256 :: int where "XY_AES_KEY_SIZE_256 = 32"

record aes_ctx =
  ac_round_keys :: "u32 list"
  ac_rounds :: int

subsection \<open>Round keys\<close>

definition aes_sub_word :: "u32 \<Rightarrow> u32" where
  "aes_sub_word w =
     push_bit 24 (ucast (aes_sbox ! unat (drop_bit 24 w AND 0xff)))
     OR push_bit 16 (ucast (aes_sbox ! unat (drop_bit 16 w AND 0xff)))
     OR push_bit 8 (ucast (aes_sbox ! unat (drop_bit 8 w AND 0xff))) OR ucast (aes_sbox ! unat (w AND 0xff))"

definition aes_rot_word :: "u32 \<Rightarrow> u32" where
  "aes_rot_word w = push_bit 8 w OR drop_bit 24 w"

fun aes_load_key :: "u8 list \<Rightarrow> nat list \<Rightarrow> u32 list \<Rightarrow> u32 list option" where
  "aes_load_key key [] rk = Some rk"
| "aes_load_key key (i # is) rk = do {
     b0 \<leftarrow> mem_load key (i * 4);
     b1 \<leftarrow> mem_load key (i * 4 + 1);
     b2 \<leftarrow> mem_load key (i * 4 + 2);
     b3 \<leftarrow> mem_load key (i * 4 + 3);
     rk' \<leftarrow> mem_store rk i (push_bit 24 (ucast b0) OR push_bit 16 (ucast b1) OR push_bit 8 (ucast b2) OR ucast b3);
     aes_load_key key is rk' }"

fun aes_expand :: "nat \<Rightarrow> nat list \<Rightarrow> u32 list \<Rightarrow> u32 list option" where
  "aes_expand nk [] rk = Some rk"
| "aes_expand nk (i # is) rk = do {
     temp \<leftarrow> mem_load rk (i - 1);
     temp' \<leftarrow> (if i mod nk = 0 then do {
         rc \<leftarrow> mem_load aes_rcon (i div nk - 1);
         Some (aes_sub_word (aes_rot_word temp) XOR push_bit 24 (ucast rc)) }
       else if nk > 6 \<and> i mod nk = 4 then Some (aes_sub_word temp)
       else Some temp);
     old \<leftarrow> mem_load rk (i - nk);
     rk' \<leftarrow> mem_store rk i (old XOR temp');
     aes_expand nk is rk' }"

definition aes_key_expansion :: "u8 list \<Rightarrow> int \<Rightarrow> u32 list \<Rightarrow> int \<Rightarrow> u32 list option" where
  "aes_key_expansion key key_size round_keys rounds =
     (let nk = nat (key_size div 4)
      in do {
        rk \<leftarrow> aes_load_key key [0..<nk] round_keys;
        aes_expand nk [nk..<nat (4 * (rounds + 1))] rk })"

definition xy_aes_init ::
  "aes_ctx option \<Rightarrow> u8 list option \<Rightarrow> int \<Rightarrow> (crypto_rc \<times> aes_ctx option) option" where
  "xy_aes_init ctx key key_size =
     (case (ctx, key) of
        (Some c, Some k) \<Rightarrow>
          let go = (\<lambda>rounds. do {
                rk \<leftarrow> aes_key_expansion k key_size (ac_round_keys c) rounds;
                Some (CRYPTO_SUCCESS, Some (c\<lparr>ac_rounds := rounds, ac_round_keys := rk\<rparr>)) })
          in if key_size = XY_AES_KEY_SIZE_128 then go 10
             else if key_size = XY_AES_KEY_SIZE_192 then go 12
             else if key_size = XY_AES_KEY_SIZE_256 then go 14
             else Some (CRYPTO_INVALID_PARAM, ctx)
      | _ \<Rightarrow> Some (CRYPTO_INVALID_PARAM, ctx))"

subsection \<open>The steps of a round\<close>

definition aes_sub_bytes :: "u8 list \<Rightarrow> u8 list" where
  "aes_sub_bytes state = map (\<lambda>b. aes_sbox ! unat b) state"

definition aes_inv_sub_bytes :: "u8 list \<Rightarrow> u8 list" where
  "aes_inv_sub_bytes state = map (\<lambda>b. aes_inv_sbox ! unat b) state"

definition aes_shift_rows :: "u8 list \<Rightarrow> u8 list" where
  "aes_shift_rows state =
     (let temp = state ! 1;
          state = state[1 := state ! 5];
          state = state[5 := state ! 9];
          state = state[9 := state ! 13];
          state = state[13 := temp];
          temp = state ! 2;
          state = state[2 := state ! 10];
          state = state[10 := temp];
          temp = state ! 6;
          state = state[6 := state ! 14];
          state = state[14 := temp];
          temp = state ! 3;
          state = state[3 := state ! 15];
          state = state[15 := state ! 11];
          state = state[11 := state ! 7]
      in state[7 := temp])"

definition aes_inv_shift_rows :: "u8 list \<Rightarrow> u8 list" where
  "aes_inv_shift_rows state =
     (let temp = state ! 13;
          state = state[13 := state ! 9];
          state = state[9 := state ! 5];
          state = state[5 := state ! 1];
          state = state[1 := temp];
          temp = state ! 2;
          state = state[2 := state ! 10];
          state = state[10 := temp];
          temp = state ! 6;
          state = state[6 := state ! 14];
          state = state[14 := temp];
          temp = state ! 7;
          state = state[7 := state ! 11];
          state = state[11 := state ! 15];
          state = state[15 := state ! 3]
      in state[3 := temp])"

text \<open>The multiplication: the loop of eight steps over the product, the factor and the multiplier.\<close>

primrec aes_gmul_loop :: "nat \<Rightarrow> u8 \<Rightarrow> u8 \<Rightarrow> u8 \<Rightarrow> u8" where
  "aes_gmul_loop 0 p a b = p"
| "aes_gmul_loop (Suc n) p a b =
     (let p' = (if b AND 1 \<noteq> 0 then p XOR a else p);
          a' = (if a AND 0x80 \<noteq> 0 then push_bit 1 a XOR 0x1b else push_bit 1 a)
      in aes_gmul_loop n p' a' (drop_bit 1 b))"

definition aes_gmul :: "u8 \<Rightarrow> u8 \<Rightarrow> u8" where
  "aes_gmul a b = aes_gmul_loop 8 0 a b"

definition aes_mix_column :: "nat \<Rightarrow> u8 list \<Rightarrow> u8 list" where
  "aes_mix_column c state =
     (let s0 = state ! (c * 4); s1 = state ! (c * 4 + 1); s2 = state ! (c * 4 + 2); s3 = state ! (c * 4 + 3)
      in state[c * 4 := aes_gmul s0 2 XOR aes_gmul s1 3 XOR s2 XOR s3,
               c * 4 + 1 := s0 XOR aes_gmul s1 2 XOR aes_gmul s2 3 XOR s3,
               c * 4 + 2 := s0 XOR s1 XOR aes_gmul s2 2 XOR aes_gmul s3 3,
               c * 4 + 3 := aes_gmul s0 3 XOR s1 XOR s2 XOR aes_gmul s3 2])"

definition aes_mix_columns :: "u8 list \<Rightarrow> u8 list" where
  "aes_mix_columns state = fold aes_mix_column [0..<4] state"

definition aes_inv_mix_column :: "nat \<Rightarrow> u8 list \<Rightarrow> u8 list" where
  "aes_inv_mix_column c state =
     (let s0 = state ! (c * 4); s1 = state ! (c * 4 + 1); s2 = state ! (c * 4 + 2); s3 = state ! (c * 4 + 3)
      in state[c * 4 := aes_gmul s0 14 XOR aes_gmul s1 11 XOR aes_gmul s2 13 XOR aes_gmul s3 9,
               c * 4 + 1 := aes_gmul s0 9 XOR aes_gmul s1 14 XOR aes_gmul s2 11 XOR aes_gmul s3 13,
               c * 4 + 2 := aes_gmul s0 13 XOR aes_gmul s1 9 XOR aes_gmul s2 14 XOR aes_gmul s3 11,
               c * 4 + 3 := aes_gmul s0 11 XOR aes_gmul s1 13 XOR aes_gmul s2 9 XOR aes_gmul s3 14])"

definition aes_inv_mix_columns :: "u8 list \<Rightarrow> u8 list" where
  "aes_inv_mix_columns state = fold aes_inv_mix_column [0..<4] state"

definition aes_add_key_word :: "u32 list \<Rightarrow> nat \<Rightarrow> u8 list \<Rightarrow> u8 list" where
  "aes_add_key_word round_key i state =
     (let k = round_key ! i
      in state[i * 4 := state ! (i * 4) XOR ucast (drop_bit 24 k AND 0xff),
               i * 4 + 1 := state ! (i * 4 + 1) XOR ucast (drop_bit 16 k AND 0xff),
               i * 4 + 2 := state ! (i * 4 + 2) XOR ucast (drop_bit 8 k AND 0xff),
               i * 4 + 3 := state ! (i * 4 + 3) XOR ucast (k AND 0xff)])"

definition aes_add_round_key :: "u8 list \<Rightarrow> u32 list \<Rightarrow> u8 list" where
  "aes_add_round_key state round_key = fold (aes_add_key_word round_key) [0..<4] state"

subsection \<open>Blocks\<close>

text \<open>The round keys at an index of the array, and the loops over the rounds.\<close>

definition aes_key_at :: "aes_ctx \<Rightarrow> int \<Rightarrow> u32 list option" where
  "aes_key_at ctx round = (if round < 0 then None else mem_read (ac_round_keys ctx) (nat (round * 4)) 4)"

fun aes_encrypt_rounds :: "aes_ctx \<Rightarrow> int list \<Rightarrow> u8 list \<Rightarrow> u8 list option" where
  "aes_encrypt_rounds ctx [] state = Some state"
| "aes_encrypt_rounds ctx (round # rs) state = do {
     k \<leftarrow> aes_key_at ctx round;
     aes_encrypt_rounds ctx rs
       (aes_add_round_key (aes_mix_columns (aes_shift_rows (aes_sub_bytes state))) k) }"

fun aes_decrypt_rounds :: "aes_ctx \<Rightarrow> int list \<Rightarrow> u8 list \<Rightarrow> u8 list option" where
  "aes_decrypt_rounds ctx [] state = Some state"
| "aes_decrypt_rounds ctx (round # rs) state = do {
     k \<leftarrow> aes_key_at ctx round;
     aes_decrypt_rounds ctx rs
       (aes_inv_mix_columns (aes_add_round_key (aes_inv_sub_bytes (aes_inv_shift_rows state)) k)) }"

definition aes_encrypt_state :: "aes_ctx \<Rightarrow> u8 list \<Rightarrow> u8 list option" where
  "aes_encrypt_state ctx block = do {
     k0 \<leftarrow> aes_key_at ctx 0;
     s \<leftarrow> aes_encrypt_rounds ctx [1..ac_rounds ctx - 1] (aes_add_round_key block k0);
     k \<leftarrow> aes_key_at ctx (ac_rounds ctx);
     Some (aes_add_round_key (aes_shift_rows (aes_sub_bytes s)) k) }"

definition aes_decrypt_state :: "aes_ctx \<Rightarrow> u8 list \<Rightarrow> u8 list option" where
  "aes_decrypt_state ctx block = do {
     k \<leftarrow> aes_key_at ctx (ac_rounds ctx);
     s \<leftarrow> aes_decrypt_rounds ctx (rev [1..ac_rounds ctx - 1]) (aes_add_round_key block k);
     k0 \<leftarrow> aes_key_at ctx 0;
     Some (aes_add_round_key (aes_inv_sub_bytes (aes_inv_shift_rows s)) k0) }"

text \<open>The results of the block functions: the code and the object behind the output pointer.\<close>

definition xy_aes_encrypt_block ::
  "aes_ctx option \<Rightarrow> u8 list option \<Rightarrow> u8 list option \<Rightarrow> (crypto_rc \<times> u8 list option) option" where
  "xy_aes_encrypt_block ctx plaintext ciphertext =
     (case (ctx, plaintext, ciphertext) of
        (Some x, Some p, Some c) \<Rightarrow> do {
          block \<leftarrow> mem_read p 0 16;
          s \<leftarrow> aes_encrypt_state x block;
          c' \<leftarrow> mem_write c 0 s;
          Some (CRYPTO_SUCCESS, Some c') }
      | _ \<Rightarrow> Some (CRYPTO_INVALID_PARAM, ciphertext))"

definition xy_aes_decrypt_block ::
  "aes_ctx option \<Rightarrow> u8 list option \<Rightarrow> u8 list option \<Rightarrow> (crypto_rc \<times> u8 list option) option" where
  "xy_aes_decrypt_block ctx ciphertext plaintext =
     (case (ctx, ciphertext, plaintext) of
        (Some x, Some c, Some p) \<Rightarrow> do {
          block \<leftarrow> mem_read c 0 16;
          s \<leftarrow> aes_decrypt_state x block;
          p' \<leftarrow> mem_write p 0 s;
          Some (CRYPTO_SUCCESS, Some p') }
      | _ \<Rightarrow> Some (CRYPTO_INVALID_PARAM, plaintext))"

subsection \<open>Chained blocks\<close>

definition aes_xor :: "u8 list \<Rightarrow> u8 list \<Rightarrow> u8 list" where
  "aes_xor xs ys = map2 (XOR) xs ys"

fun aes_cbc_encrypt_loop :: "aes_ctx \<Rightarrow> u8 list \<Rightarrow> u8 list \<Rightarrow> nat \<Rightarrow> nat \<Rightarrow> nat list \<Rightarrow> (crypto_rc \<times> u8 list) option" where
  "aes_cbc_encrypt_loop ctx prev mem pt ct [] = Some (CRYPTO_SUCCESS, mem)"
| "aes_cbc_encrypt_loop ctx prev mem pt ct (i # is) = do {
     p \<leftarrow> mem_read mem (pt + i) XY_AES_BLOCK_SIZE;
     let block = aes_xor p prev;
     c \<leftarrow> mem_read mem (ct + i) XY_AES_BLOCK_SIZE;
     (ret, c') \<leftarrow> xy_aes_encrypt_block (Some ctx) (Some block) (Some c);
     out \<leftarrow> c';
     mem1 \<leftarrow> mem_write mem (ct + i) out;
     if ret \<noteq> CRYPTO_SUCCESS then Some (ret, mem1)
     else do {
       prev' \<leftarrow> mem_read mem1 (ct + i) XY_AES_BLOCK_SIZE;
       aes_cbc_encrypt_loop ctx prev' mem1 pt ct is } }"

fun aes_cbc_decrypt_loop :: "aes_ctx \<Rightarrow> u8 list \<Rightarrow> u8 list \<Rightarrow> nat \<Rightarrow> nat \<Rightarrow> nat list \<Rightarrow> (crypto_rc \<times> u8 list) option" where
  "aes_cbc_decrypt_loop ctx prev mem ct pt [] = Some (CRYPTO_SUCCESS, mem)"
| "aes_cbc_decrypt_loop ctx prev mem ct pt (i # is) = do {
     c \<leftarrow> mem_read mem (ct + i) XY_AES_BLOCK_SIZE;
     (ret, b) \<leftarrow> xy_aes_decrypt_block (Some ctx) (Some c) (Some (replicate XY_AES_BLOCK_SIZE 0));
     block \<leftarrow> b;
     if ret \<noteq> CRYPTO_SUCCESS then Some (ret, mem)
     else do {
       mem1 \<leftarrow> mem_write mem (pt + i) (aes_xor block prev);
       prev' \<leftarrow> mem_read mem1 (ct + i) XY_AES_BLOCK_SIZE;
       aes_cbc_decrypt_loop ctx prev' mem1 ct pt is } }"

text \<open>The offsets at which the loops stop: every sixteenth below the length.\<close>

definition aes_steps :: "nat \<Rightarrow> nat list" where
  "aes_steps len = map (\<lambda>k. k * XY_AES_BLOCK_SIZE) [0..<len div XY_AES_BLOCK_SIZE]"

definition xy_aes_cbc_encrypt ::
  "aes_ctx option \<Rightarrow> u8 list option \<Rightarrow> u8 list \<Rightarrow> nat option \<Rightarrow> nat \<Rightarrow> nat option \<Rightarrow> (crypto_rc \<times> u8 list) option" where
  "xy_aes_cbc_encrypt ctx iv mem plaintext len ciphertext =
     (case (ctx, iv, plaintext, ciphertext) of
        (Some x, Some v, Some pt, Some ct) \<Rightarrow>
          if len mod XY_AES_BLOCK_SIZE \<noteq> 0 then Some (CRYPTO_INVALID_PARAM, mem)
          else do {
            prev \<leftarrow> mem_read v 0 XY_AES_BLOCK_SIZE;
            aes_cbc_encrypt_loop x prev mem pt ct (aes_steps len) }
      | _ \<Rightarrow> Some (CRYPTO_INVALID_PARAM, mem))"

definition xy_aes_cbc_decrypt ::
  "aes_ctx option \<Rightarrow> u8 list option \<Rightarrow> u8 list \<Rightarrow> nat option \<Rightarrow> nat \<Rightarrow> nat option \<Rightarrow> (crypto_rc \<times> u8 list) option" where
  "xy_aes_cbc_decrypt ctx iv mem ciphertext len plaintext =
     (case (ctx, iv, ciphertext, plaintext) of
        (Some x, Some v, Some ct, Some pt) \<Rightarrow>
          if len mod XY_AES_BLOCK_SIZE \<noteq> 0 then Some (CRYPTO_INVALID_PARAM, mem)
          else do {
            prev \<leftarrow> mem_read v 0 XY_AES_BLOCK_SIZE;
            aes_cbc_decrypt_loop x prev mem ct pt (aes_steps len) }
      | _ \<Rightarrow> Some (CRYPTO_INVALID_PARAM, mem))"

end
