(* ===== verification/Xy_Aes_Correct.thy ===== *)
theory Xy_Aes_Correct
  imports Xy_Aes
begin

text \<open>
  Deciphering undoes enciphering, for every key: the tables of the substitution are inverse to each
  other, the mixing of columns is multiplication with inverse matrices over the field of 256 elements,
  and the round keys cancel. The chained mode is treated for any block cipher with such an inverse.
\<close>

subsection \<open>Substitution\<close>

lemma length_aes_tables [simp]: "length aes_sbox = 256" "length aes_inv_sbox = 256"
  by (simp_all add: aes_sbox_def aes_inv_sbox_def)

lemma aes_inv_table: "map (\<lambda>b. aes_inv_sbox ! unat b) aes_sbox = map of_nat [0..<256]"
  by code_simp

lemma aes_table: "map (\<lambda>b. aes_sbox ! unat b) aes_inv_sbox = map of_nat [0..<256]"
  by code_simp

lemma aes_sbox_inverse [simp]: "aes_inv_sbox ! unat (aes_sbox ! unat b) = b"
proof -
  have "map (\<lambda>b. aes_inv_sbox ! unat b) aes_sbox ! unat b = map of_nat [0..<256] ! unat b" by (simp only: aes_inv_table)
  then show ?thesis by simp
qed

lemma aes_inv_sbox_inverse [simp]: "aes_sbox ! unat (aes_inv_sbox ! unat b) = b"
proof -
  have "map (\<lambda>b. aes_sbox ! unat b) aes_inv_sbox ! unat b = map of_nat [0..<256] ! unat b" by (simp only: aes_table)
  then show ?thesis by simp
qed

lemma aes_sub_inverse [simp]:
  "aes_inv_sub_bytes (aes_sub_bytes s) = s" "aes_sub_bytes (aes_inv_sub_bytes s) = s"
  by (simp_all add: aes_sub_bytes_def aes_inv_sub_bytes_def o_def)

lemma length_aes_sub [simp]: "length (aes_sub_bytes s) = length s" "length (aes_inv_sub_bytes s) = length s"
  by (simp_all add: aes_sub_bytes_def aes_inv_sub_bytes_def)

subsection \<open>Rows, columns and keys\<close>

lemma list_16:
  assumes "length s = 16"
  obtains a0 a1 a2 a3 a4 a5 a6 a7 a8 a9 a10 a11 a12 a13 a14 a15
  where "s = [a0, a1, a2, a3, a4, a5, a6, a7, a8, a9, a10, a11, a12, a13, a14, a15]"
  using assms by (auto simp: length_Suc_conv numeral_eq_Suc)

lemma shift_rows_16:
  "aes_shift_rows [a0, a1, a2, a3, a4, a5, a6, a7, a8, a9, a10, a11, a12, a13, a14, a15]
   = [a0, a5, a10, a15, a4, a9, a14, a3, a8, a13, a2, a7, a12, a1, a6, a11]"
  by (simp add: aes_shift_rows_def Let_def)

lemma inv_shift_rows_16:
  "aes_inv_shift_rows [a0, a1, a2, a3, a4, a5, a6, a7, a8, a9, a10, a11, a12, a13, a14, a15]
   = [a0, a13, a10, a7, a4, a1, a14, a11, a8, a5, a2, a15, a12, a9, a6, a3]"
  by (simp add: aes_inv_shift_rows_def Let_def)

lemma aes_shift_inverse:
  assumes "length s = 16"
  shows "aes_inv_shift_rows (aes_shift_rows s) = s" "aes_shift_rows (aes_inv_shift_rows s) = s"
    and "length (aes_shift_rows s) = 16" "length (aes_inv_shift_rows s) = 16"
  using assms by (auto elim!: list_16 simp: shift_rows_16 inv_shift_rows_16)

text \<open>Multiplication by a constant is a sum of doublings, which are linear.\<close>

definition aes_double :: "u8 \<Rightarrow> u8" where
  "aes_double a = (if a AND 0x80 \<noteq> 0 then push_bit 1 a XOR 0x1b else push_bit 1 a)"

lemma gmul_step:
  "aes_gmul_loop (Suc n) p a b = aes_gmul_loop n (if b AND 1 \<noteq> 0 then p XOR a else p) (aes_double a) (drop_bit 1 b)"
  by (simp add: aes_double_def)

lemma gmul_zero: "aes_gmul_loop n p a 0 = p"
  by (induction n arbitrary: a) (simp_all add: gmul_step del: aes_gmul_loop.simps(2))

lemma gmul_8: "aes_gmul a b = aes_gmul_loop (Suc (Suc (Suc (Suc 4)))) 0 a b"
  by (simp add: aes_gmul_def)

lemma gmul_constants:
  "aes_gmul a 2 = aes_double a" "aes_gmul a 3 = a XOR aes_double a"
  "aes_gmul a 9 = a XOR aes_double (aes_double (aes_double a))"
  "aes_gmul a 11 = a XOR aes_double a XOR aes_double (aes_double (aes_double a))"
  "aes_gmul a 13 = a XOR aes_double (aes_double a) XOR aes_double (aes_double (aes_double a))"
  "aes_gmul a 14 = aes_double a XOR aes_double (aes_double a) XOR aes_double (aes_double (aes_double a))"
  unfolding gmul_8 gmul_step by (simp_all add: gmul_zero xor.assoc)

lemma aes_double_xor: "aes_double (a XOR b) = aes_double a XOR aes_double b"
proof -
  have b: "a AND 0x80 \<noteq> 0 \<longleftrightarrow> bit a 7" for a :: u8
    using bit_iff_and_push_bit_not_eq_0 [of a 7] by simp
  show ?thesis
    by (auto simp: aes_double_def b bit_xor_iff xor.assoc xor.commute xor.left_commute)
qed

lemma xor_self_left: "(a :: u8) XOR (a XOR b) = b"
  by (simp flip: xor.assoc)

lemmas column_simps = gmul_constants aes_double_xor xor.assoc xor.left_commute xor.commute xor_self_left

definition mix_col :: "u8 \<Rightarrow> u8 \<Rightarrow> u8 \<Rightarrow> u8 \<Rightarrow> u8 list" where
  "mix_col s0 s1 s2 s3 =
     [aes_gmul s0 2 XOR aes_gmul s1 3 XOR s2 XOR s3, s0 XOR aes_gmul s1 2 XOR aes_gmul s2 3 XOR s3,
      s0 XOR s1 XOR aes_gmul s2 2 XOR aes_gmul s3 3, aes_gmul s0 3 XOR s1 XOR s2 XOR aes_gmul s3 2]"

definition inv_mix_col :: "u8 \<Rightarrow> u8 \<Rightarrow> u8 \<Rightarrow> u8 \<Rightarrow> u8 list" where
  "inv_mix_col s0 s1 s2 s3 =
     [aes_gmul s0 14 XOR aes_gmul s1 11 XOR aes_gmul s2 13 XOR aes_gmul s3 9,
      aes_gmul s0 9 XOR aes_gmul s1 14 XOR aes_gmul s2 11 XOR aes_gmul s3 13,
      aes_gmul s0 13 XOR aes_gmul s1 9 XOR aes_gmul s2 14 XOR aes_gmul s3 11,
      aes_gmul s0 11 XOR aes_gmul s1 13 XOR aes_gmul s2 9 XOR aes_gmul s3 14]"

lemma mix_col_inverse:
  "mix_col s0 s1 s2 s3 = [t0, t1, t2, t3] \<Longrightarrow> inv_mix_col t0 t1 t2 t3 = [s0, s1, s2, s3]"
  "inv_mix_col s0 s1 s2 s3 = [t0, t1, t2, t3] \<Longrightarrow> mix_col t0 t1 t2 t3 = [s0, s1, s2, s3]"
  unfolding mix_col_def inv_mix_col_def by (clarsimp simp: column_simps)+

lemma mix_columns_16:
  "aes_mix_columns [a0, a1, a2, a3, a4, a5, a6, a7, a8, a9, a10, a11, a12, a13, a14, a15]
   = mix_col a0 a1 a2 a3 @ mix_col a4 a5 a6 a7 @ mix_col a8 a9 a10 a11 @ mix_col a12 a13 a14 a15"
  by (simp add: aes_mix_columns_def aes_mix_column_def mix_col_def Let_def upt_rec)

lemma inv_mix_columns_16:
  "aes_inv_mix_columns [a0, a1, a2, a3, a4, a5, a6, a7, a8, a9, a10, a11, a12, a13, a14, a15]
   = inv_mix_col a0 a1 a2 a3 @ inv_mix_col a4 a5 a6 a7 @ inv_mix_col a8 a9 a10 a11 @ inv_mix_col a12 a13 a14 a15"
  by (simp add: aes_inv_mix_columns_def aes_inv_mix_column_def inv_mix_col_def Let_def upt_rec)


lemma mix_col_cases: obtains t0 t1 t2 t3 where "mix_col s0 s1 s2 s3 = [t0, t1, t2, t3]"
  by (simp add: mix_col_def)

lemma inv_mix_col_cases: obtains t0 t1 t2 t3 where "inv_mix_col s0 s1 s2 s3 = [t0, t1, t2, t3]"
  by (simp add: inv_mix_col_def)

lemma aes_mix_inverse:
  assumes "length s = 16"
  shows "aes_inv_mix_columns (aes_mix_columns s) = s" "aes_mix_columns (aes_inv_mix_columns s) = s"
    and "length (aes_mix_columns s) = 16" "length (aes_inv_mix_columns s) = 16"
proof -
  obtain a0 a1 a2 a3 a4 a5 a6 a7 a8 a9 a10 a11 a12 a13 a14 a15
    where s: "s = [a0, a1, a2, a3, a4, a5, a6, a7, a8, a9, a10, a11, a12, a13, a14, a15]" using assms by (rule list_16)
  show "aes_inv_mix_columns (aes_mix_columns s) = s"
  proof -
    obtain b0 b1 b2 b3 c0 c1 c2 c3 d0 d1 d2 d3 e0 e1 e2 e3 where c:
      "mix_col a0 a1 a2 a3 = [b0, b1, b2, b3]" "mix_col a4 a5 a6 a7 = [c0, c1, c2, c3]"
      "mix_col a8 a9 a10 a11 = [d0, d1, d2, d3]" "mix_col a12 a13 a14 a15 = [e0, e1, e2, e3]"
      by (metis mix_col_cases)
    show ?thesis using c [THEN mix_col_inverse(1)] c by (simp add: s mix_columns_16 inv_mix_columns_16)
  qed
  show "aes_mix_columns (aes_inv_mix_columns s) = s"
  proof -
    obtain b0 b1 b2 b3 c0 c1 c2 c3 d0 d1 d2 d3 e0 e1 e2 e3 where c:
      "inv_mix_col a0 a1 a2 a3 = [b0, b1, b2, b3]" "inv_mix_col a4 a5 a6 a7 = [c0, c1, c2, c3]"
      "inv_mix_col a8 a9 a10 a11 = [d0, d1, d2, d3]" "inv_mix_col a12 a13 a14 a15 = [e0, e1, e2, e3]"
      by (metis inv_mix_col_cases)
    show ?thesis using c [THEN mix_col_inverse(2)] c by (simp add: s mix_columns_16 inv_mix_columns_16)
  qed
  show "length (aes_mix_columns s) = 16" by (simp add: s mix_columns_16 mix_col_def)
  show "length (aes_inv_mix_columns s) = 16" by (simp add: s inv_mix_columns_16 inv_mix_col_def)
qed

lemma add_round_key_16:
  "aes_add_round_key [a0, a1, a2, a3, a4, a5, a6, a7, a8, a9, a10, a11, a12, a13, a14, a15] k =
   map2 (XOR) [a0, a1, a2, a3, a4, a5, a6, a7, a8, a9, a10, a11, a12, a13, a14, a15]
     (concat (map (\<lambda>i. [ucast (drop_bit 24 (k ! i) AND 0xff), ucast (drop_bit 16 (k ! i) AND 0xff),
        ucast (drop_bit 8 (k ! i) AND 0xff), ucast (k ! i AND 0xff)]) [0..<4]))"
  by (simp add: aes_add_round_key_def aes_add_key_word_def Let_def upt_rec)

lemma aes_add_key_inverse:
  assumes "length s = 16"
  shows "aes_add_round_key (aes_add_round_key s k) k = s" "length (aes_add_round_key s k) = 16"
  using assms by (auto elim!: list_16 simp: add_round_key_16 upt_rec xor.assoc)

subsection \<open>The cipher\<close>

text \<open>The two directions over the round keys as a function, with the rounds in between as a list.\<close>

definition aes_round :: "(int \<Rightarrow> u32 list) \<Rightarrow> int \<Rightarrow> u8 list \<Rightarrow> u8 list" where
  "aes_round ks r s = aes_add_round_key (aes_mix_columns (aes_shift_rows (aes_sub_bytes s))) (ks r)"

definition aes_inv_round :: "(int \<Rightarrow> u32 list) \<Rightarrow> int \<Rightarrow> u8 list \<Rightarrow> u8 list" where
  "aes_inv_round ks r s = aes_inv_mix_columns (aes_add_round_key (aes_inv_sub_bytes (aes_inv_shift_rows s)) (ks r))"

definition aes_E :: "(int \<Rightarrow> u32 list) \<Rightarrow> int \<Rightarrow> u8 list \<Rightarrow> u8 list" where
  "aes_E ks n b = aes_add_round_key (aes_shift_rows (aes_sub_bytes
     (fold (aes_round ks) [1..n - 1] (aes_add_round_key b (ks 0))))) (ks n)"

definition aes_D :: "(int \<Rightarrow> u32 list) \<Rightarrow> int \<Rightarrow> u8 list \<Rightarrow> u8 list" where
  "aes_D ks n b = aes_add_round_key (aes_inv_sub_bytes (aes_inv_shift_rows
     (fold (aes_inv_round ks) (rev [1..n - 1]) (aes_add_round_key b (ks n))))) (ks 0)"

lemma aes_round_inverse:
  assumes "length s = 16"
  shows "length (aes_round ks r s) = 16" "length (aes_inv_round ks r s) = 16"
    and "aes_inv_sub_bytes (aes_inv_shift_rows (aes_shift_rows (aes_sub_bytes s))) = s"
  using assms by (simp_all add: aes_round_def aes_inv_round_def aes_mix_inverse aes_shift_inverse aes_add_key_inverse)

text \<open>A round of deciphering takes off a round of enciphering, up to the order of the steps.\<close>

definition aes_half :: "u8 list \<Rightarrow> u8 list" where
  "aes_half s = aes_shift_rows (aes_sub_bytes s)"

lemma aes_inv_round_half: "length s = 16 \<Longrightarrow> aes_inv_round ks r (aes_half (aes_round ks r s)) = aes_half s"
  by (simp add: aes_half_def aes_inv_round_def aes_round_def aes_mix_inverse aes_shift_inverse aes_add_key_inverse)

lemma aes_round_unhalf:
  "length s = 16 \<Longrightarrow> aes_round ks r (aes_inv_sub_bytes (aes_inv_shift_rows (aes_inv_round ks r s)))
     = aes_inv_sub_bytes (aes_inv_shift_rows s)"
  by (simp add: aes_inv_round_def aes_round_def aes_mix_inverse aes_shift_inverse aes_add_key_inverse)

lemma length_fold_rounds:
  "length s = 16 \<Longrightarrow> length (fold (aes_round ks) rs s) = 16"
  "length s = 16 \<Longrightarrow> length (fold (aes_inv_round ks) rs s) = 16"
  by (induction rs arbitrary: s) (simp_all add: aes_round_inverse)

lemma fold_rounds_inverse:
  "length s = 16 \<Longrightarrow> fold (aes_inv_round ks) (rev rs) (aes_half (fold (aes_round ks) rs s)) = aes_half s"
proof (induction rs arbitrary: s)
  case (Cons r rs)
  then have "fold (aes_inv_round ks) (rev rs) (aes_half (fold (aes_round ks) rs (aes_round ks r s))) = aes_half (aes_round ks r s)"
    by (simp add: aes_round_inverse)
  then show ?case using Cons.prems by (simp add: aes_inv_round_half)
qed simp

lemma fold_rounds_inverse':
  "length s = 16 \<Longrightarrow> fold (aes_round ks) rs (aes_inv_sub_bytes (aes_inv_shift_rows (fold (aes_inv_round ks) (rev rs) s)))
     = aes_inv_sub_bytes (aes_inv_shift_rows s)"
proof (induction rs arbitrary: s rule: rev_induct)
  case (snoc r rs)
  then have "fold (aes_round ks) rs (aes_inv_sub_bytes (aes_inv_shift_rows (fold (aes_inv_round ks) (rev rs) (aes_inv_round ks r s))))
    = aes_inv_sub_bytes (aes_inv_shift_rows (aes_inv_round ks r s))" by (simp add: aes_round_inverse)
  then show ?case using snoc.prems by (simp add: aes_round_unhalf)
qed simp

lemma aes_cipher_inverse:
  assumes "length b = 16"
  shows "aes_D ks n (aes_E ks n b) = b" "aes_E ks n (aes_D ks n b) = b"
    and "length (aes_E ks n b) = 16" "length (aes_D ks n b) = 16"
proof -
  have half: "length s = 16 \<Longrightarrow> length (aes_half s) = 16" for s by (simp add: aes_half_def aes_shift_inverse)
  have k: "length (aes_add_round_key b (ks 0)) = 16" "length (aes_add_round_key b (ks n)) = 16"
    using assms by (simp_all add: aes_add_key_inverse)
  show "aes_D ks n (aes_E ks n b) = b"
    unfolding aes_D_def aes_E_def aes_half_def [symmetric]
    using fold_rounds_inverse [OF k(1), of ks "[1..n - 1]"] k assms length_fold_rounds [OF k(1), of ks "[1..n - 1]"]
    by (simp add: aes_add_key_inverse half) (simp add: aes_half_def aes_shift_inverse aes_add_key_inverse)
  show "aes_E ks n (aes_D ks n b) = b"
    unfolding aes_D_def aes_E_def
    using fold_rounds_inverse' [OF k(2), of ks "[1..n - 1]"] k assms length_fold_rounds(2) [OF k(2), of ks "rev [1..n - 1]"]
    by (simp add: aes_add_key_inverse aes_shift_inverse)
  show "length (aes_E ks n b) = 16" "length (aes_D ks n b) = 16"
    unfolding aes_E_def aes_D_def using k by (simp_all add: aes_add_key_inverse aes_shift_inverse length_fold_rounds)
qed


subsection \<open>Chaining over any block cipher\<close>

lemma length_aes_xor [simp]: "length (aes_xor xs ys) = min (length xs) (length ys)"
  by (simp add: aes_xor_def)

lemma aes_xor_cancel: "length xs = length ys \<Longrightarrow> aes_xor (aes_xor xs ys) ys = xs"
  by (induction xs ys rule: list_induct2) (simp_all add: aes_xor_def xor.assoc)

primrec cbc_enc :: "(u8 list \<Rightarrow> u8 list) \<Rightarrow> u8 list \<Rightarrow> u8 list list \<Rightarrow> u8 list list" where
  "cbc_enc E prev [] = []"
| "cbc_enc E prev (b # bs) = E (aes_xor b prev) # cbc_enc E (E (aes_xor b prev)) bs"

primrec cbc_dec :: "(u8 list \<Rightarrow> u8 list) \<Rightarrow> u8 list \<Rightarrow> u8 list list \<Rightarrow> u8 list list" where
  "cbc_dec D prev [] = []"
| "cbc_dec D prev (c # cs) = aes_xor (D c) prev # cbc_dec D c cs"

locale block_cipher =
  fixes E D :: "u8 list \<Rightarrow> u8 list"
  assumes length_E: "length b = 16 \<Longrightarrow> length (E b) = 16"
    and D_E: "length b = 16 \<Longrightarrow> D (E b) = b"
begin

lemma length_cbc_enc:
  "length prev = 16 \<Longrightarrow> \<forall>b \<in> set bs. length b = 16 \<Longrightarrow>
   length (cbc_enc E prev bs) = length bs \<and> (\<forall>c \<in> set (cbc_enc E prev bs). length c = 16)"
proof (induction bs arbitrary: prev)
  case (Cons b bs)
  have "length (E (aes_xor b prev)) = 16" using Cons.prems by (simp add: length_E)
  then show ?case using Cons.IH [of "E (aes_xor b prev)"] Cons.prems by simp
qed simp

lemma cbc_dec_enc:
  "length prev = 16 \<Longrightarrow> \<forall>b \<in> set bs. length b = 16 \<Longrightarrow> cbc_dec D prev (cbc_enc E prev bs) = bs"
  by (induction bs arbitrary: prev) (simp_all add: length_E D_E aes_xor_cancel)

end

interpretation aes: block_cipher "aes_E ks n" "aes_D ks n" for ks n
  by unfold_locales (simp_all add: aes_cipher_inverse)

subsection \<open>The code and the cipher\<close>

definition aes_keys :: "aes_ctx \<Rightarrow> int \<Rightarrow> u32 list" where
  "aes_keys c r = take 4 (drop (nat (r * 4)) (ac_round_keys c))"

definition aes_ready :: "aes_ctx \<Rightarrow> bool" where
  "aes_ready c \<longleftrightarrow> length (ac_round_keys c) = 60 \<and> 0 \<le> ac_rounds c \<and> ac_rounds c \<le> 14"

lemma aes_key_at_ready: "aes_ready c \<Longrightarrow> 0 \<le> r \<Longrightarrow> r \<le> 14 \<Longrightarrow> aes_key_at c r = Some (aes_keys c r)"
  by (simp add: aes_ready_def aes_key_at_def aes_keys_def mem_read_def)

lemma aes_rounds_fold:
  "aes_ready c \<Longrightarrow> \<forall>r \<in> set rs. 0 \<le> r \<and> r \<le> 14 \<Longrightarrow> aes_encrypt_rounds c rs s = Some (fold (aes_round (aes_keys c)) rs s)"
  "aes_ready c \<Longrightarrow> \<forall>r \<in> set rs. 0 \<le> r \<and> r \<le> 14 \<Longrightarrow> aes_decrypt_rounds c rs s = Some (fold (aes_inv_round (aes_keys c)) rs s)"
  by (induction rs arbitrary: s) (simp_all add: aes_key_at_ready aes_round_def aes_inv_round_def)

lemma aes_state_cipher:
  assumes "aes_ready c"
  shows "aes_encrypt_state c b = Some (aes_E (aes_keys c) (ac_rounds c) b)"
    and "aes_decrypt_state c b = Some (aes_D (aes_keys c) (ac_rounds c) b)"
proof -
  have r: "0 \<le> ac_rounds c" "ac_rounds c \<le> 14" using assms by (simp_all add: aes_ready_def)
  have rs: "\<forall>r \<in> set [1..ac_rounds c - 1]. 0 \<le> r \<and> r \<le> 14" using r by simp
  then have rs': "\<forall>r \<in> set (rev [1..ac_rounds c - 1]). 0 \<le> r \<and> r \<le> 14" by simp
  show "aes_encrypt_state c b = Some (aes_E (aes_keys c) (ac_rounds c) b)"
    unfolding aes_encrypt_state_def aes_E_def
    using aes_key_at_ready [OF assms, of 0] aes_key_at_ready [OF assms r] by (simp add: aes_rounds_fold(1) [OF assms rs])
  show "aes_decrypt_state c b = Some (aes_D (aes_keys c) (ac_rounds c) b)"
    unfolding aes_decrypt_state_def aes_D_def
    using aes_key_at_ready [OF assms, of 0] aes_key_at_ready [OF assms r] by (simp add: aes_rounds_fold(2) [OF assms rs'])
qed

text \<open>The expansion of a key of one of the three sizes stays inside its arrays.\<close>

lemma aes_load_key_total:
  "\<forall>i \<in> set is. i * 4 + 4 \<le> length key \<and> i < length rk \<Longrightarrow> \<exists>rk'. aes_load_key key is rk = Some rk' \<and> length rk' = length rk"
proof (induction "is" arbitrary: rk)
  case (Cons i "is")
  have "\<exists>rk'. aes_load_key key is (rk[i := v]) = Some rk' \<and> length rk' = length rk" for v
    using Cons.IH [of "rk[i := v]"] Cons.prems by simp
  then show ?case using Cons.prems by (simp add: mem_simps)
qed simp

lemma aes_expand_total:
  "\<forall>i \<in> set is. nk \<le> i \<and> i < length rk \<and> i div nk \<le> 10 \<Longrightarrow> 0 < nk \<Longrightarrow>
   \<exists>rk'. aes_expand nk is rk = Some rk' \<and> length rk' = length rk"
proof (induction "is" arbitrary: rk)
  case (Cons i "is")
  have i: "nk \<le> i" "i < length rk" "i div nk \<le> 10" "0 < i div nk" using Cons.prems by (auto simp: div_greater_zero_iff)
  have rc: "mem_load aes_rcon (i div nk - 1) \<noteq> None" using i(3,4) by (simp add: mem_load_def aes_rcon_def)
  let ?new = "if i mod nk = 0 then do {
         rc \<leftarrow> mem_load aes_rcon (i div nk - 1);
         Some (aes_sub_word (aes_rot_word (rk ! (i - 1))) XOR push_bit 24 (ucast rc)) }
       else if nk > 6 \<and> i mod nk = 4 then Some (aes_sub_word (rk ! (i - 1))) else Some (rk ! (i - 1))"
  have "?new \<noteq> None" using rc by (auto simp: bind_eq_None)
  then obtain t where t: "?new = Some t" by blast
  have "\<exists>rk'. aes_expand nk is (rk[i := rk ! (i - nk) XOR t]) = Some rk' \<and> length rk' = length rk"
    using Cons.IH [of "rk[i := rk ! (i - nk) XOR t]"] Cons.prems by simp
  moreover have "aes_expand nk (i # is) rk = ?new \<bind> (\<lambda>t. aes_expand nk is (rk[i := rk ! (i - nk) XOR t]))"
    using i by (simp add: mem_simps)
  ultimately show ?case unfolding t by simp
qed simp

lemma aes_init_ready:
  assumes "length (ac_round_keys c) = 60" "key_size \<in> {16, 24, 32}" "nat key_size \<le> length key"
  shows "\<exists>c'. xy_aes_init (Some c) (Some key) key_size = Some (CRYPTO_SUCCESS, Some c') \<and> aes_ready c'"
proof -
  have ex: "\<exists>rk. aes_key_expansion key key_size (ac_round_keys c) r = Some rk \<and> length rk = 60"
    if "(key_size, r) \<in> {(16, 10), (24, 12), (32, 14)}" for r
  proof -
    let ?nk = "nat (key_size div 4)"
    have n: "?nk * 4 \<le> length key" "?nk \<le> 8" "4 \<le> ?nk" using that assms(3) by auto
    obtain rk where rk: "aes_load_key key [0..<?nk] (ac_round_keys c) = Some rk" "length rk = 60"
      using aes_load_key_total [of "[0..<?nk]" key "ac_round_keys c"] n assms(1) by fastforce
    have "\<forall>i \<in> set [?nk..<nat (4 * (r + 1))]. ?nk \<le> i \<and> i < length rk \<and> i div ?nk \<le> 10"
      using that rk(2) by (auto simp: less_mult_imp_div_less less_Suc_eq_le [symmetric])
    then show ?thesis
      using aes_expand_total [of "[?nk..<nat (4 * (r + 1))]" ?nk rk] rk n by (auto simp: aes_key_expansion_def Let_def)
  qed
  then show ?thesis
    using assms(2) by (auto simp: xy_aes_init_def Let_def aes_ready_def XY_AES_KEY_SIZE_128_def XY_AES_KEY_SIZE_192_def XY_AES_KEY_SIZE_256_def)
qed


subsection \<open>Blocks and chains\<close>

text \<open>
  C27. With a context that \<open>xy_aes_init\<close> made of any key of 128, 192 or 256 bits, \<open>xy_aes_decrypt_block\<close> returns
  the 16 bytes that \<open>xy_aes_encrypt_block\<close> was given, and the other way round; neither leaves its buffers.
\<close>

theorem aes_block_inverse:
  assumes "length (ac_round_keys c) = 60" "key_size \<in> {16, 24, 32}" "nat key_size \<le> length key"
    and "length p = 16" "16 \<le> length buf" "16 \<le> length buf'"
  shows "\<exists>c' x y. xy_aes_init (Some c) (Some key) key_size = Some (CRYPTO_SUCCESS, Some c')
    \<and> xy_aes_encrypt_block (Some c') (Some p) (Some buf) = Some (CRYPTO_SUCCESS, Some (x @ drop 16 buf))
    \<and> xy_aes_decrypt_block (Some c') (Some (x @ drop 16 buf)) (Some buf') = Some (CRYPTO_SUCCESS, Some (p @ drop 16 buf'))
    \<and> xy_aes_decrypt_block (Some c') (Some p) (Some buf) = Some (CRYPTO_SUCCESS, Some (y @ drop 16 buf))
    \<and> xy_aes_encrypt_block (Some c') (Some (y @ drop 16 buf)) (Some buf') = Some (CRYPTO_SUCCESS, Some (p @ drop 16 buf'))"
proof -
  obtain c' where c': "xy_aes_init (Some c) (Some key) key_size = Some (CRYPTO_SUCCESS, Some c')" "aes_ready c'"
    using aes_init_ready [OF assms(1-3)] by blast
  let ?x = "aes_E (aes_keys c') (ac_rounds c') p" and ?y = "aes_D (aes_keys c') (ac_rounds c') p"
  show ?thesis
    using c'(1) assms(4-6)
    by (intro exI [of _ c'] exI [of _ ?x] exI [of _ ?y])
      (simp add: xy_aes_encrypt_block_def xy_aes_decrypt_block_def aes_state_cipher [OF c'(2)] mem_simps aes_cipher_inverse)
qed

definition aes_ctx_zero :: aes_ctx where
  "aes_ctx_zero = \<lparr>ac_round_keys = replicate 60 0, ac_rounds = 0\<rparr>"

theorem aes_block_inverse_witness:
  "\<exists>c' x. xy_aes_init (Some aes_ctx_zero) (Some (replicate 32 7)) 32 = Some (CRYPTO_SUCCESS, Some c')
    \<and> xy_aes_encrypt_block (Some c') (Some (replicate 16 1)) (Some (replicate 16 0)) = Some (CRYPTO_SUCCESS, Some x)
    \<and> xy_aes_decrypt_block (Some c') (Some x) (Some (replicate 16 0)) = Some (CRYPTO_SUCCESS, Some (replicate 16 1))"
proof -
  have "length (ac_round_keys aes_ctx_zero) = 60" "(32 :: int) \<in> {16, 24, 32}" "nat 32 \<le> length (replicate 32 (7 :: u8))"
    "length (replicate 16 (1 :: u8)) = 16" "16 \<le> length (replicate 16 (0 :: u8))"
    by (simp_all add: aes_ctx_zero_def)
  from aes_block_inverse [OF this this(5)] show ?thesis by fastforce
qed

lemma mem_read_split:
  assumes "mem_read mem a (16 * Suc k) = Some (concat (b # bs))" "length b = 16"
  shows "mem_read mem a 16 = Some b" "mem_read mem (a + 16) (16 * k) = Some (concat bs)"
proof -
  have "a + (16 + 16 * k) \<le> length mem" "take (16 + 16 * k) (drop a mem) = b @ concat bs" using assms(1) by (simp_all add: mem_iff)
  moreover have "take 16 (drop a mem) @ take (16 * k) (drop (a + 16) mem) = take (16 + 16 * k) (drop a mem)"
    by (simp add: take_add add.commute)
  ultimately show "mem_read mem a 16 = Some b" "mem_read mem (a + 16) (16 * k) = Some (concat bs)"
    using assms(2) by (simp_all add: mem_iff append_eq_append_conv)
qed

lemma mem_read_other:
  assumes "mem_write mem off xs = Some m" "a + n \<le> off \<or> off + length xs \<le> a"
  shows "mem_read m a n = mem_read mem a n"
proof -
  have l: "length m = length mem" using assms(1) by (rule mem_write_length)
  have "take n (drop a m) = take n (drop a mem)" if "a + n \<le> length mem"
  proof (rule nth_equalityI)
    fix i assume "i < length (take n (drop a m))"
    then show "take n (drop a m) ! i = take n (drop a mem) ! i"
      using nth_mem_write [OF assms(1), of "a + i"] assms(2) that l by auto
  qed (use l in simp)
  then show ?thesis using l by (simp add: mem_read_def)
qed

definition aes_steps_from :: "nat \<Rightarrow> nat \<Rightarrow> nat list" where
  "aes_steps_from j k = map (\<lambda>i. i * 16) [j..<j + k]"

lemma aes_steps_from_simps [simp]:
  "aes_steps_from j 0 = []" "aes_steps_from j (Suc k) = j * 16 # aes_steps_from (Suc j) k"
  by (simp_all add: aes_steps_from_def upt_rec [of j])

lemma aes_steps_eq: "aes_steps (16 * k) = aes_steps_from 0 k"
  by (simp add: aes_steps_def aes_steps_from_def XY_AES_BLOCK_SIZE_def)

lemma aes_cbc_encrypt_loop_spec:
  assumes "aes_ready c" "\<forall>b \<in> set bs. length b = 16" "length prev = 16"
    and "mem_read mem (pt + j * 16) (16 * length bs) = Some (concat bs)" "ct + (j + length bs) * 16 \<le> length mem"
    and "pt = ct \<or> pt + (j + length bs) * 16 \<le> ct \<or> ct + (j + length bs) * 16 \<le> pt"
  shows "\<exists>m. aes_cbc_encrypt_loop c prev mem pt ct (aes_steps_from j (length bs)) = Some (CRYPTO_SUCCESS, m)
    \<and> mem_write mem (ct + j * 16) (concat (cbc_enc (aes_E (aes_keys c) (ac_rounds c)) prev bs)) = Some m"
  using assms(2-6)
proof (induction bs arbitrary: prev mem j)
  case Nil
  then show ?case by (simp add: mem_simps)
next
  case (Cons b bs)
  let ?E = "aes_E (aes_keys c) (ac_rounds c)"
  let ?c = "?E (aes_xor b prev)"
  have b: "length b = 16" "length ?c = 16" using Cons.prems(1,2) by (simp_all add: aes_cipher_inverse)
  have rd: "mem_read mem (pt + j * 16) 16 = Some b" "mem_read mem (pt + j * 16 + 16) (16 * length bs) = Some (concat bs)"
    using mem_read_split [of mem "pt + j * 16" "length bs" b bs] Cons.prems(3) b(1) by simp_all
  obtain m1 where m1: "mem_write mem (ct + j * 16) ?c = Some m1" using Cons.prems(4) b(2) by (simp add: mem_iff mem_write_def)
  have "mem_read m1 (pt + Suc j * 16) (16 * length bs) = Some (concat bs)"
    using mem_read_other [OF m1, of "pt + j * 16 + 16" "16 * length bs"] rd(2) Cons.prems(5) b(2) by (auto simp: add.commute add.left_commute)
  then obtain m where m: "aes_cbc_encrypt_loop c ?c m1 pt ct (aes_steps_from (Suc j) (length bs)) = Some (CRYPTO_SUCCESS, m)"
    "mem_write m1 (ct + Suc j * 16) (concat (cbc_enc ?E ?c bs)) = Some m"
    using Cons.IH [of ?c m1 "Suc j"] Cons.prems b mem_write_length [OF m1] by auto
  have "mem_write mem (ct + j * 16) (?c @ concat (cbc_enc ?E ?c bs)) = Some m"
    using mem_write_append [OF m1] m(2) b(2) by (simp add: add.commute add.left_commute)
  moreover have "mem_read m1 (ct + j * 16) 16 = Some ?c" using mem_read_write_same [OF m1] b(2) by simp
  moreover have "mem_read mem (ct + j * 16) 16 = Some (take 16 (drop (ct + j * 16) mem))" using Cons.prems(4) by (simp add: mem_simps)
  ultimately show ?case
    using m(1) m1 rd(1) b Cons.prems(2,4)
    by (simp add: XY_AES_BLOCK_SIZE_def xy_aes_encrypt_block_def aes_state_cipher [OF assms(1)] mem_simps Let_def)
qed


text \<open>Deciphering into another range, and in place, where the plaintext takes the place of the ciphertext.\<close>

primrec cbc_dec_in_place :: "(u8 list \<Rightarrow> u8 list) \<Rightarrow> u8 list \<Rightarrow> u8 list list \<Rightarrow> u8 list list" where
  "cbc_dec_in_place D prev [] = []"
| "cbc_dec_in_place D prev (c # cs) = aes_xor (D c) prev # cbc_dec_in_place D (aes_xor (D c) prev) cs"

lemma aes_cbc_decrypt_step:
  assumes "aes_ready c" "mem_read mem (ct + i) 16 = Some b" "length prev = 16" "pt + i + 16 \<le> length mem"
  shows "aes_cbc_decrypt_loop c prev mem ct pt (i # is) = do {
    m \<leftarrow> mem_write mem (pt + i) (aes_xor (aes_D (aes_keys c) (ac_rounds c) b) prev);
    prev' \<leftarrow> mem_read m (ct + i) 16;
    aes_cbc_decrypt_loop c prev' m ct pt is }"
proof -
  have "length b = 16" using assms(2) by (auto simp: mem_iff)
  then show ?thesis
    using assms by (simp add: XY_AES_BLOCK_SIZE_def xy_aes_decrypt_block_def aes_state_cipher mem_simps aes_cipher_inverse)
qed

lemma aes_cbc_decrypt_loop_spec:
  assumes "aes_ready c" "\<forall>b \<in> set cs. length b = 16" "length prev = 16"
    and "mem_read mem (ct + j * 16) (16 * length cs) = Some (concat cs)" "pt + (j + length cs) * 16 \<le> length mem"
    and "pt + (j + length cs) * 16 \<le> ct \<or> ct + (j + length cs) * 16 \<le> pt \<or> pt = ct"
  shows "\<exists>m. aes_cbc_decrypt_loop c prev mem ct pt (aes_steps_from j (length cs)) = Some (CRYPTO_SUCCESS, m)
    \<and> mem_write mem (pt + j * 16) (concat (if pt = ct \<and> cs \<noteq> [] then cbc_dec_in_place (aes_D (aes_keys c) (ac_rounds c)) prev cs
        else cbc_dec (aes_D (aes_keys c) (ac_rounds c)) prev cs)) = Some m"
  using assms(2-6)
proof (induction cs arbitrary: prev mem j)
  case Nil
  then show ?case by (simp add: mem_simps)
next
  case (Cons b cs)
  let ?D = "aes_D (aes_keys c) (ac_rounds c)"
  let ?p = "aes_xor (?D b) prev"
  let ?next = "if pt = ct then ?p else b"
  have b: "length b = 16" "length ?p = 16" using Cons.prems(1,2) by (simp_all add: aes_cipher_inverse)
  have rd: "mem_read mem (ct + j * 16) 16 = Some b" "mem_read mem (ct + j * 16 + 16) (16 * length cs) = Some (concat cs)"
    using mem_read_split [of mem "ct + j * 16" "length cs" b cs] Cons.prems(3) b(1) by simp_all
  obtain m1 where m1: "mem_write mem (pt + j * 16) ?p = Some m1" using Cons.prems(4) b(2) by (simp add: mem_iff mem_write_def)
  have "mem_read m1 (ct + Suc j * 16) (16 * length cs) = Some (concat cs)"
    using mem_read_other [OF m1, of "ct + j * 16 + 16" "16 * length cs"] rd(2) Cons.prems(5) b(2) by (auto simp: add.commute add.left_commute)
  moreover have "length ?next = 16" using b by simp
  ultimately obtain m where m: "aes_cbc_decrypt_loop c ?next m1 ct pt (aes_steps_from (Suc j) (length cs)) = Some (CRYPTO_SUCCESS, m)"
    "mem_write m1 (pt + Suc j * 16) (concat (if pt = ct \<and> cs \<noteq> [] then cbc_dec_in_place ?D ?next cs else cbc_dec ?D ?next cs)) = Some m"
    using Cons.IH [of ?next m1 "Suc j"] Cons.prems mem_write_length [OF m1] by auto
  have "mem_write mem (pt + j * 16) (?p @ concat (if pt = ct \<and> cs \<noteq> [] then cbc_dec_in_place ?D ?next cs else cbc_dec ?D ?next cs)) = Some m"
    using mem_write_append [OF m1] m(2) b(2) by (simp add: add.commute add.left_commute)
  moreover have "mem_read m1 (ct + j * 16) 16 = Some ?next"
    using mem_read_write_same [OF m1] mem_read_other [OF m1, of "ct + j * 16" 16] rd(1) Cons.prems(5) b(2) by auto
  ultimately show ?case
    using m(1) m1 aes_cbc_decrypt_step [OF assms(1) rd(1) Cons.prems(2)] Cons.prems(4) by (cases "pt = ct"; cases cs) auto
qed

lemma blocks_16: "length xs = 16 * k \<Longrightarrow> \<exists>bs. concat bs = xs \<and> length bs = k \<and> (\<forall>b \<in> set bs. length b = (16 :: nat))"
proof (induction k arbitrary: xs)
  case (Suc k)
  then have "length (drop 16 xs) = 16 * k" by simp
  then obtain bs where "concat bs = drop 16 xs" "length bs = k" "\<forall>b \<in> set bs. length b = 16" using Suc.IH by blast
  then show ?case using Suc.prems by (intro exI [of _ "take 16 xs # bs"]) simp
qed simp

lemma length_concat_16: "\<forall>b \<in> set bs. length b = (16 :: nat) \<Longrightarrow> length (concat bs) = 16 * length bs"
  by (induction bs) simp_all

text \<open>
  C28. What \<open>xy_aes_cbc_encrypt\<close> wrote, \<open>xy_aes_cbc_decrypt\<close> turns back into the plaintext, for every key, initial
  vector and length that is a multiple of 16. The text may be enciphered in place; the deciphered text
  must go to another range.
\<close>

theorem aes_cbc_roundtrip:
  assumes "length (ac_round_keys c) = 60" "key_size \<in> {16, 24, 32}" "nat key_size \<le> length key"
    and "xy_aes_init (Some c) (Some key) key_size = Some (CRYPTO_SUCCESS, Some c')" "16 \<le> length iv" "16 dvd len"
    and "pt + len \<le> length mem" "ct + len \<le> length mem" "out + len \<le> length mem"
    and "pt = ct \<or> pt + len \<le> ct \<or> ct + len \<le> pt" "out + len \<le> ct \<or> ct + len \<le> out"
  shows "\<exists>m1 m2. xy_aes_cbc_encrypt (Some c') (Some iv) mem (Some pt) len (Some ct) = Some (CRYPTO_SUCCESS, m1)
    \<and> xy_aes_cbc_decrypt (Some c') (Some iv) m1 (Some ct) len (Some out) = Some (CRYPTO_SUCCESS, m2)
    \<and> mem_read m2 out len = mem_read mem pt len
    \<and> (\<forall>i < length mem. \<not> (ct \<le> i \<and> i < ct + len) \<and> \<not> (out \<le> i \<and> i < out + len) \<longrightarrow> m2 ! i = mem ! i)"
proof -
  have r: "aes_ready c'" using aes_init_ready [OF assms(1-3)] assms(4) by auto
  let ?E = "aes_E (aes_keys c') (ac_rounds c')" and ?D = "aes_D (aes_keys c') (ac_rounds c')"
  obtain k where k: "len = 16 * k" using assms(6) by blast
  obtain bs where bs: "concat bs = take len (drop pt mem)" "length bs = k" "\<forall>b \<in> set bs. length b = 16"
    using blocks_16 [of "take len (drop pt mem)" k] assms(7) k by auto
  let ?v = "take 16 iv"
  let ?cs = "cbc_enc ?E ?v bs"
  have v: "length ?v = 16" using assms(5) by simp
  have cs: "length ?cs = k" "\<forall>x \<in> set ?cs. length x = 16" "cbc_dec ?D ?v ?cs = bs"
    using aes.length_cbc_enc [OF v bs(3)] aes.cbc_dec_enc [OF v bs(3)] bs(2) by simp_all
  have rd: "mem_read mem (pt + 0 * 16) (16 * length bs) = Some (concat bs)" using bs(1,2) k assms(7) by (simp add: mem_simps)
  obtain m1 where m1: "aes_cbc_encrypt_loop c' ?v mem pt ct (aes_steps_from 0 k) = Some (CRYPTO_SUCCESS, m1)"
    "mem_write mem ct (concat ?cs) = Some m1"
    using aes_cbc_encrypt_loop_spec [OF r bs(3) v rd, of ct] bs(2) k assms(8,10) by (auto simp: mult.commute)
  have rd1: "mem_read m1 (ct + 0 * 16) (16 * length ?cs) = Some (concat ?cs)"
    using mem_read_write_same [OF m1(2)] length_concat_16 [OF cs(2)] by simp
  have oc: "out = ct \<Longrightarrow> bs = []" using assms(11) k bs(2) by auto
  obtain m2 where m2: "aes_cbc_decrypt_loop c' ?v m1 ct out (aes_steps_from 0 k) = Some (CRYPTO_SUCCESS, m2)"
    "mem_write m1 out (concat bs) = Some m2"
  proof -
    have "out + (0 + length ?cs) * 16 \<le> length m1" using assms(9) k cs(1) mem_write_length [OF m1(2)] by (simp add: mult.commute)
    moreover have "out + (0 + length ?cs) * 16 \<le> ct \<or> ct + (0 + length ?cs) * 16 \<le> out \<or> out = ct"
      using assms(11) k cs(1) by (auto simp: mult.commute)
    ultimately show ?thesis
      using aes_cbc_decrypt_loop_spec [OF r cs(2) v rd1, of out] cs oc that by (cases "out = ct") auto
  qed
  have lb: "length (concat bs) = len" "length (concat ?cs) = len" using length_concat_16 [OF bs(3)] length_concat_16 [OF cs(2)] bs(2) cs(1) k by simp_all
  have l1: "length m1 = length mem" using mem_write_length [OF m1(2)] .
  have "mem_read m2 out len = Some (concat bs)" using mem_read_write_same [OF m2(2)] lb by simp
  moreover have "mem_read mem pt len = Some (concat bs)" using bs(1) assms(7) by (simp add: mem_simps)
  moreover have "m2 ! i = mem ! i" if "i < length mem" "\<not> (ct \<le> i \<and> i < ct + len)" "\<not> (out \<le> i \<and> i < out + len)" for i
    using nth_mem_write [OF m2(2), of i] nth_mem_write [OF m1(2), of i] that lb l1 by auto
  moreover have "xy_aes_cbc_encrypt (Some c') (Some iv) mem (Some pt) len (Some ct) = Some (CRYPTO_SUCCESS, m1)"
    using m1(1) k assms(5) by (simp add: xy_aes_cbc_encrypt_def XY_AES_BLOCK_SIZE_def mem_simps aes_steps_eq [unfolded XY_AES_BLOCK_SIZE_def])
  moreover have "xy_aes_cbc_decrypt (Some c') (Some iv) m1 (Some ct) len (Some out) = Some (CRYPTO_SUCCESS, m2)"
    using m2(1) k assms(5) by (simp add: xy_aes_cbc_decrypt_def XY_AES_BLOCK_SIZE_def mem_simps aes_steps_eq [unfolded XY_AES_BLOCK_SIZE_def])
  ultimately show ?thesis by (intro exI [of _ m1] exI [of _ m2]) simp
qed


theorem aes_cbc_roundtrip_witness:
  "\<exists>c' m1 m2. xy_aes_init (Some aes_ctx_zero) (Some (replicate 16 7)) 16 = Some (CRYPTO_SUCCESS, Some c')
    \<and> xy_aes_cbc_encrypt (Some c') (Some (replicate 16 9)) (replicate 32 1 @ replicate 32 0) (Some 0) 32 (Some 0) = Some (CRYPTO_SUCCESS, m1)
    \<and> xy_aes_cbc_decrypt (Some c') (Some (replicate 16 9)) m1 (Some 0) 32 (Some 32) = Some (CRYPTO_SUCCESS, m2)
    \<and> mem_read m2 32 32 = mem_read (replicate 32 1 @ replicate 32 0) 0 32"
proof -
  have h: "length (ac_round_keys aes_ctx_zero) = 60" "(16 :: int) \<in> {16, 24, 32}" "nat 16 \<le> length (replicate 16 (7 :: u8))"
    by (simp_all add: aes_ctx_zero_def)
  obtain c' where c': "xy_aes_init (Some aes_ctx_zero) (Some (replicate 16 7)) 16 = Some (CRYPTO_SUCCESS, Some c')"
    using aes_init_ready [OF h] by blast
  show ?thesis
    using aes_cbc_roundtrip [OF h c', of "replicate 16 9" 32 0 "replicate 32 1 @ replicate 32 0" 0 32] c' by auto
qed

text \<open>
  Deciphered in place, the second block comes out wrong: it is combined with the plaintext of the first
  block, which has replaced its ciphertext by then.
\<close>

lemma aes_cbc_in_place:
  assumes "aes_ready c" "length b0 = 16" "length b1 = 16" "length v = 16"
  shows "xy_aes_cbc_decrypt (Some c) (Some v) (b0 @ b1) (Some 0) 32 (Some 0) = Some (CRYPTO_SUCCESS,
    aes_xor (aes_D (aes_keys c) (ac_rounds c) b0) v
    @ aes_xor (aes_D (aes_keys c) (ac_rounds c) b1) (aes_xor (aes_D (aes_keys c) (ac_rounds c) b0) v))"
proof -
  have bs: "\<forall>b \<in> set [b0, b1]. length b = 16" using assms by simp
  have rd: "mem_read (b0 @ b1) (0 + 0 * 16) (16 * length [b0, b1]) = Some (concat [b0, b1])" using assms by (simp add: mem_simps)
  obtain m where m: "aes_cbc_decrypt_loop c v (b0 @ b1) 0 0 (aes_steps_from 0 2) = Some (CRYPTO_SUCCESS, m)"
    "mem_write (b0 @ b1) 0 (concat (cbc_dec_in_place (aes_D (aes_keys c) (ac_rounds c)) v [b0, b1])) = Some m"
    using aes_cbc_decrypt_loop_spec [OF assms(1) bs assms(4) rd, of 0] assms(2,3) by (auto simp: numeral_2_eq_2)
  have "aes_steps 32 = aes_steps_from 0 2" using aes_steps_eq [of 2] by simp
  then show ?thesis
    using m assms by (simp add: xy_aes_cbc_decrypt_def XY_AES_BLOCK_SIZE_def mem_simps aes_cipher_inverse)
qed

end
