(* ===== verification/Xy_Chacha.thy ===== *)
theory Xy_Chacha
  imports Xy_Prelude
begin

text \<open>
  The authenticated cipher of \<open>components/crypto/xy_chacha/xy_chacha20_poly1305.c\<close>: the stream cipher ChaCha20,
  the authenticator Poly1305 and their combination. Texts that may overlap are ranges of one memory, with
  \<open>None\<close> as the offset of a \<open>NULL\<close> pointer. Lengths are numbers; the width of \<open>size_t\<close> is a parameter where
  it matters, the shift of a length by 32 bits.
\<close>

datatype chacha_rc = CHACHA_SUCCESS | CHACHA_INVALID_PARAM | CHACHA_AUTH_FAILED | CHACHA_ERROR

fun chacha_rc_code :: "chacha_rc \<Rightarrow> int" where
  "chacha_rc_code CHACHA_SUCCESS = 0"
| "chacha_rc_code CHACHA_INVALID_PARAM = -1"
| "chacha_rc_code CHACHA_AUTH_FAILED = -2"
| "chacha_rc_code CHACHA_ERROR = -3"

record chacha_ctx =
  cc_state :: "u32 list"
  cc_counter :: u32
  cc_keystream :: "u8 list"
  cc_pos :: nat

record poly_ctx =
  pc_r :: "u32 list"
  pc_h :: "u32 list"
  pc_s :: "u32 list"
  pc_buffer :: "u8 list"
  pc_buffer_len :: nat

subsection \<open>ChaCha20\<close>

definition prv_chacha20_quarter_round :: "u32 \<Rightarrow> u32 \<Rightarrow> u32 \<Rightarrow> u32 \<Rightarrow> u32 \<times> u32 \<times> u32 \<times> u32" where
  "prv_chacha20_quarter_round a b c d =
     (let a = a + b; d = d XOR a; d = push_bit 16 d OR drop_bit 16 d;
          c = c + d; b = b XOR c; b = push_bit 12 b OR drop_bit 20 b;
          a = a + b; d = d XOR a; d = push_bit 8 d OR drop_bit 24 d;
          c = c + d; b = b XOR c; b = push_bit 7 b OR drop_bit 25 b
      in (a, b, c, d))"

text \<open>The round on four cells of the working state.\<close>

definition chacha_round_at :: "nat \<Rightarrow> nat \<Rightarrow> nat \<Rightarrow> nat \<Rightarrow> u32 list \<Rightarrow> u32 list" where
  "chacha_round_at i j k l w =
     (case prv_chacha20_quarter_round (w ! i) (w ! j) (w ! k) (w ! l) of
        (a, b, c, d) \<Rightarrow> w[i := a, j := b, k := c, l := d])"

definition prv_load32_le :: "u8 list \<Rightarrow> nat \<Rightarrow> u32 option" where
  "prv_load32_le src off = do {
     b0 \<leftarrow> mem_load src off;
     b1 \<leftarrow> mem_load src (off + 1);
     b2 \<leftarrow> mem_load src (off + 2);
     b3 \<leftarrow> mem_load src (off + 3);
     Some (ucast b0 OR push_bit 8 (ucast b1) OR push_bit 16 (ucast b2) OR push_bit 24 (ucast b3)) }"

text \<open>The four bytes that the function stores.\<close>

definition prv_store32_le :: "u32 \<Rightarrow> u8 list" where
  "prv_store32_le v =
     [ucast (v AND 0xff), ucast (drop_bit 8 v AND 0xff), ucast (drop_bit 16 v AND 0xff), ucast (drop_bit 24 v AND 0xff)]"

definition chacha_double_round :: "u32 list \<Rightarrow> u32 list" where
  "chacha_double_round w =
     (let w = chacha_round_at 0 4 8 12 w;
          w = chacha_round_at 1 5 9 13 w;
          w = chacha_round_at 2 6 10 14 w;
          w = chacha_round_at 3 7 11 15 w;
          w = chacha_round_at 0 5 10 15 w;
          w = chacha_round_at 1 6 11 12 w;
          w = chacha_round_at 2 7 8 13 w
      in chacha_round_at 3 4 9 14 w)"

text \<open>The 64 bytes of a block.\<close>

definition prv_chacha20_block :: "u32 list \<Rightarrow> u8 list" where
  "prv_chacha20_block state =
     (let w = (chacha_double_round ^^ 10) state
      in concat (map (\<lambda>i. prv_store32_le (w ! i + state ! i)) [0..<16]))"

definition chacha_magic :: "u8 list" where
  "chacha_magic = [101, 120, 112, 97, 110, 100, 32, 51, 50, 45, 98, 121, 116, 101, 32, 107]"

text \<open>The words of a byte array at the given offsets.\<close>

fun chacha_words :: "u8 list \<Rightarrow> nat list \<Rightarrow> u32 list option" where
  "chacha_words src [] = Some []"
| "chacha_words src (i # is) = do { w \<leftarrow> prv_load32_le src i; ws \<leftarrow> chacha_words src is; Some (w # ws) }"

definition xy_chacha20_init ::
  "chacha_ctx option \<Rightarrow> u8 list option \<Rightarrow> u8 list option \<Rightarrow> u32 \<Rightarrow> (chacha_rc \<times> chacha_ctx option) option" where
  "xy_chacha20_init ctx key nonce counter =
     (case (ctx, key, nonce) of
        (Some c, Some k, Some n) \<Rightarrow> do {
          magic \<leftarrow> chacha_words chacha_magic [0, 4, 8, 12];
          ks \<leftarrow> chacha_words k [0, 4, 8, 12, 16, 20, 24, 28];
          ns \<leftarrow> chacha_words n [0, 4, 8];
          Some (CHACHA_SUCCESS, Some (c\<lparr>cc_state := magic @ ks @ counter # ns, cc_counter := counter, cc_pos := 64\<rparr>)) }
      | _ \<Rightarrow> Some (CHACHA_INVALID_PARAM, ctx))"

text \<open>A new block when the old one is used up, with the counter in word 12 incremented.\<close>

definition chacha_refill :: "chacha_ctx \<Rightarrow> chacha_ctx" where
  "chacha_refill ctx =
     (if cc_pos ctx \<ge> 64 then
        ctx\<lparr>cc_keystream := prv_chacha20_block (cc_state ctx),
            cc_state := (cc_state ctx)[12 := cc_state ctx ! 12 + 1], cc_pos := 0\<rparr>
      else ctx)"

fun chacha_crypt_loop :: "chacha_ctx \<Rightarrow> u8 list \<Rightarrow> nat \<Rightarrow> nat \<Rightarrow> nat list \<Rightarrow> (chacha_ctx \<times> u8 list) option" where
  "chacha_crypt_loop ctx mem out inp [] = Some (ctx, mem)"
| "chacha_crypt_loop ctx mem out inp (i # is) = do {
     let ctx1 = chacha_refill ctx;
     x \<leftarrow> mem_load mem (inp + i);
     k \<leftarrow> mem_load (cc_keystream ctx1) (cc_pos ctx1);
     mem1 \<leftarrow> mem_store mem (out + i) (x XOR k);
     chacha_crypt_loop (ctx1\<lparr>cc_pos := cc_pos ctx1 + 1\<rparr>) mem1 out inp is }"

definition xy_chacha20_crypt ::
  "chacha_ctx option \<Rightarrow> u8 list \<Rightarrow> nat option \<Rightarrow> nat option \<Rightarrow> nat \<Rightarrow> (chacha_rc \<times> chacha_ctx option \<times> u8 list) option" where
  "xy_chacha20_crypt ctx mem output input len =
     (case (ctx, output, input) of
        (Some c, Some out, Some inp) \<Rightarrow> do {
          (c', mem') \<leftarrow> chacha_crypt_loop c mem out inp [0..<len];
          Some (CHACHA_SUCCESS, Some c', mem') }
      | _ \<Rightarrow> Some (CHACHA_INVALID_PARAM, ctx, mem))"

subsection \<open>Poly1305\<close>

text \<open>The five sums of products, in 64 bits.\<close>

definition poly_dot :: "u32 list \<Rightarrow> u32 list \<Rightarrow> nat list \<Rightarrow> u64" where
  "poly_dot h r js = ucast (h ! 0) * ucast (r ! (js ! 0)) + ucast (h ! 1) * ucast (r ! (js ! 1))
     + ucast (h ! 2) * ucast (r ! (js ! 2)) + ucast (h ! 3) * ucast (r ! (js ! 3)) + ucast (h ! 4) * ucast (r ! (js ! 4))"

definition prv_poly1305_multiply :: "poly_ctx \<Rightarrow> poly_ctx" where
  "prv_poly1305_multiply ctx =
     (let d0 = poly_dot (pc_h ctx) (pc_r ctx) [0, 4, 3, 2, 1];
          d1 = poly_dot (pc_h ctx) (pc_r ctx) [1, 0, 4, 3, 2];
          d2 = poly_dot (pc_h ctx) (pc_r ctx) [2, 1, 0, 4, 3];
          d3 = poly_dot (pc_h ctx) (pc_r ctx) [3, 2, 1, 0, 4];
          d4 = poly_dot (pc_h ctx) (pc_r ctx) [4, 3, 2, 1, 0];
          c = drop_bit 26 d0; h0 = ucast d0 AND 0x3ffffff; d1 = d1 + c;
          c = drop_bit 26 d1; h1 = ucast d1 AND 0x3ffffff; d2 = d2 + c;
          c = drop_bit 26 d2; h2 = ucast d2 AND 0x3ffffff; d3 = d3 + c;
          c = drop_bit 26 d3; h3 = ucast d3 AND 0x3ffffff; d4 = d4 + c;
          c = drop_bit 26 d4; h4 = ucast d4 AND 0x3ffffff; h0 = h0 + ucast (c * 5);
          c' = drop_bit 26 h0; h0 = h0 AND 0x3ffffff; h1 = h1 + c'
      in ctx\<lparr>pc_h := [h0, h1, h2, h3, h4]\<rparr>)"

text \<open>A block of 16 bytes added to the accumulator, with the bits that are set above it.\<close>

definition poly_add_block :: "u8 list \<Rightarrow> u32 \<Rightarrow> poly_ctx \<Rightarrow> poly_ctx option" where
  "poly_add_block block high ctx = do {
     t0 \<leftarrow> prv_load32_le block 0;
     t1 \<leftarrow> prv_load32_le block 4;
     t2 \<leftarrow> prv_load32_le block 8;
     t3 \<leftarrow> prv_load32_le block 12;
     Some (ctx\<lparr>pc_h :=
       [pc_h ctx ! 0 + (t0 AND 0x3ffffff),
        pc_h ctx ! 1 + ((drop_bit 26 t0 OR push_bit 6 t1) AND 0x3ffffff),
        pc_h ctx ! 2 + ((drop_bit 20 t1 OR push_bit 12 t2) AND 0x3ffffff),
        pc_h ctx ! 3 + ((drop_bit 14 t2 OR push_bit 18 t3) AND 0x3ffffff),
        pc_h ctx ! 4 + (drop_bit 8 t3 OR high)]\<rparr>) }"

definition prv_poly1305_block :: "poly_ctx \<Rightarrow> u8 list \<Rightarrow> poly_ctx option" where
  "prv_poly1305_block ctx block = do {
     ctx1 \<leftarrow> poly_add_block block (push_bit 24 1) ctx;
     Some (prv_poly1305_multiply ctx1) }"

definition xy_poly1305_init :: "poly_ctx option \<Rightarrow> u8 list option \<Rightarrow> (chacha_rc \<times> poly_ctx option) option" where
  "xy_poly1305_init ctx key =
     (case (ctx, key) of
        (Some c, Some k) \<Rightarrow> do {
          r0 \<leftarrow> prv_load32_le k 0;
          r1 \<leftarrow> prv_load32_le k 3;
          r2 \<leftarrow> prv_load32_le k 6;
          r3 \<leftarrow> prv_load32_le k 9;
          r4 \<leftarrow> prv_load32_le k 12;
          s \<leftarrow> chacha_words k [16, 20, 24, 28];
          Some (CHACHA_SUCCESS, Some (c\<lparr>pc_h := [0, 0, 0, 0, 0],
            pc_r := [r0 AND 0x3ffffff, (drop_bit 2 r1 AND 0x3ffff03) * 5, (drop_bit 4 r2 AND 0x3ffc0ff) * 5,
                     (drop_bit 6 r3 AND 0x3f03fff) * 5, (drop_bit 8 r4 AND 0x00fffff) * 5],
            pc_s := s, pc_buffer_len := 0\<rparr>)) }
      | _ \<Rightarrow> Some (CHACHA_INVALID_PARAM, ctx))"

text \<open>The loop over the complete blocks, from the offset \<open>i\<close> on, with the offset behind them.\<close>

function poly_blocks :: "u8 list \<Rightarrow> nat \<Rightarrow> nat \<Rightarrow> poly_ctx \<Rightarrow> (nat \<times> poly_ctx) option" where
  "poly_blocks data len i ctx =
     (if i + 16 \<le> len then do {
        block \<leftarrow> mem_read data i 16;
        ctx1 \<leftarrow> prv_poly1305_block ctx block;
        poly_blocks data len (i + 16) ctx1 }
      else Some (i, ctx))"
  by pat_completeness auto
termination by (relation "measure (\<lambda>(data, len, i, ctx). len - i)") auto

definition poly_fill :: "u8 list \<Rightarrow> nat \<Rightarrow> poly_ctx \<Rightarrow> (nat \<times> poly_ctx) option" where
  "poly_fill data len ctx =
     (if pc_buffer_len ctx > 0 then do {
        let to_copy = min (16 - pc_buffer_len ctx) len;
        bs \<leftarrow> mem_read data 0 to_copy;
        b \<leftarrow> mem_write (pc_buffer ctx) (pc_buffer_len ctx) bs;
        let ctx1 = ctx\<lparr>pc_buffer := b, pc_buffer_len := pc_buffer_len ctx + to_copy\<rparr>;
        if pc_buffer_len ctx1 = 16 then do {
          ctx2 \<leftarrow> prv_poly1305_block ctx1 (pc_buffer ctx1);
          Some (to_copy, ctx2\<lparr>pc_buffer_len := 0\<rparr>) }
        else Some (to_copy, ctx1) }
      else Some (0, ctx))"

definition xy_poly1305_update ::
  "poly_ctx option \<Rightarrow> u8 list option \<Rightarrow> nat \<Rightarrow> (chacha_rc \<times> poly_ctx option) option" where
  "xy_poly1305_update ctx data len =
     (case ctx of
        None \<Rightarrow> Some (CHACHA_INVALID_PARAM, ctx)
      | Some c \<Rightarrow>
          (case data of
             None \<Rightarrow> if len > 0 then Some (CHACHA_INVALID_PARAM, ctx) else Some (CHACHA_SUCCESS, ctx)
           | Some d \<Rightarrow> do {
               (i, c1) \<leftarrow> poly_fill d len c;
               (i, c2) \<leftarrow> poly_blocks d len i c1;
               if i < len then do {
                 bs \<leftarrow> mem_read d i (len - i);
                 b \<leftarrow> mem_write (pc_buffer c2) 0 bs;
                 Some (CHACHA_SUCCESS, Some (c2\<lparr>pc_buffer := b, pc_buffer_len := len - i\<rparr>)) }
               else Some (CHACHA_SUCCESS, Some c2) }))"

text \<open>The last block: the shift distance is unsigned, and a shift of \<open>int\<close> past its width is undefined.\<close>

definition poly_last :: "poly_ctx \<Rightarrow> poly_ctx option" where
  "poly_last ctx =
     (if pc_buffer_len ctx > 0 then do {
        b \<leftarrow> mem_write (pc_buffer ctx) (pc_buffer_len ctx) (replicate (16 - pc_buffer_len ctx) 0);
        if pc_buffer_len ctx * 8 < 104 \<or> pc_buffer_len ctx * 8 - 104 \<ge> 31 then None
        else do {
          ctx1 \<leftarrow> poly_add_block b (push_bit (pc_buffer_len ctx * 8 - 104) 1) (ctx\<lparr>pc_buffer := b\<rparr>);
          Some (prv_poly1305_multiply ctx1) } }
      else Some ctx)"

text \<open>The final subtraction of the modulus, chosen by a mask, and the tag.\<close>

definition poly_reduce :: "u32 list \<Rightarrow> u32 list" where
  "poly_reduce h =
     (let g0 = h ! 0 + 5;
          g1 = h ! 1 + drop_bit 26 g0; g0 = g0 AND 0x3ffffff;
          g2 = h ! 2 + drop_bit 26 g1; g1 = g1 AND 0x3ffffff;
          g3 = h ! 3 + drop_bit 26 g2; g2 = g2 AND 0x3ffffff;
          g4 = h ! 4 + drop_bit 26 g3 - push_bit 26 1; g3 = g3 AND 0x3ffffff;
          m = drop_bit 31 g4 - 1
      in [(h ! 0 AND NOT m) OR (g0 AND m), (h ! 1 AND NOT m) OR (g1 AND m), (h ! 2 AND NOT m) OR (g2 AND m),
          (h ! 3 AND NOT m) OR (g3 AND m), (h ! 4 AND NOT m) OR (g4 AND m)])"

definition poly_tag :: "u32 list \<Rightarrow> u32 list \<Rightarrow> u8 list" where
  "poly_tag h s =
     (let f0 = (ucast (h ! 0) OR push_bit 26 (ucast (h ! 1))) + ucast (s ! 0) :: u64;
          f1 = (ucast (drop_bit 6 (h ! 1)) OR push_bit 20 (ucast (h ! 2))) + ucast (s ! 1) :: u64;
          f2 = (ucast (drop_bit 12 (h ! 2)) OR push_bit 14 (ucast (h ! 3))) + ucast (s ! 2) :: u64;
          f3 = (ucast (drop_bit 18 (h ! 3)) OR push_bit 8 (ucast (h ! 4))) + ucast (s ! 3) :: u64;
          f1 = f1 + drop_bit 32 f0;
          f2 = f2 + drop_bit 32 f1;
          f3 = f3 + drop_bit 32 f2
      in prv_store32_le (ucast f0) @ prv_store32_le (ucast f1) @ prv_store32_le (ucast f2) @ prv_store32_le (ucast f3))"

definition xy_poly1305_finish ::
  "poly_ctx option \<Rightarrow> u8 list option \<Rightarrow> (chacha_rc \<times> poly_ctx option \<times> u8 list option) option" where
  "xy_poly1305_finish ctx tag =
     (case (ctx, tag) of
        (Some c, Some t) \<Rightarrow> do {
          c1 \<leftarrow> poly_last c;
          let c2 = c1\<lparr>pc_h := poly_reduce (pc_h c1)\<rparr>;
          t' \<leftarrow> mem_write t 0 (poly_tag (pc_h c2) (pc_s c2));
          Some (CHACHA_SUCCESS, Some c2, Some t') }
      | _ \<Rightarrow> Some (CHACHA_INVALID_PARAM, ctx, tag))"

subsection \<open>The combination\<close>

text \<open>Local variables before they are set.\<close>

definition chacha_local :: chacha_ctx where
  "chacha_local = \<lparr>cc_state = replicate 16 0, cc_counter = 0, cc_keystream = replicate 64 0, cc_pos = 0\<rparr>"

definition poly_local :: poly_ctx where
  "poly_local = \<lparr>pc_r = replicate 5 0, pc_h = replicate 5 0, pc_s = replicate 4 0, pc_buffer = replicate 16 0, pc_buffer_len = 0\<rparr>"

definition prv_poly1305_pad16 :: "poly_ctx option \<Rightarrow> nat \<Rightarrow> poly_ctx option option" where
  "prv_poly1305_pad16 poly len =
     (let padding = (16 - len mod 16) mod 16
      in if padding > 0 then do {
           (r, p) \<leftarrow> xy_poly1305_update poly (Some (replicate 16 0)) padding;
           Some p }
         else Some poly)"

text \<open>The upper half of a length; the shift by 32 is undefined where \<open>size_t\<close> has 32 bits.\<close>

definition size_high :: "nat \<Rightarrow> nat \<Rightarrow> u32 option" where
  "size_high width len = (if width \<le> 32 then None else Some (of_nat (drop_bit 32 len)))"

text \<open>The one-time key of the authenticator.\<close>

definition aead_poly_key :: "u8 list \<Rightarrow> u8 list \<Rightarrow> u8 list option" where
  "aead_poly_key key nonce = do {
     (r, c) \<leftarrow> xy_chacha20_init (Some chacha_local) (Some key) (Some nonce) 0;
     (r, c, poly_key) \<leftarrow> xy_chacha20_crypt c (replicate 32 0) (Some 0) (Some 0) 32;
     Some poly_key }"

text \<open>The tag over the additional data, the ciphertext and their lengths.\<close>

definition aead_absorb :: "u8 list option \<Rightarrow> nat \<Rightarrow> poly_ctx option \<Rightarrow> poly_ctx option option" where
  "aead_absorb data len poly =
     (if len > 0 then do {
        (r, p) \<leftarrow> xy_poly1305_update poly data len;
        prv_poly1305_pad16 p len }
      else Some poly)"

definition aead_tag ::
  "nat \<Rightarrow> u8 list \<Rightarrow> u8 list option \<Rightarrow> nat \<Rightarrow> u8 list option \<Rightarrow> nat \<Rightarrow> u8 list \<Rightarrow> (chacha_rc \<times> u8 list) option" where
  "aead_tag width poly_key aad aad_len text text_len tag = do {
     (r, p) \<leftarrow> xy_poly1305_init (Some poly_local) (Some poly_key);
     p1 \<leftarrow> aead_absorb aad aad_len p;
     p2 \<leftarrow> aead_absorb text text_len p1;
     a_high \<leftarrow> size_high width aad_len;
     t_high \<leftarrow> size_high width text_len;
     let length_block = prv_store32_le (of_nat aad_len) @ prv_store32_le a_high
       @ prv_store32_le (of_nat text_len) @ prv_store32_le t_high;
     (r, p3) \<leftarrow> xy_poly1305_update p2 (Some length_block) 16;
     (ret, p4, t) \<leftarrow> xy_poly1305_finish p3 (Some tag);
     t' \<leftarrow> t;
     Some (ret, t') }"

definition aead_crypt :: "u8 list \<Rightarrow> u8 list \<Rightarrow> u8 list \<Rightarrow> nat option \<Rightarrow> nat option \<Rightarrow> nat \<Rightarrow> (chacha_rc \<times> u8 list) option" where
  "aead_crypt key nonce mem output input len = do {
     (ret, c) \<leftarrow> xy_chacha20_init (Some chacha_local) (Some key) (Some nonce) 1;
     if len > 0 then do {
       (ret, c', mem') \<leftarrow> xy_chacha20_crypt c mem output input len;
       Some (ret, mem') }
     else Some (ret, mem) }"

definition xy_chacha20_poly1305_encrypt ::
  "nat \<Rightarrow> u8 list option \<Rightarrow> u8 list option \<Rightarrow> u8 list option \<Rightarrow> nat \<Rightarrow> u8 list \<Rightarrow> nat option \<Rightarrow> nat \<Rightarrow> nat option
   \<Rightarrow> u8 list option \<Rightarrow> (chacha_rc \<times> u8 list \<times> u8 list option) option" where
  "xy_chacha20_poly1305_encrypt width key nonce aad aad_len mem plaintext plaintext_len ciphertext tag =
     (case (key, nonce, ciphertext, tag) of
        (Some k, Some n, Some ct, Some t) \<Rightarrow>
          if (plaintext = None \<and> plaintext_len > 0) \<or> (aad = None \<and> aad_len > 0)
          then Some (CHACHA_INVALID_PARAM, mem, tag)
          else do {
            poly_key \<leftarrow> aead_poly_key k n;
            (ret, mem') \<leftarrow> aead_crypt k n mem (Some ct) plaintext plaintext_len;
            if ret \<noteq> CHACHA_SUCCESS then Some (ret, mem', tag)
            else do {
              (ret, t') \<leftarrow> aead_tag width poly_key aad aad_len (Some (drop ct mem')) plaintext_len t;
              Some (ret, mem', Some t') } }
      | _ \<Rightarrow> Some (CHACHA_INVALID_PARAM, mem, tag))"

text \<open>The loop that compares the tags without branching.\<close>

fun aead_diff :: "u8 list \<Rightarrow> u8 list \<Rightarrow> nat list \<Rightarrow> u8 \<Rightarrow> u8 option" where
  "aead_diff tag computed [] diff = Some diff"
| "aead_diff tag computed (i # is) diff = do {
     x \<leftarrow> mem_load tag i;
     y \<leftarrow> mem_load computed i;
     aead_diff tag computed is (diff OR (x XOR y)) }"

definition xy_chacha20_poly1305_decrypt ::
  "nat \<Rightarrow> u8 list option \<Rightarrow> u8 list option \<Rightarrow> u8 list option \<Rightarrow> nat \<Rightarrow> u8 list \<Rightarrow> nat option \<Rightarrow> nat \<Rightarrow> u8 list option
   \<Rightarrow> nat option \<Rightarrow> (chacha_rc \<times> u8 list) option" where
  "xy_chacha20_poly1305_decrypt width key nonce aad aad_len mem ciphertext ciphertext_len tag plaintext =
     (case (key, nonce, tag, plaintext) of
        (Some k, Some n, Some t, Some pt) \<Rightarrow>
          if (ciphertext = None \<and> ciphertext_len > 0) \<or> (aad = None \<and> aad_len > 0)
          then Some (CHACHA_INVALID_PARAM, mem)
          else do {
            poly_key \<leftarrow> aead_poly_key k n;
            (ret, computed) \<leftarrow> aead_tag width poly_key aad aad_len (map_option (\<lambda>ct. drop ct mem) ciphertext) ciphertext_len (replicate 16 0);
            if ret \<noteq> CHACHA_SUCCESS then Some (ret, mem)
            else do {
              diff \<leftarrow> aead_diff t computed [0..<16] 0;
              if diff \<noteq> 0 then Some (CHACHA_AUTH_FAILED, mem)
              else aead_crypt k n mem plaintext ciphertext ciphertext_len } }
      | _ \<Rightarrow> Some (CHACHA_INVALID_PARAM, mem))"

end
