(* ===== verification/Xy_Chacha_Correct.thy ===== *)
theory Xy_Chacha_Correct
  imports Xy_Chacha
begin

text \<open>
  The keystream of the cipher, the message that the authenticator has absorbed, and the combination:
  deciphering checks the tag that enciphering made and returns the plaintext.
\<close>

subsection \<open>Bytes and words\<close>

lemma length_store32 [simp]: "length (prv_store32_le v) = 4"
  by (simp add: prv_store32_le_def)

lemma length_concat_map: "\<forall>x \<in> set xs. length (f x) = n \<Longrightarrow> length (concat (map f xs)) = n * length xs"
  by (induction xs) simp_all

lemma length_chacha_block [simp]: "length (prv_chacha20_block st) = 64"
  unfolding prv_chacha20_block_def Let_def by (subst length_concat_map [where n = 4]) simp_all

lemma load32_total: "off + 4 \<le> length src \<Longrightarrow> \<exists>w. prv_load32_le src off = Some w"
  by (simp add: prv_load32_le_def mem_simps)

lemma chacha_words_total:
  "\<forall>i \<in> set is. i + 4 \<le> length src \<Longrightarrow> \<exists>ws. chacha_words src is = Some ws \<and> length ws = length is"
proof (induction "is")
  case (Cons i "is")
  then obtain w ws where "prv_load32_le src i = Some w" "chacha_words src is = Some ws" "length ws = length is"
    using load32_total [of i src] by auto
  then show ?case by simp
qed simp

text \<open>The test vector of RFC 8439 for the quarter round.\<close>

lemma quarter_round_rfc8439:
  "prv_chacha20_quarter_round 0x11111111 0x01020304 0x9b8d6f43 0x01234567
   = (0xea2a92f4, 0xcb1cf8ce, 0x4581472e, 0x5881c4bb)"
  by code_simp

subsection \<open>The keystream\<close>

definition cc_next :: "chacha_ctx \<Rightarrow> u8 \<times> chacha_ctx" where
  "cc_next c = (let c1 = chacha_refill c in (cc_keystream c1 ! cc_pos c1, c1\<lparr>cc_pos := cc_pos c1 + 1\<rparr>))"

primrec cc_bytes :: "nat \<Rightarrow> chacha_ctx \<Rightarrow> u8 list \<times> chacha_ctx" where
  "cc_bytes 0 c = ([], c)"
| "cc_bytes (Suc n) c =
     (fst (cc_next c) # fst (cc_bytes n (snd (cc_next c))), snd (cc_bytes n (snd (cc_next c))))"

definition cc_ok :: "chacha_ctx \<Rightarrow> bool" where
  "cc_ok c \<longleftrightarrow> length (cc_keystream c) = 64 \<and> cc_pos c \<le> 64 \<and> length (cc_state c) = 16"

lemma refill_ok: "cc_ok c \<Longrightarrow> cc_ok (chacha_refill c) \<and> cc_pos (chacha_refill c) < 64"
  by (auto simp: cc_ok_def chacha_refill_def)

lemma next_ok: "cc_ok c \<Longrightarrow> cc_ok (snd (cc_next c))"
  using refill_ok [of c] by (auto simp: cc_next_def Let_def cc_ok_def)

lemma length_cc_bytes [simp]: "length (fst (cc_bytes n c)) = n"
  by (induction n arbitrary: c) simp_all

lemma cc_bytes_ok: "cc_ok c \<Longrightarrow> cc_ok (snd (cc_bytes n c))"
  by (induction n arbitrary: c) (simp_all add: next_ok)

lemma cc_bytes_snoc:
  "fst (cc_bytes (Suc n) c) = fst (cc_bytes n c) @ [fst (cc_next (snd (cc_bytes n c)))]"
  "snd (cc_bytes (Suc n) c) = snd (cc_next (snd (cc_bytes n c)))"
proof -
  have "fst (cc_bytes (Suc n) c) = fst (cc_bytes n c) @ [fst (cc_next (snd (cc_bytes n c)))]
    \<and> snd (cc_bytes (Suc n) c) = snd (cc_next (snd (cc_bytes n c)))"
  proof (induction n arbitrary: c)
    case (Suc n)
    then show ?case by (subst (1 3) cc_bytes.simps(2)) simp
  qed simp
  then show "fst (cc_bytes (Suc n) c) = fst (cc_bytes n c) @ [fst (cc_next (snd (cc_bytes n c)))]"
    "snd (cc_bytes (Suc n) c) = snd (cc_next (snd (cc_bytes n c)))" by blast+
qed

text \<open>Byte \<open>i\<close> of the keystream comes from the block whose counter is \<open>i div 64\<close> further.\<close>

definition chacha_stream :: "u32 list \<Rightarrow> nat \<Rightarrow> u8" where
  "chacha_stream st i = prv_chacha20_block (st[12 := st ! 12 + of_nat (i div 64)]) ! (i mod 64)"

lemma cc_bytes_stream:
  assumes "cc_pos c = 64" "length (cc_state c) = 16"
  shows "fst (cc_bytes n c) = map (chacha_stream (cc_state c)) [0..<n]
    \<and> (0 < n \<longrightarrow> cc_pos (snd (cc_bytes n c)) = (n - 1) mod 64 + 1
        \<and> cc_keystream (snd (cc_bytes n c)) = prv_chacha20_block ((cc_state c)[12 := cc_state c ! 12 + of_nat ((n - 1) div 64)])
        \<and> cc_state (snd (cc_bytes n c)) = (cc_state c)[12 := cc_state c ! 12 + of_nat ((n - 1) div 64 + 1)])"
proof (induction n)
  case (Suc n)
  let ?st = "cc_state c" and ?d = "snd (cc_bytes n c)"
  have "fst (cc_next ?d) = chacha_stream ?st n \<and> cc_pos (snd (cc_next ?d)) = n mod 64 + 1
      \<and> cc_keystream (snd (cc_next ?d)) = prv_chacha20_block (?st[12 := ?st ! 12 + of_nat (n div 64)])
      \<and> cc_state (snd (cc_next ?d)) = ?st[12 := ?st ! 12 + of_nat (n div 64 + 1)]"
  proof (cases "n = 0")
    case True
    then show ?thesis using assms by (simp add: cc_next_def chacha_refill_def Let_def chacha_stream_def)
  next
    case False
    then have ih: "cc_pos ?d = (n - 1) mod 64 + 1" "cc_keystream ?d = prv_chacha20_block (?st[12 := ?st ! 12 + of_nat ((n - 1) div 64)])"
      "cc_state ?d = ?st[12 := ?st ! 12 + of_nat ((n - 1) div 64 + 1)]" using Suc by auto
    show ?thesis
    proof (cases "n mod 64 = 0")
      case True
      then have "(n - 1) mod 64 = 63" "(n - 1) div 64 + 1 = n div 64"
        using False by (cases n; simp add: mod_Suc div_Suc split: if_splits)+
      then have d: "cc_pos ?d = 64" "cc_state ?d = ?st[12 := ?st ! 12 + of_nat (n div 64)]" using ih(1,3) by simp_all
      show ?thesis
        unfolding cc_next_def chacha_refill_def Let_def chacha_stream_def True d
        using d True assms(2) by (simp add: add.assoc add.commute [of 1])
    next
      case nz: False
      then have e: "(n - 1) mod 64 + 1 = n mod 64" "(n - 1) div 64 = n div 64"
        using False by (cases n; simp add: mod_Suc div_Suc split: if_splits)+
      have d: "cc_pos ?d = n mod 64" "cc_keystream ?d = prv_chacha20_block (?st[12 := ?st ! 12 + of_nat (n div 64)])"
        "cc_state ?d = ?st[12 := ?st ! 12 + of_nat (n div 64 + 1)]" using ih by (simp_all only: e)
      then have "chacha_refill ?d = ?d" by (simp add: chacha_refill_def)
      then show ?thesis using d by (simp add: cc_next_def Let_def chacha_stream_def)
    qed
  qed
  then show ?case using Suc by (simp add: cc_bytes_snoc del: cc_bytes.simps(2))
qed simp


lemma mem_store_write: "mem_store m i v = mem_write m i [v]"
  by (auto simp: mem_store_def mem_write_def upd_conv_take_nth_drop)

lemma mem_write_range: "mem_write m off xs = Some m' \<Longrightarrow> take (length xs) (drop off m') = xs"
  by (auto simp: mem_write_def split: if_splits)

lemma refill_next:
  "cc_keystream (chacha_refill c) ! cc_pos (chacha_refill c) = fst (cc_next c)"
  "(chacha_refill c)\<lparr>cc_pos := cc_pos (chacha_refill c) + 1\<rparr> = snd (cc_next c)"
  by (simp_all add: cc_next_def Let_def)

lemma chacha_crypt_loop_spec:
  assumes "cc_ok c" "out + i + n \<le> length mem" "inp + i + n \<le> length mem"
    and "out = inp \<or> out + i + n \<le> inp + i \<or> inp + i + n \<le> out + i"
  shows "\<exists>m. chacha_crypt_loop c mem out inp [i..<i + n] = Some (snd (cc_bytes n c), m)
    \<and> mem_write mem (out + i) (map2 (XOR) (take n (drop (inp + i) mem)) (fst (cc_bytes n c))) = Some m"
  using assms
proof (induction n arbitrary: c i mem)
  case 0
  then show ?case by (simp add: mem_simps)
next
  case (Suc n)
  let ?c1 = "chacha_refill c" and ?k = "fst (cc_next c)"
  let ?z = "mem ! (inp + i) XOR ?k"
  have k: "mem_load (cc_keystream ?c1) (cc_pos ?c1) = Some ?k"
    using refill_ok [OF Suc.prems(1)] by (simp add: mem_simps cc_ok_def refill_next)
  obtain m1 where m1: "mem_write mem (out + i) [?z] = Some m1" using Suc.prems(2) by (simp add: mem_simps)
  have l1: "length m1 = length mem" using mem_write_length [OF m1] .
  have same: "m1 ! (inp + Suc i + j) = mem ! (inp + Suc i + j)" if "j < n" for j
    using nth_mem_write [OF m1, of "inp + Suc i + j"] that Suc.prems(3,4) by auto
  have tk: "take n (drop (inp + Suc i) m1) = take n (drop (inp + Suc i) mem)"
    using same l1 Suc.prems(3) by (intro nth_equalityI) auto
  obtain m where m: "chacha_crypt_loop (snd (cc_next c)) m1 out inp [Suc i..<Suc i + n] = Some (snd (cc_bytes n (snd (cc_next c))), m)"
    "mem_write m1 (out + Suc i) (map2 (XOR) (take n (drop (inp + Suc i) m1)) (fst (cc_bytes n (snd (cc_next c))))) = Some m"
    using Suc.IH [of "snd (cc_next c)" "Suc i" m1] Suc.prems l1 next_ok [OF Suc.prems(1)] by auto
  have "mem_write mem (out + i) ([?z] @ map2 (XOR) (take n (drop (inp + Suc i) mem)) (fst (cc_bytes n (snd (cc_next c))))) = Some m"
    using mem_write_append [OF m1] m(2) unfolding tk by simp
  moreover have "take (Suc n) (drop (inp + i) mem) = mem ! (inp + i) # take n (drop (inp + Suc i) mem)"
    using Suc.prems(3) by (simp add: Cons_nth_drop_Suc [symmetric])
  moreover have range: "[i..<i + Suc n] = i # [Suc i..<Suc i + n]" by (subst upt_conv_Cons) simp_all
  moreover have "mem_load mem (inp + i) = Some (mem ! (inp + i))" using Suc.prems(3) by (simp add: mem_simps)
  ultimately show ?case
    unfolding range using m(1) m1 k
    by (simp add: mem_store_write refill_next [unfolded Suc_eq_plus1 [symmetric]] Let_def del: upt_Suc)
qed

lemma chacha_crypt_append:
  "chacha_crypt_loop c mem out inp (xs @ ys) =
     (case chacha_crypt_loop c mem out inp xs of None \<Rightarrow> None | Some (c', m') \<Rightarrow> chacha_crypt_loop c' m' out inp ys)"
  by (induction c mem out inp xs rule: chacha_crypt_loop.induct) (auto simp: Let_def split: Option.bind_splits option.splits)

lemma chacha_crypt_shift:
  "chacha_crypt_loop c mem out inp (map (\<lambda>i. k + i) is) = chacha_crypt_loop c mem (out + k) (inp + k) is"
  by (induction "is" arbitrary: c mem) (simp_all add: add.assoc Let_def)

lemma chacha_init_spec:
  assumes "32 \<le> length key" "12 \<le> length nonce"
  shows "\<exists>st. xy_chacha20_init (Some c) (Some key) (Some nonce) counter
      = Some (CHACHA_SUCCESS, Some (c\<lparr>cc_state := st, cc_counter := counter, cc_pos := 64\<rparr>)) \<and> length st = 16 \<and> st ! 12 = counter"
proof -
  obtain ma where ma: "chacha_words chacha_magic [0, 4, 8, 12] = Some ma" "length ma = 4"
    using chacha_words_total [of "[0, 4, 8, 12]" chacha_magic] by (auto simp: chacha_magic_def)
  obtain ks where ks: "chacha_words key [0, 4, 8, 12, 16, 20, 24, 28] = Some ks" "length ks = 8"
    using chacha_words_total [of "[0, 4, 8, 12, 16, 20, 24, 28]" key] assms(1) by auto
  obtain ns where ns: "chacha_words nonce [0, 4, 8] = Some ns" "length ns = 3"
    using chacha_words_total [of "[0, 4, 8]" nonce] assms(2) by auto
  show ?thesis
    using ma ks ns
    by (intro exI [of _ "ma @ ks @ counter # ns"]) (simp add: xy_chacha20_init_def nth_append del: chacha_words.simps)
qed

text \<open>
  C29. After \<open>xy_chacha20_init\<close> the cipher combines byte \<open>i\<close> of the text with byte \<open>i mod 64\<close> of the block whose
  counter is \<open>i div 64\<close> further than the given one, in place or into another range, changes nothing
  else, and does the same when the text is given in two pieces.
\<close>

theorem chacha_keystream:
  assumes "32 \<le> length key" "12 \<le> length nonce" "length (cc_keystream c) = 64"
    and "out + n \<le> length mem" "inp + n \<le> length mem" "out = inp \<or> out + n \<le> inp \<or> inp + n \<le> out"
  shows "\<exists>c1 c2 m. xy_chacha20_init (Some c) (Some key) (Some nonce) counter = Some (CHACHA_SUCCESS, Some c1)
    \<and> cc_state c1 ! 12 = counter
    \<and> xy_chacha20_crypt (Some c1) mem (Some out) (Some inp) n = Some (CHACHA_SUCCESS, Some c2, m)
    \<and> length m = length mem
    \<and> (\<forall>i < n. m ! (out + i) = mem ! (inp + i)
         XOR prv_chacha20_block ((cc_state c1)[12 := counter + of_nat (i div 64)]) ! (i mod 64))
    \<and> (\<forall>i < length mem. i < out \<or> out + n \<le> i \<longrightarrow> m ! i = mem ! i)
    \<and> (\<forall>k \<le> n. \<exists>c' m'. xy_chacha20_crypt (Some c1) mem (Some out) (Some inp) k = Some (CHACHA_SUCCESS, Some c', m')
         \<and> xy_chacha20_crypt (Some c') m' (Some (out + k)) (Some (inp + k)) (n - k) = Some (CHACHA_SUCCESS, Some c2, m))"
proof -
  obtain st where st: "xy_chacha20_init (Some c) (Some key) (Some nonce) counter
      = Some (CHACHA_SUCCESS, Some (c\<lparr>cc_state := st, cc_counter := counter, cc_pos := 64\<rparr>))" "length st = 16" "st ! 12 = counter"
    using chacha_init_spec [OF assms(1,2)] by blast
  let ?c1 = "c\<lparr>cc_state := st, cc_counter := counter, cc_pos := 64\<rparr>"
  have ok: "cc_ok ?c1" using st(2) assms(3) by (simp add: cc_ok_def)
  obtain m where m: "chacha_crypt_loop ?c1 mem out inp [0..<n] = Some (snd (cc_bytes n ?c1), m)"
    "mem_write mem out (map2 (XOR) (take n (drop inp mem)) (fst (cc_bytes n ?c1))) = Some m"
    using chacha_crypt_loop_spec [OF ok, of out 0 n mem inp] assms(4-6) by auto
  have bytes: "fst (cc_bytes n ?c1) = map (chacha_stream st) [0..<n]" using cc_bytes_stream [of ?c1 n] st(2) by simp
  have val: "m ! (out + i) = mem ! (inp + i) XOR prv_chacha20_block (st[12 := counter + of_nat (i div 64)]) ! (i mod 64)" if "i < n" for i
    using nth_mem_write [OF m(2), of "out + i"] that assms(4,5) bytes st(3) by (simp add: chacha_stream_def)
  have fr: "m ! i = mem ! i" if "i < length mem" "i < out \<or> out + n \<le> i" for i
    using nth_mem_write [OF m(2) that(1)] that(2) assms(5) by auto
  have pc: "\<exists>c' m'. chacha_crypt_loop ?c1 mem out inp [0..<k] = Some (c', m')
      \<and> chacha_crypt_loop c' m' (out + k) (inp + k) [0..<n - k] = Some (snd (cc_bytes n ?c1), m)" if "k \<le> n" for k
  proof -
    have "[0..<n] = [0..<k] @ map (\<lambda>i. k + i) [0..<n - k]"
      using that upt_add_eq_append [of 0 k "n - k"] map_add_upt [of k "n - k"] by (simp add: add.commute)
    then show ?thesis using m(1) by (auto simp: chacha_crypt_append chacha_crypt_shift split: option.splits)
  qed
  have crypt: "xy_chacha20_crypt (Some a) x (Some o') (Some i') l = Some (CHACHA_SUCCESS, Some b, y)"
    if "chacha_crypt_loop a x o' i' [0..<l] = Some (b, y)" for a x o' i' l b y
    using that by (simp add: xy_chacha20_crypt_def)
  have "\<forall>k \<le> n. \<exists>c' m'. xy_chacha20_crypt (Some ?c1) mem (Some out) (Some inp) k = Some (CHACHA_SUCCESS, Some c', m')
      \<and> xy_chacha20_crypt (Some c') m' (Some (out + k)) (Some (inp + k)) (n - k) = Some (CHACHA_SUCCESS, Some (snd (cc_bytes n ?c1)), m)"
    using pc crypt by meson
  moreover have "cc_state ?c1 = st" "cc_state ?c1 ! 12 = counter" using st(3) by simp_all
  ultimately show ?thesis
    using st(1) crypt [OF m(1)] val fr mem_write_length [OF m(2)]
    by (intro exI [of _ ?c1] exI [of _ "snd (cc_bytes n ?c1)"] exI [of _ m] conjI) simp_all
qed


theorem chacha_keystream_witness:
  "\<exists>c1 c2 m. xy_chacha20_init (Some chacha_local) (Some (replicate 32 1)) (Some (replicate 12 2)) 7 = Some (CHACHA_SUCCESS, Some c1)
    \<and> cc_state c1 ! 12 = 7
    \<and> xy_chacha20_crypt (Some c1) [1, 2, 3, 4] (Some 0) (Some 2) 2 = Some (CHACHA_SUCCESS, Some c2, m)
    \<and> length m = 4"
  using chacha_keystream [of "replicate 32 1" "replicate 12 2" chacha_local 0 2 "[1, 2, 3, 4]" 2 7]
  by (auto simp: chacha_local_def)

subsection \<open>The authenticator\<close>

definition poly_step :: "u32 list \<Rightarrow> u32 list \<Rightarrow> u8 list \<Rightarrow> u32 list" where
  "poly_step r h b =
     pc_h (the (prv_poly1305_block \<lparr>pc_r = r, pc_h = h, pc_s = [], pc_buffer = [], pc_buffer_len = 0\<rparr> b))"

lemma block_spec:
  assumes "16 \<le> length b"
  shows "prv_poly1305_block p b = Some (p\<lparr>pc_h := poly_step (pc_r p) (pc_h p) b\<rparr>)"
proof -
  obtain t0 t1 t2 t3 where "prv_load32_le b 0 = Some t0" "prv_load32_le b 4 = Some t1"
    "prv_load32_le b 8 = Some t2" "prv_load32_le b 12 = Some t3"
    using load32_total [of 0 b] load32_total [of 4 b] load32_total [of 8 b] load32_total [of 12 b] assms by auto
  then show ?thesis
    by (simp add: poly_step_def prv_poly1305_block_def poly_add_block_def prv_poly1305_multiply_def Let_def)
qed

text \<open>The accumulator after the complete blocks of a message.\<close>

function poly_hash :: "u32 list \<Rightarrow> u32 list \<Rightarrow> u8 list \<Rightarrow> u32 list" where
  "poly_hash r h m = (if length m < 16 then h else poly_hash r (poly_step r h (take 16 m)) (drop 16 m))"
  by pat_completeness auto
termination by (relation "measure (\<lambda>(r, h, m). length m)") auto

declare poly_hash.simps [simp del] poly_blocks.simps [simp del]

lemma poly_hash_short: "length m < 16 \<Longrightarrow> poly_hash r h m = h"
  by (subst poly_hash.simps) simp

lemma poly_hash_block: "length b = 16 \<Longrightarrow> poly_hash r h (b @ m) = poly_hash r (poly_step r h b) m"
  by (subst poly_hash.simps) simp

lemma poly_hash_append:
  "16 dvd length bs \<Longrightarrow> poly_hash r h (bs @ m) = poly_hash r (poly_hash r h bs) m"
proof (induction r h bs rule: poly_hash.induct)
  case (1 r h bs)
  show ?case
  proof (cases "length bs < 16")
    case True
    then have "bs = []" using 1(2) by (auto elim: dvdE)
    then show ?thesis by (simp add: poly_hash_short)
  next
    case False
    then have d: "16 dvd length (drop 16 bs)" using 1(2) by (simp add: dvd_diff_nat)
    have "poly_hash r h (bs @ m) = poly_hash r (poly_step r h (take 16 bs)) (drop 16 bs @ m)"
      using poly_hash_block [of "take 16 bs" r h "drop 16 bs @ m"] False
      by (simp only: append_assoc [symmetric] append_take_drop_id) simp
    also have "\<dots> = poly_hash r (poly_hash r (poly_step r h (take 16 bs)) (drop 16 bs)) m"
      using 1(1) [OF False d] .
    also have "poly_hash r (poly_step r h (take 16 bs)) (drop 16 bs) = poly_hash r h bs"
      using False by (subst (2) poly_hash.simps) simp
    finally show ?thesis .
  qed
qed

text \<open>The context holds the message \<open>m\<close>: complete blocks in the accumulator, the rest in the buffer.\<close>

definition poly_holds :: "u32 list \<Rightarrow> u32 list \<Rightarrow> u8 list \<Rightarrow> poly_ctx \<Rightarrow> bool" where
  "poly_holds r s m p \<longleftrightarrow> pc_r p = r \<and> pc_s p = s \<and> length (pc_buffer p) = 16
    \<and> (\<exists>bs t. m = bs @ t \<and> 16 dvd length bs \<and> length t < 16 \<and> pc_buffer_len p = length t
          \<and> take (length t) (pc_buffer p) = t \<and> pc_h p = poly_hash r (replicate 5 0) bs)"

lemma holds_block:
  assumes "poly_holds r s m p" "pc_buffer_len p = 0" "length b = 16"
  shows "poly_holds r s (m @ b) (p\<lparr>pc_h := poly_step (pc_r p) (pc_h p) b\<rparr>)"
proof -
  have h: "16 dvd length m" "pc_h p = poly_hash r (replicate 5 0) m" "pc_r p = r"
    using assms(1,2) by (auto simp: poly_holds_def)
  have "poly_hash r (replicate 5 0) (m @ b) = poly_step r (pc_h p) b"
    using poly_hash_append [OF h(1)] poly_hash_block [OF assms(3), of r "pc_h p" "[]"] h(2)
    by (simp add: poly_hash_short)
  then show ?thesis
    using assms h unfolding poly_holds_def
    by (auto intro!: exI [of _ "m @ b"] exI [of _ "[]"])
qed

lemma holds_complete:
  assumes "poly_holds r s m p" "16 dvd length m"
  shows "pc_buffer_len p = 0 \<and> pc_h p = poly_hash r (replicate 5 0) m \<and> pc_s p = s"
proof -
  obtain bs t where t: "m = bs @ t" "16 dvd length bs" "length t < 16" "pc_buffer_len p = length t"
    "pc_h p = poly_hash r (replicate 5 0) bs" "pc_s p = s" using assms(1) by (auto simp: poly_holds_def)
  then have "16 dvd length t" using assms(2) by (simp add: dvd_add_right_iff)
  then have "t = []" using t(3) by (auto elim: dvdE)
  then show ?thesis using t by simp
qed

lemma holds_rest:
  assumes "poly_holds r s m p" "pc_buffer_len p = 0" "length t < 16" "take (length t) b = t" "length b = 16"
  shows "poly_holds r s (m @ t) (p\<lparr>pc_buffer := b, pc_buffer_len := length t\<rparr>)"
proof -
  have "16 dvd length m" "pc_h p = poly_hash r (replicate 5 0) m" "pc_r p = r" "pc_s p = s"
    using assms(1,2) by (auto simp: poly_holds_def)
  then show ?thesis
    unfolding poly_holds_def using assms(3-5) by (intro conjI exI [of _ m] exI [of _ t]) simp_all
qed

lemma fill_full:
  assumes "pc_buffer_len p \<noteq> 0" "pc_buffer_len p + k = 16" "k \<le> len" "len \<le> length d"
    "mem_write (pc_buffer p) (pc_buffer_len p) (take k d) = Some b" "length b = 16"
  shows "poly_fill d len p = Some (k, p\<lparr>pc_buffer := b, pc_buffer_len := 0, pc_h := poly_step (pc_r p) (pc_h p) b\<rparr>)"
proof -
  have "min (16 - pc_buffer_len p) len = k" "mem_read d 0 k = Some (take k d)"
    using assms(2-4) by (simp_all add: mem_read_def)
  then show ?thesis using assms block_spec [of b] by (simp add: poly_fill_def Let_def)
qed

lemma fill_part:
  assumes "pc_buffer_len p \<noteq> 0" "pc_buffer_len p + len < 16" "len \<le> length d"
    "mem_write (pc_buffer p) (pc_buffer_len p) (take len d) = Some b"
  shows "poly_fill d len p = Some (len, p\<lparr>pc_buffer := b, pc_buffer_len := pc_buffer_len p + len\<rparr>)"
proof -
  have "min (16 - pc_buffer_len p) len = len" "mem_read d 0 len = Some (take len d)"
    using assms(2,3) by (simp_all add: mem_read_def)
  then show ?thesis using assms by (simp add: poly_fill_def Let_def)
qed

lemma fill_spec:
  assumes "poly_holds r s m p" "len \<le> length d"
  shows "\<exists>i p'. poly_fill d len p = Some (i, p') \<and> i \<le> len \<and> poly_holds r s (m @ take i d) p'
    \<and> (pc_buffer_len p' = 0 \<or> i = len)"
proof (cases "pc_buffer_len p = 0")
  case True
  then show ?thesis using assms by (simp add: poly_fill_def)
next
  case nz: False
  obtain bs t where t: "m = bs @ t" "16 dvd length bs" "length t < 16" "pc_buffer_len p = length t"
    "take (length t) (pc_buffer p) = t" "pc_h p = poly_hash r (replicate 5 0) bs"
    and rs: "pc_r p = r" "pc_s p = s" "length (pc_buffer p) = 16"
    using assms(1) by (auto simp: poly_holds_def)
  have w: "mem_write (pc_buffer p) (pc_buffer_len p) (take k d) = Some (t @ take k d @ drop (length t + k) (pc_buffer p))"
    if "k \<le> len" "length t + k \<le> 16" for k
    using t(4,5) rs(3) that assms(2) by (simp add: mem_write_def)
  show ?thesis
  proof (cases "length t + len < 16")
    case True
    let ?b = "t @ take len d @ drop (length t + len) (pc_buffer p)"
    have "poly_holds r s (bs @ t @ take len d) (p\<lparr>pc_buffer := ?b, pc_buffer_len := length t + len\<rparr>)"
      unfolding poly_holds_def using t rs True assms(2)
      by (intro conjI exI [of _ bs] exI [of _ "t @ take len d"]) auto
    then show ?thesis using fill_part [OF nz _ assms(2) w] True t(1,4) by simp
  next
    case False
    obtain k where k: "length t + k = 16" "k \<le> len" using False t(3) by (metis le_add_diff_inverse less_imp_le_nat linorder_not_less nat_add_left_cancel_le)
    let ?b = "t @ take k d"
    have b: "mem_write (pc_buffer p) (pc_buffer_len p) (take k d) = Some ?b" "length ?b = 16"
      using w [OF k(2)] k rs(3) assms(2) by simp_all
    have "poly_holds r s bs (p\<lparr>pc_buffer := ?b, pc_buffer_len := 0\<rparr>)"
      unfolding poly_holds_def using t(2,6) rs b(2) by (intro conjI exI [of _ bs] exI [of _ "[]"]) auto
    from holds_block [OF this _ b(2)] have "poly_holds r s (m @ take k d)
        (p\<lparr>pc_buffer := ?b, pc_buffer_len := 0, pc_h := poly_step (pc_r p) (pc_h p) ?b\<rparr>)"
      using t(1) by simp
    then show ?thesis using fill_full [OF nz _ k(2) assms(2) b] k t(4) by auto
  qed
qed

lemma blocks_spec:
  assumes "poly_holds r s m p" "pc_buffer_len p = 0" "i \<le> len" "len \<le> length d"
  shows "\<exists>j p'. poly_blocks d len i p = Some (j, p') \<and> i \<le> j \<and> j \<le> len \<and> len < j + 16
    \<and> poly_holds r s (m @ take (j - i) (drop i d)) p' \<and> pc_buffer_len p' = 0"
  using assms
proof (induction d len i p arbitrary: m rule: poly_blocks.induct)
  case (1 d len i p)
  show ?case
  proof (cases "i + 16 \<le> len")
    case True
    let ?b = "take 16 (drop i d)" and ?p = "p\<lparr>pc_h := poly_step (pc_r p) (pc_h p) (take 16 (drop i d))\<rparr>"
    have b: "mem_read d i 16 = Some ?b" "length ?b = 16" using True 1(5) by (simp_all add: mem_read_def)
    have blk: "prv_poly1305_block p ?b = Some ?p" using block_spec b(2) by simp
    have hp: "poly_holds r s (m @ ?b) ?p" using holds_block [OF 1(2,3) b(2)] .
    obtain j p' where j: "poly_blocks d len (i + 16) ?p = Some (j, p')" "i + 16 \<le> j" "j \<le> len" "len < j + 16"
      "poly_holds r s ((m @ ?b) @ take (j - (i + 16)) (drop (i + 16) d)) p'" "pc_buffer_len p' = 0"
      using 1(1) [OF True b(1) blk hp] 1(3,5) True by auto
    have "?b @ take (j - (i + 16)) (drop (i + 16) d) = take (j - i) (drop i d)"
      using take_add [of 16 "j - (i + 16)" "drop i d"] j(2) by (simp add: add.commute)
    then show ?thesis using j b(1) blk True by (subst poly_blocks.simps) simp
  next
    case False
    then show ?thesis using 1 by (subst poly_blocks.simps) simp
  qed
qed

lemma update_spec:
  assumes "poly_holds r s m p" "len \<le> length d"
  shows "\<exists>p'. xy_poly1305_update (Some p) (Some d) len = Some (CHACHA_SUCCESS, Some p') \<and> poly_holds r s (m @ take len d) p'"
proof -
  obtain i p1 where f: "poly_fill d len p = Some (i, p1)" "i \<le> len" "poly_holds r s (m @ take i d) p1"
    "pc_buffer_len p1 = 0 \<or> i = len" using fill_spec [OF assms] by blast
  show ?thesis
  proof (cases "pc_buffer_len p1 = 0")
    case False
    then have "i = len" using f(4) by simp
    moreover have "poly_blocks d len len p1 = Some (len, p1)" by (subst poly_blocks.simps) simp
    ultimately show ?thesis using f by (simp add: xy_poly1305_update_def)
  next
    case True
    obtain j p2 where b: "poly_blocks d len i p1 = Some (j, p2)" "i \<le> j" "j \<le> len" "len < j + 16"
      "poly_holds r s ((m @ take i d) @ take (j - i) (drop i d)) p2" "pc_buffer_len p2 = 0"
      using blocks_spec [OF f(3) True f(2) assms(2)] by blast
    have j: "take i d @ take (j - i) (drop i d) = take j d" using take_add [of i "j - i" d] b(2) by simp
    then have h: "poly_holds r s (m @ take j d) p2" using b(5) by simp
    show ?thesis
    proof (cases "j < len")
      case False
      then show ?thesis using f(1) b h by (simp add: xy_poly1305_update_def)
    next
      case True
      let ?t = "take (len - j) (drop j d)"
      let ?b = "?t @ drop (len - j) (pc_buffer p2)"
      have lt: "length ?t = len - j" "len - j < 16" using assms(2) b(4) True by auto
      have rd: "mem_read d j (len - j) = Some ?t" using assms(2) True by (simp add: mem_read_def)
      have w: "mem_write (pc_buffer p2) 0 ?t = Some ?b" using h lt by (simp add: mem_write_def poly_holds_def)
      have "take len d = take j d @ ?t" using take_add [of j "len - j" d] True by simp
      moreover have "poly_holds r s ((m @ take j d) @ ?t) (p2\<lparr>pc_buffer := ?b, pc_buffer_len := length ?t\<rparr>)"
        using holds_rest [OF h b(6), of ?t ?b] lt h by (simp add: poly_holds_def)
      ultimately show ?thesis using f(1) b(1) True rd w unfolding lt(1) by (simp add: xy_poly1305_update_def)
    qed
  qed
qed


lemma update_zeros:
  assumes "poly_holds r s m p" "k \<le> 16"
  shows "\<exists>p'. xy_poly1305_update (Some p) (Some (replicate 16 0)) k = Some (CHACHA_SUCCESS, Some p')
    \<and> poly_holds r s (m @ replicate k 0) p'"
proof -
  have "take k (replicate 16 (0 :: u8)) = replicate k 0" using assms(2) by (simp add: min_absorb1)
  then show ?thesis using update_spec [OF assms(1), of k "replicate 16 0"] assms(2) by simp
qed

lemma pad16_spec:
  assumes "poly_holds r s m p"
  shows "\<exists>p'. prv_poly1305_pad16 (Some p) n = Some (Some p')
    \<and> poly_holds r s (m @ replicate ((16 - n mod 16) mod 16) 0) p'"
proof -
  have step: "\<exists>p'. (if k > 0 then do { (r, p) \<leftarrow> xy_poly1305_update (Some p) (Some (replicate 16 0)) k; Some p } else Some (Some p))
      = Some (Some p') \<and> poly_holds r s (m @ replicate k 0) p'" if "k \<le> 16" for k
    using update_zeros [OF assms that] assms by (cases "k = 0") auto
  show ?thesis unfolding prv_poly1305_pad16_def Let_def by (rule step) simp
qed

text \<open>A text with the zeros that complete its last block.\<close>

definition poly_padded :: "u8 list \<Rightarrow> u8 list" where
  "poly_padded xs = xs @ replicate ((16 - length xs mod 16) mod 16) 0"

lemma pad_rest:
  assumes "r < (16 :: nat)"
  shows "(r + (16 - r) mod 16) mod 16 = 0"
proof (cases "r = 0")
  case False
  then have "(16 - r) mod 16 = 16 - r" by (intro mod_less) linarith
  then show ?thesis using assms by simp
qed simp

lemma pad_mod: "(a + (16 - a mod 16) mod 16) mod 16 = (0 :: nat)"
proof -
  have "(a mod 16 + (16 - a mod 16) mod 16) mod 16 = 0" by (rule pad_rest) (rule mod_less_divisor, simp)
  then show ?thesis by (simp only: mod_add_left_eq)
qed

lemma poly_padded_dvd: "16 dvd length (poly_padded xs)"
  by (simp add: poly_padded_def dvd_eq_mod_eq_0 pad_mod)

lemma absorb_spec:
  assumes "poly_holds r s m p" "n \<le> length d"
  shows "\<exists>p'. aead_absorb (Some d) n (Some p) = Some (Some p') \<and> poly_holds r s (m @ poly_padded (take n d)) p'"
proof (cases "n = 0")
  case True
  then show ?thesis using assms by (simp add: aead_absorb_def poly_padded_def)
next
  case False
  obtain p1 where p1: "xy_poly1305_update (Some p) (Some d) n = Some (CHACHA_SUCCESS, Some p1)"
    "poly_holds r s (m @ take n d) p1" using update_spec [OF assms] by blast
  obtain p' where "prv_poly1305_pad16 (Some p1) n = Some (Some p')"
    "poly_holds r s ((m @ take n d) @ replicate ((16 - n mod 16) mod 16) 0) p'"
    using pad16_spec [OF p1(2)] by blast
  then show ?thesis using p1(1) False assms(2) by (simp add: aead_absorb_def poly_padded_def min_absorb2)
qed

text \<open>The message that the tag covers, as in RFC 8439, section 2.8.\<close>

definition le64 :: "nat \<Rightarrow> u8 list" where
  "le64 n = prv_store32_le (of_nat n) @ prv_store32_le (of_nat (drop_bit 32 n))"

definition aead_message :: "u8 list \<Rightarrow> u8 list \<Rightarrow> u8 list" where
  "aead_message aad text = poly_padded aad @ poly_padded text @ le64 (length aad) @ le64 (length text)"

lemma length_poly_tag [simp]: "length (poly_tag h s) = 16"
  by (simp add: poly_tag_def Let_def)

lemma poly_init_spec:
  assumes "32 \<le> length key"
  shows "\<exists>r s p. xy_poly1305_init (Some poly_local) (Some key) = Some (CHACHA_SUCCESS, Some p) \<and> poly_holds r s [] p"
proof -
  obtain r0 r1 r2 r3 r4 where "prv_load32_le key 0 = Some r0" "prv_load32_le key 3 = Some r1"
    "prv_load32_le key 6 = Some r2" "prv_load32_le key 9 = Some r3" "prv_load32_le key 12 = Some r4"
    using load32_total [of 0 key] load32_total [of 3 key] load32_total [of 6 key] load32_total [of 9 key]
      load32_total [of 12 key] assms by auto
  moreover obtain s where "chacha_words key [16, 20, 24, 28] = Some s"
    using chacha_words_total [of "[16, 20, 24, 28]" key] assms by auto
  moreover have "replicate 5 0 = [0, 0, 0, 0, 0 :: u32]" by (simp add: numeral_eq_Suc)
  ultimately show ?thesis
    by (simp add: xy_poly1305_init_def poly_holds_def poly_local_def poly_hash_short del: chacha_words.simps)
qed

text \<open>The key of the authenticator decides the tag of every message; only the first 16 bytes of the buffer are written.\<close>

definition aead_mac :: "u32 list \<Rightarrow> u32 list \<Rightarrow> u8 list \<Rightarrow> u8 list" where
  "aead_mac r s m = poly_tag (poly_reduce (poly_hash r (replicate 5 0) m)) s"

lemma aead_tag_spec:
  assumes "32 \<le> length poly_key" "32 < width"
  shows "\<exists>r s. \<forall>aad n ct k dst. n \<le> length aad \<and> k \<le> length ct \<and> 16 \<le> length dst \<longrightarrow>
    aead_tag width poly_key (Some aad) n (Some ct) k dst
      = Some (CHACHA_SUCCESS, aead_mac r s (aead_message (take n aad) (take k ct)) @ drop 16 dst)"
proof -
  obtain r s p where p: "xy_poly1305_init (Some poly_local) (Some poly_key) = Some (CHACHA_SUCCESS, Some p)" "poly_holds r s [] p"
    using poly_init_spec [OF assms(1)] by blast
  have "aead_tag width poly_key (Some aad) n (Some ct) k dst
      = Some (CHACHA_SUCCESS, aead_mac r s (aead_message (take n aad) (take k ct)) @ drop 16 dst)"
    if n: "n \<le> length aad" and k: "k \<le> length ct" and tg: "16 \<le> length dst" for aad n ct k dst
  proof -
    obtain p1 where p1: "aead_absorb (Some aad) n (Some p) = Some (Some p1)" "poly_holds r s ([] @ poly_padded (take n aad)) p1"
      using absorb_spec [OF p(2) n] by blast
    obtain p2 where p2: "aead_absorb (Some ct) k (Some p1) = Some (Some p2)"
      "poly_holds r s (([] @ poly_padded (take n aad)) @ poly_padded (take k ct)) p2"
      using absorb_spec [OF p1(2) k] by blast
    let ?l = "le64 n @ le64 k"
    have l: "length ?l = 16" by (simp add: le64_def)
    obtain p3 where p3: "xy_poly1305_update (Some p2) (Some ?l) 16 = Some (CHACHA_SUCCESS, Some p3)"
      "poly_holds r s ((([] @ poly_padded (take n aad)) @ poly_padded (take k ct)) @ take 16 ?l) p3"
      using update_spec [OF p2(2), of 16 ?l] l by auto
    have msg: "poly_holds r s (aead_message (take n aad) (take k ct)) p3"
      using p3(2) l n k by (simp add: aead_message_def min_absorb2)
    have dvd: "16 dvd length (aead_message (take n aad) (take k ct))"
      using poly_padded_dvd [of "take n aad"] poly_padded_dvd [of "take k ct"] by (simp add: aead_message_def le64_def)
    have h: "pc_buffer_len p3 = 0" "pc_h p3 = poly_hash r (replicate 5 0) (aead_message (take n aad) (take k ct))" "pc_s p3 = s"
      using holds_complete [OF msg dvd] by blast+
    have "xy_poly1305_finish (Some p3) (Some dst)
        = Some (CHACHA_SUCCESS, Some (p3\<lparr>pc_h := poly_reduce (pc_h p3)\<rparr>), Some (poly_tag (poly_reduce (pc_h p3)) s @ drop 16 dst))"
      using h tg by (simp add: xy_poly1305_finish_def poly_last_def Let_def mem_write_def)
    then show ?thesis
      using p(1) p1(1) p2(1) p3(1) assms(2) h(2)
      by (simp add: aead_tag_def size_high_def Let_def le64_def aead_mac_def)
  qed
  then show ?thesis by blast
qed

subsection \<open>The combination\<close>

lemma aead_poly_key_total:
  assumes "32 \<le> length key" "12 \<le> length nonce"
  shows "\<exists>pk. aead_poly_key key nonce = Some pk \<and> length pk = 32"
proof -
  obtain st where st: "xy_chacha20_init (Some chacha_local) (Some key) (Some nonce) 0
      = Some (CHACHA_SUCCESS, Some (chacha_local\<lparr>cc_state := st, cc_counter := 0, cc_pos := 64\<rparr>))" "length st = 16"
    using chacha_init_spec [OF assms] by blast
  let ?c = "chacha_local\<lparr>cc_state := st, cc_counter := 0, cc_pos := 64\<rparr>"
  have "cc_ok ?c" using st(2) by (simp add: cc_ok_def chacha_local_def)
  then obtain m where "chacha_crypt_loop ?c (replicate 32 0) 0 0 [0..<32] = Some (snd (cc_bytes 32 ?c), m)"
    "mem_write (replicate 32 0) 0 (map2 (XOR) (replicate 32 0) (fst (cc_bytes 32 ?c))) = Some m"
    using chacha_crypt_loop_spec [of ?c 0 0 32 "replicate 32 0" 0] by auto
  then show ?thesis
    using st(1) mem_write_length [of "replicate 32 0" 0] by (fastforce simp: aead_poly_key_def xy_chacha20_crypt_def)
qed

lemma aead_crypt_spec:
  assumes "32 \<le> length key" "12 \<le> length nonce"
  shows "\<exists>ks. length ks = n \<and> (\<forall>mem out inp. out + n \<le> length mem \<and> inp + n \<le> length mem
      \<and> (out = inp \<or> out + n \<le> inp \<or> inp + n \<le> out) \<longrightarrow>
    (\<exists>m. aead_crypt key nonce mem (Some out) (Some inp) n = Some (CHACHA_SUCCESS, m)
       \<and> mem_write mem out (map2 (XOR) (take n (drop inp mem)) ks) = Some m))"
proof -
  obtain st where st: "xy_chacha20_init (Some chacha_local) (Some key) (Some nonce) 1
      = Some (CHACHA_SUCCESS, Some (chacha_local\<lparr>cc_state := st, cc_counter := 1, cc_pos := 64\<rparr>))" "length st = 16"
    using chacha_init_spec [OF assms] by blast
  let ?c = "chacha_local\<lparr>cc_state := st, cc_counter := 1, cc_pos := 64\<rparr>"
  have ok: "cc_ok ?c" using st(2) by (simp add: cc_ok_def chacha_local_def)
  have "\<exists>m. aead_crypt key nonce mem (Some out) (Some inp) n = Some (CHACHA_SUCCESS, m)
       \<and> mem_write mem out (map2 (XOR) (take n (drop inp mem)) (fst (cc_bytes n ?c))) = Some m"
    if r: "out + n \<le> length mem" "inp + n \<le> length mem" "out = inp \<or> out + n \<le> inp \<or> inp + n \<le> out" for mem out inp
  proof (cases "n = 0")
    case True
    then show ?thesis using st(1) r(1) by (simp add: aead_crypt_def mem_write_def)
  next
    case False
    obtain m where "chacha_crypt_loop ?c mem out inp [0..<n] = Some (snd (cc_bytes n ?c), m)"
      "mem_write mem out (map2 (XOR) (take n (drop inp mem)) (fst (cc_bytes n ?c))) = Some m"
      using chacha_crypt_loop_spec [OF ok, of out 0 n mem inp] r by auto
    then show ?thesis using st(1) False by (simp add: aead_crypt_def xy_chacha20_crypt_def)
  qed
  then show ?thesis by (intro exI [of _ "fst (cc_bytes n ?c)"]) simp
qed

lemma or_eq_zero: "a OR b = 0 \<longleftrightarrow> a = 0 \<and> b = (0 :: u8)"
  by (auto simp: bit_eq_iff bit_simps)

lemma xor_eq_zero: "a XOR b = 0 \<longleftrightarrow> a = (b :: u8)"
  by (auto simp: bit_eq_iff bit_simps)

lemma aead_diff_spec:
  "\<forall>i \<in> set is. i < length t \<and> i < length c \<Longrightarrow>
    \<exists>d'. aead_diff t c is d = Some d' \<and> (d' = 0 \<longleftrightarrow> d = 0 \<and> (\<forall>i \<in> set is. t ! i = c ! i))"
proof (induction "is" arbitrary: d)
  case (Cons i "is")
  then have i: "mem_load t i = Some (t ! i)" "mem_load c i = Some (c ! i)" by (simp_all add: mem_simps)
  have "\<forall>i \<in> set is. i < length t \<and> i < length c" using Cons.prems by simp
  from Cons.IH [OF this, of "d OR (t ! i XOR c ! i)"] obtain d' where
    "aead_diff t c is (d OR (t ! i XOR c ! i)) = Some d'"
    "(d' = 0) = (d OR (t ! i XOR c ! i) = 0 \<and> (\<forall>i \<in> set is. t ! i = c ! i))" by blast
  then show ?case using i by (simp add: or_eq_zero xor_eq_zero conj_assoc)
qed simp

lemma map2_xor_cancel: "length xs = length ks \<Longrightarrow> map2 (XOR) (map2 (XOR) xs ks) ks = (xs :: u8 list)"
  by (intro nth_equalityI) (auto simp: xor.assoc)


lemma aead_diff_tag:
  assumes "16 \<le> length t" "16 \<le> length c"
  shows "\<exists>d. aead_diff t c [0..<16] 0 = Some d \<and> (d = 0 \<longleftrightarrow> take 16 t = take 16 c)"
proof -
  have "(\<forall>i \<in> set [0..<16]. t ! i = c ! i) \<longleftrightarrow> take 16 t = take 16 c"
    using assms by (auto simp: list_eq_iff_nth_eq)
  then show ?thesis using aead_diff_spec [of "[0..<16]" t c 0] assms by simp
qed

text \<open>
  C30. For \<open>size_t\<close> wider than 32 bits: enciphering in place or into another range returns \<open>CHACHA_SUCCESS\<close>, changes
  only the ciphertext range and the first 16 bytes of the tag; deciphering with that tag restores the
  plaintext in place or in another range; with a tag that differs in its first 16 bytes it returns
  \<open>CHACHA_AUTH_FAILED\<close> and changes nothing.
\<close>

theorem aead_roundtrip:
  assumes "32 \<le> length key" "12 \<le> length nonce" "32 < width" "aad_len \<le> length aad" "16 \<le> length tg"
    and "pt + n \<le> length mem" "ct + n \<le> length mem" "out + n \<le> length mem"
    and "ct = pt \<or> ct + n \<le> pt \<or> pt + n \<le> ct" "out = ct \<or> out + n \<le> ct \<or> ct + n \<le> out"
  shows "\<exists>m1 t. xy_chacha20_poly1305_encrypt width (Some key) (Some nonce) (Some aad) aad_len mem (Some pt) n (Some ct) (Some tg)
      = Some (CHACHA_SUCCESS, m1, Some t)
    \<and> length m1 = length mem \<and> (\<forall>i < length mem. i < ct \<or> ct + n \<le> i \<longrightarrow> m1 ! i = mem ! i)
    \<and> length t = length tg \<and> drop 16 t = drop 16 tg
    \<and> (\<exists>m2. xy_chacha20_poly1305_decrypt width (Some key) (Some nonce) (Some aad) aad_len m1 (Some ct) n (Some t) (Some out)
          = Some (CHACHA_SUCCESS, m2)
        \<and> length m2 = length mem \<and> take n (drop out m2) = take n (drop pt mem)
        \<and> (\<forall>i < length mem. i < out \<or> out + n \<le> i \<longrightarrow> m2 ! i = m1 ! i))
    \<and> (\<forall>t'. 16 \<le> length t' \<and> take 16 t' \<noteq> take 16 t \<longrightarrow>
        xy_chacha20_poly1305_decrypt width (Some key) (Some nonce) (Some aad) aad_len m1 (Some ct) n (Some t') (Some out)
          = Some (CHACHA_AUTH_FAILED, m1))"
proof -
  obtain pk where pk: "aead_poly_key key nonce = Some pk" "length pk = 32"
    using aead_poly_key_total [OF assms(1,2)] by blast
  obtain r s where tag_spec: "\<And>aad n tx k dst. n \<le> length aad \<Longrightarrow> k \<le> length tx \<Longrightarrow> 16 \<le> length dst \<Longrightarrow>
      aead_tag width pk (Some aad) n (Some tx) k dst
        = Some (CHACHA_SUCCESS, aead_mac r s (aead_message (take n aad) (take k tx)) @ drop 16 dst)"
    using aead_tag_spec [OF _ assms(3), of pk] pk(2) by (metis order_refl)
  obtain ks where ks: "length ks = n" "\<And>mem out inp. out + n \<le> length mem \<Longrightarrow> inp + n \<le> length mem \<Longrightarrow>
      out = inp \<or> out + n \<le> inp \<or> inp + n \<le> out \<Longrightarrow>
      \<exists>m. aead_crypt key nonce mem (Some out) (Some inp) n = Some (CHACHA_SUCCESS, m)
        \<and> mem_write mem out (map2 (XOR) (take n (drop inp mem)) ks) = Some m"
    using aead_crypt_spec [OF assms(1,2), of n] by metis
  obtain m1 where m1: "aead_crypt key nonce mem (Some ct) (Some pt) n = Some (CHACHA_SUCCESS, m1)"
    "mem_write mem ct (map2 (XOR) (take n (drop pt mem)) ks) = Some m1" using ks(2) [OF assms(7,6,9)] by blast
  have l1: "length m1 = length mem" using mem_write_length [OF m1(2)] .
  obtain m2 where m2: "aead_crypt key nonce m1 (Some out) (Some ct) n = Some (CHACHA_SUCCESS, m2)"
    "mem_write m1 out (map2 (XOR) (take n (drop ct m1)) ks) = Some m2"
    using ks(2) [of out m1 ct] assms(7,8,10) l1 by auto
  let ?mac = "aead_mac r s (aead_message (take aad_len aad) (take n (drop ct m1)))"
  have mac: "length ?mac = 16" by (simp add: aead_mac_def)
  have tg: "aead_tag width pk (Some aad) aad_len (Some (drop ct m1)) n dst = Some (CHACHA_SUCCESS, ?mac @ drop 16 dst)"
    if "16 \<le> length dst" for dst
    using tag_spec [OF assms(4), of n "drop ct m1" dst] assms(7) l1 that by simp
  have enc: "xy_chacha20_poly1305_encrypt width (Some key) (Some nonce) (Some aad) aad_len mem (Some pt) n (Some ct) (Some tg)
      = Some (CHACHA_SUCCESS, m1, Some (?mac @ drop 16 tg))"
    using pk(1) m1(1) tg [OF assms(5)] by (simp add: xy_chacha20_poly1305_encrypt_def)
  have dec: "xy_chacha20_poly1305_decrypt width (Some key) (Some nonce) (Some aad) aad_len m1 (Some ct) n (Some t') (Some out)
      = Some (if take 16 t' = ?mac then (CHACHA_SUCCESS, m2) else (CHACHA_AUTH_FAILED, m1))" if t16: "16 \<le> length t'" for t'
  proof -
    obtain d where "aead_diff t' ?mac [0..<16] 0 = Some d" "d = 0 \<longleftrightarrow> take 16 t' = take 16 ?mac"
      using aead_diff_tag [OF t16, of ?mac] mac by auto
    then show ?thesis using pk(1) m2(1) tg [of "replicate 16 0"] mac by (simp add: xy_chacha20_poly1305_decrypt_def)
  qed
  have restored: "take n (drop out m2) = take n (drop pt mem)"
  proof -
    have "take n (drop ct m1) = map2 (XOR) (take n (drop pt mem)) ks"
      using mem_write_range [OF m1(2)] ks(1) assms(6) by simp
    then show ?thesis
      using mem_write_range [OF m2(2)] ks(1) assms(6,7) l1 by (simp add: map2_xor_cancel)
  qed
  have f1: "m1 ! i = mem ! i" if "i < length mem" "i < ct \<or> ct + n \<le> i" for i
    using nth_mem_write [OF m1(2) that(1)] that(2) ks(1) assms(6) by auto
  have f2: "m2 ! i = m1 ! i" if "i < length mem" "i < out \<or> out + n \<le> i" for i
    using nth_mem_write [OF m2(2), of i] that ks(1) assms(7) l1 by auto
  show ?thesis
    using enc l1 f1 f2 mac restored dec assms(5) mem_write_length [OF m2(2)]
    by (intro exI [of _ m1] exI [of _ "?mac @ drop 16 tg"]) auto
qed

theorem aead_roundtrip_witness:
  "\<exists>m1 t. xy_chacha20_poly1305_encrypt 64 (Some (replicate 32 1)) (Some (replicate 12 2)) (Some [9]) 1 [1, 2, 3, 4] (Some 0) 2 (Some 0)
        (Some (replicate 16 0)) = Some (CHACHA_SUCCESS, m1, Some t)
    \<and> length m1 = 4
    \<and> (\<exists>m2. xy_chacha20_poly1305_decrypt 64 (Some (replicate 32 1)) (Some (replicate 12 2)) (Some [9]) 1 m1 (Some 0) 2 (Some t) (Some 2)
          = Some (CHACHA_SUCCESS, m2) \<and> take 2 (drop 2 m2) = [1, 2])"
  using aead_roundtrip [of "replicate 32 1" "replicate 12 2" 64 1 "[9]" "replicate 16 0" 0 2 "[1, 2, 3, 4]" 0 2]
  by force

text \<open>
  C31. Where \<open>size_t\<close> has 32 bits, as on the targets of the repository, enciphering and deciphering reach the shift
  of a length by 32 bits, which is undefined, whatever the texts and the tag are.
\<close>

theorem aead_undefined_32:
  assumes "width \<le> 32" "32 \<le> length key" "12 \<le> length nonce" "pt + n \<le> length mem"
    and "ct + n \<le> length mem" "ct = pt \<or> ct + n \<le> pt \<or> pt + n \<le> ct"
  shows "xy_chacha20_poly1305_encrypt width (Some key) (Some nonce) (Some aad) aad_len mem (Some pt) n (Some ct) (Some tg) = None
    \<and> xy_chacha20_poly1305_decrypt width (Some key) (Some nonce) (Some aad) aad_len mem (Some ct) n (Some tg) (Some pt) = None"
proof -
  have h: "size_high width k = None" for k using assms(1) by (simp add: size_high_def)
  have b: "(do { x \<leftarrow> a; None }) = None" for a :: "'a option" by (cases a) simp_all
  have c: "(\<lambda>(x, y). None) = (\<lambda>p. None)" by auto
  have t: "aead_tag width pk x i y j z = None" for pk x i y j z
    by (simp add: aead_tag_def h b c)
  obtain m where "aead_crypt key nonce mem (Some ct) (Some pt) n = Some (CHACHA_SUCCESS, m)"
    using aead_crypt_spec [OF assms(2,3), of n] assms(4-6) by blast
  then show ?thesis by (simp add: xy_chacha20_poly1305_encrypt_def xy_chacha20_poly1305_decrypt_def t b c)
qed

theorem aead_undefined_32_witness:
  "xy_chacha20_poly1305_encrypt 32 (Some (replicate 32 1)) (Some (replicate 12 2)) (Some []) 0 [1, 2] (Some 0) 2 (Some 0)
      (Some (replicate 16 0)) = None"
  using aead_undefined_32 [of 32 "replicate 32 1" "replicate 12 2" 0 2 "[1, 2]" 0] by simp

end
