(* ===== verification/Xy_Csprng.thy ===== *)
theory Xy_Csprng
  imports Xy_Prelude
begin

text \<open>
  The random numbers of \<open>components/crypto/xy_rng/xy_csprng.c\<close>. The static \<open>g_csprng_ctx\<close> is a record that is passed
  and returned; logging is left out. The output of \<open>xy_csprng_generate\<close> is a byte array of its own.
  A local variable that is read without having been written makes the result \<open>None\<close>.
\<close>

datatype rng_rc = RNG_SUCCESS | RNG_ERROR | RNG_INVALID_PARAM | RNG_NOT_INITIALIZED

fun rng_rc_code :: "rng_rc \<Rightarrow> int" where
  "rng_rc_code RNG_SUCCESS = 0"
| "rng_rc_code RNG_ERROR = -1"
| "rng_rc_code RNG_INVALID_PARAM = -2"
| "rng_rc_code RNG_NOT_INITIALIZED = -3"

record csprng_ctx =
  cs_state :: "u32 list"
  cs_buffer :: "u8 list"
  cs_available :: nat
  cs_bytes_generated :: u64
  cs_initialized :: bool

definition csprng_zero :: csprng_ctx where
  "csprng_zero = \<lparr>cs_state = replicate 16 0, cs_buffer = replicate 64 0, cs_available = 0,
     cs_bytes_generated = 0, cs_initialized = False\<rparr>"

definition QUARTERROUND :: "u32 \<Rightarrow> u32 \<Rightarrow> u32 \<Rightarrow> u32 \<Rightarrow> u32 \<times> u32 \<times> u32 \<times> u32" where
  "QUARTERROUND a b c d =
     (let a = a + b; d = d XOR a; d = push_bit 16 d OR drop_bit 16 d;
          c = c + d; b = b XOR c; b = push_bit 12 b OR drop_bit 20 b;
          a = a + b; d = d XOR a; d = push_bit 8 d OR drop_bit 24 d;
          c = c + d; b = b XOR c; b = push_bit 7 b OR drop_bit 25 b
      in (a, b, c, d))"

text \<open>The macro on four cells of \<open>x\<close>.\<close>

definition csprng_round_at :: "nat \<Rightarrow> nat \<Rightarrow> nat \<Rightarrow> nat \<Rightarrow> u32 list \<Rightarrow> u32 list" where
  "csprng_round_at i j k l x =
     (case QUARTERROUND (x ! i) (x ! j) (x ! k) (x ! l) of (a, b, c, d) \<Rightarrow> x[i := a, j := b, k := c, l := d])"

definition csprng_double_round :: "u32 list \<Rightarrow> u32 list" where
  "csprng_double_round x =
     (let x = csprng_round_at 0 4 8 12 x;
          x = csprng_round_at 1 5 9 13 x;
          x = csprng_round_at 2 6 10 14 x;
          x = csprng_round_at 3 7 11 15 x;
          x = csprng_round_at 0 5 10 15 x;
          x = csprng_round_at 1 6 11 12 x;
          x = csprng_round_at 2 7 8 13 x
      in csprng_round_at 3 4 9 14 x)"

definition CHACHA_CONSTANTS :: "u32 list" where
  "CHACHA_CONSTANTS = [0x61707865, 0x3320646e, 0x79622d32, 0x6b206574]"

text \<open>The bytes of a block.\<close>

definition csprng_output :: "u32 list \<Rightarrow> u8 list" where
  "csprng_output state =
     (let x = (csprng_double_round ^^ 10) state;
          x = map (\<lambda>i. x ! i + state ! i) [0..<16]
      in concat (map (\<lambda>w. [ucast w, ucast (drop_bit 8 w), ucast (drop_bit 16 w), ucast (drop_bit 24 w)]) x))"

text \<open>The counter in words 12 and 13.\<close>

definition csprng_count :: "u32 list \<Rightarrow> u32 list" where
  "csprng_count state =
     (let state = state[12 := state ! 12 + 1]
      in if state ! 12 = 0 then state[13 := state ! 13 + 1] else state)"

text \<open>Only called with the buffer of the state as its output.\<close>

definition chacha20_block :: "csprng_ctx \<Rightarrow> csprng_ctx" where
  "chacha20_block g = g\<lparr>cs_buffer := csprng_output (cs_state g), cs_state := csprng_count (cs_state g)\<rparr>"

text \<open>One of the loops that combine entropy with the words from \<open>base\<close> on.\<close>

fun mix_loop :: "u8 list \<Rightarrow> nat \<Rightarrow> nat \<Rightarrow> nat list \<Rightarrow> u32 list \<Rightarrow> u32 list option" where
  "mix_loop entropy base start [] state = Some state"
| "mix_loop entropy base start (i # is) state = do {
     e \<leftarrow> mem_load entropy i;
     let w = base + (i - start) div 4;
     mix_loop entropy base start is (state[w := state ! w XOR push_bit ((i - start) mod 4 * 8) (ucast e)]) }"

definition mix_entropy :: "u8 list option \<Rightarrow> nat \<Rightarrow> csprng_ctx \<Rightarrow> csprng_ctx option" where
  "mix_entropy entropy len g =
     (case entropy of
        None \<Rightarrow> Some g
      | Some e \<Rightarrow>
          if len = 0 then Some g
          else do {
            s \<leftarrow> mix_loop e 4 0 [0..<min len 32] (cs_state g);
            s' \<leftarrow> (if len > 32 then mix_loop e 14 32 [32..<min len 40] s else Some s);
            Some (g\<lparr>cs_state := s'\<rparr>) })"

text \<open>The word that the function assembles from four bytes of the seed.\<close>

definition csprng_word :: "u8 list \<Rightarrow> nat \<Rightarrow> u32 option" where
  "csprng_word seed off = do {
     b0 \<leftarrow> mem_load seed off;
     b1 \<leftarrow> mem_load seed (off + 1);
     b2 \<leftarrow> mem_load seed (off + 2);
     b3 \<leftarrow> mem_load seed (off + 3);
     Some (ucast b0 OR push_bit 8 (ucast b1) OR push_bit 16 (ucast b2) OR push_bit 24 (ucast b3)) }"

fun csprng_words :: "u8 list \<Rightarrow> nat list \<Rightarrow> u32 list option" where
  "csprng_words seed [] = Some []"
| "csprng_words seed (i # is) = do { w \<leftarrow> csprng_word seed (i * 4); ws \<leftarrow> csprng_words seed is; Some (w # ws) }"

definition xy_csprng_init :: "u8 list option \<Rightarrow> nat \<Rightarrow> csprng_ctx \<Rightarrow> (rng_rc \<times> csprng_ctx) option" where
  "xy_csprng_init seed seed_len g =
     (case seed of
        None \<Rightarrow> Some (RNG_INVALID_PARAM, g)
      | Some s \<Rightarrow>
          if seed_len < 32 then Some (RNG_INVALID_PARAM, g)
          else do {
            key \<leftarrow> csprng_words s [0, 1, 2, 3, 4, 5, 6, 7];
            nonce \<leftarrow> (if seed_len \<ge> 40 then csprng_words s [8, 9] else Some [0, 0]);
            let g1 = g\<lparr>cs_state := CHACHA_CONSTANTS @ key @ [0, 0] @ nonce\<rparr>;
            g2 \<leftarrow> (if seed_len > 40 then mix_entropy (Some (drop 40 s)) (seed_len - 40) g1 else Some g1);
            Some (RNG_SUCCESS, g2\<lparr>cs_available := 0, cs_bytes_generated := 0, cs_initialized := True\<rparr>) })"

definition xy_csprng_reseed :: "u8 list option \<Rightarrow> nat \<Rightarrow> csprng_ctx \<Rightarrow> (rng_rc \<times> csprng_ctx) option" where
  "xy_csprng_reseed entropy entropy_len g =
     (if \<not> cs_initialized g then Some (RNG_NOT_INITIALIZED, g)
      else if entropy = None \<or> entropy_len = 0 then Some (RNG_INVALID_PARAM, g)
      else do {
        g1 \<leftarrow> mix_entropy entropy entropy_len g;
        let s = (cs_state g1)[14 := cs_state g1 ! 14 + 1];
        let s' = (if s ! 14 = 0 then s[15 := s ! 15 + 1] else s);
        Some (RNG_SUCCESS, g1\<lparr>cs_state := s', cs_available := 0\<rparr>) })"

text \<open>The bytes that are left in the buffer.\<close>

definition csprng_buffered :: "nat \<Rightarrow> csprng_ctx \<Rightarrow> u8 list \<Rightarrow> (nat \<times> csprng_ctx \<times> u8 list) option" where
  "csprng_buffered output_len g output =
     (if cs_available g > 0 then do {
        let to_copy = (if output_len < cs_available g then output_len else cs_available g);
        bs \<leftarrow> mem_read (cs_buffer g) (64 - cs_available g) to_copy;
        o' \<leftarrow> mem_write output 0 bs;
        Some (to_copy, g\<lparr>cs_available := cs_available g - to_copy\<rparr>, o') }
      else Some (0, g, output))"

text \<open>The loop over the blocks.\<close>

function csprng_blocks :: "nat \<Rightarrow> nat \<Rightarrow> csprng_ctx \<Rightarrow> u8 list \<Rightarrow> (csprng_ctx \<times> u8 list) option" where
  "csprng_blocks output_len written g output =
     (if written < output_len then do {
        let g1 = chacha20_block g;
        let g2 = g1\<lparr>cs_bytes_generated := cs_bytes_generated g1 + 64\<rparr>;
        let remaining = output_len - written;
        let to_copy = (if remaining < 64 then remaining else 64);
        bs \<leftarrow> mem_read (cs_buffer g2) 0 to_copy;
        o' \<leftarrow> mem_write output written bs;
        csprng_blocks output_len (written + to_copy)
          (g2\<lparr>cs_available := (if to_copy < 64 then 64 - to_copy else 0)\<rparr>) o' }
      else Some (g, output))"
  by pat_completeness auto
termination by (relation "measure (\<lambda>(output_len, written, g, output). output_len - written)") auto

definition xy_csprng_generate ::
  "u8 list option \<Rightarrow> nat \<Rightarrow> csprng_ctx \<Rightarrow> (rng_rc \<times> csprng_ctx \<times> u8 list option) option" where
  "xy_csprng_generate output output_len g =
     (case output of
        None \<Rightarrow> Some (RNG_INVALID_PARAM, g, output)
      | Some out \<Rightarrow>
          if output_len = 0 then Some (RNG_INVALID_PARAM, g, output)
          else if \<not> cs_initialized g then Some (RNG_NOT_INITIALIZED, g, output)
          else do {
            (written, g1, o1) \<leftarrow> csprng_buffered output_len g out;
            (g2, o2) \<leftarrow> csprng_blocks output_len written g1 o1;
            Some (RNG_SUCCESS, g2, Some o2) })"

text \<open>The bytes of a variable of the machine, which is little-endian; unwritten when the generator refuses.\<close>

definition csprng_draw :: "nat \<Rightarrow> csprng_ctx \<Rightarrow> (u8 list \<times> csprng_ctx) option" where
  "csprng_draw k g =
     (case xy_csprng_generate (Some (replicate k 0)) k g of
        Some (RNG_SUCCESS, g', Some bs) \<Rightarrow> Some (bs, g')
      | _ \<Rightarrow> None)"

definition xy_csprng_uint32 :: "csprng_ctx \<Rightarrow> (u32 \<times> csprng_ctx) option" where
  "xy_csprng_uint32 g = do { (bs, g') \<leftarrow> csprng_draw 4 g; Some (word_rcat (rev bs), g') }"

definition xy_csprng_uint64 :: "csprng_ctx \<Rightarrow> (u64 \<times> csprng_ctx) option" where
  "xy_csprng_uint64 g = do { (bs, g') \<leftarrow> csprng_draw 8 g; Some (word_rcat (rev bs), g') }"

definition uniform_threshold :: "u32 \<Rightarrow> u32" where
  "uniform_threshold upper_bound = (0xFFFFFFFF - upper_bound + 1) mod upper_bound"

text \<open>The loop that draws until the value is not below the threshold; it may not return.\<close>

partial_function (option) uniform_loop :: "u32 \<Rightarrow> csprng_ctx \<Rightarrow> (u32 \<times> csprng_ctx) option" where
  "uniform_loop threshold g =
     (case xy_csprng_uint32 g of
        None \<Rightarrow> None
      | Some (v, g') \<Rightarrow> if v < threshold then uniform_loop threshold g' else Some (v, g'))"

definition xy_csprng_uniform :: "u32 \<Rightarrow> csprng_ctx \<Rightarrow> (u32 \<times> csprng_ctx) option" where
  "xy_csprng_uniform upper_bound g =
     (if upper_bound < 2 then Some (0, g)
      else do {
        (v, g') \<leftarrow> uniform_loop (uniform_threshold upper_bound) g;
        Some (v mod upper_bound, g') })"

definition xy_csprng_cleanup :: "csprng_ctx \<Rightarrow> csprng_ctx" where
  "xy_csprng_cleanup g = csprng_zero"

end
