(* ===== verification/Xy_Csprng_Correct.thy ===== *)
theory Xy_Csprng_Correct
  imports Xy_Csprng Xy_Chacha_Correct
begin

text \<open>
  The generator is the keystream of the ChaCha20 of the cipher library under the seed, whatever pieces it
  is drawn in, and bounded draws are in range and unbiased.
\<close>

subsection \<open>The stream\<close>

lemma mem_write_ex: "off + length xs \<le> length m \<Longrightarrow> \<exists>m'. mem_write m off xs = Some m' \<and> length m' = length m"
  by (simp add: mem_write_def)

lemma if_min: "(if a < b then a else b) = min a (b :: nat)"
  by (simp add: min_def)

lemma block_end: "0 < j \<Longrightarrow> j \<le> 64 \<Longrightarrow> (64 * q + j + 63) div 64 = Suc q"
  by (intro div_nat_eqI) simp_all

lemma block_rest: "j < 64 \<Longrightarrow> 64 * q + j + (64 - j) = 64 * (q + (1 :: nat))"
  by simp

lemma block_off:
  assumes "j + n < (64 :: nat)"
  shows "(64 * q + j + n) mod 64 = j + n" "(64 * q + j + n) div 64 = q"
  using assms by (simp_all add: add.assoc)

definition cs_stream :: "u32 list \<Rightarrow> nat \<Rightarrow> u8" where
  "cs_stream st i = csprng_output ((csprng_count ^^ (i div 64)) st) ! (i mod 64)"

text \<open>The generator that started with the words \<open>st\<close> and has handed out \<open>pos\<close> bytes.\<close>

definition cs_at :: "u32 list \<Rightarrow> nat \<Rightarrow> csprng_ctx \<Rightarrow> bool" where
  "cs_at st pos g \<longleftrightarrow> cs_initialized g \<and> length (cs_buffer g) = 64
    \<and> cs_state g = (csprng_count ^^ ((pos + 63) div 64)) st
    \<and> cs_available g = (64 - pos mod 64) mod 64
    \<and> (pos mod 64 \<noteq> 0 \<longrightarrow> cs_buffer g = csprng_output ((csprng_count ^^ (pos div 64)) st))"

lemma length_csprng_output [simp]: "length (csprng_output st) = 64"
  unfolding csprng_output_def Let_def by (subst length_concat_map [where n = 4]) simp_all

lemma cs_stream_block: "j < 64 \<Longrightarrow> cs_stream st (64 * q + j) = csprng_output ((csprng_count ^^ q) st) ! j"
  by (simp add: cs_stream_def)

lemma cs_stream_piece:
  assumes "j + k \<le> 64"
  shows "take k (drop j (csprng_output ((csprng_count ^^ q) st))) = map (cs_stream st) [64 * q + j..<64 * q + j + k]"
  using assms by (intro nth_equalityI) (simp_all add: cs_stream_block [symmetric] add.assoc)

lemma cs_at_block:
  assumes "cs_at st (64 * q) g" "0 < k" "k \<le> 64"
  shows "cs_at st (64 * q + k) ((chacha20_block g)\<lparr>cs_bytes_generated := b, cs_available := if k < 64 then 64 - k else 0\<rparr>)"
    "cs_buffer (chacha20_block g) = csprng_output ((csprng_count ^^ q) st)"
proof -
  have "(64 * q + 63) div 64 = q" by simp
  then have s: "cs_state g = (csprng_count ^^ q) st" using assms(1) by (simp add: cs_at_def)
  then show b: "cs_buffer (chacha20_block g) = csprng_output ((csprng_count ^^ q) st)" by (simp add: chacha20_block_def)
  have i: "cs_initialized g" using assms(1) by (simp add: cs_at_def)
  have "(64 * q + k + 63) div 64 = Suc q" using assms(2,3) by (simp add: div_nat_eqI)
  moreover have "k = 64 \<or> (64 * q + k) mod 64 = k \<and> (64 * q + k) div 64 = q \<and> k < 64" using assms(3) by auto
  ultimately show "cs_at st (64 * q + k) ((chacha20_block g)\<lparr>cs_bytes_generated := b, cs_available := if k < 64 then 64 - k else 0\<rparr>)"
    using s i assms(2) by (auto simp: cs_at_def chacha20_block_def)
qed

declare csprng_blocks.simps [simp del]

lemma csprng_blocks_spec:
  assumes "cs_at st (64 * q) g" "written \<le> n" "n \<le> length out"
  shows "\<exists>g' o'. csprng_blocks n written g out = Some (g', o') \<and> cs_at st (64 * q + (n - written)) g'
    \<and> mem_write out written (map (cs_stream st) [64 * q..<64 * q + (n - written)]) = Some o'"
  using assms
proof (induction "n - written" arbitrary: written q g out rule: less_induct)
  case less
  show ?case
  proof (cases "written < n")
    case False
    then show ?thesis using less.prems by (subst csprng_blocks.simps) (simp add: mem_write_def)
  next
    case True
    let ?k = "min (n - written) 64" and ?b = "cs_bytes_generated (chacha20_block g) + 64"
    have k: "0 < ?k" "?k \<le> 64" using True by simp_all
    let ?g = "(chacha20_block g)\<lparr>cs_bytes_generated := ?b, cs_available := if ?k < 64 then 64 - ?k else 0\<rparr>"
    let ?bs = "map (cs_stream st) [64 * q..<64 * q + ?k]"
    have at: "cs_at st (64 * q + ?k) ?g" and buf: "cs_buffer (chacha20_block g) = csprng_output ((csprng_count ^^ q) st)"
      using cs_at_block [OF less.prems(1) k] by blast+
    have bs: "mem_read (cs_buffer (chacha20_block g)) 0 ?k = Some ?bs"
      unfolding buf using cs_stream_piece [of 0 ?k q st] k(2) by (simp add: mem_read_def)
    have "written + ?k \<le> n" using True by linarith
    then have room: "written + length ?bs \<le> length out" using less.prems(3) by simp
    obtain o1 where o1: "mem_write out written ?bs = Some o1" "length o1 = length out"
      using mem_write_ex [OF room] by blast
    have step: "csprng_blocks n written g out = csprng_blocks n (written + ?k) ?g o1"
      using True bs o1(1) by (subst csprng_blocks.simps) (simp add: Let_def if_min)
    show ?thesis
    proof (cases "n - written \<le> 64")
      case True
      then have "written + ?k = n" "?k = n - written" using \<open>written < n\<close> by simp_all
      moreover have "csprng_blocks n n ?g o1 = Some (?g, o1)" by (subst csprng_blocks.simps) simp
      ultimately show ?thesis using step at o1(1) by (intro exI [of _ ?g] exI [of _ o1]) simp
    next
      case False
      then have k64: "?k = 64" by simp
      have "cs_at st (64 * (q + 1)) ?g" using at unfolding k64 by (simp add: add.commute)
      moreover have smaller: "n - (written + 64) < n - written" "written + 64 \<le> n" using False by linarith+
      ultimately obtain g' o' where g': "csprng_blocks n (written + 64) ?g o1 = Some (g', o')"
        "cs_at st (64 * (q + 1) + (n - (written + 64))) g'"
        "mem_write o1 (written + 64) (map (cs_stream st) [64 * (q + 1)..<64 * (q + 1) + (n - (written + 64))]) = Some o'"
        using less.hyps [of "written + 64" "q + 1" ?g o1] smaller o1 less.prems(3) k64 by auto
      have "64 * (q + 1) + (n - (written + 64)) = 64 * q + (n - written)" using False by simp
      moreover have "[64 * q..<64 * q + (n - written)] = [64 * q..<64 * q + 64] @ [64 * (q + 1)..<64 * q + (n - written)]"
        using upt_add_eq_append [of "64 * q" "64 * q + 64" "n - written - 64"] False by (simp add: add.commute)
      ultimately show ?thesis
        using step g' mem_write_append [OF o1(1)] k64 by (intro exI [of _ g'] exI [of _ o']) simp
    qed
  qed
qed

text \<open>Drawing \<open>n\<close> bytes hands out the next \<open>n\<close> bytes of the stream.\<close>

lemma generate_spec:
  assumes "cs_at st pos g" "0 < n" "n \<le> length out"
  shows "\<exists>g' o'. xy_csprng_generate (Some out) n g = Some (RNG_SUCCESS, g', Some o') \<and> cs_at st (pos + n) g'
    \<and> mem_write out 0 (map (cs_stream st) [pos..<pos + n]) = Some o'"
proof -
  let ?q = "pos div 64" and ?j = "pos mod 64"
  have pos: "pos = 64 * ?q + ?j" by simp
  have ini: "cs_initialized g" using assms(1) by (simp add: cs_at_def)
  show ?thesis
  proof (cases "?j = 0")
    case True
    then have at: "cs_at st (64 * ?q) g" and av: "cs_available g = 0" using assms(1) pos by (simp_all add: cs_at_def)
    show ?thesis
      using csprng_blocks_spec [OF at, of 0 n out] assms(2,3) ini av True pos
      by (auto simp: xy_csprng_generate_def csprng_buffered_def)
  next
    case False
    let ?a = "64 - ?j"
    have j: "?j < 64" by simp
    have av: "cs_available g = ?a" and buf: "cs_buffer g = csprng_output ((csprng_count ^^ ?q) st)"
      and s: "cs_state g = (csprng_count ^^ ((pos + 63) div 64)) st"
      using assms(1) False j by (simp_all add: cs_at_def)
    have q1: "(pos + 63) div 64 = Suc ?q" using block_end [of ?j ?q] False by simp
    let ?k = "min n ?a"
    let ?bs = "map (cs_stream st) [pos..<pos + ?k]"
    have bs: "mem_read (cs_buffer g) ?j ?k = Some ?bs"
      unfolding buf using cs_stream_piece [of ?j ?k ?q st] j pos by (simp add: mem_read_def)
    have "?k \<le> n" by linarith
    then have room: "0 + length ?bs \<le> length out" using assms(3) by simp
    obtain o1 where o1: "mem_write out 0 ?bs = Some o1" "length o1 = length out"
      using mem_write_ex [OF room] by blast
    let ?g = "g\<lparr>cs_available := ?a - ?k\<rparr>"
    have b: "csprng_buffered n g out = Some (?k, ?g, o1)"
      using av bs o1 j False unfolding csprng_buffered_def if_min by (simp add: Let_def)
    have at: "cs_at st (pos + ?k) ?g"
    proof (cases "n < ?a")
      case True
      then have e: "(pos + n) mod 64 = ?j + n" "(pos + n) div 64 = ?q" "(pos + n + 63) div 64 = Suc ?q"
        using block_off [of ?j n ?q] block_end [of "?j + n" ?q] assms(2) by (simp_all add: add.assoc)
      show ?thesis using True e s q1 ini buf j assms(2) False by (simp add: cs_at_def)
    next
      case ge: False
      then have "?k = 64 - ?j" by simp
      then have "pos + ?k = 64 * (?q + 1)" using block_rest [OF j, of ?q] by (simp only: pos [symmetric])
      then show ?thesis using s q1 ini buf ge by (simp add: cs_at_def)
    qed
    show ?thesis
    proof (cases "n \<le> ?a")
      case True
      then have "csprng_blocks n ?k ?g o1 = Some (?g, o1)" by (subst csprng_blocks.simps) simp
      then show ?thesis
        using b at o1 True ini assms(2) by (simp add: xy_csprng_generate_def)
    next
      case gt: False
      have k: "?k = ?a" "pos + ?a = 64 * (?q + 1)"
        using gt block_rest [OF j, of ?q] by (simp, simp only: pos [symmetric])
      obtain g' o' where g': "csprng_blocks n ?a ?g o1 = Some (g', o')" "cs_at st (64 * (?q + 1) + (n - ?a)) g'"
        "mem_write o1 ?a (map (cs_stream st) [64 * (?q + 1)..<64 * (?q + 1) + (n - ?a)]) = Some o'"
        using csprng_blocks_spec [of st "?q + 1" ?g ?a n o1] at k gt o1(2) assms(3) by auto
      have e: "64 * (?q + 1) + (n - ?a) = pos + n" using gt unfolding k(2) [symmetric] by simp
      have "[pos..<pos + n] = [pos..<pos + ?a] @ [64 * (?q + 1)..<pos + n]"
        using upt_add_eq_append [of pos "pos + ?a" "n - ?a"] gt k(2) by (simp add: add.commute)
      moreover have "mem_write out 0 (map (cs_stream st) [pos..<pos + ?a]) = Some o1" using o1(1) k(1) by simp
      ultimately have "mem_write out 0 (map (cs_stream st) [pos..<pos + n]) = Some o'"
        using mem_write_append [of out 0 "map (cs_stream st) [pos..<pos + ?a]" o1] g'(3) unfolding e by simp
      then show ?thesis
        using b g' k(1) e ini assms(2) by (simp add: xy_csprng_generate_def)
    qed
  qed
qed


subsection \<open>The cipher library makes the same stream\<close>

lemma csprng_round_eq: "csprng_round_at = chacha_round_at"
  by (intro ext) (simp add: csprng_round_at_def chacha_round_at_def QUARTERROUND_def prv_chacha20_quarter_round_def)

lemma byte_mask: "(ucast (w AND 0xff) :: u8) = ucast (w :: u32)"
proof (rule u8_eqI)
  fix i :: nat
  assume "i < 8"
  then show "bit (ucast (w AND 0xff) :: u8) i = bit (ucast w :: u8) i"
    using bit_mask_iff [of 8 i, where 'a = u32] by (simp add: bit_simps mask_eq_exp_minus_1)
qed

lemma csprng_output_block: "csprng_output st = prv_chacha20_block st"
proof -
  have "csprng_double_round = chacha_double_round"
    by (intro ext) (simp add: csprng_double_round_def chacha_double_round_def csprng_round_eq)
  moreover have "[ucast w, ucast (drop_bit 8 w), ucast (drop_bit 16 w), ucast (drop_bit 24 w)] = prv_store32_le w" for w
    by (simp add: prv_store32_le_def byte_mask)
  ultimately show ?thesis by (simp add: csprng_output_def prv_chacha20_block_def Let_def comp_def)
qed

text \<open>Below \<open>2 ^ 32\<close> blocks the carry into word 13 does not happen, and the counter is that of the cipher.\<close>

lemma csprng_count_pow:
  assumes "length st = 16" "st ! 12 = 0" "k < 2 ^ 32"
  shows "(csprng_count ^^ k) st = st[12 := of_nat k]"
  using assms(3)
proof (induction k)
  case 0
  then show ?case using list_update_id [of st 12] assms(2) by simp
next
  case (Suc k)
  then have ih: "(csprng_count ^^ k) st = st[12 := of_nat k]" by simp
  have "(of_nat (Suc k) :: u32) \<noteq> 0"
  proof
    assume "(of_nat (Suc k) :: u32) = 0"
    then have "unat (of_nat (Suc k) :: u32) = 0" by simp
    then show False using unat_of_nat_u32 [of "Suc k"] Suc.prems by simp
  qed
  moreover have "csprng_count (st[12 := of_nat k]) = (if (of_nat (Suc k) :: u32) = 0 then st[12 := of_nat (Suc k), 13 := st ! 13 + 1]
      else st[12 := of_nat (Suc k)])"
    using assms(1) by (simp add: csprng_count_def Let_def add.commute)
  ultimately show ?case using ih by simp
qed

lemma cs_stream_chacha:
  assumes "length st = 16" "st ! 12 = 0" "i < 64 * 2 ^ 32"
  shows "cs_stream st i = chacha_stream st i"
proof -
  have "i div 64 < 2 ^ 32" using assms(3) by (simp add: div_less_iff_less_mult)
  then show ?thesis using assms by (simp add: cs_stream_def chacha_stream_def csprng_count_pow csprng_output_block)
qed

lemma csprng_words_eq: "csprng_words s is = chacha_words s (map (\<lambda>i. i * 4) is)"
  by (induction "is") (simp_all add: csprng_word_def prv_load32_le_def)

lemma chacha_words_take: "\<forall>i \<in> set is. i + 4 \<le> n \<Longrightarrow> chacha_words (take n s) is = chacha_words s is"
proof (induction "is")
  case (Cons i "is")
  have "mem_load (take n s) j = mem_load s j" if "j < n" for j using that by (auto simp: mem_load_def)
  then show ?case using Cons by (simp add: prv_load32_le_def)
qed simp

text \<open>A sequence of requests for the given numbers of bytes, and everything it returned.\<close>

fun generate_all :: "nat list \<Rightarrow> csprng_ctx \<Rightarrow> (u8 list \<times> csprng_ctx) option" where
  "generate_all [] g = Some ([], g)"
| "generate_all (n # ns) g = do {
     (bs, g') \<leftarrow> csprng_draw n g;
     (rest, g'') \<leftarrow> generate_all ns g';
     Some (bs @ rest, g'') }"

lemma draw_spec:
  assumes "cs_at st pos g" "0 < n"
  shows "\<exists>g'. csprng_draw n g = Some (map (cs_stream st) [pos..<pos + n], g') \<and> cs_at st (pos + n) g'"
proof -
  obtain g' o' where g': "xy_csprng_generate (Some (replicate n 0)) n g = Some (RNG_SUCCESS, g', Some o')"
    "cs_at st (pos + n) g'" "mem_write (replicate n 0) 0 (map (cs_stream st) [pos..<pos + n]) = Some o'"
    using generate_spec [OF assms, of "replicate n 0"] by auto
  have "o' = map (cs_stream st) [pos..<pos + n]" using g'(3) by (simp add: mem_write_def)
  then show ?thesis using g'(1,2) by (simp add: csprng_draw_def)
qed

lemma generate_all_spec:
  assumes "cs_at st pos g" "0 \<notin> set ns"
  shows "\<exists>g'. generate_all ns g = Some (map (cs_stream st) [pos..<pos + sum_list ns], g') \<and> cs_at st (pos + sum_list ns) g'"
  using assms
proof (induction ns arbitrary: pos g)
  case (Cons n ns)
  then obtain g1 where g1: "csprng_draw n g = Some (map (cs_stream st) [pos..<pos + n], g1)" "cs_at st (pos + n) g1"
    using draw_spec [of st pos g n] by auto
  then obtain g2 where "generate_all ns g1 = Some (map (cs_stream st) [pos + n..<pos + n + sum_list ns], g2)"
    "cs_at st (pos + n + sum_list ns) g2" using Cons.IH [of "pos + n" g1] Cons.prems by auto
  moreover have "[pos..<pos + (n + sum_list ns)] = [pos..<pos + n] @ [pos + n..<pos + n + sum_list ns]"
    using upt_add_eq_append [of pos "pos + n" "sum_list ns"] by (simp add: add.assoc)
  ultimately show ?case using g1 by (simp add: add.assoc)
qed simp

lemma load32_prefix: "length ys = n \<Longrightarrow> prv_load32_le (ys @ xs) (n + i) = prv_load32_le xs i"
  by (simp add: prv_load32_le_def mem_load_def nth_append add.assoc)

lemma load32_part:
  assumes "i + 4 \<le> n"
  shows "prv_load32_le (take n (drop k s)) i = prv_load32_le s (k + i)"
proof -
  have "mem_load (take n (drop k s)) j = mem_load s (k + j)" if "j < n" for j using that by (auto simp: mem_load_def)
  then show ?thesis using assms by (simp add: prv_load32_le_def add.assoc)
qed

lemma chacha_magic_words: "chacha_words chacha_magic [0, 4, 8, 12] = Some CHACHA_CONSTANTS"
  by code_simp

text \<open>The nonce of the cipher for a seed: zeros, and the bytes of the seed behind the key if there are enough.\<close>

definition seed_nonce :: "u8 list \<Rightarrow> nat \<Rightarrow> u8 list" where
  "seed_nonce seed seed_len = [0, 0, 0, 0] @ (if 40 \<le> seed_len then take 8 (drop 32 seed) else replicate 8 0)"

lemma csprng_init_spec:
  assumes "seed_len \<le> length seed" "32 \<le> seed_len" "seed_len \<le> 40"
  shows "\<exists>st g1. xy_csprng_init (Some seed) seed_len g = Some (RNG_SUCCESS, g1) \<and> cs_state g1 = st \<and> length st = 16 \<and> st ! 12 = 0
    \<and> cs_initialized g1 \<and> cs_available g1 = 0 \<and> cs_buffer g1 = cs_buffer g
    \<and> xy_chacha20_init (Some c) (Some (take 32 seed)) (Some (seed_nonce seed seed_len)) 0
        = Some (CHACHA_SUCCESS, Some (c\<lparr>cc_state := st, cc_counter := 0, cc_pos := 64\<rparr>))"
proof -
  obtain ks where ks: "chacha_words seed [0, 4, 8, 12, 16, 20, 24, 28] = Some ks" "length ks = 8"
    using chacha_words_total [of "[0, 4, 8, 12, 16, 20, 24, 28]" seed] assms(1,2) by auto
  have key: "chacha_words (take 32 seed) [0, 4, 8, 12, 16, 20, 24, 28] = Some ks"
    using chacha_words_take [of "[0, 4, 8, 12, 16, 20, 24, 28]" 32 seed] ks(1) by simp
  have zeros: "prv_load32_le ([0, 0, 0, 0] @ xs) 0 = Some 0" for xs
    by (simp add: prv_load32_le_def mem_load_def)
  have tail: "prv_load32_le ([0, 0, 0, 0] @ xs) 4 = prv_load32_le xs 0" "prv_load32_le ([0, 0, 0, 0] @ xs) 8 = prv_load32_le xs 4" for xs
    using load32_prefix [of "[0, 0, 0, 0]" 4 xs 0] load32_prefix [of "[0, 0, 0, 0]" 4 xs 4] by simp_all
  have none: "prv_load32_le (replicate 8 0) 0 = Some 0" "prv_load32_le (replicate 8 0) 4 = Some 0"
    by (simp_all add: prv_load32_le_def mem_load_def)
  obtain n1 n2 where n: "(if 40 \<le> seed_len then csprng_words seed [8, 9] else Some [0, 0]) = Some [n1, n2]"
    "chacha_words (seed_nonce seed seed_len) [0, 4, 8] = Some [0, n1, n2]"
  proof (cases "40 \<le> seed_len")
    case True
    obtain n1 n2 where "prv_load32_le seed 32 = Some n1" "prv_load32_le seed 36 = Some n2"
      using load32_total [of 32 seed] load32_total [of 36 seed] True assms(1) by auto
    then show ?thesis
      using that True load32_part [of 0 8 32 seed] load32_part [of 4 8 32 seed]
      by (simp add: seed_nonce_def zeros [simplified] tail [simplified] csprng_words_eq)
  next
    case False
    then show ?thesis using that by (simp add: seed_nonce_def zeros [simplified] tail [simplified] none)
  qed
  show ?thesis
    using ks n(1) assms(2,3) key chacha_magic_words n(2)
    by (simp add: xy_csprng_init_def csprng_words_eq xy_chacha20_init_def CHACHA_CONSTANTS_def nth_append
        del: chacha_words.simps)
qed

text \<open>
  C32. Seeded with 32 to 40 bytes, the generator returns, in whatever pieces it is asked for up to \<open>2 ^ 38\<close> bytes,
  the keystream that the cipher library makes with the first 32 bytes of the seed as its key and the next
  eight, if there are as many, as the end of its nonce.
\<close>

theorem csprng_is_chacha:
  assumes "seed_len \<le> length seed" "32 \<le> seed_len" "seed_len \<le> 40" "length (cs_buffer g) = 64"
    and "length (cc_keystream c) = 64" "0 \<notin> set ns" "sum_list ns \<le> 64 * 2 ^ 32"
  shows "\<exists>g1 g2 c1 c2 bs. xy_csprng_init (Some seed) seed_len g = Some (RNG_SUCCESS, g1)
    \<and> generate_all ns g1 = Some (bs, g2)
    \<and> xy_chacha20_init (Some c) (Some (take 32 seed)) (Some (seed_nonce seed seed_len)) 0 = Some (CHACHA_SUCCESS, Some c1)
    \<and> xy_chacha20_crypt (Some c1) (replicate (sum_list ns) 0) (Some 0) (Some 0) (sum_list ns)
        = Some (CHACHA_SUCCESS, Some c2, bs)"
proof -
  let ?n = "sum_list ns"
  obtain st g1 where g1: "xy_csprng_init (Some seed) seed_len g = Some (RNG_SUCCESS, g1)" "cs_state g1 = st" "length st = 16"
    "st ! 12 = 0" "cs_initialized g1" "cs_available g1 = 0" "cs_buffer g1 = cs_buffer g"
    and c1: "xy_chacha20_init (Some c) (Some (take 32 seed)) (Some (seed_nonce seed seed_len)) 0
        = Some (CHACHA_SUCCESS, Some (c\<lparr>cc_state := st, cc_counter := 0, cc_pos := 64\<rparr>))"
    using csprng_init_spec [OF assms(1-3), of g c] by blast
  let ?c = "c\<lparr>cc_state := st, cc_counter := 0, cc_pos := 64\<rparr>"
  have "cs_at st 0 g1" using g1 assms(4) by (simp add: cs_at_def)
  then obtain g2 where g2: "generate_all ns g1 = Some (map (cs_stream st) [0..<?n], g2)"
    using generate_all_spec [of st 0 g1 ns] assms(6) by auto
  have "cc_ok ?c" using g1(3) assms(5) by (simp add: cc_ok_def)
  then obtain m where m: "chacha_crypt_loop ?c (replicate ?n 0) 0 0 [0..<?n] = Some (snd (cc_bytes ?n ?c), m)"
    "mem_write (replicate ?n 0) 0 (map2 (XOR) (take ?n (drop 0 (replicate ?n 0))) (fst (cc_bytes ?n ?c))) = Some m"
    using chacha_crypt_loop_spec [of ?c 0 0 ?n "replicate ?n 0" 0] by auto
  have "fst (cc_bytes ?n ?c) = map (chacha_stream st) [0..<?n]" using cc_bytes_stream [of ?c ?n] g1(3) by simp
  moreover have "map2 (XOR) (replicate ?n 0) bs = bs" if "length bs = ?n" for bs :: "u8 list"
    using that by (intro nth_equalityI) simp_all
  ultimately have "m = map (chacha_stream st) [0..<?n]" using m(2) by (simp add: mem_write_def)
  also have "\<dots> = map (cs_stream st) [0..<?n]"
    using cs_stream_chacha [OF g1(3,4)] assms(7) by simp
  finally show ?thesis using g1(1) g2 c1 m(1) by (simp add: xy_chacha20_crypt_def)
qed

theorem csprng_is_chacha_witness:
  "\<exists>g1 g2 c1 c2 bs. xy_csprng_init (Some (replicate 40 5)) 40 csprng_zero = Some (RNG_SUCCESS, g1)
    \<and> generate_all [3, 70, 4] g1 = Some (bs, g2)
    \<and> xy_chacha20_init (Some chacha_local) (Some (replicate 32 5)) (Some (seed_nonce (replicate 40 5) 40)) 0 = Some (CHACHA_SUCCESS, Some c1)
    \<and> xy_chacha20_crypt (Some c1) (replicate 77 0) (Some 0) (Some 0) 77 = Some (CHACHA_SUCCESS, Some c2, bs)"
  using csprng_is_chacha [of 40 "replicate 40 5" csprng_zero chacha_local "[3, 70, 4]"]
  by (simp add: csprng_zero_def chacha_local_def del: generate_all.simps)

subsection \<open>Bounded draws\<close>

lemma card_residue:
  assumes "r < b"
  shows "card {m. m < b * q \<and> m mod b = r} = (q :: nat)"
proof -
  have "{m. m < b * q \<and> m mod b = r} = (\<lambda>k. b * k + r) ` {..<q}" (is "?A = ?B")
  proof
    show "?A \<subseteq> ?B"
    proof
      fix m assume "m \<in> ?A"
      then have "m = b * (m div b) + r" "m div b < q"
        using assms by (auto simp: less_mult_imp_div_less mult.commute)
      then show "m \<in> ?B" by blast
    qed
    show "?B \<subseteq> ?A"
    proof
      fix m assume "m \<in> ?B"
      then obtain k where k: "k < q" "m = b * k + r" by blast
      then have "b * Suc k \<le> b * q" by (intro mult_le_mono2) simp
      then show "m \<in> ?A" using k assms by simp
    qed
  qed
  moreover have "inj_on (\<lambda>k. b * k + r) {..<q}" using assms by (auto simp: inj_on_def)
  ultimately show ?thesis by (simp add: card_image)
qed

lemma card_residue_from:
  assumes "r < b" "t < (b :: nat)"
  shows "card {n. t \<le> n \<and> n < t + b * q \<and> n mod b = r} = q"
proof -
  let ?r = "(r + (b - t)) mod b"
  have shift: "(t + m) mod b = r \<longleftrightarrow> m mod b = ?r" for m
  proof
    assume "(t + m) mod b = r"
    then have "?r = ((t + m) mod b + (b - t)) mod b" by simp
    also have "\<dots> = (t + m + (b - t)) mod b" by (rule mod_add_left_eq)
    also have "\<dots> = (m + b) mod b" using assms(2) by (simp add: add.commute add.left_commute)
    finally show "m mod b = ?r" by simp
  next
    assume "m mod b = ?r"
    then have "(t + m) mod b = (t + (r + (b - t))) mod b" by (metis mod_add_right_eq)
    also have "\<dots> = (r + b) mod b" using assms(2) by (simp add: add.commute add.left_commute)
    finally show "(t + m) mod b = r" using assms(1) by simp
  qed
  have "{n. t \<le> n \<and> n < t + b * q \<and> n mod b = r} = (\<lambda>m. t + m) ` {m. m < b * q \<and> m mod b = ?r}" (is "?A = ?B")
  proof
    show "?A \<subseteq> ?B"
    proof
      fix n assume n: "n \<in> ?A"
      then obtain m where "n = t + m" by (auto simp: le_iff_add)
      then show "n \<in> ?B" using n shift by auto
    qed
    show "?B \<subseteq> ?A" using shift by auto
  qed
  moreover have "inj_on (\<lambda>m. t + m) {m. m < b * q \<and> m mod b = ?r}" by (simp add: inj_on_def)
  ultimately show ?thesis using card_residue [of ?r b q] assms by (simp add: card_image)
qed


lemma uniform_threshold_value:
  assumes "2 \<le> b"
  shows "unat (uniform_threshold b) = 2 ^ 32 mod unat b"
proof -
  have ub: "2 \<le> unat b" using assms by (simp add: word_le_nat_alt)
  have d: "unat (0xFFFFFFFF - b) = 4294967295 - unat b"
  proof -
    have "unat b \<le> 4294967295" using unat_u32_less [of b] by linarith
    then show ?thesis by (subst unat_sub) (simp_all add: word_le_nat_alt)
  qed
  have "4294967295 - unat b + 1 < 4294967296" using ub by linarith
  then have "unat (0xFFFFFFFF - b + 1) = unat (0xFFFFFFFF - b) + unat (1 :: u32)"
    using d by (intro unat_add_no_wrap) simp
  also have "\<dots> = 4294967295 - unat b + 1" unfolding d by simp
  also have "\<dots> = 4294967296 - unat b" using ub unat_u32_less [of b] by linarith
  finally have "unat (0xFFFFFFFF - b + 1) = 2 ^ 32 - unat b" by simp
  then have "unat (uniform_threshold b) = (2 ^ 32 - unat b) mod unat b"
    by (simp only: uniform_threshold_def unat_mod_distrib)
  also have "\<dots> = 2 ^ 32 mod unat b"
  proof -
    have "unat b \<le> 4294967296" using unat_u32_less [of b] by linarith
    then show ?thesis using le_mod_geq [of "unat b" "2 ^ 32"] by simp
  qed
  finally show ?thesis .
qed

lemma card_u32: "card {v :: u32. P (unat v)} = card {n. n < 2 ^ 32 \<and> P n}"
proof -
  have "unat ` {v :: u32. P (unat v)} = {n. n < 2 ^ 32 \<and> P n}" (is "?A = ?B")
  proof
    show "?A \<subseteq> ?B" by (auto intro: unat_u32_less [simplified])
    show "?B \<subseteq> ?A"
    proof
      fix n assume n: "n \<in> ?B"
      then have "unat (of_nat n :: u32) = n" using unat_of_nat_u32 [of n] by simp
      then show "n \<in> ?A" using n by (metis (mono_tags, lifting) image_eqI mem_Collect_eq)
    qed
  qed
  moreover have "inj_on unat {v :: u32. P (unat v)}" by (simp add: inj_on_def word_unat_eq_iff)
  ultimately show ?thesis by (metis card_image)
qed

text \<open>A sequence of draws of 32 bits.\<close>

fun draw_words :: "nat \<Rightarrow> csprng_ctx \<Rightarrow> (u32 list \<times> csprng_ctx) option" where
  "draw_words 0 g = Some ([], g)"
| "draw_words (Suc n) g = do {
     (v, g') \<leftarrow> xy_csprng_uint32 g;
     (vs, g'') \<leftarrow> draw_words n g';
     Some (v # vs, g'') }"

lemma uniform_loop_draws:
  assumes "draw_words (Suc (length vs)) g = Some (vs @ [v], g')" "\<forall>x \<in> set vs. x < t" "\<not> v < t"
  shows "uniform_loop t g = Some (v, g')"
  using assms
proof (induction vs arbitrary: g)
  case Nil
  then show ?case by (subst uniform_loop.simps) (auto split: Option.bind_splits)
next
  case (Cons x vs)
  then obtain g1 where "xy_csprng_uint32 g = Some (x, g1)" "draw_words (Suc (length vs)) g1 = Some (vs @ [v], g')"
    by (auto split: Option.bind_splits)
  then show ?case using Cons by (subst uniform_loop.simps) simp
qed

text \<open>
  C33. A bound below 2 gives 0. For any other bound the values that the loop accepts contain every remainder
  equally often, and \<open>xy_csprng_uniform\<close> returns the remainder of the first draw that is accepted, which
  is below the bound, however many draws were refused before it.
\<close>

theorem csprng_uniform_unbiased:
  fixes b :: u32
  shows "(b < 2 \<longrightarrow> xy_csprng_uniform b g = Some (0, g))
    \<and> (2 \<le> b \<longrightarrow>
        (\<forall>r < b. card {v. \<not> v < uniform_threshold b \<and> v mod b = r} = 2 ^ 32 div unat b)
        \<and> (\<forall>vs v g'. draw_words (Suc (length vs)) g = Some (vs @ [v], g') \<and> (\<forall>x \<in> set vs. x < uniform_threshold b)
             \<and> \<not> v < uniform_threshold b \<longrightarrow>
            xy_csprng_uniform b g = Some (v mod b, g') \<and> v mod b < b))"
proof (cases "b < 2")
  case True
  then show ?thesis by (auto simp: xy_csprng_uniform_def)
next
  case False
  then have b: "2 \<le> b" by simp
  then have ub: "2 \<le> unat b" by (simp add: word_le_nat_alt)
  have "card {v. \<not> v < uniform_threshold b \<and> v mod b = r} = 2 ^ 32 div unat b" if "r < b" for r
  proof -
    let ?t = "2 ^ 32 mod unat b"
    have "{v. \<not> v < uniform_threshold b \<and> v mod b = r} = {v. ?t \<le> unat v \<and> unat v mod unat b = unat r}"
      using uniform_threshold_value [OF b] by (auto simp: word_less_nat_alt unat_mod_distrib word_unat_eq_iff)
    then have "card {v. \<not> v < uniform_threshold b \<and> v mod b = r}
        = card {n. n < 2 ^ 32 \<and> ?t \<le> n \<and> n mod unat b = unat r}"
      using card_u32 [of "\<lambda>n. ?t \<le> n \<and> n mod unat b = unat r"] by simp
    also have "{n. n < 2 ^ 32 \<and> ?t \<le> n \<and> n mod unat b = unat r}
        = {n. ?t \<le> n \<and> n < ?t + unat b * (2 ^ 32 div unat b) \<and> n mod unat b = unat r}"
      by (simp only: mod_mult_div_eq) blast
    also have "card \<dots> = 2 ^ 32 div unat b"
      using that ub by (intro card_residue_from) (simp_all add: word_less_nat_alt)
    finally show ?thesis .
  qed
  moreover have "v mod b < b" for v
    using ub by (simp add: word_less_nat_alt unat_mod_distrib)
  ultimately show ?thesis using b by (auto simp: xy_csprng_uniform_def uniform_loop_draws simp del: draw_words.simps)
qed

theorem csprng_uniform_unbiased_witness:
  "card {v :: u32. \<not> v < uniform_threshold 6 \<and> v mod 6 = 3} = 715827882
    \<and> xy_csprng_uniform 1 csprng_zero = Some (0, csprng_zero)
    \<and> fst (the (xy_csprng_uniform 10 (csprng_zero\<lparr>cs_buffer := replicate 64 7, cs_available := 4, cs_initialized := True\<rparr>))) = 3"
proof -
  have draw: "draw_words 1 (csprng_zero\<lparr>cs_buffer := replicate 64 7, cs_available := 4, cs_initialized := True\<rparr>)
      = Some ([117901063], csprng_zero\<lparr>cs_buffer := replicate 64 7, cs_initialized := True\<rparr>)"
    by code_simp
  show ?thesis
    using csprng_uniform_unbiased [of 6 csprng_zero] csprng_uniform_unbiased [of 1 csprng_zero]
      csprng_uniform_unbiased [of 10 "csprng_zero\<lparr>cs_buffer := replicate 64 7, cs_available := 4, cs_initialized := True\<rparr>"]
      draw
    by (auto simp: uniform_threshold_def dest!: spec [of _ "[]"])
qed

end
