(* ===== verification/Blake2_Rfc7693.thy ===== *)
theory Blake2_Rfc7693
  imports Complex_Main Xy_Prelude
begin

text \<open>
  BLAKE2 as RFC 7693 defines it, written from the RFC and independent of the code: the parameters of
  section 2.1, the initial values of section 2.6, the message schedule of section 2.7, the mixing
  function \<open>G\<close>, the compression function \<open>F\<close> and the hash of section 3. The two hashes differ in the
  width of the word, the number of rounds and the rotations only.
\<close>

record rfc_params =
  rp_rounds :: nat
  rp_r1 :: nat
  rp_r2 :: nat
  rp_r3 :: nat
  rp_r4 :: nat

definition RFC_BLAKE2B :: rfc_params where
  "RFC_BLAKE2B = \<lparr>rp_rounds = 12, rp_r1 = 32, rp_r2 = 24, rp_r3 = 16, rp_r4 = 63\<rparr>"

definition RFC_BLAKE2S :: rfc_params where
  "RFC_BLAKE2S = \<lparr>rp_rounds = 10, rp_r1 = 16, rp_r2 = 12, rp_r3 = 8, rp_r4 = 7\<rparr>"

text \<open>The initial values: the fractional parts of the square roots of the first eight primes, in \<open>w\<close> bits.\<close>

definition rfc_iv :: "'a::len word list" where
  "rfc_iv = map (\<lambda>p. of_int \<lfloor>2 ^ LENGTH('a) * frac (sqrt (real p))\<rfloor>) [2, 3, 5, 7, 11, 13, 17, 19]"

definition rfc_sigma :: "nat list list" where
  "rfc_sigma =
     [[0, 1, 2, 3, 4, 5, 6, 7, 8, 9, 10, 11, 12, 13, 14, 15],
      [14, 10, 4, 8, 9, 15, 13, 6, 1, 12, 0, 2, 11, 7, 5, 3],
      [11, 8, 12, 0, 5, 2, 15, 13, 10, 14, 3, 6, 7, 1, 9, 4],
      [7, 9, 3, 1, 13, 12, 11, 14, 2, 6, 5, 10, 4, 0, 15, 8],
      [9, 0, 5, 7, 2, 4, 10, 15, 14, 1, 11, 12, 6, 8, 3, 13],
      [2, 12, 6, 10, 0, 11, 8, 3, 4, 13, 7, 5, 15, 14, 1, 9],
      [12, 5, 1, 15, 14, 13, 4, 10, 0, 7, 6, 3, 9, 2, 8, 11],
      [13, 11, 7, 14, 12, 1, 3, 9, 5, 0, 15, 4, 8, 6, 2, 10],
      [6, 15, 14, 9, 11, 3, 0, 8, 12, 2, 13, 7, 1, 4, 10, 5],
      [10, 2, 8, 4, 7, 6, 1, 5, 15, 11, 9, 14, 3, 12, 13, 0]]"

text \<open>
  Section 3.1, the mixing function: eight assignments to the working vector, each either
  \<open>v[i] := v[i] + v[j] + x\<close> or \<open>v[i] := (v[i] ^ v[j]) >>> r\<close>.
\<close>

definition rfc_add :: "nat \<Rightarrow> nat \<Rightarrow> 'a::len word \<Rightarrow> 'a word list \<Rightarrow> 'a word list" where
  "rfc_add i j x v = v[i := v ! i + v ! j + x]"

definition rfc_rot :: "nat \<Rightarrow> nat \<Rightarrow> nat \<Rightarrow> 'a::len word list \<Rightarrow> 'a word list" where
  "rfc_rot i j r v = v[i := word_rotr r (v ! i XOR v ! j)]"

definition rfc_G :: "rfc_params \<Rightarrow> nat \<Rightarrow> nat \<Rightarrow> nat \<Rightarrow> nat \<Rightarrow> 'a::len word \<Rightarrow> 'a word \<Rightarrow> 'a word list \<Rightarrow> 'a word list" where
  "rfc_G P a b c d x y v = fold (\<lambda>step. step)
     [rfc_add a b x, rfc_rot d a (rp_r1 P), rfc_add c d 0, rfc_rot b c (rp_r2 P),
      rfc_add a b y, rfc_rot d a (rp_r3 P), rfc_add c d 0, rfc_rot b c (rp_r4 P)] v"

text \<open>Section 3.2, a round over the row \<open>s\<close> of the schedule and the compression function.\<close>

definition rfc_round :: "rfc_params \<Rightarrow> 'a::len word list \<Rightarrow> nat list \<Rightarrow> 'a word list \<Rightarrow> 'a word list" where
  "rfc_round P m s v =
     (let v = rfc_G P 0 4 8 12 (m ! (s ! 0)) (m ! (s ! 1)) v;
          v = rfc_G P 1 5 9 13 (m ! (s ! 2)) (m ! (s ! 3)) v;
          v = rfc_G P 2 6 10 14 (m ! (s ! 4)) (m ! (s ! 5)) v;
          v = rfc_G P 3 7 11 15 (m ! (s ! 6)) (m ! (s ! 7)) v;
          v = rfc_G P 0 5 10 15 (m ! (s ! 8)) (m ! (s ! 9)) v;
          v = rfc_G P 1 6 11 12 (m ! (s ! 10)) (m ! (s ! 11)) v;
          v = rfc_G P 2 7 8 13 (m ! (s ! 12)) (m ! (s ! 13)) v
      in rfc_G P 3 4 9 14 (m ! (s ! 14)) (m ! (s ! 15)) v)"

definition rfc_F :: "rfc_params \<Rightarrow> 'a::len word list \<Rightarrow> 'a word list \<Rightarrow> nat \<Rightarrow> bool \<Rightarrow> 'a word list" where
  "rfc_F P h m t f =
     (let v = h @ rfc_iv;
          v = v[12 := v ! 12 XOR of_nat (t mod 2 ^ LENGTH('a))];
          v = v[13 := v ! 13 XOR of_nat (t div 2 ^ LENGTH('a))];
          v = (if f then v[14 := v ! 14 XOR - 1] else v);
          v = foldl (\<lambda>v i. rfc_round P m (rfc_sigma ! (i mod 10)) v) v [0..<rp_rounds P]
      in map (\<lambda>i. h ! i XOR v ! i XOR v ! (i + 8)) [0..<8])"

text \<open>Words and bytes, the least significant byte first, and a block of sixteen words.\<close>

definition rfc_word :: "u8 list \<Rightarrow> 'a::len word" where
  "rfc_word bs = horner_sum ucast 256 bs"

definition rfc_bytes :: "'a::len word \<Rightarrow> u8 list" where
  "rfc_bytes w = map (\<lambda>i. of_nat (unat w div 256 ^ i)) [0..<LENGTH('a) div 8]"

definition rfc_pad :: "nat \<Rightarrow> u8 list \<Rightarrow> u8 list" where
  "rfc_pad bb b = b @ replicate (bb - length b) 0"

definition rfc_block :: "u8 list \<Rightarrow> 'a::len word list" where
  "rfc_block b = (let n = LENGTH('a) div 8 in map (\<lambda>i. rfc_word (take n (drop (i * n) (rfc_pad (16 * n) b)))) [0..<16])"

text \<open>
  Section 3.3. The blocks are the padded key, when there is one, and the padded message; without both
  there is one block of zeros.
\<close>

definition rfc_data :: "u8 list \<Rightarrow> u8 list \<Rightarrow> 'a::len word list list" where
  "rfc_data key m =
     (let bb = 16 * (LENGTH('a) div 8)
      in if key = [] \<and> m = [] then [rfc_block []]
         else (if key = [] then [] else [rfc_block key])
           @ map (\<lambda>i. rfc_block (take bb (drop (i * bb) m))) [0..<(length m + bb - 1) div bb])"

definition rfc7693_state :: "rfc_params \<Rightarrow> nat \<Rightarrow> u8 list \<Rightarrow> u8 list \<Rightarrow> 'a::len word list" where
  "rfc7693_state P nn key m =
     (let bb = 16 * (LENGTH('a) div 8);
          d = rfc_data key m;
          h = rfc_iv[0 := rfc_iv ! 0 XOR 0x01010000 XOR push_bit 8 (of_nat (length key)) XOR of_nat nn];
          h = foldl (\<lambda>h i. rfc_F P h (d ! i) ((i + 1) * bb) False) h [0..<length d - 1]
      in rfc_F P h (d ! (length d - 1)) (if key = [] then length m else length m + bb) True)"

definition rfc_blake2b :: "nat \<Rightarrow> u8 list \<Rightarrow> u8 list \<Rightarrow> u8 list" where
  "rfc_blake2b nn key m = take nn (concat (map rfc_bytes (rfc7693_state RFC_BLAKE2B nn key m :: u64 list)))"

definition rfc_blake2s :: "nat \<Rightarrow> u8 list \<Rightarrow> u8 list \<Rightarrow> u8 list" where
  "rfc_blake2s nn key m = take nn (concat (map rfc_bytes (rfc7693_state RFC_BLAKE2S nn key m :: u32 list)))"

subsection \<open>The initial values as numbers\<close>

lemma frac_sqrt_bits:
  assumes "(k * 2 ^ w + v) ^ 2 \<le> p * 2 ^ (2 * w)" "p * 2 ^ (2 * w) < (k * 2 ^ w + v + 1) ^ 2" "v < 2 ^ w"
  shows "\<lfloor>2 ^ w * frac (sqrt (real p))\<rfloor> = int v"
proof -
  let ?x = "2 ^ w * sqrt (real p)"
  have sq: "?x = sqrt (real (p * 2 ^ (2 * w)))"
    by (simp add: real_sqrt_mult power_mult mult.commute)
  have lo: "real (k * 2 ^ w + v) \<le> ?x"
    unfolding sq using assms(1) by (intro real_le_rsqrt) (metis of_nat_le_iff of_nat_power)
  have hi: "?x < real (k * 2 ^ w + v + 1)"
    unfolding sq using assms(2) by (intro real_less_lsqrt) (simp_all only: of_nat_0_le_iff, metis of_nat_less_iff of_nat_power)
  have eq: "real (k * 2 ^ w + v) = 2 ^ w * real k + real v" by simp
  have "2 ^ w * real k \<le> 2 ^ w * sqrt (real p)" using lo unfolding eq by linarith
  moreover have "real v + 1 \<le> 2 ^ w"
    using assms(3) by (metis Suc_eq_plus1 Suc_leI of_nat_1 of_nat_add of_nat_le_iff of_nat_numeral of_nat_power)
  then have "2 ^ w * sqrt (real p) < 2 ^ w * (real k + 1)" using hi by (simp add: algebra_simps)
  ultimately have "real k \<le> sqrt (real p)" "sqrt (real p) < real k + 1" by simp_all
  then have "\<lfloor>sqrt (real p)\<rfloor> = int k" by (intro floor_unique) simp_all
  then have "2 ^ w * frac (sqrt (real p)) = ?x - real (k * 2 ^ w)" by (simp add: frac_def algebra_simps)
  then show ?thesis using lo hi by (intro floor_unique) simp_all
qed

lemma rfc_iv_64:
  "(rfc_iv :: u64 list) = [0x6a09e667f3bcc908, 0xbb67ae8584caa73b, 0x3c6ef372fe94f82b, 0xa54ff53a5f1d36f1,
     0x510e527fade682d1, 0x9b05688c2b3e6c1f, 0x1f83d9abfb41bd6b, 0x5be0cd19137e2179]"
  using frac_sqrt_bits [where k = 1 and w = 64 and v = "0x6a09e667f3bcc908" and p = 2] frac_sqrt_bits [where k = 1 and w = 64 and v = "0xbb67ae8584caa73b" and p = 3]
    frac_sqrt_bits [where k = 2 and w = 64 and v = "0x3c6ef372fe94f82b" and p = 5] frac_sqrt_bits [where k = 2 and w = 64 and v = "0xa54ff53a5f1d36f1" and p = 7]
    frac_sqrt_bits [where k = 3 and w = 64 and v = "0x510e527fade682d1" and p = 11] frac_sqrt_bits [where k = 3 and w = 64 and v = "0x9b05688c2b3e6c1f" and p = 13]
    frac_sqrt_bits [where k = 4 and w = 64 and v = "0x1f83d9abfb41bd6b" and p = 17] frac_sqrt_bits [where k = 4 and w = 64 and v = "0x5be0cd19137e2179" and p = 19]
  by (simp add: rfc_iv_def)

lemma rfc_iv_32:
  "(rfc_iv :: u32 list) = [0x6A09E667, 0xBB67AE85, 0x3C6EF372, 0xA54FF53A, 0x510E527F, 0x9B05688C, 0x1F83D9AB, 0x5BE0CD19]"
  using frac_sqrt_bits [where k = 1 and w = 32 and v = "0x6A09E667" and p = 2] frac_sqrt_bits [where k = 1 and w = 32 and v = "0xBB67AE85" and p = 3]
    frac_sqrt_bits [where k = 2 and w = 32 and v = "0x3C6EF372" and p = 5] frac_sqrt_bits [where k = 2 and w = 32 and v = "0xA54FF53A" and p = 7]
    frac_sqrt_bits [where k = 3 and w = 32 and v = "0x510E527F" and p = 11] frac_sqrt_bits [where k = 3 and w = 32 and v = "0x9B05688C" and p = 13]
    frac_sqrt_bits [where k = 4 and w = 32 and v = "0x1F83D9AB" and p = 17] frac_sqrt_bits [where k = 4 and w = 32 and v = "0x5BE0CD19" and p = 19]
  by (simp add: rfc_iv_def)

end
