(* ===== verification/Xy_Blake2.thy ===== *)
theory Xy_Blake2
  imports Xy_Prelude
begin

text \<open>
  The hashes BLAKE2b and BLAKE2s of \<open>components/crypto/xy_blake/xy_blake2.c\<close>. The file has every function twice, with
  the same text but for the width of the words and the sizes; here the text is written once over a
  record of what differs, and the functions of the file are its two instances. The structure of
  parameters is its bytes in memory, as \<open>xy_blake2s_init_param\<close> reads them. A piece of data is the list of
  bytes from the pointer on. Copying zero bytes from a \<open>NULL\<close> pointer does nothing.
\<close>

datatype blake2_rc = BLAKE2_SUCCESS | BLAKE2_INVALID_PARAM | BLAKE2_ERROR

fun blake2_rc_code :: "blake2_rc \<Rightarrow> int" where
  "blake2_rc_code BLAKE2_SUCCESS = 0"
| "blake2_rc_code BLAKE2_INVALID_PARAM = -1"
| "blake2_rc_code BLAKE2_ERROR = -2"

record 'w blake2_ctx =
  bc_h :: "'w list"
  bc_t :: "'w list"
  bc_f :: "'w list"
  bc_buf :: "u8 list"
  bc_buflen :: nat
  bc_outlen :: nat

type_synonym xy_blake2b_ctx = "u64 blake2_ctx"
type_synonym xy_blake2s_ctx = "u32 blake2_ctx"

subsection \<open>Words and bytes\<close>

definition b2_load64_le :: "u8 list \<Rightarrow> nat \<Rightarrow> u64 option" where
  "b2_load64_le src off = do {
     b0 \<leftarrow> mem_load src off;
     b1 \<leftarrow> mem_load src (off + 1);
     b2 \<leftarrow> mem_load src (off + 2);
     b3 \<leftarrow> mem_load src (off + 3);
     b4 \<leftarrow> mem_load src (off + 4);
     b5 \<leftarrow> mem_load src (off + 5);
     b6 \<leftarrow> mem_load src (off + 6);
     b7 \<leftarrow> mem_load src (off + 7);
     Some (ucast b0 OR push_bit 8 (ucast b1) OR push_bit 16 (ucast b2) OR push_bit 24 (ucast b3)
       OR push_bit 32 (ucast b4) OR push_bit 40 (ucast b5) OR push_bit 48 (ucast b6) OR push_bit 56 (ucast b7)) }"

definition b2_store64_le :: "u64 \<Rightarrow> u8 list" where
  "b2_store64_le v = map (\<lambda>i. ucast (drop_bit (8 * i) v AND 0xff)) [0, 1, 2, 3, 4, 5, 6, 7]"

definition b2_load32_le :: "u8 list \<Rightarrow> nat \<Rightarrow> u32 option" where
  "b2_load32_le src off = do {
     b0 \<leftarrow> mem_load src off;
     b1 \<leftarrow> mem_load src (off + 1);
     b2 \<leftarrow> mem_load src (off + 2);
     b3 \<leftarrow> mem_load src (off + 3);
     Some (ucast b0 OR push_bit 8 (ucast b1) OR push_bit 16 (ucast b2) OR push_bit 24 (ucast b3)) }"

definition b2_store32_le :: "u32 \<Rightarrow> u8 list" where
  "b2_store32_le v = map (\<lambda>i. ucast (drop_bit (8 * i) v AND 0xff)) [0, 1, 2, 3]"

definition prv_rotr64 :: "u64 \<Rightarrow> nat \<Rightarrow> u64" where
  "prv_rotr64 w c = drop_bit c w OR push_bit (64 - c) w"

definition prv_rotr32 :: "u32 \<Rightarrow> nat \<Rightarrow> u32" where
  "prv_rotr32 w c = drop_bit c w OR push_bit (32 - c) w"

text \<open>The words of a byte array at the given offsets.\<close>

fun blake2_words :: "(u8 list \<Rightarrow> nat \<Rightarrow> 'w option) \<Rightarrow> u8 list \<Rightarrow> nat list \<Rightarrow> 'w list option" where
  "blake2_words load src [] = Some []"
| "blake2_words load src (i # is) = do { w \<leftarrow> load src i; ws \<leftarrow> blake2_words load src is; Some (w # ws) }"

subsection \<open>The compression functions\<close>

definition blake2b_iv :: "u64 list" where
  "blake2b_iv = [0x6a09e667f3bcc908, 0xbb67ae8584caa73b, 0x3c6ef372fe94f82b, 0xa54ff53a5f1d36f1, 0x510e527fade682d1, 0x9b05688c2b3e6c1f, 0x1f83d9abfb41bd6b, 0x5be0cd19137e2179]"

definition blake2b_sigma :: "nat list list" where
  "blake2b_sigma =
     [[0, 1, 2, 3, 4, 5, 6, 7, 8, 9, 10, 11, 12, 13, 14, 15],
      [14, 10, 4, 8, 9, 15, 13, 6, 1, 12, 0, 2, 11, 7, 5, 3],
      [11, 8, 12, 0, 5, 2, 15, 13, 10, 14, 3, 6, 7, 1, 9, 4],
      [7, 9, 3, 1, 13, 12, 11, 14, 2, 6, 5, 10, 4, 0, 15, 8],
      [9, 0, 5, 7, 2, 4, 10, 15, 14, 1, 11, 12, 6, 8, 3, 13],
      [2, 12, 6, 10, 0, 11, 8, 3, 4, 13, 7, 5, 15, 14, 1, 9],
      [12, 5, 1, 15, 14, 13, 4, 10, 0, 7, 6, 3, 9, 2, 8, 11],
      [13, 11, 7, 14, 12, 1, 3, 9, 5, 0, 15, 4, 8, 6, 2, 10],
      [6, 15, 14, 9, 11, 3, 0, 8, 12, 2, 13, 7, 1, 4, 10, 5],
      [10, 2, 8, 4, 7, 6, 1, 5, 15, 11, 9, 14, 3, 12, 13, 0],
      [0, 1, 2, 3, 4, 5, 6, 7, 8, 9, 10, 11, 12, 13, 14, 15],
      [14, 10, 4, 8, 9, 15, 13, 6, 1, 12, 0, 2, 11, 7, 5, 3]]"

definition B2B_G :: "u64 list \<Rightarrow> nat \<Rightarrow> nat \<Rightarrow> nat \<Rightarrow> nat \<Rightarrow> nat \<Rightarrow> nat \<Rightarrow> u64 list \<Rightarrow> u64 list" where
  "B2B_G m r i ja jb jc jd v =
     (let a = v ! ja; b = v ! jb; c = v ! jc; d = v ! jd;
          a = a + b + m ! (blake2b_sigma ! r ! (2 * i + 0));
          d = prv_rotr64 (d XOR a) 32;
          c = c + d;
          b = prv_rotr64 (b XOR c) 24;
          a = a + b + m ! (blake2b_sigma ! r ! (2 * i + 1));
          d = prv_rotr64 (d XOR a) 16;
          c = c + d;
          b = prv_rotr64 (b XOR c) 63
      in v[ja := a, jb := b, jc := c, jd := d])"

definition blake2b_round :: "u64 list \<Rightarrow> nat \<Rightarrow> u64 list \<Rightarrow> u64 list" where
  "blake2b_round m r v =
     (let v = B2B_G m r 0 0 4 8 12 v;
          v = B2B_G m r 1 1 5 9 13 v;
          v = B2B_G m r 2 2 6 10 14 v;
          v = B2B_G m r 3 3 7 11 15 v;
          v = B2B_G m r 4 0 5 10 15 v;
          v = B2B_G m r 5 1 6 11 12 v;
          v = B2B_G m r 6 2 7 8 13 v
      in B2B_G m r 7 3 4 9 14 v)"

definition prv_blake2b_compress :: "xy_blake2b_ctx \<Rightarrow> u8 list \<Rightarrow> xy_blake2b_ctx option" where
  "prv_blake2b_compress ctx block = do {
     m \<leftarrow> blake2_words b2_load64_le block (map (\<lambda>i. i * 8) [0..<16]);
     let v = map (\<lambda>i. bc_h ctx ! i) [0..<8] @
       [blake2b_iv ! 0, blake2b_iv ! 1, blake2b_iv ! 2, blake2b_iv ! 3,
        blake2b_iv ! 4 XOR bc_t ctx ! 0, blake2b_iv ! 5 XOR bc_t ctx ! 1,
        blake2b_iv ! 6 XOR bc_f ctx ! 0, blake2b_iv ! 7 XOR bc_f ctx ! 1];
     let v' = foldl (\<lambda>v r. blake2b_round m r v) v [0..<12];
     Some (ctx\<lparr>bc_h := map (\<lambda>i. bc_h ctx ! i XOR (v' ! i XOR v' ! (i + 8))) [0..<8]\<rparr>) }"

definition blake2s_iv :: "u32 list" where
  "blake2s_iv = [0x6A09E667, 0xBB67AE85, 0x3C6EF372, 0xA54FF53A, 0x510E527F, 0x9B05688C, 0x1F83D9AB, 0x5BE0CD19]"

definition blake2s_sigma :: "nat list list" where
  "blake2s_sigma =
     [[0, 1, 2, 3, 4, 5, 6, 7, 8, 9, 10, 11, 12, 13, 14, 15],
      [14, 10, 4, 8, 9, 15, 13, 6, 1, 12, 0, 2, 11, 7, 5, 3],
      [11, 8, 12, 0, 5, 2, 15, 13, 10, 14, 3, 6, 7, 1, 9, 4],
      [7, 9, 3, 1, 13, 12, 11, 14, 2, 6, 5, 10, 4, 0, 15, 8],
      [9, 0, 5, 7, 2, 4, 10, 15, 14, 1, 11, 12, 6, 8, 3, 13],
      [2, 12, 6, 10, 0, 11, 8, 3, 4, 13, 7, 5, 15, 14, 1, 9],
      [12, 5, 1, 15, 14, 13, 4, 10, 0, 7, 6, 3, 9, 2, 8, 11],
      [13, 11, 7, 14, 12, 1, 3, 9, 5, 0, 15, 4, 8, 6, 2, 10],
      [6, 15, 14, 9, 11, 3, 0, 8, 12, 2, 13, 7, 1, 4, 10, 5],
      [10, 2, 8, 4, 7, 6, 1, 5, 15, 11, 9, 14, 3, 12, 13, 0]]"

definition B2S_G :: "u32 list \<Rightarrow> nat \<Rightarrow> nat \<Rightarrow> nat \<Rightarrow> nat \<Rightarrow> nat \<Rightarrow> nat \<Rightarrow> u32 list \<Rightarrow> u32 list" where
  "B2S_G m r i ja jb jc jd v =
     (let a = v ! ja; b = v ! jb; c = v ! jc; d = v ! jd;
          a = a + b + m ! (blake2s_sigma ! r ! (2 * i + 0));
          d = prv_rotr32 (d XOR a) 16;
          c = c + d;
          b = prv_rotr32 (b XOR c) 12;
          a = a + b + m ! (blake2s_sigma ! r ! (2 * i + 1));
          d = prv_rotr32 (d XOR a) 8;
          c = c + d;
          b = prv_rotr32 (b XOR c) 7
      in v[ja := a, jb := b, jc := c, jd := d])"

definition blake2s_round :: "u32 list \<Rightarrow> nat \<Rightarrow> u32 list \<Rightarrow> u32 list" where
  "blake2s_round m r v =
     (let v = B2S_G m r 0 0 4 8 12 v;
          v = B2S_G m r 1 1 5 9 13 v;
          v = B2S_G m r 2 2 6 10 14 v;
          v = B2S_G m r 3 3 7 11 15 v;
          v = B2S_G m r 4 0 5 10 15 v;
          v = B2S_G m r 5 1 6 11 12 v;
          v = B2S_G m r 6 2 7 8 13 v
      in B2S_G m r 7 3 4 9 14 v)"

definition prv_blake2s_compress :: "xy_blake2s_ctx \<Rightarrow> u8 list \<Rightarrow> xy_blake2s_ctx option" where
  "prv_blake2s_compress ctx block = do {
     m \<leftarrow> blake2_words b2_load32_le block (map (\<lambda>i. i * 4) [0..<16]);
     let v = map (\<lambda>i. bc_h ctx ! i) [0..<8] @
       [blake2s_iv ! 0, blake2s_iv ! 1, blake2s_iv ! 2, blake2s_iv ! 3,
        blake2s_iv ! 4 XOR bc_t ctx ! 0, blake2s_iv ! 5 XOR bc_t ctx ! 1,
        blake2s_iv ! 6 XOR bc_f ctx ! 0, blake2s_iv ! 7 XOR bc_f ctx ! 1];
     let v' = foldl (\<lambda>v r. blake2s_round m r v) v [0..<10];
     Some (ctx\<lparr>bc_h := map (\<lambda>i. bc_h ctx ! i XOR (v' ! i XOR v' ! (i + 8))) [0..<8]\<rparr>) }"

subsection \<open>What differs between the two\<close>

record 'w blake2_kind =
  bk_word :: nat
  bk_block :: nat
  bk_out :: nat
  bk_key :: nat
  bk_iv :: "'w list"
  bk_load :: "u8 list \<Rightarrow> nat \<Rightarrow> 'w option"
  bk_store :: "'w \<Rightarrow> u8 list"
  bk_compress :: "'w blake2_ctx \<Rightarrow> u8 list \<Rightarrow> 'w blake2_ctx option"

definition BLAKE2B :: "u64 blake2_kind" where
  "BLAKE2B = \<lparr>bk_word = 8, bk_block = 128, bk_out = 64, bk_key = 64, bk_iv = blake2b_iv,
     bk_load = b2_load64_le, bk_store = b2_store64_le, bk_compress = prv_blake2b_compress\<rparr>"

definition BLAKE2S :: "u32 blake2_kind" where
  "BLAKE2S = \<lparr>bk_word = 4, bk_block = 64, bk_out = 32, bk_key = 32, bk_iv = blake2s_iv,
     bk_load = b2_load32_le, bk_store = b2_store32_le, bk_compress = prv_blake2s_compress\<rparr>"

subsection \<open>The common text\<close>

definition blake2_init_param ::
  "'a::len word blake2_kind \<Rightarrow> 'a word blake2_ctx option \<Rightarrow> u8 list option \<Rightarrow> (blake2_rc \<times> 'a word blake2_ctx option) option" where
  "blake2_init_param k ctx param =
     (case (ctx, param) of
        (Some c, Some p) \<Rightarrow> do {
          digest_length \<leftarrow> mem_load p 0;
          ws \<leftarrow> blake2_words (bk_load k) p (map (\<lambda>i. i * bk_word k) [0..<8]);
          Some (BLAKE2_SUCCESS, Some \<lparr>bc_h = map2 (XOR) (bk_iv k) ws, bc_t = [0, 0], bc_f = [0, 0],
            bc_buf = replicate (bk_block k) 0, bc_buflen = 0, bc_outlen = unat digest_length\<rparr>) }
      | _ \<Rightarrow> Some (BLAKE2_INVALID_PARAM, ctx))"

text \<open>The parameters that \<open>xy_blake2s_init\<close> and \<open>xy_blake2s_init_key\<close> fill in, with the fanout and depth of 1.\<close>

definition blake2_param :: "'w blake2_kind \<Rightarrow> nat \<Rightarrow> nat \<Rightarrow> u8 list" where
  "blake2_param k outlen keylen = [of_nat outlen, of_nat keylen, 1, 1] @ replicate (8 * bk_word k - 4) 0"

definition blake2_init ::
  "'a::len word blake2_kind \<Rightarrow> 'a word blake2_ctx option \<Rightarrow> nat \<Rightarrow> (blake2_rc \<times> 'a word blake2_ctx option) option" where
  "blake2_init k ctx outlen =
     (if ctx = None \<or> outlen = 0 \<or> outlen > bk_out k then Some (BLAKE2_INVALID_PARAM, ctx)
      else blake2_init_param k ctx (Some (blake2_param k outlen 0)))"

text \<open>The count of bytes in two words, with the carry.\<close>

definition blake2_count :: "nat \<Rightarrow> 'a::len word blake2_ctx \<Rightarrow> 'a word blake2_ctx" where
  "blake2_count n ctx =
     (let t0 = bc_t ctx ! 0 + of_nat n
      in ctx\<lparr>bc_t := [t0, if t0 < of_nat n then bc_t ctx ! 1 + 1 else bc_t ctx ! 1]\<rparr>)"

text \<open>The loop over the blocks that are not the last, with the data that is left; no block is empty.\<close>

function blake2_blocks ::
  "'a::len word blake2_kind \<Rightarrow> u8 list \<Rightarrow> nat \<Rightarrow> 'a word blake2_ctx \<Rightarrow> (u8 list \<times> nat \<times> 'a word blake2_ctx) option" where
  "blake2_blocks k data datalen ctx =
     (if datalen > bk_block k \<and> bk_block k > 0 then do {
        block \<leftarrow> mem_read data 0 (bk_block k);
        ctx1 \<leftarrow> bk_compress k (blake2_count (bk_block k) ctx) block;
        blake2_blocks k (drop (bk_block k) data) (datalen - bk_block k) ctx1 }
      else Some (data, datalen, ctx))"
  by pat_completeness auto
termination by (relation "measure (\<lambda>(k, data, datalen, ctx). datalen)") auto

text \<open>\<open>size_t\<close> has 32 bits in the subtraction that gives the room in the buffer.\<close>

definition blake2_update ::
  "'a::len word blake2_kind \<Rightarrow> 'a word blake2_ctx option \<Rightarrow> u8 list option \<Rightarrow> nat
   \<Rightarrow> (blake2_rc \<times> 'a word blake2_ctx option) option" where
  "blake2_update k ctx data datalen =
     (case ctx of
        None \<Rightarrow> Some (BLAKE2_INVALID_PARAM, ctx)
      | Some c \<Rightarrow>
          if data = None \<and> datalen > 0 then Some (BLAKE2_INVALID_PARAM, ctx)
          else do {
            let d = (case data of None \<Rightarrow> [] | Some d \<Rightarrow> d);
            let left = bc_buflen c;
            let fill = (2 ^ 32 + bk_block k - left) mod 2 ^ 32;
            (d', datalen', c') \<leftarrow>
              (if datalen > fill then do {
                 bs \<leftarrow> mem_read d 0 fill;
                 b \<leftarrow> mem_write (bc_buf c) left bs;
                 c1 \<leftarrow> bk_compress k (blake2_count (bk_block k) (c\<lparr>bc_buflen := 0, bc_buf := b\<rparr>)) b;
                 blake2_blocks k (drop fill d) (datalen - fill) c1 }
               else Some (d, datalen, c));
            bs \<leftarrow> mem_read d' 0 datalen';
            b \<leftarrow> mem_write (bc_buf c') (bc_buflen c') bs;
            Some (BLAKE2_SUCCESS, Some (c'\<lparr>bc_buf := b, bc_buflen := bc_buflen c' + datalen'\<rparr>)) })"

definition blake2_init_key ::
  "'a::len word blake2_kind \<Rightarrow> 'a word blake2_ctx option \<Rightarrow> nat \<Rightarrow> u8 list option \<Rightarrow> nat
   \<Rightarrow> (blake2_rc \<times> 'a word blake2_ctx option) option" where
  "blake2_init_key k ctx outlen key keylen =
     (case key of
        None \<Rightarrow> Some (BLAKE2_INVALID_PARAM, ctx)
      | Some ky \<Rightarrow>
          if ctx = None \<or> keylen = 0 \<or> keylen > bk_key k then Some (BLAKE2_INVALID_PARAM, ctx)
          else if outlen = 0 \<or> outlen > bk_out k then Some (BLAKE2_INVALID_PARAM, ctx)
          else do {
            (ret, ctx1) \<leftarrow> blake2_init_param k ctx (Some (blake2_param k outlen keylen));
            if ret \<noteq> BLAKE2_SUCCESS then Some (ret, ctx1)
            else do {
              ks \<leftarrow> mem_read ky 0 keylen;
              block \<leftarrow> mem_write (replicate (bk_block k) 0) 0 ks;
              blake2_update k ctx1 (Some block) (bk_block k) } })"

definition blake2_final ::
  "'a::len word blake2_kind \<Rightarrow> 'a word blake2_ctx option \<Rightarrow> u8 list option \<Rightarrow> nat
   \<Rightarrow> (blake2_rc \<times> 'a word blake2_ctx option \<times> u8 list option) option" where
  "blake2_final k ctx digest outlen =
     (case (ctx, digest) of
        (Some c, Some dg) \<Rightarrow>
          if outlen \<noteq> bc_outlen c then Some (BLAKE2_INVALID_PARAM, ctx, digest)
          else do {
            let c1 = blake2_count (bc_buflen c) c;
            let c2 = c1\<lparr>bc_f := (bc_f c1)[0 := - 1]\<rparr>;
            b \<leftarrow> mem_write (bc_buf c2) (bc_buflen c2) (replicate (bk_block k - bc_buflen c2) 0);
            c3 \<leftarrow> bk_compress k (c2\<lparr>bc_buf := b\<rparr>) b;
            out \<leftarrow> mem_read (concat (map (\<lambda>i. bk_store k (bc_h c3 ! i)) [0..<8])) 0 outlen;
            dg' \<leftarrow> mem_write dg 0 out;
            Some (BLAKE2_SUCCESS, Some c3, Some dg') }
      | _ \<Rightarrow> Some (BLAKE2_INVALID_PARAM, ctx, digest))"

text \<open>The hash in one call, with a local context.\<close>

definition blake2_local :: "'a::len word blake2_kind \<Rightarrow> 'a word blake2_ctx" where
  "blake2_local k = \<lparr>bc_h = replicate 8 0, bc_t = [0, 0], bc_f = [0, 0], bc_buf = replicate (bk_block k) 0,
     bc_buflen = 0, bc_outlen = 0\<rparr>"

definition blake2_hash ::
  "'a::len word blake2_kind \<Rightarrow> u8 list option \<Rightarrow> nat \<Rightarrow> u8 list option \<Rightarrow> nat \<Rightarrow> u8 list option \<Rightarrow> nat
   \<Rightarrow> (blake2_rc \<times> u8 list option) option" where
  "blake2_hash k digest outlen data datalen key keylen = do {
     (ret, ctx) \<leftarrow>
       (if key \<noteq> None \<and> keylen > 0 then blake2_init_key k (Some (blake2_local k)) outlen key keylen
        else blake2_init k (Some (blake2_local k)) outlen);
     if ret \<noteq> BLAKE2_SUCCESS then Some (ret, digest)
     else do {
       (ret, ctx) \<leftarrow> (if data \<noteq> None \<and> datalen > 0 then blake2_update k ctx data datalen else Some (ret, ctx));
       if ret \<noteq> BLAKE2_SUCCESS then Some (ret, digest)
       else do {
         (ret, ctx, dg) \<leftarrow> blake2_final k ctx digest outlen;
         Some (ret, dg) } } }"

subsection \<open>The functions of the file\<close>

definition xy_blake2b_init_param where "xy_blake2b_init_param = blake2_init_param BLAKE2B"
definition xy_blake2b_init where "xy_blake2b_init = blake2_init BLAKE2B"
definition xy_blake2b_init_key where "xy_blake2b_init_key = blake2_init_key BLAKE2B"
definition xy_blake2b_update where "xy_blake2b_update = blake2_update BLAKE2B"
definition xy_blake2b_final where "xy_blake2b_final = blake2_final BLAKE2B"
definition xy_blake2b where "xy_blake2b = blake2_hash BLAKE2B"
definition xy_blake2s_init_param where "xy_blake2s_init_param = blake2_init_param BLAKE2S"
definition xy_blake2s_init where "xy_blake2s_init = blake2_init BLAKE2S"
definition xy_blake2s_init_key where "xy_blake2s_init_key = blake2_init_key BLAKE2S"
definition xy_blake2s_update where "xy_blake2s_update = blake2_update BLAKE2S"
definition xy_blake2s_final where "xy_blake2s_final = blake2_final BLAKE2S"
definition xy_blake2s where "xy_blake2s = blake2_hash BLAKE2S"

end
