(* ===== verification/Xy_Blake2_Correct.thy ===== *)
theory Xy_Blake2_Correct
  imports Xy_Blake2 Blake2_Rfc7693
begin

text \<open>
  BLAKE2 as RFC 7693 states it: the message, with the padded key in front, is cut into blocks, and the last
  block, which may be full, is compressed with the flag of the last block. The buffering that keeps the
  last block back is the same for both functions and is proved once, in a locale over what they
  differ in. Then the compression functions of the code, its rotations, tables, initial values and parameter
  block are proved equal to those of the specification \<open>Blake2_Rfc7693\<close>, which is written from the RFC.
\<close>

subsection \<open>The hash over a compression function\<close>

text \<open>The count of bytes as two words.\<close>

definition blake_counter :: "nat \<Rightarrow> 'a::len word list" where
  "blake_counter n = [of_nat n, of_nat (n div 2 ^ LENGTH('a))]"

function blake_iter ::
  "('a::len word list \<Rightarrow> 'a word list \<Rightarrow> 'a word list \<Rightarrow> u8 list \<Rightarrow> 'a word list) \<Rightarrow> nat \<Rightarrow> 'a word list \<Rightarrow> nat
   \<Rightarrow> u8 list \<Rightarrow> 'a word list" where
  "blake_iter F bs h n m =
     (if length m > bs \<and> bs > 0 then blake_iter F bs (F h (blake_counter (n + bs)) [0, 0] (take bs m)) (n + bs) (drop bs m)
      else F h (blake_counter (n + length m)) [- 1, 0] (m @ replicate (bs - length m) 0))"
  by pat_completeness auto
termination by (relation "measure (\<lambda>(F, bs, h, n, m). length m)") auto

declare blake_iter.simps [simp del] blake2_blocks.simps [simp del]

definition blake_key_block :: "nat \<Rightarrow> u8 list \<Rightarrow> u8 list" where
  "blake_key_block bs key = (if key = [] then [] else key @ replicate (bs - length key) 0)"

definition blake_start :: "'a::len word blake2_kind \<Rightarrow> nat \<Rightarrow> nat \<Rightarrow> 'a word list" where
  "blake_start k outlen keylen =
     map2 (XOR) (bk_iv k) (the (blake2_words (bk_load k) (blake2_param k outlen keylen) (map (\<lambda>i. i * bk_word k) [0..<8])))"

definition blake_digest ::
  "'a::len word blake2_kind \<Rightarrow> ('a word list \<Rightarrow> 'a word list \<Rightarrow> 'a word list \<Rightarrow> u8 list \<Rightarrow> 'a word list) \<Rightarrow> nat
   \<Rightarrow> u8 list \<Rightarrow> u8 list \<Rightarrow> u8 list" where
  "blake_digest k F outlen key m =
     take outlen (concat (map (bk_store k)
       (blake_iter F (bk_block k) (blake_start k outlen (length key)) 0 (blake_key_block (bk_block k) key @ m))))"

subsection \<open>The counter\<close>

lemma div_mod_below_twice:
  assumes "x < 2 * (w :: nat)"
  shows "x mod w = (if w \<le> x then x - w else x)" "x div w = (if w \<le> x then 1 else 0)"
proof -
  have w: "0 < w" using assms by simp
  show "x mod w = (if w \<le> x then x - w else x)" using le_mod_geq [of w x] assms by auto
  show "x div w = (if w \<le> x then 1 else 0)" using le_div_geq [of w x] w assms by auto
qed

lemma carry_iff:
  assumes "j < (w :: nat)"
  shows "(n + j) mod w < j \<longleftrightarrow> w \<le> n mod w + j" "(n + j) div w = n div w + (if w \<le> n mod w + j then 1 else 0)"
proof -
  have w: "w \<noteq> 0" and r: "n mod w < w" using assms by simp_all
  have n: "n + j = (n mod w + j) + w * (n div w)" using mult_div_mod_eq [of w n] by linarith
  have a: "(n + j) mod w = (n mod w + j) mod w" by (subst n) (rule mod_mult_self2)
  have d: "(n + j) div w = n div w + (n mod w + j) div w" by (subst n) (rule div_mult_self2 [OF w])
  have x: "n mod w + j < 2 * w" using r assms by linarith
  show "(n + j) mod w < j \<longleftrightarrow> w \<le> n mod w + j"
    unfolding a div_mod_below_twice(1) [OF x] using r assms by (auto; linarith)
  show "(n + j) div w = n div w + (if w \<le> n mod w + j then 1 else 0)"
    unfolding d div_mod_below_twice(2) [OF x] by (rule refl)
qed

lemma blake2_count_counter:
  fixes c :: "'a::len word blake2_ctx"
  assumes "bc_t c = blake_counter n" "j < 2 ^ LENGTH('a)"
  shows "blake2_count j c = c\<lparr>bc_t := blake_counter (n + j)\<rparr>"
proof -
  have "(of_nat n + of_nat j :: 'a word) < of_nat j \<longleftrightarrow> (n + j) mod 2 ^ LENGTH('a) < j"
    using assms(2) by (simp add: word_less_nat_alt unat_of_nat flip: of_nat_add)
  then show ?thesis
    using carry_iff [OF assms(2), of n] assms(1) by (simp add: blake2_count_def blake_counter_def Let_def)
qed

subsection \<open>The buffering\<close>

lemma take_split: "take n d = take i d @ take (n - i) (drop i d)" if "i \<le> n"
  using take_add [of i "n - i" d] that by simp

text \<open>Feeding the pieces one after the other, starting from the result of an initialisation.\<close>

definition blake2_feed ::
  "('c option \<Rightarrow> u8 list option \<Rightarrow> nat \<Rightarrow> (blake2_rc \<times> 'c option) option) \<Rightarrow> (blake2_rc \<times> 'c option) option \<Rightarrow> u8 list list
   \<Rightarrow> (blake2_rc \<times> 'c option) option" where
  "blake2_feed update s ps = foldl (\<lambda>s p. Option.bind s (\<lambda>(r, x). update x (Some p) (length p))) s ps"

locale blake2_family =
  fixes k :: "'a::len word blake2_kind"
    and F :: "'a word list \<Rightarrow> 'a word list \<Rightarrow> 'a word list \<Rightarrow> u8 list \<Rightarrow> 'a word list"
  assumes compress_eq: "length b = bk_block k \<Longrightarrow> bk_compress k c b = Some (c\<lparr>bc_h := F (bc_h c) (bc_t c) (bc_f c) b\<rparr>)"
    and length_F: "length b = bk_block k \<Longrightarrow> length (F h t f b) = 8"
    and length_store: "length (bk_store k w) = bk_word k"
    and load_total: "off + bk_word k \<le> length p \<Longrightarrow> \<exists>w. bk_load k p off = Some w"
    and length_iv: "length (bk_iv k) = 8"
    and sizes: "bk_block k = 16 * bk_word k" "bk_out k = 8 * bk_word k" "bk_key k = 8 * bk_word k" "4 \<le> bk_word k" "bk_word k \<le> 8"
    and fits: "bk_block k < 2 ^ LENGTH('a)"
begin

text \<open>A context that stands for the message \<open>m\<close>: whatever follows, hashing goes on from its words and its buffer.\<close>

definition stands :: "'a word list \<Rightarrow> nat \<Rightarrow> u8 list \<Rightarrow> 'a word blake2_ctx \<Rightarrow> bool" where
  "stands h0 outlen m c \<longleftrightarrow> length (bc_buf c) = bk_block k \<and> bc_f c = [0, 0] \<and> bc_outlen c = outlen
    \<and> (\<exists>n t. bc_t c = blake_counter n \<and> bc_buflen c = length t \<and> length t \<le> bk_block k
        \<and> take (length t) (bc_buf c) = t
        \<and> (\<forall>m'. blake_iter F (bk_block k) h0 0 (m @ m') = blake_iter F (bk_block k) (bc_h c) n (t @ m')))"

lemma blake_iter_step:
  assumes "length b = bk_block k" "m \<noteq> []"
  shows "blake_iter F (bk_block k) h n (b @ m)
    = blake_iter F (bk_block k) (F h (blake_counter (n + bk_block k)) [0, 0] b) (n + bk_block k) m"
  using assms sizes by (subst blake_iter.simps) (cases m; simp)

lemma blake_count_step:
  assumes "bc_t c = blake_counter n" "bc_f c = [0, 0]" "length b = bk_block k"
  shows "bk_compress k (blake2_count (bk_block k) c) b
    = Some (c\<lparr>bc_t := blake_counter (n + bk_block k), bc_h := F (bc_h c) (blake_counter (n + bk_block k)) [0, 0] b\<rparr>)"
  using blake2_count_counter [OF assms(1) fits] compress_eq [OF assms(3)] assms(2) by simp

lemma blake_blocks_spec:
  assumes "bc_t c = blake_counter n" "bc_f c = [0, 0]" "datalen \<le> length d"
  shows "\<exists>d' l c' n'. blake2_blocks k d datalen c = Some (d', l, c') \<and> l \<le> bk_block k \<and> l \<le> length d'
    \<and> bc_buf c' = bc_buf c \<and> bc_buflen c' = bc_buflen c \<and> bc_outlen c' = bc_outlen c \<and> bc_f c' = [0, 0]
    \<and> bc_t c' = blake_counter n'
    \<and> (\<forall>m'. blake_iter F (bk_block k) (bc_h c) n (take datalen d @ m')
          = blake_iter F (bk_block k) (bc_h c') n' (take l d' @ m'))"
  using assms
proof (induction datalen arbitrary: d c n rule: less_induct)
  case (less datalen)
  show ?case
  proof (cases "datalen > bk_block k")
    case False
    then show ?thesis using less.prems by (subst blake2_blocks.simps) auto
  next
    case True
    let ?B = "bk_block k" and ?b = "take (bk_block k) d"
    have B: "0 < ?B" "length ?b = ?B" using sizes True less.prems(3) by simp_all
    let ?c = "c\<lparr>bc_t := blake_counter (n + ?B), bc_h := F (bc_h c) (blake_counter (n + ?B)) [0, 0] ?b\<rparr>"
    have step: "blake2_blocks k d datalen c = blake2_blocks k (drop ?B d) (datalen - ?B) ?c"
      using True B less.prems(3) blake_count_step [OF less.prems(1,2) B(2)]
      by (subst blake2_blocks.simps) (simp add: mem_read_def)
    have it: "blake_iter F ?B (bc_h c) n (take datalen d @ m') = blake_iter F ?B (bc_h ?c) (n + ?B) (take (datalen - ?B) (drop ?B d) @ m')" for m'
      using blake_iter_step [OF B(2), of "take (datalen - ?B) (drop ?B d) @ m'" "bc_h c" n] take_split [of ?B datalen d] True less.prems(3) by simp
    have "datalen - ?B < datalen" "datalen - ?B \<le> length (drop ?B d)" using True B(1) less.prems(3) by simp_all
    then obtain d' l c' n' where "blake2_blocks k (drop ?B d) (datalen - ?B) ?c = Some (d', l, c')" "l \<le> ?B" "l \<le> length d'"
      "bc_buf c' = bc_buf c" "bc_buflen c' = bc_buflen c" "bc_outlen c' = bc_outlen c" "bc_f c' = [0, 0]"
      "bc_t c' = blake_counter n'"
      "\<forall>m'. blake_iter F ?B (bc_h ?c) (n + ?B) (take (datalen - ?B) (drop ?B d) @ m') = blake_iter F ?B (bc_h c') n' (take l d' @ m')"
      using less.IH [of "datalen - ?B" ?c "n + ?B" "drop ?B d"] less.prems(2) by auto
    then show ?thesis unfolding step it by blast
  qed
qed

lemma blake_update_spec:
  assumes "stands h0 outlen m c" "datalen \<le> length d"
  shows "\<exists>c'. blake2_update k (Some c) (Some d) datalen = Some (BLAKE2_SUCCESS, Some c')
    \<and> stands h0 outlen (m @ take datalen d) c'"
proof -
  let ?B = "bk_block k"
  obtain n t where t: "bc_t c = blake_counter n" "bc_buflen c = length t" "length t \<le> ?B" "take (length t) (bc_buf c) = t"
    "\<And>m'. blake_iter F ?B h0 0 (m @ m') = blake_iter F ?B (bc_h c) n (t @ m')"
    and c: "length (bc_buf c) = ?B" "bc_f c = [0, 0]" "bc_outlen c = outlen"
    using assms(1) by (auto simp: stands_def)
  let ?fill = "?B - length t"
  have "?fill < 2 ^ 32" using sizes by simp
  then have fill: "(2 ^ 32 + ?B - length t) mod 2 ^ 32 = ?fill" using t(3) by (simp add: mod_if)
  show ?thesis
  proof (cases "datalen > ?fill")
    case False
    let ?b = "t @ take datalen d @ drop (length t + datalen) (bc_buf c)"
    have w: "mem_write (bc_buf c) (length t) (take datalen d) = Some ?b"
      using False t c assms(2) by (simp add: mem_write_def)
    have "stands h0 outlen (m @ take datalen d) (c\<lparr>bc_buf := ?b, bc_buflen := length t + datalen\<rparr>)"
      unfolding stands_def using False t c assms(2)
      by (intro conjI exI [of _ n] exI [of _ "t @ take datalen d"]) auto
    then show ?thesis using False fill w t(2) assms(2) by (simp add: blake2_update_def mem_read_def Let_def)
  next
    case True
    let ?b = "t @ take ?fill d"
    have b: "mem_write (bc_buf c) (length t) (take ?fill d) = Some ?b" "length ?b = ?B"
      using True t c assms(2) by (simp_all add: mem_write_def)
    let ?c = "c\<lparr>bc_buflen := 0, bc_buf := ?b, bc_t := blake_counter (n + ?B), bc_h := F (bc_h c) (blake_counter (n + ?B)) [0, 0] ?b\<rparr>"
    have cmp: "bk_compress k (blake2_count ?B (c\<lparr>bc_buflen := 0, bc_buf := ?b\<rparr>)) ?b = Some ?c"
      using blake_count_step [of "c\<lparr>bc_buflen := 0, bc_buf := ?b\<rparr>" n ?b] t(1) c(2) b(2) by simp
    have "datalen - ?fill \<le> length (drop ?fill d)" using assms(2) by simp
    then obtain d' l c' n' where bl: "blake2_blocks k (drop ?fill d) (datalen - ?fill) ?c = Some (d', l, c')" "l \<le> ?B" "l \<le> length d'"
      "bc_buf c' = ?b" "bc_buflen c' = 0" "bc_outlen c' = outlen" "bc_f c' = [0, 0]" "bc_t c' = blake_counter n'"
      "\<And>m'. blake_iter F ?B (bc_h ?c) (n + ?B) (take (datalen - ?fill) (drop ?fill d) @ m') = blake_iter F ?B (bc_h c') n' (take l d' @ m')"
      using blake_blocks_spec [of ?c "n + ?B" "datalen - ?fill" "drop ?fill d"] c(2,3) by auto
    let ?b' = "take l d' @ drop l ?b"
    have w: "mem_write ?b 0 (take l d') = Some ?b'" using bl(2,3) b(2) by (simp add: mem_write_def del: append_assoc)
    have "blake_iter F ?B h0 0 ((m @ take datalen d) @ m') = blake_iter F ?B (bc_h c') n' (take l d' @ m')" for m'
    proof -
      have "blake_iter F ?B h0 0 ((m @ take datalen d) @ m')
          = blake_iter F ?B (bc_h c) n (?b @ (take (datalen - ?fill) (drop ?fill d) @ m'))"
        using t(5) [of "take datalen d @ m'"] take_split [of ?fill datalen d] True by simp
      also have "\<dots> = blake_iter F ?B (bc_h ?c) (n + ?B) (take (datalen - ?fill) (drop ?fill d) @ m')"
        using blake_iter_step [OF b(2)] True assms(2) by simp
      finally show ?thesis using bl(9) by simp
    qed
    then have "stands h0 outlen (m @ take datalen d) (c'\<lparr>bc_buf := ?b', bc_buflen := l\<rparr>)"
      unfolding stands_def using bl b(2)
      by (intro conjI exI [of _ n'] exI [of _ "take l d'"]) auto
    then show ?thesis
      using True fill b(1) cmp bl w t(2) assms(2) by (simp add: blake2_update_def mem_read_def Let_def)
  qed
qed

lemma blake_words_total:
  "\<forall>i \<in> set is. i + bk_word k \<le> length p \<Longrightarrow> \<exists>ws. blake2_words (bk_load k) p is = Some ws \<and> length ws = length is"
proof (induction "is")
  case (Cons i "is")
  then obtain w ws where "bk_load k p i = Some w" "blake2_words (bk_load k) p is = Some ws" "length ws = length is"
    using load_total [of i p] by auto
  then show ?case by simp
qed simp

lemma blake_init_param_spec:
  assumes "0 < outlen" "outlen \<le> bk_out k"
  shows "\<exists>c'. blake2_init_param k (Some c) (Some (blake2_param k outlen keylen)) = Some (BLAKE2_SUCCESS, Some c')
    \<and> stands (blake_start k outlen keylen) outlen [] c'"
proof -
  let ?p = "blake2_param k outlen keylen" and ?is = "map (\<lambda>i. i * bk_word k) [0..<8]"
  have p: "length ?p = 8 * bk_word k" using sizes by (simp add: blake2_param_def)
  have "i * bk_word k + bk_word k \<le> length ?p" if "i < 8" for i
    using mult_le_mono1 [of "Suc i" 8 "bk_word k"] that p by simp
  then obtain ws where ws: "blake2_words (bk_load k) ?p ?is = Some ws" "length ws = 8"
    using blake_words_total [of ?is ?p] by auto
  have "outlen < 256" using assms(2) sizes by simp
  then have o: "mem_load ?p 0 = Some (of_nat outlen)" "unat (of_nat outlen :: u8) = outlen"
    by (simp_all add: blake2_param_def mem_load_def unat_of_nat_u8)
  have h: "map2 (XOR) (bk_iv k) ws = blake_start k outlen keylen" using ws by (simp add: blake_start_def)
  let ?c = "\<lparr>bc_h = blake_start k outlen keylen, bc_t = [0, 0], bc_f = [0, 0], bc_buf = replicate (bk_block k) 0,
    bc_buflen = 0, bc_outlen = outlen\<rparr>"
  have "blake2_init_param k (Some c) (Some ?p) = Some (BLAKE2_SUCCESS, Some ?c)"
    using ws o h by (simp add: blake2_init_param_def)
  moreover have "stands (blake_start k outlen keylen) outlen [] ?c"
    unfolding stands_def by (auto simp: blake_counter_def intro!: exI [of _ 0] exI [of _ "[]"])
  ultimately show ?thesis by blast
qed

text \<open>The start with or without a key.\<close>

lemma blake_start_spec:
  assumes "0 < outlen" "outlen \<le> bk_out k" "length key \<le> bk_key k"
  shows "\<exists>c'. (if key = [] then blake2_init k (Some c) outlen else blake2_init_key k (Some c) outlen (Some key) (length key))
      = Some (BLAKE2_SUCCESS, Some c')
    \<and> stands (blake_start k outlen (length key)) outlen (blake_key_block (bk_block k) key) c'"
proof -
  obtain c0 where c0: "blake2_init_param k (Some c) (Some (blake2_param k outlen (length key))) = Some (BLAKE2_SUCCESS, Some c0)"
    "stands (blake_start k outlen (length key)) outlen [] c0"
    using blake_init_param_spec [OF assms(1,2)] by blast
  show ?thesis
  proof (cases "key = []")
    case True
    then show ?thesis using c0 assms(1,2) by (simp add: blake2_init_def blake_key_block_def)
  next
    case False
    let ?b = "key @ replicate (bk_block k - length key) 0"
    have lk: "length key \<le> bk_block k" using assms(3) sizes by simp
    have w: "mem_write (replicate (bk_block k) 0) 0 key = Some ?b" using lk by (simp add: mem_write_def)
    obtain c' where "blake2_update k (Some c0) (Some ?b) (bk_block k) = Some (BLAKE2_SUCCESS, Some c')"
      "stands (blake_start k outlen (length key)) outlen ([] @ take (bk_block k) ?b) c'"
      using blake_update_spec [OF c0(2), of "bk_block k" ?b] lk by auto
    then show ?thesis
      using c0(1) w False assms lk by (simp add: blake2_init_key_def blake_key_block_def mem_read_def)
  qed
qed

lemma blake_final_spec:
  assumes "stands (blake_start k outlen (length key)) outlen (blake_key_block (bk_block k) key @ m) c" "outlen \<le> bk_out k" "outlen \<le> length d"
  shows "\<exists>c'. blake2_final k (Some c) (Some d) outlen
    = Some (BLAKE2_SUCCESS, Some c', Some (blake_digest k F outlen key m @ drop outlen d))"
proof -
  let ?B = "bk_block k"
  obtain n t where t: "bc_t c = blake_counter n" "bc_buflen c = length t" "length t \<le> ?B" "take (length t) (bc_buf c) = t"
    "\<And>m'. blake_iter F ?B (blake_start k outlen (length key)) 0 ((blake_key_block ?B key @ m) @ m') = blake_iter F ?B (bc_h c) n (t @ m')"
    and c: "length (bc_buf c) = ?B" "bc_f c = [0, 0]" "bc_outlen c = outlen"
    using assms(1) by (auto simp: stands_def)
  let ?b = "t @ replicate (?B - length t) 0"
  have w: "mem_write (bc_buf c) (length t) (replicate (?B - length t) 0) = Some ?b"
    using t(3,4) c(1) by (simp add: mem_write_def)
  let ?h = "F (bc_h c) (blake_counter (n + length t)) [- 1, 0] ?b"
  have last: "blake_iter F ?B (bc_h c) n t = ?h" using t(3) by (subst blake_iter.simps) simp
  have "length t < 2 ^ LENGTH('a)" using t(3) fits by simp
  then have cnt: "blake2_count (length t) c = c\<lparr>bc_t := blake_counter (n + length t)\<rparr>"
    using blake2_count_counter [OF t(1)] by blast
  have cmp: "bk_compress k (c\<lparr>bc_t := blake_counter (n + length t), bc_f := [- 1, 0], bc_buf := ?b\<rparr>) ?b
      = Some (c\<lparr>bc_t := blake_counter (n + length t), bc_f := [- 1, 0], bc_buf := ?b, bc_h := ?h\<rparr>)"
    using compress_eq [of ?b] t(3) by simp
  have lh: "length ?h = 8" using t(3) by (intro length_F) simp
  then have "map (\<lambda>i. bk_store k (?h ! i)) [0..<8] = map (bk_store k) ?h"
    by (intro nth_equalityI) simp_all
  moreover have "length (concat (map (bk_store k) xs)) = bk_word k * length xs" for xs
    by (induction xs) (simp_all add: length_store)
  ultimately have rd: "mem_read (concat (map (\<lambda>i. bk_store k (?h ! i)) [0..<8])) 0 outlen
      = Some (take outlen (concat (map (bk_store k) ?h)))" "length (take outlen (concat (map (bk_store k) ?h))) = outlen"
    using assms(2) sizes lh by (simp_all add: mem_read_def)
  have "blake_digest k F outlen key m = take outlen (concat (map (bk_store k) ?h))"
    using t(5) [of "[]"] last by (simp add: blake_digest_def)
  moreover have "mem_write d 0 (take outlen (concat (map (bk_store k) ?h))) = Some (take outlen (concat (map (bk_store k) ?h)) @ drop outlen d)"
    using rd(2) assms(3) by (simp add: mem_write_def)
  ultimately show ?thesis
    using cnt w cmp rd(1) t(2) c(2,3) by (simp add: blake2_final_def Let_def)
qed

text \<open>A message fed in pieces, and in one call.\<close>

lemma blake_pieces_spec:
  assumes "stands h0 outlen m c"
  shows "\<exists>c'. blake2_feed (blake2_update k) (Some (BLAKE2_SUCCESS, Some c)) ps
      = Some (BLAKE2_SUCCESS, Some c') \<and> stands h0 outlen (m @ concat ps) c'"
  using assms
proof (induction ps arbitrary: m c)
  case (Cons p ps)
  obtain c1 where "blake2_update k (Some c) (Some p) (length p) = Some (BLAKE2_SUCCESS, Some c1)" "stands h0 outlen (m @ p) c1"
    using blake_update_spec [OF Cons.prems, of "length p" p] by auto
  then show ?case using Cons.IH [of "m @ p" c1] by (simp add: blake2_feed_def)
qed (simp add: blake2_feed_def)

lemma blake_hash_spec:
  assumes "0 < outlen" "outlen \<le> bk_out k" "length key \<le> bk_key k" "outlen \<le> length d"
  shows "blake2_hash k (Some d) outlen (Some m) (length m) (Some key) (length key)
    = Some (BLAKE2_SUCCESS, Some (blake_digest k F outlen key m @ drop outlen d))"
proof -
  obtain c where c: "(if key = [] then blake2_init k (Some (blake2_local k)) outlen
      else blake2_init_key k (Some (blake2_local k)) outlen (Some key) (length key)) = Some (BLAKE2_SUCCESS, Some c)"
    "stands (blake_start k outlen (length key)) outlen (blake_key_block (bk_block k) key) c"
    using blake_start_spec [OF assms(1-3)] by blast
  obtain c1 where c1: "(if m = [] then Some (BLAKE2_SUCCESS, Some c) else blake2_update k (Some c) (Some m) (length m))
      = Some (BLAKE2_SUCCESS, Some c1)" "stands (blake_start k outlen (length key)) outlen (blake_key_block (bk_block k) key @ m) c1"
    using blake_update_spec [OF c(2), of "length m" m] c(2) by (cases "m = []") auto
  show ?thesis
    using c(1) c1(1) blake_final_spec [OF c1(2) assms(2,4)] by (cases "key = []"; cases "m = []") (auto simp: blake2_hash_def)
qed

lemma blake_all_spec:
  assumes "0 < outlen" "outlen \<le> length d" "outlen \<le> bk_out k \<and> length key \<le> bk_key k"
  shows "(\<exists>c1 c2. blake2_feed (blake2_update k)
        (if key = [] then blake2_init k (Some c) outlen else blake2_init_key k (Some c) outlen (Some key) (length key)) ps
        = Some (BLAKE2_SUCCESS, Some c1)
      \<and> blake2_final k (Some c1) (Some d) outlen
        = Some (BLAKE2_SUCCESS, Some c2, Some (blake_digest k F outlen key (concat ps) @ drop outlen d)))
    \<and> blake2_hash k (Some d) outlen (Some m) (length m) (Some key) (length key)
        = Some (BLAKE2_SUCCESS, Some (blake_digest k F outlen key m @ drop outlen d))"
proof -
  have o: "outlen \<le> bk_out k" "length key \<le> bk_key k" using assms(3) by simp_all
  obtain c0 where c0: "(if key = [] then blake2_init k (Some c) outlen else blake2_init_key k (Some c) outlen (Some key) (length key))
      = Some (BLAKE2_SUCCESS, Some c0)"
    "stands (blake_start k outlen (length key)) outlen (blake_key_block (bk_block k) key) c0"
    using blake_start_spec [OF assms(1) o] by blast
  obtain c1 where "blake2_feed (blake2_update k) (Some (BLAKE2_SUCCESS, Some c0)) ps = Some (BLAKE2_SUCCESS, Some c1)"
    "stands (blake_start k outlen (length key)) outlen (blake_key_block (bk_block k) key @ concat ps) c1"
    using blake_pieces_spec [OF c0(2)] by blast
  then show ?thesis
    unfolding c0(1) using blake_final_spec [OF _ o(1) assms(2)] blake_hash_spec [OF assms(1) o assms(2)] by blast
qed

end

subsection \<open>The two functions\<close>

text \<open>The effect of the code's compression functions on the hash words; \<open>blake2b_F_rfc\<close> and \<open>blake2s_F_rfc\<close>
  below show that it is the function \<open>F\<close> of the RFC.\<close>

definition blake2b_F :: "u64 list \<Rightarrow> u64 list \<Rightarrow> u64 list \<Rightarrow> u8 list \<Rightarrow> u64 list" where
  "blake2b_F h t f b = bc_h (the (prv_blake2b_compress \<lparr>bc_h = h, bc_t = t, bc_f = f, bc_buf = [], bc_buflen = 0, bc_outlen = 0\<rparr> b))"

definition blake2s_F :: "u32 list \<Rightarrow> u32 list \<Rightarrow> u32 list \<Rightarrow> u8 list \<Rightarrow> u32 list" where
  "blake2s_F h t f b = bc_h (the (prv_blake2s_compress \<lparr>bc_h = h, bc_t = t, bc_f = f, bc_buf = [], bc_buflen = 0, bc_outlen = 0\<rparr> b))"

lemma b2_load_total:
  "off + 8 \<le> length p \<Longrightarrow> \<exists>w. b2_load64_le p off = Some w"
  "off + 4 \<le> length p \<Longrightarrow> \<exists>w. b2_load32_le p off = Some w"
  by (simp_all add: b2_load64_le_def b2_load32_le_def mem_simps)

lemma blake2_words_exist:
  "\<forall>i \<in> set is. \<exists>w. load p i = Some w \<Longrightarrow> \<exists>ws. blake2_words load p is = Some ws"
  by (induction "is") auto

lemma b2b_compress_eq:
  assumes "length b = 128"
  shows "prv_blake2b_compress c b = Some (c\<lparr>bc_h := blake2b_F (bc_h c) (bc_t c) (bc_f c) b\<rparr>)"
    and "length (blake2b_F h t f b) = 8"
proof -
  have "\<forall>i \<in> set (map (\<lambda>i. i * 8) [0..<16]). \<exists>w. b2_load64_le b i = Some w"
    using assms by (auto intro!: b2_load_total(1))
  then obtain m where "blake2_words b2_load64_le b (map (\<lambda>i. i * 8) [0..<16]) = Some m"
    using blake2_words_exist by blast
  then show "prv_blake2b_compress c b = Some (c\<lparr>bc_h := blake2b_F (bc_h c) (bc_t c) (bc_f c) b\<rparr>)"
    and "length (blake2b_F h t f b) = 8"
    by (simp_all add: prv_blake2b_compress_def blake2b_F_def Let_def)
qed

lemma b2s_compress_eq:
  assumes "length b = 64"
  shows "prv_blake2s_compress c b = Some (c\<lparr>bc_h := blake2s_F (bc_h c) (bc_t c) (bc_f c) b\<rparr>)"
    and "length (blake2s_F h t f b) = 8"
proof -
  have "\<forall>i \<in> set (map (\<lambda>i. i * 4) [0..<16]). \<exists>w. b2_load32_le b i = Some w"
    using assms by (auto intro!: b2_load_total(2))
  then obtain m where "blake2_words b2_load32_le b (map (\<lambda>i. i * 4) [0..<16]) = Some m"
    using blake2_words_exist by blast
  then show "prv_blake2s_compress c b = Some (c\<lparr>bc_h := blake2s_F (bc_h c) (bc_t c) (bc_f c) b\<rparr>)"
    and "length (blake2s_F h t f b) = 8"
    by (simp_all add: prv_blake2s_compress_def blake2s_F_def Let_def)
qed

interpretation b2b: blake2_family BLAKE2B blake2b_F
  by unfold_locales
    (simp_all add: BLAKE2B_def b2b_compress_eq b2_load_total b2_store64_le_def blake2b_iv_def)

interpretation b2s: blake2_family BLAKE2S blake2s_F
  by unfold_locales
    (simp_all add: BLAKE2S_def b2s_compress_eq b2_load_total b2_store32_le_def blake2s_iv_def)

subsection \<open>The code's words, rotations and tables are those of the RFC\<close>

lemma rotr_eq: "0 < n \<Longrightarrow> n < 64 \<Longrightarrow> prv_rotr64 w n = word_rotr n w" "0 < n \<Longrightarrow> n < 32 \<Longrightarrow> prv_rotr32 v n = word_rotr n v"
proof -
  show "0 < n \<Longrightarrow> n < 64 \<Longrightarrow> prv_rotr64 w n = word_rotr n w"
    by (rule bit_word_eqI) (auto simp: prv_rotr64_def bit_word_rotr_iff bit_or_iff bit_drop_bit_eq bit_push_bit_iff
        mod_if add.commute [of n] not_le dest: bit_imp_le_length)
  show "0 < n \<Longrightarrow> n < 32 \<Longrightarrow> prv_rotr32 v n = word_rotr n v"
    by (rule bit_word_eqI) (auto simp: prv_rotr32_def bit_word_rotr_iff bit_or_iff bit_drop_bit_eq bit_push_bit_iff
        mod_if add.commute [of n] not_le dest: bit_imp_le_length)
qed

lemma or_push_byte:
  fixes x :: "'a::len word"
  assumes "8 \<le> LENGTH('a)"
  shows "ucast (b :: u8) OR push_bit 8 x = ucast b + 256 * x"
proof -
  have "ucast b OR push_bit 8 x = ucast b + push_bit 8 x"
    by (rule disjunctive_add [symmetric]) (auto simp: bit_ucast_iff bit_push_bit_iff dest: bit_imp_le_length)
  then show ?thesis by (simp add: push_bit_eq_mult)
qed

lemma push_or_8: "push_bit 8 x OR push_bit (8 + n) y = push_bit 8 (x OR push_bit n (y :: 'a::len word))"
  by (simp add: push_bit_or)

lemma load_rfc:
  "off + 8 \<le> length p \<Longrightarrow> b2_load64_le p off = Some (rfc_word (take 8 (drop off p)))"
  "off + 4 \<le> length p \<Longrightarrow> b2_load32_le p off = Some (rfc_word (take 4 (drop off p)))"
proof -
  have cut: "take (Suc n) (drop off p) = p ! off # take n (drop (Suc off) p)" if "off < length p" for n off
    using that by (simp add: Cons_nth_drop_Suc [symmetric])
  have o64: "ucast b0 OR push_bit 8 (ucast b1) OR push_bit 16 (ucast b2) OR push_bit 24 (ucast b3)
      OR push_bit 32 (ucast b4) OR push_bit 40 (ucast b5) OR push_bit 48 (ucast b6) OR push_bit 56 (ucast b7)
    = (rfc_word [b0, b1, b2, b3, b4, b5, b6, b7] :: u64)" for b0 b1 b2 b3 b4 b5 b6 b7 :: u8
  proof -
    show ?thesis
      by (simp add: rfc_word_def push_bit_or or_push_byte [symmetric] or.assoc)
  qed
  have o32: "ucast b0 OR push_bit 8 (ucast b1) OR push_bit 16 (ucast b2) OR push_bit 24 (ucast b3)
    = (rfc_word [b0, b1, b2, b3] :: u32)" for b0 b1 b2 b3 :: u8
    by (simp add: rfc_word_def push_bit_or or_push_byte [symmetric] or.assoc)
  show "off + 8 \<le> length p \<Longrightarrow> b2_load64_le p off = Some (rfc_word (take 8 (drop off p)))"
  proof -
    assume "off + 8 \<le> length p"
    moreover from this have "take 8 (drop off p) = [p ! off, p ! (off + 1), p ! (off + 2), p ! (off + 3),
        p ! (off + 4), p ! (off + 5), p ! (off + 6), p ! (off + 7)]"
      by (simp add: numeral_eq_Suc cut)
    ultimately show ?thesis by (simp add: b2_load64_le_def mem_load_def o64)
  qed
  show "off + 4 \<le> length p \<Longrightarrow> b2_load32_le p off = Some (rfc_word (take 4 (drop off p)))"
  proof -
    assume "off + 4 \<le> length p"
    moreover from this have "take 4 (drop off p) = [p ! off, p ! (off + 1), p ! (off + 2), p ! (off + 3)]"
      by (simp add: numeral_eq_Suc cut)
    ultimately show ?thesis by (simp add: b2_load32_le_def mem_load_def o32)
  qed
qed

lemma store_rfc: "b2_store64_le v = rfc_bytes v" "b2_store32_le w = rfc_bytes w"
proof -
  have byte: "ucast (drop_bit (8 * i) x AND 0xff) = (of_nat (unat x div 256 ^ i) :: u8)" for x :: "'a::len word" and i
  proof -
    have "unat x div 256 ^ i = unat (drop_bit (8 * i) x)"
      by (simp only: unat_drop_bit_eq drop_bit_nat_def) (simp add: power_mult)
    then have "of_nat (unat x div 256 ^ i) = (of_nat (unat (drop_bit (8 * i) x)) :: u8)" by simp
    also have "\<dots> = ucast (drop_bit (8 * i) x)" by simp
    also have "\<dots> = ucast (drop_bit (8 * i) x AND 0xff)"
    proof -
      have "drop_bit (8 * i) x AND 0xff = take_bit 8 (drop_bit (8 * i) x)"
        by (simp add: take_bit_eq_mask mask_eq_exp_minus_1)
      then show ?thesis
        by (intro bit_word_eqI) (auto simp: bit_simps dest: bit_imp_le_length)
    qed
    finally show ?thesis by simp
  qed
  have upts: "[0..<LENGTH(64) div 8] = [0, 1, 2, 3, 4, 5, 6, 7]" "[0..<LENGTH(32) div 8] = [0, 1, 2, 3]"
    by (simp_all add: upt_rec)
  show "b2_store64_le v = rfc_bytes v" "b2_store32_le w = rfc_bytes w"
    unfolding b2_store64_le_def b2_store32_le_def rfc_bytes_def byte by (simp_all only: upts)
qed

lemma sigma_rfc: "r < 12 \<Longrightarrow> blake2b_sigma ! r = rfc_sigma ! (r mod 10)" "r < 10 \<Longrightarrow> blake2s_sigma ! r = rfc_sigma ! (r mod 10)"
proof -
  have "list_all (\<lambda>r. blake2b_sigma ! r = rfc_sigma ! (r mod 10)) [0..<12]"
    "list_all (\<lambda>r. blake2s_sigma ! r = rfc_sigma ! (r mod 10)) [0..<10]" by code_simp+
  then show "r < 12 \<Longrightarrow> blake2b_sigma ! r = rfc_sigma ! (r mod 10)" "r < 10 \<Longrightarrow> blake2s_sigma ! r = rfc_sigma ! (r mod 10)"
    by (simp_all add: list_all_iff)
qed

lemma eight_updates:
  assumes "distinct [a, b, c, d]" "a < length v" "b < length v" "c < length v" "d < length v"
  shows "v[a := a1, d := d1, c := c1, b := b1, a := a2, d := d2, c := c2, b := b2] = v[a := a2, b := b2, c := c2, d := d2]"
  using assms by (intro nth_equalityI) (auto simp: nth_list_update)

lemma rfc_G_eq:
  assumes "distinct [a, b, c, d]" "a < length v" "b < length v" "c < length v" "d < length v"
  shows "rfc_G P a b c d x y v =
     (let A = v ! a; B = v ! b; C = v ! c; D = v ! d;
          A = A + B + x; D = word_rotr (rp_r1 P) (D XOR A); C = C + D; B = word_rotr (rp_r2 P) (B XOR C);
          A = A + B + y; D = word_rotr (rp_r3 P) (D XOR A); C = C + D; B = word_rotr (rp_r4 P) (B XOR C)
      in v[a := A, b := B, c := C, d := D])"
  using assms by (simp add: rfc_G_def rfc_add_def rfc_rot_def Let_def eight_updates)

lemma G_rfc:
  assumes "distinct [a, b, c, d]" "a < 16" "b < 16" "c < 16" "d < 16"
  shows "length v = 16 \<Longrightarrow> B2B_G m r i a b c d v
      = rfc_G RFC_BLAKE2B a b c d (m ! (blake2b_sigma ! r ! (2 * i))) (m ! (blake2b_sigma ! r ! (2 * i + 1))) v"
    and "length w = 16 \<Longrightarrow> B2S_G n r i a b c d w
      = rfc_G RFC_BLAKE2S a b c d (n ! (blake2s_sigma ! r ! (2 * i))) (n ! (blake2s_sigma ! r ! (2 * i + 1))) w"
  using assms by (simp_all add: rfc_G_eq B2B_G_def B2S_G_def RFC_BLAKE2B_def RFC_BLAKE2S_def rotr_eq)

lemma length_rfc_G [simp]: "length (rfc_G P a b c d x y v) = length v"
  by (simp add: rfc_G_def rfc_add_def rfc_rot_def)

lemma length_rfc_round [simp]: "length (rfc_round P m s v) = length v"
  by (simp add: rfc_round_def Let_def)

lemma round_rfc:
  "length v = 16 \<Longrightarrow> r < 12 \<Longrightarrow> blake2b_round m r v = rfc_round RFC_BLAKE2B m (rfc_sigma ! (r mod 10)) v"
  "length w = 16 \<Longrightarrow> r < 10 \<Longrightarrow> blake2s_round n r w = rfc_round RFC_BLAKE2S n (rfc_sigma ! (r mod 10)) w"
  by (simp_all add: blake2b_round_def blake2s_round_def rfc_round_def Let_def G_rfc sigma_rfc)

lemma foldl_rounds:
  assumes "\<And>v r. length v = 16 \<Longrightarrow> r \<in> set rs \<Longrightarrow> f v r = g v r" "\<And>v r. length (g v r) = length v" "length v = 16"
  shows "foldl f v rs = foldl g v rs \<and> length (foldl g v rs) = 16"
  using assms by (induction rs arbitrary: v) auto

lemma words_all:
  "(\<And>i. i \<in> set js \<Longrightarrow> load p i = Some (f i)) \<Longrightarrow> blake2_words load p js = Some (map f js)"
  by (induction js) auto

lemma words_rfc:
  "length b = 128 \<Longrightarrow> blake2_words b2_load64_le b (map (\<lambda>i. i * 8) [0..<16]) = Some (rfc_block b)"
  "length c = 64 \<Longrightarrow> blake2_words b2_load32_le c (map (\<lambda>i. i * 4) [0..<16]) = Some (rfc_block c)"
proof -
  show "length b = 128 \<Longrightarrow> blake2_words b2_load64_le b (map (\<lambda>i. i * 8) [0..<16]) = Some (rfc_block b)"
    by (subst words_all [where f = "\<lambda>i. rfc_word (take 8 (drop i b))"])
      (auto simp: load_rfc(1) rfc_block_def rfc_pad_def Let_def)
  show "length c = 64 \<Longrightarrow> blake2_words b2_load32_le c (map (\<lambda>i. i * 4) [0..<16]) = Some (rfc_block c)"
    by (subst words_all [where f = "\<lambda>i. rfc_word (take 4 (drop i c))"])
      (auto simp: load_rfc(2) rfc_block_def rfc_pad_def Let_def)
qed

subsection \<open>The code's compression is that of the RFC\<close>

definition final_flag :: "bool \<Rightarrow> 'a::len word list" where
  "final_flag f = [if f then - 1 else 0, 0]"

lemma rounds_rfc:
  "length v = 16 \<Longrightarrow> foldl (\<lambda>v r. blake2b_round m r v) v [0..<12]
    = foldl (\<lambda>v i. rfc_round RFC_BLAKE2B m (rfc_sigma ! (i mod 10)) v) v [0..<12]"
  "length w = 16 \<Longrightarrow> foldl (\<lambda>v r. blake2s_round n r v) w [0..<10]
    = foldl (\<lambda>v i. rfc_round RFC_BLAKE2S n (rfc_sigma ! (i mod 10)) v) w [0..<10]"
  by (rule foldl_rounds [THEN conjunct1]; simp add: round_rfc)+

lemma of_nat_mod_word: "(of_nat (n mod 2 ^ LENGTH('a)) :: 'a::len word) = of_nat n"
  by (simp add: word_unat_eq_iff unat_of_nat)

lemma eight_words: "length h = 8 \<Longrightarrow> \<exists>h0 h1 h2 h3 h4 h5 h6 h7. h = [h0, h1, h2, h3, h4, h5, h6, h7]"
  by (auto simp: length_Suc_conv numeral_eq_Suc)

lemma blake2b_F_rfc:
  assumes "length h = 8" "length b = 128"
  shows "blake2b_F h (blake_counter n) (final_flag f) b = rfc_F RFC_BLAKE2B h (rfc_block b) n f"
proof -
  obtain h0 h1 h2 h3 h4 h5 h6 h7 where h: "h = [h0, h1, h2, h3, h4, h5, h6, h7]"
    using eight_words [OF assms(1)] by blast
  have up: "[0..<8] = [0, 1, 2, 3, 4, 5, 6, 7]" by (simp add: upt_rec)
  let ?u = "(h @ rfc_iv)[12 := (h @ rfc_iv) ! 12 XOR of_nat (n mod 2 ^ LENGTH(64))] :: u64 list"
  let ?w = "?u[13 := ?u ! 13 XOR of_nat (n div 2 ^ LENGTH(64))]"
  let ?v = "if f then ?w[14 := ?w ! 14 XOR - 1] else ?w"
  have v: "map (\<lambda>i. h ! i) [0..<8] @
       [blake2b_iv ! 0, blake2b_iv ! 1, blake2b_iv ! 2, blake2b_iv ! 3,
        blake2b_iv ! 4 XOR blake_counter n ! 0, blake2b_iv ! 5 XOR blake_counter n ! 1,
        blake2b_iv ! 6 XOR final_flag f ! 0, blake2b_iv ! 7 XOR final_flag f ! 1] = ?v"
    unfolding h up rfc_iv_64 of_nat_mod_word
    by (simp add: blake2b_iv_def blake_counter_def final_flag_def)
  have l: "length ?v = 16" using assms(1) by (simp add: rfc_iv_def)
  have F: "rfc_F RFC_BLAKE2B h m n f = (let v = foldl (\<lambda>v i. rfc_round RFC_BLAKE2B m (rfc_sigma ! (i mod 10)) v) ?v [0..<12]
    in map (\<lambda>i. h ! i XOR v ! i XOR v ! (i + 8)) [0..<8])" for m
    unfolding rfc_F_def Let_def by (simp only: RFC_BLAKE2B_def rfc_params.simps)
  show ?thesis
    unfolding blake2b_F_def prv_blake2b_compress_def words_rfc(1) [OF assms(2)] F rounds_rfc(1) [OF l, symmetric]
    by (simp only: v Let_def xor.assoc Option.bind.bind_lunit option.sel blake2_ctx.simps)
qed

lemma blake2s_F_rfc:
  assumes "length h = 8" "length b = 64"
  shows "blake2s_F h (blake_counter n) (final_flag f) b = rfc_F RFC_BLAKE2S h (rfc_block b) n f"
proof -
  obtain h0 h1 h2 h3 h4 h5 h6 h7 where h: "h = [h0, h1, h2, h3, h4, h5, h6, h7]"
    using eight_words [OF assms(1)] by blast
  have up: "[0..<8] = [0, 1, 2, 3, 4, 5, 6, 7]" by (simp add: upt_rec)
  let ?u = "(h @ rfc_iv)[12 := (h @ rfc_iv) ! 12 XOR of_nat (n mod 2 ^ LENGTH(32))] :: u32 list"
  let ?w = "?u[13 := ?u ! 13 XOR of_nat (n div 2 ^ LENGTH(32))]"
  let ?v = "if f then ?w[14 := ?w ! 14 XOR - 1] else ?w"
  have v: "map (\<lambda>i. h ! i) [0..<8] @
       [blake2s_iv ! 0, blake2s_iv ! 1, blake2s_iv ! 2, blake2s_iv ! 3,
        blake2s_iv ! 4 XOR blake_counter n ! 0, blake2s_iv ! 5 XOR blake_counter n ! 1,
        blake2s_iv ! 6 XOR final_flag f ! 0, blake2s_iv ! 7 XOR final_flag f ! 1] = ?v"
    unfolding h up rfc_iv_32 of_nat_mod_word
    by (simp add: blake2s_iv_def blake_counter_def final_flag_def)
  have l: "length ?v = 16" using assms(1) by (simp add: rfc_iv_def)
  have F: "rfc_F RFC_BLAKE2S h m n f = (let v = foldl (\<lambda>v i. rfc_round RFC_BLAKE2S m (rfc_sigma ! (i mod 10)) v) ?v [0..<10]
    in map (\<lambda>i. h ! i XOR v ! i XOR v ! (i + 8)) [0..<8])" for m
    unfolding rfc_F_def Let_def by (simp only: RFC_BLAKE2S_def rfc_params.simps)
  show ?thesis
    unfolding blake2s_F_def prv_blake2s_compress_def words_rfc(2) [OF assms(2)] F rounds_rfc(2) [OF l, symmetric]
    by (simp only: v Let_def xor.assoc Option.bind.bind_lunit option.sel blake2_ctx.simps)
qed

text \<open>The start: the parameter block, of which only the first word is not zero.\<close>

lemma xor_or_bytes:
  fixes a b c :: "'a::len word"
  assumes "take_bit 8 a = a" "take_bit 8 b = b"
  shows "push_bit 16 c XOR push_bit 8 b XOR a = a OR push_bit 8 (b OR push_bit 8 c)"
proof (rule bit_word_eqI)
  fix n
  have "\<not> bit a n" "\<not> bit b n" if "8 \<le> n" for n
    using that assms by (metis bit_take_bit_iff not_less)+
  then show "bit (push_bit 16 c XOR push_bit 8 b XOR a) n \<longleftrightarrow> bit (a OR push_bit 8 (b OR push_bit 8 c)) n"
    by (cases "n < 8"; cases "n < 16") (auto simp: bit_simps)
qed

lemma param_word:
  assumes "outlen < 256" "keylen < 256" "16 \<le> LENGTH('a)"
  shows "rfc_word ([of_nat outlen, of_nat keylen, 1, 1] @ replicate n 0)
    = (0x01010000 XOR push_bit 8 (of_nat keylen) XOR of_nat outlen :: 'a::len word)"
proof -
  have small: "take_bit 8 (of_nat k :: 'a word) = of_nat k" if "k < 256" for k
    using that by (simp add: take_bit_of_nat take_bit_nat_eq_self)
  have uc: "ucast (of_nat k :: u8) = (of_nat k :: 'a word)" if "k < 256" for k
    using that by (simp add: unsigned_of_nat take_bit_nat_eq_self)
  have z: "horner_sum ucast 256 (replicate n (0 :: u8)) = (0 :: 'a word)" for n
    by (induction n) simp_all
  have len: "8 \<le> LENGTH('a)" using assms(3) by simp
  have "rfc_word ([of_nat outlen, of_nat keylen, 1, 1] @ replicate n 0)
    = (of_nat outlen + 256 * (of_nat keylen + 256 * 0x101) :: 'a word)"
    using assms(1,2) by (simp add: rfc_word_def z uc)
  also have "\<dots> = of_nat outlen OR push_bit 8 (of_nat keylen OR push_bit 8 0x101)"
    unfolding uc [OF assms(1), symmetric] uc [OF assms(2), symmetric] or_push_byte [OF len] ..
  also have "\<dots> = push_bit 16 0x101 XOR push_bit 8 (of_nat keylen) XOR of_nat outlen"
    by (rule xor_or_bytes [OF small small, symmetric]) (use assms(1,2) in simp_all)
  also have "push_bit 16 0x101 = (0x01010000 :: 'a word)" by (simp add: push_bit_eq_mult)
  finally show ?thesis .
qed

lemma param_words:
  fixes k :: "'a::len word blake2_kind"
  assumes "outlen < 256" "keylen < 256" "16 \<le> LENGTH('a)" "4 \<le> bk_word k"
    and load: "\<And>off p. off + bk_word k \<le> length p \<Longrightarrow> bk_load k p off = Some (rfc_word (take (bk_word k) (drop off p)))"
  shows "blake2_words (bk_load k) (blake2_param k outlen keylen) (map (\<lambda>i. i * bk_word k) [0..<8])
    = Some ((0x01010000 XOR push_bit 8 (of_nat keylen) XOR of_nat outlen) # replicate 7 0)"
proof -
  let ?w = "bk_word k" and ?p = "blake2_param k outlen keylen"
  let ?f = "\<lambda>i. rfc_word (take ?w (drop i ?p)) :: 'a word"
  have z: "rfc_word (replicate n 0) = (0 :: 'a word)" for n
    by (induction n) (simp_all add: rfc_word_def)
  have lp: "length ?p = 8 * ?w" using assms(4) by (simp add: blake2_param_def)
  have "blake2_words (bk_load k) ?p (map (\<lambda>i. i * ?w) [0..<8]) = Some (map ?f (map (\<lambda>i. i * ?w) [0..<8]))"
  proof (rule words_all)
    fix j assume "j \<in> set (map (\<lambda>i. i * ?w) [0..<8])"
    then obtain i where i: "j = i * ?w" "i < 8"
      unfolding set_map set_upt image_iff Bex_def atLeastLessThan_iff by blast
    then have "i * ?w + ?w \<le> 8 * ?w" using mult_le_mono1 [of "Suc i" 8 ?w] by simp
    then show "bk_load k ?p j = Some (?f j)" using i lp by (intro load) simp
  qed
  moreover have "?f 0 = 0x01010000 XOR push_bit 8 (of_nat keylen) XOR of_nat outlen"
  proof -
    have "take ?w ?p = [of_nat outlen, of_nat keylen, 1, 1] @ replicate (?w - 4) 0"
      using assms(4) by (simp add: blake2_param_def take_Cons' min_def numeral_eq_Suc)
    then show ?thesis using param_word [OF assms(1-3)] by simp
  qed
  moreover have "?f (i * ?w) = 0" if "0 < i" for i
  proof -
    have "4 \<le> i * ?w" using that assms(4) by (cases i) simp_all
    then have "drop (i * ?w) ?p = replicate (8 * ?w - 4 - (i * ?w - 4)) 0"
      unfolding blake2_param_def drop_append by simp
    then show ?thesis by (simp add: z)
  qed
  then have "map (\<lambda>i. ?f (Suc i * ?w)) [0..<7] = map (\<lambda>_. 0) [0..<7]"
    by (intro map_cong [OF refl]) (simp only: zero_less_Suc)
  moreover have "map ?f (map (\<lambda>i. i * ?w) [0..<8]) = ?f 0 # map (\<lambda>i. ?f (Suc i * ?w)) [0..<7]"
  proof -
    have "[0..<8] = 0 # map Suc [0..<7]" by (simp add: map_Suc_upt upt_conv_Cons)
    then show ?thesis by (simp only: list.map map_map comp_def mult_0)
  qed
  ultimately show ?thesis by (simp only: map_replicate_const length_upt) simp
qed

lemma start_rfc:
  assumes "outlen < 256" "keylen < 256"
  shows "blake_start BLAKE2B outlen keylen = rfc_iv[0 := rfc_iv ! 0 XOR (0x01010000 XOR push_bit 8 (of_nat keylen) XOR of_nat outlen)]"
    and "blake_start BLAKE2S outlen keylen = rfc_iv[0 := rfc_iv ! 0 XOR (0x01010000 XOR push_bit 8 (of_nat keylen) XOR of_nat outlen)]"
proof -
  have r: "replicate 7 0 = [0, 0, 0, 0, 0, 0, 0 :: 'a::zero]" by (simp add: numeral_eq_Suc)
  have b: "blake2_words (bk_load BLAKE2B) (blake2_param BLAKE2B outlen keylen) (map (\<lambda>i. i * bk_word BLAKE2B) [0..<8])
    = Some ((0x01010000 XOR push_bit 8 (of_nat keylen) XOR of_nat outlen) # replicate 7 0)"
    using assms by (intro param_words) (simp_all add: BLAKE2B_def load_rfc)
  show "blake_start BLAKE2B outlen keylen = rfc_iv[0 := rfc_iv ! 0 XOR (0x01010000 XOR push_bit 8 (of_nat keylen) XOR of_nat outlen)]"
    unfolding blake_start_def b r rfc_iv_64 by (simp add: BLAKE2B_def blake2b_iv_def)
  have s: "blake2_words (bk_load BLAKE2S) (blake2_param BLAKE2S outlen keylen) (map (\<lambda>i. i * bk_word BLAKE2S) [0..<8])
    = Some ((0x01010000 XOR push_bit 8 (of_nat keylen) XOR of_nat outlen) # replicate 7 0)"
    using assms by (intro param_words) (simp_all add: BLAKE2S_def load_rfc)
  show "blake_start BLAKE2S outlen keylen = rfc_iv[0 := rfc_iv ! 0 XOR (0x01010000 XOR push_bit 8 (of_nat keylen) XOR of_nat outlen)]"
    unfolding blake_start_def s r rfc_iv_32 by (simp add: BLAKE2S_def blake2s_iv_def)
qed

subsection \<open>The iteration over the blocks\<close>

lemma length_rfc_F [simp]: "length (rfc_F P h m n f) = 8"
  by (simp add: rfc_F_def Let_def)

lemma blake_iter_rfc:
  fixes h :: "'a::len word list"
  assumes F: "\<And>h b n f. length h = 8 \<Longrightarrow> length b = bs \<Longrightarrow> F h (blake_counter n) (final_flag f) b = rfc_F P h (rfc_block b) n f"
    and bs: "0 < bs" and h: "length h = 8"
  shows "blake_iter F bs h n xs = rfc_F P
      (foldl (\<lambda>h i. rfc_F P h (rfc_block (take bs (drop (i * bs) xs))) (n + (i + 1) * bs) False) h [0..<(length xs - 1) div bs])
      (rfc_block (rfc_pad bs (drop ((length xs - 1) div bs * bs) xs))) (n + length xs) True"
  using h
proof (induction "length xs" arbitrary: h n xs rule: less_induct)
  case less
  note F0 = F [where f = False, unfolded final_flag_def, simplified]
    and F1 = F [where f = True, unfolded final_flag_def, simplified]
  show ?case
  proof (cases "length xs > bs")
    case False
    then have "(length xs - 1) div bs = 0" using bs by (intro div_less) linarith
    then show ?thesis using False less.prems F1 by (subst blake_iter.simps) (simp add: rfc_pad_def)
  next
    case True
    let ?ys = "drop bs xs" and ?h = "rfc_F P h (rfc_block (take bs xs)) (n + bs) False"
    have q: "(length xs - 1) div bs = Suc ((length ?ys - 1) div bs)"
    proof -
      have "length xs - 1 = (length ?ys - 1) + bs" using True by simp
      moreover have "((length ?ys - 1) + bs) div bs = Suc ((length ?ys - 1) div bs)"
        by (subst div_add_self2) (use bs in simp_all)
      ultimately show ?thesis by (simp only:)
    qed
    have up: "[0..<Suc m] = 0 # map Suc [0..<m]" for m by (simp add: map_Suc_upt upt_conv_Cons)
    have "blake_iter F bs h n xs = blake_iter F bs ?h (n + bs) ?ys"
      using True bs less.prems F0 by (subst blake_iter.simps) simp
    also have "\<dots> = rfc_F P
      (foldl (\<lambda>h i. rfc_F P h (rfc_block (take bs (drop (i * bs) ?ys))) (n + bs + (i + 1) * bs) False) ?h [0..<(length ?ys - 1) div bs])
      (rfc_block (rfc_pad bs (drop ((length ?ys - 1) div bs * bs) ?ys))) (n + bs + length ?ys) True"
      using True bs by (intro less.hyps) simp_all
    finally show ?thesis
      unfolding q up foldl_map foldl.simps using True
      by (simp only: mult_Suc drop_drop add_Suc plus_nat.add_0 mult_1 mult_0 drop_0 Suc_eq_plus1 [symmetric]
          add.commute [of _ bs] add.assoc add.left_commute [of bs n] length_drop)
        (simp add: add.commute [of n bs])
  qed
qed

lemma rfc_block_pad: "rfc_block (rfc_pad (16 * (LENGTH('a) div 8)) b) = (rfc_block b :: 'a::len word list)"
  by (simp add: rfc_block_def rfc_pad_def Let_def)

lemma rfc_data_blocks:
  assumes "bs = 16 * (LENGTH('a) div 8)" "0 < bs" "length key \<le> bs"
  shows "(rfc_data key m :: 'a::len word list list) = map (\<lambda>i. rfc_block (take bs (drop (i * bs) (blake_key_block bs key @ m))))
    [0..<Suc ((length (blake_key_block bs key @ m) - 1) div bs)]"
proof -
  have ceil: "(l + bs - 1) div bs = Suc ((l - 1) div bs)" if "0 < l" for l
  proof -
    have "l + bs - 1 = (l - 1) + bs" using that by simp
    moreover have "((l - 1) + bs) div bs = Suc ((l - 1) div bs)" by (subst div_add_self2) (use assms(2) in simp_all)
    ultimately show ?thesis by (simp only:)
  qed
  show ?thesis
  proof (cases "key = []")
    case True
    show ?thesis
    proof (cases "m = []")
      case True
      then show ?thesis using \<open>key = []\<close> by (simp add: rfc_data_def blake_key_block_def)
    next
      case False
      then show ?thesis
        using \<open>key = []\<close> ceil [of "length m"] assms(1) by (simp add: rfc_data_def blake_key_block_def Let_def del: upt_Suc)
    qed
  next
    case False
    let ?k = "rfc_pad bs key"
    have k: "blake_key_block bs key = ?k" "length ?k = bs" using False assms(3) by (simp_all add: blake_key_block_def rfc_pad_def)
    have q: "Suc ((length (?k @ m) - 1) div bs) = Suc ((length m + bs - 1) div bs)" using k(2) by (simp add: add.commute)
    have up: "[0..<Suc n] = 0 # map Suc [0..<n]" for n by (simp add: map_Suc_upt upt_conv_Cons)
    have d: "drop (Suc i * bs) (?k @ m) = drop (i * bs) m" for i using k(2) by simp
    have "(rfc_data key m :: 'a word list list)
        = rfc_block key # map (\<lambda>i. rfc_block (take bs (drop (i * bs) m))) [0..<(length m + bs - 1) div bs]"
      using False assms(1) by (simp add: rfc_data_def Let_def)
    also have "rfc_block key = (rfc_block (take bs (drop (0 * bs) (?k @ m))) :: 'a word list)"
      using k(2) rfc_block_pad [of key, where 'a = 'a] assms(1) by simp
    finally show ?thesis unfolding k(1) q up list.map map_map comp_def d .
  qed
qed

lemma digest_rfc:
  fixes k :: "'a::len word blake2_kind"
  assumes F: "\<And>h b n f. length h = 8 \<Longrightarrow> length b = bk_block k \<Longrightarrow> F h (blake_counter n) (final_flag f) b = rfc_F P h (rfc_block b) n f"
    and bs: "bk_block k = 16 * (LENGTH('a) div 8)" "0 < bk_block k" "length key \<le> bk_block k"
    and st: "blake_start k outlen (length key)
      = rfc_iv[0 := rfc_iv ! 0 XOR (0x01010000 XOR push_bit 8 (of_nat (length key)) XOR of_nat outlen)]"
    and store: "bk_store k = rfc_bytes"
  shows "blake_digest k F outlen key m = take outlen (concat (map rfc_bytes (rfc7693_state P outlen key m :: 'a word list)))"
proof -
  let ?B = "bk_block k" and ?xs = "blake_key_block (bk_block k) key @ m"
  let ?q = "(length ?xs - 1) div ?B" and ?h = "blake_start k outlen (length key)"
  have d: "(rfc_data key m :: 'a word list list) = map (\<lambda>i. rfc_block (take ?B (drop (i * ?B) ?xs))) [0..<Suc ?q]"
    using rfc_data_blocks [OF bs] .
  have nth: "(rfc_data key m :: 'a word list list) ! i = rfc_block (take ?B (drop (i * ?B) ?xs))" if "i \<le> ?q" for i
    using that unfolding d by (simp del: upt_Suc)
  have last: "rfc_block (rfc_pad ?B (drop (?q * ?B) ?xs)) = (rfc_data key m ! ?q :: 'a word list)"
  proof -
    have "length ?xs - 1 < ?q * ?B + ?B" using dividend_less_div_times [OF bs(2), of "length ?xs - 1"] by simp
    then have "length (drop (?q * ?B) ?xs) \<le> ?B" by simp
    then have "take ?B (drop (?q * ?B) ?xs) = drop (?q * ?B) ?xs" by (rule take_all)
    then show ?thesis using nth [of ?q] rfc_block_pad [where 'a = 'a] bs(1) by simp
  qed
  have len: "length (rfc_data key m :: 'a word list list) - 1 = ?q" unfolding d by simp
  have total: "0 + length ?xs = (if key = [] then length m else length m + 16 * (LENGTH('a) div 8))"
    using bs(1,3) by (simp add: blake_key_block_def)
  have h8: "length ?h = 8" unfolding st by (simp add: rfc_iv_def)
  have fold': "foldl (\<lambda>h i. rfc_F P h (rfc_block (take ?B (drop (i * ?B) ?xs))) (0 + (i + 1) * ?B) False) ?h [0..<?q]
    = foldl (\<lambda>h i. rfc_F P h (rfc_data key m ! i) ((i + 1) * ?B) False) ?h [0..<?q]"
    by (intro foldl_cong refl) (simp add: nth)
  have it: "blake_iter F ?B ?h 0 ?xs = rfc_F P
      (foldl (\<lambda>h i. rfc_F P h (rfc_block (take ?B (drop (i * ?B) ?xs))) (0 + (i + 1) * ?B) False) ?h [0..<?q])
      (rfc_block (rfc_pad ?B (drop (?q * ?B) ?xs))) (0 + length ?xs) True"
    by (rule blake_iter_rfc [OF F bs(2) h8])
  have "blake_iter F ?B ?h 0 ?xs = (rfc7693_state P outlen key m :: 'a word list)"
    unfolding it fold' last total rfc7693_state_def Let_def len bs(1) [symmetric]
    by (simp only: st xor.assoc)
  then show ?thesis by (simp add: blake_digest_def store)
qed

lemma blake_digest_rfc:
  "outlen \<le> 64 \<Longrightarrow> length key \<le> 64 \<Longrightarrow> blake_digest BLAKE2B blake2b_F outlen key m = rfc_blake2b outlen key m"
  "outlen \<le> 32 \<Longrightarrow> length key \<le> 32 \<Longrightarrow> blake_digest BLAKE2S blake2s_F outlen key m = rfc_blake2s outlen key m"
proof -
  show "outlen \<le> 64 \<Longrightarrow> length key \<le> 64 \<Longrightarrow> blake_digest BLAKE2B blake2b_F outlen key m = rfc_blake2b outlen key m"
    unfolding rfc_blake2b_def
    by (rule digest_rfc) (simp_all add: BLAKE2B_def blake2b_F_rfc start_rfc [unfolded BLAKE2B_def] store_rfc fun_eq_iff)
  show "outlen \<le> 32 \<Longrightarrow> length key \<le> 32 \<Longrightarrow> blake_digest BLAKE2S blake2s_F outlen key m = rfc_blake2s outlen key m"
    unfolding rfc_blake2s_def
    by (rule digest_rfc) (simp_all add: BLAKE2S_def blake2s_F_rfc start_rfc [unfolded BLAKE2S_def] store_rfc fun_eq_iff)
qed

subsection \<open>The hash of RFC 7693\<close>

text \<open>
  C34. With or without a key, and with any digest length that is allowed, BLAKE2b and BLAKE2s of a message fed in
  any pieces, or in one call, are the hash of RFC 7693: the specification \<open>Blake2_Rfc7693\<close>, written from
  the RFC with its own initial values, schedule, rotations, rounds, mixing and compression functions,
  parameter word and blocks. Nothing is read or written outside the buffers, and of the digest buffer
  only \<open>outlen\<close> bytes are written.
\<close>

theorem blake2_any_pieces:
  assumes "0 < outlen" "outlen \<le> length d"
  shows "(outlen \<le> 64 \<and> length key \<le> 64 \<longrightarrow>
      (\<exists>c1 c2. blake2_feed xy_blake2b_update
          (if key = [] then xy_blake2b_init (Some c) outlen else xy_blake2b_init_key (Some c) outlen (Some key) (length key)) ps
          = Some (BLAKE2_SUCCESS, Some c1)
        \<and> xy_blake2b_final (Some c1) (Some d) outlen
          = Some (BLAKE2_SUCCESS, Some c2, Some (rfc_blake2b outlen key (concat ps) @ drop outlen d)))
      \<and> xy_blake2b (Some d) outlen (Some m) (length m) (Some key) (length key)
          = Some (BLAKE2_SUCCESS, Some (rfc_blake2b outlen key m @ drop outlen d)))
    \<and> (outlen \<le> 32 \<and> length key \<le> 32 \<longrightarrow>
      (\<exists>c1 c2. blake2_feed xy_blake2s_update
          (if key = [] then xy_blake2s_init (Some c') outlen else xy_blake2s_init_key (Some c') outlen (Some key) (length key)) ps
          = Some (BLAKE2_SUCCESS, Some c1)
        \<and> xy_blake2s_final (Some c1) (Some d) outlen
          = Some (BLAKE2_SUCCESS, Some c2, Some (rfc_blake2s outlen key (concat ps) @ drop outlen d)))
      \<and> xy_blake2s (Some d) outlen (Some m) (length m) (Some key) (length key)
          = Some (BLAKE2_SUCCESS, Some (rfc_blake2s outlen key m @ drop outlen d)))"
proof -
  have b: "bk_out BLAKE2B = 64" "bk_key BLAKE2B = 64" and s: "bk_out BLAKE2S = 32" "bk_key BLAKE2S = 32"
    by (simp_all add: BLAKE2B_def BLAKE2S_def)
  show ?thesis
    unfolding xy_blake2b_update_def xy_blake2b_init_def xy_blake2b_init_key_def xy_blake2b_final_def xy_blake2b_def
      xy_blake2s_update_def xy_blake2s_init_def xy_blake2s_init_key_def xy_blake2s_final_def xy_blake2s_def
    using b2b.blake_all_spec [OF assms, of key c ps m, unfolded b] b2s.blake_all_spec [OF assms, of key c' ps m, unfolded s]
    by (metis blake_digest_rfc)
qed

theorem blake2_any_pieces_witness:
  "(\<exists>c1 c2. blake2_feed xy_blake2s_update (xy_blake2s_init_key (Some (blake2_local BLAKE2S)) 32 (Some [1, 2]) 2) [[97], [], [98, 99]]
      = Some (BLAKE2_SUCCESS, Some c1)
    \<and> xy_blake2s_final (Some c1) (Some (replicate 32 0)) 32
      = Some (BLAKE2_SUCCESS, Some c2, Some (rfc_blake2s 32 [1, 2] [97, 98, 99])))
    \<and> xy_blake2b (Some (replicate 32 0)) 32 (Some [97, 98, 99]) 3 (Some [1, 2]) 2
      = Some (BLAKE2_SUCCESS, Some (rfc_blake2b 32 [1, 2] [97, 98, 99]))"
  using blake2_any_pieces [of 32 "replicate 32 0" "[1, 2]" "blake2_local BLAKE2B" "[]" "[97, 98, 99]" "blake2_local BLAKE2S"]
    blake2_any_pieces [of 32 "replicate 32 0" "[1, 2]" "blake2_local BLAKE2B" "[[97], [], [98, 99]]" "[]" "blake2_local BLAKE2S"]
  by (simp add: eval_nat_numeral)

end
