(* ===== verification/Eflash.thy ===== *)
theory Eflash
  imports Xy_Prelude
begin

text \<open>
  The flash simulation of \<open>components/dm/xy_eeprom/eflash.c\<close>. The handle is the record
  \<open>eflash_handle\<close>, its two arrays are lists once they are allocated and \<open>None\<close> where the pointers are
  \<open>NULL\<close>; the allocator is a parameter. Operations return the result code and the handle; \<open>None\<close>
  is undefined behaviour: an access outside an array, through \<open>NULL\<close>, or a division by zero.
\<close>

datatype eflash_result =
    EFLASH_OK | EFLASH_ERROR_INVALID_PARAM | EFLASH_ERROR_OUT_OF_RANGE | EFLASH_ERROR_ALIGNMENT
  | EFLASH_ERROR_WRITE_FAIL | EFLASH_ERROR_ERASE_FAIL | EFLASH_ERROR_NOT_INIT | EFLASH_ERROR_BUSY

definition EFLASH_MAX_PAGES :: u32 where "EFLASH_MAX_PAGES = 64"
definition EFLASH_MAX_PAGE_SIZE :: u32 where "EFLASH_MAX_PAGE_SIZE = 4096"
definition EFLASH_WRITE_UNIT_32BIT :: u32 where "EFLASH_WRITE_UNIT_32BIT = 4"
definition EFLASH_WRITE_UNIT_64BIT :: u32 where "EFLASH_WRITE_UNIT_64BIT = 8"
definition EFLASH_WRITE_UNIT_128BIT :: u32 where "EFLASH_WRITE_UNIT_128BIT = 16"
definition EFLASH_ERASED_VALUE :: u8 where "EFLASH_ERASED_VALUE = 0xFF"

definition EFLASH_IS_ALIGNED :: "u32 \<Rightarrow> u32 \<Rightarrow> bool" where
  "EFLASH_IS_ALIGNED addr align \<longleftrightarrow> addr AND (align - 1) = 0"

record eflash_config =
  ec_total_size :: u32
  ec_page_size :: u32
  ec_page_count :: u32
  ec_write_unit :: u32
  ec_auto_erase :: bool

record eflash_handle =
  eh_config :: eflash_config
  eh_memory :: "u8 list option"
  eh_page_erased :: "bool list option"
  eh_initialized :: bool

text \<open>\<open>memset\<close> over a range and the loop that marks every page.\<close>

definition eflash_fill :: "u8 list \<Rightarrow> nat \<Rightarrow> nat \<Rightarrow> u8 list option" where
  "eflash_fill mem off n = mem_write mem off (replicate n EFLASH_ERASED_VALUE)"

fun eflash_mark :: "bool \<Rightarrow> nat list \<Rightarrow> bool list \<Rightarrow> bool list option" where
  "eflash_mark v [] pages = Some pages"
| "eflash_mark v (i # is) pages = do { p \<leftarrow> mem_store pages i v; eflash_mark v is p }"

subsection \<open>Start and end\<close>

definition eflash_config_refused :: "eflash_config \<Rightarrow> bool" where
  "eflash_config_refused config \<longleftrightarrow>
     ec_page_size config = 0 \<or> ec_page_size config > EFLASH_MAX_PAGE_SIZE
   \<or> ec_page_count config = 0 \<or> ec_page_count config > EFLASH_MAX_PAGES
   \<or> (ec_total_size config > 0 \<and> ec_total_size config \<noteq> ec_page_size config * ec_page_count config)
   \<or> (ec_write_unit config \<noteq> EFLASH_WRITE_UNIT_32BIT \<and> ec_write_unit config \<noteq> EFLASH_WRITE_UNIT_64BIT
      \<and> ec_write_unit config \<noteq> EFLASH_WRITE_UNIT_128BIT)"

text \<open>The two calls of \<open>malloc\<close> are parameters: one for the bytes, one for the flags.\<close>

definition eflash_init ::
  "(u32 \<Rightarrow> u8 list option) \<Rightarrow> (u32 \<Rightarrow> bool list option) \<Rightarrow> eflash_handle option \<Rightarrow> eflash_config option
   \<Rightarrow> (eflash_result \<times> eflash_handle option) option" where
  "eflash_init alloc_bytes alloc_flags handle config =
     (case (handle, config) of
        (Some h, Some c) \<Rightarrow>
          if eflash_config_refused c then Some (EFLASH_ERROR_INVALID_PARAM, handle)
          else
            (let total_size = ec_page_size c * ec_page_count c;
                 h1 = (if eh_initialized h then h\<lparr>eh_memory := None\<rparr> else h);
                 h2 = (if eh_initialized h1 then h1\<lparr>eh_page_erased := None\<rparr> else h1)
             in case alloc_bytes total_size of
                  None \<Rightarrow> Some (EFLASH_ERROR_WRITE_FAIL, Some (h2\<lparr>eh_memory := None\<rparr>))
                | Some mem \<Rightarrow>
                    (case alloc_flags (ec_page_count c) of
                       None \<Rightarrow> Some (EFLASH_ERROR_WRITE_FAIL, Some (h2\<lparr>eh_memory := None, eh_page_erased := None\<rparr>))
                     | Some flags \<Rightarrow> do {
                         m \<leftarrow> eflash_fill mem 0 (unat total_size);
                         f \<leftarrow> eflash_mark True [0..<unat (ec_page_count c)] flags;
                         Some (EFLASH_OK, Some (h2\<lparr>eh_config := c\<lparr>ec_total_size := total_size\<rparr>,
                           eh_memory := Some m, eh_page_erased := Some f, eh_initialized := True\<rparr>)) }))
      | _ \<Rightarrow> Some (EFLASH_ERROR_INVALID_PARAM, handle))"

definition eflash_deinit :: "eflash_handle option \<Rightarrow> eflash_result \<times> eflash_handle option" where
  "eflash_deinit handle =
     (case handle of
        None \<Rightarrow> (EFLASH_ERROR_INVALID_PARAM, handle)
      | Some h \<Rightarrow>
          if \<not> eh_initialized h then (EFLASH_ERROR_NOT_INIT, handle)
          else (EFLASH_OK, Some (h\<lparr>eh_memory := None, eh_page_erased := None, eh_initialized := False\<rparr>)))"

subsection \<open>Queries\<close>

definition eflash_get_info ::
  "eflash_handle option \<Rightarrow> eflash_config option \<Rightarrow> eflash_result \<times> eflash_config option" where
  "eflash_get_info handle config =
     (case (handle, config) of
        (Some h, Some c) \<Rightarrow> if \<not> eh_initialized h then (EFLASH_ERROR_NOT_INIT, config) else (EFLASH_OK, Some (eh_config h))
      | _ \<Rightarrow> (EFLASH_ERROR_INVALID_PARAM, config))"

definition eflash_is_address_valid :: "eflash_handle option \<Rightarrow> u32 \<Rightarrow> u32 \<Rightarrow> bool" where
  "eflash_is_address_valid handle address sz =
     (case handle of
        None \<Rightarrow> False
      | Some h \<Rightarrow>
          if \<not> eh_initialized h then False
          else if address \<ge> ec_total_size (eh_config h) then False
          else if address + sz > ec_total_size (eh_config h) then False
          else True)"

definition eflash_get_page_index :: "eflash_handle option \<Rightarrow> u32 \<Rightarrow> u32 option" where
  "eflash_get_page_index handle address =
     (case handle of
        None \<Rightarrow> Some 0
      | Some h \<Rightarrow>
          if \<not> eh_initialized h then Some 0
          else if ec_page_size (eh_config h) = 0 then None
          else Some (address div ec_page_size (eh_config h)))"

definition eflash_is_page_erased :: "eflash_handle option \<Rightarrow> u32 \<Rightarrow> bool option" where
  "eflash_is_page_erased handle page_index =
     (case handle of
        None \<Rightarrow> Some False
      | Some h \<Rightarrow>
          if \<not> eh_initialized h then Some False
          else if page_index \<ge> ec_page_count (eh_config h) then Some False
          else do { pages \<leftarrow> eh_page_erased h; mem_load pages (unat page_index) })"

subsection \<open>Erasing\<close>

definition eflash_erase_page :: "eflash_handle option \<Rightarrow> u32 \<Rightarrow> (eflash_result \<times> eflash_handle option) option" where
  "eflash_erase_page handle page_index =
     (case handle of
        None \<Rightarrow> Some (EFLASH_ERROR_INVALID_PARAM, handle)
      | Some h \<Rightarrow>
          if \<not> eh_initialized h then Some (EFLASH_ERROR_NOT_INIT, handle)
          else if page_index \<ge> ec_page_count (eh_config h) then Some (EFLASH_ERROR_OUT_OF_RANGE, handle)
          else do {
            let page_offset = page_index * ec_page_size (eh_config h);
            mem \<leftarrow> eh_memory h;
            m \<leftarrow> eflash_fill mem (unat page_offset) (unat (ec_page_size (eh_config h)));
            pages \<leftarrow> eh_page_erased h;
            p \<leftarrow> mem_store pages (unat page_index) True;
            Some (EFLASH_OK, Some (h\<lparr>eh_memory := Some m, eh_page_erased := Some p\<rparr>)) })"

definition eflash_erase_sector :: "eflash_handle option \<Rightarrow> u32 \<Rightarrow> (eflash_result \<times> eflash_handle option) option" where
  "eflash_erase_sector handle address =
     (case handle of
        None \<Rightarrow> Some (EFLASH_ERROR_INVALID_PARAM, handle)
      | Some h \<Rightarrow>
          if \<not> eh_initialized h then Some (EFLASH_ERROR_NOT_INIT, handle)
          else do { page_index \<leftarrow> eflash_get_page_index handle address; eflash_erase_page handle page_index })"

definition eflash_erase_all :: "eflash_handle option \<Rightarrow> (eflash_result \<times> eflash_handle option) option" where
  "eflash_erase_all handle =
     (case handle of
        None \<Rightarrow> Some (EFLASH_ERROR_INVALID_PARAM, handle)
      | Some h \<Rightarrow>
          if \<not> eh_initialized h then Some (EFLASH_ERROR_NOT_INIT, handle)
          else do {
            mem \<leftarrow> eh_memory h;
            m \<leftarrow> eflash_fill mem 0 (unat (ec_total_size (eh_config h)));
            pages \<leftarrow> eh_page_erased h;
            p \<leftarrow> eflash_mark True [0..<unat (ec_page_count (eh_config h))] pages;
            Some (EFLASH_OK, Some (h\<lparr>eh_memory := Some m, eh_page_erased := Some p\<rparr>)) })"

subsection \<open>Reading and writing\<close>

text \<open>The result and the object behind \<open>data\<close>.\<close>

definition eflash_read ::
  "eflash_handle option \<Rightarrow> u32 \<Rightarrow> u8 list option \<Rightarrow> u32 \<Rightarrow> (eflash_result \<times> u8 list option) option" where
  "eflash_read handle address data sz =
     (case (handle, data) of
        (Some h, Some d) \<Rightarrow>
          if \<not> eh_initialized h then Some (EFLASH_ERROR_NOT_INIT, data)
          else if sz = 0 then Some (EFLASH_OK, data)
          else if \<not> eflash_is_address_valid handle address sz then Some (EFLASH_ERROR_OUT_OF_RANGE, data)
          else do {
            mem \<leftarrow> eh_memory h;
            bs \<leftarrow> mem_read mem (unat address) (unat sz);
            d' \<leftarrow> mem_write d 0 bs;
            Some (EFLASH_OK, Some d') }
      | _ \<Rightarrow> Some (EFLASH_ERROR_INVALID_PARAM, data))"

text \<open>The loop that erases the pages of the range that are not marked erased.\<close>

fun eflash_auto_erase :: "eflash_handle \<Rightarrow> nat list \<Rightarrow> (eflash_result \<times> eflash_handle) option" where
  "eflash_auto_erase h [] = Some (EFLASH_OK, h)"
| "eflash_auto_erase h (page # ps) = do {
     pages \<leftarrow> eh_page_erased h;
     e \<leftarrow> mem_load pages page;
     if \<not> e then do {
       (r, h') \<leftarrow> eflash_erase_page (Some h) (of_nat page);
       h1 \<leftarrow> h';
       if r \<noteq> EFLASH_OK then Some (r, h1) else eflash_auto_erase h1 ps }
     else eflash_auto_erase h ps }"

text \<open>The loop that programs the bytes: a bit can only be cleared.\<close>

fun eflash_program :: "bool \<Rightarrow> u32 \<Rightarrow> u8 list \<Rightarrow> nat list \<Rightarrow> u8 list \<Rightarrow> (eflash_result \<times> u8 list) option" where
  "eflash_program auto_erase address data [] mem = Some (EFLASH_OK, mem)"
| "eflash_program auto_erase address data (i # is) mem = do {
     let addr = address + of_nat i;
     current \<leftarrow> mem_load mem (unat addr);
     new_val \<leftarrow> mem_load data i;
     if current AND new_val \<noteq> new_val \<and> \<not> auto_erase then Some (EFLASH_ERROR_WRITE_FAIL, mem)
     else do {
       m \<leftarrow> mem_store mem (unat addr) (current AND new_val);
       eflash_program auto_erase address data is m } }"

definition eflash_write ::
  "eflash_handle option \<Rightarrow> u32 \<Rightarrow> u8 list option \<Rightarrow> u32 \<Rightarrow> (eflash_result \<times> eflash_handle option) option" where
  "eflash_write handle address data sz =
     (case (handle, data) of
        (Some h, Some d) \<Rightarrow>
          if \<not> eh_initialized h then Some (EFLASH_ERROR_NOT_INIT, handle)
          else if sz = 0 then Some (EFLASH_OK, handle)
          else if \<not> eflash_is_address_valid handle address sz then Some (EFLASH_ERROR_OUT_OF_RANGE, handle)
          else
            (let write_unit = ec_write_unit (eh_config h) in
             if \<not> EFLASH_IS_ALIGNED address write_unit \<or> \<not> EFLASH_IS_ALIGNED sz write_unit
             then Some (EFLASH_ERROR_ALIGNMENT, handle)
             else do {
               start_page \<leftarrow> eflash_get_page_index handle address;
               end_page \<leftarrow> eflash_get_page_index handle (address + sz - 1);
               (r, h1) \<leftarrow> (if ec_auto_erase (eh_config h)
                 then eflash_auto_erase h [unat start_page..<unat end_page + 1]
                 else Some (EFLASH_OK, h));
               if r \<noteq> EFLASH_OK then Some (r, Some h1)
               else do {
                 mem \<leftarrow> eh_memory h1;
                 (r2, m) \<leftarrow> eflash_program (ec_auto_erase (eh_config h1)) address d [0..<unat sz] mem;
                 let h2 = h1\<lparr>eh_memory := Some m\<rparr>;
                 if r2 \<noteq> EFLASH_OK then Some (r2, Some h2)
                 else do {
                   pages \<leftarrow> eh_page_erased h2;
                   p \<leftarrow> eflash_mark False [unat start_page..<unat end_page + 1] pages;
                   Some (EFLASH_OK, Some (h2\<lparr>eh_page_erased := Some p\<rparr>)) } } })
      | _ \<Rightarrow> Some (EFLASH_ERROR_INVALID_PARAM, handle))"

end
