(* ===== verification/Eflash_Correct.thy ===== *)
theory Eflash_Correct
  imports Eflash
begin

text \<open>
  The flash simulation keeps the shape of its handle, never leaves its arrays on ranges that do not
  wrap, and what automatic erasing does to a write and to its neighbours.
\<close>

subsection \<open>Loops\<close>

lemma and_ones_u8: "0xFF AND (b :: u8) = b"
proof -
  have "(0xFF :: u8) = - 1" by simp
  then show ?thesis by (simp only: and.left_neutral)
qed

lemma eflash_fill_nth:
  assumes "off + n \<le> length mem"
  shows "\<exists>m. eflash_fill mem off n = Some m \<and> length m = length mem \<and>
    (\<forall>i < length mem. m ! i = (if off \<le> i \<and> i < off + n then EFLASH_ERASED_VALUE else mem ! i))"
  using assms by (auto simp: eflash_fill_def mem_write_def nth_append)

lemma eflash_mark_nth:
  "\<forall>i \<in> set is. i < length pages \<Longrightarrow>
   \<exists>p. eflash_mark v is pages = Some p \<and> length p = length pages \<and>
     (\<forall>k < length pages. p ! k = (if k \<in> set is then v else pages ! k))"
proof (induction "is" arbitrary: pages)
  case (Cons i js)
  then obtain p where p: "eflash_mark v js (pages[i := v]) = Some p" "length p = length pages"
    "\<forall>k < length pages. p ! k = (if k \<in> set js then v else pages[i := v] ! k)"
    using Cons.IH [of "pages[i := v]"] by auto
  then show ?case using Cons.prems by (auto simp: mem_store_def nth_list_update)
qed simp

lemma all_from_Suc: "k < n \<Longrightarrow> (\<forall>i. k \<le> i \<and> i < n \<longrightarrow> P i) \<longleftrightarrow> P k \<and> (\<forall>i. Suc k \<le> i \<and> i < n \<longrightarrow> P i)"
  by (auto dest: Suc_leD) (metis le_neq_implies_less not_less_eq_eq le_antisym)

lemma eflash_program_nth:
  assumes "unat address + n \<le> length mem" "length mem < 2 ^ 32" "n \<le> length data" "k \<le> n"
  shows "(auto_erase \<or> (\<forall>i. k \<le> i \<and> i < n \<longrightarrow> mem ! (unat address + i) AND data ! i = data ! i) \<longrightarrow>
      (\<exists>m. eflash_program auto_erase address data [k..<n] mem = Some (EFLASH_OK, m) \<and> length m = length mem \<and>
        (\<forall>j < length mem. m ! j = (if unat address + k \<le> j \<and> j < unat address + n
          then mem ! j AND data ! (j - unat address) else mem ! j))))
    \<and> (\<not> auto_erase \<and> \<not> (\<forall>i. k \<le> i \<and> i < n \<longrightarrow> mem ! (unat address + i) AND data ! i = data ! i) \<longrightarrow>
      (\<exists>m. eflash_program auto_erase address data [k..<n] mem = Some (EFLASH_ERROR_WRITE_FAIL, m) \<and> length m = length mem))"
  using assms
proof (induction "n - k" arbitrary: k mem)
  case 0
  then show ?case by auto
next
  case (Suc d)
  then have k: "k < n" "[k..<n] = k # [Suc k..<n]" by (auto simp: upt_conv_Cons)
  have addr: "unat (address + of_nat k) = unat address + k"
    using Suc.prems k by (simp add: unat_word_ariths unat_of_nat)
  let ?a = "unat address + k"
  let ?new = "mem ! ?a AND data ! k"
  have in_range: "?a < length mem" "k < length data" using Suc.prems k by auto
  note IH = Suc.hyps(1) [of "Suc k" "mem[?a := ?new]"]
  have ih: "d = n - Suc k" "unat address + n \<le> length (mem[?a := ?new])" "length (mem[?a := ?new]) < 2 ^ 32" "Suc k \<le> n"
    using Suc k by auto
  have step: "eflash_program auto_erase address data [k..<n] mem =
     (if ?new \<noteq> data ! k \<and> \<not> auto_erase then Some (EFLASH_ERROR_WRITE_FAIL, mem)
      else eflash_program auto_erase address data [Suc k..<n] (mem[?a := ?new]))"
    unfolding k(2) using in_range by (simp add: addr mem_load_def mem_store_def del: upt_Suc)
  show ?case
  proof (cases "?new \<noteq> data ! k \<and> \<not> auto_erase")
    case True
    then show ?thesis using step k by auto
  next
    case False
    have other: "mem[?a := ?new] ! (unat address + i) = mem ! (unat address + i)" if "Suc k \<le> i" for i
      using that by simp
    have iff: "(\<forall>i. Suc k \<le> i \<and> i < n \<longrightarrow> mem[?a := ?new] ! (unat address + i) AND data ! i = data ! i)
        \<longleftrightarrow> (\<forall>i. Suc k \<le> i \<and> i < n \<longrightarrow> mem ! (unat address + i) AND data ! i = data ! i)"
      using other by simp
    have split: "(\<forall>i. k \<le> i \<and> i < n \<longrightarrow> mem ! (unat address + i) AND data ! i = data ! i)
        \<longleftrightarrow> ?new = data ! k \<and> (\<forall>i. Suc k \<le> i \<and> i < n \<longrightarrow> mem ! (unat address + i) AND data ! i = data ! i)"
      by (rule all_from_Suc [OF k(1)])
    have run: "eflash_program auto_erase address data [k..<n] mem =
        eflash_program auto_erase address data [Suc k..<n] (mem[?a := ?new])"
      using step False by simp
    have cell: "(if unat address + Suc k \<le> j \<and> j < unat address + n then mem[?a := ?new] ! j AND data ! (j - unat address)
        else mem[?a := ?new] ! j) = (if ?a \<le> j \<and> j < unat address + n then mem ! j AND data ! (j - unat address) else mem ! j)"
      if "j < length mem" for j
      using that k(1) in_range by (auto simp: nth_list_update)
    show ?thesis using IH [OF ih(1) ih(2) ih(3) Suc.prems(3) ih(4)] False unfolding run iff split length_list_update
      using cell by auto
  qed
qed

subsection \<open>The shape of the handle\<close>

text \<open>The types of C do not say that the arrays match the configuration; this does.\<close>

definition eflash_shape :: "eflash_handle \<Rightarrow> u8 list \<Rightarrow> bool list \<Rightarrow> bool" where
  "eflash_shape h mem pages \<longleftrightarrow> eh_initialized h \<and> eh_memory h = Some mem \<and> eh_page_erased h = Some pages
     \<and> 0 < ec_page_size (eh_config h) \<and> ec_page_size (eh_config h) \<le> EFLASH_MAX_PAGE_SIZE
     \<and> 0 < ec_page_count (eh_config h) \<and> ec_page_count (eh_config h) \<le> EFLASH_MAX_PAGES
     \<and> ec_total_size (eh_config h) = ec_page_size (eh_config h) * ec_page_count (eh_config h)
     \<and> length mem = unat (ec_total_size (eh_config h)) \<and> length pages = unat (ec_page_count (eh_config h))"

definition eflash_typed :: "eflash_handle \<Rightarrow> bool" where
  "eflash_typed h \<longleftrightarrow> \<not> eh_initialized h \<or>
     (\<exists>mem pages. eflash_shape h mem pages \<and>
       (ec_auto_erase (eh_config h) \<longrightarrow>
         (\<forall>i < length mem. pages ! (i div unat (ec_page_size (eh_config h))) \<longrightarrow> mem ! i = EFLASH_ERASED_VALUE)))"

abbreviation "eflash_page h i \<equiv> i div unat (ec_page_size (eh_config h))"

lemma eflash_total:
  assumes "eflash_shape h mem pages"
  shows "unat (ec_total_size (eh_config h)) = unat (ec_page_size (eh_config h)) * unat (ec_page_count (eh_config h))"
    and "0 < unat (ec_page_size (eh_config h))" "0 < unat (ec_page_count (eh_config h))"
    and "length mem \<le> 262144"
proof -
  have b: "unat (ec_page_size (eh_config h)) \<le> 4096" "unat (ec_page_count (eh_config h)) \<le> 64"
    using assms by (simp_all add: eflash_shape_def EFLASH_MAX_PAGE_SIZE_def EFLASH_MAX_PAGES_def word_le_nat_alt)
  then have le: "unat (ec_page_size (eh_config h)) * unat (ec_page_count (eh_config h)) \<le> 4096 * 64"
    by (rule mult_le_mono)
  then show *: "unat (ec_total_size (eh_config h)) = unat (ec_page_size (eh_config h)) * unat (ec_page_count (eh_config h))"
  proof -
    have "unat (ec_page_size (eh_config h)) * unat (ec_page_count (eh_config h)) < 2 ^ LENGTH(32)" using le by simp
    then show ?thesis using assms by (simp only: eflash_shape_def unat_mult_lem [THEN iffD1])
  qed
  show "length mem \<le> 262144" using * le assms by (simp add: eflash_shape_def)
  show "0 < unat (ec_page_size (eh_config h))" "0 < unat (ec_page_count (eh_config h))"
    using assms by (simp_all add: eflash_shape_def word_less_nat_alt)
qed

lemma eflash_page_in:
  assumes "eflash_shape h mem pages" "i < length mem"
  shows "eflash_page h i < length pages"
  using assms eflash_total [OF assms(1)] by (simp add: eflash_shape_def div_less_iff_less_mult mult.commute)

lemma eflash_page_range:
  assumes "0 < (s :: nat)"
  shows "p * s \<le> i \<and> i < p * s + s \<longleftrightarrow> i div s = p"
  using assms by (auto simp: div_nat_eqI mult.commute) (metis dividend_less_div_times mult.commute add.commute)

subsection \<open>Every operation\<close>

lemma eflash_erase_page_spec:
  assumes "eflash_shape h mem pages" "unat p < length pages"
  shows "\<exists>h' m. eflash_erase_page (Some h) p = Some (EFLASH_OK, Some h') \<and> eflash_shape h' m (pages[unat p := True])
    \<and> eh_config h' = eh_config h \<and> length m = length mem
    \<and> (\<forall>i < length mem. m ! i = (if eflash_page h i = unat p then EFLASH_ERASED_VALUE else mem ! i))"
proof -
  let ?s = "unat (ec_page_size (eh_config h))"
  note tot = eflash_total [OF assms(1)]
  have len: "length mem = ?s * length pages" using assms(1) tot by (simp add: eflash_shape_def)
  have "Suc (unat p) * ?s \<le> length pages * ?s" using assms(2) by (intro mult_le_mono1) simp
  then have fits: "unat p * ?s + ?s \<le> length mem" by (simp add: len mult.commute add.commute)
  have "unat p * ?s < 2 ^ LENGTH(32)" using fits tot(4) by simp
  then have off: "unat (p * ec_page_size (eh_config h)) = unat p * ?s" by (simp only: unat_mult_lem [THEN iffD1])
  obtain m where m: "eflash_fill mem (unat p * ?s) ?s = Some m" "length m = length mem"
    "\<forall>i < length mem. m ! i = (if unat p * ?s \<le> i \<and> i < unat p * ?s + ?s then EFLASH_ERASED_VALUE else mem ! i)"
    using eflash_fill_nth [OF fits] by blast
  have "p < ec_page_count (eh_config h)" using assms by (simp add: eflash_shape_def word_less_nat_alt)
  then have "eflash_erase_page (Some h) p = Some (EFLASH_OK, Some (h\<lparr>eh_memory := Some m, eh_page_erased := Some (pages[unat p := True])\<rparr>))"
    using assms m(1) by (simp add: eflash_erase_page_def eflash_shape_def off mem_store_def not_le)
  moreover have "eflash_shape (h\<lparr>eh_memory := Some m, eh_page_erased := Some (pages[unat p := True])\<rparr>) m (pages[unat p := True])"
    using assms m(2) by (simp add: eflash_shape_def)
  ultimately show ?thesis using m tot(2) by (auto simp: eflash_page_range)
qed

lemma eflash_auto_erase_spec:
  assumes "eflash_shape h mem pages" "\<forall>p \<in> set ps. p < length pages"
  shows "\<exists>h' m pg. eflash_auto_erase h ps = Some (EFLASH_OK, h') \<and> eflash_shape h' m pg
    \<and> eh_config h' = eh_config h \<and> length m = length mem
    \<and> (\<forall>p < length pages. pg ! p = (pages ! p \<or> p \<in> set ps))
    \<and> (\<forall>i < length mem. m ! i = (if eflash_page h i \<in> set ps \<and> \<not> pages ! eflash_page h i then EFLASH_ERASED_VALUE else mem ! i))"
  using assms
proof (induction ps arbitrary: h mem pages)
  case Nil
  then show ?case by auto
next
  case (Cons p ps)
  have sh: "eh_page_erased h = Some pages" "p < length pages" using Cons.prems by (simp_all add: eflash_shape_def)
  show ?case
  proof (cases "pages ! p")
    case True
    then have "eflash_auto_erase h (p # ps) = eflash_auto_erase h ps" using sh by (simp add: mem_load_def)
    then show ?thesis using Cons.IH [OF Cons.prems(1)] Cons.prems(2) True by (auto 0 4)
  next
    case False
    have "length pages \<le> 64" using Cons.prems(1)
      by (simp add: eflash_shape_def EFLASH_MAX_PAGES_def word_le_nat_alt)
    then have up: "unat (of_nat p :: u32) = p" using sh(2) by (simp add: unat_of_nat)
    obtain h1 m1 where h1: "eflash_erase_page (Some h) (of_nat p) = Some (EFLASH_OK, Some h1)"
      "eflash_shape h1 m1 (pages[p := True])" "eh_config h1 = eh_config h" "length m1 = length mem"
      "\<forall>i < length mem. m1 ! i = (if eflash_page h i = p then EFLASH_ERASED_VALUE else mem ! i)"
      using eflash_erase_page_spec [OF Cons.prems(1), of "of_nat p"] sh(2) unfolding up by blast
    have "\<forall>q \<in> set ps. q < length (pages[p := True])" using Cons.prems(2) by simp
    from Cons.IH [OF h1(2) this] obtain h' m pg where ih: "eflash_auto_erase h1 ps = Some (EFLASH_OK, h')"
      "eflash_shape h' m pg" "eh_config h' = eh_config h1" "length m = length m1"
      "\<forall>q < length pages. pg ! q = (pages[p := True] ! q \<or> q \<in> set ps)"
      "\<forall>i < length m1. m ! i = (if eflash_page h1 i \<in> set ps \<and> \<not> pages[p := True] ! eflash_page h1 i
        then EFLASH_ERASED_VALUE else m1 ! i)" by auto
    have run: "eflash_auto_erase h (p # ps) = Some (EFLASH_OK, h')"
      using sh False h1(1) ih(1) by (simp add: mem_load_def)
    have flags: "\<forall>q < length pages. pg ! q = (pages ! q \<or> q \<in> set (p # ps))"
      using ih(5) sh(2) by (auto simp: nth_list_update)
    have cells: "m ! i = (if eflash_page h i \<in> set (p # ps) \<and> \<not> pages ! eflash_page h i then EFLASH_ERASED_VALUE else mem ! i)"
      if "i < length mem" for i
      using ih(6) h1(4,5) that False sh(2) eflash_page_in [OF Cons.prems(1) that]
      by (auto simp: h1(3) nth_list_update)
    show ?thesis
      by (intro exI conjI, rule run, rule ih(2)) (use ih(3,4) h1(3,4) flags cells in simp_all)
  qed
qed


lemma eflash_valid_range:
  assumes "eflash_shape h mem pages" "unat sz \<noteq> 0" "unat address + unat sz < 2 ^ 32"
  shows "eflash_is_address_valid (Some h) address sz \<longleftrightarrow> unat address + unat sz \<le> length mem"
proof -
  have "unat (address + sz) = unat address + unat sz" using assms(3) by (simp add: unat_plus_if_size word_size)
  then show ?thesis using assms by (auto simp: eflash_is_address_valid_def eflash_shape_def word_le_nat_alt word_less_nat_alt not_le not_less)
qed

lemma eflash_read_spec:
  assumes "eflash_shape h mem pages" "unat sz \<noteq> 0" "unat address + unat sz < 2 ^ 32" "unat sz \<le> length data"
  shows "eflash_read (Some h) address (Some data) sz = (if unat address + unat sz \<le> length mem
    then Some (EFLASH_OK, Some (take (unat sz) (drop (unat address) mem) @ drop (unat sz) data))
    else Some (EFLASH_ERROR_OUT_OF_RANGE, Some data))"
proof -
  have sz: "sz \<noteq> 0" "eh_initialized h" "eh_memory h = Some mem" using assms(1,2) by (auto simp: eflash_shape_def)
  show ?thesis using sz eflash_valid_range [OF assms(1-3)] assms(4)
    by (simp add: eflash_read_def mem_read_def mem_write_def)
qed

lemma eflash_page_index:
  assumes "eflash_shape h mem pages"
  shows "\<exists>p. eflash_get_page_index (Some h) address = Some p \<and> unat p = eflash_page h (unat address)"
  using assms by (auto simp: eflash_get_page_index_def eflash_shape_def unat_div)

text \<open>The pages a range touches, and the memory a write starts from.\<close>

definition eflash_touched :: "eflash_handle \<Rightarrow> u32 \<Rightarrow> u32 \<Rightarrow> nat set" where
  "eflash_touched h address sz = {eflash_page h (unat address)..eflash_page h (unat address + unat sz - 1)}"

definition eflash_base :: "eflash_handle \<Rightarrow> u8 list \<Rightarrow> bool list \<Rightarrow> u32 \<Rightarrow> u32 \<Rightarrow> nat \<Rightarrow> u8" where
  "eflash_base h mem pages address sz i =
     (if ec_auto_erase (eh_config h) \<and> eflash_page h i \<in> eflash_touched h address sz \<and> \<not> pages ! eflash_page h i
      then EFLASH_ERASED_VALUE else mem ! i)"

lemma eflash_touched_in:
  assumes "unat address \<le> i" "i < unat address + unat sz"
  shows "eflash_page h i \<in> eflash_touched h address sz"
  using assms by (auto simp: eflash_touched_def intro!: div_le_mono)

text \<open>The bits that would have to be set cannot be: without automatic erasing the write fails then.\<close>

definition eflash_clears :: "u8 list \<Rightarrow> u32 \<Rightarrow> u32 \<Rightarrow> u8 list \<Rightarrow> bool" where
  "eflash_clears mem address sz data \<longleftrightarrow> (\<forall>i < unat sz. mem ! (unat address + i) AND data ! i = data ! i)"

lemma eflash_program_spec:
  assumes "unat address + n \<le> length mem" "length mem < 2 ^ 32" "n \<le> length data"
    and "auto_erase \<or> (\<forall>i < n. mem ! (unat address + i) AND data ! i = data ! i)"
  shows "\<exists>m. eflash_program auto_erase address data [0..<n] mem = Some (EFLASH_OK, m) \<and> length m = length mem \<and>
    (\<forall>j < length mem. m ! j = (if unat address \<le> j \<and> j < unat address + n then mem ! j AND data ! (j - unat address) else mem ! j))"
  using eflash_program_nth [OF assms(1-3), of 0 auto_erase] assms(4) by auto

lemma eflash_program_fails:
  assumes "unat address + n \<le> length mem" "length mem < 2 ^ 32" "n \<le> length data"
    and "\<not> (\<forall>i < n. mem ! (unat address + i) AND data ! i = data ! i)"
  shows "\<exists>m. eflash_program False address data [0..<n] mem = Some (EFLASH_ERROR_WRITE_FAIL, m) \<and> length m = length mem"
  using eflash_program_nth [OF assms(1-3), of 0 False] assms(4) by auto

lemma eflash_write_frame:
  assumes sh: "eflash_shape h mem pages" and sz: "unat sz \<noteq> 0" and fits: "unat address + unat sz \<le> length mem"
    and aligned: "EFLASH_IS_ALIGNED address (ec_write_unit (eh_config h))" "EFLASH_IS_ALIGNED sz (ec_write_unit (eh_config h))"
  obtains h1 m1 pg ps where
    "eflash_shape h1 m1 pg" "eh_config h1 = eh_config h" "length m1 = length mem"
    "\<forall>i < length mem. m1 ! i = eflash_base h mem pages address sz i"
    "\<forall>p < length pages. pg ! p = (pages ! p \<or> ec_auto_erase (eh_config h) \<and> p \<in> eflash_touched h address sz)"
    "set ps = eflash_touched h address sz" "\<forall>p \<in> set ps. p < length pages"
    "\<not> ec_auto_erase (eh_config h) \<longrightarrow> m1 = mem \<and> pg = pages"
    "eflash_write (Some h) address (Some data) sz =
       (case eflash_program (ec_auto_erase (eh_config h)) address data [0..<unat sz] m1 of
          None \<Rightarrow> None
        | Some (r2, m) \<Rightarrow>
            if r2 \<noteq> EFLASH_OK then Some (r2, Some (h1\<lparr>eh_memory := Some m\<rparr>))
            else do { p \<leftarrow> eflash_mark False ps pg; Some (EFLASH_OK, Some (h1\<lparr>eh_memory := Some m, eh_page_erased := Some p\<rparr>)) })"
proof -
  note tot = eflash_total [OF sh]
  have small: "unat address + unat sz < 2 ^ 32" using fits tot(4) by simp
  have "sz \<noteq> 0" using sz by auto
  have last: "unat (address + sz - 1) = unat address + unat sz - 1"
  proof -
    have s: "unat (address + sz) = unat address + unat sz" using small by (simp add: unat_plus_if_size word_size)
    then have "1 \<le> address + sz" using sz by (simp add: word_le_nat_alt)
    then show ?thesis using s by (simp add: unat_sub)
  qed
  obtain p1 p2 where p: "eflash_get_page_index (Some h) address = Some p1" "unat p1 = eflash_page h (unat address)"
    "eflash_get_page_index (Some h) (address + sz - 1) = Some p2" "unat p2 = eflash_page h (unat address + unat sz - 1)"
    using eflash_page_index [OF sh, of address] eflash_page_index [OF sh, of "address + sz - 1"] unfolding last by blast
  define ps where "ps = [unat p1..<unat p2 + 1]"
  have set: "set ps = eflash_touched h address sz" by (auto simp: ps_def eflash_touched_def p)
  have "eflash_page h (unat address + unat sz - 1) < length pages"
    using eflash_page_in [OF sh] fits sz by simp
  then have inp: "\<forall>q \<in> set ps. q < length pages" by (auto simp: ps_def p)
  define e where "e = (if ec_auto_erase (eh_config h) then eflash_auto_erase h ps else Some (EFLASH_OK, h))"
  have "\<exists>h1 m1 pg. e = Some (EFLASH_OK, h1) \<and> eflash_shape h1 m1 pg \<and> eh_config h1 = eh_config h \<and> length m1 = length mem
    \<and> (\<forall>q < length pages. pg ! q = (pages ! q \<or> ec_auto_erase (eh_config h) \<and> q \<in> set ps))
    \<and> (\<forall>i < length mem. m1 ! i = eflash_base h mem pages address sz i)
    \<and> (\<not> ec_auto_erase (eh_config h) \<longrightarrow> m1 = mem \<and> pg = pages)"
  proof (cases "ec_auto_erase (eh_config h)")
    case True
    then show ?thesis
      using eflash_auto_erase_spec [OF sh inp] unfolding e_def eflash_base_def set by (simp only: if_True simp_thms)
  next
    case False
    then show ?thesis
      by (intro exI [of _ h] exI [of _ mem] exI [of _ pages]) (simp add: sh e_def eflash_base_def)
  qed
  then obtain h1 m1 pg where h1: "e = Some (EFLASH_OK, h1)" "eflash_shape h1 m1 pg" "eh_config h1 = eh_config h" "length m1 = length mem"
    "\<forall>q < length pages. pg ! q = (pages ! q \<or> ec_auto_erase (eh_config h) \<and> q \<in> set ps)"
    "\<forall>i < length mem. m1 ! i = eflash_base h mem pages address sz i"
    "\<not> ec_auto_erase (eh_config h) \<longrightarrow> m1 = mem \<and> pg = pages"
    by blast
  have "eflash_write (Some h) address (Some data) sz =
       (case eflash_program (ec_auto_erase (eh_config h)) address data [0..<unat sz] m1 of
          None \<Rightarrow> None
        | Some (r2, m) \<Rightarrow>
            if r2 \<noteq> EFLASH_OK then Some (r2, Some (h1\<lparr>eh_memory := Some m\<rparr>))
            else do { p \<leftarrow> eflash_mark False ps pg; Some (EFLASH_OK, Some (h1\<lparr>eh_memory := Some m, eh_page_erased := Some p\<rparr>)) })"
  proof -
    have s: "eh_initialized h" "eh_memory h1 = Some m1" "eh_page_erased h1 = Some pg"
      using sh h1(2) by (simp_all add: eflash_shape_def)
    have valid: "eflash_is_address_valid (Some h) address sz" using eflash_valid_range [OF sh sz small] fits by simp
    have "eflash_write (Some h) address (Some data) sz = do {
        (r, h1) \<leftarrow> e;
        if r \<noteq> EFLASH_OK then Some (r, Some h1)
        else do {
          mem \<leftarrow> eh_memory h1;
          (r2, m) \<leftarrow> eflash_program (ec_auto_erase (eh_config h1)) address data [0..<unat sz] mem;
          let h2 = h1\<lparr>eh_memory := Some m\<rparr>;
          if r2 \<noteq> EFLASH_OK then Some (r2, Some h2)
          else do {
            pages \<leftarrow> eh_page_erased h2;
            p \<leftarrow> eflash_mark False ps pages;
            Some (EFLASH_OK, Some (h2\<lparr>eh_page_erased := Some p\<rparr>)) } } }"
      unfolding eflash_write_def option.case prod.case e_def ps_def Let_def
      by (simp only: s valid \<open>sz \<noteq> 0\<close> aligned simp_thms if_False p Option.bind.bind_lunit)
    then show ?thesis
      by (simp only: h1(1,3) s Option.bind.bind_lunit prod.case simp_thms if_False Let_def)
        (cases "eflash_program (ec_auto_erase (eh_config h)) address data [0..<unat sz] m1",
          auto simp: s split: prod.splits)
  qed
  then show ?thesis using that [OF h1(2-4) h1(6) h1(5) [unfolded set] set inp] h1(7) by blast
qed


lemma eflash_write_spec:
  assumes sh: "eflash_shape h mem pages" and sz: "unat sz \<noteq> 0" and fits: "unat address + unat sz \<le> length mem"
    and len: "unat sz \<le> length data"
    and aligned: "EFLASH_IS_ALIGNED address (ec_write_unit (eh_config h))" "EFLASH_IS_ALIGNED sz (ec_write_unit (eh_config h))"
    and ok: "ec_auto_erase (eh_config h) \<or> eflash_clears mem address sz data"
  shows "\<exists>h' m pg. eflash_write (Some h) address (Some data) sz = Some (EFLASH_OK, Some h')
    \<and> eflash_shape h' m pg \<and> eh_config h' = eh_config h \<and> length m = length mem
    \<and> (\<forall>i < length mem. m ! i = (if unat address \<le> i \<and> i < unat address + unat sz
        then eflash_base h mem pages address sz i AND data ! (i - unat address) else eflash_base h mem pages address sz i))
    \<and> (\<forall>p < length pages. pg ! p = (pages ! p \<and> p \<notin> eflash_touched h address sz))"
proof -
  obtain h1 m1 pg ps where w: "eflash_shape h1 m1 pg" "eh_config h1 = eh_config h" "length m1 = length mem"
    "\<forall>i < length mem. m1 ! i = eflash_base h mem pages address sz i"
    "\<forall>p < length pages. pg ! p = (pages ! p \<or> ec_auto_erase (eh_config h) \<and> p \<in> eflash_touched h address sz)"
    "set ps = eflash_touched h address sz" "\<forall>p \<in> set ps. p < length pages"
    "\<not> ec_auto_erase (eh_config h) \<longrightarrow> m1 = mem \<and> pg = pages"
    "eflash_write (Some h) address (Some data) sz =
       (case eflash_program (ec_auto_erase (eh_config h)) address data [0..<unat sz] m1 of
          None \<Rightarrow> None
        | Some (r2, m) \<Rightarrow>
            if r2 \<noteq> EFLASH_OK then Some (r2, Some (h1\<lparr>eh_memory := Some m\<rparr>))
            else do { p \<leftarrow> eflash_mark False ps pg; Some (EFLASH_OK, Some (h1\<lparr>eh_memory := Some m, eh_page_erased := Some p\<rparr>)) })"
    by (rule eflash_write_frame [OF sh sz fits aligned, where data = data])
  have small: "length m1 < 2 ^ 32" using w(3) eflash_total(4) [OF sh] by simp
  have lp: "length pg = length pages" using w(1,2) sh by (simp add: eflash_shape_def)
  have "ec_auto_erase (eh_config h) \<or> (\<forall>i < unat sz. m1 ! (unat address + i) AND data ! i = data ! i)"
    using ok w(8) by (auto simp: eflash_clears_def)
  then obtain m where m: "eflash_program (ec_auto_erase (eh_config h)) address data [0..<unat sz] m1 = Some (EFLASH_OK, m)"
    "length m = length m1"
    "\<forall>j < length m1. m ! j = (if unat address \<le> j \<and> j < unat address + unat sz then m1 ! j AND data ! (j - unat address) else m1 ! j)"
    using eflash_program_spec [of address "unat sz" m1 data "ec_auto_erase (eh_config h)"] fits len small w(3) by auto
  obtain p where p: "eflash_mark False ps pg = Some p" "length p = length pg"
    "\<forall>k < length pg. p ! k = (if k \<in> set ps then False else pg ! k)"
    using eflash_mark_nth [of ps pg False] w(7) lp by auto
  let ?h = "h1\<lparr>eh_memory := Some m, eh_page_erased := Some p\<rparr>"
  have "eflash_write (Some h) address (Some data) sz = Some (EFLASH_OK, Some ?h)"
    using w(9) m(1) p(1) by simp
  moreover have "eflash_shape ?h m p" using w(1) m(2) p(2) by (simp add: eflash_shape_def)
  ultimately show ?thesis
    by (intro exI [of _ ?h] exI [of _ m] exI [of _ p] conjI)
      (use w(2,3,4) m(2,3) in \<open>simp_all\<close>, use w(5,6) p(3) lp in \<open>auto\<close>)
qed

lemma eflash_write_refused:
  assumes sh: "eflash_shape h mem pages" and sz: "unat sz \<noteq> 0" and fits: "unat address + unat sz \<le> length mem"
    and len: "unat sz \<le> length data"
    and aligned: "EFLASH_IS_ALIGNED address (ec_write_unit (eh_config h))" "EFLASH_IS_ALIGNED sz (ec_write_unit (eh_config h))"
    and no: "\<not> ec_auto_erase (eh_config h)" "\<not> eflash_clears mem address sz data"
  shows "\<exists>h' m. eflash_write (Some h) address (Some data) sz = Some (EFLASH_ERROR_WRITE_FAIL, Some h')
    \<and> eflash_shape h' m pages \<and> eh_config h' = eh_config h \<and> length m = length mem"
proof -
  obtain h1 m1 pg ps where w: "eflash_shape h1 m1 pg" "eh_config h1 = eh_config h" "length m1 = length mem"
    "\<forall>i < length mem. m1 ! i = eflash_base h mem pages address sz i"
    "\<forall>p < length pages. pg ! p = (pages ! p \<or> ec_auto_erase (eh_config h) \<and> p \<in> eflash_touched h address sz)"
    "set ps = eflash_touched h address sz" "\<forall>p \<in> set ps. p < length pages"
    "\<not> ec_auto_erase (eh_config h) \<longrightarrow> m1 = mem \<and> pg = pages"
    "eflash_write (Some h) address (Some data) sz =
       (case eflash_program (ec_auto_erase (eh_config h)) address data [0..<unat sz] m1 of
          None \<Rightarrow> None
        | Some (r2, m) \<Rightarrow>
            if r2 \<noteq> EFLASH_OK then Some (r2, Some (h1\<lparr>eh_memory := Some m\<rparr>))
            else do { p \<leftarrow> eflash_mark False ps pg; Some (EFLASH_OK, Some (h1\<lparr>eh_memory := Some m, eh_page_erased := Some p\<rparr>)) })"
    by (rule eflash_write_frame [OF sh sz fits aligned, where data = data])
  have "length mem < 2 ^ 32" using eflash_total(4) [OF sh] by simp
  then obtain m where m: "eflash_program False address data [0..<unat sz] mem = Some (EFLASH_ERROR_WRITE_FAIL, m)" "length m = length mem"
    using eflash_program_fails [OF fits _ len] no(2) by (auto simp: eflash_clears_def)
  moreover have m1: "m1 = mem" "pg = pages" using w(8) no(1) by simp_all
  ultimately have "eflash_write (Some h) address (Some data) sz = Some (EFLASH_ERROR_WRITE_FAIL, Some (h1\<lparr>eh_memory := Some m\<rparr>))"
    using w(9) no(1) by simp
  moreover have "eflash_shape (h1\<lparr>eh_memory := Some m\<rparr>) m pages"
    using w(1) m(2) unfolding m1 by (simp add: eflash_shape_def)
  ultimately show ?thesis using w(2) m(2) by (intro exI [of _ "h1\<lparr>eh_memory := Some m\<rparr>"] exI [of _ m]) simp
qed

lemma eflash_erase_all_spec:
  assumes "eflash_shape h mem pages"
  shows "\<exists>h' m pg. eflash_erase_all (Some h) = Some (EFLASH_OK, Some h') \<and> eflash_shape h' m pg \<and> eh_config h' = eh_config h
    \<and> length m = length mem \<and> (\<forall>i < length mem. m ! i = EFLASH_ERASED_VALUE)"
proof -
  obtain m where m: "eflash_fill mem 0 (unat (ec_total_size (eh_config h))) = Some m" "length m = length mem"
    "\<forall>i < length mem. m ! i = EFLASH_ERASED_VALUE"
    using eflash_fill_nth [of 0 "unat (ec_total_size (eh_config h))" mem] assms by (auto simp: eflash_shape_def)
  obtain p where p: "eflash_mark True [0..<unat (ec_page_count (eh_config h))] pages = Some p" "length p = length pages"
    using eflash_mark_nth [of "[0..<unat (ec_page_count (eh_config h))]" pages True] assms by (auto simp: eflash_shape_def)
  show ?thesis using assms m p
    by (intro exI [of _ "h\<lparr>eh_memory := Some m, eh_page_erased := Some p\<rparr>"] exI [of _ m] exI [of _ p])
      (simp add: eflash_erase_all_def eflash_shape_def)
qed

lemma eflash_init_spec:
  assumes "\<not> eflash_config_refused c" "ab (ec_page_size c * ec_page_count c) = Some mem" "af (ec_page_count c) = Some pages"
    and "length mem = unat (ec_page_size c * ec_page_count c)" "length pages = unat (ec_page_count c)"
  shows "\<exists>h' m pg. eflash_init ab af (Some h) (Some c) = Some (EFLASH_OK, Some h') \<and> eflash_shape h' m pg
    \<and> eh_config h' = c\<lparr>ec_total_size := ec_page_size c * ec_page_count c\<rparr> \<and> (\<forall>i < length m. m ! i = EFLASH_ERASED_VALUE)"
proof -
  obtain m where m: "eflash_fill mem 0 (unat (ec_page_size c * ec_page_count c)) = Some m" "length m = length mem"
    "\<forall>i < length mem. m ! i = EFLASH_ERASED_VALUE"
    using eflash_fill_nth [of 0 "unat (ec_page_size c * ec_page_count c)" mem] assms by auto
  obtain p where p: "eflash_mark True [0..<unat (ec_page_count c)] pages = Some p" "length p = length pages"
    using eflash_mark_nth [of "[0..<unat (ec_page_count c)]" pages True] assms by auto
  have c: "0 < ec_page_size c" "ec_page_size c \<le> EFLASH_MAX_PAGE_SIZE" "0 < ec_page_count c" "ec_page_count c \<le> EFLASH_MAX_PAGES"
    using assms(1) by (auto simp: eflash_config_refused_def word_neq_0_conv not_less)
  show ?thesis using assms m p c
    by (simp add: eflash_init_def Let_def) (intro exI [of _ m] exI [of _ p] conjI, auto simp: eflash_shape_def)
qed


subsection \<open>Reachable handles\<close>

text \<open>
  One call on a handle, with any arguments, whatever its result. The allocator may fail, and returns
  arrays of the requested size when it does not.
\<close>

inductive eflash_step :: "eflash_handle \<Rightarrow> eflash_handle \<Rightarrow> bool" where
  init: "eflash_init ab af (Some h) (Some c) = Some (r, Some h') \<Longrightarrow>
    (\<And>n m. ab n = Some m \<Longrightarrow> length m = unat n) \<Longrightarrow> (\<And>n m. af n = Some m \<Longrightarrow> length m = unat n) \<Longrightarrow>
    eflash_step h h'"
| deinit: "eflash_deinit (Some h) = (r, Some h') \<Longrightarrow> eflash_step h h'"
| erase_page: "eflash_erase_page (Some h) p = Some (r, Some h') \<Longrightarrow> eflash_step h h'"
| erase_sector: "eflash_erase_sector (Some h) a = Some (r, Some h') \<Longrightarrow> eflash_step h h'"
| erase_all: "eflash_erase_all (Some h) = Some (r, Some h') \<Longrightarrow> eflash_step h h'"
| program: "eflash_write (Some h) a (Some data) sz = Some (r, Some h') \<Longrightarrow> eflash_step h h'"

text \<open>
  The state a failing \<open>eflash_init\<close> leaves behind on an initialised handle: still initialised,
  both arrays given back.
\<close>

definition eflash_orphan :: "eflash_handle \<Rightarrow> bool" where
  "eflash_orphan h \<longleftrightarrow> eh_initialized h \<and> eh_memory h = None \<and> eh_page_erased h = None"

lemma eflash_typed_shapeE:
  assumes "eflash_typed h" "eh_initialized h"
  obtains mem pages where "eflash_shape h mem pages"
    "ec_auto_erase (eh_config h) \<Longrightarrow> \<forall>i < length mem. pages ! eflash_page h i \<longrightarrow> mem ! i = EFLASH_ERASED_VALUE"
  using assms by (auto simp: eflash_typed_def)

lemma eflash_typedI:
  "eflash_shape h mem pages \<Longrightarrow>
   (ec_auto_erase (eh_config h) \<Longrightarrow> \<forall>i < length mem. pages ! eflash_page h i \<longrightarrow> mem ! i = EFLASH_ERASED_VALUE) \<Longrightarrow>
   eflash_typed h"
  by (auto simp: eflash_typed_def)

text \<open>Erasing, with the page within the array or not.\<close>

lemma eflash_erase_page_typed:
  assumes "eflash_typed h"
  shows "\<exists>r h'. eflash_erase_page (Some h) p = Some (r, Some h') \<and> eflash_typed h'"
proof (cases "eh_initialized h \<and> p < ec_page_count (eh_config h)")
  case True
  obtain mem pages where sh: "eflash_shape h mem pages"
    "ec_auto_erase (eh_config h) \<Longrightarrow> \<forall>i < length mem. pages ! eflash_page h i \<longrightarrow> mem ! i = EFLASH_ERASED_VALUE"
    using True assms by (auto elim: eflash_typed_shapeE)
  have "unat p < length pages" using True sh(1) by (simp add: eflash_shape_def word_less_nat_alt)
  then obtain h' m where e: "eflash_erase_page (Some h) p = Some (EFLASH_OK, Some h')"
    "eflash_shape h' m (pages[unat p := True])" "eh_config h' = eh_config h" "length m = length mem"
    "\<forall>i < length mem. m ! i = (if eflash_page h i = unat p then EFLASH_ERASED_VALUE else mem ! i)"
    using eflash_erase_page_spec [OF sh(1)] by blast
  have "eflash_typed h'"
    by (rule eflash_typedI [OF e(2)]) (use sh(2) e in \<open>auto simp: nth_list_update\<close>)
  then show ?thesis using e(1) by blast
next
  case False
  then show ?thesis using assms by (auto simp: eflash_erase_page_def not_less)
qed

lemma eflash_erase_sector_typed:
  assumes "eflash_typed h"
  shows "\<exists>r h'. eflash_erase_sector (Some h) a = Some (r, Some h') \<and> eflash_typed h'"
proof (cases "eh_initialized h")
  case True
  then obtain mem pages where "eflash_shape h mem pages" using assms by (auto elim: eflash_typed_shapeE)
  from eflash_page_index [OF this] obtain p where "eflash_get_page_index (Some h) a = Some p" by blast
  then show ?thesis using eflash_erase_page_typed [OF assms, of p] True by (simp add: eflash_erase_sector_def)
qed (use assms in \<open>simp add: eflash_erase_sector_def\<close>)

lemma eflash_erase_all_typed:
  assumes "eflash_typed h"
  shows "\<exists>r h'. eflash_erase_all (Some h) = Some (r, Some h') \<and> eflash_typed h'"
proof (cases "eh_initialized h")
  case True
  then obtain mem pages where "eflash_shape h mem pages" using assms by (auto elim: eflash_typed_shapeE)
  from eflash_erase_all_spec [OF this] obtain h' m pg where e: "eflash_erase_all (Some h) = Some (EFLASH_OK, Some h')"
    "eflash_shape h' m pg" "length m = length mem" "\<forall>i < length mem. m ! i = EFLASH_ERASED_VALUE" by blast
  have "eflash_typed h'" by (rule eflash_typedI [OF e(2)]) (use e in simp)
  then show ?thesis using e(1) by blast
qed (use assms in \<open>simp add: eflash_erase_all_def\<close>)

lemma eflash_write_typed:
  assumes "eflash_typed h" "unat sz \<le> length data" "unat a + unat sz < 2 ^ 32"
  shows "\<exists>r h'. eflash_write (Some h) a (Some data) sz = Some (r, Some h') \<and> eflash_typed h'"
proof (cases "eh_initialized h \<and> sz \<noteq> 0")
  case True
  obtain mem pages where sh: "eflash_shape h mem pages"
    "ec_auto_erase (eh_config h) \<Longrightarrow> \<forall>i < length mem. pages ! eflash_page h i \<longrightarrow> mem ! i = EFLASH_ERASED_VALUE"
    using True assms by (auto elim: eflash_typed_shapeE)
  have sz: "unat sz \<noteq> 0" using True by (simp add: unat_eq_zero)
  note valid = eflash_valid_range [OF sh(1) sz assms(3)]
  consider (range) "\<not> unat a + unat sz \<le> length mem"
    | (align) "unat a + unat sz \<le> length mem"
        "\<not> (EFLASH_IS_ALIGNED a (ec_write_unit (eh_config h)) \<and> EFLASH_IS_ALIGNED sz (ec_write_unit (eh_config h)))"
    | (ok) "unat a + unat sz \<le> length mem" "EFLASH_IS_ALIGNED a (ec_write_unit (eh_config h))"
        "EFLASH_IS_ALIGNED sz (ec_write_unit (eh_config h))"
        "ec_auto_erase (eh_config h) \<or> eflash_clears mem a sz data"
    | (refused) "unat a + unat sz \<le> length mem" "EFLASH_IS_ALIGNED a (ec_write_unit (eh_config h))"
        "EFLASH_IS_ALIGNED sz (ec_write_unit (eh_config h))"
        "\<not> ec_auto_erase (eh_config h)" "\<not> eflash_clears mem a sz data" by blast
  then show ?thesis
  proof cases
    case range
    then show ?thesis using True assms(1) valid by (simp add: eflash_write_def)
  next
    case align
    then show ?thesis using True assms(1) valid by (auto simp: eflash_write_def Let_def)
  next
    case ok
    obtain h' m pg where w: "eflash_write (Some h) a (Some data) sz = Some (EFLASH_OK, Some h')"
      "eflash_shape h' m pg" "eh_config h' = eh_config h" "length m = length mem"
      "\<forall>i < length mem. m ! i = (if unat a \<le> i \<and> i < unat a + unat sz
        then eflash_base h mem pages a sz i AND data ! (i - unat a) else eflash_base h mem pages a sz i)"
      "\<forall>p < length pages. pg ! p = (pages ! p \<and> p \<notin> eflash_touched h a sz)"
      using eflash_write_spec [OF sh(1) sz ok(1) assms(2) ok(2-4)] by blast
    have "m ! i = EFLASH_ERASED_VALUE"
      if auto: "ec_auto_erase (eh_config h)" and i: "i < length mem" and f: "pg ! eflash_page h i" for i
    proof -
      have p: "pages ! eflash_page h i" "eflash_page h i \<notin> eflash_touched h a sz"
        using w(6) f eflash_page_in [OF sh(1) i] by auto
      then show ?thesis
        using w(5) i auto sh(2) eflash_touched_in [of a i sz h] by (auto simp: eflash_base_def)
    qed
    then have "eflash_typed h'" by (intro eflash_typedI [OF w(2)]) (simp add: w(3,4))
    then show ?thesis using w(1) by blast
  next
    case refused
    obtain h' m where w: "eflash_write (Some h) a (Some data) sz = Some (EFLASH_ERROR_WRITE_FAIL, Some h')"
      "eflash_shape h' m pages" "eh_config h' = eh_config h"
      using eflash_write_refused [OF sh(1) sz refused(1) assms(2) refused(2-5)] by blast
    have "eflash_typed h'" by (rule eflash_typedI [OF w(2)]) (simp add: w(3) refused(4))
    then show ?thesis using w(1) by blast
  qed
qed (use assms in \<open>auto simp: eflash_write_def\<close>)

text \<open>A write the code completes has accessed every byte of its range and of its data.\<close>

lemma eflash_program_accesses:
  "eflash_program auto_erase address data is mem = Some (r, m) \<Longrightarrow> length m = length mem
    \<and> (auto_erase \<longrightarrow> r = EFLASH_OK)
    \<and> (r = EFLASH_OK \<longrightarrow> (\<forall>i \<in> set is. unat (address + of_nat i) < length mem \<and> i < length data))"
proof (induction "is" arbitrary: mem)
  case (Cons i "is")
  show ?case
  proof (cases "eflash_program auto_erase address data is
      (mem[unat (address + of_nat i) := mem ! unat (address + of_nat i) AND data ! i]) = Some (r, m)")
    case True
    then show ?thesis
      using Cons.prems Cons.IH [OF True]
      by (auto simp: Let_def mem_load_def mem_store_def split: if_splits)
  next
    case False
    then show ?thesis
      using Cons.prems by (auto simp: Let_def mem_load_def mem_store_def split: if_splits)
  qed
qed simp

lemma eflash_auto_erase_typed:
  "eflash_typed h \<Longrightarrow> eflash_auto_erase h ps = Some (r, h') \<Longrightarrow> eflash_typed h' \<and> eh_config h' = eh_config h
    \<and> eh_initialized h' = eh_initialized h"
proof (induction ps arbitrary: h)
  case (Cons p ps)
  have page: "eh_config h1 = eh_config h \<and> eh_initialized h1 = eh_initialized h"
    if "eflash_erase_page (Some h) q = Some (x, Some h1)" for q x h1
    using that by (auto simp: eflash_erase_page_def Let_def split: if_splits option.splits bind_splits)
  obtain x h1 where e: "eflash_erase_page (Some h) (of_nat p) = Some (x, Some h1)" "eflash_typed h1"
    using eflash_erase_page_typed [OF Cons.prems(1)] by blast
  show ?case
    using Cons.prems Cons.IH [OF e(2)] Cons.IH [OF Cons.prems(1)] e page [OF e(1)]
    by (auto split: if_splits option.splits bind_splits)
qed simp

lemma eflash_write_keeps_typed:
  assumes typed: "eflash_typed h" and w: "eflash_write (Some h) a (Some data) sz = Some (r, Some h')"
  shows "eflash_typed h'"
proof -
  consider (fits) "unat sz \<le> length data" "unat a + unat sz < 2 ^ 32" | (same) "h' = h"
    | (runs) "\<not> (unat sz \<le> length data \<and> unat a + unat sz < 2 ^ 32)" "eh_initialized h"
        "sz \<noteq> 0" "eflash_is_address_valid (Some h) a sz"
        "EFLASH_IS_ALIGNED a (ec_write_unit (eh_config h)) \<and> EFLASH_IS_ALIGNED sz (ec_write_unit (eh_config h))"
    using w by (auto simp: eflash_write_def Let_def split: if_splits)
  then show ?thesis
  proof cases
    case fits
    then show ?thesis using eflash_write_typed [OF typed] w by fastforce
  next
    case same
    then show ?thesis using typed by simp
  next
    case runs
    let ?auto = "ec_auto_erase (eh_config h)"
    obtain sp ep :: u32 and r1 h1
      where h1: "(if ?auto then eflash_auto_erase h [unat sp..<unat ep + 1] else Some (EFLASH_OK, h)) = Some (r1, h1)"
      and w1: "(if r1 \<noteq> EFLASH_OK then Some (r1, Some h1)
        else do {
          mem \<leftarrow> eh_memory h1;
          (r2, m) \<leftarrow> eflash_program (ec_auto_erase (eh_config h1)) a data [0..<unat sz] mem;
          if r2 \<noteq> EFLASH_OK then Some (r2, Some (h1\<lparr>eh_memory := Some m\<rparr>))
          else do {
            pages \<leftarrow> eh_page_erased (h1\<lparr>eh_memory := Some m\<rparr>);
            p \<leftarrow> eflash_mark False [unat sp..<unat ep + 1] pages;
            Some (EFLASH_OK, Some (h1\<lparr>eh_memory := Some m, eh_page_erased := Some p\<rparr>)) } }) = Some (r, Some h')"
      using w runs(2-5) unfolding eflash_write_def Let_def
      by (simp add: bind_eq_Some_conv del: upt_Suc) blast
    have rest: "if r1 \<noteq> EFLASH_OK then h' = h1 else (\<exists>mem r2 m. eh_memory h1 = Some mem
        \<and> eflash_program (ec_auto_erase (eh_config h1)) a data [0..<unat sz] mem = Some (r2, m)
        \<and> (r2 \<noteq> EFLASH_OK \<longrightarrow> h' = h1\<lparr>eh_memory := Some m\<rparr>))"
      using w1 by (auto simp: bind_eq_Some_conv split: if_splits simp del: upt_Suc)
    have t1: "eflash_typed h1" "eh_config h1 = eh_config h" "eh_initialized h1"
      using h1 eflash_auto_erase_typed [OF typed] typed runs(2) by (auto split: if_splits)
    obtain mem pages where sh: "eflash_shape h1 mem pages" using t1(1,3) by (auto elim: eflash_typed_shapeE)
    show ?thesis
    proof (cases "r1 = EFLASH_OK")
      case True
      then obtain r2 m where p: "eflash_program ?auto a data [0..<unat sz] mem = Some (r2, m)"
        "r2 \<noteq> EFLASH_OK \<longrightarrow> h' = h1\<lparr>eh_memory := Some m\<rparr>"
        using rest sh by (auto simp: eflash_shape_def t1(2))
      note acc = eflash_program_accesses [OF p(1)]
      show ?thesis
      proof (cases "r2 = EFLASH_OK")
        case True
        then have all: "unat (a + of_nat i) < length mem \<and> i < length data" if "i < unat sz" for i
          using acc that by simp
        have sz: "0 < unat sz" using runs(3) by (simp add: unat_gt_0)
        then have "unat sz \<le> length data" using all [of "unat sz - 1"] by linarith
        moreover have "unat a + unat sz < 2 ^ 32"
        proof (rule ccontr)
          let ?n = "length mem - unat a"
          assume "\<not> ?thesis"
          moreover have "unat a < length mem"
            using runs(2,4) sh t1(2) by (auto simp: eflash_is_address_valid_def eflash_shape_def word_le_nat_alt split: if_splits)
          moreover have "length mem \<le> 262144" using eflash_total(4) [OF sh] .
          ultimately have n: "?n < unat sz" "unat a + ?n = length mem" "length mem < 2 ^ 32" by auto
          then have "unat (of_nat ?n :: u32) = ?n" by (intro unat_of_nat_u32) simp
          then have "unat (a + of_nat ?n) = length mem" using n by (simp add: unat_plus_if_size word_size unat_of_nat_u32)
          then show False using all [OF n(1)] by simp
        qed
        ultimately show ?thesis using runs(1) by simp
      next
        case False
        then have "\<not> ?auto" "h' = h1\<lparr>eh_memory := Some m\<rparr>" "length m = length mem" using acc p(2) by auto
        then show ?thesis
          using sh t1(2) by (intro eflash_typedI [of _ m pages]) (simp_all add: eflash_shape_def)
      qed
    qed (use rest t1(1) in simp)
  qed
qed

lemma eflash_init_typed:
  assumes "eflash_typed h \<or> eflash_orphan h"
    and "\<And>n m. ab n = Some m \<Longrightarrow> length m = unat n" "\<And>n m. af n = Some m \<Longrightarrow> length m = unat n"
  shows "\<exists>r h'. eflash_init ab af (Some h) (Some c) = Some (r, Some h') \<and>
    (eflash_typed h' \<or> eflash_orphan h' \<and> eh_initialized h \<and> (eflash_orphan h \<or> r = EFLASH_ERROR_WRITE_FAIL))"
proof -
  consider (refused) "eflash_config_refused c"
    | (fail) "\<not> eflash_config_refused c" "ab (ec_page_size c * ec_page_count c) = None \<or> af (ec_page_count c) = None"
    | (ok) mem pages where "\<not> eflash_config_refused c" "ab (ec_page_size c * ec_page_count c) = Some mem"
        "af (ec_page_count c) = Some pages"
    by (cases "ab (ec_page_size c * ec_page_count c)"; cases "af (ec_page_count c)") blast+
  then show ?thesis
  proof cases
    case refused
    then show ?thesis using assms(1) by (auto simp: eflash_init_def eflash_orphan_def)
  next
    case fail
    then show ?thesis
      by (auto simp: eflash_init_def eflash_typed_def eflash_orphan_def Let_def split: option.splits)
  next
    case ok
    from eflash_init_spec [where h = h and ab = ab and af = af, OF ok assms(2) [OF ok(2)] assms(3) [OF ok(3)]]
    obtain h' m pg where i: "eflash_init ab af (Some h) (Some c) = Some (EFLASH_OK, Some h')" "eflash_shape h' m pg"
      "\<forall>i < length m. m ! i = EFLASH_ERASED_VALUE" by blast
    have "eflash_typed h'" by (rule eflash_typedI [OF i(2)]) (use i(3) in simp)
    then show ?thesis using i(1) by blast
  qed
qed

text \<open>Every call keeps the shape, but for an initialisation that fails to allocate.\<close>

lemma eflash_step_typed:
  "eflash_step h h' \<Longrightarrow> eflash_typed h \<Longrightarrow> eflash_typed h' \<or> eflash_orphan h' \<and> eh_initialized h
    \<and> (\<exists>ab af c. eflash_init ab af (Some h) (Some c) = Some (EFLASH_ERROR_WRITE_FAIL, Some h'))"
proof (induction rule: eflash_step.induct)
  case (init ab af h c r h')
  have "\<not> eflash_orphan h" using init by (auto simp: eflash_typed_def eflash_orphan_def eflash_shape_def)
  then show ?case using eflash_init_typed [of h ab af c] init by fastforce
next
  case (deinit h r h')
  then show ?case by (auto simp: eflash_deinit_def eflash_typed_def split: if_splits)
next
  case (erase_page h p r h')
  then show ?case using eflash_erase_page_typed [of h p] by auto
next
  case (erase_sector h a r h')
  then show ?case using eflash_erase_sector_typed [of h a] by auto
next
  case (erase_all h r h')
  then show ?case using eflash_erase_all_typed [of h] by auto
next
  case (program h a data sz r h')
  then show ?case using eflash_write_keeps_typed [of h a data sz r h'] by auto
qed

lemma eflash_orphan_calls:
  assumes "eflash_orphan h"
  shows "eflash_erase_page (Some h) p = Some (r, Some h') \<Longrightarrow> h' = h"
    and "eflash_erase_sector (Some h) a = Some (r, Some h') \<Longrightarrow> h' = h"
    and "eflash_erase_all (Some h) = None"
    and "eflash_write (Some h) a (Some data) sz = Some (r, Some h') \<Longrightarrow> h' = h"
    and "eflash_read (Some h) a (Some data) sz =
      (if sz = 0 then Some (EFLASH_OK, Some data)
       else if \<not> eflash_is_address_valid (Some h) a sz then Some (EFLASH_ERROR_OUT_OF_RANGE, Some data)
       else None)"
proof -
  note o = assms [unfolded eflash_orphan_def]
  show page: "eflash_erase_page (Some h) p = Some (r, Some h') \<Longrightarrow> h' = h" for p
    using o by (auto simp: eflash_erase_page_def Let_def split: if_splits)
  show "eflash_erase_sector (Some h) a = Some (r, Some h') \<Longrightarrow> h' = h"
    using o page by (auto simp: eflash_erase_sector_def split: if_splits bind_splits)
  show "eflash_erase_all (Some h) = None" using o by (simp add: eflash_erase_all_def)
  have "eflash_auto_erase h ps = Some (x, h1) \<Longrightarrow> x = EFLASH_OK \<and> h1 = h" for ps x h1
    using o by (cases ps) auto
  then show "eflash_write (Some h) a (Some data) sz = Some (r, Some h') \<Longrightarrow> h' = h"
    using o by (fastforce simp: eflash_write_def Let_def split: if_splits bind_splits)
  show "eflash_read (Some h) a (Some data) sz =
      (if sz = 0 then Some (EFLASH_OK, Some data)
       else if \<not> eflash_is_address_valid (Some h) a sz then Some (EFLASH_ERROR_OUT_OF_RANGE, Some data)
       else None)"
    using o by (simp add: eflash_read_def)
qed

lemma eflash_step_orphan: "eflash_step h h' \<Longrightarrow> eflash_orphan h \<Longrightarrow> eflash_typed h' \<or> eflash_orphan h'"
proof (induction rule: eflash_step.induct)
  case (init ab af h c r h')
  then show ?case using eflash_init_typed [of h ab af c] by fastforce
next
  case (deinit h r h')
  then show ?case by (auto simp: eflash_deinit_def eflash_typed_def split: if_splits)
qed (auto simp: eflash_orphan_calls(3) dest: eflash_orphan_calls(1,2,4))

lemma eflash_reachable_typed:
  "eflash_step\<^sup>*\<^sup>* h h' \<Longrightarrow> \<not> eh_initialized h \<Longrightarrow> eflash_typed h' \<or> eflash_orphan h'"
proof (induction rule: rtranclp_induct)
  case base
  then show ?case by (simp add: eflash_typed_def)
next
  case (step h1 h2)
  then show ?case using eflash_step_typed [of h1 h2] eflash_step_orphan [of h1 h2] by blast
qed

lemma eflash_shape_not_orphan: "eflash_shape h mem pages \<Longrightarrow> \<not> eflash_orphan h"
  by (simp add: eflash_shape_def eflash_orphan_def)

text \<open>A concrete flash of two pages of eight bytes, as \<open>eflash_init\<close> leaves it.\<close>

definition eflash_zero :: eflash_handle where
  "eflash_zero = \<lparr>eh_config = \<lparr>ec_total_size = 0, ec_page_size = 0, ec_page_count = 0, ec_write_unit = 0, ec_auto_erase = False\<rparr>,
     eh_memory = None, eh_page_erased = None, eh_initialized = False\<rparr>"

definition eflash_small :: "bool \<Rightarrow> eflash_handle" where
  "eflash_small auto_erase = \<lparr>eh_config = \<lparr>ec_total_size = 16, ec_page_size = 8, ec_page_count = 2, ec_write_unit = 4,
       ec_auto_erase = auto_erase\<rparr>,
     eh_memory = Some (replicate 16 0xFF), eh_page_erased = Some [True, True], eh_initialized = True\<rparr>"

lemma eflash_small_init:
  "eflash_init (\<lambda>n. Some (replicate (unat n) 0)) (\<lambda>n. Some (replicate (unat n) False)) (Some eflash_zero)
     (Some \<lparr>ec_total_size = 0, ec_page_size = 8, ec_page_count = 2, ec_write_unit = 4, ec_auto_erase = auto_erase\<rparr>)
   = Some (EFLASH_OK, Some (eflash_small auto_erase))"
proof -
  have "eflash_mark True [0..<2] (replicate 2 False) = Some [True, True]" by code_simp
  moreover have "eflash_fill (replicate 16 0) 0 16 = Some (replicate 16 0xFF)"
    by (simp add: eflash_fill_def mem_write_def EFLASH_ERASED_VALUE_def)
  ultimately show ?thesis
    by (simp add: eflash_init_def eflash_config_refused_def eflash_zero_def eflash_small_def
        EFLASH_MAX_PAGE_SIZE_def EFLASH_MAX_PAGES_def EFLASH_WRITE_UNIT_32BIT_def)
qed

lemma eflash_small_reached: "eflash_step\<^sup>*\<^sup>* eflash_zero (eflash_small auto_erase)"
proof -
  have "eflash_step eflash_zero (eflash_small auto_erase)"
    by (rule eflash_step.init [OF eflash_small_init]) auto
  then show ?thesis by (rule r_into_rtranclp)
qed

lemma eflash_small_shape: "eflash_shape (eflash_small auto_erase) (replicate 16 0xFF) [True, True]"
  by (simp add: eflash_shape_def eflash_small_def EFLASH_MAX_PAGE_SIZE_def EFLASH_MAX_PAGES_def)

lemma eflash_small_aligned: "EFLASH_IS_ALIGNED 4 (ec_write_unit (eh_config (eflash_small auto_erase)))"
  by (simp add: EFLASH_IS_ALIGNED_def eflash_small_def)

lemma eflash_small_auto: "ec_auto_erase (eh_config (eflash_small auto_erase)) = auto_erase"
  by (simp add: eflash_small_def)

text \<open>
  C21. A handle keeps its shape and no call on it gets stuck, with one exception that the theorem pins.
  Whatever calls have been made since the handle was zeroed, with whatever arguments and results, it
  is well formed or it is an orphan. Well formed means: on an initialised handle the two arrays have
  the sizes the configuration announces, and with automatic erasing a page marked erased holds only
  erased bytes; then reading, writing, erasing and asking are defined, for every page, address, size
  and data the range of which does not wrap. A well-formed handle becomes an orphan only by an
  \<open>eflash_init\<close> on it, already initialised, whose allocation fails; on an orphan \<open>eflash_erase_all\<close>
  and every read of a range the flash accepts go through a null pointer.
\<close>

theorem eflash_never_stuck:
  assumes "eflash_step\<^sup>*\<^sup>* h0 h" "\<not> eh_initialized h0" "unat a + unat sz < 2 ^ 32" "unat sz \<le> length data"
  shows "if eflash_orphan h
    then eflash_erase_all (Some h) = None
      \<and> (sz \<noteq> 0 \<and> eflash_is_address_valid (Some h) a sz \<longrightarrow> eflash_read (Some h) a (Some data) sz = None)
    else eflash_typed h
      \<and> eflash_read (Some h) a (Some data) sz \<noteq> None \<and> eflash_write (Some h) a (Some data) sz \<noteq> None
      \<and> eflash_erase_page (Some h) p \<noteq> None \<and> eflash_erase_sector (Some h) a \<noteq> None \<and> eflash_erase_all (Some h) \<noteq> None
      \<and> eflash_is_page_erased (Some h) p \<noteq> None
      \<and> (\<forall>h'. eflash_step h h' \<and> eflash_orphan h' \<longrightarrow> eh_initialized h
          \<and> (\<exists>ab af c. eflash_init ab af (Some h) (Some c) = Some (EFLASH_ERROR_WRITE_FAIL, Some h')))"
proof (cases "eflash_orphan h")
  case True
  then show ?thesis by (simp add: eflash_orphan_calls)
next
  case False
  then have typed: "eflash_typed h" using eflash_reachable_typed [OF assms(1,2)] by simp
  have "eflash_read (Some h) a (Some data) sz \<noteq> None \<and> eflash_is_page_erased (Some h) p \<noteq> None"
  proof (cases "eh_initialized h")
    case True
    then obtain mem pages where sh: "eflash_shape h mem pages" using typed by (auto elim: eflash_typed_shapeE)
    have "eflash_is_page_erased (Some h) p \<noteq> None"
      using sh by (auto simp: eflash_is_page_erased_def eflash_shape_def mem_load_def word_less_nat_alt not_le)
    moreover have "eflash_read (Some h) a (Some data) sz \<noteq> None"
      using eflash_read_spec [OF sh _ assms(3,4)] True by (cases "unat sz = 0") (auto simp: eflash_read_def unat_eq_zero)
    ultimately show ?thesis by simp
  qed (simp add: eflash_read_def eflash_is_page_erased_def)
  moreover have "eh_initialized h \<and> (\<exists>ab af c. eflash_init ab af (Some h) (Some c) = Some (EFLASH_ERROR_WRITE_FAIL, Some h'))"
    if "eflash_step h h'" "eflash_orphan h'" for h'
    using eflash_step_typed [OF that(1) typed] that(2)
    by (auto simp: eflash_typed_def eflash_orphan_def eflash_shape_def)
  ultimately show ?thesis
    using False typed eflash_write_typed [OF typed assms(4,3)] eflash_erase_page_typed [OF typed, of p]
      eflash_erase_sector_typed [OF typed, of a] eflash_erase_all_typed [OF typed] by auto
qed

theorem eflash_never_stuck_witness:
  "eflash_typed (eflash_small True) \<and> eflash_read (Some (eflash_small True)) 12 (Some [1, 2, 3, 4]) 4 \<noteq> None"
  using eflash_never_stuck [OF eflash_small_reached, where a = 12 and sz = 4 and data = "[1, 2, 3, 4]" and p = 0]
    eflash_shape_not_orphan [OF eflash_small_shape]
  by (simp add: eflash_zero_def)

text \<open>
  C22. With automatic erasing a write within the flash succeeds and is read back exactly. Of the bytes
  around it, those in pages it does not touch and those in pages marked erased keep their value;
  every other byte of a page it touches is erased, data of earlier writes included.
\<close>

theorem eflash_write_then_read:
  assumes "eflash_step\<^sup>*\<^sup>* h0 h" "\<not> eh_initialized h0" "eflash_shape h mem pages" "ec_auto_erase (eh_config h)"
    and "0 < unat sz" "unat a + unat sz \<le> length mem" "unat sz \<le> length data" "unat sz \<le> length buf"
    and "EFLASH_IS_ALIGNED a (ec_write_unit (eh_config h))" "EFLASH_IS_ALIGNED sz (ec_write_unit (eh_config h))"
  shows "\<exists>h' m pg. eflash_write (Some h) a (Some data) sz = Some (EFLASH_OK, Some h') \<and> eflash_shape h' m pg
    \<and> eflash_read (Some h') a (Some buf) sz = Some (EFLASH_OK, Some (take (unat sz) data @ drop (unat sz) buf))
    \<and> (\<forall>i < length mem. i < unat a \<or> unat a + unat sz \<le> i \<longrightarrow> m ! i =
        (if eflash_page h i \<in> eflash_touched h a sz \<and> \<not> pages ! eflash_page h i then EFLASH_ERASED_VALUE else mem ! i))"
proof -
  have typed: "eflash_typed h"
    using eflash_reachable_typed [OF assms(1,2)] eflash_shape_not_orphan [OF assms(3)] by simp
  have sz: "unat sz \<noteq> 0" using assms(5) by simp
  have erased: "\<forall>i < length mem. pages ! eflash_page h i \<longrightarrow> mem ! i = EFLASH_ERASED_VALUE"
    using typed assms(3,4) by (auto simp: eflash_typed_def eflash_shape_def)
  obtain h' m pg where w: "eflash_write (Some h) a (Some data) sz = Some (EFLASH_OK, Some h')"
    "eflash_shape h' m pg" "length m = length mem"
    "\<forall>i < length mem. m ! i = (if unat a \<le> i \<and> i < unat a + unat sz
      then eflash_base h mem pages a sz i AND data ! (i - unat a) else eflash_base h mem pages a sz i)"
    using eflash_write_spec [OF assms(3) sz assms(6,7,9,10)] assms(4) by blast
  have "m ! (unat a + k) = data ! k" if "k < unat sz" for k
  proof -
    have "unat a + k < length mem" using that assms(6) by linarith
    moreover have "eflash_page h (unat a + k) \<in> eflash_touched h a sz" using that by (intro eflash_touched_in) auto
    ultimately have "eflash_base h mem pages a sz (unat a + k) = EFLASH_ERASED_VALUE"
      using erased assms(4) by (auto simp: eflash_base_def)
    then show ?thesis using w(4) \<open>unat a + k < length mem\<close> that
      by (simp add: EFLASH_ERASED_VALUE_def and_ones_u8)
  qed
  then have "take (unat sz) (drop (unat a) m) = take (unat sz) data"
    using assms(6,7) w(3) by (intro nth_equalityI) auto
  moreover have "unat a + unat sz < 2 ^ 32" using assms(6) eflash_total(4) [OF assms(3)] by simp
  ultimately have "eflash_read (Some h') a (Some buf) sz = Some (EFLASH_OK, Some (take (unat sz) data @ drop (unat sz) buf))"
    using eflash_read_spec [OF w(2) sz _ assms(8)] assms(6) w(3) by simp
  then show ?thesis using w assms(4) by (intro exI [of _ h'] exI [of _ m] exI [of _ pg]) (auto simp: eflash_base_def)
qed

theorem eflash_write_then_read_witness:
  "\<exists>h'. eflash_write (Some (eflash_small True)) 4 (Some [1, 2, 3, 4]) 4 = Some (EFLASH_OK, Some h')
     \<and> eflash_read (Some h') 4 (Some [0, 0, 0, 0, 9]) 4 = Some (EFLASH_OK, Some [1, 2, 3, 4, 9])"
  using eflash_write_then_read [OF eflash_small_reached _ eflash_small_shape [of True], where a = 4 and sz = 4
      and data = "[1, 2, 3, 4]" and buf = "[0, 0, 0, 0, 9]"] eflash_small_aligned [of True] eflash_small_auto [of True]
  by (fastforce simp: eflash_zero_def)

text \<open>
  Without automatic erasing a write within the flash succeeds exactly when it only clears bits, and
  then changes its own bytes only; otherwise it reports the failure.
\<close>

theorem eflash_write_clears_bits:
  assumes "eflash_shape h mem pages" "\<not> ec_auto_erase (eh_config h)"
    and "0 < unat sz" "unat a + unat sz \<le> length mem" "unat sz \<le> length data"
    and "EFLASH_IS_ALIGNED a (ec_write_unit (eh_config h))" "EFLASH_IS_ALIGNED sz (ec_write_unit (eh_config h))"
  shows "\<exists>h' m pg. eflash_shape h' m pg \<and> length m = length mem \<and>
    (if \<forall>i < unat sz. mem ! (unat a + i) AND data ! i = data ! i
     then eflash_write (Some h) a (Some data) sz = Some (EFLASH_OK, Some h')
       \<and> m = take (unat a) mem @ take (unat sz) data @ drop (unat a + unat sz) mem
     else eflash_write (Some h) a (Some data) sz = Some (EFLASH_ERROR_WRITE_FAIL, Some h') \<and> pg = pages)"
proof -
  have sz: "unat sz \<noteq> 0" using assms(3) by simp
  show ?thesis
  proof (cases "eflash_clears mem a sz data")
    case True
    obtain h' m pg where w: "eflash_write (Some h) a (Some data) sz = Some (EFLASH_OK, Some h')"
      "eflash_shape h' m pg" "length m = length mem"
      "\<forall>i < length mem. m ! i = (if unat a \<le> i \<and> i < unat a + unat sz
        then eflash_base h mem pages a sz i AND data ! (i - unat a) else eflash_base h mem pages a sz i)"
      using eflash_write_spec [OF assms(1) sz assms(4,5,6,7)] True by blast
    have "m = take (unat a) mem @ take (unat sz) data @ drop (unat a + unat sz) mem"
    proof (intro nth_equalityI)
      show "length m = length (take (unat a) mem @ take (unat sz) data @ drop (unat a + unat sz) mem)"
        using w(3) assms(4,5) by simp
      fix i assume "i < length m"
      then have i: "i < length mem" using w(3) by simp
      have "mem ! i AND data ! (i - unat a) = data ! (i - unat a)" if "unat a \<le> i" "i < unat a + unat sz"
        using True that by (auto simp: eflash_clears_def dest!: spec [of _ "i - unat a"])
      then show "m ! i = (take (unat a) mem @ take (unat sz) data @ drop (unat a + unat sz) mem) ! i"
        using w(4) i assms(2,4,5) by (auto simp: eflash_base_def nth_append)
    qed
    then show ?thesis using w True by (intro exI [of _ h'] exI [of _ m] exI [of _ pg]) (simp add: eflash_clears_def)
  next
    case False
    then show ?thesis using eflash_write_refused [OF assms(1) sz assms(4,5,6,7,2) False]
      by (auto simp: eflash_clears_def)
  qed
qed

theorem eflash_write_clears_bits_witness:
  "\<exists>h'. eflash_write (Some (eflash_small False)) 4 (Some [1, 2, 3, 4]) 4 = Some (EFLASH_OK, Some h')"
proof -
  have "\<forall>i < unat (4 :: u32). replicate 16 (0xFF :: u8) ! (unat (4 :: u32) + i) AND [1, 2, 3, 4] ! i = [1, 2, 3, 4] ! i"
    by (simp add: and_ones_u8)
  then show ?thesis
    using eflash_write_clears_bits [OF eflash_small_shape [of False], where a = 4 and sz = 4 and data = "[1, 2, 3, 4]"]
      eflash_small_aligned [of False] eflash_small_auto [of False] by auto
qed

text \<open>
  The range check adds address and size in 32 bits: a read that starts inside the flash and whose
  end passes $2^{32}$ is accepted and copies from outside the memory, instead of being refused as every
  other range that leaves the flash.
\<close>

theorem eflash_range_check_wraps:
  assumes "eflash_shape h mem pages" "unat a < length mem" "unat sz \<le> length data" "0 < unat sz"
  shows "eflash_read (Some h) a (Some data) sz =
    (if unat a + unat sz \<le> length mem then Some (EFLASH_OK, Some (take (unat sz) (drop (unat a) mem) @ drop (unat sz) data))
     else if unat a + unat sz < 2 ^ 32 then Some (EFLASH_ERROR_OUT_OF_RANGE, Some data)
     else None)"
proof (cases "unat a + unat sz < 2 ^ 32")
  case True
  then show ?thesis using eflash_read_spec [OF assms(1) _ True assms(3)] assms(4) by simp
next
  case False
  have tot: "length mem = unat (ec_total_size (eh_config h))" "length mem \<le> 262144"
    using assms(1) eflash_total(4) [OF assms(1)] by (simp_all add: eflash_shape_def)
  have "unat (a + sz) = unat a + unat sz - 2 ^ 32" using False by (simp add: unat_plus_if_size word_size)
  then have "unat (a + sz) < unat (ec_total_size (eh_config h))"
  proof -
    have "unat sz < 2 ^ 32" using unsigned_less [of sz] by simp
    then show ?thesis using assms(2) tot(1) \<open>unat (a + sz) = _\<close> by linarith
  qed
  then have "eflash_is_address_valid (Some h) a sz"
    using assms(1,2) tot(1) by (simp add: eflash_is_address_valid_def eflash_shape_def word_le_nat_alt word_less_nat_alt)
  moreover have "mem_read mem (unat a) (unat sz) = None" using False tot by (simp add: mem_read_def)
  moreover have "sz \<noteq> 0" using assms(4) by auto
  ultimately show ?thesis using assms(1) False tot by (simp add: eflash_read_def eflash_shape_def)
qed

theorem eflash_range_check_wraps_witness:
  "eflash_read (Some (eflash_small True)) 12 (Some (replicate 8 0)) 8 = Some (EFLASH_ERROR_OUT_OF_RANGE, Some (replicate 8 0))
   \<and> eflash_read (Some (eflash_small True)) 12 (Some (replicate 4294967295 0)) 0xFFFFFFFF = None"
  using eflash_range_check_wraps [OF eflash_small_shape, of 12 8 "replicate 8 0" True]
    eflash_range_check_wraps [OF eflash_small_shape, of 12 "0xFFFFFFFF" "replicate 4294967295 0" True]
  by simp

text \<open>
  When \<open>eflash_init\<close> is called on an initialised handle and the allocation fails, the handle stays
  initialised without memory, and the next read goes through a null pointer.
\<close>

lemma eflash_init_failure_dangles:
  assumes "eh_initialized h" "\<not> eflash_config_refused c" "ab (ec_page_size c * ec_page_count c) = None" "sz \<noteq> 0"
    and "eflash_is_address_valid (Some h) a sz"
  shows "\<exists>h'. eflash_init ab af (Some h) (Some c) = Some (EFLASH_ERROR_WRITE_FAIL, Some h')
    \<and> eflash_read (Some h') a (Some data) sz = None"
  using assms by (auto simp: eflash_init_def eflash_read_def eflash_is_address_valid_def Let_def split: if_splits)

end
