(* ===== verification/Nor_Flash.thy ===== *)
theory Nor_Flash
  imports Xy_Prelude
begin

text \<open>
  The driver for serial NOR flash of \<open>components/dm/norflash/norflash.c\<close>. The functions that drive the hardware are
  a record of parameters over the state \<open>'d\<close> of the device, which is passed and returned; \<open>send_cmd\<close> gets
  the bytes to send or the bytes of the receive buffer and returns the new bytes of that buffer. Its
  result is ignored by the driver. Bytes are shifted on unsigned words.
\<close>

record norflash_info =
  ni_id :: u32
  ni_capacity :: u32
  ni_erase_size :: u32
  ni_page_size :: u32
  ni_cmd_read :: u8
  ni_cmd_write :: u8
  ni_cmd_erase_4k :: u8
  ni_cmd_erase_32k :: u8
  ni_cmd_erase_64k :: u8
  ni_cmd_chip_erase :: u8
  ni_support_sfdp :: bool
  ni_support_qspi :: bool
  ni_support_4k_erase :: bool
  ni_support_32k_erase :: bool
  ni_support_64k_erase :: bool
  ni_sfdp_major_rev :: u8
  ni_sfdp_minor_rev :: u8

record 'd norflash =
  nf_info :: norflash_info
  nf_write_enable :: "'d \<Rightarrow> 'd"
  nf_wait_ready :: "'d \<Rightarrow> 'd"
  nf_send_cmd :: "('d \<Rightarrow> u8 \<Rightarrow> u32 \<Rightarrow> u8 list option \<Rightarrow> u8 list option \<Rightarrow> u32 \<Rightarrow> u8 list \<times> 'd) option"
  nf_inited :: bool

record norflash_param =
  np_id :: u32
  np_capacity :: u32
  np_erase_size :: u32
  np_page_size :: u32
  np_cmd_read :: u8
  np_cmd_write :: u8
  np_cmd_erase_4k :: u8
  np_cmd_erase_32k :: u8
  np_cmd_erase_64k :: u8
  np_cmd_chip_erase :: u8
  np_support_qspi :: bool

definition norflash_param_table :: "norflash_param list" where
  "norflash_param_table =
     [\<lparr>np_id = 0xEF4017, np_capacity = 8 * 1024 * 1024, np_erase_size = 64 * 1024, np_page_size = 256,
       np_cmd_read = 0x03, np_cmd_write = 0x02, np_cmd_erase_4k = 0x20, np_cmd_erase_32k = 0x52,
       np_cmd_erase_64k = 0xD8, np_cmd_chip_erase = 0xC7, np_support_qspi = True\<rparr>,
      \<lparr>np_id = 0xC84016, np_capacity = 4 * 1024 * 1024, np_erase_size = 64 * 1024, np_page_size = 256,
       np_cmd_read = 0x03, np_cmd_write = 0x02, np_cmd_erase_4k = 0x20, np_cmd_erase_32k = 0x52,
       np_cmd_erase_64k = 0xD8, np_cmd_chip_erase = 0x60, np_support_qspi = False\<rparr>]"

text \<open>A call through the pointer \<open>send_cmd\<close>, undefined if it is \<open>NULL\<close>.\<close>

definition nor_send :: "'d norflash \<Rightarrow> 'd \<Rightarrow> u8 \<Rightarrow> u32 \<Rightarrow> u8 list option \<Rightarrow> u8 list option \<Rightarrow> u32 \<Rightarrow> (u8 list \<times> 'd) option" where
  "nor_send flash d cmd addr tx rx len =
     (case nf_send_cmd flash of None \<Rightarrow> None | Some send \<Rightarrow> Some (send d cmd addr tx rx len))"

definition norflash_read_id :: "'d norflash \<Rightarrow> 'd \<Rightarrow> (u32 \<times> 'd) option" where
  "norflash_read_id flash d = do {
     (id_buf, d) \<leftarrow> nor_send flash d 0x9F 0 None (Some [0, 0, 0]) 3;
     b0 \<leftarrow> mem_load id_buf 0;
     b1 \<leftarrow> mem_load id_buf 1;
     b2 \<leftarrow> mem_load id_buf 2;
     Some (push_bit 16 (ucast b0) OR push_bit 8 (ucast b1) OR ucast b2, d) }"

text \<open>The capacity from the density of the parameter table; a shift of \<open>int\<close> past its width is undefined.\<close>

definition sfdp_capacity :: "u32 \<Rightarrow> u32 option" where
  "sfdp_capacity density =
     (if density AND 0x80000000 \<noteq> 0 then
        (let n = unat ((density AND 0x7FFFFFFF) - 3) in if n \<ge> 31 then None else Some (push_bit n 1))
      else Some ((density + 1) div 8))"

definition norflash_sfdp_read :: "'d norflash \<Rightarrow> norflash_info \<Rightarrow> 'd \<Rightarrow> (int \<times> norflash_info \<times> 'd) option" where
  "norflash_sfdp_read flash info d = do {
     (h, d) \<leftarrow> nor_send flash d 0x5A 0x000000 None (Some (replicate 8 0)) 8;
     magic \<leftarrow> mem_read h 0 4;
     if magic \<noteq> [0x53, 0x46, 0x44, 0x50] then Some (-1, info, d)
     else do {
       h3 \<leftarrow> mem_load h 3;
       h4 \<leftarrow> mem_load h 4;
       h5 \<leftarrow> mem_load h 5;
       h6 \<leftarrow> mem_load h 6;
       h7 \<leftarrow> mem_load h 7;
       let param_tbl_addr = push_bit 16 (ucast h7) OR push_bit 8 (ucast h4) OR ucast h3;
       (t, d) \<leftarrow> nor_send flash d 0x5A param_tbl_addr None (Some (replicate 64 0)) 64;
       t7 \<leftarrow> mem_load t 7;
       t8 \<leftarrow> mem_load t 8;
       t9 \<leftarrow> mem_load t 9;
       t10 \<leftarrow> mem_load t 10;
       capacity \<leftarrow> sfdp_capacity (ucast t7 OR push_bit 8 (ucast t8) OR push_bit 16 (ucast t9) OR push_bit 24 (ucast t10));
       e4 \<leftarrow> mem_load t 28;
       e32 \<leftarrow> mem_load t 29;
       e64 \<leftarrow> mem_load t 30;
       chip \<leftarrow> mem_load t 31;
       Some (0, info\<lparr>ni_sfdp_major_rev := h6, ni_sfdp_minor_rev := h5, ni_capacity := capacity,
         ni_cmd_read := 0x03, ni_cmd_write := 0x02, ni_cmd_erase_4k := e4, ni_cmd_erase_32k := e32,
         ni_cmd_erase_64k := e64, ni_cmd_chip_erase := chip, ni_erase_size := 4096, ni_page_size := 256,
         ni_support_4k_erase := e4 \<noteq> 0, ni_support_32k_erase := e32 \<noteq> 0, ni_support_64k_erase := e64 \<noteq> 0,
         ni_support_qspi := False, ni_support_sfdp := True\<rparr>, d) } }"

fun norflash_lookup :: "norflash_param list \<Rightarrow> u32 \<Rightarrow> norflash_info \<Rightarrow> int \<times> norflash_info" where
  "norflash_lookup [] nid info = (-1, info)"
| "norflash_lookup (p # ps) nid info =
     (if np_id p = nid then
        (0, info\<lparr>ni_id := nid, ni_capacity := np_capacity p, ni_erase_size := np_erase_size p,
           ni_page_size := np_page_size p, ni_cmd_read := np_cmd_read p, ni_cmd_write := np_cmd_write p,
           ni_cmd_erase_4k := np_cmd_erase_4k p, ni_cmd_erase_32k := np_cmd_erase_32k p,
           ni_cmd_erase_64k := np_cmd_erase_64k p, ni_cmd_chip_erase := np_cmd_chip_erase p,
           ni_support_4k_erase := np_cmd_erase_4k p \<noteq> 0, ni_support_32k_erase := np_cmd_erase_32k p \<noteq> 0,
           ni_support_64k_erase := np_cmd_erase_64k p \<noteq> 0, ni_support_qspi := np_support_qspi p,
           ni_support_sfdp := False\<rparr>)
      else norflash_lookup ps nid info)"

definition norflash_lookup_table :: "u32 \<Rightarrow> norflash_info \<Rightarrow> int \<times> norflash_info" where
  "norflash_lookup_table nid info = norflash_lookup norflash_param_table nid info"

definition norflash_init :: "'d norflash option \<Rightarrow> 'd \<Rightarrow> (int \<times> 'd norflash option \<times> 'd) option" where
  "norflash_init flash d =
     (case flash of
        None \<Rightarrow> Some (-1, flash, d)
      | Some f \<Rightarrow>
          if nf_send_cmd f = None then Some (-1, flash, d)
          else do {
            (nid, d) \<leftarrow> norflash_read_id f d;
            (r, info, d) \<leftarrow> norflash_sfdp_read f ((nf_info f)\<lparr>ni_id := nid\<rparr>) d;
            if r = 0 then Some (0, Some (f\<lparr>nf_info := info, nf_inited := True\<rparr>), d)
            else
              (case norflash_lookup_table nid info of
                 (r, info') \<Rightarrow>
                   if r = 0 then Some (0, Some (f\<lparr>nf_info := info', nf_inited := True\<rparr>), d)
                   else Some (-1, Some (f\<lparr>nf_info := info', nf_inited := False\<rparr>), d)) })"

function norflash_read_loop :: "'d norflash \<Rightarrow> u8 \<Rightarrow> u32 \<Rightarrow> u8 list \<Rightarrow> nat \<Rightarrow> u32 \<Rightarrow> 'd \<Rightarrow> (u8 list \<times> 'd) option" where
  "norflash_read_loop flash cmd addr buf off len d =
     (if len > 0 then do {
        let chunk = (if len > 256 then 256 else len);
        rx \<leftarrow> mem_read buf off (unat chunk);
        (rx', d) \<leftarrow> nor_send flash d cmd addr None (Some rx) chunk;
        buf' \<leftarrow> mem_write buf off rx';
        norflash_read_loop flash cmd (addr + chunk) buf' (off + unat chunk) (len - chunk) d }
      else Some (buf, d))"
  by pat_completeness auto
termination
proof (relation "measure (\<lambda>(flash, cmd, addr, buf, off, len, d). unat len)")
  fix len chunk :: u32
  assume "0 < len" and "chunk = (if 256 < len then 256 else len)"
  then have "chunk \<le> len" "0 < chunk" by (auto split: if_splits)
  then have "unat (len - chunk) < unat len" by (simp add: unat_sub word_less_nat_alt word_le_nat_alt)
  then show "((flash, cmd, addr, buf, off, len - chunk, d), (flash', cmd', addr', buf', off', len, d'))
      \<in> measure (\<lambda>(flash, cmd, addr, buf, off, len, d). unat len)" for flash cmd addr buf off d flash' cmd' addr' buf' off' d'
    by simp
qed simp

definition norflash_read :: "'d norflash option \<Rightarrow> u32 \<Rightarrow> u8 list \<Rightarrow> u32 \<Rightarrow> 'd \<Rightarrow> (int \<times> u8 list \<times> 'd) option" where
  "norflash_read flash addr buf len d =
     (case flash of
        None \<Rightarrow> Some (-1, buf, d)
      | Some f \<Rightarrow>
          if \<not> nf_inited f then Some (-1, buf, d)
          else do {
            (buf', d') \<leftarrow> norflash_read_loop f (ni_cmd_read (nf_info f)) addr buf 0 len d;
            Some (0, buf', d') })"

text \<open>The length of the next piece: to the end of the page, or what is left.\<close>

definition page_chunk :: "u32 \<Rightarrow> u32 \<Rightarrow> u32 \<Rightarrow> u32" where
  "page_chunk page_size addr len =
     (let chunk = page_size - addr mod page_size in if chunk > len then len else chunk)"

lemma unat_page_chunk:
  assumes "ps \<noteq> 0"
  shows "unat (page_chunk ps addr len) = min (unat ps - unat addr mod unat ps) (unat len)"
proof -
  have "0 < unat ps" using assms by (simp add: unat_gt_0)
  then have "unat (addr mod ps) \<le> unat ps" by (simp add: unat_mod_distrib order_less_imp_le)
  then have "unat (ps - addr mod ps) = unat ps - unat addr mod unat ps"
    by (subst unat_sub) (simp_all add: word_le_nat_alt unat_mod_distrib)
  then show ?thesis by (simp add: page_chunk_def Let_def word_less_nat_alt min_def)
qed

lemma page_chunk_smaller:
  assumes "0 < len" "ps \<noteq> 0"
  shows "page_chunk ps addr len \<le> len" "0 < page_chunk ps addr len"
proof -
  have "0 < unat ps" using assms(2) by (simp add: unat_gt_0)
  then have "unat addr mod unat ps < unat ps" by simp
  then show "page_chunk ps addr len \<le> len" "0 < page_chunk ps addr len"
    using assms(1) unat_page_chunk [OF assms(2), of addr len] by (simp_all add: word_le_nat_alt word_less_nat_alt)
qed

function norflash_write_loop :: "'d norflash \<Rightarrow> u8 \<Rightarrow> u32 \<Rightarrow> u32 \<Rightarrow> u8 list \<Rightarrow> u32 \<Rightarrow> 'd \<Rightarrow> 'd option" where
  "norflash_write_loop flash cmd page_size addr buf len d =
     (if len > 0 then
        if page_size = 0 then None
        else do {
          let chunk = page_chunk page_size addr len;
          tx \<leftarrow> mem_read buf 0 (unat chunk);
          (rx, d) \<leftarrow> nor_send flash (nf_write_enable flash d) cmd addr (Some tx) None chunk;
          norflash_write_loop flash cmd page_size (addr + chunk) (drop (unat chunk) buf) (len - chunk) (nf_wait_ready flash d) }
      else Some d)"
  by pat_completeness auto
termination
proof (relation "measure (\<lambda>(flash, cmd, ps, addr, buf, len, d). unat len)")
  fix len ps chunk addr :: u32
  assume "0 < len" "ps \<noteq> 0" "chunk = page_chunk ps addr len"
  then have "chunk \<le> len" "0 < chunk" using page_chunk_smaller by blast+
  then have "unat (len - chunk) < unat len" by (simp add: unat_sub word_less_nat_alt word_le_nat_alt)
  then show "((flash, cmd, p, a, buf, len - chunk, d), (flash', cmd', ps, addr, buf', len, d'))
      \<in> measure (\<lambda>(flash, cmd, ps, addr, buf, len, d). unat len)" for flash cmd p a buf d flash' cmd' buf' d'
    by simp
qed simp

definition norflash_write :: "'d norflash option \<Rightarrow> u32 \<Rightarrow> u8 list \<Rightarrow> u32 \<Rightarrow> 'd \<Rightarrow> (int \<times> 'd) option" where
  "norflash_write flash addr buf len d =
     (case flash of
        None \<Rightarrow> Some (-1, d)
      | Some f \<Rightarrow>
          if \<not> nf_inited f then Some (-1, d)
          else do {
            d' \<leftarrow> norflash_write_loop f (ni_cmd_write (nf_info f)) (ni_page_size (nf_info f)) addr buf len d;
            Some (0, d') })"

text \<open>The loop ends when exactly nothing remains; it may not.\<close>

partial_function (option) norflash_erase_loop :: "'d norflash \<Rightarrow> u8 \<Rightarrow> u32 \<Rightarrow> u32 \<Rightarrow> u32 \<Rightarrow> 'd \<Rightarrow> 'd option" where
  "norflash_erase_loop flash erase_cmd erase_size addr remain d =
     (if remain > 0 then
        (case nor_send flash (nf_write_enable flash d) erase_cmd addr None None 0 of
           None \<Rightarrow> None
         | Some (rx, d1) \<Rightarrow>
             norflash_erase_loop flash erase_cmd erase_size (addr + erase_size) (remain - erase_size) (nf_wait_ready flash d1))
      else Some d)"

text \<open>The erase size and command that the driver chooses.\<close>

definition norflash_erase_choice :: "norflash_info \<Rightarrow> (u32 \<times> u8) option" where
  "norflash_erase_choice info =
     (if ni_support_4k_erase info then Some (4096, ni_cmd_erase_4k info)
      else if ni_support_64k_erase info then Some (64 * 1024, ni_cmd_erase_64k info)
      else if ni_support_32k_erase info then Some (32 * 1024, ni_cmd_erase_32k info)
      else None)"

definition norflash_erase :: "'d norflash option \<Rightarrow> u32 \<Rightarrow> u32 \<Rightarrow> 'd \<Rightarrow> (int \<times> 'd) option" where
  "norflash_erase flash addr len d =
     (case flash of
        None \<Rightarrow> Some (-1, d)
      | Some f \<Rightarrow>
          if \<not> nf_inited f then Some (-1, d)
          else
            (case norflash_erase_choice (nf_info f) of
               None \<Rightarrow> Some (-1, d)
             | Some (erase_size, erase_cmd) \<Rightarrow> do {
                 d' \<leftarrow> norflash_erase_loop f erase_cmd erase_size addr len d;
                 Some (0, d') }))"

definition norflash_chip_erase :: "'d norflash option \<Rightarrow> 'd \<Rightarrow> (int \<times> 'd) option" where
  "norflash_chip_erase flash d =
     (case flash of
        None \<Rightarrow> Some (-1, d)
      | Some f \<Rightarrow>
          if \<not> nf_inited f then Some (-1, d)
          else if ni_cmd_chip_erase (nf_info f) = 0 then Some (-1, d)
          else do {
            (rx, d1) \<leftarrow> nor_send f (nf_write_enable f d) (ni_cmd_chip_erase (nf_info f)) 0 None None 0;
            Some (0, nf_wait_ready f d1) })"

text \<open>Deep power down and release from it.\<close>

definition norflash_sleep :: "'d norflash option \<Rightarrow> 'd \<Rightarrow> (int \<times> 'd) option" where
  "norflash_sleep flash d =
     (case flash of
        None \<Rightarrow> Some (-1, d)
      | Some f \<Rightarrow>
          if \<not> nf_inited f then Some (-1, d)
          else do { (rx, d1) \<leftarrow> nor_send f d 0xB9 0 None None 0; Some (0, d1) })"

definition norflash_wakeup :: "'d norflash option \<Rightarrow> 'd \<Rightarrow> (int \<times> 'd) option" where
  "norflash_wakeup flash d =
     (case flash of
        None \<Rightarrow> Some (-1, d)
      | Some f \<Rightarrow>
          if \<not> nf_inited f then Some (-1, d)
          else do { (rx, d1) \<leftarrow> nor_send f d 0xAB 0 None None 0; Some (0, d1) })"

end
