(* ===== verification/Nor_Flash_Correct.thy ===== *)
theory Nor_Flash_Correct
  imports Nor_Flash
begin

text \<open>
  What the driver sends to the device: a write is cut at the ends of the pages, an erase visits every block
  of the range, or never returns when the length is not a multiple of the block.
\<close>

subsection \<open>Writing\<close>

text \<open>Programming one piece: write enable, command with the bytes, wait.\<close>

definition nor_program ::
  "'d norflash \<Rightarrow> ('d \<Rightarrow> u8 \<Rightarrow> u32 \<Rightarrow> u8 list option \<Rightarrow> u8 list option \<Rightarrow> u32 \<Rightarrow> u8 list \<times> 'd) \<Rightarrow> 'd \<Rightarrow> u32 \<times> u8 list \<Rightarrow> 'd" where
  "nor_program f send d page =
     nf_wait_ready f (snd (send (nf_write_enable f d) (ni_cmd_write (nf_info f)) (fst page) (Some (snd page)) None
       (of_nat (length (snd page)))))"

text \<open>Pieces that follow each other from \<open>addr\<close> on, none empty, none crossing a page, and all but the last ending one.\<close>

fun pages_ok :: "nat \<Rightarrow> u32 \<Rightarrow> (u32 \<times> u8 list) list \<Rightarrow> bool" where
  "pages_ok ps addr [] \<longleftrightarrow> True"
| "pages_ok ps addr ((a, bs) # pages) \<longleftrightarrow> a = addr \<and> bs \<noteq> [] \<and> unat a mod ps + length bs \<le> ps
     \<and> (pages \<noteq> [] \<longrightarrow> unat a mod ps + length bs = ps) \<and> pages_ok ps (addr + of_nat (length bs)) pages"

declare norflash_write_loop.simps [simp del] norflash_read_loop.simps [simp del]

lemma unat_sub_le: "(b :: u32) \<le> a \<Longrightarrow> unat (a - b) = unat a - unat b"
  by (rule unat_sub)

lemma nor_write_loop_spec:
  assumes "nf_send_cmd f = Some send" "ps \<noteq> 0" "unat len \<le> length buf"
  shows "\<exists>pages. norflash_write_loop f (ni_cmd_write (nf_info f)) ps addr buf len d = Some (foldl (nor_program f send) d pages)
    \<and> concat (map snd pages) = take (unat len) buf \<and> pages_ok (unat ps) addr pages"
  using assms(3)
proof (induction "unat len" arbitrary: len buf addr d rule: less_induct)
  case less
  show ?case
  proof (cases "len = 0")
    case True
    then show ?thesis by (subst norflash_write_loop.simps) (auto intro!: exI [of _ "[]"])
  next
    case False
    let ?c = "page_chunk ps addr len"
    let ?k = "unat ?c"
    have pos: "0 < len" using False by (simp add: word_neq_0_conv)
    have c: "?c \<le> len" "0 < ?c" using page_chunk_smaller [OF pos assms(2)] by blast+
    have k: "?k = min (unat ps - unat addr mod unat ps) (unat len)" using unat_page_chunk [OF assms(2)] .
    have kl: "0 < ?k" "?k \<le> unat len" using c by (simp_all add: word_le_nat_alt word_less_nat_alt)
    have rest: "unat (len - ?c) = unat len - ?k" using unat_sub_le [OF c(1)] .
    have ps: "unat addr mod unat ps < unat ps" using assms(2) by (simp add: unat_gt_0)
    let ?bs = "take ?k buf"
    have lb: "length ?bs = ?k" using kl less.prems by simp
    have fold1: "nor_program f send d (addr, ?bs)
        = nf_wait_ready f (snd (send (nf_write_enable f d) (ni_cmd_write (nf_info f)) addr (Some ?bs) None ?c))"
      using lb by (simp add: nor_program_def)
    have step: "norflash_write_loop f (ni_cmd_write (nf_info f)) ps addr buf len d
        = norflash_write_loop f (ni_cmd_write (nf_info f)) ps (addr + ?c) (drop ?k buf) (len - ?c) (nor_program f send d (addr, ?bs))"
      unfolding fold1 using pos assms(1,2) kl less.prems
      by (subst norflash_write_loop.simps) (simp add: Let_def mem_read_def nor_send_def split_beta)
    have "unat (len - ?c) < unat len" "unat (len - ?c) \<le> length (drop ?k buf)" using rest kl less.prems by simp_all
    then obtain pages where p: "norflash_write_loop f (ni_cmd_write (nf_info f)) ps (addr + ?c) (drop ?k buf) (len - ?c) (nor_program f send d (addr, ?bs))
        = Some (foldl (nor_program f send) (nor_program f send d (addr, ?bs)) pages)"
      "concat (map snd pages) = take (unat (len - ?c)) (drop ?k buf)" "pages_ok (unat ps) (addr + ?c) pages"
      using less.hyps by blast
    have "unat addr mod unat ps + ?k = unat ps" if ne: "pages \<noteq> []"
    proof -
      obtain a bs r where "pages = (a, bs) # r" using ne by (cases pages) auto
      then have "concat (map snd pages) \<noteq> []" using p(3) by simp
      then have "?k < unat len" using p(2) rest by auto
      then show ?thesis using k ps by (simp add: min_def split: if_splits)
    qed
    moreover have "unat addr mod unat ps + ?k \<le> unat ps" using k ps by simp
    ultimately have "pages_ok (unat ps) addr ((addr, ?bs) # pages)" using p(3) lb kl(1) by auto
    moreover have "concat (map snd ((addr, ?bs) # pages)) = take (unat len) buf"
      using p(2) rest take_add [of ?k "unat len - ?k" buf] kl(2) by simp
    ultimately show ?thesis using step p(1) by (intro exI [of _ "(addr, ?bs) # pages"]) simp
  qed
qed

text \<open>A device that keeps the commands with an address that it was sent, and a driver for a chip with 4 KB blocks on it.\<close>

definition nor_demo_send ::
  "(u8 \<times> u32 \<times> u8 list) list \<Rightarrow> u8 \<Rightarrow> u32 \<Rightarrow> u8 list option \<Rightarrow> u8 list option \<Rightarrow> u32 \<Rightarrow> u8 list \<times> (u8 \<times> u32 \<times> u8 list) list" where
  "nor_demo_send d cmd a tx rx n = ([], d @ [(cmd, a, case tx of None \<Rightarrow> [] | Some bs \<Rightarrow> bs)])"

definition nor_demo :: "(u8 \<times> u32 \<times> u8 list) list norflash" where
  "nor_demo = \<lparr>nf_info = snd (norflash_lookup_table 0xEF4017
       \<lparr>ni_id = 0, ni_capacity = 0, ni_erase_size = 0, ni_page_size = 0, ni_cmd_read = 0, ni_cmd_write = 0,
         ni_cmd_erase_4k = 0, ni_cmd_erase_32k = 0, ni_cmd_erase_64k = 0, ni_cmd_chip_erase = 0, ni_support_sfdp = False,
         ni_support_qspi = False, ni_support_4k_erase = False, ni_support_32k_erase = False,
         ni_support_64k_erase = False, ni_sfdp_major_rev = 0, ni_sfdp_minor_rev = 0\<rparr>),
     nf_write_enable = id, nf_wait_ready = id, nf_send_cmd = Some nor_demo_send, nf_inited = True\<rparr>"

lemma nor_demo_simps:
  "nf_send_cmd nor_demo = Some nor_demo_send" "nf_inited nor_demo" "ni_page_size (nf_info nor_demo) = 256"
  "norflash_erase_choice (nf_info nor_demo) = Some (4096, 0x20)" "ni_cmd_write (nf_info nor_demo) = 2"
  "nf_write_enable nor_demo = id" "nf_wait_ready nor_demo = id"
  by (simp_all add: nor_demo_def norflash_lookup_table_def norflash_param_table_def norflash_erase_choice_def)

text \<open>
  C35. \<open>norflash_write\<close> on an initialised driver returns 0 after programming, in order and each with write enable
  and wait, pieces that together are exactly the bytes to write, follow each other from the address on
  and never cross the end of a page of the chip; only the last may end inside one. A driver that is not
  initialised sends nothing.
\<close>

theorem nor_write_pages:
  assumes "nf_send_cmd f = Some send" "ni_page_size (nf_info f) \<noteq> 0" "unat len \<le> length buf"
  shows "(nf_inited f \<longrightarrow> (\<exists>pages. norflash_write (Some f) addr buf len d = Some (0, foldl (nor_program f send) d pages)
      \<and> concat (map snd pages) = take (unat len) buf
      \<and> pages_ok (unat (ni_page_size (nf_info f))) addr pages))
    \<and> (\<not> nf_inited f \<longrightarrow> norflash_write (Some f) addr buf len d = Some (-1, d))"
  using nor_write_loop_spec [OF assms, of addr d] by (auto simp: norflash_write_def)

theorem nor_write_pages_witness:
  "\<exists>pages. norflash_write (Some nor_demo) 254 [1, 2, 3, 4] 4 [] = Some (0, foldl (nor_program nor_demo nor_demo_send) [] pages)
    \<and> concat (map snd pages) = [1, 2, 3, 4] \<and> pages_ok 256 254 pages"
  using nor_write_pages [of nor_demo nor_demo_send 4 "[1, 2, 3, 4]" 254 "[]"] by (simp add: nor_demo_simps)

subsection \<open>Reading\<close>

text \<open>A device that answers the read command with the bytes of its contents fills exactly the range asked for.\<close>

lemma nor_read_contents:
  assumes "nf_inited f" "nf_send_cmd f = Some send" "unat len \<le> length buf"
    and "\<And>d a rx n. send d (ni_cmd_read (nf_info f)) a None (Some rx) n = (map (\<lambda>i. contents (a + of_nat i)) [0..<unat n], d)"
  shows "norflash_read (Some f) addr buf len d
    = Some (0, map (\<lambda>i. contents (addr + of_nat i)) [0..<unat len] @ drop (unat len) buf, d)"
proof -
  have "norflash_read_loop f (ni_cmd_read (nf_info f)) addr buf off len d
      = Some (take off buf @ map (\<lambda>i. contents (addr + of_nat i)) [0..<unat len] @ drop (off + unat len) buf, d)"
    if "off + unat len \<le> length buf" for addr off len buf
    using that
  proof (induction "unat len" arbitrary: len addr off buf rule: less_induct)
    case less
    show ?case
    proof (cases "len = 0")
      case True
      then show ?thesis by (subst norflash_read_loop.simps) simp
    next
      case False
      obtain c where cdef: "c = (if len > 256 then 256 else len)" by blast
      let ?k = "unat c"
      have cl: "c \<le> len" "0 < c" using False by (auto simp: cdef word_neq_0_conv)
      have kl: "0 < ?k" "?k \<le> unat len" using cl by (simp_all only: word_le_nat_alt word_less_nat_alt unat_0)
      have rest: "unat (len - c) = unat len - ?k" using unat_sub_le [OF cl(1)] .
      let ?xs = "map (\<lambda>i. contents (addr + of_nat i)) [0..<?k]"
      let ?b = "take off buf @ ?xs @ drop (off + ?k) buf"
      have w: "mem_write buf off ?xs = Some ?b" using kl less.prems by (simp add: mem_write_def)
      have "0 < len" using False by (simp add: word_neq_0_conv)
      then have step: "norflash_read_loop f (ni_cmd_read (nf_info f)) addr buf off len d
          = norflash_read_loop f (ni_cmd_read (nf_info f)) (addr + c) ?b (off + ?k) (len - c) d"
        using w kl less.prems assms(2,4) by (subst norflash_read_loop.simps) (simp add: Let_def mem_read_def nor_send_def cdef [symmetric])
      have "unat (len - c) < unat len" "off + ?k + unat (len - c) \<le> length ?b"
        using rest kl less.prems by simp_all
      note ih = less.hyps [OF this]
      have "[0..<unat len] = [0..<?k] @ map (\<lambda>i. i + ?k) [0..<unat len - ?k]"
        using upt_add_eq_append [of 0 ?k "unat len - ?k"] kl(2) by (simp add: map_add_upt)
      then have "map (\<lambda>i. contents (addr + of_nat i)) [0..<unat len]
          = ?xs @ map (\<lambda>i. contents (addr + c + of_nat i)) [0..<unat len - ?k]"
        by (simp add: algebra_simps)
      then show ?thesis unfolding step ih rest using kl less.prems by (simp add: add.commute)
    qed
  qed
  from this [of 0 len buf addr] show ?thesis using assms(1,3) by (simp add: norflash_read_def)
qed

subsection \<open>Erasing\<close>

definition nor_erase_at ::
  "'d norflash \<Rightarrow> ('d \<Rightarrow> u8 \<Rightarrow> u32 \<Rightarrow> u8 list option \<Rightarrow> u8 list option \<Rightarrow> u32 \<Rightarrow> u8 list \<times> 'd) \<Rightarrow> u8 \<Rightarrow> 'd \<Rightarrow> u32 \<Rightarrow> 'd" where
  "nor_erase_at f send cmd d addr = nf_wait_ready f (snd (send (nf_write_enable f d) cmd addr None None 0))"

lemma nor_erase_step:
  assumes "nf_send_cmd f = Some send" "0 < remain"
  shows "norflash_erase_loop f cmd es addr remain d
    = norflash_erase_loop f cmd es (addr + es) (remain - es) (nor_erase_at f send cmd d addr)"
  using assms by (subst norflash_erase_loop.simps) (simp add: nor_send_def nor_erase_at_def split_beta)

lemma nor_erase_loop_blocks:
  assumes "nf_send_cmd f = Some send" "es \<noteq> 0"
  shows "unat remain = n * unat es \<Longrightarrow> norflash_erase_loop f cmd es addr remain d
    = Some (foldl (nor_erase_at f send cmd) d (map (\<lambda>i. addr + of_nat i * es) [0..<n]))"
proof (induction n arbitrary: remain addr d)
  case 0
  then have "remain = 0" by (simp add: unat_eq_0)
  then show ?case by (subst norflash_erase_loop.simps) simp
next
  case (Suc n)
  have es: "0 < unat es" using assms(2) by (simp add: unat_gt_0)
  then have pos: "0 < unat remain" using Suc.prems by simp
  then have r: "0 < remain" by (simp add: word_less_nat_alt)
  have "es \<le> remain" using Suc.prems by (simp add: word_le_nat_alt)
  then have rest: "unat (remain - es) = n * unat es" using Suc.prems by (simp add: unat_sub_le)
  have "map (\<lambda>i. addr + of_nat i * es) [0..<Suc n] = addr # map (\<lambda>i. addr + es + of_nat i * es) [0..<n]"
    by (simp add: upt_conv_Cons map_Suc_upt [symmetric] distrib_right add.assoc del: upt_Suc)
  then show ?case using nor_erase_step [OF assms(1) r] Suc.IH [OF rest] by simp
qed

text \<open>A remainder that no number of subtractions takes away.\<close>

lemma unat_sub_mod:
  fixes r es :: u32
  assumes "unat es dvd 2 ^ 32"
  shows "unat (r - es) mod unat es = unat r mod unat es"
proof (cases "es \<le> r")
  case True
  then have "unat (r - es) = unat r - unat es" "unat es \<le> unat r" by (simp_all add: unat_sub_le word_le_nat_alt)
  then show ?thesis using le_mod_geq [of "unat es" "unat r"] by simp
next
  case False
  obtain m where m: "2 ^ 32 = unat es * m" using assms by (elim dvdE)
  then have "0 < m" by (cases m) simp_all
  then have "unat r + 2 ^ 32 - unat es = unat r + unat es * (m - 1)"
    unfolding m by (cases m) simp_all
  moreover have "unat (r - es) = unat r + 2 ^ 32 - unat es"
    using False by (simp add: unat_sub_if_size word_size word_le_nat_alt)
  ultimately show ?thesis by (simp add: mod_mult_self2)
qed

lemma nor_erase_loop_returns:
  assumes "norflash_erase_loop f cmd es addr remain d = Some d'" "unat es dvd 2 ^ 32"
  shows "unat remain mod unat es = 0"
proof -
  have "unat es dvd 2 ^ 32 \<longrightarrow> unat remain mod unat es = 0"
  proof (rule norflash_erase_loop.raw_induct
      [where P = "\<lambda>f cmd es addr remain d d'. unat es dvd 2 ^ 32 \<longrightarrow> unat remain mod unat es = 0", OF _ assms(1)], intro impI)
    fix loop and f :: "'a norflash" and cmd es addr remain d d'
    assume ih: "\<And>f cmd es addr remain d d'. loop f cmd es addr remain d = Some d' \<Longrightarrow> unat es dvd 2 ^ 32 \<longrightarrow> unat remain mod unat es = 0"
      and body: "(if 0 < remain
        then case nor_send f (nf_write_enable f d) cmd addr None None 0 of None \<Rightarrow> None
          | Some (rx, d1) \<Rightarrow> loop f cmd es (addr + es) (remain - es) (nf_wait_ready f d1)
        else Some d) = Some d'" and dvd: "unat es dvd 2 ^ 32"
    show "unat remain mod unat es = 0"
    proof (cases "0 < remain")
      case True
      then obtain d1 where "loop f cmd es (addr + es) (remain - es) (nf_wait_ready f d1) = Some d'"
        using body by (auto split: option.splits)
      then have "unat (remain - es) mod unat es = 0" using ih dvd by blast
      then show ?thesis using unat_sub_mod [OF dvd] by simp
    next
      case False
      then have "remain = 0" by (simp add: word_neq_0_conv [symmetric])
      then show ?thesis by simp
    qed
  qed
  then show ?thesis using assms(2) by simp
qed

text \<open>
  C36. \<open>norflash_erase\<close> erases, in order, every block of a range whose length is a multiple of the block size
  that the driver chose, and returns 0. For any other length it erases block after block for ever and
  does not return. Without a supported block size it returns -1 and sends nothing.
\<close>

theorem nor_erase_returns_iff:
  assumes "nf_inited f" "nf_send_cmd f = Some send"
  shows "(\<forall>es cmd. norflash_erase_choice (nf_info f) = Some (es, cmd) \<longrightarrow>
      norflash_erase (Some f) addr len d =
        (if unat len mod unat es = 0
         then Some (0, foldl (nor_erase_at f send cmd) d (map (\<lambda>i. addr + of_nat i * es) [0..<unat len div unat es]))
         else None))
    \<and> (norflash_erase_choice (nf_info f) = None \<longrightarrow> norflash_erase (Some f) addr len d = Some (-1, d))"
proof (intro conjI allI impI)
  fix es cmd
  assume c: "norflash_erase_choice (nf_info f) = Some (es, cmd)"
  then have "es \<in> {4096, 65536, 32768}" by (auto simp: norflash_erase_choice_def split: if_splits)
  then have es: "es \<noteq> 0" "unat es dvd 2 ^ 32" by auto
  show "norflash_erase (Some f) addr len d =
      (if unat len mod unat es = 0
       then Some (0, foldl (nor_erase_at f send cmd) d (map (\<lambda>i. addr + of_nat i * es) [0..<unat len div unat es]))
       else None)"
  proof (cases "unat len mod unat es = 0")
    case True
    then have "unat len = unat len div unat es * unat es" by (simp add: mod_eq_0_iff_dvd)
    then show ?thesis
      using nor_erase_loop_blocks [OF assms(2) es(1)] c assms(1) True by (simp add: norflash_erase_def)
  next
    case False
    then have "norflash_erase_loop f cmd es addr len d = None"
      using nor_erase_loop_returns [OF _ es(2), of f cmd addr len d] by (cases "norflash_erase_loop f cmd es addr len d") auto
    then show ?thesis using c assms(1) False by (simp add: norflash_erase_def)
  qed
next
  assume "norflash_erase_choice (nf_info f) = None"
  then show "norflash_erase (Some f) addr len d = Some (-1, d)" using assms(1) by (simp add: norflash_erase_def)
qed

theorem nor_erase_returns_iff_witness:
  "norflash_erase (Some nor_demo) 4096 8192 [] = Some (0, [(0x20, 4096, []), (0x20, 8192, [])])
    \<and> norflash_erase (Some nor_demo) 4096 100 [] = None"
  using nor_erase_returns_iff [of nor_demo nor_demo_send 4096 8192 "[]"] nor_erase_returns_iff [of nor_demo nor_demo_send 4096 100 "[]"]
  by (simp add: nor_demo_simps nor_erase_at_def nor_demo_send_def upt_conv_Cons)

end
