(* ===== verification/Xy_Mem.thy ===== *)
theory Xy_Mem
  imports Xy_Prelude
begin

text \<open>
  The memory helpers and the heap of \<open>components/dm/xy_mem/xy_mem.c\<close>. The byte routines work on an
  object and offsets into it. The heap keeps its headers inside the memory it manages, so its state is
  a store of 32-bit cells by address, with \<open>g_mem\<close> beside it; an address is a pointer and 0 is \<open>NULL\<close>.
  Only the aligned addresses of the pool have a cell, and an access to any other address is undefined:
  the result \<open>None\<close>, as is a loop that does not end. \<open>size_t\<close> has 32 bits.
\<close>

subsection \<open>Bytes\<close>

fun xy_mem_set :: "u8 list \<Rightarrow> nat \<Rightarrow> u8 \<Rightarrow> nat \<Rightarrow> u8 list option" where
  "xy_mem_set mem p set_data 0 = Some mem"
| "xy_mem_set mem p set_data (Suc mem_size) = do {
     m \<leftarrow> mem_store mem p set_data;
     xy_mem_set m (p + 1) set_data mem_size }"

text \<open>The loop of \<open>xy_mem_cmp\<close> over the indices.\<close>

fun mem_cmp_loop :: "u8 list \<Rightarrow> u8 list \<Rightarrow> nat list \<Rightarrow> int option" where
  "mem_cmp_loop s d [] = Some 0"
| "mem_cmp_loop s d (i # is) = do {
     x \<leftarrow> mem_load s i;
     y \<leftarrow> mem_load d i;
     if x < y then Some (- 1) else if x > y then Some 1 else mem_cmp_loop s d is }"

definition xy_mem_cmp :: "u8 list \<Rightarrow> u8 list \<Rightarrow> u8 \<Rightarrow> int option" where
  "xy_mem_cmp str1 str2 len = mem_cmp_loop str1 str2 [0..<unat len]"

fun mem_copy_up :: "u8 list \<Rightarrow> nat \<Rightarrow> nat \<Rightarrow> nat \<Rightarrow> u8 list option" where
  "mem_copy_up mem d s 0 = Some mem"
| "mem_copy_up mem d s (Suc n) = do {
     c \<leftarrow> mem_load mem s;
     m \<leftarrow> mem_store mem d c;
     mem_copy_up m (d + 1) (s + 1) n }"

fun mem_copy_down :: "u8 list \<Rightarrow> nat \<Rightarrow> nat \<Rightarrow> nat \<Rightarrow> u8 list option" where
  "mem_copy_down mem d s 0 = Some mem"
| "mem_copy_down mem d s (Suc n) = do {
     c \<leftarrow> mem_load mem (s - 1);
     m \<leftarrow> mem_store mem (d - 1) c;
     mem_copy_down m (d - 1) (s - 1) n }"

definition xy_mem_copy :: "u8 list \<Rightarrow> nat \<Rightarrow> nat \<Rightarrow> nat \<Rightarrow> u8 list option" where
  "xy_mem_copy mem p_dest_data p_src_data mem_size =
     (if p_dest_data < p_src_data then mem_copy_up mem p_dest_data p_src_data mem_size
      else mem_copy_down mem (p_dest_data + mem_size) (p_src_data + mem_size) mem_size)"

subsection \<open>The heap\<close>

text \<open>A block starts with its size; while it is free the next cell links it to the next free block.\<close>

record mem_heap =
  mh_cells :: "u32 \<rightharpoonup> u32"
  mh_head :: u32

definition mem_get :: "mem_heap \<Rightarrow> u32 \<Rightarrow> u32 option" where
  "mem_get s a = mh_cells s a"

definition mem_put :: "u32 \<Rightarrow> u32 \<Rightarrow> mem_heap \<Rightarrow> mem_heap option" where
  "mem_put a v s = (if mh_cells s a = None then None else Some (s\<lparr>mh_cells := (mh_cells s)(a \<mapsto> v)\<rparr>))"

definition mem_size_at :: "u32 \<Rightarrow> u32" where "mem_size_at p = p"
definition mem_next_at :: "u32 \<Rightarrow> u32" where "mem_next_at p = p + 4"
definition mem_header_size :: u32 where "mem_header_size = 8"

definition mem_break :: "u32 \<Rightarrow> u32 \<Rightarrow> mem_heap \<Rightarrow> (u32 \<times> mem_heap) option" where
  "mem_break p mem_size s = do {
     let d = p + mem_size;
     sz \<leftarrow> mem_get s (mem_size_at p);
     s1 \<leftarrow> mem_put (mem_size_at d) (sz - mem_size) s;
     nx \<leftarrow> mem_get s1 (mem_next_at p);
     s2 \<leftarrow> mem_put (mem_next_at d) nx s1;
     s3 \<leftarrow> mem_put (mem_size_at p) mem_size s2;
     Some (d, s3) }"

definition mem_merge :: "u32 \<Rightarrow> u32 \<Rightarrow> mem_heap \<Rightarrow> mem_heap option" where
  "mem_merge p1 p2 s = do {
     sz1 \<leftarrow> mem_get s (mem_size_at p1);
     if p1 + sz1 = p2 then do {
       sz2 \<leftarrow> mem_get s (mem_size_at p2);
       s1 \<leftarrow> mem_put (mem_size_at p1) (sz1 + sz2) s;
       nx \<leftarrow> mem_get s1 (mem_next_at p2);
       mem_put (mem_next_at p1) nx s1 }
     else mem_put (mem_next_at p1) p2 s }"

definition xy_mem_init :: "u32 \<Rightarrow> u32 \<Rightarrow> mem_heap \<Rightarrow> mem_heap option" where
  "xy_mem_init p mem_size s = do {
     s1 \<leftarrow> mem_put (mem_size_at p) mem_size s;
     s2 \<leftarrow> mem_put (mem_next_at p) 0 s1;
     Some (s2\<lparr>mh_head := p\<rparr>) }"

text \<open>The pointer \<open>pp\<close> of the search is \<open>&g_mem\<close> (\<open>None\<close>) or the address of a link.\<close>

definition mem_deref :: "u32 option \<Rightarrow> mem_heap \<Rightarrow> u32 option" where
  "mem_deref pp s = (case pp of None \<Rightarrow> Some (mh_head s) | Some a \<Rightarrow> mem_get s a)"

definition mem_assign :: "u32 option \<Rightarrow> u32 \<Rightarrow> mem_heap \<Rightarrow> mem_heap option" where
  "mem_assign pp v s = (case pp of None \<Rightarrow> Some (s\<lparr>mh_head := v\<rparr>) | Some a \<Rightarrow> mem_put a v s)"

partial_function (option) mem_malloc_loop :: "u32 \<Rightarrow> u32 option \<Rightarrow> mem_heap \<Rightarrow> (u32 \<times> mem_heap) option" where
  "mem_malloc_loop mem_size pp s = do {
     p \<leftarrow> mem_deref pp s;
     if p = 0 then Some (0, s)
     else do {
       sz \<leftarrow> mem_get s (mem_size_at p);
       if mem_size \<le> sz then do {
         (v, s1) \<leftarrow> (if sz \<ge> mem_size + mem_header_size then mem_break p mem_size s
           else do { nx \<leftarrow> mem_get s (mem_next_at p); Some (nx, s) });
         s2 \<leftarrow> mem_assign pp v s1;
         Some (mem_next_at p, s2) }
       else mem_malloc_loop mem_size (Some (mem_next_at p)) s } }"

text \<open>The size of the block for a request: with the header, aligned up, and at least a whole header.\<close>

definition mem_request :: "u32 \<Rightarrow> u32" where
  "mem_request mem_size =
     (let n = mem_size + 4;
          n' = (n + 4 - 1) AND NOT (4 - 1)
      in if n' < mem_header_size then mem_header_size else n')"

definition xy_mem_malloc_from_irq :: "u32 \<Rightarrow> mem_heap \<Rightarrow> (u32 \<times> mem_heap) option" where
  "xy_mem_malloc_from_irq mem_size s = mem_malloc_loop (mem_request mem_size) None s"

definition xy_mem_malloc :: "u32 \<Rightarrow> mem_heap \<Rightarrow> (u32 \<times> mem_heap) option" where
  "xy_mem_malloc mem_size s = xy_mem_malloc_from_irq mem_size s"

text \<open>The search of \<open>xy_mem_free_from_irq\<close> for the free blocks around \<open>y\<close>.\<close>

partial_function (option) mem_find :: "u32 \<Rightarrow> u32 \<Rightarrow> mem_heap \<Rightarrow> (u32 \<times> u32) option" where
  "mem_find y x s = do {
     z \<leftarrow> mem_get s (mem_next_at x);
     if z \<noteq> 0 \<and> z < y then mem_find y z s else Some (x, z) }"

definition xy_mem_free_from_irq :: "u32 \<Rightarrow> mem_heap \<Rightarrow> mem_heap option" where
  "xy_mem_free_from_irq p s =
     (let y = p - 4
      in if mh_head s = 0 then do {
           s1 \<leftarrow> mem_put (mem_next_at y) 0 s;
           Some (s1\<lparr>mh_head := y\<rparr>) }
         else if y < mh_head s then do {
           s1 \<leftarrow> mem_merge y (mh_head s) s;
           Some (s1\<lparr>mh_head := y\<rparr>) }
         else do {
           (x, z) \<leftarrow> mem_find y (mh_head s) s;
           s1 \<leftarrow> (if z \<noteq> 0 then mem_merge y z s else mem_put (mem_next_at y) 0 s);
           mem_merge x y s1 })"

definition xy_mem_free :: "u32 \<Rightarrow> mem_heap \<Rightarrow> mem_heap option" where
  "xy_mem_free p s = xy_mem_free_from_irq p s"

text \<open>The sums of \<open>xy_mem_info\<close> are kept in 16 bits: all the free bytes, the number of blocks, the largest.\<close>

partial_function (option) mem_info_loop ::
  "u32 \<Rightarrow> u16 \<Rightarrow> u16 \<Rightarrow> u16 \<Rightarrow> mem_heap \<Rightarrow> (u16 \<times> u16 \<times> u16) option" where
  "mem_info_loop p mem_size num mx s =
     (if p = 0 then Some (mem_size, num, mx)
      else do {
        sz \<leftarrow> mem_get s (mem_size_at p);
        let mem_size' = ucast (ucast mem_size + sz);
        let mx' = (if ucast mx < sz then ucast sz else mx);
        nx \<leftarrow> mem_get s (mem_next_at p);
        mem_info_loop nx mem_size' (num + 1) mx' s })"

definition xy_mem_info :: "mem_heap \<Rightarrow> (u16 \<times> u16 \<times> u16) option" where
  "xy_mem_info s = mem_info_loop (mh_head s) 0 0 0 s"

end
