(* ===== verification/Xy_Mem_Correct.thy ===== *)
theory Xy_Mem_Correct
  imports Xy_Mem Xy_String_Correct
begin

text \<open>
  The heap as a layout: the blocks of the pool in the order of their addresses, each with its size and
  whether it is in use. Allocation takes the first free block that is large enough and splits it,
  release marks a block free and joins it with its free neighbours; the operations of the code do this to the
  cells.
\<close>

type_synonym layout = "(bool \<times> nat) list"

definition ly_size :: "layout \<Rightarrow> nat" where
  "ly_size ly = sum_list (map snd ly)"

lemma ly_size_simps [simp]:
  "ly_size [] = 0" "ly_size ((u, n) # ly) = n + ly_size ly" "ly_size (p @ q) = ly_size p + ly_size q"
  by (simp_all add: ly_size_def)

fun ly_free :: "nat \<Rightarrow> layout \<Rightarrow> nat list" where
  "ly_free b [] = []"
| "ly_free b ((u, n) # ly) = (if u then ly_free (b + n) ly else b # ly_free (b + n) ly)"

fun ly_used :: "nat \<Rightarrow> layout \<Rightarrow> (nat \<times> nat) list" where
  "ly_used b [] = []"
| "ly_used b ((u, n) # ly) = (if u then (b, n) # ly_used (b + n) ly else ly_used (b + n) ly)"

fun ly_joined :: "layout \<Rightarrow> bool" where
  "ly_joined ((False, n) # (False, k) # ly) = False"
| "ly_joined (x # ly) = ly_joined ly"
| "ly_joined [] = True"

fun ly_alloc :: "nat \<Rightarrow> nat \<Rightarrow> layout \<Rightarrow> (nat \<times> layout) option" where
  "ly_alloc need b [] = None"
| "ly_alloc need b ((u, n) # ly) =
     (if \<not> u \<and> need \<le> n then
        Some (b, if need + 8 \<le> n then (True, need) # (False, n - need) # ly else (True, n) # ly)
      else map_option (\<lambda>(a, l). (a, (u, n) # l)) (ly_alloc need (b + n) ly))"

text \<open>A released block joined with a free block behind it, and in front of it.\<close>

fun ly_join :: "layout \<Rightarrow> layout" where
  "ly_join ((False, n) # (False, k) # ly) = (False, n + k) # ly"
| "ly_join ly = ly"

definition ly_release :: "layout \<Rightarrow> nat \<Rightarrow> layout \<Rightarrow> layout" where
  "ly_release pre n post =
     (if pre \<noteq> [] \<and> \<not> fst (last pre) then butlast pre @ ly_join (last pre # ly_join ((False, n) # post))
      else pre @ ly_join ((False, n) # post))"

subsection \<open>Facts about layouts\<close>

lemma ly_free_append [simp]: "ly_free b (p @ q) = ly_free b p @ ly_free (b + ly_size p) q"
  by (induction b p rule: ly_free.induct) (simp_all add: add.assoc)

lemma ly_used_append [simp]: "ly_used b (p @ q) = ly_used b p @ ly_used (b + ly_size p) q"
  by (induction b p rule: ly_used.induct) (simp_all add: add.assoc)

lemma ly_free_bounds: "a \<in> set (ly_free b ly) \<Longrightarrow> b \<le> a \<and> a \<le> b + ly_size ly"
  by (induction b ly rule: ly_free.induct) (fastforce split: if_splits)+

lemma ly_used_bounds: "(a, n) \<in> set (ly_used b ly) \<Longrightarrow> b \<le> a \<and> a + n \<le> b + ly_size ly"
  by (induction b ly rule: ly_used.induct) (fastforce split: if_splits)+

lemma ly_used_split:
  "(a, n) \<in> set (ly_used b ly) \<Longrightarrow> \<exists>pre post. ly = pre @ (True, n) # post \<and> a = b + ly_size pre"
proof (induction b ly rule: ly_used.induct)
  case (2 b u k ly)
  show ?case
  proof (cases "u \<and> (a, n) = (b, k)")
    case True
    then show ?thesis by (intro exI [of _ "[]"] exI [of _ ly]) simp
  next
    case False
    then have "(a, n) \<in> set (ly_used (b + k) ly)" using 2(3) by (auto split: if_splits)
    then have "\<exists>pre post. ly = pre @ (True, n) # post \<and> a = b + k + ly_size pre"
      using 2(1,2) by (cases u) auto
    then obtain pre post where "ly = pre @ (True, n) # post" "a = b + k + ly_size pre" by blast
    then show ?thesis by (intro exI [of _ "(u, k) # pre"] exI [of _ post]) simp
  qed
qed simp

lemma ly_joined_Cons: "ly_joined (x # ly) \<longleftrightarrow> ly_joined ly \<and> (fst x \<or> ly = [] \<or> fst (hd ly))"
  by (cases "(x # ly)" rule: ly_joined.cases) auto

lemma ly_joined_append:
  "ly_joined (p @ q) \<longleftrightarrow> ly_joined p \<and> ly_joined q \<and> (p = [] \<or> q = [] \<or> fst (last p) \<or> fst (hd q))"
  by (induction p) (auto simp: ly_joined_Cons)

lemma ly_join_cases:
  obtains "post = [] \<or> fst (hd post)" "ly_join ((False, n) # post) = (False, n) # post"
  | k r where "post = (False, k) # r" "ly_join ((False, n) # post) = (False, n + k) # r"
proof (cases post)
  case (Cons x r)
  then show ?thesis using that by (cases x; cases "fst x") auto
qed (use that in simp)

lemma ly_alloc_props:
  "ly_alloc need b ly = Some (a, ly') \<Longrightarrow> ly_size ly' = ly_size ly \<and> (ly_joined ly \<longrightarrow> ly_joined ly') \<and>
     (\<exists>n k. need \<le> n \<and> set (ly_used b ly') = insert (a, n) (set (ly_used b ly)) \<and> a = b + k) \<and>
     (ly \<noteq> [] \<and> fst (hd ly) \<longrightarrow> ly' \<noteq> [] \<and> fst (hd ly'))"
proof (induction need b ly arbitrary: a ly' rule: ly_alloc.induct)
  case (2 need b u n ly)
  show ?case
  proof (cases "\<not> u \<and> need \<le> n")
    case True
    then show ?thesis using 2(2) by (cases ly) (auto simp: ly_joined_Cons)
  next
    case False
    then obtain l where l: "ly_alloc need (b + n) ly = Some (a, l)" "ly' = (u, n) # l" using 2(2) by auto
    note IH = 2(1) [OF False l(1)]
    obtain m k where "need \<le> m" "set (ly_used (b + n) l) = insert (a, m) (set (ly_used (b + n) ly))" "a = b + n + k"
      using IH by blast
    moreover have "ly_joined (( u, n) # ly) \<longrightarrow> ly_joined ((u, n) # l)"
      using IH l(1) by (cases ly) (auto simp: ly_joined_Cons)
    ultimately show ?thesis
      using IH l(2) by (auto simp: add.assoc intro!: exI [of _ m])
  qed
qed simp

lemma ly_release_size: "ly_size (ly_release pre n post) = ly_size pre + n + ly_size post"
proof -
  have j: "ly_size (ly_join l) = ly_size l" for l by (cases l rule: ly_join.cases) auto
  have "pre \<noteq> [] \<Longrightarrow> ly_size pre = ly_size (butlast pre) + snd (last pre)"
    by (metis append_butlast_last_id ly_size_simps(1,2,3) prod.collapse add.right_neutral)
  then show ?thesis
    using j [of "last pre # ly_join ((False, n) # post)"] j [of "(False, n) # post"]
    by (cases "last pre") (auto simp: ly_release_def)
qed


subsection \<open>The cells of a layout\<close>

abbreviation (input) addr_max :: nat where "addr_max \<equiv> 4294967296"

definition cell :: "mem_heap \<Rightarrow> nat \<Rightarrow> u32 option" where
  "cell s x = mh_cells s (of_nat x)"

lemma of_nat_u32_eq [simp]:
  "x < addr_max \<Longrightarrow> y < addr_max \<Longrightarrow> (of_nat x :: u32) = of_nat y \<longleftrightarrow> x = y"
  by (metis unat_of_nat_u32)

lemma of_nat_u32_less:
  "x < addr_max \<Longrightarrow> y < addr_max \<Longrightarrow> (of_nat x :: u32) < of_nat y \<longleftrightarrow> x < y"
  by (simp add: word_less_nat_alt unat_of_nat_u32)

lemma of_nat_u32_le:
  "x < addr_max \<Longrightarrow> y < addr_max \<Longrightarrow> (of_nat x :: u32) \<le> of_nat y \<longleftrightarrow> x \<le> y"
  by (simp add: word_le_nat_alt unat_of_nat_u32)

lemma mem_get_cell [simp]: "mem_get s (of_nat x) = cell s x"
  by (simp add: mem_get_def cell_def)

lemma mem_next_of_nat: "mem_next_at (of_nat a) = of_nat (a + 4)"
  by (simp add: mem_next_at_def)

lemma mem_get_cell4 [simp]: "mem_get s (of_nat x + 4) = cell s (x + 4)"
  by (simp add: mem_get_def cell_def)

lemma mem_get_at [simp]:
  "mem_get s (mem_size_at (of_nat a)) = cell s a" "mem_get s (mem_next_at (of_nat a)) = cell s (a + 4)"
  by (simp_all add: mem_get_def cell_def mem_size_at_def mem_next_at_def)

definition heap_put :: "nat \<Rightarrow> u32 \<Rightarrow> mem_heap \<Rightarrow> mem_heap" where
  "heap_put x v s = s\<lparr>mh_cells := (mh_cells s)(of_nat x \<mapsto> v)\<rparr>"

lemma mem_put_cell:
  "cell s x \<noteq> None \<Longrightarrow> mem_put (of_nat x) v s = Some (heap_put x v s)"
  by (auto simp: mem_put_def cell_def heap_put_def)

lemma mem_put_at:
  "cell s a \<noteq> None \<Longrightarrow> mem_put (mem_size_at (of_nat a)) v s = Some (heap_put a v s)"
  "cell s (a + 4) \<noteq> None \<Longrightarrow> mem_put (mem_next_at (of_nat a)) v s = Some (heap_put (a + 4) v s)"
  using mem_put_cell [of s "a + 4" v] mem_put_cell [of s a v] by (simp_all add: mem_size_at_def mem_next_at_def)

lemma cell_heap_put [simp]:
  "x < addr_max \<Longrightarrow> y < addr_max \<Longrightarrow> cell (heap_put x v s) y = (if y = x then Some v else cell s y)"
  by (auto simp: cell_def heap_put_def)

lemma head_heap_put [simp]: "mh_head (heap_put x v s) = mh_head s"
  by (simp add: heap_put_def)

lemma cell_head [simp]: "cell (s\<lparr>mh_head := p\<rparr>) x = cell s x"
  by (simp add: cell_def)

fun linked :: "mem_heap \<Rightarrow> u32 \<Rightarrow> nat list \<Rightarrow> u32 \<Rightarrow> bool" where
  "linked s p [] q \<longleftrightarrow> p = q"
| "linked s p (a # as) q \<longleftrightarrow> p = of_nat a \<and> (\<exists>r. cell s (a + 4) = Some r \<and> linked s r as q)"

fun tiled :: "mem_heap \<Rightarrow> nat \<Rightarrow> layout \<Rightarrow> bool" where
  "tiled s b [] \<longleftrightarrow> True"
| "tiled s b ((u, n) # ly) \<longleftrightarrow> 4 dvd b \<and> cell s b = Some (of_nat n) \<and> 8 \<le> n \<and> tiled s (b + n) ly"

definition pool :: "mem_heap \<Rightarrow> nat \<Rightarrow> nat \<Rightarrow> bool" where
  "pool s lo hi \<longleftrightarrow> (\<forall>x. 4 dvd x \<and> lo \<le> x \<and> x + 4 \<le> hi \<longrightarrow> cell s x \<noteq> None)"

definition same_dom :: "mem_heap \<Rightarrow> mem_heap \<Rightarrow> bool" where
  "same_dom s s' \<longleftrightarrow> (\<forall>x < addr_max. cell s' x = None \<longleftrightarrow> cell s x = None)"

definition owned :: "nat \<Rightarrow> layout \<Rightarrow> nat set" where
  "owned b ly = (\<Union>(a, n) \<in> set (ly_used b ly). {a + 4..<a + n})"

text \<open>The last eight addresses are kept out of the pool, so that adding a header size does not wrap.\<close>

definition heap_ok :: "nat \<Rightarrow> layout \<Rightarrow> mem_heap \<Rightarrow> bool" where
  "heap_ok b ly s \<longleftrightarrow> 0 < b \<and> b + ly_size ly + 8 < addr_max \<and> pool s b (b + ly_size ly) \<and> tiled s b ly
     \<and> linked s (mh_head s) (ly_free b ly) 0 \<and> ly_joined ly"

lemma linked_append: "linked s p (as @ bs) q \<longleftrightarrow> (\<exists>r. linked s p as r \<and> linked s r bs q)"
  by (induction s p as q rule: linked.induct) auto

lemma tiled_append: "tiled s b (p @ q) \<longleftrightarrow> tiled s b p \<and> tiled s (b + ly_size p) q"
  by (induction s b p rule: tiled.induct) (auto simp: add.assoc)

lemma linked_cong:
  "\<forall>a \<in> set as. cell s' (a + 4) = cell s (a + 4) \<Longrightarrow> linked s' p as q = linked s p as q"
  by (induction s p as q rule: linked.induct) auto

lemma tiled_cong:
  "\<forall>x. b \<le> x \<and> x < b + ly_size ly \<longrightarrow> cell s' x = cell s x \<Longrightarrow> tiled s' b ly = tiled s b ly"
proof (induction s b ly rule: tiled.induct)
  case (2 s b u n ly)
  show ?case
  proof (cases "8 \<le> n")
    case True
    then have "cell s' b = cell s b" using 2(2) by simp
    moreover have "tiled s' (b + n) ly = tiled s (b + n) ly" using 2 by simp
    ultimately show ?thesis by simp
  qed simp
qed simp

text \<open>Cells of a free block lie within the layout.\<close>

lemma ly_free_tile: "a \<in> set (ly_free b ly) \<Longrightarrow> tiled s b ly \<Longrightarrow> b \<le> a \<and> a + 8 \<le> b + ly_size ly \<and> 4 dvd a"
  by (induction s b ly rule: tiled.induct) (fastforce split: if_splits)+

lemma ly_used_tile:
  "(a, n) \<in> set (ly_used b ly) \<Longrightarrow> tiled s b ly \<Longrightarrow> 8 \<le> n \<and> b \<le> a \<and> a + n \<le> b + ly_size ly \<and> 4 dvd a"
  by (induction s b ly rule: tiled.induct) (fastforce split: if_splits)+

lemma owned_simps [simp]:
  "owned b [] = {}" "owned b ((True, n) # ly) = {b + 4..<b + n} \<union> owned (b + n) ly"
  "owned b ((False, n) # ly) = owned (b + n) ly"
  by (simp_all add: owned_def)

lemma owned_append: "owned b (p @ q) = owned b p \<union> owned (b + ly_size p) q"
  by (simp add: owned_def)

lemma owned_bounds: "x \<in> owned b ly \<Longrightarrow> b \<le> x \<and> x < b + ly_size ly"
  using ly_used_bounds by (fastforce simp: owned_def)

lemma pool_sub: "pool s lo hi \<Longrightarrow> lo \<le> lo' \<Longrightarrow> hi' \<le> hi \<Longrightarrow> pool s lo' hi'"
  by (simp add: pool_def)


subsection \<open>Allocation\<close>

lemma pool_cells:
  assumes "pool s lo hi" "4 dvd a" "lo \<le> a" "a + 8 \<le> hi"
  shows "cell s a \<noteq> None" "cell s (a + 4) \<noteq> None"
  using assms by (simp_all add: pool_def)

text \<open>The first free block is large enough.\<close>

lemma mem_malloc_take:
  assumes "tiled s b ((False, n) # ly)" "linked s (of_nat b) (ly_free b ((False, n) # ly)) 0"
    and "pool s b (b + n + ly_size ly)" "0 < b" "b + n + ly_size ly + 8 < addr_max"
    and "mem_deref pp s = Some (of_nat b)" "need \<le> n" "4 dvd need" "8 \<le> need"
    and pp: "pp = None \<or> (\<exists>k. pp = Some (of_nat k) \<and> k < addr_max \<and> \<not> (b \<le> k \<and> k < b + n + ly_size ly))"
    and ly': "ly' = (if need + 8 \<le> n then (True, need) # (False, n - need) # ly else (True, n) # ly)"
  shows "\<exists>s' p'. mem_malloc_loop (of_nat need) pp s = Some (of_nat (b + 4), s') \<and> tiled s' b ly'
    \<and> mem_deref pp s' = Some p' \<and> linked s' p' (ly_free b ly') 0 \<and> same_dom s s' \<and> (pp \<noteq> None \<longrightarrow> mh_head s' = mh_head s)
    \<and> (\<forall>x < addr_max. pp \<noteq> Some (of_nat x) \<and> (x < b \<or> b + n + ly_size ly \<le> x \<or> x \<in> owned (b + n) ly) \<longrightarrow> cell s' x = cell s x)"
proof -
  have b: "4 dvd b" "cell s b = Some (of_nat n)" "8 \<le> n" "tiled s (b + n) ly" using assms(1) by auto
  obtain r where r: "cell s (b + 4) = Some r" "linked s r (ly_free (b + n) ly) 0" using assms(2) by auto
  have bn: "(of_nat b :: u32) \<noteq> 0" using of_nat_u32_eq [of b 0] assms(4,5) by simp
  have sz: "of_nat need \<le> (of_nat n :: u32)" using assms(5,7) by (simp add: of_nat_u32_le)
  have hd: "of_nat need + mem_header_size \<le> (of_nat n :: u32) \<longleftrightarrow> need + 8 \<le> n"
    using of_nat_u32_le [of "need + 8" n] assms(4,5,7) by (simp add: mem_header_size_def)
  have free: "a + 4 < b \<or> b + n \<le> a" if "a \<in> set (ly_free (b + n) ly)" for a using ly_free_bounds [OF that] by simp
  have own: "b + n \<le> x" if "x \<in> owned (b + n) ly" for x using owned_bounds [OF that] by simp
  have assign: "mem_assign pp v t = Some (case pp of None \<Rightarrow> t\<lparr>mh_head := v\<rparr> | Some a \<Rightarrow> heap_put (unat a) v t)"
    if "same_dom s t" for v t
  proof (cases pp)
    case (Some a)
    then obtain k where k: "a = of_nat k" "k < addr_max" using pp by auto
    then have "cell s k \<noteq> None" using assms(6) Some by (auto simp: mem_deref_def)
    then have "cell t k \<noteq> None" using that k by (auto simp: same_dom_def)
    then show ?thesis using Some k mem_put_cell [of t k v] by (simp add: mem_assign_def unat_of_nat_u32)
  qed (simp add: mem_assign_def)
  let ?fin = "\<lambda>v t. case pp of None \<Rightarrow> t\<lparr>mh_head := v\<rparr> | Some a \<Rightarrow> heap_put (unat a) v t"
  have fin: "cell (?fin v t) x = (if pp = Some (of_nat x) then Some v else cell t x)"
    "mem_deref pp (?fin v t) = Some v" "pp \<noteq> None \<Longrightarrow> mh_head (?fin v t) = mh_head t" if "x < addr_max" for v t x
    using pp that by (auto simp: mem_deref_def unat_of_nat_u32 split: option.splits)
  have npp: "pp \<noteq> Some (of_nat x)" if "b \<le> x" "x < b + n + ly_size ly" for x
    using pp that assms(5) by auto
  show ?thesis
  proof (cases "need + 8 \<le> n")
    case False
    then have ly: "ly' = (True, n) # ly" by (simp add: ly')
    have run: "mem_malloc_loop (of_nat need) pp s = Some (of_nat (b + 4), ?fin r s)"
      using bn b(2) sz hd False r(1) assign [of s r] assms(6) by (simp add: mem_malloc_loop.simps same_dom_def mem_next_at_def)
    have cells: "cell (?fin r s) x = cell s x" if "b \<le> x" "x < b + n + ly_size ly" for x
      using fin(1) [of x r s] npp [OF that] that assms(5) by simp
    have "tiled (?fin r s) b ly'"
      using tiled_cong [of b ly' "?fin r s" s] cells b ly by simp
    moreover have "linked (?fin r s) r (ly_free b ly') 0"
      using linked_cong [of "ly_free (b + n) ly" "?fin r s" s] cells ly_free_tile [OF _ b(4)] r(2) ly by fastforce
    moreover have "mem_deref pp (?fin r s) = Some r" "pp \<noteq> None \<longrightarrow> mh_head (?fin r s) = mh_head s"
      using fin(2,3) [of 0] by simp_all
    moreover have "same_dom s (?fin r s)"
      using fin(1) assms(6) by (auto simp: same_dom_def mem_deref_def split: option.splits)
    ultimately show ?thesis using run fin(1) by (intro exI [of _ "?fin r s"] exI [of _ r]) simp
  next
    case True
    then have ly: "ly' = (True, need) # (False, n - need) # ly" by (simp add: ly')
    let ?d = "b + need"
    have d: "4 dvd ?d" using b(1) assms(8) by simp
    let ?s1 = "heap_put ?d (of_nat (n - need)) s"
    let ?s2 = "heap_put (?d + 4) r ?s1"
    let ?s3 = "heap_put b (of_nat need) ?s2"
    have cd: "cell s ?d \<noteq> None" "cell s (?d + 4) \<noteq> None" using pool_cells [OF assms(3) d] True by simp_all
    have sub: "(of_nat n :: u32) - of_nat need = of_nat (n - need)" using assms(7) by (simp add: of_nat_diff)
    have c3: "cell ?s3 x = (if x = b then Some (of_nat need) else if x = ?d + 4 then Some r
        else if x = ?d then Some (of_nat (n - need)) else cell s x)" if "x < addr_max" for x
      using that assms(5) True by simp
    have brk: "mem_break (of_nat b) (of_nat need) s = Some (of_nat ?d, ?s3)"
    proof -
      have e: "of_nat b + of_nat need = (of_nat ?d :: u32)" by simp
      have p: "mem_put (mem_size_at (of_nat ?d)) (of_nat (n - need)) s = Some ?s1"
        "mem_put (mem_next_at (of_nat ?d)) r ?s1 = Some ?s2" "mem_put (mem_size_at (of_nat b)) (of_nat need) ?s2 = Some ?s3"
        using cd b(2) assms(5) True by (intro mem_put_at; simp)+
      have "mem_get ?s1 (mem_next_at (of_nat b)) = Some r" using r(1) assms(5,9) True by simp
      then show ?thesis
        using b(2) p by (simp add: mem_break_def Let_def e sub del: of_nat_add)
    qed
    have sd: "same_dom s ?s3" using c3 b(2) cd by (auto simp: same_dom_def)
    let ?s' = "?fin (of_nat ?d) ?s3"
    have run: "mem_malloc_loop (of_nat need) pp s = Some (of_nat (b + 4), ?s')"
      using bn b(2) sz hd True brk assign [OF sd] assms(6)
      by (simp add: mem_malloc_loop.simps mem_next_of_nat del: of_nat_add of_nat_diff)
    have cells: "cell ?s' x = cell ?s3 x" if "b \<le> x" "x < b + n + ly_size ly" for x
      using fin(1) [of x _ ?s3] npp [OF that] that assms(5) by simp
    have tl: "\<forall>x. b + n \<le> x \<and> x < b + n + ly_size ly \<longrightarrow> cell ?s' x = cell s x"
      using cells c3 assms(5,9) True by simp
    have "tiled ?s' (b + n) ly" using tiled_cong [OF tl] b(4) by simp
    then have "tiled ?s' b ly'"
      using b d cells [of b] cells [of ?d] c3 [of b] c3 [of ?d] assms(5,9) True ly by (simp add: add.assoc)
    moreover have "linked ?s' (of_nat ?d) (ly_free b ly') 0"
    proof -
      have "\<forall>a \<in> set (ly_free (b + n) ly). cell ?s' (a + 4) = cell s (a + 4)"
        using tl ly_free_tile [OF _ b(4)] by fastforce
      then show ?thesis
        using linked_cong [of "ly_free (b + n) ly" ?s' s] r(2) cells [of "?d + 4"] c3 [of "?d + 4"] assms(5,9) True ly
        by simp
    qed
    moreover have "mem_deref pp ?s' = Some (of_nat ?d)" "pp \<noteq> None \<longrightarrow> mh_head ?s' = mh_head s"
      using fin(2,3) [of 0] by simp_all
    moreover have "same_dom s ?s'"
      using fin(1) assms(6) sd by (auto simp: same_dom_def mem_deref_def split: option.splits)
    moreover have "cell ?s' x = cell s x"
      if "x < addr_max" "pp \<noteq> Some (of_nat x)" "x < b \<or> b + n + ly_size ly \<le> x \<or> x \<in> owned (b + n) ly" for x
      using fin(1) [OF that(1)] c3 [OF that(1)] that(2,3) own [of x] assms(9) True by auto
    ultimately show ?thesis using run by (intro exI [of _ ?s'] exI [of _ "of_nat ?d"]) blast
  qed
qed


text \<open>The whole search: the links are passed from block to block.\<close>

definition malloc_done :: "nat \<Rightarrow> u32 option \<Rightarrow> nat \<Rightarrow> layout \<Rightarrow> mem_heap \<Rightarrow> nat \<times> layout \<Rightarrow> bool" where
  "malloc_done need pp b ly s r \<longleftrightarrow> (\<exists>s' p'. mem_malloc_loop (of_nat need) pp s = Some (of_nat (fst r + 4), s')
     \<and> tiled s' b (snd r) \<and> mem_deref pp s' = Some p' \<and> linked s' p' (ly_free b (snd r)) 0 \<and> same_dom s s'
     \<and> (pp \<noteq> None \<longrightarrow> mh_head s' = mh_head s)
     \<and> (\<forall>x < addr_max. pp \<noteq> Some (of_nat x) \<and> (x < b \<or> b + ly_size ly \<le> x \<or> x \<in> owned b ly) \<longrightarrow> cell s' x = cell s x))"

lemma mem_malloc_loop_spec:
  assumes "tiled s b ly" "linked s p (ly_free b ly) 0" "pool s b (b + ly_size ly)" "0 < b" "b + ly_size ly + 8 < addr_max"
    and "mem_deref pp s = Some p" "4 dvd need" "8 \<le> need" "need < addr_max"
    and "pp = None \<or> (\<exists>k. pp = Some (of_nat k) \<and> k < addr_max \<and> \<not> (b \<le> k \<and> k < b + ly_size ly))"
  shows "case ly_alloc need b ly of
      None \<Rightarrow> mem_malloc_loop (of_nat need) pp s = Some (0, s)
    | Some r \<Rightarrow> malloc_done need pp b ly s r"
  using assms
proof (induction need b ly arbitrary: pp p rule: ly_alloc.induct)
  case (1 need b)
  then show ?case by (simp add: mem_malloc_loop.simps)
next
  case (2 need b u n ly)
  have b: "4 dvd b" "cell s b = Some (of_nat n)" "8 \<le> n" "tiled s (b + n) ly" using 2(2) by auto
  have po: "pool s (b + n) (b + n + ly_size ly)" using 2(4) by (rule pool_sub) simp_all
  have sz: "b + n + ly_size ly + 8 < addr_max" using 2(6) by simp
  show ?case
  proof (cases "\<not> u \<and> need \<le> n")
    case True
    let ?ly = "if need + 8 \<le> n then (True, need) # (False, n - need) # ly else (True, n) # ly"
    have p: "p = of_nat b" using 2(3) True by simp
    have po1: "pool s b (b + n + ly_size ly)" using 2(4) by (simp add: add.assoc)
    have "malloc_done need pp b ((u, n) # ly) s (b, ?ly)"
      using mem_malloc_take [of s b n ly pp need, OF _ _ po1 2(5) sz _ _ 2(8,9)] 2(2,3,7,11) p True
      by (simp add: malloc_done_def add.assoc)
    then show ?thesis using True by simp
  next
    case False
    note IH = 2(1) [OF False b(4) _ po _ sz _ 2(8-10)]
    show ?thesis
    proof (cases u)
      case True
      have "case ly_alloc need (b + n) ly of None \<Rightarrow> mem_malloc_loop (of_nat need) pp s = Some (0, s)
        | Some r \<Rightarrow> malloc_done need pp (b + n) ly s r"
        using IH [of p pp] 2(3,5,7,11) True by fastforce
      moreover have npp: "pp \<noteq> Some (of_nat b)" using 2(11) sz b(3) by auto
      have "malloc_done need pp b ((u, n) # ly) s (a, (u, n) # l)" if d: "malloc_done need pp (b + n) ly s (a, l)" for a l
      proof -
        obtain s' p' where s': "mem_malloc_loop (of_nat need) pp s = Some (of_nat (a + 4), s')" "tiled s' (b + n) l"
          "mem_deref pp s' = Some p'" "linked s' p' (ly_free (b + n) l) 0" "same_dom s s'" "pp \<noteq> None \<longrightarrow> mh_head s' = mh_head s"
          "\<And>x. x < addr_max \<Longrightarrow> pp \<noteq> Some (of_nat x) \<Longrightarrow> x < b + n \<or> b + n + ly_size ly \<le> x \<or> x \<in> owned (b + n) ly
             \<Longrightarrow> cell s' x = cell s x"
          using d unfolding malloc_done_def by auto
        have "cell s' b = cell s b" using s'(7) [of b] npp sz b(3) by simp
        then have "tiled s' b ((u, n) # l)" using b(1-3) s'(2) by simp
        moreover have "cell s' x = cell s x"
          if "x < addr_max" "pp \<noteq> Some (of_nat x)" "x < b \<or> b + n + ly_size ly \<le> x \<or> x \<in> owned b ((u, n) # ly)" for x
          using that s'(7) [of x] True by auto
        ultimately show ?thesis using s'(1,3-6) True unfolding malloc_done_def by (simp add: add.assoc)
      qed
      ultimately show ?thesis using True by (auto split: option.splits)
    next
      case nu: False
      then obtain r where r: "p = of_nat b" "cell s (b + 4) = Some r" "linked s r (ly_free (b + n) ly) 0" using 2(3) by auto
      let ?pp = "Some (of_nat (b + 4))"
      have step: "mem_malloc_loop (of_nat need) pp s = mem_malloc_loop (of_nat need) ?pp s"
      proof -
        have "(of_nat b :: u32) \<noteq> 0" using of_nat_u32_eq [of b 0] 2(5) sz by simp
        moreover have "\<not> of_nat need \<le> (of_nat n :: u32)" using False nu sz 2(10) by (simp add: of_nat_u32_le)
        ultimately show ?thesis
          using 2(7) r(1) b(2) by (simp add: mem_malloc_loop.simps [of _ pp] mem_next_of_nat del: of_nat_add)
      qed
      have "case ly_alloc need (b + n) ly of None \<Rightarrow> mem_malloc_loop (of_nat need) ?pp s = Some (0, s)
        | Some r \<Rightarrow> malloc_done need ?pp (b + n) ly s r"
        using b(3) sz r(2) 2(5) by (intro IH [OF r(3)]) (auto simp: mem_deref_def simp del: of_nat_add intro!: exI [of _ "b + 4"])
      moreover have "malloc_done need pp b ((u, n) # ly) s (a, (u, n) # l)" if d: "malloc_done need ?pp (b + n) ly s (a, l)" for a l
      proof -
        obtain s' p' where s': "mem_malloc_loop (of_nat need) ?pp s = Some (of_nat (a + 4), s')" "tiled s' (b + n) l"
          "mem_deref ?pp s' = Some p'" "linked s' p' (ly_free (b + n) l) 0" "same_dom s s'" "mh_head s' = mh_head s"
          "\<And>x. x < addr_max \<Longrightarrow> x \<noteq> b + 4 \<Longrightarrow> x < b + n \<or> b + n + ly_size ly \<le> x \<or> x \<in> owned (b + n) ly
             \<Longrightarrow> cell s' x = cell s x"
          using d b(3) sz unfolding malloc_done_def by (auto simp del: of_nat_add)
        have "cell s' b = cell s b" using s'(7) [of b] sz b(3) by simp
        then have "tiled s' b ((u, n) # l)" using b(1-3) s'(2) by simp
        moreover have "mem_deref pp s' = Some p"
        proof (cases pp)
          case (Some c)
          then obtain k where k: "c = of_nat k" "k < addr_max" "\<not> (b \<le> k \<and> k < b + (n + ly_size ly))" using 2(11) by auto
          then have "cell s' k = cell s k" using s'(7) [of k] b(3) by auto
          then show ?thesis using 2(7) Some k(1) by (simp add: mem_deref_def)
        qed (use 2(7) s'(6) in \<open>simp add: mem_deref_def\<close>)
        moreover have "linked s' p (ly_free b ((u, n) # l)) 0"
          using r(1) s'(3,4) nu by (simp add: mem_deref_def del: of_nat_add)
        moreover have "cell s' x = cell s x"
          if "x < addr_max" "pp \<noteq> Some (of_nat x)" "x < b \<or> b + n + ly_size ly \<le> x \<or> x \<in> owned b ((u, n) # ly)" for x
        proof -
          have "x \<noteq> b + 4" using that(3) nu b(3) owned_bounds [of x "b + n" ly] by auto
          then show ?thesis using that s'(7) [of x] nu by auto
        qed
        ultimately show ?thesis using s'(1,5,6) step unfolding malloc_done_def by (simp add: add.assoc)
      qed
      ultimately show ?thesis using False nu step by (auto split: option.splits)
    qed
  qed
qed


text \<open>The size of a block for a request, as a number; requests within seven bytes of $2^{32}$ wrap.\<close>

definition request_size :: "nat \<Rightarrow> nat" where
  "request_size n = max 8 (4 * ((n + 7) div 4))"

lemma unat_and_not_3: "unat (x AND NOT (3 :: u32)) = 4 * (unat x div 4)"
proof -
  have 3: "(3 :: u32) = mask 2" by (simp add: mask_eq_exp_minus_1)
  have "2 \<le> k \<Longrightarrow> Suc (Suc (k - 2)) = k" for k :: nat by simp
  then have "x AND NOT (3 :: u32) = push_bit 2 (drop_bit 2 x)"
    unfolding 3 by (intro bit_word_eqI) (auto simp: bit_simps not_less)
  moreover have "unat (push_bit 2 (drop_bit 2 x)) = unat x div 4 * 4"
  proof -
    have "unat x div 4 * 4 < 4294967296" using unat_u32_less [of x] by linarith
    then show ?thesis
      unfolding unsigned_push_bit_eq unsigned_drop_bit_eq by (simp add: push_bit_eq_mult drop_bit_eq_div take_bit_eq_mod)
  qed
  ultimately show ?thesis by simp
qed

lemma mem_request_value: "unat n + 7 < addr_max \<Longrightarrow> mem_request n = of_nat (request_size (unat n))"
proof -
  assume n: "unat n + 7 < addr_max"
  have "unat (n + 7) = unat n + 7" using n by (simp add: unat_add_no_wrap)
  then have v: "unat ((n + 7) AND NOT 3) = 4 * ((unat n + 7) div 4)" using unat_and_not_3 [of "n + 7"] by simp
  have "(n + 7) AND NOT 3 < 8 \<longleftrightarrow> 4 * ((unat n + 7) div 4) < 8" using v by (simp add: word_less_nat_alt)
  moreover have "(n + 7) AND NOT 3 = of_nat (4 * ((unat n + 7) div 4))" by (simp only: v [symmetric] of_nat_unat ucast_id)
  ultimately show ?thesis
    by (simp add: mem_request_def mem_header_size_def request_size_def max_def Let_def not_less
        add.commute [of 7 n] del: of_nat_mult)
qed

lemma request_size_props: "8 \<le> request_size n" "4 dvd request_size n" "n + 4 \<le> request_size n" "n + 7 < addr_max \<Longrightarrow> request_size n < addr_max"
  unfolding request_size_def by (simp_all add: max_def) presburger+


lemma heap_alloc_spec:
  assumes "heap_ok b ly s" "unat n + 7 < addr_max"
  shows "case ly_alloc (request_size (unat n)) b ly of
      None \<Rightarrow> xy_mem_malloc n s = Some (0, s)
    | Some (a, ly') \<Rightarrow> \<exists>s'. xy_mem_malloc n s = Some (of_nat (a + 4), s') \<and> heap_ok b ly' s'
        \<and> (\<forall>x \<in> owned b ly. cell s' x = cell s x)"
proof -
  let ?need = "request_size (unat n)"
  have h: "tiled s b ly" "linked s (mh_head s) (ly_free b ly) 0" "pool s b (b + ly_size ly)" "0 < b"
    "b + ly_size ly + 8 < addr_max" "ly_joined ly" using assms(1) by (auto simp: heap_ok_def)
  have run: "xy_mem_malloc n s = mem_malloc_loop (of_nat ?need) None s"
    using mem_request_value [OF assms(2)] by (simp add: xy_mem_malloc_def xy_mem_malloc_from_irq_def)
  have spec: "case ly_alloc ?need b ly of None \<Rightarrow> mem_malloc_loop (of_nat ?need) None s = Some (0, s)
    | Some r \<Rightarrow> malloc_done ?need None b ly s r"
    using mem_malloc_loop_spec [OF h(1-5) _ request_size_props(2,1) request_size_props(4) [OF assms(2)]]
    by (simp add: mem_deref_def)
  show ?thesis
  proof (cases "ly_alloc ?need b ly")
    case (Some r)
    obtain a ly' where r: "r = (a, ly')" by fastforce
    then obtain s' where s': "mem_malloc_loop (of_nat ?need) None s = Some (of_nat (a + 4), s')" "tiled s' b ly'"
      "linked s' (mh_head s') (ly_free b ly') 0" "same_dom s s'" "\<And>x. x < addr_max \<Longrightarrow> x \<in> owned b ly \<Longrightarrow> cell s' x = cell s x"
      using spec Some by (auto simp: malloc_done_def mem_deref_def)
    have "ly_size ly' = ly_size ly" "ly_joined ly'" using ly_alloc_props [of ?need b ly a ly'] Some r h(6) by auto
    moreover have "pool s' b (b + ly_size ly)"
      using h(3,5) s'(4) by (auto simp: pool_def same_dom_def)
    ultimately have "heap_ok b ly' s'" using h(4,5) s'(2,3) by (simp add: heap_ok_def)
    moreover have "\<forall>x \<in> owned b ly. cell s' x = cell s x" using s'(5) owned_bounds [of _ b ly] h(5) by fastforce
    ultimately show ?thesis using run s'(1) Some r by (auto simp del: of_nat_add)
  qed (use spec run in simp)
qed


subsection \<open>Release\<close>

lemma ly_free_Nil_iff: "ly_free b ly = [] \<longleftrightarrow> (\<forall>t \<in> set ly. fst t)"
  by (induction b ly rule: ly_free.induct) auto

text \<open>A merge with the block behind joins it, or links to it.\<close>

lemma mem_merge_joins:
  assumes "cell s a = Some (of_nat n)" "cell s (a + 4) \<noteq> None" "cell s z = Some (of_nat k)" "cell s (z + 4) = Some r"
    and "a + n \<le> z" "z + k + 8 < addr_max" "8 \<le> n" "8 \<le> k" "0 < a"
  shows "mem_merge (of_nat a) (of_nat z) s =
    Some (if a + n = z then heap_put (a + 4) r (heap_put a (of_nat (n + k)) s) else heap_put (a + 4) (of_nat z) s)"
proof -
  have e: "(of_nat a + of_nat n = (of_nat z :: u32)) = (a + n = z)" using of_nat_u32_eq [of "a + n" z] assms(5,6) by simp
  have p: "mem_put (mem_size_at (of_nat a)) v s = Some (heap_put a v s)"
    "mem_put (mem_next_at (of_nat a)) v s = Some (heap_put (a + 4) v s)"
    "mem_put (mem_next_at (of_nat a)) v (heap_put a w s) = Some (heap_put (a + 4) v (heap_put a w s))" for v w
    using assms(1,2,5,6) by (intro mem_put_at; simp)+
  show ?thesis
    using assms(1,3,4,5,6,7) p e by (simp add: mem_merge_def flip: of_nat_add)
qed


text \<open>The first free block of a layout is its first block, or an untouched join.\<close>

lemma ly_first_free:
  assumes "tiled s b post" "ly_free b post = c # cs"
  shows "\<exists>k. cell s c = Some (of_nat k) \<and> 8 \<le> k \<and> c + k \<le> b + ly_size post
    \<and> (b = c \<longrightarrow> (\<exists>p. post = (False, k) # p \<and> cs = ly_free (c + k) p))
    \<and> (b \<noteq> c \<longrightarrow> ly_join ((False, n) # post) = (False, n) # post)"
proof (cases post)
  case (Cons t p)
  obtain u j where t: "t = (u, j)" by fastforce
  show ?thesis
  proof (cases u)
    case False
    then show ?thesis using assms Cons t by auto
  next
    case True
    obtain p1 x p2 where x: "post = p1 @ x # p2" "\<not> fst x" "\<forall>y \<in> set p1. fst y"
      using split_list_first_prop [of post "\<lambda>t. \<not> fst t"] assms(2) ly_free_Nil_iff [of b post] by auto
    have p1: "ly_free b p1 = []" "p1 \<noteq> []" using x True Cons t by (auto simp: ly_free_Nil_iff)
    obtain k where k: "x = (False, k)" using x(2) by (cases x) simp
    have c: "c = b + ly_size p1" using assms(2) x(1) k p1(1) by simp
    have "0 < ly_size p1" using assms(1) x(1) p1(2) by (cases p1) auto
    moreover have "ly_join ((False, n) # post) = (False, n) # post" using True Cons t by simp
    ultimately show ?thesis using assms(1) x(1) k c by (intro exI [of _ k]) (simp add: tiled_append)
  qed
qed (use assms(2) in simp)

definition link_behind :: "u32 \<Rightarrow> u32 \<Rightarrow> mem_heap \<Rightarrow> mem_heap option" where
  "link_behind y z s = (if z \<noteq> 0 then mem_merge y z s else mem_put (mem_next_at y) 0 s)"

lemma link_behind_spec:
  assumes "tiled s a ((True, n) # post)" "linked s z (ly_free (a + n) post) 0" "pool s a (a + n + ly_size post)"
    and "0 < a" "a + n + ly_size post + 8 < addr_max"
  shows "\<exists>s1 m r. link_behind (of_nat a) z s = Some s1 \<and> ly_join ((False, n) # post) = (False, m) # r
    \<and> tiled s1 a ((False, m) # r) \<and> linked s1 (of_nat a) (a # ly_free (a + m) r) 0 \<and> same_dom s s1
    \<and> mh_head s1 = mh_head s \<and> (\<forall>x < addr_max. x \<noteq> a \<and> x \<noteq> a + 4 \<longrightarrow> cell s1 x = cell s x)"
proof -
  have a: "4 dvd a" "cell s a = Some (of_nat n)" "8 \<le> n" "tiled s (a + n) post" using assms(1) by auto
  have c4: "cell s (a + 4) \<noteq> None" using pool_cells [OF assms(3) a(1)] a(3) by simp
  have tl: "tiled s1 (a + n) post" if "\<forall>x < addr_max. x \<noteq> a \<and> x \<noteq> a + 4 \<longrightarrow> cell s1 x = cell s x" for s1
    using tiled_cong [of "a + n" post s1 s] that a(3,4) assms(5) by simp
  show ?thesis
  proof (cases "ly_free (a + n) post")
    case Nil
    let ?s1 = "heap_put (a + 4) 0 s"
    have j: "ly_join ((False, n) # post) = (False, n) # post"
      using Nil by (cases post) (auto simp: ly_free_Nil_iff)
    have z: "z = 0" using assms(2) Nil by simp
    have "link_behind (of_nat a) z s = Some ?s1" using mem_put_at(2) [OF c4] z by (simp add: link_behind_def)
    moreover have "tiled ?s1 a ((False, n) # post)" using a assms(5) tl [of ?s1] by simp
    moreover have "same_dom s ?s1" using c4 assms(5) a(3) by (auto simp: same_dom_def)
    ultimately show ?thesis
      using j Nil assms(5) a(3) by (intro exI [of _ ?s1] exI [of _ n] exI [of _ post]) simp
  next
    case (Cons c cs)
    obtain r where z: "z = of_nat c" "cell s (c + 4) = Some r" "linked s r cs 0" using assms(2) Cons by auto
    have c: "a + n \<le> c" "c + 8 \<le> a + n + ly_size post" using ly_free_tile [of c "a + n" post s] Cons a(4) by auto
    have zn: "z \<noteq> 0" using z(1) of_nat_u32_eq [of c 0] c assms(4,5) by simp
    have cs: "a + n \<le> d \<and> d + 8 \<le> a + n + ly_size post" if "d \<in> set cs" for d
      using ly_free_tile [of d "a + n" post s] Cons that a(4) by auto
    obtain k where k: "cell s c = Some (of_nat k)" "8 \<le> k" "c + k \<le> a + n + ly_size post"
      "a + n = c \<Longrightarrow> \<exists>p. post = (False, k) # p \<and> cs = ly_free (c + k) p"
      "a + n \<noteq> c \<Longrightarrow> ly_join ((False, n) # post) = (False, n) # post"
      using ly_first_free [OF a(4) Cons, of n] by blast
    note mg = mem_merge_joins [OF a(2) c4 k(1) z(2) c(1) _ a(3) k(2) assms(4)]
    show ?thesis
    proof (cases "a + n = c")
      case True
      then obtain p where p: "post = (False, k) # p" "cs = ly_free (c + k) p" using k(4) by blast
      let ?s1 = "heap_put (a + 4) r (heap_put a (of_nat (n + k)) s)"
      have "link_behind (of_nat a) z s = Some ?s1" using mg k(3) assms(5) True zn z(1) by (simp add: link_behind_def)
      moreover have "tiled ?s1 a ((False, n + k) # p)"
        using a assms(5) tl [of ?s1] p(1) by (simp add: add.assoc)
      moreover have "linked ?s1 (of_nat a) (a # ly_free (a + (n + k)) p) 0"
        using linked_cong [of cs ?s1 s] z(3) cs p(2) True a(3) assms(5) by (fastforce simp: add.assoc)
      moreover have "same_dom s ?s1" using c4 a(2,3) assms(5) by (auto simp: same_dom_def)
      ultimately show ?thesis
        using p(1) assms(5) a(3) by (intro exI [of _ ?s1] exI [of _ "n + k"] exI [of _ p]) simp
    next
      case False
      let ?s1 = "heap_put (a + 4) (of_nat c) s"
      have "link_behind (of_nat a) z s = Some ?s1" using mg k(3) assms(5) False zn z(1) by (simp add: link_behind_def)
      moreover have "tiled ?s1 a ((False, n) # post)" using a assms(5) tl [of ?s1] by simp
      moreover have "linked ?s1 (of_nat a) (a # ly_free (a + n) post) 0"
        using linked_cong [of cs ?s1 s] z cs c Cons a(3) assms(5) by fastforce
      moreover have "same_dom s ?s1" using c4 assms(5) a(3) by (auto simp: same_dom_def)
      ultimately show ?thesis
        using k(5) [OF False] assms(5) a(3) by (intro exI [of _ ?s1] exI [of _ n] exI [of _ post]) simp
    qed
  qed
qed


lemma mem_find_spec:
  "linked s (of_nat x) ((x # fs) @ gs) 0 \<Longrightarrow> \<forall>f \<in> set fs. 0 < f \<and> f < y \<Longrightarrow> \<forall>g \<in> set gs. y \<le> g \<and> g < addr_max \<Longrightarrow>
   0 < y \<Longrightarrow> y < addr_max \<Longrightarrow>
   \<exists>z. mem_find (of_nat y) (of_nat x) s = Some (of_nat (last (x # fs)), z) \<and> linked s z gs 0"
proof (induction fs arbitrary: x)
  case Nil
  then obtain r where r: "cell s (x + 4) = Some r" "linked s r gs 0" by auto
  have "\<not> (r \<noteq> 0 \<and> r < of_nat y)"
    using r(2) Nil(3,5) by (cases gs) (auto simp: of_nat_u32_less)
  then show ?case using r by (subst mem_find.simps) auto
next
  case (Cons f fs)
  then have r: "cell s (x + 4) = Some (of_nat f)" "linked s (of_nat f) ((f # fs) @ gs) 0" by auto
  have f: "(of_nat f :: u32) \<noteq> 0" "(of_nat f :: u32) < of_nat y"
    using Cons(3,6) of_nat_u32_eq [of f 0] by (auto simp: of_nat_u32_less)
  have "\<exists>z. mem_find (of_nat y) (of_nat f) s = Some (of_nat (last (f # fs)), z) \<and> linked s z gs 0"
    using Cons by (intro Cons.IH) auto
  then show ?case using r(1) f by (subst mem_find.simps) auto
qed


lemma ly_join_joined:
  "ly_joined post \<Longrightarrow> ly_join ((False, n) # post) = (False, m) # r \<Longrightarrow>
   ly_joined r \<and> (r = [] \<or> fst (hd r)) \<and> m + ly_size r = n + ly_size post"
  by (cases "(False, n) # post" rule: ly_join.cases) (auto simp: ly_joined_Cons)

lemma owned_join: "ly_join ((False, n) # post) = (False, m) # r \<Longrightarrow> owned (a + m) r = owned (a + n) post"
  by (cases "(False, n) # post" rule: ly_join.cases) (auto simp: add.assoc)

text \<open>The result of a release when no block in front is free, and when the last free one is not adjacent or is.\<close>

lemma ly_release_cases:
  assumes "ly_join ((False, n) # post) = (False, m) # r"
  shows "ly_free b pre = [] \<Longrightarrow> ly_release pre n post = pre @ (False, m) # r"
    and "pre = p1 @ (False, k) # p2 \<Longrightarrow> ly_free c p2 = [] \<Longrightarrow> p2 \<noteq> [] \<Longrightarrow> ly_release pre n post = pre @ (False, m) # r"
    and "pre = p1 @ [(False, k)] \<Longrightarrow> ly_release pre n post = p1 @ (False, k + m) # r"
  using assms by (auto simp: ly_release_def ly_free_Nil_iff butlast_append)

lemma ly_last_free:
  assumes "ly_free b pre \<noteq> []"
  obtains p1 k p2 where "pre = p1 @ (False, k) # p2" "\<And>c. ly_free c p2 = []"
proof -
  have "\<exists>t \<in> set pre. \<not> fst t" using assms by (simp add: ly_free_Nil_iff)
  then obtain p1 x p2 where "pre = p1 @ x # p2" "\<not> fst x" "\<forall>z \<in> set p2. fst z"
    using split_list_last_prop [of pre "\<lambda>t. \<not> fst t"] by blast
  then show ?thesis using that [of p1 "snd x" p2] by (cases x) (simp add: ly_free_Nil_iff)
qed

lemma ly_release_joined: "ly_joined (pre @ (True, n) # post) \<Longrightarrow> ly_joined (ly_release pre n post)"
proof -
  assume j: "ly_joined (pre @ (True, n) # post)"
  obtain m r where mr: "ly_join ((False, n) # post) = (False, m) # r" by (cases "(False, n) # post" rule: ly_join.cases) auto
  have jr: "ly_joined r" "r = [] \<or> fst (hd r)" using ly_join_joined [OF _ mr] j by (auto simp: ly_joined_append ly_joined_Cons)
  show ?thesis
  proof (cases "ly_free 0 pre = []")
    case True
    then have "pre = [] \<or> fst (last pre)" by (metis ly_free_Nil_iff last_in_set)
    then show ?thesis using ly_release_cases(1) [OF mr True] j jr by (auto simp: ly_joined_append ly_joined_Cons)
  next
    case False
    obtain p1 k p2 where p: "pre = p1 @ (False, k) # p2" "\<And>c. ly_free c p2 = []" by (rule ly_last_free [OF False]) blast
    show ?thesis
    proof (cases "p2 = []")
      case True
      then show ?thesis using ly_release_cases(3) [OF mr, of pre p1 k] p j jr by (auto simp: ly_joined_append ly_joined_Cons)
    next
      case False
      then have "fst (last pre)" using p by (simp add: ly_free_Nil_iff)
      then show ?thesis
        using ly_release_cases(2) [OF mr p(1) p(2) False] j jr by (auto simp: ly_joined_append ly_joined_Cons)
    qed
  qed
qed


text \<open>A state that agrees with the links, blocks and cells of the new layout.\<close>

lemma heap_okI:
  assumes "heap_ok b ly s" "ly_size ly' = ly_size ly" "ly_joined ly'" "same_dom s s'"
    and "tiled s' b ly'" "linked s' (mh_head s') (ly_free b ly') 0"
  shows "heap_ok b ly' s'"
  using assms by (auto simp: heap_ok_def pool_def same_dom_def)

text \<open>The merge of the last free block in front with the released one.\<close>

lemma merge_front_spec:
  assumes t: "tiled s b (p1 @ (False, k) # p2 @ (False, m) # r)" and p2: "\<And>c. ly_free c p2 = []"
    and x: "x = b + ly_size p1" and a: "a = x + k + ly_size p2"
    and l: "linked s h (ly_free b p1) (of_nat x)" "linked s (of_nat a) (a # ly_free (a + m) r) 0"
    and c: "cell s (x + 4) \<noteq> None" and b: "0 < b" "a + m + ly_size r + 8 < addr_max"
    and L: "L = (if p2 = [] then p1 @ (False, k + m) # r else p1 @ (False, k) # p2 @ (False, m) # r)"
  shows "\<exists>s'. mem_merge (of_nat x) (of_nat a) s = Some s' \<and> tiled s' b L \<and> linked s' h (ly_free b L) 0
    \<and> same_dom s s' \<and> mh_head s' = mh_head s \<and> (\<forall>y < addr_max. y \<noteq> x \<and> y \<noteq> x + 4 \<longrightarrow> cell s' y = cell s y)"
proof -
  have tx: "tiled s b p1" "4 dvd x" "cell s x = Some (of_nat k)" "8 \<le> k" "tiled s (x + k) p2"
    "cell s a = Some (of_nat m)" "8 \<le> m" "tiled s (a + m) r"
    using t x a by (auto simp: tiled_append add.assoc)
  obtain q where q: "cell s (a + 4) = Some q" "linked s q (ly_free (a + m) r) 0" using l(2) by auto
  have cx: "x \<le> f \<longrightarrow> x + k \<le> f" if "f \<in> set (ly_free b p1) \<union> set (ly_free (a + m) r)" for f
    using that ly_free_tile [of f b p1 s] tx(1) x a ly_free_bounds [of f "a + m" r] by auto
  have fp: "f + 8 \<le> x" if "f \<in> set (ly_free b p1)" for f using ly_free_tile [OF that tx(1)] x by simp
  have fr: "a + m \<le> f \<and> f + 8 \<le> a + m + ly_size r" if "f \<in> set (ly_free (a + m) r)" for f
    using ly_free_tile [OF that tx(8)] by simp
  have mg: "mem_merge (of_nat x) (of_nat a) s = Some (if x + k = a then heap_put (x + 4) q (heap_put x (of_nat (k + m)) s)
      else heap_put (x + 4) (of_nat a) s)"
    using mem_merge_joins [OF tx(3) c tx(6) q(1) _ _ tx(4,7)] a b x by simp
  define s' where "s' = (if x + k = a then heap_put (x + 4) q (heap_put x (of_nat (k + m)) s) else heap_put (x + 4) (of_nat a) s)"
  have e: "x + k = a \<longleftrightarrow> p2 = []" using a tx(5) by (cases p2) auto
  have xb: "x + 8 \<le> a" "a + m + ly_size r < addr_max" using a tx(4) b(2) by simp_all
  have fa: "y < addr_max \<Longrightarrow> y \<noteq> x \<Longrightarrow> y \<noteq> x + 4 \<Longrightarrow> cell s' y = cell s y" for y using xb by (simp add: s'_def)
  have lp: "linked s' h (ly_free b p1) (of_nat x)" "linked s' q (ly_free (a + m) r) 0"
  proof -
    have "cell s' (f + 4) = cell s (f + 4)" if "f \<in> set (ly_free b p1)" for f using fp [OF that] fa [of "f + 4"] xb by simp
    moreover have "cell s' (f + 4) = cell s (f + 4)" if "f \<in> set (ly_free (a + m) r)" for f
      using fr [OF that] fa [of "f + 4"] xb by simp
    ultimately show "linked s' h (ly_free b p1) (of_nat x)" "linked s' q (ly_free (a + m) r) 0"
      using l(1) q(2) linked_cong by blast+
  qed
  have tp: "tiled s' b p1" "tiled s' (x + k) p2" "tiled s' (a + m) r"
    using tiled_cong [of b p1 s' s] tiled_cong [of "x + k" p2 s' s] tiled_cong [of "a + m" r s' s] tx(1,4,5,8) fa xb x a by simp_all
  have "tiled s' b L \<and> linked s' h (ly_free b L) 0"
  proof (cases "p2 = []")
    case True
    then have "cell s' x = Some (of_nat (k + m))" "cell s' (x + 4) = Some q" using e xb by (simp_all add: s'_def)
    then show ?thesis using True tp lp tx(2,4) L x a e by (auto simp: tiled_append linked_append add.assoc)
  next
    case False
    then have "cell s' x = Some (of_nat k)" "cell s' (x + 4) = Some (of_nat a)" "cell s' a = Some (of_nat m)" "cell s' (a + 4) = Some q"
      using e xb tx(3,6,7) q(1) by (simp_all add: s'_def)
    moreover have "4 dvd a" using t x a by (auto simp: tiled_append add.assoc)
    ultimately show ?thesis
      using False tp lp tx(2,4,7) L p2 unfolding x a by (auto simp: tiled_append linked_append add.assoc)
  qed
  moreover have "same_dom s s'" using fa c tx(3) xb by (auto simp: same_dom_def s'_def)
  moreover have "mh_head s' = mh_head s" by (simp add: s'_def)
  ultimately show ?thesis using mg fa unfolding s'_def [symmetric] by blast
qed

lemma heap_free_spec:
  assumes ok: "heap_ok b (pre @ (True, n) # post) s" and a: "a = b + ly_size pre"
  shows "\<exists>s'. xy_mem_free (of_nat (a + 4)) s = Some s' \<and> heap_ok b (ly_release pre n post) s'
    \<and> (\<forall>x \<in> owned b pre \<union> owned (a + n) post. cell s' x = cell s x)"
proof -
  let ?ly = "pre @ (True, n) # post"
  have h: "tiled s b pre" "tiled s a ((True, n) # post)" "pool s b (a + n + ly_size post)"
    "0 < b" "a + n + ly_size post + 8 < addr_max" "ly_joined ?ly"
    "linked s (mh_head s) (ly_free b pre @ ly_free (a + n) post) 0"
    using ok a by (auto simp: heap_ok_def tiled_append add.assoc)
  have n8: "8 \<le> n" "4 dvd a" "0 < a" using h(2,4) a by auto
  have y: "(of_nat (a + 4) :: u32) - 4 = of_nat a" by simp
  have po: "pool s a (a + n + ly_size post)" using pool_sub [OF h(3)] a by simp
  have szr: "ly_size (ly_release pre n post) = ly_size ?ly" by (simp add: ly_release_size)
  note okI = heap_okI [OF ok szr ly_release_joined [OF h(6)]]
  have bpre: "b \<le> f \<and> f + 8 \<le> a" if "f \<in> set (ly_free b pre)" for f using ly_free_tile [OF that h(1)] a by simp
  have bpost: "a + n \<le> g \<and> g + 8 \<le> a + n + ly_size post" if "g \<in> set (ly_free (a + n) post)" for g
    using ly_free_tile [OF that, of s] h(2) by simp
  have own: "x \<noteq> a \<and> x \<noteq> a + 4 \<and> x < addr_max" if "x \<in> owned b pre \<union> owned (a + n) post" for x
    using that owned_bounds [of x b pre] owned_bounds [of x "a + n" post] a n8 h(5) by auto
  show ?thesis
  proof (cases "ly_free b pre")
    case Nil
    obtain s1 m r where s1: "link_behind (of_nat a) (mh_head s) s = Some s1"
      "ly_join ((False, n) # post) = (False, m) # r" "tiled s1 a ((False, m) # r)"
      "linked s1 (of_nat a) (a # ly_free (a + m) r) 0" "same_dom s s1"
      "\<And>x. x < addr_max \<Longrightarrow> x \<noteq> a \<Longrightarrow> x \<noteq> a + 4 \<Longrightarrow> cell s1 x = cell s x"
      using link_behind_spec [OF h(2) _ po n8(3) h(5), of "mh_head s"] h(7) Nil by auto
    let ?s' = "s1\<lparr>mh_head := of_nat a\<rparr>"
    have lt: "of_nat a < mh_head s" if "mh_head s \<noteq> 0"
    proof (cases "ly_free (a + n) post")
      case (Cons g gs)
      then show ?thesis using h(5,7) Nil bpost [of g] n8 of_nat_u32_less [of a g] by simp
    qed (use h(7) Nil that in simp)
    have "xy_mem_free (of_nat (a + 4)) s = Some ?s'"
      unfolding xy_mem_free_def xy_mem_free_from_irq_def Let_def y using s1(1) lt by (auto simp: link_behind_def)
    moreover have "tiled ?s' b pre"
      using tiled_cong [of b pre ?s' s] h(1,5) s1(6) a n8 by simp
    moreover have "tiled ?s' a ((False, m) # r)" using tiled_cong [of a "(False, m) # r" ?s' s1] s1(3) by simp
    moreover have "linked ?s' (of_nat a) (a # ly_free (a + m) r) 0"
      using iffD2 [OF linked_cong s1(4), of ?s'] by simp
    moreover have "ly_release pre n post = pre @ (False, m) # r" using ly_release_cases(1) [OF s1(2) Nil] .
    ultimately show ?thesis
      using okI [of ?s'] s1(5,6) own Nil a by (intro exI [of _ ?s']) (auto simp: tiled_append same_dom_def)
  next
    case (Cons x0 fs)
    have hd: "mh_head s = of_nat x0" using h(7) Cons by simp
    obtain p1 k p2 where p: "pre = p1 @ (False, k) # p2" "\<And>c. ly_free c p2 = []" by (rule ly_last_free [of b pre]) (use Cons in auto)
    let ?x = "b + ly_size p1"
    have lx: "last (x0 # fs) = ?x" using Cons p by (metis ly_free_append ly_free.simps(2) last_snoc)
    obtain z where z: "mem_find (of_nat a) (of_nat x0) s = Some (of_nat ?x, z)" "linked s z (ly_free (a + n) post) 0"
      using mem_find_spec [of s x0 fs "ly_free (a + n) post" a] h(4,5,7) hd Cons bpre bpost lx n8 by fastforce
    obtain s1 m r where s1: "link_behind (of_nat a) z s = Some s1"
      "ly_join ((False, n) # post) = (False, m) # r" "tiled s1 a ((False, m) # r)"
      "linked s1 (of_nat a) (a # ly_free (a + m) r) 0" "same_dom s s1" "mh_head s1 = mh_head s"
      "\<And>x. x < addr_max \<Longrightarrow> x \<noteq> a \<Longrightarrow> x \<noteq> a + 4 \<Longrightarrow> cell s1 x = cell s x"
      using link_behind_spec [OF h(2) z(2) po n8(3) h(5)] by auto
    have mr: "m + ly_size r = n + ly_size post" using ly_join_joined [OF _ s1(2)] h(6) by (auto simp: ly_joined_append ly_joined_Cons)
    have tp: "tiled s1 b pre" using tiled_cong [of b pre s1 s] h(1,5) s1(7) a n8 by simp
    let ?L = "if p2 = [] then p1 @ (False, k + m) # r else p1 @ (False, k) # p2 @ (False, m) # r"
    have L: "ly_release pre n post = ?L" using ly_release_cases(2,3) [OF s1(2)] p by auto
    have c: "cell s1 (?x + 4) \<noteq> None" "4 dvd ?x" "8 \<le> k" "?x + 8 \<le> a"
      using pool_cells [OF h(3), of ?x] h(1,5) p(1) a s1(7) [of "?x + 4"] by (auto simp: tiled_append)
    have l1: "linked s1 (of_nat x0) (ly_free b p1) (of_nat ?x)"
    proof -
      have "linked s (of_nat x0) (ly_free b p1) (of_nat ?x)" using h(7) hd p by (auto simp: linked_append)
      moreover have "cell s1 (f + 4) = cell s (f + 4)" if "f \<in> set (ly_free b p1)" for f
        using bpre [of f] that p(1) s1(7) [of "f + 4"] h(5) by simp
      ultimately show ?thesis using linked_cong by blast
    qed
    obtain s' where s': "mem_merge (of_nat ?x) (of_nat a) s1 = Some s'" "tiled s' b ?L" "linked s' (of_nat x0) (ly_free b ?L) 0"
      "same_dom s1 s'" "mh_head s' = mh_head s1" "\<And>y. y < addr_max \<Longrightarrow> y \<noteq> ?x \<Longrightarrow> y \<noteq> ?x + 4 \<Longrightarrow> cell s' y = cell s1 y"
      using merge_front_spec [of s1 b p1 k p2 m r ?x a "of_nat x0" ?L] tp s1(3,4) p a l1 c(1) h(4,5) mr
      by (auto simp: tiled_append add.assoc)
    have run: "xy_mem_free (of_nat (a + 4)) s = Some s'"
    proof -
      have "(of_nat x0 :: u32) \<noteq> 0" "\<not> (of_nat a :: u32) < of_nat x0"
        using of_nat_u32_eq [of x0 0] bpre [of x0] Cons h(4,5) by (auto simp: of_nat_u32_less)
      then show ?thesis
        unfolding xy_mem_free_def xy_mem_free_from_irq_def Let_def y using hd z(1) s1(1) s'(1) by (auto simp: link_behind_def)
    qed
    have "same_dom s s'" using s1(5) s'(4) by (simp add: same_dom_def)
    then have "heap_ok b (ly_release pre n post) s'" using okI [of s'] s'(2,3,5) s1(6) hd L by simp
    moreover have "cell s' v = cell s v" if v: "v \<in> owned b pre \<union> owned (a + n) post" for v
    proof -
      have "v \<noteq> ?x \<and> v \<noteq> ?x + 4"
        using v p(1) a owned_bounds [of v b p1] owned_bounds [of v "?x + k" p2] owned_bounds [of v "a + n" post] c(3,4)
        by (auto simp: owned_append)
      then show ?thesis using s'(6) [of v] s1(7) [of v] own [OF v] by simp
    qed
    ultimately show ?thesis using run by blast
  qed
qed

end
