(* ===== verification/Xy_Mem_Properties.thy ===== *)
theory Xy_Mem_Properties
  imports Xy_Mem_Correct
begin

text \<open>
  The heap in use: a program that allocates, writes to its blocks and releases them, from a fresh pool
  on. Its blocks never overlap, no operation gets stuck, and nothing is lost.
\<close>

subsection \<open>The byte routines\<close>

lemma xy_mem_set_spec:
  "p + n \<le> length mem \<Longrightarrow> xy_mem_set mem p v n = Some (take p mem @ replicate n v @ drop (p + n) mem)"
proof (induction n arbitrary: mem p)
  case (Suc n)
  then have "xy_mem_set (mem[p := v]) (p + 1) v n
    = Some (take (p + 1) (mem[p := v]) @ replicate n v @ drop (p + 1 + n) (mem[p := v]))"
    by (intro Suc.IH) simp
  then show ?case using Suc.prems by (simp add: mem_simps take_Suc_update)
qed simp

lemma mem_cmp_loop_spec:
  "\<forall>i \<in> set is. i < length s \<and> i < length d \<Longrightarrow> mem_cmp_loop s d is =
     Some (case filter (\<lambda>i. s ! i \<noteq> d ! i) is of [] \<Rightarrow> 0 | i # _ \<Rightarrow> if s ! i < d ! i then - 1 else 1)"
  by (induction "is") (auto simp: mem_simps)

text \<open>The byte copy is the move of the string library.\<close>

lemma mem_copy_loops: "mem_copy_up mem d s n = move_forward mem d s n" "mem_copy_down mem d s n = move_backward mem d s n"
proof -
  show "mem_copy_up mem d s n = move_forward mem d s n"
    by (induction n arbitrary: mem d s) simp_all
  show "mem_copy_down mem d s n = move_backward mem d s n"
    by (induction n arbitrary: mem d s) simp_all
qed

lemma move_backward_same: "p \<le> length mem \<Longrightarrow> n \<le> p \<Longrightarrow> move_backward mem p p n = Some mem"
  by (induction n arbitrary: p) (simp_all add: mem_simps)

lemma xy_mem_copy_is_memmove:
  "dest + n \<le> length mem \<Longrightarrow> src + n \<le> length mem \<Longrightarrow> xy_mem_copy mem dest src n = xy_memmove mem dest src n"
  by (auto simp: xy_mem_copy_def xy_memmove_def mem_copy_loops move_backward_same)

subsection \<open>Programs that use the heap\<close>

lemma ly_alloc_split:
  "ly_alloc need b ly = Some (a, ly') \<Longrightarrow> \<exists>pre k post. ly = pre @ (False, k) # post \<and> need \<le> k \<and> a = b + ly_size pre
     \<and> ly' = pre @ (if need + 8 \<le> k then [(True, need), (False, k - need)] else [(True, k)]) @ post"
proof (induction need b ly arbitrary: a ly' rule: ly_alloc.induct)
  case (2 need b u n ly)
  show ?case
  proof (cases "\<not> u \<and> need \<le> n")
    case True
    then show ?thesis using 2(2) by (intro exI [of _ "[]"] exI [of _ n] exI [of _ ly]) auto
  next
    case False
    then obtain l where l: "ly_alloc need (b + n) ly = Some (a, l)" "ly' = (u, n) # l" using 2(2) by auto
    obtain pre k post where "ly = pre @ (False, k) # post" "need \<le> k" "a = b + n + ly_size pre"
      "l = pre @ (if need + 8 \<le> k then [(True, need), (False, k - need)] else [(True, k)]) @ post"
      using 2(1) [OF False l(1)] by blast
    then show ?thesis using l(2) by (intro exI [of _ "(u, n) # pre"] exI [of _ k] exI [of _ post]) simp
  qed
qed simp

lemma ly_used_join: "ly_used b (ly_join l) = ly_used b l"
  by (cases l rule: ly_join.cases) (auto simp: add.assoc)

lemma ly_release_used: "ly_used b (ly_release pre n post) = ly_used b pre @ ly_used (b + ly_size pre + n) post"
proof (cases "pre \<noteq> [] \<and> \<not> fst (last pre)")
  case True
  then obtain p k where p: "pre = p @ [(False, k)]" by (metis append_butlast_last_id prod.collapse)
  then show ?thesis by (simp add: ly_release_def ly_used_join add.assoc)
next
  case False
  then show ?thesis unfolding ly_release_def by (subst if_not_P) (auto simp: ly_used_join add.assoc)
qed

text \<open>
  The blocks a program holds: a pointer and the size it asked for. Each lies in its own block in use,
  behind the size cell, and there is no other block in use.
\<close>

type_synonym live = "(u32 \<times> u32) list"

definition live_blocks :: "(nat \<times> nat) set \<Rightarrow> live \<Rightarrow> bool" where
  "live_blocks U live \<longleftrightarrow> distinct (map fst live) \<and> (unat \<circ> fst) ` set live = (\<lambda>(a, k). a + 4) ` U
     \<and> (\<forall>p n k. (p, n) \<in> set live \<and> (unat p - 4, k) \<in> U \<longrightarrow> unat n + 4 \<le> k)"

definition live_ok :: "nat \<Rightarrow> layout \<Rightarrow> live \<Rightarrow> bool" where
  "live_ok b ly live \<longleftrightarrow> live_blocks (set (ly_used b ly)) live"

definition heap_inv :: "nat \<Rightarrow> nat \<Rightarrow> mem_heap \<times> live \<Rightarrow> bool" where
  "heap_inv b sz c \<longleftrightarrow> (\<exists>ly. heap_ok b ly (fst c) \<and> ly_size ly = sz \<and> live_ok b ly (snd c))"

text \<open>A write to an aligned word of a block the program holds.\<close>

definition live_word :: "live \<Rightarrow> nat \<Rightarrow> bool" where
  "live_word live x \<longleftrightarrow> (\<exists>(p, n) \<in> set live. unat p \<le> x \<and> x < unat p + unat n)"

inductive heap_step :: "mem_heap \<times> live \<Rightarrow> mem_heap \<times> live \<Rightarrow> bool" where
  malloc: "unat n + 7 < 4294967296 \<Longrightarrow> xy_mem_malloc n s = Some (p, s') \<Longrightarrow>
    heap_step (s, live) (s', if p = 0 then live else (p, n) # live)"
| free: "(p, n) \<in> set live \<Longrightarrow> xy_mem_free p s = Some s' \<Longrightarrow> heap_step (s, live) (s', remove1 (p, n) live)"
| user: "live_word live x \<Longrightarrow> mem_put (of_nat x) v s = Some s' \<Longrightarrow> heap_step (s, live) (s', live)"

inductive_cases heap_stepE: "heap_step c c'"

lemma heap_init_inv:
  assumes "xy_mem_init (of_nat b) (of_nat sz) s0 = Some s" "pool s0 b (b + sz)"
    and "4 dvd b" "0 < b" "8 \<le> sz" "b + sz + 8 < 4294967296"
  shows "heap_inv b sz (s, [])"
proof -
  have c: "cell s0 b \<noteq> None" "cell s0 (b + 4) \<noteq> None" using pool_cells [OF assms(2,3)] assms(5) by simp_all
  let ?s = "heap_put (b + 4) 0 (heap_put b (of_nat sz) s0)"
  have "s = ?s\<lparr>mh_head := of_nat b\<rparr>"
    using assms(1,4-6) c mem_put_at(1) [OF c(1), of "of_nat sz"] mem_put_at(2) [of "heap_put b (of_nat sz) s0" b 0]
    by (auto simp: xy_mem_init_def)
  then have "heap_ok b [(False, sz)] s"
    using assms(2-6) by (auto simp: heap_ok_def pool_def)
  then show ?thesis by (auto simp: heap_inv_def live_ok_def live_blocks_def intro!: exI [of _ "[(False, sz)]"])
qed

text \<open>What a program holds in terms of the layout.\<close>

lemma live_blocks_in:
  assumes "live_blocks U live" "(p, n) \<in> set live"
  shows "\<exists>a k. (a, k) \<in> U \<and> unat p = a + 4"
proof -
  have "(unat \<circ> fst) (p, n) \<in> (unat \<circ> fst) ` set live" using assms(2) by (rule imageI)
  then have "unat p \<in> (\<lambda>(a, k). a + 4) ` U" using assms(1) unfolding live_blocks_def by simp
  then show ?thesis by auto
qed

lemma live_okD:
  assumes "live_ok b ly live" "(p, n) \<in> set live"
  obtains a k where "unat p = a + 4" "(a, k) \<in> set (ly_used b ly)" "unat n + 4 \<le> k"
proof -
  obtain a k where "(a, k) \<in> set (ly_used b ly)" "unat p = a + 4"
    using live_blocks_in [OF _ assms(2)] assms(1) unfolding live_ok_def by blast
  then show ?thesis using assms that by (fastforce simp: live_ok_def live_blocks_def)
qed

lemma live_owned: "live_ok b ly live \<Longrightarrow> live_word live x \<Longrightarrow> x \<in> owned b ly"
proof -
  assume l: "live_ok b ly live" and "live_word live x"
  then obtain p n where p: "(p, n) \<in> set live" "unat p \<le> x" "x < unat p + unat n" by (auto simp: live_word_def)
  obtain a k where "unat p = a + 4" "(a, k) \<in> set (ly_used b ly)" "unat n + 4 \<le> k" using live_okD [OF l p(1)] by blast
  then show ?thesis using p(2,3) unfolding owned_def by (intro UN_I [of "(a, k)"]) auto
qed

lemma owned_put:
  assumes "heap_ok b ly s" "x \<in> owned b ly" "cell s x \<noteq> None"
  shows "heap_ok b ly (heap_put x v s)"
proof -
  have x: "x < addr_max" using owned_bounds [OF assms(2)] assms(1) by (simp add: heap_ok_def)
  have hd: "tiled (heap_put x v s) c l" if "tiled s c l" "x \<in> owned c l \<or> x < c \<or> c + ly_size l \<le> x" "c + ly_size l < addr_max" for c l
    using that x
  proof (induction s c l rule: tiled.induct)
    case (2 s c u n l)
    have "x \<in> owned (c + n) l \<or> x < c + n \<or> c + n + ly_size l \<le> x" "c \<noteq> x"
      using 2(2,3) owned_bounds [of x "c + n" l] by (cases u; auto)+
    then show ?case using 2 by simp
  qed simp
  have nl: "a + 4 \<noteq> x" if "tiled s c l" "x \<in> owned c l" "a \<in> set (ly_free c l)" for c l a
    using that
  proof (induction s c l rule: tiled.induct)
    case (2 s c u n l)
    have t: "tiled s (c + n) l" "8 \<le> n" using 2(2) by auto
    note o = owned_bounds [of x "c + n" l] and f = ly_free_tile [of a "c + n" l, OF _ t(1)]
    show ?case
    proof (cases "x \<in> owned (c + n) l \<and> a \<in> set (ly_free (c + n) l)")
      case True
      then show ?thesis using 2(1) t(1) by blast
    next
      case False
      then show ?thesis using 2(3,4) t(2) o f by (cases u) auto
    qed
  qed simp
  have "tiled (heap_put x v s) b ly" using hd [of b ly] assms(1,2) by (simp add: heap_ok_def)
  moreover have "\<forall>a \<in> set (ly_free b ly). cell (heap_put x v s) (a + 4) = cell s (a + 4)"
    using nl [of b ly] assms(1,2) x ly_free_tile [of _ b ly s] by (fastforce simp: heap_ok_def)
  then have "linked (heap_put x v s) (mh_head s) (ly_free b ly) 0"
    using linked_cong [of "ly_free b ly" "heap_put x v s" s] assms(1) by (simp add: heap_ok_def)
  moreover have "same_dom s (heap_put x v s)" using assms(3) x by (auto simp: same_dom_def)
  ultimately show ?thesis using heap_okI [OF assms(1), of ly "heap_put x v s"] assms(1) by (simp add: heap_ok_def)
qed


lemma live_blocks_add:
  assumes "live_blocks U live" "a \<notin> fst ` U" "unat p = a + 4" "unat n + 4 \<le> k"
  shows "live_blocks (insert (a, k) U) ((p, n) # live)"
proof -
  have im: "(unat \<circ> fst) ` set live = (\<lambda>(a, k). a + 4) ` U" using assms(1) by (simp add: live_blocks_def)
  have new: "unat q \<noteq> a + 4" if "(q, m) \<in> set live" for q m
    using live_blocks_in [OF assms(1) that] assms(2) by force
  have "p \<notin> fst ` set live" using new assms(3) by force
  moreover have "(unat \<circ> fst) ` set ((p, n) # live) = (\<lambda>(a, k). a + 4) ` insert (a, k) U" using im assms(3) by simp
  moreover have "unat m + 4 \<le> k'" if "(q, m) \<in> set ((p, n) # live)" "(unat q - 4, k') \<in> insert (a, k) U" for q m k'
  proof (cases "(q, m) \<in> set live")
    case True
    have "unat q - 4 \<noteq> a" using new [OF True] live_blocks_in [OF assms(1) True] by auto
    then show ?thesis using that(2) True assms(1) by (auto simp: live_blocks_def)
  next
    case False
    then show ?thesis using that assms(2,3,4) by force
  qed
  moreover have "distinct (map fst live)" using assms(1) by (simp add: live_blocks_def)
  ultimately show ?thesis unfolding live_blocks_def list.map distinct.simps list.set_map fst_conv by blast
qed

lemma image_minus_one: "\<forall>x \<in> S. f x = c \<longleftrightarrow> x = y \<Longrightarrow> f ` (S - {y}) = f ` S - {c}"
  by auto

lemma live_blocks_remove:
  assumes "live_blocks U live" "(p, n) \<in> set live" "unat p = a + 4"
  shows "live_blocks {u \<in> U. fst u \<noteq> a} (remove1 (p, n) live)"
proof -
  have d: "distinct (map fst live)" and im: "(unat \<circ> fst) ` set live = (\<lambda>(a, k). a + 4) ` U"
    using assms(1) by (simp_all add: live_blocks_def)
  have st: "set (remove1 (p, n) live) = set live - {(p, n)}" using d by (simp add: distinct_map)
  have uq: "(q, m) = (p, n)" if "(q, m) \<in> set live" "unat q = a + 4" for q m
  proof -
    have "q = p" using that(2) assms(3) by (simp add: word_unat_eq_iff)
    then show ?thesis using eq_key_imp_eq_value [OF d] that(1) assms(2) by blast
  qed
  have "(unat \<circ> fst) ` (set live - {(p, n)}) = (\<lambda>(a, k). a + 4) ` {u \<in> U. fst u \<noteq> a}"
  proof -
    have "\<forall>x \<in> set live. (unat \<circ> fst) x = a + 4 \<longleftrightarrow> x = (p, n)"
    proof
      fix x assume x: "x \<in> set live"
      obtain q m where qm: "x = (q, m)" by (rule prod.exhaust)
      show "(unat \<circ> fst) x = a + 4 \<longleftrightarrow> x = (p, n)"
        using uq [of q m] assms(3) x unfolding qm comp_apply fst_conv by (metis Pair_inject)
    qed
    then have "(unat \<circ> fst) ` (set live - {(p, n)}) = (unat \<circ> fst) ` set live - {a + 4}" by (rule image_minus_one)
    also have "\<dots> = (\<lambda>(a, k). a + 4) ` {u \<in> U. fst u \<noteq> a}" unfolding im by auto
    finally show ?thesis .
  qed
  moreover have "distinct (map fst (remove1 (p, n) live))"
    using d unfolding distinct_map st by (auto intro: inj_on_subset)
  moreover have "unat m + 4 \<le> k" if "(q, m) \<in> set live - {(p, n)}" "(unat q - 4, k) \<in> {u \<in> U. fst u \<noteq> a}" for q m k
    using that assms(1) unfolding live_blocks_def by blast
  ultimately show ?thesis unfolding live_blocks_def st by blast
qed


subsection \<open>Every step keeps the invariant\<close>

lemma heap_step_malloc:
  assumes ok: "heap_ok b ly s" and live: "live_ok b ly live" and n: "unat n + 7 < addr_max"
  shows "\<exists>p s' ly'. xy_mem_malloc n s = Some (p, s') \<and> heap_ok b ly' s' \<and> ly_size ly' = ly_size ly
    \<and> live_ok b ly' (if p = 0 then live else (p, n) # live) \<and> (\<forall>x \<in> owned b ly. cell s' x = cell s x)"
proof (cases "ly_alloc (request_size (unat n)) b ly")
  case None
  then have "xy_mem_malloc n s = Some (0, s)" using heap_alloc_spec [OF ok n] by simp
  then show ?thesis using ok live by auto
next
  case (Some r)
  obtain a ly' where r: "r = (a, ly')" by fastforce
  obtain s' where s': "xy_mem_malloc n s = Some (of_nat (a + 4), s')" "heap_ok b ly' s'" "\<forall>x \<in> owned b ly. cell s' x = cell s x"
    using heap_alloc_spec [OF ok n] Some r by auto
  obtain pre k post where sp: "ly = pre @ (False, k) # post" "request_size (unat n) \<le> k" "a = b + ly_size pre"
    "ly' = pre @ (if request_size (unat n) + 8 \<le> k then [(True, request_size (unat n)), (False, k - request_size (unat n))]
      else [(True, k)]) @ post"
    using ly_alloc_split [of "request_size (unat n)" b ly a ly'] Some r by blast
  let ?U = "set (ly_used b ly)"
  have t: "tiled s b pre" "8 \<le> k" "tiled s (a + k) post" "a + k + ly_size post < addr_max"
    using ok sp(1,3) by (auto simp: heap_ok_def tiled_append)
  have "a \<notin> fst ` ?U"
    using ly_used_tile [OF _ t(1)] ly_used_tile [OF _ t(3)] sp(1,3) t(2) by fastforce
  moreover obtain j where "set (ly_used b ly') = insert (a, j) ?U" "request_size (unat n) \<le> j"
    using sp by (cases "request_size (unat n) + 8 \<le> k") (auto simp: add.assoc)
  moreover have "unat (of_nat (a + 4) :: u32) = a + 4" using t by (intro unat_of_nat_u32) simp
  moreover have "(of_nat (a + 4) :: u32) \<noteq> 0" using of_nat_u32_eq [of "a + 4" 0] t by simp
  ultimately have "live_ok b ly' (if (of_nat (a + 4) :: u32) = 0 then live else (of_nat (a + 4), n) # live)"
    using live_blocks_add [of ?U live a "of_nat (a + 4)" n j] live request_size_props(3) [of "unat n"]
    by (simp add: live_ok_def del: of_nat_add)
  moreover have "ly_size ly' = ly_size ly" using ly_alloc_props [of _ b ly a ly'] Some r by auto
  ultimately show ?thesis using s' by blast
qed

lemma heap_step_free:
  assumes ok: "heap_ok b ly s" and live: "live_ok b ly live" "(p, n) \<in> set live"
  shows "\<exists>s' ly'. xy_mem_free p s = Some s' \<and> heap_ok b ly' s' \<and> ly_size ly' = ly_size ly \<and> live_ok b ly' (remove1 (p, n) live)
    \<and> owned b ly' \<subseteq> owned b ly \<and> (\<forall>x \<in> owned b ly'. cell s' x = cell s x)"
proof -
  obtain a k where a: "unat p = a + 4" "(a, k) \<in> set (ly_used b ly)" using live_okD [OF live] by blast
  obtain pre post where sp: "ly = pre @ (True, k) # post" "a = b + ly_size pre" using ly_used_split [OF a(2)] by blast
  have p: "p = of_nat (a + 4)" by (simp only: a(1) [symmetric] of_nat_unat ucast_id)
  let ?ly = "ly_release pre k post"
  obtain s' where s': "xy_mem_free p s = Some s'" "heap_ok b ?ly s'" "\<forall>x \<in> owned b pre \<union> owned (a + k) post. cell s' x = cell s x"
    using heap_free_spec [OF ok [unfolded sp(1)] sp(2)] p by blast
  have t: "tiled s b pre" "8 \<le> k" "tiled s (a + k) post" using ok sp by (auto simp: heap_ok_def tiled_append)
  have "{u \<in> set (ly_used b ly). fst u \<noteq> a} = set (ly_used b ?ly)"
    using ly_used_tile [OF _ t(1)] ly_used_tile [OF _ t(3)] sp t(2) by (fastforce simp: ly_release_used)
  then have "live_ok b ?ly (remove1 (p, n) live)"
    using live_blocks_remove [of "set (ly_used b ly)" live p n a] live a(1) by (simp add: live_ok_def)
  moreover have "owned b ?ly = owned b pre \<union> owned (a + k) post" using sp by (simp add: owned_def ly_release_used)
  moreover have "owned b pre \<union> owned (a + k) post \<subseteq> owned b ly" using sp by (auto simp: owned_append)
  moreover have "ly_size ?ly = ly_size ly" using sp(1) by (simp add: ly_release_size)
  ultimately show ?thesis using s' by (intro exI [of _ s'] exI [of _ ?ly]) simp
qed

lemma heap_step_inv: "heap_step c c' \<Longrightarrow> heap_inv b sz c \<Longrightarrow> heap_inv b sz c'"
proof (induction rule: heap_step.induct)
  case (malloc n s p s' live)
  then obtain ly where ly: "heap_ok b ly s" "ly_size ly = sz" "live_ok b ly live" by (auto simp: heap_inv_def)
  then show ?case using heap_step_malloc [OF ly(1,3) malloc(1)] malloc(2) by (auto simp: heap_inv_def)
next
  case (free p n live s s')
  then obtain ly where ly: "heap_ok b ly s" "ly_size ly = sz" "live_ok b ly live" by (auto simp: heap_inv_def)
  then show ?case using heap_step_free [OF ly(1,3) free(1)] free(2) by (auto simp: heap_inv_def)
next
  case (user live x v s s')
  then obtain ly where ly: "heap_ok b ly s" "ly_size ly = sz" "live_ok b ly live" by (auto simp: heap_inv_def)
  have "cell s x \<noteq> None" "s' = heap_put x v s" using user(2) by (auto simp: mem_put_def cell_def heap_put_def split: if_splits)
  then have "heap_ok b ly s'" using owned_put [OF ly(1) live_owned [OF ly(3) user(1)]] by blast
  then show ?case using ly by (auto simp: heap_inv_def)
qed

lemma heap_reachable_inv: "heap_step\<^sup>*\<^sup>* c c' \<Longrightarrow> heap_inv b sz c \<Longrightarrow> heap_inv b sz c'"
  by (induction rule: rtranclp_induct) (auto intro: heap_step_inv)


subsection \<open>Properties\<close>

lemma ly_used_disjoint:
  "tiled s b ly \<Longrightarrow> (a, k) \<in> set (ly_used b ly) \<Longrightarrow> (a', k') \<in> set (ly_used b ly) \<Longrightarrow> a \<noteq> a' \<Longrightarrow> a + k \<le> a' \<or> a' + k' \<le> a"
proof (induction s b ly rule: tiled.induct)
  case (2 s b u n ly)
  then show ?case
    using ly_used_bounds [of a k "b + n" ly] ly_used_bounds [of a' k' "b + n" ly] by (auto split: if_splits)
qed simp

lemma live_bounds:
  assumes "heap_ok b ly s" "live_ok b ly live" "(p, n) \<in> set live"
  shows "b + 4 \<le> unat p \<and> unat p + unat n \<le> b + ly_size ly"
proof -
  obtain a k where "unat p = a + 4" "(a, k) \<in> set (ly_used b ly)" "unat n + 4 \<le> k" using live_okD [OF assms(2,3)] by blast
  then show ?thesis using ly_used_bounds by fastforce
qed

lemma live_disjoint:
  assumes "heap_ok b ly s" "live_ok b ly live" "(p, n) \<in> set live" "(q, m) \<in> set live" "p \<noteq> q"
  shows "unat p + unat n + 4 \<le> unat q \<or> unat q + unat m + 4 \<le> unat p"
proof -
  obtain a k where a: "unat p = a + 4" "(a, k) \<in> set (ly_used b ly)" "unat n + 4 \<le> k" using live_okD [OF assms(2,3)] by blast
  obtain c j where c: "unat q = c + 4" "(c, j) \<in> set (ly_used b ly)" "unat m + 4 \<le> j" using live_okD [OF assms(2,4)] by blast
  have "a \<noteq> c" using assms(5) a(1) c(1) by (auto simp: word_unat_eq_iff)
  then show ?thesis using ly_used_disjoint [of s b ly a k c j] a c assms(1) by (auto simp: heap_ok_def)
qed

text \<open>
  C25. A program that allocates, writes inside its blocks and releases them once holds, at every moment,
  blocks of at least the requested sizes inside the pool that do not overlap each other or each other's
  headers. Allocating any size up to $2^{32} - 8$ and releasing a held block never reach undefined
  behaviour and change no byte of the blocks held.
\<close>

theorem heap_blocks_safe:
  assumes "xy_mem_init (of_nat b) (of_nat sz) s0 = Some s1" "pool s0 b (b + sz)"
    and "4 dvd b" "0 < b" "8 \<le> sz" "b + sz + 8 < 4294967296" "heap_step\<^sup>*\<^sup>* (s1, []) (s, live)"
  shows "(\<forall>(p, n) \<in> set live. b + 4 \<le> unat p \<and> unat p + unat n \<le> b + sz)
    \<and> (\<forall>(p, n) \<in> set live. \<forall>(q, m) \<in> set live. p \<noteq> q \<longrightarrow> unat p + unat n + 4 \<le> unat q \<or> unat q + unat m + 4 \<le> unat p)
    \<and> (\<forall>n. unat n + 7 < 4294967296 \<longrightarrow> (\<exists>p s'. xy_mem_malloc n s = Some (p, s') \<and> (\<forall>x. live_word live x \<longrightarrow> cell s' x = cell s x)))
    \<and> (\<forall>(p, n) \<in> set live. \<exists>s'. xy_mem_free p s = Some s' \<and> (\<forall>x. live_word (remove1 (p, n) live) x \<longrightarrow> cell s' x = cell s x))"
proof -
  have "heap_inv b sz (s, live)" using heap_reachable_inv [OF assms(7) heap_init_inv [OF assms(1-6)]] .
  then obtain ly where ly: "heap_ok b ly s" "ly_size ly = sz" "live_ok b ly live" by (auto simp: heap_inv_def)
  have "\<exists>p s'. xy_mem_malloc n s = Some (p, s') \<and> (\<forall>x. live_word live x \<longrightarrow> cell s' x = cell s x)"
    if "unat n + 7 < 4294967296" for n
    using heap_step_malloc [OF ly(1,3) that] live_owned [OF ly(3)] by blast
  moreover have "\<exists>s'. xy_mem_free p s = Some s' \<and> (\<forall>x. live_word (remove1 (p, n) live) x \<longrightarrow> cell s' x = cell s x)"
    if pn: "(p, n) \<in> set live" for p n
    using heap_step_free [OF ly(1,3) pn] live_owned by blast
  moreover have "b + 4 \<le> unat p \<and> unat p + unat n \<le> b + sz" if "(p, n) \<in> set live" for p n
    using live_bounds [OF ly(1,3) that] ly(2) by simp
  ultimately show ?thesis using live_disjoint [OF ly(1,3)] by blast
qed

text \<open>A pool of 64 bytes at 4096, from which ten bytes are allocated and released.\<close>

definition heap_demo :: mem_heap where
  "heap_demo = \<lparr>mh_cells = (\<lambda>a. Some 0), mh_head = 0\<rparr>"

definition heap_demo1 :: mem_heap where
  "heap_demo1 = \<lparr>mh_cells = (\<lambda>a. Some 0)(4096 \<mapsto> 64, 4100 \<mapsto> 0), mh_head = 4096\<rparr>"

definition heap_demo2 :: mem_heap where
  "heap_demo2 = \<lparr>mh_cells = (\<lambda>a. Some 0)(4096 \<mapsto> 64, 4100 \<mapsto> 0, 4112 \<mapsto> 48, 4116 \<mapsto> 0, 4096 \<mapsto> 16), mh_head = 4112\<rparr>"

lemma heap_demo_pool: "pool heap_demo lo hi"
  by (simp add: pool_def heap_demo_def cell_def)

lemma heap_demo_init: "xy_mem_init (of_nat 4096) (of_nat 64) heap_demo = Some heap_demo1"
  by (simp add: xy_mem_init_def mem_put_def heap_demo_def heap_demo1_def mem_size_at_def mem_next_at_def)

lemma heap_demo_malloc: "xy_mem_malloc 10 heap_demo1 = Some (4100, heap_demo2)"
  by (simp add: heap_demo1_def heap_demo2_def xy_mem_malloc_def xy_mem_malloc_from_irq_def mem_request_def
      mem_header_size_def mem_malloc_loop.simps mem_deref_def mem_get_def mem_size_at_def mem_break_def Let_def
      mem_next_at_def mem_put_def mem_assign_def)

lemma heap_demo_reached: "heap_step\<^sup>*\<^sup>* (heap_demo1, []) (heap_demo2, [(4100, 10)])"
  using heap_step.malloc [OF _ heap_demo_malloc, of "[]"] by simp

theorem heap_blocks_safe_witness:
  "(\<exists>s'. xy_mem_free 4100 heap_demo2 = Some s')
   \<and> (\<exists>p s'. xy_mem_malloc 20 heap_demo2 = Some (p, s') \<and> cell s' 4104 = cell heap_demo2 4104)"
proof -
  have w: "live_word [(4100, 10)] 4104" by (simp add: live_word_def)
  have "4 dvd (4096 :: nat)" "0 < (4096 :: nat)" "8 \<le> (64 :: nat)" "4096 + 64 + 8 < (4294967296 :: nat)" by simp_all
  note safe = heap_blocks_safe [OF heap_demo_init heap_demo_pool this heap_demo_reached]
  have "\<exists>s'. xy_mem_free 4100 heap_demo2 = Some s'" using safe by auto
  moreover have "unat (20 :: u32) + 7 < 4294967296" by simp
  then have "\<exists>p s'. xy_mem_malloc 20 heap_demo2 = Some (p, s') \<and> cell s' 4104 = cell heap_demo2 4104"
    using safe w by blast
  ultimately show ?thesis by blast
qed

lemma heap_demo_freed: "\<exists>s'. heap_step\<^sup>*\<^sup>* (heap_demo1, []) (s', []) \<and> xy_mem_free 4100 heap_demo2 = Some s'"
proof -
  have h: "xy_mem_free 4100 heap_demo2 = Some (heap_demo2\<lparr>mh_cells := (mh_cells heap_demo2)(4096 \<mapsto> 64, 4100 \<mapsto> 0), mh_head := 4096\<rparr>)"
    by (simp add: xy_mem_free_def xy_mem_free_from_irq_def heap_demo2_def mem_merge_def mem_get_def mem_put_def
        mem_size_at_def mem_next_at_def)
  then show ?thesis using rtranclp.rtrancl_into_rtrancl [OF heap_demo_reached heap_step.free [OF _ h, of 10]] by fastforce
qed

text \<open>
  C26. Nothing is lost: when every block has been released, in whatever order, the heap is one free block
  of the size of the pool again, \<open>xy_mem_info\<close> reports just that (in 16 bits), and every request that fits
  the pool with its header succeeds.
\<close>

theorem heap_recovers:
  assumes "xy_mem_init (of_nat b) (of_nat sz) s0 = Some s1" "pool s0 b (b + sz)"
    and "4 dvd b" "0 < b" "8 \<le> sz" "b + sz + 8 < 4294967296" "heap_step\<^sup>*\<^sup>* (s1, []) (s, [])"
    and "unat n + 7 < 4294967296" "request_size (unat n) \<le> sz"
  shows "mh_head s = of_nat b \<and> cell s b = Some (of_nat sz) \<and> cell s (b + 4) = Some 0
    \<and> xy_mem_info s = Some (of_nat sz, 1, of_nat sz) \<and> (\<exists>s'. xy_mem_malloc n s = Some (of_nat (b + 4), s'))"
proof -
  have "heap_inv b sz (s, [])" using heap_reachable_inv [OF assms(7) heap_init_inv [OF assms(1-6)]] .
  then obtain ly where ly: "heap_ok b ly s" "ly_size ly = sz" "live_ok b ly []" by (auto simp: heap_inv_def)
  have all: "\<forall>t \<in> set l. \<not> fst t" if "ly_used c l = []" for c l
    using that by (induction c l rule: ly_used.induct) (auto split: if_splits)
  have "ly_used b ly = []" using ly(3) by (auto simp: live_ok_def live_blocks_def)
  then have free: "\<forall>t \<in> set ly. \<not> fst t" by (rule all)
  have "ly = [(False, sz)]"
  proof (cases ly)
    case (Cons t l)
    have "l = []" using ly(1) free Cons by (cases l) (auto simp: heap_ok_def ly_joined_Cons)
    then show ?thesis using Cons ly(2) free by (cases t) auto
  qed (use ly(2) assms(5) in simp)
  then have h: "mh_head s = of_nat b" "cell s b = Some (of_nat sz)" "cell s (b + 4) = Some 0"
    using ly(1) by (auto simp: heap_ok_def)
  have bn: "(of_nat b :: u32) \<noteq> 0" using of_nat_u32_eq [of b 0] assms(4,6) by simp
  have "ucast (of_nat sz :: u32) = (of_nat sz :: u16)"
    by (simp add: word_unat_eq_iff unsigned_ucast_eq unsigned_of_nat take_bit_take_bit)
  moreover have "(0 :: u32) < of_nat sz" using of_nat_u32_less [of 0 sz] assms(5,6) by simp
  ultimately have "xy_mem_info s = Some (of_nat sz, 1, of_nat sz)"
    using h bn by (simp add: xy_mem_info_def mem_info_loop.simps Let_def)
  moreover have "\<exists>s'. xy_mem_malloc n s = Some (of_nat (b + 4), s')"
    using heap_alloc_spec [OF ly(1) assms(8)] \<open>ly = _\<close> assms(9) by (auto simp del: of_nat_add)
  ultimately show ?thesis using h by blast
qed


theorem heap_recovers_witness:
  "\<exists>s. xy_mem_free 4100 heap_demo2 = Some s \<and> xy_mem_info s = Some (64, 1, 64) \<and> (\<exists>s'. xy_mem_malloc 60 s = Some (4100, s'))"
proof -
  obtain s where s: "heap_step\<^sup>*\<^sup>* (heap_demo1, []) (s, [])" "xy_mem_free 4100 heap_demo2 = Some s" using heap_demo_freed by blast
  show ?thesis
    using heap_recovers [OF heap_demo_init heap_demo_pool _ _ _ _ s(1), of 60] s(2) by (simp add: request_size_def)
qed

text \<open>A request within seven bytes of $2^{32}$ wraps: the caller gets a block of eight bytes.\<close>

lemma mem_request_wraps:
  assumes "4294967296 \<le> unat n + 7"
  shows "mem_request n = 8"
proof -
  have "unat (n + 7) = unat n + 7 - 4294967296"
    using assms unat_u32_less [of n] by (simp add: unat_plus_if_size word_size)
  then have "unat (n + 7) < 7" using assms unat_u32_less [of n] by linarith
  then have "unat ((n + 7) AND NOT 3) < 8" unfolding unat_and_not_3 by linarith
  then have "(n + 7) AND NOT 3 < 8" by (simp add: word_less_nat_alt)
  then show ?thesis by (simp add: mem_request_def mem_header_size_def Let_def add.commute [of 7 n])
qed

end
