(* ===== verification/Xy_Timer.thy ===== *)
theory Xy_Timer
  imports Xy_Prelude
begin

text \<open>
  The software timers of \<open>components/time_tick/xy_timer/xy_timer.c\<close>. Timers are nodes in a store,
  linked in both directions; the globals of the file are the other fields of the state. A pointer is
  the address of a node, \<open>None\<close> where it is \<open>NULL\<close>. The allocator is a parameter that returns an
  address and what it happens to hold; callbacks are a parameter that may change the whole state, and
  their calls are recorded in the ghost field \<open>tm_calls\<close>. The result \<open>None\<close> is an access through a
  pointer to no node, or a loop that does not end.
\<close>

record timer_node =
  tn_cnt :: u32
  tn_reload :: u32
  tn_pre :: "nat option"
  tn_next :: "nat option"
  tn_func :: "nat option"
  tn_parameter :: nat
  tn_flag :: u8

record timer_state =
  tm_nodes :: "nat \<rightharpoonup> timer_node"
  tm_head :: "nat option"
  tm_tick :: u32
  tm_tick_pre :: u32
  tm_calls :: "(nat \<times> nat) list"

type_synonym timer_alloc = "(nat \<rightharpoonup> timer_node) \<Rightarrow> (nat \<times> timer_node) option"
type_synonym timer_call = "nat \<Rightarrow> nat \<Rightarrow> nat \<Rightarrow> timer_state \<Rightarrow> timer_state option"

definition timer_put :: "nat \<Rightarrow> (timer_node \<Rightarrow> timer_node) \<Rightarrow> timer_state \<Rightarrow> timer_state option" where
  "timer_put a f s = do { n \<leftarrow> tm_nodes s a; Some (s\<lparr>tm_nodes := (tm_nodes s)(a \<mapsto> f n)\<rparr>) }"

definition xy_timer_init :: "timer_state \<Rightarrow> timer_state" where
  "xy_timer_init s = s\<lparr>tm_head := None\<rparr>"

definition xy_timer_get_tick :: "timer_state \<Rightarrow> u32" where
  "xy_timer_get_tick s = tm_tick s"

definition xy_timer_get_tick_from_isr :: "timer_state \<Rightarrow> u32" where
  "xy_timer_get_tick_from_isr s = tm_tick s"

definition xy_timer_set_tick :: "u16 \<Rightarrow> timer_state \<Rightarrow> timer_state" where
  "xy_timer_set_tick tick s = s\<lparr>tm_tick := ucast tick, tm_tick_pre := ucast tick\<rparr>"

definition xy_timer_get_nexttick :: "timer_state \<Rightarrow> u16 option" where
  "xy_timer_get_nexttick s =
     (case tm_head s of None \<Rightarrow> Some 0 | Some a \<Rightarrow> do { n \<leftarrow> tm_nodes s a; Some (ucast (tn_cnt n)) })"

subsection \<open>The list\<close>

text \<open>The loop of \<open>xy_timer_insert\<close>: from the cursor on, to the node the new one goes in front of.\<close>

partial_function (option) timer_insert_loop ::
  "nat \<Rightarrow> nat option \<Rightarrow> timer_state \<Rightarrow> (nat option \<times> timer_state) option" where
  "timer_insert_loop timer p s =
     (case p of
        None \<Rightarrow> Some (None, s)
      | Some q \<Rightarrow> do {
          t \<leftarrow> tm_nodes s timer;
          n \<leftarrow> tm_nodes s q;
          if tn_cnt t < tn_cnt n then do {
            s1 \<leftarrow> timer_put q (\<lambda>n. n\<lparr>tn_cnt := tn_cnt n - tn_cnt t\<rparr>) s;
            Some (Some q, s1) }
          else do {
            s1 \<leftarrow> timer_put timer (\<lambda>t. t\<lparr>tn_cnt := tn_cnt t - tn_cnt n, tn_pre := Some q\<rparr>) s;
            n1 \<leftarrow> tm_nodes s1 q;
            timer_insert_loop timer (tn_next n1) s1 } })"

definition timer_link_pre :: "nat option \<Rightarrow> nat option \<Rightarrow> timer_state \<Rightarrow> timer_state option" where
  "timer_link_pre node v s = (case node of None \<Rightarrow> Some s | Some a \<Rightarrow> timer_put a (\<lambda>n. n\<lparr>tn_pre := v\<rparr>) s)"

definition timer_link_next :: "nat option \<Rightarrow> nat option \<Rightarrow> timer_state \<Rightarrow> timer_state option" where
  "timer_link_next node v s =
     (case node of None \<Rightarrow> Some (s\<lparr>tm_head := v\<rparr>) | Some a \<Rightarrow> timer_put a (\<lambda>n. n\<lparr>tn_next := v\<rparr>) s)"

definition xy_timer_insert :: "nat \<Rightarrow> timer_state \<Rightarrow> timer_state option" where
  "xy_timer_insert timer s = do {
     s0 \<leftarrow> timer_put timer (\<lambda>n. n\<lparr>tn_pre := None\<rparr>) s;
     (p, s1) \<leftarrow> timer_insert_loop timer (tm_head s0) s0;
     s2 \<leftarrow> timer_put timer (\<lambda>n. n\<lparr>tn_next := p\<rparr>) s1;
     s3 \<leftarrow> timer_link_pre p (Some timer) s2;
     t \<leftarrow> tm_nodes s3 timer;
     timer_link_next (tn_pre t) (Some timer) s3 }"

definition xy_timer_remove :: "nat \<Rightarrow> timer_state \<Rightarrow> timer_state option" where
  "xy_timer_remove timer s = do {
     t \<leftarrow> tm_nodes s timer;
     s1 \<leftarrow> timer_link_next (tn_pre t) (tn_next t) s;
     t1 \<leftarrow> tm_nodes s1 timer;
     (case tn_next t1 of
        None \<Rightarrow> Some s1
      | Some nx \<Rightarrow> do {
          s2 \<leftarrow> timer_put nx (\<lambda>n. n\<lparr>tn_pre := tn_pre t1\<rparr>) s1;
          t2 \<leftarrow> tm_nodes s2 timer;
          nx2 \<leftarrow> tn_next t2;
          timer_put nx2 (\<lambda>n. n\<lparr>tn_cnt := tn_cnt n + tn_cnt t2\<rparr>) s2 }) }"

subsection \<open>Operations\<close>

definition xy_timer_create ::
  "timer_alloc \<Rightarrow> u32 \<Rightarrow> u32 \<Rightarrow> nat option \<Rightarrow> nat \<Rightarrow> timer_state \<Rightarrow> (nat option \<times> timer_state) option" where
  "xy_timer_create alloc cnt reload pfunc params s =
     (case alloc (tm_nodes s) of
        None \<Rightarrow> Some (None, s)
      | Some (p, junk) \<Rightarrow> do {
          let n = junk\<lparr>tn_cnt := cnt + xy_timer_get_tick s - tm_tick_pre s, tn_reload := reload,
            tn_func := pfunc, tn_parameter := params, tn_flag := 0\<rparr>;
          s1 \<leftarrow> xy_timer_insert p (s\<lparr>tm_nodes := (tm_nodes s)(p \<mapsto> n)\<rparr>);
          Some (Some p, s1) })"

definition xy_timer_kill :: "nat option \<Rightarrow> timer_state \<Rightarrow> timer_state option" where
  "xy_timer_kill timer_handler s = do {
     p \<leftarrow> timer_handler;
     n \<leftarrow> tm_nodes s p;
     if tn_flag n \<noteq> 0 then timer_put p (\<lambda>n. n\<lparr>tn_reload := 0\<rparr>) s
     else do {
       s1 \<leftarrow> xy_timer_remove p s;
       s2 \<leftarrow> timer_put p (\<lambda>n. n\<lparr>tn_reload := 0\<rparr>) s1;
       Some (s2\<lparr>tm_nodes := (tm_nodes s2)(p := None)\<rparr>) } }"

definition xy_timer_change_cnt :: "nat option \<Rightarrow> u32 \<Rightarrow> timer_state \<Rightarrow> timer_state option" where
  "xy_timer_change_cnt timer_handler cnt s = do {
     p \<leftarrow> timer_handler;
     s1 \<leftarrow> xy_timer_remove p s;
     s2 \<leftarrow> timer_put p (\<lambda>n. n\<lparr>tn_cnt := cnt + xy_timer_get_tick s1 - tm_tick_pre s1\<rparr>) s1;
     xy_timer_insert p s2 }"

definition xy_timer_change_reload :: "nat option \<Rightarrow> u32 \<Rightarrow> timer_state \<Rightarrow> timer_state option" where
  "xy_timer_change_reload timer_handler reload s = do {
     p \<leftarrow> timer_handler;
     timer_put p (\<lambda>n. n\<lparr>tn_reload := reload\<rparr>) s }"

definition xy_timer_change_func :: "nat option \<Rightarrow> nat option \<Rightarrow> timer_state \<Rightarrow> timer_state option" where
  "xy_timer_change_func timer_handler pfunc s = do {
     p \<leftarrow> timer_handler;
     timer_put p (\<lambda>n. n\<lparr>tn_func := pfunc\<rparr>) s }"

definition xy_timer_get_func :: "nat option \<Rightarrow> timer_state \<Rightarrow> nat option option" where
  "xy_timer_get_func timer_handler s =
     (case timer_handler of None \<Rightarrow> Some None | Some p \<Rightarrow> do { n \<leftarrow> tm_nodes s p; Some (tn_func n) })"

subsection \<open>Ticks\<close>

text \<open>The call of the function of a timer that has expired, between the two writes of the flag.\<close>

definition timer_fire :: "timer_call \<Rightarrow> nat \<Rightarrow> timer_state \<Rightarrow> timer_state option" where
  "timer_fire call p s = do {
     n \<leftarrow> tm_nodes s p;
     (case tn_func n of
        None \<Rightarrow> Some s
      | Some f \<Rightarrow> do {
          s1 \<leftarrow> timer_put p (\<lambda>n. n\<lparr>tn_flag := 1\<rparr>) s;
          s2 \<leftarrow> call f p (tn_parameter n) (s1\<lparr>tm_calls := tm_calls s1 @ [(p, tn_parameter n)]\<rparr>);
          timer_put p (\<lambda>n. n\<lparr>tn_flag := 0\<rparr>) s2 }) }"

text \<open>What follows the call: the timer is killed, or taken from the head and inserted again.\<close>

definition timer_reload :: "nat \<Rightarrow> timer_state \<Rightarrow> timer_state option" where
  "timer_reload p s = do {
     s1 \<leftarrow> timer_put p (\<lambda>n. n\<lparr>tn_cnt := tn_reload n\<rparr>) s;
     n \<leftarrow> tm_nodes s1 p;
     if tn_cnt n = 0 then xy_timer_kill (Some p) s1
     else do {
       h \<leftarrow> tm_head s1;
       hn \<leftarrow> tm_nodes s1 h;
       let s2 = s1\<lparr>tm_head := tn_next hn\<rparr>;
       s3 \<leftarrow> timer_link_pre (tm_head s2) None s2;
       xy_timer_insert p s3 } }"

partial_function (option) timer_ticks_loop :: "timer_call \<Rightarrow> u16 \<Rightarrow> timer_state \<Rightarrow> timer_state option" where
  "timer_ticks_loop call i s =
     (case tm_head s of
        None \<Rightarrow> Some s
      | Some p \<Rightarrow>
          if i = 0 then Some s
          else do {
            n \<leftarrow> tm_nodes s p;
            if ucast i < tn_cnt n then do {
              s1 \<leftarrow> timer_put p (\<lambda>n. n\<lparr>tn_cnt := tn_cnt n - ucast i\<rparr>) s;
              timer_ticks_loop call 0 s1 }
            else do {
              s1 \<leftarrow> timer_put p (\<lambda>n. n\<lparr>tn_cnt := 0\<rparr>) s;
              s2 \<leftarrow> timer_fire call p s1;
              s3 \<leftarrow> timer_reload p s2;
              timer_ticks_loop call (i - ucast (tn_cnt n)) s3 } })"

definition xy_timer_ticks :: "timer_call \<Rightarrow> timer_state \<Rightarrow> timer_state option" where
  "xy_timer_ticks call s =
     (let ticks = xy_timer_get_tick s;
          i = ucast (ticks - tm_tick_pre s)
      in timer_ticks_loop call i (s\<lparr>tm_tick_pre := ticks\<rparr>))"

end
