(* ===== verification/Xy_Timer_Correct.thy ===== *)
theory Xy_Timer_Correct
  imports Xy_Timer
begin

text \<open>
  The linked list of timers as a list of addresses with the timer_times that are left, and what the
  operations do to it.
\<close>

subsection \<open>Segments of the list\<close>

text \<open>
  From \<open>p\<close> on, with \<open>pr\<close> in front, the nodes \<open>xs\<close> are linked in both directions; behind the last one,
  \<open>pr'\<close>, comes \<open>q\<close>.
\<close>

fun dseg :: "(nat \<rightharpoonup> timer_node) \<Rightarrow> nat option \<Rightarrow> nat option \<Rightarrow> nat list \<Rightarrow> nat option \<Rightarrow> nat option \<Rightarrow> bool" where
  "dseg h pr p [] pr' q \<longleftrightarrow> pr' = pr \<and> q = p"
| "dseg h pr p (x # xs) pr' q \<longleftrightarrow> p = Some x \<and> (\<exists>n. h x = Some n \<and> tn_pre n = pr \<and> dseg h (Some x) (tn_next n) xs pr' q)"

fun last_or :: "'a option \<Rightarrow> 'a list \<Rightarrow> 'a option" where
  "last_or d [] = d"
| "last_or d (x # xs) = last_or (Some x) xs"

lemma last_or_append [simp]: "last_or d (xs @ [x]) = Some x"
  by (induction xs arbitrary: d) auto

lemma dseg_last: "dseg h pr p xs pr' q \<Longrightarrow> pr' = last_or pr xs"
  by (induction xs arbitrary: pr p) auto

lemma dseg_append: "dseg h pr p (xs @ ys) pr'' q'' \<longleftrightarrow> (\<exists>pr' q'. dseg h pr p xs pr' q' \<and> dseg h pr' q' ys pr'' q'')"
  by (induction xs arbitrary: pr p) auto

text \<open>A segment depends on the links of its own nodes only.\<close>

lemma dseg_cong:
  assumes "\<And>x n. x \<in> set xs \<Longrightarrow> h x = Some n \<Longrightarrow> \<exists>n'. h' x = Some n' \<and> tn_pre n' = tn_pre n \<and> tn_next n' = tn_next n"
  shows "dseg h pr p xs pr' q \<Longrightarrow> dseg h' pr p xs pr' q"
  using assms by (induction xs arbitrary: pr p) (auto, metis)

lemma dseg_upd_other [simp]: "x \<notin> set xs \<Longrightarrow> dseg (h(x := v)) pr p xs pr' q \<longleftrightarrow> dseg h pr p xs pr' q"
  by (induction xs arbitrary: pr p) auto

lemma dseg_in: "dseg h pr p xs pr' q \<Longrightarrow> x \<in> set xs \<Longrightarrow> \<exists>n. h x = Some n"
  by (induction xs arbitrary: pr p) auto

lemma dseg_relink_last:
  assumes "dseg h pr p (xs @ [x]) pr' q" "x \<notin> set xs" "h x = Some n"
  shows "dseg (h(x \<mapsto> n\<lparr>tn_next := q2\<rparr>)) pr p (xs @ [x]) pr' q2"
  using assms by (auto simp: dseg_append)

lemma dseg_relink_first:
  assumes "dseg h pr p (z # zs) pr' q" "z \<notin> set zs" "h z = Some n"
  shows "dseg (h(z \<mapsto> n\<lparr>tn_pre := pr2\<rparr>)) pr2 p (z # zs) pr' q"
  using assms by auto

subsection \<open>Times\<close>

text \<open>The sums of the counts: the time each timer still has.\<close>

fun timer_times :: "(nat \<rightharpoonup> timer_node) \<Rightarrow> nat \<Rightarrow> nat list \<Rightarrow> (nat \<times> nat) list" where
  "timer_times h t [] = []"
| "timer_times h t (x # xs) = (let t' = t + unat (tn_cnt (the (h x))) in (x, t') # timer_times h t' xs)"

definition timer_total :: "(nat \<rightharpoonup> timer_node) \<Rightarrow> nat list \<Rightarrow> nat" where
  "timer_total h xs = sum_list (map (\<lambda>x. unat (tn_cnt (the (h x)))) xs)"

lemma timer_total_simps [simp]: "timer_total h [] = 0" "timer_total h (x # xs) = unat (tn_cnt (the (h x))) + timer_total h xs"
  "timer_total h (xs @ ys) = timer_total h xs + timer_total h ys"
  by (simp_all add: timer_total_def)

lemma timer_times_append: "timer_times h t (xs @ ys) = timer_times h t xs @ timer_times h (t + timer_total h xs) ys"
  by (induction xs arbitrary: t) (auto simp: Let_def add.assoc)

lemma fst_timer_times [simp]: "map fst (timer_times h t xs) = xs"
  by (induction xs arbitrary: t) (auto simp: Let_def)

lemma timer_times_cong: "(\<And>x. x \<in> set xs \<Longrightarrow> tn_cnt (the (h' x)) = tn_cnt (the (h x))) \<Longrightarrow> timer_times h' t xs = timer_times h t xs"
  by (induction xs arbitrary: t) (auto simp: Let_def)

lemma timer_total_cong: "(\<And>x. x \<in> set xs \<Longrightarrow> tn_cnt (the (h' x)) = tn_cnt (the (h x))) \<Longrightarrow> timer_total h' xs = timer_total h xs"
  by (induction xs) auto

lemma timer_times_ge: "(x, t') \<in> set (timer_times h t xs) \<Longrightarrow> t \<le> t' \<and> t' \<le> t + timer_total h xs"
  by (induction xs arbitrary: t) (fastforce simp: Let_def)+

lemma timer_times_shift: "timer_times h (t + d) xs = map (\<lambda>(x, t). (x, t + d)) (timer_times h t xs)"
proof (induction xs arbitrary: t)
  case (Cons x xs)
  then show ?case using Cons.IH [of "t + unat (tn_cnt (the (h x)))"] by (simp add: Let_def ac_simps)
qed simp

text \<open>What the code's list means: linked from the head, without repetition, times within 32 bits.\<close>

definition timer_list :: "timer_state \<Rightarrow> nat list \<Rightarrow> bool" where
  "timer_list s xs \<longleftrightarrow> dseg (tm_nodes s) None (tm_head s) xs (last_or None xs) None \<and> distinct xs \<and> timer_total (tm_nodes s) xs < 2 ^ 32"

text \<open>A new time goes behind the equal ones.\<close>

fun insert_time :: "nat \<times> nat \<Rightarrow> (nat \<times> nat) list \<Rightarrow> (nat \<times> nat) list" where
  "insert_time (a, t) [] = [(a, t)]"
| "insert_time (a, t) ((b, u) # rest) = (if t < u then (a, t) # (b, u) # rest else (b, u) # insert_time (a, t) rest)"

lemma set_insert_time: "set (insert_time (a, t) ts) = insert (a, t) (set ts)"
  by (induction "(a, t)" ts rule: insert_time.induct) auto

lemma insert_time_split:
  "\<lbrakk>\<forall>(b, u) \<in> set us. u \<le> t; ws = [] \<or> t < snd (hd ws)\<rbrakk> \<Longrightarrow> insert_time (a, t) (us @ ws) = us @ (a, t) # ws"
  by (induction us) (cases ws, auto)

subsection \<open>Insertion\<close>

text \<open>
  What the loop leaves in the store: the new node behind \<open>us\<close> with what is left of its count, and the
  first of \<open>ws\<close> reduced by that.
\<close>

definition insert_heap ::
  "(nat \<rightharpoonup> timer_node) \<Rightarrow> nat \<Rightarrow> timer_node \<Rightarrow> nat option \<Rightarrow> nat list \<Rightarrow> nat list \<Rightarrow> (nat \<rightharpoonup> timer_node)" where
  "insert_heap h timer t pr us ws =
     (let c = tn_cnt t - of_nat (timer_total h us);
          h1 = h(timer \<mapsto> t\<lparr>tn_cnt := c, tn_pre := last_or pr us\<rparr>)
      in if ws = [] then h1 else h1(hd ws \<mapsto> (the (h (hd ws)))\<lparr>tn_cnt := tn_cnt (the (h (hd ws))) - c\<rparr>))"

lemma insert_heap_step:
  assumes "h y = Some n" "y \<noteq> timer" "timer \<notin> set us" "timer \<notin> set ws"
  shows "insert_heap (h(timer \<mapsto> t\<lparr>tn_cnt := tn_cnt t - tn_cnt n, tn_pre := Some y\<rparr>)) timer
      (t\<lparr>tn_cnt := tn_cnt t - tn_cnt n, tn_pre := Some y\<rparr>) (Some y) us ws = insert_heap h timer t pr (y # us) ws"
proof -
  have "timer_total (h(timer \<mapsto> t\<lparr>tn_cnt := tn_cnt t - tn_cnt n, tn_pre := Some y\<rparr>)) us = timer_total h us"
    using assms(3) by (intro timer_total_cong) auto
  moreover have "ws \<noteq> [] \<Longrightarrow> hd ws \<noteq> timer" using assms(4) by (cases ws) auto
  ultimately show ?thesis using assms(1,2) by (simp add: insert_heap_def Let_def algebra_simps)
qed

text \<open>What the loop does from a cursor: it passes the timers that are not later.\<close>

definition insert_split :: "(nat \<rightharpoonup> timer_node) \<Rightarrow> nat \<Rightarrow> nat list \<Rightarrow> nat list \<Rightarrow> bool" where
  "insert_split h c us ws \<longleftrightarrow> timer_total h us \<le> c \<and> (ws = [] \<or> c < timer_total h us + unat (tn_cnt (the (h (hd ws)))))"

lemma timer_insert_loop_spec:
  assumes "dseg (tm_nodes s) pr p ys pr' None" "timer \<notin> set ys" "distinct ys"
    and "tm_nodes s timer = Some t" "tn_pre t = pr"
  shows "\<exists>us ws. ys = us @ ws \<and> insert_split (tm_nodes s) (unat (tn_cnt t)) us ws
    \<and> timer_insert_loop timer p s = Some (if ws = [] then None else Some (hd ws),
        s\<lparr>tm_nodes := insert_heap (tm_nodes s) timer t pr us ws\<rparr>)"
  using assms
proof (induction ys arbitrary: s pr p t)
  case Nil
  have "t\<lparr>tn_cnt := tn_cnt t - of_nat 0, tn_pre := pr\<rparr> = t" using Nil(5) by (cases t) simp
  then have "insert_heap (tm_nodes s) timer t pr [] [] = tm_nodes s" using Nil(4) by (simp add: insert_heap_def fun_upd_idem)
  then show ?case using Nil(1) by (simp add: timer_insert_loop.simps insert_split_def)
next
  case (Cons y ys)
  obtain n where n: "p = Some y" "tm_nodes s y = Some n" "tn_pre n = pr" "dseg (tm_nodes s) (Some y) (tn_next n) ys pr' None"
    using Cons.prems(1) by auto
  have y: "y \<noteq> timer" "y \<notin> set ys" "timer \<notin> set ys" "distinct ys" using Cons.prems by auto
  show ?case
  proof (cases "tn_cnt t < tn_cnt n")
    case True
    have "t\<lparr>tn_cnt := tn_cnt t - of_nat 0, tn_pre := pr\<rparr> = t" using Cons.prems(5) by (cases t) simp
    then have "insert_heap (tm_nodes s) timer t pr [] (y # ys) = (tm_nodes s)(y \<mapsto> n\<lparr>tn_cnt := tn_cnt n - tn_cnt t\<rparr>)"
      using Cons.prems(4) n(2) by (simp add: insert_heap_def fun_upd_idem)
    moreover have "timer_insert_loop timer p s = Some (Some y, s\<lparr>tm_nodes := (tm_nodes s)(y \<mapsto> n\<lparr>tn_cnt := tn_cnt n - tn_cnt t\<rparr>)\<rparr>)"
      using True n Cons.prems(4) by (subst timer_insert_loop.simps) (simp add: timer_put_def)
    moreover have "insert_split (tm_nodes s) (unat (tn_cnt t)) [] (y # ys)" using True n(2) by (simp add: insert_split_def word_less_nat_alt)
    ultimately have "y # ys = [] @ (y # ys) \<and> insert_split (tm_nodes s) (unat (tn_cnt t)) [] (y # ys)
      \<and> timer_insert_loop timer p s = Some (if y # ys = [] then None else Some (hd (y # ys)),
        s\<lparr>tm_nodes := insert_heap (tm_nodes s) timer t pr [] (y # ys)\<rparr>)" by simp
    then show ?thesis by blast
  next
    case False
    let ?t = "t\<lparr>tn_cnt := tn_cnt t - tn_cnt n, tn_pre := Some y\<rparr>"
    let ?s = "s\<lparr>tm_nodes := (tm_nodes s)(timer \<mapsto> ?t)\<rparr>"
    have le: "unat (tn_cnt n) \<le> unat (tn_cnt t)" using False by (simp add: word_less_nat_alt)
    then have sub: "unat (tn_cnt t - tn_cnt n) = unat (tn_cnt t) - unat (tn_cnt n)" by (simp add: unat_sub word_le_nat_alt)
    have step: "timer_insert_loop timer p s = timer_insert_loop timer (tn_next n) ?s"
      using False n Cons.prems(4) y(1) by (subst timer_insert_loop.simps) (simp add: timer_put_def)
    have "dseg (tm_nodes ?s) (Some y) (tn_next n) ys pr' None" using n(4) y(3) by simp
    moreover have "tm_nodes ?s timer = Some ?t" "tn_pre ?t = Some y" by simp_all
    ultimately obtain us ws where IH: "ys = us @ ws" "insert_split (tm_nodes ?s) (unat (tn_cnt ?t)) us ws"
      "timer_insert_loop timer (tn_next n) ?s = Some (if ws = [] then None else Some (hd ws),
        ?s\<lparr>tm_nodes := insert_heap (tm_nodes ?s) timer ?t (Some y) us ws\<rparr>)"
      using Cons.IH [OF _ y(3,4)] by blast
    have tn: "timer \<notin> set us" "timer \<notin> set ws" using IH(1) y(3) by auto
    have "timer_total (tm_nodes ?s) us = timer_total (tm_nodes s) us" using tn by (intro timer_total_cong) auto
    moreover have "ws \<noteq> [] \<Longrightarrow> hd ws \<noteq> timer" using tn by (cases ws) auto
    ultimately have "insert_split (tm_nodes s) (unat (tn_cnt t)) (y # us) ws"
      using IH(2) sub le n(2) by (cases "ws = []") (auto simp: insert_split_def)
    moreover have "insert_heap (tm_nodes ?s) timer ?t (Some y) us ws = insert_heap (tm_nodes s) timer t pr (y # us) ws"
      using insert_heap_step [where h = "tm_nodes s", OF n(2) y(1) tn] by simp
    ultimately have "y # ys = (y # us) @ ws \<and> insert_split (tm_nodes s) (unat (tn_cnt t)) (y # us) ws
      \<and> timer_insert_loop timer p s = Some (if ws = [] then None else Some (hd ws),
        s\<lparr>tm_nodes := insert_heap (tm_nodes s) timer t pr (y # us) ws\<rparr>)"
      using IH(1,3) step by simp
    then show ?thesis by blast
  qed
qed

lemma timer_total_times: "xs \<noteq> [] \<Longrightarrow> snd (hd (timer_times h t xs)) = t + unat (tn_cnt (the (h (hd xs))))"
  by (cases xs) (auto simp: Let_def)

lemma insert_time_times:
  assumes "insert_split h c us ws"
  shows "insert_time (a, c) (timer_times h 0 (us @ ws)) = timer_times h 0 us @ (a, c) # timer_times h (timer_total h us) ws"
proof -
  have "\<forall>(b, u) \<in> set (timer_times h 0 us). u \<le> c" using assms timer_times_ge [of _ _ h 0 us] by (fastforce simp: insert_split_def)
  moreover have "timer_times h (timer_total h us) ws = [] \<or> c < snd (hd (timer_times h (timer_total h us) ws))"
    using assms by (cases "ws = []") (simp_all add: timer_total_times insert_split_def)
  ultimately show ?thesis by (simp add: timer_times_append insert_time_split)
qed

text \<open>Linking a node in between two parts of the list.\<close>

lemma dseg_link:
  assumes "dseg h None hp us (last_or None us) q" "dseg h (last_or None us) q ws pr' None"
    and "a \<notin> set (us @ ws)" "distinct (us @ ws)"
    and a: "\<exists>na. h' a = Some na \<and> tn_pre na = last_or None us \<and> tn_next na = (if ws = [] then None else Some (hd ws))"
    and us: "\<And>x n. x \<in> set us \<Longrightarrow> h x = Some n \<Longrightarrow> \<exists>n'. h' x = Some n' \<and> tn_pre n' = tn_pre n
      \<and> tn_next n' = (if Some x = last_or None us then Some a else tn_next n)"
    and ws: "\<And>x n. x \<in> set ws \<Longrightarrow> h x = Some n \<Longrightarrow> \<exists>n'. h' x = Some n' \<and> tn_next n' = tn_next n
      \<and> tn_pre n' = (if x = hd ws then Some a else tn_pre n)"
  shows "dseg h' None (if us = [] then Some a else hp) (us @ a # ws) (last_or None (us @ a # ws)) None"
proof -
  obtain na where na: "h' a = Some na" "tn_pre na = last_or None us" "tn_next na = (if ws = [] then None else Some (hd ws))"
    using a by blast
  have left: "dseg h' None (if us = [] then Some a else hp) us (last_or None us) (Some a)"
  proof (cases us rule: rev_cases)
    case (snoc vs u)
    obtain n where n: "dseg h None hp vs (tn_pre n) (Some u)" "h u = Some n"
      using assms(1) unfolding snoc dseg_append by auto
    have "\<exists>n'. h' x = Some n' \<and> tn_pre n' = tn_pre m \<and> tn_next n' = tn_next m" if "x \<in> set vs" "h x = Some m" for x m
      using us [of x m] that assms(4) snoc by auto
    then have "dseg h' None hp vs (tn_pre n) (Some u)" using n(1) by (rule dseg_cong)
    moreover obtain n' where "h' u = Some n'" "tn_pre n' = tn_pre n" "tn_next n' = Some a"
      using us [of u n] n(2) snoc by auto
    ultimately show ?thesis unfolding snoc dseg_append by auto
  qed simp
  have right: "dseg h' (Some a) (tn_next na) ws (last_or (Some a) ws) None"
  proof (cases ws)
    case (Cons w vs)
    obtain n where n: "h w = Some n" "dseg h (Some w) (tn_next n) vs pr' None" using assms(2) Cons by auto
    have "\<exists>n'. h' x = Some n' \<and> tn_pre n' = tn_pre m \<and> tn_next n' = tn_next m" if "x \<in> set vs" "h x = Some m" for x m
      using ws [of x m] that assms(4) Cons by auto
    then have "dseg h' (Some w) (tn_next n) vs pr' None" using n(2) by (rule dseg_cong)
    moreover obtain n' where "h' w = Some n'" "tn_pre n' = Some a" "tn_next n' = tn_next n"
      using ws [of w n] n(1) Cons by auto
    moreover have "pr' = last_or (Some w) vs" using dseg_last [OF n(2)] .
    ultimately show ?thesis using na(3) Cons by auto
  qed (simp add: na(3))
  have "last_or None (us @ a # ws) = last_or (Some a) ws" for us :: "nat list"
  proof -
    have "last_or d (us @ a # ws) = last_or (Some a) ws" for d by (induction us arbitrary: d) auto
    then show ?thesis .
  qed
  then show ?thesis unfolding dseg_append using left right na(1,2) by auto
qed

text \<open>
  \<open>xy_timer_insert\<close> on a node outside the list: the node gets its place, no other time changes, and of
  the other nodes only links and counts in the list do.
\<close>

definition same_payload :: "timer_node \<Rightarrow> timer_node \<Rightarrow> bool" where
  "same_payload n m \<longleftrightarrow> tn_reload n = tn_reload m \<and> tn_func n = tn_func m \<and> tn_parameter n = tn_parameter m \<and> tn_flag n = tn_flag m"

definition timer_frame :: "nat set \<Rightarrow> timer_state \<Rightarrow> timer_state \<Rightarrow> bool" where
  "timer_frame A s s' \<longleftrightarrow> (\<forall>x. x \<notin> A \<longrightarrow> tm_nodes s' x = tm_nodes s x)
     \<and> (\<forall>x \<in> A. rel_option same_payload (tm_nodes s' x) (tm_nodes s x))
     \<and> tm_tick s' = tm_tick s \<and> tm_tick_pre s' = tm_tick_pre s \<and> tm_calls s' = tm_calls s"

lemma same_payload_simps [simp]:
  "same_payload n n" "same_payload (n\<lparr>tn_cnt := c\<rparr>) m = same_payload n m" "same_payload (n\<lparr>tn_pre := p\<rparr>) m = same_payload n m"
  "same_payload (n\<lparr>tn_next := p\<rparr>) m = same_payload n m"
  by (auto simp: same_payload_def)

text \<open>The store after an insertion, node by node.\<close>

lemma xy_timer_insert_run:
  assumes seg: "dseg (tm_nodes s) None (tm_head s) xs (last_or None xs) None" and dist: "distinct xs"
    and a: "a \<notin> set xs" "tm_nodes s a = Some n"
  shows "\<exists>us ws s'. xs = us @ ws \<and> insert_split (tm_nodes s) (unat (tn_cnt n)) us ws
    \<and> xy_timer_insert a s = Some s' \<and> tm_head s' = (if us = [] then Some a else tm_head s)
    \<and> tm_tick s' = tm_tick s \<and> tm_tick_pre s' = tm_tick_pre s \<and> tm_calls s' = tm_calls s
    \<and> (\<forall>x. x \<notin> insert a (set xs) \<longrightarrow> tm_nodes s' x = tm_nodes s x)
    \<and> tm_nodes s' a = Some (n\<lparr>tn_cnt := tn_cnt n - of_nat (timer_total (tm_nodes s) us), tn_pre := last_or None us,
        tn_next := (if ws = [] then None else Some (hd ws))\<rparr>)
    \<and> (\<forall>x \<in> set us. \<forall>m. tm_nodes s x = Some m \<longrightarrow>
        tm_nodes s' x = Some (if Some x = last_or None us then m\<lparr>tn_next := Some a\<rparr> else m))
    \<and> (\<forall>x \<in> set ws. \<forall>m. tm_nodes s x = Some m \<longrightarrow> tm_nodes s' x = Some (if x = hd ws
        then m\<lparr>tn_cnt := tn_cnt m - (tn_cnt n - of_nat (timer_total (tm_nodes s) us)), tn_pre := Some a\<rparr> else m))"
proof -
  let ?n0 = "n\<lparr>tn_pre := None\<rparr>"
  let ?s0 = "s\<lparr>tm_nodes := (tm_nodes s)(a \<mapsto> ?n0)\<rparr>"
  have "dseg (tm_nodes ?s0) None (tm_head ?s0) xs (last_or None xs) None" using seg a(1) by simp
  moreover have "tm_nodes ?s0 a = Some ?n0" "tn_pre ?n0 = None" by simp_all
  ultimately obtain us ws where sp: "xs = us @ ws" "insert_split (tm_nodes ?s0) (unat (tn_cnt ?n0)) us ws"
    "timer_insert_loop a (tm_head ?s0) ?s0 = Some (if ws = [] then None else Some (hd ws),
      ?s0\<lparr>tm_nodes := insert_heap (tm_nodes ?s0) a ?n0 None us ws\<rparr>)"
    using timer_insert_loop_spec [OF _ a(1) dist] by blast
  have nin: "a \<notin> set us" "a \<notin> set ws" "set us \<inter> set ws = {}" using sp(1) a(1) dist by auto
  have tot: "timer_total (tm_nodes ?s0) us = timer_total (tm_nodes s) us" using nin by (intro timer_total_cong) auto
  have hdw: "ws \<noteq> [] \<Longrightarrow> hd ws \<noteq> a" using nin by (cases ws) auto
  have split: "insert_split (tm_nodes s) (unat (tn_cnt n)) us ws"
    using sp(2) tot hdw by (cases "ws = []") (auto simp: insert_split_def)
  define c where "c = tn_cnt n - of_nat (timer_total (tm_nodes s) us)"
  define H where "H = insert_heap (tm_nodes ?s0) a ?n0 None us ws"
  have Ha: "H a = Some (n\<lparr>tn_cnt := c, tn_pre := last_or None us\<rparr>)"
    using hdw tot by (cases "ws = []") (simp_all add: H_def insert_heap_def Let_def c_def)
  have Hw: "H (hd ws) = Some (m\<lparr>tn_cnt := tn_cnt m - c\<rparr>)" if "ws \<noteq> []" "tm_nodes s (hd ws) = Some m" for m
    using hdw that tot by (simp add: H_def insert_heap_def Let_def c_def)
  have Hx: "H x = tm_nodes s x" if "x \<noteq> a" "ws = [] \<or> x \<noteq> hd ws" for x
    using that by (auto simp: H_def insert_heap_def Let_def)
  define H2 where "H2 = H(a \<mapsto> n\<lparr>tn_cnt := c, tn_pre := last_or None us, tn_next := (if ws = [] then None else Some (hd ws))\<rparr>)"
  define H3 where "H3 = (if ws = [] then H2 else H2(hd ws \<mapsto> (the (H (hd ws)))\<lparr>tn_pre := Some a\<rparr>))"
  define H4 where "H4 = (case last_or None us of None \<Rightarrow> H3 | Some u \<Rightarrow> H3(u \<mapsto> (the (H3 u))\<lparr>tn_next := Some a\<rparr>))"
  have inw: "ws \<noteq> [] \<Longrightarrow> \<exists>m. tm_nodes s (hd ws) = Some m" using dseg_in [OF seg, of "hd ws"] sp(1) by (cases ws) auto
  have lastu: "u \<in> set us" if "last_or None us = Some u" for u using that by (cases us rule: rev_cases) auto
  have s1: "timer_put a (\<lambda>n. n\<lparr>tn_pre := None\<rparr>) s = Some ?s0" using a(2) by (simp add: timer_put_def)
  have s2: "timer_put a (\<lambda>n. n\<lparr>tn_next := (if ws = [] then None else Some (hd ws))\<rparr>) (?s0\<lparr>tm_nodes := H\<rparr>) = Some (s\<lparr>tm_nodes := H2\<rparr>)"
    using Ha by (simp add: timer_put_def H2_def)
  have s3: "timer_link_pre (if ws = [] then None else Some (hd ws)) (Some a) (s\<lparr>tm_nodes := H2\<rparr>) = Some (s\<lparr>tm_nodes := H3\<rparr>)"
    using inw Hw hdw by (auto simp: timer_link_pre_def timer_put_def H3_def H2_def)
  have H3a: "H3 a = Some (n\<lparr>tn_cnt := c, tn_pre := last_or None us, tn_next := (if ws = [] then None else Some (hd ws))\<rparr>)"
    using hdw by (auto simp: H3_def H2_def)
  have H3u: "H3 x = tm_nodes s x" if "x \<in> set us" for x
  proof -
    have "x \<noteq> a" using that nin by auto
    moreover have "ws = [] \<or> x \<noteq> hd ws" using that nin by (cases ws) auto
    ultimately have "x \<noteq> a" "ws = [] \<or> x \<noteq> hd ws" by blast+
    then show ?thesis using Hx by (auto simp: H3_def H2_def)
  qed
  have s4: "timer_link_next (last_or None us) (Some a) (s\<lparr>tm_nodes := H3\<rparr>) =
      Some (s\<lparr>tm_head := (if us = [] then Some a else tm_head s), tm_nodes := H4\<rparr>)"
  proof (cases us rule: rev_cases)
    case Nil
    then show ?thesis by (simp add: timer_link_next_def H4_def)
  next
    case (snoc vs u)
    obtain m where "tm_nodes s u = Some m" using dseg_in [OF seg, of u] sp(1) snoc by auto
    then show ?thesis using snoc H3u [of u] by (simp add: timer_link_next_def timer_put_def H4_def)
  qed
  have run: "xy_timer_insert a s = Some (s\<lparr>tm_head := (if us = [] then Some a else tm_head s), tm_nodes := H4\<rparr>)"
    unfolding xy_timer_insert_def using s1 sp(3) [folded H_def] s2 s3 H3a s4 by simp
  have H4x: "H4 x = H3 x" if "x \<notin> set us" for x using that lastu by (auto simp: H4_def split: option.splits)
  have outside: "H4 x = tm_nodes s x" if "x \<notin> insert a (set xs)" for x
  proof -
    have "ws = [] \<or> x \<noteq> hd ws" using that sp(1) by (cases ws) auto
    moreover have "x \<noteq> a" "x \<notin> set us" using that sp(1) by auto
    ultimately have "x \<noteq> a" "ws = [] \<or> x \<noteq> hd ws" "x \<notin> set us" by blast+
    then show ?thesis using H4x [of x] Hx [of x] by (auto simp: H3_def H2_def)
  qed
  have left: "H4 x = Some (if Some x = last_or None us then m\<lparr>tn_next := Some a\<rparr> else m)"
    if "x \<in> set us" "tm_nodes s x = Some m" for x m
    using H3u that by (auto simp: H4_def split: option.splits)
  have right: "H4 x = Some (if x = hd ws then m\<lparr>tn_cnt := tn_cnt m - c, tn_pre := Some a\<rparr> else m)"
    if "x \<in> set ws" "tm_nodes s x = Some m" for x m
  proof -
    have x: "x \<notin> set us" "x \<noteq> a" "ws \<noteq> []" using that nin by auto
    show ?thesis using H4x [OF x(1)] x Hw Hx [of x] that(2) by (auto simp: H3_def H2_def)
  qed
  show ?thesis
    by (rule exI [of _ us], rule exI [of _ ws], rule exI [of _ "s\<lparr>tm_head := (if us = [] then Some a else tm_head s), tm_nodes := H4\<rparr>"])
      (use sp(1) split run outside left right H4x [OF nin(1)] H3a in \<open>simp add: c_def\<close>)
qed


lemma timer_list_dseg:
  "timer_list s xs \<Longrightarrow> dseg (tm_nodes s) None (tm_head s) xs (last_or None xs) None"
  "timer_list s xs \<Longrightarrow> distinct xs" "timer_list s xs \<Longrightarrow> timer_total (tm_nodes s) xs < 2 ^ 32"
  by (auto simp: timer_list_def)

lemma timer_list_nodes: "timer_list s xs \<Longrightarrow> x \<in> set xs \<Longrightarrow> \<exists>n. tm_nodes s x = Some n"
  using timer_list_dseg(1) dseg_in by blast

lemma last_or_in: "last_or None us = Some x \<Longrightarrow> x \<in> set us"
  by (cases us rule: rev_cases) auto

theorem xy_timer_insert_spec:
  assumes "timer_list s xs" "a \<notin> set xs" "tm_nodes s a = Some n"
  shows "\<exists>s' xs'. xy_timer_insert a s = Some s' \<and> timer_list s' xs' \<and> set xs' = insert a (set xs)
    \<and> timer_times (tm_nodes s') 0 xs' = insert_time (a, unat (tn_cnt n)) (timer_times (tm_nodes s) 0 xs)
    \<and> timer_frame (insert a (set xs)) s s'"
proof -
  note l = timer_list_dseg [OF assms(1)]
  obtain us ws s' where r: "xs = us @ ws" "insert_split (tm_nodes s) (unat (tn_cnt n)) us ws"
    "xy_timer_insert a s = Some s'" "tm_head s' = (if us = [] then Some a else tm_head s)"
    "tm_tick s' = tm_tick s" "tm_tick_pre s' = tm_tick_pre s" "tm_calls s' = tm_calls s"
    "\<forall>x. x \<notin> insert a (set xs) \<longrightarrow> tm_nodes s' x = tm_nodes s x"
    "tm_nodes s' a = Some (n\<lparr>tn_cnt := tn_cnt n - of_nat (timer_total (tm_nodes s) us), tn_pre := last_or None us,
        tn_next := (if ws = [] then None else Some (hd ws))\<rparr>)"
    "\<forall>x \<in> set us. \<forall>m. tm_nodes s x = Some m \<longrightarrow>
        tm_nodes s' x = Some (if Some x = last_or None us then m\<lparr>tn_next := Some a\<rparr> else m)"
    "\<forall>x \<in> set ws. \<forall>m. tm_nodes s x = Some m \<longrightarrow> tm_nodes s' x = Some (if x = hd ws
        then m\<lparr>tn_cnt := tn_cnt m - (tn_cnt n - of_nat (timer_total (tm_nodes s) us)), tn_pre := Some a\<rparr> else m)"
    using xy_timer_insert_run [OF l(1,2) assms(2,3)] by blast
  define d where "d = tn_cnt n - of_nat (timer_total (tm_nodes s) us)"
  have tle: "timer_total (tm_nodes s) us \<le> unat (tn_cnt n)" using r(2) by (simp add: insert_split_def)
  have lt: "unat (tn_cnt n) < 2 ^ 32" using unsigned_less [of "tn_cnt n"] by simp
  have tu: "unat (of_nat (timer_total (tm_nodes s) us) :: u32) = timer_total (tm_nodes s) us"
    using order_le_less_trans [OF tle lt] by (simp add: unat_of_nat)
  then have ud: "unat d = unat (tn_cnt n) - timer_total (tm_nodes s) us"
    using tle by (simp add: d_def unat_sub word_le_nat_alt)
  obtain pr' q' where seg: "dseg (tm_nodes s) None (tm_head s) us pr' q'" "dseg (tm_nodes s) pr' q' ws (last_or None xs) None"
    using l(1) unfolding r(1) dseg_append by blast
  have pr': "pr' = last_or None us" using dseg_last [OF seg(1)] .
  have link: "dseg (tm_nodes s') None (tm_head s') (us @ a # ws) (last_or None (us @ a # ws)) None"
    unfolding r(4)
    by (rule dseg_link [OF seg [unfolded pr']]) (use assms(2) l(2) r(1,9-11) in auto)
  have us: "timer_total (tm_nodes s') us = timer_total (tm_nodes s) us" "timer_times (tm_nodes s') 0 us = timer_times (tm_nodes s) 0 us"
    using r(1,10) timer_list_nodes [OF assms(1)] by (intro timer_total_cong timer_times_cong; fastforce)+
  have da: "tn_cnt (the (tm_nodes s' a)) = d" using r(9) by (simp add: d_def)
  have ws: "timer_times (tm_nodes s') (unat (tn_cnt n)) ws = timer_times (tm_nodes s) (timer_total (tm_nodes s) us) ws
     \<and> (ws \<noteq> [] \<longrightarrow> unat d + timer_total (tm_nodes s') ws = timer_total (tm_nodes s) ws)"
  proof (cases ws)
    case (Cons w vs)
    obtain m where m: "tm_nodes s w = Some m" using timer_list_nodes [OF assms(1)] r(1) Cons by auto
    have "d \<le> tn_cnt m" using r(2) m Cons ud by (auto simp: insert_split_def word_le_nat_alt)
    then have w: "unat (tn_cnt (the (tm_nodes s' w))) = unat (tn_cnt m) - unat d" "unat d \<le> unat (tn_cnt m)"
      using r(11) m Cons by (simp_all add: d_def unat_sub word_le_nat_alt)
    have vs: "tn_cnt (the (tm_nodes s' x)) = tn_cnt (the (tm_nodes s x))" if "x \<in> set vs" for x
      using that r(1,11) Cons l(2) timer_list_nodes [OF assms(1), of x] by auto
    then have "timer_total (tm_nodes s') vs = timer_total (tm_nodes s) vs"
      "timer_times (tm_nodes s') k vs = timer_times (tm_nodes s) k vs" for k
      by (intro timer_total_cong timer_times_cong; simp)+
    then show ?thesis using Cons m w ud tle by (simp add: Let_def add.commute)
  qed simp
  have times: "timer_times (tm_nodes s') 0 (us @ a # ws) = insert_time (a, unat (tn_cnt n)) (timer_times (tm_nodes s) 0 xs)"
    unfolding r(1) insert_time_times [OF r(2)] using us ws da ud tle by (simp add: timer_times_append Let_def)
  have "timer_total (tm_nodes s') (us @ a # ws) < 2 ^ 32"
  proof (cases "ws = []")
    case True
    then show ?thesis using us da ud tle lt by simp
  next
    case False
    then show ?thesis using us da ws l(3) r(1) by simp
  qed
  then have "timer_list s' (us @ a # ws)" using link l(2) r(1) assms(2) by (auto simp: timer_list_def)
  moreover have "rel_option same_payload (tm_nodes s' x) (tm_nodes s x)" if "x \<in> insert a (set xs)" for x
    using that r(1,9,10,11) assms(3) timer_list_nodes [OF assms(1), of x] by auto
  then have "timer_frame (insert a (set xs)) s s'" using r(5-8) by (simp add: timer_frame_def)
  ultimately show ?thesis using r(1,3) times by auto
qed

subsection \<open>Removal\<close>

lemma dseg_unlink:
  assumes "dseg h None hp us (last_or None us) q" "dseg h (Some a) q2 ws pr' None"
    and "distinct (us @ ws)"
    and us: "\<And>x n. x \<in> set us \<Longrightarrow> h x = Some n \<Longrightarrow> \<exists>n'. h' x = Some n' \<and> tn_pre n' = tn_pre n
      \<and> tn_next n' = (if Some x = last_or None us then q2 else tn_next n)"
    and ws: "\<And>x n. x \<in> set ws \<Longrightarrow> h x = Some n \<Longrightarrow> \<exists>n'. h' x = Some n' \<and> tn_next n' = tn_next n
      \<and> tn_pre n' = (if x = hd ws then last_or None us else tn_pre n)"
  shows "dseg h' None (if us = [] then q2 else hp) (us @ ws) (last_or None (us @ ws)) None"
proof -
  have left: "dseg h' None (if us = [] then q2 else hp) us (last_or None us) q2"
  proof (cases us rule: rev_cases)
    case (snoc vs u)
    obtain n where n: "dseg h None hp vs (tn_pre n) (Some u)" "h u = Some n"
      using assms(1) unfolding snoc dseg_append by auto
    have "\<exists>n'. h' x = Some n' \<and> tn_pre n' = tn_pre m \<and> tn_next n' = tn_next m" if "x \<in> set vs" "h x = Some m" for x m
      using us [of x m] that assms(3) snoc by auto
    then have "dseg h' None hp vs (tn_pre n) (Some u)" using n(1) by (rule dseg_cong)
    moreover obtain n' where "h' u = Some n'" "tn_pre n' = tn_pre n" "tn_next n' = q2"
      using us [of u n] n(2) snoc by auto
    ultimately show ?thesis unfolding snoc dseg_append by auto
  qed simp
  have right: "dseg h' (last_or None us) q2 ws (last_or (last_or None us) ws) None"
  proof (cases ws)
    case Nil
    then show ?thesis using assms(2) by simp
  next
    case (Cons w vs)
    obtain n where n: "h w = Some n" "q2 = Some w" "dseg h (Some w) (tn_next n) vs pr' None" using assms(2) Cons by auto
    have "\<exists>n'. h' x = Some n' \<and> tn_pre n' = tn_pre m \<and> tn_next n' = tn_next m" if "x \<in> set vs" "h x = Some m" for x m
      using ws [of x m] that assms(3) Cons by auto
    then have "dseg h' (Some w) (tn_next n) vs pr' None" using n(3) by (rule dseg_cong)
    moreover obtain n' where "h' w = Some n'" "tn_pre n' = last_or None us" "tn_next n' = tn_next n"
      using ws [of w n] n(1) Cons by auto
    moreover have "pr' = last_or (Some w) vs" using dseg_last [OF n(3)] .
    ultimately show ?thesis using n(2) Cons by auto
  qed
  have "last_or d (us @ ws) = last_or (last_or d us) ws" for d by (induction us arbitrary: d) auto
  then have eq: "last_or None (us @ ws) = last_or (last_or None us) ws" .
  show ?thesis unfolding dseg_append eq using left right by blast
qed


lemma xy_timer_remove_spec:
  assumes "timer_list s xs" "a \<in> set xs"
  shows "\<exists>s' xs'. xy_timer_remove a s = Some s' \<and> timer_list s' xs' \<and> set xs' = set xs - {a}
    \<and> timer_times (tm_nodes s') 0 xs' = filter (\<lambda>(x, u). x \<noteq> a) (timer_times (tm_nodes s) 0 xs)
    \<and> timer_frame (set xs - {a}) s s'"
proof -
  note l = timer_list_dseg [OF assms(1)]
  obtain us ws where xs: "xs = us @ a # ws" using assms(2) by (meson split_list)
  have nin: "a \<notin> set us" "a \<notin> set ws" "set us \<inter> set ws = {}" "distinct us" "distinct ws" using l(2) xs by auto
  obtain pr q where pq: "dseg (tm_nodes s) None (tm_head s) us pr q" "dseg (tm_nodes s) pr q (a # ws) (last_or None xs) None"
    using l(1) unfolding xs dseg_append by blast
  have "pr = last_or None us" using dseg_last [OF pq(1)] .
  then obtain t where seg: "dseg (tm_nodes s) None (tm_head s) us (last_or None us) (Some a)" "tm_nodes s a = Some t"
    "tn_pre t = last_or None us" "dseg (tm_nodes s) (Some a) (tn_next t) ws (last_or None xs) None"
    using pq by auto
  have nxt: "tn_next t = (if ws = [] then None else Some (hd ws))" using seg(4) by (cases ws) auto
  define h where "h = tm_nodes s"
  define h1 where "h1 = (case last_or None us of None \<Rightarrow> h | Some u \<Rightarrow> h(u \<mapsto> (the (h u))\<lparr>tn_next := tn_next t\<rparr>))"
  define h2 where "h2 = (if ws = [] then h1 else h1(hd ws \<mapsto> (the (h (hd ws)))
      \<lparr>tn_pre := tn_pre t, tn_cnt := tn_cnt (the (h (hd ws))) + tn_cnt t\<rparr>))"
  define s' where "s' = s\<lparr>tm_head := (if us = [] then tn_next t else tm_head s), tm_nodes := h2\<rparr>"
  have node: "\<exists>n. h x = Some n" if "x \<in> set xs" for x using timer_list_nodes [OF assms(1) that] by (simp add: h_def)
  have inu: "u \<in> set us" if "last_or None us = Some u" for u using that by (rule last_or_in)
  have h1x: "h1 x = h x" if "x \<notin> set us" for x using that inu by (auto simp: h1_def split: option.splits)
  have h1u: "h1 x = Some (if Some x = last_or None us then m\<lparr>tn_next := tn_next t\<rparr> else m)" if "x \<in> set us" "h x = Some m" for x m
    using that by (auto simp: h1_def split: option.splits)
  have ha: "h1 a = Some t" "h2 a = Some t" using h1x nin seg(2) by (auto simp: h2_def h_def)
  have s1: "timer_link_next (tn_pre t) (tn_next t) s = Some (s\<lparr>tm_head := (if us = [] then tn_next t else tm_head s), tm_nodes := h1\<rparr>)"
  proof (cases us rule: rev_cases)
    case Nil
    then show ?thesis by (simp add: timer_link_next_def h1_def h_def seg(3))
  next
    case (snoc vs u)
    then show ?thesis using node [of u] xs by (auto simp: timer_link_next_def timer_put_def h1_def h_def seg(3))
  qed
  have run: "xy_timer_remove a s = Some s'"
  proof (cases ws)
    case Nil
    then show ?thesis unfolding xy_timer_remove_def using seg(2) s1 ha nxt by (simp add: s'_def h2_def)
  next
    case (Cons w vs)
    have "w \<notin> set us" "w \<noteq> a" using nin Cons by auto
    moreover obtain m where "h w = Some m" using node [of w] xs Cons by auto
    ultimately show ?thesis unfolding xy_timer_remove_def using seg(2) s1 ha nxt h1x [of w] Cons
      by (simp add: s'_def h2_def timer_put_def)
  qed
  have us: "h2 x = h1 x" if "x \<in> set us" for x using that nin by (cases ws) (auto simp: h2_def)
  have ws: "h2 x = Some (if x = hd ws then m\<lparr>tn_pre := tn_pre t, tn_cnt := tn_cnt m + tn_cnt t\<rparr> else m)"
    if "x \<in> set ws" "h x = Some m" for x m
  proof -
    have "x \<notin> set us" "ws \<noteq> []" using that(1) nin(3) by auto
    then show ?thesis using h1x [of x] that(2) by (cases "x = hd ws") (simp_all add: h2_def)
  qed
  have out: "h2 x = h x" if "x \<notin> set us" "x \<notin> set ws" for x
    using that h1x [of x] by (cases ws) (auto simp: h2_def)
  have link: "dseg (tm_nodes s') None (tm_head s') (us @ ws) (last_or None (us @ ws)) None"
  proof -
    have "\<exists>n'. h2 x = Some n' \<and> tn_pre n' = tn_pre n \<and> tn_next n' = (if Some x = last_or None us then tn_next t else tn_next n)"
      if "x \<in> set us" "h x = Some n" for x n
      using us [OF that(1)] h1u [OF that] by simp
    moreover have "\<exists>n'. h2 x = Some n' \<and> tn_next n' = tn_next n \<and> tn_pre n' = (if x = hd ws then last_or None us else tn_pre n)"
      if "x \<in> set ws" "h x = Some n" for x n
      using ws [OF that] seg(3) by simp
    moreover have "distinct (us @ ws)" using nin by auto
    ultimately have "dseg h2 None (if us = [] then tn_next t else tm_head s) (us @ ws) (last_or None (us @ ws)) None"
      using dseg_unlink [where h = h and h' = h2, OF seg(1,4) [folded h_def]] by blast
    then show ?thesis by (simp add: s'_def)
  qed
  have cus: "tn_cnt (the (h2 x)) = tn_cnt (the (h x))" if "x \<in> set us" for x
    using that us h1u node [of x] xs by auto
  have tus: "timer_total h2 us = timer_total h us" "timer_times h2 0 us = timer_times h 0 us"
    using cus by (intro timer_total_cong timer_times_cong; simp)+
  have tws: "timer_times h2 k ws = timer_times h (k + unat (tn_cnt t)) ws \<and>
      (ws \<noteq> [] \<longrightarrow> timer_total h2 ws = unat (tn_cnt t) + timer_total h ws)" for k
  proof (cases ws)
    case (Cons w vs)
    obtain m where m: "h w = Some m" using node [of w] xs Cons by auto
    have "unat (tn_cnt t) + unat (tn_cnt m) < 2 ^ 32" using l(3) xs Cons seg(2) m by (simp add: h_def)
    then have w: "unat (tn_cnt (the (h2 w))) = unat (tn_cnt m) + unat (tn_cnt t)"
      using ws [of w m] m Cons by (simp add: unat_plus_if_size word_size)
    have "tn_cnt (the (h2 x)) = tn_cnt (the (h x))" if "x \<in> set vs" for x
      using that ws node [of x] xs Cons nin by auto
    then have "timer_total h2 vs = timer_total h vs" "timer_times h2 j vs = timer_times h j vs" for j
      by (intro timer_total_cong timer_times_cong; simp)+
    then show ?thesis using Cons m w by (simp add: Let_def ac_simps)
  qed simp
  have ta: "tn_cnt (the (h a)) = tn_cnt t" using seg(2) by (simp add: h_def)
  have fl: "filter (\<lambda>(x, u). x \<noteq> a) (timer_times h k vs) = timer_times h k vs" if "a \<notin> set vs" for k vs
    using that by (induction vs arbitrary: k) (auto simp: Let_def)
  have times: "timer_times (tm_nodes s') 0 (us @ ws) = filter (\<lambda>(x, u). x \<noteq> a) (timer_times (tm_nodes s) 0 xs)"
    using tus tws [of "timer_total h us"] fl [OF nin(1)] fl [OF nin(2)] ta
    unfolding xs s'_def h_def [symmetric] timer_times_append by (simp add: Let_def)
  have "timer_total h2 (us @ ws) < 2 ^ 32"
    using l(3) tus(1) tws [of 0] ta unfolding xs by (cases "ws = []") (simp_all add: h_def [symmetric])
  then have "timer_list s' (us @ ws)" using link nin by (simp add: timer_list_def s'_def)
  moreover have "rel_option same_payload (h2 x) (h x)" if "x \<in> set xs - {a}" for x
    using that us ws h1u node [of x] xs by auto
  then have "timer_frame (set xs - {a}) s s'"   proof -
    have "h2 x = h x" if "x \<notin> set xs - {a}" for x using that out xs ha(2) seg(2) by (cases "x = a") (auto simp: h_def)
    then show ?thesis using \<open>\<And>x. x \<in> set xs - {a} \<Longrightarrow> rel_option same_payload (h2 x) (h x)\<close>
      unfolding timer_frame_def s'_def h_def [symmetric] by simp
  qed
  moreover have "set (us @ ws) = set xs - {a}" using xs nin by auto
  ultimately show ?thesis using run times by blast
qed


subsection \<open>Passing time\<close>

text \<open>
  What the loop of \<open>xy_timer_ticks\<close> does to the times, and the timers it fires: with \<open>i\<close> ticks left, the
  first timer expires if its time is not above \<open>i\<close>; it is dropped, or starts again from its period
  \<open>R\<close>. The loop ends when no tick is left, whatever timers have expired at that very tick.
\<close>

definition elapse :: "nat \<Rightarrow> (nat \<times> nat) list \<Rightarrow> (nat \<times> nat) list" where
  "elapse d = map (\<lambda>(x, u). (x, u - d))"

lemma elapse_simps [simp]: "elapse d [] = []" "elapse d ((x, u) # ts) = (x, u - d) # elapse d ts" "length (elapse d ts) = length ts"
  by (simp_all add: elapse_def)

lemma elapse_0 [simp]: "elapse 0 ts = ts"
  by (simp add: elapse_def case_prod_unfold)

definition restart :: "(nat \<Rightarrow> nat) \<Rightarrow> nat \<Rightarrow> (nat \<times> nat) list \<Rightarrow> (nat \<times> nat) list" where
  "restart R a ts = (if R a = 0 then ts else insert_time (a, R a) ts)"

lemma length_insert_time [simp]: "length (insert_time x ts) = Suc (length ts)"
  by (induction x ts rule: insert_time.induct) auto

lemma filter_zero_insert_time:
  "0 < t \<Longrightarrow> length (filter (\<lambda>(x, u). u = 0) (insert_time (a, t) ts)) = length (filter (\<lambda>(x, u). u = 0) ts)"
  by (induction "(a, t)" ts rule: insert_time.induct) auto

function run_ticks :: "(nat \<Rightarrow> nat) \<Rightarrow> nat \<Rightarrow> (nat \<times> nat) list \<Rightarrow> (nat \<times> nat) list \<times> nat list" where
  "run_ticks R i [] = ([], [])"
| "run_ticks R i ((a, t) # ts) =
     (if i = 0 then ((a, t) # ts, [])
      else if i < t then (elapse i ((a, t) # ts), [])
      else case run_ticks R (i - t) (restart R a (elapse t ts)) of (ts', fired) \<Rightarrow> (ts', a # fired))"
  by pat_completeness auto
termination
  by (relation "measures [\<lambda>(R, i, ts). i, \<lambda>(R, i, ts). length (filter (\<lambda>(x, u). u = 0) ts), \<lambda>(R, i, ts). length ts]")
    (auto simp: restart_def filter_zero_insert_time)

declare run_ticks.simps(2) [simp del]

text \<open>The timers of the list are idle, with period, function and parameter as in \<open>pl\<close>.\<close>

definition timers_idle :: "timer_state \<Rightarrow> nat list \<Rightarrow> (nat \<Rightarrow> timer_node) \<Rightarrow> bool" where
  "timers_idle s xs pl \<longleftrightarrow> timer_list s xs \<and>
     (\<forall>x \<in> set xs. (\<exists>n. tm_nodes s x = Some n \<and> same_payload n (pl x)) \<and> tn_flag (pl x) = 0)"

definition quiet :: "timer_call \<Rightarrow> bool" where
  "quiet call \<longleftrightarrow> (\<forall>f p prm s. call f p prm s = Some s)"

definition timer_logs :: "(nat \<Rightarrow> timer_node) \<Rightarrow> nat list \<Rightarrow> (nat \<times> nat) list" where
  "timer_logs pl fired = concat (map (\<lambda>a. if tn_func (pl a) = None then [] else [(a, tn_parameter (pl a))]) fired)"

lemma timer_fire_quiet:
  assumes "quiet call" "tm_nodes s p = Some n" "tn_flag n = 0"
  shows "timer_fire call p s = Some (s\<lparr>tm_calls := tm_calls s @ (if tn_func n = None then [] else [(p, tn_parameter n)])\<rparr>)"
proof -
  have "n\<lparr>tn_flag := 0\<rparr> = n" using assms(3) by (cases n) simp
  then have "(tm_nodes s)(p \<mapsto> n\<lparr>tn_flag := 0\<rparr>) = tm_nodes s" using assms(2) by (simp add: fun_upd_idem)
  then show ?thesis using assms by (auto simp: timer_fire_def timer_put_def quiet_def)
qed

lemma timers_idle_calls [simp]: "timers_idle (s\<lparr>tm_calls := c\<rparr>) xs pl = timers_idle s xs pl"
  by (simp add: timers_idle_def timer_list_def)

lemma timer_list_other_node: "x \<notin> set xs \<Longrightarrow> timer_list (s\<lparr>tm_nodes := (tm_nodes s)(x := v)\<rparr>) xs = timer_list s xs"
proof -
  assume x: "x \<notin> set xs"
  then have "timer_total ((tm_nodes s)(x := v)) xs = timer_total (tm_nodes s) xs" by (intro timer_total_cong) auto
  then show ?thesis using x by (simp add: timer_list_def)
qed

lemma same_payload_trans: "same_payload n m \<Longrightarrow> same_payload m k \<Longrightarrow> same_payload n k"
  by (auto simp: same_payload_def)

lemma timers_idle_frame:
  assumes "timers_idle s xs pl" "timer_list s' xs'" "set xs' \<subseteq> set xs" "timer_frame (set xs') s s'"
  shows "timers_idle s' xs' pl"
proof -
  have "\<exists>n. tm_nodes s' x = Some n \<and> same_payload n (pl x)" if "x \<in> set xs'" for x
  proof -
    have "x \<in> set xs" using assms(3) that by auto
    then obtain n where "tm_nodes s x = Some n" "same_payload n (pl x)" using assms(1) by (auto simp: timers_idle_def)
    moreover have "rel_option same_payload (tm_nodes s' x) (tm_nodes s x)" using assms(4) that unfolding timer_frame_def by blast
    ultimately obtain n' where "tm_nodes s' x = Some n'" "same_payload n' n" "same_payload n (pl x)"
      by (auto simp: option_rel_Some2)
    then show ?thesis using same_payload_trans by blast
  qed
  then show ?thesis using assms by (auto simp: timers_idle_def)
qed

text \<open>A timer with period 0 is dropped after it has fired.\<close>

lemma timer_reload_once:
  assumes "timers_idle s (a # xs) pl" "tn_cnt (the (tm_nodes s a)) = 0" "tn_reload (pl a) = 0"
  shows "\<exists>s' xs'. timer_reload a s = Some s' \<and> timers_idle s' xs' pl \<and> set xs' = set xs
    \<and> timer_times (tm_nodes s') 0 xs' = timer_times (tm_nodes s) 0 xs
    \<and> tm_calls s' = tm_calls s \<and> tm_tick s' = tm_tick s \<and> tm_tick_pre s' = tm_tick_pre s \<and> tm_nodes s' a = None"
proof -
  obtain n where n: "tm_nodes s a = Some n" "same_payload n (pl a)" "tn_flag (pl a) = 0" "tn_cnt n = 0"
    using assms by (auto simp: timers_idle_def)
  have "n\<lparr>tn_cnt := tn_reload n\<rparr> = n" using n assms(3) by (cases n) (auto simp: same_payload_def)
  then have put: "timer_put a (\<lambda>n. n\<lparr>tn_cnt := tn_reload n\<rparr>) s = Some s" using n(1) by (simp add: timer_put_def fun_upd_idem)
  have l: "timer_list s (a # xs)" using assms(1) by (simp add: timers_idle_def)
  have "a \<in> set (a # xs)" by simp
  from xy_timer_remove_spec [OF l this] obtain s1 xs' where
    r: "xy_timer_remove a s = Some s1" "timer_list s1 xs'" "set xs' = set (a # xs) - {a}"
    "timer_times (tm_nodes s1) 0 xs' = filter (\<lambda>(x, u). x \<noteq> a) (timer_times (tm_nodes s) 0 (a # xs))"
    "timer_frame (set (a # xs) - {a}) s s1"
    by blast
  have nin: "a \<notin> set xs" using timer_list_dseg(2) [OF l] by simp
  have "filter (\<lambda>(x, u). x \<noteq> a) (timer_times h k vs) = timer_times h k vs" if "a \<notin> set vs" for h k vs
    using that by (induction vs arbitrary: k) (auto simp: Let_def)
  then have times: "timer_times (tm_nodes s1) 0 xs' = timer_times (tm_nodes s) 0 xs"
    using r(4) n(1,4) nin by (simp add: Let_def)
  have na: "tm_nodes s1 a = Some n" using r(5) n(1) by (simp add: timer_frame_def)
  define s2 where "s2 = s1\<lparr>tm_nodes := (tm_nodes s1)(a := None)\<rparr>"
  have "timer_reload a s = Some s2"
    using put n r(1) na by (simp add: timer_reload_def xy_timer_kill_def timer_put_def s2_def same_payload_def)
  moreover have x: "a \<notin> set xs'" using r(3) by simp
  moreover have "timers_idle s1 xs' pl"
    by (rule timers_idle_frame [OF assms(1) r(2)]) (use r(3,5) in auto)
  then have "timers_idle s2 xs' pl" using x by (auto simp: timers_idle_def s2_def timer_list_other_node)
  moreover have "timer_times (tm_nodes s2) 0 xs' = timer_times (tm_nodes s1) 0 xs'"
    using x by (intro timer_times_cong) (auto simp: s2_def)
  ultimately show ?thesis using times r(3,5) nin
    by (intro exI [of _ s2] exI [of _ xs']) (auto simp: s2_def timer_frame_def)
qed

text \<open>The head is taken out and inserted again with its period.\<close>

lemma timer_list_detach:
  assumes "timer_list s (a # xs)" "tm_nodes s a = Some n"
  shows "\<exists>s3. timer_link_pre (tn_next n) None (s\<lparr>tm_head := tn_next n\<rparr>) = Some s3 \<and> timer_list s3 xs
    \<and> timer_times (tm_nodes s3) 0 xs = timer_times (tm_nodes s) 0 xs \<and> tm_nodes s3 a = Some n
    \<and> timer_frame (set xs) s s3"
proof -
  note l = timer_list_dseg [OF assms(1)]
  have seg: "dseg (tm_nodes s) (Some a) (tn_next n) xs (last_or (Some a) xs) None" using l(1) assms(2) by auto
  show ?thesis
  proof (cases xs)
    case Nil
    then show ?thesis using seg assms by (simp add: timer_link_pre_def timer_list_def timer_frame_def)
  next
    case (Cons w vs)
    obtain m where m: "tm_nodes s w = Some m" "tn_next n = Some w" "dseg (tm_nodes s) (Some w) (tn_next m) vs (last_or (Some w) vs) None"
      using seg Cons by auto
    let ?h = "(tm_nodes s)(w \<mapsto> m\<lparr>tn_pre := None\<rparr>)"
    let ?s = "s\<lparr>tm_head := Some w, tm_nodes := ?h\<rparr>"
    have w: "w \<noteq> a" "w \<notin> set vs" using l(2) Cons by auto
    have "timer_link_pre (tn_next n) None (s\<lparr>tm_head := tn_next n\<rparr>) = Some ?s"
      using m by (simp add: timer_link_pre_def timer_put_def)
    moreover have same: "timer_total ?h xs = timer_total (tm_nodes s) xs" "timer_times ?h 0 xs = timer_times (tm_nodes s) 0 xs"
      using m(1) by (intro timer_total_cong timer_times_cong; simp)+
    moreover have "timer_list ?s xs" using l m w Cons same(1) by (simp add: timer_list_def)
    moreover have "timer_frame (set xs) s ?s" using m(1) Cons timer_list_nodes [OF assms(1)] by (fastforce simp: timer_frame_def)
    ultimately show ?thesis using w(1) assms(2) by (intro exI [of _ ?s]) simp
  qed
qed


lemma timer_frame_trans: "timer_frame A s s1 \<Longrightarrow> timer_frame B s1 s2 \<Longrightarrow> timer_frame (A \<union> B) s s2"
proof -
  assume f: "timer_frame A s s1" "timer_frame B s1 s2"
  have "rel_option same_payload (tm_nodes s2 x) (tm_nodes s x)" if "x \<in> A \<union> B" for x
  proof -
    have 1: "rel_option same_payload (tm_nodes s1 x) (tm_nodes s x)"
      using f(1) by (cases "x \<in> A") (auto simp: timer_frame_def option.rel_refl)
    have 2: "rel_option same_payload (tm_nodes s2 x) (tm_nodes s1 x)"
      using f(2) by (cases "x \<in> B") (auto simp: timer_frame_def option.rel_refl)
    show ?thesis using 1 2 by (cases "tm_nodes s x") (auto simp: option_rel_Some2 same_payload_def)
  qed
  then show ?thesis using f by (auto simp: timer_frame_def)
qed

lemma timer_reload_again:
  assumes "timers_idle s (a # xs) pl" "tm_head s = Some a" "tn_cnt (the (tm_nodes s a)) = 0" "tn_reload (pl a) \<noteq> 0"
  shows "\<exists>s' xs'. timer_reload a s = Some s' \<and> timers_idle s' xs' pl \<and> set xs' = set (a # xs)
    \<and> timer_times (tm_nodes s') 0 xs' = insert_time (a, unat (tn_reload (pl a))) (timer_times (tm_nodes s) 0 xs)
    \<and> tm_calls s' = tm_calls s \<and> tm_tick s' = tm_tick s \<and> tm_tick_pre s' = tm_tick_pre s"
proof -
  have l: "timer_list s (a # xs)" using assms(1) by (simp add: timers_idle_def)
  obtain n where n: "tm_nodes s a = Some n" "same_payload n (pl a)" "tn_cnt n = 0"
    using assms by (auto simp: timers_idle_def)
  have nr: "tn_reload n = tn_reload (pl a)" using n(2) by (simp add: same_payload_def)
  obtain s3 where s3: "timer_link_pre (tn_next n) None (s\<lparr>tm_head := tn_next n\<rparr>) = Some s3" "timer_list s3 xs"
    "timer_times (tm_nodes s3) 0 xs = timer_times (tm_nodes s) 0 xs" "tm_nodes s3 a = Some n" "timer_frame (set xs) s s3"
    using timer_list_detach [OF l n(1)] by blast
  have nin: "a \<notin> set xs" using timer_list_dseg(2) [OF l] by simp
  let ?n = "n\<lparr>tn_cnt := tn_reload n\<rparr>"
  let ?u = "\<lambda>s. s\<lparr>tm_nodes := (tm_nodes s)(a \<mapsto> ?n)\<rparr>"
  have put: "timer_put a (\<lambda>n. n\<lparr>tn_cnt := tn_reload n\<rparr>) s = Some (?u s)" using n(1) by (simp add: timer_put_def)
  have link: "timer_link_pre (tn_next n) None ((?u s)\<lparr>tm_head := tn_next n\<rparr>) = Some (?u s3)"
  proof (cases "tn_next n")
    case None
    then show ?thesis using s3(1) by (auto simp: timer_link_pre_def)
  next
    case (Some w)
    have "w \<noteq> a"
    proof -
      have "dseg (tm_nodes s) (Some a) (tn_next n) xs (last_or (Some a) xs) None"
        using timer_list_dseg(1) [OF l] n(1) by auto
      then show ?thesis using nin Some by (cases xs) auto
    qed
    then show ?thesis using s3(1) Some by (auto simp: timer_link_pre_def timer_put_def fun_upd_twist)
  qed
  have list: "timer_list (?u s3) xs" using s3(2) nin by (simp add: timer_list_other_node)
  have tt: "timer_times (tm_nodes (?u s3)) 0 xs = timer_times (tm_nodes s) 0 xs"
    unfolding s3(3) [symmetric] using nin by (intro timer_times_cong) auto
  have na: "tm_nodes (?u s3) a = Some ?n" by simp
  obtain s' xs' where i: "xy_timer_insert a (?u s3) = Some s'" "timer_list s' xs'" "set xs' = insert a (set xs)"
    "timer_times (tm_nodes s') 0 xs' = insert_time (a, unat (tn_cnt ?n)) (timer_times (tm_nodes (?u s3)) 0 xs)"
    "timer_frame (insert a (set xs)) (?u s3) s'"
    using xy_timer_insert_spec [OF list nin na] by blast
  have "timer_reload a s = Some s'"
    unfolding timer_reload_def put using assms(2,4) n(1) nr link i(1) by simp
  moreover have fr: "timer_frame (set xs') s s'"
  proof -
    have "timer_frame {a} s3 (?u s3)" using s3(4) by (simp add: timer_frame_def)
    from timer_frame_trans [OF timer_frame_trans [OF s3(5) this] i(5)] show ?thesis using i(3) by (simp add: Un_commute insert_is_Un [symmetric])
  qed
  moreover have "timers_idle s' xs' pl"
    by (rule timers_idle_frame [OF assms(1) i(2) _ fr]) (simp add: i(3))
  ultimately show ?thesis using i(3,4) tt nr by (intro exI [of _ s'] exI [of _ xs']) (auto simp: timer_frame_def)
qed

lemma timer_reload_spec:
  assumes "timers_idle s (a # xs) pl" "tm_head s = Some a" "tn_cnt (the (tm_nodes s a)) = 0"
  shows "\<exists>s' xs'. timer_reload a s = Some s' \<and> timers_idle s' xs' pl \<and> set xs' \<subseteq> set (a # xs)
    \<and> timer_times (tm_nodes s') 0 xs' = restart (\<lambda>x. unat (tn_reload (pl x))) a (timer_times (tm_nodes s) 0 xs)
    \<and> tm_calls s' = tm_calls s \<and> tm_tick s' = tm_tick s \<and> tm_tick_pre s' = tm_tick_pre s"
proof (cases "tn_reload (pl a) = 0")
  case True
  then show ?thesis using timer_reload_once [OF assms(1,3) True] by (fastforce simp: restart_def)
next
  case False
  then show ?thesis using timer_reload_again [OF assms(1,2,3) False] by (fastforce simp: restart_def unat_eq_zero)
qed

text \<open>The first node's count changes, and with it all times.\<close>

lemma timer_list_head_count:
  assumes "timer_list s (a # xs)" "tm_nodes s a = Some n" "unat c \<le> unat (tn_cnt n)"
  shows "timer_list (s\<lparr>tm_nodes := (tm_nodes s)(a \<mapsto> n\<lparr>tn_cnt := c\<rparr>)\<rparr>) (a # xs)"
    and "timer_times ((tm_nodes s)(a \<mapsto> n\<lparr>tn_cnt := c\<rparr>)) 0 (a # xs) =
      elapse (unat (tn_cnt n) - unat c) (timer_times (tm_nodes s) 0 (a # xs))"
proof -
  note l = timer_list_dseg [OF assms(1)]
  have nin: "a \<notin> set xs" using l(2) by simp
  have tot: "timer_total ((tm_nodes s)(a \<mapsto> n\<lparr>tn_cnt := c\<rparr>)) xs = timer_total (tm_nodes s) xs"
    using nin by (intro timer_total_cong) auto
  have tim: "timer_times ((tm_nodes s)(a \<mapsto> n\<lparr>tn_cnt := c\<rparr>)) k xs = timer_times (tm_nodes s) k xs" for k
    using nin by (intro timer_times_cong) auto
  show "timer_list (s\<lparr>tm_nodes := (tm_nodes s)(a \<mapsto> n\<lparr>tn_cnt := c\<rparr>)\<rparr>) (a # xs)"
    using l assms(2,3) tot nin by (auto simp: timer_list_def)
  have "timer_times (tm_nodes s) (unat c) xs = elapse (unat (tn_cnt n) - unat c) (timer_times (tm_nodes s) (unat (tn_cnt n)) xs)"
  proof -
    have "unat (tn_cnt n) = unat c + (unat (tn_cnt n) - unat c)" using assms(3) by simp
    then have "timer_times (tm_nodes s) (unat (tn_cnt n)) xs = map (\<lambda>(x, t). (x, t + (unat (tn_cnt n) - unat c))) (timer_times (tm_nodes s) (unat c) xs)"
      using timer_times_shift by metis
    then show ?thesis by (simp add: elapse_def case_prod_unfold o_def)
  qed
  then show "timer_times ((tm_nodes s)(a \<mapsto> n\<lparr>tn_cnt := c\<rparr>)) 0 (a # xs) =
      elapse (unat (tn_cnt n) - unat c) (timer_times (tm_nodes s) 0 (a # xs))"
    using assms(2,3) tim by (simp add: Let_def)
qed

lemma timer_times_head: "timer_times h 0 (a # xs) = (a, t) # rest \<Longrightarrow> t = unat (tn_cnt (the (h a))) \<and> rest = timer_times h t xs"
  by (auto simp: Let_def)

text \<open>The loop, call by call.\<close>

lemma timer_ticks_loop_spec:
  assumes "quiet call" "run_ticks (\<lambda>x. unat (tn_reload (pl x))) n ts = (ts', fired)"
    and "timers_idle s xs pl" "timer_times (tm_nodes s) 0 xs = ts" "n = unat (i :: u16)"
  shows "\<exists>s' xs'. timer_ticks_loop call i s = Some s' \<and> timers_idle s' xs' pl \<and> set xs' \<subseteq> set xs
    \<and> timer_times (tm_nodes s') 0 xs' = ts' \<and> tm_calls s' = tm_calls s @ timer_logs pl fired
    \<and> tm_tick s' = tm_tick s \<and> tm_tick_pre s' = tm_tick_pre s"
  using assms(2-5)
proof (induction "\<lambda>x. unat (tn_reload (pl x))" n ts arbitrary: s xs i ts' fired rule: run_ticks.induct)
  case (1 n)
  then have "xs = []" by (cases xs) (auto simp: Let_def)
  then have "tm_head s = None" using 1 by (auto simp: timers_idle_def timer_list_def)
  then show ?case using 1 by (intro exI [of _ s] exI [of _ xs]) (simp add: timer_ticks_loop.simps timer_logs_def)
next
  case (2 n a t rest)
  let ?R = "\<lambda>x. unat (tn_reload (pl x))"
  obtain ys where xs: "xs = a # ys" using 2(4) by (cases xs) (auto simp: Let_def)
  have l: "timer_list s (a # ys)" using 2(3) xs by (simp add: timers_idle_def)
  then have hd: "tm_head s = Some a" by (simp add: timer_list_def)
  obtain m where m: "tm_nodes s a = Some m" "same_payload m (pl a)" "tn_flag (pl a) = 0"
    using 2(3) xs by (auto simp: timers_idle_def)
  have t: "t = unat (tn_cnt m)" "rest = timer_times (tm_nodes s) t ys"
    using timer_times_head [of "tm_nodes s" a ys t rest] 2(4) xs m(1) by simp_all
  show ?case
  proof (cases "n = 0 \<or> n < t")
    case True
    show ?thesis
    proof (cases "n = 0")
      case True
      then have "i = 0" using 2(5) by (simp add: unat_eq_zero)
      then have "timer_ticks_loop call i s = Some s" using hd by (simp add: timer_ticks_loop.simps)
      then show ?thesis using True 2(2-4) by (intro exI [of _ s] exI [of _ xs]) (simp add: run_ticks.simps timer_logs_def)
    next
      case False
      then have lt: "n < t" "i \<noteq> 0" using True 2(5) by auto
      let ?s = "s\<lparr>tm_nodes := (tm_nodes s)(a \<mapsto> m\<lparr>tn_cnt := tn_cnt m - ucast i\<rparr>)\<rparr>"
      have ui: "unat (ucast i :: u32) = n" using 2(5) by simp
      have lw: "ucast i < tn_cnt m" using lt(1) t(1) ui by (simp add: word_less_nat_alt)
      have sub: "unat (tn_cnt m - ucast i) = t - n" using lt(1) t(1) ui by (simp add: unat_sub word_le_nat_alt)
      have "timer_ticks_loop call 0 ?s = Some ?s" using hd by (simp add: timer_ticks_loop.simps)
      then have run: "timer_ticks_loop call i s = Some ?s"
        using hd lt(2) lw m(1) by (subst timer_ticks_loop.simps) (simp add: timer_put_def)
      have le: "unat (tn_cnt m - ucast i) \<le> unat (tn_cnt m)" using sub t(1) by simp
      have "timers_idle ?s xs pl" using 2(3) timer_list_head_count(1) [OF l m(1) le] xs m(1,2)
        by (auto simp: timers_idle_def)
      moreover have "timer_times (tm_nodes ?s) 0 xs = elapse n ((a, t) # rest)"
        using timer_list_head_count(2) [OF l m(1) le] xs 2(4) sub t(1) lt(1) by simp
      moreover have "ts' = elapse n ((a, t) # rest)" "fired = []" using 2(2) False lt(1) by (simp_all add: run_ticks.simps)
      ultimately show ?thesis using run by (intro exI [of _ ?s] exI [of _ xs]) (simp add: timer_logs_def)
    qed
  next
    case False
    then have i: "i \<noteq> 0" "n \<noteq> 0" "t \<le> n" using 2(5) by auto
    let ?s1 = "s\<lparr>tm_nodes := (tm_nodes s)(a \<mapsto> m\<lparr>tn_cnt := 0\<rparr>)\<rparr>"
    have ui: "unat (ucast i :: u32) = n" using 2(5) by simp
    have nlw: "\<not> ucast i < tn_cnt m" using i(3) t(1) ui by (simp add: word_less_nat_alt)
    have s1: "timer_list ?s1 (a # ys)" "timer_times (tm_nodes ?s1) 0 (a # ys) = elapse t ((a, t) # rest)"
      using timer_list_head_count [OF l m(1), of 0] 2(4) xs t(1) by simp_all
    define s2 where "s2 = ?s1\<lparr>tm_calls := tm_calls s @ timer_logs pl [a]\<rparr>"
    have fire: "timer_fire call a ?s1 = Some s2"
      using timer_fire_quiet [OF assms(1), of ?s1 a "m\<lparr>tn_cnt := 0\<rparr>"] m(2,3)
      by (simp add: s2_def timer_logs_def same_payload_def)
    have idle: "timers_idle s2 (a # ys) pl"
      using 2(3) s1(1) xs m(1,2) by (auto simp: timers_idle_def s2_def timer_list_def)
    obtain s3 xs3 where s3: "timer_reload a s2 = Some s3" "timers_idle s3 xs3 pl" "set xs3 \<subseteq> set (a # ys)"
      "timer_times (tm_nodes s3) 0 xs3 = restart ?R a (timer_times (tm_nodes s2) 0 ys)"
      "tm_calls s3 = tm_calls s2" "tm_tick s3 = tm_tick s2" "tm_tick_pre s3 = tm_tick_pre s2"
      using timer_reload_spec [OF idle] hd by (auto simp: s2_def)
    have rest: "timer_times (tm_nodes s2) 0 ys = elapse t rest" using s1(2) by (simp add: s2_def Let_def)
    have cm: "unat (i - ucast (tn_cnt m)) = n - t"
    proof -
      have "unat (ucast (tn_cnt m) :: u16) = t"
      proof -
        have "unat i < 2 ^ 16" using unsigned_less [of i] by simp
        then have "unat (tn_cnt m) < 2 ^ 16" using i(3) t(1) 2(5) by linarith
        then show ?thesis using t(1) by (simp add: unsigned_ucast_eq unsigned_take_bit_eq take_bit_nat_eq_self)
      qed
      then show ?thesis using i(3) 2(5) by (simp add: unat_sub word_le_nat_alt)
    qed
    obtain ts2 f2 where r2: "run_ticks ?R (n - t) (restart ?R a (elapse t rest)) = (ts2, f2)" by fastforce
    have res: "ts' = ts2" "fired = a # f2" using 2(2) False r2 by (simp_all add: run_ticks.simps)
    obtain s' xs' where ih: "timer_ticks_loop call (i - ucast (tn_cnt m)) s3 = Some s'" "timers_idle s' xs' pl" "set xs' \<subseteq> set xs3"
      "timer_times (tm_nodes s') 0 xs' = ts2" "tm_calls s' = tm_calls s3 @ timer_logs pl f2"
      "tm_tick s' = tm_tick s3" "tm_tick_pre s' = tm_tick_pre s3"
      using 2(1) [OF i(2) _ r2 s3(2) _ cm [symmetric]] False s3(4) rest by auto
    have run: "timer_ticks_loop call i s = Some s'"
      using hd i(1) nlw m(1) fire s3(1) ih(1) by (subst timer_ticks_loop.simps) (simp add: timer_put_def)
    show ?thesis using run ih(2-7) s3(3,5-7) res xs
      by (intro exI [of _ s'] exI [of _ xs']) (auto simp: s2_def timer_logs_def)
  qed
qed

end
