(* ===== verification/Xy_Timer_Properties.thy ===== *)
theory Xy_Timer_Properties
  imports Xy_Timer_Correct
begin

text \<open>
  What the timers promise: every operation does to the times what its name says, and with callbacks that
  leave the timers alone every timer fires when its time has passed, as often as its period asks.
\<close>

subsection \<open>Runs\<close>

lemma sorted_elapse: "sorted (map snd ts) \<Longrightarrow> sorted (map snd (elapse d ts))"
  by (induction ts) (auto simp: elapse_def intro!: diff_le_mono)

lemma sorted_insert_time: "sorted (map snd ts) \<Longrightarrow> sorted (map snd (insert_time x ts))"
  by (induction x ts rule: insert_time.induct) (auto simp: set_insert_time)

lemma sorted_restart: "sorted (map snd ts) \<Longrightarrow> sorted (map snd (restart R a (elapse d ts)))"
  by (simp add: restart_def sorted_elapse sorted_insert_time)

lemma fst_elapse [simp]: "map fst (elapse d ts) = map fst ts"
  by (simp add: elapse_def case_prod_unfold)

lemma fst_set_elapse [simp]: "fst ` set (elapse d ts) = fst ` set ts"
  by (simp flip: set_map)

lemma set_restart: "set (restart R a (elapse d ts)) = (\<lambda>(x, u). (x, u - d)) ` set ts \<union> (if R a = 0 then {} else {(a, R a)})"
  by (auto simp: restart_def set_insert_time elapse_def)

lemma fst_set_restart: "fst ` set (restart R a (elapse d ts)) \<subseteq> insert a (fst ` set ts)"
proof -
  have "fst ` set (insert_time (a, R a) (elapse d ts)) = insert a (fst ` set ts)"
    by (simp only: set_insert_time image_insert fst_conv fst_set_elapse)
  then show ?thesis by (simp add: restart_def subset_insertI)
qed

lemma distinct_insert_time: "distinct (map fst (insert_time (a, t) ts)) \<longleftrightarrow> a \<notin> fst ` set ts \<and> distinct (map fst ts)"
  by (induction "(a, t)" ts rule: insert_time.induct) (auto simp: set_insert_time)

lemma distinct_restart:
  "distinct (map fst ((a, t) # ts)) \<Longrightarrow> distinct (map fst (restart R a (elapse d ts)))"
  by (auto simp: restart_def distinct_insert_time simp flip: set_map)

lemma run_ticks_names: "run_ticks R n ts = (ts', fired) \<Longrightarrow> fst ` set ts' \<subseteq> fst ` set ts \<and> set fired \<subseteq> fst ` set ts"
proof (induction R n ts arbitrary: ts' fired rule: run_ticks.induct)
  case (2 R i a t ts)
  show ?case
  proof (cases "i = 0 \<or> i < t")
    case True
    then have "fired = []" "fst ` set ts' = fst ` set ((a, t) # ts)"
      using 2(2) fst_set_elapse [of i "(a, t) # ts"] by (cases "i = 0"; simp add: run_ticks.simps(2) del: elapse_simps)+
    then show ?thesis by simp
  next
    case False
    obtain ts2 f2 where r: "run_ticks R (i - t) (restart R a (elapse t ts)) = (ts2, f2)" by fastforce
    have "fst ` set ts2 \<subseteq> fst ` set (restart R a (elapse t ts))" "set f2 \<subseteq> fst ` set (restart R a (elapse t ts))"
      using 2(1) [OF _ _ r] False by simp_all
    from this [THEN subset_trans, OF fst_set_restart]
    have "fst ` set ts2 \<subseteq> insert a (fst ` set ts)" "set f2 \<subseteq> insert a (fst ` set ts)" .
    then show ?thesis using 2(2) False r by (auto simp: run_ticks.simps(2))
  qed
qed simp

text \<open>A timer that is not due keeps running.\<close>

lemma run_ticks_later:
  "run_ticks R n ts = (ts', fired) \<Longrightarrow> sorted (map snd ts) \<Longrightarrow> distinct (map fst ts) \<Longrightarrow> (b, u) \<in> set ts \<Longrightarrow> n < u \<Longrightarrow>
   b \<notin> set fired \<and> (b, u - n) \<in> set ts'"
proof (induction R n ts arbitrary: ts' fired u rule: run_ticks.induct)
  case (2 R i a t ts)
  show ?case
  proof (cases "i = 0 \<or> i < t")
    case True
    then show ?thesis using 2(2,5) by (auto simp: run_ticks.simps(2) elapse_def split: if_splits)
  next
    case False
    obtain ts2 f2 where r: "run_ticks R (i - t) (restart R a (elapse t ts)) = (ts2, f2)" by fastforce
    have b: "(b, u) \<in> set ts" "b \<noteq> a" using 2(4-6) False by (auto simp: image_iff)
    have "(b, u - t) \<in> set (restart R a (elapse t ts))" using b(1) by (force simp: set_restart)
    moreover have "i - t < u - t" using 2(6) False by linarith
    moreover have "sorted (map snd (restart R a (elapse t ts)))" using 2(3) by (intro sorted_restart) simp
    ultimately have "b \<notin> set f2 \<and> (b, u - t - (i - t)) \<in> set ts2"
      using 2(1) [OF _ _ r] False distinct_restart [OF 2(4)] by blast
    moreover have "u - t - (i - t) = u - i" using False by simp
    ultimately show ?thesis using 2(2) False r b(2) by (auto simp: run_ticks.simps(2))
  qed
qed simp

text \<open>A timer without period fires once and is gone.\<close>

lemma run_ticks_once:
  "run_ticks R n ts = (ts', fired) \<Longrightarrow> sorted (map snd ts) \<Longrightarrow> distinct (map fst ts) \<Longrightarrow> (b, u) \<in> set ts \<Longrightarrow> u < n \<Longrightarrow> R b = 0 \<Longrightarrow>
   count_list fired b = 1 \<and> b \<notin> fst ` set ts'"
proof (induction R n ts arbitrary: ts' fired u rule: run_ticks.induct)
  case (2 R i a t ts)
  have "t \<le> u" using 2(3,5) by auto
  then have False: "\<not> (i = 0 \<or> i < t)" using 2(6) by linarith
  obtain ts2 f2 where r: "run_ticks R (i - t) (restart R a (elapse t ts)) = (ts2, f2)" by fastforce
  have run: "ts' = ts2" "fired = a # f2" using 2(2) False r by (simp_all add: run_ticks.simps(2))
  show ?case
  proof (cases "b = a")
    case True
    then have "b \<notin> fst ` set (restart R a (elapse t ts))" using 2(4,7) by (auto simp: set_restart image_iff)
    then have "b \<notin> set f2" "b \<notin> fst ` set ts2" using run_ticks_names [OF r] by auto
    then show ?thesis using run True by (simp add: count_list_0_iff)
  next
    case nab: False
    then have "(b, u) \<in> set ts" using 2(5) by auto
    then have "(b, u - t) \<in> set (restart R a (elapse t ts))" by (force simp: set_restart)
    moreover have "u - t < i - t" using 2(6) \<open>t \<le> u\<close> by simp
    moreover have "sorted (map snd (restart R a (elapse t ts)))" using 2(3) by (intro sorted_restart) simp
    ultimately have "count_list f2 b = 1 \<and> b \<notin> fst ` set ts2"
      using 2(1) [OF _ _ r] False distinct_restart [OF 2(4)] 2(7) by blast
    then show ?thesis using run nab by simp
  qed
qed simp

text \<open>
  At the very last tick of a run only one timer fires. Of those that had exactly that many ticks
  left from the start it is the first of the list; the others wait with no tick left.
\<close>

definition first_with :: "nat \<Rightarrow> (nat \<times> nat) list \<Rightarrow> nat option" where
  "first_with n ts = map_option fst (List.find (\<lambda>(b, u). u = n) ts)"

lemma first_with_simps [simp]:
  "first_with n [] = None"
  "first_with n ((a, t) # ts) = (if t = n then Some a else first_with n ts)"
  by (simp_all add: first_with_def)

lemma first_with_elapse: "(\<forall>(x, u) \<in> set ts. d \<le> u) \<Longrightarrow> d \<le> n \<Longrightarrow> first_with (n - d) (elapse d ts) = first_with n ts"
  by (induction ts) auto

lemma first_with_Some: "first_with n ts = Some b \<Longrightarrow> (b, n) \<in> set ts"
  by (induction ts) (auto split: if_splits)

lemma first_with_insert_time:
  "sorted (map snd ts) \<Longrightarrow> first_with n (insert_time (a, r) ts)
    = (case first_with n ts of Some b \<Rightarrow> Some b | None \<Rightarrow> if r = n then Some a else None)"
  by (induction "(a, r)" ts rule: insert_time.induct) (auto split: option.splits, drule first_with_Some, force)

lemma first_with_in: "(b, n) \<in> set ts \<Longrightarrow> \<exists>c. first_with n ts = Some c"
  by (induction ts) auto

lemma first_with_restart:
  assumes "sorted (map snd ((a, t) # ts))" "t \<le> n" "(b, n) \<in> set ts"
  shows "first_with (n - t) (restart R a (elapse t ts)) = first_with n ts"
proof -
  have "first_with (n - t) (elapse t ts) = first_with n ts"
    using assms(1,2) by (intro first_with_elapse) auto
  moreover have "sorted (map snd (elapse t ts))" using assms(1) by (intro sorted_elapse) simp
  ultimately show ?thesis
    using first_with_in [OF assms(3)] by (auto simp: restart_def first_with_insert_time)
qed

lemma run_ticks_0: "run_ticks R 0 ts = (ts, [])"
  by (cases ts) (auto simp: run_ticks.simps(2))

text \<open>One step of a run: the first timer is due.\<close>

lemma run_ticks_step:
  assumes "run_ticks R i ((a, t) # ts) = (ts', fired)" "\<not> (i = 0 \<or> i < t)"
    and "sorted (map snd ((a, t) # ts))" "distinct (map fst ((a, t) # ts))"
  obtains f2 where "run_ticks R (i - t) (restart R a (elapse t ts)) = (ts', f2)" "fired = a # f2"
    "sorted (map snd (restart R a (elapse t ts)))" "distinct (map fst (restart R a (elapse t ts)))"
proof -
  obtain f2 where "run_ticks R (i - t) (restart R a (elapse t ts)) = (ts', f2)" "fired = a # f2"
    using assms(1,2) by (auto simp: run_ticks.simps(2) split: prod.splits)
  then show ?thesis
    using that distinct_restart [OF assms(4)] sorted_restart [of ts R a t] assms(3) by simp
qed

lemma restart_other: "(b, u) \<in> set ts \<Longrightarrow> (b, u - t) \<in> set (restart R a (elapse t ts))"
  by (force simp: set_restart)

lemma run_ticks_last:
  "run_ticks R n ts = (ts', fired) \<Longrightarrow> sorted (map snd ts) \<Longrightarrow> distinct (map fst ts) \<Longrightarrow> (b, n) \<in> set ts \<Longrightarrow>
   if 0 < n \<and> first_with n ts = Some b
   then count_list fired b = 1 \<and> (if R b = 0 then b \<notin> fst ` set ts' else (b, R b) \<in> set ts')
   else b \<notin> set fired \<and> (b, 0) \<in> set ts'"
proof (induction R n ts arbitrary: ts' fired rule: run_ticks.induct)
  case (2 R i a t ts)
  show ?case
  proof (cases "i = 0")
    case True
    then show ?thesis using 2(2,5) by (simp add: run_ticks_0)
  next
    case False
    then have due: "\<not> (i = 0 \<or> i < t)" and ti: "t \<le> i" using 2(3,5) by auto
    obtain f2 where r: "run_ticks R (i - t) (restart R a (elapse t ts)) = (ts', f2)" "fired = a # f2"
      "sorted (map snd (restart R a (elapse t ts)))" "distinct (map fst (restart R a (elapse t ts)))"
      using run_ticks_step [OF 2(2) due 2(3,4)] by blast
    show ?thesis
    proof (cases "t = i")
      case True
      then have end': "ts' = restart R a (elapse t ts)" "f2 = []" using r(1) by (simp_all add: run_ticks_0)
      show ?thesis
      proof (cases "b = a")
        case True
        then have "R a = 0 \<Longrightarrow> a \<notin> fst ` set ts'" "R a \<noteq> 0 \<Longrightarrow> (a, R a) \<in> set ts'"
          using 2(4) end' by (auto simp: set_restart image_iff)
        then show ?thesis using True \<open>t = i\<close> False r(2) end' by simp
      next
        case nab: False
        then have "(b, i - t) \<in> set ts'" using 2(5) end' restart_other [of b i ts t R a] by simp
        then show ?thesis using nab \<open>t = i\<close> False r(2) end' by simp
      qed
    next
      case lt: False
      then have b: "b \<noteq> a" "(b, i) \<in> set ts" using 2(4,5) by (auto simp: image_iff)
      have "if 0 < i - t \<and> first_with (i - t) (restart R a (elapse t ts)) = Some b
         then count_list f2 b = 1 \<and> (if R b = 0 then b \<notin> fst ` set ts' else (b, R b) \<in> set ts')
         else b \<notin> set f2 \<and> (b, 0) \<in> set ts'"
        by (rule 2(1) [OF _ _ r(1,3,4) restart_other [OF b(2)]]) (use due in auto)
      then show ?thesis
        using first_with_restart [OF 2(3) ti b(2), of R] lt ti b(1) False r(2) by simp
    qed
  qed
qed simp

text \<open>
  A timer with a period fires once per period. A firing due at the very last tick may be missing, and
  then the timer waits with no tick left.
\<close>

lemma div_mod_minus:
  fixes r m :: nat
  assumes "0 < r" "r \<le> m"
  shows "m div r = (m - r) div r + 1" and "(m - r) mod r = m mod r" and "r dvd m - r \<longleftrightarrow> r dvd m"
  using assms div_add_self2 [of r "m - r"] mod_add_self2 [of "m - r" r] dvd_add_right_iff [of r r "m - r"] by simp_all

lemma run_ticks_periodic:
  "run_ticks R n ts = (ts', fired) \<Longrightarrow> sorted (map snd ts) \<Longrightarrow> distinct (map fst ts) \<Longrightarrow> (b, u) \<in> set ts \<Longrightarrow>
   0 < R b \<Longrightarrow> u < n \<Longrightarrow>
   if R b dvd n - u
   then count_list fired b = (n - u) div R b \<and> (b, 0) \<in> set ts'
     \<or> count_list fired b = (n - u) div R b + 1 \<and> (b, R b) \<in> set ts'
   else count_list fired b = (n - u) div R b + 1 \<and> (b, R b - (n - u) mod R b) \<in> set ts'"
proof (induction R n ts arbitrary: ts' fired u rule: run_ticks.induct)
  case (2 R i a t ts)
  have tu: "t \<le> u" using 2(3,5) by auto
  then have due: "\<not> (i = 0 \<or> i < t)" using 2(7) by simp
  obtain f2 where r: "run_ticks R (i - t) (restart R a (elapse t ts)) = (ts', f2)" "fired = a # f2"
    "sorted (map snd (restart R a (elapse t ts)))" "distinct (map fst (restart R a (elapse t ts)))"
    using run_ticks_step [OF 2(2) due 2(3,4)] by blast
  note IH = 2(1) [OF _ _ r(1,3,4)]
  show ?case
  proof (cases "b = a")
    case True
    have u: "u = t" using True 2(4,5) by (auto simp: image_iff)
    have "(b, R b) \<in> set (restart R a (elapse t ts))" using 2(6) True by (simp add: set_restart)
    note next' = this
    let ?m = "i - t"
    consider "?m < R b" | "?m = R b" | "R b < ?m" by linarith
    then show ?thesis
    proof cases
      case 1
      then have "b \<notin> set f2" "(b, R b - ?m) \<in> set ts'" using run_ticks_later [OF r(1,3,4) next'] by simp_all
      moreover have "\<not> R b dvd ?m" "?m div R b = 0" "?m mod R b = ?m"
        using 1 2(7) u by (auto dest: dvd_imp_le)
      ultimately show ?thesis using True r(2) u by (simp add: count_list_0_iff)
    next
      case 2
      then have "b \<notin> set f2 \<and> (b, 0) \<in> set ts' \<or> count_list f2 b = 1 \<and> (b, R b) \<in> set ts'"
        using run_ticks_last [OF r(1,3,4), of b] next' \<open>0 < R b\<close> by (auto split: if_splits)
      then show ?thesis using 2 True r(2) u \<open>0 < R b\<close> by (auto simp: count_list_0_iff)
    next
      case 3
      have "if R b dvd ?m - R b
         then count_list f2 b = (?m - R b) div R b \<and> (b, 0) \<in> set ts'
           \<or> count_list f2 b = (?m - R b) div R b + 1 \<and> (b, R b) \<in> set ts'
         else count_list f2 b = (?m - R b) div R b + 1 \<and> (b, R b - (?m - R b) mod R b) \<in> set ts'"
        by (rule IH [OF _ _ next' 2(6) 3]) (use due in auto)
      then show ?thesis
        unfolding div_mod_minus(2,3) [OF 2(6) less_imp_le [OF 3]] div_mod_minus(1) [OF 2(6) less_imp_le [OF 3]] u
        using True r(2) by (auto split: if_splits)
    qed
  next
    case nab: False
    then have b: "(b, u) \<in> set ts" using 2(5) by auto
    have eq: "i - t - (u - t) = i - u" "u - t < i - t" using tu 2(7) by auto
    show ?thesis
      using IH [OF _ _ restart_other [OF b] 2(6) eq(2)] due nab r(2) unfolding eq(1) by (auto split: if_splits)
  qed
qed simp

text \<open>The timers due at the very last tick; exactly one of them is served.\<close>

definition due_last :: "(nat \<Rightarrow> nat) \<Rightarrow> nat \<Rightarrow> (nat \<times> nat) list \<Rightarrow> nat set" where
  "due_last R n ts = {b. \<exists>u. (b, u) \<in> set ts \<and> (u = n \<or> u < n \<and> 0 < R b \<and> R b dvd n - u)}"

lemma due_last_restart:
  assumes "sorted (map snd ((a, t) # ts))" "t < i"
  shows "due_last R (i - t) (restart R a (elapse t ts)) = due_last R i ((a, t) # ts)"
proof (rule set_eqI)
  fix b
  have sub: "i - t - (u - t) = i - u" "(u - t = i - t) = (u = i)" "(u - t < i - t) = (u < i)" if "(x, u) \<in> set ts" for x u
    using assms that by auto
  have per: "(R a = i - t \<or> R a < i - t \<and> R a dvd i - t - R a) \<longleftrightarrow> R a dvd i - t" if "0 < R a"
    using assms(2) that div_mod_minus(3) [OF that, of "i - t"] dvd_imp_le [of "R a" "i - t"] by (cases "R a \<le> i - t") auto
  let ?P = "\<lambda>m u. u = m \<or> u < m \<and> 0 < R b \<and> R b dvd m - u"
  have "b \<in> due_last R (i - t) (restart R a (elapse t ts)) \<longleftrightarrow>
    (\<exists>v. (b, v) \<in> (\<lambda>(x, u). (x, u - t)) ` set ts \<and> ?P (i - t) v) \<or> b = a \<and> 0 < R a \<and> ?P (i - t) (R a)"
    unfolding due_last_def set_restart by auto
  also have "(\<exists>v. (b, v) \<in> (\<lambda>(x, u). (x, u - t)) ` set ts \<and> ?P (i - t) v)
      \<longleftrightarrow> (\<exists>u. (b, u) \<in> set ts \<and> ?P (i - t) (u - t))"
    by force
  also have "\<dots> \<longleftrightarrow> (\<exists>u. (b, u) \<in> set ts \<and> ?P i u)"
  proof -
    have "?P (i - t) (u - t) \<longleftrightarrow> ?P i u" if "(b, u) \<in> set ts" for u using sub [OF that] by simp
    then show ?thesis by blast
  qed
  also have "(b = a \<and> 0 < R a \<and> ?P (i - t) (R a)) \<longleftrightarrow> b = a \<and> 0 < R a \<and> R a dvd i - t"
    using per by blast
  finally have "b \<in> due_last R (i - t) (restart R a (elapse t ts)) \<longleftrightarrow>
    (\<exists>u. (b, u) \<in> set ts \<and> ?P i u) \<or> b = a \<and> 0 < R a \<and> R a dvd i - t" .
  then show "b \<in> due_last R (i - t) (restart R a (elapse t ts)) \<longleftrightarrow> b \<in> due_last R i ((a, t) # ts)"
    using assms(2) by (auto simp: due_last_def)
qed

lemma run_ticks_one_last:
  "run_ticks R n ts = (ts', fired) \<Longrightarrow> sorted (map snd ts) \<Longrightarrow> distinct (map fst ts) \<Longrightarrow> 0 < n \<Longrightarrow>
   due_last R n ts \<noteq> {} \<Longrightarrow> \<exists>!b. b \<in> due_last R n ts \<and> (b, 0) \<notin> set ts'"
proof (induction R n ts arbitrary: ts' fired rule: run_ticks.induct)
  case (2 R i a t ts)
  then have due: "\<not> (i = 0 \<or> i < t)" by (fastforce simp: due_last_def)
  obtain f2 where r: "run_ticks R (i - t) (restart R a (elapse t ts)) = (ts', f2)" "fired = a # f2"
    "sorted (map snd (restart R a (elapse t ts)))" "distinct (map fst (restart R a (elapse t ts)))"
    using run_ticks_step [OF 2(2) due 2(3,4)] by blast
  show ?case
  proof (cases "t = i")
    case True
    have ts': "ts' = restart R a (elapse t ts)" using r(1) True by (simp add: run_ticks_0)
    have "due_last R i ((a, t) # ts) = insert a {b. (b, i) \<in> set ts}"
      using 2(3) True by (auto simp: due_last_def)
    moreover have "(b, 0) \<in> set ts'" if "(b, i) \<in> set ts" for b
      using restart_other [OF that, of i R a] True by (simp add: ts')
    moreover have "(a, 0) \<notin> set ts'" using 2(4) by (auto simp: ts' set_restart image_iff)
    ultimately show ?thesis by (intro ex1I [of _ a]) auto
  next
    case False
    then have "due_last R (i - t) (restart R a (elapse t ts)) = due_last R i ((a, t) # ts)"
      using due by (intro due_last_restart [OF 2(3)]) simp
    then show ?thesis using 2(1) [OF _ _ r(1,3,4)] due False 2(6) by auto
  qed
qed (simp add: due_last_def)

lemma timer_times_sorted: "sorted (map snd (timer_times h t xs))"
proof (induction xs arbitrary: t)
  case (Cons x xs)
  have "t + unat (tn_cnt (the (h x))) \<le> u" if "(y, u) \<in> set (timer_times h (t + unat (tn_cnt (the (h x)))) xs)" for y u
    using timer_times_ge [OF that] by simp
  then show ?case using Cons by (auto simp: Let_def)
qed simp

lemma count_timer_logs:
  "tn_func (pl a) \<noteq> None \<Longrightarrow> count_list (timer_logs pl fired) (a, tn_parameter (pl a)) = count_list fired a"
  by (induction fired) (auto simp: timer_logs_def)

text \<open>
  C23. Timers fire when their time has passed. Let \<open>n\<close> be the ticks since the last call of
  \<open>xy_timer_ticks\<close> modulo $2^{16}$: the code counts them in 16 bits, so more ticks between two calls are
  lost. With callbacks that leave the timers alone the call returns, and for a timer with \<open>t\<close> ticks left
  and period \<open>r\<close> (0 for none), by the list of the timers in order of their times:
  if \<open>n < t\<close> it does not fire and has \<open>n\<close> less afterwards; if \<open>t < n\<close> and it has no period it fires exactly
  once and is removed; if \<open>t < n\<close> and it has a period it fires for its time and every period that has
  ended, with what is left of the running period afterwards. A firing due at the very last tick is
  special: the loop ends as soon as no tick is left, so exactly one of all the timers due at that tick
  fires then, the first one of the list with exactly \<open>n\<close> ticks left if there is one, and the others wait
  with no tick left for the next call.
\<close>

theorem timer_fires_in_time:
  assumes "quiet call" "timers_idle s xs pl" "(a, t) \<in> set (timer_times (tm_nodes s) 0 xs)" "tn_func (pl a) \<noteq> None"
    and "n = unat (tm_tick s - tm_tick_pre s) mod 2 ^ 16" "r = unat (tn_reload (pl a))"
  shows "\<exists>s' xs' calls ts' k. xy_timer_ticks call s = Some s' \<and> timers_idle s' xs' pl \<and> tm_calls s' = tm_calls s @ calls
    \<and> ts' = timer_times (tm_nodes s') 0 xs' \<and> k = count_list calls (a, tn_parameter (pl a))
    \<and> (n < t \<longrightarrow> k = 0 \<and> (a, t - n) \<in> set ts')
    \<and> (t < n \<and> r = 0 \<longrightarrow> k = 1 \<and> a \<notin> set xs')
    \<and> (t < n \<and> 0 < r \<and> \<not> r dvd n - t \<longrightarrow> k = (n - t) div r + 1 \<and> (a, r - (n - t) mod r) \<in> set ts')
    \<and> (t < n \<and> 0 < r \<and> r dvd n - t \<longrightarrow>
        k = (n - t) div r \<and> (a, 0) \<in> set ts' \<or> k = (n - t) div r + 1 \<and> (a, r) \<in> set ts')
    \<and> (t = n \<longrightarrow> (if 0 < n \<and> first_with n (timer_times (tm_nodes s) 0 xs) = Some a
        then k = 1 \<and> (if r = 0 then a \<notin> set xs' else (a, r) \<in> set ts')
        else k = 0 \<and> (a, 0) \<in> set ts'))
    \<and> (let due = due_last (\<lambda>x. unat (tn_reload (pl x))) n (timer_times (tm_nodes s) 0 xs)
       in 0 < n \<and> due \<noteq> {} \<longrightarrow> (\<exists>!b. b \<in> due \<and> (b, 0) \<notin> set ts'))"
proof -
  let ?R = "\<lambda>x. unat (tn_reload (pl x))" and ?ts = "timer_times (tm_nodes s) 0 xs"
  let ?s = "s\<lparr>tm_tick_pre := tm_tick s\<rparr>" and ?i = "ucast (tm_tick s - tm_tick_pre s) :: u16"
  have ui: "n = unat ?i" using assms(5) by (simp add: unsigned_ucast_eq unsigned_take_bit_eq take_bit_eq_mod)
  obtain ts' fired where r: "run_ticks ?R n ?ts = (ts', fired)" by fastforce
  have "timers_idle ?s xs pl" using assms(2) by (simp add: timers_idle_def timer_list_def)
  then obtain s' xs' where s': "timer_ticks_loop call ?i ?s = Some s'" "timers_idle s' xs' pl"
    "timer_times (tm_nodes s') 0 xs' = ts'" "tm_calls s' = tm_calls s @ timer_logs pl fired"
    using timer_ticks_loop_spec [OF assms(1) r _ _ ui, of ?s xs] by auto
  have so: "sorted (map snd ?ts)" by (rule timer_times_sorted)
  have di: "distinct (map fst ?ts)" using assms(2) by (simp add: timers_idle_def timer_list_def)
  have set: "fst ` set ts' = set xs'" using s'(3) by (metis fst_timer_times set_map)
  have run: "xy_timer_ticks call s = Some s'" using s'(1) by (simp add: xy_timer_ticks_def xy_timer_get_tick_def)
  note cnt = count_timer_logs [where pl = pl and a = a, OF assms(4)]
  note later = run_ticks_later [OF r so di assms(3)] and once = run_ticks_once [OF r so di assms(3)]
    and periodic = run_ticks_periodic [OF r so di assms(3), folded assms(6)]
    and final = run_ticks_last [OF r so di, of a, folded assms(6)] and one = run_ticks_one_last [OF r so di]
  show ?thesis
  proof (rule exI [of _ s'], rule exI [of _ xs'], rule exI [of _ "timer_logs pl fired"], rule exI [of _ ts'],
      rule exI [of _ "count_list fired a"], intro conjI impI)
    show "n < t \<Longrightarrow> count_list fired a = 0" "n < t \<Longrightarrow> (a, t - n) \<in> set ts'"
      using later by (simp_all add: count_list_0_iff)
    show "t < n \<and> r = 0 \<Longrightarrow> count_list fired a = 1" "t < n \<and> r = 0 \<Longrightarrow> a \<notin> set xs'"
      using once assms(6) set by auto
    show "t < n \<and> 0 < r \<and> \<not> r dvd n - t \<Longrightarrow> count_list fired a = (n - t) div r + 1"
      "t < n \<and> 0 < r \<and> \<not> r dvd n - t \<Longrightarrow> (a, r - (n - t) mod r) \<in> set ts'"
      "t < n \<and> 0 < r \<and> r dvd n - t \<Longrightarrow> count_list fired a = (n - t) div r \<and> (a, 0) \<in> set ts'
        \<or> count_list fired a = (n - t) div r + 1 \<and> (a, r) \<in> set ts'"
      using periodic by simp_all
    show "if 0 < n \<and> first_with n ?ts = Some a
      then count_list fired a = 1 \<and> (if r = 0 then a \<notin> set xs' else (a, r) \<in> set ts')
      else count_list fired a = 0 \<and> (a, 0) \<in> set ts'" if "t = n"
      using final [OF assms(3) [unfolded that]] set by (auto simp: count_list_0_iff split: if_splits)
    show "let due = due_last ?R n ?ts in 0 < n \<and> due \<noteq> {} \<longrightarrow> (\<exists>!b. b \<in> due \<and> (b, 0) \<notin> set ts')"
      using one by (simp add: Let_def)
  qed (simp_all add: run s' cnt)
qed

text \<open>A store with one timer, made by \<open>xy_timer_create\<close> and due in three ticks, every five.\<close>

definition timer_junk :: timer_node where
  "timer_junk = \<lparr>tn_cnt = 0, tn_reload = 0, tn_pre = None, tn_next = None, tn_func = None, tn_parameter = 0, tn_flag = 0\<rparr>"

definition timer_demo :: "u32 \<Rightarrow> timer_state" where
  "timer_demo now = \<lparr>tm_nodes = [7 \<mapsto> timer_junk\<lparr>tn_cnt := 3, tn_reload := 5, tn_func := Some 1, tn_parameter := 9\<rparr>],
     tm_head = Some 7, tm_tick = now, tm_tick_pre = 0, tm_calls = []\<rparr>"

lemma timer_demo_created:
  "xy_timer_create (\<lambda>h. Some (7, timer_junk)) 3 5 (Some 1) 9 ((timer_demo 0)\<lparr>tm_nodes := Map.empty, tm_head := None\<rparr>)
   = Some (Some 7, timer_demo 0)"
  by (simp add: xy_timer_create_def xy_timer_insert_def timer_put_def timer_insert_loop.simps timer_link_pre_def
      timer_link_next_def timer_demo_def xy_timer_get_tick_def timer_junk_def)

lemma timer_demo_idle: "timers_idle (timer_demo now) [7] (\<lambda>_. the (tm_nodes (timer_demo now) 7))"
  by (simp add: timers_idle_def timer_list_def timer_demo_def timer_junk_def)

text \<open>After 14 ticks it has fired at 3, 8 and 13, and four of its five ticks are left.\<close>

theorem timer_fires_in_time_witness:
  "\<exists>s' xs' calls. xy_timer_ticks (\<lambda>f p prm s. Some s) (timer_demo 14) = Some s'
     \<and> tm_calls s' = tm_calls (timer_demo 14) @ calls
     \<and> count_list calls (7, 9) = 3 \<and> (7, 4) \<in> set (timer_times (tm_nodes s') 0 xs')"
proof -
  have "quiet (\<lambda>f p prm s. Some s)" by (simp add: quiet_def)
  then show ?thesis
    using timer_fires_in_time [where call = "\<lambda>f p prm s. Some s", OF _ timer_demo_idle [of 14], where a = 7 and t = 3 and n = 14 and r = 5]
    by (fastforce simp: timer_demo_def timer_junk_def Let_def)
qed

lemma timer_create_spec:
  assumes "timer_list s xs" and al: "alloc (tm_nodes s) = Some (p, junk) \<and> p \<notin> set xs"
  shows "\<exists>s' xs'. xy_timer_create alloc cnt reload pfunc params s = Some (Some p, s') \<and> timer_list s' xs'
        \<and> timer_times (tm_nodes s') 0 xs' = insert_time (p, unat (cnt + tm_tick s - tm_tick_pre s)) (timer_times (tm_nodes s) 0 xs)"
proof -
  let ?n = "junk\<lparr>tn_cnt := cnt + tm_tick s - tm_tick_pre s, tn_reload := reload, tn_func := pfunc, tn_parameter := params, tn_flag := 0\<rparr>"
  let ?s = "s\<lparr>tm_nodes := (tm_nodes s)(p \<mapsto> ?n)\<rparr>"
  have l: "timer_list ?s xs" using assms al by (simp add: timer_list_other_node)
  have t: "timer_times (tm_nodes ?s) 0 xs = timer_times (tm_nodes s) 0 xs" using al by (intro timer_times_cong) auto
  have n: "tm_nodes ?s p = Some ?n" by simp
  obtain s' xs' where "xy_timer_insert p ?s = Some s'" "timer_list s' xs'"
    "timer_times (tm_nodes s') 0 xs' = insert_time (p, unat (tn_cnt ?n)) (timer_times (tm_nodes ?s) 0 xs)"
    using xy_timer_insert_spec [OF l conjunct2 [OF al] n] by blast
  then show ?thesis
    using al t by (auto simp: xy_timer_create_def xy_timer_get_tick_def)
qed

lemma timer_change_cnt_spec:
  assumes "timer_list s xs" and a: "a \<in> set xs"
  shows "\<exists>s' xs'. xy_timer_change_cnt (Some a) cnt s = Some s' \<and> timer_list s' xs'
        \<and> timer_times (tm_nodes s') 0 xs' = insert_time (a, unat (cnt + tm_tick s - tm_tick_pre s))
            (filter (\<lambda>(x, u). x \<noteq> a) (timer_times (tm_nodes s) 0 xs))"
proof -
  obtain s1 xs1 where r: "xy_timer_remove a s = Some s1" "timer_list s1 xs1" "set xs1 = set xs - {a}"
    "timer_times (tm_nodes s1) 0 xs1 = filter (\<lambda>(x, u). x \<noteq> a) (timer_times (tm_nodes s) 0 xs)" "timer_frame (set xs - {a}) s s1"
    using xy_timer_remove_spec [OF assms(1) a] by blast
  obtain n where "tm_nodes s a = Some n" using timer_list_nodes [OF assms(1) a] by blast
  then have na: "tm_nodes s1 a = Some n" using r(5) by (simp add: timer_frame_def)
  let ?n = "n\<lparr>tn_cnt := cnt + tm_tick s - tm_tick_pre s\<rparr>"
  let ?s = "s1\<lparr>tm_nodes := (tm_nodes s1)(a \<mapsto> ?n)\<rparr>"
  have nin: "a \<notin> set xs1" using r(3) by simp
  have l: "timer_list ?s xs1" using r(2) nin by (simp add: timer_list_other_node)
  have t: "timer_times (tm_nodes ?s) 0 xs1 = timer_times (tm_nodes s1) 0 xs1" using nin by (intro timer_times_cong) auto
  have n: "tm_nodes ?s a = Some ?n" by simp
  obtain s' xs' where i: "xy_timer_insert a ?s = Some s'" "timer_list s' xs'"
    "timer_times (tm_nodes s') 0 xs' = insert_time (a, unat (tn_cnt ?n)) (timer_times (tm_nodes ?s) 0 xs1)"
    using xy_timer_insert_spec [OF l nin n] by blast
  have "xy_timer_change_cnt (Some a) cnt s = Some s'"
    using r(1,5) na i(1) by (simp add: xy_timer_change_cnt_def timer_put_def xy_timer_get_tick_def timer_frame_def)
  then show ?thesis
    using i t r(4) by auto
qed

lemma timer_kill_spec:
  assumes "timer_list s xs" and a: "a \<in> set xs \<and> tn_flag (the (tm_nodes s a)) = 0"
  shows "\<exists>s' xs'. xy_timer_kill (Some a) s = Some s' \<and> timer_list s' xs' \<and> tm_nodes s' a = None
        \<and> timer_times (tm_nodes s') 0 xs' = filter (\<lambda>(x, u). x \<noteq> a) (timer_times (tm_nodes s) 0 xs)"
proof -
  obtain s1 xs1 where r: "xy_timer_remove a s = Some s1" "timer_list s1 xs1" "set xs1 = set xs - {a}"
    "timer_times (tm_nodes s1) 0 xs1 = filter (\<lambda>(x, u). x \<noteq> a) (timer_times (tm_nodes s) 0 xs)" "timer_frame (set xs - {a}) s s1"
    using xy_timer_remove_spec [OF assms(1) conjunct1 [OF a]] by blast
  obtain n where n: "tm_nodes s a = Some n" using timer_list_nodes [OF assms(1) conjunct1 [OF a]] by blast
  then have na: "tm_nodes s1 a = Some n" using r(5) by (simp add: timer_frame_def)
  let ?s = "s1\<lparr>tm_nodes := (tm_nodes s1)(a := None)\<rparr>"
  have nin: "a \<notin> set xs1" using r(3) by simp
  have "xy_timer_kill (Some a) s = Some ?s"
    using r(1) n na a by (simp add: xy_timer_kill_def timer_put_def)
  moreover have "timer_list ?s xs1" using r(2) nin by (simp add: timer_list_other_node)
  moreover have "timer_times (tm_nodes ?s) 0 xs1 = timer_times (tm_nodes s1) 0 xs1" using nin by (intro timer_times_cong) auto
  ultimately show ?thesis
    using r(4) by (intro exI [of _ ?s] exI [of _ xs1]) simp
qed

lemma timer_change_spec:
  assumes "timer_list s xs" and a: "a \<in> set xs"
  shows "\<exists>s' s''. xy_timer_change_reload (Some a) reload s = Some s' \<and> xy_timer_change_func (Some a) pfunc s = Some s''
        \<and> timer_list s' xs \<and> timer_list s'' xs \<and> timer_times (tm_nodes s') 0 xs = timer_times (tm_nodes s) 0 xs
        \<and> timer_times (tm_nodes s'') 0 xs = timer_times (tm_nodes s) 0 xs"
proof -
  obtain n where n: "tm_nodes s a = Some n" using timer_list_nodes [OF assms(1) a] by blast
  have upd: "timer_list (s\<lparr>tm_nodes := (tm_nodes s)(a \<mapsto> m)\<rparr>) xs
      \<and> timer_times ((tm_nodes s)(a \<mapsto> m)) 0 xs = timer_times (tm_nodes s) 0 xs"
    if "tn_cnt m = tn_cnt n" "tn_pre m = tn_pre n" "tn_next m = tn_next n" for m
  proof
    show "timer_times ((tm_nodes s)(a \<mapsto> m)) 0 xs = timer_times (tm_nodes s) 0 xs" using n that by (intro timer_times_cong) auto
    have "timer_total ((tm_nodes s)(a \<mapsto> m)) xs = timer_total (tm_nodes s) xs" using n that by (intro timer_total_cong) auto
    moreover have "dseg ((tm_nodes s)(a \<mapsto> m)) None (tm_head s) xs (last_or None xs) None"
      using timer_list_dseg(1) [OF assms(1)] by (rule dseg_cong [rotated]) (use n that in auto)
    ultimately show "timer_list (s\<lparr>tm_nodes := (tm_nodes s)(a \<mapsto> m)\<rparr>) xs" using assms by (simp add: timer_list_def)
  qed
  show ?thesis
    using upd [of "n\<lparr>tn_reload := reload\<rparr>"] upd [of "n\<lparr>tn_func := pfunc\<rparr>"] n
    by (simp add: xy_timer_change_reload_def xy_timer_change_func_def timer_put_def)
qed

text \<open>
  C24. Every operation does to the times of the timers what its name says, and keeps the list linked in
  both directions: creating a timer, and changing its count, puts it where its count is due, behind the
  timers due at the same tick, and changes no other time; killing an idle timer takes out just that one
  and frees it; changing period or function changes no time at all.
\<close>

theorem timer_operations:
  assumes "timer_list s xs"
  shows "(alloc (tm_nodes s) = Some (p, junk) \<and> p \<notin> set xs \<longrightarrow>
      (\<exists>s' xs'. xy_timer_create alloc cnt reload pfunc params s = Some (Some p, s') \<and> timer_list s' xs'
        \<and> timer_times (tm_nodes s') 0 xs' = insert_time (p, unat (cnt + tm_tick s - tm_tick_pre s)) (timer_times (tm_nodes s) 0 xs)))
    \<and> (a \<in> set xs \<longrightarrow>
      (\<exists>s' xs'. xy_timer_change_cnt (Some a) cnt s = Some s' \<and> timer_list s' xs'
        \<and> timer_times (tm_nodes s') 0 xs' = insert_time (a, unat (cnt + tm_tick s - tm_tick_pre s))
            (filter (\<lambda>(x, u). x \<noteq> a) (timer_times (tm_nodes s) 0 xs))))
    \<and> (a \<in> set xs \<and> tn_flag (the (tm_nodes s a)) = 0 \<longrightarrow>
      (\<exists>s' xs'. xy_timer_kill (Some a) s = Some s' \<and> timer_list s' xs' \<and> tm_nodes s' a = None
        \<and> timer_times (tm_nodes s') 0 xs' = filter (\<lambda>(x, u). x \<noteq> a) (timer_times (tm_nodes s) 0 xs)))
    \<and> (a \<in> set xs \<longrightarrow>
      (\<exists>s' s''. xy_timer_change_reload (Some a) reload s = Some s' \<and> xy_timer_change_func (Some a) pfunc s = Some s''
        \<and> timer_list s' xs \<and> timer_list s'' xs \<and> timer_times (tm_nodes s') 0 xs = timer_times (tm_nodes s) 0 xs
        \<and> timer_times (tm_nodes s'') 0 xs = timer_times (tm_nodes s) 0 xs))"
  using timer_create_spec [OF assms] timer_change_cnt_spec [OF assms] timer_kill_spec [OF assms] timer_change_spec [OF assms]
  by (intro conjI impI) blast+

theorem timer_operations_witness:
  "\<exists>s' xs'. xy_timer_create (\<lambda>h. Some (8, timer_junk)) 2 0 None 0 (timer_demo 0) = Some (Some 8, s') \<and> timer_list s' xs'
     \<and> timer_times (tm_nodes s') 0 xs' = [(8, 2), (7, 3)]"
proof -
  have "timer_list (timer_demo 0) [7]" using timer_demo_idle [of 0] by (simp add: timers_idle_def)
  then show ?thesis
    using timer_operations [where s = "timer_demo 0" and xs = "[7]" and alloc = "\<lambda>h. Some (8, timer_junk)" and p = 8
        and junk = timer_junk and cnt = 2 and reload = 0 and pfunc = None and params = 0]
    by (simp add: timer_demo_def Let_def)
qed

text \<open>
  Of two timers due at the same tick only the first fires in the call that reaches it: the loop stops
  as soon as no tick is left, and the second one waits for the next call.
\<close>

lemma timer_simultaneous_late:
  assumes "0 < t" "R a = 0" "R b = 0"
  shows "run_ticks R t [(a, t), (b, t)] = ([(b, 0)], [a])"
  using assms by (simp add: run_ticks.simps(2) restart_def)

end
