(* ===== verification/Spec2Isabelle.thy ===== *)
theory Spec2Isabelle
  imports Xy_Prelude Xy_Tlv Xy_Tlv_Correct Xy_Fifo Xy_Ring_Buffer Xy_Ring_Buffer_Correct
    Mb_Slave Mb_Crc Mb_Banks Mb_Slave_Correct Mb_Properties
    Xy_Broker Xy_Broker_Correct Xy_Broker_Properties
    Xy_Iso7816 Xy_Iso7816_Correct Xy_Iso7816_Properties
    Xy_Common Xy_Ctype Xy_Stdlib Xy_Stdlib_Numbers Xy_Stdlib_Sorting
    Xy_String Xy_String_Correct
    Xy_Stdio Xy_Stdio_Correct Xy_Stdio_Properties Xy_Stdio_Float Xy_Stdio_Scan
    Xy_Encodings Xy_Encodings_Correct Xy_Hash Xy_Hash_Correct Xy_Crc Xy_Crc_Correct
    Xy_Aes Xy_Aes_Correct Xy_Chacha Xy_Chacha_Correct Xy_Csprng Xy_Csprng_Correct
    Blake2_Rfc7693 Xy_Blake2 Xy_Blake2_Correct
    Eflash Eflash_Correct Nor_Flash Nor_Flash_Correct Xy_Mem Xy_Mem_Correct Xy_Mem_Properties
    Xy_Timer Xy_Timer_Correct Xy_Timer_Properties
begin

text \<open>
  XinYi is an embedded C framework: a small C library, data management, inter-task messaging,
  network protocols, cryptography and hardware layers for 32-bit microcontrollers. This
  development models its own core logic, component by component, under \<open>src/components\<close>, with
  the theorems that make each component correct or show where it is not.

  Conventions (\<open>Xy_Prelude\<close>). A C object is a list of its cells, a pointer into it an offset or the
  suffix that starts there; an argument that is compared with \<open>NULL\<close> is an \<open>option\<close>. Unsigned
  integers are words of their width; arithmetic after integer promotion is on \<open>nat\<close> or \<open>int\<close>, with
  the conversion back written out, and \<open>int\<close> and \<open>long\<close> have 32 bits. A function that can reach
  undefined behaviour returns an \<open>option\<close>, and \<open>None\<close> means just that (or, for a
  \<open>partial_function\<close>, that it does not return). Error codes are values of a datatype per
  component. Static variables are a record that is passed and returned. Code outside the
  repository (allocator, UART, handlers, callbacks) is a parameter.

  Components, each with the theory of its definitions first.

  \<^item> TLV codec, \<open>dm/xy_tlv/xy_tlv.c\<close>: \<open>Xy_Tlv\<close> has the buffers, iterators and statistics and every
    function; \<open>Xy_Tlv_Correct\<close> relates the bytes to lists of elements: encoding and decoding are
    inverse, validation decides the serial form, lookups return the first match, the decoder is
    memory safe on any input, and the 16-bit space check of the encoder wraps.
  \<^item> Ring buffer, \<open>clib/xy_clib/xy_rb.c\<close>: \<open>Xy_Fifo\<close> states what a bounded queue promises as a locale,
    \<open>Xy_Ring_Buffer\<close> has the operations, \<open>Xy_Ring_Buffer_Correct\<close> proves that they implement it, calls
    that are refused included, that block transfers cross the end of the pool correctly, and what the overwriting writes keep.
  \<^item> Modbus slave, \<open>net/modbus/mb_slave.c\<close>: \<open>Mb_Slave\<close> has the slave and every function, \<open>Mb_Crc\<close> the
    linearity of the checksum, \<open>Mb_Banks\<close> the locale of the register banks and its interpretations,
    \<open>Mb_Slave_Correct\<close> the behaviour of every request handler, \<open>Mb_Properties\<close> the properties of
    whole frames: safety on any input, damaged frames, reading back what was written, the requests of
    every function that are refused and with which code, assembly by silence on the line.
  \<^item> Message broker, \<open>ipc/xy_broker/xy_broker.c\<close>: \<open>Xy_Broker\<close> has the global state and every function,
    with handlers as parameters that may change the broker; \<open>Xy_Broker_Correct\<close> the invariant of the
    state and the queues as lists, \<open>Xy_Broker_Properties\<close> reachability, delivery in order,
    termination of the processing loop, and what requests and topics really do.
  \<^item> Smart card driver, \<open>net/xy_iso7816/xy_iso7816.c\<close>: \<open>Xy_Iso7816\<close> has every function over a UART,
    \<open>Xy_Iso7816_Correct\<close> the transfer lemmas over a scripted line, \<open>Xy_Iso7816_Properties\<close> the
    properties of reset, chained responses, PIN frames and decoding of digits.
  \<^item> Arithmetic without division, \<open>clib/xy_clib/xy_common.c\<close>: \<open>Xy_Common\<close> has the routines and shows that
    quotients, remainders and packed decimals are exact.
  \<^item> Standard library, \<open>clib/xy_clib/xy_ctype.h\<close> and \<open>clib/xy_clib/xy_stdlib.c\<close>: \<open>Xy_Ctype\<close> has the
    character classes, \<open>Xy_Stdlib\<close> the conversions, sorting and searching, \<open>Xy_Stdlib_Numbers\<close> shows
    that the readers saturate and that numbers survive being written and read, \<open>Xy_Stdlib_Sorting\<close>
    that the sort returns and sorts and that the search finds.
  \<^item> Strings and memory, \<open>clib/xy_clib/xy_string.c\<close>: \<open>Xy_String\<close> has every function,
    \<open>Xy_String_Correct\<close> the overlapping moves, the first occurrence of a string, the tokens of
    \<open>xy_strtok\<close> and the comparisons without case.
  \<^item> Formatted output and input, \<open>clib/xy_clib/xy_stdio.c\<close>: \<open>Xy_Stdio\<close> has every function, the variable
    arguments as a list of typed values; \<open>Xy_Stdio_Correct\<close> shows what each directive writes and how it is read
    from the format, \<open>Xy_Stdio_Properties\<close> that whole formats of the directives that keep to the C standard are
    printed as it says, truncated when asked, and where the code departs from it (a width of \<open>%c\<close>, the minus sign of
    \<open>%s\<close>, \<open>%u\<close> and \<open>%x\<close>, the least value of \<open>%lld\<close>), \<open>Xy_Stdio_Float\<close> which floats are printed rounded
    correctly and which are not, \<open>Xy_Stdio_Scan\<close> that a printed table is read back.
  \<^item> Encodings, \<open>crypto/xy_hex\<close> and \<open>crypto/xy_base\<close>: \<open>Xy_Encodings\<close> has the functions,
    \<open>Xy_Encodings_Correct\<close> the texts they write, those of base 64 over the alphabet of RFC 4648, that
    these are read back, and that buffers that are too small are refused.
  \<^item> Hashes, \<open>crypto/xy_hmac\<close> and \<open>crypto/xy_md\<close>: \<open>Xy_Hash\<close> has SHA-256, MD5 and the keyed hash;
    \<open>Xy_Hash_Correct\<close> states what a buffered block hash promises as a locale, interprets it for both
    and proves that pieces do not matter and that the keyed hash is that of RFC 2104.
  \<^item> Checksums, \<open>crypto/xy_crc\<close>: \<open>Xy_Crc\<close> has the calculations and the named variants,
    \<open>Xy_Crc_Correct\<close> compares them with the shift register of the polynomial, the table method with
    the software one, and the Modbus variant with the checksums of the slave and of the TLV codec.
  \<^item> Block cipher, \<open>crypto/xy_aes\<close>: \<open>Xy_Aes\<close> has the key schedule, the block functions and the chained
    mode over one memory; \<open>Xy_Aes_Correct\<close> shows that the block functions are inverse for every key, and,
    from a locale of block ciphers interpreted on them, that the chained mode is inverted in place or not.
  \<^item> Authenticated cipher, \<open>crypto/xy_chacha\<close>: \<open>Xy_Chacha\<close> has ChaCha20, Poly1305 and their combination, with
    the width of \<open>size_t\<close> as a parameter; \<open>Xy_Chacha_Correct\<close> states the keystream byte by byte, the message
    that the authenticator has absorbed whatever the pieces, and that deciphering restores the plaintext
    or refuses the tag. Where \<open>size_t\<close> has 32 bits the combination is undefined, which is a property too.
  \<^item> Random numbers, \<open>crypto/xy_rng/xy_csprng.c\<close>: \<open>Xy_Csprng\<close> has the generator, \<open>Xy_Csprng_Correct\<close> shows that
    it is the keystream of the cipher library and that bounded numbers are unbiased.
  \<^item> BLAKE2, \<open>crypto/xy_blake\<close>: \<open>Xy_Blake2\<close> has BLAKE2b and BLAKE2s as two instances of one text,
    \<open>Blake2_Rfc7693\<close> is a specification written from RFC 7693 alone, with the initial values as the fractions of
    the square roots of the first primes. \<open>Xy_Blake2_Correct\<close> proves the buffering once, in a locale
    interpreted for both, that the compression functions and the start of the code are those of the
    specification, and that the result is its hash.
  \<^item> Serial flash driver, \<open>dm/norflash/norflash.c\<close>: \<open>Nor_Flash\<close> has every function over the functions of the
    hardware, \<open>Nor_Flash_Correct\<close> the pieces of a write, the contents of a read and when an erase returns.
  \<^item> Flash simulation, \<open>dm/xy_eeprom/eflash.c\<close>: \<open>Eflash\<close> has the handle and every function,
    \<open>Eflash_Correct\<close> shows that no call gets stuck unless \<open>eflash_init\<close> failed on an initialised handle, that what is written is read back, what happens to the
    pages around it, and where the range check wraps.
  \<^item> Heap, \<open>dm/xy_mem/xy_mem.c\<close>: \<open>Xy_Mem\<close> has the free list inside the pool's bytes and every function,
    \<open>Xy_Mem_Correct\<close> refines them to lists of blocks, \<open>Xy_Mem_Properties\<close> shows for every correct client that
    its blocks stay disjoint and untouched and that the heap becomes one free block again.
  \<^item> Software timers, \<open>time_tick/xy_timer/xy_timer.c\<close>: \<open>Xy_Timer\<close> has the list of timers in a store of nodes
    and every function, \<open>Xy_Timer_Correct\<close> refines the relative times to absolute ones,
    \<open>Xy_Timer_Properties\<close> shows that each operation means what it says and which timers fire, how often,
    in a call that finds up to 65535 ticks passed, those due at the very last tick included.

  How they interact. The Modbus slave, the broker and the drivers are independent of each other;
  the slave, the TLV codec and the checksum library carry the same checksum, which \<open>Xy_Crc_Correct\<close>
  proves. The string and
  number routines build on the character classes. The copy of the heap library is shown equal to
  \<open>xy_memmove\<close> of the string library. The random number generator carries its own copy of the ChaCha20 block,
  which \<open>Xy_Csprng_Correct\<close> proves equal to that of the cipher library. Callbacks of timers and handlers of messages are parameters; where a
  theorem needs it, they are assumed not to call back.

  Loops and bounds. Loops over a known count are recursion over a list of indices or structural
  recursion, loops with a decreasing quantity have a termination proof, and loops whose end depends
  on handlers, cards or bases are \<open>partial_function\<close>s, with theorems that they return. No fuel is
  used. The theorems on the heap ask for a pool that ends below the last eight addresses and requests
  whose rounded size fits 32 bits.

  Not modelled. The operating systems under \<open>kernel/osal\<close>, \<open>net/at\<close>, \<open>net/nanopb\<close>, \<open>dm/coreJSON\<close>,
  \<open>dm/micro_ecc\<close>, the SD library and the assembler curve arithmetic are third-party code. Hardware
  layers and drivers (\<open>hal\<close>, \<open>drivers\<close>) write to device registers. Floating point (\<open>xy_math.c\<close>, the
  decimal conversions of \<open>xy_stdlib.c\<close>) is left out except for the bits that are printed, as are functions
  that only print.
  The remaining emulations of EEPROM and the state machine do not compile. Curve25519 converts between
  bytes and limbs of different sizes and has a stub for the verification of signatures. The other NOR flash
  layer, the alarms, the AT command clients and the battery and charger policies are thin layers over
  templates, modems and hardware drivers.
\<close>

end
